(* ===== verification/Host_Prelude.thy ===== *)
theory Host_Prelude
  imports Main "HOL-Library.Word"
begin

text \<open>
  Shared vocabulary of the development: the machine integers of the Rust sources, results that
  may also be a panic, I/O errors as values, time in nanoseconds, byte buffers, and the
  little-endian integer codecs that every wire format of the program uses.
\<close>

unbundle bit_operations_syntax

named_theorems wire_defs \<open>definitions of the wire constants\<close>
named_theorems step_defs \<open>definitions of the step functions\<close>

section \<open>Machine integers, time, errors\<close>

type_synonym u8 = "8 word"
type_synonym u16 = "16 word"
type_synonym u32 = "32 word"
type_synonym u64 = "64 word"
type_synonym bytes = "u8 list"

text \<open>\<open>Instant\<close> and \<open>Duration\<close> are nanosecond counts.\<close>

type_synonym instant = nat
type_synonym duration = nat

abbreviation millis :: "nat \<Rightarrow> duration" where
  "millis n \<equiv> n * 1000000"

text \<open>
  A \<open>Result\<close> whose computation may also panic (an index or a slice out of range, an
  arithmetic overflow): a Rust panic is the value \<open>Panic\<close>, never an unspecified HOL value.
\<close>

datatype ('e, 'a) outcome = Done 'a | Fail 'e | Panic

fun and_then :: "('e, 'a) outcome \<Rightarrow> ('a \<Rightarrow> ('e, 'b) outcome) \<Rightarrow> ('e, 'b) outcome" where
  "and_then (Done x) f = f x"
| "and_then (Fail e) f = Fail e"
| "and_then Panic f = Panic"

lemma and_then_Done: "and_then m f = Done y \<longleftrightarrow> (\<exists>x. m = Done x \<and> f x = Done y)"
  by (cases m) auto

lemma and_then_Panic: "and_then m f = Panic \<longleftrightarrow> m = Panic \<or> (\<exists>x. m = Done x \<and> f x = Panic)"
  by (cases m) auto

lemma and_then_cong [fundef_cong]:
  "m = m' \<Longrightarrow> (\<And>x. m' = Done x \<Longrightarrow> f x = g x) \<Longrightarrow> and_then m f = and_then m' g"
  by (cases m') auto

text \<open>The computation returns, and what it returns satisfies \<open>P\<close>: total correctness of a step.\<close>

definition completes :: "('e, 'a) outcome \<Rightarrow> ('a \<Rightarrow> bool) \<Rightarrow> bool" where
  "completes m P \<longleftrightarrow> (\<exists>x. m = Done x \<and> P x)"

lemma completes_simps [simp]:
  "completes (Done x) P \<longleftrightarrow> P x" "\<not> completes (Fail e) P" "\<not> completes Panic P"
  by (auto simp: completes_def)

lemma completes_then: "completes (and_then m f) P \<longleftrightarrow> completes m (\<lambda>x. completes (f x) P)"
  by (auto simp: completes_def and_then_Done)

lemma completes_mono: "completes m P \<Longrightarrow> (\<And>x. P x \<Longrightarrow> Q x) \<Longrightarrow> completes m Q"
  by (auto simp: completes_def)

text \<open>The \<open>io::ErrorKind\<close>s the sources build or test, and the raw OS code when there is one.\<close>

datatype io_kind =
    Interrupted | TimedOut | WouldBlock | InvalidData | InvalidInput | WriteZero
  | NetworkUnreachable | ConnectionAborted | NotFound | PermissionDenied | AlreadyExists
  | Unsupported | OtherKind

datatype io_error = IoError (err_kind: io_kind) (raw_os_error: "int option")

abbreviation io_err :: "io_kind \<Rightarrow> io_error" where
  "io_err k \<equiv> IoError k None"

section \<open>Words\<close>

lemma xor_cancel_right [simp]: "a XOR c = b XOR c \<longleftrightarrow> a = b" for a b c :: "'a::len word"
proof
  assume eq: "a XOR c = b XOR c"
  show "a = b"
  proof (rule bit_word_eqI)
    fix n assume "n < LENGTH('a)"
    have "bit (a XOR c) n = bit (b XOR c) n" by (simp only: eq)
    then show "bit a n = bit b n" by (auto simp: bit_xor_iff)
  qed
qed simp

lemma ucast_u8_inj: "(ucast (a :: u8) :: 'a::len word) = ucast b \<longleftrightarrow> a = b" if "8 \<le> LENGTH('a)"
proof
  assume eq: "(ucast a :: 'a word) = ucast b"
  show "a = b"
  proof (rule bit_word_eqI)
    fix n assume n: "n < LENGTH(8)"
    have "bit (ucast a :: 'a word) n = bit (ucast b :: 'a word) n" by (simp only: eq)
    then show "bit a n = bit b n" using that n by (simp add: bit_ucast_iff)
  qed
qed simp

lemma xor_cancel_left [simp]: "c XOR a = c XOR b \<longleftrightarrow> a = b" for a b c :: "'a::len word"
  by (simp add: xor.commute [of c])

section \<open>Naturals\<close>

lemma mod_eq_close_le:
  fixes a b m :: nat
  assumes "a mod m = b mod m" "a \<le> b" "b < a + m"
  shows "a = b"
proof -
  have "m dvd b - a" using assms(1,2) by (metis mod_eq_dvd_iff_nat)
  moreover have "b - a < m" using assms(2,3) by simp
  ultimately have "b - a = 0" using nat_dvd_not_less by blast
  with assms(2) show ?thesis by simp
qed

lemma mod_eq_close: "a mod m = b mod m \<Longrightarrow> a < b + m \<Longrightarrow> b < a + m \<Longrightarrow> a = b" for a b m :: nat
  by (cases "a \<le> b") (metis mod_eq_close_le, metis mod_eq_close_le nat_le_linear)

section \<open>Byte buffers\<close>

text \<open>\<open>&bytes[off..off + n]\<close>, for ranges inside the buffer.\<close>

definition sub_bytes :: "nat \<Rightarrow> nat \<Rightarrow> 'a list \<Rightarrow> 'a list" where
  "sub_bytes off n bs = take n (drop off bs)"

text \<open>\<open>bytes[off..off + xs.len()].copy_from_slice(xs)\<close>, for ranges inside the buffer.\<close>

definition put_bytes :: "nat \<Rightarrow> 'a list \<Rightarrow> 'a list \<Rightarrow> 'a list" where
  "put_bytes off xs bs = take off bs @ xs @ drop (off + length xs) bs"

lemma length_sub_bytes [simp]: "off + n \<le> length bs \<Longrightarrow> length (sub_bytes off n bs) = n"
  by (simp add: sub_bytes_def)

lemma nth_sub_bytes [simp]:
  "off + n \<le> length bs \<Longrightarrow> i < n \<Longrightarrow> sub_bytes off n bs ! i = bs ! (off + i)"
  by (simp add: sub_bytes_def)

lemma length_put_bytes [simp]:
  "off + length xs \<le> length bs \<Longrightarrow> length (put_bytes off xs bs) = length bs"
  by (simp add: put_bytes_def)

lemma nth_put_bytes:
  assumes "off + length xs \<le> length bs" and "i < length bs"
  shows "put_bytes off xs bs ! i =
    (if off \<le> i \<and> i < off + length xs then xs ! (i - off) else bs ! i)"
  using assms by (auto simp: put_bytes_def nth_append min_def)

lemma nth_put_outside [simp]:
  "off + length xs \<le> length bs \<Longrightarrow> i < length bs \<Longrightarrow> i < off \<or> off + length xs \<le> i \<Longrightarrow>
   put_bytes off xs bs ! i = bs ! i"
  by (auto simp: nth_put_bytes)

lemma nth_put_inside [simp]:
  "off + length xs \<le> length bs \<Longrightarrow> off \<le> i \<Longrightarrow> i < off + length xs \<Longrightarrow>
   put_bytes off xs bs ! i = xs ! (i - off)"
  by (auto simp: nth_put_bytes)

lemma sub_put_same [simp]:
  "off + length xs \<le> length bs \<Longrightarrow> n = length xs \<Longrightarrow> sub_bytes off n (put_bytes off xs bs) = xs"
  by (simp add: sub_bytes_def put_bytes_def)

lemma sub_put_disjoint [simp]:
  assumes "off + length xs \<le> length bs" and "a + n \<le> length bs"
    and "a + n \<le> off \<or> off + length xs \<le> a"
  shows "sub_bytes a n (put_bytes off xs bs) = sub_bytes a n bs"
  using assms by (intro nth_equalityI) (auto simp: nth_put_bytes)

lemma sub_replicate [simp]: "off + n \<le> k \<Longrightarrow> sub_bytes off n (replicate k x) = replicate n x"
  by (simp add: sub_bytes_def min_def)

lemma sub_bytes_all: "sub_bytes 0 (length bs) bs = bs"
  by (simp add: sub_bytes_def)

lemma sub_bytes_append_right:
  "length pre = off \<Longrightarrow> n = length xs \<Longrightarrow> sub_bytes off n (pre @ xs @ post) = xs"
  by (simp add: sub_bytes_def)

text \<open>Taking a buffer apart, and building one up field by field.\<close>

lemma sub_bytes_split: "sub_bytes off (m + n) bs = sub_bytes off m bs @ sub_bytes (off + m) n bs"
  by (simp add: sub_bytes_def take_add add.commute)

lemma sub_bytes_one: "i < length bs \<Longrightarrow> sub_bytes i (Suc 0) bs = [bs ! i]"
  by (simp add: sub_bytes_def take_Suc_conv_app_nth Cons_nth_drop_Suc [symmetric])

lemma put_first: "put_bytes 0 xs bs = xs @ drop (length xs) bs"
  by (simp add: put_bytes_def)

lemma put_next: "off = length pre \<Longrightarrow> put_bytes off xs (pre @ rest) = (pre @ xs) @ drop (length xs) rest"
  by (simp add: put_bytes_def)

lemma sub_bytes_take: "off + n \<le> k \<Longrightarrow> sub_bytes off n (take k bs) = sub_bytes off n bs"
  by (simp add: sub_bytes_def drop_take min_def)

lemma sub_bytes_two: "i + 2 \<le> length bs \<Longrightarrow> sub_bytes i 2 bs = [bs ! i, bs ! Suc i]"
  using sub_bytes_split [of i 1 1 bs] by (simp add: sub_bytes_one numeral_2_eq_2)

text \<open>Indexing that panics out of range.\<close>

definition byte_at :: "bytes \<Rightarrow> nat \<Rightarrow> ('e, u8) outcome" where
  "byte_at bs i = (if i < length bs then Done (bs ! i) else Panic)"

definition slice_at :: "bytes \<Rightarrow> nat \<Rightarrow> nat \<Rightarrow> ('e, bytes) outcome" where
  "slice_at bs off n = (if off + n \<le> length bs then Done (sub_bytes off n bs) else Panic)"

lemma byte_at_in [simp]: "i < length bs \<Longrightarrow> byte_at bs i = Done (bs ! i)"
  by (simp add: byte_at_def)

lemma slice_at_in [simp]: "off + n \<le> length bs \<Longrightarrow> slice_at bs off n = Done (sub_bytes off n bs)"
  by (simp add: slice_at_def)

end
