(* ===== verification/Le_Codec.thy ===== *)
theory Le_Codec
  imports Host_Prelude
begin

text \<open>
  Little-endian integers. \<open>to_le_bytes\<close> and \<open>from_le_bytes\<close> of the Rust standard library,
  for every width at once; the interface \<open>le_codec\<close> that the frame formats rely on, with the
  laws of reading a written field, interpreted for \<open>u16\<close>, \<open>u32\<close> and \<open>u64\<close>; and the
  readers \<open>read_u16\<close>, \<open>read_i16\<close>, \<open>read_u32\<close>, \<open>read_u64\<close> of \<open>protocol.rs\<close>, which panic
  out of range.
\<close>

section \<open>Conversions\<close>

fun le_bytes :: "nat \<Rightarrow> 'a::len word \<Rightarrow> bytes" where
  "le_bytes 0 w = []"
| "le_bytes (Suc n) w = ucast w # le_bytes n (drop_bit 8 w)"

fun le_word :: "bytes \<Rightarrow> 'a::len word" where
  "le_word [] = 0"
| "le_word (b # bs) = ucast b OR push_bit 8 (le_word bs)"

lemma length_le_bytes [simp]: "length (le_bytes n w) = n"
  by (induction n arbitrary: w) auto

lemma le_word_le_bytes: "le_word (le_bytes n w) = take_bit (8 * n) (w :: 'a::len word)"
proof (induction n arbitrary: w)
  case 0
  show ?case by simp
next
  case (Suc n)
  have "ucast (ucast w :: u8) OR push_bit 8 (take_bit (8 * n) (drop_bit 8 w)) = take_bit (8 * Suc n) w"
    by (rule bit_word_eqI)
      (auto simp: bit_or_iff bit_ucast_iff bit_push_bit_iff bit_take_bit_iff bit_drop_bit_eq)
  with Suc.IH show ?case by simp
qed

lemma ucast_le_word_head:
  "ucast (ucast b OR push_bit 8 w :: 'a::len word) = b" if "8 \<le> LENGTH('a)" for b :: u8
  using that by (intro bit_word_eqI) (auto simp: bit_ucast_iff bit_or_iff bit_push_bit_iff)

lemma drop_le_word_tail:
  "drop_bit 8 (ucast b OR push_bit 8 w :: 'a::len word) = take_bit (LENGTH('a) - 8) w"
  if "8 \<le> LENGTH('a)" for b :: u8
  using that
  by (intro bit_word_eqI)
    (auto simp: bit_ucast_iff bit_or_iff bit_push_bit_iff bit_drop_bit_eq bit_take_bit_iff
      dest: bit_imp_le_length)

lemma le_bytes_take_bit: "8 * n \<le> k \<Longrightarrow> le_bytes n (take_bit k w) = le_bytes n (w :: 'a::len word)"
proof (induction n arbitrary: w k)
  case 0
  show ?case by simp
next
  case (Suc n)
  have head: "ucast (take_bit k w) = (ucast w :: u8)"
    using Suc.prems by (intro bit_word_eqI) (auto simp: bit_ucast_iff bit_take_bit_iff)
  have tail: "drop_bit 8 (take_bit k w) = take_bit (k - 8) (drop_bit 8 w)"
    by (rule bit_word_eqI) (auto simp: bit_take_bit_iff bit_drop_bit_eq)
  have "8 * n \<le> k - 8" using Suc.prems by simp
  then show ?case by (simp add: head tail Suc.IH)
qed

lemma le_bytes_le_word:
  "8 * length bs \<le> LENGTH('a) \<Longrightarrow> le_bytes (length bs) (le_word bs :: 'a::len word) = bs"
proof (induction bs)
  case Nil
  show ?case by simp
next
  case (Cons b bs)
  then have len: "8 \<le> LENGTH('a)" and short: "8 * length bs \<le> LENGTH('a) - 8" by auto
  have "le_bytes (length bs) (drop_bit 8 (ucast b OR push_bit 8 (le_word bs) :: 'a word))
      = le_bytes (length bs) (le_word bs :: 'a word)"
    using le_bytes_take_bit [OF short, of "le_word bs :: 'a word"] len
    by (simp only: drop_le_word_tail)
  with Cons len show ?case by (simp add: ucast_le_word_head)
qed

section \<open>The codec interface\<close>

locale le_codec =
  fixes enc :: "'w \<Rightarrow> bytes" and dec :: "bytes \<Rightarrow> 'w" and width :: nat
  assumes length_enc: "length (enc w) = width"
    and dec_enc: "dec (enc w) = w"
    and enc_dec: "length bs = width \<Longrightarrow> enc (dec bs) = bs"
begin

lemma enc_inj: "enc v = enc w \<Longrightarrow> v = w"
  by (metis dec_enc)

lemma dec_inj: "length as = width \<Longrightarrow> length bs = width \<Longrightarrow> dec as = dec bs \<Longrightarrow> as = bs"
  by (metis enc_dec)

lemma read_written:
  "off + width \<le> length bs \<Longrightarrow> dec (sub_bytes off width (put_bytes off (enc w) bs)) = w"
  by (simp add: length_enc dec_enc)

lemma read_elsewhere:
  "off + width \<le> length bs \<Longrightarrow> a + n \<le> length bs \<Longrightarrow> a + n \<le> off \<or> off + width \<le> a \<Longrightarrow>
   sub_bytes a n (put_bytes off (enc w) bs) = sub_bytes a n bs"
  by (simp add: length_enc)

lemma read_in_concat: "length pre = off \<Longrightarrow> dec (sub_bytes off width (pre @ enc w @ post)) = w"
  by (simp add: sub_bytes_append_right length_enc dec_enc)

lemma write_back:
  "off + width \<le> length bs \<Longrightarrow> enc (dec (sub_bytes off width bs)) = sub_bytes off width bs"
  by (simp add: enc_dec)

end

abbreviation le_u16 :: "u16 \<Rightarrow> bytes" where "le_u16 \<equiv> le_bytes 2"
abbreviation le_u32 :: "u32 \<Rightarrow> bytes" where "le_u32 \<equiv> le_bytes 4"
abbreviation le_u64 :: "u64 \<Rightarrow> bytes" where "le_u64 \<equiv> le_bytes 8"

lemma le_codec_word:
  assumes "8 * n = LENGTH('a::len)"
  shows "le_codec (le_bytes n :: 'a word \<Rightarrow> bytes) le_word n"
proof
  fix w :: "'a word" and bs :: bytes
  show "length (le_bytes n w) = n" by simp
  show "le_word (le_bytes n w) = w" by (simp add: le_word_le_bytes assms)
  show "le_bytes n (le_word bs :: 'a word) = bs" if "length bs = n"
    using le_bytes_le_word [of bs, where ?'a = 'a] that assms by simp
qed

interpretation u16_le: le_codec le_u16 le_word 2
  by (rule le_codec_word) simp

interpretation u32_le: le_codec le_u32 le_word 4
  by (rule le_codec_word) simp

interpretation u64_le: le_codec le_u64 le_word 8
  by (rule le_codec_word) simp

section \<open>Readers\<close>

definition read_u16 :: "bytes \<Rightarrow> nat \<Rightarrow> ('e, u16) outcome" where
  "read_u16 bs off = and_then (slice_at bs off 2) (\<lambda>s. Done (le_word s))"

text \<open>\<open>i16::from_le_bytes\<close>: the same bits, read as two's complement.\<close>

definition read_i16 :: "bytes \<Rightarrow> nat \<Rightarrow> ('e, int) outcome" where
  "read_i16 bs off = and_then (slice_at bs off 2) (\<lambda>s. Done (sint (le_word s :: u16)))"

definition read_u32 :: "bytes \<Rightarrow> nat \<Rightarrow> ('e, u32) outcome" where
  "read_u32 bs off = and_then (slice_at bs off 4) (\<lambda>s. Done (le_word s))"

definition read_u64 :: "bytes \<Rightarrow> nat \<Rightarrow> ('e, u64) outcome" where
  "read_u64 bs off = and_then (slice_at bs off 8) (\<lambda>s. Done (le_word s))"

lemma read_u16_in [simp]: "off + 2 \<le> length bs \<Longrightarrow> read_u16 bs off = Done (le_word (sub_bytes off 2 bs))"
  and read_i16_in [simp]: "off + 2 \<le> length bs \<Longrightarrow>
    read_i16 bs off = Done (sint (le_word (sub_bytes off 2 bs) :: u16))"
  and read_u32_in [simp]: "off + 4 \<le> length bs \<Longrightarrow> read_u32 bs off = Done (le_word (sub_bytes off 4 bs))"
  and read_u64_in [simp]: "off + 8 \<le> length bs \<Longrightarrow> read_u64 bs off = Done (le_word (sub_bytes off 8 bs))"
  by (simp_all add: read_u16_def read_i16_def read_u32_def read_u64_def)

lemma sint_u16_range: "- 32768 \<le> sint (w :: u16) \<and> sint w \<le> 32767"
  using sint_range_size [of w] by (simp add: word_size)

lemma unat_u16_range: "unat (w :: u16) \<le> 65535"
  using unsigned_less [of w, where ?'a = nat] by simp

lemma unat_u8_range: "unat (w :: u8) < 256"
  using unsigned_less [of w, where ?'a = nat] by simp

end
