(* ===== verification/Wire_F32.thy ===== *)
theory Wire_F32
  imports Complex_Main "HOL-Library.Log_Nat" Host_Prelude
begin

text \<open>
  The single-precision arithmetic that turns a wire coordinate into a lane. A finite \<open>f32\<close>
  is its exact rational value; every operation rounds to nearest, ties to even, on the grid of
  24-bit significands with the exponent bounded below by that of the subnormals. The program
  computes only with magnitudes far below the largest \<open>f32\<close>, so overflow to infinity
  never arises and is not represented.
\<close>

section \<open>Rounding\<close>

type_synonym f32 = rat

definition round_half_even :: "rat \<Rightarrow> int" where
  "round_half_even x =
     (let q = \<lfloor>x\<rfloor>; r = x - of_int q in
      if r < 1 / 2 then q else if 1 / 2 < r then q + 1 else if even q then q else q + 1)"

text \<open>The binary exponent of a nonzero value: \<open>2 powi e \<le> \<bar>x\<bar> < 2 powi (e + 1)\<close>.\<close>

definition f32_exponent :: "rat \<Rightarrow> int" where
  "f32_exponent x =
     (let (n, d) = quotient_of \<bar>x\<bar>; k = bitlen n - bitlen d in
      if 2 powi k \<le> \<bar>x\<bar> then k else k - 1)"

definition f32_round :: "rat \<Rightarrow> f32" where
  "f32_round x =
     (if x = 0 then 0
      else let q = 2 powi (max (f32_exponent x) (- 126) - 23)
           in of_int (round_half_even (x / q)) * q)"

definition f32_div :: "f32 \<Rightarrow> f32 \<Rightarrow> f32" where
  "f32_div a b = f32_round (a / b)"

definition f32_mul :: "f32 \<Rightarrow> f32 \<Rightarrow> f32" where
  "f32_mul a b = f32_round (a * b)"

text \<open>\<open>x.clamp(lo, hi)\<close>.\<close>

definition f32_clamp :: "f32 \<Rightarrow> f32 \<Rightarrow> f32 \<Rightarrow> f32" where
  "f32_clamp x lo hi = (if x < lo then lo else if hi < x then hi else x)"

lemma round_half_even_error: "\<bar>of_int (round_half_even x) - x\<bar> \<le> 1 / 2"
proof -
  have "of_int \<lfloor>x\<rfloor> \<le> x" and "x < of_int \<lfloor>x\<rfloor> + 1"
    using floor_correct [of x] by simp_all
  then show ?thesis by (auto simp: round_half_even_def Let_def)
qed

lemma round_half_even_int [simp]: "round_half_even (of_int k) = k"
  by (simp add: round_half_even_def)

lemma bitlen_lower: "0 < n \<Longrightarrow> 2 powi (bitlen n - 1) \<le> (of_int n :: rat)"
proof -
  assume n: "0 < n"
  then have b: "0 < bitlen n"
    using n bitlen_nonneg [of n] bitlen_eq_zero_iff [of n] by linarith
  have "2 ^ nat (bitlen n - 1) \<le> n" using bitlen_bounds [OF n] by simp
  then have "(of_int (2 ^ nat (bitlen n - 1)) :: rat) \<le> of_int n" by (simp only: of_int_le_iff)
  with b show ?thesis by (simp add: power_int_def)
qed

lemma bitlen_upper: "0 < n \<Longrightarrow> (of_int n :: rat) < 2 powi bitlen n"
proof -
  assume n: "0 < n"
  have b: "0 \<le> bitlen n" by (rule bitlen_nonneg)
  have "n < 2 ^ nat (bitlen n)" using bitlen_bounds [OF n] by simp
  then have "(of_int n :: rat) < of_int (2 ^ nat (bitlen n))" by (simp only: of_int_less_iff)
  with b show ?thesis by (simp add: power_int_def)
qed

lemma f32_exponent_lower:
  assumes "x \<noteq> 0"
  shows "2 powi f32_exponent x \<le> \<bar>x\<bar>"
proof -
  obtain n d where q: "quotient_of \<bar>x\<bar> = (n, d)" by (metis surj_pair)
  have x: "\<bar>x\<bar> = of_int n / of_int d" using q by (rule quotient_of_div)
  have d: "0 < d" using q by (rule quotient_of_denom_pos)
  have n: "0 < n" using assms x d by (metis abs_ge_zero divide_eq_0_iff of_int_0 of_int_0_less_iff
        order_le_less abs_eq_0 zero_less_divide_iff of_int_0_le_iff not_less)
  let ?k = "bitlen n - bitlen d"
  have "(2 :: rat) powi (?k - 1) = 2 powi (bitlen n - 1) / 2 powi bitlen d"
    by (simp add: power_int_diff power_int_add)
  also have "\<dots> \<le> of_int n / of_int d"
    using bitlen_lower [OF n] bitlen_upper [OF d] n d by (intro frac_le) auto
  finally have "(2 :: rat) powi (?k - 1) \<le> \<bar>x\<bar>" by (simp add: x)
  then show ?thesis by (simp add: f32_exponent_def q Let_def)
qed

lemma f32_round_error_ulp:
  assumes "x \<noteq> 0"
  shows "\<bar>f32_round x - x\<bar> \<le> 2 powi (max (f32_exponent x) (- 126) - 24)"
proof -
  define q :: rat where "q = 2 powi (max (f32_exponent x) (- 126) - 23)"
  have q: "0 < q" by (simp add: q_def)
  have "f32_round x - x = (of_int (round_half_even (x / q)) - x / q) * q"
    using assms q by (simp add: f32_round_def q_def Let_def algebra_simps)
  then have "\<bar>f32_round x - x\<bar> = \<bar>of_int (round_half_even (x / q)) - x / q\<bar> * q"
    using q by (simp add: abs_mult)
  also have "\<dots> \<le> 1 / 2 * q"
    using q round_half_even_error by (intro mult_right_mono) auto
  also have "\<dots> = 2 powi (max (f32_exponent x) (- 126) - 24)"
    by (simp add: q_def power_int_diff)
  finally show ?thesis .
qed

text \<open>The relative error of one rounding, for values that are not subnormal.\<close>

lemma f32_round_error:
  assumes "2 powi (- 126) \<le> \<bar>x\<bar>"
  shows "\<bar>f32_round x - x\<bar> \<le> \<bar>x\<bar> / 16777216"
proof -
  have "0 < (2 :: rat) powi (- 126)" by simp
  with assms have x: "x \<noteq> 0" by auto
  have "2 powi max (f32_exponent x) (- 126) \<le> \<bar>x\<bar>"
    using f32_exponent_lower [OF x] assms by (simp add: max_def)
  then have "(2 :: rat) powi (max (f32_exponent x) (- 126) - 24) \<le> \<bar>x\<bar> / 16777216"
    by (simp add: power_int_diff divide_right_mono)
  with f32_round_error_ulp [OF x] show ?thesis by linarith
qed

lemma f32_round_0 [simp]: "f32_round 0 = 0"
  by (simp add: f32_round_def)

section \<open>Lane of a coordinate\<close>

text \<open>
  \<open>((x.clamp(0.0, 1.0) * lane_count as f32).floor() as usize).min(lane_count - 1)\<close>. The
  keyboard sink is only built with at least one lane, so \<open>lane_count - 1\<close> does not
  underflow; the float-to-integer cast of the nonnegative floor is exact.
\<close>

definition lane_for :: "f32 \<Rightarrow> nat \<Rightarrow> nat" where
  "lane_for x lane_count =
     min (nat \<lfloor>f32_mul (f32_clamp x 0 1) (f32_round (of_nat lane_count))\<rfloor>) (lane_count - 1)"

text \<open>The decoders' \<open>read_i16(..) as f32 / 10_000.0\<close> and \<open>read_u16(..) as f32 / 65_535.0\<close>;
  every 16-bit integer is an \<open>f32\<close>.\<close>

definition wire_coordinate :: "int \<Rightarrow> f32" where
  "wire_coordinate v = f32_div (of_int v) 10000"

definition wire_unit :: "nat \<Rightarrow> f32" where
  "wire_unit v = f32_div (of_nat v) 65535"

text \<open>A value on a dyadic grid with a 24-bit significand is not changed by rounding.\<close>

lemma f32_round_dyadic:
  assumes m: "\<bar>m\<bar> < 2 ^ 24" and s: "s \<le> 149"
  shows "f32_round (of_int m / 2 ^ s) = of_int m / 2 ^ s"
proof (cases "m = 0")
  case True
  then show ?thesis by simp
next
  case False
  define x :: rat where "x = of_int m / 2 ^ s"
  define g where "g = max (f32_exponent x) (- 126) - 23"
  have x: "x \<noteq> 0" using False by (simp add: x_def)
  have "(of_int \<bar>m\<bar> :: rat) < of_int (2 ^ 24)" using m by (simp only: of_int_less_iff)
  then have "\<bar>x\<bar> < 2 ^ 24 / 2 ^ s" by (simp add: x_def divide_strict_right_mono)
  also have "\<dots> = 2 powi (24 - int s)" by (simp add: power_int_diff)
  finally have "(2 :: rat) powi f32_exponent x < 2 powi (24 - int s)"
    using f32_exponent_lower [OF x] by linarith
  then have "f32_exponent x < 24 - int s"
    by (metis linorder_not_less one_le_numeral power_int_increasing)
  with s have g: "g \<le> - int s" by (simp add: g_def)
  have "x / 2 powi g = of_int m * 2 powi (- int s - g)"
    by (simp add: x_def power_int_diff power_int_minus field_simps)
  also have "\<dots> = of_int (m * 2 ^ nat (- int s - g))"
    using g by (simp add: power_int_def)
  finally have grid: "x / 2 powi g = of_int (m * 2 ^ nat (- int s - g))" .
  have "f32_round x = of_int (round_half_even (x / 2 powi g)) * 2 powi g"
    using x by (simp add: f32_round_def g_def Let_def)
  also have "\<dots> = x"
    unfolding grid round_half_even_int unfolding grid [symmetric] by simp
  finally show ?thesis by (simp add: x_def)
qed

lemma f32_round_int: "\<bar>m\<bar> < 2 ^ 24 \<Longrightarrow> f32_round (of_int m) = of_int m"
  using f32_round_dyadic [of m 0] by simp

lemma f32_round_nat: "n < 2 ^ 24 \<Longrightarrow> f32_round (of_nat n) = of_nat n"
  using f32_round_int [of "int n"] by simp

text \<open>
  Where the exact product \<open>n * v / 10000\<close> is an integer the lane depends on the direction of
  two roundings. Coordinates that are multiples of 625 are exact; the other boundary
  coordinates are evaluated.
\<close>

lemma boundary_tenths:
  "lane_for (wire_coordinate 2000) 5 = 1 \<and>
   lane_for (wire_coordinate 4000) 5 = 2 \<and>
   lane_for (wire_coordinate 6000) 5 = 3 \<and>
   lane_for (wire_coordinate 8000) 5 = 4 \<and>
   lane_for (wire_coordinate 1000) 10 = 1 \<and>
   lane_for (wire_coordinate 2000) 10 = 2 \<and>
   lane_for (wire_coordinate 3000) 10 = 3 \<and>
   lane_for (wire_coordinate 4000) 10 = 4 \<and>
   lane_for (wire_coordinate 6000) 10 = 6 \<and>
   lane_for (wire_coordinate 7000) 10 = 7 \<and>
   lane_for (wire_coordinate 8000) 10 = 8 \<and>
   lane_for (wire_coordinate 9000) 10 = 9 \<and>
   lane_for (wire_coordinate 2000) 15 = 3 \<and>
   lane_for (wire_coordinate 4000) 15 = 6 \<and>
   lane_for (wire_coordinate 6000) 15 = 9 \<and>
   lane_for (wire_coordinate 8000) 15 = 12"
  by (intro conjI; code_simp)

lemma lane_for_in_range: "0 < lane_count \<Longrightarrow> lane_for x lane_count < lane_count"
  by (simp add: lane_for_def)

lemma normal_bound: "(2 :: rat) powi (- 126) \<le> 1 / 20000"
proof -
  have "(2 :: rat) powi (- 126) \<le> 2 powi (- 15)" by (rule power_int_increasing) auto
  also have "\<dots> \<le> 1 / 20000" by (simp add: power_int_def power_one_over)
  finally show ?thesis .
qed

lemma wire_coordinate_error:
  assumes "0 < v"
  shows "\<bar>wire_coordinate v - of_int v / 10000\<bar> \<le> of_int v / 10000 / 16777216"
proof -
  have v: "(1 :: rat) \<le> of_int v" using assms by simp
  have "(2 :: rat) powi (- 126) \<le> 1 / 10000" using normal_bound by linarith
  also have "\<dots> \<le> of_int v / 10000" using v by (simp add: divide_right_mono)
  finally have "(2 :: rat) powi (- 126) \<le> \<bar>of_int v / 10000\<bar>" using v by simp
  from f32_round_error [OF this] v show ?thesis
    by (simp add: wire_coordinate_def f32_div_def)
qed

lemma wire_coordinate_nonpos:
  assumes "v \<le> 0"
  shows "wire_coordinate v \<le> 0"
proof (cases "v = 0")
  case True
  then show ?thesis by (simp add: wire_coordinate_def f32_div_def)
next
  case False
  with assms have v: "of_int v \<le> (- 1 :: rat)" by linarith
  have "(2 :: rat) powi (- 126) \<le> 1 / 10000" using normal_bound by linarith
  also have "\<dots> \<le> \<bar>of_int v / 10000\<bar>" using v by simp
  finally have "\<bar>wire_coordinate v - of_int v / 10000\<bar> \<le> \<bar>of_int v / 10000\<bar> / 16777216"
    unfolding wire_coordinate_def f32_div_def by (rule f32_round_error)
  with v show ?thesis by linarith
qed

lemma wire_coordinate_ge_one:
  assumes "10000 \<le> v"
  shows "1 \<le> wire_coordinate v"
proof (cases "v = 10000")
  case True
  then show ?thesis using f32_round_int [of 1] by (simp add: wire_coordinate_def f32_div_def)
next
  case False
  with assms have v: "(10001 :: rat) \<le> of_int v" by linarith
  have "\<bar>wire_coordinate v - of_int v / 10000\<bar> \<le> of_int v / 10000 / 16777216"
    using assms by (intro wire_coordinate_error) simp
  with v show ?thesis by linarith
qed

text \<open>The two roundings together stay within \<open>33 / 2 ^ 24\<close> of the exact product.\<close>

lemma lane_product_error:
  assumes v: "0 < v" "v < 10000" and n: "1 \<le> n" "n \<le> 16"
  shows "\<bar>f32_mul (wire_coordinate v) (of_nat n) - of_nat n * (of_int v / 10000)\<bar> \<le> 33 / 16777216"
proof -
  define t :: rat where "t = of_int v / 10000"
  define x where "x = wire_coordinate v"
  define m :: rat where "m = of_nat n"
  have t: "1 / 10000 \<le> t" "t \<le> 9999 / 10000" using v by (simp_all add: t_def)
  have m: "1 \<le> m" "m \<le> 16" using n by (simp_all add: m_def)
  have e1: "\<bar>x - t\<bar> \<le> t / 16777216" using wire_coordinate_error [OF v(1)] by (simp add: x_def t_def)
  with t have x: "1 / 20000 \<le> x" "x \<le> 1" by linarith+
  have "x * m - m * t = m * (x - t)" by (simp add: algebra_simps)
  then have "\<bar>x * m - m * t\<bar> = m * \<bar>x - t\<bar>" using m by (simp add: abs_mult)
  also have "\<dots> \<le> 16 * (1 / 16777216)" using m t e1 by (intro mult_mono) auto
  finally have e2: "\<bar>x * m - m * t\<bar> \<le> 16 / 16777216" by simp
  have "x * 1 \<le> x * m" using x m by (intro mult_left_mono) auto
  with x have lower: "1 / 20000 \<le> x * m" by linarith
  have "x * m \<le> 1 * 16" using x m by (intro mult_mono) auto
  then have upper: "x * m \<le> 16" by simp
  from normal_bound lower have "(2 :: rat) powi (- 126) \<le> \<bar>x * m\<bar>" by linarith
  from f32_round_error [OF this] lower upper
  have "\<bar>f32_mul x m - x * m\<bar> \<le> 16 / 16777216" by (simp add: f32_mul_def)
  with e2 show ?thesis unfolding x_def m_def t_def by linarith
qed

lemma lane_interior:
  assumes v: "0 < v" "v < 10000" and n: "1 \<le> n" "n \<le> 16" and off: "\<not> 10000 dvd int n * v"
  shows "\<lfloor>f32_mul (wire_coordinate v) (of_nat n)\<rfloor> = int n * v div 10000"
proof -
  define k where "k = int n * v div 10000"
  define r where "r = int n * v mod 10000"
  have r: "1 \<le> r" "r \<le> 9999" using off by (auto simp: r_def dvd_eq_mod_eq_0 intro: int_one_le_iff_zero_less [THEN iffD2] order_le_neq_trans)
  have "int n * v = k * 10000 + r" by (simp add: k_def r_def)
  then have "(of_int (int n * v) :: rat) = of_int (k * 10000 + r)" by simp
  then have z: "of_nat n * (of_int v / 10000) = (of_int k :: rat) + of_int r / 10000"
    by (simp add: field_simps)
  have "(1 :: rat) \<le> of_int r" "of_int r \<le> (9999 :: rat)" using r by simp_all
  with lane_product_error [OF v n]
  have "of_int k \<le> f32_mul (wire_coordinate v) (of_nat n)"
    and "f32_mul (wire_coordinate v) (of_nat n) < of_int k + 1"
    unfolding z by linarith+
  then show ?thesis unfolding k_def [symmetric] by (rule floor_unique)
qed


lemma coprime_625_lanes:
  "\<forall>n \<in> {1, 2, 3, 4, 6, 7, 8, 9, 11, 12, 13, 14, 16}. coprime (625 :: int) (int n)"
  by (intro ballI, elim insertE emptyE; hypsubst; code_simp)

lemma lane_boundary_cases:
  assumes n: "1 \<le> n" "n \<le> 16" and on: "10000 dvd int n * v"
  shows "625 dvd v \<or> 1000 dvd v \<and> n = 10 \<or> 2000 dvd v \<and> (n = 5 \<or> n = 15)"
proof -
  have d625: "625 dvd int n * v" by (rule dvd_trans [OF _ on]) simp
  have c: "coprime (2000 :: int) 3" by code_simp
  have "n \<in> {1, 2, 3, 4, 6, 7, 8, 9, 11, 12, 13, 14, 16} \<or> n = 5 \<or> n = 10 \<or> n = 15"
    using n by (auto simp: numeral_eq_Suc le_Suc_eq)
  then show ?thesis
  proof (elim disjE)
    assume "n \<in> {1, 2, 3, 4, 6, 7, 8, 9, 11, 12, 13, 14, 16}"
    then have "coprime 625 (int n)" using coprime_625_lanes by blast
    with d625 have "625 dvd v" by (simp add: coprime_dvd_mult_right_iff)
    then show ?thesis ..
  next
    assume "n = 5"
    then have "5 * 2000 dvd 5 * v" using on by simp
    then have "2000 dvd v" by (simp only: dvd_mult_cancel_left) simp
    with \<open>n = 5\<close> show ?thesis by simp
  next
    assume "n = 10"
    then have "10 * 1000 dvd 10 * v" using on by simp
    then have "1000 dvd v" by (simp only: dvd_mult_cancel_left) simp
    with \<open>n = 10\<close> show ?thesis by simp
  next
    assume "n = 15"
    then have "5 * 2000 dvd 5 * (3 * v)" using on by simp
    then have "2000 dvd 3 * v" by (simp only: dvd_mult_cancel_left) simp
    with c have "2000 dvd v" by (simp add: coprime_dvd_mult_right_iff)
    with \<open>n = 15\<close> show ?thesis by simp
  qed
qed


lemma lane_of_sixteenths:
  assumes n: "1 \<le> n" "n \<le> 16" and v: "0 < v" "v < 10000" "625 dvd v"
  shows "\<lfloor>f32_mul (wire_coordinate v) (of_nat n)\<rfloor> = int n * v div 10000"
proof -
  from v obtain j where j: "v = 625 * j" by auto
  with v have j16: "0 < j" "j < 16" by auto
  have x: "wire_coordinate v = of_int j / 2 ^ 4"
    using f32_round_dyadic [of j 4] j16 by (simp add: wire_coordinate_def f32_div_def j)
  have "int n * j \<le> 16 * 16" using n j16 by (intro mult_mono) auto
  then have "\<bar>int n * j\<bar> < 2 ^ 24" using n j16 by simp
  from f32_round_dyadic [OF this, of 4]
  have "f32_mul (wire_coordinate v) (of_nat n) = of_int (int n * j) / 2 ^ 4"
    by (simp add: f32_mul_def x mult.commute)
  then have "\<lfloor>f32_mul (wire_coordinate v) (of_nat n)\<rfloor> = \<lfloor>(of_int (int n * j) :: rat) / of_int 16\<rfloor>"
    by (simp only:) simp
  also have "\<dots> = int n * j div 16" by (rule floor_divide_of_int_eq)
  also have "\<dots> = int n * v div 10000" by (simp add: j mult.commute)
  finally show ?thesis .
qed

lemma tenth_coordinates:
  assumes "1000 dvd v" "0 < v" "v < (10000 :: int)"
  shows "v \<in> {1000, 2000, 3000, 4000, 5000, 6000, 7000, 8000, 9000}"
proof -
  from assms obtain j where j: "v = 1000 * j" by auto
  with assms have "1 \<le> j" "j \<le> 9" by auto
  then have "j \<in> {1, 2, 3, 4, 5, 6, 7, 8, 9}" by auto
  with j show ?thesis by auto
qed

lemma lane_for_interior:
  assumes "0 < v" "v < 10000"
  shows "lane_for (wire_coordinate v) n =
    min (nat \<lfloor>f32_mul (wire_coordinate v) (f32_round (of_nat n))\<rfloor>) (n - 1)"
proof -
  have "(0 :: rat) < of_int v" "of_int v \<le> (9999 :: rat)" using assms by auto
  with wire_coordinate_error [OF assms(1)]
  have "0 \<le> wire_coordinate v" "wire_coordinate v \<le> 1" by linarith+
  then show ?thesis by (simp add: lane_for_def f32_clamp_def)
qed

text \<open>
  C32: for every signed 16-bit wire coordinate and every lane count the option parser admits
  (1 to 16 keys) the single-precision computation of \<open>lane_for\<close>, with its two roundings, its
  clamp and its floor, gives exactly the lane of the integer computation
  \<open>lane_count * clamp v / 10000\<close>, the last lane keeping the right edge.
\<close>

theorem lane_for_exact:
  assumes n: "1 \<le> n" "n \<le> 16"
  shows "lane_for (wire_coordinate v) n = min (nat (int n * max 0 (min v 10000) div 10000)) (n - 1)"
proof -
  have r: "f32_round (of_nat n) = of_nat n" using n by (intro f32_round_nat) simp
  consider "v \<le> 0" | "10000 \<le> v" | "0 < v" "v < 10000" by linarith
  then show ?thesis
  proof cases
    case 1
    then have "f32_clamp (wire_coordinate v) 0 1 = 0"
      using wire_coordinate_nonpos [of v] by (simp add: f32_clamp_def)
    with 1 show ?thesis by (simp add: lane_for_def f32_mul_def)
  next
    case 2
    then have "f32_clamp (wire_coordinate v) 0 1 = 1"
      using wire_coordinate_ge_one [of v] by (simp add: f32_clamp_def)
    with 2 show ?thesis by (simp add: lane_for_def f32_mul_def r)
  next
    case 3
    consider "\<not> 10000 dvd int n * v" | "625 dvd v"
      | "1000 dvd v" "n = 10" | "2000 dvd v" "n = 5 \<or> n = 15"
      using lane_boundary_cases [OF n] by blast
    then show ?thesis
    proof cases
      case 1
      then show ?thesis using 3 lane_interior [OF 3 n] by (simp add: lane_for_interior r)
    next
      case 2
      then show ?thesis using 3 lane_of_sixteenths [OF n 3] by (simp add: lane_for_interior r)
    next
      case a: 3
      show ?thesis
      proof (cases "v = 5000")
        case True
        then show ?thesis using 3 lane_of_sixteenths [OF n 3] by (simp add: lane_for_interior r)
      next
        case False
        with tenth_coordinates [OF a(1) 3] boundary_tenths a(2) show ?thesis by auto
      qed
    next
      case b: 4
      then have "1000 dvd v" by (auto elim!: dvd_trans [rotated])
      moreover have "v \<notin> {1000, 3000, 5000, 7000, 9000}" using b(1) by auto
      ultimately show ?thesis using tenth_coordinates [OF _ 3] boundary_tenths b(2) by auto
    qed
  qed
qed

theorem lane_for_exact_witness:
  "lane_for (wire_coordinate 7000) 10 = min (nat (int 10 * max 0 (min 7000 10000) div 10000)) (10 - 1)"
  by (rule lane_for_exact) simp_all

end
