(* ===== verification/Protocol_V4.thy ===== *)
theory Protocol_V4
  imports Le_Codec Wire_F32
begin

text \<open>
  The wire format of protocol v4 (\<open>native-host/src/protocol.rs\<close>): the contact and frame types
  that both protocol versions share, the CRC, the datagram decoder with every check in the
  order of the source, the control and discovery encoders and the discovery decoder. Shown
  here: no datagram makes a decoder panic, an accepted frame is well formed, a CRC detects any
  corruption confined to one byte, and discovery records round trip.
\<close>

section \<open>Constants\<close>

definition FRAME_MAGIC :: bytes where [wire_defs]: "FRAME_MAGIC = [0x48, 0x50, 0x54, 0x34]"
definition CONTROL_MAGIC :: bytes where [wire_defs]: "CONTROL_MAGIC = [0x48, 0x50, 0x41, 0x34]"
definition DISCOVERY_MAGIC :: bytes where [wire_defs]: "DISCOVERY_MAGIC = [0x48, 0x50, 0x54, 0x44]"

abbreviation (input) V4_PROTOCOL_VERSION :: u8 where "V4_PROTOCOL_VERSION \<equiv> 4"
abbreviation (input) DISCOVERY_VERSION :: u8 where "DISCOVERY_VERSION \<equiv> 1"
abbreviation (input) DISCOVERY_HELLO :: u8 where "DISCOVERY_HELLO \<equiv> 1"
abbreviation (input) DISCOVERY_ACK :: u8 where "DISCOVERY_ACK \<equiv> 2"
abbreviation (input) MESSAGE_TOUCH_FRAME :: u8 where "MESSAGE_TOUCH_FRAME \<equiv> 1"
abbreviation (input) CONTROL_HELLO :: u8 where "CONTROL_HELLO \<equiv> 1"
abbreviation (input) CONTROL_ACK :: u8 where "CONTROL_ACK \<equiv> 2"

abbreviation (input) ACTION_HEARTBEAT :: u8 where "ACTION_HEARTBEAT \<equiv> 0"
abbreviation (input) ACTION_DOWN :: u8 where "ACTION_DOWN \<equiv> 1"
abbreviation (input) ACTION_MOVE :: u8 where "ACTION_MOVE \<equiv> 2"
abbreviation (input) ACTION_UP :: u8 where "ACTION_UP \<equiv> 3"
abbreviation (input) ACTION_CANCEL :: u8 where "ACTION_CANCEL \<equiv> 4"

abbreviation (input) FRAME_FLAG_LOCKED :: u8 where "FRAME_FLAG_LOCKED \<equiv> 1"
abbreviation (input) FRAME_FLAG_SESSION_START :: u8 where "FRAME_FLAG_SESSION_START \<equiv> 2"
abbreviation (input) FRAME_FLAG_HISTORICAL :: u8 where "FRAME_FLAG_HISTORICAL \<equiv> 4"
abbreviation (input) CONTACT_FLAG_INSIDE :: u8 where "CONTACT_FLAG_INSIDE \<equiv> 1"
abbreviation (input) CONTACT_FLAG_TIP :: u8 where "CONTACT_FLAG_TIP \<equiv> 2"
abbreviation (input) CONTACT_FLAG_KEY_SUPPRESSED :: u8 where "CONTACT_FLAG_KEY_SUPPRESSED \<equiv> 4"

abbreviation (input) FRAME_HEADER_SIZE :: nat where "FRAME_HEADER_SIZE \<equiv> 68"
abbreviation (input) CONTACT_SIZE :: nat where "CONTACT_SIZE \<equiv> 10"
abbreviation (input) CRC_SIZE :: nat where "CRC_SIZE \<equiv> 4"
abbreviation (input) CONTROL_SIZE :: nat where "CONTROL_SIZE \<equiv> 40"
abbreviation (input) DISCOVERY_SIZE :: nat where "DISCOVERY_SIZE \<equiv> 32"
abbreviation (input) MAX_CONTACTS :: nat where "MAX_CONTACTS \<equiv> 16"
abbreviation (input) MAX_FRAME_SIZE :: nat where "MAX_FRAME_SIZE \<equiv> 232"
abbreviation (input) MAX_REORDERED_FRAMES :: nat where "MAX_REORDERED_FRAMES \<equiv> 256"

section \<open>Contacts and frames\<close>

record contact =
  pointer_id :: u8
  contact_flags :: u8
  contact_x :: f32
  contact_y :: f32
  pressure :: f32
  touch_major :: f32

text \<open>
  \<open>Contacts\<close> is an array of \<open>MAX_CONTACTS\<close> items with a length; its dereferenced slice is the
  list here. Pushing past the array's end panics.
\<close>

definition contacts_push :: "contact list \<Rightarrow> contact \<Rightarrow> ('e, contact list) outcome" where
  "contacts_push cs c = (if length cs < MAX_CONTACTS then Done (cs @ [c]) else Panic)"

definition touching :: "contact \<Rightarrow> bool" where
  "touching c \<longleftrightarrow> contact_flags c AND CONTACT_FLAG_TIP \<noteq> 0"

definition key_suppressed :: "contact \<Rightarrow> bool" where
  "key_suppressed c \<longleftrightarrow> contact_flags c AND CONTACT_FLAG_KEY_SUPPRESSED \<noteq> 0"

definition inside :: "contact \<Rightarrow> bool" where
  "inside c \<longleftrightarrow> contact_flags c AND CONTACT_FLAG_INSIDE \<noteq> 0"

record touch_frame =
  session_id :: u64
  sequence :: u64
  phone_event_nanos :: u64
  phone_callback_nanos :: u64
  phone_send_nanos :: u64
  echo_host_send_nanos :: u64
  phone_control_receive_nanos :: u64
  action :: u8
  action_pointer_id :: u8
  frame_flags :: u8
  contacts :: "contact list"

definition locked :: "touch_frame \<Rightarrow> bool" where
  "locked f \<longleftrightarrow> frame_flags f AND FRAME_FLAG_LOCKED \<noteq> 0"

definition session_start :: "touch_frame \<Rightarrow> bool" where
  "session_start f \<longleftrightarrow> frame_flags f AND FRAME_FLAG_SESSION_START \<noteq> 0"

definition historical :: "touch_frame \<Rightarrow> bool" where
  "historical f \<longleftrightarrow> frame_flags f AND FRAME_FLAG_HISTORICAL \<noteq> 0"

datatype protocol_error =
    PBadMagic
  | PBadVersion u8
  | PBadMessageType u8
  | PBadAction u8
  | PBadLength nat
  | PBadContactCount nat
  | PDuplicatePointerId u8
  | PBadCrc u32 u32  \<comment> \<open>expected, actual\<close>

definition known_action :: "u8 \<Rightarrow> bool" where
  "known_action a \<longleftrightarrow>
     a = ACTION_HEARTBEAT \<or> a = ACTION_DOWN \<or> a = ACTION_MOVE \<or> a = ACTION_UP \<or> a = ACTION_CANCEL"

section \<open>CRC\<close>

definition crc_bit :: "u32 \<Rightarrow> u32" where
  "crc_bit v = (if v AND 1 \<noteq> 0 then drop_bit 1 v XOR 0xedb88320 else drop_bit 1 v)"

definition crc_byte :: "u32 \<Rightarrow> u8 \<Rightarrow> u32" where
  "crc_byte v b = (crc_bit ^^ 8) (v XOR ucast b)"

definition crc32 :: "bytes \<Rightarrow> u32" where
  "crc32 bs = NOT (foldl crc_byte 0xffffffff bs)"

section \<open>Datagram decoder\<close>

text \<open>The ten bytes of one contact, as both decoders read them.\<close>

definition contact_at :: "bytes \<Rightarrow> nat \<Rightarrow> u8 \<Rightarrow> u8 \<Rightarrow> ('e, contact) outcome" where
  "contact_at bs off pid fl =
     and_then (read_i16 bs (off + 2)) (\<lambda>x.
     and_then (read_i16 bs (off + 4)) (\<lambda>y.
     and_then (read_u16 bs (off + 6)) (\<lambda>p.
     and_then (read_u16 bs (off + 8)) (\<lambda>m.
       Done \<lparr>pointer_id = pid, contact_flags = fl, contact_x = wire_coordinate x,
             contact_y = wire_coordinate y, pressure = wire_unit (unat p),
             touch_major = wire_unit (unat m)\<rparr>))))"

text \<open>The loop over the contact indices, with the \<open>pointer_ids\<close> array and the pushed contacts.\<close>

fun decode_contacts_v4 ::
  "bytes \<Rightarrow> nat list \<Rightarrow> (u8 \<Rightarrow> bool) \<Rightarrow> contact list \<Rightarrow> (protocol_error, contact list) outcome" where
  "decode_contacts_v4 bs [] seen cs = Done cs"
| "decode_contacts_v4 bs (i # is) seen cs =
     (let off = FRAME_HEADER_SIZE + i * CONTACT_SIZE in
      and_then (byte_at bs off) (\<lambda>pid.
      if seen pid then Fail (PDuplicatePointerId pid)
      else and_then (byte_at bs (off + 1)) (\<lambda>fl.
           and_then (contact_at bs off pid fl) (\<lambda>c.
           and_then (contacts_push cs c) (\<lambda>cs'.
             decode_contacts_v4 bs is (seen(pid := True)) cs')))))"

definition decode_frame :: "bytes \<Rightarrow> (protocol_error, touch_frame) outcome" where
  "decode_frame bs =
    (let n = length bs in
     if n < FRAME_HEADER_SIZE + CRC_SIZE then Fail (PBadLength n) else
     and_then (slice_at bs 0 4) (\<lambda>magic. if magic \<noteq> FRAME_MAGIC then Fail PBadMagic else
     and_then (read_u16 bs 6) (\<lambda>len. let declared = unat len in
       if declared \<noteq> n \<or> n > MAX_FRAME_SIZE then Fail (PBadLength declared) else
     and_then (byte_at bs 4) (\<lambda>ver. if ver \<noteq> V4_PROTOCOL_VERSION then Fail (PBadVersion ver) else
     and_then (byte_at bs 5) (\<lambda>ty. if ty \<noteq> MESSAGE_TOUCH_FRAME then Fail (PBadMessageType ty) else
     and_then (byte_at bs 64) (\<lambda>act. if \<not> known_action act then Fail (PBadAction act) else
     and_then (read_u32 bs (n - CRC_SIZE)) (\<lambda>expected.
     and_then (slice_at bs 0 (n - CRC_SIZE)) (\<lambda>body. let actual = crc32 body in
       if expected \<noteq> actual then Fail (PBadCrc expected actual) else
     and_then (byte_at bs 66) (\<lambda>count. let contact_count = unat count in
       if contact_count > MAX_CONTACTS then Fail (PBadContactCount contact_count) else
       if n \<noteq> FRAME_HEADER_SIZE + contact_count * CONTACT_SIZE + CRC_SIZE then Fail (PBadLength n) else
     and_then (decode_contacts_v4 bs [0..<contact_count] (\<lambda>_. False) []) (\<lambda>cs.
     and_then (read_u64 bs 8) (\<lambda>sid. and_then (read_u64 bs 16) (\<lambda>sq.
     and_then (read_u64 bs 24) (\<lambda>ev. and_then (read_u64 bs 32) (\<lambda>cb.
     and_then (read_u64 bs 40) (\<lambda>snd. and_then (read_u64 bs 48) (\<lambda>echo.
     and_then (read_u64 bs 56) (\<lambda>rcv. and_then (byte_at bs 65) (\<lambda>apid.
     and_then (byte_at bs 67) (\<lambda>fl.
       Done \<lparr>session_id = sid, sequence = sq, phone_event_nanos = ev, phone_callback_nanos = cb,
             phone_send_nanos = snd, echo_host_send_nanos = echo,
             phone_control_receive_nanos = rcv, action = act, action_pointer_id = apid,
             frame_flags = fl, contacts = cs\<rparr>)))))))))))))))))))"

record frame_parser =
  discarded_bytes :: u64
  connection_discarded_bytes :: u64
  invalid_frames :: u64
  incompatible_version :: "u8 option"

definition begin_connection :: "frame_parser \<Rightarrow> frame_parser" where
  "begin_connection p = p\<lparr>incompatible_version := None\<rparr>"

text \<open>\<open>invalid_frames += 1\<close> overflows only after \<open>2 ^ 64\<close> datagrams; the model wraps there.\<close>

definition decode_datagram ::
  "frame_parser \<Rightarrow> bytes \<Rightarrow> frame_parser \<times> (protocol_error, touch_frame) outcome" where
  "decode_datagram p bs =
    (let p1 = (if length bs > 4 \<and> take 4 bs = FRAME_MAGIC \<and> bs ! 4 \<noteq> V4_PROTOCOL_VERSION
               then p\<lparr>incompatible_version := Some (bs ! 4)\<rparr> else p);
         result = decode_frame bs;
         p2 = (case result of Fail _ \<Rightarrow> p1\<lparr>invalid_frames := invalid_frames p1 + 1\<rparr> | _ \<Rightarrow> p1)
     in (p2, result))"

definition take_incompatible_version :: "frame_parser \<Rightarrow> frame_parser \<times> u8 option" where
  "take_incompatible_version p = (p\<lparr>incompatible_version := None\<rparr>, incompatible_version p)"

section \<open>Control and discovery records\<close>

definition encode_control :: "u8 \<Rightarrow> u8 \<Rightarrow> u64 \<Rightarrow> u64 option \<Rightarrow> u32 \<Rightarrow> u64 \<Rightarrow> bytes" where
  "encode_control control_type lane_count sid acknowledged receive_window host_send_nanos =
    (let b0 = replicate CONTROL_SIZE 0;
         b1 = put_bytes 0 CONTROL_MAGIC b0;
         b2 = put_bytes 4 [V4_PROTOCOL_VERSION] b1;
         b3 = put_bytes 5 [control_type] b2;
         b4 = put_bytes 6 (le_u16 (ucast lane_count)) b3;
         b5 = put_bytes 8 (le_u64 sid) b4;
         b6 = put_bytes 16 (le_u64 (case acknowledged of None \<Rightarrow> - 1 | Some a \<Rightarrow> a)) b5;
         b7 = put_bytes 24 (le_u32 receive_window) b6;
         b8 = put_bytes 28 (le_u64 host_send_nanos) b7
     in put_bytes 36 (le_u32 (crc32 (sub_bytes 0 36 b8))) b8)"

definition encode_discovery :: "u8 \<Rightarrow> u64 \<Rightarrow> u64 \<Rightarrow> u16 \<Rightarrow> bytes" where
  "encode_discovery kind nonce sid port =
    (let b0 = replicate DISCOVERY_SIZE 0;
         b1 = put_bytes 0 DISCOVERY_MAGIC b0;
         b2 = put_bytes 4 [DISCOVERY_VERSION] b1;
         b3 = put_bytes 5 [kind] b2;
         b4 = put_bytes 8 (le_u64 nonce) b3;
         b5 = put_bytes 16 (le_u64 sid) b4;
         b6 = put_bytes 24 (le_u16 port) b5
     in put_bytes 28 (le_u32 (crc32 (sub_bytes 0 28 b6))) b6)"

definition discovery_port_acceptable :: "u16 \<Rightarrow> u16 \<Rightarrow> bool" where
  "discovery_port_acceptable advertised listening \<longleftrightarrow> advertised = 0 \<or> advertised = listening"

record discovery_message =
  dm_kind :: u8
  dm_nonce :: u64
  dm_session_id :: u64
  dm_port :: u16

text \<open>The disjunction of the source stops at the first true disjunct, so the later reads happen
  only on buffers of the full size.\<close>

definition decode_discovery :: "bytes \<Rightarrow> (unit, discovery_message option) outcome" where
  "decode_discovery bs =
    (if length bs \<noteq> DISCOVERY_SIZE then Done None else
     and_then (slice_at bs 0 4) (\<lambda>magic. if magic \<noteq> DISCOVERY_MAGIC then Done None else
     and_then (byte_at bs 4) (\<lambda>ver. if ver \<noteq> DISCOVERY_VERSION then Done None else
     and_then (byte_at bs 5) (\<lambda>kind.
       if \<not> (kind = DISCOVERY_HELLO \<or> kind = DISCOVERY_ACK) then Done None else
     and_then (read_u32 bs 28) (\<lambda>expected. and_then (slice_at bs 0 28) (\<lambda>body.
       if expected \<noteq> crc32 body then Done None else
     and_then (read_u64 bs 8) (\<lambda>nonce. and_then (read_u64 bs 16) (\<lambda>sid.
     and_then (read_u16 bs 24) (\<lambda>port.
       Done (Some \<lparr>dm_kind = kind, dm_nonce = nonce, dm_session_id = sid, dm_port = port\<rparr>))))))))))"


section \<open>The contact loop\<close>

lemma contact_at_in:
  assumes "off + 10 \<le> length bs"
  shows "\<exists>c. contact_at bs off pid fl = Done c \<and> pointer_id c = pid \<and> contact_flags c = fl"
  using assms by (simp add: contact_at_def)

lemma contact_at_Done:
  "contact_at bs off pid fl = Done c \<Longrightarrow> pointer_id c = pid \<and> contact_flags c = fl"
  by (auto simp: contact_at_def and_then_Done)

lemma decode_contacts_v4_no_panic:
  "\<forall>i \<in> set is. 78 + i * 10 \<le> length bs \<Longrightarrow> length cs + length is \<le> 16 \<Longrightarrow>
   decode_contacts_v4 bs is seen cs \<noteq> Panic"
proof (induction "is" arbitrary: seen cs)
  case Nil
  show ?case by simp
next
  case (Cons i "is")
  let ?off = "68 + i * 10"
  have in_range: "?off + 10 \<le> length bs" using Cons.prems by simp
  obtain c where c: "(contact_at bs ?off (bs ! ?off) (bs ! (?off + 1)) ::
      (protocol_error, contact) outcome) = Done c"
    using contact_at_in [OF in_range] by blast
  have "decode_contacts_v4 bs is (seen(bs ! ?off := True)) (cs @ [c]) \<noteq> Panic"
    using Cons.prems by (intro Cons.IH) auto
  with in_range c Cons.prems show ?case by (simp add: Let_def contacts_push_def)
qed

lemma decode_contacts_v4_Done:
  assumes "decode_contacts_v4 bs is seen cs = Done ds"
    and "distinct (map pointer_id cs)" and "\<forall>p. seen p \<longleftrightarrow> p \<in> pointer_id ` set cs"
  shows "distinct (map pointer_id ds) \<and> length ds = length cs + length is"
  using assms
proof (induction "is" arbitrary: seen cs)
  case Nil
  then show ?case by simp
next
  case (Cons i "is")
  let ?off = "68 + i * 10"
  from Cons.prems(1) obtain pid fl c where
    pid: "\<not> seen pid"
    and c: "(contact_at bs ?off pid fl :: (protocol_error, contact) outcome) = Done c"
    and rest: "decode_contacts_v4 bs is (seen(pid := True)) (cs @ [c]) = Done ds"
    by (auto simp: Let_def and_then_Done contacts_push_def split: if_splits)
  from c have "pointer_id c = pid" using contact_at_Done by blast
  then show ?case using Cons.IH [OF rest] Cons.prems(2,3) pid by auto
qed

section \<open>A sample datagram\<close>

text \<open>A heartbeat that starts a session, as the phone would send it.\<close>

definition sample_body :: bytes where
  "sample_body = FRAME_MAGIC @ [4, 1, 72, 0] @ replicate 56 0 @ [0, 0, 0, 2]"

definition sample_datagram :: bytes where
  "sample_datagram = sample_body @ le_u32 (crc32 sample_body)"

lemma sample_datagram_parts:
  "length sample_datagram = 72" "sub_bytes 0 4 sample_datagram = FRAME_MAGIC"
  "sub_bytes 6 2 sample_datagram = [72, 0]"
  "sub_bytes 68 4 sample_datagram = le_u32 (crc32 sample_body)"
  "sub_bytes 0 68 sample_datagram = sample_body"
  "sample_datagram ! 4 = 4" "sample_datagram ! 5 = 1" "sample_datagram ! 20 = 0"
  "sample_datagram ! 64 = 0" "sample_datagram ! 66 = 0"
  by (simp_all add: sample_datagram_def sample_body_def FRAME_MAGIC_def sub_bytes_def nth_append)

lemma sample_datagram_accepted: "\<exists>f. decode_frame sample_datagram = Done f"
proof -
  have len: "unat (le_word [72, 0] :: u16) = 72" by simp
  show ?thesis
    by (simp add: decode_frame_def Let_def sample_datagram_parts len known_action_def u32_le.dec_enc
        del: le_word.simps le_bytes.simps)
qed

section \<open>The frame decoder\<close>

text \<open>
  The v4 datagram decoder never panics: whatever bytes arrive, every index and slice is in
  range and at most \<open>MAX_CONTACTS\<close> contacts are pushed, because each read comes after the
  length check that protects it.
\<close>

theorem decode_frame_no_panic: "decode_frame bs \<noteq> Panic"
proof
  assume panic: "decode_frame bs = Panic"
  let ?n = "length bs" and ?count = "unat (bs ! 66)"
  have n: "72 \<le> ?n" and count: "?count \<le> 16" and len: "?n = 72 + ?count * 10"
    and loop: "decode_contacts_v4 bs [0..<?count] (\<lambda>_. False) [] = Panic"
    using panic by (auto simp: decode_frame_def Let_def and_then_Panic split: if_splits)
  have "decode_contacts_v4 bs [0..<?count] (\<lambda>_. False) [] \<noteq> Panic"
    using count len by (intro decode_contacts_v4_no_panic) auto
  with loop show False by contradiction
qed

lemma decode_frame_Done:
  assumes "decode_frame bs = Done f"
  shows "72 \<le> length bs" and "length bs \<le> MAX_FRAME_SIZE"
    and "le_word (sub_bytes (length bs - 4) 4 bs) = crc32 (take (length bs - 4) bs)"
    and "decode_contacts_v4 bs [0..<unat (bs ! 66)] (\<lambda>_. False) [] = Done (contacts f)"
    and "unat (bs ! 66) \<le> 16" and "length bs = 72 + unat (bs ! 66) * 10"
    and "known_action (action f)" and "frame_flags f = bs ! 67"
    and "sequence f = le_word (sub_bytes 16 8 bs)" and "session_id f = le_word (sub_bytes 8 8 bs)"
  using assms
  by (auto simp: decode_frame_def Let_def and_then_Done sub_bytes_def split: if_splits)

text \<open>
  C30: a datagram that the v4 decoder accepts is a well-formed frame: the action is one of the
  five of the protocol, there are at most 16 contacts, exactly as many as the datagram's length
  leaves room for, and no pointer id occurs twice.
\<close>

theorem decode_frame_well_formed:
  assumes "decode_frame bs = Done f"
  shows "known_action (action f) \<and> length (contacts f) \<le> MAX_CONTACTS \<and>
    length bs = FRAME_HEADER_SIZE + length (contacts f) * CONTACT_SIZE + CRC_SIZE \<and>
    distinct (map pointer_id (contacts f))"
  using decode_contacts_v4_Done [OF decode_frame_Done(4) [OF assms]] decode_frame_Done [OF assms]
  by simp

theorem decode_frame_well_formed_witness:
  "\<exists>f. decode_frame sample_datagram = Done f \<and> known_action (action f) \<and> contacts f = []"
proof -
  obtain f where f: "decode_frame sample_datagram = Done f" using sample_datagram_accepted by blast
  from decode_frame_well_formed [OF f] sample_datagram_parts(1)
  have "known_action (action f)" "length (contacts f) = 0" by auto
  with f show ?thesis by auto
qed

section \<open>Corruption is detected\<close>

lemma crc_bit_top: "bit (crc_bit v) 31 = bit v 0"
proof -
  have "v AND 1 \<noteq> 0 \<longleftrightarrow> bit v 0"
    by (simp add: bit_0 and_one_eq odd_iff_mod_2_eq_one)
  then show ?thesis
    by (simp add: crc_bit_def bit_xor_iff bit_drop_bit_eq)
      (auto dest: bit_imp_le_length)
qed


lemma crc_bit_inj: "crc_bit v = crc_bit w \<Longrightarrow> v = w"
proof -
  assume eq: "crc_bit v = crc_bit w"
  have low: "bit v 0 = bit w 0" using crc_bit_top [of v] crc_bit_top [of w] eq by simp
  then have "(v AND 1 \<noteq> 0) = (w AND 1 \<noteq> 0)" by (simp add: bit_0 and_one_eq odd_iff_mod_2_eq_one)
  then have "drop_bit 1 v = drop_bit 1 w"
    using eq by (simp add: crc_bit_def split: if_splits)
  then have "bit (drop_bit 1 v) k = bit (drop_bit 1 w) k" for k by simp
  then have rest: "bit v (Suc k) = bit w (Suc k)" for k by (simp add: bit_drop_bit_eq)
  show "v = w"
    by (rule bit_word_eqI) (metis low rest not0_implies_Suc)
qed

lemma crc_bits_inj: "(crc_bit ^^ n) v = (crc_bit ^^ n) w \<Longrightarrow> v = w"
  by (induction n) (auto dest: crc_bit_inj)

lemma crc_byte_inj_state: "crc_byte v b = crc_byte w b \<Longrightarrow> v = w"
  unfolding crc_byte_def by (drule crc_bits_inj) simp

lemma crc_byte_inj_byte: "crc_byte v a = crc_byte v b \<Longrightarrow> a = b"
proof -
  assume "crc_byte v a = crc_byte v b"
  then have "v XOR ucast a = v XOR ucast b" unfolding crc_byte_def by (rule crc_bits_inj)
  then show "a = b" by (simp add: ucast_u8_inj)
qed

lemma crc_fold_inj: "foldl crc_byte v bs = foldl crc_byte w bs \<Longrightarrow> v = w"
  by (induction bs arbitrary: v w) (auto dest: crc_byte_inj_state)

lemma crc32_byte_change:
  assumes "i < length bs" and "crc32 (bs[i := b]) = crc32 bs"
  shows "b = bs ! i"
proof -
  let ?pre = "foldl crc_byte 0xffffffff (take i bs)" and ?post = "drop (Suc i) bs"
  have "foldl crc_byte 0xffffffff (bs[i := b]) = foldl crc_byte 0xffffffff bs"
    using assms(2) by (simp add: crc32_def)
  then have "foldl crc_byte (crc_byte ?pre b) ?post = foldl crc_byte (crc_byte ?pre (bs ! i)) ?post"
    using assms(1) by (metis foldl_Cons foldl_append id_take_nth_drop upd_conv_take_nth_drop)
  then show ?thesis by (blast dest: crc_fold_inj crc_byte_inj_byte)
qed

text \<open>
  C31: corruption confined to one byte is always caught: when a datagram is accepted, no datagram
  that differs from it in exactly one byte, wherever that byte is and whatever its new value,
  is accepted as a frame.
\<close>

theorem decode_frame_rejects_corruption:
  assumes ok: "decode_frame bs = Done f" and i: "i < length bs" and b: "b \<noteq> bs ! i"
  shows "decode_frame (bs[i := b]) \<noteq> Done g"
proof
  assume bad: "decode_frame (bs[i := b]) = Done g"
  let ?n = "length bs - 4" and ?bs = "bs[i := b]"
  note crc = decode_frame_Done(3) [OF ok]
  have crc': "le_word (sub_bytes ?n 4 ?bs) = crc32 (take ?n ?bs)"
    using decode_frame_Done(3) [OF bad] by simp
  have n: "72 \<le> length bs" by (rule decode_frame_Done(1) [OF ok])
  show False
  proof (cases "i < ?n")
    case True
    then have "sub_bytes ?n 4 ?bs = sub_bytes ?n 4 bs"
      by (simp add: sub_bytes_def drop_update_cancel)
    moreover have "take ?n ?bs = (take ?n bs)[i := b]" by (simp add: take_update_swap)
    ultimately have "crc32 ((take ?n bs)[i := b]) = crc32 (take ?n bs)" using crc crc' by simp
    with True b show False using crc32_byte_change [of i "take ?n bs" b] by simp
  next
    case False
    then have "take ?n ?bs = take ?n bs" by simp
    with crc crc' have "(le_word (sub_bytes ?n 4 ?bs) :: u32) = le_word (sub_bytes ?n 4 bs)" by simp
    then have "sub_bytes ?n 4 ?bs = sub_bytes ?n 4 bs" using n by (intro u32_le.dec_inj) auto
    then have "sub_bytes ?n 4 ?bs ! (i - ?n) = sub_bytes ?n 4 bs ! (i - ?n)" by simp
    with False i n b show False by (simp add: sub_bytes_def)
  qed
qed

theorem decode_frame_rejects_corruption_witness:
  "\<forall>g. decode_frame (sample_datagram[20 := 1]) \<noteq> Done g"
proof -
  obtain f where f: "decode_frame sample_datagram = Done f" using sample_datagram_accepted by blast
  show ?thesis
    using decode_frame_rejects_corruption [OF f, of 20 1] sample_datagram_parts(1,8) by simp
qed

section \<open>Discovery and control records\<close>

text \<open>
  Discovery records survive the wire: decoding what \<open>encode_discovery\<close> wrote gives back
  the kind, nonce, session and port, for both record kinds and every value of the fields.
\<close>

theorem discovery_round_trip:
  assumes "kind = DISCOVERY_HELLO \<or> kind = DISCOVERY_ACK"
  shows "decode_discovery (encode_discovery kind nonce sid port) =
    Done (Some \<lparr>dm_kind = kind, dm_nonce = nonce, dm_session_id = sid, dm_port = port\<rparr>)"
proof -
  have b: "sub_bytes 0 28 (put_bytes 28 xs bs) = sub_bytes 0 28 bs"
    if "28 + length xs \<le> length bs" for xs bs :: bytes
    using that by simp
  show ?thesis
    using assms
    by (auto simp: decode_discovery_def encode_discovery_def Let_def DISCOVERY_MAGIC_def b
        u16_le.dec_enc u32_le.dec_enc u64_le.dec_enc)
qed

theorem discovery_round_trip_witness:
  "decode_discovery (encode_discovery 2 77 5 42825) =
    Done (Some \<lparr>dm_kind = 2, dm_nonce = 77, dm_session_id = 5, dm_port = 42825\<rparr>)"
  by (rule discovery_round_trip) simp

lemma encode_control_fields:
  "length (encode_control ty lanes sid ack win nanos) = 40"
  "sub_bytes 0 4 (encode_control ty lanes sid ack win nanos) = CONTROL_MAGIC"
  "encode_control ty lanes sid ack win nanos ! 5 = ty"
  "le_word (sub_bytes 8 8 (encode_control ty lanes sid ack win nanos)) = sid"
  "le_word (sub_bytes 16 8 (encode_control ty lanes sid ack win nanos)) =
     (case ack of None \<Rightarrow> - 1 | Some a \<Rightarrow> a)"
  "le_word (sub_bytes 36 4 (encode_control ty lanes sid ack win nanos)) =
     crc32 (sub_bytes 0 36 (encode_control ty lanes sid ack win nanos))"
  by (simp_all add: encode_control_def Let_def CONTROL_MAGIC_def u64_le.dec_enc u32_le.dec_enc)

end
