(* ===== verification/Ordered_Frames.thy ===== *)
theory Ordered_Frames
  imports Protocol_V4
begin

text \<open>
  The receive window \<open>OrderedFrames\<close> of \<open>protocol.rs\<close>: a ring of 256 slots that puts the
  datagrams of one session back into sequence order. The interface \<open>reorder_window\<close> states what
  its clients rely on (a finite map from sequence numbers to frames with a cursor); it is
  interpreted on the ring, and gives in-order, exactly-once delivery for every interleaving of
  arrivals and commits.
\<close>

section \<open>The ring\<close>

record ordered_frames =
  of_session :: "u64 option"
  next_sequence :: u64
  buffered :: "touch_frame option list"
  requires_session_start :: bool

text \<open>\<open>sequence as usize % MAX_REORDERED_FRAMES\<close>, on a 64-bit host.\<close>

definition slot :: "u64 \<Rightarrow> nat" where
  "slot s = unat s mod MAX_REORDERED_FRAMES"

definition ordered_new :: ordered_frames where
  "ordered_new = \<lparr>of_session = None, next_sequence = 0,
     buffered = replicate MAX_REORDERED_FRAMES None, requires_session_start = False\<rparr>"

definition begin_session :: "ordered_frames \<Rightarrow> touch_frame \<Rightarrow> ordered_frames" where
  "begin_session o' f = o'\<lparr>of_session := Some (session_id f), next_sequence := sequence f,
     buffered := replicate (length (buffered o')) None, requires_session_start := False\<rparr>"

definition require_fresh_session :: "ordered_frames \<Rightarrow> ordered_frames" where
  "require_fresh_session o' = o'\<lparr>of_session := None, next_sequence := 0,
     buffered := replicate (length (buffered o')) None, requires_session_start := True\<rparr>"

text \<open>\<open>next_sequence.checked_sub(1)\<close>.\<close>

definition acknowledged_sequence :: "ordered_frames \<Rightarrow> u64 option" where
  "acknowledged_sequence o' = (if next_sequence o' = 0 then None else Some (next_sequence o' - 1))"

definition expected_sequence :: "ordered_frames \<Rightarrow> u64" where
  "expected_sequence o' = next_sequence o'"

definition contains_sequence :: "ordered_frames \<Rightarrow> u64 \<Rightarrow> bool" where
  "contains_sequence o' s =
     (case buffered o' ! slot s of None \<Rightarrow> False | Some f \<Rightarrow> sequence f = s)"

text \<open>\<open>push\<close> after its session checks: the two sequence bounds and the slot.\<close>

definition store_frame :: "ordered_frames \<Rightarrow> touch_frame \<Rightarrow> ordered_frames" where
  "store_frame w f =
    (if sequence f < next_sequence w then w
     else if unat (sequence f - next_sequence w) \<ge> MAX_REORDERED_FRAMES then w
     else if buffered w ! slot (sequence f) = None
          then w\<lparr>buffered := (buffered w)[slot (sequence f) := Some f]\<rparr>
          else w)"

definition push :: "ordered_frames \<Rightarrow> touch_frame \<Rightarrow> ordered_frames" where
  "push o' f =
    (if requires_session_start o' \<and> \<not> session_start f then o'
     else case of_session o' of
         None \<Rightarrow> store_frame (begin_session o' f) f
       | Some s \<Rightarrow>
           if s \<noteq> session_id f
           then (if session_start f then store_frame (begin_session o' f) f else o')
           else store_frame o' f)"

definition next_ready :: "ordered_frames \<Rightarrow> touch_frame option" where
  "next_ready o' =
     (case buffered o' ! slot (next_sequence o') of
        None \<Rightarrow> None
      | Some f \<Rightarrow> if sequence f = next_sequence o' then Some f else None)"

definition window_commit :: "ordered_frames \<Rightarrow> ordered_frames \<times> bool" where
  "window_commit o' =
     (let i = slot (next_sequence o'); w = o'\<lparr>buffered := (buffered o')[i := None]\<rparr> in
      case buffered o' ! i of
        None \<Rightarrow> (w, False)
      | Some _ \<Rightarrow> (w\<lparr>next_sequence := next_sequence o' + 1\<rparr>, True))"

section \<open>Invariant\<close>

definition window_inv :: "ordered_frames \<Rightarrow> bool" where
  "window_inv o' \<longleftrightarrow>
     length (buffered o') = MAX_REORDERED_FRAMES \<and>
     (requires_session_start o' \<longrightarrow> of_session o' = None) \<and>
     (\<forall>i < MAX_REORDERED_FRAMES. \<forall>f. buffered o' ! i = Some f \<longrightarrow>
        slot (sequence f) = i \<and> of_session o' = Some (session_id f) \<and>
        unat (next_sequence o') \<le> unat (sequence f) \<and>
        unat (sequence f) < unat (next_sequence o') + MAX_REORDERED_FRAMES)"

definition lookup_frame :: "ordered_frames \<Rightarrow> u64 \<Rightarrow> touch_frame option" where
  "lookup_frame o' s =
     (case buffered o' ! slot s of None \<Rightarrow> None | Some f \<Rightarrow> if sequence f = s then Some f else None)"

definition in_window :: "u64 \<Rightarrow> u64 \<Rightarrow> bool" where
  "in_window n s \<longleftrightarrow> n \<le> s \<and> unat s < unat n + MAX_REORDERED_FRAMES"

lemma slot_less [simp]: "slot s < 256"
  by (simp add: slot_def)

lemma unat_diff_window: "n \<le> s \<Longrightarrow> unat (s - n) < 256 \<longleftrightarrow> unat s < unat n + 256" for n s :: u64
  by (simp add: unat_sub word_le_nat_alt less_diff_conv2 add.commute)

text \<open>Two sequence numbers of one window share a slot only when they are equal.\<close>

lemma slot_inj_window:
  assumes "in_window n s" "in_window n t" "slot s = slot t"
  shows "s = t"
proof -
  have eq: "unat s mod 256 = unat t mod 256" using assms(3) by (simp add: slot_def)
  have "unat s = unat t"
    by (rule mod_eq_close [OF eq]) (use assms(1,2) in \<open>auto simp: in_window_def word_le_nat_alt\<close>)
  then show ?thesis by (simp add: word_unat_eq_iff)
qed

lemma window_inv_new: "window_inv ordered_new"
  by (simp add: window_inv_def ordered_new_def)

lemma window_inv_fresh: "window_inv o' \<Longrightarrow> window_inv (require_fresh_session o')"
  by (simp add: window_inv_def require_fresh_session_def)

lemma window_inv_begin: "window_inv o' \<Longrightarrow> window_inv (begin_session o' f)"
  by (simp add: window_inv_def begin_session_def)

lemma window_inv_length: "window_inv o' \<Longrightarrow> length (buffered o') = 256"
  by (simp add: window_inv_def)

lemma window_inv_slot:
  assumes "window_inv o'" and "buffered o' ! i = Some f" and "i < 256"
  shows "slot (sequence f) = i \<and> of_session o' = Some (session_id f) \<and>
    in_window (next_sequence o') (sequence f)"
  using assms by (auto simp: window_inv_def in_window_def word_le_nat_alt)

lemma lookup_frame_Some:
  assumes "window_inv o'" and "lookup_frame o' s = Some f"
  shows "sequence f = s \<and> of_session o' = Some (session_id f) \<and> in_window (next_sequence o') s"
  using assms window_inv_slot [OF assms(1), of "slot s" f]
  by (auto simp: lookup_frame_def split: option.splits if_splits)

text \<open>Inside the window an occupied slot is occupied by the frame of that very sequence.\<close>

lemma buffered_slot_lookup:
  assumes "window_inv o'" and "in_window (next_sequence o') s"
  shows "buffered o' ! slot s = lookup_frame o' s"
proof (cases "buffered o' ! slot s")
  case None
  then show ?thesis by (simp add: lookup_frame_def)
next
  case (Some f)
  with window_inv_slot [OF assms(1) Some] assms(2) have "sequence f = s"
    by (intro slot_inj_window [of "next_sequence o'"]) auto
  with Some show ?thesis by (simp add: lookup_frame_def)
qed

section \<open>What push and commit do to the map of buffered frames\<close>

text \<open>\<open>store_frame\<close> over the map of buffered frames.\<close>

definition buffer_frame :: "ordered_frames \<Rightarrow> touch_frame \<Rightarrow> ordered_frames" where
  "buffer_frame w f =
    (if in_window (next_sequence w) (sequence f) \<and> lookup_frame w (sequence f) = None
     then w\<lparr>buffered := (buffered w)[slot (sequence f) := Some f]\<rparr> else w)"

lemma store_frame_buffer:
  assumes "window_inv w"
  shows "store_frame w f = buffer_frame w f"
proof (cases "in_window (next_sequence w) (sequence f)")
  case True
  then have "\<not> sequence f < next_sequence w" "\<not> unat (sequence f - next_sequence w) \<ge> 256"
    using unat_diff_window [of "next_sequence w" "sequence f"] by (auto simp: in_window_def not_less)
  then show ?thesis
    using True by (simp add: store_frame_def buffer_frame_def buffered_slot_lookup [OF assms True])
next
  case False
  then have "\<not> next_sequence w \<le> sequence f \<or> \<not> unat (sequence f - next_sequence w) < 256"
    using unat_diff_window [of "next_sequence w" "sequence f"] by (auto simp: in_window_def)
  with False show ?thesis by (auto simp: store_frame_def buffer_frame_def not_le not_less)
qed

lemma push_cases:
  assumes "window_inv w"
  shows "push w f =
    (if requires_session_start w \<and> \<not> session_start f then w
     else if of_session w = Some (session_id f) then buffer_frame w f
     else if of_session w = None \<or> session_start f then buffer_frame (begin_session w f) f
     else w)"
  using store_frame_buffer [OF assms] store_frame_buffer [OF window_inv_begin [OF assms]]
  by (auto simp: push_def split: option.split)

lemma buffer_frame_fields [simp]:
  "of_session (buffer_frame w f) = of_session w"
  "next_sequence (buffer_frame w f) = next_sequence w"
  "requires_session_start (buffer_frame w f) = requires_session_start w"
  by (simp_all add: buffer_frame_def)

lemma window_inv_buffer:
  assumes "window_inv w" and "of_session w = Some (session_id f)"
  shows "window_inv (buffer_frame w f)"
  using assms
  by (auto simp: window_inv_def buffer_frame_def in_window_def word_le_nat_alt nth_list_update)

lemma window_inv_push: "window_inv w \<Longrightarrow> window_inv (push w f)"
  by (auto simp: push_cases intro!: window_inv_buffer window_inv_begin)
    (simp add: begin_session_def)+

lemma lookup_buffer_frame:
  assumes "window_inv w"
  shows "lookup_frame (buffer_frame w f) s =
    (if s = sequence f \<and> in_window (next_sequence w) s \<and> lookup_frame w s = None
     then Some f else lookup_frame w s)"
proof (cases "in_window (next_sequence w) (sequence f) \<and> lookup_frame w (sequence f) = None")
  case False
  then show ?thesis by (auto simp: buffer_frame_def)
next
  case True
  then have free: "buffered w ! slot (sequence f) = None"
    using buffered_slot_lookup [OF assms, of "sequence f"] by simp
  show ?thesis
  proof (cases "slot s = slot (sequence f)")
    case same: True
    then have "lookup_frame w s = None" using free by (simp add: lookup_frame_def)
    moreover have "lookup_frame (buffer_frame w f) s = (if sequence f = s then Some f else None)"
      using True same window_inv_length [OF assms] by (simp add: lookup_frame_def buffer_frame_def)
    ultimately show ?thesis using True by auto
  next
    case False
    then show ?thesis using True by (auto simp: lookup_frame_def buffer_frame_def)
  qed
qed

lemma lookup_next: "window_inv w \<Longrightarrow> next_ready w = lookup_frame w (next_sequence w)"
  by (simp add: next_ready_def lookup_frame_def split: option.split)

lemma in_window_next: "in_window n n"
  by (simp add: in_window_def)

lemma commit_cases:
  assumes "window_inv w"
  shows "window_commit w =
    (if lookup_frame w (next_sequence w) = None then (w, False)
     else (w\<lparr>buffered := (buffered w)[slot (next_sequence w) := None],
             next_sequence := next_sequence w + 1\<rparr>, True))"
proof -
  have "buffered w ! slot (next_sequence w) = lookup_frame w (next_sequence w)"
    by (rule buffered_slot_lookup [OF assms in_window_next])
  moreover have "(buffered w)[slot (next_sequence w) := None] = buffered w"
    if "buffered w ! slot (next_sequence w) = None"
    using that by (metis list_update_id)
  ultimately show ?thesis by (auto simp: window_commit_def Let_def split: option.split)
qed

text \<open>At the last sequence number the cursor wraps, and the window is empty then.\<close>

lemma window_advance:
  fixes n :: u64
  assumes "in_window n s" "s \<noteq> n"
  shows "in_window (n + 1) s"
proof -
  have lt: "unat n < unat s"
    using assms by (auto simp: in_window_def word_le_nat_alt word_unat_eq_iff)
  moreover have "unat s < 2 ^ 64" using unsigned_less [of s, where ?'a = nat] by simp
  ultimately have "unat (n + 1) = unat n + 1" by (simp add: unat_word_ariths)
  with lt assms(1) show ?thesis by (simp add: in_window_def word_le_nat_alt)
qed

lemma window_inv_commit:
  assumes "window_inv w"
  shows "window_inv (fst (window_commit w))"
proof (cases "lookup_frame w (next_sequence w)")
  case None
  then show ?thesis using assms by (simp add: commit_cases)
next
  case (Some g)
  let ?n = "next_sequence w" and ?w = "fst (window_commit w)"
  have w: "?w = w\<lparr>buffered := (buffered w)[slot ?n := None], next_sequence := ?n + 1\<rparr>"
    using Some assms by (simp add: commit_cases)
  have "slot (sequence f) = i \<and> of_session w = Some (session_id f) \<and> in_window (?n + 1) (sequence f)"
    if i: "i < 256" and f: "(buffered w)[slot ?n := None] ! i = Some f" for i f
  proof -
    from f i have ne: "i \<noteq> slot ?n" and f': "buffered w ! i = Some f"
      using window_inv_length [OF assms] by (auto simp: nth_list_update split: if_splits)
    note old = window_inv_slot [OF assms f' i]
    with ne have "sequence f \<noteq> ?n" by auto
    with old window_advance show ?thesis by blast
  qed
  then show ?thesis
    using assms unfolding w by (simp add: window_inv_def in_window_def word_le_nat_alt)
qed

lemma lookup_commit:
  assumes "window_inv w" and "lookup_frame w (next_sequence w) \<noteq> None"
  shows "lookup_frame (fst (window_commit w)) s =
    (if s = next_sequence w then None else lookup_frame w s)"
proof -
  let ?n = "next_sequence w"
  have len: "length (buffered w) = 256" by (rule window_inv_length [OF assms(1)])
  obtain g where g: "lookup_frame w ?n = Some g" using assms(2) by blast
  then have slot_n: "buffered w ! slot ?n = Some g" and "sequence g = ?n"
    by (auto simp: lookup_frame_def split: option.splits if_splits)
  then have "lookup_frame w s = None" if "slot s = slot ?n" "s \<noteq> ?n"
    using that by (simp add: lookup_frame_def)
  moreover have "lookup_frame (fst (window_commit w)) s =
      (if slot s = slot ?n then None else lookup_frame w s)"
    using g len by (auto simp: commit_cases [OF assms(1)] lookup_frame_def)
  ultimately show ?thesis by auto
qed

section \<open>The interface of the window\<close>

text \<open>
  A client of the window lets frames arrive and commits the ready one. \<open>window_run\<close> is such a
  client, over any window that offers the three operations; it collects the frames committed.
\<close>

datatype window_op = Arrive touch_frame | Deliver

fun window_run ::
  "('w \<Rightarrow> touch_frame \<Rightarrow> 'w) \<Rightarrow> ('w \<Rightarrow> touch_frame option) \<Rightarrow> ('w \<Rightarrow> 'w \<times> bool) \<Rightarrow>
   window_op list \<Rightarrow> 'w \<Rightarrow> 'w \<times> touch_frame list" where
  "window_run psh ready cmt [] w = (w, [])"
| "window_run psh ready cmt (Arrive f # ops) w = window_run psh ready cmt ops (psh w f)"
| "window_run psh ready cmt (Deliver # ops) w =
    (case ready w of
       None \<Rightarrow> window_run psh ready cmt ops w
     | Some f \<Rightarrow> (let r = window_run psh ready cmt ops (fst (cmt w)) in (fst r, f # snd r)))"

definition arrivals :: "window_op list \<Rightarrow> touch_frame set" where
  "arrivals ops = {f. Arrive f \<in> set ops}"

lemma arrivals_simps [simp]:
  "arrivals [] = {}"
  "arrivals (Arrive f # ops) = insert f (arrivals ops)"
  "arrivals (Deliver # ops) = arrivals ops"
  by (auto simp: arrivals_def)

text \<open>\<open>n, n + 1, \<dots>\<close>: the \<open>k\<close> sequence numbers from \<open>n\<close> on, wrapping.\<close>

fun seq_from :: "u64 \<Rightarrow> nat \<Rightarrow> u64 list" where
  "seq_from n 0 = []"
| "seq_from n (Suc k) = n # seq_from (n + 1) k"

lemma length_seq_from [simp]: "length (seq_from n k) = k"
  by (induction k arbitrary: n) auto

lemma take_seq_from: "take j (seq_from n k) = seq_from n (min j k)"
  by (induction k arbitrary: n j) (auto simp: take_Cons split: nat.split)

lemma length_window_run: "length (snd (window_run psh ready cmt ops w)) \<le> length ops"
proof (induction ops arbitrary: w)
  case (Cons p ops)
  show ?case
  proof (cases p)
    case (Arrive f)
    with Cons.IH [of "psh w f"] show ?thesis by simp
  next
    case Deliver
    with Cons.IH [of w] Cons.IH [of "fst (cmt w)"] show ?thesis
      by (simp add: Let_def split: option.split)
  qed
qed simp

lemma window_run_append:
  "window_run psh ready cmt (xs @ ys) w =
    (let a = window_run psh ready cmt xs w; b = window_run psh ready cmt ys (fst a)
     in (fst b, snd a @ snd b))"
proof (induction xs arbitrary: w)
  case (Cons p xs)
  then show ?case by (cases p) (auto simp: Let_def split: option.split)
qed (simp add: Let_def)

locale reorder_window =
  fixes inv :: "'w \<Rightarrow> bool"
    and session :: "'w \<Rightarrow> u64 option"
    and cursor :: "'w \<Rightarrow> u64"
    and find :: "'w \<Rightarrow> u64 \<Rightarrow> touch_frame option"
    and psh :: "'w \<Rightarrow> touch_frame \<Rightarrow> 'w"
    and ready :: "'w \<Rightarrow> touch_frame option"
    and cmt :: "'w \<Rightarrow> 'w \<times> bool"
  assumes find_key: "inv w \<Longrightarrow> find w s = Some f \<Longrightarrow>
      sequence f = s \<and> session w = Some (session_id f) \<and> in_window (cursor w) s"
    and ready_find: "inv w \<Longrightarrow> ready w = find w (cursor w)"
    and inv_push: "inv w \<Longrightarrow> inv (psh w f)"
    and inv_commit: "inv w \<Longrightarrow> inv (fst (cmt w))"
    and push_foreign: "inv w \<Longrightarrow> session w = Some s \<Longrightarrow> s \<noteq> session_id f \<Longrightarrow>
      \<not> session_start f \<Longrightarrow> psh w f = w"
    and push_session: "inv w \<Longrightarrow> session w = Some (session_id f) \<Longrightarrow>
      session (psh w f) = session w \<and> cursor (psh w f) = cursor w"
    and push_find: "inv w \<Longrightarrow> session w = Some (session_id f) \<Longrightarrow>
      find (psh w f) s = (if s = sequence f \<and> in_window (cursor w) s \<and> find w s = None
                          then Some f else find w s)"
    and commit_ready: "inv w \<Longrightarrow> find w (cursor w) \<noteq> None \<Longrightarrow>
      session (fst (cmt w)) = session w \<and> cursor (fst (cmt w)) = cursor w + 1"
    and commit_find: "inv w \<Longrightarrow> find w (cursor w) \<noteq> None \<Longrightarrow>
      find (fst (cmt w)) s = (if s = cursor w then None else find w s)"
begin

lemma run_inv: "inv w \<Longrightarrow> inv (fst (window_run psh ready cmt ops w))"
proof (induction ops arbitrary: w)
  case (Cons p ops)
  then show ?case
    by (cases p) (simp_all add: inv_push inv_commit Let_def split: option.split)
qed simp

lemma deliver_ready:
  assumes "inv w" and "ready w = Some f"
  shows "find w (cursor w) = Some f" and "sequence f = cursor w"
    and "session w = Some (session_id f)"
    and "session (fst (cmt w)) = session w" and "cursor (fst (cmt w)) = cursor w + 1"
    and "find (fst (cmt w)) s = (if s = cursor w then None else find w s)"
proof -
  show f: "find w (cursor w) = Some f" using ready_find assms by simp
  then show "sequence f = cursor w" "session w = Some (session_id f)"
    using find_key [OF assms(1) f] by auto
  show "session (fst (cmt w)) = session w" "cursor (fst (cmt w)) = cursor w + 1"
    "find (fst (cmt w)) s = (if s = cursor w then None else find w s)"
    using commit_ready [OF assms(1)] commit_find [OF assms(1), of s] f by auto
qed

lemma push_stable:
  assumes "inv w" and "session w = Some sid" and "session_id f = sid \<or> \<not> session_start f"
  shows "session (psh w f) = Some sid" and "cursor (psh w f) = cursor w"
    and "find (psh w f) s = Some g \<Longrightarrow> g = f \<or> find w s = Some g"
    and "find w s = Some g \<Longrightarrow> find (psh w f) s = Some g"
proof -
  consider "session_id f = sid" | "session_id f \<noteq> sid" "psh w f = w"
    using push_foreign assms by metis
  then have "session (psh w f) = Some sid \<and> cursor (psh w f) = cursor w \<and>
    (find (psh w f) s = Some g \<longrightarrow> g = f \<or> find w s = Some g) \<and>
    (find w s = Some g \<longrightarrow> find (psh w f) s = Some g)"
    by cases (use assms push_session [OF assms(1), of f] push_find [OF assms(1), of f s] in auto)
  then show "session (psh w f) = Some sid" "cursor (psh w f) = cursor w"
    "find (psh w f) s = Some g \<Longrightarrow> g = f \<or> find w s = Some g"
    "find w s = Some g \<Longrightarrow> find (psh w f) s = Some g" by blast+
qed

definition one_session :: "u64 \<Rightarrow> window_op list \<Rightarrow> bool" where
  "one_session sid ops \<longleftrightarrow> (\<forall>f \<in> arrivals ops. session_id f = sid \<or> \<not> session_start f)"

lemma one_session_simps [simp]:
  "one_session sid []"
  "one_session sid (Arrive f # ops) \<longleftrightarrow>
     (session_id f = sid \<or> \<not> session_start f) \<and> one_session sid ops"
  "one_session sid (Deliver # ops) \<longleftrightarrow> one_session sid ops"
  by (auto simp: one_session_def)

text \<open>The frames committed carry consecutive sequence numbers from the cursor on.\<close>

lemma run_consecutive:
  assumes "inv w" and "session w = Some sid" and "one_session sid ops"
    and "window_run psh ready cmt ops w = (w', ds)"
  shows "session w' = Some sid \<and> cursor w' = cursor w + of_nat (length ds) \<and>
    map sequence ds = seq_from (cursor w) (length ds) \<and> (\<forall>f \<in> set ds. session_id f = sid)"
  using assms
proof (induction ops arbitrary: w ds)
  case (Cons p ops)
  show ?case
  proof (cases p)
    case (Arrive f)
    with Cons.prems have own: "session_id f = sid \<or> \<not> session_start f" by simp
    show ?thesis
      using Cons.IH [OF inv_push [OF Cons.prems(1)] push_stable(1) [OF Cons.prems(1,2) own]]
        push_stable(2) [OF Cons.prems(1,2) own] Cons.prems(3,4) Arrive by simp
  next
    case Deliver
    show ?thesis
    proof (cases "ready w")
      case None
      with Cons.IH [OF Cons.prems(1,2)] Cons.prems(3,4) Deliver show ?thesis by simp
    next
      case (Some f)
      note ready = deliver_ready [OF Cons.prems(1) Some]
      obtain fs where run: "window_run psh ready cmt ops (fst (cmt w)) = (w', fs)" "ds = f # fs"
        using Cons.prems(4) Deliver Some
        by (cases "window_run psh ready cmt ops (fst (cmt w))") (auto simp: Let_def)
      have own: "session_id f = sid" using ready(3) Cons.prems(2) by simp
      have "session w' = Some sid \<and> cursor w' = cursor (fst (cmt w)) + of_nat (length fs) \<and>
        map sequence fs = seq_from (cursor (fst (cmt w))) (length fs) \<and>
        (\<forall>f \<in> set fs. session_id f = sid)"
        using Cons.prems(2,3) Deliver
        by (intro Cons.IH [OF inv_commit [OF Cons.prems(1)] _ _ run(1)]) (simp_all add: ready(4))
      then show ?thesis by (simp add: run(2) own ready(2,5))
    qed
  qed
qed simp

text \<open>Every frame committed or still held arrived, or was held before.\<close>

lemma run_origin:
  assumes "inv w" and "session w = Some sid" and "one_session sid ops"
    and "window_run psh ready cmt ops w = (w', ds)" and "f \<in> set ds"
  shows "f \<in> arrivals ops \<or> find w (sequence f) = Some f"
  using assms
proof (induction ops arbitrary: w ds)
  case (Cons p ops)
  show ?case
  proof (cases p)
    case (Arrive g)
    with Cons.prems have own: "session_id g = sid \<or> \<not> session_start g" by simp
    have "f \<in> arrivals ops \<or> find (psh w g) (sequence f) = Some f"
      using Cons.IH [OF inv_push [OF Cons.prems(1)] push_stable(1) [OF Cons.prems(1,2) own]]
        Cons.prems(3-5) Arrive by simp
    then show ?thesis using push_stable(3) [OF Cons.prems(1,2) own] Arrive by auto
  next
    case Deliver
    show ?thesis
    proof (cases "ready w")
      case None
      with Cons.IH [OF Cons.prems(1,2)] Cons.prems(3-5) Deliver show ?thesis by simp
    next
      case (Some g)
      note ready = deliver_ready [OF Cons.prems(1) Some]
      obtain fs where run: "window_run psh ready cmt ops (fst (cmt w)) = (w', fs)" "ds = g # fs"
        using Cons.prems(4) Deliver Some
        by (cases "window_run psh ready cmt ops (fst (cmt w))") (auto simp: Let_def)
      show ?thesis
      proof (cases "f \<in> set fs")
        case True
        then have "f \<in> arrivals ops \<or> find (fst (cmt w)) (sequence f) = Some f"
          using Cons.IH [OF inv_commit [OF Cons.prems(1)] _ _ run(1)] ready(4) Cons.prems(2,3)
            Deliver by simp
        then show ?thesis using ready(6) [of "sequence f"] Deliver by (auto split: if_splits)
      next
        case False
        with run(2) Cons.prems(5) ready(1,2) show ?thesis by simp
      qed
    qed
  qed
qed simp

text \<open>A sequence number is settled when it was committed or its frame is held.\<close>

definition settled :: "'w \<Rightarrow> u64 \<Rightarrow> bool" where
  "settled w s \<longleftrightarrow> s < cursor w \<or> find w s \<noteq> None"

lemma settled_push:
  assumes "inv w" and "session w = Some sid" and "session_id f = sid \<or> \<not> session_start f"
  shows "settled w s \<Longrightarrow> settled (psh w f) s"
    and "session_id f = sid \<Longrightarrow> unat (sequence f) < unat (cursor w) + 256 \<Longrightarrow>
      settled (psh w f) (sequence f)"
proof -
  show "settled (psh w f) s" if "settled w s"
    using that push_stable(2,4) [OF assms] unfolding settled_def by fastforce
  show "settled (psh w f) (sequence f)"
    if "session_id f = sid" "unat (sequence f) < unat (cursor w) + 256"
  proof (cases "sequence f < cursor w")
    case True
    then show ?thesis by (simp add: settled_def push_stable(2) [OF assms])
  next
    case False
    then have "in_window (cursor w) (sequence f)" using that(2) by (simp add: in_window_def)
    then have "find (psh w f) (sequence f) \<noteq> None"
      using push_find [OF assms(1), of f "sequence f"] assms(2) that(1) by auto
    then show ?thesis by (simp add: settled_def)
  qed
qed

lemma settled_commit:
  assumes "inv w" and "ready w = Some f" and "unat (cursor w) < 2 ^ 64 - 1" and "settled w s"
  shows "settled (fst (cmt w)) s"
proof -
  have "cursor w < cursor w + 1"
    using assms(3) by (simp add: word_less_nat_alt unat_word_ariths)
  with assms(4) deliver_ready(5,6) [OF assms(1,2)] show ?thesis
    unfolding settled_def by (metis less_trans)
qed

lemma run_cursor:
  assumes "inv w" and "session w = Some sid" and "one_session sid ops"
    and "unat (cursor w) + length ops < 2 ^ 64"
  shows "unat (cursor (fst (window_run psh ready cmt ops w))) =
    unat (cursor w) + length (snd (window_run psh ready cmt ops w))"
proof -
  let ?r = "window_run psh ready cmt ops w"
  have c: "cursor (fst ?r) = cursor w + of_nat (length (snd ?r))"
    using run_consecutive [OF assms(1-3), of "fst ?r" "snd ?r"] by simp
  have "length (snd ?r) \<le> length ops" by (rule length_window_run)
  with assms(4) show ?thesis unfolding c by (simp add: unat_word_ariths unat_of_nat)
qed

lemma run_settled:
  assumes "inv w" and "session w = Some sid" and "one_session sid ops"
    and "unat (cursor w) + length ops < 2 ^ 64"
    and "settled w s \<or> (\<exists>f \<in> arrivals ops. session_id f = sid \<and> sequence f = s \<and>
           unat s < unat (cursor w) + 256)"
  shows "settled (fst (window_run psh ready cmt ops w)) s"
  using assms
proof (induction ops arbitrary: w)
  case (Cons p ops)
  show ?case
  proof (cases p)
    case (Arrive f)
    with Cons.prems have own: "session_id f = sid \<or> \<not> session_start f" by simp
    note stable = push_stable(1,2) [OF Cons.prems(1,2) own]
    have "settled (psh w f) s \<or> (\<exists>g \<in> arrivals ops. session_id g = sid \<and> sequence g = s \<and>
        unat s < unat (cursor (psh w f)) + 256)"
      using Cons.prems(5) settled_push [OF Cons.prems(1,2) own] Arrive by (auto simp: stable(2))
    with Cons.IH [OF inv_push [OF Cons.prems(1)] stable(1)] Cons.prems(3,4) Arrive stable(2)
    show ?thesis by simp
  next
    case Deliver
    show ?thesis
    proof (cases "ready w")
      case None
      with Cons.IH [OF Cons.prems(1,2)] Cons.prems(3-5) Deliver show ?thesis by simp
    next
      case (Some f)
      note ready = deliver_ready [OF Cons.prems(1) Some]
      let ?w = "fst (cmt w)"
      have small: "unat (cursor w) < 2 ^ 64 - 1" using Cons.prems(4) by simp
      then have c: "unat (cursor ?w) = unat (cursor w) + 1"
        unfolding ready(5) by (simp add: unat_word_ariths)
      have "settled ?w s \<or> (\<exists>f \<in> arrivals ops. session_id f = sid \<and> sequence f = s \<and>
          unat s < unat (cursor ?w) + 256)"
        using Cons.prems(5) settled_commit [OF Cons.prems(1) Some small] Deliver c by auto
      moreover have "one_session sid ops" using Cons.prems(3) Deliver by simp
      moreover have "session ?w = Some sid" using ready(4) Cons.prems(2) by simp
      moreover have "unat (cursor ?w) + length ops < 2 ^ 64" using Cons.prems(4) c by simp
      ultimately have "settled (fst (window_run psh ready cmt ops ?w)) s"
        using Cons.IH [OF inv_commit [OF Cons.prems(1)]] by blast
      then show ?thesis using Some Deliver by (simp add: Let_def)
    qed
  qed
qed simp

lemma drain:
  assumes "inv w" and "session w = Some sid" and "unat (cursor w) + k < 2 ^ 64"
    and "\<forall>s. unat s < N \<longrightarrow> settled w s" and "N \<le> unat (cursor w) + k"
  shows "N \<le> unat (cursor (fst (window_run psh ready cmt (replicate k Deliver) w)))"
  using assms
proof (induction k arbitrary: w)
  case (Suc k)
  show ?case
  proof (cases "ready w")
    case None
    then have "\<not> settled w (cursor w)"
      using ready_find [OF Suc.prems(1)] by (simp add: settled_def)
    then have "N \<le> unat (cursor w)" using Suc.prems(4) not_less by blast
    with None Suc show ?thesis by simp
  next
    case (Some f)
    note ready = deliver_ready [OF Suc.prems(1) Some]
    let ?w = "fst (cmt w)"
    have small: "unat (cursor w) < 2 ^ 64 - 1" using Suc.prems(3) by simp
    then have c: "unat (cursor ?w) = unat (cursor w) + 1"
      unfolding ready(5) by (simp add: unat_word_ariths)
    have "\<forall>s. unat s < N \<longrightarrow> settled ?w s"
      using Suc.prems(4) settled_commit [OF Suc.prems(1) Some small] by blast
    then show ?thesis
      using Suc.IH [OF inv_commit [OF Suc.prems(1)]] ready(4) Suc.prems(2,3,5) c Some
      by (simp add: Let_def)
  qed
qed simp

text \<open>
  Whatever the order and the multiplicity in which the next \<open>k\<close> frames arrive, and whatever
  deliveries happen in between, \<open>k\<close> further deliveries commit all of them.
\<close>

lemma burst_complete:
  assumes "inv w" and "session w = Some sid" and "one_session sid ops"
    and "k \<le> 256" and "unat (cursor w) + length ops + k < 2 ^ 64"
    and cover: "\<forall>s. unat (cursor w) \<le> unat s \<and> unat s < unat (cursor w) + k \<longrightarrow>
      (\<exists>f \<in> arrivals ops. session_id f = sid \<and> sequence f = s)"
  shows "k \<le> length (snd (window_run psh ready cmt (ops @ replicate k Deliver) w))"
proof -
  let ?r = "window_run psh ready cmt ops w"
  let ?t = "window_run psh ready cmt (replicate k Deliver) (fst ?r)"
  have inv: "inv (fst ?r)" by (rule run_inv [OF assms(1)])
  have sess: "session (fst ?r) = Some sid"
    using run_consecutive [OF assms(1-3), of "fst ?r" "snd ?r"] by simp
  have bound: "unat (cursor w) + length ops < 2 ^ 64" using assms(5) by simp
  note c = run_cursor [OF assms(1-3) bound]
  have len: "length (snd ?r) \<le> length ops" by (rule length_window_run)
  have "\<forall>s. unat s < unat (cursor w) + k \<longrightarrow> settled (fst ?r) s"
  proof (intro allI impI)
    fix s :: u64
    assume s: "unat s < unat (cursor w) + k"
    show "settled (fst ?r) s"
    proof (rule run_settled [OF assms(1-3) bound])
      show "settled w s \<or> (\<exists>f \<in> arrivals ops. session_id f = sid \<and> sequence f = s \<and>
          unat s < unat (cursor w) + 256)"
        using cover s assms(4) by (cases "s < cursor w")
          (auto simp: settled_def not_less word_le_nat_alt)
    qed
  qed
  then have "unat (cursor w) + k \<le> unat (cursor (fst ?t))"
    using assms(5) c len by (intro drain [OF inv sess]) auto
  moreover have "unat (cursor (fst ?t)) = unat (cursor (fst ?r)) + length (snd ?t)"
    by (rule run_cursor [OF inv sess]) (use assms(5) c len in \<open>auto simp: one_session_def arrivals_def\<close>)
  ultimately show ?thesis using c by (simp add: window_run_append Let_def)
qed

end

section \<open>The ring provides the interface\<close>

interpretation ring: reorder_window window_inv of_session next_sequence lookup_frame push
  next_ready window_commit
proof unfold_locales
  fix w s f assume "window_inv w" and "lookup_frame w s = Some f"
  then show "sequence f = s \<and> of_session w = Some (session_id f) \<and> in_window (next_sequence w) s"
    by (rule lookup_frame_Some)
next
  fix w :: ordered_frames and f :: touch_frame and s :: u64
  assume w: "window_inv w" and sess: "of_session w = Some (session_id f)"
  then have nr: "\<not> requires_session_start w" by (simp add: window_inv_def)
  then show "of_session (push w f) = of_session w \<and> next_sequence (push w f) = next_sequence w"
    using w sess by (simp add: push_cases)
  show "lookup_frame (push w f) s =
      (if s = sequence f \<and> in_window (next_sequence w) s \<and> lookup_frame w s = None
       then Some f else lookup_frame w s)"
    using w sess nr by (simp add: push_cases lookup_buffer_frame)
next
  fix w :: ordered_frames and f :: touch_frame and s :: u64
  assume w: "window_inv w"
  show "next_ready w = lookup_frame w (next_sequence w)" by (rule lookup_next [OF w])
  show "window_inv (push w f)" by (rule window_inv_push [OF w])
  show "window_inv (fst (window_commit w))" by (rule window_inv_commit [OF w])
  show "push w f = w"
    if "of_session w = Some s" "s \<noteq> session_id f" "\<not> session_start f"
    using that w by (simp add: push_cases)
  assume held: "lookup_frame w (next_sequence w) \<noteq> None"
  then show "of_session (fst (window_commit w)) = of_session w \<and>
      next_sequence (fst (window_commit w)) = next_sequence w + 1"
    using w by (simp add: commit_cases)
  show "lookup_frame (fst (window_commit w)) s =
      (if s = next_sequence w then None else lookup_frame w s)"
    by (rule lookup_commit [OF w held])
qed

lemma deliver_nothing: "next_ready w = None \<Longrightarrow> window_run push next_ready window_commit (replicate k Deliver) w = (w, [])"
  by (induction k) simp_all

lemma no_session_not_ready: "window_inv w \<Longrightarrow> of_session w = None \<Longrightarrow> next_ready w = None"
  using lookup_frame_Some [of w "next_sequence w"] by (cases "next_ready w") (auto simp: lookup_next)

text \<open>Every window the host can get: a new one, changed by the four operations.\<close>

inductive window_reachable :: "ordered_frames \<Rightarrow> bool" where
  reach_new: "window_reachable ordered_new"
| reach_push: "window_reachable w \<Longrightarrow> window_reachable (push w f)"
| reach_commit: "window_reachable w \<Longrightarrow> window_reachable (fst (window_commit w))"
| reach_begin: "window_reachable w \<Longrightarrow> window_reachable (begin_session w f)"
| reach_fresh: "window_reachable w \<Longrightarrow> window_reachable (require_fresh_session w)"

lemma window_reachable_inv: "window_reachable w \<Longrightarrow> window_inv w"
  by (induction rule: window_reachable.induct)
    (simp_all add: window_inv_new window_inv_push window_inv_commit window_inv_begin window_inv_fresh)

text \<open>
  In every reachable window a buffered frame sits in the slot of its own sequence number,
  belongs to the session of the window and is at most 255 ahead of the cursor. Hence
  \<open>commit_ready\<close>, which takes whatever the cursor's slot holds, advances exactly when
  \<open>next_ready\<close> offers a frame.
\<close>

lemma window_reachable_slots:
  assumes "window_reachable w"
  shows "(\<forall>i < MAX_REORDERED_FRAMES. \<forall>f. buffered w ! i = Some f \<longrightarrow>
      slot (sequence f) = i \<and> of_session w = Some (session_id f) \<and>
      in_window (next_sequence w) (sequence f)) \<and>
    (snd (window_commit w) \<longleftrightarrow> next_ready w \<noteq> None)"
  using window_inv_slot [OF window_reachable_inv [OF assms]] window_reachable_inv [OF assms]
  by (auto simp: commit_cases lookup_next)

text \<open>A session-start frame for the examples.\<close>

definition sample_frame :: "u64 \<Rightarrow> u64 \<Rightarrow> u8 \<Rightarrow> touch_frame" where
  "sample_frame sid sq fl = \<lparr>session_id = sid, sequence = sq, phone_event_nanos = 0,
     phone_callback_nanos = 0, phone_send_nanos = 0, echo_host_send_nanos = 0,
     phone_control_receive_nanos = 0, action = ACTION_MOVE, action_pointer_id = 0,
     frame_flags = fl, contacts = []\<rparr>"

lemma sample_frame_simps [simp]:
  "session_id (sample_frame sid sq fl) = sid" "sequence (sample_frame sid sq fl) = sq"
  "contacts (sample_frame sid sq fl) = []"
  "session_start (sample_frame sid sq 0) = False" "session_start (sample_frame sid sq 2) = True"
  by (simp_all add: sample_frame_def session_start_def)

lemma window_reachable_slots_witness:
  "let w = push ordered_new (sample_frame 7 300 2) in
   buffered w ! 44 = Some (sample_frame 7 300 2) \<and> snd (window_commit w)"
proof -
  let ?w = "push ordered_new (sample_frame 7 300 2)"
  have "window_reachable ?w" by (intro reach_push reach_new)
  note slots = window_reachable_slots [OF this]
  have held: "buffered ?w ! 44 = Some (sample_frame 7 300 2)"
    by (simp add: push_def store_frame_def begin_session_def ordered_new_def slot_def)
  have cur: "next_sequence ?w = 300"
    by (simp add: push_def store_frame_def begin_session_def ordered_new_def slot_def)
  have "next_ready ?w \<noteq> None" using held cur by (simp add: next_ready_def slot_def)
  with slots held show ?thesis by (simp add: Let_def)
qed

text \<open>
  C22: delivery is in order and exactly once. Within a session, for every interleaving of
  arrivals (reordered, duplicated, or stray frames of other sessions) and deliveries, the frames
  committed carry consecutive sequence numbers starting at the cursor, all belong to the
  session, and each of them arrived or was already held.
\<close>

theorem window_delivers_in_order:
  assumes "window_reachable w" and "of_session w = Some sid"
    and "\<forall>f \<in> arrivals ops. session_id f = sid \<or> \<not> session_start f"
    and "window_run push next_ready window_commit ops w = (w', ds)"
  shows "map sequence ds = seq_from (next_sequence w) (length ds) \<and>
    next_sequence w' = next_sequence w + of_nat (length ds) \<and>
    (\<forall>f \<in> set ds. session_id f = sid \<and> (f \<in> arrivals ops \<or> lookup_frame w (sequence f) = Some f))"
  using ring.run_consecutive [OF window_reachable_inv [OF assms(1)] assms(2) _ assms(4)]
    ring.run_origin [OF window_reachable_inv [OF assms(1)] assms(2) _ assms(4)] assms(3)
  by (simp add: ring.one_session_def)

lemma sample_window:
  "window_reachable (push ordered_new (sample_frame 7 300 2))"
  "of_session (push ordered_new (sample_frame 7 300 2)) = Some 7"
  "next_sequence (push ordered_new (sample_frame 7 300 2)) = 300"
  by (intro reach_push reach_new)
    (simp_all add: push_def store_frame_def begin_session_def ordered_new_def slot_def)

theorem window_delivers_in_order_witness:
  "map sequence (snd (window_run push next_ready window_commit
      [Arrive (sample_frame 7 302 0), Deliver, Arrive (sample_frame 7 301 0), Deliver,
       Arrive (sample_frame 7 301 0), Deliver, Deliver]
      (push ordered_new (sample_frame 7 300 2)))) = [300, 301, 302]"
proof -
  let ?ops = "[Arrive (sample_frame 7 302 0), Deliver, Arrive (sample_frame 7 301 0), Deliver,
       Arrive (sample_frame 7 301 0), Deliver, Deliver]"
  let ?w = "push ordered_new (sample_frame 7 300 2)"
  let ?r = "window_run push next_ready window_commit ?ops ?w"
  have len: "length (snd ?r) = 3"
    by (simp add: push_def store_frame_def begin_session_def ordered_new_def slot_def
        next_ready_def window_commit_def Let_def)
  have "map sequence (snd ?r) = seq_from (next_sequence ?w) (length (snd ?r))"
    using window_delivers_in_order [OF sample_window(1,2), of ?ops "fst ?r" "snd ?r"]
    by (simp del: window_run.simps)
  then show ?thesis
    by (simp only: len sample_window(3)) (simp add: numeral_3_eq_3)
qed

text \<open>
  C21: no touch is lost to reordering. If each of the next \<open>k \<le> 256\<close> frames arrives at least
  once, in whatever order, however often, mixed with stray frames and with deliveries, then
  \<open>k\<close> further deliveries commit all of them: at least \<open>k\<close> frames are committed, the first
  carrying the cursor's number, and they are consecutive.
\<close>

theorem window_burst_complete:
  assumes "window_reachable w" and "of_session w = Some sid" and "k \<le> MAX_REORDERED_FRAMES"
    and "\<forall>f \<in> arrivals ops. session_id f = sid \<or> \<not> session_start f"
    and "unat (next_sequence w) + length ops + k < 2 ^ 64"
    and "\<forall>s. unat (next_sequence w) \<le> unat s \<and> unat s < unat (next_sequence w) + k \<longrightarrow>
      (\<exists>f \<in> arrivals ops. session_id f = sid \<and> sequence f = s)"
    and "window_run push next_ready window_commit (ops @ replicate k Deliver) w = (w', ds)"
  shows "k \<le> length ds \<and> map sequence (take k ds) = seq_from (next_sequence w) k"
proof -
  note inv = window_reachable_inv [OF assms(1)]
  have one: "ring.one_session sid ops" using assms(4) by (simp add: ring.one_session_def)
  have k: "k \<le> length ds"
    using ring.burst_complete [OF inv assms(2) one assms(3,5,6)] assms(7) by simp
  have "ring.one_session sid (ops @ replicate k Deliver)"
    using one by (auto simp: ring.one_session_def arrivals_def)
  then have "map sequence ds = seq_from (next_sequence w) (length ds)"
    using ring.run_consecutive [OF inv assms(2) _ assms(7)] by simp
  with k show ?thesis by (simp add: take_map [symmetric] take_seq_from min_absorb1)
qed

theorem window_burst_complete_witness:
  "map sequence (take 2 (snd (window_run push next_ready window_commit
      ([Arrive (sample_frame 7 301 0), Arrive (sample_frame 9 300 0), Deliver,
        Arrive (sample_frame 7 300 0)] @ replicate 2 Deliver)
      (push ordered_new (sample_frame 7 300 2))))) = [300, 301]"
proof -
  let ?ops = "[Arrive (sample_frame 7 301 0), Arrive (sample_frame 9 300 0), Deliver,
        Arrive (sample_frame 7 300 0)]"
  let ?w = "push ordered_new (sample_frame 7 300 2)"
  let ?r = "window_run push next_ready window_commit (?ops @ replicate 2 Deliver) ?w"
  have two: "s = 300 \<or> s = 301" if "300 \<le> unat s" "unat s < 302" for s :: u64
  proof -
    have "unat s = 300 \<or> unat s = 301" using that by linarith
    then show ?thesis by (auto simp: word_unat_eq_iff)
  qed
  have "map sequence (take 2 (snd ?r)) = seq_from (next_sequence ?w) 2"
    by (rule window_burst_complete [OF sample_window(1,2), of 2 ?ops "fst ?r" "snd ?r",
          THEN conjunct2])
      (use two in \<open>auto simp: sample_window(3)\<close>)
  then show ?thesis by (simp add: sample_window(3) numeral_2_eq_2)
qed

text \<open>
  After \<open>require_fresh_session\<close> (the phone's heartbeat was lost) nothing of the dead session
  is injected or acknowledged: whatever frames arrive, none of them a session start, and however
  often delivery is tried, no frame is committed and no sequence number is acknowledged.
\<close>

lemma window_fresh_session_silent:
  assumes "\<forall>f \<in> arrivals ops. \<not> session_start f" and "length (buffered w) = MAX_REORDERED_FRAMES"
    and "window_run push next_ready window_commit ops (require_fresh_session w) = (w', ds)"
  shows "ds = [] \<and> w' = require_fresh_session w \<and> acknowledged_sequence w' = None"
proof -
  have "next_ready (require_fresh_session w) = None"
    using assms(2) by (simp add: next_ready_def require_fresh_session_def)
  moreover have "push (require_fresh_session w) f = require_fresh_session w" if "\<not> session_start f" for f
    using that by (simp add: push_def require_fresh_session_def)
  ultimately have "window_run push next_ready window_commit ops (require_fresh_session w) =
      (require_fresh_session w, [])"
    using assms(1)
  proof (induction ops)
    case (Cons p ops)
    then show ?case by (cases p) simp_all
  qed simp
  with assms(3) show ?thesis by (simp add: acknowledged_sequence_def require_fresh_session_def)
qed

lemma window_fresh_session_silent_witness:
  "snd (window_run push next_ready window_commit
      [Arrive (sample_frame 7 301 0), Deliver, Arrive (sample_frame 7 0 0), Deliver]
      (require_fresh_session (push ordered_new (sample_frame 7 300 2)))) = []"
  using window_fresh_session_silent [of "[Arrive (sample_frame 7 301 0), Deliver,
      Arrive (sample_frame 7 0 0), Deliver]" "push ordered_new (sample_frame 7 300 2)"]
    window_inv_length [OF window_reachable_inv [OF sample_window(1)]]
  by (simp del: window_run.simps add: prod_eq_iff)

end
