(* ===== verification/Lane_Planner.thy ===== *)
theory Lane_Planner
  imports Ordered_Frames
begin

text \<open>
  The lane planner of \<open>native-host/src/keyboard/mod.rs\<close>: \<open>plan_into\<close> and its helpers turn a
  snapshot of contacts and the held lanes into the next state and an ordered list of key
  changes. Shown here: the planner keeps the count of fingers per lane exact, its next state is
  the one the snapshot prescribes, replaying the changes gives exactly the keys of the held
  lanes, and a finger that slides leaves no moment without a pressed key.

  Rust indexes \<open>lane_holds\<close> with lanes; the invariant shows that every lane in the state is below
  the number of lanes, so no index is out of range (\<open>plan_lanes_in_range\<close>).
\<close>

section \<open>State and key changes\<close>

text \<open>The arrays with \<open>POINTER_ID_COUNT\<close> = 256 entries are functions of the \<open>u8\<close> pointer id.\<close>

record keyboard_state =
  pointer_lanes :: "u8 \<Rightarrow> nat option"
  pressure_suppressed :: "u8 \<Rightarrow> bool"
  lane_holds :: "u16 list"

record key_change =
  kc_lane :: nat
  kc_down :: bool
  kc_touch :: bool

definition keyboard_state_new :: "nat \<Rightarrow> keyboard_state" where
  "keyboard_state_new lanes = \<lparr>pointer_lanes = (\<lambda>_. None), pressure_suppressed = (\<lambda>_. False),
     lane_holds = replicate lanes 0\<rparr>"

abbreviation key_edge :: "nat \<Rightarrow> bool \<Rightarrow> bool \<Rightarrow> key_change" where
  "key_edge l d t \<equiv> \<lparr>kc_lane = l, kc_down = d, kc_touch = t\<rparr>"

text \<open>The planner threads the state it builds and the changes pushed so far.\<close>

type_synonym plan = "keyboard_state \<times> key_change list"

section \<open>Holding and releasing lanes\<close>

definition saturating_succ :: "u16 \<Rightarrow> u16" where
  "saturating_succ w = (if w = - 1 then w else w + 1)"

definition acquire_lane :: "nat \<Rightarrow> bool \<Rightarrow> plan \<Rightarrow> plan" where
  "acquire_lane l touch p = (case p of (s, cs) \<Rightarrow>
     (s\<lparr>lane_holds := (lane_holds s)[l := saturating_succ (lane_holds s ! l)]\<rparr>,
      if lane_holds s ! l = 0 then cs @ [key_edge l True touch] else cs))"

definition release_lane :: "nat \<Rightarrow> plan \<Rightarrow> plan" where
  "release_lane l p = (case p of (s, cs) \<Rightarrow>
     if lane_holds s ! l = 0 then (s, cs)
     else (s\<lparr>lane_holds := (lane_holds s)[l := lane_holds s ! l - 1]\<rparr>,
           if lane_holds s ! l - 1 = 0 then cs @ [key_edge l False False] else cs))"

text \<open>The \<open>while current != destination\<close> loop of \<open>move_pointer\<close>.\<close>

function slide :: "nat \<Rightarrow> nat \<Rightarrow> plan \<Rightarrow> plan" where
  "slide current destination p =
    (if current = destination then p
     else let nxt = (if destination > current then current + 1 else current - 1) in
          slide nxt destination (release_lane current (acquire_lane nxt False p)))"
  by auto
termination by (relation "measure (\<lambda>(c, d, _). (c - d) + (d - c))") auto

declare slide.simps [simp del]

definition set_pointer :: "u8 \<Rightarrow> nat option \<Rightarrow> plan \<Rightarrow> plan" where
  "set_pointer pid l p = (case p of (s, cs) \<Rightarrow>
     (s\<lparr>pointer_lanes := (pointer_lanes s)(pid := l)\<rparr>, cs))"

definition move_pointer :: "u8 \<Rightarrow> nat \<Rightarrow> plan \<Rightarrow> plan" where
  "move_pointer pid destination p =
    (case pointer_lanes (fst p) pid of
       None \<Rightarrow> set_pointer pid (Some destination) (acquire_lane destination True p)
     | Some current \<Rightarrow> set_pointer pid (Some destination) (slide current destination p))"

definition release_pointer :: "u8 \<Rightarrow> plan \<Rightarrow> plan" where
  "release_pointer pid p =
    (case pointer_lanes (fst p) pid of
       None \<Rightarrow> p
     | Some l \<Rightarrow> release_lane l (set_pointer pid None p))"

definition apply_contact :: "nat \<Rightarrow> contact \<Rightarrow> plan \<Rightarrow> plan" where
  "apply_contact lane_count c p =
    (if touching c \<and> \<not> key_suppressed c
     then move_pointer (pointer_id c) (lane_for (contact_x c) lane_count) p
     else release_pointer (pointer_id c) p)"

section \<open>Planning a frame\<close>

text \<open>The two bounded passes: the action pointer's contact first, then the others.\<close>

definition apply_contacts :: "nat \<Rightarrow> touch_frame \<Rightarrow> plan \<Rightarrow> plan" where
  "apply_contacts lane_count f p =
    (let p1 = (case find (\<lambda>c. pointer_id c = action_pointer_id f) (contacts f) of
                 None \<Rightarrow> p | Some c \<Rightarrow> apply_contact lane_count c p)
     in fold (apply_contact lane_count)
          (filter (\<lambda>c. pointer_id c \<noteq> action_pointer_id f) (contacts f)) p1)"

definition suppressed_by :: "contact list \<Rightarrow> (u8 \<Rightarrow> bool) \<Rightarrow> u8 \<Rightarrow> bool" where
  "suppressed_by cs m = fold (\<lambda>c m. m(pointer_id c := touching c \<and> key_suppressed c)) cs m"

text \<open>The pointers that hold a lane and are not in the snapshot, in ascending order.\<close>

definition missing_pointers :: "touch_frame \<Rightarrow> keyboard_state \<Rightarrow> u8 list" where
  "missing_pointers f s =
     filter (\<lambda>pid. pointer_lanes s pid \<noteq> None \<and> pid \<notin> pointer_id ` set (contacts f))
       (map of_nat [0..<256])"

definition repress_edges ::
  "keyboard_state \<Rightarrow> keyboard_state \<Rightarrow> touch_frame \<Rightarrow> bool \<Rightarrow> contact \<Rightarrow> key_change list" where
  "repress_edges s nxt f split_repress c =
    (let pid = pointer_id c;
         new_press = (action f = ACTION_DOWN \<and> pid = action_pointer_id f) \<or> pressure_suppressed s pid
     in if new_press \<and> pointer_lanes s pid = None
        then (case pointer_lanes nxt pid of
                None \<Rightarrow> []
              | Some l \<Rightarrow>
                  if lane_holds s ! l \<noteq> 0
                  then (if split_repress then [key_edge l False False] else []) @ [key_edge l True True]
                  else [])
        else [])"

definition plan_into :: "keyboard_state \<Rightarrow> nat \<Rightarrow> touch_frame \<Rightarrow> bool \<Rightarrow> plan" where
  "plan_into s lane_count f split_repress =
    (let next0 = \<lparr>pointer_lanes = pointer_lanes s, pressure_suppressed = (\<lambda>_. False),
                  lane_holds = lane_holds s\<rparr>;
         (next1, cs1) = apply_contacts lane_count f (next0, []);
         next2 = next1\<lparr>pressure_suppressed := suppressed_by (contacts f) (pressure_suppressed next1)\<rparr>;
         (nxt, cs2) = fold release_pointer (missing_pointers f next2) (next2, cs1);
         cs3 = filter (\<lambda>k. lane_holds s ! kc_lane k = 0 \<or> lane_holds nxt ! kc_lane k = 0) cs2
     in (nxt, cs3 @ concat (map (repress_edges s nxt f split_repress) (contacts f))))"

section \<open>Counting the fingers of a lane\<close>

definition held_count :: "(u8 \<Rightarrow> nat option) \<Rightarrow> nat \<Rightarrow> nat" where
  "held_count pl l = card {pid. pl pid = Some l}"

definition hold :: "keyboard_state \<Rightarrow> nat \<Rightarrow> nat" where
  "hold s l = unat (lane_holds s ! l)"

lemma hold_zero: "hold s l = 0 \<longleftrightarrow> lane_holds s ! l = 0"
  by (simp add: hold_def unat_eq_0)

lemma held_count_le: "held_count pl l \<le> 256"
proof -
  have "card {pid. pl pid = Some l} \<le> card (UNIV :: u8 set)"
    by (rule card_mono) auto
  then show ?thesis by (simp add: held_count_def card_word)
qed

lemma held_count_pos: "pl pid = Some l \<Longrightarrow> 0 < held_count pl l"
  by (auto simp: held_count_def card_gt_0_iff)

lemma held_count_release:
  assumes "pl pid = Some l"
  shows "held_count (pl(pid := None)) = (held_count pl)(l := held_count pl l - 1)"
proof
  fix l'
  have "{q. (pl(pid := None)) q = Some l'} = {q. pl q = Some l'} - (if l' = l then {pid} else {})"
    using assms by auto
  then show "held_count (pl(pid := None)) l' = ((held_count pl)(l := held_count pl l - 1)) l'"
    using assms by (simp add: held_count_def)
qed

lemma held_count_acquire:
  assumes "pl pid = None"
  shows "held_count (pl(pid := Some l)) = (held_count pl)(l := held_count pl l + 1)"
proof
  fix l'
  have "{q. (pl(pid := Some l)) q = Some l'} = {q. pl q = Some l'} \<union> (if l' = l then {pid} else {})"
    using assms by auto
  moreover have "pid \<notin> {q. pl q = Some l}" using assms by simp
  ultimately show "held_count (pl(pid := Some l)) l' = ((held_count pl)(l := held_count pl l + 1)) l'"
    unfolding held_count_def by (simp del: fun_upd_apply add: fun_upd_same fun_upd_other)
qed

lemma hold_acquire:
  assumes "l < length (lane_holds (fst p))" and "hold (fst p) l < 65535"
  shows "hold (fst (acquire_lane l t p)) = (hold (fst p))(l := hold (fst p) l + 1)"
proof -
  obtain s cs where p: "p = (s, cs)" by (cases p)
  note assms = assms [unfolded p fst_conv]
  have "unat (- 1 :: u16) = 65535" by (simp add: unsigned_minus_1_eq_mask mask_eq_exp_minus_1)
  then have "lane_holds s ! l \<noteq> - 1" using assms(2) by (auto simp: hold_def)
  moreover have "unat (lane_holds s ! l + 1) = unat (lane_holds s ! l) + 1"
    using assms(2) by (simp add: hold_def unat_word_ariths)
  ultimately show ?thesis
    using assms(1) by (auto simp: p acquire_lane_def hold_def saturating_succ_def fun_eq_iff
        nth_list_update)
qed

lemma unat_minus_one: "w \<noteq> 0 \<Longrightarrow> unat (w - 1) = unat w - 1" for w :: "'a::len word"
  by (metis unat_minus_one)

lemma hold_release:
  assumes "l < length (lane_holds (fst p))"
  shows "hold (fst (release_lane l p)) = (hold (fst p))(l := hold (fst p) l - 1)"
  using assms
  by (cases p) (auto simp: release_lane_def hold_def fun_eq_iff nth_list_update unat_minus_one)

lemma acquire_fields [simp]:
  "pointer_lanes (fst (acquire_lane l t p)) = pointer_lanes (fst p)"
  "pressure_suppressed (fst (acquire_lane l t p)) = pressure_suppressed (fst p)"
  "length (lane_holds (fst (acquire_lane l t p))) = length (lane_holds (fst p))"
  by (simp_all add: acquire_lane_def split: prod.split)

lemma release_fields [simp]:
  "pointer_lanes (fst (release_lane l p)) = pointer_lanes (fst p)"
  "pressure_suppressed (fst (release_lane l p)) = pressure_suppressed (fst p)"
  "length (lane_holds (fst (release_lane l p))) = length (lane_holds (fst p))"
  by (simp_all add: release_lane_def split: prod.split)

lemma slide_fields [simp]:
  "pointer_lanes (fst (slide a b p)) = pointer_lanes (fst p) \<and>
   pressure_suppressed (fst (slide a b p)) = pressure_suppressed (fst p) \<and>
   length (lane_holds (fst (slide a b p))) = length (lane_holds (fst p))"
proof (induction a b p rule: slide.induct)
  case (1 a b p)
  then show ?case by (subst (1 2 3) slide.simps) (simp add: Let_def)
qed

lemma slide_next_less:
  "a \<noteq> b \<Longrightarrow> a < n \<Longrightarrow> b < n \<Longrightarrow> (if b > a then a + 1 else a - 1) < n \<and> (if b > a then a + 1 else a - 1) \<noteq> a"
  for a b n :: nat by auto

text \<open>A slide moves one hold from its first lane to its last.\<close>

lemma hold_slide:
  assumes "a < n" "b < n" "length (lane_holds (fst p)) = n" "0 < hold (fst p) a"
    and "\<forall>l < n. hold (fst p) l \<le> 256 + (if l = a then 1 else 0)"
  shows "hold (fst (slide a b p)) =
    (let h = (hold (fst p))(a := hold (fst p) a - 1) in h(b := h b + 1))"
  using assms
proof (induction a b p rule: slide.induct)
  case (1 a b p)
  show ?case
  proof (cases "a = b")
    case True
    with 1(5) show ?thesis by (subst slide.simps) (simp add: fun_eq_iff Let_def)
  next
    case False
    define c where "c = (if b > a then a + 1 else a - 1)"
    define q where "q = release_lane a (acquire_lane c False p)"
    have c: "c < n" "c \<noteq> a" using slide_next_less [OF False 1(2,3)] by (simp_all add: c_def)
    have small: "hold (fst p) c < 65535" using 1(6) c by force
    have acq: "hold (fst (acquire_lane c False p)) = (hold (fst p))(c := hold (fst p) c + 1)"
      using hold_acquire [of c p False] c(1) 1(4) small by simp
    have q: "hold (fst q) = (hold (fst p))(c := hold (fst p) c + 1, a := hold (fst p) a - 1)"
      using hold_release [of a "acquire_lane c False p"]
        1(2,4) c(2) acq by (simp add: q_def)
    have len: "length (lane_holds (fst q)) = n" by (simp add: q_def 1(4))
    have pos: "0 < hold (fst q) c" using c(2) by (simp add: q)
    have le: "\<forall>l < n. hold (fst q) l \<le> 256 + (if l = c then 1 else 0)"
    proof (intro allI impI)
      fix l assume "l < n"
      with 1(6) have "hold (fst p) l \<le> 256 + (if l = a then 1 else 0)" by blast
      then show "hold (fst q) l \<le> 256 + (if l = c then 1 else 0)"
        using c(2) by (auto simp: q split: if_splits)
    qed
    note 1(1) [OF False c_def, folded q_def, OF c(1) 1(3) len pos le]
    moreover have "slide a b p = slide c b q"
      using False by (subst slide.simps) (simp add: Let_def c_def q_def)
    ultimately show ?thesis using c(2) by (auto simp: q Let_def fun_eq_iff)
  qed
qed

section \<open>Keys follow the held lanes\<close>

text \<open>Replaying key changes over the keys that were pressed.\<close>

definition key_after :: "(nat \<Rightarrow> bool) \<Rightarrow> key_change list \<Rightarrow> nat \<Rightarrow> bool" where
  "key_after m cs = foldl (\<lambda>m k. m(kc_lane k := kc_down k)) m cs"

lemma key_after_simps [simp]:
  "key_after m [] = m"
  "key_after m (cs @ [k]) = (key_after m cs)(kc_lane k := kc_down k)"
  by (simp_all add: key_after_def)

lemma key_after_append: "key_after m (cs @ ds) = key_after (key_after m cs) ds"
  by (simp add: key_after_def)

lemma key_after_Cons: "key_after m (k # ds) = key_after (m(kc_lane k := kc_down k)) ds"
  by (simp add: key_after_def)

definition keys_follow :: "nat \<Rightarrow> (nat \<Rightarrow> bool) \<Rightarrow> plan \<Rightarrow> bool" where
  "keys_follow n m p \<longleftrightarrow> length (lane_holds (fst p)) = n \<and>
     (\<forall>l < n. key_after m (snd p) l \<longleftrightarrow> lane_holds (fst p) ! l \<noteq> 0) \<and>
     (\<forall>k \<in> set (snd p). kc_lane k < n)"

text \<open>At every moment of the replay some key is down.\<close>

definition gapless :: "nat \<Rightarrow> (nat \<Rightarrow> bool) \<Rightarrow> key_change list \<Rightarrow> bool" where
  "gapless n m cs \<longleftrightarrow> (\<forall>k. \<exists>l < n. key_after m (take k cs) l)"

lemma gapless_snoc:
  assumes "gapless n m cs" and "\<exists>l < n. key_after m (cs @ [x]) l"
  shows "gapless n m (cs @ [x])"
  unfolding gapless_def
proof
  fix k
  show "\<exists>l < n. key_after m (take k (cs @ [x])) l"
  proof (cases "k \<le> length cs")
    case True
    then show ?thesis using assms(1) by (simp add: gapless_def)
  next
    case False
    then have "take k (cs @ [x]) = cs @ [x]" by simp
    then show ?thesis using assms(2) by metis
  qed
qed

lemma keys_follow_acquire:
  assumes "keys_follow n m p" and "l < n"
  shows "keys_follow n m (acquire_lane l t p)" and "lane_holds (fst (acquire_lane l t p)) ! l \<noteq> 0"
proof -
  have nz: "saturating_succ w \<noteq> 0" for w
    using eq_neg_iff_add_eq_0 [of w 1] by (auto simp: saturating_succ_def)
  show "keys_follow n m (acquire_lane l t p)"
    using assms nz
    by (auto simp: keys_follow_def acquire_lane_def nth_list_update split: prod.split if_splits)
  show "lane_holds (fst (acquire_lane l t p)) ! l \<noteq> 0"
    using assms nz by (auto simp: keys_follow_def acquire_lane_def split: prod.split)
qed

lemma keys_follow_release:
  assumes "keys_follow n m p" and "l < n"
  shows "keys_follow n m (release_lane l p)"
  using assms
  by (auto simp: keys_follow_def release_lane_def nth_list_update split: prod.split if_splits)

lemma gapless_step:
  assumes "gapless n m (snd p)" and "keys_follow n m q"
    and "snd q = snd p \<or> (\<exists>x. snd q = snd p @ [x])" and "\<exists>l < n. lane_holds (fst q) ! l \<noteq> 0"
  shows "gapless n m (snd q)"
proof -
  have "\<exists>l < n. key_after m (snd q) l" using assms(2,4) by (auto simp: keys_follow_def)
  with assms(1,3) gapless_snoc [OF assms(1)] show ?thesis by metis
qed

lemma acquire_snd: "snd (acquire_lane l t p) = snd p \<or> (\<exists>x. snd (acquire_lane l t p) = snd p @ [x])"
  by (simp add: acquire_lane_def split: prod.split)

lemma release_snd: "snd (release_lane l p) = snd p \<or> (\<exists>x. snd (release_lane l p) = snd p @ [x])"
  by (simp add: release_lane_def split: prod.split)

lemma keys_follow_slide:
  assumes "keys_follow n m p" and "a < n" and "b < n"
  shows "keys_follow n m (slide a b p) \<and> (gapless n m (snd p) \<longrightarrow> gapless n m (snd (slide a b p)))"
  using assms
proof (induction a b p rule: slide.induct)
  case (1 a b p)
  show ?case
  proof (cases "a = b")
    case True
    with 1(2) show ?thesis by (subst (1 2) slide.simps) simp
  next
    case False
    define c where "c = (if b > a then a + 1 else a - 1)"
    define q where "q = acquire_lane c False p"
    have c: "c < n" "c \<noteq> a" using slide_next_less [OF False 1(3,4)] by (simp_all add: c_def)
    have follow_q: "keys_follow n m q" and up: "lane_holds (fst q) ! c \<noteq> 0"
      unfolding q_def using keys_follow_acquire [OF 1(2) c(1)] by auto
    have follow_r: "keys_follow n m (release_lane a q)" by (rule keys_follow_release [OF follow_q 1(3)])
    have up': "lane_holds (fst (release_lane a q)) ! c \<noteq> 0"
      using up c(2) by (auto simp: release_lane_def split: prod.split)
    have gap: "gapless n m (snd (release_lane a q))" if "gapless n m (snd p)"
    proof (rule gapless_step [OF _ follow_r release_snd])
      show "gapless n m (snd q)"
        using gapless_step [OF that follow_q] acquire_snd up c(1) unfolding q_def by blast
    qed (use up' c(1) in blast)
    have "slide a b p = slide c b (release_lane a q)"
      using False by (subst slide.simps) (simp add: Let_def c_def q_def)
    then show ?thesis
      using 1(1) [OF False c_def, folded q_def, OF follow_r c(1) 1(4)] gap by simp
  qed
qed

section \<open>The invariant of the planner\<close>

text \<open>\<open>hold\<close> counts the fingers of each lane, and every finger is on a lane of the instrument.\<close>

definition lanes_ok :: "nat \<Rightarrow> keyboard_state \<Rightarrow> bool" where
  "lanes_ok n s \<longleftrightarrow> 0 < n \<and> length (lane_holds s) = n \<and>
     (\<forall>pid l. pointer_lanes s pid = Some l \<longrightarrow> l < n) \<and>
     (\<forall>l < n. hold s l = held_count (pointer_lanes s) l)"

text \<open>The planner in mid-frame; the pointers of \<open>keep\<close> stay on a lane throughout.\<close>

definition steady :: "nat \<Rightarrow> (nat \<Rightarrow> bool) \<Rightarrow> u8 set \<Rightarrow> plan \<Rightarrow> bool" where
  "steady n m keep p \<longleftrightarrow> lanes_ok n (fst p) \<and> keys_follow n m p \<and>
     (\<forall>pid \<in> keep. pointer_lanes (fst p) pid \<noteq> None) \<and>
     (keep \<noteq> {} \<longrightarrow> gapless n m (snd p))"

definition contact_lane :: "nat \<Rightarrow> contact \<Rightarrow> nat option" where
  "contact_lane n c =
     (if touching c \<and> \<not> key_suppressed c then Some (lane_for (contact_x c) n) else None)"

lemma set_pointer_simps [simp]:
  "pointer_lanes (fst (set_pointer pid l p)) = (pointer_lanes (fst p))(pid := l)"
  "lane_holds (fst (set_pointer pid l p)) = lane_holds (fst p)"
  "pressure_suppressed (fst (set_pointer pid l p)) = pressure_suppressed (fst p)"
  "snd (set_pointer pid l p) = snd p"
  "hold (fst (set_pointer pid l p)) = hold (fst p)"
  "keys_follow n m (set_pointer pid l p) = keys_follow n m p"
  by (simp_all add: set_pointer_def hold_def fun_eq_iff keys_follow_def split: prod.split)

lemma lanes_ok_hold:
  "lanes_ok n s \<Longrightarrow> l < n \<Longrightarrow> hold s l = held_count (pointer_lanes s) l \<and> hold s l \<le> 256"
  using held_count_le by (simp add: lanes_ok_def)

lemma lanes_ok_pointer: "lanes_ok n s \<Longrightarrow> pointer_lanes s pid = Some l \<Longrightarrow> l < n \<and> lane_holds s ! l \<noteq> 0"
  using held_count_pos [of "pointer_lanes s" pid l] hold_zero [of s l] by (simp add: lanes_ok_def)

lemma lanes_ok_move:
  assumes ok: "lanes_ok n (fst p)" and d: "d < n"
  shows "lanes_ok n (fst (move_pointer pid d p))"
proof (cases "pointer_lanes (fst p) pid")
  case None
  have len: "length (lane_holds (fst p)) = n" using ok by (simp add: lanes_ok_def)
  have "hold (fst (acquire_lane d True p)) = (hold (fst p))(d := hold (fst p) d + 1)"
    using hold_acquire [of d p True] lanes_ok_hold [OF ok d] d len by simp
  then show ?thesis
    using ok d None held_count_acquire [of "pointer_lanes (fst p)" pid d]
    by (auto simp: lanes_ok_def move_pointer_def)
next
  case (Some a)
  let ?pl = "pointer_lanes (fst p)"
  have len: "length (lane_holds (fst p)) = n" and a: "a < n"
    using ok Some by (auto simp: lanes_ok_def)
  have "0 < hold (fst p) a" using lanes_ok_hold [OF ok a] held_count_pos [of "pointer_lanes (fst p)" pid a, OF Some] by simp
  moreover have "\<forall>l < n. hold (fst p) l \<le> 256 + (if l = a then 1 else 0)"
    using lanes_ok_hold [OF ok] trans_le_add1 by blast
  ultimately have h: "hold (fst (slide a d p)) =
      (let h = (hold (fst p))(a := hold (fst p) a - 1) in h(d := h d + 1))"
    using a d len by (intro hold_slide) auto
  have "?pl(pid := Some d) = (?pl(pid := None))(pid := Some d)" by simp
  then have "held_count (?pl(pid := Some d)) =
      (let h = (held_count ?pl)(a := held_count ?pl a - 1) in h(d := h d + 1))"
    using held_count_release [of "pointer_lanes (fst p)" pid a, OF Some] held_count_acquire [of "?pl(pid := None)" pid d]
    by (simp add: Let_def)
  then show ?thesis
    using ok d a Some h by (auto simp: lanes_ok_def move_pointer_def Let_def)
qed

lemma lanes_ok_release:
  assumes ok: "lanes_ok n (fst p)"
  shows "lanes_ok n (fst (release_pointer pid p))"
proof (cases "pointer_lanes (fst p) pid")
  case None
  then show ?thesis using ok by (simp add: release_pointer_def)
next
  case (Some a)
  let ?p = "set_pointer pid None p"
  have len: "length (lane_holds (fst p)) = n" and a: "a < n"
    using ok Some by (auto simp: lanes_ok_def)
  have "hold (fst (release_lane a ?p)) = (hold (fst p))(a := hold (fst p) a - 1)"
    using hold_release [of a ?p] a len by simp
  then show ?thesis
    using ok Some held_count_release [of "pointer_lanes (fst p)" pid a, OF Some]
    by (auto simp: lanes_ok_def release_pointer_def)
qed

lemma move_pointer_lanes [simp]:
  "pointer_lanes (fst (move_pointer pid d p)) = (pointer_lanes (fst p))(pid := Some d)"
  "pressure_suppressed (fst (move_pointer pid d p)) = pressure_suppressed (fst p)"
  by (simp_all add: move_pointer_def split: option.split)

lemma release_pointer_lanes [simp]:
  "pointer_lanes (fst (release_pointer pid p)) = (pointer_lanes (fst p))(pid := None)"
  "pressure_suppressed (fst (release_pointer pid p)) = pressure_suppressed (fst p)"
  by (auto simp: release_pointer_def split: option.split)

lemma apply_contact_lanes:
  "pointer_lanes (fst (apply_contact n c p)) = (pointer_lanes (fst p))(pointer_id c := contact_lane n c)"
  "pressure_suppressed (fst (apply_contact n c p)) = pressure_suppressed (fst p)"
  by (simp_all add: apply_contact_def contact_lane_def)

lemma keys_follow_gapless_move:
  assumes "keys_follow n m p" and "d < n" and "\<And>a. pointer_lanes (fst p) pid = Some a \<Longrightarrow> a < n"
  shows "keys_follow n m (move_pointer pid d p) \<and>
    (gapless n m (snd p) \<longrightarrow> gapless n m (snd (move_pointer pid d p)))"
proof (cases "pointer_lanes (fst p) pid")
  case None
  have "gapless n m (snd (acquire_lane d True p))" if "gapless n m (snd p)"
    using gapless_step [OF that keys_follow_acquire(1) [OF assms(1,2)] acquire_snd]
      keys_follow_acquire(2) [OF assms(1,2)] assms(2) by blast
  with None show ?thesis
    using keys_follow_acquire(1) [OF assms(1,2)] by (simp add: move_pointer_def)
next
  case (Some a)
  with keys_follow_slide [OF assms(1) assms(3) [OF Some] assms(2)] show ?thesis
    by (simp add: move_pointer_def)
qed

lemma steady_release:
  assumes "steady n m keep p" and "pid \<notin> keep"
  shows "steady n m keep (release_pointer pid p)"
proof (cases "pointer_lanes (fst p) pid")
  case None
  with assms show ?thesis by (simp add: release_pointer_def)
next
  case (Some a)
  have ok: "lanes_ok n (fst p)" and follow: "keys_follow n m p" using assms(1) by (auto simp: steady_def)
  have a: "a < n" using ok Some by (simp add: lanes_ok_def)
  have ok': "lanes_ok n (fst (release_pointer pid p))" by (rule lanes_ok_release [OF ok])
  have eq: "release_pointer pid p = release_lane a (set_pointer pid None p)"
    using Some by (simp add: release_pointer_def)
  have follow': "keys_follow n m (release_pointer pid p)"
    unfolding eq by (rule keys_follow_release) (simp_all add: follow a)
  have "gapless n m (snd (release_pointer pid p))" if "keep \<noteq> {}"
  proof -
    obtain q where q: "q \<in> keep" using \<open>keep \<noteq> {}\<close> by blast
    then obtain l where l: "pointer_lanes (fst p) q = Some l" using assms(1) by (auto simp: steady_def)
    have "q \<noteq> pid" using q assms(2) by blast
    then have "pointer_lanes (fst (release_pointer pid p)) q = Some l" using l by simp
    then have up: "l < n \<and> lane_holds (fst (release_pointer pid p)) ! l \<noteq> 0"
      by (rule lanes_ok_pointer [OF ok'])
    have "gapless n m (snd (set_pointer pid None p))" using assms(1) that by (simp add: steady_def)
    from gapless_step [OF this follow'] show ?thesis
      using up release_snd unfolding eq by blast
  qed
  with ok' follow' assms show ?thesis by (auto simp: steady_def)
qed

lemma steady_apply_contact:
  assumes "steady n m keep p" and "pointer_id c \<in> keep \<Longrightarrow> contact_lane n c \<noteq> None"
  shows "steady n m keep (apply_contact n c p)"
proof (cases "touching c \<and> \<not> key_suppressed c")
  case False
  then have "contact_lane n c = None" by (auto simp: contact_lane_def)
  with assms have "pointer_id c \<notin> keep" by blast
  then have "steady n m keep (release_pointer (pointer_id c) p)" by (rule steady_release [OF assms(1)])
  moreover have "apply_contact n c p = release_pointer (pointer_id c) p"
    unfolding apply_contact_def using False by (rule if_not_P)
  ultimately show ?thesis by simp
next
  case True
  have ok: "lanes_ok n (fst p)" and follow: "keys_follow n m p" using assms(1) by (auto simp: steady_def)
  let ?d = "lane_for (contact_x c) n"
  have d: "?d < n" using ok by (simp add: lanes_ok_def lane_for_in_range)
  have "keys_follow n m (move_pointer (pointer_id c) ?d p) \<and>
    (gapless n m (snd p) \<longrightarrow> gapless n m (snd (move_pointer (pointer_id c) ?d p)))"
    using ok by (intro keys_follow_gapless_move [OF follow d]) (simp add: lanes_ok_def)
  with assms(1) lanes_ok_move [OF ok d] True show ?thesis
    by (simp add: apply_contact_def steady_def)
qed

section \<open>The state that a snapshot prescribes\<close>

definition contact_of :: "contact list \<Rightarrow> u8 \<Rightarrow> contact option" where
  "contact_of cs pid = find (\<lambda>c. pointer_id c = pid) cs"

definition snapshot_lanes :: "nat \<Rightarrow> contact list \<Rightarrow> u8 \<Rightarrow> nat option" where
  "snapshot_lanes n cs pid = (case contact_of cs pid of None \<Rightarrow> None | Some c \<Rightarrow> contact_lane n c)"

definition snapshot_suppressed :: "contact list \<Rightarrow> u8 \<Rightarrow> bool" where
  "snapshot_suppressed cs pid \<longleftrightarrow>
     (\<exists>c \<in> set cs. pointer_id c = pid \<and> touching c \<and> key_suppressed c)"

lemma contact_of_simps [simp]:
  "contact_of [] pid = None"
  "contact_of (c # cs) pid = (if pointer_id c = pid then Some c else contact_of cs pid)"
  by (simp_all add: contact_of_def)

lemma contact_of_None: "contact_of cs pid = None \<longleftrightarrow> pid \<notin> pointer_id ` set cs"
  by (induction cs) auto

lemma contact_of_Some: "contact_of cs pid = Some c \<Longrightarrow> c \<in> set cs \<and> pointer_id c = pid"
  by (induction cs) (auto split: if_splits)

lemma contact_of_filter:
  "contact_of (filter (\<lambda>c. pointer_id c \<noteq> a) cs) pid = (if pid = a then None else contact_of cs pid)"
  by (induction cs) auto

lemma fold_contacts_lanes:
  "distinct (map pointer_id cs) \<Longrightarrow>
   pointer_lanes (fst (fold (apply_contact n) cs p)) pid =
     (case contact_of cs pid of None \<Rightarrow> pointer_lanes (fst p) pid | Some c \<Rightarrow> contact_lane n c)"
proof (induction cs arbitrary: p)
  case (Cons c cs)
  have "contact_of cs (pointer_id c) = None" using Cons.prems by (simp add: contact_of_None)
  with Cons show ?case
    by (cases "pointer_id c = pid") (auto simp: apply_contact_lanes split: option.split)
qed simp

lemma apply_contacts_lanes:
  assumes "distinct (map pointer_id (contacts f))"
  shows "pointer_lanes (fst (apply_contacts n f p)) pid =
    (case contact_of (contacts f) pid of None \<Rightarrow> pointer_lanes (fst p) pid
     | Some c \<Rightarrow> contact_lane n c)"
proof -
  let ?a = "action_pointer_id f" and ?rest = "filter (\<lambda>c. pointer_id c \<noteq> action_pointer_id f) (contacts f)"
  have d: "distinct (map pointer_id ?rest)" using assms by (simp add: distinct_map_filter)
  show ?thesis
  proof (cases "contact_of (contacts f) ?a")
    case None
    then show ?thesis
      by (auto simp: apply_contacts_def contact_of_def [symmetric] fold_contacts_lanes [OF d]
          contact_of_filter)
  next
    case (Some c)
    then have "pointer_id c = ?a" using contact_of_Some by blast
    with Some show ?thesis
      by (auto simp: apply_contacts_def contact_of_def [symmetric] fold_contacts_lanes [OF d]
          contact_of_filter apply_contact_lanes split: option.split)
  qed
qed

lemma steady_fold_contacts:
  assumes "steady n m keep p" and "\<forall>c \<in> set cs. pointer_id c \<in> keep \<longrightarrow> contact_lane n c \<noteq> None"
  shows "steady n m keep (fold (apply_contact n) cs p)"
  using assms by (induction cs arbitrary: p) (simp_all add: steady_apply_contact)

lemma steady_apply_contacts:
  assumes "steady n m keep p" and "\<forall>c \<in> set (contacts f). pointer_id c \<in> keep \<longrightarrow> contact_lane n c \<noteq> None"
  shows "steady n m keep (apply_contacts n f p)"
  using assms
  by (auto simp: apply_contacts_def contact_of_def [symmetric] split: option.split
      intro!: steady_fold_contacts steady_apply_contact dest!: contact_of_Some)

lemma steady_fold_release:
  "steady n m keep p \<Longrightarrow> set ps \<inter> keep = {} \<Longrightarrow> steady n m keep (fold release_pointer ps p)"
proof (induction ps arbitrary: p)
  case (Cons pid ps)
  then have "steady n m keep (release_pointer pid p)" by (simp add: steady_release)
  with Cons show ?case by simp
qed simp

lemma fold_release_lanes:
  "pointer_lanes (fst (fold release_pointer ps p)) pid =
    (if pid \<in> set ps then None else pointer_lanes (fst p) pid)"
  "pressure_suppressed (fst (fold release_pointer ps p)) = pressure_suppressed (fst p)"
  by (induction ps arbitrary: p) auto

lemma apply_contacts_pressure:
  "pressure_suppressed (fst (apply_contacts n f p)) = pressure_suppressed (fst p)"
proof -
  have "pressure_suppressed (fst (fold (apply_contact n) cs q)) = pressure_suppressed (fst q)" for cs q
    by (induction cs arbitrary: q) (simp_all add: apply_contact_lanes)
  then show ?thesis by (simp add: apply_contacts_def apply_contact_lanes split: option.split)
qed

lemma all_pointers: "set (map of_nat [0..<256]) = (UNIV :: u8 set)"
proof -
  have "w \<in> of_nat ` {0..<256}" for w :: u8
    by (rule image_eqI [of _ _ "unat w"]) (use unat_u8_range [of w] in auto)
  then show ?thesis by auto
qed

lemma set_missing_pointers:
  "set (missing_pointers f s) =
    {pid. pointer_lanes s pid \<noteq> None \<and> pid \<notin> pointer_id ` set (contacts f)}"
  by (auto simp: missing_pointers_def all_pointers [simplified])

lemma suppressed_by_snapshot:
  "distinct (map pointer_id cs) \<Longrightarrow>
   suppressed_by cs m pid = (if pid \<in> pointer_id ` set cs then snapshot_suppressed cs pid else m pid)"
proof (induction cs arbitrary: m)
  case Nil
  show ?case by (simp add: suppressed_by_def)
next
  case (Cons c cs)
  have "suppressed_by (c # cs) m = suppressed_by cs (m(pointer_id c := touching c \<and> key_suppressed c))"
    by (simp add: suppressed_by_def)
  moreover have "pointer_id d \<noteq> pointer_id c" if "d \<in> set cs" for d
    using Cons.prems that by (metis distinct.simps(2) image_eqI list.set_map list.simps(9))
  ultimately show ?case using Cons by (auto simp: snapshot_suppressed_def)
qed

section \<open>What a planned frame does\<close>

lemma steady_start:
  assumes "lanes_ok n s" and "\<forall>l < n. m l \<longleftrightarrow> lane_holds s ! l \<noteq> 0"
    and "\<forall>pid \<in> keep. pointer_lanes s pid \<noteq> None"
  shows "steady n m keep (\<lparr>pointer_lanes = pointer_lanes s, pressure_suppressed = q,
    lane_holds = lane_holds s\<rparr>, [])"
proof -
  let ?s = "\<lparr>pointer_lanes = pointer_lanes s, pressure_suppressed = q, lane_holds = lane_holds s\<rparr>"
  have h: "hold ?s = hold s" by (simp add: hold_def fun_eq_iff)
  have "gapless n m []" if "keep \<noteq> {}"
  proof -
    from that obtain pid l where "pointer_lanes s pid = Some l" using assms(3) by blast
    with lanes_ok_pointer [OF assms(1) this] assms(2) show ?thesis by (auto simp: gapless_def)
  qed
  with assms h show ?thesis by (auto simp: steady_def keys_follow_def lanes_ok_def)
qed

lemma steady_pressure:
  "steady n m keep (s\<lparr>pressure_suppressed := q\<rparr>, cs) \<longleftrightarrow> steady n m keep (s, cs)"
  by (simp add: steady_def keys_follow_def lanes_ok_def hold_def)

lemma plan_parts:
  assumes ok: "lanes_ok n s" and m: "\<forall>l < n. m l \<longleftrightarrow> lane_holds s ! l \<noteq> 0"
    and d: "distinct (map pointer_id (contacts f))"
    and keep: "\<forall>pid \<in> keep. pointer_lanes s pid \<noteq> None \<and> snapshot_lanes n (contacts f) pid \<noteq> None"
  obtains nxt cs where
    "plan_into s n f sp = (nxt,
       filter (\<lambda>k. lane_holds s ! kc_lane k = 0 \<or> lane_holds nxt ! kc_lane k = 0) cs @
       concat (map (repress_edges s nxt f sp) (contacts f)))"
    and "steady n m keep (nxt, cs)"
    and "pointer_lanes nxt = snapshot_lanes n (contacts f)"
    and "pressure_suppressed nxt = snapshot_suppressed (contacts f)"
proof -
  let ?next0 = "\<lparr>pointer_lanes = pointer_lanes s, pressure_suppressed = (\<lambda>_. False),
    lane_holds = lane_holds s\<rparr>"
  obtain next1 cs1 where p1: "apply_contacts n f (?next0, []) = (next1, cs1)" by fastforce
  define next2 where
    "next2 = next1\<lparr>pressure_suppressed := suppressed_by (contacts f) (pressure_suppressed next1)\<rparr>"
  obtain nxt cs where p2: "fold release_pointer (missing_pointers f next2) (next2, cs1) = (nxt, cs)"
    by fastforce
  have "steady n m keep (?next0, [])" using keep by (intro steady_start [OF ok m]) blast
  moreover have "\<forall>c \<in> set (contacts f). pointer_id c \<in> keep \<longrightarrow> contact_lane n c \<noteq> None"
  proof (intro ballI impI)
    fix c assume c: "c \<in> set (contacts f)" "pointer_id c \<in> keep"
    then obtain c' where c': "contact_of (contacts f) (pointer_id c) = Some c'" "contact_lane n c' \<noteq> None"
      using keep by (fastforce simp: snapshot_lanes_def split: option.splits)
    then have "c' = c" using contact_of_Some [OF c'(1)] c(1) d by (auto simp: distinct_map inj_on_def)
    with c' show "contact_lane n c \<noteq> None" by simp
  qed
  ultimately have "steady n m keep (next1, cs1)" using steady_apply_contacts p1 by metis
  then have s2: "steady n m keep (next2, cs1)" by (simp add: next2_def steady_pressure)
  have lanes1: "pointer_lanes next1 pid =
      (case contact_of (contacts f) pid of None \<Rightarrow> pointer_lanes s pid | Some c \<Rightarrow> contact_lane n c)" for pid
    using apply_contacts_lanes [OF d, of n "(?next0, [])" pid] p1 by (simp split: option.split)
  have "set (missing_pointers f next2) \<inter> keep = {}"
    using keep by (auto simp: set_missing_pointers snapshot_lanes_def contact_of_None [symmetric]
        split: option.splits)
  with steady_fold_release [OF s2] p2 have steady: "steady n m keep (nxt, cs)" by metis
  have "pointer_lanes nxt pid = snapshot_lanes n (contacts f) pid" for pid
    using fold_release_lanes(1) [of "missing_pointers f next2" "(next2, cs1)" pid] p2 lanes1 [of pid]
    by (auto simp: set_missing_pointers snapshot_lanes_def next2_def contact_of_None [symmetric]
        split: option.splits)
  moreover have "pressure_suppressed next1 = (\<lambda>_. False)"
    using apply_contacts_pressure [of n f "(?next0, [])"] p1 by simp
  then have "pressure_suppressed nxt pid = snapshot_suppressed (contacts f) pid" for pid
    using fold_release_lanes(2) [of "missing_pointers f next2" "(next2, cs1)"] p2
    by (auto simp: next2_def suppressed_by_snapshot [OF d]) (auto simp: snapshot_suppressed_def)
  moreover have "plan_into s n f sp = (nxt,
       filter (\<lambda>k. lane_holds s ! kc_lane k = 0 \<or> lane_holds nxt ! kc_lane k = 0) cs @
       concat (map (repress_edges s nxt f sp) (contacts f)))"
    by (simp add: plan_into_def p1 next2_def [symmetric] p2)
  ultimately show thesis using that steady by blast
qed

text \<open>The keys after the changes that survive the \<open>retain\<close>.\<close>

lemma key_after_retain:
  "key_after m (filter (\<lambda>k. keep (kc_lane k)) cs) l = (if keep l then key_after m cs l else m l)"
  by (induction cs rule: rev_induct) auto

lemma take_filter_prefix: "\<exists>j. take k (filter P cs) = filter P (take j cs)"
proof (induction cs arbitrary: k)
  case (Cons c cs)
  show ?case
  proof (cases "P c \<and> k = 0")
    case True
    then show ?thesis by (intro exI [of _ 0]) simp
  next
    case False
    obtain j where "take (if P c then k - 1 else k) (filter P cs) = filter P (take j cs)"
      using Cons.IH by blast
    with False have "take k (filter P (c # cs)) = filter P (take (Suc j) (c # cs))"
      by (cases k) auto
    then show ?thesis by blast
  qed
qed simp

lemma gapless_retain:
  assumes "gapless n m cs" and "\<forall>l < n. \<not> keep l \<longrightarrow> m l"
  shows "gapless n m (filter (\<lambda>k. keep (kc_lane k)) cs)"
  unfolding gapless_def
proof
  fix k
  obtain j where j: "take k (filter (\<lambda>k. keep (kc_lane k)) cs) = filter (\<lambda>k. keep (kc_lane k)) (take j cs)"
    using take_filter_prefix by blast
  obtain l where "l < n" "key_after m (take j cs) l" using assms(1) by (auto simp: gapless_def)
  with assms(2) show "\<exists>l < n. key_after m (take k (filter (\<lambda>k. keep (kc_lane k)) cs)) l"
    unfolding j by (auto simp: key_after_retain)
qed

lemma gapless_downs:
  assumes "gapless n m cs" and "\<forall>k \<in> set ks. kc_down k"
  shows "gapless n m (cs @ ks)"
  using assms(2)
proof (induction ks rule: rev_induct)
  case (snoc k ks)
  then have g: "gapless n m (cs @ ks)" by simp
  then have "\<exists>l < n. key_after m (take (length (cs @ ks)) (cs @ ks)) l" unfolding gapless_def by blast
  then obtain l where l: "l < n" "key_after m (cs @ ks) l" by auto
  have "key_after m ((cs @ ks) @ [k]) l"
    unfolding key_after_simps(2) using l(2) snoc.prems by simp
  with l(1) have "\<exists>l < n. key_after m ((cs @ ks) @ [k]) l" by blast
  from gapless_snoc [OF g this] show ?case by simp
qed (simp add: assms(1))

lemma repress_edges_cases:
  "repress_edges s nxt f sp c = [] \<or>
   (\<exists>l. pointer_lanes nxt (pointer_id c) = Some l \<and> lane_holds s ! l \<noteq> 0 \<and>
      repress_edges s nxt f sp c =
        (if sp then [key_edge l False False] else []) @ [key_edge l True True])"
  by (auto simp: repress_edges_def Let_def split: option.splits)

lemma repress_edges_member:
  assumes "k \<in> set (concat (map (repress_edges s nxt f sp) cs))"
  shows "(\<exists>pid. pointer_lanes nxt pid = Some (kc_lane k)) \<and> (sp \<or> kc_down k)"
proof -
  from assms obtain c where k: "k \<in> set (repress_edges s nxt f sp c)" by auto
  show ?thesis using repress_edges_cases [of s nxt f sp c]
  proof
    assume "\<exists>l. pointer_lanes nxt (pointer_id c) = Some l \<and> lane_holds s ! l \<noteq> 0 \<and>
      repress_edges s nxt f sp c = (if sp then [key_edge l False False] else []) @ [key_edge l True True]"
    then obtain l where "pointer_lanes nxt (pointer_id c) = Some l"
      "repress_edges s nxt f sp c = (if sp then [key_edge l False False] else []) @ [key_edge l True True]"
      by blast
    with k show ?thesis by (cases sp) auto
  qed (use k in simp)
qed

lemma key_after_repress:
  assumes "lanes_ok n nxt" and "\<forall>l < n. m l \<longleftrightarrow> lane_holds nxt ! l \<noteq> 0"
  shows "\<forall>l < n. key_after m (concat (map (repress_edges s nxt f sp) cs)) l \<longleftrightarrow> lane_holds nxt ! l \<noteq> 0"
  using assms(2)
proof (induction cs arbitrary: m)
  case (Cons c cs)
  have "\<forall>l < n. key_after m (repress_edges s nxt f sp c) l \<longleftrightarrow> lane_holds nxt ! l \<noteq> 0"
    using repress_edges_cases [of s nxt f sp c]
  proof
    assume "\<exists>l. pointer_lanes nxt (pointer_id c) = Some l \<and> lane_holds s ! l \<noteq> 0 \<and>
      repress_edges s nxt f sp c = (if sp then [key_edge l False False] else []) @ [key_edge l True True]"
    then obtain l where l: "pointer_lanes nxt (pointer_id c) = Some l"
      and e: "repress_edges s nxt f sp c =
        (if sp then [key_edge l False False] else []) @ [key_edge l True True]" by blast
    have "lane_holds nxt ! l \<noteq> 0" using lanes_ok_pointer [OF assms(1) l] by simp
    with Cons.prems show ?thesis unfolding e by (cases sp) (simp_all add: key_after_Cons)
  qed (use Cons.prems in simp)
  from Cons.IH [OF this] show ?case by (simp add: key_after_append)
qed simp

section \<open>Properties of the planner\<close>

text \<open>
  C17: the state after a frame is the one its snapshot prescribes. A pointer owns a lane exactly
  when the snapshot shows it touching and not suppressed, and then the lane of its coordinate;
  every other pointer owns none; and the hold count of each lane is again the exact number of
  pointers that own it, whatever order the contacts were applied in.
\<close>

theorem plan_follows_snapshot:
  assumes "lanes_ok n s" and "distinct (map pointer_id (contacts f))"
    and "plan_into s n f split_repress = (nxt, changes)"
  shows "lanes_ok n nxt \<and> pointer_lanes nxt = snapshot_lanes n (contacts f) \<and>
    pressure_suppressed nxt = snapshot_suppressed (contacts f)"
proof (rule plan_parts [OF assms(1) _ assms(2), of "\<lambda>l. lane_holds s ! l \<noteq> 0" "{}" split_repress])
  fix t :: keyboard_state and cs :: "key_change list"
  assume plan: "plan_into s n f split_repress = (t,
       filter (\<lambda>k. lane_holds s ! kc_lane k = 0 \<or> lane_holds t ! kc_lane k = 0) cs @
       concat (map (repress_edges s t f split_repress) (contacts f)))"
    and steady: "steady n (\<lambda>l. lane_holds s ! l \<noteq> 0) {} (t, cs)"
    and lanes: "pointer_lanes t = snapshot_lanes n (contacts f)"
      "pressure_suppressed t = snapshot_suppressed (contacts f)"
  have "nxt = t" using plan assms(3) by simp
  with steady lanes show ?thesis by (simp add: steady_def)
qed simp_all

lemma plan_keys:
  assumes "lanes_ok n s" and "distinct (map pointer_id (contacts f))"
    and "\<forall>l < n. pressed l \<longleftrightarrow> lane_holds s ! l \<noteq> 0"
    and "plan_into s n f split_repress = (nxt, changes)"
  shows "(\<forall>l < n. key_after pressed changes l \<longleftrightarrow> lane_holds nxt ! l \<noteq> 0) \<and>
    (\<forall>k \<in> set changes. kc_lane k < n)"
proof (rule plan_parts [OF assms(1,3,2), of "{}" split_repress])
  fix t :: keyboard_state and cs :: "key_change list"
  let ?keep = "\<lambda>l. lane_holds s ! l = 0 \<or> lane_holds t ! l = 0"
  let ?re = "concat (map (repress_edges s t f split_repress) (contacts f))"
  assume plan: "plan_into s n f split_repress = (t, filter (\<lambda>k. ?keep (kc_lane k)) cs @ ?re)"
    and steady: "steady n pressed {} (t, cs)"
  have ok: "lanes_ok n t" and follow: "keys_follow n pressed (t, cs)" using steady by (auto simp: steady_def)
  have nxt: "nxt = t" and changes: "changes = filter (\<lambda>k. ?keep (kc_lane k)) cs @ ?re"
    using plan assms(4) by auto
  have "\<forall>l < n. key_after pressed (filter (\<lambda>k. ?keep (kc_lane k)) cs) l \<longleftrightarrow> lane_holds t ! l \<noteq> 0"
    using follow assms(3) by (auto simp: key_after_retain [where keep = ?keep] keys_follow_def)
  from key_after_repress [OF ok this] have keys: "\<forall>l < n. key_after pressed changes l \<longleftrightarrow> lane_holds t ! l \<noteq> 0"
    unfolding changes key_after_append .
  have "kc_lane k < n" if "k \<in> set ?re" for k
    using repress_edges_member [OF that] lanes_ok_pointer [OF ok] by blast
  moreover have "\<forall>k \<in> set cs. kc_lane k < n" using follow by (simp add: keys_follow_def)
  then have "\<forall>k \<in> set (filter (\<lambda>k. ?keep (kc_lane k)) cs). kc_lane k < n" by simp
  ultimately have "\<forall>k \<in> set changes. kc_lane k < n" unfolding changes set_append by blast
  with keys show ?thesis unfolding nxt by blast
qed simp

text \<open>
  C18: the key changes are exactly right. If a key is down for each held lane, then after the
  changes of a frame are replayed in order a key is down exactly for each lane held in the next
  state, with and without re-press splitting, and every change names a lane of the instrument.
\<close>

theorem plan_keys_match_holds:
  assumes "lanes_ok n s" and "distinct (map pointer_id (contacts f))"
    and "\<forall>l < n. pressed l \<longleftrightarrow> lane_holds s ! l \<noteq> 0"
    and "plan_into s n f split_repress = (nxt, changes)"
  shows "(\<forall>l < n. key_after pressed changes l \<longleftrightarrow> lane_holds nxt ! l \<noteq> 0) \<and>
    (\<forall>k \<in> set changes. kc_lane k < n)"
  by (rule plan_keys [OF assms])

text \<open>
  C19: with the splitting of re-presses off, a slide never has a moment without a key. If a finger owns a
  lane before the frame and the snapshot keeps it on some lane, then after every prefix of the changes that
  \<open>plan_into\<close> plans without the splitting at least one key is down. (With it, which the keyboard asks for when
  it has a spacer, a lane that is pressed again is released first, so a lone key has such a moment on purpose.)
\<close>

theorem plan_slide_never_gaps:
  assumes "lanes_ok n s" and "distinct (map pointer_id (contacts f))"
    and "\<forall>l < n. pressed l \<longleftrightarrow> lane_holds s ! l \<noteq> 0"
    and "pointer_lanes s pid \<noteq> None" and "snapshot_lanes n (contacts f) pid \<noteq> None"
    and "plan_into s n f False = (nxt, changes)"
  shows "\<exists>l < n. key_after pressed (take k changes) l"
proof (rule plan_parts [OF assms(1,3,2), of "{pid}" False])
  fix t :: keyboard_state and cs :: "key_change list"
  let ?keep = "\<lambda>l. lane_holds s ! l = 0 \<or> lane_holds t ! l = 0"
  let ?re = "concat (map (repress_edges s t f False) (contacts f))"
  assume plan: "plan_into s n f False = (t, filter (\<lambda>k. ?keep (kc_lane k)) cs @ ?re)"
    and steady: "steady n pressed {pid} (t, cs)"
  then have "gapless n pressed cs" by (simp add: steady_def)
  then have "gapless n pressed (filter (\<lambda>k. ?keep (kc_lane k)) cs)"
    using gapless_retain [where keep = ?keep] assms(3) by blast
  moreover have "\<forall>k \<in> set ?re. kc_down k" using repress_edges_member [of _ s t f False] by blast
  ultimately have "gapless n pressed (filter (\<lambda>k. ?keep (kc_lane k)) cs @ ?re)"
    by (rule gapless_downs)
  moreover have "changes = filter (\<lambda>k. ?keep (kc_lane k)) cs @ ?re" using plan assms(6) by simp
  ultimately have "gapless n pressed changes" by (simp only:)
  then show ?thesis by (simp add: gapless_def)
qed (use assms(4,5) in auto)

lemma pushed_monotone:
  "set (snd p) \<subseteq> set (snd (apply_contact n c p))"
  "set (snd p) \<subseteq> set (snd (release_pointer pid p))"
proof -
  have acq: "set (snd p) \<subseteq> set (snd (acquire_lane l t p))" for l t p
    using acquire_snd [of l t p] by auto
  have rel: "set (snd p) \<subseteq> set (snd (release_lane l p))" for l p
    using release_snd [of l p] by auto
  have sl: "set (snd p) \<subseteq> set (snd (slide a b p))" for a b p
  proof (induction a b p rule: slide.induct)
    case (1 a b p)
    show ?case
    proof (cases "a = b")
      case True
      then show ?thesis by (simp add: slide.simps)
    next
      case False
      define c where "c = (if b > a then a + 1 else a - 1)"
      have "slide a b p = slide c b (release_lane a (acquire_lane c False p))"
        using False by (subst slide.simps) (simp add: Let_def c_def)
      moreover have "set (snd p) \<subseteq> set (snd (release_lane a (acquire_lane c False p)))"
        using acq rel by blast
      ultimately show ?thesis using 1 [OF False c_def] by simp
    qed
  qed
  show r: "set (snd p) \<subseteq> set (snd (release_pointer pid p))" for pid p
    using rel [of "set_pointer pid None p"] by (simp add: release_pointer_def split: option.split)
  show "set (snd p) \<subseteq> set (snd (apply_contact n c p))"
    using acq sl r by (auto simp: apply_contact_def move_pointer_def split: option.split)
qed

lemma folds_monotone:
  "set (snd p) \<subseteq> set (snd (fold (apply_contact n) cs p))"
  "set (snd p) \<subseteq> set (snd (fold release_pointer ps p))"
proof -
  show "set (snd p) \<subseteq> set (snd (fold (apply_contact n) cs p))"
  proof (induction cs arbitrary: p)
    case (Cons c cs)
    show ?case using pushed_monotone(1) [of p n c] Cons.IH [of "apply_contact n c p"] by auto
  qed simp
  show "set (snd p) \<subseteq> set (snd (fold release_pointer ps p))"
  proof (induction ps arbitrary: p)
    case (Cons q ps)
    show ?case using pushed_monotone(2) [of p q] Cons.IH [of "release_pointer q p"] by auto
  qed simp
qed

text \<open>
  C20: every finger that lands is a press. When the action is DOWN and its pointer, which owned
  no lane, touches lane \<open>l\<close> in the snapshot, the changes contain a key-down of \<open>l\<close> marked as a
  touch, whether the lane was free or already held by another finger.
\<close>

theorem plan_touch_is_press:
  assumes "lanes_ok n s" and "action f = ACTION_DOWN"
    and "contact_of (contacts f) (action_pointer_id f) = Some c" and "contact_lane n c = Some l"
    and "pointer_lanes s (action_pointer_id f) = None" and "distinct (map pointer_id (contacts f))"
    and "plan_into s n f split_repress = (nxt, changes)"
  shows "key_edge l True True \<in> set changes"
proof (cases "lane_holds s ! l = 0")
  case False
  note c = contact_of_Some [OF assms(3)]
  have "pointer_lanes nxt = snapshot_lanes n (contacts f)"
  proof (rule plan_parts [OF assms(1) _ assms(6), of "\<lambda>l. lane_holds s ! l \<noteq> 0" "{}" split_repress])
    fix t :: keyboard_state and cs :: "key_change list"
    assume "plan_into s n f split_repress = (t,
       filter (\<lambda>k. lane_holds s ! kc_lane k = 0 \<or> lane_holds t ! kc_lane k = 0) cs @
       concat (map (repress_edges s t f split_repress) (contacts f)))"
      and "pointer_lanes t = snapshot_lanes n (contacts f)"
    with assms(7) show ?thesis by simp
  qed simp_all
  then have "key_edge l True True \<in> set (repress_edges s nxt f split_repress c)"
    using False assms c by (simp add: repress_edges_def snapshot_lanes_def)
  moreover have "\<exists>ks. changes = ks @ concat (map (repress_edges s nxt f split_repress) (contacts f))"
    using assms(7) by (auto simp: plan_into_def Let_def split: prod.splits)
  ultimately show ?thesis using c by auto
next
  case True
  let ?next0 = "\<lparr>pointer_lanes = pointer_lanes s, pressure_suppressed = (\<lambda>_. False),
    lane_holds = lane_holds s\<rparr>"
  note c = contact_of_Some [OF assms(3)]
  have "key_edge l True True \<in> set (snd (apply_contact n c (?next0, [])))"
    using True c assms(4,5) by (auto simp: apply_contact_def contact_lane_def move_pointer_def
        acquire_lane_def split: if_splits)
  then have "key_edge l True True \<in> set (snd (apply_contacts n f (?next0, [])))"
    using folds_monotone(1) assms(3) by (fastforce simp: apply_contacts_def contact_of_def)
  moreover obtain q1 cs1 where p1: "apply_contacts n f (?next0, []) = (q1, cs1)" by fastforce
  moreover define q2 where
    "q2 = q1\<lparr>pressure_suppressed := suppressed_by (contacts f) (pressure_suppressed q1)\<rparr>"
  moreover obtain t cs where p2: "fold release_pointer (missing_pointers f q2) (q2, cs1) = (t, cs)"
    by fastforce
  moreover have "set cs1 \<subseteq> set cs"
    using folds_monotone(2) [of "(q2, cs1)" "missing_pointers f q2"] p2 by simp
  ultimately have "key_edge l True True \<in> set cs" by auto
  moreover have "changes = filter (\<lambda>k. lane_holds s ! kc_lane k = 0 \<or> lane_holds t ! kc_lane k = 0) cs @
      concat (map (repress_edges s t f split_repress) (contacts f))"
    using assms(7) by (auto simp: plan_into_def p1 q2_def [symmetric] p2)
  ultimately show ?thesis using True by simp
qed

section \<open>Examples\<close>

definition sample_contact :: "u8 \<Rightarrow> int \<Rightarrow> contact" where
  "sample_contact pid x = \<lparr>pointer_id = pid, contact_flags = 3, contact_x = wire_coordinate x,
     contact_y = 0, pressure = 1, touch_major = 0\<rparr>"

definition sample_touch :: "u8 \<Rightarrow> u64 \<Rightarrow> contact list \<Rightarrow> touch_frame" where
  "sample_touch act sq cs = (sample_frame 7 sq 1)\<lparr>action := act, action_pointer_id := 5, contacts := cs\<rparr>"

lemma sample_lane: "lane_for (wire_coordinate 5000) 4 = 2" "lane_for (wire_coordinate 0) 4 = 0"
  by code_simp+

lemma sample_touch_simps [simp]:
  "contacts (sample_touch act sq cs) = cs" "action (sample_touch act sq cs) = act"
  "action_pointer_id (sample_touch act sq cs) = 5" "pointer_id (sample_contact pid x) = pid"
  "touching (sample_contact pid x)" "\<not> key_suppressed (sample_contact pid x)"
  "contact_x (sample_contact pid x) = wire_coordinate x"
  by (simp_all add: sample_touch_def sample_contact_def touching_def key_suppressed_def)

lemma lanes_ok_new: "0 < n \<Longrightarrow> lanes_ok n (keyboard_state_new n)"
  by (simp add: lanes_ok_def keyboard_state_new_def held_count_def hold_def)

theorem plan_follows_snapshot_witness:
  "pointer_lanes (fst (plan_into (keyboard_state_new 4) 4
     (sample_touch 1 0 [sample_contact 5 5000]) False)) 5 = Some 2"
  using plan_follows_snapshot [OF lanes_ok_new [of 4], of "sample_touch 1 0 [sample_contact 5 5000]" False]
  by (cases "plan_into (keyboard_state_new 4) 4 (sample_touch 1 0 [sample_contact 5 5000]) False")
    (simp add: snapshot_lanes_def contact_lane_def sample_lane)

theorem plan_keys_match_holds_witness:
  "let r = plan_into (keyboard_state_new 4) 4 (sample_touch 1 0 [sample_contact 5 5000]) False
   in key_after (\<lambda>_. False) (snd r) 2 = (lane_holds (fst r) ! 2 \<noteq> 0)"
  using plan_keys_match_holds [OF lanes_ok_new [of 4], of "sample_touch 1 0 [sample_contact 5 5000]"
      "\<lambda>_. False" False]
  by (cases "plan_into (keyboard_state_new 4) 4 (sample_touch 1 0 [sample_contact 5 5000]) False")
    (simp add: keyboard_state_new_def)

theorem plan_touch_is_press_witness:
  "key_edge 2 True True \<in> set (snd (plan_into (keyboard_state_new 4) 4
     (sample_touch 1 0 [sample_contact 5 5000]) False))"
  using plan_touch_is_press [OF lanes_ok_new [of 4], of "sample_touch 1 0 [sample_contact 5 5000]"
      "sample_contact 5 5000" 2 False]
  by (cases "plan_into (keyboard_state_new 4) 4 (sample_touch 1 0 [sample_contact 5 5000]) False")
    (simp add: contact_lane_def sample_lane keyboard_state_new_def)

text \<open>A finger on lane 2 slides to lane 0.\<close>

definition sample_held :: keyboard_state where
  "sample_held = \<lparr>pointer_lanes = (\<lambda>_. None)(5 := Some 2), pressure_suppressed = (\<lambda>_. False),
     lane_holds = [0, 0, 1, 0]\<rparr>"

lemma sample_held_ok: "lanes_ok 4 sample_held"
proof -
  have c: "held_count (\<lambda>_. None) l = 0" for l by (simp add: held_count_def)
  have "held_count ((\<lambda>_. None)(5 := Some 2)) l = (if l = 2 then 1 else 0)" for l
    using held_count_acquire [of "\<lambda>_. None" 5 2] c by simp
  then show ?thesis
    by (auto simp: lanes_ok_def sample_held_def hold_def eval_nat_numeral less_Suc_eq split: if_splits)
qed

theorem plan_slide_never_gaps_witness:
  "\<exists>l < 4. key_after (\<lambda>l. l = 2)
    (take 2 (snd (plan_into sample_held 4 (sample_touch 2 1 [sample_contact 5 0]) False))) l"
proof -
  let ?f = "sample_touch 2 1 [sample_contact 5 0]"
  obtain t cs where p: "plan_into sample_held 4 ?f False = (t, cs)" by fastforce
  have start: "\<forall>l < 4. l = 2 \<longleftrightarrow> lane_holds sample_held ! l \<noteq> 0"
    by (auto simp: sample_held_def eval_nat_numeral less_Suc_eq)
  show ?thesis
    using plan_slide_never_gaps [OF sample_held_ok _ start _ _ p, of 5 2]
    unfolding p by (simp add: sample_held_def snapshot_lanes_def contact_lane_def)
qed

end
