(* ===== verification/Key_Sinks.thy ===== *)
theory Key_Sinks
  imports Lane_Planner
begin

text \<open>
  The operating system's side of the keyboard: \<open>keyboard/linux.rs\<close> (a uinput device) and
  \<open>keyboard/windows.rs\<close> (\<open>SendInput\<close>), behind the interface \<open>key_device\<close> that \<open>KeyboardSink\<close>
  uses. Writing to the OS is a function of the device's state that may accept fewer events than
  were asked for, or none; the documented contract of that call is the predicate \<open>os_obeys\<close>. Shown here:
  however the OS splits the writes, a change is counted exactly when both its key event and its
  SYN_REPORT were accepted, and a key never stays down after a discarded half write.
\<close>

section \<open>Lane keys\<close>

text \<open>A Rust \<open>String\<close> is the list of its Unicode scalar values.\<close>

type_synonym rust_string = "nat list"

abbreviation (input) code_point :: "char \<Rightarrow> nat" where "code_point c \<equiv> of_char c"

definition to_ascii_uppercase :: "nat \<Rightarrow> nat" where
  "to_ascii_uppercase c = (if 97 \<le> c \<and> c \<le> 122 then c - 32 else c)"

definition is_ascii_alphanumeric :: "nat \<Rightarrow> bool" where
  "is_ascii_alphanumeric c \<longleftrightarrow> 48 \<le> c \<and> c \<le> 57 \<or> 65 \<le> c \<and> c \<le> 90 \<or> 97 \<le> c \<and> c \<le> 122"

fun validate_keys :: "rust_string set \<Rightarrow> rust_string list \<Rightarrow> (io_error, unit) outcome" where
  "validate_keys seen [] = Done ()"
| "validate_keys seen (k # ks) =
    (let normalized = map to_ascii_uppercase k in
     if normalized \<in> seen then Fail (io_err InvalidInput)
     else validate_keys (insert normalized seen) ks)"

definition validate_lane_keys :: "rust_string list \<Rightarrow> (io_error, unit) outcome" where
  "validate_lane_keys keys = validate_keys {} keys"

definition linux_keycode_table :: "(nat \<times> u16) list" where
  "linux_keycode_table = map (\<lambda>(c, k). (code_point c, k))
    [(CHR ''1'', 2), (CHR ''2'', 3), (CHR ''3'', 4), (CHR ''4'', 5), (CHR ''5'', 6), (CHR ''6'', 7),
     (CHR ''7'', 8), (CHR ''8'', 9), (CHR ''9'', 10), (CHR ''0'', 11), (CHR ''Q'', 16), (CHR ''W'', 17),
     (CHR ''E'', 18), (CHR ''R'', 19), (CHR ''T'', 20), (CHR ''Y'', 21), (CHR ''U'', 22), (CHR ''I'', 23),
     (CHR ''O'', 24), (CHR ''P'', 25), (CHR ''A'', 30), (CHR ''S'', 31), (CHR ''D'', 32), (CHR ''F'', 33),
     (CHR ''G'', 34), (CHR ''H'', 35), (CHR ''J'', 36), (CHR ''K'', 37), (CHR ''L'', 38), (CHR ''Z'', 44),
     (CHR ''X'', 45), (CHR ''C'', 46), (CHR ''V'', 47), (CHR ''B'', 48), (CHR ''N'', 49), (CHR ''M'', 50)]"

definition linux_keycode :: "rust_string \<Rightarrow> (io_error, u16) outcome" where
  "linux_keycode key =
    (case key of
       [] \<Rightarrow> Fail (io_err InvalidInput)
     | character # rest \<Rightarrow>
         if rest \<noteq> [] \<or> \<not> is_ascii_alphanumeric character then Fail (io_err InvalidInput)
         else case map_of linux_keycode_table (to_ascii_uppercase character) of
                None \<Rightarrow> Fail (io_err InvalidInput)
              | Some code \<Rightarrow> Done code)"

text \<open>The loop of \<open>KeySink::new\<close> that pushes the code of each key or returns the first error.\<close>

fun linux_keycodes :: "rust_string list \<Rightarrow> (io_error, u16 list) outcome" where
  "linux_keycodes [] = Done []"
| "linux_keycodes (k # ks) =
    and_then (linux_keycode k) (\<lambda>c. and_then (linux_keycodes ks) (\<lambda>cs. Done (c # cs)))"

definition parse_virtual_key :: "rust_string \<Rightarrow> (io_error, u16) outcome" where
  "parse_virtual_key key =
    (case key of
       [] \<Rightarrow> Fail (io_err InvalidInput)
     | character # rest \<Rightarrow>
         if rest \<noteq> [] \<or> \<not> is_ascii_alphanumeric character then Fail (io_err InvalidInput)
         else Done (of_nat (to_ascii_uppercase character)))"

section \<open>The operating system\<close>

text \<open>
  A device of the operating system that accepts events of type \<open>'e\<close>: its state, the call that
  submits events, and (as a ghost) the events it has taken so far.
\<close>

record ('w, 'e) os_device =
  os_now :: 'w
  os_write :: "'e list \<Rightarrow> 'w \<Rightarrow> 'w \<times> (io_error + nat)"
  os_log :: "'w \<Rightarrow> 'e list"

text \<open>The contract of the call: it takes a prefix of the events and reports its length, or fails
  and takes none.\<close>

definition os_obeys :: "('w, 'e) os_device \<Rightarrow> bool" where
  "os_obeys dv \<longleftrightarrow> (\<forall>evs w w'.
     (\<forall>e. os_write dv evs w = (w', Inl e) \<longrightarrow> os_log dv w' = os_log dv w) \<and>
     (\<forall>k. os_write dv evs w = (w', Inr k) \<longrightarrow>
        k \<le> length evs \<and> os_log dv w' = os_log dv w @ take k evs))"

definition submit_events ::
  "'e list \<Rightarrow> ('w, 'e) os_device \<Rightarrow> ('w, 'e) os_device \<times> (io_error + nat)" where
  "submit_events evs dv = (case os_write dv evs (os_now dv) of (w, r) \<Rightarrow> (dv\<lparr>os_now := w\<rparr>, r))"

abbreviation taken :: "('w, 'e) os_device \<Rightarrow> 'e list" where
  "taken dv \<equiv> os_log dv (os_now dv)"

section \<open>The uinput sink\<close>

record input_event =
  ev_type :: u16
  ev_code :: u16
  ev_value :: int

abbreviation (input) EV_SYN :: u16 where "EV_SYN \<equiv> 0"
abbreviation (input) EV_KEY :: u16 where "EV_KEY \<equiv> 1"
abbreviation (input) SYN_REPORT :: u16 where "SYN_REPORT \<equiv> 0"

datatype pending_write = ChangePending key_change | CleanupSync

record 'w uinput_sink =
  keycodes :: "u16 list"
  pending_write :: "pending_write option"
  kernel :: "('w, input_event) os_device"

definition key_event :: "u16 \<Rightarrow> bool \<Rightarrow> input_event" where
  "key_event code down = \<lparr>ev_type = EV_KEY, ev_code = code, ev_value = (if down then 1 else 0)\<rparr>"

definition sync_event :: input_event where
  "sync_event = \<lparr>ev_type = EV_SYN, ev_code = SYN_REPORT, ev_value = 0\<rparr>"

text \<open>\<open>keycodes[change.lane]\<close> panics out of range.\<close>

fun encode_changes :: "u16 list \<Rightarrow> key_change list \<Rightarrow> (io_error, input_event list) outcome" where
  "encode_changes codes [] = Done []"
| "encode_changes codes (c # cs) =
    (if kc_lane c < length codes
     then and_then (encode_changes codes cs)
            (\<lambda>evs. Done (key_event (codes ! kc_lane c) (kc_down c) # sync_event # evs))
     else Panic)"

text \<open>The part of \<open>submit_with\<close> after a pending transition was completed.\<close>

definition submit_remaining ::
  "nat \<Rightarrow> key_change list \<Rightarrow> 'w uinput_sink \<Rightarrow> 'w uinput_sink \<times> (io_error, nat) outcome" where
  "submit_remaining accepted remaining s =
    (if remaining = [] then (s, Done accepted) else
     case encode_changes (keycodes s) remaining of
       Panic \<Rightarrow> (s, Panic)
     | Fail e \<Rightarrow> (s, Fail e)
     | Done events \<Rightarrow>
         (case submit_events events (kernel s) of (dv, r) \<Rightarrow>
          let s' = s\<lparr>kernel := dv\<rparr> in
          case r of
            Inl e \<Rightarrow> if accepted \<noteq> 0 then (s', Done accepted) else (s', Fail e)
          | Inr count \<Rightarrow>
              if count = 0
              then (if accepted = 0 then (s', Fail (io_err WriteZero)) else (s', Done accepted))
              else if count > length events then (s', Fail (io_err InvalidData))
              else (s'\<lparr>pending_write :=
                       (if count mod 2 \<noteq> 0 then Some (ChangePending (remaining ! (count div 2)))
                        else pending_write s')\<rparr>,
                    Done (accepted + count div 2))))"

definition linux_submit ::
  "key_change list \<Rightarrow> 'w uinput_sink \<Rightarrow> 'w uinput_sink \<times> (io_error, nat) outcome" where
  "linux_submit changes s =
    (case pending_write s of
       Some CleanupSync \<Rightarrow> (s, Fail (io_err OtherKind))
     | Some (ChangePending p) \<Rightarrow>
         if changes = [] \<or> hd changes \<noteq> p then (s, Fail (io_err OtherKind))
         else (case submit_events [sync_event] (kernel s) of (dv, r) \<Rightarrow>
               let s' = s\<lparr>kernel := dv\<rparr> in
               case r of
                 Inl e \<Rightarrow> (s', Fail e)
               | Inr count \<Rightarrow>
                   if count = 1
                   then submit_remaining 1 (drop 1 changes) (s'\<lparr>pending_write := None\<rparr>)
                   else if count = 0 then (s', Fail (io_err WriteZero))
                   else (s', Fail (io_err InvalidData)))
     | None \<Rightarrow> submit_remaining 0 changes s)"

definition linux_discard :: "'w uinput_sink \<Rightarrow> 'w uinput_sink \<times> (io_error, unit) outcome" where
  "linux_discard s =
    (let finish = (\<lambda>events.
       case submit_events events (kernel s) of (dv, r) \<Rightarrow>
         let s' = s\<lparr>kernel := dv\<rparr> in
         (case r of
            Inl e \<Rightarrow> (s', Fail e)
          | Inr count \<Rightarrow>
              if count = 0 then (s', Fail (io_err WriteZero))
              else if count > length events then (s', Fail (io_err InvalidData))
              else if count = length events then (s'\<lparr>pending_write := None\<rparr>, Done ())
              else if count = 1 \<and> length events = 2
                   then (s'\<lparr>pending_write := Some CleanupSync\<rparr>, Fail (io_err OtherKind))
              else (s', Fail (io_err OtherKind))))
     in case pending_write s of
          None \<Rightarrow> (s, Done ())
        | Some (ChangePending c) \<Rightarrow>
            if kc_down c
            then (if kc_lane c < length (keycodes s)
                  then finish [key_event (keycodes s ! kc_lane c) False, sync_event]
                  else (s, Panic))
            else finish [sync_event]
        | Some CleanupSync \<Rightarrow> finish [sync_event])"

definition linux_pending :: "'w uinput_sink \<Rightarrow> bool" where
  "linux_pending s \<longleftrightarrow> pending_write s \<noteq> None"

section \<open>The SendInput sink\<close>

record key_input = ki_scan :: u16 ki_up :: bool

record 'w send_input_sink =
  scan_codes :: "u16 list"
  desktop :: "('w, key_input) os_device"

fun key_inputs :: "u16 list \<Rightarrow> key_change list \<Rightarrow> (io_error, key_input list) outcome" where
  "key_inputs codes [] = Done []"
| "key_inputs codes (c # cs) =
    (if kc_lane c < length codes
     then and_then (key_inputs codes cs)
            (\<lambda>is. Done (\<lparr>ki_scan = codes ! kc_lane c, ki_up = (\<not> kc_down c)\<rparr> # is))
     else Panic)"

text \<open>\<open>u32::try_from(len)\<close> fails from \<open>2 ^ 32\<close> events on; an accepted count of 0 is the last OS error.\<close>

definition windows_submit ::
  "io_error \<Rightarrow> key_change list \<Rightarrow> 'w send_input_sink \<Rightarrow> 'w send_input_sink \<times> (io_error, nat) outcome" where
  "windows_submit last_os_error changes s =
    (if changes = [] then (s, Done 0) else
     case key_inputs (scan_codes s) changes of
       Panic \<Rightarrow> (s, Panic)
     | Fail e \<Rightarrow> (s, Fail e)
     | Done inputs \<Rightarrow>
         if 4294967296 \<le> length inputs then (s, Fail (io_err InvalidInput))
         else (case submit_events inputs (desktop s) of (dv, r) \<Rightarrow>
               let s' = s\<lparr>desktop := dv\<rparr> in
               case r of
                 Inl e \<Rightarrow> (s', Fail e)
               | Inr accepted \<Rightarrow>
                   if accepted = 0 then (s', Fail last_os_error) else (s', Done accepted)))"

section \<open>The interface that the keyboard relies on\<close>

record 'd key_ops =
  ko_submit :: "key_change list \<Rightarrow> 'd \<Rightarrow> 'd \<times> (io_error, nat) outcome"
  ko_discard :: "'d \<Rightarrow> 'd \<times> (io_error, unit) outcome"
  ko_pending :: "'d \<Rightarrow> bool"

text \<open>
  \<open>related d m\<close>: the device shows key \<open>l\<close> down exactly when \<open>m l\<close>, for every lane, apart from a
  transition that is still pending. A submission applies a prefix of the changes and reports its
  length; a failed one applies nothing; discarding only ever releases.
\<close>

locale key_device =
  fixes ops :: "'d key_ops"
    and lanes :: "'d \<Rightarrow> nat"
    and related :: "'d \<Rightarrow> (nat \<Rightarrow> bool) \<Rightarrow> bool"
  assumes related_cong: "related d m \<Longrightarrow> \<forall>l < lanes d. m l = m' l \<Longrightarrow> related d m'"
    and submit_lanes: "ko_submit ops cs d = (d', r) \<Longrightarrow> lanes d' = lanes d"
    and discard_lanes: "ko_discard ops d = (d', r') \<Longrightarrow> lanes d' = lanes d"
    and submit_no_panic: "related d m \<Longrightarrow> \<forall>c \<in> set cs. kc_lane c < lanes d \<Longrightarrow>
      snd (ko_submit ops cs d) \<noteq> Panic"
    and submit_done: "related d m \<Longrightarrow> ko_submit ops cs d = (d', Done k) \<Longrightarrow>
      \<forall>c \<in> set cs. kc_lane c < lanes d \<Longrightarrow> k \<le> length cs \<and> related d' (key_after m (take k cs))"
    and submit_fail: "related d m \<Longrightarrow> ko_submit ops cs d = (d', Fail e) \<Longrightarrow>
      \<forall>c \<in> set cs. kc_lane c < lanes d \<Longrightarrow> related d' m"
    and submit_complete: "related d m \<Longrightarrow> ko_submit ops cs d = (d', Done (length cs)) \<Longrightarrow>
      \<forall>c \<in> set cs. kc_lane c < lanes d \<Longrightarrow> \<not> ko_pending ops d'"
    and discard_no_panic: "related d m \<Longrightarrow> snd (ko_discard ops d) \<noteq> Panic"
    and discard_done: "related d m \<Longrightarrow> ko_discard ops d = (d', Done ()) \<Longrightarrow>
      \<exists>m'. related d' m' \<and> (\<forall>l < lanes d. m' l \<longrightarrow> m l) \<and> \<not> ko_pending ops d' \<and>
        (\<not> ko_pending ops d \<longrightarrow> m' = m)"
    and discard_fail: "related d m \<Longrightarrow> ko_discard ops d = (d', Fail e) \<Longrightarrow>
      \<exists>m'. related d' m' \<and> (\<forall>l < lanes d. m' l \<longrightarrow> m l)"
    and discard_stuck: "ko_discard ops d = (d', Fail e) \<Longrightarrow> ko_pending ops d'"

section \<open>Events on the wire to the kernel\<close>

definition change_events :: "u16 list \<Rightarrow> key_change list \<Rightarrow> input_event list" where
  "change_events codes cs =
     concat (map (\<lambda>c. [key_event (codes ! kc_lane c) (kc_down c), sync_event]) cs)"

lemma change_events_simps [simp]:
  "change_events codes [] = []"
  "change_events codes (c # cs) =
     key_event (codes ! kc_lane c) (kc_down c) # sync_event # change_events codes cs"
  "change_events codes (cs @ ds) = change_events codes cs @ change_events codes ds"
  "length (change_events codes cs) = 2 * length cs"
  by (simp_all add: change_events_def, induction cs, simp_all)

lemma encode_changes_result:
  "encode_changes codes cs =
    (if \<forall>c \<in> set cs. kc_lane c < length codes then Done (change_events codes cs) else Panic)"
  by (induction cs) auto

lemma take_change_events:
  "take (2 * q) (change_events codes cs) = change_events codes (take q cs)"
proof (induction cs arbitrary: q)
  case (Cons c cs)
  show ?case by (cases q) (simp_all add: Cons.IH)
qed simp

lemma take_change_events_odd:
  "q < length cs \<Longrightarrow> take (Suc (2 * q)) (change_events codes cs) =
     change_events codes (take q cs) @ [key_event (codes ! kc_lane (cs ! q)) (kc_down (cs ! q))]"
proof (induction cs arbitrary: q)
  case (Cons c cs)
  show ?case
  proof (cases q)
    case (Suc q')
    then show ?thesis using Cons.IH [of q'] Cons.prems by simp
  qed simp
qed simp

text \<open>Whether a key is down after the device took the events.\<close>

definition log_key :: "u16 \<Rightarrow> input_event list \<Rightarrow> bool" where
  "log_key code evs =
     foldl (\<lambda>b e. if ev_type e = EV_KEY \<and> ev_code e = code then ev_value e = 1 else b) False evs"

lemma log_key_append [simp]:
  "log_key code (evs @ [key_event code' down]) = (if code' = code then down else log_key code evs)"
  "log_key code (evs @ [sync_event]) = log_key code evs"
  by (simp_all add: log_key_def key_event_def sync_event_def)

lemma log_key_changes:
  assumes "distinct codes" and "\<forall>c \<in> set cs. kc_lane c < length codes" and "l < length codes"
    and "\<forall>l < length codes. log_key (codes ! l) evs = m l"
  shows "log_key (codes ! l) (evs @ change_events codes cs) = key_after m cs l"
  using assms(2,4)
proof (induction cs arbitrary: evs m)
  case Nil
  then show ?case using assms(3) by simp
next
  case (Cons c cs)
  let ?evs = "(evs @ [key_event (codes ! kc_lane c) (kc_down c)]) @ [sync_event]"
  have "\<forall>l < length codes. log_key (codes ! l) ?evs = (m(kc_lane c := kc_down c)) l"
    using Cons.prems assms(1) by (auto simp del: append_assoc simp: nth_eq_iff_index_eq)
  with Cons.IH [of ?evs "m(kc_lane c := kc_down c)"] Cons.prems show ?case
    by (simp add: key_after_Cons del: fun_upd_apply)
qed

lemma log_key_release:
  "log_key code (evs @ [key_event code' down, sync_event]) = (if code' = code then down else log_key code evs)"
  using log_key_append(2) [of code "evs @ [key_event code' down]"] by simp

definition synced :: "input_event list \<Rightarrow> bool" where
  "synced evs \<longleftrightarrow> evs = [] \<or> last evs = sync_event"

lemma synced_append:
  "synced (evs @ [sync_event])" "synced evs \<Longrightarrow> synced (evs @ change_events codes cs)"
  by (induction cs rule: rev_induct) (simp_all add: synced_def change_events_def)

lemma submit_events_obeys:
  assumes "os_obeys dv" and "submit_events evs dv = (dv', r)"
  shows "os_obeys dv'"
    and "r = Inl e \<Longrightarrow> taken dv' = taken dv"
    and "r = Inr k \<Longrightarrow> k \<le> length evs \<and> taken dv' = taken dv @ take k evs"
proof -
  obtain w where w: "os_write dv evs (os_now dv) = (w, r)" "dv' = dv\<lparr>os_now := w\<rparr>"
    using assms(2) by (auto simp: submit_events_def split: prod.splits)
  show "os_obeys dv'"
    and "r = Inl e \<Longrightarrow> taken dv' = taken dv"
    and "r = Inr k \<Longrightarrow> k \<le> length evs \<and> taken dv' = taken dv @ take k evs"
    using assms(1) w by (auto simp: os_obeys_def)
qed

section \<open>The uinput sink provides the interface\<close>

text \<open>
  The exactly-once accounting: the kernel has taken both events of every counted change, in
  order, and of a pending change the key event alone.
\<close>

definition uinput_accounts :: "'w uinput_sink \<Rightarrow> key_change list \<Rightarrow> bool" where
  "uinput_accounts s h \<longleftrightarrow> os_obeys (kernel s) \<and> pending_write s \<noteq> Some CleanupSync \<and>
     taken (kernel s) = change_events (keycodes s) h @
       (case pending_write s of
          Some (ChangePending c) \<Rightarrow> [key_event (keycodes s ! kc_lane c) (kc_down c)] | _ \<Rightarrow> [])"

fun uinput_shows :: "u16 list \<Rightarrow> pending_write option \<Rightarrow> input_event list \<Rightarrow> (nat \<Rightarrow> bool) \<Rightarrow> bool" where
  "uinput_shows codes None evs m \<longleftrightarrow>
     synced evs \<and> (\<forall>l < length codes. log_key (codes ! l) evs = m l)"
| "uinput_shows codes (Some CleanupSync) evs m \<longleftrightarrow> (\<forall>l < length codes. log_key (codes ! l) evs = m l)"
| "uinput_shows codes (Some (ChangePending c)) evs m \<longleftrightarrow> kc_lane c < length codes \<and>
     log_key (codes ! kc_lane c) evs = kc_down c \<and>
     (\<forall>l < length codes. l \<noteq> kc_lane c \<longrightarrow> log_key (codes ! l) evs = m l)"

definition uinput_related :: "'w uinput_sink \<Rightarrow> (nat \<Rightarrow> bool) \<Rightarrow> bool" where
  "uinput_related s m \<longleftrightarrow> os_obeys (kernel s) \<and> distinct (keycodes s) \<and>
     uinput_shows (keycodes s) (pending_write s) (taken (kernel s)) m"

text \<open>The four ways a submission of new changes can end.\<close>

lemma submit_remaining_cases:
  assumes ok: "os_obeys (kernel s)" and pend: "pending_write s = None"
    and lanes: "\<forall>c \<in> set cs. kc_lane c < length (keycodes s)"
    and run: "submit_remaining a cs s = (s', r)"
  obtains k evs where "keycodes s' = keycodes s" and "os_obeys (kernel s')" and "k \<le> length cs"
    and "taken (kernel s') = taken (kernel s) @ change_events (keycodes s) (take k cs) @ evs"
    and "pending_write s' = None \<and> evs = [] \<or>
      (k < length cs \<and> pending_write s' = Some (ChangePending (cs ! k)) \<and>
       evs = [key_event (keycodes s ! kc_lane (cs ! k)) (kc_down (cs ! k))])"
    and "r = Done (a + k) \<or> (\<exists>e. r = Fail e) \<and> k = 0 \<and> a = 0 \<and> pending_write s' = None"
proof (cases "cs = []")
  case True
  with run have "s' = s" "r = Done a" by (auto simp: submit_remaining_def)
  with ok pend True that [of 0 "[]"] show thesis by simp
next
  case False
  let ?evs = "change_events (keycodes s) cs"
  obtain dv w where w: "submit_events ?evs (kernel s) = (dv, w)" by fastforce
  note obeys = submit_events_obeys [OF ok w]
  let ?s = "s\<lparr>kernel := dv\<rparr>"
  have enc: "encode_changes (keycodes s) cs = Done ?evs" using lanes by (simp add: encode_changes_result)
  show thesis
  proof (cases w)
    case (Inl e)
    then have "s' = ?s" "r = (if a \<noteq> 0 then Done a else Fail e)"
      using run False enc w by (auto simp: submit_remaining_def Let_def split: if_splits)
    with obeys(1) obeys(2) [OF Inl] pend that [of 0 "[]"] show thesis by simp
  next
    case (Inr count)
    note taken = obeys(3) [OF Inr]
    show thesis
    proof (cases "count = 0")
      case True
      then have "s' = ?s" "r = (if a = 0 then Fail (io_err WriteZero) else Done a)"
        using run False enc w Inr by (auto simp: submit_remaining_def Let_def split: if_splits)
      with obeys(1) taken True pend that [of 0 "[]"] show thesis by simp
    next
      case nonzero: False
      let ?k = "count div 2"
      have r: "r = Done (a + ?k)" and s': "s' = ?s\<lparr>pending_write :=
          (if count mod 2 \<noteq> 0 then Some (ChangePending (cs ! ?k)) else pending_write ?s)\<rparr>"
        using run False enc w Inr nonzero taken by (auto simp: submit_remaining_def Let_def split: if_splits)
      show thesis
      proof (cases "count mod 2 = 0")
        case True
        then have "count = 2 * ?k" by presburger
        then have "take count ?evs = change_events (keycodes s) (take ?k cs)"
          by (metis take_change_events)
        moreover have "?k \<le> length cs" using taken div_le_mono [of count "2 * length cs" 2] by simp
        ultimately show thesis using taken True r s' obeys(1) pend that [of ?k "[]"] by simp
      next
        case odd: False
        then have c: "count = Suc (2 * ?k)" by presburger
        with taken have k: "?k < length cs" by simp
        then have "take count ?evs = change_events (keycodes s) (take ?k cs) @
            [key_event (keycodes s ! kc_lane (cs ! ?k)) (kc_down (cs ! ?k))]"
          using c take_change_events_odd [OF k, of "keycodes s"] by simp
        with taken odd r s' obeys(1) pend k that [of ?k
            "[key_event (keycodes s ! kc_lane (cs ! ?k)) (kc_down (cs ! ?k))]"] show thesis by simp
      qed
    qed
  qed
qed

text \<open>A submission first completes a pending transition, if there is one and it can.\<close>

lemma linux_submit_cases:
  assumes ok: "os_obeys (kernel s)" and run: "linux_submit cs s = (s', r)"
  obtains
    (refused) e where "r = Fail e" "keycodes s' = keycodes s" "pending_write s' = pending_write s"
      "os_obeys (kernel s')" "taken (kernel s') = taken (kernel s)"
  | (fresh) "pending_write s = None" "submit_remaining 0 cs s = (s', r)"
  | (resumed) p rest t where "pending_write s = Some (ChangePending p)" "cs = p # rest"
      "pending_write t = None" "keycodes t = keycodes s" "os_obeys (kernel t)"
      "taken (kernel t) = taken (kernel s) @ [sync_event]" "submit_remaining 1 rest t = (s', r)"
proof (cases "pending_write s")
  case None
  with run fresh show thesis by (simp add: linux_submit_def)
next
  case (Some pw)
  show thesis
  proof (cases pw)
    case CleanupSync
    with run Some refused [of "io_err OtherKind"] ok show thesis by (simp add: linux_submit_def)
  next
    case p: (ChangePending p)
    show thesis
    proof (cases "cs = [] \<or> hd cs \<noteq> p")
      case True
      with run Some p refused [of "io_err OtherKind"] ok show thesis by (simp add: linux_submit_def)
    next
      case False
      then obtain rest where cs: "cs = p # rest" by (cases cs) auto
      obtain dv w where w: "submit_events [sync_event] (kernel s) = (dv, w)" by fastforce
      note obeys = submit_events_obeys [OF ok w]
      let ?s = "s\<lparr>kernel := dv\<rparr>"
      show thesis
      proof (cases w)
        case (Inl e)
        then have "s' = ?s" "r = Fail e"
          using run Some p cs w by (auto simp: linux_submit_def Let_def)
        with obeys(1) obeys(2) [OF Inl] Some p refused [of e] show thesis by simp
      next
        case (Inr count)
        note taken = obeys(3) [OF Inr]
        show thesis
        proof (cases "count = 1")
          case True
          let ?t = "?s\<lparr>pending_write := None\<rparr>"
          have "submit_remaining 1 rest ?t = (s', r)"
            using run Some p cs w Inr True by (simp add: linux_submit_def Let_def)
          then show thesis using resumed [of p rest ?t] Some p cs obeys(1) taken True by simp
        next
          case False
          with taken have "count = 0" by (cases count) auto
          then have "s' = ?s" "r = Fail (io_err WriteZero)"
            using run Some p cs w Inr by (auto simp: linux_submit_def Let_def)
          with obeys(1) taken \<open>count = 0\<close> Some p refused [of "io_err WriteZero"] show thesis by simp
        qed
      qed
    qed
  qed
qed

text \<open>
  C15: the uinput sink counts a key transition exactly once, and only when the kernel has taken
  both its key event and the SYN_REPORT. However the kernel splits or refuses the writes: if the
  kernel has taken exactly the events of the transitions counted so far (plus the key event of a
  pending one), then after a submission the same holds with the reported number of transitions
  added, and an error adds none. The retry after a half write therefore never repeats a key event.
\<close>

theorem linux_submit_exactly_once:
  assumes acc: "uinput_accounts s h" and lanes: "\<forall>c \<in> set cs. kc_lane c < length (keycodes s)"
    and run: "linux_submit cs s = (s', r)"
  shows "\<exists>k \<le> length cs. uinput_accounts s' (h @ take k cs) \<and> (r = Done k \<or> (\<exists>e. r = Fail e) \<and> k = 0)"
proof -
  have ok: "os_obeys (kernel s)" using acc by (simp add: uinput_accounts_def)
  show ?thesis using ok run
  proof (cases rule: linux_submit_cases)
    case (refused e)
    with acc have "uinput_accounts s' h"
      by (simp add: uinput_accounts_def split: option.split pending_write.split)
    with refused(1) show ?thesis by (intro exI [of _ 0]) simp
  next
    case fresh
    from ok fresh(1) lanes fresh(2) show ?thesis
    proof (rule submit_remaining_cases)
      fix k evs
      assume "keycodes s' = keycodes s" "os_obeys (kernel s')" "k \<le> length cs"
        "taken (kernel s') = taken (kernel s) @ change_events (keycodes s) (take k cs) @ evs"
        "pending_write s' = None \<and> evs = [] \<or>
         (k < length cs \<and> pending_write s' = Some (ChangePending (cs ! k)) \<and>
          evs = [key_event (keycodes s ! kc_lane (cs ! k)) (kc_down (cs ! k))])"
        "r = Done (0 + k) \<or> (\<exists>e. r = Fail e) \<and> k = 0 \<and> (0::nat) = 0 \<and> pending_write s' = None"
      with acc fresh(1) show ?thesis
        by (intro exI [of _ k]) (auto simp: uinput_accounts_def)
    qed
  next
    case (resumed p rest t)
    have lanes': "\<forall>c \<in> set rest. kc_lane c < length (keycodes t)" using lanes resumed(2,4) by simp
    from resumed(5,3) lanes' resumed(7) show ?thesis
    proof (rule submit_remaining_cases)
      fix k evs
      assume "keycodes s' = keycodes t" "os_obeys (kernel s')" "k \<le> length rest"
        "taken (kernel s') = taken (kernel t) @ change_events (keycodes t) (take k rest) @ evs"
        "pending_write s' = None \<and> evs = [] \<or>
         (k < length rest \<and> pending_write s' = Some (ChangePending (rest ! k)) \<and>
          evs = [key_event (keycodes t ! kc_lane (rest ! k)) (kc_down (rest ! k))])"
        "r = Done (1 + k) \<or> (\<exists>e. r = Fail e) \<and> k = 0 \<and> (1::nat) = 0 \<and> pending_write s' = None"
      with acc resumed(1,2,4,6) show ?thesis
        by (intro exI [of _ "Suc k"]) (auto simp: uinput_accounts_def)
    qed
  qed
qed

text \<open>The same decomposition for the state of the keys.\<close>

lemma related_remaining:
  assumes ok: "os_obeys (kernel t)" and pend: "pending_write t = None"
    and codes: "distinct (keycodes t)" and sync: "synced (taken (kernel t))"
    and m: "\<forall>l < length (keycodes t). log_key (keycodes t ! l) (taken (kernel t)) = m l"
    and lanes: "\<forall>c \<in> set cs. kc_lane c < length (keycodes t)"
    and run: "submit_remaining a cs t = (s', r)"
  shows "\<exists>k \<le> length cs. uinput_related s' (key_after m (take k cs)) \<and> keycodes s' = keycodes t \<and>
    (r = Done (a + k) \<or> (\<exists>e. r = Fail e) \<and> k = 0 \<and> a = 0) \<and>
    (k = length cs \<longrightarrow> pending_write s' = None)"
  using ok pend lanes run
proof (rule submit_remaining_cases)
  fix k evs
  assume s': "keycodes s' = keycodes t" "os_obeys (kernel s')" and k: "k \<le> length cs"
    and log: "taken (kernel s') = taken (kernel t) @ change_events (keycodes t) (take k cs) @ evs"
    and half: "pending_write s' = None \<and> evs = [] \<or>
         (k < length cs \<and> pending_write s' = Some (ChangePending (cs ! k)) \<and>
          evs = [key_event (keycodes t ! kc_lane (cs ! k)) (kc_down (cs ! k))])"
    and r: "r = Done (a + k) \<or> (\<exists>e. r = Fail e) \<and> k = 0 \<and> a = 0 \<and> pending_write s' = None"
  let ?log = "taken (kernel t) @ change_events (keycodes t) (take k cs)"
  have "\<forall>c \<in> set (take k cs). kc_lane c < length (keycodes t)" using lanes by (meson in_set_takeD)
  then have down: "log_key (keycodes t ! l) ?log = key_after m (take k cs) l"
    if "l < length (keycodes t)" for l
    using log_key_changes [OF codes _ that m] by blast
  have sync': "synced ?log" by (rule synced_append(2) [OF sync])
  from half have "uinput_related s' (key_after m (take k cs))"
  proof
    assume "pending_write s' = None \<and> evs = []"
    with s' log down sync' codes show ?thesis by (simp add: uinput_related_def)
  next
    assume h: "k < length cs \<and> pending_write s' = Some (ChangePending (cs ! k)) \<and>
          evs = [key_event (keycodes t ! kc_lane (cs ! k)) (kc_down (cs ! k))]"
    then have lane: "kc_lane (cs ! k) < length (keycodes t)" using lanes by simp
    have "taken (kernel s') = ?log @ [key_event (keycodes t ! kc_lane (cs ! k)) (kc_down (cs ! k))]"
      using h log by simp
    with s' h down codes lane show ?thesis
      by (auto simp: uinput_related_def nth_eq_iff_index_eq simp del: append_assoc)
  qed
  moreover have "k = length cs \<longrightarrow> pending_write s' = None" using half by auto
  ultimately show ?thesis using k r s' by blast
qed

lemma related_submit:
  assumes rel: "uinput_related s m" and lanes: "\<forall>c \<in> set cs. kc_lane c < length (keycodes s)"
    and run: "linux_submit cs s = (s', r)"
  shows "\<exists>k \<le> length cs. uinput_related s' (key_after m (take k cs)) \<and> keycodes s' = keycodes s \<and>
    (r = Done k \<or> (\<exists>e. r = Fail e) \<and> k = 0) \<and> (r = Done (length cs) \<longrightarrow> pending_write s' = None)"
proof -
  have ok: "os_obeys (kernel s)" and codes: "distinct (keycodes s)"
    using rel by (auto simp: uinput_related_def)
  show ?thesis using ok run
  proof (cases rule: linux_submit_cases)
    case (refused e)
    with rel have "uinput_related s' m"
      by (simp add: uinput_related_def)
    with refused(1,2) show ?thesis by (intro exI [of _ 0]) simp
  next
    case fresh
    have "synced (taken (kernel s))"
      "\<forall>l < length (keycodes s). log_key (keycodes s ! l) (taken (kernel s)) = m l"
      using rel fresh(1) by (simp_all add: uinput_related_def)
    from related_remaining [OF ok fresh(1) codes this lanes fresh(2)] show ?thesis by auto
  next
    case (resumed p rest t)
    let ?m = "m(kc_lane p := kc_down p)"
    have lanes': "\<forall>c \<in> set rest. kc_lane c < length (keycodes t)" using lanes resumed(2,4) by simp
    have "\<forall>l < length (keycodes t). log_key (keycodes t ! l) (taken (kernel t)) = ?m l"
      using rel resumed(1,4,6) by (simp add: uinput_related_def)
    then have "\<exists>k \<le> length rest. uinput_related s' (key_after ?m (take k rest)) \<and>
        keycodes s' = keycodes t \<and> (r = Done (1 + k) \<or> (\<exists>e. r = Fail e) \<and> k = 0 \<and> (1::nat) = 0) \<and>
        (k = length rest \<longrightarrow> pending_write s' = None)"
      using resumed(4-7) codes lanes'
      by (intro related_remaining [OF resumed(5,3)]) (simp_all add: synced_append)
    then obtain k where "k \<le> length rest" "uinput_related s' (key_after ?m (take k rest))"
      "keycodes s' = keycodes t" "r = Done (1 + k)" "k = length rest \<longrightarrow> pending_write s' = None" by auto
    with resumed(2,4) show ?thesis
      by (intro exI [of _ "Suc k"]) (simp add: key_after_Cons del: fun_upd_apply)
  qed
qed

text \<open>What discarding submits for a half-written transition, and the keys it leaves.\<close>

definition cleanup_events :: "u16 list \<Rightarrow> pending_write \<Rightarrow> input_event list" where
  "cleanup_events codes pw = (case pw of
     ChangePending c \<Rightarrow> (if kc_down c then [key_event (codes ! kc_lane c) False] else []) @ [sync_event]
   | CleanupSync \<Rightarrow> [sync_event])"

definition cleaned_keys :: "pending_write \<Rightarrow> (nat \<Rightarrow> bool) \<Rightarrow> nat \<Rightarrow> bool" where
  "cleaned_keys pw m = (case pw of ChangePending c \<Rightarrow> m(kc_lane c := False) | CleanupSync \<Rightarrow> m)"

lemma cleanup_events_cases:
  "cleanup_events codes pw = [sync_event] \<or>
   (\<exists>c. pw = ChangePending c \<and> cleanup_events codes pw = [key_event (codes ! kc_lane c) False, sync_event])"
  by (auto simp: cleanup_events_def split: pending_write.split)

lemma cleaned_keys_subset: "cleaned_keys pw m l \<Longrightarrow> m l"
  by (auto simp: cleaned_keys_def split: pending_write.splits if_splits)

lemma linux_discard_pending:
  assumes rel: "uinput_related s m" and pw: "pending_write s = Some pw"
    and run: "linux_discard s = (s', r)"
  obtains (failed) dv e where "os_obeys dv" "taken dv = taken (kernel s)"
      "s' = s\<lparr>kernel := dv\<rparr>" "r = Fail e"
  | (cleaned) dv where "os_obeys dv" "taken dv = taken (kernel s) @ cleanup_events (keycodes s) pw"
      "s' = s\<lparr>kernel := dv, pending_write := None\<rparr>" "r = Done ()"
  | (half) dv c where "os_obeys dv" "pw = ChangePending c"
      "taken dv = taken (kernel s) @ [key_event (keycodes s ! kc_lane c) False]"
      "s' = s\<lparr>kernel := dv, pending_write := Some CleanupSync\<rparr>" "r = Fail (io_err OtherKind)"
proof -
  let ?evs = "cleanup_events (keycodes s) pw"
  obtain dv w where w: "submit_events ?evs (kernel s) = (dv, w)" by fastforce
  have "os_obeys (kernel s)" using rel by (simp add: uinput_related_def)
  note obeys = submit_events_obeys [OF this w]
  have lane: "pw = ChangePending c \<Longrightarrow> kc_lane c < length (keycodes s)" for c
    using rel pw by (simp add: uinput_related_def)
  show ?thesis
  proof (cases w)
    case (Inl e)
    with run pw w lane have "s' = s\<lparr>kernel := dv\<rparr> \<and> r = Fail e"
      by (cases pw) (auto simp: linux_discard_def cleanup_events_def Let_def split: if_splits)
    with obeys(1) obeys(2) [OF Inl] failed show ?thesis by blast
  next
    case (Inr count)
    note taken = obeys(3) [OF Inr]
    have eq: "(s', r) = (if count = 0 then (s\<lparr>kernel := dv\<rparr>, Fail (io_err WriteZero))
        else if count = length ?evs then (s\<lparr>kernel := dv, pending_write := None\<rparr>, Done ())
        else (s\<lparr>kernel := dv, pending_write := Some CleanupSync\<rparr>, Fail (io_err OtherKind)))"
      using run pw w Inr lane taken
      by (cases pw) (auto simp: linux_discard_def cleanup_events_def Let_def split: if_splits)
    consider "count = 0" | "count = length ?evs" "count \<noteq> 0" | "count = 1" "length ?evs = 2"
      using taken cleanup_events_cases [of "keycodes s" pw] by fastforce
    then show ?thesis
    proof cases
      case 1
      with eq obeys(1) taken failed show ?thesis by simp
    next
      case 2
      with eq obeys(1) taken cleaned show ?thesis by simp
    next
      case 3
      then obtain c where "pw = ChangePending c" "?evs = [key_event (keycodes s ! kc_lane c) False, sync_event]"
        using cleanup_events_cases [of "keycodes s" pw] by auto
      with 3 eq obeys(1) taken half show ?thesis by simp
    qed
  qed
qed

text \<open>
  Discarding a half-written transition never leaves a key down. When the sink's keys are
  \<open>m\<close>, then after \<open>discard_pending\<close>, successful or not, the device shows only keys that were in
  \<open>m\<close>; after a success nothing is pending, the events end in a SYN_REPORT and, if a transition was
  pending, its key is up.
\<close>

lemma linux_discard_releases:
  assumes rel: "uinput_related s m" and run: "linux_discard s = (s', r)"
  shows "\<exists>m'. uinput_related s' m' \<and> (\<forall>l < length (keycodes s). m' l \<longrightarrow> m l) \<and>
    keycodes s' = keycodes s \<and> r \<noteq> Panic \<and>
    (r = Done () \<longrightarrow> pending_write s' = None \<and> synced (taken (kernel s')) \<and>
      (case pending_write s of None \<Rightarrow> m' = m
       | Some (ChangePending c) \<Rightarrow> \<not> m' (kc_lane c) | Some CleanupSync \<Rightarrow> m' = m))"
proof (cases "pending_write s")
  case None
  with run rel show ?thesis
    by (intro exI [of _ m]) (auto simp: linux_discard_def Let_def uinput_related_def)
next
  case (Some pw)
  have codes: "distinct (keycodes s)" using rel by (simp add: uinput_related_def)
  from rel Some run show ?thesis
  proof (cases rule: linux_discard_pending)
    case (failed dv e)
    with rel show ?thesis by (intro exI [of _ m]) (simp add: uinput_related_def)
  next
    case (cleaned dv)
    have keys: "log_key (keycodes s ! l) (taken dv) = cleaned_keys pw m l" if "l < length (keycodes s)" for l
      using rel Some that log_key_release [of "keycodes s ! l"] cleaned(2)
      by (cases pw) (auto simp: uinput_related_def cleanup_events_def cleaned_keys_def nth_eq_iff_index_eq)
    have "synced (taken dv)"
      using cleanup_events_cases [of "keycodes s" pw] cleaned(2) by (auto simp: synced_def)
    with keys cleaned codes Some cleaned_keys_subset show ?thesis
      by (intro exI [of _ "cleaned_keys pw m"]) (cases pw; auto simp: uinput_related_def cleaned_keys_def)
  next
    case (half dv c)
    have "log_key (keycodes s ! l) (taken dv) = cleaned_keys pw m l" if "l < length (keycodes s)" for l
      using rel Some that half(2,3) by (auto simp: uinput_related_def cleaned_keys_def nth_eq_iff_index_eq)
    with half codes show ?thesis
      by (intro exI [of _ "cleaned_keys pw m"]) (auto simp: uinput_related_def dest: cleaned_keys_subset)
  qed
qed

lemma linux_submit_keycodes: "linux_submit cs s = (s', r) \<Longrightarrow> keycodes s' = keycodes s"
  by (auto simp: linux_submit_def submit_remaining_def Let_def
      split: option.splits pending_write.splits if_splits prod.splits sum.splits outcome.splits)

lemma linux_discard_keycodes: "linux_discard s = (s', r) \<Longrightarrow> keycodes s' = keycodes s"
  by (auto simp: linux_discard_def Let_def
      split: option.splits pending_write.splits if_splits prod.splits sum.splits)

definition linux_ops :: "'w uinput_sink key_ops" where
  "linux_ops = \<lparr>ko_submit = linux_submit, ko_discard = linux_discard, ko_pending = linux_pending\<rparr>"

lemma uinput_related_cong:
  assumes "uinput_related s m" and "\<forall>l < length (keycodes s). m l = m' l"
  shows "uinput_related s m'"
proof -
  have "uinput_shows (keycodes s) pend evs m \<Longrightarrow> uinput_shows (keycodes s) pend evs m'" for pend evs
    using assms(2) by (cases "(keycodes s, pend, evs, m)" rule: uinput_shows.cases) auto
  with assms(1) show ?thesis by (auto simp: uinput_related_def)
qed

lemma linux_discard_stuck: "ko_discard linux_ops d = (d', Fail e) \<Longrightarrow> ko_pending linux_ops d'"
  by (auto simp: linux_ops_def linux_pending_def linux_discard_def Let_def
      split: option.splits pending_write.splits prod.splits sum.splits if_splits)

interpretation linux_device: key_device linux_ops "\<lambda>s. length (keycodes s)" uinput_related
proof unfold_locales
  fix d :: "'a uinput_sink" and m m'
  show "uinput_related d m \<Longrightarrow> \<forall>l < length (keycodes d). m l = m' l \<Longrightarrow> uinput_related d m'"
    by (rule uinput_related_cong)
next
  fix d d' :: "'a uinput_sink" and cs r m k e
  show "ko_submit linux_ops cs d = (d', r) \<Longrightarrow> length (keycodes d') = length (keycodes d)"
    using linux_submit_keycodes [of cs d d' r] by (simp add: linux_ops_def)
  assume rel: "uinput_related d m"
  assume lanes: "\<forall>c \<in> set cs. kc_lane c < length (keycodes d)"
  show "snd (ko_submit linux_ops cs d) \<noteq> Panic"
    using related_submit [OF rel lanes, of "fst (linux_submit cs d)" "snd (linux_submit cs d)"]
    by (auto simp: linux_ops_def)
  show "ko_submit linux_ops cs d = (d', Done k) \<Longrightarrow>
      k \<le> length cs \<and> uinput_related d' (key_after m (take k cs))"
    using related_submit [OF rel lanes] by (fastforce simp: linux_ops_def)
  show "ko_submit linux_ops cs d = (d', Fail e) \<Longrightarrow> uinput_related d' m"
    using related_submit [OF rel lanes] by (fastforce simp: linux_ops_def)
  show "ko_submit linux_ops cs d = (d', Done (length cs)) \<Longrightarrow> \<not> ko_pending linux_ops d'"
    using related_submit [OF rel lanes, of d' "Done (length cs)"] by (auto simp: linux_ops_def linux_pending_def)
next
  fix d d' :: "'a uinput_sink" and r' :: "(io_error, unit) outcome" and m e
  show "ko_discard linux_ops d = (d', r') \<Longrightarrow> length (keycodes d') = length (keycodes d)"
    using linux_discard_keycodes [of d d' r'] by (simp add: linux_ops_def)
  assume rel: "uinput_related d m"
  show "snd (ko_discard linux_ops d) \<noteq> Panic"
    using linux_discard_releases [OF rel, of "fst (linux_discard d)" "snd (linux_discard d)"]
    by (auto simp: linux_ops_def)
  show "\<exists>m'. uinput_related d' m' \<and> (\<forall>l < length (keycodes d). m' l \<longrightarrow> m l) \<and>
      \<not> ko_pending linux_ops d' \<and> (\<not> ko_pending linux_ops d \<longrightarrow> m' = m)"
    if "ko_discard linux_ops d = (d', Done ())"
    using linux_discard_releases [OF rel, of d' "Done ()"] that
    by (fastforce simp: linux_ops_def linux_pending_def)
  show "\<exists>m'. uinput_related d' m' \<and> (\<forall>l < length (keycodes d). m' l \<longrightarrow> m l)"
    if "ko_discard linux_ops d = (d', Fail e)"
    using linux_discard_releases [OF rel, of d' "Fail e"] that by (fastforce simp: linux_ops_def)
next
  fix d d' :: "'a uinput_sink" and e
  show "ko_discard linux_ops d = (d', Fail e) \<Longrightarrow> ko_pending linux_ops d'"
    by (rule linux_discard_stuck)
qed

section \<open>The SendInput sink provides the interface\<close>

definition log_scan :: "u16 \<Rightarrow> key_input list \<Rightarrow> bool" where
  "log_scan code is = foldl (\<lambda>b i. if ki_scan i = code then \<not> ki_up i else b) False is"

definition change_inputs :: "u16 list \<Rightarrow> key_change list \<Rightarrow> key_input list" where
  "change_inputs codes cs = map (\<lambda>c. \<lparr>ki_scan = codes ! kc_lane c, ki_up = (\<not> kc_down c)\<rparr>) cs"

lemma key_inputs_result:
  "key_inputs codes cs =
    (if \<forall>c \<in> set cs. kc_lane c < length codes then Done (change_inputs codes cs) else Panic)"
  by (induction cs) (auto simp: change_inputs_def)

lemma log_scan_changes:
  assumes "distinct codes" and "\<forall>c \<in> set cs. kc_lane c < length codes" and "l < length codes"
    and "\<forall>l < length codes. log_scan (codes ! l) is = m l"
  shows "log_scan (codes ! l) (is @ change_inputs codes cs) = key_after m cs l"
  using assms(2,4)
proof (induction cs arbitrary: "is" m)
  case Nil
  then show ?case using assms(3) by (simp add: change_inputs_def)
next
  case (Cons c cs)
  let ?is = "is @ [\<lparr>ki_scan = codes ! kc_lane c, ki_up = (\<not> kc_down c)\<rparr>]"
  have "\<forall>l < length codes. log_scan (codes ! l) ?is = (m(kc_lane c := kc_down c)) l"
    using Cons.prems assms(1) by (auto simp: log_scan_def nth_eq_iff_index_eq)
  with Cons.IH [of ?is "m(kc_lane c := kc_down c)"] Cons.prems show ?case
    by (simp add: key_after_Cons change_inputs_def del: fun_upd_apply)
qed

definition send_related :: "'w send_input_sink \<Rightarrow> (nat \<Rightarrow> bool) \<Rightarrow> bool" where
  "send_related s m \<longleftrightarrow> os_obeys (desktop s) \<and> distinct (scan_codes s) \<and>
     (\<forall>l < length (scan_codes s). log_scan (scan_codes s ! l) (taken (desktop s)) = m l)"

lemma windows_submit_codes: "windows_submit e cs s = (s', r) \<Longrightarrow> scan_codes s' = scan_codes s"
  by (auto simp: windows_submit_def Let_def split: if_splits prod.splits sum.splits outcome.splits)

lemma send_submit:
  assumes rel: "send_related s m" and lanes: "\<forall>c \<in> set cs. kc_lane c < length (scan_codes s)"
    and run: "windows_submit err cs s = (s', r)"
  shows "\<exists>k \<le> length cs. send_related s' (key_after m (take k cs)) \<and>
    (r = Done k \<or> (\<exists>e. r = Fail e) \<and> k = 0)"
proof (cases "cs = [] \<or> 4294967296 \<le> length cs")
  case True
  with run lanes have "s' = s" "r = Done 0 \<or> (\<exists>e. r = Fail e)"
    by (auto simp: windows_submit_def key_inputs_result change_inputs_def split: if_splits)
  with rel show ?thesis by (intro exI [of _ 0]) auto
next
  case False
  let ?is = "change_inputs (scan_codes s) cs"
  have ok: "os_obeys (desktop s)" and codes: "distinct (scan_codes s)"
    using rel by (auto simp: send_related_def)
  obtain dv w where w: "submit_events ?is (desktop s) = (dv, w)" by fastforce
  note obeys = submit_events_obeys [OF ok w]
  have eq: "(s', r) = (case w of Inl e \<Rightarrow> (s\<lparr>desktop := dv\<rparr>, Fail e)
      | Inr a \<Rightarrow> if a = 0 then (s\<lparr>desktop := dv\<rparr>, Fail err) else (s\<lparr>desktop := dv\<rparr>, Done a))"
    using run False lanes w
    by (simp add: windows_submit_def key_inputs_result change_inputs_def Let_def split: sum.splits if_splits)
  show ?thesis
  proof (cases w)
    case (Inl e)
    with eq obeys(1) obeys(2) [OF Inl] rel show ?thesis
      by (intro exI [of _ 0]) (simp add: send_related_def)
  next
    case (Inr a)
    have a: "a \<le> length cs" and log: "taken dv = taken (desktop s) @ change_inputs (scan_codes s) (take a cs)"
      using obeys(3) [OF Inr] by (simp_all add: change_inputs_def take_map)
    have "\<forall>c \<in> set (take a cs). kc_lane c < length (scan_codes s)" using lanes by (meson in_set_takeD)
    then have "log_scan (scan_codes s ! l) (taken dv) = key_after m (take a cs) l"
      if "l < length (scan_codes s)" for l
      unfolding log using log_scan_changes [OF codes _ that] rel by (simp add: send_related_def)
    then show ?thesis
      using eq Inr a obeys(1) codes
      by (intro exI [of _ a]) (auto simp: send_related_def split: if_splits)
  qed
qed

definition windows_ops :: "io_error \<Rightarrow> 'w send_input_sink key_ops" where
  "windows_ops err = \<lparr>ko_submit = windows_submit err, ko_discard = (\<lambda>s. (s, Done ())),
     ko_pending = (\<lambda>_. False)\<rparr>"

interpretation windows_device: key_device "windows_ops err" "\<lambda>s. length (scan_codes s)" send_related
proof unfold_locales
  fix d d' :: "'a send_input_sink" and cs r m k e
  show "ko_submit (windows_ops err) cs d = (d', r) \<Longrightarrow> length (scan_codes d') = length (scan_codes d)"
    using windows_submit_codes [of err cs d d' r] by (simp add: windows_ops_def)
  assume rel: "send_related d m"
  assume lanes: "\<forall>c \<in> set cs. kc_lane c < length (scan_codes d)"
  show "snd (ko_submit (windows_ops err) cs d) \<noteq> Panic"
    using send_submit [OF rel lanes, of err "fst (windows_submit err cs d)" "snd (windows_submit err cs d)"]
    by (auto simp: windows_ops_def)
  show "ko_submit (windows_ops err) cs d = (d', Done k) \<Longrightarrow>
      k \<le> length cs \<and> send_related d' (key_after m (take k cs))"
    using send_submit [OF rel lanes] by (fastforce simp: windows_ops_def)
  show "ko_submit (windows_ops err) cs d = (d', Fail e) \<Longrightarrow> send_related d' m"
    using send_submit [OF rel lanes] by (fastforce simp: windows_ops_def)
qed (auto simp: windows_ops_def send_related_def)

section \<open>Distinct lanes press distinct keys\<close>

lemma validate_keys_Done:
  "validate_keys seen ks = Done () \<longleftrightarrow>
    distinct (map (map to_ascii_uppercase) ks) \<and> map to_ascii_uppercase ` set ks \<inter> seen = {}"
  by (induction ks arbitrary: seen) (auto simp: Let_def)

lemma linux_keycode_Done:
  "linux_keycode key = Done code \<Longrightarrow>
    \<exists>c. map to_ascii_uppercase key = [c] \<and> (c, code) \<in> set linux_keycode_table"
  by (auto simp: linux_keycode_def split: list.splits if_splits option.splits dest!: map_of_SomeD)

lemma linux_table_inj:
  "(c, k) \<in> set linux_keycode_table \<Longrightarrow> (d, k) \<in> set linux_keycode_table \<Longrightarrow> c = d"
proof -
  have "distinct (map snd linux_keycode_table)" by code_simp
  then show "(c, k) \<in> set linux_keycode_table \<Longrightarrow> (d, k) \<in> set linux_keycode_table \<Longrightarrow> c = d"
    by (force simp: distinct_map inj_on_def)
qed

lemma linux_keycodes_Done:
  "linux_keycodes ks = Done codes \<Longrightarrow>
    length codes = length ks \<and> (\<forall>i < length ks. linux_keycode (ks ! i) = Done (codes ! i))"
  by (induction ks arbitrary: codes) (auto simp: and_then_Done nth_Cons split: nat.split)

text \<open>
  The lane keys that pass \<open>validate_lane_keys\<close> and have keycodes have pairwise distinct
  keycodes, one per lane: no two lanes share a physical key, however the keys are written.
\<close>

theorem lane_keys_distinct:
  assumes "validate_lane_keys keys = Done ()" and "linux_keycodes keys = Done codes"
  shows "distinct codes \<and> length codes = length keys"
proof -
  note codes_ok = linux_keycodes_Done [OF assms(2)]
  have names: "distinct (map (map to_ascii_uppercase) keys)"
    using assms(1) by (simp add: validate_lane_keys_def validate_keys_Done)
  have inj: "i = j" if "i < length codes" "j < length codes" "codes ! i = codes ! j" for i j
  proof -
    have key: "\<exists>c. map to_ascii_uppercase (keys ! i) = [c] \<and> (c, codes ! i) \<in> set linux_keycode_table"
      if "i < length codes" for i
      by (rule linux_keycode_Done) (use codes_ok that in simp)
    obtain c where c: "map to_ascii_uppercase (keys ! i) = [c]" "(c, codes ! i) \<in> set linux_keycode_table"
      using key [OF \<open>i < length codes\<close>] by (elim exE conjE)
    obtain d where d: "map to_ascii_uppercase (keys ! j) = [d]" "(d, codes ! j) \<in> set linux_keycode_table"
      using key [OF \<open>j < length codes\<close>] by (elim exE conjE)
    have "c = d" by (rule linux_table_inj [of c "codes ! i" d]) (use c(2) d(2) that(3) in simp_all)
    then have "map to_ascii_uppercase (keys ! i) = map to_ascii_uppercase (keys ! j)" using c(1) d(1) by simp
    moreover have "i < length keys" "j < length keys" using codes_ok that(1,2) by simp_all
    ultimately show ?thesis using nth_eq_iff_index_eq [OF names, of i j] by simp
  qed
  then show ?thesis using codes_ok by (auto simp: distinct_conv_nth)
qed

theorem lane_keys_distinct_witness:
  "distinct [30 :: u16, 31, 32] \<and> linux_keycodes [[65], [115], [68]] = Done [30, 31, 32]"
proof -
  have v: "validate_lane_keys [[65], [115], [68]] = Done ()" by code_simp
  have k: "linux_keycodes [[65], [115], [68]] = Done [30, 31, 32]" by code_simp
  from lane_keys_distinct [OF v k] k show ?thesis by blast
qed

section \<open>Examples\<close>

text \<open>A kernel that takes as many events as its script says, and then all of them.\<close>

definition sample_write ::
  "'e list \<Rightarrow> 'e list \<times> nat list \<Rightarrow> ('e list \<times> nat list) \<times> (io_error + nat)" where
  "sample_write evs w = (case w of (lg, script) \<Rightarrow>
     (case script of [] \<Rightarrow> ((lg @ evs, []), Inr (length evs))
      | n # ns \<Rightarrow> ((lg @ take n evs, ns), Inr (min n (length evs)))))"

definition sample_os :: "'e list \<Rightarrow> nat list \<Rightarrow> ('e list \<times> nat list, 'e) os_device" where
  "sample_os lg script = \<lparr>os_now = (lg, script), os_write = sample_write, os_log = fst\<rparr>"

lemma sample_os_obeys: "os_obeys (sample_os lg script)"
proof -
  have "min n (length evs) = length evs \<or> min n (length evs) = n" for n and evs :: "'e list" by linarith
  then show ?thesis
    by (auto simp: os_obeys_def sample_os_def sample_write_def min_def split: prod.splits list.splits)
qed

definition sample_uinput :: "input_event list \<Rightarrow> pending_write option \<Rightarrow> nat list \<Rightarrow>
    (input_event list \<times> nat list) uinput_sink" where
  "sample_uinput lg p script =
    \<lparr>keycodes = [30, 31, 32, 33], pending_write = p, kernel = sample_os lg script\<rparr>"

theorem linux_submit_exactly_once_witness:
  "\<exists>k \<le> 2. uinput_accounts (fst (linux_submit [key_edge 2 True True, key_edge 1 True True]
     (sample_uinput [] None [3]))) (take k [key_edge 2 True True, key_edge 1 True True])"
proof -
  let ?s = "sample_uinput [] None [3]"
  have "uinput_accounts ?s []"
    by (simp add: uinput_accounts_def sample_uinput_def sample_os_obeys) (simp add: sample_os_def)
  moreover have "\<forall>c \<in> set [key_edge 2 True True, key_edge 1 True True]. kc_lane c < length (keycodes ?s)"
    by (simp add: sample_uinput_def)
  ultimately have "\<exists>k \<le> length [key_edge 2 True True, key_edge 1 True True].
      uinput_accounts (fst (linux_submit [key_edge 2 True True, key_edge 1 True True] ?s))
        ([] @ take k [key_edge 2 True True, key_edge 1 True True])"
    using linux_submit_exactly_once [of ?s "[]" _ "fst (linux_submit [key_edge 2 True True, key_edge 1 True True] ?s)"
        "snd (linux_submit [key_edge 2 True True, key_edge 1 True True] ?s)"] by (metis prod.collapse)
  then show ?thesis by (simp add: numeral_2_eq_2)
qed

lemma linux_discard_releases_witness:
  "snd (linux_discard (sample_uinput [key_event 32 True] (Some (ChangePending (key_edge 2 True True))) []))
     \<noteq> Panic"
proof -
  let ?s = "sample_uinput [key_event 32 True] (Some (ChangePending (key_edge 2 True True))) []"
  have keys: "log_key c [key_event 32 True] = (c = 32)" for c
    using log_key_append(1) [of c "[]" 32 True] by (simp add: log_key_def)
  have "uinput_related ?s (\<lambda>_. False)"
    by (simp add: uinput_related_def sample_uinput_def sample_os_obeys)
      (auto simp: sample_os_def keys nth_Cons split: nat.splits)
  from linux_discard_releases [OF this, of "fst (linux_discard ?s)" "snd (linux_discard ?s)"]
  show ?thesis by auto
qed

end
