(* ===== verification/Repress_Spacer.thy ===== *)
theory Repress_Spacer
  imports Key_Sinks
begin

text \<open>
  The re-press spacer of \<open>keyboard/mod.rs\<close>: a queue of scheduled key edges with due times, the
  selection of the edges that may be submitted now, and the bookkeeping after a full or partial
  submission. Shown here: the waiting edges of a lane alternate and are at most three, the key a
  lane will end up with is always the last one asked for, a re-press never reaches the OS less
  than \<open>gap\<close> after the lane's previous edge, releases do not overtake waiting presses, and a flush
  at a due time makes progress.

  The scratch vectors \<open>batch\<close>, \<open>selected\<close>, \<open>lane_selected\<close> and \<open>lane_waiting\<close> are cleared at the
  start of every flush, so they are local values here. Lanes are below the number of lanes, as the
  planner guarantees, so the indexing by lane is in range.
\<close>

section \<open>State\<close>

record scheduled_edge =
  se_change :: key_change
  se_due :: instant
  se_spaced :: bool

record emitted_edge =
  ee_at :: instant
  ee_spaced :: bool
  ee_touch :: bool

record spacer =
  sp_gap :: duration
  sp_queue :: "scheduled_edge list"
  last_emitted :: "emitted_edge option list"

abbreviation se_lane :: "scheduled_edge \<Rightarrow> nat" where "se_lane e \<equiv> kc_lane (se_change e)"
abbreviation se_down :: "scheduled_edge \<Rightarrow> bool" where "se_down e \<equiv> kc_down (se_change e)"
abbreviation se_touch :: "scheduled_edge \<Rightarrow> bool" where "se_touch e \<equiv> kc_touch (se_change e)"

abbreviation (input) MAX_WAITING_EDGES :: nat where "MAX_WAITING_EDGES \<equiv> 3"

definition spacer_new :: "nat \<Rightarrow> duration \<Rightarrow> spacer" where
  "spacer_new lanes gap = \<lparr>sp_gap = gap, sp_queue = [], last_emitted = replicate lanes None\<rparr>"

definition needs_gap :: "bool \<Rightarrow> bool \<Rightarrow> key_change \<Rightarrow> bool" where
  "needs_gap previous_spaced previous_touch nxt \<longleftrightarrow> kc_down nxt \<or> previous_spaced \<or> previous_touch"

section \<open>Operations\<close>

text \<open>The scan of the queue: how many edges of the lane wait, and the index of the last one.\<close>

fun scan_lane :: "nat \<Rightarrow> nat \<Rightarrow> scheduled_edge list \<Rightarrow> nat \<times> nat option \<Rightarrow> nat \<times> nat option" where
  "scan_lane l i [] acc = acc"
| "scan_lane l i (e # es) (waiting, newest) =
    scan_lane l (i + 1) es (if se_lane e = l then (waiting + 1, Some i) else (waiting, newest))"

definition remove_at :: "nat \<Rightarrow> 'a list \<Rightarrow> 'a list" where
  "remove_at i xs = take i xs @ drop (i + 1) xs"

definition enqueue :: "spacer \<Rightarrow> key_change \<Rightarrow> instant \<Rightarrow> bool \<Rightarrow> spacer" where
  "enqueue sp change now os_pressed =
    (let l = kc_lane change; q = sp_queue sp; gap = sp_gap sp;
         (waiting, newest) = scan_lane l 0 q (0, None);
         scheduled_down = (case newest of None \<Rightarrow> os_pressed | Some i \<Rightarrow> se_down (q ! i))
     in if scheduled_down = kc_down change then sp
        else case newest of
          Some i \<Rightarrow>
            if waiting \<ge> MAX_WAITING_EDGES then sp\<lparr>sp_queue := remove_at i q\<rparr>
            else let previous = q ! i;
                     (due, spaced) =
                       (if needs_gap (se_spaced previous) (se_touch previous) change
                        then (max (se_due previous + gap) now, True)
                        else (max (se_due previous) now, False))
                 in sp\<lparr>sp_queue := q @ [\<lparr>se_change = change, se_due = due, se_spaced = spaced\<rparr>]\<rparr>
        | None \<Rightarrow>
            let (due, spaced) =
                  (case last_emitted sp ! l of
                     Some previous \<Rightarrow>
                       if needs_gap (ee_spaced previous) (ee_touch previous) change \<and>
                          now < ee_at previous + gap
                       then (ee_at previous + gap, True) else (now, False)
                   | None \<Rightarrow> (now, False))
            in sp\<lparr>sp_queue := q @ [\<lparr>se_change = change, se_due = due, se_spaced = spaced\<rparr>]\<rparr>)"

text \<open>The selection loop of \<open>flush\<close>: the indices of the edges to submit now.\<close>

fun select_ready ::
  "instant \<Rightarrow> nat \<Rightarrow> scheduled_edge list \<Rightarrow> nat set \<Rightarrow> nat set \<Rightarrow> bool \<Rightarrow> nat list" where
  "select_ready now i [] lane_selected lane_waiting press_waiting = []"
| "select_ready now i (e # es) lane_selected lane_waiting press_waiting =
    (let l = se_lane e;
         ready = (se_due e \<le> now \<and> l \<notin> lane_waiting \<and> \<not> (se_spaced e \<and> l \<in> lane_selected) \<and>
                  (se_down e \<or> \<not> press_waiting))
     in if ready then i # select_ready now (i + 1) es (insert l lane_selected) lane_waiting press_waiting
        else select_ready now (i + 1) es lane_selected (insert l lane_waiting)
               (press_waiting \<or> se_down e))"

text \<open>The closure of \<open>queue.retain\<close>, with its position and the selected indices not yet met.\<close>

fun retain_unselected :: "nat \<Rightarrow> nat list \<Rightarrow> 'a list \<Rightarrow> 'a list" where
  "retain_unselected pos sel [] = []"
| "retain_unselected pos sel (e # es) =
    (case sel of
       i # is \<Rightarrow> if i = pos then retain_unselected (pos + 1) is es
                else e # retain_unselected (pos + 1) sel es
     | [] \<Rightarrow> e # retain_unselected (pos + 1) [] es)"

text \<open>\<open>pressed\<close> and \<open>last_emitted\<close> follow the accepted edges.\<close>

definition note_emitted ::
  "instant \<Rightarrow> scheduled_edge \<Rightarrow> bool list \<times> emitted_edge option list \<Rightarrow>
   bool list \<times> emitted_edge option list" where
  "note_emitted now e s = (case s of (pressed, le) \<Rightarrow>
     (pressed[se_lane e := se_down e],
      le[se_lane e := Some \<lparr>ee_at = now, ee_spaced = se_spaced e, ee_touch = se_touch e\<rparr>]))"

text \<open>A spaced edge whose lane was just emitted waits a whole gap from now.\<close>

definition restart_gap :: "instant \<Rightarrow> duration \<Rightarrow> emitted_edge option list \<Rightarrow> scheduled_edge \<Rightarrow> scheduled_edge" where
  "restart_gap now gap le e =
    (if se_spaced e \<and> (case le ! se_lane e of None \<Rightarrow> False | Some previous \<Rightarrow> ee_at previous = now)
     then e\<lparr>se_due := max (se_due e) (now + gap)\<rparr> else e)"

definition after_submission ::
  "instant \<Rightarrow> spacer \<Rightarrow> bool list \<Rightarrow> nat list \<Rightarrow> spacer \<times> bool list" where
  "after_submission now sp pressed taken_indices =
    (let (pressed', le) = fold (note_emitted now) (map ((!) (sp_queue sp)) taken_indices)
                            (pressed, last_emitted sp);
         q = retain_unselected 0 taken_indices (sp_queue sp)
     in (sp\<lparr>sp_queue := map (restart_gap now (sp_gap sp) le) q, last_emitted := le\<rparr>, pressed'))"

definition spacer_flush ::
  "'d key_ops \<Rightarrow> instant \<Rightarrow> spacer \<Rightarrow> 'd \<Rightarrow> bool list \<Rightarrow>
   spacer \<times> 'd \<times> bool list \<times> (io_error, unit) outcome" where
  "spacer_flush ops now sp d pressed =
    (if sp_queue sp = [] then (sp, d, pressed, Done ()) else
     let selected = select_ready now 0 (sp_queue sp) {} {} False;
         batch = map (\<lambda>i. se_change (sp_queue sp ! i)) selected
     in if batch = [] then (sp, d, pressed, Done ()) else
     case ko_submit ops batch d of
       (d', Panic) \<Rightarrow> (sp, d', pressed, Panic)
     | (d', Fail e) \<Rightarrow> (sp, d', pressed, Fail e)
     | (d', Done accepted) \<Rightarrow>
         if accepted > length batch then (sp, d', pressed, Fail (io_err InvalidData))
         else let (sp', pressed') = after_submission now sp pressed (take accepted selected)
              in (sp', d', pressed',
                  if accepted \<noteq> length batch then Fail (io_err OtherKind) else Done ()))"

definition spacer_next_deadline :: "spacer \<Rightarrow> instant \<Rightarrow> instant option" where
  "spacer_next_deadline sp now =
    (if sp_queue sp = [] then None
     else Some (case filter (\<lambda>due. due > now) (map se_due (sp_queue sp)) of
                  [] \<Rightarrow> now | d # ds \<Rightarrow> fold min ds d))"

definition note_release :: "spacer \<Rightarrow> nat \<Rightarrow> instant \<Rightarrow> spacer" where
  "note_release sp l now = sp\<lparr>last_emitted :=
     (last_emitted sp)[l := Some \<lparr>ee_at = now, ee_spaced = False, ee_touch = False\<rparr>]\<rparr>"

section \<open>The queue of one lane\<close>

definition lane_q :: "nat \<Rightarrow> scheduled_edge list \<Rightarrow> scheduled_edge list" where
  "lane_q l q = filter (\<lambda>e. se_lane e = l) q"

text \<open>The state the lane is in after its waiting edges.\<close>

definition lane_target :: "(nat \<Rightarrow> bool) \<Rightarrow> scheduled_edge list \<Rightarrow> nat \<Rightarrow> bool" where
  "lane_target m q l = (if lane_q l q = [] then m l else se_down (last (lane_q l q)))"

lemma lane_q_simps [simp]:
  "lane_q l [] = []"
  "lane_q l (e # q) = (if se_lane e = l then e # lane_q l q else lane_q l q)"
  "lane_q l (q @ r) = lane_q l q @ lane_q l r"
  by (simp_all add: lane_q_def)

lemma lane_q_member: "e \<in> set (lane_q l q) \<longleftrightarrow> e \<in> set q \<and> se_lane e = l"
  by (auto simp: lane_q_def)

lemma lane_q_split_last:
  assumes "lane_q l q \<noteq> []"
  shows "\<exists>xs e ys. q = xs @ e # ys \<and> se_lane e = l \<and> lane_q l ys = [] \<and> last (lane_q l q) = e"
  using assms
proof (induction q rule: rev_induct)
  case (snoc e q)
  show ?case
  proof (cases "se_lane e = l")
    case True
    then show ?thesis by (intro exI [of _ q] exI [of _ e] exI [of _ "[]"]) simp
  next
    case False
    with snoc obtain xs d ys where "q = xs @ d # ys \<and> se_lane d = l \<and> lane_q l ys = [] \<and> last (lane_q l q) = d"
      by auto
    with False show ?thesis by (intro exI [of _ xs] exI [of _ d] exI [of _ "ys @ [e]"]) simp
  qed
qed simp

lemma scan_lane_none: "lane_q l q = [] \<Longrightarrow> scan_lane l i q acc = acc"
  by (induction q arbitrary: i acc) (auto split: if_splits)

lemma scan_lane_append:
  "scan_lane l i (xs @ ys) acc = scan_lane l (i + length xs) ys (scan_lane l i xs acc)"
  by (induction xs arbitrary: i acc) (auto split: prod.split)

lemma scan_lane_count: "fst (scan_lane l i q acc) = fst acc + length (lane_q l q)"
  by (induction q arbitrary: i acc) (auto split: if_splits)

lemma scan_lane_last:
  assumes "lane_q l ys = []" and "se_lane e = l"
  shows "scan_lane l 0 (xs @ e # ys) acc =
    (fst acc + length (lane_q l xs) + 1, Some (length xs))"
proof -
  obtain w x where s: "scan_lane l 0 xs acc = (w, x)" by fastforce
  then have "w = fst acc + length (lane_q l xs)" using scan_lane_count [of l 0 xs acc] by simp
  with s assms show ?thesis by (simp add: scan_lane_append scan_lane_none)
qed

text \<open>\<open>enqueue\<close> in terms of the lane's waiting edges.\<close>

lemma enqueue_cases [consumes 1, case_names same cancel follow first]:
  assumes "l = kc_lane c"
  obtains (same) "lane_target m (sp_queue sp) l = kc_down c" "enqueue sp c now (m l) = sp"
  | (cancel) xs e ys where "lane_target m (sp_queue sp) l \<noteq> kc_down c"
      "sp_queue sp = xs @ e # ys" "se_lane e = l" "lane_q l ys = []"
      "3 \<le> length (lane_q l (sp_queue sp))" "enqueue sp c now (m l) = sp\<lparr>sp_queue := xs @ ys\<rparr>"
  | (follow) e where "lane_target m (sp_queue sp) l \<noteq> kc_down c" "lane_q l (sp_queue sp) \<noteq> []"
      "length (lane_q l (sp_queue sp)) < 3"
      "se_change e = c" "enqueue sp c now (m l) = sp\<lparr>sp_queue := sp_queue sp @ [e]\<rparr>"
      "let p = last (lane_q l (sp_queue sp)) in
         needs_gap (se_spaced p) (se_touch p) c \<longrightarrow> se_spaced e"
  | (first) e where "lane_target m (sp_queue sp) l \<noteq> kc_down c" "lane_q l (sp_queue sp) = []"
      "se_change e = c" "enqueue sp c now (m l) = sp\<lparr>sp_queue := sp_queue sp @ [e]\<rparr>"
      "\<forall>p. last_emitted sp ! l = Some p \<longrightarrow> needs_gap (ee_spaced p) (ee_touch p) c \<longrightarrow>
         ee_at p + sp_gap sp \<le> se_due e"
proof (cases "lane_q l (sp_queue sp) = []")
  case True
  then have scan: "scan_lane l 0 (sp_queue sp) (0, None) = (0, None)" by (simp add: scan_lane_none)
  show thesis
  proof (cases "m l = kc_down c")
    case eq: True
    then show thesis using same True scan assms by (simp add: lane_target_def enqueue_def Let_def)
  next
    case ne: False
    let ?e = "\<lambda>due spaced. \<lparr>se_change = c, se_due = due, se_spaced = spaced\<rparr>"
    have "\<exists>e. enqueue sp c now (m l) = sp\<lparr>sp_queue := sp_queue sp @ [e]\<rparr> \<and> se_change e = c \<and>
        (\<forall>p. last_emitted sp ! l = Some p \<longrightarrow> needs_gap (ee_spaced p) (ee_touch p) c \<longrightarrow>
           ee_at p + sp_gap sp \<le> se_due e)"
    proof (cases "last_emitted sp ! l")
      case None
      then show ?thesis using ne scan assms
        by (intro exI [of _ "?e now False"]) (simp add: enqueue_def Let_def)
    next
      case (Some p)
      show ?thesis
      proof (cases "needs_gap (ee_spaced p) (ee_touch p) c \<and> now < ee_at p + sp_gap sp")
        case True
        then show ?thesis using ne scan assms Some
          by (intro exI [of _ "?e (ee_at p + sp_gap sp) True"]) (simp add: enqueue_def Let_def)
      next
        case False
        then show ?thesis using ne scan assms Some
          by (intro exI [of _ "?e now False"]) (auto simp: enqueue_def Let_def)
      qed
    qed
    then show thesis using first True ne by (auto simp: lane_target_def)
  qed
next
  case False
  obtain xs e ys where q: "sp_queue sp = xs @ e # ys" "se_lane e = l" "lane_q l ys = []"
    "last (lane_q l (sp_queue sp)) = e"
    using lane_q_split_last [OF False] by blast
  have scan: "scan_lane l 0 (sp_queue sp) (0, None) = (length (lane_q l (sp_queue sp)), Some (length xs))"
    using scan_lane_last [OF q(3,2), of xs "(0, None)"] q by simp
  have at: "sp_queue sp ! length xs = e" by (simp add: q(1))
  have target: "lane_target m (sp_queue sp) l = se_down e" using False q(4) by (simp add: lane_target_def)
  show thesis
  proof (cases "se_down e = kc_down c")
    case True
    then show thesis using same target scan at assms by (simp add: enqueue_def Let_def)
  next
    case ne: False
    show thesis
    proof (cases "3 \<le> length (lane_q l (sp_queue sp))")
      case True
      have "remove_at (length xs) (sp_queue sp) = xs @ ys" by (simp add: remove_at_def q(1))
      then have "enqueue sp c now (m l) = sp\<lparr>sp_queue := xs @ ys\<rparr>"
        using scan at assms ne True by (simp add: enqueue_def Let_def)
      then show thesis using cancel [of xs e ys] ne True target q by simp
    next
      case short: False
      let ?ng = "needs_gap (se_spaced e) (se_touch e) c"
      let ?e = "\<lparr>se_change = c, se_due = (if ?ng then max (se_due e + sp_gap sp) now else max (se_due e) now),
        se_spaced = ?ng\<rparr>"
      have "enqueue sp c now (m l) = sp\<lparr>sp_queue := sp_queue sp @ [?e]\<rparr>"
        using scan at assms ne short by (simp add: enqueue_def Let_def)
      then show thesis using follow [of ?e] ne False short target q(4) by simp
    qed
  qed
qed

section \<open>The invariant of the queue\<close>

fun alternates :: "bool \<Rightarrow> scheduled_edge list \<Rightarrow> bool" where
  "alternates b [] \<longleftrightarrow> True"
| "alternates b (e # es) \<longleftrightarrow> se_down e = (\<not> b) \<and> alternates (se_down e) es"

fun gap_chain :: "scheduled_edge list \<Rightarrow> bool" where
  "gap_chain (d # e # es) \<longleftrightarrow>
     (needs_gap (se_spaced d) (se_touch d) (se_change e) \<longrightarrow> se_spaced e) \<and> gap_chain (e # es)"
| "gap_chain es \<longleftrightarrow> True"

definition first_waits :: "duration \<Rightarrow> emitted_edge option \<Rightarrow> scheduled_edge list \<Rightarrow> bool" where
  "first_waits gap le es \<longleftrightarrow> (\<forall>e p. es \<noteq> [] \<and> hd es = e \<and> le = Some p \<and>
     needs_gap (ee_spaced p) (ee_touch p) (se_change e) \<longrightarrow> ee_at p + gap \<le> se_due e)"

definition lane_queue_ok :: "duration \<Rightarrow> emitted_edge option \<Rightarrow> bool \<Rightarrow> scheduled_edge list \<Rightarrow> bool" where
  "lane_queue_ok gap le b es \<longleftrightarrow>
     length es \<le> MAX_WAITING_EDGES \<and> alternates b es \<and> gap_chain es \<and> first_waits gap le es"

definition spacer_inv :: "nat \<Rightarrow> (nat \<Rightarrow> bool) \<Rightarrow> spacer \<Rightarrow> bool" where
  "spacer_inv n m sp \<longleftrightarrow> length (last_emitted sp) = n \<and> (\<forall>e \<in> set (sp_queue sp). se_lane e < n) \<and>
     (\<forall>l < n. lane_queue_ok (sp_gap sp) (last_emitted sp ! l) (m l) (lane_q l (sp_queue sp)))"

lemma alternates_append:
  "alternates b (xs @ ys) \<longleftrightarrow>
     alternates b xs \<and> alternates (if xs = [] then b else se_down (last xs)) ys"
  by (induction xs arbitrary: b) auto

lemma gap_chain_append:
  "gap_chain (xs @ ys) \<longleftrightarrow> gap_chain xs \<and> gap_chain ys \<and>
    (xs \<noteq> [] \<and> ys \<noteq> [] \<longrightarrow>
      needs_gap (se_spaced (last xs)) (se_touch (last xs)) (se_change (hd ys)) \<longrightarrow> se_spaced (hd ys))"
  by (induction xs rule: gap_chain.induct; cases ys) auto

lemma spacer_inv_new: "spacer_inv n m (spacer_new n gap)"
  by (simp add: spacer_inv_def spacer_new_def lane_queue_ok_def first_waits_def)

lemma lane_target_updates:
  assumes "lane_q l ys = []" and "se_lane e = l"
  shows "lane_target m (xs @ ys) = (lane_target m (xs @ e # ys))(l := lane_target m xs l)"
proof
  fix l'
  show "lane_target m (xs @ ys) l' = ((lane_target m (xs @ e # ys))(l := lane_target m xs l)) l'"
    using assms by (cases "l' = l") (auto simp: lane_target_def)
qed

lemma spacer_inv_enqueue:
  assumes inv: "spacer_inv n m sp" and l: "kc_lane c < n"
  shows "spacer_inv n m (enqueue sp c now (m (kc_lane c))) \<and>
    lane_target m (sp_queue (enqueue sp c now (m (kc_lane c)))) =
      (lane_target m (sp_queue sp))(kc_lane c := kc_down c)"
proof -
  let ?l = "kc_lane c" and ?q = "sp_queue sp"
  have lq: "lane_queue_ok (sp_gap sp) (last_emitted sp ! ?l) (m ?l) (lane_q ?l ?q)"
    using inv l by (simp add: spacer_inv_def)
  have appended: "spacer_inv n m (sp\<lparr>sp_queue := ?q @ [e]\<rparr>) \<and>
      lane_target m (?q @ [e]) = (lane_target m ?q)(?l := kc_down c)"
    if "se_change e = c" "lane_queue_ok (sp_gap sp) (last_emitted sp ! ?l) (m ?l) (lane_q ?l ?q @ [e])" for e
    using inv l that by (auto simp: spacer_inv_def lane_target_def fun_eq_iff)
  have refl_lane: "?l = kc_lane c" by simp
  then show ?thesis
  proof (cases rule: enqueue_cases [where m = m and sp = sp and now = now])
    case same
    with inv show ?thesis by (simp add: fun_eq_iff)
  next
    case (cancel xs e ys)
    have q: "lane_q ?l ?q = lane_q ?l xs @ [e]" using cancel by simp
    have "lane_queue_ok (sp_gap sp) (last_emitted sp ! ?l) (m ?l) (lane_q ?l xs)"
      using lq unfolding q
      by (auto simp: lane_queue_ok_def alternates_append gap_chain_append first_waits_def hd_append
          split: if_splits)
    moreover have "lane_q l (xs @ ys) = (if l = ?l then lane_q ?l xs else lane_q l ?q)" for l
      using cancel(2-4) by auto
    ultimately have "lane_queue_ok (sp_gap sp) (last_emitted sp ! l) (m l) (lane_q l (xs @ ys))"
      if "l < n" for l
      using inv that by (simp add: spacer_inv_def)
    then have "spacer_inv n m (sp\<lparr>sp_queue := xs @ ys\<rparr>)"
      using inv cancel(2) by (simp add: spacer_inv_def)
    moreover have "alternates (m ?l) (lane_q ?l xs @ [e])" using lq q by (simp add: lane_queue_ok_def)
    then have "lane_target m xs ?l = (\<not> se_down e)"
      by (auto simp: lane_target_def alternates_append split: if_splits)
    moreover have "lane_target m ?q ?l = se_down e" using q by (simp add: lane_target_def)
    ultimately show ?thesis
      using cancel lane_target_updates [OF cancel(4,3), of m xs] by auto
  next
    case (follow e)
    have "alternates (m ?l) (lane_q ?l ?q)" "gap_chain (lane_q ?l ?q)"
      and first: "first_waits (sp_gap sp) (last_emitted sp ! ?l) (lane_q ?l ?q)"
      using lq by (simp_all add: lane_queue_ok_def)
    then have "lane_queue_ok (sp_gap sp) (last_emitted sp ! ?l) (m ?l) (lane_q ?l ?q @ [e])"
      using follow by (auto simp: lane_queue_ok_def alternates_append gap_chain_append lane_target_def
          Let_def first_waits_def)
    from appended [OF follow(4) this] follow(5) show ?thesis by simp
  next
    case (first e)
    then have "lane_queue_ok (sp_gap sp) (last_emitted sp ! ?l) (m ?l) (lane_q ?l ?q @ [e])"
      by (auto simp: lane_queue_ok_def first_waits_def lane_target_def)
    from appended [OF first(3) this] first(4) show ?thesis by simp
  qed
qed

section \<open>The selection of a flush\<close>

text \<open>The edges the first \<open>a\<close> selected ones, and the others, in the order of the queue.\<close>

fun split_ready ::
  "instant \<Rightarrow> scheduled_edge list \<Rightarrow> nat set \<Rightarrow> nat set \<Rightarrow> bool \<Rightarrow> nat \<Rightarrow>
   scheduled_edge list \<times> scheduled_edge list" where
  "split_ready now [] S W p a = ([], [])"
| "split_ready now (e # es) S W p a =
    (if a = 0 then ([], e # es)
     else if se_due e \<le> now \<and> se_lane e \<notin> W \<and> \<not> (se_spaced e \<and> se_lane e \<in> S) \<and> (se_down e \<or> \<not> p)
     then (let r = split_ready now es (insert (se_lane e) S) W p (a - 1) in (e # fst r, snd r))
     else (let r = split_ready now es S (insert (se_lane e) W) (p \<or> se_down e) a in (fst r, e # snd r)))"

lemma retain_none: "retain_unselected pos [] es = es"
  by (induction es arbitrary: pos) simp_all

lemma select_ready_ge: "i \<in> set (select_ready now k es S W p) \<Longrightarrow> k \<le> i \<and> i < k + length es"
  by (induction es arbitrary: k S W p) (fastforce simp: Let_def split: if_splits)+

lemma retain_later:
  "\<forall>i \<in> set is. pos < i \<Longrightarrow> retain_unselected pos is (e # es) = e # retain_unselected (pos + 1) is es"
  by (cases "is") auto

lemma split_ready_indices:
  "map ((!) (pre @ es)) (take a (select_ready now (length pre) es S W p)) = fst (split_ready now es S W p a) \<and>
   retain_unselected (length pre) (take a (select_ready now (length pre) es S W p)) es =
     snd (split_ready now es S W p a)"
proof (induction es arbitrary: pre S W p a)
  case (Cons e es)
  show ?case
  proof (cases a)
    case 0
    then show ?thesis by (simp add: retain_none)
  next
    case (Suc b)
    let ?ready = "se_due e \<le> now \<and> se_lane e \<notin> W \<and> \<not> (se_spaced e \<and> se_lane e \<in> S) \<and> (se_down e \<or> \<not> p)"
    note IH = Cons.IH [of "pre @ [e]"]
    show ?thesis
    proof (cases ?ready)
      case True
      then show ?thesis using IH [of b "insert (se_lane e) S" W p] Suc by (simp add: Let_def)
    next
      case False
      let ?sel = "select_ready now (length pre + 1) es S (insert (se_lane e) W) (p \<or> se_down e)"
      have sel: "select_ready now (length pre) (e # es) S W p = ?sel"
        using False by (simp add: Let_def del: de_Morgan_conj)
      have "\<forall>i \<in> set (take a ?sel). length pre < i"
        using select_ready_ge by (metis Suc_eq_plus1 Suc_le_lessD in_set_takeD)
      then have "retain_unselected (length pre) (take a ?sel) (e # es) =
          e # retain_unselected (length pre + 1) (take a ?sel) es" by (rule retain_later)
      moreover have "split_ready now (e # es) S W p a =
          (let r = split_ready now es S (insert (se_lane e) W) (p \<or> se_down e) a in (fst r, e # snd r))"
        using False Suc by (simp del: de_Morgan_conj)
      ultimately show ?thesis
        using IH [of a S "insert (se_lane e) W" "p \<or> se_down e"]
        unfolding sel by (simp add: Let_def del: retain_unselected.simps split_ready.simps)
    qed
  qed
qed simp

text \<open>Of each lane, a prefix is taken; what is taken is due, and after its first edge unspaced.\<close>

lemma split_ready_lanes:
  assumes "split_ready now es S W p a = (tk, rs)"
  shows "lane_q l es = lane_q l tk @ lane_q l rs \<and> (l \<in> W \<longrightarrow> lane_q l tk = []) \<and>
    set tk \<subseteq> set es \<and> set rs \<subseteq> set es \<and> (\<forall>e \<in> set tk. se_due e \<le> now) \<and>
    (\<forall>e \<in> set (if l \<in> S then lane_q l tk else tl (lane_q l tk)). \<not> se_spaced e)"
  using assms
proof (induction es arbitrary: S W p a tk rs)
  case Nil
  then show ?case by auto
next
  case (Cons e es)
  show ?case
  proof (cases "a = 0")
    case True
    with Cons.prems show ?thesis by auto
  next
    case False
    let ?ready = "se_due e \<le> now \<and> se_lane e \<notin> W \<and> \<not> (se_spaced e \<and> se_lane e \<in> S) \<and> (se_down e \<or> \<not> p)"
    show ?thesis
    proof (cases ?ready)
      case True
      obtain tk' where run: "split_ready now es (insert (se_lane e) S) W p (a - 1) = (tk', rs)"
        and tk: "tk = e # tk'"
        using Cons.prems False True by (cases "split_ready now es (insert (se_lane e) S) W p (a - 1)")
          (simp add: Let_def)
      from Cons.IH [OF run] True show ?thesis unfolding tk
        by (cases "se_lane e = l") (auto split: if_splits dest: list.set_sel(2) [rotated])
    next
      case nr: False
      obtain rs' where run: "split_ready now es S (insert (se_lane e) W) (p \<or> se_down e) a = (tk, rs')"
        and rs: "rs = e # rs'"
        using Cons.prems False nr
        by (cases "split_ready now es S (insert (se_lane e) W) (p \<or> se_down e) a")
          (simp add: Let_def del: de_Morgan_conj)
      from Cons.IH [OF run] show ?thesis unfolding rs by (auto split: if_splits)
    qed
  qed
qed

section \<open>The bookkeeping after a submission\<close>

lemma fold_note_emitted:
  assumes "\<forall>e \<in> set tk. se_lane e < n" and "length pr = n" and "length le = n"
    and "fold (note_emitted now) tk (pr, le) = (pr', le')"
  shows "length pr' = n \<and> length le' = n \<and>
    (\<forall>l < n. pr' ! l = key_after ((!) pr) (map se_change tk) l \<and>
      pr' ! l = lane_target ((!) pr) tk l \<and>
      le' ! l = (if lane_q l tk = [] then le ! l else
        Some \<lparr>ee_at = now, ee_spaced = se_spaced (last (lane_q l tk)), ee_touch = se_touch (last (lane_q l tk))\<rparr>))"
  using assms
proof (induction tk arbitrary: pr' le' rule: rev_induct)
  case Nil
  then show ?case by (simp add: lane_target_def)
next
  case (snoc e tk)
  obtain pr1 le1 where run: "fold (note_emitted now) tk (pr, le) = (pr1, le1)" by fastforce
  have IH: "length pr1 = n \<and> length le1 = n \<and>
    (\<forall>l < n. pr1 ! l = key_after ((!) pr) (map se_change tk) l \<and>
      pr1 ! l = lane_target ((!) pr) tk l \<and>
      le1 ! l = (if lane_q l tk = [] then le ! l else
        Some \<lparr>ee_at = now, ee_spaced = se_spaced (last (lane_q l tk)), ee_touch = se_touch (last (lane_q l tk))\<rparr>))"
    using snoc.prems by (intro snoc.IH [OF _ _ _ run]) auto
  have new: "pr' = pr1[se_lane e := se_down e]"
    "le' = le1[se_lane e := Some \<lparr>ee_at = now, ee_spaced = se_spaced e, ee_touch = se_touch e\<rparr>]"
    using snoc.prems(4) by (simp_all add: run) (simp_all add: note_emitted_def)
  have "se_lane e < n" using snoc.prems(1) by simp
  with IH show ?case unfolding new by (auto simp: nth_list_update lane_target_def)
qed

lemma lane_q_restart:
  "lane_q l (map (restart_gap now gap le) q) = map (restart_gap now gap le) (lane_q l q)"
  by (induction q) (auto simp: restart_gap_def)

lemma restart_gap_fields [simp]:
  "se_change (restart_gap now gap le e) = se_change e"
  "se_spaced (restart_gap now gap le e) = se_spaced e"
  "se_due e \<le> se_due (restart_gap now gap le e)"
  by (simp_all add: restart_gap_def split: option.split)

lemma alternates_restart: "alternates b (map (restart_gap now gap le) es) = alternates b es"
  by (induction es arbitrary: b) auto

lemma gap_chain_restart: "gap_chain (map (restart_gap now gap le) es) = gap_chain es"
  by (induction es rule: gap_chain.induct) auto

lemma lane_queue_ok_taken:
  assumes ok: "lane_queue_ok gap le b (tk @ rs)"
    and le': "le' ! l = (if tk = [] then le else
        Some \<lparr>ee_at = now, ee_spaced = se_spaced (last tk), ee_touch = se_touch (last tk)\<rparr>)"
    and rs: "\<forall>e \<in> set rs. se_lane e = l"
  shows "lane_queue_ok gap (le' ! l) (if tk = [] then b else se_down (last tk))
    (map (restart_gap now gap le') rs)"
proof -
  have "alternates b (tk @ rs)" "gap_chain (tk @ rs)" and first: "first_waits gap le (tk @ rs)"
    and len: "length (tk @ rs) \<le> 3"
    using ok by (auto simp: lane_queue_ok_def)
  then have alt: "alternates (if tk = [] then b else se_down (last tk)) rs" and chain: "gap_chain rs"
    and edge: "tk \<noteq> [] \<and> rs \<noteq> [] \<longrightarrow>
      needs_gap (se_spaced (last tk)) (se_touch (last tk)) (se_change (hd rs)) \<longrightarrow> se_spaced (hd rs)"
    by (auto simp: alternates_append gap_chain_append)
  have "first_waits gap (le' ! l) (map (restart_gap now gap le') rs)"
  proof (cases "rs = [] \<or> tk = []")
    case True
    then show ?thesis
    proof
      assume tk: "tk = []"
      show ?thesis
      proof (cases rs)
        case (Cons e es)
        then show ?thesis
          using first tk le' order_trans [OF _ restart_gap_fields(3)]
          by (simp add: first_waits_def)
      qed (simp add: first_waits_def)
    qed (simp add: first_waits_def)
  next
    case False
    then obtain e es where rs_eq: "rs = e # es" by (cases rs) auto
    have "now + gap \<le> se_due (restart_gap now gap le' e)" if "se_spaced e"
      using that False le' rs rs_eq by (simp add: restart_gap_def)
    then show ?thesis using edge False le' rs_eq by (simp add: first_waits_def)
  qed
  then show ?thesis using alt chain len by (simp add: lane_queue_ok_def alternates_restart gap_chain_restart)
qed

lemma split_ready_length:
  "length (fst (split_ready now es S W p a)) + length (snd (split_ready now es S W p a)) = length es"
  by (induction es arbitrary: S W p a) (simp_all add: Let_def del: de_Morgan_conj)

definition flush_selection :: "instant \<Rightarrow> spacer \<Rightarrow> nat list" where
  "flush_selection now sp = select_ready now 0 (sp_queue sp) {} {} False"

lemma after_submission_ok:
  assumes inv: "spacer_inv n ((!) pressed) sp" and len: "length pressed = n"
    and run: "after_submission now sp pressed (take a (flush_selection now sp)) = (sp', pressed')"
  shows "spacer_inv n ((!) pressed') sp'" and "length pressed' = n" and "sp_gap sp' = sp_gap sp"
    and "\<forall>l < n. pressed' ! l = key_after ((!) pressed)
        (map (\<lambda>i. se_change (sp_queue sp ! i)) (take a (flush_selection now sp))) l"
    and "\<forall>l < n. lane_target ((!) pressed') (sp_queue sp') l = lane_target ((!) pressed) (sp_queue sp) l"
    and "length (sp_queue sp') = length (sp_queue sp) - length (take a (flush_selection now sp))"
proof -
  let ?q = "sp_queue sp" and ?T = "take a (flush_selection now sp)"
  obtain tk rs where split: "split_ready now ?q {} {} False a = (tk, rs)" by fastforce
  have tk: "map ((!) ?q) ?T = tk" and rs: "retain_unselected 0 ?T ?q = rs"
    using split_ready_indices [of "[]" ?q a now "{}" "{}" False] split
    by (simp_all add: flush_selection_def)
  obtain le' where fold: "fold (note_emitted now) tk (pressed, last_emitted sp) = (pressed', le')"
    and sp': "sp' = sp\<lparr>sp_queue := map (restart_gap now (sp_gap sp) le') rs, last_emitted := le'\<rparr>"
    using run by (auto simp: after_submission_def tk rs Let_def split: prod.splits)
  note lanes = split_ready_lanes [OF split]
  have in_range: "\<forall>e \<in> set ?q. se_lane e < n" and le: "length (last_emitted sp) = n"
    and lane_ok: "\<forall>l < n. lane_queue_ok (sp_gap sp) (last_emitted sp ! l) (pressed ! l) (lane_q l ?q)"
    using inv by (auto simp: spacer_inv_def)
  have "\<forall>e \<in> set tk. se_lane e < n" using in_range lanes by blast
  note new = fold_note_emitted [OF this len le fold]
  show "length pressed' = n" "sp_gap sp' = sp_gap sp" using new sp' by auto
  have "map (\<lambda>i. se_change (?q ! i)) ?T = map se_change tk" by (simp add: tk [symmetric])
  then show "\<forall>l < n. pressed' ! l = key_after ((!) pressed) (map (\<lambda>i. se_change (?q ! i)) ?T) l"
    using new by simp
  have queue_ok: "lane_queue_ok (sp_gap sp) (le' ! l) (pressed' ! l) (lane_q l (sp_queue sp'))" if "l < n" for l
  proof -
    have "lane_queue_ok (sp_gap sp) (last_emitted sp ! l) (pressed ! l) (lane_q l tk @ lane_q l rs)"
      using lane_ok lanes [of l] that by metis
    then have "lane_queue_ok (sp_gap sp) (le' ! l)
        (if lane_q l tk = [] then pressed ! l else se_down (last (lane_q l tk)))
        (map (restart_gap now (sp_gap sp) le') (lane_q l rs))"
      by (rule lane_queue_ok_taken) (use new that in \<open>auto simp: lane_q_member\<close>)
    moreover have "pressed' ! l = (if lane_q l tk = [] then pressed ! l else se_down (last (lane_q l tk)))"
      using new that unfolding lane_target_def by blast
    ultimately show ?thesis unfolding sp' by (simp add: lane_q_restart)
  qed
  show "spacer_inv n ((!) pressed') sp'"
  proof -
    have "set rs \<subseteq> set ?q" using lanes by blast
    then have "\<forall>e \<in> set (sp_queue sp'). se_lane e < n" using in_range by (auto simp: sp')
    then show ?thesis using queue_ok new by (simp add: spacer_inv_def sp')
  qed
  show "\<forall>l < n. lane_target ((!) pressed') (sp_queue sp') l = lane_target ((!) pressed) ?q l"
  proof (intro allI impI)
    fix l assume "l < n"
    then have "pressed' ! l = lane_target ((!) pressed) tk l" using new by blast
    then show "lane_target ((!) pressed') (sp_queue sp') l = lane_target ((!) pressed) ?q l"
      using lanes [of l] by (simp add: sp' lane_target_def lane_q_restart last_map)
  qed
  have "length tk + length rs = length ?q"
    using split_ready_length [of now ?q "{}" "{}" False a] split by simp
  moreover have "length tk = length ?T" using tk by (metis length_map)
  ultimately show "length (sp_queue sp') = length ?q - length ?T" by (simp add: sp')
qed

lemma select_ready_sorted: "sorted_wrt (<) (select_ready now k es S W p)"
proof (induction es arbitrary: k S W p)
  case (Cons e es)
  have "\<forall>i \<in> set (select_ready now (k + 1) es S' W' p'). k < i" for S' W' p'
    using select_ready_ge by (metis Suc_eq_plus1 Suc_le_lessD)
  with Cons.IH show ?case by (simp add: Let_def)
qed simp

lemma select_ready_order:
  "j \<in> set (select_ready now k es S W p) \<Longrightarrow>
   p \<or> (\<exists>i. k \<le> i \<and> i < j \<and> i \<notin> set (select_ready now k es S W p) \<and> se_down (es ! (i - k))) \<Longrightarrow>
   se_down (es ! (j - k))"
proof (induction es arbitrary: k S W p)
  case (Cons e es)
  let ?ready = "se_due e \<le> now \<and> se_lane e \<notin> W \<and> \<not> (se_spaced e \<and> se_lane e \<in> S) \<and> (se_down e \<or> \<not> p)"
  have later: "k + 1 \<le> i" if "i \<in> set (select_ready now (k + 1) es S' W' p')" for i S' W' p'
    using select_ready_ge [OF that] by simp
  show ?case
  proof (cases ?ready)
    case True
    let ?sel = "select_ready now (k + 1) es (insert (se_lane e) S) W p"
    have sel: "select_ready now k (e # es) S W p = k # ?sel" using True by (simp add: Let_def)
    show ?thesis
    proof (cases "j = k")
      case j: True
      then have "\<not> (\<exists>i. k \<le> i \<and> i < j)" by simp
      with Cons.prems(2) True j show ?thesis by auto
    next
      case False
      then have j: "j \<in> set ?sel" using Cons.prems(1) sel by simp
      have "p \<or> (\<exists>i. k + 1 \<le> i \<and> i < j \<and> i \<notin> set ?sel \<and> se_down (es ! (i - (k + 1))))"
      proof (cases p)
        case False
        with Cons.prems(2) obtain i where i: "k \<le> i" "i < j" "i \<notin> set (k # ?sel)" "se_down ((e # es) ! (i - k))"
          unfolding sel by blast
        then have "k + 1 \<le> i" "i - k = Suc (i - (k + 1))" by auto
        with i show ?thesis by auto
      qed simp
      from Cons.IH [OF j this] later [OF j] show ?thesis by (simp add: nth_Cons')
    qed
  next
    case False
    let ?sel = "select_ready now (k + 1) es S (insert (se_lane e) W) (p \<or> se_down e)"
    have sel: "select_ready now k (e # es) S W p = ?sel" using False by (simp add: Let_def del: de_Morgan_conj)
    have j: "j \<in> set ?sel" using Cons.prems(1) sel by simp
    have "(p \<or> se_down e) \<or> (\<exists>i. k + 1 \<le> i \<and> i < j \<and> i \<notin> set ?sel \<and> se_down (es ! (i - (k + 1))))"
    proof (cases "p \<or> se_down e")
      case False
      with Cons.prems(2) obtain i where i: "k \<le> i" "i < j" "i \<notin> set ?sel" "se_down ((e # es) ! (i - k))"
        unfolding sel by blast
      with False have "k \<noteq> i" by auto
      with i have "k + 1 \<le> i" "i - k = Suc (i - (k + 1))" by auto
      with i show ?thesis by auto
    qed simp
    from Cons.IH [OF j this] later [OF j] show ?thesis by (simp add: nth_Cons')
  qed
qed simp

section \<open>Properties of the spacer\<close>

text \<open>
  Whatever waits, a lane always ends where the last request put it. Asking for a key change
  keeps at most three alternating edges per lane, and the state the lane will have once its queue
  is drained becomes exactly the one asked for, also when the queue is full and the newest waiting
  edge is cancelled instead; other lanes are not affected.
\<close>

lemma enqueue_reaches_request:
  assumes "spacer_inv n m sp" and "kc_lane c < n"
  shows "spacer_inv n m (enqueue sp c now (m (kc_lane c))) \<and>
    lane_target m (sp_queue (enqueue sp c now (m (kc_lane c)))) =
      (lane_target m (sp_queue sp))(kc_lane c := kc_down c)"
  by (rule spacer_inv_enqueue [OF assms])

text \<open>
  Every press that a flush at \<open>now\<close> selects comes at least \<open>gap\<close> after the last edge that its lane emitted, and
  no press is selected behind another edge of its lane.
\<close>

lemma selected_press_waits:
  assumes inv: "spacer_inv n m sp" and sel: "i \<in> set (flush_selection now sp)"
    and down: "se_down (sp_queue sp ! i)" and lane: "se_lane (sp_queue sp ! i) = l"
  shows "(\<forall>p. last_emitted sp ! l = Some p \<longrightarrow> ee_at p + sp_gap sp \<le> now) \<and>
    (\<forall>j \<in> set (flush_selection now sp). j < i \<longrightarrow> se_lane (sp_queue sp ! j) \<noteq> l)"
proof -
  let ?q = "sp_queue sp" and ?sel = "flush_selection now sp"
  obtain xs ys where sel_eq: "?sel = xs @ i # ys" using split_list [OF sel] by blast
  let ?a = "Suc (length xs)"
  have T: "take ?a ?sel = xs @ [i]" by (simp add: sel_eq)
  obtain tk rs where split: "split_ready now ?q {} {} False ?a = (tk, rs)" by fastforce
  have "map ((!) ?q) (take ?a ?sel) = tk"
    using split_ready_indices [of "[]" ?q ?a now "{}" "{}" False] split by (simp add: flush_selection_def)
  then have tk: "tk = map ((!) ?q) xs @ [?q ! i]" by (simp add: T)
  note lanes = split_ready_lanes [OF split, of l]
  let ?before = "lane_q l (map ((!) ?q) xs)"
  have lane_tk: "lane_q l tk = ?before @ [?q ! i]" by (simp add: tk lane)
  have "?q ! i \<in> set ?q" using lanes tk by auto
  then have "l < n" using inv lane by (auto simp: spacer_inv_def)
  then have ok: "lane_queue_ok (sp_gap sp) (last_emitted sp ! l) (m l) (?before @ ?q ! i # lane_q l rs)"
    using inv lanes lane_tk unfolding spacer_inv_def by (metis append.assoc append_Cons append_Nil)
  have alone: "?before = []"
  proof (rule ccontr)
    assume some: "?before \<noteq> []"
    then have "\<not> se_spaced (?q ! i)" using lanes lane_tk by (cases ?before) auto
    moreover have "gap_chain (?before @ ?q ! i # lane_q l rs)" using ok by (simp add: lane_queue_ok_def)
    then have "se_spaced (?q ! i)" using some down by (auto simp: gap_chain_append needs_gap_def)
    ultimately show False by contradiction
  qed
  have due: "se_due (?q ! i) \<le> now" using lanes tk by simp
  have "first_waits (sp_gap sp) (last_emitted sp ! l) (?q ! i # lane_q l rs)"
    using ok alone by (simp add: lane_queue_ok_def)
  then have "\<forall>p. last_emitted sp ! l = Some p \<longrightarrow> ee_at p + sp_gap sp \<le> now"
    using down due by (auto simp: first_waits_def needs_gap_def)
  moreover have "se_lane (?q ! j) \<noteq> l" if "j \<in> set ?sel" "j < i" for j
  proof -
    have "sorted_wrt (<) (xs @ i # ys)"
      using select_ready_sorted [of now 0 ?q "{}" "{}" False] by (simp add: flush_selection_def sel_eq [symmetric])
    then have "j \<in> set xs" using that by (auto simp: sel_eq sorted_wrt_append)
    with alone show ?thesis by (auto simp: lane_q_def filter_empty_conv)
  qed
  ultimately show ?thesis by blast
qed

text \<open>
  No release overtakes an earlier press that still waits. If a press at position \<open>i\<close> of the
  queue is not selected, every edge selected behind it is itself a press, so a slide's release of
  the old lane never reaches the OS before the press of the new one.
\<close>

theorem flush_keeps_slide_order:
  assumes "j \<in> set (flush_selection now sp)" and "i < j" and "i \<notin> set (flush_selection now sp)"
    and "se_down (sp_queue sp ! i)"
  shows "se_down (sp_queue sp ! j)"
  using select_ready_order [of j now 0 "sp_queue sp" "{}" "{}" False] assms
  by (auto simp: flush_selection_def)

text \<open>Flushing at \<open>now\<close>, \<open>now + gap\<close>, \<dots>, as the host does when it is woken at the deadlines.\<close>

fun flush_times ::
  "'d key_ops \<Rightarrow> nat \<Rightarrow> instant \<Rightarrow> spacer \<Rightarrow> 'd \<Rightarrow> bool list \<Rightarrow> spacer \<times> 'd \<times> bool list" where
  "flush_times ops 0 now sp d pressed = (sp, d, pressed)"
| "flush_times ops (Suc k) now sp d pressed =
    (case spacer_flush ops now sp d pressed of
       (sp', d', pressed', _) \<Rightarrow> flush_times ops k (now + sp_gap sp) sp' d' pressed')"

lemma flush_selection_nonempty:
  assumes "sp_queue sp \<noteq> []" and "\<forall>e \<in> set (sp_queue sp). se_due e \<le> now"
  shows "flush_selection now sp \<noteq> []"
  using assms by (cases "sp_queue sp") (simp_all add: flush_selection_def Let_def)

lemma after_submission_due:
  assumes "after_submission now sp pressed T = (sp', pressed')"
    and "\<forall>e \<in> set (sp_queue sp). se_due e \<le> now"
  shows "\<forall>e \<in> set (sp_queue sp'). se_due e \<le> now + sp_gap sp"
proof -
  have "set (retain_unselected pos is q) \<subseteq> set q" for pos "is" and q :: "scheduled_edge list"
    by (induction pos "is" q rule: retain_unselected.induct) (auto split: list.split)
  then have "\<forall>e \<in> set (retain_unselected 0 T (sp_queue sp)). se_due e \<le> now" using assms(2) by blast
  moreover have "se_due (restart_gap now gap le e) \<le> now + gap" if "se_due e \<le> now" for gap le e
    using that by (simp add: restart_gap_def split: option.split)
  moreover have "\<exists>le. sp_queue sp' = map (restart_gap now (sp_gap sp) le) (retain_unselected 0 T (sp_queue sp))"
    using assms(1) by (auto simp: after_submission_def Let_def simp del: map_eq_conv split: prod.splits)
  then obtain le where
    "sp_queue sp' = map (restart_gap now (sp_gap sp) le) (retain_unselected 0 T (sp_queue sp))" by blast
  ultimately show ?thesis by simp
qed

section \<open>The use of the spacer\<close>

text \<open>The waiting edges that a flush hands over and the device takes.\<close>

definition accepted_edges :: "'d key_ops \<Rightarrow> instant \<Rightarrow> spacer \<Rightarrow> 'd \<Rightarrow> scheduled_edge list" where
  "accepted_edges ops now sp d =
    (let selected = flush_selection now sp; batch = map (\<lambda>i. se_change (sp_queue sp ! i)) selected in
     if batch = [] then [] else
     case snd (ko_submit ops batch d) of
       Done k \<Rightarrow> if k \<le> length batch then map ((!) (sp_queue sp)) (take k selected) else []
     | _ \<Rightarrow> [])"

text \<open>
  How the keyboard uses its spacer, with the time of the last call and the edges that the device has taken, each
  with its time: changes are queued, what is due is flushed, and a release of everything drops the queue and lets
  lanes go; what other calls do to the device is left open.
\<close>

inductive spacer_run :: "'d key_ops \<Rightarrow> nat \<Rightarrow> duration \<Rightarrow> instant \<Rightarrow> spacer \<Rightarrow> 'd \<Rightarrow> bool list \<Rightarrow>
    (instant \<times> key_change) list \<Rightarrow> bool" for ops n gap where
  start: "spacer_run ops n gap t (spacer_new n gap) d (replicate n False) []"
| other: "spacer_run ops n gap t sp d pressed h \<Longrightarrow> t \<le> now \<Longrightarrow> spacer_run ops n gap now sp d' pressed h"
| ask: "spacer_run ops n gap t sp d pressed h \<Longrightarrow> t \<le> now \<Longrightarrow> kc_lane c < n \<Longrightarrow>
    spacer_run ops n gap now (enqueue sp c now (pressed ! kc_lane c)) d pressed h"
| flush: "spacer_run ops n gap t sp d pressed h \<Longrightarrow> t \<le> now \<Longrightarrow>
    spacer_flush ops now sp d pressed = (sp', d', pressed', r) \<Longrightarrow>
    spacer_run ops n gap now sp' d' pressed' (h @ map (\<lambda>e. (now, se_change e)) (accepted_edges ops now sp d))"
| release: "spacer_run ops n gap t sp d pressed h \<Longrightarrow> t \<le> now \<Longrightarrow> set ls \<subseteq> {..<n} \<Longrightarrow>
    spacer_run ops n gap now (fold (\<lambda>l sp. note_release sp l now) ls (sp\<lparr>sp_queue := []\<rparr>)) d'
      (fold (\<lambda>l pressed. pressed[l := False]) ls pressed) (h @ map (\<lambda>l. (now, key_edge l False False)) ls)"

definition emitted_ok :: "nat \<Rightarrow> duration \<Rightarrow> instant \<Rightarrow> emitted_edge option list \<Rightarrow> (instant \<times> key_change) list \<Rightarrow> bool" where
  "emitted_ok n gap t le h \<longleftrightarrow>
     (\<forall>(u, c) \<in> set h. kc_lane c < n \<and> (\<exists>p. le ! kc_lane c = Some p \<and> u \<le> ee_at p)) \<and>
     (\<forall>l < n. \<forall>p. le ! l = Some p \<longrightarrow> ee_at p \<le> t) \<and>
     sorted_wrt (\<lambda>a b. kc_lane (snd a) = kc_lane (snd b) \<and> kc_down (snd b) \<longrightarrow> fst a + gap \<le> fst b) h"

lemma emitted_ok_more:
  assumes h: "emitted_ok n gap t le h" and t: "t \<le> now" and cs: "\<forall>c \<in> set cs. kc_lane c < n"
    and new: "\<And>l. l < n \<Longrightarrow> l \<in> kc_lane ` set cs \<Longrightarrow> \<exists>p. le' ! l = Some p \<and> ee_at p = now"
    and same: "\<And>l. l < n \<Longrightarrow> l \<notin> kc_lane ` set cs \<Longrightarrow> le' ! l = le ! l"
    and wait: "\<And>c p. c \<in> set cs \<Longrightarrow> kc_down c \<Longrightarrow> le ! kc_lane c = Some p \<Longrightarrow> ee_at p + gap \<le> now"
    and alone: "sorted_wrt (\<lambda>a b. kc_down b \<longrightarrow> kc_lane a \<noteq> kc_lane b) cs"
  shows "emitted_ok n gap now le' (h @ map (Pair now) cs)"
proof -
  have old: "kc_lane c < n \<and> (\<exists>p. le ! kc_lane c = Some p \<and> u \<le> ee_at p)" if "(u, c) \<in> set h" for u c
    using h that by (auto simp: emitted_ok_def)
  have past: "ee_at p \<le> now" if "l < n" "le ! l = Some p" for l p
    using h t that by (auto simp: emitted_ok_def intro: order_trans)
  have "ee_at p \<le> now" if "l < n" "le' ! l = Some p" for l p
    using new [OF that(1)] same [OF that(1)] past [OF that(1)] that(2) by (cases "l \<in> kc_lane ` set cs") auto
  moreover have "kc_lane c < n \<and> (\<exists>p. le' ! kc_lane c = Some p \<and> u \<le> ee_at p)" if "(u, c) \<in> set h" for u c
  proof -
    obtain p where p: "kc_lane c < n" "le ! kc_lane c = Some p" "u \<le> ee_at p" using old [OF \<open>(u, c) \<in> set h\<close>] by blast
    show ?thesis
    proof (cases "kc_lane c \<in> kc_lane ` set cs")
      case True
      with new [OF p(1)] p past [OF p(1,2)] show ?thesis by auto
    next
      case False
      with same [OF p(1)] p show ?thesis by simp
    qed
  qed
  moreover have "\<exists>p. le' ! kc_lane c = Some p \<and> now \<le> ee_at p" if "c \<in> set cs" for c
    using new [of "kc_lane c"] cs that by auto
  moreover have "u + gap \<le> now" if "(u, c) \<in> set h" "c' \<in> set cs" "kc_lane c = kc_lane c'" "kc_down c'" for u c c'
  proof -
    obtain p where p: "le ! kc_lane c = Some p" "u \<le> ee_at p" using old [OF \<open>(u, c) \<in> set h\<close>] by blast
    then have "ee_at p + gap \<le> now" using wait [OF that(2,4)] that(3) by simp
    with p(2) show ?thesis by simp
  qed
  moreover have "sorted_wrt (\<lambda>a b. kc_lane (snd a) = kc_lane (snd b) \<and> kc_down (snd b) \<longrightarrow> fst a + gap \<le> fst b) (map (Pair now) cs)"
    unfolding sorted_wrt_map by (rule sorted_wrt_mono_rel [OF _ alone]) auto
  ultimately show ?thesis using h cs unfolding emitted_ok_def sorted_wrt_append by fastforce
qed

lemma enqueue_fields [simp]:
  "last_emitted (enqueue sp c now b) = last_emitted sp" "sp_gap (enqueue sp c now b) = sp_gap sp"
  by (simp_all add: enqueue_def Let_def split: prod.split option.split)

lemma after_submission_emitted:
  assumes inv: "spacer_inv n ((!) pressed) sp" and len: "length pressed = n"
    and run: "after_submission now sp pressed (take k (flush_selection now sp)) = (sp', pressed')" and l: "l < n"
  shows "last_emitted sp' ! l = (let q = lane_q l (map ((!) (sp_queue sp)) (take k (flush_selection now sp))) in
    if q = [] then last_emitted sp ! l
    else Some \<lparr>ee_at = now, ee_spaced = se_spaced (last q), ee_touch = se_touch (last q)\<rparr>)"
proof -
  let ?tk = "map ((!) (sp_queue sp)) (take k (flush_selection now sp))"
  obtain le' where fold: "fold (note_emitted now) ?tk (pressed, last_emitted sp) = (pressed', le')"
    and sp': "last_emitted sp' = le'"
    using run by (auto simp: after_submission_def Let_def split: prod.splits)
  have "set ?tk \<subseteq> set (sp_queue sp)"
    using select_ready_ge [of _ now 0 "sp_queue sp" "{}" "{}" False] by (auto simp: flush_selection_def dest!: in_set_takeD)
  with inv have "\<forall>e \<in> set ?tk. se_lane e < n" by (auto simp: spacer_inv_def)
  from fold_note_emitted [OF this len _ fold] inv l sp' show ?thesis by (simp add: spacer_inv_def Let_def)
qed

text \<open>A flush either changes nothing or takes the first edges of its selection.\<close>

lemma spacer_flush_cases:
  assumes "spacer_flush ops now sp d pressed = (sp', d', pressed', r)"
  obtains "sp' = sp" "pressed' = pressed" "accepted_edges ops now sp d = []"
  | k where "after_submission now sp pressed (take k (flush_selection now sp)) = (sp', pressed')"
    "accepted_edges ops now sp d = map ((!) (sp_queue sp)) (take k (flush_selection now sp))"
proof (cases "sp_queue sp = [] \<or> flush_selection now sp = []")
  case True
  then have none: "flush_selection now sp = []" by (auto simp: flush_selection_def)
  then have "spacer_flush ops now sp d pressed = (sp, d, pressed, Done ())"
    by (simp add: spacer_flush_def flush_selection_def [symmetric] Let_def)
  moreover have "accepted_edges ops now sp d = []" using none by (simp add: accepted_edges_def)
  ultimately show ?thesis using assms by (intro that(1)) simp_all
next
  case False
  let ?sel = "flush_selection now sp"
  let ?batch = "map (\<lambda>i. se_change (sp_queue sp ! i)) ?sel"
  obtain d1 r1 where sub: "ko_submit ops ?batch d = (d1, r1)" by fastforce
  show ?thesis
  proof (cases "\<exists>k. r1 = Done k \<and> k \<le> length ?batch")
    case True
    then obtain k where k: "r1 = Done k" "k \<le> length ?sel" by auto
    show ?thesis
      by (rule that(2) [of k]) (use assms False sub k in \<open>auto simp: spacer_flush_def accepted_edges_def flush_selection_def [symmetric] Let_def split: prod.splits\<close>)
  next
    case bad: False
    show ?thesis
      by (rule that(1)) (use assms False sub bad in \<open>cases r1; auto simp: spacer_flush_def accepted_edges_def flush_selection_def [symmetric] Let_def\<close>)+
  qed
qed

lemma fold_note_release:
  "length (last_emitted sp) = n \<Longrightarrow> set ls \<subseteq> {..<n} \<Longrightarrow>
    sp_queue (fold (\<lambda>l sp. note_release sp l now) ls sp) = sp_queue sp \<and>
    sp_gap (fold (\<lambda>l sp. note_release sp l now) ls sp) = sp_gap sp \<and>
    length (last_emitted (fold (\<lambda>l sp. note_release sp l now) ls sp)) = n \<and>
    (\<forall>l < n. last_emitted (fold (\<lambda>l sp. note_release sp l now) ls sp) ! l =
      (if l \<in> set ls then Some \<lparr>ee_at = now, ee_spaced = False, ee_touch = False\<rparr> else last_emitted sp ! l))"
proof (induction ls arbitrary: sp)
  case (Cons l ls)
  from Cons.IH [of "note_release sp l now"] Cons.prems show ?case by (auto simp: note_release_def nth_list_update)
qed simp

lemma spacer_run_ok:
  "spacer_run ops n gap t sp d pressed h \<Longrightarrow>
    spacer_inv n ((!) pressed) sp \<and> length pressed = n \<and> sp_gap sp = gap \<and> emitted_ok n gap t (last_emitted sp) h"
proof (induction rule: spacer_run.induct)
  case (start t d)
  then show ?case using spacer_inv_new by (simp add: emitted_ok_def) (simp add: spacer_new_def)
next
  case (other t sp d pressed h now d')
  then show ?case by (fastforce simp: emitted_ok_def)
next
  case (ask t sp d pressed h now c)
  then have "spacer_inv n ((!) pressed) (enqueue sp c now (pressed ! kc_lane c))"
    using spacer_inv_enqueue [of n "(!) pressed" sp c now] by simp
  with ask show ?case by (fastforce simp: emitted_ok_def)
next
  case (flush t sp d pressed h now sp' d' pressed' r)
  then have ok: "spacer_inv n ((!) pressed) sp" "length pressed = n" "sp_gap sp = gap" "emitted_ok n gap t (last_emitted sp) h" by auto
  from flush.hyps(3) show ?case
  proof (cases rule: spacer_flush_cases)
    case 1
    with ok flush.hyps(2) show ?thesis by (fastforce simp: emitted_ok_def)
  next
    case (2 k)
    let ?sel = "flush_selection now sp"
    let ?tk = "map ((!) (sp_queue sp)) (take k ?sel)"
    let ?cs = "map se_change ?tk"
    note after = after_submission_ok [OF ok(1,2) 2(1)]
    have sel: "i < length (sp_queue sp)" if "i \<in> set (take k ?sel)" for i
      using that select_ready_ge [of i now 0 "sp_queue sp" "{}" "{}" False] by (auto simp: flush_selection_def dest!: in_set_takeD)
    then have lanes: "\<forall>c \<in> set ?cs. kc_lane c < n" using ok(1) by (auto simp: spacer_inv_def)
    have empty: "lane_q l ?tk = [] \<longleftrightarrow> l \<notin> kc_lane ` set ?cs" for l by (auto simp: lane_q_def filter_empty_conv)
    have wait: "ee_at p + gap \<le> now" if "c \<in> set ?cs" "kc_down c" "last_emitted sp ! kc_lane c = Some p" for c p
      using that selected_press_waits [OF ok(1), of _ now] ok(3) by (auto dest!: in_set_takeD)
    have "sorted_wrt (<) (take k ?sel)"
      using select_ready_sorted [of now 0 "sp_queue sp" "{}" "{}" False] by (simp add: flush_selection_def sorted_wrt_take)
    then have alone: "sorted_wrt (\<lambda>a b. kc_down b \<longrightarrow> kc_lane a \<noteq> kc_lane b) ?cs"
      unfolding sorted_wrt_map
      by (rule sorted_wrt_mono_rel [rotated]) (use selected_press_waits [OF ok(1), of _ now] in \<open>auto dest!: in_set_takeD\<close>)
    have "emitted_ok n gap now (last_emitted sp') (h @ map (Pair now) ?cs)"
      by (rule emitted_ok_more [OF ok(4) flush.hyps(2) lanes _ _ wait alone])
        (use after_submission_emitted [OF ok(1,2) 2(1)] empty in \<open>auto simp: Let_def\<close>)
    moreover have "map (Pair now) ?cs = map (\<lambda>e. (now, se_change e)) (accepted_edges ops now sp d)" by (simp add: 2(2))
    ultimately show ?thesis using after ok(3) by simp
  qed
next
  case (release t sp d pressed h now ls d')
  then have ok: "spacer_inv n ((!) pressed) sp" "length pressed = n" "sp_gap sp = gap" "emitted_ok n gap t (last_emitted sp) h" by auto
  let ?sp = "fold (\<lambda>l sp. note_release sp l now) ls (sp\<lparr>sp_queue := []\<rparr>)"
  let ?cs = "map (\<lambda>l. key_edge l False False) ls"
  have le: "length (last_emitted (sp\<lparr>sp_queue := []\<rparr>)) = n" using ok(1) by (simp add: spacer_inv_def)
  note fold = fold_note_release [OF le release.hyps(3), of now]
  have "emitted_ok n gap now (last_emitted ?sp) (h @ map (Pair now) ?cs)"
  proof (rule emitted_ok_more [OF ok(4) release.hyps(2)])
    show "sorted_wrt (\<lambda>a b. kc_down b \<longrightarrow> kc_lane a \<noteq> kc_lane b) ?cs" by (simp add: sorted_wrt_map)
  qed (use fold release.hyps(3) in \<open>auto simp: image_iff\<close>)
  moreover have "spacer_inv n m ?sp" for m
    using fold by (simp add: spacer_inv_def lane_queue_ok_def first_waits_def)
  moreover have "length (fold (\<lambda>l pressed. pressed[l := False]) ls pressed) = n" using ok(2) by (induction ls arbitrary: pressed) auto
  ultimately show ?case using fold ok(3) by (simp add: comp_def)
qed

text \<open>
  C28: presses keep their distance. However the keyboard uses its spacer - changes queued, flushes of which the device
  takes any part, and releases of everything, at any times that do not go back - a press that the device has taken
  comes at least \<open>gap\<close> after every earlier edge of its lane that it has taken, so that a game which polls the keys
  sees each release before the next press. (\<open>accept_run\<close>, \<open>service_run\<close> and \<open>release_run\<close> of \<open>Keyboard_Sink\<close> show that
  the keyboard uses its spacer in this way.)
\<close>

theorem spaced_presses_wait_gap:
  assumes "spacer_run ops n gap t sp d pressed h" and "j < i" and "i < length h"
    and "kc_lane (snd (h ! j)) = kc_lane (snd (h ! i))" and "kc_down (snd (h ! i))"
  shows "fst (h ! j) + gap \<le> fst (h ! i)"
  using spacer_run_ok [OF assms(1)] assms(2-5) by (auto simp: emitted_ok_def sorted_wrt_iff_nth_less)

section \<open>Draining\<close>

lemma flush_accepting:
  assumes inv: "spacer_inv n ((!) pressed) sp" "length pressed = n"
    and accepts: "\<And>cs. \<forall>c \<in> set cs. kc_lane c < n \<Longrightarrow> \<exists>d1. ko_submit ops cs d = (d1, Done (length cs)) \<and> P d1" and P: "P d"
    and due: "\<forall>e \<in> set (sp_queue sp). se_due e \<le> now"
    and run: "spacer_flush ops now sp d pressed = (sp', d', pressed', r)"
  shows "spacer_inv n ((!) pressed') sp' \<and> length pressed' = n \<and> sp_gap sp' = sp_gap sp \<and> P d' \<and>
    (\<forall>l < n. lane_target ((!) pressed') (sp_queue sp') l = lane_target ((!) pressed) (sp_queue sp) l) \<and>
    (\<forall>e \<in> set (sp_queue sp'). se_due e \<le> now + sp_gap sp) \<and>
    (sp_queue sp \<noteq> [] \<longrightarrow> length (sp_queue sp') < length (sp_queue sp)) \<and>
    (sp_queue sp = [] \<longrightarrow> sp_queue sp' = [])"
proof (cases "sp_queue sp = []")
  case True
  with run inv P show ?thesis by (simp add: spacer_flush_def)
next
  case False
  let ?sel = "flush_selection now sp"
  let ?batch = "map (\<lambda>i. se_change (sp_queue sp ! i)) ?sel"
  have some: "?sel \<noteq> []" by (rule flush_selection_nonempty [OF False due])
  have "\<forall>i \<in> set ?sel. i < length (sp_queue sp)"
    using select_ready_ge [of _ now 0 "sp_queue sp" "{}" "{}" False] by (auto simp: flush_selection_def)
  then have "\<forall>c \<in> set ?batch. kc_lane c < n" using inv(1) by (auto simp: spacer_inv_def)
  from accepts [OF this] obtain d1 where d1: "ko_submit ops ?batch d = (d1, Done (length ?batch))" "P d1" by blast
  obtain sp1 pr1 where after: "after_submission now sp pressed ?sel = (sp1, pr1)" by fastforce
  then have after': "after_submission now sp pressed (take (length ?sel) ?sel) = (sp1, pr1)" by simp
  have eq: "sp' = sp1" "pressed' = pr1" "d' = d1"
    using run False some d1 after by (auto simp: spacer_flush_def flush_selection_def [symmetric] Let_def)
  note ok = after_submission_ok [OF inv after']
  show ?thesis
    using ok some False d1(2) after_submission_due [OF after due] unfolding eq by simp
qed

lemma flushes_drain:
  assumes "spacer_inv n ((!) pressed) sp" and "length pressed = n" and "P d"
    and accepts: "\<And>d cs. P d \<Longrightarrow> \<forall>c \<in> set cs. kc_lane c < n \<Longrightarrow> \<exists>d1. ko_submit ops cs d = (d1, Done (length cs)) \<and> P d1"
    and "\<forall>e \<in> set (sp_queue sp). se_due e \<le> now" and "length (sp_queue sp) \<le> k"
    and "flush_times ops k now sp d pressed = (sp', d', pressed')"
  shows "sp_queue sp' = [] \<and> (\<forall>l < n. pressed' ! l = lane_target ((!) pressed) (sp_queue sp) l)"
  using assms(1-3,5-7)
proof (induction k arbitrary: now sp d pressed)
  case 0
  then show ?case by (simp add: lane_target_def)
next
  case (Suc k)
  obtain sp1 d1 pr1 r where run: "spacer_flush ops now sp d pressed = (sp1, d1, pr1, r)"
    by (metis prod_cases4)
  note ok = flush_accepting [where P = P, OF Suc.prems(1,2) accepts [OF Suc.prems(3)] Suc.prems(3,4) run]
  have "length (sp_queue sp1) \<le> k" using ok Suc.prems(5) by (cases "sp_queue sp = []") auto
  moreover have "flush_times ops k (now + sp_gap sp) sp1 d1 pr1 = (sp', d', pressed')"
    using Suc.prems(6) run by simp
  ultimately have "sp_queue sp' = [] \<and> (\<forall>l < n. pressed' ! l = lane_target ((!) pr1) (sp_queue sp1) l)"
    using ok by (intro Suc.IH) auto
  with ok show ?case by simp
qed

text \<open>A kernel that takes every write whole.\<close>

definition takes_all :: "('w, 'e) os_device \<Rightarrow> bool" where
  "takes_all dv \<longleftrightarrow> (\<forall>evs w. snd (os_write dv evs w) = Inr (length evs))"

lemma submit_takes_all:
  assumes "pending_write d = None \<and> length (keycodes d) = n \<and> takes_all (kernel d)" and "\<forall>c \<in> set cs. kc_lane c < n"
  shows "\<exists>d1. ko_submit linux_ops cs d = (d1, Done (length cs)) \<and>
    pending_write d1 = None \<and> length (keycodes d1) = n \<and> takes_all (kernel d1)"
proof -
  let ?evs = "change_events (keycodes d) cs"
  have enc: "encode_changes (keycodes d) cs = Done ?evs" using assms by (simp add: encode_changes_result)
  obtain w where w: "os_write (kernel d) ?evs (os_now (kernel d)) = (w, Inr (length ?evs))"
    using assms(1) unfolding takes_all_def by (metis prod.collapse)
  have "length ?evs = 2 * length cs" by simp
  with assms(1) enc w show ?thesis
    by (cases cs) (auto simp: linux_ops_def linux_submit_def submit_remaining_def submit_events_def takes_all_def Let_def)
qed



section \<open>Examples\<close>

text \<open>Lane 2 was released at 10; at 50 it is pressed again, with a gap of 100.\<close>

definition sample_spacer :: spacer where
  "sample_spacer = enqueue (note_release (spacer_new 4 100) 2 10) (key_edge 2 True True) 50 False"

lemma sample_spacer_eq:
  "sample_spacer = \<lparr>sp_gap = 100,
     sp_queue = [\<lparr>se_change = key_edge 2 True True, se_due = 110, se_spaced = True\<rparr>],
     last_emitted = [None, None, Some \<lparr>ee_at = 10, ee_spaced = False, ee_touch = False\<rparr>, None]\<rparr>"
  by (simp add: sample_spacer_def note_release_def spacer_new_def enqueue_def Let_def needs_gap_def
      eval_nat_numeral)

lemma sample_spacer_inv: "spacer_inv 4 ((!) (replicate 4 False)) sample_spacer"
  by (auto simp: sample_spacer_eq spacer_inv_def lane_queue_ok_def first_waits_def less_Suc_eq
      eval_nat_numeral)

lemma sample_selection: "flush_selection 110 sample_spacer = [0]"
  by (simp add: flush_selection_def sample_spacer_eq Let_def)

lemma enqueue_reaches_request_witness:
  "lane_target ((!) (replicate 4 False))
    (sp_queue (enqueue sample_spacer (key_edge 1 True True) 60 False)) 1"
  using enqueue_reaches_request [OF sample_spacer_inv, of "key_edge 1 True True" 60] by simp

text \<open>A uinput device whose kernel takes every write whole.\<close>

definition steady_uinput :: "input_event list uinput_sink" where
  "steady_uinput = \<lparr>keycodes = [30, 31, 32, 33], pending_write = None,
     kernel = \<lparr>os_now = [], os_write = (\<lambda>evs w. (w @ evs, Inr (length evs))), os_log = id\<rparr>\<rparr>"

lemma steady_uinput_simps [simp]:
  "pending_write steady_uinput = None" "keycodes steady_uinput = [30, 31, 32, 33]" "takes_all (kernel steady_uinput)"
  by (simp_all add: steady_uinput_def takes_all_def)

lemma sample_run: "spacer_run linux_ops 4 100 50 sample_spacer steady_uinput (replicate 4 False) [(10, key_edge 2 False False)]"
proof -
  have "spacer_run linux_ops 4 100 0 (spacer_new 4 100) steady_uinput (replicate 4 False) []" by (rule spacer_run.start)
  from spacer_run.release [OF this, of 10 "[2]" steady_uinput]
  have "spacer_run linux_ops 4 100 10 (note_release (spacer_new 4 100) 2 10) steady_uinput (replicate 4 False)
      [(10, key_edge 2 False False)]"
    by (simp add: eval_nat_numeral spacer_new_def)
  from spacer_run.ask [OF this, of 50 "key_edge 2 True True"]
  show ?thesis by (simp add: sample_spacer_def eval_nat_numeral)
qed

text \<open>A flush at 110 hands the press over: a hundred after the release, not at 50, when it was asked for.\<close>

lemma sample_accepted:
  "accepted_edges linux_ops 110 sample_spacer steady_uinput =
    [\<lparr>se_change = key_edge 2 True True, se_due = 110, se_spaced = True\<rparr>]"
proof -
  have "\<forall>c \<in> set [key_edge 2 True True]. kc_lane c < 4" by simp
  from submit_takes_all [OF _ this, of steady_uinput] obtain d where
    "ko_submit linux_ops [key_edge 2 True True] steady_uinput = (d, Done 1)" by auto
  then show ?thesis by (simp add: accepted_edges_def sample_selection) (simp add: sample_spacer_eq)
qed

theorem spaced_presses_wait_gap_witness:
  "\<exists>sp d pressed.
     spacer_run linux_ops 4 100 110 sp (d :: input_event list uinput_sink) pressed
       [(10, key_edge 2 False False), (110, key_edge 2 True True)] \<and>
     fst ([(10, key_edge 2 False False), (110, key_edge 2 True True)] ! 0) + 100 \<le> (110 :: instant)"
proof -
  let ?h = "[(10, key_edge 2 False False), (110, key_edge 2 True True)]"
  obtain sp d pressed r where flush: "spacer_flush linux_ops 110 sample_spacer steady_uinput (replicate 4 False) = (sp, d, pressed, r)"
    by (metis prod_cases4)
  from spacer_run.flush [OF sample_run _ flush]
  have run: "spacer_run linux_ops 4 100 110 sp d pressed ?h" by (simp add: sample_accepted)
  with spaced_presses_wait_gap [OF run, of 0 1] show ?thesis by auto
qed

theorem flush_keeps_slide_order_witness:
  "\<exists>sp. flush_selection 100 sp = [1] \<and> se_down (sp_queue sp ! 1)"
proof -
  let ?sp = "\<lparr>sp_gap = 100,
     sp_queue = [\<lparr>se_change = key_edge 1 True False, se_due = 200, se_spaced = True\<rparr>,
                 \<lparr>se_change = key_edge 3 True True, se_due = 0, se_spaced = False\<rparr>],
     last_emitted = [None, None, None, None]\<rparr>"
  have sel: "flush_selection 100 ?sp = [1]" by (simp add: flush_selection_def Let_def)
  show ?thesis
    using flush_keeps_slide_order [of 1 100 ?sp 0] sel by (intro exI [of _ ?sp]) simp
qed


end
