(* ===== verification/Keyboard_Sink.thy ===== *)
theory Keyboard_Sink
  imports Repress_Spacer
begin

text \<open>
  \<open>KeyboardSink\<close> of \<open>keyboard/mod.rs\<close>: it plans a frame, submits the key changes to the device
  behind the interface \<open>key_device\<close> (directly, or through the re-press spacer), and keeps what was
  applied, so that a frame the OS took only partly is finished by the retry. Shown here, for every
  way the OS can split or refuse the submissions: the sink's picture of the keys is the device's,
  an accepted frame leaves the state its snapshot prescribes, a retry continues where the last
  attempt stopped, a cancellation leaves no key down, and the spacer is only used in runs in which
  presses keep their distance.
\<close>

section \<open>State\<close>

record pending_frame =
  pf_sequence :: "u64 option"
  pf_next_state :: keyboard_state
  pf_changes :: "key_change list"
  pf_applied :: nat

record 'd keyboard_sink =
  kb_dev :: 'd
  kb_state :: keyboard_state
  kb_pressed :: "bool list"
  kb_pending :: pending_frame
  kb_spacer :: "spacer option"

text \<open>\<open>KeySink::new\<close>, which opens the device, is a parameter: it gives the device and its lanes.\<close>

definition keyboard_new ::
  "(rust_string list \<Rightarrow> (io_error, 'd \<times> nat) outcome) \<Rightarrow> rust_string list \<Rightarrow>
   (io_error, 'd keyboard_sink) outcome" where
  "keyboard_new open_sink keys =
    (if keys = [] then Fail (io_err InvalidInput) else
     and_then (validate_lane_keys keys) (\<lambda>_.
     and_then (open_sink keys) (\<lambda>(d, lanes).
       Done \<lparr>kb_dev = d, kb_state = keyboard_state_new lanes, kb_pressed = replicate lanes False,
             kb_pending = \<lparr>pf_sequence = None, pf_next_state = keyboard_state_new lanes,
                           pf_changes = [], pf_applied = 0\<rparr>,
             kb_spacer = None\<rparr>)))"

definition set_repress_gap :: "duration \<Rightarrow> 'd keyboard_sink \<Rightarrow> 'd keyboard_sink" where
  "set_repress_gap gap kb = kb\<lparr>kb_spacer := Some (spacer_new (length (kb_pressed kb)) gap)\<rparr>"

definition keyboard_lane_count :: "'d keyboard_sink \<Rightarrow> u8" where
  "keyboard_lane_count kb = of_nat (min (length (kb_pressed kb)) 255)"

definition has_active_input :: "'d key_ops \<Rightarrow> 'd keyboard_sink \<Rightarrow> bool" where
  "has_active_input ops kb \<longleftrightarrow> (\<exists>p \<in> set (kb_pressed kb). p) \<or> ko_pending ops (kb_dev kb) \<or>
     (case kb_spacer kb of None \<Rightarrow> False | Some sp \<Rightarrow> sp_queue sp \<noteq> [])"

definition keyboard_next_deadline :: "instant \<Rightarrow> 'd keyboard_sink \<Rightarrow> instant option" where
  "keyboard_next_deadline now kb =
     (case kb_spacer kb of None \<Rightarrow> None | Some sp \<Rightarrow> spacer_next_deadline sp now)"

section \<open>Releasing everything\<close>

definition clear_holds :: "keyboard_state \<Rightarrow> keyboard_state" where
  "clear_holds s = \<lparr>pointer_lanes = (\<lambda>_. None), pressure_suppressed = (\<lambda>_. False),
     lane_holds = replicate (length (lane_holds s)) 0\<rparr>"

definition note_released ::
  "instant \<Rightarrow> key_change \<Rightarrow> bool list \<times> spacer option \<Rightarrow> bool list \<times> spacer option" where
  "note_released now c s = (case s of (pressed, sp) \<Rightarrow>
     (pressed[kc_lane c := False], map_option (\<lambda>sp. note_release sp (kc_lane c) now) sp))"

definition release_all_with ::
  "'d key_ops \<Rightarrow> instant \<Rightarrow> 'd keyboard_sink \<Rightarrow> 'd keyboard_sink \<times> (io_error, unit) outcome" where
  "release_all_with ops now kb =
    (let changes = map (\<lambda>l. key_edge l False False)
                     (filter (\<lambda>l. kb_pressed kb ! l) [0..<length (kb_pressed kb)]);
         kb0 = kb\<lparr>kb_pending := (kb_pending kb)\<lparr>pf_sequence := None, pf_changes := changes, pf_applied := 0\<rparr>,
                  kb_spacer := map_option (\<lambda>sp. sp\<lparr>sp_queue := []\<rparr>) (kb_spacer kb)\<rparr>
     in if changes = [] then (kb0\<lparr>kb_state := clear_holds (kb_state kb0)\<rparr>, Done ()) else
     case ko_submit ops changes (kb_dev kb0) of
       (d, Panic) \<Rightarrow> (kb0\<lparr>kb_dev := d\<rparr>, Panic)
     | (d, Fail e) \<Rightarrow> (kb0\<lparr>kb_dev := d\<rparr>, Fail e)
     | (d, Done accepted) \<Rightarrow>
         if accepted > length changes then (kb0\<lparr>kb_dev := d\<rparr>, Fail (io_err InvalidData))
         else let (pressed, sp) = fold (note_released now) (take accepted changes)
                                    (kb_pressed kb0, kb_spacer kb0);
                  kb1 = kb0\<lparr>kb_dev := d, kb_pressed := pressed, kb_spacer := sp\<rparr>
              in if accepted \<noteq> length changes then (kb1, Fail (io_err OtherKind))
                 else (kb1\<lparr>kb_state := clear_holds (kb_state kb1)\<rparr>, Done ()))"

definition release_all ::
  "'d key_ops \<Rightarrow> instant \<Rightarrow> 'd keyboard_sink \<Rightarrow> 'd keyboard_sink \<times> (io_error, unit) outcome" where
  "release_all ops now kb =
    (case ko_discard ops (kb_dev kb) of
       (d, Done _) \<Rightarrow> release_all_with ops now (kb\<lparr>kb_dev := d\<rparr>)
     | (d, Fail e) \<Rightarrow> (kb\<lparr>kb_dev := d\<rparr>, Fail e)
     | (d, Panic) \<Rightarrow> (kb\<lparr>kb_dev := d\<rparr>, Panic))"

text \<open>
  The loop of \<open>Drop\<close>: at each of the instants at which it is tested it releases everything,
  until that succeeds, nothing is active any more or the deadline has passed.
\<close>

fun keyboard_drop ::
  "'d key_ops \<Rightarrow> instant \<Rightarrow> instant list \<Rightarrow> 'd keyboard_sink \<Rightarrow> 'd keyboard_sink" where
  "keyboard_drop ops deadline [] kb = kb"
| "keyboard_drop ops deadline (now # nows) kb =
    (if has_active_input ops kb \<and> now < deadline
     then (case release_all ops now kb of
             (kb', Done _) \<Rightarrow> kb'
           | (kb', _) \<Rightarrow> keyboard_drop ops deadline nows kb')
     else kb)"

section \<open>Accepting a frame\<close>

definition service_at ::
  "'d key_ops \<Rightarrow> instant \<Rightarrow> 'd keyboard_sink \<Rightarrow> 'd keyboard_sink \<times> (io_error, unit) outcome" where
  "service_at ops now kb =
    (case kb_spacer kb of
       None \<Rightarrow> (kb, Done ())
     | Some sp \<Rightarrow>
         (case spacer_flush ops now sp (kb_dev kb) (kb_pressed kb) of
            (sp', d, pressed, r) \<Rightarrow>
              (kb\<lparr>kb_spacer := Some sp', kb_dev := d, kb_pressed := pressed\<rparr>, r)))"

text \<open>\<open>mem::swap\<close> of the state with the planned one; the frame is no longer pending.\<close>

definition commit_plan :: "'d keyboard_sink \<Rightarrow> 'd keyboard_sink" where
  "commit_plan kb = kb\<lparr>kb_state := pf_next_state (kb_pending kb),
     kb_pending := (kb_pending kb)\<lparr>pf_sequence := None, pf_next_state := kb_state kb\<rparr>\<rparr>"

definition plan_pending :: "touch_frame \<Rightarrow> 'd keyboard_sink \<Rightarrow> 'd keyboard_sink" where
  "plan_pending f kb =
    (if pf_sequence (kb_pending kb) = None
     then (let (nxt, changes) =
             plan_into (kb_state kb) (length (kb_pressed kb)) f (kb_spacer kb \<noteq> None)
           in kb\<lparr>kb_pending := \<lparr>pf_sequence = Some (sequence f), pf_next_state = nxt,
                                pf_changes = changes, pf_applied = 0\<rparr>\<rparr>)
     else kb)"

text \<open>Submission through the spacer: the changes are queued once, then whatever is due is flushed.\<close>

definition submit_spaced ::
  "'d key_ops \<Rightarrow> instant \<Rightarrow> spacer \<Rightarrow> 'd keyboard_sink \<Rightarrow> 'd keyboard_sink \<times> (io_error, unit) outcome" where
  "submit_spaced ops now sp kb =
    (let pf = kb_pending kb;
         sp1 = fold (\<lambda>c sp. enqueue sp c now (kb_pressed kb ! kc_lane c))
                 (drop (pf_applied pf) (pf_changes pf)) sp;
         kb1 = kb\<lparr>kb_spacer := Some sp1, kb_pending := pf\<lparr>pf_applied := length (pf_changes pf)\<rparr>\<rparr>
     in case service_at ops now kb1 of
          (kb2, Done _) \<Rightarrow> (commit_plan kb2, Done ())
        | (kb2, r) \<Rightarrow> (kb2, r))"

text \<open>Submission without the spacer, from the first change that is not applied yet.\<close>

definition submit_direct ::
  "'d key_ops \<Rightarrow> 'd keyboard_sink \<Rightarrow> 'd keyboard_sink \<times> (io_error, unit) outcome" where
  "submit_direct ops kb =
    (let pf = kb_pending kb; remaining = drop (pf_applied pf) (pf_changes pf)
     in if remaining = [] then (commit_plan kb, Done ()) else
     case ko_submit ops remaining (kb_dev kb) of
       (d, Panic) \<Rightarrow> (kb\<lparr>kb_dev := d\<rparr>, Panic)
     | (d, Fail e) \<Rightarrow> (kb\<lparr>kb_dev := d\<rparr>, Fail e)
     | (d, Done accepted) \<Rightarrow>
         if accepted > length remaining then (kb\<lparr>kb_dev := d\<rparr>, Fail (io_err InvalidData))
         else let kb1 = kb\<lparr>kb_dev := d,
                    kb_pressed := fold (\<lambda>c pressed. pressed[kc_lane c := kc_down c])
                                    (take accepted remaining) (kb_pressed kb),
                    kb_pending := pf\<lparr>pf_applied := pf_applied pf + accepted\<rparr>\<rparr>
              in if accepted \<noteq> length remaining then (kb1, Fail (io_err OtherKind))
                 else (commit_plan kb1, Done ()))"

definition accept_at ::
  "'d key_ops \<Rightarrow> instant \<Rightarrow> touch_frame \<Rightarrow> 'd keyboard_sink \<Rightarrow> 'd keyboard_sink \<times> (io_error, unit) outcome" where
  "accept_at ops now f kb =
    (if session_start f \<or> action f = ACTION_CANCEL \<or> \<not> locked f then release_all ops now kb else
     case service_at ops now kb of
       (kb1, Panic) \<Rightarrow> (kb1, Panic)
     | (kb1, Fail e) \<Rightarrow> (kb1, Fail e)
     | (kb1, Done _) \<Rightarrow>
         if action f = ACTION_HEARTBEAT \<and> contacts f = [] then (kb1, Done ())
         else if (case pf_sequence (kb_pending kb1) of None \<Rightarrow> False | Some s \<Rightarrow> s \<noteq> sequence f)
              then (kb1, Fail (io_err OtherKind))
         else let kb2 = plan_pending f kb1
              in case kb_spacer kb2 of
                   Some sp \<Rightarrow> submit_spaced ops now sp kb2
                 | None \<Rightarrow> submit_direct ops kb2)"

section \<open>Invariants\<close>

text \<open>The key state the sink is heading for: what waits in the spacer counts as done.\<close>

fun heading_of :: "bool list \<Rightarrow> spacer option \<Rightarrow> nat \<Rightarrow> bool" where
  "heading_of pressed None = (!) pressed"
| "heading_of pressed (Some sp) = lane_target ((!) pressed) (sp_queue sp)"

definition heading :: "'d keyboard_sink \<Rightarrow> nat \<Rightarrow> bool" where
  "heading kb = heading_of (kb_pressed kb) (kb_spacer kb)"

fun spacer_ok :: "nat \<Rightarrow> bool list \<Rightarrow> spacer option \<Rightarrow> bool" where
  "spacer_ok n pressed None \<longleftrightarrow> True"
| "spacer_ok n pressed (Some sp) \<longleftrightarrow> spacer_inv n ((!) pressed) sp"

text \<open>
  \<open>kb_inv n pend kb\<close>: with no frame pending the keys head for exactly the held lanes; with the
  frame \<open>f\<close> pending, the changes not yet applied take them to the lanes held in its next state.
\<close>

definition kb_inv :: "nat \<Rightarrow> touch_frame option \<Rightarrow> 'd keyboard_sink \<Rightarrow> bool" where
  "kb_inv n pend kb \<longleftrightarrow> length (kb_pressed kb) = n \<and> lanes_ok n (kb_state kb) \<and>
     pf_sequence (kb_pending kb) = map_option sequence pend \<and>
     spacer_ok n (kb_pressed kb) (kb_spacer kb) \<and>
     (case pend of
        None \<Rightarrow> \<forall>l < n. heading kb l \<longleftrightarrow> lane_holds (kb_state kb) ! l \<noteq> 0
      | Some f \<Rightarrow>
          let pf = kb_pending kb; todo = drop (pf_applied pf) (pf_changes pf) in
          lanes_ok n (pf_next_state pf) \<and> pointer_lanes (pf_next_state pf) = snapshot_lanes n (contacts f) \<and>
          (\<forall>c \<in> set todo. kc_lane c < n) \<and>
          (\<forall>l < n. key_after (heading kb) todo l \<longleftrightarrow> lane_holds (pf_next_state pf) ! l \<noteq> 0))"

lemma commit_plan_simps [simp]:
  "kb_dev (commit_plan kb) = kb_dev kb" "kb_pressed (commit_plan kb) = kb_pressed kb"
  "kb_spacer (commit_plan kb) = kb_spacer kb" "heading (commit_plan kb) = heading kb"
  "kb_state (commit_plan kb) = pf_next_state (kb_pending kb)"
  "pf_sequence (kb_pending (commit_plan kb)) = None"
  by (simp_all add: commit_plan_def heading_def)

lemma plan_pending_simps [simp]:
  "kb_dev (plan_pending f kb) = kb_dev kb" "kb_pressed (plan_pending f kb) = kb_pressed kb"
  "kb_spacer (plan_pending f kb) = kb_spacer kb" "heading (plan_pending f kb) = heading kb"
  "kb_state (plan_pending f kb) = kb_state kb"
  by (simp_all add: plan_pending_def heading_def Let_def split: prod.split)

lemma kb_inv_dev [simp]: "kb_inv n pend (kb\<lparr>kb_dev := d\<rparr>) = kb_inv n pend kb"
  by (simp add: kb_inv_def heading_def Let_def split: option.split)

lemma key_after_pointwise:
  "\<forall>l < n. m l = m' l \<Longrightarrow> \<forall>c \<in> set cs. kc_lane c < n \<Longrightarrow> l < n \<Longrightarrow> key_after m cs l = key_after m' cs l"
  for l :: nat
  by (induction cs rule: rev_induct) auto

lemma fold_pressed:
  assumes "\<forall>c \<in> set cs. kc_lane c < length pressed"
  shows "length (fold (\<lambda>c pressed. pressed[kc_lane c := kc_down c]) cs pressed) = length pressed \<and>
    (\<forall>l < length pressed. fold (\<lambda>c pressed. pressed[kc_lane c := kc_down c]) cs pressed ! l =
       key_after ((!) pressed) cs l)"
  using assms
proof (induction cs rule: rev_induct)
  case (snoc c cs)
  then show ?case by (auto simp: nth_list_update)
qed simp

lemma fold_enqueue:
  assumes "spacer_inv n m sp" and "\<forall>c \<in> set cs. kc_lane c < n"
  shows "spacer_inv n m (fold (\<lambda>c sp. enqueue sp c now (m (kc_lane c))) cs sp) \<and>
    lane_target m (sp_queue (fold (\<lambda>c sp. enqueue sp c now (m (kc_lane c))) cs sp)) =
      key_after (lane_target m (sp_queue sp)) cs"
  using assms
proof (induction cs arbitrary: sp)
  case (Cons c cs)
  note step = spacer_inv_enqueue [OF Cons.prems(1), of c now]
  have "spacer_inv n m (fold (\<lambda>c sp. enqueue sp c now (m (kc_lane c))) cs (enqueue sp c now (m (kc_lane c)))) \<and>
    lane_target m (sp_queue (fold (\<lambda>c sp. enqueue sp c now (m (kc_lane c))) cs (enqueue sp c now (m (kc_lane c))))) =
      key_after (lane_target m (sp_queue (enqueue sp c now (m (kc_lane c))))) cs"
    using step Cons.prems(2) by (intro Cons.IH) auto
  with step Cons.prems(2) show ?case by (simp add: key_after_Cons del: fun_upd_apply)
qed simp

lemma key_after_ups:
  "\<forall>c \<in> set cs. \<not> kc_down c \<Longrightarrow> key_after m cs l \<longleftrightarrow> m l \<and> l \<notin> kc_lane ` set cs"
  by (induction cs rule: rev_induct) auto

lemma key_after_take:
  "\<forall>l < n. key_after m cs l = g l \<Longrightarrow> \<forall>c \<in> set cs. kc_lane c < n \<Longrightarrow> \<forall>l < n. m' l = key_after m (take k cs) l \<Longrightarrow>
   \<forall>l < n. key_after m' (drop k cs) l = g l"
proof (intro allI impI)
  fix l assume a: "\<forall>l < n. key_after m cs l = g l" "\<forall>c \<in> set cs. kc_lane c < n"
    "\<forall>l < n. m' l = key_after m (take k cs) l" "l < n"
  have "key_after m' (drop k cs) l = key_after (key_after m (take k cs)) (drop k cs) l"
    by (rule key_after_pointwise [of n]) (use a in \<open>auto dest: in_set_dropD\<close>)
  also have "\<dots> = key_after m cs l" by (simp add: key_after_append [symmetric])
  finally show "key_after m' (drop k cs) l = g l" using a by simp
qed

definition gameplay :: "touch_frame \<Rightarrow> bool" where
  "gameplay f \<longleftrightarrow> \<not> session_start f \<and> action f \<noteq> ACTION_CANCEL \<and> locked f \<and>
     \<not> (action f = ACTION_HEARTBEAT \<and> contacts f = []) \<and> distinct (map pointer_id (contacts f))"

context key_device
begin

text \<open>The sink's picture is the device's.\<close>

definition mirrors :: "nat \<Rightarrow> 'd \<Rightarrow> bool list \<Rightarrow> bool" where
  "mirrors n d pressed \<longleftrightarrow> lanes d = n \<and> length pressed = n \<and> related d ((!) pressed)"

lemma submit_mirrors:
  assumes m: "mirrors n d pressed" and cs: "\<forall>c \<in> set cs. kc_lane c < n"
    and run: "ko_submit ops cs d = (d', r)"
  shows "r \<noteq> Panic" and "r = Fail e \<Longrightarrow> mirrors n d' pressed"
    and "r = Done k \<Longrightarrow> length pressed' = n \<Longrightarrow>
      \<forall>l < n. pressed' ! l = key_after ((!) pressed) (take k cs) l \<Longrightarrow>
      k \<le> length cs \<and> mirrors n d' pressed'"
proof -
  have rel: "related d ((!) pressed)" and n: "lanes d = n" "length pressed = n"
    using m by (auto simp: mirrors_def)
  have cs': "\<forall>c \<in> set cs. kc_lane c < lanes d" using cs n by simp
  have n': "lanes d' = n" using submit_lanes [OF run] n by simp
  show "r \<noteq> Panic" using submit_no_panic [OF rel cs'] run by simp
  show "r = Fail e \<Longrightarrow> mirrors n d' pressed"
    using submit_fail [OF rel _ cs'] run n n' by (simp add: mirrors_def)
  assume "r = Done k" and new: "length pressed' = n" "\<forall>l < n. pressed' ! l = key_after ((!) pressed) (take k cs) l"
  then have "k \<le> length cs \<and> related d' (key_after ((!) pressed) (take k cs))"
    using submit_done [OF rel _ cs'] run by simp
  then show "k \<le> length cs \<and> mirrors n d' pressed'"
    using related_cong [of d' "key_after ((!) pressed) (take k cs)" "(!) pressed'"] new n'
    by (simp add: mirrors_def)
qed

lemma flush_mirrors:
  assumes m: "mirrors n d pressed" and inv: "spacer_inv n ((!) pressed) sp"
    and run: "spacer_flush ops now sp d pressed = (sp', d', pressed', r)"
  shows "r \<noteq> Panic \<and> mirrors n d' pressed' \<and> spacer_inv n ((!) pressed') sp' \<and>
    (\<forall>l < n. lane_target ((!) pressed') (sp_queue sp') l = lane_target ((!) pressed) (sp_queue sp) l)"
proof -
  let ?sel = "flush_selection now sp"
  let ?batch = "map (\<lambda>i. se_change (sp_queue sp ! i)) ?sel"
  have len: "length pressed = n" using m by (simp add: mirrors_def)
  show ?thesis
  proof (cases "sp_queue sp = [] \<or> ?batch = []")
    case True
    then have "sp' = sp \<and> d' = d \<and> pressed' = pressed \<and> r = Done ()"
      using run by (auto simp: spacer_flush_def flush_selection_def Let_def split: if_splits)
    with m inv show ?thesis by simp
  next
    case False
    have in_range: "\<forall>c \<in> set ?batch. kc_lane c < n"
    proof -
      have "\<forall>i \<in> set ?sel. i < length (sp_queue sp)"
        using select_ready_ge by (fastforce simp: flush_selection_def)
      then show ?thesis using inv by (auto simp: spacer_inv_def)
    qed
    obtain d1 r1 where sub: "ko_submit ops ?batch d = (d1, r1)" by fastforce
    note ok = submit_mirrors [OF m in_range sub]
    show ?thesis
    proof (cases r1)
      case (Fail e)
      then have "sp' = sp \<and> d' = d1 \<and> pressed' = pressed \<and> r = Fail e"
        using run False sub by (auto simp: spacer_flush_def flush_selection_def [symmetric] Let_def)
      with ok(2) [OF Fail] inv show ?thesis by simp
    next
      case Panic
      with ok(1) show ?thesis by simp
    next
      case (Done k)
      obtain sp1 pr1 where after: "after_submission now sp pressed (take k ?sel) = (sp1, pr1)" by fastforce
      note book = after_submission_ok [OF inv len after]
      have keys: "\<forall>l < n. pr1 ! l = key_after ((!) pressed) (take k ?batch) l"
        using book(4) by (simp add: take_map)
      have k: "k \<le> length ?batch" and m1: "mirrors n d1 pr1" using ok(3) [OF Done book(2) keys] by auto
      have "sp' = sp1 \<and> d' = d1 \<and> pressed' = pr1 \<and> r \<noteq> Panic"
        using run False sub Done k after
        by (auto simp: spacer_flush_def flush_selection_def [symmetric] Let_def split: if_splits)
      with m1 book show ?thesis by simp
    qed
  qed
qed

lemma service_ok:
  assumes m: "mirrors n (kb_dev kb) (kb_pressed kb)" and inv: "kb_inv n pend kb"
    and run: "service_at ops now kb = (kb', r)"
  shows "r \<noteq> Panic \<and> mirrors n (kb_dev kb') (kb_pressed kb') \<and> kb_inv n pend kb' \<and>
    kb_state kb' = kb_state kb \<and> kb_pending kb' = kb_pending kb \<and>
    (kb_spacer kb' = None \<longleftrightarrow> kb_spacer kb = None) \<and> (\<forall>l < n. heading kb' l = heading kb l)"
proof (cases "kb_spacer kb")
  case None
  with run m inv show ?thesis by (auto simp: service_at_def)
next
  case (Some sp)
  obtain sp' d pressed where fl: "spacer_flush ops now sp (kb_dev kb) (kb_pressed kb) = (sp', d, pressed, r)"
    and kb': "kb' = kb\<lparr>kb_spacer := Some sp', kb_dev := d, kb_pressed := pressed\<rparr>"
    using run Some by (auto simp: service_at_def split: prod.splits)
  have sp: "spacer_inv n ((!) (kb_pressed kb)) sp" using inv Some by (simp add: kb_inv_def)
  note ok = flush_mirrors [OF m sp fl]
  have heading: "\<forall>l < n. heading kb' l = heading kb l" using ok Some by (simp add: heading_def kb')
  have keys: "key_after (heading kb') cs l = key_after (heading kb) cs l"
    if "\<forall>c \<in> set cs. kc_lane c < n" "l < n" for cs l
    by (rule key_after_pointwise [OF heading that])
  have "kb_inv n pend kb'"
  proof (cases pend)
    case None
    then show ?thesis using inv ok heading Some by (auto simp: kb_inv_def kb' mirrors_def)
  next
    case (Some f)
    then show ?thesis using inv ok keys \<open>kb_spacer kb = Some sp\<close>
      by (auto simp: kb_inv_def Let_def mirrors_def) (simp_all add: kb')
  qed
  with ok heading Some show ?thesis by (simp add: kb')
qed

lemma submit_direct_ok:
  assumes m: "mirrors n (kb_dev kb) (kb_pressed kb)" and inv: "kb_inv n (Some f) kb"
    and none: "kb_spacer kb = None" and run: "submit_direct ops kb = (kb', r)"
  shows "r \<noteq> Panic \<and> mirrors n (kb_dev kb') (kb_pressed kb') \<and>
    (r = Done () \<longrightarrow> kb_inv n None kb' \<and> pointer_lanes (kb_state kb') = snapshot_lanes n (contacts f)) \<and>
    (\<forall>e. r = Fail e \<longrightarrow> kb_inv n (Some f) kb')"
proof -
  let ?pf = "kb_pending kb"
  let ?todo = "drop (pf_applied ?pf) (pf_changes ?pf)"
  have len: "length (kb_pressed kb) = n" using m by (simp add: mirrors_def)
  have todo: "\<forall>c \<in> set ?todo. kc_lane c < n" and next_ok: "lanes_ok n (pf_next_state ?pf)"
    and snap: "pointer_lanes (pf_next_state ?pf) = snapshot_lanes n (contacts f)"
    and keys: "\<forall>l < n. key_after ((!) (kb_pressed kb)) ?todo l = (lane_holds (pf_next_state ?pf) ! l \<noteq> 0)"
    using inv none by (auto simp: kb_inv_def Let_def heading_def)
  have finish: "kb_inv n None (commit_plan k) \<and> pointer_lanes (kb_state (commit_plan k)) = snapshot_lanes n (contacts f)"
    if "length (kb_pressed k) = n" "kb_spacer k = None" "pf_next_state (kb_pending k) = pf_next_state ?pf"
      "\<forall>l < n. kb_pressed k ! l = (lane_holds (pf_next_state ?pf) ! l \<noteq> 0)" for k :: "'d keyboard_sink"
    using that next_ok snap by (simp add: kb_inv_def) (simp add: heading_def)
  show ?thesis
  proof (cases "?todo = []")
    case True
    then have "kb' = commit_plan kb" "r = Done ()" using run by (auto simp: submit_direct_def Let_def)
    then show ?thesis using finish [of kb] len none keys True m by (simp add: commit_plan_def)
  next
    case False
    obtain d r1 where sub: "ko_submit ops ?todo (kb_dev kb) = (d, r1)" by fastforce
    note ok = submit_mirrors [OF m todo sub]
    show ?thesis
    proof (cases r1)
      case Panic
      with ok(1) show ?thesis by simp
    next
      case (Fail e)
      then have "kb' = kb\<lparr>kb_dev := d\<rparr>" "r = Fail e"
        using run False sub by (auto simp: submit_direct_def Let_def)
      with ok(2) [OF Fail] inv show ?thesis by simp
    next
      case (Done k)
      let ?pressed = "fold (\<lambda>c pressed. pressed[kc_lane c := kc_down c]) (take k ?todo) (kb_pressed kb)"
      let ?kb1 = "kb\<lparr>kb_dev := d, kb_pressed := ?pressed, kb_pending := ?pf\<lparr>pf_applied := pf_applied ?pf + k\<rparr>\<rparr>"
      have pr: "length ?pressed = n" "\<forall>l < n. ?pressed ! l = key_after ((!) (kb_pressed kb)) (take k ?todo) l"
        using fold_pressed [of "take k ?todo" "kb_pressed kb"] todo len by (auto dest: in_set_takeD)
      have k: "k \<le> length ?todo" and m1: "mirrors n d ?pressed" using ok(3) [OF Done pr] by auto
      have res: "(kb', r) = (if k \<noteq> length ?todo then (?kb1, Fail (io_err OtherKind)) else (commit_plan ?kb1, Done ()))"
        using run False sub Done k by (simp add: submit_direct_def Let_def)
      show ?thesis
      proof (cases "k = length ?todo")
        case True
        have "\<forall>l < n. ?pressed ! l = (lane_holds (pf_next_state ?pf) ! l \<noteq> 0)" using pr keys True by simp
        with finish [of ?kb1] res True m1 pr(1) none show ?thesis by (simp add: commit_plan_def)
      next
        case partial: False
        have "drop (pf_applied ?pf + k) (pf_changes ?pf) = drop k ?todo" by (simp add: add.commute)
        moreover have "\<forall>l < n. key_after ((!) ?pressed) (drop k ?todo) l = (lane_holds (pf_next_state ?pf) ! l \<noteq> 0)"
          by (rule key_after_take [OF keys todo pr(2)])
        moreover have "\<forall>c \<in> set (drop k ?todo). kc_lane c < n" using todo by (meson in_set_dropD)
        ultimately have "kb_inv n (Some f) ?kb1"
          using inv pr(1) none next_ok snap by (simp add: kb_inv_def heading_def Let_def)
        with res partial m1 show ?thesis by simp
      qed
    qed
  qed
qed

lemma submit_spaced_ok:
  assumes m: "mirrors n (kb_dev kb) (kb_pressed kb)" and inv: "kb_inv n (Some f) kb"
    and some: "kb_spacer kb = Some sp" and run: "submit_spaced ops now sp kb = (kb', r)"
  shows "r \<noteq> Panic \<and> mirrors n (kb_dev kb') (kb_pressed kb') \<and>
    (r = Done () \<longrightarrow> kb_inv n None kb' \<and> pointer_lanes (kb_state kb') = snapshot_lanes n (contacts f)) \<and>
    (\<forall>e. r = Fail e \<longrightarrow> kb_inv n (Some f) kb')"
proof -
  let ?pf = "kb_pending kb"
  let ?todo = "drop (pf_applied ?pf) (pf_changes ?pf)"
  let ?sp = "fold (\<lambda>c sp. enqueue sp c now (kb_pressed kb ! kc_lane c)) ?todo sp"
  let ?kb1 = "kb\<lparr>kb_spacer := Some ?sp, kb_pending := ?pf\<lparr>pf_applied := length (pf_changes ?pf)\<rparr>\<rparr>"
  have todo: "\<forall>c \<in> set ?todo. kc_lane c < n" and next_ok: "lanes_ok n (pf_next_state ?pf)"
    and snap: "pointer_lanes (pf_next_state ?pf) = snapshot_lanes n (contacts f)"
    and keys: "\<forall>l < n. key_after (lane_target ((!) (kb_pressed kb)) (sp_queue sp)) ?todo l =
      (lane_holds (pf_next_state ?pf) ! l \<noteq> 0)"
    and sp: "spacer_inv n ((!) (kb_pressed kb)) sp"
    using inv some by (auto simp: kb_inv_def Let_def heading_def)
  note queued = fold_enqueue [OF sp todo, of now]
  have inv1: "kb_inv n (Some f) ?kb1"
    using inv queued keys next_ok snap some by (simp add: kb_inv_def heading_def Let_def)
  obtain kb2 r2 where serv: "service_at ops now ?kb1 = (kb2, r2)" by fastforce
  have ok: "r2 \<noteq> Panic \<and> mirrors n (kb_dev kb2) (kb_pressed kb2) \<and> kb_inv n (Some f) kb2 \<and>
    kb_state kb2 = kb_state ?kb1 \<and> kb_pending kb2 = kb_pending ?kb1 \<and>
    (\<forall>l < n. heading kb2 l = heading ?kb1 l)"
    using service_ok [OF _ inv1 serv] m by simp
  have finished: "kb_inv n None (commit_plan kb2)"
  proof -
    have "spacer_ok n (kb_pressed kb2) (kb_spacer kb2)" and "length (kb_pressed kb2) = n"
      using ok by (auto simp: kb_inv_def)
    moreover have "\<forall>l < n. heading kb2 l = (lane_holds (pf_next_state ?pf) ! l \<noteq> 0)"
      using ok queued keys by (simp add: heading_def del: drop_eq_Nil)
    ultimately show ?thesis
      using next_ok ok by (simp add: kb_inv_def)
  qed
  have snap': "pointer_lanes (kb_state (commit_plan kb2)) = snapshot_lanes n (contacts f)"
    using ok snap by (simp add: commit_plan_def)
  show ?thesis
  proof (cases r2)
    case (Done u)
    then have "kb' = commit_plan kb2" "r = Done ()"
      using run serv by (simp_all add: submit_spaced_def Let_def)
    with ok finished snap' show ?thesis by (simp add: commit_plan_def)
  next
    case (Fail e)
    then have "kb' = kb2" "r = Fail e" using run serv by (simp_all add: submit_spaced_def Let_def)
    with ok show ?thesis by simp
  qed (use ok in simp)
qed

lemma plan_pending_inv:
  assumes inv: "kb_inv n pend kb" and pend: "pend = None \<or> pend = Some f"
    and d: "distinct (map pointer_id (contacts f))"
  shows "kb_inv n (Some f) (plan_pending f kb)"
proof (cases pend)
  case None
  obtain nxt changes where plan: "plan_into (kb_state kb) n f (kb_spacer kb \<noteq> None) = (nxt, changes)"
    by fastforce
  have ok: "lanes_ok n (kb_state kb)" and len: "length (kb_pressed kb) = n"
    and keys: "\<forall>l < n. heading kb l = (lane_holds (kb_state kb) ! l \<noteq> 0)"
    and seq: "pf_sequence (kb_pending kb) = None"
    using inv None by (auto simp: kb_inv_def)
  have "lanes_ok n nxt \<and> pointer_lanes nxt = snapshot_lanes n (contacts f)"
    by (rule plan_parts [OF ok _ d, of "\<lambda>l. lane_holds (kb_state kb) ! l \<noteq> 0" "{}" "kb_spacer kb \<noteq> None"])
      (use plan in \<open>auto simp: steady_def\<close>)
  moreover have "(\<forall>l < n. key_after (heading kb) changes l = (lane_holds nxt ! l \<noteq> 0)) \<and>
      (\<forall>k \<in> set changes. kc_lane k < n)"
    by (rule plan_keys [OF ok d keys plan])
  moreover have "kb_pending (plan_pending f kb) = \<lparr>pf_sequence = Some (sequence f), pf_next_state = nxt,
      pf_changes = changes, pf_applied = 0\<rparr>"
    using seq plan len by (simp add: plan_pending_def)
  ultimately show ?thesis
    using inv len ok unfolding kb_inv_def by (simp add: Let_def)
next
  case (Some g)
  with pend inv show ?thesis by (simp add: plan_pending_def kb_inv_def)
qed

lemma accept_ok:
  assumes m: "mirrors n (kb_dev kb) (kb_pressed kb)" and inv: "kb_inv n pend kb"
    and pend: "pend = None \<or> pend = Some f" and f: "gameplay f" and run: "accept_at ops now f kb = (kb', r)"
  shows "r \<noteq> Panic \<and> mirrors n (kb_dev kb') (kb_pressed kb') \<and>
    (r = Done () \<longrightarrow> kb_inv n None kb' \<and> pointer_lanes (kb_state kb') = snapshot_lanes n (contacts f)) \<and>
    (\<forall>e. r = Fail e \<longrightarrow> kb_inv n pend kb' \<or> kb_inv n (Some f) kb')"
proof -
  obtain kb1 r1 where serv: "service_at ops now kb = (kb1, r1)" by fastforce
  note ok1 = service_ok [OF m inv serv]
  show ?thesis
  proof (cases r1)
    case (Fail e)
    with run f serv ok1 show ?thesis by (auto simp: accept_at_def gameplay_def)
  next
    case Panic
    with ok1 show ?thesis by simp
  next
    case (Done u)
    let ?kb2 = "plan_pending f kb1"
    have inv2: "kb_inv n (Some f) ?kb2"
      using plan_pending_inv [of n pend kb1 f] ok1 pend f by (simp add: gameplay_def)
    have m2: "mirrors n (kb_dev ?kb2) (kb_pressed ?kb2)"
      using ok1 by (simp add: plan_pending_def split: prod.split)
    have "pf_sequence (kb_pending kb1) = None \<or> pf_sequence (kb_pending kb1) = Some (sequence f)"
      using ok1 inv pend by (auto simp: kb_inv_def)
    then have run2: "(case kb_spacer ?kb2 of Some sp \<Rightarrow> submit_spaced ops now sp ?kb2
        | None \<Rightarrow> submit_direct ops ?kb2) = (kb', r)"
      using run f serv Done by (auto simp: accept_at_def gameplay_def Let_def)
    show ?thesis
    proof (cases "kb_spacer ?kb2")
      case None
      with submit_direct_ok [OF m2 inv2 None] run2 show ?thesis by simp
    next
      case (Some sp)
      with submit_spaced_ok [OF m2 inv2 Some] run2 show ?thesis by simp
    qed
  qed
qed

text \<open>The weaker picture while cancelling: every key that is down at the device is known.\<close>

definition covers :: "nat \<Rightarrow> 'd keyboard_sink \<Rightarrow> bool" where
  "covers n kb \<longleftrightarrow> 0 < n \<and> lanes (kb_dev kb) = n \<and> length (kb_pressed kb) = n \<and>
     length (lane_holds (kb_state kb)) = n \<and>
     (\<forall>sp. kb_spacer kb = Some sp \<longrightarrow> length (last_emitted sp) = n) \<and>
     (\<exists>m. related (kb_dev kb) m \<and> (\<forall>l < n. m l \<longrightarrow> kb_pressed kb ! l))"

lemma covers_mirrors:
  "mirrors n (kb_dev kb) (kb_pressed kb) \<Longrightarrow> kb_inv n pend kb \<Longrightarrow> covers n kb"
  by (cases "kb_spacer kb") (auto simp: covers_def mirrors_def kb_inv_def lanes_ok_def spacer_inv_def)

lemma fold_note_released:
  "fst (fold (note_released now) cs (pressed, sp)) = fold (\<lambda>c pressed. pressed[kc_lane c := False]) cs pressed \<and>
   (case snd (fold (note_released now) cs (pressed, sp)) of None \<Rightarrow> sp = None
    | Some s' \<Rightarrow> \<exists>s. sp = Some s \<and> sp_queue s' = sp_queue s \<and> length (last_emitted s') = length (last_emitted s))"
proof (induction cs rule: rev_induct)
  case Nil
  then show ?case by (simp split: option.split)
next
  case (snoc c cs)
  obtain pr s where "fold (note_released now) cs (pressed, sp) = (pr, s)" by fastforce
  moreover have "note_released now c (pr, s) =
      (pr[kc_lane c := False], map_option (\<lambda>sp. note_release sp (kc_lane c) now) s)"
    by (simp add: note_released_def)
  ultimately show ?case using snoc by (cases s) (auto simp: note_release_def)
qed

lemma lanes_ok_clear: "0 < length (lane_holds s) \<Longrightarrow> lanes_ok (length (lane_holds s)) (clear_holds s)"
  by (simp add: lanes_ok_def clear_holds_def held_count_def hold_def)

text \<open>What a release that got through to a set of lanes leaves.\<close>

definition released :: "nat \<Rightarrow> 'd keyboard_sink \<Rightarrow> bool" where
  "released n kb \<longleftrightarrow> \<not> has_active_input ops kb \<and> (\<forall>l < n. \<not> kb_pressed kb ! l) \<and> mirrors n (kb_dev kb) (kb_pressed kb) \<and>
     kb_inv n None kb \<and> (\<forall>pid. pointer_lanes (kb_state kb) pid = None)"

lemma release_all_with_ok:
  assumes cov: "covers n kb" and idle: "\<not> ko_pending ops (kb_dev kb)" and run: "release_all_with ops now kb = (kb', r)"
  shows "r \<noteq> Panic \<and> covers n kb' \<and> (\<forall>l < n. kb_pressed kb' ! l \<longrightarrow> kb_pressed kb ! l) \<and>
    pf_sequence (kb_pending kb') = None \<and> (r = Done () \<longrightarrow> released n kb')"
proof -
  define changes where "changes = map (\<lambda>l. key_edge l False False)
      (filter (\<lambda>l. kb_pressed kb ! l) [0..<length (kb_pressed kb)])"
  define kb0 where "kb0 = kb\<lparr>kb_pending := (kb_pending kb)\<lparr>pf_sequence := None, pf_changes := changes, pf_applied := 0\<rparr>,
      kb_spacer := map_option (\<lambda>sp. sp\<lparr>sp_queue := []\<rparr>) (kb_spacer kb)\<rparr>"
  obtain m where n: "0 < n" "lanes (kb_dev kb) = n" "length (kb_pressed kb) = n" "length (lane_holds (kb_state kb)) = n"
    and sp: "\<forall>sp. kb_spacer kb = Some sp \<longrightarrow> length (last_emitted sp) = n"
    and rel: "related (kb_dev kb) m" and m: "\<forall>l < n. m l \<longrightarrow> kb_pressed kb ! l"
    using cov by (auto simp: covers_def)
  have in_range: "\<forall>c \<in> set changes. kc_lane c < lanes (kb_dev kb)" using n by (auto simp: changes_def)
  have ups: "\<forall>c \<in> set changes. \<not> kc_down c" by (auto simp: changes_def)
  have sp0: "spacer_ok n pressed (kb_spacer kb0)" for pressed
    using sp by (cases "kb_spacer kb") (auto simp: kb0_def spacer_inv_def lane_queue_ok_def first_waits_def)
  have released_if: "released n (k\<lparr>kb_state := clear_holds (kb_state k)\<rparr>)"
    if "lanes (kb_dev k) = n" "length (kb_pressed k) = n" "\<forall>l < n. \<not> kb_pressed k ! l" "related (kb_dev k) m'"
      "\<forall>l < n. m' l \<longrightarrow> kb_pressed k ! l" "pf_sequence (kb_pending k) = None" "kb_state k = kb_state kb"
      "spacer_ok n (kb_pressed k) (kb_spacer k)" "\<forall>sp. kb_spacer k = Some sp \<longrightarrow> sp_queue sp = []"
      "\<not> ko_pending ops (kb_dev k)"
    for k :: "'d keyboard_sink" and m'
  proof -
    have "related (kb_dev k) ((!) (kb_pressed k))"
      using that(1,3,5) by (intro related_cong [OF that(4)]) auto
    moreover have "heading k l = kb_pressed k ! l" for l
      using that(9) by (cases "kb_spacer k") (auto simp: heading_def lane_target_def)
    moreover have "lanes_ok n (clear_holds (kb_state k))" using lanes_ok_clear [of "kb_state k"] n that(7) by simp
    moreover have "\<not> has_active_input ops k"
      using that(2,3,9,10) by (cases "kb_spacer k") (auto simp: has_active_input_def in_set_conv_nth)
    then have "\<not> has_active_input ops (k\<lparr>kb_state := clear_holds (kb_state k)\<rparr>)"
      by (auto simp: has_active_input_def)
    ultimately show ?thesis
      using that n by (auto simp: released_def mirrors_def kb_inv_def heading_def clear_holds_def)
  qed
  show ?thesis
  proof (cases "changes = []")
    case True
    then have eq: "kb' = kb0\<lparr>kb_state := clear_holds (kb_state kb0)\<rparr>" "r = Done ()"
      using run unfolding release_all_with_def Let_def changes_def [symmetric] kb0_def [symmetric] by simp_all
    have up: "\<forall>l < n. \<not> kb_pressed kb ! l" using True n by (auto simp: changes_def filter_empty_conv)
    have "released n kb'" unfolding eq
      by (rule released_if [where m' = m]) (use rel n up m sp0 idle in \<open>auto simp: kb0_def\<close>)
    moreover have "covers n kb'" using calculation covers_mirrors unfolding released_def by blast
    ultimately show ?thesis using up by (simp add: eq kb0_def)
  next
    case False
    obtain d r1 where sub: "ko_submit ops changes (kb_dev kb) = (d, r1)" by fastforce
    have lanes_d: "lanes d = n" using submit_lanes [OF sub] n by simp
    have dev0: "kb_dev kb0 = kb_dev kb" "kb_pressed kb0 = kb_pressed kb" by (simp_all add: kb0_def)
    show ?thesis
    proof (cases r1)
      case Panic
      with submit_no_panic [OF rel in_range] sub show ?thesis by simp
    next
      case (Fail e)
      then have eq: "kb' = kb0\<lparr>kb_dev := d\<rparr>" "r = Fail e"
        using run False sub unfolding release_all_with_def Let_def changes_def [symmetric] kb0_def [symmetric] dev0
        by simp_all
      have "related d m" using submit_fail [OF rel _ in_range] sub Fail by simp
      with n m sp lanes_d show ?thesis unfolding eq covers_def by (auto simp: kb0_def)
    next
      case (Done k)
      have k: "k \<le> length changes" and rel': "related d (key_after m (take k changes))"
        using submit_done [OF rel _ in_range] sub Done by auto
      obtain pr s where f: "fold (note_released now) (take k changes) (kb_pressed kb, kb_spacer kb0) = (pr, s)"
        by fastforce
      define kb1 where "kb1 = kb0\<lparr>kb_dev := d, kb_pressed := pr, kb_spacer := s\<rparr>"
      have pr: "pr = fold (\<lambda>c pressed. pressed[kc_lane c := False]) (take k changes) (kb_pressed kb)"
        and s: "case s of None \<Rightarrow> kb_spacer kb0 = None | Some s' \<Rightarrow> \<exists>s. kb_spacer kb0 = Some s \<and>
          sp_queue s' = sp_queue s \<and> length (last_emitted s') = length (last_emitted s)"
        using fold_note_released [of now "take k changes" "kb_pressed kb" "kb_spacer kb0"] f by auto
      have ups_k: "\<forall>c \<in> set (take k changes). \<not> kc_down c" using ups by (meson in_set_takeD)
      have pr_fold: "pr = fold (\<lambda>c pressed. pressed[kc_lane c := kc_down c]) (take k changes) (kb_pressed kb)"
        unfolding pr using ups_k by (intro fold_cong) auto
      have "\<forall>c \<in> set (take k changes). kc_lane c < length (kb_pressed kb)"
        using in_range n by (auto dest: in_set_takeD)
      then have len_pr: "length pr = n"
        and pr_keys: "\<forall>l < n. pr ! l \<longleftrightarrow> kb_pressed kb ! l \<and> l \<notin> kc_lane ` set (take k changes)"
        using fold_pressed [of "take k changes" "kb_pressed kb"] n key_after_ups [OF ups_k]
        unfolding pr_fold by auto
      have m_keys: "\<forall>l < n. key_after m (take k changes) l \<longrightarrow> pr ! l"
        using m pr_keys key_after_ups [OF ups_k, of m] by blast
      have s_ok: "\<forall>sp. s = Some sp \<longrightarrow> sp_queue sp = [] \<and> length (last_emitted sp) = n"
        using s sp by (auto simp: kb0_def split: option.splits)
      have cov1: "covers n kb1"
        using n len_pr lanes_d rel' m_keys s_ok by (auto simp: covers_def kb1_def kb0_def)
      have res: "(kb', r) = (if k \<noteq> length changes then (kb1, Fail (io_err OtherKind))
          else (kb1\<lparr>kb_state := clear_holds (kb_state kb1)\<rparr>, Done ()))"
        using run False sub Done k f
        unfolding release_all_with_def Let_def changes_def [symmetric] kb0_def [symmetric] kb1_def dev0
        by simp
      show ?thesis
      proof (cases "k = length changes")
        case partial: False
        with res have "kb' = kb1" "r = Fail (io_err OtherKind)" by auto
        with cov1 pr_keys show ?thesis by (simp add: kb1_def kb0_def)
      next
        case True
        with res have eq: "kb' = kb1\<lparr>kb_state := clear_holds (kb_state kb1)\<rparr>" "r = Done ()" by auto
        have up: "\<forall>l < n. \<not> pr ! l"
          using pr_keys True n by (auto simp: changes_def image_iff)
        have "released n kb'" unfolding eq
        proof (rule released_if)
          show "related (kb_dev kb1) (key_after m (take k changes))" using rel' by (simp add: kb1_def)
          show "spacer_ok n (kb_pressed kb1) (kb_spacer kb1)"
            using s_ok by (cases s) (auto simp: kb1_def spacer_inv_def lane_queue_ok_def first_waits_def)
          show "\<not> ko_pending ops (kb_dev kb1)"
            using submit_complete [OF rel _ in_range] sub Done True by (simp add: kb1_def)
        qed (use lanes_d len_pr up m_keys s_ok in \<open>auto simp: kb1_def kb0_def\<close>)
        moreover have "covers n kb'" using calculation covers_mirrors unfolding released_def by blast
        ultimately show ?thesis using up by (simp add: eq kb1_def kb0_def)
      qed
    qed
  qed
qed

text \<open>A release that fails leaves something that is still active.\<close>

lemma release_all_with_stuck:
  assumes run: "release_all_with ops now kb = (kb', Fail e)"
  shows "has_active_input ops kb'"
proof -
  define lanes_down where "lanes_down = filter (\<lambda>l. kb_pressed kb ! l) [0..<length (kb_pressed kb)]"
  define changes where "changes = map (\<lambda>l. key_edge l False False) lanes_down"
  define kb0 where "kb0 = kb\<lparr>kb_pending := (kb_pending kb)\<lparr>pf_sequence := None, pf_changes := changes, pf_applied := 0\<rparr>,
      kb_spacer := map_option (\<lambda>sp. sp\<lparr>sp_queue := []\<rparr>) (kb_spacer kb)\<rparr>"
  note run' = run [unfolded release_all_with_def Let_def, folded lanes_down_def, folded changes_def, folded kb0_def]
  have kb0: "kb_pressed kb0 = kb_pressed kb" "kb_dev kb0 = kb_dev kb" by (simp_all add: kb0_def)
  have ne: "changes \<noteq> []" using run' by auto
  have "hd lanes_down \<in> set lanes_down" using ne by (simp add: changes_def)
  then have "hd lanes_down < length (kb_pressed kb)" "kb_pressed kb ! hd lanes_down" by (simp_all add: lanes_down_def)
  then have down: "\<exists>p \<in> set (kb_pressed kb). p" by (metis nth_mem)
  obtain d r1 where sub: "ko_submit ops changes (kb_dev kb0) = (d, r1)" by fastforce
  have distinct_down: "distinct lanes_down" by (simp add: lanes_down_def)
  show ?thesis
  proof (cases "\<exists>k. r1 = Done k \<and> k < length changes")
    case False
    then consider e' where "r1 = Fail e'" | "r1 = Panic" | k where "r1 = Done k" "length changes < k" | "r1 = Done (length changes)"
      by (cases r1) (auto simp: not_less le_less)
    then have "kb_pressed kb' = kb_pressed kb"
    proof cases
      case 4
      with run' ne sub show ?thesis by (simp split: prod.splits)
    qed (use run' ne sub kb0 in auto)
    with down show ?thesis by (auto simp: has_active_input_def)
  next
    case True
    then obtain k where k: "r1 = Done k" "k < length changes" by blast
    obtain pr s where f: "fold (note_released now) (take k changes) (kb_pressed kb, kb_spacer kb0) = (pr, s)" by fastforce
    have kb': "kb_pressed kb' = pr" using run' ne sub k f by (auto simp: kb0)
    let ?l = "lanes_down ! k"
    have len: "length changes = length lanes_down" by (simp add: changes_def)
    have "?l \<notin> set (take k lanes_down)"
      using k len by (auto simp: in_set_conv_nth nth_eq_iff_index_eq distinct_down)
    moreover have "kc_lane ` set (take k changes) = set (take k lanes_down)"
      by (simp add: changes_def take_map image_image)
    ultimately have notin: "?l \<notin> kc_lane ` set (take k changes)" by simp
    have l: "?l < length (kb_pressed kb)" "kb_pressed kb ! ?l"
      using k len nth_mem [of k lanes_down] by (auto simp: lanes_down_def)
    have ups: "\<forall>c \<in> set changes. kc_lane c < length (kb_pressed kb) \<and> \<not> kc_down c"
      by (auto simp: changes_def lanes_down_def)
    have "pr = fold (\<lambda>c pressed. pressed[kc_lane c := False]) (take k changes) (kb_pressed kb)"
      using fold_note_released [of now "take k changes" "kb_pressed kb" "kb_spacer kb0"] f by auto
    moreover have "\<dots> = fold (\<lambda>c pressed. pressed[kc_lane c := kc_down c]) (take k changes) (kb_pressed kb)"
      using ups by (intro fold_cong) (auto dest: in_set_takeD)
    moreover have "\<forall>c \<in> set (take k changes). kc_lane c < length (kb_pressed kb) \<and> \<not> kc_down c"
      using ups by (auto dest: in_set_takeD)
    ultimately have "length pr = length (kb_pressed kb)" "pr ! ?l"
      using fold_pressed [of "take k changes" "kb_pressed kb"] l notin key_after_ups [of "take k changes" "(!) (kb_pressed kb)"]
      by auto
    with l have "\<exists>p \<in> set (kb_pressed kb'). p" unfolding kb' by (metis nth_mem)
    then show ?thesis by (simp add: has_active_input_def)
  qed
qed

lemma release_all_stuck:
  assumes run: "release_all ops now kb = (kb', Fail e)"
  shows "has_active_input ops kb'"
proof -
  obtain d r1 where dis: "ko_discard ops (kb_dev kb) = (d, r1)" by fastforce
  show ?thesis
  proof (cases r1)
    case (Fail e')
    then have "ko_pending ops d" using discard_stuck [of "kb_dev kb" d e'] dis by simp
    moreover have "kb' = kb\<lparr>kb_dev := d\<rparr>" using run dis Fail by (simp add: release_all_def)
    ultimately show ?thesis by (simp add: has_active_input_def)
  next
    case (Done u)
    then have "release_all_with ops now (kb\<lparr>kb_dev := d\<rparr>) = (kb', Fail e)" using run dis by (simp add: release_all_def)
    then show ?thesis by (rule release_all_with_stuck)
  next
    case Panic
    then show ?thesis using run dis by (simp add: release_all_def)
  qed
qed

lemma release_all_ok:
  assumes cov: "covers n kb" and run: "release_all ops now kb = (kb', r)"
  shows "r \<noteq> Panic \<and> covers n kb' \<and> (\<forall>l < n. kb_pressed kb' ! l \<longrightarrow> kb_pressed kb ! l) \<and>
    (r = Done () \<longrightarrow> released n kb')"
proof -
  obtain d r1 where dis: "ko_discard ops (kb_dev kb) = (d, r1)" by fastforce
  obtain m where n: "0 < n" "lanes (kb_dev kb) = n" "length (kb_pressed kb) = n"
    "length (lane_holds (kb_state kb)) = n" "\<forall>sp. kb_spacer kb = Some sp \<longrightarrow> length (last_emitted sp) = n"
    and rel: "related (kb_dev kb) m" and m: "\<forall>l < n. m l \<longrightarrow> kb_pressed kb ! l"
    using cov by (auto simp: covers_def)
  have lanes_d: "lanes d = n" using discard_lanes [OF dis] n by simp
  have still: "covers n (kb\<lparr>kb_dev := d\<rparr>)" if "r1 \<noteq> Panic"
  proof -
    have "\<exists>m'. related d m' \<and> (\<forall>l < lanes (kb_dev kb). m' l \<longrightarrow> m l)"
      using that discard_done [OF rel] discard_fail [OF rel] dis by (cases r1) fastforce+
    with n m lanes_d show ?thesis by (auto simp: covers_def)
  qed
  show ?thesis
  proof (cases r1)
    case (Done u)
    then have run': "release_all_with ops now (kb\<lparr>kb_dev := d\<rparr>) = (kb', r)"
      using run dis by (simp add: release_all_def)
    have "\<not> ko_pending ops d" using discard_done [OF rel] dis Done by auto
    with release_all_with_ok [OF still _ run'] Done show ?thesis by simp
  next
    case (Fail e)
    then have "kb' = kb\<lparr>kb_dev := d\<rparr>" "r = Fail e" using run dis by (simp_all add: release_all_def)
    with still Fail show ?thesis by simp
  next
    case Panic
    with discard_no_panic [OF rel] dis show ?thesis by simp
  qed
qed

end

section \<open>The keyboard's use of its spacer\<close>

text \<open>
  What the keyboard does to its spacer is a run in the sense of \<open>spacer_run\<close>: the distances that hold for
  those runs hold for the keys that \<open>accept_at\<close>, \<open>service_at\<close> and \<open>release_all\<close> hand to the device.
\<close>

definition spaced_run :: "'d key_ops \<Rightarrow> nat \<Rightarrow> duration \<Rightarrow> instant \<Rightarrow> 'd keyboard_sink \<Rightarrow> (instant \<times> key_change) list \<Rightarrow> bool" where
  "spaced_run ops n gap t kb h \<longleftrightarrow>
    (\<exists>sp. kb_spacer kb = Some sp \<and> spacer_run ops n gap t sp (kb_dev kb) (kb_pressed kb) h)"

lemma spaced_run_start: "kb_pressed kb = replicate n False \<Longrightarrow> spaced_run ops n gap t (set_repress_gap gap kb) []"
  by (simp add: spaced_run_def set_repress_gap_def spacer_run.start)

lemma spaced_run_dev: "spaced_run ops n gap t kb h \<Longrightarrow> t \<le> now \<Longrightarrow> spaced_run ops n gap now (kb\<lparr>kb_dev := d\<rparr>) h"
  by (auto simp: spaced_run_def intro: spacer_run.other)

lemma spaced_run_same:
  "spaced_run ops n gap t kb h \<Longrightarrow> kb_spacer kb' = kb_spacer kb \<Longrightarrow> kb_dev kb' = kb_dev kb \<Longrightarrow>
    kb_pressed kb' = kb_pressed kb \<Longrightarrow> spaced_run ops n gap t kb' h"
  by (simp add: spaced_run_def)

lemma asks_run:
  "spacer_run ops n gap now sp d pressed h \<Longrightarrow> \<forall>c \<in> set cs. kc_lane c < n \<Longrightarrow>
    spacer_run ops n gap now (fold (\<lambda>c sp. enqueue sp c now (pressed ! kc_lane c)) cs sp) d pressed h"
  by (induction cs arbitrary: sp) (auto intro: spacer_run.ask)

lemma service_run:
  assumes "spaced_run ops n gap t kb h" and "t \<le> now" and "service_at ops now kb = (kb', r)"
  shows "\<exists>h'. spaced_run ops n gap now kb' (h @ h')"
proof -
  obtain sp where sp: "kb_spacer kb = Some sp" "spacer_run ops n gap t sp (kb_dev kb) (kb_pressed kb) h"
    using assms(1) by (auto simp: spaced_run_def)
  obtain sp' d pressed where fl: "spacer_flush ops now sp (kb_dev kb) (kb_pressed kb) = (sp', d, pressed, r)"
    and kb': "kb' = kb\<lparr>kb_spacer := Some sp', kb_dev := d, kb_pressed := pressed\<rparr>"
    using assms(3) sp(1) by (auto simp: service_at_def split: prod.splits)
  from spacer_run.flush [OF sp(2) assms(2) fl] show ?thesis by (auto simp: spaced_run_def kb')
qed

lemma fold_note_released_lanes:
  "fold (note_released now) (map (\<lambda>l. key_edge l False False) ls) (pressed, Some sp) =
    (fold (\<lambda>l pressed. pressed[l := False]) ls pressed, Some (fold (\<lambda>l sp. note_release sp l now) ls sp))"
  by (induction ls arbitrary: pressed sp) (simp_all add: note_released_def)

lemma release_run:
  assumes run: "spaced_run ops n gap t kb h" and t: "t \<le> now" and len: "length (kb_pressed kb) = n"
    and rel: "release_all ops now kb = (kb', r)"
  shows "\<exists>h'. spaced_run ops n gap now kb' (h @ h')"
proof -
  obtain d1 r1 where dis: "ko_discard ops (kb_dev kb) = (d1, r1)" by fastforce
  note dev = spaced_run_dev [OF run t, of d1]
  show ?thesis
  proof (cases r1)
    case (Done u)
    define lns where "lns = filter (\<lambda>l. kb_pressed kb ! l) [0..<n]"
    obtain sp where sp: "kb_spacer kb = Some sp" "spacer_run ops n gap now sp d1 (kb_pressed kb) h"
      using dev by (auto simp: spaced_run_def)
    have "\<exists>k d. kb_dev kb' = d \<and> kb_pressed kb' = fold (\<lambda>l pressed. pressed[l := False]) (take k lns) (kb_pressed kb) \<and>
        kb_spacer kb' = Some (fold (\<lambda>l sp. note_release sp l now) (take k lns) (sp\<lparr>sp_queue := []\<rparr>))"
    proof (cases "lns = []")
      case True
      then show ?thesis using rel dis Done sp(1) len by (intro exI [of _ 0]) (auto simp: release_all_def release_all_with_def lns_def)
    next
      case False
      let ?cs = "map (\<lambda>l. key_edge l False False) lns"
      obtain d2 r2 where sub: "ko_submit ops ?cs d1 = (d2, r2)" by fastforce
      show ?thesis
      proof (cases "\<exists>k. r2 = Done k \<and> k \<le> length ?cs")
        case True
        then obtain k where "r2 = Done k" "k \<le> length lns" by auto
        then show ?thesis using rel dis Done sp(1) len sub False
          by (intro exI [of _ k]) (auto simp: release_all_def release_all_with_def lns_def [symmetric] Let_def
              take_map fold_note_released_lanes split: if_splits)
      next
        case bad: False
        then show ?thesis using rel dis Done sp(1) len sub False
          by (intro exI [of _ 0]) (cases r2; auto simp: release_all_def release_all_with_def lns_def [symmetric] Let_def)
      qed
    qed
    then obtain k where k: "kb_pressed kb' = fold (\<lambda>l pressed. pressed[l := False]) (take k lns) (kb_pressed kb)"
      "kb_spacer kb' = Some (fold (\<lambda>l sp. note_release sp l now) (take k lns) (sp\<lparr>sp_queue := []\<rparr>))" by blast
    have "set (take k lns) \<subseteq> {..<n}" by (auto simp: lns_def dest!: in_set_takeD)
    from spacer_run.release [OF sp(2) order_refl this, of "kb_dev kb'"] k show ?thesis by (auto simp: spaced_run_def)
  qed (use rel dis dev in \<open>auto simp: release_all_def intro!: exI [of _ "[]"]\<close>)
qed

context key_device
begin

text \<open>
  Accepting a frame with at most this frame pending: whether it succeeds or not, the spacer was used as it must be.
\<close>

lemma accept_run:
  assumes run: "spaced_run ops n gap t kb h" and t: "t \<le> now"
    and m: "mirrors n (kb_dev kb) (kb_pressed kb)" and inv: "kb_inv n pend kb"
    and pend: "pend = None \<or> pend = Some f" and d: "distinct (map pointer_id (contacts f))"
    and acc: "accept_at ops now f kb = (kb', r)"
  shows "\<exists>h'. spaced_run ops n gap now kb' (h @ h')"
proof (cases "session_start f \<or> action f = ACTION_CANCEL \<or> \<not> locked f")
  case True
  then have "release_all ops now kb = (kb', r)" using acc by (simp add: accept_at_def)
  with release_run [OF run t] inv show ?thesis by (simp add: kb_inv_def)
next
  case play: False
  obtain kb1 r1 where serv: "service_at ops now kb = (kb1, r1)" by fastforce
  obtain h1 where run1: "spaced_run ops n gap now kb1 (h @ h1)" using service_run [OF run t serv] by blast
  let ?kb2 = "plan_pending f kb1"
  obtain sp where sp: "kb_spacer ?kb2 = Some sp" using run1 by (auto simp: spaced_run_def)
  consider "kb' = kb1" | "submit_spaced ops now sp ?kb2 = (kb', r)"
    using acc play serv sp by (auto simp: accept_at_def Let_def split: outcome.splits if_splits)
  then show ?thesis
  proof cases
    case 2
    let ?pf = "kb_pending ?kb2"
    let ?todo = "drop (pf_applied ?pf) (pf_changes ?pf)"
    define sp1 where "sp1 = fold (\<lambda>c sp. enqueue sp c now (kb_pressed ?kb2 ! kc_lane c)) ?todo sp"
    define kb3 where "kb3 = ?kb2\<lparr>kb_spacer := Some sp1, kb_pending := ?pf\<lparr>pf_applied := length (pf_changes ?pf)\<rparr>\<rparr>"
    have "\<forall>c \<in> set ?todo. kc_lane c < n"
    proof -
      have "kb_inv n (Some f) ?kb2" using plan_pending_inv [OF _ pend d] service_ok [OF m inv serv] by blast
      then show ?thesis by (simp add: kb_inv_def Let_def)
    qed
    then have "spaced_run ops n gap now kb3 (h @ h1)"
      using run1 sp asks_run by (auto simp: spaced_run_def kb3_def sp1_def)
    moreover obtain kb4 r4 where serv4: "service_at ops now kb3 = (kb4, r4)" by fastforce
    ultimately obtain h2 where run4: "spaced_run ops n gap now kb4 (h @ h1 @ h2)"
      using service_run [OF _ order_refl] by fastforce
    have "kb_spacer kb' = kb_spacer kb4 \<and> kb_dev kb' = kb_dev kb4 \<and> kb_pressed kb' = kb_pressed kb4"
      using 2 [unfolded submit_spaced_def Let_def, folded sp1_def, folded kb3_def, unfolded serv4] by (cases r4) auto
    with spaced_run_same [OF run4] show ?thesis by blast
  qed (use run1 in blast)
qed

end

section \<open>The keyboard on uinput\<close>

text \<open>
  The retry loop around \<open>accept\<close>, as \<open>commit_ready\<close> of \<open>input.rs\<close> runs it for one frame: attempts
  at the given instants until one succeeds.
\<close>

fun accept_attempts ::
  "'d key_ops \<Rightarrow> instant list \<Rightarrow> touch_frame \<Rightarrow> 'd keyboard_sink \<Rightarrow> 'd keyboard_sink \<times> bool" where
  "accept_attempts ops [] f kb = (kb, False)"
| "accept_attempts ops (now # nows) f kb =
    (case accept_at ops now f kb of
       (kb', Done _) \<Rightarrow> (kb', True)
     | (kb', _) \<Rightarrow> accept_attempts ops nows f kb')"

text \<open>
  C5: a gameplay frame is applied completely, however the kernel splits it: a frame that is not a session start,
  a CANCEL, unlocked or an empty heartbeat (those release everything or change nothing). Starting from a sink whose
  recorded keys are the device's and with at most this frame pending, if one of several attempts to accept the
  frame succeeds, then the device's keys are again the ones the sink has recorded, every pointer owns the lane the
  snapshot gives it, and the keys the sink heads for are exactly the held lanes. Without a spacer the keys it heads
  for are the pressed ones; with a spacer they are the pressed ones after the edges that still wait.
\<close>

theorem keyboard_applies_frame:
  assumes "length (keycodes (kb_dev kb)) = n" and "uinput_related (kb_dev kb) ((!) (kb_pressed kb))"
    and "kb_inv n pend kb" and "pend = None \<or> pend = Some f" and "gameplay f"
    and "accept_attempts linux_ops nows f kb = (kb', True)"
  shows "uinput_related (kb_dev kb') ((!) (kb_pressed kb')) \<and>
    pointer_lanes (kb_state kb') = snapshot_lanes n (contacts f) \<and>
    lanes_ok n (kb_state kb') \<and> pf_sequence (kb_pending kb') = None \<and>
    (\<forall>l < n. heading kb' l \<longleftrightarrow> lane_holds (kb_state kb') ! l \<noteq> 0)"
proof -
  have "linux_device.mirrors n (kb_dev kb) (kb_pressed kb)"
    using assms(1-3) by (simp add: linux_device.mirrors_def kb_inv_def)
  then show ?thesis using assms(3,4,6)
  proof (induction nows arbitrary: kb pend)
    case (Cons now nows)
    obtain kb1 r where acc: "accept_at linux_ops now f kb = (kb1, r)" by fastforce
    note ok = linux_device.accept_ok [OF Cons.prems(1-3) assms(5) acc]
    show ?case
    proof (cases r)
      case (Done u)
      with Cons.prems(4) acc have "kb' = kb1" by simp
      with ok Done show ?thesis by (simp add: linux_device.mirrors_def kb_inv_def)
    next
      case (Fail e)
      then have "accept_attempts linux_ops nows f kb1 = (kb', True)" using Cons.prems(4) acc by simp
      moreover have "kb_inv n pend kb1 \<or> kb_inv n (Some f) kb1" using ok Fail by simp
      ultimately show ?thesis using Cons.IH [of kb1] ok Cons.prems(3) by blast
    qed (use ok in simp)
  qed simp
qed

text \<open>
  C14: cancelling leaves no key down. From any state in which the sink knows every key that is
  down (also in the middle of a half-written transition), \<open>release_all\<close> never panics and never
  forgets a key; when it succeeds no key is down at the device, none is believed pressed, no
  pointer owns a lane, and nothing waits in the spacer.
\<close>

theorem keyboard_cancel_releases:
  assumes "linux_device.covers n kb" and "release_all linux_ops now kb = (kb', r)"
  shows "r \<noteq> Panic \<and> linux_device.covers n kb' \<and>
    (r = Done () \<longrightarrow> \<not> has_active_input linux_ops kb' \<and>
      (\<forall>l < n. \<not> kb_pressed kb' ! l \<and>
        \<not> log_key (keycodes (kb_dev kb') ! l) (taken (kernel (kb_dev kb')))) \<and>
      (\<forall>pid. pointer_lanes (kb_state kb') pid = None) \<and> kb_inv n None kb')"
proof -
  note ok = linux_device.release_all_ok [OF assms]
  have "\<not> log_key (keycodes (kb_dev kb') ! l) (taken (kernel (kb_dev kb')))"
    if "l < n" "linux_device.released n kb'" for l
  proof -
    have "uinput_related (kb_dev kb') ((!) (kb_pressed kb'))" "length (keycodes (kb_dev kb')) = n"
      "pending_write (kb_dev kb') = None" "\<not> kb_pressed kb' ! l"
      using that unfolding linux_device.released_def linux_device.mirrors_def has_active_input_def
      by (auto simp: linux_ops_def linux_pending_def)
    with that(1) show ?thesis by (simp add: uinput_related_def)
  qed
  with ok show ?thesis by (auto simp: linux_device.released_def)
qed

section \<open>Examples\<close>

definition sample_keyboard :: "nat list \<Rightarrow> (input_event list \<times> nat list) uinput_sink keyboard_sink" where
  "sample_keyboard script = \<lparr>kb_dev = sample_uinput [] None script, kb_state = keyboard_state_new 4,
     kb_pressed = replicate 4 False,
     kb_pending = \<lparr>pf_sequence = None, pf_next_state = keyboard_state_new 4, pf_changes = [], pf_applied = 0\<rparr>,
     kb_spacer = None\<rparr>"

abbreviation sample_press :: touch_frame where
  "sample_press \<equiv> sample_touch 1 0 [sample_contact 5 5000]"

lemma sample_press_gameplay: "gameplay sample_press"
  by (simp add: gameplay_def) (simp add: sample_touch_def sample_frame_def session_start_def locked_def)

lemma replicate_4: "replicate 4 x = [x, x, x, x]"
  by (simp add: eval_nat_numeral)

lemma sample_press_plan:
  "snd (plan_into (keyboard_state_new 4) 4 sample_press False) = [key_edge 2 True True]"
proof -
  let ?s = "\<lparr>pointer_lanes = [5 \<mapsto> 2], pressure_suppressed = \<lambda>_. False,
    lane_holds = [0, 0, 1, 0] :: u16 list\<rparr>"
  have first: "apply_contact 4 (sample_contact 5 5000) (\<lparr>pointer_lanes = \<lambda>_. None,
      pressure_suppressed = \<lambda>_. False, lane_holds = [0, 0, 0, 0]\<rparr>, []) = (?s, [key_edge 2 True True])"
    by (simp add: apply_contact_def sample_lane move_pointer_def set_pointer_def acquire_lane_def
        saturating_succ_def replicate_4)
  have "missing_pointers sample_press t = []" if "\<forall>pid. pid \<noteq> 5 \<longrightarrow> pointer_lanes t pid = None" for t
    using that by (auto simp: missing_pointers_def filter_empty_conv)
  then show ?thesis
    by (simp add: plan_into_def keyboard_state_new_def apply_contacts_def first repress_edges_def Let_def
        replicate_4)
qed

lemma sample_keyboard_ok:
  "uinput_related (kb_dev (sample_keyboard script)) ((!) (kb_pressed (sample_keyboard script)))"
  "length (keycodes (kb_dev (sample_keyboard script))) = 4"
  "kb_inv 4 None (sample_keyboard script)"
proof -
  have "sample_os [] script = (sample_os [] script :: (input_event list \<times> nat list, input_event) os_device)" ..
  then show "uinput_related (kb_dev (sample_keyboard script)) ((!) (kb_pressed (sample_keyboard script)))"
    by (simp add: uinput_related_def sample_keyboard_def sample_uinput_def sample_os_obeys)
      (simp add: sample_os_def synced_def log_key_def)
  show "length (keycodes (kb_dev (sample_keyboard script))) = 4"
    by (simp add: sample_keyboard_def sample_uinput_def)
  show "kb_inv 4 None (sample_keyboard script)"
    using lanes_ok_new [of 4]
    by (simp add: kb_inv_def sample_keyboard_def heading_def) (simp add: keyboard_state_new_def)
qed

text \<open>The kernel takes the key event of the press but not its SYN_REPORT; the retry completes it.\<close>

lemma sample_attempts: "snd (accept_attempts linux_ops [0, 1] sample_press (sample_keyboard [1]))"
proof -
  obtain nxt where plan: "plan_into (keyboard_state_new 4) 4 sample_press False = (nxt, [key_edge 2 True True])"
    using sample_press_plan by (metis prod.collapse)
  have "Suc (Suc (Suc (Suc 0))) = 4" by simp
  with plan have plan': "plan_into (keyboard_state_new 4) (Suc (Suc (Suc (Suc 0)))) sample_press False =
      (nxt, [key_edge 2 True True])" by (simp only:)
  have f: "\<not> session_start sample_press" "locked sample_press"
    using sample_press_gameplay by (simp_all add: gameplay_def)
  show ?thesis
    using f by (simp add: accept_at_def service_at_def sample_keyboard_def plan_pending_def plan' submit_direct_def
        Let_def linux_ops_def linux_submit_def submit_remaining_def sample_uinput_def submit_events_def
        sample_os_def sample_write_def replicate_4)
qed

theorem keyboard_applies_frame_witness:
  "pointer_lanes (kb_state (fst (accept_attempts linux_ops [0, 1] sample_press (sample_keyboard [1])))) 5 = Some 2"
proof -
  obtain kb' where run: "accept_attempts linux_ops [0, 1] sample_press (sample_keyboard [1]) = (kb', True)"
    using sample_attempts by (metis prod.collapse)
  show ?thesis
    using keyboard_applies_frame [OF sample_keyboard_ok(2,1,3) _ sample_press_gameplay run] run
    by (simp add: snapshot_lanes_def contact_lane_def sample_lane)
qed

theorem keyboard_cancel_releases_witness:
  "snd (release_all linux_ops 9 (sample_keyboard [])) \<noteq> Panic"
proof -
  have "linux_device.covers 4 (sample_keyboard [])"
    using sample_keyboard_ok [of "[]"]
    by (intro linux_device.covers_mirrors [of _ _ None])
      (simp_all add: linux_device.mirrors_def, simp add: sample_keyboard_def)
  from keyboard_cancel_releases [OF this, of 9 "fst (release_all linux_ops 9 (sample_keyboard []))"
      "snd (release_all linux_ops 9 (sample_keyboard []))"]
  show ?thesis by simp
qed

end
