(* ===== verification/Protocol_V5.thy ===== *)
theory Protocol_V5
  imports Protocol_V4
begin

text \<open>
  The wire format of protocol v5 (\<open>native-host/src/v5.rs\<close>): the pairing envelope, the header of
  an authenticated record, the touch, control and quality payloads with every check in the order
  of the source, and the short authentication string of a pairing. BLAKE2s is the parameter
  \<open>blake2s\<close>, a function of the bytes hashed. Shown here: both envelope formats are canonical
  (a datagram decodes exactly when it is the encoding of the result), a decoded touch payload is a
  well-formed frame and obeys the session-start rule, and every SAS pattern is equally likely.
\<close>

section \<open>Constants\<close>

definition PAIR_MAGIC :: bytes where [wire_defs]: "PAIR_MAGIC = [0x48, 0x50, 0x50, 0x35]"
definition PHONE_MAGIC :: bytes where [wire_defs]: "PHONE_MAGIC = [0x48, 0x50, 0x54, 0x35]"
definition HOST_MAGIC :: bytes where [wire_defs]: "HOST_MAGIC = [0x48, 0x50, 0x41, 0x35]"

abbreviation (input) V5_PROTOCOL_VERSION :: u8 where "V5_PROTOCOL_VERSION \<equiv> 5"
abbreviation (input) UDP_PORT :: u16 where "UDP_PORT \<equiv> 42825"
abbreviation (input) PAIR_HEADER_SIZE :: nat where "PAIR_HEADER_SIZE \<equiv> 32"
abbreviation (input) RECORD_HEADER_SIZE :: nat where "RECORD_HEADER_SIZE \<equiv> 48"
abbreviation (input) TAG_SIZE :: nat where "TAG_SIZE \<equiv> 16"
abbreviation (input) MAX_DATAGRAM_SIZE :: nat where "MAX_DATAGRAM_SIZE \<equiv> 1200"
abbreviation (input) TOUCH_PAYLOAD_HEADER_SIZE :: nat where "TOUCH_PAYLOAD_HEADER_SIZE \<equiv> 44"
abbreviation (input) CONTROL_PAYLOAD_SIZE :: nat where "CONTROL_PAYLOAD_SIZE \<equiv> 16"
abbreviation (input) REPLAY_WINDOW_BITS :: nat where "REPLAY_WINDOW_BITS \<equiv> 1024"

abbreviation (input) PAIR_PROBE :: u8 where "PAIR_PROBE \<equiv> 1"
abbreviation (input) PAIR_OFFER :: u8 where "PAIR_OFFER \<equiv> 2"
abbreviation (input) PAIR_CONTINUE :: u8 where "PAIR_CONTINUE \<equiv> 3"
abbreviation (input) PAIR_ABORT :: u8 where "PAIR_ABORT \<equiv> 4"
abbreviation (input) IK_MESSAGE_1 :: u8 where "IK_MESSAGE_1 \<equiv> 5"
abbreviation (input) IK_CONTINUE :: u8 where "IK_CONTINUE \<equiv> 6"

abbreviation (input) PHONE_TOUCH :: u8 where "PHONE_TOUCH \<equiv> 1"
abbreviation (input) PHONE_QUALITY_REPLY :: u8 where "PHONE_QUALITY_REPLY \<equiv> 2"
abbreviation (input) PHONE_SAS_COMMITMENT :: u8 where "PHONE_SAS_COMMITMENT \<equiv> 3"
abbreviation (input) PHONE_SAS_REVEAL :: u8 where "PHONE_SAS_REVEAL \<equiv> 4"
abbreviation (input) PHONE_PAIR_CONFIRM :: u8 where "PHONE_PAIR_CONFIRM \<equiv> 5"
abbreviation (input) PHONE_AUTH_ABORT :: u8 where "PHONE_AUTH_ABORT \<equiv> 6"
abbreviation (input) PHONE_PING :: u8 where "PHONE_PING \<equiv> 7"

abbreviation (input) HOST_HELLO :: u8 where "HOST_HELLO \<equiv> 1"
abbreviation (input) HOST_ACK :: u8 where "HOST_ACK \<equiv> 2"
abbreviation (input) HOST_QUALITY_PROBE :: u8 where "HOST_QUALITY_PROBE \<equiv> 3"
abbreviation (input) HOST_SAS_COMMITMENT :: u8 where "HOST_SAS_COMMITMENT \<equiv> 4"
abbreviation (input) HOST_SAS_REVEAL :: u8 where "HOST_SAS_REVEAL \<equiv> 5"
abbreviation (input) HOST_PAIR_COMPLETE :: u8 where "HOST_PAIR_COMPLETE \<equiv> 6"
abbreviation (input) HOST_AUTH_ABORT :: u8 where "HOST_AUTH_ABORT \<equiv> 7"
abbreviation (input) HOST_PONG :: u8 where "HOST_PONG \<equiv> 8"

abbreviation (input) QUALITY_REPAIR_ONLY :: u32 where "QUALITY_REPAIR_ONLY \<equiv> 1"
abbreviation (input) NO_ACK :: u64 where "NO_ACK \<equiv> 0xffffffffffffffff"
abbreviation (input) VALID_FRAME_FLAGS :: u8 where
  "VALID_FRAME_FLAGS \<equiv> FRAME_FLAG_LOCKED OR FRAME_FLAG_SESSION_START OR FRAME_FLAG_HISTORICAL"
abbreviation (input) VALID_CONTACT_FLAGS :: u8 where
  "VALID_CONTACT_FLAGS \<equiv> CONTACT_FLAG_INSIDE OR CONTACT_FLAG_TIP OR CONTACT_FLAG_KEY_SUPPRESSED"

definition NOISE_PROLOGUE_PREFIX :: bytes where
  "NOISE_PROLOGUE_PREFIX = map of_char ''holodori-phone-trackpad-v5'' @ [0]"
definition CONNECTION_DOMAIN :: bytes where
  "CONNECTION_DOMAIN = map of_char ''holodori-v5-connection''"
definition SAS_COMMIT_DOMAIN :: bytes where
  "SAS_COMMIT_DOMAIN = map of_char ''holodori-v5-sas-commit''"
definition SAS_DOMAIN :: bytes where
  "SAS_DOMAIN = map of_char ''holodori-v5-sas''"
definition SAS_RETRY_DOMAIN :: bytes where
  "SAS_RETRY_DOMAIN = map of_char ''holodori-v5-sas-retry''"

section \<open>Errors, transports, directions\<close>

datatype wire_error =
    BadMagic
  | BadVersion u8
  | BadSuite u8
  | BadTransport u8
  | BadLength nat
  | ReservedBits
  | WrongConnection
  | Replay
  | BadTag
  | EncryptFailed
  | PacketNumberExhausted
  | HandshakeIncomplete
  | BadMessage
  | BadAction u8
  | BadContactCount nat
  | DuplicatePointer u8
  | BadSessionStart
  | RandomUnavailable

datatype transport_kind = Usb | Wifi

definition transport_parse :: "string \<Rightarrow> transport_kind option" where
  "transport_parse value =
    (if value = ''usb'' then Some Usb else if value = ''wifi'' then Some Wifi else None)"

fun transport_label :: "transport_kind \<Rightarrow> string" where
  "transport_label Usb = ''USB''"
| "transport_label Wifi = ''Wi-Fi / local network''"

text \<open>\<open>transport as u8\<close>, the discriminants of the \<open>repr(u8)\<close> enum.\<close>

fun transport_u8 :: "transport_kind \<Rightarrow> u8" where
  "transport_u8 Usb = 1"
| "transport_u8 Wifi = 2"

definition transport_try_from :: "u8 \<Rightarrow> (wire_error, transport_kind) outcome" where
  "transport_try_from value =
    (if value = 1 then Done Usb else if value = 2 then Done Wifi else Fail (BadTransport value))"

datatype direction = PhoneToHost | HostToPhone

fun direction_magic :: "direction \<Rightarrow> bytes" where
  "direction_magic PhoneToHost = PHONE_MAGIC"
| "direction_magic HostToPhone = HOST_MAGIC"

section \<open>Pairing envelopes\<close>

text \<open>\<open>exchange_id\<close> is an array of 16 bytes: a list of length 16 here.\<close>

record pair_envelope =
  pe_kind :: u8
  pe_exchange_id :: bytes
  pe_step :: u32
  pe_transport :: transport_kind
  pe_payload :: bytes

text \<open>
  A slice is shorter than \<open>2 ^ 63\<close> bytes, so that \<open>checked_add\<close> never fails and the length is a
  natural number.
\<close>

definition encode_pair_envelope ::
  "u8 \<Rightarrow> bytes \<Rightarrow> u32 \<Rightarrow> transport_kind \<Rightarrow> bytes \<Rightarrow> (wire_error, bytes) outcome" where
  "encode_pair_envelope kind exchange_id step transport payload =
    (let n = PAIR_HEADER_SIZE + length payload in
     if n > MAX_DATAGRAM_SIZE \<or> length payload > 65535 then Fail (BadLength n) else
     let b0 = replicate n 0;
         b1 = put_bytes 0 PAIR_MAGIC b0;
         b2 = put_bytes 4 [V5_PROTOCOL_VERSION] b1;
         b3 = put_bytes 5 [kind] b2;
         b4 = put_bytes 6 (le_u16 (of_nat n)) b3;
         b5 = put_bytes 8 exchange_id b4;
         b6 = put_bytes 24 (le_u32 step) b5;
         b7 = put_bytes 28 (le_u16 (of_nat (length payload))) b6;
         b8 = put_bytes 30 [transport_u8 transport] b7;
         b9 = put_bytes 31 [1] b8
     in Done (put_bytes PAIR_HEADER_SIZE payload b9))"

definition decode_pair_envelope :: "bytes \<Rightarrow> (wire_error, pair_envelope) outcome" where
  "decode_pair_envelope bs =
    (let n = length bs in
     if n < PAIR_HEADER_SIZE \<or> n > MAX_DATAGRAM_SIZE then Fail (BadLength n) else
     and_then (slice_at bs 0 4) (\<lambda>magic. if magic \<noteq> PAIR_MAGIC then Fail BadMagic else
     and_then (byte_at bs 4) (\<lambda>ver. if ver \<noteq> V5_PROTOCOL_VERSION then Fail (BadVersion ver) else
     and_then (read_u16 bs 6) (\<lambda>declared.
     and_then (read_u16 bs 28) (\<lambda>payload_length.
       if unat declared \<noteq> n \<or> PAIR_HEADER_SIZE + unat payload_length \<noteq> n
       then Fail (BadLength (unat declared)) else
     and_then (byte_at bs 31) (\<lambda>suite. if suite \<noteq> 1 then Fail (BadSuite suite) else
     and_then (slice_at bs 8 16) (\<lambda>exchange_id.
     and_then (byte_at bs 5) (\<lambda>kind.
     and_then (read_u32 bs 24) (\<lambda>step.
     and_then (byte_at bs 30) (\<lambda>tr. and_then (transport_try_from tr) (\<lambda>transport.
     and_then (slice_at bs PAIR_HEADER_SIZE (n - PAIR_HEADER_SIZE)) (\<lambda>payload.
       Done \<lparr>pe_kind = kind, pe_exchange_id = exchange_id, pe_step = step,
             pe_transport = transport, pe_payload = payload\<rparr>))))))))))))"

section \<open>Record headers\<close>

record record_header =
  rh_direction :: direction
  rh_message_type :: u8
  rh_connection_id :: u64
  rh_session_id :: u64
  rh_packet_number :: u64
  rh_logical_id :: u64
  rh_flags :: u32
  rh_payload_length :: u16

record opened_record =
  or_header :: record_header
  or_payload :: bytes

text \<open>The 48 bytes the caller hands over are overwritten; the debug assertion is a panic.\<close>

definition write_record_header :: "bytes \<Rightarrow> record_header \<Rightarrow> (wire_error, bytes) outcome" where
  "write_record_header bs h =
    (if length bs \<noteq> RECORD_HEADER_SIZE then Panic else
     let complete = RECORD_HEADER_SIZE + unat (rh_payload_length h) + TAG_SIZE;
         b1 = put_bytes 0 (direction_magic (rh_direction h)) bs;
         b2 = put_bytes 4 [V5_PROTOCOL_VERSION] b1;
         b3 = put_bytes 5 [rh_message_type h] b2;
         b4 = put_bytes 6 (le_u16 (of_nat complete)) b3;
         b5 = put_bytes 8 (le_u64 (rh_connection_id h)) b4;
         b6 = put_bytes 16 (le_u64 (rh_session_id h)) b5;
         b7 = put_bytes 24 (le_u64 (rh_packet_number h)) b6;
         b8 = put_bytes 32 (le_u64 (rh_logical_id h)) b7;
         b9 = put_bytes 40 (le_u32 (rh_flags h)) b8;
         b10 = put_bytes 44 (le_u16 (rh_payload_length h)) b9
     in Done (put_bytes 46 [0, 0] b10))"

definition decode_record_header :: "bytes \<Rightarrow> direction \<Rightarrow> (wire_error, record_header) outcome" where
  "decode_record_header bs expected =
    (let n = length bs in
     if n < RECORD_HEADER_SIZE + TAG_SIZE \<or> n > MAX_DATAGRAM_SIZE then Fail (BadLength n) else
     and_then (slice_at bs 0 4) (\<lambda>magic. if magic \<noteq> direction_magic expected then Fail BadMagic else
     and_then (byte_at bs 4) (\<lambda>ver. if ver \<noteq> V5_PROTOCOL_VERSION then Fail (BadVersion ver) else
     and_then (read_u16 bs 44) (\<lambda>payload_length.
     and_then (read_u16 bs 6) (\<lambda>declared.
       if RECORD_HEADER_SIZE + unat payload_length + TAG_SIZE \<noteq> n \<or> unat declared \<noteq> n
       then Fail (BadLength (unat declared)) else
     and_then (read_u16 bs 46) (\<lambda>reserved. if reserved \<noteq> 0 then Fail ReservedBits else
     and_then (byte_at bs 5) (\<lambda>ty.
     and_then (read_u64 bs 8) (\<lambda>cid. and_then (read_u64 bs 16) (\<lambda>sid.
     and_then (read_u64 bs 24) (\<lambda>pn. and_then (read_u64 bs 32) (\<lambda>lid.
     and_then (read_u32 bs 40) (\<lambda>fl.
       Done \<lparr>rh_direction = expected, rh_message_type = ty, rh_connection_id = cid,
             rh_session_id = sid, rh_packet_number = pn, rh_logical_id = lid,
             rh_flags = fl, rh_payload_length = payload_length\<rparr>))))))))))))"

section \<open>Touch payloads\<close>

fun decode_contacts_v5 ::
  "bytes \<Rightarrow> nat list \<Rightarrow> (u8 \<Rightarrow> bool) \<Rightarrow> contact list \<Rightarrow> (wire_error, contact list) outcome" where
  "decode_contacts_v5 bs [] seen cs = Done cs"
| "decode_contacts_v5 bs (i # is) seen cs =
     (let off = TOUCH_PAYLOAD_HEADER_SIZE + i * CONTACT_SIZE in
      and_then (byte_at bs off) (\<lambda>pid.
      if seen pid then Fail (DuplicatePointer pid)
      else and_then (byte_at bs (off + 1)) (\<lambda>fl.
           if fl AND NOT VALID_CONTACT_FLAGS \<noteq> 0 then Fail ReservedBits else
           and_then (contact_at bs off pid fl) (\<lambda>c.
           and_then (contacts_push cs c) (\<lambda>cs'.
             decode_contacts_v5 bs is (seen(pid := True)) cs')))))"

definition validate_session_start :: "touch_frame \<Rightarrow> (wire_error, unit) outcome" where
  "validate_session_start f =
    (if sequence f = 0 then
       if action f \<noteq> ACTION_CANCEL \<or> \<not> session_start f \<or> frame_flags f \<noteq> FRAME_FLAG_SESSION_START \<or>
          contacts f \<noteq> []
       then Fail BadSessionStart else Done ()
     else if session_start f then Fail BadSessionStart else Done ())"

definition decode_touch_payload :: "record_header \<Rightarrow> bytes \<Rightarrow> (wire_error, touch_frame) outcome" where
  "decode_touch_payload h payload =
    (let n = length payload in
     if rh_direction h \<noteq> PhoneToHost \<or> rh_message_type h \<noteq> PHONE_TOUCH \<or> rh_session_id h = 0 \<or>
        rh_flags h \<noteq> 0 \<or> n < TOUCH_PAYLOAD_HEADER_SIZE then Fail BadMessage else
     and_then (byte_at payload 40) (\<lambda>act. if \<not> known_action act then Fail (BadAction act) else
     and_then (byte_at payload 42) (\<lambda>count. let contact_count = unat count in
       if contact_count > MAX_CONTACTS \<or> n \<noteq> TOUCH_PAYLOAD_HEADER_SIZE + contact_count * CONTACT_SIZE
       then Fail (BadContactCount contact_count) else
     and_then (byte_at payload 43) (\<lambda>fl. if fl AND NOT VALID_FRAME_FLAGS \<noteq> 0 then Fail ReservedBits else
     and_then (decode_contacts_v5 payload [0..<contact_count] (\<lambda>_. False) []) (\<lambda>cs.
     and_then (read_u64 payload 0) (\<lambda>ev. and_then (read_u64 payload 8) (\<lambda>cb.
     and_then (read_u64 payload 16) (\<lambda>snt. and_then (read_u64 payload 24) (\<lambda>echo.
     and_then (read_u64 payload 32) (\<lambda>rcv. and_then (byte_at payload 41) (\<lambda>apid.
     let f = \<lparr>session_id = rh_session_id h, sequence = rh_logical_id h, phone_event_nanos = ev,
              phone_callback_nanos = cb, phone_send_nanos = snt, echo_host_send_nanos = echo,
              phone_control_receive_nanos = rcv, action = act, action_pointer_id = apid,
              frame_flags = fl, contacts = cs\<rparr>
     in and_then (validate_session_start f) (\<lambda>_. Done f))))))))))))"

definition decode_touch_record :: "opened_record \<Rightarrow> (wire_error, touch_frame) outcome" where
  "decode_touch_record r = decode_touch_payload (or_header r) (or_payload r)"

section \<open>Control and quality payloads\<close>

definition encode_control_payload :: "u32 \<Rightarrow> u8 \<Rightarrow> u64 \<Rightarrow> bytes" where
  "encode_control_payload receive_window lane_count host_send_nanos =
    (let b0 = replicate CONTROL_PAYLOAD_SIZE 0;
         b1 = put_bytes 0 (le_u32 receive_window) b0;
         b2 = put_bytes 4 [lane_count] b1
     in put_bytes 8 (le_u64 host_send_nanos) b2)"

record quality_reply =
  qr_probe_id :: u64
  qr_host_send_nanos :: u64
  qr_phone_receive_nanos :: u64
  qr_phone_send_nanos :: u64
  qr_repair_only :: bool
  qr_signal_level :: int
  qr_rssi_dbm :: int
  qr_frequency_mhz :: u32

definition decode_quality_reply :: "opened_record \<Rightarrow> (wire_error, quality_reply) outcome" where
  "decode_quality_reply r =
    (let h = or_header r; p = or_payload r in
     if rh_direction h \<noteq> PhoneToHost \<or> rh_message_type h \<noteq> PHONE_QUALITY_REPLY \<or>
        rh_session_id h \<noteq> 0 \<or> rh_flags h \<noteq> 0 \<or> length p \<noteq> 32 then Fail BadMessage else
     and_then (byte_at p 24) (\<lambda>repair. and_then (byte_at p 25) (\<lambda>level.
     let signal_level = sint level in
     if unat repair > 1 \<or> (signal_level \<noteq> -1 \<and> \<not> (0 \<le> signal_level \<and> signal_level \<le> 4))
     then Fail BadMessage else
     and_then (read_u64 p 0) (\<lambda>snt. and_then (read_u64 p 8) (\<lambda>rcv.
     and_then (read_u64 p 16) (\<lambda>psnd. and_then (read_i16 p 26) (\<lambda>rssi.
     and_then (read_u32 p 28) (\<lambda>freq.
       Done \<lparr>qr_probe_id = rh_logical_id h, qr_host_send_nanos = snt, qr_phone_receive_nanos = rcv,
             qr_phone_send_nanos = psnd, qr_repair_only = (repair = 1),
             qr_signal_level = signal_level, qr_rssi_dbm = rssi, qr_frequency_mhz = freq\<rparr>))))))))"

section \<open>Hashes, nonces and the short authentication string\<close>

definition prologue :: "transport_kind \<Rightarrow> bytes \<Rightarrow> bytes" where
  "prologue transport exchange_id = NOISE_PROLOGUE_PREFIX @ [transport_u8 transport] @ exchange_id"

text \<open>
  BLAKE2s-256 as the function of the bytes hashed: \<open>update\<close> appends to them, \<open>finalize\<close> applies it.
\<close>

definition hash_parts :: "(bytes \<Rightarrow> bytes) \<Rightarrow> bytes list \<Rightarrow> bytes" where
  "hash_parts blake2s parts = blake2s (concat parts)"

definition connection_id :: "(bytes \<Rightarrow> bytes) \<Rightarrow> bytes \<Rightarrow> (wire_error, u64) outcome" where
  "connection_id blake2s handshake_hash =
    and_then (slice_at (hash_parts blake2s [CONNECTION_DOMAIN, handshake_hash]) 0 8)
      (\<lambda>digest. Done (le_word digest))"

definition sas_commit :: "(bytes \<Rightarrow> bytes) \<Rightarrow> u8 \<Rightarrow> bytes \<Rightarrow> bytes \<Rightarrow> bytes" where
  "sas_commit blake2s role handshake_hash rnd =
    hash_parts blake2s [SAS_COMMIT_DOMAIN, [role], handshake_hash, rnd]"

definition sas_digest :: "(bytes \<Rightarrow> bytes) \<Rightarrow> bytes \<Rightarrow> bytes \<Rightarrow> bytes \<Rightarrow> bytes" where
  "sas_digest blake2s handshake_hash phone_random host_random =
    hash_parts blake2s [SAS_DOMAIN, handshake_hash, phone_random, host_random]"

abbreviation (input) SPACE :: u64 where "SPACE \<equiv> 1679616"
abbreviation (input) LIMIT :: u64 where "LIMIT \<equiv> push_bit 32 1 div SPACE * SPACE"

text \<open>\<open>digest.as_chunks::<4>().0\<close>: a rest shorter than four bytes is dropped.\<close>

fun chunks4 :: "bytes \<Rightarrow> bytes list" where
  "chunks4 (a # b # c # d # rest) = [a, b, c, d] # chunks4 rest"
| "chunks4 short = []"

text \<open>The digits are written from the last to the first.\<close>

fun sas_digits :: "nat \<Rightarrow> u64 \<Rightarrow> u8 list" where
  "sas_digits 0 v = []"
| "sas_digits (Suc n) v = sas_digits n (v div 6) @ [ucast (v mod 6) + 1]"

definition sas_word :: "u32 \<Rightarrow> u8 list option" where
  "sas_word w = (let v = ucast w in if v < LIMIT then Some (sas_digits 8 (v mod SPACE)) else None)"

fun first_sas_word :: "bytes list \<Rightarrow> u8 list option" where
  "first_sas_word [] = None"
| "first_sas_word (c # cs) =
    (case sas_word (le_word c) of Some p \<Rightarrow> Some p | None \<Rightarrow> first_sas_word cs)"

partial_function (option) sas_pattern :: "(bytes \<Rightarrow> bytes) \<Rightarrow> bytes \<Rightarrow> u8 list option" where
  "sas_pattern blake2s digest =
    (case first_sas_word (chunks4 digest) of
       Some p \<Rightarrow> Some p
     | None \<Rightarrow> sas_pattern blake2s (hash_parts blake2s [SAS_RETRY_DOMAIN, digest]))"

declare sas_pattern.simps [code]

definition noise_nonce :: "u64 \<Rightarrow> bytes" where
  "noise_nonce packet_number = put_bytes 4 (le_u64 packet_number) (replicate 12 0)"

section \<open>Both headers are canonical\<close>


definition header_bytes :: "record_header \<Rightarrow> bytes" where
  "header_bytes h = direction_magic (rh_direction h) @ [5, rh_message_type h] @
     le_u16 (of_nat (64 + unat (rh_payload_length h))) @ le_u64 (rh_connection_id h) @
     le_u64 (rh_session_id h) @ le_u64 (rh_packet_number h) @ le_u64 (rh_logical_id h) @
     le_u32 (rh_flags h) @ le_u16 (rh_payload_length h) @ [0, 0]"

lemma length_magic [simp]: "length (direction_magic d) = 4"
  by (cases d) (simp_all add: PHONE_MAGIC_def HOST_MAGIC_def)

lemma write_record_header_bytes:
  assumes "length bs = 48"
  shows "write_record_header bs h = Done (header_bytes h)"
proof -
  have "write_record_header bs h = Done (header_bytes h @ drop 48 bs)"
    unfolding write_record_header_def Let_def put_first using assms
    by (simp add: put_next del: append_assoc le_bytes.simps) (simp add: header_bytes_def del: le_bytes.simps)
  then show ?thesis using assms by simp
qed

lemma length_header_bytes [simp]: "length (header_bytes h) = 48"
  by (simp add: header_bytes_def)


lemma header_fields:
  assumes "48 \<le> length bs"
  shows "take 48 bs = sub_bytes 0 4 bs @ [bs ! 4, bs ! 5] @ sub_bytes 6 2 bs @ sub_bytes 8 8 bs @
    sub_bytes 16 8 bs @ sub_bytes 24 8 bs @ sub_bytes 32 8 bs @ sub_bytes 40 4 bs @
    sub_bytes 44 2 bs @ sub_bytes 46 2 bs"
  using assms sub_bytes_split [of 0 4 44 bs] sub_bytes_split [of 4 2 42 bs] sub_bytes_split [of 6 2 40 bs]
    sub_bytes_split [of 8 8 32 bs] sub_bytes_split [of 16 8 24 bs] sub_bytes_split [of 24 8 16 bs]
    sub_bytes_split [of 32 8 8 bs] sub_bytes_split [of 40 4 4 bs] sub_bytes_split [of 44 2 2 bs]
  by (simp add: sub_bytes_two) (simp add: sub_bytes_def)

lemma header_bytes_read:
  "sub_bytes 0 4 (header_bytes h) = direction_magic (rh_direction h)"
  "header_bytes h ! 4 = 5" "header_bytes h ! 5 = rh_message_type h"
  "sub_bytes 6 2 (header_bytes h) = le_u16 (of_nat (64 + unat (rh_payload_length h)))"
  "sub_bytes 8 8 (header_bytes h) = le_u64 (rh_connection_id h)"
  "sub_bytes 16 8 (header_bytes h) = le_u64 (rh_session_id h)"
  "sub_bytes 24 8 (header_bytes h) = le_u64 (rh_packet_number h)"
  "sub_bytes 32 8 (header_bytes h) = le_u64 (rh_logical_id h)"
  "sub_bytes 40 4 (header_bytes h) = le_u32 (rh_flags h)"
  "sub_bytes 44 2 (header_bytes h) = le_u16 (rh_payload_length h)"
  "sub_bytes 46 2 (header_bytes h) = [0, 0]"
  by (simp_all add: header_bytes_def sub_bytes_def nth_append del: le_bytes.simps)

lemma decode_header_iff:
  "decode_record_header bs d = Done h \<longleftrightarrow> rh_direction h = d \<and> length bs \<le> 1200 \<and>
     length bs = 64 + unat (rh_payload_length h) \<and> take 48 bs = header_bytes h"
proof
  assume ok: "decode_record_header bs d = Done h"
  let ?len = "le_word (sub_bytes 6 2 bs) :: u16"
  have n: "64 \<le> length bs" "length bs \<le> 1200" and sub: "sub_bytes 0 4 bs = direction_magic d" "bs ! 4 = 5"
    "le_word (sub_bytes 46 2 bs) = (0 :: u16)" "64 + unat (rh_payload_length h) = length bs"
    "unat ?len = length bs"
    and h: "rh_direction h = d" "rh_message_type h = bs ! 5" "rh_connection_id h = le_word (sub_bytes 8 8 bs)"
    "rh_session_id h = le_word (sub_bytes 16 8 bs)" "rh_packet_number h = le_word (sub_bytes 24 8 bs)"
    "rh_logical_id h = le_word (sub_bytes 32 8 bs)" "rh_flags h = le_word (sub_bytes 40 4 bs)"
    "rh_payload_length h = le_word (sub_bytes 44 2 bs)"
    using ok by (auto simp: decode_record_header_def Let_def and_then_Done split: if_splits)
  have "(of_nat (unat ?len) :: u16) = of_nat (64 + unat (rh_payload_length h))" using sub(4,5) by simp
  then have "?len = of_nat (64 + unat (rh_payload_length h))" by (simp only: of_nat_unat ucast_id)
  then have len: "le_u16 (of_nat (64 + unat (rh_payload_length h))) = sub_bytes 6 2 bs"
    using u16_le.write_back [of 6 bs] n by (simp del: le_bytes.simps)
  have wr: "le_u64 (rh_connection_id h) = sub_bytes 8 8 bs" "le_u64 (rh_session_id h) = sub_bytes 16 8 bs"
    "le_u64 (rh_packet_number h) = sub_bytes 24 8 bs" "le_u64 (rh_logical_id h) = sub_bytes 32 8 bs"
    "le_u32 (rh_flags h) = sub_bytes 40 4 bs" "le_u16 (rh_payload_length h) = sub_bytes 44 2 bs"
    using n h by (simp_all add: u16_le.write_back u32_le.write_back u64_le.write_back del: le_bytes.simps)
  have "[0, 0] = sub_bytes 46 2 bs"
    using u16_le.write_back [of 46 bs] n sub(3) by (simp add: numeral_2_eq_2)
  with n len wr sub(1,2) h(1,2) have "take 48 bs = header_bytes h"
    by (simp add: header_bytes_def header_fields del: le_bytes.simps)
  with n sub h show "rh_direction h = d \<and> length bs \<le> 1200 \<and>
     length bs = 64 + unat (rh_payload_length h) \<and> take 48 bs = header_bytes h" by simp
next
  assume a: "rh_direction h = d \<and> length bs \<le> 1200 \<and>
     length bs = 64 + unat (rh_payload_length h) \<and> take 48 bs = header_bytes h"
  have rd: "sub_bytes off n bs = sub_bytes off n (header_bytes h)" if "off + n \<le> 48" for off n
    using that a by (metis sub_bytes_take)
  have nth: "bs ! i = header_bytes h ! i" if "i < 48" for i using that a by (metis nth_take)
  have len: "unat (of_nat (64 + unat (rh_payload_length h)) :: u16) = length bs"
    using a by (simp only: unat_of_nat) simp
  show "decode_record_header bs d = Done h"
    using a len by (simp add: decode_record_header_def Let_def rd nth header_bytes_read
      u16_le.dec_enc u32_le.dec_enc u64_le.dec_enc del: le_bytes.simps)
qed


definition envelope_bytes :: "pair_envelope \<Rightarrow> bytes" where
  "envelope_bytes e = PAIR_MAGIC @ [5, pe_kind e] @ le_u16 (of_nat (32 + length (pe_payload e))) @
     pe_exchange_id e @ le_u32 (pe_step e) @ le_u16 (of_nat (length (pe_payload e))) @
     [transport_u8 (pe_transport e), 1] @ pe_payload e"

lemma length_PAIR_MAGIC [simp]: "length PAIR_MAGIC = 4"
  by (simp add: PAIR_MAGIC_def)

lemma encode_envelope_bytes:
  assumes "length (pe_exchange_id e) = 16"
  shows "encode_pair_envelope (pe_kind e) (pe_exchange_id e) (pe_step e) (pe_transport e) (pe_payload e) =
    (if length (pe_payload e) \<le> 1168 then Done (envelope_bytes e)
     else Fail (BadLength (32 + length (pe_payload e))))"
  using assms unfolding encode_pair_envelope_def Let_def put_first
  by (simp add: put_next del: append_assoc le_bytes.simps)
    (simp add: envelope_bytes_def del: le_bytes.simps)

lemma transport_try_from_iff: "transport_try_from v = Done t \<longleftrightarrow> v = transport_u8 t"
  by (cases t) (auto simp: transport_try_from_def)

lemma transport_round_trip [simp]: "transport_try_from (transport_u8 t) = Done t"
  by (simp add: transport_try_from_iff)

lemma envelope_fields:
  assumes "32 \<le> length bs"
  shows "bs = sub_bytes 0 4 bs @ [bs ! 4, bs ! 5] @ sub_bytes 6 2 bs @ sub_bytes 8 16 bs @
    sub_bytes 24 4 bs @ sub_bytes 28 2 bs @ [bs ! 30, bs ! 31] @ sub_bytes 32 (length bs - 32) bs"
proof -
  have all: "bs = sub_bytes 0 4 bs @ sub_bytes 4 (length bs - 4) bs"
    using assms sub_bytes_split [of 0 4 "length bs - 4" bs] by (simp add: sub_bytes_all)
  have split: "sub_bytes off (length bs - off) bs = sub_bytes off k bs @ sub_bytes (off + k) (length bs - (off + k)) bs"
    if "off + k \<le> 32" for off k
    using that assms sub_bytes_split [of off k "length bs - (off + k)" bs] by simp
  show ?thesis
    using all split [of 4 2] split [of 6 2] split [of 8 16] split [of 24 4] split [of 28 2] split [of 30 2] assms
    by (simp add: sub_bytes_two)
qed

lemma envelope_bytes_read:
  assumes "length (pe_exchange_id e) = 16"
  shows "sub_bytes 0 4 (envelope_bytes e) = PAIR_MAGIC" "envelope_bytes e ! 4 = 5"
    "envelope_bytes e ! 5 = pe_kind e"
    "sub_bytes 6 2 (envelope_bytes e) = le_u16 (of_nat (32 + length (pe_payload e)))"
    "sub_bytes 8 16 (envelope_bytes e) = pe_exchange_id e"
    "sub_bytes 24 4 (envelope_bytes e) = le_u32 (pe_step e)"
    "sub_bytes 28 2 (envelope_bytes e) = le_u16 (of_nat (length (pe_payload e)))"
    "envelope_bytes e ! 30 = transport_u8 (pe_transport e)" "envelope_bytes e ! 31 = 1"
    "length (envelope_bytes e) = 32 + length (pe_payload e)"
    "sub_bytes 32 (length (pe_payload e)) (envelope_bytes e) = pe_payload e"
  using assms by (simp_all add: envelope_bytes_def PAIR_MAGIC_def sub_bytes_def nth_append del: le_bytes.simps)

lemma unat_small_u16: "n < 65536 \<Longrightarrow> unat (of_nat n :: u16) = n"
  by (simp add: unat_of_nat)

lemma decode_envelope_iff:
  "decode_pair_envelope bs = Done e \<longleftrightarrow>
     length (pe_exchange_id e) = 16 \<and> length (pe_payload e) \<le> 1168 \<and> bs = envelope_bytes e"
proof
  assume ok: "decode_pair_envelope bs = Done e"
  have n: "32 \<le> length bs" "length bs \<le> 1200"
    and sub: "sub_bytes 0 4 bs = PAIR_MAGIC" "bs ! 4 = 5" "bs ! 31 = 1"
      "unat (le_word (sub_bytes 6 2 bs) :: u16) = length bs"
      "32 + unat (le_word (sub_bytes 28 2 bs) :: u16) = length bs"
    and e: "pe_kind e = bs ! 5" "pe_exchange_id e = sub_bytes 8 16 bs"
      "pe_step e = le_word (sub_bytes 24 4 bs)" "transport_u8 (pe_transport e) = bs ! 30"
      "pe_payload e = sub_bytes 32 (length bs - 32) bs"
    using ok by (auto simp: decode_pair_envelope_def Let_def and_then_Done transport_try_from_iff split: if_splits)
  have len: "length (pe_payload e) = length bs - 32" using e(5) n by simp
  have "32 + length (pe_payload e) = unat (le_word (sub_bytes 6 2 bs) :: u16)"
    "length (pe_payload e) = unat (le_word (sub_bytes 28 2 bs) :: u16)"
    using n len sub(4,5) by simp_all
  then have l6: "of_nat (32 + length (pe_payload e)) = (le_word (sub_bytes 6 2 bs) :: u16)"
    and l28: "of_nat (length (pe_payload e)) = (le_word (sub_bytes 28 2 bs) :: u16)"
    by (simp_all only: of_nat_unat ucast_id)
  have "le_u16 (of_nat (32 + length (pe_payload e))) = sub_bytes 6 2 bs"
    "le_u16 (of_nat (length (pe_payload e))) = sub_bytes 28 2 bs"
    "le_u32 (pe_step e) = sub_bytes 24 4 bs"
    unfolding l6 l28 e(3) using n by (simp_all add: u16_le.write_back u32_le.write_back del: le_bytes.simps)
  then have "envelope_bytes e = bs"
    using envelope_fields [OF n(1)] sub(1-3) e(1,2,4,5) by (simp add: envelope_bytes_def del: le_bytes.simps)
  with n len e(2) show "length (pe_exchange_id e) = 16 \<and> length (pe_payload e) \<le> 1168 \<and> bs = envelope_bytes e"
    by simp
next
  assume a: "length (pe_exchange_id e) = 16 \<and> length (pe_payload e) \<le> 1168 \<and> bs = envelope_bytes e"
  then have x: "length (pe_exchange_id e) = 16" and p: "length (pe_payload e) \<le> 1168" by auto
  have u: "unat (of_nat (32 + length (pe_payload e)) :: u16) = 32 + length (pe_payload e)"
    "unat (of_nat (length (pe_payload e)) :: u16) = length (pe_payload e)"
    using p by (simp_all only: unat_small_u16)
  show "decode_pair_envelope bs = Done e"
    using a u p by (simp add: decode_pair_envelope_def Let_def envelope_bytes_read [OF x]
      u16_le.dec_enc u32_le.dec_enc del: le_bytes.simps of_nat_add of_nat_numeral)
qed

text \<open>
  The pairing envelope is canonical: a datagram decodes to an envelope exactly when it is the
  encoding of that envelope, byte for byte. Nothing can be changed, added or left out
  without changing the kind, exchange, step, transport or payload that is read.
\<close>

theorem pair_envelope_canonical:
  "decode_pair_envelope bs = Done e \<longleftrightarrow> length (pe_exchange_id e) = 16 \<and>
     encode_pair_envelope (pe_kind e) (pe_exchange_id e) (pe_step e) (pe_transport e) (pe_payload e) = Done bs"
  by (auto simp: decode_envelope_iff encode_envelope_bytes split: if_splits)

text \<open>
  C34: the header of a record is canonical: the 48 bytes decode to \<open>h\<close> exactly when they are what
  \<open>write_record_header\<close> writes for \<open>h\<close>, in a datagram of the length that \<open>h\<close> implies. The
  associated data of a record is therefore determined by the header the host acts on.
\<close>

theorem record_header_canonical:
  "decode_record_header bs d = Done h \<longleftrightarrow> rh_direction h = d \<and> length bs \<le> MAX_DATAGRAM_SIZE \<and>
     length bs = RECORD_HEADER_SIZE + unat (rh_payload_length h) + TAG_SIZE \<and>
     write_record_header (replicate RECORD_HEADER_SIZE 0) h = Done (take RECORD_HEADER_SIZE bs)"
  by (auto simp: decode_header_iff write_record_header_bytes)

section \<open>Touch payloads\<close>

lemma decode_contacts_v5_no_panic:
  "\<forall>i \<in> set is. 54 + i * 10 \<le> length bs \<Longrightarrow> length cs + length is \<le> 16 \<Longrightarrow>
   decode_contacts_v5 bs is seen cs \<noteq> Panic"
proof (induction "is" arbitrary: seen cs)
  case (Cons i "is")
  let ?off = "44 + i * 10"
  have in_range: "?off + 10 \<le> length bs" using Cons.prems by simp
  obtain c where c: "(contact_at bs ?off (bs ! ?off) (bs ! (?off + 1)) ::
      (wire_error, contact) outcome) = Done c"
    using contact_at_in [OF in_range] by blast
  have "decode_contacts_v5 bs is (seen(bs ! ?off := True)) (cs @ [c]) \<noteq> Panic"
    using Cons.prems by (intro Cons.IH) auto
  with in_range c Cons.prems show ?case by (simp add: Let_def contacts_push_def)
qed simp

lemma decode_contacts_v5_Done:
  assumes "decode_contacts_v5 bs is seen cs = Done ds"
    and "distinct (map pointer_id cs)" and "\<forall>p. seen p \<longleftrightarrow> p \<in> pointer_id ` set cs"
    and "\<forall>c \<in> set cs. contact_flags c AND NOT VALID_CONTACT_FLAGS = 0"
  shows "distinct (map pointer_id ds) \<and> length ds = length cs + length is \<and>
    (\<forall>c \<in> set ds. contact_flags c AND NOT VALID_CONTACT_FLAGS = 0)"
  using assms
proof (induction "is" arbitrary: seen cs)
  case (Cons i "is")
  let ?off = "44 + i * 10"
  from Cons.prems(1) obtain pid fl c where
    pid: "\<not> seen pid" and fl: "fl AND NOT VALID_CONTACT_FLAGS = 0"
    and c: "(contact_at bs ?off pid fl :: (wire_error, contact) outcome) = Done c"
    and rest: "decode_contacts_v5 bs is (seen(pid := True)) (cs @ [c]) = Done ds"
    by (auto simp: Let_def and_then_Done contacts_push_def split: if_splits)
  from c have "pointer_id c = pid" "contact_flags c = fl" using contact_at_Done by blast+
  then show ?case using Cons.IH [OF rest] Cons.prems(2-4) pid fl by auto
qed auto

lemma validate_session_start_Done:
  "validate_session_start f = Done u \<longleftrightarrow> (session_start f \<longleftrightarrow> sequence f = 0) \<and>
     (sequence f = 0 \<longrightarrow> action f = ACTION_CANCEL \<and> frame_flags f = FRAME_FLAG_SESSION_START \<and> contacts f = [])"
  by (auto simp: validate_session_start_def)

lemma validate_session_start_no_panic: "validate_session_start f \<noteq> Panic"
  by (simp add: validate_session_start_def)

lemma decode_touch_payload_no_panic: "decode_touch_payload h p \<noteq> Panic"
proof
  assume panic: "decode_touch_payload h p = Panic"
  let ?count = "unat (p ! 42)"
  have "44 \<le> length p" and count: "?count \<le> 16" and len: "length p = 44 + ?count * 10"
    and loop: "decode_contacts_v5 p [0..<?count] (\<lambda>_. False) [] = Panic"
    using panic
    by (auto simp: decode_touch_payload_def Let_def and_then_Panic validate_session_start_no_panic
        split: if_splits)
  have "decode_contacts_v5 p [0..<?count] (\<lambda>_. False) [] \<noteq> Panic"
    using count len by (intro decode_contacts_v5_no_panic) auto
  with loop show False by contradiction
qed

lemma decode_touch_payload_Done:
  assumes "decode_touch_payload h p = Done f"
  shows "rh_direction h = PhoneToHost" "rh_message_type h = PHONE_TOUCH" "rh_session_id h \<noteq> 0"
    "session_id f = rh_session_id h" "sequence f = rh_logical_id h" "known_action (action f)"
    "frame_flags f AND NOT VALID_FRAME_FLAGS = 0" "length p = 44 + unat (p ! 42) * 10"
    "unat (p ! 42) \<le> 16" "validate_session_start f = Done ()"
    "decode_contacts_v5 p [0..<unat (p ! 42)] (\<lambda>_. False) [] = Done (contacts f)"
  using assms by (auto simp: decode_touch_payload_def Let_def and_then_Done split: if_splits)

text \<open>
  No touch payload makes the v5 decoder panic, and one that it accepts is a well-formed frame
  of the record's session and logical id: a known action, no undefined flag on the frame or on a
  contact, at most 16 contacts with distinct pointer ids that fill the payload exactly, and the
  session-start flag on the frame with sequence 0 and on no other, that frame being a CANCEL
  without contacts.
\<close>

theorem decode_touch_payload_well_formed:
  "decode_touch_payload h p \<noteq> Panic \<and>
   (decode_touch_payload h p = Done f \<longrightarrow>
      session_id f = rh_session_id h \<and> session_id f \<noteq> 0 \<and> sequence f = rh_logical_id h \<and>
      known_action (action f) \<and> frame_flags f AND NOT VALID_FRAME_FLAGS = 0 \<and>
      length (contacts f) \<le> MAX_CONTACTS \<and>
      length p = TOUCH_PAYLOAD_HEADER_SIZE + length (contacts f) * CONTACT_SIZE \<and>
      distinct (map pointer_id (contacts f)) \<and>
      (\<forall>c \<in> set (contacts f). contact_flags c AND NOT VALID_CONTACT_FLAGS = 0) \<and>
      (session_start f \<longleftrightarrow> sequence f = 0) \<and>
      (session_start f \<longrightarrow> action f = ACTION_CANCEL \<and> contacts f = []))"
proof (intro conjI impI)
  show "decode_touch_payload h p \<noteq> Panic" by (rule decode_touch_payload_no_panic)
next
  assume ok: "decode_touch_payload h p = Done f"
  note d = decode_touch_payload_Done [OF ok]
  have v: "(session_start f \<longleftrightarrow> sequence f = 0) \<and> (sequence f = 0 \<longrightarrow> action f = 4 \<and> contacts f = [])"
    using d(10) validate_session_start_Done by blast
  have c: "distinct (map pointer_id (contacts f)) \<and> length (contacts f) = unat (p ! 42) \<and>
      (\<forall>c \<in> set (contacts f). contact_flags c AND NOT VALID_CONTACT_FLAGS = 0)"
    using decode_contacts_v5_Done [OF d(11)] by simp
  show "session_id f = rh_session_id h" "session_id f \<noteq> 0" "sequence f = rh_logical_id h"
    "known_action (action f)" "frame_flags f AND NOT VALID_FRAME_FLAGS = 0"
    "length (contacts f) \<le> MAX_CONTACTS"
    "length p = TOUCH_PAYLOAD_HEADER_SIZE + length (contacts f) * CONTACT_SIZE"
    "distinct (map pointer_id (contacts f))"
    "\<forall>c \<in> set (contacts f). contact_flags c AND NOT VALID_CONTACT_FLAGS = 0"
    using c d(3-9) by simp_all
  show "session_start f \<longleftrightarrow> sequence f = 0"
    "session_start f \<Longrightarrow> action f = ACTION_CANCEL" "session_start f \<Longrightarrow> contacts f = []"
    using v by blast+
qed

definition sample_touch_header :: "u64 \<Rightarrow> u16 \<Rightarrow> record_header" where
  "sample_touch_header lid len = \<lparr>rh_direction = PhoneToHost, rh_message_type = 1, rh_connection_id = 3,
     rh_session_id = 7, rh_packet_number = 0, rh_logical_id = lid, rh_flags = 0, rh_payload_length = len\<rparr>"

definition sample_start_payload :: bytes where
  "sample_start_payload = replicate 40 0 @ [4, 0, 0, 2]"

theorem decode_touch_payload_well_formed_witness:
  "\<exists>f. decode_touch_payload (sample_touch_header 0 44) sample_start_payload = Done f \<and>
     session_start f \<and> action f = ACTION_CANCEL \<and> contacts f = []"
proof -
  have "\<exists>f. decode_touch_payload (sample_touch_header 0 44) sample_start_payload = Done f \<and> sequence f = 0"
    by (simp add: decode_touch_payload_def sample_touch_header_def sample_start_payload_def known_action_def
        nth_append sub_bytes_def validate_session_start_def session_start_def)
  then obtain f where "decode_touch_payload (sample_touch_header 0 44) sample_start_payload = Done f"
    and "sequence f = 0" by blast
  with decode_touch_payload_well_formed [of "sample_touch_header 0 44" sample_start_payload f]
  show ?thesis by blast
qed

section \<open>The short authentication string\<close>

definition sas_rank :: "u8 list \<Rightarrow> nat" where
  "sas_rank p = foldl (\<lambda>a d. a * 6 + (unat d - 1)) 0 p"

definition sas_shape :: "u8 list \<Rightarrow> bool" where
  "sas_shape p \<longleftrightarrow> length p = 8 \<and> (\<forall>d \<in> set p. 1 \<le> d \<and> d \<le> 6)"

lemma sas_digit: "unat (ucast (v mod 6) + 1 :: u8) = unat v mod 6 + 1" for v :: u64
proof -
  have "(ucast (v mod 6) :: u8) = of_nat (unat v mod 6)"
    using of_nat_unat [of "v mod 6", where ?'a = u8, symmetric] by (simp only: unat_mod unat_numeral) simp
  moreover have "unat v mod 6 < 6" by simp
  ultimately show ?thesis by (simp add: unat_word_ariths unat_of_nat)
qed

lemma sas_digits_shape: "length (sas_digits n v) = n \<and> (\<forall>d \<in> set (sas_digits n v). 1 \<le> d \<and> d \<le> 6)"
proof (induction n arbitrary: v)
  case (Suc n)
  have "unat v mod 6 < 6" by simp
  then have "1 \<le> (ucast (v mod 6) + 1 :: u8)" "(ucast (v mod 6) + 1 :: u8) \<le> 6"
    by (simp_all only: word_le_nat_alt sas_digit) simp_all
  with Suc show ?case by auto
qed simp

lemma sas_digits_iff:
  "(\<forall>d \<in> set p. 1 \<le> d \<and> d \<le> 6) \<Longrightarrow>
   sas_digits (length p) v = p \<longleftrightarrow> unat v mod 6 ^ length p = sas_rank p"
proof (induction p arbitrary: v rule: rev_induct)
  case Nil
  show ?case by (simp add: sas_rank_def)
next
  case (snoc d p)
  let ?n = "length p"
  have ih: "sas_digits ?n (v div 6) = p \<longleftrightarrow> unat v div 6 mod 6 ^ ?n = sas_rank p"
    using snoc by (simp add: unat_div)
  have d: "1 \<le> unat d" "unat d \<le> 6" using snoc.prems by (simp_all add: word_le_nat_alt)
  have small: "unat v mod 6 < 6" by simp
  have "ucast (v mod 6) + 1 = d \<longleftrightarrow> unat v mod 6 + 1 = unat d"
    by (simp only: word_unat_eq_iff sas_digit)
  moreover have "unat v mod 6 ^ length (p @ [d]) = unat v div 6 mod 6 ^ ?n * 6 + unat v mod 6"
    by (simp add: mod_mult2_eq)
  moreover have "sas_rank (p @ [d]) = sas_rank p * 6 + (unat d - 1)" by (simp add: sas_rank_def)
  moreover have "a * 6 + b = a' * 6 + b' \<longleftrightarrow> a = a' \<and> b = b'" if "b < 6" "b' < 6" for a b a' b' :: nat
    using that by presburger
  ultimately show ?case using ih d small by auto
qed

lemma sas_word_unat:
  "sas_word w = (if unat w < 4294778112 then Some (sas_digits 8 (of_nat (unat w mod 1679616))) else None)"
proof -
  have u: "unat (ucast w :: u64) = unat w" 
    using unsigned_less [of w, where ?'a = nat] by (simp add: unsigned_ucast_eq take_bit_nat_eq_self)
  have "ucast w mod SPACE = of_nat (unat w mod 1679616)"
  proof -
    have "unat (ucast w mod SPACE :: u64) = unat w mod 1679616" by (simp only: unat_mod u) simp
    from this [symmetric] show ?thesis by simp
  qed
  moreover have "(ucast w :: u64) < LIMIT \<longleftrightarrow> unat w < 4294778112"
    by (simp add: word_less_nat_alt u)
  ultimately show ?thesis by (simp add: sas_word_def Let_def)
qed


lemma sas_word_iff:
  assumes "sas_shape p"
  shows "sas_word w = Some p \<longleftrightarrow> unat w < 4294778112 \<and> unat w mod 1679616 = sas_rank p"
proof -
  have p: "length p = 8" "\<forall>d \<in> set p. 1 \<le> d \<and> d \<le> 6" using assms by (auto simp: sas_shape_def)
  have "unat (of_nat (unat w mod 1679616) :: u64) = unat w mod 1679616"
    by (simp add: unat_of_nat)
  then have "sas_digits 8 (of_nat (unat w mod 1679616)) = p \<longleftrightarrow> unat w mod 1679616 = sas_rank p"
    using sas_digits_iff [OF p(2), of "of_nat (unat w mod 1679616)"] p(1) by simp
  then show ?thesis by (simp add: sas_word_unat)
qed

lemma sas_rank_less: "(\<forall>d \<in> set p. 1 \<le> d \<and> d \<le> 6) \<Longrightarrow> sas_rank p < 6 ^ length p"
proof (induction p rule: rev_induct)
  case (snoc d p)
  then have "sas_rank p < 6 ^ length p" "unat d \<le> 6" by (simp_all add: word_le_nat_alt)
  then show ?case by (simp add: sas_rank_def)
qed (simp add: sas_rank_def)

text \<open>
  Every pattern of eight digits from 1 to 6 is equally likely: of the \<open>2 ^ 32\<close> values of a
  digest word exactly 2557 give that pattern, the same number for each pattern; the rest of
  the words are rejected.
\<close>

lemma sas_pattern_uniform:
  assumes "sas_shape p"
  shows "card {w. sas_word w = Some p} = 2557"
proof -
  have r: "sas_rank p < 1679616"
    using assms sas_rank_less [of p] by (auto simp: sas_shape_def)
  let ?f = "\<lambda>k. of_nat (k * 1679616 + sas_rank p) :: u32"
  have f: "unat (?f k) = k * 1679616 + sas_rank p" if "k < 2557" for k
    using that r by (subst unat_of_nat) simp
  have "{w. sas_word w = Some p} = ?f ` {..<2557}"
  proof (intro set_eqI iffI)
    fix w assume "w \<in> {w. sas_word w = Some p}"
    then have w: "unat w < 4294778112" "unat w mod 1679616 = sas_rank p"
      using sas_word_iff [OF assms] by auto
    then have "unat w div 1679616 < 2557" by simp
    moreover have "w = ?f (unat w div 1679616)"
      using w(2) f [OF calculation] by (simp only: word_unat_eq_iff) (metis div_mult_mod_eq)
    ultimately show "w \<in> ?f ` {..<2557}" by blast
  next
    fix w assume "w \<in> ?f ` {..<2557}"
    then obtain k where "k < 2557" "unat w = k * 1679616 + sas_rank p" using f by auto
    then show "w \<in> {w. sas_word w = Some p}" using r by (simp add: sas_word_iff [OF assms])
  qed
  moreover have "inj_on ?f {..<2557}"
    by (rule inj_onI) (metis f lessThan_iff add_right_cancel mult_right_cancel zero_neq_numeral)
  ultimately show ?thesis by (simp add: card_image)
qed

lemma sas_pattern_uniform_witness:
  "card {w. sas_word w = Some [2, 4, 3, 2, 1, 4, 5, 5]} = 2557"
  by (rule sas_pattern_uniform) (simp add: sas_shape_def)

text \<open>The pattern is the first accepted word of the digest or of its rehashes.\<close>

lemma sas_pattern_found: "first_sas_word (chunks4 d) = Some p \<Longrightarrow> sas_pattern h d = Some p"
  by (subst sas_pattern.simps) simp

lemma sas_pattern_retry:
  "first_sas_word (chunks4 d) = None \<Longrightarrow> sas_pattern h d = sas_pattern h (hash_parts h [SAS_RETRY_DOMAIN, d])"
  by (subst sas_pattern.simps) simp

lemma sas_pattern_returns:
  "first_sas_word (chunks4 (((\<lambda>d. hash_parts h [SAS_RETRY_DOMAIN, d]) ^^ n) d)) \<noteq> None \<Longrightarrow>
   \<exists>p. sas_pattern h d = Some p"
proof (induction n arbitrary: d)
  case (Suc n)
  then have "\<exists>p. sas_pattern h (hash_parts h [SAS_RETRY_DOMAIN, d]) = Some p"
    by (simp add: funpow_Suc_right del: funpow.simps(2))
  then show ?case
    by (metis sas_pattern_found sas_pattern_retry option.exhaust)
qed (use sas_pattern_found in fastforce)

lemma sas_word_shape: "sas_word w = Some p \<Longrightarrow> sas_shape p"
  by (auto simp: sas_word_def Let_def sas_shape_def sas_digits_shape split: if_splits)

lemma first_sas_word_shape: "first_sas_word ws = Some p \<Longrightarrow> sas_shape p"
  by (induction ws) (auto split: option.splits dest: sas_word_shape)

lemma sas_pattern_shape: "sas_pattern h d = Some p \<Longrightarrow> sas_shape p"
  by (rule sas_pattern.raw_induct [where P = "\<lambda>h d p. sas_shape p"], auto split: option.splits)
    (auto dest: first_sas_word_shape)

end
