(* ===== verification/Replay_Window.thy ===== *)
theory Replay_Window
  imports Protocol_V5
begin

text \<open>
  The replay window of the v5 records (\<open>ReplayWindow\<close> in \<open>native-host/src/v5.rs\<close>): the highest
  packet number and a bitmap of 1024 bits over the numbers below it, kept in sixteen words that
  are shifted in place. The locale \<open>replay_guard\<close> is the contract that the record cipher relies
  on: what is accepted is exactly what the set of the committed numbers allows. The bitmap
  refines that set, so that a number is accepted at most once.
\<close>

section \<open>The window\<close>

record replay_window =
  highest :: "u64 option"
  window_words :: "u64 list"

definition replay_default :: replay_window where
  "replay_default = \<lparr>highest = None, window_words = replicate (REPLAY_WINDOW_BITS div 64) 0\<rparr>"

text \<open>
  \<open>usize\<close> is 64 bits wide, so that \<open>as usize\<close> keeps the distance. The indices are below 16
  where the distance is below 1024.
\<close>

definition would_accept :: "replay_window \<Rightarrow> u64 \<Rightarrow> bool" where
  "would_accept w packet_number =
    (case highest w of
       None \<Rightarrow> True
     | Some hi \<Rightarrow>
         if packet_number > hi then True
         else let distance = hi - packet_number in
           if distance \<ge> of_nat REPLAY_WINDOW_BITS then False
           else window_words w ! (unat distance div 64) AND push_bit (unat (distance mod 64)) 1 = 0)"

text \<open>The body of the loop over the destinations, for one of them.\<close>

definition shifted_word :: "u64 list \<Rightarrow> nat \<Rightarrow> nat \<Rightarrow> nat \<Rightarrow> u64" where
  "shifted_word ws word_shift bit_shift destination =
    (if destination \<ge> word_shift then
       let value = push_bit bit_shift (ws ! (destination - word_shift)) in
       if bit_shift \<noteq> 0 \<and> destination > word_shift
       then value OR drop_bit (64 - bit_shift) (ws ! (destination - word_shift - 1))
       else value
     else 0)"

definition shift_step :: "nat \<Rightarrow> nat \<Rightarrow> nat \<Rightarrow> u64 list \<Rightarrow> u64 list" where
  "shift_step word_shift bit_shift destination ws =
     ws[destination := shifted_word ws word_shift bit_shift destination]"

definition shift_words :: "nat \<Rightarrow> u64 list \<Rightarrow> u64 list" where
  "shift_words bits ws =
    (if bits \<ge> REPLAY_WINDOW_BITS then map (\<lambda>_. 0) ws
     else fold (shift_step (bits div 64) (bits mod 64)) (rev [0..<length ws]) ws)"

definition replay_commit :: "u64 \<Rightarrow> replay_window \<Rightarrow> replay_window" where
  "replay_commit packet_number w =
    (case highest w of
       None \<Rightarrow> w\<lparr>highest := Some packet_number, window_words := (window_words w)[0 := 1]\<rparr>
     | Some hi \<Rightarrow>
         if packet_number > hi then
           let ws = shift_words (unat (packet_number - hi)) (window_words w)
           in w\<lparr>highest := Some packet_number, window_words := ws[0 := ws ! 0 OR 1]\<rparr>
         else
           let distance = unat (hi - packet_number) in
           if distance < REPLAY_WINDOW_BITS then
             w\<lparr>window_words := (window_words w)[distance div 64 :=
                 window_words w ! (distance div 64) OR push_bit (distance mod 64) 1]\<rparr>
           else w)"

section \<open>The contract\<close>

text \<open>
  A receiver guarded by a state \<open>g\<close>: a number is taken when its record is authentic and the guard
  accepts it, and then it is committed. The result is the numbers taken, in order.
\<close>

fun guarded ::
  "('g \<Rightarrow> 'n \<Rightarrow> bool) \<Rightarrow> ('n \<Rightarrow> 'g \<Rightarrow> 'g) \<Rightarrow> 'g \<Rightarrow> ('n \<times> bool) list \<Rightarrow> 'n list" where
  "guarded accepts commit g [] = []"
| "guarded accepts commit g ((n, authentic) # rest) =
    (if accepts g n \<and> authentic then n # guarded accepts commit (commit n g) rest
     else guarded accepts commit g rest)"

text \<open>
  \<open>related g S\<close>: the guard stands for the set \<open>S\<close> of the numbers committed so far. It accepts what
  \<open>allowed\<close> says of that set, which never is a member.
\<close>

locale replay_guard =
  fixes accepts :: "'g \<Rightarrow> 'n \<Rightarrow> bool" and commit :: "'n \<Rightarrow> 'g \<Rightarrow> 'g"
    and allowed :: "'n set \<Rightarrow> 'n \<Rightarrow> bool" and related :: "'g \<Rightarrow> 'n set \<Rightarrow> bool"
  assumes allowed_new: "allowed S n \<Longrightarrow> n \<notin> S"
    and accepts_iff: "related g S \<Longrightarrow> accepts g n \<longleftrightarrow> allowed S n"
    and commit_related: "related g S \<Longrightarrow> allowed S n \<Longrightarrow> related (commit n g) (insert n S)"
begin

lemma guarded_refines:
  "related g S \<Longrightarrow> guarded accepts commit g ns = guarded allowed insert S ns"
  by (induction ns arbitrary: g S) (auto simp: accepts_iff commit_related)

lemma guarded_set_once:
  "distinct (guarded allowed insert S ns) \<and> set (guarded allowed insert S ns) \<inter> S = {}"
proof (induction ns arbitrary: S)
  case (Cons p ns)
  obtain n au where p: "p = (n, au)" by fastforce
  from Cons.IH [of S] Cons.IH [of "insert n S"] allowed_new [of S n] show ?case
    by (simp add: p)
qed simp

lemma guarded_once:
  "related g S \<Longrightarrow> distinct (guarded accepts commit g ns) \<and> set (guarded accepts commit g ns) \<inter> S = {}"
  using guarded_set_once by (simp add: guarded_refines)

end

text \<open>What the window promises of the set of committed numbers.\<close>

definition window_allows :: "u64 set \<Rightarrow> u64 \<Rightarrow> bool" where
  "window_allows S n \<longleftrightarrow> n \<notin> S \<and> (\<forall>m \<in> S. m < n \<or> unat (m - n) < REPLAY_WINDOW_BITS)"

section \<open>The bitmap\<close>

definition window_bit :: "u64 list \<Rightarrow> nat \<Rightarrow> bool" where
  "window_bit ws d = bit (ws ! (d div 64)) (d mod 64)"

definition window_rel :: "replay_window \<Rightarrow> u64 set \<Rightarrow> bool" where
  "window_rel w S \<longleftrightarrow> length (window_words w) = 16 \<and>
     (case highest w of
        None \<Rightarrow> S = {} \<and> window_words w = replicate 16 0
      | Some h \<Rightarrow> h \<in> S \<and> (\<forall>m \<in> S. m \<le> h) \<and>
          (\<forall>d < 1024. window_bit (window_words w) d \<longleftrightarrow> d \<le> unat h \<and> h - of_nat d \<in> S))"

lemma shifted_word_cong:
  "(\<And>i. i \<le> k \<Longrightarrow> ws ! i = ws' ! i) \<Longrightarrow> shifted_word ws a b k = shifted_word ws' a b k"
  by (simp add: shifted_word_def Let_def)

lemma length_shift_fold [simp]: "length (fold (shift_step a b) ks ws) = length ws"
  by (induction ks arbitrary: ws) (auto simp: shift_step_def)

lemma nth_shift_step:
  "i < length ws \<Longrightarrow> shift_step a b k ws ! i = (if i = k then shifted_word ws a b k else ws ! i)"
  by (simp add: shift_step_def)

lemma shift_fold:
  "m \<le> length ws \<Longrightarrow> i < length ws \<Longrightarrow>
   fold (shift_step a b) (rev [length ws - m..<length ws]) ws ! i =
     (if length ws - m \<le> i then shifted_word ws a b i else ws ! i)"
proof (induction m arbitrary: i)
  case (Suc m)
  let ?k = "length ws - Suc m" and ?ws = "fold (shift_step a b) (rev [length ws - m..<length ws]) ws"
  have k: "Suc ?k = length ws - m" using Suc.prems by simp
  have "[?k..<length ws] = ?k # [length ws - m..<length ws]"
    using Suc.prems k by (metis upt_conv_Cons less_le_trans zero_less_Suc diff_less)
  then have "fold (shift_step a b) (rev [?k..<length ws]) ws = shift_step a b ?k ?ws" by simp
  moreover have "shifted_word ?ws a b ?k = shifted_word ws a b ?k"
    using Suc by (intro shifted_word_cong) auto
  ultimately show ?case
    using Suc.IH [of i] Suc.prems k by (simp add: nth_shift_step)
qed simp

lemma bit_shifted_word:
  assumes j: "j < 64" and b: "b < 64"
  shows "bit (shifted_word ws a b i) j \<longleftrightarrow> 64 * a + b \<le> 64 * i + j \<and> window_bit ws (64 * i + j - (64 * a + b))"
proof (cases "a \<le> i")
  case True
  then obtain e where i: "i = a + e" using le_Suc_ex by blast
  show ?thesis
  proof (cases "b \<le> j")
    case True
    then obtain r where r: "j = b + r" using le_Suc_ex by blast
    then have "64 * i + j - (64 * a + b) = 64 * e + r" by (simp add: i)
    moreover have "(64 * e + r) div 64 = e" "(64 * e + r) mod 64 = r" using r j by auto
    ultimately show ?thesis using j r
      by (auto simp: shifted_word_def Let_def i window_bit_def bit_or_iff bit_push_bit_iff bit_drop_bit_eq
          dest: bit_imp_le_length)
  next
    case False
    show ?thesis
    proof (cases e)
      case 0
      with False show ?thesis by (simp add: shifted_word_def i bit_push_bit_iff)
    next
      case (Suc e')
      define r where "r = 64 - b + j"
      have r: "r < 64" using False b by (simp add: r_def)
      have "64 * i + j - (64 * a + b) = 64 * e' + r" using False b j by (simp add: i Suc r_def)
      moreover have "(64 * e' + r) div 64 = e'" "(64 * e' + r) mod 64 = 64 - b + j"
        using r by (simp_all add: r_def [symmetric])
      ultimately have wb: "window_bit ws (64 * i + j - (64 * a + b)) = bit (ws ! e') (64 - b + j)"
        by (simp only: window_bit_def)
      show ?thesis unfolding wb using False b
        by (simp add: shifted_word_def Let_def i Suc bit_or_iff bit_push_bit_iff bit_drop_bit_eq)
    qed
  qed
next
  case False
  then show ?thesis using j by (simp add: shifted_word_def)
qed

lemma length_shift_words [simp]: "length (shift_words s ws) = length ws"
  by (simp add: shift_words_def)

lemma window_bit_shift:
  assumes len: "length ws = 16" and d: "d < 1024"
  shows "window_bit (shift_words s ws) d \<longleftrightarrow> s \<le> d \<and> window_bit ws (d - s)"
proof (cases "1024 \<le> s")
  case True
  with assms show ?thesis by (simp add: shift_words_def window_bit_def)
next
  case False
  have i: "d div 64 < length ws" using assms by simp
  have "shift_words s ws ! (d div 64) = shifted_word ws (s div 64) (s mod 64) (d div 64)"
    using shift_fold [of "length ws" ws "d div 64"] i False by (simp add: shift_words_def)
  then show ?thesis by (simp add: window_bit_def [of "shift_words s ws"] bit_shifted_word)
qed

lemma window_bit_set:
  assumes "length ws = 16" and "d < 1024" and "k < 1024"
  shows "window_bit (ws[k div 64 := ws ! (k div 64) OR push_bit (k mod 64) 1]) d \<longleftrightarrow> d = k \<or> window_bit ws d"
proof (cases "d div 64 = k div 64")
  case True
  then have "d mod 64 = k mod 64 \<longleftrightarrow> d = k" by (metis div_mult_mod_eq)
  with True assms show ?thesis
    by (auto simp: window_bit_def bit_or_iff bit_exp_iff)
next
  case False
  with assms show ?thesis by (auto simp: window_bit_def)
qed


section \<open>The bitmap stands for the set\<close>

lemma minus_of_nat_iff: "n - of_nat d = n \<longleftrightarrow> d = 0" if "d < 1024" for n :: u64
proof -
  have "n - of_nat d = n \<longleftrightarrow> (of_nat d :: u64) = 0" by (simp add: diff_eq_eq)
  also have "\<dots> \<longleftrightarrow> d = 0" using that by (simp add: word_unat_eq_iff unat_of_nat)
  finally show ?thesis .
qed

lemma unat_minus: "n \<le> h \<Longrightarrow> unat (h - n) = unat h - unat n" for n :: "'a::len word"
  by (simp add: unat_sub word_le_nat_alt)

lemma unat_distance: "n \<le> h \<Longrightarrow> unat (h - n) \<le> unat h" for n :: "'a::len word"
  by (simp add: unat_minus)

lemma window_allows_iff:
  assumes "h \<in> S" and "\<forall>m \<in> S. m \<le> h"
  shows "window_allows S n \<longleftrightarrow> n \<notin> S \<and> (h < n \<or> unat (h - n) < 1024)"
proof
  assume "window_allows S n"
  with assms(1) show "n \<notin> S \<and> (h < n \<or> unat (h - n) < 1024)" by (auto simp: window_allows_def)
next
  assume a: "n \<notin> S \<and> (h < n \<or> unat (h - n) < 1024)"
  have "m < n \<or> unat (m - n) < 1024" if "m \<in> S" for m
  proof (cases "h < n")
    case True
    then show ?thesis using assms(2) that by auto
  next
    case False
    have "unat (m - n) \<le> unat (h - n)" if "n \<le> m"
      using that assms(2) \<open>m \<in> S\<close> False
      by (simp add: unat_minus not_less) (meson diff_le_mono word_le_nat_alt)
    with a False show ?thesis by force
  qed
  with a show "window_allows S n" by (auto simp: window_allows_def)
qed

lemma would_accept_allowed:
  assumes rel: "window_rel w S"
  shows "would_accept w n \<longleftrightarrow> window_allows S n"
proof (cases "highest w")
  case None
  with rel show ?thesis by (simp add: window_rel_def would_accept_def window_allows_def)
next
  case (Some h)
  then have h: "h \<in> S" "\<forall>m \<in> S. m \<le> h"
    and bits: "\<forall>d < 1024. window_bit (window_words w) d \<longleftrightarrow> d \<le> unat h \<and> h - of_nat d \<in> S"
    using rel by (auto simp: window_rel_def)
  show ?thesis
  proof (cases "h < n")
    case True
    with h Some show ?thesis by (auto simp: would_accept_def window_allows_iff)
  next
    case False
    let ?d = "unat (h - n)"
    have d: "?d \<le> unat h" "h - of_nat ?d = n" using False by (simp_all add: unat_distance not_less)
    have far: "of_nat 1024 \<le> h - n \<longleftrightarrow> 1024 \<le> ?d" by (simp add: word_le_nat_alt)
    have "unat ((h - n) mod 64) = ?d mod 64" by (simp add: unat_mod)
    moreover have "v AND push_bit k 1 = 0 \<longleftrightarrow> \<not> bit v k" for v :: u64 and k
      by (simp add: and_exp_eq_0_iff_not_bit)
    ultimately have "would_accept w n \<longleftrightarrow> ?d < 1024 \<and> \<not> window_bit (window_words w) ?d"
      using False Some far by (simp add: would_accept_def Let_def window_bit_def not_le)
    with False bits d h show ?thesis by (auto simp: window_allows_iff)
  qed
qed

text \<open>The bitmap after the window has moved up to a new highest number.\<close>

lemma advance_bit:
  fixes n h :: u64
  assumes len: "length ws = 16" and max: "\<forall>m \<in> S. m \<le> h" and new: "h < n" and d: "d < 1024"
    and bits: "\<forall>d < 1024. window_bit ws d \<longleftrightarrow> d \<le> unat h \<and> h - of_nat d \<in> S"
  defines "ws' \<equiv> shift_words (unat (n - h)) ws"
  shows "window_bit (ws'[0 := ws' ! 0 OR 1]) d \<longleftrightarrow> d \<le> unat n \<and> n - of_nat d \<in> insert n S"
proof -
  have s: "unat n = unat h + (unat (n - h))" "0 < (unat (n - h))"
    using new by (simp_all add: unat_minus less_imp_le word_less_nat_alt)
  have "window_bit (ws'[0 := ws' ! 0 OR 1]) d \<longleftrightarrow> d = 0 \<or> (unat (n - h)) \<le> d \<and> window_bit ws (d - (unat (n - h)))"
    using window_bit_set [of ws' d 0] window_bit_shift [OF len d] len d by (simp add: ws'_def)
  also have "\<dots> \<longleftrightarrow> d = 0 \<or> (unat (n - h)) \<le> d \<and> d - (unat (n - h)) \<le> unat h \<and> h - of_nat (d - (unat (n - h))) \<in> S"
    using bits d by auto
  also have "\<dots> \<longleftrightarrow> d \<le> unat n \<and> n - of_nat d \<in> insert n S"
  proof (cases "(unat (n - h)) \<le> d")
    case True
    then have "h - of_nat (d - (unat (n - h))) = n - of_nat d" by simp
    moreover have "d - (unat (n - h)) \<le> unat h \<longleftrightarrow> d \<le> unat n" using s True by linarith
    moreover have "d \<noteq> 0" using s True by linarith
    moreover have "n - of_nat d \<noteq> n" using minus_of_nat_iff [OF d, of n] \<open>d \<noteq> 0\<close> by blast
    ultimately show ?thesis using True by auto
  next
    case False
    have "n - of_nat d \<notin> S"
    proof
      assume "n - of_nat d \<in> S"
      then have "unat (n - of_nat d) \<le> unat h" using max by (simp add: word_le_nat_alt)
      moreover have "unat (n - of_nat d) = unat n - d"
        using False s d by (subst unat_sub) (simp_all add: word_le_nat_alt unat_of_nat)
      ultimately show False using False s by linarith
    qed
    moreover have "n - of_nat d = n \<longleftrightarrow> d = 0" using d by (rule minus_of_nat_iff)
    ultimately show ?thesis using False by auto
  qed
  finally show ?thesis .
qed

lemma replay_commit_related:
  assumes rel: "window_rel w S" and new: "window_allows S n"
  shows "window_rel (replay_commit n w) (insert n S)"
proof (cases "highest w")
  case None
  have "window_bit ((replicate 16 0)[0 := 1]) d \<longleftrightarrow> d = 0" if "d < 1024" for d
    using that by (auto simp: window_bit_def nth_list_update bit_1_iff)
  moreover have "d = 0 \<longleftrightarrow> d \<le> unat n \<and> n - of_nat d = n" if "d < 1024" for d
    using that by (auto simp: minus_of_nat_iff)
  ultimately show ?thesis using None rel
    by (simp add: window_rel_def replay_commit_def)
next
  case (Some h)
  let ?ws = "window_words w"
  have h: "h \<in> S" "\<forall>m \<in> S. m \<le> h" and len: "length ?ws = 16"
    and bits: "\<forall>d < 1024. window_bit ?ws d \<longleftrightarrow> d \<le> unat h \<and> h - of_nat d \<in> S"
    using rel Some by (auto simp: window_rel_def)
  show ?thesis
  proof (cases "h < n")
    case True
    have "\<forall>m \<in> insert n S. m \<le> n" using h True by auto
    with advance_bit [OF len h(2) True _ bits] Some True len show ?thesis
      by (simp add: window_rel_def replay_commit_def Let_def)
  next
    case False
    let ?d = "unat (h - n)"
    have near: "?d < 1024" using new h False by (simp add: window_allows_iff)
    have d: "?d \<le> unat h" "h - of_nat ?d = n" using False by (simp_all add: unat_distance not_less)
    have "window_bit (?ws[?d div 64 := ?ws ! (?d div 64) OR push_bit (?d mod 64) 1]) e \<longleftrightarrow>
        e \<le> unat h \<and> h - of_nat e \<in> insert n S" if e: "e < 1024" for e
    proof -
      have "h - of_nat e = n \<longleftrightarrow> e = ?d"
      proof
        assume "h - of_nat e = n"
        then have "h - n = of_nat e" by (metis add_diff_cancel_left' diff_add_cancel)
        then show "e = ?d" using e by (simp add: unat_of_nat)
      qed (simp add: d)
      then show ?thesis using window_bit_set [OF len e near] bits e d by auto
    qed
    then show ?thesis using Some False len near h
      by (simp add: window_rel_def replay_commit_def Let_def)
  qed
qed

interpretation window: replay_guard would_accept replay_commit window_allows window_rel
proof
  show "n \<notin> S" if "window_allows S n" for S n using that by (simp add: window_allows_def)
  show "would_accept g n \<longleftrightarrow> window_allows S n" if "window_rel g S" for g S n
    using that by (rule would_accept_allowed)
  show "window_rel (replay_commit n g) (insert n S)" if "window_rel g S" "window_allows S n" for g S n
    using that by (rule replay_commit_related)
qed

lemma window_rel_default: "window_rel replay_default {}"
  by (simp add: window_rel_def replay_default_def)


text \<open>
  C24: the sixteen words shifted in place are an exact replay window. Whatever packet numbers
  arrive, in any order, with any of their records failing authentication, the numbers taken are
  those a set of the committed numbers would take: authentic, not committed before, and less
  than 1024 below every committed number. In particular no packet number is taken twice.
\<close>

theorem replay_window_exact:
  "guarded would_accept replay_commit replay_default arrivals = guarded window_allows insert {} arrivals \<and>
   distinct (guarded would_accept replay_commit replay_default arrivals)"
  using window.guarded_refines [OF window_rel_default] window.guarded_once [OF window_rel_default] by blast

end
