(* ===== verification/Record_Cipher.thy ===== *)
theory Record_Cipher
  imports Replay_Window
begin

text \<open>
  The authenticated records of a v5 connection (\<open>RecordCipher\<close> in \<open>native-host/src/v5.rs\<close>):
  sealing, opening in place, the packet numbers and the replay window. ChaCha20-Poly1305 is the
  parameter \<open>aead\<close> and the finished Noise handshake the record \<open>handshake\<close>; what the program
  relies on is \<open>aead_ok\<close>. Shown here: a sealed record opens to what was sealed, a receiver takes no
  packet number twice and is not changed by a datagram it refuses, and no nonce is used twice.
\<close>

section \<open>The cipher\<close>

record aead =
  encrypt_detached :: "bytes \<Rightarrow> bytes \<Rightarrow> bytes \<Rightarrow> bytes \<Rightarrow> (bytes \<times> bytes) option"
  decrypt_detached :: "bytes \<Rightarrow> bytes \<Rightarrow> bytes \<Rightarrow> bytes \<Rightarrow> bytes \<Rightarrow> bytes option"

text \<open>
  The arguments are the key, the nonce, the associated data, the text and, to decrypt, the tag. The
  ciphertext is as long as the plaintext, the tag has 16 bytes, and decryption recomputes the
  tag: it succeeds exactly on what encryption makes.
\<close>

definition aead_ok :: "aead \<Rightarrow> bool" where
  "aead_ok A \<longleftrightarrow>
     (\<forall>k n ad p c t. encrypt_detached A k n ad p = Some (c, t) \<longrightarrow> length c = length p \<and> length t = TAG_SIZE) \<and>
     (\<forall>k n ad p c t. decrypt_detached A k n ad c t = Some p \<longleftrightarrow> encrypt_detached A k n ad p = Some (c, t))"

record handshake =
  hs_finished :: bool
  hs_hash :: bytes
  hs_split :: "bytes \<times> bytes"

record record_cipher =
  send_key :: bytes
  receive_key :: bytes
  rc_connection_id :: u64
  next_packet_number :: u64
  rc_replay :: replay_window

definition from_keys :: "bytes \<Rightarrow> bytes \<Rightarrow> u64 \<Rightarrow> record_cipher" where
  "from_keys sk rk cid = \<lparr>send_key = sk, receive_key = rk, rc_connection_id = cid,
     next_packet_number = 0, rc_replay = replay_default\<rparr>"

definition from_handshake ::
  "(bytes \<Rightarrow> bytes) \<Rightarrow> handshake \<Rightarrow> bool \<Rightarrow> (wire_error, record_cipher) outcome" where
  "from_handshake blake2s hs local_is_initiator =
    (if \<not> hs_finished hs then Fail HandshakeIncomplete else
     and_then (connection_id blake2s (hs_hash hs)) (\<lambda>cid.
       let (initiator_key, responder_key) = hs_split hs;
           (sk, rk) = (if local_is_initiator then (initiator_key, responder_key)
                       else (responder_key, initiator_key))
       in Done (from_keys sk rk cid)))"

text \<open>
  Sealing returns the cipher, the caller's buffer and the length written. The packet number is
  taken before anything else can fail.
\<close>

definition seal_into ::
  "aead \<Rightarrow> record_cipher \<Rightarrow> direction \<Rightarrow> u8 \<Rightarrow> u64 \<Rightarrow> u64 \<Rightarrow> u32 \<Rightarrow> bytes \<Rightarrow> bytes \<Rightarrow>
   record_cipher \<times> bytes \<times> (wire_error, nat) outcome" where
  "seal_into A c dir ty sid lid fl payload out =
    (let pn = next_packet_number c in
     if pn = 0xffffffffffffffff then (c, out, Fail PacketNumberExhausted) else
     let c' = c\<lparr>next_packet_number := pn + 1\<rparr>;
         n = RECORD_HEADER_SIZE + length payload + TAG_SIZE in
     if n > MAX_DATAGRAM_SIZE \<or> n > length out then (c', out, Fail (BadLength n)) else
     let h = \<lparr>rh_direction = dir, rh_message_type = ty, rh_connection_id = rc_connection_id c,
              rh_session_id = sid, rh_packet_number = pn, rh_logical_id = lid, rh_flags = fl,
              rh_payload_length = of_nat (length payload)\<rparr> in
     case write_record_header (take RECORD_HEADER_SIZE out) h of
       Panic \<Rightarrow> (c', out, Panic)
     | Fail e \<Rightarrow> (c', out, Fail e)
     | Done header \<Rightarrow>
         let out1 = put_bytes RECORD_HEADER_SIZE payload (put_bytes 0 header out) in
         case encrypt_detached A (send_key c) (noise_nonce pn) header payload of
           None \<Rightarrow> (c', out1, Fail EncryptFailed)
         | Some (encrypted, tag) \<Rightarrow>
             if length tag \<noteq> TAG_SIZE then (c', put_bytes RECORD_HEADER_SIZE encrypted out1, Panic) else
             (c', put_bytes (RECORD_HEADER_SIZE + length payload) tag
                    (put_bytes RECORD_HEADER_SIZE encrypted out1), Done n))"

definition seal ::
  "aead \<Rightarrow> record_cipher \<Rightarrow> direction \<Rightarrow> u8 \<Rightarrow> u64 \<Rightarrow> u64 \<Rightarrow> u32 \<Rightarrow> bytes \<Rightarrow>
   record_cipher \<times> (wire_error, bytes) outcome" where
  "seal A c dir ty sid lid fl payload =
    (case seal_into A c dir ty sid lid fl payload (replicate MAX_DATAGRAM_SIZE 0) of
       (c', out, r) \<Rightarrow> (c', and_then r (\<lambda>n. slice_at out 0 n)))"

text \<open>
  Opening returns the cipher, the buffer with the plaintext in place of the ciphertext, and the
  header. A failed decryption leaves the buffer as it was: the tag is checked first.
\<close>

definition open_in_place ::
  "aead \<Rightarrow> record_cipher \<Rightarrow> direction \<Rightarrow> bytes \<Rightarrow>
   record_cipher \<times> bytes \<times> (wire_error, record_header) outcome" where
  "open_in_place A c expected bs =
    (case decode_record_header bs expected of
       Panic \<Rightarrow> (c, bs, Panic)
     | Fail e \<Rightarrow> (c, bs, Fail e)
     | Done h \<Rightarrow>
         if rh_connection_id h \<noteq> rc_connection_id c then (c, bs, Fail WrongConnection) else
         if \<not> would_accept (rc_replay c) (rh_packet_number h) then (c, bs, Fail Replay) else
         let n = unat (rh_payload_length h) in
         if length bs < RECORD_HEADER_SIZE + n then (c, bs, Panic) else
         let ad = take RECORD_HEADER_SIZE bs;
             payload = take n (drop RECORD_HEADER_SIZE bs);
             tag = drop n (drop RECORD_HEADER_SIZE bs) in
         if length tag \<noteq> TAG_SIZE then (c, bs, Panic) else
         case decrypt_detached A (receive_key c) (noise_nonce (rh_packet_number h)) ad payload tag of
           None \<Rightarrow> (c, bs, Fail BadTag)
         | Some plain \<Rightarrow>
             (c\<lparr>rc_replay := replay_commit (rh_packet_number h) (rc_replay c)\<rparr>,
              put_bytes RECORD_HEADER_SIZE plain bs, Done h))"

definition open_record ::
  "aead \<Rightarrow> record_cipher \<Rightarrow> direction \<Rightarrow> bytes \<Rightarrow> record_cipher \<times> (wire_error, opened_record) outcome" where
  "open_record A c expected bs =
    (if length bs > MAX_DATAGRAM_SIZE then (c, Fail (BadLength (length bs))) else
     let scratch = put_bytes 0 bs (replicate MAX_DATAGRAM_SIZE 0) in
     case open_in_place A c expected (take (length bs) scratch) of
       (c', opened, r) \<Rightarrow>
         (c', and_then r (\<lambda>h.
                let scratch' = put_bytes 0 opened scratch in
                and_then (slice_at scratch' RECORD_HEADER_SIZE (unat (rh_payload_length h))) (\<lambda>p.
                  Done \<lparr>or_header = h, or_payload = p\<rparr>))))"

section \<open>What sealing and opening do\<close>

lemma noise_nonce_inj: "noise_nonce m = noise_nonce n \<longleftrightarrow> m = n"
proof
  assume "noise_nonce m = noise_nonce n"
  then have "le_word (sub_bytes 4 8 (noise_nonce m)) = (le_word (sub_bytes 4 8 (noise_nonce n)) :: u64)"
    by simp
  then show "m = n" by (simp add: noise_nonce_def u64_le.dec_enc del: le_bytes.simps)
qed simp

text \<open>The record of a header and a payload under a key: the only datagram that opens to them.\<close>

definition sealed_as :: "aead \<Rightarrow> bytes \<Rightarrow> record_header \<Rightarrow> bytes \<Rightarrow> bytes \<Rightarrow> bool" where
  "sealed_as A key h payload bs \<longleftrightarrow>
     (\<exists>c t. encrypt_detached A key (noise_nonce (rh_packet_number h)) (header_bytes h) payload = Some (c, t) \<and>
       bs = header_bytes h @ c @ t \<and> length c = length payload \<and> length t = 16 \<and>
       length payload = unat (rh_payload_length h) \<and> length bs \<le> 1200)"

definition record_for :: "record_cipher \<Rightarrow> direction \<Rightarrow> u8 \<Rightarrow> u64 \<Rightarrow> u64 \<Rightarrow> u32 \<Rightarrow> bytes \<Rightarrow> record_header" where
  "record_for c dir ty sid lid fl payload =
     \<lparr>rh_direction = dir, rh_message_type = ty, rh_connection_id = rc_connection_id c,
      rh_session_id = sid, rh_packet_number = next_packet_number c, rh_logical_id = lid, rh_flags = fl,
      rh_payload_length = of_nat (length payload)\<rparr>"

lemma aead_lengths: "aead_ok A \<Longrightarrow> encrypt_detached A k n ad p = Some (c, t) \<Longrightarrow> length c = length p \<and> length t = 16"
  by (simp add: aead_ok_def)

lemma aead_inverts:
  "aead_ok A \<Longrightarrow> decrypt_detached A k n ad c t = Some p \<longleftrightarrow> encrypt_detached A k n ad p = Some (c, t)"
  by (simp add: aead_ok_def)

lemma seal_into_cipher:
  "fst (seal_into A c dir ty sid lid fl payload out) =
     (if next_packet_number c = 0xffffffffffffffff then c
      else c\<lparr>next_packet_number := next_packet_number c + 1\<rparr>)"
  by (simp add: seal_into_def Let_def split: outcome.split option.split prod.split)

lemma seal_into_Done:
  assumes ok: "aead_ok A" and run: "seal_into A c dir ty sid lid fl payload out = (c', out', Done n)"
  shows "next_packet_number c \<noteq> 0xffffffffffffffff"
    "n = 64 + length payload" "n \<le> 1200" "length out' = length out" "drop n out' = drop n out"
    "sealed_as A (send_key c) (record_for c dir ty sid lid fl payload) payload (take n out')"
proof -
  let ?h = "record_for c dir ty sid lid fl payload"
  have n: "n = 64 + length payload" "n \<le> 1200" "n \<le> length out"
    and pn: "next_packet_number c \<noteq> 0xffffffffffffffff"
    using run by (auto simp: seal_into_def Let_def split: if_splits outcome.splits option.splits)
  have head: "write_record_header (take 48 out) ?h = Done (header_bytes ?h)"
    using n by (intro write_record_header_bytes) simp
  then obtain e t where e: "encrypt_detached A (send_key c) (noise_nonce (next_packet_number c)) (header_bytes ?h)
        payload = Some (e, t)"
    and out': "out' = put_bytes (48 + length payload) t (put_bytes 48 e
        (put_bytes 48 payload (put_bytes 0 (header_bytes ?h) out)))"
    using run n pn by (auto simp: seal_into_def Let_def record_for_def split: if_splits option.splits)
  have et: "length e = length payload" "length t = 16" using aead_lengths [OF ok e] by simp_all
  have built: "out' = header_bytes ?h @ e @ t @ drop n out"
    unfolding out' using n et by (simp add: put_bytes_def)
  have "unat (of_nat (length payload) :: u16) = length payload" using n by (simp add: unat_of_nat)
  with e et n built
  show "sealed_as A (send_key c) ?h payload (take n out')"
    by (simp add: sealed_as_def record_for_def)
  show "next_packet_number c \<noteq> 0xffffffffffffffff" "n = 64 + length payload" "n \<le> 1200" by fact+
  show "length out' = length out" "drop n out' = drop n out" using n et built by simp_all
qed

lemma sealed_as_decode:
  "sealed_as A k h p bs \<Longrightarrow> decode_record_header bs (rh_direction h) = Done h"
  by (auto simp: sealed_as_def decode_header_iff)

lemma open_in_place_iff:
  assumes ok: "aead_ok A"
  shows "open_in_place A c d bs = (c', bs', Done h) \<longleftrightarrow> (\<exists>p.
    sealed_as A (receive_key c) h p bs \<and> rh_direction h = d \<and> rh_connection_id h = rc_connection_id c \<and>
    would_accept (rc_replay c) (rh_packet_number h) \<and>
    c' = c\<lparr>rc_replay := replay_commit (rh_packet_number h) (rc_replay c)\<rparr> \<and> bs' = put_bytes 48 p bs)"
    (is "?open \<longleftrightarrow> ?sealed")
proof
  assume ?open
  then have h: "decode_record_header bs d = Done h" "rh_connection_id h = rc_connection_id c"
      "would_accept (rc_replay c) (rh_packet_number h)"
    and c': "c' = c\<lparr>rc_replay := replay_commit (rh_packet_number h) (rc_replay c)\<rparr>"
    and "\<exists>p. decrypt_detached A (receive_key c) (noise_nonce (rh_packet_number h)) (take 48 bs)
        (take (unat (rh_payload_length h)) (drop 48 bs)) (drop (unat (rh_payload_length h)) (drop 48 bs)) = Some p \<and>
        bs' = put_bytes 48 p bs"
    by (auto simp: open_in_place_def Let_def split: outcome.splits if_splits option.splits)
  then obtain p where bs': "bs' = put_bytes 48 p bs"
    and p: "encrypt_detached A (receive_key c) (noise_nonce (rh_packet_number h)) (take 48 bs) p =
        Some (take (unat (rh_payload_length h)) (drop 48 bs), drop (unat (rh_payload_length h)) (drop 48 bs))"
    using aead_inverts [OF ok] by blast
  have d: "rh_direction h = d" "length bs \<le> 1200" "length bs = 64 + unat (rh_payload_length h)"
    "take 48 bs = header_bytes h"
    using h(1) by (auto simp: decode_header_iff)
  have len: "length p = unat (rh_payload_length h)" using aead_lengths [OF ok p] d(3) by simp
  have "bs = header_bytes h @ take (unat (rh_payload_length h)) (drop 48 bs) @ drop (unat (rh_payload_length h)) (drop 48 bs)"
    using d(4) append_take_drop_id by metis
  then have "sealed_as A (receive_key c) h p bs"
    unfolding sealed_as_def using p d len aead_lengths [OF ok p] by fastforce
  with d h c' bs' show ?sealed by blast
next
  assume ?sealed
  then obtain p where p: "sealed_as A (receive_key c) h p bs" "rh_direction h = d"
    "rh_connection_id h = rc_connection_id c" "would_accept (rc_replay c) (rh_packet_number h)"
    "c' = c\<lparr>rc_replay := replay_commit (rh_packet_number h) (rc_replay c)\<rparr>" "bs' = put_bytes 48 p bs" by blast
  have "decode_record_header bs d = Done h" using sealed_as_decode [OF p(1)] p(2) by simp
  moreover obtain e t where "bs = header_bytes h @ e @ t" "length e = unat (rh_payload_length h)" "length t = 16"
    "decrypt_detached A (receive_key c) (noise_nonce (rh_packet_number h)) (header_bytes h) e t = Some p"
    using p(1) aead_inverts [OF ok] by (auto simp: sealed_as_def)
  ultimately show ?open using p by (simp add: open_in_place_def Let_def)
qed

lemma open_in_place_unchanged:
  "open_in_place A c d bs = (c', bs', r) \<Longrightarrow> (\<forall>h. r \<noteq> Done h) \<Longrightarrow> c' = c \<and> bs' = bs"
  by (cases r) (auto simp: open_in_place_def Let_def split: outcome.splits if_splits option.splits)

lemma decode_record_header_no_panic: "decode_record_header bs d \<noteq> Panic"
  by (auto simp: decode_record_header_def Let_def and_then_Panic)

lemma open_in_place_no_panic:
  "snd (snd (open_in_place A c d bs)) \<noteq> Panic"
proof (cases "decode_record_header bs d")
  case (Done h)
  then have "length bs = 64 + unat (rh_payload_length h)" by (simp add: decode_header_iff)
  with Done show ?thesis by (simp add: open_in_place_def Let_def split: option.split)
qed (use decode_record_header_no_panic in \<open>auto simp: open_in_place_def\<close>)


lemma open_record_iff:
  assumes ok: "aead_ok A"
  shows "open_record A c d bs = (c', Done r) \<longleftrightarrow>
    sealed_as A (receive_key c) (or_header r) (or_payload r) bs \<and> rh_direction (or_header r) = d \<and>
    rh_connection_id (or_header r) = rc_connection_id c \<and>
    would_accept (rc_replay c) (rh_packet_number (or_header r)) \<and>
    c' = c\<lparr>rc_replay := replay_commit (rh_packet_number (or_header r)) (rc_replay c)\<rparr>"
proof (cases "length bs \<le> 1200")
  case True
  let ?scratch = "put_bytes 0 bs (replicate 1200 0)"
  have bs: "take (length bs) ?scratch = bs" by (simp add: put_first)
  have slice: "(slice_at (put_bytes 0 (put_bytes 48 p bs) ?scratch) 48 (unat (rh_payload_length h)) ::
      (wire_error, bytes) outcome) = Done p" if "sealed_as A k h p bs" for h p k
  proof -
    have "length p = unat (rh_payload_length h)" "length bs = 64 + length p"
      using that by (auto simp: sealed_as_def)
    moreover from this have "sub_bytes 48 (length p) (put_bytes 0 (put_bytes 48 p bs) ?scratch) = p"
      by (simp add: put_first sub_bytes_def put_bytes_def)
    ultimately show ?thesis using True by (simp add: put_first slice_at_def)
  qed
  have "open_record A c d bs = (c', Done r) \<longleftrightarrow> (\<exists>bs' h p. open_in_place A c d bs = (c', bs', Done h) \<and>
      slice_at (put_bytes 0 bs' ?scratch) 48 (unat (rh_payload_length h)) = (Done p :: (wire_error, bytes) outcome) \<and>
      r = \<lparr>or_header = h, or_payload = p\<rparr>)"
    using True by (auto simp: open_record_def Let_def bs and_then_Done split: prod.splits)
  then show ?thesis
    using slice by (cases r) (auto simp: open_in_place_iff [OF ok])
next
  case False
  then show ?thesis by (auto simp: open_record_def sealed_as_def)
qed

lemma seal_Done:
  assumes ok: "aead_ok A" and run: "seal A c dir ty sid lid fl payload = (c', Done wire)"
  shows "sealed_as A (send_key c) (record_for c dir ty sid lid fl payload) payload wire"
    "c' = c\<lparr>next_packet_number := next_packet_number c + 1\<rparr>"
    "next_packet_number c \<noteq> 0xffffffffffffffff"
proof -
  obtain out n where s: "seal_into A c dir ty sid lid fl payload (replicate 1200 0) = (c', out, Done n)"
    and w: "(slice_at out 0 n :: (wire_error, bytes) outcome) = Done wire"
    using run by (auto simp: seal_def and_then_Done split: prod.splits)
  note d = seal_into_Done [OF ok s]
  show "next_packet_number c \<noteq> 0xffffffffffffffff" by (rule d(1))
  have "wire = take n out" using w by (simp add: slice_at_def sub_bytes_def split: if_splits)
  with d(6) show "sealed_as A (send_key c) (record_for c dir ty sid lid fl payload) payload wire" by simp
  show "c' = c\<lparr>next_packet_number := next_packet_number c + 1\<rparr>"
    using seal_into_cipher [of A c dir ty sid lid fl payload "replicate 1200 0"] s d(1) by simp
qed

section \<open>Properties of the records\<close>

text \<open>
  C33: what one side seals, the other opens: with the keys and the connection id of the same
  handshake, a sealed record whose packet number the receiver has not yet taken opens to the
  header and the payload that were sealed, and its packet number is committed.
\<close>

theorem sealed_record_opens:
  assumes "aead_ok A" and "seal A cs dir ty sid lid fl payload = (cs', Done wire)"
    and "receive_key cr = send_key cs" and "rc_connection_id cr = rc_connection_id cs"
    and "would_accept (rc_replay cr) (next_packet_number cs)"
  shows "open_record A cr dir wire =
    (cr\<lparr>rc_replay := replay_commit (next_packet_number cs) (rc_replay cr)\<rparr>,
     Done \<lparr>or_header = \<lparr>rh_direction = dir, rh_message_type = ty, rh_connection_id = rc_connection_id cs,
             rh_session_id = sid, rh_packet_number = next_packet_number cs, rh_logical_id = lid,
             rh_flags = fl, rh_payload_length = of_nat (length payload)\<rparr>,
           or_payload = payload\<rparr>)"
  using seal_Done(1) [OF assms(1,2)] assms(3-5)
  by (simp add: open_record_iff [OF assms(1)] record_for_def)

text \<open>The records opened from the datagrams that arrive, in order.\<close>

fun open_all :: "aead \<Rightarrow> record_cipher \<Rightarrow> direction \<Rightarrow> bytes list \<Rightarrow> opened_record list" where
  "open_all A c d [] = []"
| "open_all A c d (bs # rest) =
    (case open_record A c d bs of
       (c', Done r) \<Rightarrow> r # open_all A c' d rest
     | (c', _) \<Rightarrow> open_all A c' d rest)"

lemma open_record_unchanged:
  assumes ok: "aead_ok A" and run: "open_record A c d bs = (c', r)" and r: "\<forall>x. r \<noteq> Done x"
  shows "c' = c"
proof (cases "length bs \<le> 1200")
  case True
  then have bs: "take (length bs) (put_bytes 0 bs (replicate 1200 0)) = bs" by (simp add: put_first)
  obtain c1 bs1 q where q: "open_in_place A c d bs = (c1, bs1, q)" by (cases "open_in_place A c d bs") auto
  have c1: "c' = c1" using run True q by (simp add: open_record_def Let_def bs)
  have "\<forall>h. q \<noteq> Done h"
  proof (intro allI notI)
    fix h assume "q = Done h"
    then obtain p where "sealed_as A (receive_key c) h p bs" "rh_direction h = d"
      "rh_connection_id h = rc_connection_id c" "would_accept (rc_replay c) (rh_packet_number h)"
      using q open_in_place_iff [OF ok] by blast
    then have "open_record A c d bs = (c\<lparr>rc_replay := replay_commit (rh_packet_number h) (rc_replay c)\<rparr>,
        Done \<lparr>or_header = h, or_payload = p\<rparr>)" by (simp add: open_record_iff [OF ok])
    with run r show False by auto
  qed
  with q c1 open_in_place_unchanged show ?thesis by metis
qed (use run in \<open>simp add: open_record_def\<close>)

lemma open_all_once:
  assumes ok: "aead_ok A"
  shows "window_rel (rc_replay c) S \<Longrightarrow> distinct (map (\<lambda>r. rh_packet_number (or_header r)) (open_all A c d bss)) \<and>
    (\<forall>r \<in> set (open_all A c d bss). rh_packet_number (or_header r) \<notin> S \<and>
       rh_connection_id (or_header r) = rc_connection_id c \<and>
       (\<exists>bs \<in> set bss. sealed_as A (receive_key c) (or_header r) (or_payload r) bs))"
proof (induction bss arbitrary: c S)
  case (Cons bs bss)
  show ?case
  proof (cases "\<exists>c' r. open_record A c d bs = (c', Done r)")
    case True
    then obtain c' r where run: "open_record A c d bs = (c', Done r)" by blast
    let ?n = "rh_packet_number (or_header r)"
    note r = run [unfolded open_record_iff [OF ok]]
    have new: "window_allows S ?n" using window.accepts_iff [OF Cons.prems] r by blast
    have "window_rel (rc_replay c') (insert ?n S)"
      using window.commit_related [OF Cons.prems new] r by simp
    from Cons.IH [OF this] r run window.allowed_new [OF new] show ?thesis by auto
  next
    case False
    obtain c' r where run: "open_record A c d bs = (c', r)" by fastforce
    with False have "c' = c" using open_record_unchanged [OF ok] by metis
    with False run Cons.IH [OF Cons.prems] show ?thesis by (cases r) auto
  qed
qed simp


text \<open>
  C26: a receiver acts on each packet number at most once. Whatever datagrams arrive on a
  connection, in any order and any number of times, the records it opens have distinct packet
  numbers and the connection id of its handshake, and each of them is, byte for byte, one of the
  datagrams: the encryption of its payload under the receive key, with the header as associated
  data and the packet number as nonce.
\<close>

theorem records_open_once:
  assumes "aead_ok A"
  shows "distinct (map (\<lambda>r. rh_packet_number (or_header r)) (open_all A (from_keys sk rk cid) d bss)) \<and>
    (\<forall>r \<in> set (open_all A (from_keys sk rk cid) d bss). rh_connection_id (or_header r) = cid \<and>
       (\<exists>bs \<in> set bss. sealed_as A rk (or_header r) (or_payload r) bs))"
  using open_all_once [OF assms, of "from_keys sk rk cid" "{}" d bss] window_rel_default
  by (simp add: from_keys_def)

text \<open>A sequence of calls of \<open>seal\<close>, and the datagrams of those that succeed.\<close>

record seal_call =
  sc_direction :: direction
  sc_message_type :: u8
  sc_session_id :: u64
  sc_logical_id :: u64
  sc_flags :: u32
  sc_payload :: bytes

fun seal_all :: "aead \<Rightarrow> record_cipher \<Rightarrow> seal_call list \<Rightarrow> bytes list" where
  "seal_all A c [] = []"
| "seal_all A c (m # ms) =
    (case seal A c (sc_direction m) (sc_message_type m) (sc_session_id m) (sc_logical_id m)
                   (sc_flags m) (sc_payload m) of
       (c', Done wire) \<Rightarrow> wire # seal_all A c' ms
     | (c', _) \<Rightarrow> seal_all A c' ms)"

definition packet_number_of :: "bytes \<Rightarrow> u64" where
  "packet_number_of wire = le_word (sub_bytes 24 8 wire)"

lemma sealed_as_packet_number: "sealed_as A k h p wire \<Longrightarrow> packet_number_of wire = rh_packet_number h"
  using header_bytes_read(7) [of h] length_header_bytes [of h]
  by (auto simp: sealed_as_def packet_number_of_def sub_bytes_def u64_le.dec_enc simp del: le_bytes.simps)

lemma u64_less_succ: "n \<noteq> 0xffffffffffffffff \<Longrightarrow> n < n + 1" for n :: u64
proof -
  assume "n \<noteq> 0xffffffffffffffff"
  then have "unat n \<noteq> 18446744073709551615" by (simp add: word_unat_eq_iff)
  then have "Suc (unat n) < 18446744073709551616" using unsigned_less [of n, where ?'a = nat] by simp
  then show ?thesis by (simp add: word_less_nat_alt unat_word_ariths)
qed

lemma seal_all_numbers:
  assumes ok: "aead_ok A"
  shows "sorted_wrt (<) (map packet_number_of (seal_all A c ms)) \<and>
    (\<forall>wire \<in> set (seal_all A c ms). next_packet_number c \<le> packet_number_of wire \<and>
       (\<exists>h p. sealed_as A (send_key c) h p wire))"
proof (induction ms arbitrary: c)
  case (Cons m ms)
  let ?seal = "seal A c (sc_direction m) (sc_message_type m) (sc_session_id m) (sc_logical_id m)
                   (sc_flags m) (sc_payload m)"
  obtain c' r where run: "?seal = (c', r)" by fastforce
  have c': "c' = (if next_packet_number c = 0xffffffffffffffff then c
      else c\<lparr>next_packet_number := next_packet_number c + 1\<rparr>)"
    using run seal_into_cipher by (auto simp: seal_def split: prod.splits) (metis fst_conv)+
  have le: "next_packet_number c \<le> next_packet_number c'" and key: "send_key c' = send_key c"
    using c' by (auto intro: less_imp_le u64_less_succ)
  show ?case
  proof (cases "\<exists>wire. r = Done wire")
    case True
    then obtain wire where r: "r = Done wire" by blast
    note d = seal_Done [OF ok run [unfolded r]]
    have pn: "packet_number_of wire = next_packet_number c"
      using sealed_as_packet_number [OF d(1)] by (simp add: record_for_def)
    have "next_packet_number c < next_packet_number c'"
      using d(2,3) by (simp add: u64_less_succ)
    with Cons.IH [of c'] d(1) pn run r key le show ?thesis by (fastforce intro: order.trans)
  next
    case False
    with Cons.IH [of c'] run key le show ?thesis by (cases r) (auto intro: order.trans)
  qed
qed simp

text \<open>
  C25: no nonce is used twice under one key. However often a side seals, whatever it seals and
  whichever calls fail, each datagram it sends is encrypted under the nonce of its packet
  number, and these nonces are pairwise distinct.
\<close>

theorem seal_nonces_fresh:
  assumes "aead_ok A"
  shows "distinct (map (\<lambda>wire. noise_nonce (packet_number_of wire)) (seal_all A c calls)) \<and>
    (\<forall>wire \<in> set (seal_all A c calls). \<exists>ad p e t.
       encrypt_detached A (send_key c) (noise_nonce (packet_number_of wire)) ad p = Some (e, t) \<and>
       wire = ad @ e @ t)"
proof
  have "distinct (map packet_number_of (seal_all A c calls))"
    using seal_all_numbers [OF assms] strict_sorted_iff by blast
  then show "distinct (map (\<lambda>wire. noise_nonce (packet_number_of wire)) (seal_all A c calls))"
    by (simp add: distinct_map inj_on_def noise_nonce_inj)
  show "\<forall>wire \<in> set (seal_all A c calls). \<exists>ad p e t.
       encrypt_detached A (send_key c) (noise_nonce (packet_number_of wire)) ad p = Some (e, t) \<and>
       wire = ad @ e @ t"
    using seal_all_numbers [OF assms] sealed_as_packet_number unfolding sealed_as_def by (metis (no_types, lifting))
qed


section \<open>Witnesses\<close>

text \<open>Sealing does succeed while packet numbers are left, for every payload that fits.\<close>

lemma seal_succeeds:
  assumes ok: "aead_ok A" and pn: "next_packet_number c \<noteq> 0xffffffffffffffff"
    and fits: "length payload \<le> 1136"
    and enc: "\<And>n ad. \<exists>e t. encrypt_detached A (send_key c) n ad payload = Some (e, t)"
  shows "\<exists>c' wire. seal A c dir ty sid lid fl payload = (c', Done wire)"
proof -
  let ?h = "record_for c dir ty sid lid fl payload"
  obtain e t where e: "encrypt_detached A (send_key c) (noise_nonce (next_packet_number c)) (header_bytes ?h)
      payload = Some (e, t)" using enc by blast
  have "length e = length payload" "length t = 16" using aead_lengths [OF ok e] by simp_all
  with e pn fits show ?thesis
    by (simp add: seal_def seal_into_def Let_def write_record_header_bytes put_bytes_def slice_at_def
        record_for_def)
qed

definition sample_aead :: aead where
  "sample_aead = \<lparr>encrypt_detached = (\<lambda>k n ad p. Some (p, take 16 (k @ replicate 16 0))),
     decrypt_detached = (\<lambda>k n ad c t. if t = take 16 (k @ replicate 16 0) then Some c else None)\<rparr>"

lemma sample_aead_ok: "aead_ok sample_aead"
  by (auto simp: aead_ok_def sample_aead_def)

lemma sample_seal:
  "\<exists>c' wire. seal sample_aead (from_keys [1] [2] 7) PhoneToHost 1 9 3 0 [4, 5, 6] = (c', Done wire)"
  by (rule seal_succeeds [OF sample_aead_ok]) (simp_all add: from_keys_def sample_aead_def)

theorem sealed_record_opens_witness:
  "\<exists>wire. snd (open_record sample_aead (from_keys [2] [1] 7) PhoneToHost wire) =
     Done \<lparr>or_header = \<lparr>rh_direction = PhoneToHost, rh_message_type = 1, rh_connection_id = 7,
             rh_session_id = 9, rh_packet_number = 0, rh_logical_id = 3, rh_flags = 0,
             rh_payload_length = 3\<rparr>, or_payload = [4, 5, 6]\<rparr>"
proof -
  obtain c' wire where s: "seal sample_aead (from_keys [1] [2] 7) PhoneToHost 1 9 3 0 [4, 5, 6] = (c', Done wire)"
    using sample_seal by blast
  from sealed_record_opens [OF sample_aead_ok s, of "from_keys [2] [1] 7"]
  show ?thesis by (intro exI [of _ wire]) (simp add: from_keys_def would_accept_def replay_default_def)
qed

theorem records_open_once_witness:
  "distinct (map (\<lambda>r. rh_packet_number (or_header r)) (open_all sample_aead (from_keys [2] [1] 7) PhoneToHost [[], [0]]))"
  using records_open_once [OF sample_aead_ok] by blast

theorem seal_nonces_fresh_witness:
  "distinct (map (\<lambda>wire. noise_nonce (packet_number_of wire))
     (seal_all sample_aead (from_keys [1] [2] 7) (replicate 3 \<lparr>sc_direction = HostToPhone, sc_message_type = 2,
        sc_session_id = 9, sc_logical_id = 1, sc_flags = 0, sc_payload = [1, 2]\<rparr>)))"
  using seal_nonces_fresh [OF sample_aead_ok] by blast

end
