(* ===== verification/Latency_Series.thy ===== *)
theory Latency_Series
  imports Host_Prelude
begin

text \<open>
  The latency histograms of the diagnostic worker (\<open>Series\<close> in \<open>native-host/src/diagnostics.rs\<close>):
  exact integers below 32 ns and 32 subdivisions for each power of two above, for all of \<open>u64\<close>.
  Shown here: a sample never falls outside the bins, and a quantile interval contains the true
  order statistic of the samples and is at most one part in 32 wide.
\<close>

section \<open>The histogram\<close>

record series =
  sr_n :: u64
  sr_invalid :: u64
  sr_over_budget :: u64
  sr_max_ns :: u64
  sr_sum_ns :: "128 word"
  sr_bins :: "u64 list"

definition series_default :: series where
  "series_default = \<lparr>sr_n = 0, sr_invalid = 0, sr_over_budget = 0, sr_max_ns = 0, sr_sum_ns = 0,
     sr_bins = replicate 2049 0\<rparr>"

text \<open>\<open>63 - x.leading_zeros()\<close> for \<open>x\<close> from 1 on: the position of the highest bit.\<close>

fun ilog2 :: "nat \<Rightarrow> nat" where
  "ilog2 n = (if n < 2 then 0 else Suc (ilog2 (n div 2)))"

declare ilog2.simps [simp del]

definition series_index :: "u64 \<Rightarrow> nat" where
  "series_index ns =
    (let exponent = ilog2 (unat (max ns 1)); shift = exponent - 5 in
     if ns < 32 then unat ns
     else (exponent - 4) * 32 + (unat (drop_bit shift ns) - 32))"

definition series_push :: "u64 \<Rightarrow> u64 \<Rightarrow> series \<Rightarrow> ('e, series) outcome" where
  "series_push ns budget s =
    (let i = series_index ns in
     if i < length (sr_bins s)
     then Done (s\<lparr>sr_bins := (sr_bins s)[i := sr_bins s ! i + 1], sr_n := sr_n s + 1,
                  sr_sum_ns := sr_sum_ns s + ucast ns, sr_max_ns := max (sr_max_ns s) ns,
                  sr_over_budget := sr_over_budget s + (if ns > budget then 1 else 0)\<rparr>)
     else Panic)"

definition saturating_add64 :: "u64 \<Rightarrow> u64 \<Rightarrow> u64" where
  "saturating_add64 a b = (if unat a + unat b < 2 ^ 64 then a + b else - 1)"

definition saturating_sub64 :: "u64 \<Rightarrow> u64 \<Rightarrow> u64" where
  "saturating_sub64 a b = (if b \<le> a then a - b else 0)"

text \<open>The values that fall into a bin.\<close>

definition bin_bounds :: "nat \<Rightarrow> u64 \<times> u64" where
  "bin_bounds i =
    (if i < 32 then (of_nat i, of_nat i)
     else let exponent = i div 32 + 4; shift = exponent - 5;
              low = push_bit shift (of_nat (32 + i mod 32))
          in (low, saturating_add64 low (push_bit shift 1 - 1)))"

text \<open>The loop over the enumerated bins, with the \<open>u128\<close> counts as naturals.\<close>

fun quantile_from :: "u64 \<Rightarrow> nat \<Rightarrow> nat \<Rightarrow> nat \<Rightarrow> u64 list \<Rightarrow> (u64 \<times> u64) option" where
  "quantile_from cap rank count i [] = None"
| "quantile_from cap rank count i (b # bs) =
    (let count' = count + unat b in
     if count' \<ge> rank
     then (case bin_bounds i of (low, high) \<Rightarrow> Some (min low cap, min high cap))
     else quantile_from cap rank count' (Suc i) bs)"

definition div_ceil :: "nat \<Rightarrow> nat \<Rightarrow> nat" where
  "div_ceil a b = (a + b - 1) div b"

definition series_quantile :: "u64 \<Rightarrow> u64 \<Rightarrow> series \<Rightarrow> (u64 \<times> u64) option" where
  "series_quantile numerator denominator s =
    (if sr_n s = 0 then None
     else quantile_from (sr_max_ns s) (div_ceil (unat (sr_n s) * unat numerator) (unat denominator))
            0 0 (sr_bins s))"

section \<open>Bins and their values\<close>

lemma len64: "LENGTH(64) = 64" by simp

lemma ilog2_bounds: "0 < n \<Longrightarrow> 2 ^ ilog2 n \<le> n \<and> n < 2 ^ Suc (ilog2 n)"
proof (induction n rule: ilog2.induct)
  case (1 n)
  show ?case
  proof (cases "n < 2")
    case True
    with 1 have "n = 1" by simp
    then show ?thesis by (simp add: ilog2.simps)
  next
    case False
    with 1 have ih: "2 ^ ilog2 (n div 2) \<le> n div 2" "n div 2 < 2 ^ Suc (ilog2 (n div 2))" by simp_all
    have "2 * 2 ^ ilog2 (n div 2) \<le> n" using ih(1) by (simp add: less_eq_div_iff_mult_less_eq mult.commute)
    moreover have "n < 2 * 2 ^ Suc (ilog2 (n div 2))" using ih(2) by (simp add: div_less_iff_less_mult mult.commute)
    ultimately show ?thesis using False by (subst (1 2) ilog2.simps) simp
  qed
qed

lemma ilog2_unique:
  assumes "2 ^ k \<le> n" and "n < 2 ^ Suc k"
  shows "ilog2 n = k"
proof -
  have "0 < n" using assms(1) by (metis gr0I not_less zero_less_numeral zero_less_power)
  note b = ilog2_bounds [OF this]
  have "2 ^ k < (2::nat) ^ Suc (ilog2 n)" "2 ^ ilog2 n < (2::nat) ^ Suc k" using assms b by linarith+
  then have "k < Suc (ilog2 n)" "ilog2 n < Suc k" by (metis one_less_numeral_iff power_less_imp_less_exp semiring_norm(76))+
  then show ?thesis by simp
qed

text \<open>A value from 32 on is \<open>q * 2 ^ shift + r\<close> with 32 to 63 units \<open>q\<close>; its bin is given by \<open>shift\<close> and \<open>q\<close>.\<close>

lemma series_index_split:
  assumes "32 \<le> unat ns"
  obtains shift q where "32 \<le> q" "q < 64" "unat ns div 2 ^ shift = q" "shift < 59"
    "series_index ns = (shift + 1) * 32 + (q - 32)"
proof -
  let ?k = "ilog2 (unat ns)"
  note b = ilog2_bounds [of "unat ns"]
  have "(2::nat) ^ 5 < 2 ^ Suc ?k" using assms b by simp
  then have k5: "5 \<le> ?k" by (metis less_Suc_eq_le one_less_numeral_iff power_less_imp_less_exp semiring_norm(76))
  have "unat ns < 2 ^ 64" using unsigned_less [of ns, where ?'a = nat] by simp
  then have "(2::nat) ^ ?k < 2 ^ 64" using assms b by linarith
  then have k64: "?k < 64" by (metis one_less_numeral_iff power_less_imp_less_exp semiring_norm(76))
  obtain s where s: "?k = s + 5" using k5 by (metis le_add_diff_inverse2)
  let ?q = "unat ns div 2 ^ s"
  have "32 * 2 ^ s \<le> unat ns" "unat ns < 64 * 2 ^ s" using assms b by (simp_all add: s power_add)
  then have q: "32 \<le> ?q" "?q < 64"
    by (simp_all add: less_eq_div_iff_mult_less_eq div_less_iff_less_mult)
  have "max ns 1 = ns" "\<not> ns < 32" using assms by (simp_all add: word_le_nat_alt word_less_nat_alt max_def)
  moreover have "unat (drop_bit s ns) = ?q" by (simp only: unat_drop_bit_eq drop_bit_eq_div [of s "unat ns"])
  ultimately have "series_index ns = (s + 1) * 32 + (?q - 32)"
    by (simp add: series_index_def Let_def s)
  with q s k64 that show ?thesis by simp
qed

lemma series_index_bound: "series_index ns < 2049"
proof (cases "32 \<le> unat ns")
  case True
  obtain s q where "32 \<le> q" and q: "q < 64" and "unat ns div 2 ^ s = q" and s: "s < 59"
    and i: "series_index ns = (s + 1) * 32 + (q - 32)" by (rule series_index_split [OF True])
  from q s show ?thesis unfolding i by simp
next
  case False
  then show ?thesis by (simp add: series_index_def word_less_nat_alt)
qed

text \<open>A bin holds exactly the values between its bounds.\<close>

lemma bin_bounds_in:
  assumes "bin_bounds (series_index ns) = (low, high)"
  shows "low \<le> ns \<and> ns \<le> high \<and> 32 * (unat high - unat low) \<le> unat low"
proof (cases "32 \<le> unat ns")
  case True
  then obtain s q where s: "32 \<le> q" "q < 64" "unat ns div 2 ^ s = q" "s < 59"
    "series_index ns = (s + 1) * 32 + (q - 32)" by (rule series_index_split)
  have i: "series_index ns div 32 = s + 1" "series_index ns mod 32 = q - 32" "\<not> series_index ns < 32"
    using s by (simp_all add: le_mod_geq)
  have top: "(q + 1) * 2 ^ s \<le> (2::nat) ^ 64"
  proof -
    have "(q + 1) * 2 ^ s \<le> 2 ^ 6 * (2::nat) ^ s" using s(2) by simp
    also have "\<dots> = 2 ^ (6 + s)" by (simp add: power_add)
    also have "\<dots> \<le> 2 ^ 64" using s(4) by (intro power_increasing) auto
    finally show ?thesis .
  qed
  have small: "(2::nat) ^ s < 2 ^ 64" using s(4) by (intro power_strict_increasing) auto
  have "q * 2 ^ s < (q + 1) * (2::nat) ^ s" by simp
  then have "q * 2 ^ s < (2::nat) ^ 64" using top by (rule less_le_trans)
  moreover have lowdef: "low = push_bit s (of_nat q)" and highdef: "high = saturating_add64 low (push_bit s 1 - 1)"
    using assms i s(1) by (auto simp: bin_bounds_def Let_def)
  moreover have "(of_nat (2 ^ s) :: u64) = 2 ^ s" by simp
  then have pow: "unat (2 ^ s :: u64) = 2 ^ s" using small by (metis mod_less unat_of_nat len64)
  ultimately have low: "unat low = q * 2 ^ s"
    using s(2) small by (simp add: push_bit_eq_mult unat_word_ariths unat_of_nat pow)
  have one: "unat (2 ^ s - 1 :: u64) = 2 ^ s - 1"
    using s(4) by (simp add: unat_sub word_le_nat_alt pow)
  have "q * 2 ^ s + (2 ^ s - 1) < (2::nat) ^ 64" using top by (simp add: add_mult_distrib)
  then have high: "unat high = q * 2 ^ s + (2 ^ s - 1)"
    by (simp add: highdef saturating_add64_def low one unat_word_ariths(1))
  have ns: "q * 2 ^ s \<le> unat ns" "unat ns < (q + 1) * 2 ^ s"
    using dividend_less_times_div [of "2 ^ s" "unat ns"]
    by (auto simp: s(3) [symmetric] algebra_simps)
  have "32 * (2 ^ s - 1) \<le> q * (2::nat) ^ s" using s(1) by (meson diff_le_self le_trans mult_le_mono)
  with ns low high show ?thesis by (simp add: word_le_nat_alt add_mult_distrib)
next
  case False
  then have "bin_bounds (series_index ns) = (ns, ns)"
    by (simp add: series_index_def bin_bounds_def word_less_nat_alt)
  then have "low = ns" "high = ns" using assms by simp_all
  then show ?thesis by simp
qed


section \<open>Order statistics\<close>

lemma series_index_small: "unat a < 32 \<Longrightarrow> series_index a = unat a"
  by (simp add: series_index_def word_less_nat_alt)

lemma series_index_mono:
  assumes "a \<le> b"
  shows "series_index a \<le> series_index b"
proof (cases "32 \<le> unat a")
  case True
  have ab: "unat a \<le> unat b" using assms by (simp add: word_le_nat_alt)
  obtain s q where s: "32 \<le> q" "q < 64" "unat a div 2 ^ s = q" "s < 59"
    "series_index a = (s + 1) * 32 + (q - 32)" by (rule series_index_split [OF True])
  have "32 \<le> unat b" using True ab by simp
  then obtain s' q' where s': "32 \<le> q'" "q' < 64" "unat b div 2 ^ s' = q'" "s' < 59"
    "series_index b = (s' + 1) * 32 + (q' - 32)" by (rule series_index_split)
  have b: "unat b < 64 * 2 ^ s'" using s'(2) div_less_iff_less_mult [of "2 ^ s'" "unat b" 64] unfolding s'(3) by simp
  have a: "32 * 2 ^ s \<le> unat a" using s(1) less_eq_div_iff_mult_less_eq [of "2 ^ s" 32 "unat a"] unfolding s(3) by simp
  have "(2::nat) ^ s < 2 ^ Suc s'" using a b ab by simp
  then have "s \<le> s'" by (metis less_Suc_eq_le one_less_numeral_iff power_less_imp_less_exp semiring_norm(76))
  moreover have "q \<le> q'" if "s = s'" using that s(3) s'(3) ab div_le_mono by blast
  ultimately show ?thesis using s s' by (cases "s = s'") auto
next
  case False
  show ?thesis
  proof (cases "32 \<le> unat b")
    case True
    obtain s' q' where "32 \<le> q'" "q' < 64" "unat b div 2 ^ s' = q'" "s' < 59"
      and i: "series_index b = (s' + 1) * 32 + (q' - 32)" by (rule series_index_split [OF True])
    with False show ?thesis by (simp add: series_index_small)
  qed (use assms False in \<open>simp add: series_index_small word_le_nat_alt\<close>)
qed

text \<open>The series of a list of samples, pushed one after the other.\<close>

definition series_of :: "u64 \<Rightarrow> u64 list \<Rightarrow> (unit, series) outcome" where
  "series_of budget xs = foldl (\<lambda>r x. and_then r (series_push x budget)) (Done series_default) xs"

definition series_holds :: "u64 list \<Rightarrow> series \<Rightarrow> bool" where
  "series_holds xs s \<longleftrightarrow> length (sr_bins s) = 2049 \<and> unat (sr_n s) = length xs \<and>
     (\<forall>i < 2049. unat (sr_bins s ! i) = length (filter (\<lambda>x. series_index x = i) xs)) \<and>
     (\<forall>x \<in> set xs. x \<le> sr_max_ns s)"

lemma u64_inc: "unat n < 2 ^ 64 - 1 \<Longrightarrow> unat (n + 1) = unat n + 1" for n :: u64
  by (simp add: unat_word_ariths)

lemma series_push_holds:
  assumes "series_holds xs s" and "length xs < 2 ^ 64 - 1"
  shows "\<exists>s'. series_push x budget s = Done s' \<and> series_holds (xs @ [x]) s'"
proof -
  have "unat (sr_bins s ! i) \<le> length xs" if "i < 2049" for i
    using assms(1) that by (simp add: series_holds_def)
  then have "unat (sr_bins s ! series_index x) < 2 ^ 64 - 1"
    using assms(2) series_index_bound [of x] le_less_trans by blast
  then have "unat (sr_bins s ! series_index x + 1) = unat (sr_bins s ! series_index x) + 1" by (rule u64_inc)
  then show ?thesis
    using assms series_index_bound [of x]
    by (auto simp: series_holds_def series_push_def Let_def nth_list_update u64_inc max_def)
qed

lemma series_of_holds: "length xs < 2 ^ 64 \<Longrightarrow> \<exists>s. series_of budget xs = Done s \<and> series_holds xs s"
proof (induction xs rule: rev_induct)
  case (snoc x xs)
  then obtain s where "series_of budget xs = Done s" "series_holds xs s" by auto
  with snoc.prems series_push_holds [of xs s x budget] show ?case
    by (auto simp: series_of_def)
qed (simp add: series_of_def series_holds_def series_default_def)

text \<open>The loop stops in the bin of the sample of the requested rank.\<close>

lemma quantile_from_bin:
  assumes holds: "series_holds xs s" and rank: "0 < rank" "rank \<le> length xs"
    and i: "i \<le> 2049" and before: "length (filter (\<lambda>x. series_index x < i) xs) < rank"
  shows "\<exists>k < 2049. quantile_from cap rank (length (filter (\<lambda>x. series_index x < i) xs)) i (drop i (sr_bins s)) =
      (case bin_bounds k of (low, high) \<Rightarrow> Some (min low cap, min high cap)) \<and>
    length (filter (\<lambda>x. series_index x < k) xs) < rank \<and> rank \<le> length (filter (\<lambda>x. series_index x \<le> k) xs)"
  using i before
proof (induction "2049 - i" arbitrary: i)
  case 0
  have "filter (\<lambda>x. series_index x < i) xs = xs" using 0 series_index_bound by (simp add: filter_id_conv)
  with 0 rank show ?case by simp
next
  case (Suc m)
  then have i: "i < 2049" by simp
  have len: "length (sr_bins s) = 2049" using holds by (simp add: series_holds_def)
  then have d: "drop i (sr_bins s) = sr_bins s ! i # drop (Suc i) (sr_bins s)" using i by (simp add: Cons_nth_drop_Suc)
  have count: "length (filter (\<lambda>x. series_index x < i) xs) + unat (sr_bins s ! i) =
      length (filter (\<lambda>x. series_index x < Suc i) xs)"
  proof -
    have "unat (sr_bins s ! i) = length (filter (\<lambda>x. series_index x = i) xs)"
      using holds i by (simp add: series_holds_def)
    moreover have "length (filter (\<lambda>x. f x < i) xs) + length (filter (\<lambda>x. f x = i) xs) =
        length (filter (\<lambda>x. f x < Suc i) xs)" for f :: "u64 \<Rightarrow> nat"
      by (induction xs) (auto simp: less_Suc_eq)
    ultimately show ?thesis by simp
  qed
  show ?case
  proof (cases "rank \<le> length (filter (\<lambda>x. series_index x < Suc i) xs)")
    case True
    with Suc.prems i d count show ?thesis
      by (intro exI [of _ i]) (simp add: less_Suc_eq_le split: prod.split)
  next
    case False
    with Suc.hyps(1) [of "Suc i"] Suc.hyps(2) i d count show ?thesis by simp
  qed
qed


lemma sorted_rank_class:
  fixes f :: "u64 \<Rightarrow> nat"
  assumes mono: "\<And>a b. a \<le> b \<Longrightarrow> f a \<le> f b" and rank: "0 < rank" "rank \<le> length xs"
    and below: "length (filter (\<lambda>x. f x < k) xs) < rank" and upto: "rank \<le> length (filter (\<lambda>x. f x \<le> k) xs)"
  shows "f (sort xs ! (rank - 1)) = k"
proof -
  let ?ys = "sort xs"
  have len: "length (filter P ?ys) = length (filter P xs)" for P
    by (simp add: filter_sort)
  have sorted: "?ys ! i \<le> ?ys ! j" if "i \<le> j" "j < length xs" for i j
    using that by (simp add: sorted_nth_mono)
  have "k \<le> f (?ys ! (rank - 1))"
  proof (rule ccontr)
    assume "\<not> k \<le> f (?ys ! (rank - 1))"
    then have "f (?ys ! i) < k" if "i < rank" for i
      using mono [OF sorted [of i "rank - 1"]] that rank by linarith
    then have "{..<rank} \<subseteq> {i. i < length ?ys \<and> f (?ys ! i) < k}" using rank by auto
    then have "rank \<le> length (filter (\<lambda>x. f x < k) ?ys)"
      unfolding length_filter_conv_card using card_mono [of "{i. i < length ?ys \<and> f (?ys ! i) < k}" "{..<rank}"] by simp
    with below len show False by simp
  qed
  moreover have "f (?ys ! (rank - 1)) \<le> k"
  proof (rule ccontr)
    assume "\<not> f (?ys ! (rank - 1)) \<le> k"
    then have "k < f (?ys ! i)" if "rank - 1 \<le> i" "i < length xs" for i
      using mono [OF sorted [of "rank - 1" i]] that by linarith
    then have "{i. i < length ?ys \<and> f (?ys ! i) \<le> k} \<subseteq> {..<rank - 1}" by (auto simp: not_less [symmetric])
    then have "length (filter (\<lambda>x. f x \<le> k) ?ys) \<le> rank - 1"
      unfolding length_filter_conv_card using card_mono [of "{..<rank - 1}"] by fastforce
    with upto len rank show False by simp
  qed
  ultimately show ?thesis by simp
qed

text \<open>
  C35: a reported quantile is never falsely precise. For the histogram of any samples (fewer than
  \<open>2 ^ 64\<close>) the interval reported for the quantile \<open>numerator / denominator\<close> contains the true order
  statistic: the sample of rank \<open>ceil (n * numerator / denominator)\<close> in sorted order. Its width is
  at most one part in 32 of its lower end.
\<close>

theorem quantile_contains_order_statistic:
  assumes len: "0 < length xs" "length xs < 2 ^ 64" and s: "series_of budget xs = Done s"
    and q: "0 < unat numerator" "unat numerator \<le> unat denominator"
  defines "rank \<equiv> div_ceil (length xs * unat numerator) (unat denominator)"
  shows "\<exists>low high. series_quantile numerator denominator s = Some (low, high) \<and>
    low \<le> sort xs ! (rank - 1) \<and> sort xs ! (rank - 1) \<le> high \<and>
    32 * (unat high - unat low) \<le> unat low"
proof -
  let ?d = "unat denominator" and ?m = "unat numerator" and ?y = "sort xs ! (rank - 1)"
  have holds: "series_holds xs s" using series_of_holds [OF len(2), of budget] s by auto
  have d: "0 < ?d" using q by simp
  have "1 * ?d \<le> length xs * ?m + ?d - 1" using len(1) q(1) d by (cases "length xs * ?m") auto
  then have r0: "0 < rank" unfolding rank_def div_ceil_def using d
    by (metis div_greater_zero_iff mult_1)
  have "length xs * ?m + ?d - 1 < (length xs + 1) * ?d"
    unfolding add_mult_distrib mult_1 using mult_le_mono2 [OF q(2), of "length xs"] d by linarith
  then have "rank < length xs + 1" unfolding rank_def div_ceil_def by (rule less_mult_imp_div_less)
  then have r1: "rank \<le> length xs" by simp
  obtain k where k: "k < 2049" "quantile_from (sr_max_ns s) rank 0 0 (sr_bins s) =
      (case bin_bounds k of (low, high) \<Rightarrow> Some (min low (sr_max_ns s), min high (sr_max_ns s)))"
    and counts: "length (filter (\<lambda>x. series_index x < k) xs) < rank"
      "rank \<le> length (filter (\<lambda>x. series_index x \<le> k) xs)"
    using quantile_from_bin [OF holds r0 r1, of 0 "sr_max_ns s"] r0 by auto
  have y: "series_index ?y = k"
    by (rule sorted_rank_class [OF series_index_mono r0 r1 counts])
  have "?y \<in> set xs" using r0 r1 by (metis One_nat_def Suc_le_eq Suc_pred length_sort nth_mem set_sort)
  then have max: "?y \<le> sr_max_ns s" using holds by (simp add: series_holds_def)
  obtain low high where b: "bin_bounds k = (low, high)" by fastforce
  note bounds = bin_bounds_in [of ?y low high, unfolded y, OF b]
  have "sr_n s \<noteq> 0" using holds len(1) by (auto simp: series_holds_def)
  then have "series_quantile numerator denominator s = Some (min low (sr_max_ns s), min high (sr_max_ns s))"
    using k(2) b holds by (simp add: series_quantile_def rank_def series_holds_def)
  moreover have "32 * (unat (min high (sr_max_ns s)) - unat (min low (sr_max_ns s))) \<le> unat (min low (sr_max_ns s))"
  proof -
    have "low \<le> sr_max_ns s" using bounds max by (meson order.trans)
    then have "min low (sr_max_ns s) = low" by simp
    moreover have "unat (min high (sr_max_ns s)) \<le> unat high" by (simp add: min_def word_le_nat_alt)
    moreover have "32 * (unat high - unat low) \<le> unat low" using bounds by blast
    ultimately show ?thesis by (simp only:)
  qed
  ultimately show ?thesis using bounds max by (intro exI conjI) auto
qed

theorem quantile_contains_order_statistic_witness:
  "\<exists>s low high. series_of 8 [5, 40, 3] = Done s \<and> series_quantile 50 100 s = Some (low, high) \<and> low \<le> 5 \<and> 5 \<le> high"
proof -
  obtain s where s: "series_of 8 [5, 40, 3] = Done s" using series_of_holds [of "[5, 40, 3]" 8] by auto
  from quantile_contains_order_statistic [OF _ _ s, of 50 100] s show ?thesis
    by (simp add: div_ceil_def) blast
qed

end
