(* ===== verification/Diagnostics.thy ===== *)
theory Diagnostics
  imports Latency_Series Ordered_Frames
begin

text \<open>
  The analysis of the diagnostic events (\<open>Analysis\<close> in \<open>native-host/src/diagnostics.rs\<close>), which
  runs on the worker thread: counters, latency series, the clock-offset interval, and incidents
  with their evidence. Every index of the source that can be out of range is a panic here. Shown:
  for every sequence of events the worker never panics, and its memory stays bounded.
\<close>

section \<open>Events and state\<close>

text \<open>\<open>Event([u64; 12])\<close>: kind, local time, session, sequence and eight fields; a list of length 12.\<close>

type_synonym event = "u64 list"

abbreviation (input) RECEIVE :: u64 where "RECEIVE \<equiv> 1"
abbreviation (input) ACCEPT :: u64 where "ACCEPT \<equiv> 2"
abbreviation (input) GAP :: u64 where "GAP \<equiv> 3"
abbreviation (input) REJECT :: u64 where "REJECT \<equiv> 4"
abbreviation (input) BOUNDARY :: u64 where "BOUNDARY \<equiv> 5"
abbreviation (input) ACK :: u64 where "ACK \<equiv> 6"
abbreviation (input) SINK_FAILURE :: u64 where "SINK_FAILURE \<equiv> 8"
abbreviation (input) INGRESS :: u64 where "INGRESS \<equiv> 9"
abbreviation (input) BEGIN :: u64 where "BEGIN \<equiv> 10"
abbreviation (input) CANCEL :: u64 where "CANCEL \<equiv> 11"
abbreviation (input) STALL :: u64 where "STALL \<equiv> 12"
abbreviation (input) DUPLICATE :: u64 where "DUPLICATE \<equiv> 13"
abbreviation (input) CONTEXT :: nat where "CONTEXT \<equiv> 128"
abbreviation (input) MAX_INCIDENTS :: nat where "MAX_INCIDENTS \<equiv> 256"
abbreviation (input) MAX_EVIDENCE :: nat where "MAX_EVIDENCE \<equiv> 512"
abbreviation (input) QUIET_NS :: u64 where "QUIET_NS \<equiv> 32000000"

text \<open>More than eight fields would panic; every call passes a literal of at most eight.\<close>

definition event_new :: "u64 \<Rightarrow> u64 \<Rightarrow> u64 \<Rightarrow> u64 \<Rightarrow> u64 list \<Rightarrow> event" where
  "event_new kind at_ns session sq args =
     put_bytes 4 args (put_bytes 0 [kind, at_ns, session, sq] (replicate 12 0))"

record incident =
  in_id :: nat
  started_ns :: u64
  last_anomaly_ns :: u64
  last_evidence_ns :: u64
  recovery_ns :: "u64 option"
  fresh_session_commit_ns :: "u64 option"
  reconstructed_snapshot_ns :: "u64 option"
  causes :: "string set"
  affected_frames :: u64
  affected_frame_keys :: "(u64 \<times> u64) set"
  affected_keys_omitted :: u64
  first_frame :: "u64 \<times> u64"
  last_frame :: "u64 \<times> u64"
  evidence_omitted :: u64
  pre_context_truncated :: bool
  post_context_complete :: bool
  evidence :: "event list"

text \<open>
  The clock interval is \<open>(session, at, low, high)\<close> with \<open>i128\<close> bounds, which are integers here
  because they stay far inside that range; the gap is \<open>(session, expected, start, through)\<close>.
  Counters of \<open>u64\<close> wrap after \<open>2 ^ 64\<close> events.
\<close>

record analysis =
  budget_ns :: u64
  counts :: "string \<rightharpoonup> u64"
  series_map :: "string \<rightharpoonup> series"
  incidents :: "incident list"
  incidents_omitted :: u64
  diagnostic_records_dropped :: u64
  diagnostic_drop_span_ns :: "(u64 \<times> u64) option"
  last_event_ns :: u64
  an_pending :: "event option list"
  forward_bounds :: "(u64 \<times> u64) option list"
  an_clock :: "(u64 \<times> u64 \<times> int \<times> int) option"
  history :: "event list"
  active :: "nat option"
  an_gap :: "(u64 \<times> u64 \<times> u64 \<times> u64) option"
  last_unique :: "event option"
  last_commit :: "event option"
  last_bad_frame :: "(u64 \<times> u64) option"
  recovering :: "nat option"
  awaiting_snapshot :: "nat option"
  last_reverse_echo :: "(u64 \<times> u64) option"

definition analysis_new :: "u64 \<Rightarrow> analysis" where
  "analysis_new budget =
     \<lparr>budget_ns = budget, counts = Map.empty, series_map = Map.empty, incidents = [],
      incidents_omitted = 0, diagnostic_records_dropped = 0, diagnostic_drop_span_ns = None,
      last_event_ns = 0, an_pending = replicate MAX_REORDERED_FRAMES None,
      forward_bounds = replicate MAX_REORDERED_FRAMES None, an_clock = None, history = [],
      active = None, an_gap = None, last_unique = None, last_commit = None, last_bad_frame = None,
      recovering = None, awaiting_snapshot = None, last_reverse_echo = None\<rparr>"

type_synonym analysis_step = "analysis \<Rightarrow> (unit, analysis) outcome"

section \<open>Counters and samples\<close>

definition an_count :: "string \<Rightarrow> u64 \<Rightarrow> analysis_step" where
  "an_count key n a =
     Done (a\<lparr>counts := (counts a)(key \<mapsto> (case counts a key of None \<Rightarrow> 0 | Some c \<Rightarrow> c) + n)\<rparr>)"

definition series_entry :: "string \<Rightarrow> analysis \<Rightarrow> series" where
  "series_entry key a = (case series_map a key of None \<Rightarrow> series_default | Some s \<Rightarrow> s)"

definition sample :: "string \<Rightarrow> u64 \<Rightarrow> analysis_step" where
  "sample key ns a =
     and_then (series_push ns (budget_ns a) (series_entry key a))
       (\<lambda>s. Done (a\<lparr>series_map := (series_map a)(key \<mapsto> s)\<rparr>))"

definition delta :: "string \<Rightarrow> u64 \<Rightarrow> u64 \<Rightarrow> analysis \<Rightarrow> (unit, analysis \<times> u64 option) outcome" where
  "delta key later earlier a =
    (if earlier = 0 \<or> later < earlier then
       let s = series_entry key a in
       Done (a\<lparr>series_map := (series_map a)(key \<mapsto> s\<lparr>sr_invalid := sr_invalid s + 1\<rparr>)\<rparr>, None)
     else let ns = later - earlier in and_then (sample key ns a) (\<lambda>a. Done (a, Some ns)))"

section \<open>Incidents\<close>

text \<open>\<open>&mut self.incidents[index]\<close>.\<close>

definition update_incident :: "nat \<Rightarrow> (incident \<Rightarrow> incident) \<Rightarrow> analysis_step" where
  "update_incident i f a =
    (if i < length (incidents a) then Done (a\<lparr>incidents := (incidents a)[i := f (incidents a ! i)]\<rparr>)
     else Panic)"

definition open_incident :: "event \<Rightarrow> analysis \<Rightarrow> incident" where
  "open_incident e a =
     \<lparr>in_id = length (incidents a) + 1, started_ns = e ! 1, last_anomaly_ns = e ! 1,
      last_evidence_ns = e ! 1, recovery_ns = None, fresh_session_commit_ns = None,
      reconstructed_snapshot_ns = None, causes = {}, affected_frames = 0, affected_frame_keys = {},
      affected_keys_omitted = 0, first_frame = (e ! 2, e ! 3), last_frame = (e ! 2, e ! 3),
      evidence_omitted = 0, pre_context_truncated = (length (history a) = CONTEXT),
      post_context_complete = False, evidence = history a\<rparr>"

definition note_frame_key :: "u64 \<times> u64 \<Rightarrow> incident \<Rightarrow> incident" where
  "note_frame_key k inc =
    (if fst k \<noteq> 0 \<and> snd k \<noteq> - 1 then
       if card (affected_frame_keys inc) < MAX_EVIDENCE
       then inc\<lparr>affected_frame_keys := insert k (affected_frame_keys inc)\<rparr>
       else if k \<notin> affected_frame_keys inc
            then inc\<lparr>affected_keys_omitted := affected_keys_omitted inc + 1\<rparr> else inc
     else inc)"

definition anomaly :: "event \<Rightarrow> string \<Rightarrow> analysis_step" where
  "anomaly e cause a =
    (if active a = None \<and> length (incidents a) = MAX_INCIDENTS
     then Done (a\<lparr>incidents_omitted := incidents_omitted a + 1\<rparr>)
     else
       let a1 = (if active a = None
                 then a\<lparr>incidents := incidents a @ [open_incident e a], active := Some (length (incidents a))\<rparr>
                 else a);
           k = (e ! 2, e ! 3);
           fresh = last_bad_frame a1 \<noteq> Some k
       in case active a1 of
            None \<Rightarrow> Panic
          | Some i \<Rightarrow>
              and_then (update_incident i (\<lambda>inc.
                  note_frame_key k
                    (inc\<lparr>last_anomaly_ns := e ! 1, recovery_ns := None, causes := insert cause (causes inc),
                         affected_frames := affected_frames inc + (if fresh then 1 else 0),
                         last_frame := k\<rparr>)) a1)
                (\<lambda>a2. Done (if fresh then a2\<lparr>last_bad_frame := Some k\<rparr> else a2)))"

definition anomaly_if :: "bool \<Rightarrow> event \<Rightarrow> string \<Rightarrow> analysis_step" where
  "anomaly_if b e cause a = (if b then anomaly e cause a else Done a)"

text \<open>\<open>if self.delta(key, later, earlier).is_some_and(|v| v > self.budget_ns)\<close>, then an anomaly.\<close>

definition delta_over :: "string \<Rightarrow> u64 \<Rightarrow> u64 \<Rightarrow> event \<Rightarrow> string \<Rightarrow> analysis_step" where
  "delta_over key later earlier e cause a =
     and_then (delta key later earlier a) (\<lambda>(a1, v).
       anomaly_if (case v of None \<Rightarrow> False | Some ns \<Rightarrow> ns > budget_ns a1) e cause a1)"

definition push_evidence :: "event \<Rightarrow> incident \<Rightarrow> incident" where
  "push_evidence e inc =
    (if length (evidence inc) < MAX_EVIDENCE then inc\<lparr>evidence := evidence inc @ [e]\<rparr>
     else inc\<lparr>evidence_omitted := evidence_omitted inc + 1\<rparr>)"

definition retain :: "event \<Rightarrow> analysis_step" where
  "retain e a =
    (case active a of
       None \<Rightarrow> Done a
     | Some i \<Rightarrow> update_incident i (\<lambda>inc. push_evidence e (inc\<lparr>last_evidence_ns := e ! 1\<rparr>)) a)"

text \<open>The loop over the pending slots.\<close>

fun discard_from :: "event \<Rightarrow> nat list \<Rightarrow> analysis_step" where
  "discard_from e [] a = Done a"
| "discard_from e (i # is) a =
    (if length (an_pending a) \<le> i then Panic else
     case an_pending a ! i of
       None \<Rightarrow> discard_from e is a
     | Some frame \<Rightarrow>
         let a1 = a\<lparr>an_pending := (an_pending a)[i := None]\<rparr>;
             discarded = frame[0 := REJECT, 1 := e ! 1] in
         and_then (an_count ''observed_uncommitted_at_boundary'' 1 a1) (\<lambda>a2.
         and_then (if frame ! 9 AND 1 \<noteq> 0 then an_count ''gameplay_uncommitted_at_boundary'' 1 a2
                   else Done a2) (\<lambda>a3.
         and_then (anomaly discarded ''protocol_observed_frame_abandoned'' a3) (\<lambda>a4.
         and_then (retain discarded a4) (discard_from e is)))))"

definition discard_pending :: "event \<Rightarrow> analysis_step" where
  "discard_pending e a = discard_from e [0..<length (an_pending a)] a"

section \<open>Transport bounds\<close>

text \<open>The interval of the clock offset after an exchange, or no interval when the model is reset.\<close>

definition clock_interval :: "event \<Rightarrow> int \<Rightarrow> int \<Rightarrow> analysis \<Rightarrow> (int \<times> int) option" where
  "clock_interval e low high a =
    (case an_clock a of
       None \<Rightarrow> Some (low, high)
     | Some (session, at_ns, old_low, old_high) \<Rightarrow>
         if session = e ! 2 \<and> saturating_sub64 (e ! 1) at_ns \<le> 1000000000 then
           let drift = uint (saturating_sub64 (e ! 1) at_ns div 1000 + 1);
               low' = max low (old_low - drift); high' = min high (old_high + drift)
           in if low' \<le> high' then Some (low', high') else None
         else Some (low, high))"

text \<open>The samples and anomalies once the offset lies between \<open>low\<close> and \<open>high\<close>.\<close>

definition transport_samples :: "event \<Rightarrow> int \<Rightarrow> int \<Rightarrow> analysis \<Rightarrow> (unit, analysis \<times> (u64 \<times> u64) option) outcome" where
  "transport_samples e low high a =
    (let observed = uint (e ! 1) - uint (e ! 6);
         f0 = word_of_int (max 0 (observed - high)) :: u64; f1 = word_of_int (max 0 (observed - low)) :: u64;
         gameplay = e ! 9 AND 1 \<noteq> 0;
         reverse = uint (e ! 8) - uint (e ! 7);
         r0 = word_of_int (max 0 (reverse + low)) :: u64; r1 = word_of_int (max 0 (reverse + high)) :: u64 in
     and_then (sample (if gameplay then ''forward_transit_lower_bound_ns'' else ''control_frame_forward_lower_ns'') f0
                 (a\<lparr>an_clock := Some (e ! 2, e ! 1, low, high)\<rparr>)) (\<lambda>a.
     and_then (sample (if gameplay then ''forward_transit_upper_bound_ns'' else ''control_frame_forward_upper_ns'') f1 a) (\<lambda>a.
     and_then (sample ''clock_offset_interval_width_ns'' (word_of_int (high - low)) a) (\<lambda>a.
     and_then (if (case last_reverse_echo a of None \<Rightarrow> True | Some (session, echo) \<Rightarrow> session \<noteq> e ! 2 \<or> e ! 7 > echo)
               then and_then (sample ''reverse_control_lower_bound_ns'' r0
                               (a\<lparr>last_reverse_echo := Some (e ! 2, e ! 7)\<rparr>))
                      (sample ''reverse_control_upper_bound_ns'' r1)
               else an_count ''reused_control_echo_excluded_from_reverse_distribution'' 1 a) (\<lambda>a.
     and_then (if f0 > budget_ns a then anomaly e ''forward_transport_or_endpoint_stall_bounded'' a
               else anomaly_if (f1 > budget_ns a) e ''forward_latency_budget_uncertain'' a) (\<lambda>a.
     and_then (anomaly_if (r0 > budget_ns a) e ''reverse_control_or_endpoint_stall_bounded'' a) (\<lambda>a.
       Done (a, Some (f0, f1)))))))))"

definition transport_bounds :: "event \<Rightarrow> analysis \<Rightarrow> (unit, analysis \<times> (u64 \<times> u64) option) outcome" where
  "transport_bounds e a =
    (if e ! 7 = 0 \<or> e ! 8 = 0 \<or> e ! 6 < e ! 8 \<or> e ! 1 < e ! 7 then
       and_then (an_count ''clock_exchange_missing_or_invalid'' 1 a) (\<lambda>a. Done (a, None))
     else let span = e ! 1 - e ! 7 in
     if span > 2000000000 then and_then (an_count ''clock_exchange_stale'' 1 a) (\<lambda>a. Done (a, None))
     else let uncertainty = uint (span div 1000 + 1);
              low = uint (e ! 7) - uint (e ! 8) - uncertainty;
              high = uint (e ! 1) - uint (e ! 6) + uncertainty in
     if low > high then and_then (an_count ''clock_exchange_invalid'' 1 a) (\<lambda>a. Done (a, None))
     else and_then (sample ''duplex_exchange_residual_upper_ns'' (word_of_int (high - low)) a) (\<lambda>a.
       case clock_interval e low high a of
         None \<Rightarrow>
           and_then (an_count ''clock_model_resets'' 1 a) (\<lambda>a.
           and_then (anomaly e ''clock_rate_assumption_or_timestamps_inconsistent'' a) (\<lambda>a.
             Done (a\<lparr>an_clock := None\<rparr>, None)))
       | Some (low', high') \<Rightarrow> transport_samples e low' high' a))"

section \<open>One event\<close>

definition observe_begin :: "event \<Rightarrow> analysis_step" where
  "observe_begin e a =
     and_then (discard_pending e a) (\<lambda>a.
     and_then (an_count ''connections'' 1 a) (\<lambda>a.
       Done (a\<lparr>last_unique := None, last_commit := None, an_gap := None, an_clock := None\<rparr>)))"

definition observe_cadence :: "event \<Rightarrow> analysis_step" where
  "observe_cadence e a =
    (case last_unique a of
       None \<Rightarrow> Done a
     | Some p \<Rightarrow>
         if p ! 2 \<noteq> e ! 2 then Done a else
         let receive_gap = saturating_sub64 (e ! 1) (p ! 1) in
         and_then (sample ''unique_gameplay_receive_interval_ns'' receive_gap a) (\<lambda>a.
           if e ! 4 \<ge> p ! 4 then
             let excess = saturating_sub64 receive_gap (e ! 4 - p ! 4) in
             and_then (sample ''unique_gameplay_cadence_excess_ns'' excess a)
               (\<lambda>a. anomaly_if (excess > budget_ns a) e ''delivery_cadence_excess_origin_unresolved'' a)
           else Done a))"

definition observe_gameplay_frame :: "event \<Rightarrow> analysis_step" where
  "observe_gameplay_frame e a =
     and_then (anomaly_if (e ! 4 = 0 \<or> e ! 5 < e ! 4 \<or> e ! 6 < e ! 5) e ''android_timestamp_order_invalid'' a) (\<lambda>a.
     let hist = e ! 9 AND 2 \<noteq> 0 in
     and_then (an_count (if hist then ''historical_frames_observed'' else ''current_frames_observed'') 1 a) (\<lambda>a.
     and_then (delta_over (if hist then ''android_historical_dispatch_ns'' else ''android_current_dispatch_ns'')
                 (e ! 5) (e ! 4) e ''android_dispatch_budget'' a) (\<lambda>a.
     and_then (delta_over ''android_callback_to_winning_attempt_ns'' (e ! 6) (e ! 5) e
                 ''android_queue_or_repair_age_budget'' a) (\<lambda>a.
     and_then (observe_cadence e a) (\<lambda>a. Done (a\<lparr>last_unique := Some e\<rparr>))))))"

definition pending_slot :: "event \<Rightarrow> analysis \<Rightarrow> nat" where
  "pending_slot e a = unat (e ! 3) mod length (an_pending a)"

definition observe_receive :: "event \<Rightarrow> analysis_step" where
  "observe_receive e a =
     and_then (an_count ''unique_logical_frames_observed'' 1 a) (\<lambda>a.
     and_then (if e ! 9 AND 4 \<noteq> 0 then an_count ''unique_heartbeats'' 1 a else Done a) (\<lambda>a.
     and_then (if e ! 9 AND 1 \<noteq> 0 then observe_gameplay_frame e a else Done a) (\<lambda>a.
     and_then (transport_bounds e a) (\<lambda>(a, forward).
     let slot = pending_slot e a in
     if length (an_pending a) \<le> slot \<or> length (forward_bounds a) \<le> slot then Panic else
     and_then (if an_pending a ! slot \<noteq> None
               then and_then (an_count ''diagnostic_pending_collision'' 1 a) (anomaly e ''diagnostic_coverage_gap'')
               else Done a) (\<lambda>a.
       Done (a\<lparr>an_pending := (an_pending a)[slot := Some e],
               forward_bounds := (forward_bounds a)[slot := forward]\<rparr>))))))"

definition observe_gap_event :: "event \<Rightarrow> analysis_step" where
  "observe_gap_event e a =
     and_then (an_count ''future_unique_frames'' 1 a) (\<lambda>a.
     and_then (case an_gap a of
         Some (session, expected, start, through) \<Rightarrow>
           if session = e ! 2 \<and> expected = e ! 4
           then Done (a\<lparr>an_gap := Some (session, expected, start, max through (e ! 3))\<rparr>)
           else and_then (an_count ''ordering_holes'' 1 a) (\<lambda>a. Done (a\<lparr>an_gap := Some (e ! 2, e ! 4, e ! 1, e ! 3)\<rparr>))
       | None \<Rightarrow> and_then (an_count ''ordering_holes'' 1 a) (\<lambda>a. Done (a\<lparr>an_gap := Some (e ! 2, e ! 4, e ! 1, e ! 3)\<rparr>)))
       (anomaly e ''protocol_ordering_hole_loss_or_reorder''))"


text \<open>An accepted gameplay frame: its age at the OS, with the forward transit when that is bounded.\<close>

definition observe_event_to_sink :: "event \<Rightarrow> event \<Rightarrow> u64 \<Rightarrow> nat \<Rightarrow> analysis_step" where
  "observe_event_to_sink e f service sl a =
    (if f ! 4 > 0 \<and> f ! 5 \<ge> f ! 4 \<and> f ! 6 \<ge> f ! 5 then
       let phone_age = f ! 6 - f ! 4;
           timestamp_total = saturating_add64 phone_age service;
           lower = saturating_sub64 timestamp_total (1000000 + phone_age div 1000);
           hist = f ! 9 AND 2 \<noteq> 0 in
       and_then (sample (if hist then ''historical_event_to_sink_local_lower_bound_ns''
                         else ''current_event_to_sink_local_lower_bound_ns'') lower a) (\<lambda>a.
       and_then (anomaly_if (lower > budget_ns a) e ''event_to_sink_definite_budget_violation'' a) (\<lambda>a.
       if length (forward_bounds a) \<le> sl then Panic else
       case forward_bounds a ! sl of
         None \<Rightarrow> an_count ''gameplay_budget_unmeasurable'' 1 a
       | Some (b0, b1) \<Rightarrow>
           let low = saturating_add64 lower b0;
               high = saturating_add64 (saturating_add64 timestamp_total (phone_age div 1000)) b1 in
           and_then (sample (if hist then ''historical_event_to_sink_lower_ns''
                             else ''current_event_to_sink_lower_ns'') low a) (\<lambda>a.
           and_then (sample (if hist then ''historical_event_to_sink_upper_ns''
                             else ''current_event_to_sink_upper_ns'') high a) (\<lambda>a.
           if low > budget_ns a then
             and_then (an_count ''gameplay_budget_definite_fail'' 1 a)
               (anomaly e ''bounded_event_to_sink_budget_violation'')
           else if high > budget_ns a then
             and_then (an_count ''gameplay_budget_uncertain'' 1 a)
               (anomaly e ''event_to_sink_budget_uncertain'')
           else an_count ''gameplay_within_budget_under_clock_assumption'' 1 a))))
     else an_count ''gameplay_budget_unmeasurable'' 1 a)"

text \<open>The frame that waits in a slot, when it is the one of the event.\<close>

definition pending_frame_of :: "event \<Rightarrow> analysis \<Rightarrow> event option" where
  "pending_frame_of e a =
    (case an_pending a ! pending_slot e a of
       None \<Rightarrow> None
     | Some f \<Rightarrow> if f ! 2 = e ! 2 \<and> f ! 3 = e ! 3 then Some f else None)"

definition observe_outcome_frame :: "event \<Rightarrow> event \<Rightarrow> analysis_step" where
  "observe_outcome_frame e f a =
     and_then (delta ''host_receive_to_ready_ns'' (e ! 4) (f ! 1) a) (\<lambda>(a, v).
     let service = saturating_sub64 (e ! 1) (f ! 1) in
     and_then (sample ''host_receive_to_sink_outcome_ns'' service a) (\<lambda>a.
     and_then (anomaly_if (saturating_sub64 (e ! 4) (f ! 1) > budget_ns a) e
                 ''host_decode_order_or_scheduling_budget'' a) (\<lambda>a.
     if e ! 0 = ACCEPT then
       let slot = pending_slot e a;
           a = a\<lparr>an_pending := (an_pending a)[slot := None]\<rparr> in
       if f ! 9 AND 1 \<noteq> 0
       then and_then (an_count ''gameplay_os_accepted'' 1 a) (observe_event_to_sink e f service slot)
       else Done a
     else Done a)))"

definition accept_recovery :: "event \<Rightarrow> analysis_step" where
  "accept_recovery e a =
    (case recovering a of
       None \<Rightarrow> Done a
     | Some i \<Rightarrow>
         and_then (update_incident i (\<lambda>inc. inc\<lparr>fresh_session_commit_ns := Some (e ! 1),
                     recovery_ns := Some (saturating_sub64 (e ! 1) (started_ns inc))\<rparr>)
                     (a\<lparr>recovering := None\<rparr>))
           (\<lambda>a. Done (a\<lparr>awaiting_snapshot := Some i\<rparr>)))"

definition accept_snapshot :: "u64 option \<Rightarrow> event \<Rightarrow> analysis_step" where
  "accept_snapshot flags e a =
    (if (case flags of None \<Rightarrow> False | Some fl \<Rightarrow> fl AND (1 OR 4) \<noteq> 0) then
       case awaiting_snapshot a of
         None \<Rightarrow> Done a
       | Some i \<Rightarrow> update_incident i (\<lambda>inc. inc\<lparr>reconstructed_snapshot_ns := Some (e ! 1)\<rparr>)
                     (a\<lparr>awaiting_snapshot := None\<rparr>)
     else Done a)"

definition accept_closes_gap :: "event \<Rightarrow> analysis_step" where
  "accept_closes_gap e a =
    (case an_gap a of
       None \<Rightarrow> Done a
     | Some (session, expected, start, through) \<Rightarrow>
         if session = e ! 2 \<and> e ! 3 \<ge> through
         then and_then (sample ''ordering_hole_until_commit_ns'' (saturating_sub64 (e ! 1) start) a)
                (\<lambda>a. Done (a\<lparr>an_gap := None\<rparr>))
         else Done a)"

definition accept_recovers_incident :: "event \<Rightarrow> analysis_step" where
  "accept_recovers_incident e a =
    (if an_gap a = None \<and> list_all (\<lambda>p. p = None) (an_pending a) then
       case active a of
         None \<Rightarrow> Done a
       | Some i \<Rightarrow> update_incident i (\<lambda>inc. case recovery_ns inc of
             None \<Rightarrow> inc\<lparr>recovery_ns := Some (saturating_sub64 (e ! 1) (started_ns inc))\<rparr>
           | Some _ \<Rightarrow> inc) a
     else Done a)"

definition observe_outcome :: "event \<Rightarrow> analysis_step" where
  "observe_outcome e a =
    (if length (an_pending a) \<le> pending_slot e a then Panic else
     let accepted_flags = map_option (\<lambda>f. f ! 9) (pending_frame_of e a) in
     and_then (an_count (if e ! 0 = ACCEPT then ''os_accepted'' else ''os_failed'') 1 a) (\<lambda>a.
     and_then (an_count ''sink_retries'' (e ! 5) a) (\<lambda>a.
     and_then (anomaly_if (e ! 5 > 0) e ''os_sink_retry'' a) (\<lambda>a.
     and_then (anomaly_if (e ! 0 = SINK_FAILURE) e ''os_sink_failure'' a) (\<lambda>a.
     and_then (delta_over ''sink_attempts_including_planning_ns'' (e ! 1) (e ! 4) e ''sink_submission_budget'' a) (\<lambda>a.
     and_then (case pending_frame_of e a of
                 Some f \<Rightarrow> observe_outcome_frame e f a
               | None \<Rightarrow> an_count ''outcome_without_receive_evidence'' 1 a) (\<lambda>a.
     if e ! 0 = ACCEPT then
       and_then (accept_recovery e a) (\<lambda>a.
       and_then (accept_snapshot accepted_flags e a) (\<lambda>a.
       and_then (accept_closes_gap e a) (\<lambda>a.
       and_then (accept_recovers_incident e a) (\<lambda>a.
         Done (a\<lparr>last_commit := Some e\<rparr>)))))
     else Done a)))))))"

definition observe_reject :: "event \<Rightarrow> analysis_step" where
  "observe_reject e a =
     and_then (an_count ''protocol_rejected'' 1 a) (\<lambda>a.
     let slot = pending_slot e a in
     if length (an_pending a) \<le> slot then Panic else
     anomaly e ''protocol_frame_rejected''
       (if pending_frame_of e a \<noteq> None then a\<lparr>an_pending := (an_pending a)[slot := None]\<rparr> else a))"

definition observe_boundary :: "event \<Rightarrow> analysis_step" where
  "observe_boundary e a =
     and_then (if e ! 4 \<noteq> 0
               then and_then (an_count ''failed_boundaries'' 1 a) (\<lambda>a.
                    and_then (anomaly e ''session_failure_boundary'' a) (\<lambda>a.
                      Done (a\<lparr>recovering := active a\<rparr>)))
               else Done a) (\<lambda>a.
     and_then (discard_pending e a) (\<lambda>a. Done (a\<lparr>an_gap := None, last_unique := None\<rparr>)))"

definition observe_ack_event :: "event \<Rightarrow> analysis_step" where
  "observe_ack_event e a =
     and_then (an_count (if e ! 5 \<noteq> 0 then ''ack_progress_submissions'' else ''ack_repeat_submissions'') 1 a) (\<lambda>a.
     and_then (sample ''host_ack_submission_ns'' (e ! 4) a) (\<lambda>a.
     and_then (anomaly_if (e ! 6 \<noteq> 0) e ''host_ack_send_failure'' a) (\<lambda>a.
       anomaly_if (e ! 4 > budget_ns a) e ''host_ack_submission_budget'' a)))"

definition observe_ingress :: "event \<Rightarrow> analysis_step" where
  "observe_ingress e a =
     and_then (an_count (if e ! 4 = 1 then ''ingress_wrong_peer_or_interface''
                         else if e ! 4 = 2 then ''aead_packet_replay''
                         else if e ! 4 = 3 then ''bad_tag'' else ''malformed_or_wrong_connection'') 1 a)
       (anomaly e ''ingress_discard_not_gameplay_loss_proof'')"

definition observe_cancel :: "event \<Rightarrow> analysis_step" where
  "observe_cancel e a =
     and_then (an_count ''release_attempts'' 1 a) (\<lambda>a.
     and_then (anomaly_if (e ! 5 \<noteq> 0) e ''os_release_failure'' a) (\<lambda>a.
       anomaly_if (e ! 4 > budget_ns a) e ''os_release_budget'' a))"

definition observe_stall :: "event \<Rightarrow> analysis_step" where
  "observe_stall e a =
     and_then (an_count ''watchdog_or_interface_failures'' 1 a) (anomaly e ''watchdog_or_interface_boundary'')"

definition observe_kind :: "event \<Rightarrow> analysis_step" where
  "observe_kind e a =
    (let kind = e ! 0 in
     if kind = BEGIN then observe_begin e a
     else if kind = RECEIVE then observe_receive e a
     else if kind = DUPLICATE then an_count ''logical_duplicate_datagrams'' 1 a
     else if kind = GAP then observe_gap_event e a
     else if kind = ACCEPT \<or> kind = SINK_FAILURE then observe_outcome e a
     else if kind = REJECT then observe_reject e a
     else if kind = BOUNDARY then observe_boundary e a
     else if kind = ACK then observe_ack_event e a
     else if kind = INGRESS then observe_ingress e a
     else if kind = CANCEL then observe_cancel e a
     else if kind = STALL then observe_stall e a
     else Done a)"

text \<open>An incident is closed by the first event after 32 quiet milliseconds without an open gap.\<close>

definition close_quiet_incident :: "event \<Rightarrow> analysis_step" where
  "close_quiet_incident e a =
    (case active a of
       None \<Rightarrow> Done a
     | Some i \<Rightarrow>
         if length (incidents a) \<le> i then Panic
         else if an_gap a = None \<and> saturating_sub64 (e ! 1) (last_anomaly_ns (incidents a ! i)) > QUIET_NS
         then and_then (update_incident i (\<lambda>inc. inc\<lparr>post_context_complete := True\<rparr>) a)
                (\<lambda>a. Done (a\<lparr>active := None, last_bad_frame := None\<rparr>))
         else Done a)"

definition retain_recovery :: "nat option \<Rightarrow> event \<Rightarrow> analysis_step" where
  "retain_recovery target e a =
    (case target of
       None \<Rightarrow> Done a
     | Some i \<Rightarrow> if active a \<noteq> Some i then update_incident i (push_evidence e) a else Done a)"

definition push_history :: "event \<Rightarrow> event list \<Rightarrow> event list" where
  "push_history e h = (if length h = CONTEXT then drop 1 h else h) @ [e]"

definition observe :: "event \<Rightarrow> analysis_step" where
  "observe e a =
    (let target = (case recovering a of Some i \<Rightarrow> Some i | None \<Rightarrow> awaiting_snapshot a);
         a = a\<lparr>last_event_ns := max (last_event_ns a) (e ! 1)\<rparr> in
     and_then (close_quiet_incident e a) (\<lambda>a.
     and_then (observe_kind e a) (\<lambda>a.
     and_then (retain_recovery target e a) (\<lambda>a.
     and_then (retain e a) (\<lambda>a.
       Done (a\<lparr>history := push_history e (history a)\<rparr>))))))"

definition analysis_finish :: "u64 \<Rightarrow> analysis_step" where
  "analysis_finish dropped a =
    (let a = a\<lparr>diagnostic_records_dropped := dropped\<rparr>;
         e = event_new BOUNDARY (last_event_ns a) 0 0 [] in
     and_then (discard_pending e a) (anomaly_if (dropped > 0) e ''diagnostic_coverage_gap''))"

section \<open>The invariant\<close>

named_theorems keeps_rules \<open>every operation of the analysis keeps the invariant\<close>

definition incident_ok :: "incident \<Rightarrow> bool" where
  "incident_ok inc \<longleftrightarrow> length (evidence inc) \<le> MAX_EVIDENCE \<and> finite (affected_frame_keys inc) \<and>
     card (affected_frame_keys inc) \<le> MAX_EVIDENCE"

definition index_ok :: "nat option \<Rightarrow> nat \<Rightarrow> bool" where
  "index_ok x n \<longleftrightarrow> (\<forall>i. x = Some i \<longrightarrow> i < n)"

definition an_inv :: "analysis \<Rightarrow> bool" where
  "an_inv a \<longleftrightarrow>
     length (an_pending a) = MAX_REORDERED_FRAMES \<and> length (forward_bounds a) = MAX_REORDERED_FRAMES \<and>
     length (history a) \<le> CONTEXT \<and> length (incidents a) \<le> MAX_INCIDENTS \<and>
     list_all incident_ok (incidents a) \<and> (\<forall>k s. series_map a k = Some s \<longrightarrow> length (sr_bins s) = 2049) \<and>
     index_ok (active a) (length (incidents a)) \<and>
     index_ok (recovering a) (length (incidents a)) \<and> index_ok (awaiting_snapshot a) (length (incidents a))"

text \<open>A step from \<open>a\<close> completes, keeps the invariant and never drops an incident.\<close>

definition grown :: "analysis \<Rightarrow> analysis \<Rightarrow> bool" where
  "grown a b \<longleftrightarrow> an_inv b \<and> length (incidents a) \<le> length (incidents b)"

abbreviation keeps :: "analysis \<Rightarrow> (unit, analysis) outcome \<Rightarrow> bool" where
  "keeps a m \<equiv> completes m (grown a)"

abbreviation keeps2 :: "analysis \<Rightarrow> (unit, analysis \<times> 'b) outcome \<Rightarrow> bool" where
  "keeps2 a m \<equiv> completes m (\<lambda>(b, v). grown a b)"

lemma grown_refl: "an_inv a \<Longrightarrow> grown a a"
  by (simp add: grown_def)

lemma grown_trans: "grown a b \<Longrightarrow> grown b c \<Longrightarrow> grown a c"
  by (simp add: grown_def)

lemma grown_inv: "grown a b \<Longrightarrow> an_inv b"
  by (simp add: grown_def)

lemma keeps_then [keeps_rules]:
  "keeps a m \<Longrightarrow> (\<And>b. grown a b \<Longrightarrow> keeps a (f b)) \<Longrightarrow> keeps a (and_then m f)"
  by (auto simp: completes_then elim: completes_mono)

lemma keeps_then2 [keeps_rules]:
  "keeps2 a m \<Longrightarrow> (\<And>b v. grown a b \<Longrightarrow> keeps a (f (b, v))) \<Longrightarrow> keeps a (and_then m f)"
  by (auto simp: completes_then elim!: completes_mono)

lemma keeps2_then [keeps_rules]:
  "keeps a m \<Longrightarrow> (\<And>b. grown a b \<Longrightarrow> keeps2 a (f b)) \<Longrightarrow> keeps2 a (and_then m f)"
  by (auto simp: completes_then elim: completes_mono)

lemma keeps_mono: "grown a b \<Longrightarrow> keeps b m \<Longrightarrow> keeps a m"
  by (auto elim!: completes_mono dest: grown_trans)

lemma keeps2_mono: "grown a b \<Longrightarrow> keeps2 b m \<Longrightarrow> keeps2 a m"
  by (auto elim!: completes_mono dest: grown_trans)

lemma keeps_Done [keeps_rules]: "grown a b \<Longrightarrow> keeps a (Done b)"
  by simp

lemma keeps2_Done [keeps_rules]: "grown a b \<Longrightarrow> keeps2 a (Done (b, v))"
  by simp

text \<open>Fields the invariant does not speak of, and updates it allows.\<close>

lemma grown_updates [simp]:
  "grown a (b\<lparr>counts := c\<rparr>) = grown a b" "grown a (b\<lparr>incidents_omitted := n\<rparr>) = grown a b"
  "grown a (b\<lparr>diagnostic_records_dropped := n\<rparr>) = grown a b" "grown a (b\<lparr>last_event_ns := n\<rparr>) = grown a b"
  "grown a (b\<lparr>an_clock := cl\<rparr>) = grown a b" "grown a (b\<lparr>an_gap := g\<rparr>) = grown a b"
  "grown a (b\<lparr>last_unique := u\<rparr>) = grown a b" "grown a (b\<lparr>last_commit := u\<rparr>) = grown a b"
  "grown a (b\<lparr>last_bad_frame := f\<rparr>) = grown a b" "grown a (b\<lparr>last_reverse_echo := f\<rparr>) = grown a b"
  "grown a (b\<lparr>an_pending := (an_pending b)[i := p]\<rparr>) = grown a b"
  "grown a (b\<lparr>forward_bounds := (forward_bounds b)[i := q]\<rparr>) = grown a b"
  by (simp_all add: grown_def an_inv_def)

lemma grown_index [simp]:
  "grown a b \<Longrightarrow> grown a (b\<lparr>active := x\<rparr>) = index_ok x (length (incidents b))"
  "grown a b \<Longrightarrow> grown a (b\<lparr>recovering := x\<rparr>) = index_ok x (length (incidents b))"
  "grown a b \<Longrightarrow> grown a (b\<lparr>awaiting_snapshot := x\<rparr>) = index_ok x (length (incidents b))"
  by (simp_all add: grown_def an_inv_def)

lemma index_ok_None [simp]: "index_ok None n"
  by (simp add: index_ok_def)

lemma grown_active [simp]: "grown a b \<Longrightarrow> index_ok (active b) (length (incidents b))"
  by (simp add: grown_def an_inv_def)

lemma grown_index_less:
  "grown a b \<Longrightarrow> active b = Some i \<Longrightarrow> i < length (incidents b)"
  "grown a b \<Longrightarrow> recovering b = Some i \<Longrightarrow> i < length (incidents b)"
  "grown a b \<Longrightarrow> awaiting_snapshot b = Some i \<Longrightarrow> i < length (incidents b)"
  by (auto simp: grown_def an_inv_def index_ok_def)

lemma grown_lengths:
  "grown a b \<Longrightarrow> length (an_pending b) = MAX_REORDERED_FRAMES \<and> length (forward_bounds b) = MAX_REORDERED_FRAMES"
  by (simp add: grown_def an_inv_def)

lemma pending_slot_bound [simp]:
  "grown a b \<Longrightarrow> \<not> length (an_pending b) \<le> pending_slot e b"
  "grown a b \<Longrightarrow> \<not> length (forward_bounds b) \<le> pending_slot e b"
  by (auto simp: grown_lengths pending_slot_def not_le)

section \<open>Every operation keeps it\<close>

lemma keeps_count [keeps_rules]: "grown a b \<Longrightarrow> keeps a (an_count k n b)"
  by (simp add: an_count_def)

lemma keeps_sample [keeps_rules]:
  assumes "grown a b" shows "keeps a (sample k ns b)"
proof -
  have "length (sr_bins (series_entry k b)) = 2049"
    using assms by (auto simp: grown_def an_inv_def series_entry_def series_default_def split: option.splits)
  then obtain s where s: "series_push ns (budget_ns b) (series_entry k b) = (Done s :: (unit, series) outcome)"
      "length (sr_bins s) = 2049"
    using series_index_bound [of ns] by (auto simp: series_push_def Let_def)
  then show ?thesis using assms by (auto simp: sample_def completes_then grown_def an_inv_def)
qed

lemma keeps_delta [keeps_rules]:
  assumes "grown a b" shows "keeps2 a (delta k x y b)"
proof (cases "y = 0 \<or> x < y")
  case True
  then show ?thesis using assms
    by (auto simp: delta_def Let_def grown_def an_inv_def series_entry_def series_default_def
        split: option.splits)
next
  case False
  then show ?thesis using keeps_sample [OF assms, of k "x - y"] by (auto simp: delta_def Let_def completes_then)
qed

lemma keeps_update [keeps_rules]:
  assumes "grown a b" and "i < length (incidents b)" and "\<And>inc. incident_ok inc \<Longrightarrow> incident_ok (f inc)"
  shows "keeps a (update_incident i f b)"
  using assms by (auto simp: update_incident_def grown_def an_inv_def list_all_length nth_list_update)

lemma incident_ok_updates [simp]:
  "incident_ok (inc\<lparr>last_evidence_ns := t\<rparr>) = incident_ok inc"
  "incident_ok (inc\<lparr>last_anomaly_ns := t\<rparr>) = incident_ok inc"
  "incident_ok (inc\<lparr>recovery_ns := r\<rparr>) = incident_ok inc"
  "incident_ok (inc\<lparr>fresh_session_commit_ns := r\<rparr>) = incident_ok inc"
  "incident_ok (inc\<lparr>reconstructed_snapshot_ns := r\<rparr>) = incident_ok inc"
  "incident_ok (inc\<lparr>causes := c\<rparr>) = incident_ok inc"
  "incident_ok (inc\<lparr>affected_frames := t\<rparr>) = incident_ok inc"
  "incident_ok (inc\<lparr>last_frame := k\<rparr>) = incident_ok inc"
  "incident_ok (inc\<lparr>post_context_complete := c'\<rparr>) = incident_ok inc"
  by (simp_all add: incident_ok_def)

lemma push_evidence_ok [simp]: "incident_ok inc \<Longrightarrow> incident_ok (push_evidence e inc)"
  by (auto simp: incident_ok_def push_evidence_def)

lemma note_frame_key_ok [simp]: "incident_ok inc \<Longrightarrow> incident_ok (note_frame_key k inc)"
  by (auto simp: incident_ok_def note_frame_key_def card_insert_if)

lemma grown_open_incident:
  assumes "grown a b" and "active b = None" and "length (incidents b) \<noteq> MAX_INCIDENTS"
  shows "grown a (b\<lparr>incidents := incidents b @ [open_incident e b], active := Some (length (incidents b))\<rparr>)"
  using assms by (auto simp: grown_def an_inv_def index_ok_def incident_ok_def open_incident_def)

lemma keeps_anomaly [keeps_rules]:
  assumes "grown a b" shows "keeps a (anomaly e c b)"
proof -
  define b1 where "b1 = (if active b = None
      then b\<lparr>incidents := incidents b @ [open_incident e b], active := Some (length (incidents b))\<rparr> else b)"
  show ?thesis
  proof (cases "active b = None \<and> length (incidents b) = MAX_INCIDENTS")
    case False
    with assms have g: "grown a b1" and "active b1 \<noteq> None"
      using grown_open_incident [OF assms] by (auto simp: b1_def)
    then obtain i where i: "active b1 = Some i" by auto
    show ?thesis
      unfolding anomaly_def if_not_P [OF False] b1_def [symmetric] Let_def i option.case
      by (intro keeps_rules keeps_update [OF g]) (auto intro: grown_index_less [OF g] i)
  qed (use assms in \<open>simp add: anomaly_def\<close>)
qed

lemma keeps_anomaly_if [keeps_rules]: "grown a b \<Longrightarrow> keeps a (anomaly_if c e s b)"
  by (simp add: anomaly_if_def keeps_anomaly)

lemma keeps_delta_over [keeps_rules]: "grown a b \<Longrightarrow> keeps a (delta_over k x y e c b)"
  by (auto simp: delta_over_def intro!: keeps_rules)

lemma keeps_retain [keeps_rules]: "grown a b \<Longrightarrow> keeps a (retain e b)"
  by (auto simp: retain_def intro!: keeps_rules dest: grown_index_less split: option.split)

lemma keeps_discard_from:
  "grown a b \<Longrightarrow> list_all (\<lambda>i. i < MAX_REORDERED_FRAMES) is \<Longrightarrow> keeps a (discard_from e is b)"
proof (induction "is" arbitrary: b)
  case (Cons i "is")
  have "\<not> length (an_pending b) \<le> i" using Cons.prems by (simp add: grown_lengths)
  then show ?case using Cons.prems
    by (auto simp: Let_def intro!: keeps_rules Cons.IH split: option.split)
qed simp

lemma keeps_discard [keeps_rules]: "grown a b \<Longrightarrow> keeps a (discard_pending e b)"
  by (auto simp: discard_pending_def grown_lengths list_all_iff intro!: keeps_discard_from)

lemma keeps_transport_samples: "grown a b \<Longrightarrow> keeps2 a (transport_samples e l h b)"
  unfolding transport_samples_def Let_def by (auto intro!: keeps_rules)

lemma keeps_transport [keeps_rules]: "grown a b \<Longrightarrow> keeps2 a (transport_bounds e b)"
  unfolding transport_bounds_def Let_def
  by (auto intro!: keeps_rules keeps_transport_samples split: option.split)

lemma keeps_begin [keeps_rules]: "grown a b \<Longrightarrow> keeps a (observe_begin e b)"
  unfolding observe_begin_def by (auto intro!: keeps_rules)

lemma keeps_cadence [keeps_rules]: "grown a b \<Longrightarrow> keeps a (observe_cadence e b)"
  unfolding observe_cadence_def Let_def by (auto intro!: keeps_rules split: option.split)

lemma keeps_gameplay [keeps_rules]: "grown a b \<Longrightarrow> keeps a (observe_gameplay_frame e b)"
  unfolding observe_gameplay_frame_def Let_def by (auto intro!: keeps_rules)

lemma grown_slot [simp]:
  "grown a (b\<lparr>an_pending := (an_pending b)[i := p], forward_bounds := (forward_bounds b)[j := q]\<rparr>) = grown a b"
  by (simp add: grown_def an_inv_def)

lemma keeps_receive [keeps_rules]: "grown a b \<Longrightarrow> keeps a (observe_receive e b)"
  unfolding observe_receive_def Let_def by (auto intro!: keeps_rules)

lemma keeps_gap [keeps_rules]: "grown a b \<Longrightarrow> keeps a (observe_gap_event e b)"
  unfolding observe_gap_event_def by (auto intro!: keeps_rules split: option.split)

lemma keeps_event_to_sink [keeps_rules]:
  "grown a b \<Longrightarrow> sl < MAX_REORDERED_FRAMES \<Longrightarrow> keeps a (observe_event_to_sink e f service sl b)"
  unfolding observe_event_to_sink_def Let_def
  by (auto intro!: keeps_rules simp: grown_lengths split: option.split)

lemma pending_slot_less [simp]: "grown a b \<Longrightarrow> pending_slot e b < MAX_REORDERED_FRAMES"
  by (simp add: pending_slot_def grown_lengths)

lemma keeps_outcome_frame [keeps_rules]: "grown a b \<Longrightarrow> keeps a (observe_outcome_frame e f b)"
  unfolding observe_outcome_frame_def Let_def by (auto intro!: keeps_rules)

lemma keeps_accept_recovery [keeps_rules]: "grown a b \<Longrightarrow> keeps a (accept_recovery e b)"
  unfolding accept_recovery_def update_incident_def
  by (auto simp: grown_def an_inv_def index_ok_def completes_then list_all_length nth_list_update split: option.split)

lemma keeps_accept_snapshot [keeps_rules]: "grown a b \<Longrightarrow> keeps a (accept_snapshot fl e b)"
  unfolding accept_snapshot_def
  by (auto intro!: keeps_rules dest: grown_index_less(3) split: option.split)

lemma keeps_closes_gap [keeps_rules]: "grown a b \<Longrightarrow> keeps a (accept_closes_gap e b)"
  unfolding accept_closes_gap_def by (auto intro!: keeps_rules split: option.split)

lemma keeps_recovers [keeps_rules]: "grown a b \<Longrightarrow> keeps a (accept_recovers_incident e b)"
  unfolding accept_recovers_incident_def
  by (auto intro!: keeps_rules dest: grown_index_less(1) split: option.split)

lemma keeps_outcome [keeps_rules]: "grown a b \<Longrightarrow> keeps a (observe_outcome e b)"
  unfolding observe_outcome_def Let_def by (auto intro!: keeps_rules split: option.split)

lemma keeps_reject [keeps_rules]: "grown a b \<Longrightarrow> keeps a (observe_reject e b)"
  unfolding observe_reject_def Let_def by (auto intro!: keeps_rules)

lemma keeps_boundary [keeps_rules]: "grown a b \<Longrightarrow> keeps a (observe_boundary e b)"
  unfolding observe_boundary_def Let_def by (auto intro!: keeps_rules)

lemma keeps_ack [keeps_rules]: "grown a b \<Longrightarrow> keeps a (observe_ack_event e b)"
  unfolding observe_ack_event_def by (auto intro!: keeps_rules)

lemma keeps_kind [keeps_rules]: "grown a b \<Longrightarrow> keeps a (observe_kind e b)"
  unfolding observe_kind_def observe_ingress_def observe_cancel_def observe_stall_def Let_def
  by (auto intro!: keeps_rules)

lemma keeps_close_quiet [keeps_rules]: "grown a b \<Longrightarrow> keeps a (close_quiet_incident e b)"
  unfolding close_quiet_incident_def
  by (auto intro!: keeps_rules dest: grown_index_less(1) split: option.split)

lemma keeps_retain_recovery:
  "grown a b \<Longrightarrow> index_ok target (length (incidents b)) \<Longrightarrow> keeps a (retain_recovery target e b)"
  unfolding retain_recovery_def by (auto simp: index_ok_def intro!: keeps_rules split: option.split)

lemma keeps_observe:
  assumes inv: "an_inv a"
  shows "keeps a (observe e a)"
proof -
  define target where "target = (case recovering a of Some i \<Rightarrow> Some i | None \<Rightarrow> awaiting_snapshot a)"
  have t: "index_ok target (length (incidents b))" if "grown a b" for b
    using that inv by (auto simp: target_def grown_def an_inv_def index_ok_def split: option.splits)
  have h: "grown a (b\<lparr>history := push_history e (history b)\<rparr>)" if "grown a b" for b
    using that by (auto simp: grown_def an_inv_def push_history_def)
  show ?thesis
    unfolding observe_def target_def [symmetric] Let_def
    by (auto intro!: keeps_rules keeps_retain_recovery t h simp: grown_refl inv)
qed

section \<open>Every run of the worker\<close>

text \<open>The worker's loop observes the events in the order they come.\<close>

fun observe_all :: "event list \<Rightarrow> analysis_step" where
  "observe_all [] a = Done a"
| "observe_all (e # es) a = and_then (observe e a) (observe_all es)"

lemma an_inv_new [simp]: "an_inv (analysis_new b)"
  by (simp add: an_inv_def analysis_new_def)

lemma keeps_observe_all: "an_inv a \<Longrightarrow> keeps a (observe_all es a)"
proof (induction es arbitrary: a)
  case (Cons e es)
  show ?case
    by (simp add: completes_then)
      (rule completes_mono [OF keeps_observe [OF Cons.prems]],
       blast intro: keeps_mono Cons.IH [OF grown_inv])
qed (simp add: grown_refl)

text \<open>Which slots are still pending: only discarding and the outcome of a frame touch them.\<close>

lemma pending_kept:
  "an_count k n a = Done b \<Longrightarrow> an_pending b = an_pending a"
  "anomaly e c a = Done b \<Longrightarrow> an_pending b = an_pending a"
  "anomaly_if x e c a = Done b \<Longrightarrow> an_pending b = an_pending a"
  "retain e a = Done b \<Longrightarrow> an_pending b = an_pending a"
  by (auto simp: an_count_def anomaly_if_def anomaly_def retain_def update_incident_def Let_def and_then_Done
      split: if_splits option.splits)

lemma discard_from_clears:
  "discard_from e is a = Done b \<Longrightarrow> length (an_pending b) = length (an_pending a) \<and>
   (\<forall>i < length (an_pending a). i \<in> set is \<or> an_pending a ! i = None \<longrightarrow> an_pending b ! i = None)"
proof (induction "is" arbitrary: a)
  case (Cons i "is")
  then have i: "i < length (an_pending a)" by (auto split: if_splits)
  show ?case
  proof (cases "an_pending a ! i")
    case None
    then show ?thesis using Cons i by (auto split: if_splits)
  next
    case (Some f)
    with Cons.prems i obtain a2 where
      p: "an_pending a2 = (an_pending a)[i := None]" and d: "discard_from e is a2 = Done b"
      by (fastforce simp: Let_def and_then_Done dest: pending_kept split: if_splits)
    from Cons.IH [OF d] p i show ?thesis by (auto simp: nth_list_update)
  qed
qed auto

lemma finish_clears:
  "analysis_finish dropped a = Done b \<Longrightarrow> list_all (\<lambda>p. p = None) (an_pending b)"
  unfolding analysis_finish_def Let_def discard_pending_def
  by (auto simp: and_then_Done list_all_length dest!: pending_kept discard_from_clears)

lemma keeps_finish: "an_inv a \<Longrightarrow> keeps a (analysis_finish dropped a)"
  unfolding analysis_finish_def Let_def by (auto intro!: keeps_rules simp: grown_refl)

text \<open>
  C23: The diagnostic worker never panics, whatever sequence of events the receiver publishes: no
  index of the pending ring, the incidents or a histogram is ever out of range. When it finishes no
  frame is left pending, and its memory is bounded for ever: at most 256 incidents, each with at
  most 512 events of evidence and 512 frame keys, at most 128 events of context, and 2049 bins per
  latency series.
\<close>

theorem diagnostics_total_and_bounded:
  "\<exists>a. and_then (observe_all es (analysis_new budget)) (analysis_finish dropped) = Done a \<and>
     list_all (\<lambda>p. p = None) (an_pending a) \<and>
     length (incidents a) \<le> 256 \<and>
     list_all (\<lambda>inc. length (evidence inc) \<le> 512 \<and> finite (affected_frame_keys inc) \<and>
                     card (affected_frame_keys inc) \<le> 512) (incidents a) \<and>
     length (history a) \<le> 128 \<and>
     (\<forall>key. length (sr_bins (series_entry key a)) = 2049)"
proof -
  have "keeps (analysis_new budget) (observe_all es (analysis_new budget))"
    by (rule keeps_observe_all) simp
  then obtain a where a: "observe_all es (analysis_new budget) = Done a" "an_inv a"
    by (auto simp: completes_def grown_def)
  obtain b where b: "analysis_finish dropped a = Done b" "an_inv b"
    using keeps_finish [OF a(2)] by (auto simp: completes_def grown_def)
  have "length (sr_bins (series_entry key b)) = 2049" for key
    using b(2) by (auto simp: an_inv_def series_entry_def series_default_def split: option.split)
  with a b finish_clears [OF b(1)] show ?thesis
    by (auto simp: an_inv_def incident_ok_def [abs_def])
qed

end
