(* ===== verification/Host_World.thy ===== *)
theory Host_World
  imports Host_Prelude
begin

text \<open>
  The effectful code of the host in one monad. A computation takes the state of the process and
  either does not return (\<open>None\<close>: a loop that runs for ever) or returns its outcome with the state
  it leaves, also when it fails: a Rust \<open>Err\<close> does not undo what was done before it. The world
  (clock, stop flag, sockets) is a parameter: a record of operations on an opaque state.
\<close>

section \<open>The monad\<close>

type_synonym ('st, 'e, 'a) io = "'st \<Rightarrow> (('e, 'a) outcome \<times> 'st) option"

definition io_return :: "'a \<Rightarrow> ('st, 'e, 'a) io" where
  "io_return x st = Some (Done x, st)"

definition io_fail :: "'e \<Rightarrow> ('st, 'e, 'a) io" where
  "io_fail e st = Some (Fail e, st)"

definition io_lift :: "('e, 'a) outcome \<Rightarrow> ('st, 'e, 'a) io" where
  "io_lift r st = Some (r, st)"

definition io_gets :: "('st \<Rightarrow> 'a) \<Rightarrow> ('st, 'e, 'a) io" where
  "io_gets f st = Some (Done (f st), st)"

definition io_update :: "('st \<Rightarrow> 'st) \<Rightarrow> ('st, 'e, unit) io" where
  "io_update f st = Some (Done (), f st)"

text \<open>A step that reads and changes the state and may fail or panic.\<close>

definition io_run :: "('st \<Rightarrow> ('e, 'a) outcome \<times> 'st) \<Rightarrow> ('st, 'e, 'a) io" where
  "io_run f st = Some (f st)"

definition io_bind :: "('st, 'e, 'a) io \<Rightarrow> ('a \<Rightarrow> ('st, 'e, 'b) io) \<Rightarrow> ('st, 'e, 'b) io" where
  "io_bind m f st =
    (case m st of
       None \<Rightarrow> None
     | Some (r, st') \<Rightarrow>
         (case r of Done x \<Rightarrow> f x st' | Fail e \<Rightarrow> Some (Fail e, st') | Panic \<Rightarrow> Some (Panic, st')))"

definition io_seq :: "('st, 'e, unit) io \<Rightarrow> ('st, 'e, 'b) io \<Rightarrow> ('st, 'e, 'b) io" where
  "io_seq m k = io_bind m (\<lambda>_. k)"

text \<open>The result of a call whose error the caller looks at, and \<open>?\<close> with a conversion of the error.\<close>

definition io_attempt :: "('st, 'e, 'a) io \<Rightarrow> ('st, 'f, 'e + 'a) io" where
  "io_attempt m st =
    (case m st of
       None \<Rightarrow> None
     | Some (r, st') \<Rightarrow>
         Some ((case r of Done x \<Rightarrow> Done (Inr x) | Fail e \<Rightarrow> Done (Inl e) | Panic \<Rightarrow> Panic), st'))"

definition io_convert :: "('e \<Rightarrow> 'f) \<Rightarrow> ('st, 'e, 'a) io \<Rightarrow> ('st, 'f, 'a) io" where
  "io_convert g m = io_bind (io_attempt m) (\<lambda>r. case r of Inl e \<Rightarrow> io_fail (g e) | Inr x \<Rightarrow> io_return x)"

definition io_when :: "bool \<Rightarrow> ('st, 'e, unit) io \<Rightarrow> ('st, 'e, unit) io" where
  "io_when b m = (if b then m else io_return ())"

lemma io_bind_laws:
  "io_bind (io_return x) f = f x" "io_bind (io_bind m g) f = io_bind m (\<lambda>x. io_bind (g x) f)"
  by (auto simp: io_bind_def io_return_def fun_eq_iff split: option.split outcome.split)

lemma io_lift_Done: "io_lift (Done x) = io_return x"
  by (simp add: io_lift_def io_return_def fun_eq_iff)

section \<open>What a computation ends in\<close>

text \<open>
  \<open>io_ends\<close> is total: the computation returns, and its outcome and state satisfy the condition.
  \<open>io_safe\<close> is partial: if it returns, they do.
\<close>

definition io_ends :: "('st, 'e, 'a) io \<Rightarrow> 'st \<Rightarrow> (('e, 'a) outcome \<Rightarrow> 'st \<Rightarrow> bool) \<Rightarrow> bool" where
  "io_ends m st Q \<longleftrightarrow> (\<exists>r st'. m st = Some (r, st') \<and> Q r st')"

definition io_safe :: "('st, 'e, 'a) io \<Rightarrow> 'st \<Rightarrow> (('e, 'a) outcome \<Rightarrow> 'st \<Rightarrow> bool) \<Rightarrow> bool" where
  "io_safe m st Q \<longleftrightarrow> (\<forall>r st'. m st = Some (r, st') \<longrightarrow> Q r st')"

text \<open>The condition after a bind: what a failure already satisfies, and what the rest must end in.\<close>

fun then_ends ::
  "('a \<Rightarrow> ('st, 'e, 'b) io) \<Rightarrow> (('e, 'b) outcome \<Rightarrow> 'st \<Rightarrow> bool) \<Rightarrow> ('e, 'a) outcome \<Rightarrow> 'st \<Rightarrow> bool" where
  "then_ends f Q (Done x) st = io_ends (f x) st Q"
| "then_ends f Q (Fail e) st = Q (Fail e) st"
| "then_ends f Q Panic st = Q Panic st"

fun then_safe ::
  "('a \<Rightarrow> ('st, 'e, 'b) io) \<Rightarrow> (('e, 'b) outcome \<Rightarrow> 'st \<Rightarrow> bool) \<Rightarrow> ('e, 'a) outcome \<Rightarrow> 'st \<Rightarrow> bool" where
  "then_safe f Q (Done x) st = io_safe (f x) st Q"
| "then_safe f Q (Fail e) st = Q (Fail e) st"
| "then_safe f Q Panic st = Q Panic st"

fun attempt_of :: "(('f, 'e + 'a) outcome \<Rightarrow> 'st \<Rightarrow> bool) \<Rightarrow> ('e, 'a) outcome \<Rightarrow> 'st \<Rightarrow> bool" where
  "attempt_of Q (Done x) st = Q (Done (Inr x)) st"
| "attempt_of Q (Fail e) st = Q (Done (Inl e)) st"
| "attempt_of Q Panic st = Q Panic st"

lemma io_ends_return [simp]: "io_ends (io_return x) st Q = Q (Done x) st"
  by (simp add: io_ends_def io_return_def)

lemma io_ends_fail [simp]: "io_ends (io_fail e) st Q = Q (Fail e) st"
  by (simp add: io_ends_def io_fail_def)

lemma io_ends_lift [simp]: "io_ends (io_lift r) st Q = Q r st"
  by (simp add: io_ends_def io_lift_def)

lemma io_ends_gets [simp]: "io_ends (io_gets g) st Q = Q (Done (g st)) st"
  by (simp add: io_ends_def io_gets_def)

lemma io_ends_update [simp]: "io_ends (io_update h) st Q = Q (Done ()) (h st)"
  by (simp add: io_ends_def io_update_def)

lemma io_ends_run [simp]: "io_ends (io_run f) st Q = Q (fst (f st)) (snd (f st))"
  by (cases "f st") (simp add: io_ends_def io_run_def)

lemma io_safe_return [simp]: "io_safe (io_return x) st Q = Q (Done x) st"
  by (simp add: io_safe_def io_return_def)

lemma io_safe_fail [simp]: "io_safe (io_fail e) st Q = Q (Fail e) st"
  by (simp add: io_safe_def io_fail_def)

lemma io_safe_lift [simp]: "io_safe (io_lift r) st Q = Q r st"
  by (simp add: io_safe_def io_lift_def)

lemma io_safe_gets [simp]: "io_safe (io_gets g) st Q = Q (Done (g st)) st"
  by (simp add: io_safe_def io_gets_def)

lemma io_safe_update [simp]: "io_safe (io_update h) st Q = Q (Done ()) (h st)"
  by (simp add: io_safe_def io_update_def)

lemma io_safe_run [simp]: "io_safe (io_run f) st Q = Q (fst (f st)) (snd (f st))"
  by (cases "f st") (simp add: io_safe_def io_run_def)

lemma io_ends_bind [simp]: "io_ends (io_bind m f) st Q = io_ends m st (then_ends f Q)"
proof (cases "m st")
  case (Some p)
  then show ?thesis
    by (cases p; cases "fst p") (simp_all add: io_ends_def io_bind_def)
qed (simp add: io_ends_def io_bind_def)

lemma io_safe_bind [simp]: "io_safe (io_bind m f) st Q = io_safe m st (then_safe f Q)"
proof (cases "m st")
  case (Some p)
  then show ?thesis
    by (cases p; cases "fst p") (simp_all add: io_safe_def io_bind_def)
qed (simp add: io_safe_def io_bind_def)

lemma io_ends_attempt [simp]: "io_ends (io_attempt m) st Q = io_ends m st (attempt_of Q)"
proof (cases "m st")
  case (Some p)
  then show ?thesis
    by (cases p; cases "fst p") (simp_all add: io_ends_def io_attempt_def)
qed (simp add: io_ends_def io_attempt_def)

lemma io_safe_attempt [simp]: "io_safe (io_attempt m) st Q = io_safe m st (attempt_of Q)"
proof (cases "m st")
  case (Some p)
  then show ?thesis
    by (cases p; cases "fst p") (simp_all add: io_safe_def io_attempt_def)
qed (simp add: io_safe_def io_attempt_def)

lemma io_seq_rules [simp]:
  "io_ends (io_seq m k) st Q = io_ends m st (then_ends (\<lambda>_. k) Q)"
  "io_safe (io_seq m k) st Q = io_safe m st (then_safe (\<lambda>_. k) Q)"
  by (simp_all add: io_seq_def)

lemma io_when_rules [simp]:
  "io_ends (io_when b m) st Q = (if b then io_ends m st Q else Q (Done ()) st)"
  "io_safe (io_when b m) st Q = (if b then io_safe m st Q else Q (Done ()) st)"
  by (simp_all add: io_when_def)

fun converted :: "('e \<Rightarrow> 'f) \<Rightarrow> ('e, 'a) outcome \<Rightarrow> ('f, 'a) outcome" where
  "converted g (Done x) = Done x"
| "converted g (Fail e) = Fail (g e)"
| "converted g Panic = Panic"

lemma io_convert_rules [simp]:
  "io_ends (io_convert g m) st Q = io_ends m st (\<lambda>r. Q (converted g r))"
  "io_safe (io_convert g m) st Q = io_safe m st (\<lambda>r. Q (converted g r))"
proof -
  let ?k = "\<lambda>r. case r of Inl e \<Rightarrow> io_fail (g e) | Inr x \<Rightarrow> io_return x"
  have "attempt_of (then_ends ?k Q) = (\<lambda>r. Q (converted g r))"
  proof (intro ext)
    show "attempt_of (then_ends ?k Q) r st = Q (converted g r) st" for r st by (cases r) simp_all
  qed
  then show "io_ends (io_convert g m) st Q = io_ends m st (\<lambda>r. Q (converted g r))"
    by (simp only: io_convert_def io_ends_bind io_ends_attempt)
  have "attempt_of (then_safe ?k Q) = (\<lambda>r. Q (converted g r))"
  proof (intro ext)
    show "attempt_of (then_safe ?k Q) r st = Q (converted g r) st" for r st by (cases r) simp_all
  qed
  then show "io_safe (io_convert g m) st Q = io_safe m st (\<lambda>r. Q (converted g r))"
    by (simp only: io_convert_def io_safe_bind io_safe_attempt)
qed

lemma io_ends_mono: "io_ends m st Q \<Longrightarrow> (\<And>r st'. Q r st' \<Longrightarrow> R r st') \<Longrightarrow> io_ends m st R"
  by (auto simp: io_ends_def)

lemma io_safe_mono: "io_safe m st Q \<Longrightarrow> (\<And>r st'. Q r st' \<Longrightarrow> R r st') \<Longrightarrow> io_safe m st R"
  by (auto simp: io_safe_def)

lemma io_ends_safe: "io_ends m st Q \<Longrightarrow> io_safe m st Q"
  by (auto simp: io_ends_def io_safe_def)

lemma io_safe_conj: "io_safe m st Q \<Longrightarrow> io_safe m st R \<Longrightarrow> io_safe m st (\<lambda>r st'. Q r st' \<and> R r st')"
  by (auto simp: io_safe_def)

lemma io_ends_conj: "io_ends m st Q \<Longrightarrow> io_safe m st R \<Longrightarrow> io_ends m st (\<lambda>r st'. Q r st' \<and> R r st')"
  by (auto simp: io_ends_def io_safe_def)

section \<open>Loops\<close>

text \<open>
  \<open>loop\<close> and \<open>while\<close>: the body continues with new loop variables or breaks with a value; a return
  from the function inside the loop is a break with that return. The loop is the least fixed point,
  so a run without end is \<open>None\<close>.
\<close>

datatype ('a, 'b) flow = Continue 'a | Break 'b

partial_function (option) io_loop ::
  "('a \<Rightarrow> ('st, 'e, ('a, 'b) flow) io) \<Rightarrow> 'a \<Rightarrow> ('st, 'e, 'b) io" where
  "io_loop body x st =
    (case body x st of
       None \<Rightarrow> None
     | Some (r, st') \<Rightarrow>
         (case r of
            Done fl \<Rightarrow> (case fl of Continue y \<Rightarrow> io_loop body y st' | Break z \<Rightarrow> Some (Done z, st'))
          | Fail e \<Rightarrow> Some (Fail e, st')
          | Panic \<Rightarrow> Some (Panic, st')))"

declare io_loop.simps [code]

text \<open>The condition after an iteration: the invariant to go on, the final condition to leave.\<close>

fun iterated ::
  "('a \<Rightarrow> 'st \<Rightarrow> bool) \<Rightarrow> (('e, 'b) outcome \<Rightarrow> 'st \<Rightarrow> bool) \<Rightarrow> ('e, ('a, 'b) flow) outcome \<Rightarrow> 'st \<Rightarrow> bool" where
  "iterated I Q (Done (Continue y)) st = I y st"
| "iterated I Q (Done (Break z)) st = Q (Done z) st"
| "iterated I Q (Fail e) st = Q (Fail e) st"
| "iterated I Q Panic st = Q Panic st"

lemma iterated_mono:
  assumes "iterated I Q r st" and "\<And>y. I y st \<Longrightarrow> J y st"
  shows "iterated J Q r st"
proof (cases r)
  case (Done fl)
  with assms show ?thesis by (cases fl) simp_all
qed (use assms in simp_all)

lemma io_loop_safe_raw:
  assumes "io_loop body x st = Some y"
  shows "(\<forall>x st. I x st \<longrightarrow> io_safe (body x) st (iterated I Q)) \<longrightarrow> I x st \<longrightarrow> Q (fst y) (snd y)"
proof (rule io_loop.raw_induct [of "\<lambda>body x st y.
    (\<forall>x st. I x st \<longrightarrow> io_safe (body x) st (iterated I Q)) \<longrightarrow> I x st \<longrightarrow> Q (fst y) (snd y)"
    "((body, x), st)" y, unfolded split_conv, OF _ assms])
  fix loop body x st y
  assume loop: "\<And>x st b y. loop x st b = Some y \<Longrightarrow>
      (\<forall>a s. I a s \<longrightarrow> io_safe (x a) s (iterated I Q)) \<longrightarrow> I st b \<longrightarrow> Q (fst y) (snd y)"
    and run: "(case body x st of None \<Rightarrow> None
       | Some (Done (Continue z), st') \<Rightarrow> loop body z st' | Some (Done (Break z), st') \<Rightarrow> Some (Done z, st')
       | Some (Fail e, st') \<Rightarrow> Some (Fail e, st') | Some (Panic, st') \<Rightarrow> Some (Panic, st')) = Some y"
  show "(\<forall>x st. I x st \<longrightarrow> io_safe (body x) st (iterated I Q)) \<longrightarrow> I x st \<longrightarrow> Q (fst y) (snd y)"
  proof (intro impI)
    assume body: "\<forall>x st. I x st \<longrightarrow> io_safe (body x) st (iterated I Q)" and "I x st"
    then have "io_safe (body x) st (iterated I Q)" by blast
    with run loop body show "Q (fst y) (snd y)"
      by (auto simp: io_safe_def split: option.splits outcome.splits flow.splits)
  qed
qed

lemma io_loop_safe:
  assumes "I x st" and "\<And>x st. I x st \<Longrightarrow> io_safe (body x) st (iterated I Q)"
  shows "io_safe (io_loop body x) st Q"
  using assms io_loop_safe_raw [of body x st _ I Q] by (fastforce simp: io_safe_def)

text \<open>A loop ends when a measure falls with every iteration that goes on.\<close>

lemma io_loop_ends:
  fixes \<mu> :: "'a \<Rightarrow> 'st \<Rightarrow> nat"
  assumes "I x st"
    and "\<And>x st. I x st \<Longrightarrow> io_ends (body x) st (iterated (\<lambda>y st'. I y st' \<and> \<mu> y st' < \<mu> x st) Q)"
  shows "io_ends (io_loop body x) st Q"
  using assms(1)
proof (induction "\<mu> x st" arbitrary: x st rule: less_induct)
  case less
  obtain r st' where r: "body x st = Some (r, st')" and it: "iterated (\<lambda>y st'. I y st' \<and> \<mu> y st' < \<mu> x st) Q r st'"
    using assms(2) [OF less.prems] by (auto simp: io_ends_def)
  show ?case
  proof (cases r)
    case (Done fl)
    show ?thesis
    proof (cases fl)
      case (Continue y)
      with it Done have "io_ends (io_loop body y) st' Q" by (auto intro: less.hyps)
      with r Done Continue show ?thesis by (simp add: io_ends_def io_loop.simps [of body x])
    qed (use r it Done in \<open>simp add: io_ends_def io_loop.simps [of body x]\<close>)
  qed (use r it in \<open>simp_all add: io_ends_def io_loop.simps [of body x]\<close>)
qed

text \<open>
  The loop variables and states that the iterations of a loop reach, whether it ends or not.
\<close>

inductive io_reaches ::
  "('a \<Rightarrow> ('st, 'e, ('a, 'b) flow) io) \<Rightarrow> 'a \<Rightarrow> 'st \<Rightarrow> 'a \<Rightarrow> 'st \<Rightarrow> bool"
  for body :: "'a \<Rightarrow> ('st, 'e, ('a, 'b) flow) io" and x :: 'a and st :: 'st where
  start: "io_reaches body x st x st"
| iterate: "io_reaches body x st y st1 \<Longrightarrow> body y st1 = Some (Done (Continue z), st2) \<Longrightarrow>
    io_reaches body x st z st2"

lemma io_reaches_inv:
  assumes "io_reaches body x st y st'" and "I x st"
    and "\<And>x st. I x st \<Longrightarrow> io_safe (body x) st (iterated I Q)"
  shows "I y st'"
  using assms(1)
proof (induction rule: io_reaches.induct)
  case (iterate y st1 z st2)
  then show ?case using assms(3) [of y st1] by (auto simp: io_safe_def)
qed (rule assms(2))

section \<open>The world\<close>

text \<open>
  What the host calls outside itself and reads back: the monotonic clock, the stop flag, the
  scheduler, and the queue to the diagnostic worker (whether it had room).
\<close>

record 'w env =
  ev_now :: "'w \<Rightarrow> instant \<times> 'w"
  ev_stopping :: "'w \<Rightarrow> bool \<times> 'w"
  ev_yield :: "'w \<Rightarrow> unit \<times> 'w"
  ev_publish :: "u64 list \<Rightarrow> 'w \<Rightarrow> bool \<times> 'w"

record 'w machine =
  world :: 'w

definition io_world :: "('w \<Rightarrow> 'a \<times> 'w) \<Rightarrow> (('w, 'z) machine_scheme, 'e, 'a) io" where
  "io_world f st = (case f (world st) of (x, w) \<Rightarrow> Some (Done x, st\<lparr>world := w\<rparr>))"

lemma io_world_rules [simp]:
  "io_ends (io_world f) st Q = Q (Done (fst (f (world st)))) (st\<lparr>world := snd (f (world st))\<rparr>)"
  by (simp add: io_ends_def io_world_def split: prod.split)

lemma io_world_safe [simp]:
  "io_safe (io_world f) st Q = Q (Done (fst (f (world st)))) (st\<lparr>world := snd (f (world st))\<rparr>)"
  by (simp add: io_safe_def io_world_def split: prod.split)

abbreviation io_now :: "('w, 'x) env_scheme \<Rightarrow> (('w, 'z) machine_scheme, 'e, instant) io" where
  "io_now E \<equiv> io_world (ev_now E)"

abbreviation io_stopping :: "('w, 'x) env_scheme \<Rightarrow> (('w, 'z) machine_scheme, 'e, bool) io" where
  "io_stopping E \<equiv> io_world (ev_stopping E)"

abbreviation io_yield :: "('w, 'x) env_scheme \<Rightarrow> (('w, 'z) machine_scheme, 'e, unit) io" where
  "io_yield E \<equiv> io_world (ev_yield E)"

text \<open>\<open>started.elapsed()\<close>.\<close>

definition io_elapsed :: "('w, 'x) env_scheme \<Rightarrow> instant \<Rightarrow> (('w, 'z) machine_scheme, 'e, duration) io" where
  "io_elapsed E started = io_bind (io_now E) (\<lambda>t. io_return (t - started))"

text \<open>
  What the termination of the retry loops rests on: the world has a time that no operation turns
  back, a reading of the clock is never behind it, and it passes while the thread yields.
\<close>

definition clock_runs :: "('w, 'x) env_scheme \<Rightarrow> ('w \<Rightarrow> instant) \<Rightarrow> bool" where
  "clock_runs E time \<longleftrightarrow> (\<forall>w.
     time w \<le> fst (ev_now E w) \<and> time w \<le> time (snd (ev_now E w)) \<and>
     time w \<le> time (snd (ev_stopping E w)) \<and> time w < time (snd (ev_yield E w)) \<and>
     (\<forall>e. time w \<le> time (snd (ev_publish E e w))))"

lemma clock_runsD:
  assumes "clock_runs E time"
  shows "time w \<le> fst (ev_now E w)" "time w \<le> time (snd (ev_now E w))"
    "time w \<le> time (snd (ev_stopping E w))" "time w < time (snd (ev_yield E w))"
    "time w \<le> time (snd (ev_publish E e w))"
  using assms by (simp_all add: clock_runs_def)

end
