(* ===== verification/Host_Metrics.thy ===== *)
theory Host_Metrics
  imports Host_World Diagnostics
begin

text \<open>
  The recorder on the input thread (\<open>HostMetrics\<close> in \<open>native-host/src/metrics.rs\<close>): it builds the
  diagnostic events and publishes them to the worker's queue, counting those that found no room.
  Shown: recording never fails and changes nothing of the state but the recorder itself, so the
  input path behaves the same with and without diagnostics.
\<close>

section \<open>State\<close>

record recorder =
  rec_dropped :: u64
  rec_drop_span :: "(u64 \<times> u64) option"

record host_metrics =
  hm_started :: instant
  protocol_version :: u8
  hm_recorder :: "recorder option"
  hm_completed :: "analysis option"
  hm_transport :: string
  hm_environment :: string
  parser_counters :: "u64 \<times> u64 \<times> u64"

record 'w metered = "'w machine" +
  metrics :: host_metrics

text \<open>\<open>HostMetrics::new\<close>, once its worker has started.\<close>

definition metrics_new :: "bool \<Rightarrow> u8 \<Rightarrow> instant \<Rightarrow> host_metrics" where
  "metrics_new on version now =
     \<lparr>hm_started = now, protocol_version = version,
      hm_recorder = (if on then Some \<lparr>rec_dropped = 0, rec_drop_span = None\<rparr> else None),
      hm_completed = None, hm_transport = [], hm_environment = [], parser_counters = (0, 0, 0)\<rparr>"

definition metrics_enabled :: "host_metrics \<Rightarrow> bool" where
  "metrics_enabled m \<longleftrightarrow> hm_recorder m \<noteq> None \<or> hm_completed m \<noteq> None"

definition clock_nanos :: "host_metrics \<Rightarrow> instant \<Rightarrow> u64" where
  "clock_nanos m now = of_nat (min (now - hm_started m) (2 ^ 64 - 1))"

definition configure :: "string \<Rightarrow> string \<Rightarrow> host_metrics \<Rightarrow> host_metrics" where
  "configure transport environment m =
     (if metrics_enabled m then m\<lparr>hm_transport := transport, hm_environment := environment\<rparr> else m)"

definition set_parser_counters :: "u64 \<Rightarrow> u64 \<Rightarrow> u64 \<Rightarrow> host_metrics \<Rightarrow> host_metrics" where
  "set_parser_counters invalid discarded connection_discarded m =
     m\<lparr>parser_counters := (invalid, discarded, connection_discarded)\<rparr>"

section \<open>Recording\<close>

definition note_dropped :: "event \<Rightarrow> recorder \<Rightarrow> recorder" where
  "note_dropped e r = r\<lparr>rec_dropped := rec_dropped r + 1,
     rec_drop_span := Some (case rec_drop_span r of None \<Rightarrow> (e ! 1, e ! 1) | Some (a, b) \<Rightarrow> (a, e ! 1))\<rparr>"

definition metrics_record ::
  "('w, 'x) env_scheme \<Rightarrow> event \<Rightarrow> (('w, 'z) metered_scheme, 'e, unit) io" where
  "metrics_record E e =
     io_bind (io_gets (\<lambda>st. hm_recorder (metrics st))) (\<lambda>r.
       case r of
         None \<Rightarrow> io_return ()
       | Some r \<Rightarrow>
           io_bind (io_world (ev_publish E e)) (\<lambda>taken.
             io_when (\<not> taken)
               (io_update (\<lambda>st. st\<lparr>metrics := (metrics st)\<lparr>hm_recorder := Some (note_dropped e r)\<rparr>\<rparr>))))"

definition metrics_note ::
  "('w, 'x) env_scheme \<Rightarrow> u64 \<Rightarrow> u64 \<Rightarrow> u64 \<Rightarrow> u64 \<Rightarrow> u64 \<Rightarrow> (('w, 'z) metered_scheme, 'e, unit) io" where
  "metrics_note E kind session sq x y =
     io_bind (io_gets metrics) (\<lambda>m.
       io_when (hm_recorder m \<noteq> None)
         (io_bind (io_now E) (\<lambda>t. metrics_record E (event_new kind (clock_nanos m t) session sq [x, y]))))"

definition note_begin :: "('w, 'x) env_scheme \<Rightarrow> (('w, 'z) metered_scheme, 'e, unit) io" where
  "note_begin E = metrics_note E BEGIN 0 0 0 0"

definition frame_flags_of :: "touch_frame \<Rightarrow> u64" where
  "frame_flags_of f = (if action f = ACTION_HEARTBEAT then 4 else if session_start f then 8 else 1) OR
     (if historical f then 2 else 0)"

definition receive_event :: "host_metrics \<Rightarrow> touch_frame \<Rightarrow> instant \<Rightarrow> bool \<Rightarrow> event option" where
  "receive_event m f arrival duplicate =
    (case hm_recorder m of
       None \<Rightarrow> None
     | Some _ \<Rightarrow> Some (event_new (if duplicate then DUPLICATE else RECEIVE) (clock_nanos m arrival)
         (session_id f) (sequence f)
         [phone_event_nanos f, phone_callback_nanos f, phone_send_nanos f, echo_host_send_nanos f,
          phone_control_receive_nanos f, frame_flags_of f, ucast (action f), of_nat (length (contacts f))]))"

definition observe_gap ::
  "('w, 'x) env_scheme \<Rightarrow> u64 \<Rightarrow> u64 \<Rightarrow> u64 \<Rightarrow> (('w, 'z) metered_scheme, 'e, unit) io" where
  "observe_gap E session expected received =
     metrics_note E GAP session received expected (saturating_sub64 received expected)"

text \<open>The error is its raw OS code, sign-extended.\<close>

definition observe_sink ::
  "('w, 'x) env_scheme \<Rightarrow> touch_frame \<Rightarrow> instant \<Rightarrow> instant \<Rightarrow> u64 \<Rightarrow> int option \<Rightarrow>
   (('w, 'z) metered_scheme, 'e, unit) io" where
  "observe_sink E f ready finish retries err =
     io_bind (io_gets metrics) (\<lambda>m.
       io_when (hm_recorder m \<noteq> None)
         (metrics_record E (event_new (if err \<noteq> None then SINK_FAILURE else ACCEPT) (clock_nanos m finish)
            (session_id f) (sequence f)
            [clock_nanos m ready, retries, word_of_int (case err of None \<Rightarrow> 0 | Some c \<Rightarrow> c)])))"

definition observe_ack ::
  "('w, 'x) env_scheme \<Rightarrow> u64 \<Rightarrow> u64 option \<Rightarrow> instant \<Rightarrow> bool \<Rightarrow> bool \<Rightarrow>
   (('w, 'z) metered_scheme, 'e, unit) io" where
  "observe_ack E session sq start progressed failed =
     io_bind (io_gets metrics) (\<lambda>m.
       io_when (hm_recorder m \<noteq> None)
         (io_bind (io_now E) (\<lambda>finish.
            metrics_record E (event_new ACK (clock_nanos m finish) session
              (case sq of None \<Rightarrow> - 1 | Some s \<Rightarrow> s)
              [of_nat (finish - start), of_bool progressed, of_bool failed, clock_nanos m start]))))"

definition observe_ack_write ::
  "('w, 'x) env_scheme \<Rightarrow> duration \<Rightarrow> (('w, 'z) metered_scheme, 'e, unit) io" where
  "observe_ack_write E elapsed = metrics_note E ACK 0 (- 1) (of_nat elapsed) 0"

text \<open>
  \<open>finish\<close>, given what joining the worker returned (nothing when the worker panicked). The recorder
  is taken first, so a failure also ends the recording.
\<close>

definition metrics_finish :: "analysis option \<Rightarrow> host_metrics \<Rightarrow> host_metrics \<times> (io_error, unit) outcome" where
  "metrics_finish joined m =
    (case hm_recorder m of
       None \<Rightarrow> (m, Done ())
     | Some r \<Rightarrow>
         let m' = m\<lparr>hm_recorder := None\<rparr> in
         (case joined of
            None \<Rightarrow> (m', Fail (io_err OtherKind))
          | Some a \<Rightarrow>
              (case analysis_finish (rec_dropped r) a of
                 Done a' \<Rightarrow>
                   (m'\<lparr>hm_completed := Some (a'\<lparr>diagnostic_drop_span_ns := rec_drop_span r\<rparr>)\<rparr>, Done ())
               | _ \<Rightarrow> (m', Panic))))"

section \<open>Recording leaves everything else alone\<close>

definition only_metered :: "('w \<Rightarrow> instant) \<Rightarrow> ('w, 'z) metered_scheme \<Rightarrow> ('w, 'z) metered_scheme \<Rightarrow> bool" where
  "only_metered time st st' \<longleftrightarrow>
     st\<lparr>world := world st', metrics := metrics st'\<rparr> = st' \<and> time (world st) \<le> time (world st')"

text \<open>A recording completes, whatever the queue says.\<close>

abbreviation records :: "('w \<Rightarrow> instant) \<Rightarrow> (('w, 'z) metered_scheme, 'e, unit) io \<Rightarrow> ('w, 'z) metered_scheme \<Rightarrow> bool" where
  "records time m st \<equiv> io_ends m st (\<lambda>r st'. r = Done () \<and> only_metered time st st')"

lemma only_metered_refl [simp]: "only_metered time st st"
  by (simp add: only_metered_def)

lemma only_metered_trans:
  assumes "only_metered time st st1" and "only_metered time st1 st2"
  shows "only_metered time st st2"
proof -
  obtain w m where st1: "st1 = st\<lparr>world := w, metrics := m\<rparr>"
    using assms(1) unfolding only_metered_def by metis
  show ?thesis using assms by (simp add: only_metered_def st1)
qed

lemma only_metered_world: "time (world st) \<le> time w \<Longrightarrow> only_metered time st (st\<lparr>world := w\<rparr>)"
  by (simp add: only_metered_def)

lemma only_metered_metrics: "only_metered time st (st\<lparr>metrics := m\<rparr>)"
  by (simp add: only_metered_def)

lemma records_mono: "records time m st \<Longrightarrow> (\<And>st'. only_metered time st st' \<Longrightarrow> Q (Done ()) st') \<Longrightarrow> io_ends m st Q"
  by (auto elim: io_ends_mono)

lemma records_record: "clock_runs E time \<Longrightarrow> records time (metrics_record E e) st"
  by (auto simp: metrics_record_def only_metered_def clock_runsD split: option.split)

lemma records_after_now:
  assumes "clock_runs E time" and "records time m (st\<lparr>world := snd (ev_now E (world st))\<rparr>)"
  shows "io_ends m (st\<lparr>world := snd (ev_now E (world st))\<rparr>) (\<lambda>r st'. r = Done () \<and> only_metered time st st')"
  using assms(2)
  by (rule records_mono) (auto intro: only_metered_trans only_metered_world clock_runsD(2) [OF assms(1)])

lemma records_note: "clock_runs E time \<Longrightarrow> records time (metrics_note E k s q x y) st"
  by (simp add: metrics_note_def records_after_now records_record)

lemma records_gap: "clock_runs E time \<Longrightarrow> records time (observe_gap E s x y) st"
  by (simp add: observe_gap_def records_note)

lemma records_sink: "clock_runs E time \<Longrightarrow> records time (observe_sink E f x y n c) st"
  by (simp add: observe_sink_def records_record)

lemma records_ack: "clock_runs E time \<Longrightarrow> records time (observe_ack E s q x p f) st"
  by (simp add: observe_ack_def records_after_now records_record)

end
