(* ===== verification/Input_Boundary.thy ===== *)
theory Input_Boundary
  imports Host_Metrics Keyboard_Sink
begin

text \<open>
  The boundary between the receive window and the operating system (\<open>native-host/src/input.rs\<close>):
  frames are submitted in order and retried until the sink accepts them or the stall timeout
  passes, deferred input is serviced, and everything is cancelled at the end. The sink is the
  interface \<open>sink_contract\<close>, interpreted on the keyboard sink over uinput. Shown: every retry loop
  returns, a frame is committed exactly when the sink has accepted it, and nothing panics.
\<close>

section \<open>State\<close>

text \<open>
  The trace is a ghost history of what reached the outside, in order: frames the sink accepted,
  complete cancellations, and datagrams sent (message type, session, logical id, bytes). Nothing
  reads it.
\<close>

datatype effect =
    Accepted touch_frame
  | Released
  | Sent u8 u64 u64 bytes

record 's input_sink =
  is_accept :: "instant \<Rightarrow> touch_frame \<Rightarrow> 's \<Rightarrow> 's \<times> (io_error, unit) outcome"
  is_active :: "'s \<Rightarrow> bool"
  is_cancel :: "instant \<Rightarrow> 's \<Rightarrow> 's \<times> (io_error, unit) outcome"
  is_service :: "instant \<Rightarrow> 's \<Rightarrow> 's \<times> (io_error, unit) outcome"
  is_deadline :: "instant \<Rightarrow> 's \<Rightarrow> instant option"

record ('w, 's) host = "'w metered" +
  sink :: 's
  ordered :: ordered_frames
  trace :: "effect list"

abbreviation SINK_STALL_TIMEOUT :: duration where "SINK_STALL_TIMEOUT \<equiv> millis 8"
abbreviation MIN_DEFERRED_READ_TIMEOUT :: duration where "MIN_DEFERRED_READ_TIMEOUT \<equiv> millis 1"

text \<open>A call of the sink at the time it reads from the clock.\<close>

definition sink_call ::
  "('w, 'x) env_scheme \<Rightarrow> (instant \<Rightarrow> 's \<Rightarrow> 's \<times> (io_error, unit) outcome) \<Rightarrow>
   (('w, 's, 'z) host_scheme, io_error, unit) io" where
  "sink_call E op = io_bind (io_now E) (\<lambda>t. io_run (\<lambda>st.
     case op t (sink st) of (s, r) \<Rightarrow> (r, st\<lparr>sink := s\<rparr>)))"

definition log_effect :: "effect \<Rightarrow> (('w, 's, 'z) host_scheme, 'e, unit) io" where
  "log_effect x = io_update (\<lambda>st. st\<lparr>trace := trace st @ [x]\<rparr>)"

section \<open>Deferred input\<close>

definition service_attempt ::
  "('w, 'x) env_scheme \<Rightarrow> 's input_sink \<Rightarrow> instant \<Rightarrow> unit \<Rightarrow>
   (('w, 's, 'z) host_scheme, io_error, (unit, unit) flow) io" where
  "service_attempt E S started _ =
     io_bind (io_attempt (sink_call E (is_service S))) (\<lambda>r.
       case r of
         Inr _ \<Rightarrow> io_return (Break ())
       | Inl err \<Rightarrow>
           io_bind (io_stopping E) (\<lambda>stopped.
             if stopped then io_fail (io_err Interrupted)
             else io_bind (io_elapsed E started) (\<lambda>d.
               if SINK_STALL_TIMEOUT \<le> d then io_fail (io_err TimedOut)
               else io_seq (io_yield E) (io_return (Continue ())))))"

definition service_deferred ::
  "('w, 'x) env_scheme \<Rightarrow> 's input_sink \<Rightarrow> (('w, 's, 'z) host_scheme, io_error, unit) io" where
  "service_deferred E S = io_bind (io_now E) (\<lambda>started. io_loop (service_attempt E S started) ())"

text \<open>The number of milliseconds is cast to \<open>u64\<close>.\<close>

definition deferred_wait :: "instant \<Rightarrow> instant \<Rightarrow> duration \<Rightarrow> duration" where
  "deferred_wait deadline now base =
    (let ms = div_ceil ((deadline - now) div 1000) 1000 mod 2 ^ 64 in
     max MIN_DEFERRED_READ_TIMEOUT (min (millis ms) (max base MIN_DEFERRED_READ_TIMEOUT)))"

definition deferred_read_timeout ::
  "('w, 'x) env_scheme \<Rightarrow> 's input_sink \<Rightarrow> duration \<Rightarrow> (('w, 's, 'z) host_scheme, 'e, duration) io" where
  "deferred_read_timeout E S base =
     io_bind (io_now E) (\<lambda>t0. io_bind (io_gets (\<lambda>st. is_deadline S t0 (sink st))) (\<lambda>d.
       case d of
         None \<Rightarrow> io_return base
       | Some deadline \<Rightarrow> io_bind (io_now E) (\<lambda>now. io_return (deferred_wait deadline now base))))"

section \<open>Cancelling\<close>

definition cancel_once ::
  "('w, 'x) env_scheme \<Rightarrow> 's input_sink \<Rightarrow> (('w, 's, 'z) host_scheme, io_error, unit) io" where
  "cancel_once E S = io_seq (sink_call E (is_cancel S)) (log_effect Released)"

definition cancel_attempt ::
  "('w, 'x) env_scheme \<Rightarrow> 's input_sink \<Rightarrow> instant \<Rightarrow> unit \<Rightarrow>
   (('w, 's, 'z) host_scheme, 'e, (unit, io_error + unit) flow) io" where
  "cancel_attempt E S deadline _ =
     io_bind (io_attempt (cancel_once E S)) (\<lambda>r.
       case r of
         Inr _ \<Rightarrow> io_return (Break r)
       | Inl err \<Rightarrow> io_bind (io_now E) (\<lambda>now.
           if deadline \<le> now then io_return (Break r)
           else io_seq (io_yield E) (io_return (Continue ()))))"

definition os_code :: "io_error \<Rightarrow> int" where
  "os_code e = (case raw_os_error e of None \<Rightarrow> - 1 | Some c \<Rightarrow> c)"

definition cancel_with_deadline ::
  "('w, 'x) env_scheme \<Rightarrow> 's input_sink \<Rightarrow> (('w, 's, 'z) host_scheme, io_error, unit) io" where
  "cancel_with_deadline E S =
     io_bind (io_now E) (\<lambda>started.
     io_bind (io_loop (cancel_attempt E S (started + SINK_STALL_TIMEOUT)) ()) (\<lambda>r.
     io_bind (io_elapsed E started) (\<lambda>elapsed.
     io_seq (metrics_note E CANCEL 0 0 (of_nat elapsed)
               (case r of Inl err \<Rightarrow> word_of_int (os_code err) | Inr _ \<Rightarrow> 0))
       (case r of Inl err \<Rightarrow> io_fail err | Inr _ \<Rightarrow> io_return ()))))"

text \<open>
  What it means that the OS failed the release until the deadline. \<open>last_try\<close>: a cancellation at some time was
  refused with \<open>e\<close>, and the clock, read after it, was past the deadline. \<open>gave_up\<close>: \<open>cancel_with_deadline\<close> was
  run on the sink, its last attempt, 8 ms or more after the first, was refused with \<open>e\<close>, and nothing has been
  done with the sink since.
\<close>

definition last_try :: "('w, 'x) env_scheme \<Rightarrow> 's input_sink \<Rightarrow> instant \<Rightarrow> io_error \<Rightarrow> 's \<Rightarrow> bool" where
  "last_try E S deadline e s' \<longleftrightarrow>
     (\<exists>w s. is_cancel S (fst (ev_now E w)) s = (s', Fail e) \<and> deadline \<le> fst (ev_now E (snd (ev_now E w))))"

definition gave_up ::
  "('w, 'x) env_scheme \<Rightarrow> 's input_sink \<Rightarrow> io_error \<Rightarrow> ('w, 's, 'z) host_scheme \<Rightarrow> bool" where
  "gave_up E S e st \<longleftrightarrow> (\<exists>st0 st1 :: ('w, 's, 'z) host_scheme. cancel_with_deadline E S st0 = Some (Fail e, st1) \<and>
     trace st0 = trace st \<and> sink st1 = sink st \<and>
     last_try E S (fst (ev_now E (world st0)) + SINK_STALL_TIMEOUT) e (sink st))"

lemma gave_up_same:
  "gave_up E S e st \<Longrightarrow> sink st' = sink st \<Longrightarrow> trace st' = trace st \<Longrightarrow> gave_up E S e st'"
  for st st' :: "('w, 's, 'z) host_scheme"
  by (simp add: gave_up_def)

section \<open>Receiving and committing\<close>

definition receive_ordered ::
  "('w, 'x) env_scheme \<Rightarrow> touch_frame \<Rightarrow> instant \<Rightarrow> (('w, 's, 'z) host_scheme, 'e, unit) io" where
  "receive_ordered E f arrival =
     io_bind (io_gets ordered) (\<lambda>w.
     let same_session = of_session w = Some (session_id f);
         expected = expected_sequence w;
         replay = same_session \<and> (sequence f < expected \<or> contains_sequence w (sequence f)) in
     io_seq (io_when (same_session \<and> \<not> replay \<and> sequence f > expected \<and>
                      sequence f - expected < of_nat MAX_REORDERED_FRAMES)
               (observe_gap E (session_id f) expected (sequence f)))
     (io_bind (io_gets metrics) (\<lambda>m.
     io_seq (io_update (\<lambda>st. st\<lparr>ordered := push (ordered st) f\<rparr>))
     (io_bind (io_gets ordered) (\<lambda>w'.
       case receive_event m f arrival replay of
         None \<Rightarrow> io_return ()
       | Some e \<Rightarrow>
           metrics_record E
             (if \<not> replay \<and> (\<not> contains_sequence w' (sequence f) \<or> of_session w' \<noteq> Some (session_id f))
              then e[0 := REJECT] else e))))))"

definition accept_once ::
  "('w, 'x) env_scheme \<Rightarrow> 's input_sink \<Rightarrow> touch_frame \<Rightarrow> (('w, 's, 'z) host_scheme, io_error, unit) io" where
  "accept_once E S f = io_seq (sink_call E (\<lambda>t. is_accept S t f)) (log_effect (Accepted f))"

text \<open>The retry loop of one frame; it breaks with the retries and the failure, if any.\<close>

definition accept_attempt ::
  "('w, 'x) env_scheme \<Rightarrow> 's input_sink \<Rightarrow> touch_frame \<Rightarrow> instant \<Rightarrow> u64 \<Rightarrow>
   (('w, 's, 'z) host_scheme, io_error, (u64, u64 \<times> (io_error \<times> bool) option) flow) io" where
  "accept_attempt E S f started retries =
     io_bind (io_attempt (accept_once E S f)) (\<lambda>r.
       case r of
         Inr _ \<Rightarrow> io_return (Break (retries, None))
       | Inl err \<Rightarrow>
           io_bind (io_stopping E) (\<lambda>stopped.
             if stopped then io_return (Break (retries + 1, Some (err, True)))
             else io_bind (io_elapsed E started) (\<lambda>d.
               if SINK_STALL_TIMEOUT \<le> d then io_return (Break (retries + 1, Some (err, False)))
               else io_seq (io_yield E) (io_return (Continue (retries + 1))))))"

definition commit_window :: "(('w, 's, 'z) host_scheme, 'e, bool) io" where
  "commit_window = io_run (\<lambda>st. case window_commit (ordered st) of (w, b) \<Rightarrow> (Done b, st\<lparr>ordered := w\<rparr>))"

text \<open>What follows the retry loop: the report, then the failure or the commit.\<close>

definition finish_frame ::
  "('w, 'x) env_scheme \<Rightarrow> touch_frame \<Rightarrow> instant \<Rightarrow> u64 \<Rightarrow> (io_error \<times> bool) option \<Rightarrow>
   (('w, 's, 'z) host_scheme, io_error, (bool, bool) flow) io" where
  "finish_frame E f started retries failure =
     io_bind (io_now E) (\<lambda>finish.
     io_seq (observe_sink E f started finish retries (map_option (\<lambda>(err, _). os_code err) failure))
       (case failure of
          Some (err, stopped) \<Rightarrow> io_fail (io_err (if stopped then Interrupted else TimedOut))
        | None \<Rightarrow> io_bind commit_window (\<lambda>committed.
            if committed then io_return (Continue True) else io_fail (io_err OtherKind))))"

definition commit_step ::
  "('w, 'x) env_scheme \<Rightarrow> 's input_sink \<Rightarrow> bool \<Rightarrow>
   (('w, 's, 'z) host_scheme, io_error, (bool, bool) flow) io" where
  "commit_step E S progressed =
     io_bind (io_gets (\<lambda>st. next_ready (ordered st))) (\<lambda>ready.
       case ready of
         None \<Rightarrow> io_return (Break progressed)
       | Some f \<Rightarrow>
           io_bind (io_now E) (\<lambda>started.
           io_bind (io_loop (accept_attempt E S f started) 0) (\<lambda>(retries, failure).
             finish_frame E f started retries failure)))"

definition commit_ready ::
  "('w, 'x) env_scheme \<Rightarrow> 's input_sink \<Rightarrow> (('w, 's, 'z) host_scheme, io_error, bool) io" where
  "commit_ready E S = io_loop (commit_step E S) False"

section \<open>The retry loops return\<close>

text \<open>A step touches the sink, the window, the trace, the recorder and the world, nothing else.\<close>

definition stays :: "('w \<Rightarrow> instant) \<Rightarrow> ('w, 's, 'z) host_scheme \<Rightarrow> ('w, 's, 'z) host_scheme \<Rightarrow> bool" where
  "stays time st st' \<longleftrightarrow> host.more st' = host.more st \<and> time (world st) \<le> time (world st')"

lemma stays_refl [simp]: "stays time st st"
  by (simp add: stays_def)

lemma stays_trans: "stays time st st1 \<Longrightarrow> stays time st1 st2 \<Longrightarrow> stays time st st2"
  by (simp add: stays_def)

lemma only_metered_host:
  assumes "only_metered time st st'"
  shows "stays time st st' \<and> sink st' = sink st \<and> ordered st' = ordered st \<and> trace st' = trace st"
proof -
  obtain w m where st': "st' = st\<lparr>world := w, metrics := m\<rparr>"
    using assms unfolding only_metered_def by metis
  show ?thesis using assms by (simp add: only_metered_def stays_def st')
qed

section \<open>The contract of a sink\<close>

text \<open>
  What the boundary relies on. \<open>idle\<close>: no frame is half submitted; \<open>busy f\<close>: only \<open>f\<close> may be, so
  \<open>f\<close> can be tried again; \<open>held\<close>: whatever the OS has down can still be cancelled. A cancellation that
  fails leaves something active. No call panics.
\<close>

locale sink_contract =
  fixes S :: "'s input_sink"
    and frame_ok :: "touch_frame \<Rightarrow> bool"
    and idle :: "'s \<Rightarrow> bool"
    and busy :: "touch_frame \<Rightarrow> 's \<Rightarrow> bool"
    and held :: "'s \<Rightarrow> bool"
  assumes idle_busy: "idle s \<Longrightarrow> busy f s"
    and busy_held: "busy f s \<Longrightarrow> held s"
    and accept_result: "busy f s \<Longrightarrow> frame_ok f \<Longrightarrow> is_accept S t f s = (s', r) \<Longrightarrow>
      r = Done () \<and> idle s' \<or> (\<exists>e. r = Fail e) \<and> busy f s'"
    and service_result: "idle s \<Longrightarrow> is_service S t s = (s', r) \<Longrightarrow> r \<noteq> Panic \<and> idle s'"
    and cancel_result: "held s \<Longrightarrow> is_cancel S t s = (s', r) \<Longrightarrow>
      r \<noteq> Panic \<and> held s' \<and> (if r = Done () then idle s' \<and> \<not> is_active S s' else is_active S s')"

context sink_contract
begin

definition accept_post :: "('w \<Rightarrow> instant) \<Rightarrow> touch_frame \<Rightarrow> ('w, 's, 'z) host_scheme \<Rightarrow>
    bool \<Rightarrow> ('w, 's, 'z) host_scheme \<Rightarrow> bool" where
  "accept_post time f st done st' \<longleftrightarrow> stays time st st' \<and> ordered st' = ordered st \<and>
     (if done then idle (sink st') \<and> trace st' = trace st @ [Accepted f]
      else busy f (sink st') \<and> trace st' = trace st)"

lemma accept_once_ends:
  assumes clock: "clock_runs E time" and "busy f (sink st)" and "frame_ok f"
  shows "io_ends (accept_once E S f) st (\<lambda>r st'.
    r = Done () \<and> accept_post time f st True st' \<or> (\<exists>e. r = Fail e) \<and> accept_post time f st False st')"
proof -
  obtain s' r where r: "is_accept S (fst (ev_now E (world st))) f (sink st) = (s', r)" by fastforce
  from accept_result [OF assms(2,3) r] show ?thesis
    using clock_runsD(2) [OF clock]
    by (auto simp: accept_once_def sink_call_def log_effect_def r accept_post_def stays_def)
qed

lemma accept_loop_ends:
  assumes clock: "clock_runs E time" and "busy f (sink st)" and ok: "frame_ok f"
  shows "io_ends (io_loop (accept_attempt E S f started) n) st (\<lambda>r st'.
    case r of Done (k, failure) \<Rightarrow> accept_post time f st (failure = None) st' | _ \<Rightarrow> False)"
    (is "io_ends _ _ ?Q")
proof (rule io_loop_ends [where I = "\<lambda>_. accept_post time f st False"
      and \<mu> = "\<lambda>_ st'. started + SINK_STALL_TIMEOUT - time (world st')"])
  show "accept_post time f st False st" using assms by (simp add: accept_post_def)
next
  fix n st1 assume I: "accept_post time f st False st1"
  then have "busy f (sink st1)" by (simp add: accept_post_def)
  note once = accept_once_ends [OF clock this ok]
  note D = clock_runsD [OF clock]
  show "io_ends (accept_attempt E S f started n) st1 (iterated (\<lambda>y st'. accept_post time f st False st' \<and>
      started + SINK_STALL_TIMEOUT - time (world st') < started + SINK_STALL_TIMEOUT - time (world st1)) ?Q)"
    unfolding accept_attempt_def io_ends_bind io_ends_attempt
  proof (rule io_ends_mono [OF once], elim disjE conjE exE, goal_cases)
    case (1 r st2)
    then show ?case using I by (auto simp: accept_post_def stays_def)
  next
    case (2 r st2 e)
    let ?w = "snd (ev_stopping E (world st2))"
    show ?case
      using 2 I D(3) [of "world st2"] D(1) [of ?w] D(2) [of ?w] D(4) [of "snd (ev_now E ?w)"]
      by (auto simp: io_elapsed_def accept_post_def stays_def)
  qed
qed

end

section \<open>Committing what the window has ready\<close>

definition window_frames :: "(touch_frame \<Rightarrow> bool) \<Rightarrow> ordered_frames \<Rightarrow> bool" where
  "window_frames P w \<longleftrightarrow> (\<forall>f. Some f \<in> set (buffered w) \<longrightarrow> P f)"

definition window_ok :: "(touch_frame \<Rightarrow> bool) \<Rightarrow> ordered_frames \<Rightarrow> bool" where
  "window_ok P w \<longleftrightarrow> window_inv w \<and> window_frames P w"

lemma window_ok_ready:
  assumes "window_ok P w" and "next_ready w = Some f"
  shows "P f"
proof -
  have "buffered w ! slot (next_sequence w) = Some f"
    using assms(2) by (simp add: next_ready_def split: option.splits if_splits)
  moreover have "slot (next_sequence w) < length (buffered w)"
    using assms(1) by (simp add: window_ok_def window_inv_length)
  ultimately have "Some f \<in> set (buffered w)" by (metis nth_mem)
  with assms(1) show ?thesis by (simp add: window_ok_def window_frames_def)
qed

lemma window_ok_commit: "window_ok P w \<Longrightarrow> window_ok P (fst (window_commit w))"
  unfolding window_ok_def window_frames_def
  by (auto simp: window_inv_commit)
    (auto simp: window_commit_def Let_def dest!: set_update_subset_insert [THEN subsetD] split: option.splits)

lemma window_ok_push:
  assumes "window_ok P w" and "P f"
  shows "window_ok P (push w f)"
proof -
  have "window_frames P (buffer_frame v f)" if "window_frames P v" for v
    using that assms(2) unfolding window_frames_def buffer_frame_def
    by (auto dest!: set_update_subset_insert [THEN subsetD])
  moreover have "window_frames P (begin_session w f)"
    by (auto simp: window_frames_def begin_session_def)
  ultimately have "window_frames P (push w f)"
    using assms by (auto simp: window_ok_def push_cases)
  with assms show ?thesis by (simp add: window_ok_def window_inv_push)
qed

lemma fresh_window_ok: "window_inv w \<Longrightarrow> window_ok P (require_fresh_session w)"
  by (auto simp: window_ok_def window_inv_fresh window_frames_def) (auto simp: require_fresh_session_def)

lemma window_ok_fresh: "window_ok P w \<Longrightarrow> window_ok P (require_fresh_session w)"
  by (auto simp: window_ok_def window_inv_fresh) (auto simp: window_frames_def require_fresh_session_def)

lemma window_commit_ready:
  assumes "window_inv w" and "next_ready w = Some f"
  shows "snd (window_commit w)"
    and "length (filter (\<lambda>x. x \<noteq> None) (buffered (fst (window_commit w)))) <
         length (filter (\<lambda>x. x \<noteq> None) (buffered w))"
proof -
  have b: "buffered w ! slot (next_sequence w) = Some f"
    using assms(2) by (simp add: next_ready_def split: option.splits if_splits)
  then show "snd (window_commit w)" by (simp add: window_commit_def Let_def)
  let ?i = "slot (next_sequence w)"
  have i: "?i < length (buffered w)" using assms(1) by (simp add: window_inv_length)
  have "length (filter Q (xs[i := y])) < length (filter Q xs)"
    if "i < length xs" "Q (xs ! i)" "\<not> Q y" for Q :: "touch_frame option \<Rightarrow> bool" and xs i y
    using that by (induction xs arbitrary: i) (auto split: nat.split)
  from this [OF i] b show "length (filter (\<lambda>x. x \<noteq> None) (buffered (fst (window_commit w)))) <
         length (filter (\<lambda>x. x \<noteq> None) (buffered w))"
    by (simp add: window_commit_def Let_def)
qed

lemma finish_frame_committed:
  assumes clock: "clock_runs E time" and "window_inv (ordered st)" and "next_ready (ordered st) = Some f"
  shows "io_ends (finish_frame E f started n None) st (\<lambda>r st'. r = Done (Continue True) \<and>
    ordered st' = fst (window_commit (ordered st)) \<and> sink st' = sink st \<and> trace st' = trace st \<and> stays time st st')"
  using window_commit_ready(1) [OF assms(2,3)] clock_runsD(2) [OF clock, of "world st"]
  by (auto simp: finish_frame_def commit_window_def stays_def split: prod.split
      intro!: records_mono [OF records_sink [OF clock]] dest!: only_metered_host)

lemma finish_frame_failed:
  assumes clock: "clock_runs E time"
  shows "io_ends (finish_frame E f started n (Some (err, stopped))) st (\<lambda>r st'.
    r = Fail (io_err (if stopped then Interrupted else TimedOut)) \<and>
    ordered st' = ordered st \<and> sink st' = sink st \<and> trace st' = trace st \<and> stays time st st')"
  using clock_runsD(2) [OF clock, of "world st"]
  by (auto simp: finish_frame_def stays_def intro!: records_mono [OF records_sink [OF clock]] dest!: only_metered_host)

text \<open>The frames \<open>ds\<close> were delivered by the window and accepted by the sink, in this order.\<close>

definition committed :: "('w \<Rightarrow> instant) \<Rightarrow> ('w, 's, 'z) host_scheme \<Rightarrow> touch_frame list \<Rightarrow>
    ('w, 's, 'z) host_scheme \<Rightarrow> bool" where
  "committed time st ds st' \<longleftrightarrow> stays time st st' \<and> trace st' = trace st @ map Accepted ds \<and>
     window_run push next_ready window_commit (replicate (length ds) Deliver) (ordered st) = (ordered st', ds)"

lemma committed_none [simp]: "committed time st [] st"
  by (simp add: committed_def)

lemma committed_more:
  assumes "committed time st ds st1" and "next_ready (ordered st1) = Some f"
    and "stays time st1 st2" and "trace st2 = trace st1 @ [Accepted f]"
    and "ordered st2 = fst (window_commit (ordered st1))"
  shows "committed time st (ds @ [f]) st2"
  using assms stays_trans
  by (auto simp: committed_def window_run_append Let_def replicate_append_same [symmetric])

context sink_contract
begin

definition commit_inv :: "('w \<Rightarrow> instant) \<Rightarrow> ('w, 's, 'z) host_scheme \<Rightarrow> bool \<Rightarrow> ('w, 's, 'z) host_scheme \<Rightarrow> bool" where
  "commit_inv time st p st' \<longleftrightarrow>
     (\<exists>ds. committed time st ds st' \<and> p = (ds \<noteq> [])) \<and> window_ok frame_ok (ordered st') \<and> idle (sink st')"

fun commit_post :: "('w \<Rightarrow> instant) \<Rightarrow> ('w, 's, 'z) host_scheme \<Rightarrow> (io_error, bool) outcome \<Rightarrow>
    ('w, 's, 'z) host_scheme \<Rightarrow> bool" where
  "commit_post time st (Done p) st' \<longleftrightarrow> commit_inv time st p st' \<and> next_ready (ordered st') = None"
| "commit_post time st (Fail e) st' \<longleftrightarrow> (\<exists>ds f. committed time st ds st' \<and> next_ready (ordered st') = Some f \<and>
     busy f (sink st')) \<and> window_ok frame_ok (ordered st') \<and> err_kind e \<in> {Interrupted, TimedOut}"
| "commit_post time st Panic st' \<longleftrightarrow> False"

lemma commit_ready_ends:
  assumes clock: "clock_runs E time" and "window_ok frame_ok (ordered st)" and "idle (sink st)"
  shows "io_ends (commit_ready E S) st (commit_post time st)"
  unfolding commit_ready_def
proof (rule io_loop_ends [where I = "commit_inv time st"
      and \<mu> = "\<lambda>_ st'. length (filter (\<lambda>x. x \<noteq> None) (buffered (ordered st')))"])
  show "commit_inv time st False st" using assms by (auto simp: commit_inv_def)
next
  fix p st1 assume I: "commit_inv time st p st1"
  then obtain ds where ds: "committed time st ds st1" "p = (ds \<noteq> [])"
    and ok: "window_ok frame_ok (ordered st1)" and idle: "idle (sink st1)"
    by (auto simp: commit_inv_def)
  show "io_ends (commit_step E S p) st1 (iterated (\<lambda>y st'. commit_inv time st y st' \<and>
      length (filter (\<lambda>x. x \<noteq> None) (buffered (ordered st'))) <
      length (filter (\<lambda>x. x \<noteq> None) (buffered (ordered st1)))) (commit_post time st))"
  proof (cases "next_ready (ordered st1)")
    case None
    with I show ?thesis by (simp add: commit_step_def)
  next
    case (Some f)
    have fok: "frame_ok f" by (rule window_ok_ready [OF ok Some])
    let ?st2 = "st1\<lparr>world := snd (ev_now E (world st1))\<rparr>"
    have busy: "busy f (sink ?st2)" and start: "stays time st1 ?st2"
      using idle clock_runsD(2) [OF clock] by (simp_all add: idle_busy stays_def)
    have inv: "window_inv (ordered st1)" using ok by (simp add: window_ok_def)
    show ?thesis
      unfolding commit_step_def io_ends_bind
    proof (simp add: Some, rule io_ends_mono [OF accept_loop_ends [OF clock busy fok]], goal_cases)
      case (1 r st3)
      then obtain k failure where r: "r = Done (k, failure)" and post: "accept_post time f ?st2 (failure = None) st3"
        by (auto split: outcome.splits)
      show ?case
      proof (cases failure)
        case None
        with post have ends: "window_inv (ordered st3)" "next_ready (ordered st3) = Some f"
          using inv Some by (simp_all add: accept_post_def)
        show ?thesis
          unfolding r None
        proof (simp, rule io_ends_mono [OF finish_frame_committed [OF clock ends]], goal_cases)
          case (1 r st4)
          then have st4: "r = Done (Continue True)" "stays time st1 st4" "trace st4 = trace st1 @ [Accepted f]"
            "ordered st4 = fst (window_commit (ordered st1))" "idle (sink st4)"
            using post None start by (auto simp: accept_post_def intro: stays_trans)
          have "commit_inv time st True st4"
            using committed_more [OF ds(1) Some st4(2-4)] window_ok_commit [OF ok] st4
            by (auto simp: commit_inv_def)
          with st4 window_commit_ready(2) [OF inv Some] show ?case by simp
        qed
      next
        case (Some a)
        obtain err stopped where a: "a = (err, stopped)" by fastforce
        show ?thesis
          unfolding r Some a
        proof (simp, rule io_ends_mono [OF finish_frame_failed [OF clock]], goal_cases)
          case (1 r st4)
          then have "r = Fail (io_err (if stopped then Interrupted else TimedOut))" "stays time st1 st4"
            "trace st4 = trace st1" "ordered st4 = ordered st1" "busy f (sink st4)"
            using post Some start by (auto simp: accept_post_def intro: stays_trans)
          with ds ok \<open>next_ready (ordered st1) = Some f\<close> show ?case
            by (auto simp: committed_def intro: stays_trans)
        qed
      qed
    qed
  qed
qed

end

section \<open>The other operations of the boundary\<close>

text \<open>An operation that is not about the window and sends nothing.\<close>

definition apart :: "('w \<Rightarrow> instant) \<Rightarrow> ('w, 's, 'z) host_scheme \<Rightarrow> ('w, 's, 'z) host_scheme \<Rightarrow> bool" where
  "apart time st st' \<longleftrightarrow> stays time st st' \<and> ordered st' = ordered st \<and> trace st' = trace st"

lemma stays_updates [simp]:
  "stays time st (st'\<lparr>ordered := w\<rparr>) = stays time st st'"
  "stays time st (st'\<lparr>trace := tr\<rparr>) = stays time st st'"
  "stays time st (st'\<lparr>sink := s\<rparr>) = stays time st st'"
  by (simp_all add: stays_def)

lemma apart_refl [simp]: "apart time st st"
  by (simp add: apart_def)

lemma apart_trans: "apart time st st1 \<Longrightarrow> apart time st1 st2 \<Longrightarrow> apart time st st2"
  by (auto simp: apart_def intro: stays_trans)

lemma apart_world: "time (world st) \<le> time w \<Longrightarrow> apart time st (st\<lparr>world := w\<rparr>)"
  by (simp add: apart_def stays_def)

lemma only_metered_apart: "only_metered time st st' \<Longrightarrow> apart time st st' \<and> sink st' = sink st"
  by (auto simp: apart_def dest: only_metered_host)

lemma deferred_wait_bounds:
  "MIN_DEFERRED_READ_TIMEOUT \<le> deferred_wait d now base \<and>
   deferred_wait d now base \<le> max base MIN_DEFERRED_READ_TIMEOUT"
  by (simp add: deferred_wait_def Let_def)

lemma deferred_read_timeout_ends:
  assumes clock: "clock_runs E time"
  shows "io_ends (deferred_read_timeout E S base) st (\<lambda>r st'.
    (\<exists>d. r = Done d \<and> d \<le> max base MIN_DEFERRED_READ_TIMEOUT) \<and> apart time st st' \<and> sink st' = sink st)"
  using clock_runsD(2) [OF clock, of "world st"] clock_runsD(2) [OF clock, of "snd (ev_now E (world st))"]
    deferred_wait_bounds
  by (auto simp: deferred_read_timeout_def apart_def stays_def split: option.split)

lemma receive_ordered_ends:
  assumes clock: "clock_runs E time"
  shows "io_ends (receive_ordered E f arrival) st (\<lambda>r st'. r = Done () \<and> ordered st' = push (ordered st) f \<and>
    sink st' = sink st \<and> trace st' = trace st \<and> stays time st st')"
proof -
  have tail: "io_ends (case receive_event m f arrival replay of
         None \<Rightarrow> io_return () | Some e \<Rightarrow> metrics_record E (g e)) st1
     (\<lambda>r st'. r = Done () \<and> ordered st' = push (ordered st) f \<and>
        sink st' = sink st \<and> trace st' = trace st \<and> stays time st st')"
    if "stays time st st1" "sink st1 = sink st" "ordered st1 = push (ordered st) f" "trace st1 = trace st"
    for st1 m replay g
    using that
    by (auto intro!: records_mono [OF records_record [OF clock]] dest!: only_metered_host
        simp: stays_def split: option.split)
  show ?thesis
    unfolding receive_ordered_def Let_def
    by (auto intro!: tail records_mono [OF records_gap [OF clock]] dest!: only_metered_host)
qed

context sink_contract
begin

lemma service_call_ends:
  assumes clock: "clock_runs E time" and "idle (sink st)"
  shows "io_ends (sink_call E (is_service S)) st (\<lambda>r st'. r \<noteq> Panic \<and> idle (sink st') \<and> apart time st st')"
proof -
  obtain s' r where r: "is_service S (fst (ev_now E (world st))) (sink st) = (s', r)" by fastforce
  from service_result [OF assms(2) r] show ?thesis
    using clock_runsD(2) [OF clock, of "world st"] by (simp add: sink_call_def r apart_def stays_def)
qed

lemma service_deferred_ends:
  assumes clock: "clock_runs E time" and "idle (sink st)"
  shows "io_ends (service_deferred E S) st (\<lambda>r st'. idle (sink st') \<and> apart time st st' \<and>
    (r = Done () \<or> r = Fail (io_err Interrupted) \<or> r = Fail (io_err TimedOut)))" (is "io_ends _ _ ?Q")
proof -
  let ?st0 = "st\<lparr>world := snd (ev_now E (world st))\<rparr>"
  have start: "apart time st ?st0" by (intro apart_world clock_runsD(2) [OF clock])
  have "io_ends (io_loop (service_attempt E S started) ()) ?st0 ?Q" for started
  proof (rule io_loop_ends [where I = "\<lambda>_ st'. idle (sink st') \<and> apart time st st'"
        and \<mu> = "\<lambda>_ st'. started + SINK_STALL_TIMEOUT - time (world st')"])
    show "idle (sink ?st0) \<and> apart time st ?st0" using assms start by simp
  next
    fix u st1 assume I: "idle (sink st1) \<and> apart time st st1"
    note once = service_call_ends [OF clock I [THEN conjunct1]]
    note D = clock_runsD [OF clock]
    show "io_ends (service_attempt E S started u) st1 (iterated (\<lambda>y st'. (idle (sink st') \<and> apart time st st') \<and>
        started + SINK_STALL_TIMEOUT - time (world st') < started + SINK_STALL_TIMEOUT - time (world st1)) ?Q)"
      unfolding service_attempt_def io_ends_bind io_ends_attempt
    proof (rule io_ends_mono [OF once], elim conjE, goal_cases)
      case (1 r st2)
      let ?w = "snd (ev_stopping E (world st2))"
      show ?case
        using 1 I D(3) [of "world st2"] D(1) [of ?w] D(2) [of ?w] D(4) [of "snd (ev_now E ?w)"]
        by (cases r) (auto simp: io_elapsed_def apart_def stays_def)
    qed
  qed
  then show ?thesis by (simp add: service_deferred_def)
qed

text \<open>Before the first attempt, and after one: a failed cancellation leaves something active.\<close>

definition cancel_open :: "('w \<Rightarrow> instant) \<Rightarrow> ('w, 's, 'z) host_scheme \<Rightarrow> ('w, 's, 'z) host_scheme \<Rightarrow> bool" where
  "cancel_open time st st' \<longleftrightarrow> apart time st st' \<and> held (sink st')"

definition cancel_post :: "('w \<Rightarrow> instant) \<Rightarrow> ('w, 's, 'z) host_scheme \<Rightarrow> (io_error + unit) \<Rightarrow>
    ('w, 's, 'z) host_scheme \<Rightarrow> bool" where
  "cancel_post time st r st' \<longleftrightarrow> stays time st st' \<and> ordered st' = ordered st \<and> held (sink st') \<and>
     (case r of Inr _ \<Rightarrow> idle (sink st') \<and> \<not> is_active S (sink st') \<and> trace st' = trace st @ [Released]
      | Inl e \<Rightarrow> is_active S (sink st') \<and> trace st' = trace st)"

lemma cancel_post_open: "cancel_post time st (Inl e) st' \<Longrightarrow> cancel_open time st st'"
  by (simp add: cancel_post_def cancel_open_def apart_def)

lemma cancel_once_ends:
  assumes clock: "clock_runs E time" and "held (sink st)"
  shows "io_ends (cancel_once E S) st (\<lambda>r st'.
    r = Done () \<and> cancel_post time st (Inr ()) st' \<or> (\<exists>e. r = Fail e \<and> cancel_post time st (Inl e) st' \<and>
      is_cancel S (fst (ev_now E (world st))) (sink st) = (sink st', Fail e) \<and> world st' = snd (ev_now E (world st))))"
proof -
  obtain s' r where r: "is_cancel S (fst (ev_now E (world st))) (sink st) = (s', r)" by fastforce
  from cancel_result [OF assms(2) r] show ?thesis
    using clock_runsD(2) [OF clock, of "world st"]
    by (cases r) (auto simp: cancel_once_def sink_call_def log_effect_def r cancel_post_def stays_def)
qed

lemma cancel_loop_ends:
  assumes clock: "clock_runs E time" and "held (sink st)"
  shows "io_ends (io_loop (cancel_attempt E S deadline) ()) st
    (\<lambda>r st'. case r of Done x \<Rightarrow> cancel_post time st x st' \<and> (\<forall>e. x = Inl e \<longrightarrow> last_try E S deadline e (sink st'))
      | _ \<Rightarrow> False)" (is "io_ends _ _ ?Q")
proof (rule io_loop_ends [where I = "\<lambda>_. cancel_open time st"
      and \<mu> = "\<lambda>_ st'. deadline - time (world st')"])
  show "cancel_open time st st" using assms by (simp add: cancel_open_def)
next
  fix u st1 assume I: "cancel_open time st st1"
  then have held: "held (sink st1)" by (simp add: cancel_open_def)
  note D = clock_runsD [OF clock]
  show "io_ends (cancel_attempt E S deadline u) st1 (iterated (\<lambda>y st'. cancel_open time st st' \<and>
      deadline - time (world st') < deadline - time (world st1)) ?Q)"
    unfolding cancel_attempt_def io_ends_bind io_ends_attempt
  proof (rule io_ends_mono [OF cancel_once_ends [OF clock held]], elim disjE conjE exE, goal_cases)
    case (1 r st2)
    then show ?case using I by (auto simp: cancel_post_def cancel_open_def apart_def stays_def)
  next
    case (2 r st2 e)
    have "last_try E S deadline e (sink st2)" if "deadline \<le> fst (ev_now E (world st2))"
      using 2 that unfolding last_try_def by auto
    then show ?case
      using 2(1,2) I D(1) [of "world st2"] D(2) [of "world st2"] D(4) [of "snd (ev_now E (world st2))"]
      by (auto simp: cancel_post_def cancel_open_def apart_def stays_def)
  qed
qed

lemma cancel_with_deadline_tries:
  assumes clock: "clock_runs E time" and "held (sink st)"
  shows "io_ends (cancel_with_deadline E S) st (\<lambda>r st'.
    r = Done () \<and> cancel_post time st (Inr ()) st' \<or> (\<exists>e. r = Fail e \<and> cancel_post time st (Inl e) st' \<and>
      last_try E S (fst (ev_now E (world st)) + SINK_STALL_TIMEOUT) e (sink st')))"
proof -
  let ?st0 = "st\<lparr>world := snd (ev_now E (world st))\<rparr>"
  have "held (sink ?st0)" using assms by simp
  note D = clock_runsD(2) [OF clock]
  show ?thesis
    unfolding cancel_with_deadline_def
  proof (simp add: io_elapsed_def, rule io_ends_mono [OF cancel_loop_ends [OF clock \<open>held (sink ?st0)\<close>]], goal_cases)
    case (1 r st1)
    then obtain x where x: "r = Done x" "cancel_post time ?st0 x st1"
      "\<forall>e. x = Inl e \<longrightarrow> last_try E S (fst (ev_now E (world st)) + SINK_STALL_TIMEOUT) e (sink st1)"
      by (auto split: outcome.splits)
    show ?case
      using x D [of "world st"] D [of "world st1"]
      by (auto simp: cancel_post_def stays_def split: sum.split
          intro!: records_mono [OF records_note [OF clock]] dest!: only_metered_host)
  qed
qed

lemma cancel_with_deadline_ends:
  assumes clock: "clock_runs E time" and "held (sink st)"
  shows "io_ends (cancel_with_deadline E S) st (\<lambda>r st'. r = Done () \<and> cancel_post time st (Inr ()) st' \<or>
    (\<exists>e. r = Fail e \<and> cancel_post time st (Inl e) st' \<and> gave_up E S e st'))"
  using cancel_with_deadline_tries [OF assms] unfolding io_ends_def gave_up_def
  by (fastforce simp: cancel_post_def)

text \<open>
  How a host ends, with the report \<open>rep\<close> and the error type of the caller: the release comes first, and its
  failure is the error returned, whatever the report does.
\<close>

lemma final_release_ends:
  fixes st :: "('w, 's, 'z) host_scheme"
  assumes clock: "clock_runs E time" and "held (sink st)"
    and rep: "\<And>st. io_ends rep st (\<lambda>r st' :: ('w, 's, 'z) host_scheme. r \<noteq> Panic \<and> sink st' = sink st \<and> trace st' = trace st)"
  shows "io_ends (io_bind (io_attempt (cancel_with_deadline E S)) (\<lambda>release_result.
      io_seq (io_update (\<lambda>st. st\<lparr>metrics := f st\<rparr>)) (io_bind (io_attempt rep) (\<lambda>report_result.
        case (release_result, report_result) of
          (Inl e, _) \<Rightarrow> io_fail (g e) | (Inr _, Inl e) \<Rightarrow> io_fail (g e) | _ \<Rightarrow> io_return ())))) st
    (\<lambda>r st'. r \<noteq> Panic \<and> held (sink st') \<and>
      (trace st' = trace st @ [Released] \<and> \<not> is_active S (sink st') \<or>
       trace st' = trace st \<and> (\<exists>e. r = Fail (g e) \<and> gave_up E S e st')))"
  unfolding io_ends_bind io_ends_attempt
proof (rule io_ends_mono [OF cancel_with_deadline_ends [OF assms(1,2)]], elim disjE exE conjE, goal_cases)
  case (1 r st1)
  let ?st = "st1\<lparr>metrics := f st1\<rparr>"
  show ?case
    unfolding 1(1) attempt_of.simps then_ends.simps io_seq_rules io_ends_update io_ends_bind io_ends_attempt
  proof (rule io_ends_mono [OF rep [of ?st]], goal_cases)
    case (1 r st')
    then show ?case using \<open>cancel_post time st (Inr ()) st1\<close> by (cases r) (simp_all add: cancel_post_def)
  qed
next
  case (2 r st1 e)
  let ?st = "st1\<lparr>metrics := f st1\<rparr>"
  show ?case
    unfolding 2(1) attempt_of.simps then_ends.simps io_seq_rules io_ends_update io_ends_bind io_ends_attempt
  proof (rule io_ends_mono [OF rep [of ?st]], goal_cases)
    case (1 r st')
    then have "gave_up E S e st'" using gave_up_same [OF 2(3)] by simp
    with 1 show ?case using 2(2) by (cases r) (auto simp: cancel_post_def)
  qed
qed

end

section \<open>The sink of the host\<close>

text \<open>\<open>Sink\<close> of \<open>bin/host.rs\<close>; its Windows touch injector is not modelled.\<close>

datatype 'd host_sink = Keys "'d keyboard_sink" | RecordOnly

fun on_keys :: "('d keyboard_sink \<Rightarrow> 'd keyboard_sink \<times> (io_error, unit) outcome) \<Rightarrow>
    'd host_sink \<Rightarrow> 'd host_sink \<times> (io_error, unit) outcome" where
  "on_keys f (Keys kb) = (case f kb of (kb', r) \<Rightarrow> (Keys kb', r))"
| "on_keys f RecordOnly = (RecordOnly, Done ())"

definition host_sink_ops :: "'d key_ops \<Rightarrow> 'd host_sink input_sink" where
  "host_sink_ops ops =
     \<lparr>is_accept = (\<lambda>now f. on_keys (accept_at ops now f)),
      is_active = (\<lambda>s. case s of Keys kb \<Rightarrow> has_active_input ops kb | RecordOnly \<Rightarrow> False),
      is_cancel = (\<lambda>now. on_keys (release_all ops now)),
      is_service = (\<lambda>now. on_keys (service_at ops now)),
      is_deadline = (\<lambda>now s. case s of Keys kb \<Rightarrow> keyboard_next_deadline now kb | RecordOnly \<Rightarrow> None)\<rparr>"

fun for_keys :: "('d keyboard_sink \<Rightarrow> bool) \<Rightarrow> 'd host_sink \<Rightarrow> bool" where
  "for_keys P (Keys kb) = P kb"
| "for_keys P RecordOnly = True"

definition distinct_pointers :: "touch_frame \<Rightarrow> bool" where
  "distinct_pointers f \<longleftrightarrow> distinct (map pointer_id (contacts f))"

definition releases :: "touch_frame \<Rightarrow> bool" where
  "releases f \<longleftrightarrow> session_start f \<or> action f = ACTION_CANCEL \<or> \<not> locked f"

context key_device
begin

definition kb_idle :: "nat \<Rightarrow> 'd keyboard_sink \<Rightarrow> bool" where
  "kb_idle n kb \<longleftrightarrow> mirrors n (kb_dev kb) (kb_pressed kb) \<and> kb_inv n None kb"

definition kb_busy :: "nat \<Rightarrow> touch_frame \<Rightarrow> 'd keyboard_sink \<Rightarrow> bool" where
  "kb_busy n f kb \<longleftrightarrow> kb_idle n kb \<or> releases f \<and> covers n kb \<or>
     gameplay f \<and> mirrors n (kb_dev kb) (kb_pressed kb) \<and> kb_inv n (Some f) kb"

lemma kb_idle_busy: "kb_idle n kb \<Longrightarrow> kb_busy n f kb"
  by (simp add: kb_busy_def)

lemma kb_busy_held: "kb_busy n f kb \<Longrightarrow> covers n kb"
  unfolding kb_busy_def kb_idle_def by (auto dest: covers_mirrors)

lemma released_idle: "released n kb \<Longrightarrow> kb_idle n kb \<and> \<not> has_active_input ops kb"
  by (simp add: released_def kb_idle_def)

lemma kb_accept:
  assumes "kb_busy n f kb" and "distinct_pointers f" and run: "accept_at ops now f kb = (kb', r)"
  shows "r = Done () \<and> kb_idle n kb' \<or> (\<exists>e. r = Fail e) \<and> kb_busy n f kb'"
proof (cases "releases f")
  case True
  then have "release_all ops now kb = (kb', r)" using run by (simp add: accept_at_def releases_def)
  from release_all_ok [OF kb_busy_held [OF assms(1)] this] True show ?thesis
    by (cases r) (auto simp: kb_busy_def dest: released_idle)
next
  case rel: False
  show ?thesis
  proof (cases "action f = ACTION_HEARTBEAT \<and> contacts f = []")
    case True
    obtain kb1 r1 where s: "service_at ops now kb = (kb1, r1)" by fastforce
    from assms(1) rel True have "kb_idle n kb" by (auto simp: kb_busy_def gameplay_def)
    with service_ok [of n kb None] s have "r1 \<noteq> Panic" "kb_idle n kb1" by (auto simp: kb_idle_def)
    with run rel True s show ?thesis
      by (cases r1) (auto simp: accept_at_def releases_def kb_busy_def)
  next
    case False
    then have g: "gameplay f" using rel assms(2) by (auto simp: gameplay_def releases_def distinct_pointers_def)
    from assms(1) rel obtain pend where p: "pend = None \<or> pend = Some f"
      "mirrors n (kb_dev kb) (kb_pressed kb)" "kb_inv n pend kb"
      by (auto simp: kb_busy_def kb_idle_def)
    from accept_ok [OF p(2,3,1) g run] p(1) rel g show ?thesis
      by (cases r) (auto simp: kb_busy_def kb_idle_def)
  qed
qed

lemma kb_service:
  assumes "kb_idle n kb" and "service_at ops now kb = (kb', r)"
  shows "r \<noteq> Panic \<and> kb_idle n kb'"
  using assms service_ok [of n kb None now kb' r] by (simp add: kb_idle_def)

lemma kb_cancel:
  assumes "covers n kb" and "release_all ops now kb = (kb', r)"
  shows "r \<noteq> Panic \<and> covers n kb' \<and>
    (if r = Done () then kb_idle n kb' \<and> \<not> has_active_input ops kb' else has_active_input ops kb')"
  using release_all_ok [OF assms] released_idle release_all_stuck [of now kb kb'] assms(2) by (cases r) auto

lemma host_sink_contract:
  "sink_contract (host_sink_ops ops) distinct_pointers (for_keys (kb_idle n)) (\<lambda>f. for_keys (kb_busy n f))
     (for_keys (covers n))"
proof (unfold_locales, goal_cases)
  case (1 s f)
  then show ?case by (cases s) (simp_all add: kb_idle_busy)
next
  case (2 f s)
  then show ?case by (cases s) (auto intro: kb_busy_held)
next
  case (3 f s t s' r)
  then show ?case by (cases s) (auto simp: host_sink_ops_def dest: kb_accept split: prod.splits)
next
  case (4 s t s' r)
  then show ?case
    by (cases s) (auto simp: host_sink_ops_def dest: kb_service split: prod.splits)
next
  case (5 s t s' r)
  then show ?case
    by (cases s) (auto simp: host_sink_ops_def dest: kb_cancel split: prod.splits)
qed

end

text \<open>The host's sink over uinput, with \<open>n\<close> lanes.\<close>

interpretation keys: sink_contract "host_sink_ops linux_ops" distinct_pointers
  "for_keys (linux_device.kb_idle n)" "\<lambda>f. for_keys (linux_device.kb_busy n f)" "for_keys (linux_device.covers n)"
  for n
  by (rule linux_device.host_sink_contract)

section \<open>Committing to the keyboard\<close>

text \<open>
  C13: \<open>commit_ready\<close> always returns, never panics, and commits exactly what the keyboard accepted.
  Whatever the kernel and the stop flag do, as long as time passes while the thread yields: the
  frames the window gives up are, in order, exactly the frames the sink accepted; on success nothing
  is left ready; on failure (a stop, or 8 ms without acceptance) the refused frame is still the
  next ready one.
\<close>

theorem commit_ready_returns:
  assumes "clock_runs E time" and "window_ok distinct_pointers (ordered st)"
    and "for_keys (linux_device.kb_idle n) (sink st)"
  shows "\<exists>r st' ds. commit_ready E (host_sink_ops linux_ops) st = Some (r, st') \<and>
    trace st' = trace st @ map Accepted ds \<and>
    window_run push next_ready window_commit (replicate (length ds) Deliver) (ordered st) = (ordered st', ds) \<and>
    (r = Done (ds \<noteq> []) \<and> next_ready (ordered st') = None \<or>
     (\<exists>e. r = Fail e \<and> err_kind e \<in> {Interrupted, TimedOut} \<and> next_ready (ordered st') \<noteq> None))"
proof -
  obtain r st' where run: "commit_ready E (host_sink_ops linux_ops) st = Some (r, st')"
    and post: "keys.commit_post n time st r st'"
    using keys.commit_ready_ends [OF assms] by (auto simp: io_ends_def)
  from post have "\<exists>ds. committed time st ds st' \<and>
    (r = Done (ds \<noteq> []) \<and> next_ready (ordered st') = None \<or>
     (\<exists>e. r = Fail e \<and> err_kind e \<in> {Interrupted, TimedOut} \<and> next_ready (ordered st') \<noteq> None))"
    by (cases r) (auto simp: keys.commit_inv_def)
  with run show ?thesis unfolding committed_def by blast
qed

text \<open>A world that is only a clock.\<close>

definition tick_env :: "nat env" where
  "tick_env = \<lparr>ev_now = (\<lambda>w. (w, w + 1)), ev_stopping = (\<lambda>w. (False, w)), ev_yield = (\<lambda>w. ((), w + 1)),
     ev_publish = (\<lambda>e w. (True, w))\<rparr>"

lemma tick_env_runs: "clock_runs tick_env (\<lambda>w. w)"
  by (simp add: clock_runs_def tick_env_def)

definition sample_host :: "touch_frame list \<Rightarrow> nat list \<Rightarrow>
    (nat, (input_event list \<times> nat list) uinput_sink host_sink) host" where
  "sample_host fs script = \<lparr>world = 0, metrics = metrics_new True 5 0, sink = Keys (sample_keyboard script),
     ordered = foldl push ordered_new fs, trace = []\<rparr>"

lemma sample_host_ok:
  "for_keys (linux_device.kb_idle 4) (sink (sample_host fs script))"
  "list_all distinct_pointers fs \<Longrightarrow> window_ok distinct_pointers (ordered (sample_host fs script))"
proof -
  show "for_keys (linux_device.kb_idle 4) (sink (sample_host fs script))"
    using sample_keyboard_ok [of script]
    by (simp add: sample_host_def linux_device.kb_idle_def linux_device.mirrors_def) (simp add: sample_keyboard_def)
  have "list_all distinct_pointers fs \<Longrightarrow> window_ok distinct_pointers w \<Longrightarrow>
      window_ok distinct_pointers (foldl push w fs)" for w
    by (induction fs arbitrary: w) (auto intro: window_ok_push)
  moreover have "window_ok distinct_pointers ordered_new"
    by (auto simp: window_ok_def window_inv_new) (auto simp: window_frames_def ordered_new_def)
  ultimately show "list_all distinct_pointers fs \<Longrightarrow> window_ok distinct_pointers (ordered (sample_host fs script))"
    by (simp add: sample_host_def)
qed

theorem commit_ready_returns_witness:
  "\<exists>r st'. commit_ready tick_env (host_sink_ops linux_ops) (sample_host [sample_frame 7 300 2] []) = Some (r, st')"
proof -
  have "list_all distinct_pointers [sample_frame 7 300 2]" by (simp add: distinct_pointers_def)
  from commit_ready_returns [OF tick_env_runs sample_host_ok(2) [OF this] sample_host_ok(1)]
  show ?thesis by blast
qed

end
