(* ===== verification/Usb_Tether.thy ===== *)
theory Usb_Tether
  imports Host_Prelude
begin

text \<open>
  The read-only classification of the interface that leads to a phone on Linux
  (\<open>native-host/src/tether.rs\<close>). The kernel's answers (routes, interface addresses, sysfs, the \<open>ip\<close>
  program) are a parameter: the record \<open>net_system\<close>, a snapshot during one call. Paths are lists of
  components, names are bytes, text is a list of code points. Shown: only a private prefix that
  holds both addresses is accepted, and a binding names one RNDIS interface.
\<close>

section \<open>Addresses\<close>

datatype ip_addr = V4 u32 | V6 "128 word"

record socket_addr =
  sa_ip :: ip_addr
  sa_port :: u16

definition leading_ones :: "'a::len word \<Rightarrow> nat" where
  "leading_ones m = length (takeWhile (bit m) (rev [0..<LENGTH('a)]))"

text \<open>\<open>MAX.checked_shl(width - prefix).unwrap_or(0)\<close>.\<close>

definition prefix_mask :: "nat \<Rightarrow> 'a::len word" where
  "prefix_mask p = push_bit (LENGTH('a) - p) (- 1)"

definition octet1 :: "u32 \<Rightarrow> u32" where
  "octet1 a = drop_bit 24 a"

definition octet2 :: "u32 \<Rightarrow> u32" where
  "octet2 a = drop_bit 16 a AND 0xff"

text \<open>The length of the private block an address lies in.\<close>

definition local_block_v4 :: "u32 \<Rightarrow> nat option" where
  "local_block_v4 a =
    (if octet1 a = 10 then Some 8
     else if octet1 a = 172 \<and> 16 \<le> octet2 a \<and> octet2 a \<le> 31 then Some 12
     else if octet1 a = 192 \<and> octet2 a = 168 \<or> octet1 a = 169 \<and> octet2 a = 254 then Some 16
     else None)"

definition local_block_v6 :: "128 word \<Rightarrow> nat option" where
  "local_block_v6 a =
    (let first = drop_bit 112 a in
     if first AND 0xfe00 = 0xfc00 then Some 7
     else if first AND 0xffc0 = 0xfe80 then Some 10
     else None)"

fun valid_tether_prefix :: "ip_addr \<Rightarrow> ip_addr \<Rightarrow> ip_addr \<Rightarrow> bool" where
  "valid_tether_prefix (V4 local) (V4 peer) (V4 netmask) =
    (let p = leading_ones netmask in
     if netmask \<noteq> prefix_mask p then False else
     case local_block_v4 local of
       None \<Rightarrow> False
     | Some n \<Rightarrow> n \<le> p \<and> p \<le> 30 \<and> peer AND netmask = local AND netmask)"
| "valid_tether_prefix (V6 local) (V6 peer) (V6 netmask) =
    (let p = leading_ones netmask in
     if netmask \<noteq> prefix_mask p then False else
     case local_block_v6 local of
       None \<Rightarrow> False
     | Some n \<Rightarrow> n \<le> p \<and> p \<le> 127 \<and> peer AND netmask = local AND netmask)"
| "valid_tether_prefix _ _ _ = False"

section \<open>What the kernel answers\<close>

type_synonym os_string = "u8 list"
type_synonym path = "os_string list"
type_synonym unicode = "nat list"

datatype sock_address = Inet u32 | Inet6 "128 word" | OtherFamily

fun sockaddr_ip :: "sock_address \<Rightarrow> ip_addr option" where
  "sockaddr_ip (Inet a) = Some (V4 a)"
| "sockaddr_ip (Inet6 a) = Some (V6 a)"
| "sockaddr_ip OtherFamily = None"

text \<open>An entry of \<open>getifaddrs\<close>; a null pointer is \<open>None\<close>.\<close>

record ifaddr =
  ifa_name :: "os_string option"
  ifa_addr :: "sock_address option"
  ifa_netmask :: "sock_address option"
  ifa_up :: bool
  ifa_loopback :: bool

record file_meta =
  fm_is_file :: bool
  fm_is_dir :: bool
  fm_uid :: u32
  fm_mode :: u32

record command_output =
  co_success :: bool
  co_stdout :: bytes
  co_stderr :: bytes

record net_system =
  ns_route :: "socket_addr \<Rightarrow> (io_error, ip_addr) outcome"
  ns_ifaddrs :: "(io_error, ifaddr list) outcome"
  ns_index :: "os_string \<Rightarrow> u32"
  fs_read :: "path \<Rightarrow> (io_error, unicode) outcome"
  fs_canonical :: "path \<Rightarrow> (io_error, path) outcome"
  fs_link :: "path \<Rightarrow> (io_error, path) outcome"
  fs_entries :: "path \<Rightarrow> (io_error, (io_error, os_string) outcome list) outcome"
  fs_exists :: "path \<Rightarrow> bool"
  fs_meta :: "path \<Rightarrow> (io_error, file_meta) outcome"
  run_ip :: "path \<Rightarrow> os_string list \<Rightarrow> (io_error, command_output) outcome"

section \<open>Text\<close>

definition ascii :: "string \<Rightarrow> os_string" where
  "ascii s = map (\<lambda>c. of_nat (of_char c)) s"

text \<open>\<open>char::is_whitespace\<close>.\<close>

definition is_whitespace :: "nat \<Rightarrow> bool" where
  "is_whitespace c \<longleftrightarrow> 9 \<le> c \<and> c \<le> 13 \<or> 0x2000 \<le> c \<and> c \<le> 0x200a \<or>
     c \<in> {32, 0x85, 0xa0, 0x1680, 0x2028, 0x2029, 0x202f, 0x205f, 0x3000}"

definition trim :: "unicode \<Rightarrow> unicode" where
  "trim s = rev (dropWhile is_whitespace (rev (dropWhile is_whitespace s)))"

text \<open>\<open>parse::<u32>()\<close>: an optional plus sign, at least one digit, no overflow.\<close>

definition parse_u32 :: "unicode \<Rightarrow> u32 option" where
  "parse_u32 s =
    (let ds = (case s of c # cs \<Rightarrow> if c = 43 then cs else s | [] \<Rightarrow> []) in
     if ds = [] \<or> \<not> list_all (\<lambda>c. 48 \<le> c \<and> c \<le> 57) ds then None else
     let n = foldl (\<lambda>n c. 10 * n + (int c - 48)) 0 ds in
     if n < 2 ^ 32 then Some (of_int n) else None)"

text \<open>\<open>NotFound\<close> is an answer, any other error is passed on.\<close>

fun not_found_ok :: "'b \<Rightarrow> (io_error, 'a) outcome \<Rightarrow> ('a \<Rightarrow> (io_error, 'b) outcome) \<Rightarrow> (io_error, 'b) outcome" where
  "not_found_ok x (Done a) f = f a"
| "not_found_ok x (Fail e) f = (if err_kind e = NotFound then Done x else Fail e)"
| "not_found_ok x Panic f = Panic"

section \<open>The identity of an interface\<close>

record interface_identity =
  if_index :: u32
  if_name :: os_string
  device_path :: path
  driver :: os_string
  hardware_address :: unicode

definition sys_net :: path where
  "sys_net = [ascii ''sys'', ascii ''class'', ascii ''net'']"

definition is_tether_capable_driver :: "os_string \<Rightarrow> bool" where
  "is_tether_capable_driver d \<longleftrightarrow> d = ascii ''rndis_host''"

definition read_index :: "net_system \<Rightarrow> path \<Rightarrow> (io_error, u32 option) outcome" where
  "read_index sys dir =
     not_found_ok None (fs_read sys (dir @ [ascii ''ifindex''])) (\<lambda>text. Done (parse_u32 (trim text)))"

text \<open>A path without a last component (the root) has no file name.\<close>

definition usb_network_identity ::
  "net_system \<Rightarrow> os_string \<Rightarrow> u32 \<Rightarrow> (io_error, interface_identity option) outcome" where
  "usb_network_identity sys name index =
    (let dir = sys_net @ [name] in
     and_then (read_index sys dir) (\<lambda>recorded.
     if recorded \<noteq> Some index then Done None else
     not_found_ok None (fs_canonical sys (dir @ [ascii ''device''])) (\<lambda>device.
     not_found_ok None (fs_canonical sys (device @ [ascii ''subsystem''])) (\<lambda>subsystem.
     if subsystem = [] \<or> last subsystem \<noteq> ascii ''usb'' then Done None else
     not_found_ok None (fs_link sys (device @ [ascii ''driver''])) (\<lambda>driver_path.
     if driver_path = [] then Done None else
     let d = last driver_path in
     if \<not> is_tether_capable_driver d then Done None else
     and_then (fs_read sys (dir @ [ascii ''address''])) (\<lambda>address.
       Done (Some \<lparr>if_index = index, if_name = name, device_path = device, driver = d,
                   hardware_address = trim address\<rparr>)))))))"

section \<open>Bindings\<close>

record tether_binding =
  tb_identity :: interface_identity
  validate_runtime :: bool

text \<open>The interfaces that carry an address, by index, in the order of the list.\<close>

definition carries_address :: "ip_addr \<Rightarrow> ip_addr \<Rightarrow> ifaddr \<Rightarrow> bool" where
  "carries_address addr peer e \<longleftrightarrow>
     (case (ifa_name e, ifa_addr e, ifa_netmask e) of
        (Some _, Some a, Some m) \<Rightarrow>
          ifa_up e \<and> sockaddr_ip a = Some addr \<and>
          (case sockaddr_ip m of None \<Rightarrow> False | Some netmask \<Rightarrow> valid_tether_prefix addr peer netmask)
      | _ \<Rightarrow> False)"

definition note_interface :: "net_system \<Rightarrow> ip_addr \<Rightarrow> ip_addr \<Rightarrow> ifaddr \<Rightarrow>
    (os_string \<times> u32) list \<Rightarrow> (os_string \<times> u32) list" where
  "note_interface sys addr peer e found =
    (if carries_address addr peer e then
       let name = the (ifa_name e); index = ns_index sys name in
       if index \<noteq> 0 \<and> index \<notin> snd ` set found then found @ [(name, index)] else found
     else found)"

definition interfaces_with_address ::
  "net_system \<Rightarrow> ip_addr \<Rightarrow> ip_addr \<Rightarrow> (io_error, (os_string \<times> u32) list) outcome" where
  "interfaces_with_address sys addr peer =
     and_then (ns_ifaddrs sys) (\<lambda>es. Done (fold (note_interface sys addr peer) es []))"

definition current_tether_binding ::
  "net_system \<Rightarrow> socket_addr \<Rightarrow> (io_error, tether_binding option) outcome" where
  "current_tether_binding sys peer =
     and_then (ns_route sys peer) (\<lambda>local_ip.
     and_then (interfaces_with_address sys local_ip (sa_ip peer)) (\<lambda>found.
     case found of
       [item] \<Rightarrow>
         and_then (usb_network_identity sys (fst item) (snd item)) (\<lambda>identity.
           Done (map_option (\<lambda>i. \<lparr>tb_identity = i, validate_runtime = True\<rparr>) identity))
     | _ \<Rightarrow> Done None))"

definition accepts_ingress_interface :: "tether_binding \<Rightarrow> u32 option \<Rightarrow> bool" where
  "accepts_ingress_interface b i \<longleftrightarrow> \<not> validate_runtime b \<or> i = Some (if_index (tb_identity b))"

definition verify_peer :: "net_system \<Rightarrow> tether_binding \<Rightarrow> socket_addr \<Rightarrow> (io_error, unit) outcome" where
  "verify_peer sys b peer =
    (if \<not> validate_runtime b then Done () else
     and_then (current_tether_binding sys peer) (\<lambda>current.
       case current of
         None \<Rightarrow> Fail (io_err ConnectionAborted)
       | Some c \<Rightarrow> if tb_identity b = tb_identity c then Done () else Fail (io_err ConnectionAborted)))"

section \<open>Listeners and devices\<close>

fun collect_devices :: "net_system \<Rightarrow> (io_error, os_string) outcome list \<Rightarrow>
    (io_error, interface_identity list) outcome" where
  "collect_devices sys [] = Done []"
| "collect_devices sys (entry # es) =
     and_then entry (\<lambda>name.
     and_then (read_index sys (sys_net @ [name])) (\<lambda>index.
     and_then (case index of None \<Rightarrow> Done None | Some i \<Rightarrow> usb_network_identity sys name i) (\<lambda>identity.
     and_then (collect_devices sys es) (\<lambda>rest.
       Done (case identity of None \<Rightarrow> rest | Some d \<Rightarrow> d # rest)))))"

definition linux_tether_devices :: "net_system \<Rightarrow> (io_error, interface_identity list) outcome" where
  "linux_tether_devices sys = not_found_ok [] (fs_entries sys sys_net) (collect_devices sys)"

definition note_listener :: "net_system \<Rightarrow> interface_identity list \<Rightarrow> ifaddr \<Rightarrow>
    (u32 \<times> u32) list \<Rightarrow> (u32 \<times> u32) list" where
  "note_listener sys devices e found =
    (case (ifa_name e, ifa_addr e, ifa_netmask e) of
       (Some name, Some a, Some m) \<Rightarrow>
         let index = ns_index sys name in
         (case (sockaddr_ip a, sockaddr_ip m) of
            (Some (V4 local), Some (V4 netmask)) \<Rightarrow>
              if ifa_up e \<and> \<not> ifa_loopback e \<and> index \<noteq> 0 \<and>
                 list_ex (\<lambda>d. if_index d = index \<and> if_name d = name) devices \<and>
                 valid_tether_prefix (V4 local) (V4 local) (V4 netmask) \<and> (local, index) \<notin> set found
              then found @ [(local, index)] else found
          | _ \<Rightarrow> found)
     | _ \<Rightarrow> found)"

definition tether_ipv4_interfaces :: "net_system \<Rightarrow> (io_error, (u32 \<times> u32) list) outcome" where
  "tether_ipv4_interfaces sys =
     and_then (linux_tether_devices sys) (\<lambda>devices.
     and_then (ns_ifaddrs sys) (\<lambda>es. Done (fold (note_listener sys devices) es [])))"

section \<open>Default routes\<close>

definition MAX_IP_OUTPUT :: nat where "MAX_IP_OUTPUT = 64 * 1024"

definition ip_candidates :: "path list" where
  "ip_candidates = map (map ascii)
     [[''usr'', ''sbin'', ''ip''], [''sbin'', ''ip''], [''usr'', ''bin'', ''ip''], [''bin'', ''ip''],
      [''run'', ''current-system'', ''sw'', ''bin'', ''ip'']]"

definition ascii_alphanumeric :: "u8 \<Rightarrow> bool" where
  "ascii_alphanumeric b \<longleftrightarrow> 48 \<le> b \<and> b \<le> 57 \<or> 65 \<le> b \<and> b \<le> 90 \<or> 97 \<le> b \<and> b \<le> 122"

text \<open>Space, tab, line feed, form feed, carriage return.\<close>

definition ascii_whitespace :: "u8 \<Rightarrow> bool" where
  "ascii_whitespace b \<longleftrightarrow> b \<in> {32, 9, 10, 12, 13}"

definition valid_command_interface_name :: "os_string \<Rightarrow> bool" where
  "valid_command_interface_name name \<longleftrightarrow>
     name \<noteq> [] \<and> length name < 16 \<and> ascii_alphanumeric (hd name) \<and>
     list_all (\<lambda>b. ascii_alphanumeric b \<or> b \<in> {95, 45, 46}) name"

text \<open>The parents of a path, nearest first, down to the root.\<close>

definition parents :: "path \<Rightarrow> path list" where
  "parents p = map (\<lambda>n. take n p) (rev [0..<length p])"

fun trusted_parents :: "net_system \<Rightarrow> path list \<Rightarrow> (io_error, bool) outcome" where
  "trusted_parents sys [] = Done True"
| "trusted_parents sys (p # ps) =
     and_then (fs_meta sys p) (\<lambda>m.
       if \<not> fm_is_dir m \<or> fm_uid m \<noteq> 0 \<or> fm_mode m AND 18 \<noteq> 0 then Done False
       else trusted_parents sys ps)"

definition trusted_executable_and_parents :: "net_system \<Rightarrow> path \<Rightarrow> (io_error, bool) outcome" where
  "trusted_executable_and_parents sys p =
     and_then (fs_meta sys p) (\<lambda>m.
       if \<not> fm_is_file m \<or> fm_uid m \<noteq> 0 \<or> fm_mode m AND 18 \<noteq> 0 \<or> fm_mode m AND 73 = 0 then Done False
       else trusted_parents sys (parents p))"

fun trusted_ip_from :: "net_system \<Rightarrow> path list \<Rightarrow> (io_error, path) outcome" where
  "trusted_ip_from sys [] = Fail (io_err NotFound)"
| "trusted_ip_from sys (candidate # cs) =
    (if \<not> fs_exists sys candidate then trusted_ip_from sys cs else
     and_then (fs_canonical sys candidate) (\<lambda>canonical.
     and_then (trusted_executable_and_parents sys canonical) (\<lambda>trusted.
       if trusted then Done canonical else Fail (io_err PermissionDenied))))"

definition trusted_ip_path :: "net_system \<Rightarrow> (io_error, path) outcome" where
  "trusted_ip_path sys = trusted_ip_from sys ip_candidates"

definition default_route_present ::
  "net_system \<Rightarrow> path \<Rightarrow> string \<Rightarrow> os_string \<Rightarrow> (io_error, bool) outcome" where
  "default_route_present sys ip family interface =
     and_then (run_ip sys ip (map ascii [family, ''route'', ''show'', ''table'', ''all'', ''default'', ''dev''] @ [interface]))
       (\<lambda>output.
        if length (co_stdout output) > MAX_IP_OUTPUT \<or> length (co_stderr output) > MAX_IP_OUTPUT
        then Fail (io_err InvalidData)
        else if \<not> co_success output then Fail (io_err OtherKind)
        else if list_ex (\<lambda>b. \<not> ascii_whitespace b) (co_stderr output) then Fail (io_err OtherKind)
        else Done (list_ex (\<lambda>b. \<not> ascii_whitespace b) (co_stdout output)))"

definition default_routes_for_identity ::
  "net_system \<Rightarrow> net_system \<Rightarrow> interface_identity \<Rightarrow> (io_error, bool \<times> bool) outcome" where
  "default_routes_for_identity sys after identity =
     and_then (usb_network_identity sys (if_name identity) (if_index identity)) (\<lambda>first.
     if first \<noteq> Some identity then Fail (io_err NotFound)
     else if \<not> valid_command_interface_name (if_name identity) then Fail (io_err InvalidData) else
     and_then (trusted_ip_path sys) (\<lambda>ip.
     and_then (default_route_present sys ip ''-4'' (if_name identity)) (\<lambda>ipv4.
     and_then (default_route_present sys ip ''-6'' (if_name identity)) (\<lambda>ipv6.
     and_then (usb_network_identity after (if_name identity) (if_index identity)) (\<lambda>still.
       if still \<noteq> Some identity then Fail (io_err NotFound) else Done (ipv4, ipv6))))))"

section \<open>Private prefixes\<close>

lemma bit_prefix_mask: "bit (prefix_mask p :: 'a::len word) i \<longleftrightarrow> i < LENGTH('a) \<and> LENGTH('a) \<le> i + p"
  by (auto simp: prefix_mask_def bit_simps dest: bit_imp_le_length)

text \<open>Two addresses that agree under a mask of at least \<open>n\<close> bits agree in their first \<open>n\<close> bits.\<close>

lemma same_prefix:
  fixes x y :: "'a::len word"
  assumes "x AND prefix_mask p = y AND prefix_mask p" and "n \<le> p"
  shows "drop_bit (LENGTH('a) - n) x = drop_bit (LENGTH('a) - n) y"
proof (rule bit_word_eqI)
  fix i assume "i < LENGTH('a)"
  let ?j = "LENGTH('a) - n + i"
  show "bit (drop_bit (LENGTH('a) - n) x) i = bit (drop_bit (LENGTH('a) - n) y) i"
  proof (cases "?j < LENGTH('a)")
    case True
    then have m: "bit (prefix_mask p :: 'a word) ?j" using assms(2) by (auto simp: bit_prefix_mask)
    have "bit (x AND prefix_mask p) ?j = bit (y AND prefix_mask p) ?j" by (simp only: assms(1))
    with m show ?thesis by (simp add: bit_and_iff bit_drop_bit_eq)
  next
    case False
    then show ?thesis by (auto simp: bit_drop_bit_eq dest: bit_imp_le_length)
  qed
qed

lemma octets_unat:
  "octet1 a = k \<longleftrightarrow> unat a div 2 ^ 24 = unat k"
  "unat (octet2 a) = unat a div 2 ^ 16 mod 2 ^ 8"
proof -
  show "octet1 a = k \<longleftrightarrow> unat a div 2 ^ 24 = unat k"
    by (simp add: octet1_def word_unat_eq_iff drop_bit_eq_div unat_div)
  have "octet2 a = take_bit 8 (drop_bit 16 a)" by (simp add: octet2_def take_bit_eq_mask mask_eq_exp_minus_1)
  then show "unat (octet2 a) = unat a div 2 ^ 16 mod 2 ^ 8"
    by (simp add: unat_drop_bit_eq drop_bit_eq_div unsigned_take_bit_eq take_bit_eq_mod unat_div unat_mod)
qed


lemma local_block_unat:
  "local_block_v4 a = Some n \<longleftrightarrow>
     n = 8 \<and> unat a div 2 ^ 24 = 10 \<or> n = 12 \<and> unat a div 2 ^ 20 = 2753 \<or>
     n = 16 \<and> unat a div 2 ^ 16 \<in> {49320, 43518}"
proof -
  define q where "q = unat a div 2 ^ 16"
  have q: "unat a div 2 ^ 24 = q div 256" "unat a div 2 ^ 20 = q div 16"
    by (simp_all add: q_def div_mult2_eq [symmetric])
  have o: "octet1 a = k \<longleftrightarrow> q div 256 = unat k" "unat (octet2 a) = q mod 256" for k
    using octets_unat [of a] by (simp_all add: q(1) [symmetric]) (simp add: q_def)
  have two: "octet2 a = k \<longleftrightarrow> q mod 256 = unat k" "k \<le> octet2 a \<longleftrightarrow> unat k \<le> q mod 256"
    "octet2 a \<le> k \<longleftrightarrow> q mod 256 \<le> unat k" for k
    using o(2) by (simp_all add: word_unat_eq_iff word_le_nat_alt)
  have dm: "q mod 256 = q - 256 * (q div 256)" by (simp add: minus_mult_div_eq_mod)
  have d: "q div 16 = k \<longleftrightarrow> 16 * k \<le> q \<and> q < 16 * k + 16" "q div 256 = k \<longleftrightarrow> 256 * k \<le> q \<and> q < 256 * k + 256" for k
    by linarith+
  have A: "q div 256 = k \<and> P (q mod 256) \<longleftrightarrow> 256 * k \<le> q \<and> q < 256 * k + 256 \<and> P (q - 256 * k)" for k P
    using dm d(2) [of k] by auto
  have "q div 256 = 172 \<and> 16 \<le> q mod 256 \<and> q mod 256 \<le> 31 \<longleftrightarrow> q div 16 = 2753"
    unfolding A [of 172 "\<lambda>r. 16 \<le> r \<and> r \<le> 31"] d(1) by auto
  moreover have "q div 256 = 192 \<and> q mod 256 = 168 \<longleftrightarrow> q = 49320"
    unfolding A [of 192 "\<lambda>r. r = 168"] by auto
  moreover have "q div 256 = 169 \<and> q mod 256 = 254 \<longleftrightarrow> q = 43518"
    unfolding A [of 169 "\<lambda>r. r = 254"] by auto
  moreover have "q div 16 = 2753 \<Longrightarrow> q div 256 = 172" "q = 49320 \<Longrightarrow> q div 256 = 192" "q = 43518 \<Longrightarrow> q div 256 = 169"
    by (auto simp: d)
  ultimately show ?thesis
    unfolding local_block_v4_def q o(1) two q_def [symmetric] by auto
qed

text \<open>A prefix as long as the block keeps both addresses in the block.\<close>

lemma same_block_v4:
  assumes "local_block_v4 x = Some n" and "n \<le> p"
    and "y AND prefix_mask p = x AND prefix_mask p"
  shows "local_block_v4 y = Some n"
proof -
  have "drop_bit (32 - n) y = drop_bit (32 - n) x" using same_prefix [OF assms(3,2)] by simp
  then have "unat y div 2 ^ (32 - n) = unat x div 2 ^ (32 - n)"
    by (metis drop_bit_eq_div unat_drop_bit_eq)
  with assms(1) show ?thesis by (auto simp: local_block_unat)
qed

lemma valid_prefix_same_block:
  assumes "valid_tether_prefix (V4 x) (V4 y) m"
  shows "local_block_v4 x \<noteq> None \<and> local_block_v4 y = local_block_v4 x"
proof -
  obtain netmask n where m: "m = V4 netmask" "netmask = prefix_mask (leading_ones netmask)"
    "local_block_v4 x = Some n" "n \<le> leading_ones netmask" "y AND netmask = x AND netmask"
    using assms by (cases m) (auto simp: Let_def split: if_splits option.splits)
  from same_block_v4 [OF m(3,4)] m(2,3,5) show ?thesis by simp
qed

section \<open>What a binding stands for\<close>

lemma case_singleton:
  "(case xs of [] \<Rightarrow> g | x # ys \<Rightarrow> (case ys of [] \<Rightarrow> f x | z # zs \<Rightarrow> g)) = r \<longleftrightarrow>
     (\<exists>x. xs = [x] \<and> f x = r) \<or> (\<nexists>x. xs = [x]) \<and> g = r"
  by (cases xs; cases "tl xs") auto

lemma case_only_v4:
  "(case x of V4 a \<Rightarrow> f a | V6 c \<Rightarrow> Fail e) = Done y \<longleftrightarrow> (\<exists>a. x = V4 a \<and> f a = Done y)"
  by (cases x) auto

lemma not_found_ok_Done:
  "not_found_ok x m f = Done y \<longleftrightarrow>
     (\<exists>a. m = Done a \<and> f a = Done y) \<or> (\<exists>e. m = Fail e \<and> err_kind e = NotFound \<and> y = x)"
  by (cases m) auto

lemma identity_of_usb:
  assumes "usb_network_identity sys name index = Done (Some i)"
  shows "if_index i = index \<and> if_name i = name \<and> driver i = ascii ''rndis_host''"
  using assms unfolding usb_network_identity_def Let_def
  by (auto simp: and_then_Done not_found_ok_Done is_tether_capable_driver_def split: if_splits)

lemma found_carry:
  assumes "interfaces_with_address sys addr peer = Done found" and "(name, index) \<in> set found"
  shows "index \<noteq> 0 \<and> (\<exists>es. ns_ifaddrs sys = Done es \<and>
    (\<exists>e \<in> set es. carries_address addr peer e \<and> ifa_name e = Some name \<and> ns_index sys name = index))"
proof -
  obtain es where es: "ns_ifaddrs sys = Done es" "found = fold (note_interface sys addr peer) es []"
    using assms(1) by (auto simp: interfaces_with_address_def and_then_Done)
  have "\<forall>p \<in> set (fold (note_interface sys addr peer) es acc).
      p \<in> set acc \<or> snd p \<noteq> 0 \<and> (\<exists>e \<in> set es. carries_address addr peer e \<and> ifa_name e = Some (fst p) \<and>
        ns_index sys (fst p) = snd p)" for acc
  proof (induction es arbitrary: acc)
    case (Cons e es)
    have "p \<in> set (note_interface sys addr peer e acc) \<Longrightarrow> p \<in> set acc \<or> snd p \<noteq> 0 \<and>
        carries_address addr peer e \<and> ifa_name e = Some (fst p) \<and> ns_index sys (fst p) = snd p" for p
      by (auto simp: note_interface_def Let_def carries_address_def split: if_splits option.splits)
    with Cons show ?case by fastforce
  qed simp
  from this [of "[]"] assms(2) es show ?thesis by fastforce
qed

section \<open>Answers without a panic\<close>

text \<open>Every call to the OS returns a result, also when it fails.\<close>

definition net_answers :: "net_system \<Rightarrow> bool" where
  "net_answers sys \<longleftrightarrow> (\<forall>p. ns_route sys p \<noteq> Panic) \<and> ns_ifaddrs sys \<noteq> Panic \<and>
     (\<forall>p. fs_read sys p \<noteq> Panic) \<and> (\<forall>p. fs_canonical sys p \<noteq> Panic) \<and> (\<forall>p. fs_link sys p \<noteq> Panic) \<and>
     (\<forall>p. fs_entries sys p \<noteq> Panic \<and> (\<forall>es. fs_entries sys p = Done es \<longrightarrow> Panic \<notin> set es)) \<and>
     (\<forall>p. fs_meta sys p \<noteq> Panic) \<and> (\<forall>p args. run_ip sys p args \<noteq> Panic)"

lemma not_found_ok_Panic: "not_found_ok x m f = Panic \<longleftrightarrow> m = Panic \<or> (\<exists>a. m = Done a \<and> f a = Panic)"
  by (cases m) auto

lemmas total_simps = net_answers_def and_then_Panic not_found_ok_Panic Let_def

lemma identity_total: "net_answers sys \<Longrightarrow> usb_network_identity sys name index \<noteq> Panic"
  by (auto simp: usb_network_identity_def read_index_def total_simps split: if_splits)

lemma current_binding_total: "net_answers sys \<Longrightarrow> current_tether_binding sys peer \<noteq> Panic"
  using identity_total [of sys]
  by (auto simp: current_tether_binding_def interfaces_with_address_def total_simps split: list.splits)

lemma verify_peer_total: "net_answers sys \<Longrightarrow> verify_peer sys b peer \<noteq> Panic"
  using current_binding_total [of sys peer] by (auto simp: verify_peer_def and_then_Panic split: option.split)

lemma collect_devices_total:
  "net_answers sys \<Longrightarrow> Panic \<notin> set es \<Longrightarrow> collect_devices sys es \<noteq> Panic"
  using identity_total [of sys]
  by (induction es) (auto simp: read_index_def total_simps split: option.splits)

lemma tether_interfaces_total: "net_answers sys \<Longrightarrow> tether_ipv4_interfaces sys \<noteq> Panic"
  using collect_devices_total [of sys]
  by (auto simp: tether_ipv4_interfaces_def linux_tether_devices_def total_simps)

lemma trusted_total: "net_answers sys \<Longrightarrow> trusted_parents sys ps \<noteq> Panic"
  by (induction ps) (auto simp: total_simps)

lemma trusted_ip_total: "net_answers sys \<Longrightarrow> trusted_ip_from sys ps \<noteq> Panic"
  using trusted_total [of sys]
  by (induction ps) (auto simp: trusted_executable_and_parents_def total_simps split: if_splits)

lemma default_routes_total:
  "net_answers sys \<Longrightarrow> net_answers after \<Longrightarrow> default_routes_for_identity sys after identity \<noteq> Panic"
  using identity_total [of sys] identity_total [of after] trusted_ip_total [of sys]
  by (auto simp: default_routes_for_identity_def trusted_ip_path_def default_route_present_def total_simps)

end
