(* ===== verification/Network_Binding.thy ===== *)
theory Network_Binding
  imports Usb_Tether Protocol_V5
begin

text \<open>
  The confinement of a v5 connection to one interface (\<open>NetworkBinding\<close>, \<open>ListenerInterface\<close> and the
  selection of both in \<open>native-host/src/v5_host.rs\<close>). Shown: the listener is the only eligible
  interface, and a binding accepts datagrams from that interface alone, for a peer in private
  address space.
\<close>

section \<open>Errors\<close>

text \<open>\<open>HostV5Error\<close>; the texts and the errors of the Noise and the storage library are left out.\<close>

datatype host_error =
    HostIo io_error | HostWire wire_error | HostNoise | HostCredentials | HostInterface
  | HostAuthentication | HostTimedOut | NotPaired | HostCancelled

fun host_io :: "(io_error, 'a) outcome \<Rightarrow> (host_error, 'a) outcome" where
  "host_io (Done x) = Done x"
| "host_io (Fail e) = Fail (HostIo e)"
| "host_io Panic = Panic"

lemma host_io_Done [simp]: "host_io m = Done x \<longleftrightarrow> m = Done x"
  by (cases m) auto

section \<open>Interfaces\<close>

record lan_interface =
  lan_name :: unicode
  lan_v4 :: "(u32 \<times> u32) option"
  lan_index :: "u32 option"
  lan_up :: bool
  lan_loopback :: bool
  lan_p2p :: bool

record lan_system = net_system +
  get_if_addrs :: "(io_error, lan_interface list) outcome"

record listener_interface =
  li_local :: u32
  li_index :: u32
  li_name :: unicode

definition is_private :: "u32 \<Rightarrow> bool" where
  "is_private a \<longleftrightarrow> octet1 a = 10 \<or> octet1 a = 172 \<and> 16 \<le> octet2 a \<and> octet2 a \<le> 31 \<or>
     octet1 a = 192 \<and> octet2 a = 168"

definition is_link_local :: "u32 \<Rightarrow> bool" where
  "is_link_local a \<longleftrightarrow> octet1 a = 169 \<and> octet2 a = 254"

definition private_ipv4 :: "u32 \<Rightarrow> bool" where
  "private_ipv4 a \<longleftrightarrow> is_private a \<or> is_link_local a"

definition unicode_of :: "string \<Rightarrow> unicode" where
  "unicode_of s = map of_char s"

definition ascii_lowercase :: "nat \<Rightarrow> nat" where
  "ascii_lowercase c = (if 65 \<le> c \<and> c \<le> 90 then c + 32 else c)"

text \<open>\<open>str::contains\<close>.\<close>

definition text_contains :: "unicode \<Rightarrow> unicode \<Rightarrow> bool" where
  "text_contains token s \<longleftrightarrow> list_ex (\<lambda>i. take (length token) (drop i s) = token) [0..<Suc (length s)]"

definition rejected_tokens :: "string list" where
  "rejected_tokens = [''vpn'', ''tun'', ''tap'', ''wireguard'', ''wintun'', ''tailscale'', ''zerotier'',
     ''rndis'', ''remote ndis'', ''vethernet'', ''hyper-v'', ''vmware'', ''virtualbox'', ''virtual'',
     ''docker'', ''wsl'', ''bluetooth'', ''hamachi'', ''loopback'', ''npcap'']"

definition rejected_local_interface :: "unicode \<Rightarrow> bool" where
  "rejected_local_interface name \<longleftrightarrow> list_ex (\<lambda>t. text_contains (unicode_of t) name) rejected_tokens"

definition valid_listener_subnet :: "u32 \<Rightarrow> u32 \<Rightarrow> bool" where
  "valid_listener_subnet local netmask =
    (if \<not> private_ipv4 local then False else
     let prefix = leading_ones netmask in
     if netmask \<noteq> prefix_mask prefix \<or> prefix > 30 then False else
     case local_block_v4 local of
       None \<Rightarrow> False
     | Some minimum \<Rightarrow>
         let host = local AND NOT netmask in
         minimum \<le> prefix \<and> host \<noteq> 0 \<and> host \<noteq> NOT netmask)"

text \<open>An interface that may serve the local network, by its flags and its name.\<close>

definition ordinary_lan :: "lan_interface \<Rightarrow> bool" where
  "ordinary_lan i \<longleftrightarrow> lan_up i \<and> \<not> lan_loopback i \<and> \<not> lan_p2p i \<and>
     \<not> rejected_local_interface (map ascii_lowercase (lan_name i))"

definition listener_candidate ::
  "transport_kind \<Rightarrow> (u32 \<times> u32) list \<Rightarrow> lan_interface \<Rightarrow> listener_interface option" where
  "listener_candidate transport tether i =
    (case (lan_v4 i, lan_index i) of
       (Some (local, netmask), Some index) \<Rightarrow>
         let is_tether = (local, index) \<in> set tether;
             accepted = (case transport of
                 Usb \<Rightarrow> is_tether
               | Wifi \<Rightarrow> \<not> is_tether \<and> ordinary_lan i \<and> valid_listener_subnet local netmask) in
         if accepted then Some \<lparr>li_local = local, li_index = index, li_name = lan_name i\<rparr> else None
     | _ \<Rightarrow> None)"

definition add_candidate :: "transport_kind \<Rightarrow> (u32 \<times> u32) list \<Rightarrow> lan_interface \<Rightarrow>
    listener_interface list \<Rightarrow> listener_interface list" where
  "add_candidate transport tether i cs =
    (case listener_candidate transport tether i of
       None \<Rightarrow> cs
     | Some c \<Rightarrow> if c \<in> set cs then cs else cs @ [c])"

definition select_listener_interface ::
  "('z lan_system_scheme) \<Rightarrow> transport_kind \<Rightarrow> (host_error, listener_interface) outcome" where
  "select_listener_interface sys transport =
     and_then (host_io (get_if_addrs sys)) (\<lambda>interfaces.
     and_then (host_io (tether_ipv4_interfaces (net_system.truncate sys))) (\<lambda>tether.
     case fold (add_candidate transport tether) interfaces [] of
       [listener] \<Rightarrow> Done listener
     | _ \<Rightarrow> Fail HostInterface))"

text \<open>On Linux and Windows.\<close>

definition listener_accepts_ingress :: "listener_interface \<Rightarrow> u32 option \<Rightarrow> bool" where
  "listener_accepts_ingress l ingress \<longleftrightarrow> ingress = Some (li_index l)"

section \<open>Bindings\<close>

text \<open>Only the test build has a loopback binding.\<close>

datatype network_binding =
    UsbBinding tether_binding listener_interface
  | WifiBinding u32 u32 u32 "u32 option"

definition wifi_match :: "u32 \<Rightarrow> u32 \<Rightarrow> lan_interface \<Rightarrow> (u32 \<times> u32 option) option" where
  "wifi_match local peer i =
    (case lan_v4 i of
       None \<Rightarrow> None
     | Some (addr, netmask) \<Rightarrow>
         if addr = local \<and> ordinary_lan i \<and> netmask \<noteq> 0 \<and> local AND netmask = peer AND netmask
         then Some (netmask, lan_index i) else None)"

definition wifi_binding :: "'z lan_system_scheme \<Rightarrow> socket_addr \<Rightarrow> (host_error, network_binding) outcome" where
  "wifi_binding sys peer =
    (case sa_ip peer of
       V6 _ \<Rightarrow> Fail HostInterface
     | V4 peer_ip \<Rightarrow>
         if \<not> private_ipv4 peer_ip then Fail HostInterface else
         and_then (host_io (ns_route sys peer)) (\<lambda>route.
         case route of
           V6 _ \<Rightarrow> Fail HostInterface
         | V4 local \<Rightarrow>
             and_then (host_io (get_if_addrs sys)) (\<lambda>interfaces.
             case List.map_filter (wifi_match local peer_ip) interfaces of
               [item] \<Rightarrow> Done (WifiBinding local (peer_ip AND fst item) (fst item) (snd item))
             | _ \<Rightarrow> Fail HostInterface)))"

fun binding_accepts :: "network_binding \<Rightarrow> u32 option \<Rightarrow> bool" where
  "binding_accepts (UsbBinding b l) ingress = accepts_ingress_interface b ingress"
| "binding_accepts (WifiBinding _ _ _ index) ingress = (ingress \<noteq> None \<and> ingress = index)"

fun matches_listener :: "network_binding \<Rightarrow> listener_interface \<Rightarrow> bool" where
  "matches_listener (UsbBinding b _) l = (if_index (tb_identity b) = li_index l)"
| "matches_listener (WifiBinding local _ _ index) l = (local = li_local l \<and> index = Some (li_index l))"

definition binding_for_peer ::
  "'z lan_system_scheme \<Rightarrow> socket_addr \<Rightarrow> transport_kind \<Rightarrow> listener_interface \<Rightarrow>
   (host_error, network_binding) outcome" where
  "binding_for_peer sys peer transport listener =
    (case transport of
       Usb \<Rightarrow>
         and_then (host_io (current_tether_binding (net_system.truncate sys) peer)) (\<lambda>found.
         case found of
           None \<Rightarrow> Fail HostInterface
         | Some b \<Rightarrow>
             if if_index (tb_identity b) \<noteq> li_index listener then Fail HostInterface
             else Done (UsbBinding b listener))
     | Wifi \<Rightarrow>
         and_then (wifi_binding sys peer) (\<lambda>b.
           if \<not> matches_listener b listener then Fail HostInterface else Done b))"

definition revalidate :: "'z lan_system_scheme \<Rightarrow> network_binding \<Rightarrow> socket_addr \<Rightarrow> (host_error, unit) outcome" where
  "revalidate sys b peer =
    (case b of
       UsbBinding t l \<Rightarrow>
         and_then (host_io (verify_peer (net_system.truncate sys) t peer)) (\<lambda>_.
         and_then (host_io (tether_ipv4_interfaces (net_system.truncate sys))) (\<lambda>current.
           if (li_local l, li_index l) \<in> set current then Done () else Fail HostInterface))
     | WifiBinding _ _ _ _ \<Rightarrow>
         and_then (wifi_binding sys peer) (\<lambda>current.
           if current = b then Done () else Fail HostInterface))"

section \<open>Confinement\<close>

lemma private_ipv4_block: "private_ipv4 a \<longleftrightarrow> local_block_v4 a \<noteq> None"
  by (simp add: private_ipv4_def is_private_def is_link_local_def local_block_v4_def)

lemma set_candidates:
  "set (fold (add_candidate transport tether) is cs) =
     set cs \<union> {c. \<exists>i \<in> set is. listener_candidate transport tether i = Some c}"
proof (induction "is" arbitrary: cs)
  case (Cons i "is")
  then show ?case by (auto simp: add_candidate_def split: option.splits)
qed simp

lemma tether_binding_private:
  assumes "current_tether_binding sys peer = Done (Some b)" and "sa_ip peer = V4 a"
  shows "validate_runtime b \<and> driver (tb_identity b) = ascii ''rndis_host'' \<and> private_ipv4 a"
proof -
  obtain local_ip item where
    found: "interfaces_with_address sys local_ip (sa_ip peer) = Done [item]"
    and id: "usb_network_identity sys (fst item) (snd item) = Done (Some (tb_identity b))" and v: "validate_runtime b"
    using assms(1) unfolding current_tether_binding_def
    by (auto simp: and_then_Done case_singleton)
  obtain e where "carries_address local_ip (sa_ip peer) e" using found_carry [OF found, of "fst item" "snd item"] by auto
  then obtain netmask where pre: "valid_tether_prefix local_ip (V4 a) netmask"
    using assms(2) by (auto simp: carries_address_def split: option.splits)
  then obtain x where "local_ip = V4 x" by (cases local_ip) auto
  with pre valid_prefix_same_block [of x a netmask] have "private_ipv4 a" by (auto simp: private_ipv4_block)
  with v identity_of_usb [OF id] show ?thesis by simp
qed

text \<open>
  C27: A connection is confined to the selected interface. When an interface has been selected for
  the transport, it is the only one that was eligible; and when a peer has been bound to it, exactly
  the datagrams the kernel reports from that interface are taken, the peer's IPv4 address is a
  private one, and a USB binding is an RNDIS interface whose identity is checked again at runtime.
\<close>

theorem binding_confined:
  assumes "select_listener_interface sys transport = Done listener"
    and "binding_for_peer sys' peer transport listener = Done b"
  shows "(binding_accepts b ingress \<longleftrightarrow> ingress = Some (li_index listener)) \<and>
    (\<forall>a. sa_ip peer = V4 a \<longrightarrow> private_ipv4 a) \<and>
    (\<forall>t l. b = UsbBinding t l \<longrightarrow> transport = Usb \<and> validate_runtime t) \<and>
    (\<exists>is tether. get_if_addrs sys = Done is \<and> tether_ipv4_interfaces (net_system.truncate sys) = Done tether \<and>
       (\<forall>c. (\<exists>i \<in> set is. listener_candidate transport tether i = Some c) \<longleftrightarrow> c = listener))"
proof -
  obtain "is" tether where sel: "get_if_addrs sys = Done is"
    "tether_ipv4_interfaces (net_system.truncate sys) = Done tether"
    "fold (add_candidate transport tether) is [] = [listener]"
    using assms(1) by (auto simp: select_listener_interface_def and_then_Done case_singleton)
  have only: "(\<exists>i \<in> set is. listener_candidate transport tether i = Some c) \<longleftrightarrow> c = listener" for c
    using set_candidates [of transport tether "is" "[]"] sel(3) by auto
  show ?thesis
  proof (cases transport)
    case Usb
    then obtain t where t: "current_tether_binding (net_system.truncate sys') peer = Done (Some t)"
      "if_index (tb_identity t) = li_index listener" "b = UsbBinding t listener"
      using assms(2) by (auto simp: binding_for_peer_def and_then_Done split: option.splits if_splits)
    have "validate_runtime t"
      using t(1) by (auto simp: current_tether_binding_def and_then_Done case_singleton)
    with t Usb only sel tether_binding_private [OF t(1)] show ?thesis
      by (auto simp: accepts_ingress_interface_def)
  next
    case Wifi
    then have w: "wifi_binding sys' peer = Done b" "matches_listener b listener"
      using assms(2) by (auto simp: binding_for_peer_def and_then_Done split: if_splits)
    then obtain local net netmask index where b: "b = WifiBinding local net netmask index"
      and a: "\<forall>a. sa_ip peer = V4 a \<longrightarrow> private_ipv4 a"
      by (auto simp: wifi_binding_def and_then_Done case_singleton case_only_v4 split: if_splits)
    with w(2) Wifi only sel show ?thesis by auto
  qed
qed

definition sample_lan :: lan_interface where
  "sample_lan = \<lparr>lan_name = unicode_of ''wlan0'', lan_v4 = Some (0xc0a8010a, 0xffffff00), lan_index = Some 3,
     lan_up = True, lan_loopback = False, lan_p2p = False\<rparr>"

definition sample_system :: lan_system where
  "sample_system = \<lparr>ns_route = (\<lambda>_. Done (V4 0xc0a8010a)), ns_ifaddrs = Done [], ns_index = (\<lambda>_. 3),
     fs_read = (\<lambda>_. Fail (io_err NotFound)), fs_canonical = (\<lambda>_. Fail (io_err NotFound)),
     fs_link = (\<lambda>_. Fail (io_err NotFound)), fs_entries = (\<lambda>_. Fail (io_err NotFound)), fs_exists = (\<lambda>_. False),
     fs_meta = (\<lambda>_. Fail (io_err NotFound)), run_ip = (\<lambda>_ _. Fail (io_err NotFound)),
     get_if_addrs = Done [sample_lan]\<rparr>"

definition sample_listener :: listener_interface where
  "sample_listener = \<lparr>li_local = 0xc0a8010a, li_index = 3, li_name = unicode_of ''wlan0''\<rparr>"

lemma sample_ordinary: "ordinary_lan sample_lan"
  by code_simp

lemma sample_subnet: "valid_listener_subnet 0xc0a8010a 0xffffff00" "private_ipv4 0xc0a80114"
  by code_simp+

lemma sample_selected: "select_listener_interface sample_system Wifi = Done sample_listener"
  using sample_ordinary sample_subnet
  by (simp add: select_listener_interface_def sample_system_def tether_ipv4_interfaces_def linux_tether_devices_def
      net_system.truncate_def add_candidate_def listener_candidate_def sample_listener_def)
    (simp add: sample_lan_def)

lemma sample_bound:
  "binding_for_peer sample_system \<lparr>sa_ip = V4 0xc0a80114, sa_port = 9\<rparr> Wifi sample_listener =
     Done (WifiBinding 0xc0a8010a 0xc0a80100 0xffffff00 (Some 3))"
  using sample_ordinary sample_subnet
  by (simp add: binding_for_peer_def wifi_binding_def sample_system_def wifi_match_def)
    (simp add: sample_lan_def sample_listener_def)

theorem binding_confined_witness:
  "binding_accepts (WifiBinding 0xc0a8010a 0xc0a80100 0xffffff00 (Some 3)) (Some 3) \<and>
   \<not> binding_accepts (WifiBinding 0xc0a8010a 0xc0a80100 0xffffff00 (Some 3)) (Some 4)"
  using binding_confined [OF sample_selected sample_bound]
  by (simp add: sample_listener_def)

end
