(* ===== verification/V5_Connection.thy ===== *)
theory V5_Connection
  imports Input_Boundary Record_Cipher Network_Binding
begin

text \<open>
  The connection of a v5 session (\<open>V5Connection\<close> in \<open>native-host/src/v5_host.rs\<close>): receiving and
  opening records, sending sealed records once and redundantly, control records. The socket is part
  of the world. Shown: nothing but an authenticated record of this connection gets through, and
  what each operation hands to the socket.
\<close>

section \<open>State\<close>

text \<open>
  \<open>receive_datagram\<close> gives the bytes, the source and the ingress interface; \<open>ev_changed\<close> reads the
  flag of the interface monitor, whose thread (\<open>monitor_interface\<close>) is started by \<open>ev_monitor\<close>.
\<close>

record 'w socket_env = "'w env" +
  ev_receive :: "'w \<Rightarrow> (io_error + bytes \<times> socket_addr \<times> u32 option) \<times> 'w"
  ev_send :: "bytes \<Rightarrow> 'w \<Rightarrow> (io_error + nat) \<times> 'w"
  ev_set_timeout :: "duration \<Rightarrow> 'w \<Rightarrow> (io_error + unit) \<times> 'w"
  ev_changed :: "'w \<Rightarrow> bool \<times> 'w"
  ev_monitor :: "'w \<Rightarrow> (io_error + unit) \<times> 'w"

record connection =
  cn_peer :: socket_addr
  cn_binding :: network_binding
  cn_cipher :: record_cipher
  cached_handshake :: "(bytes \<times> bytes) option"
  send_buffer :: bytes
  last_discard :: "(u64 \<times> instant) option"
  peer_aborted :: bool

record ('w, 's) session = "('w, 's) host" +
  conn :: connection

definition connection_new ::
  "socket_addr \<Rightarrow> network_binding \<Rightarrow> record_cipher \<Rightarrow> (bytes \<times> bytes) option \<Rightarrow> connection" where
  "connection_new p b c handshake = \<lparr>cn_peer = p, cn_binding = b, cn_cipher = c, cached_handshake = handshake,
     send_buffer = replicate MAX_DATAGRAM_SIZE 0, last_discard = None, peer_aborted = False\<rparr>"

abbreviation REDUNDANT_COPIES :: nat where "REDUNDANT_COPIES \<equiv> 2"

text \<open>A call of the world whose failure is an I/O error of the connection.\<close>

definition io_sys :: "('w \<Rightarrow> (io_error + 'a) \<times> 'w) \<Rightarrow> (('w, 'z) machine_scheme, host_error, 'a) io" where
  "io_sys f = io_bind (io_world f) (\<lambda>r. case r of Inl e \<Rightarrow> io_fail (HostIo e) | Inr x \<Rightarrow> io_return x)"

definition update_conn :: "(connection \<Rightarrow> connection) \<Rightarrow> (('w, 's, 'z) session_scheme, 'e, unit) io" where
  "update_conn f = io_update (\<lambda>st. st\<lparr>conn := f (conn st)\<rparr>)"

definition set_read_timeout :: "('w, 'x) socket_env_scheme \<Rightarrow> duration \<Rightarrow>
    (('w, 's, 'z) session_scheme, host_error, unit) io" where
  "set_read_timeout E d = io_sys (ev_set_timeout E d)"

section \<open>Sending\<close>

text \<open>A datagram counts as sent once it is handed to the socket, whatever the socket says.\<close>

definition send_datagram ::
  "('w, 'x) socket_env_scheme \<Rightarrow> bytes \<Rightarrow> (('w, 's, 'z) session_scheme, host_error, unit) io" where
  "send_datagram E d =
     io_bind (io_sys (ev_send E d)) (\<lambda>sent.
       if sent \<noteq> length d then io_fail (HostIo (io_err WriteZero)) else io_return ())"

fun from_wire :: "(wire_error, 'a) outcome \<Rightarrow> (host_error, 'a) outcome" where
  "from_wire (Done x) = Done x"
| "from_wire (Fail e) = Fail (HostWire e)"
| "from_wire Panic = Panic"

definition seal_to_buffer ::
  "aead \<Rightarrow> direction \<Rightarrow> u8 \<Rightarrow> u64 \<Rightarrow> u64 \<Rightarrow> u32 \<Rightarrow> bytes \<Rightarrow>
   (('w, 's, 'z) session_scheme, host_error, nat) io" where
  "seal_to_buffer A dir ty sid lid fl payload = io_run (\<lambda>st.
     case seal_into A (cn_cipher (conn st)) dir ty sid lid fl payload (send_buffer (conn st)) of
       (c, out, r) \<Rightarrow> (from_wire r, st\<lparr>conn := (conn st)\<lparr>cn_cipher := c, send_buffer := out\<rparr>\<rparr>))"

definition send_record_once ::
  "('w, 'x) socket_env_scheme \<Rightarrow> aead \<Rightarrow> direction \<Rightarrow> u8 \<Rightarrow> u64 \<Rightarrow> u64 \<Rightarrow> u32 \<Rightarrow> bytes \<Rightarrow>
   (('w, 's, 'z) session_scheme, host_error, unit) io" where
  "send_record_once E A dir ty sid lid fl payload =
     io_bind (seal_to_buffer A dir ty sid lid fl payload) (\<lambda>n.
     io_bind (io_gets (\<lambda>st. take n (send_buffer (conn st)))) (\<lambda>d.
     io_seq (log_effect (Sent ty sid lid d)) (send_datagram E d)))"

text \<open>The loop over the redundant copies: one delivered copy is enough.\<close>

fun send_copies ::
  "nat \<Rightarrow> ('st, host_error, unit) io \<Rightarrow> bool \<Rightarrow> host_error option \<Rightarrow> ('st, host_error, unit) io" where
  "send_copies 0 copy delivered first_error =
    (if delivered then io_return ()
     else io_fail (case first_error of None \<Rightarrow> HostIo (io_err OtherKind) | Some e \<Rightarrow> e))"
| "send_copies (Suc n) copy delivered first_error =
     io_bind (io_attempt copy) (\<lambda>r.
       case r of
         Inl e \<Rightarrow> send_copies n copy delivered (case first_error of None \<Rightarrow> Some e | Some f \<Rightarrow> Some f)
       | Inr _ \<Rightarrow> send_copies n copy True first_error)"

definition send_record_redundant ::
  "('w, 'x) socket_env_scheme \<Rightarrow> aead \<Rightarrow> direction \<Rightarrow> u8 \<Rightarrow> u64 \<Rightarrow> u64 \<Rightarrow> u32 \<Rightarrow> bytes \<Rightarrow>
   (('w, 's, 'z) session_scheme, host_error, unit) io" where
  "send_record_redundant E A dir ty sid lid fl payload =
     send_copies REDUNDANT_COPIES (send_record_once E A dir ty sid lid fl payload) False None"

definition ack_id :: "u64 option \<Rightarrow> u64" where
  "ack_id acknowledged = (case acknowledged of None \<Rightarrow> NO_ACK | Some s \<Rightarrow> s)"

definition control_type_ok :: "u8 \<Rightarrow> bool" where
  "control_type_ok ty \<longleftrightarrow> ty = HOST_HELLO \<or> ty = HOST_ACK \<or> ty = HOST_PONG"

text \<open>\<open>|| metrics.clock_nanos(Instant::now())\<close>.\<close>

definition now_nanos :: "('w, 'x) socket_env_scheme \<Rightarrow> (('w, 's, 'z) session_scheme, 'e, u64) io" where
  "now_nanos E = io_bind (io_now E) (\<lambda>t. io_gets (\<lambda>st. clock_nanos (metrics st) t))"

definition send_control ::
  "('w, 'x) socket_env_scheme \<Rightarrow> aead \<Rightarrow> u8 \<Rightarrow> u64 \<Rightarrow> u64 option \<Rightarrow> u32 \<Rightarrow> u8 \<Rightarrow>
   (('w, 's, 'z) session_scheme, host_error, unit) io" where
  "send_control E A ty sid acknowledged window lanes =
    (if \<not> control_type_ok ty then io_fail HostAuthentication
     else send_copies REDUNDANT_COPIES
       (io_bind (now_nanos E) (\<lambda>nanos.
          send_record_once E A HostToPhone ty sid (ack_id acknowledged) 0
            (encode_control_payload window lanes nanos))) False None)"

definition send_control_once ::
  "('w, 'x) socket_env_scheme \<Rightarrow> aead \<Rightarrow> u8 \<Rightarrow> u64 \<Rightarrow> u64 option \<Rightarrow> u32 \<Rightarrow> u8 \<Rightarrow> u64 \<Rightarrow>
   (('w, 's, 'z) session_scheme, host_error, unit) io" where
  "send_control_once E A ty sid acknowledged window lanes nanos =
    (if \<not> control_type_ok ty then io_fail HostAuthentication
     else send_record_once E A HostToPhone ty sid (ack_id acknowledged) 0
            (encode_control_payload window lanes nanos))"

definition send_abort ::
  "('w, 'x) socket_env_scheme \<Rightarrow> aead \<Rightarrow> u16 \<Rightarrow> (('w, 's, 'z) session_scheme, host_error, unit) io" where
  "send_abort E A reason = send_record_redundant E A HostToPhone HOST_AUTH_ABORT 0 0 0 (le_u16 reason)"

text \<open>Both copies must go out; the first failure is returned.\<close>

definition send_plain_connected_redundant ::
  "('w, 'x) socket_env_scheme \<Rightarrow> bytes \<Rightarrow> (('w, 's, 'z) session_scheme, host_error, unit) io" where
  "send_plain_connected_redundant E d = io_seq (send_datagram E d) (send_datagram E d)"

section \<open>Receiving\<close>

text \<open>The reason recorded for a refused datagram; no reason stands for an error that is returned.\<close>

fun discard_reason :: "wire_error \<Rightarrow> u64 option" where
  "discard_reason Replay = Some 2"
| "discard_reason BadTag = Some 3"
| "discard_reason BadMagic = Some 4"
| "discard_reason (BadVersion _) = Some 4"
| "discard_reason WrongConnection = Some 4"
| "discard_reason (BadLength _) = Some 4"
| "discard_reason ReservedBits = Some 4"
| "discard_reason _ = None"

definition note_discard :: "u64 \<Rightarrow> instant \<Rightarrow> (('w, 's, 'z) session_scheme, 'e, 'a option) io" where
  "note_discard reason arrival =
     io_seq (update_conn (\<lambda>c. c\<lparr>last_discard := Some (reason, arrival)\<rparr>)) (io_return None)"

definition open_datagram :: "aead \<Rightarrow> bytes \<Rightarrow> instant \<Rightarrow>
    (('w, 's, 'z) session_scheme, host_error, (record_header \<times> instant \<times> bytes) option) io" where
  "open_datagram A d arrival =
     io_bind (io_run (\<lambda>st. case open_in_place A (cn_cipher (conn st)) PhoneToHost d of
         (c, bs, r) \<Rightarrow> (Done (bs, r), st\<lparr>conn := (conn st)\<lparr>cn_cipher := c\<rparr>\<rparr>))) (\<lambda>(bs, r).
       case r of
         Done h \<Rightarrow> io_seq (update_conn (\<lambda>c. c\<lparr>cached_handshake := None\<rparr>)) (io_return (Some (h, arrival, bs)))
       | Fail e \<Rightarrow>
           (case discard_reason e of
              Some reason \<Rightarrow> note_discard reason arrival
            | None \<Rightarrow> io_fail (HostWire e))
       | Panic \<Rightarrow> io_lift Panic)"

text \<open>
  The datagram after opening takes the place of the caller's buffer: the buffer beyond it is never
  read.
\<close>

definition receive_record_into ::
  "('w, 'x) socket_env_scheme \<Rightarrow> aead \<Rightarrow>
   (('w, 's, 'z) session_scheme, host_error, (record_header \<times> instant \<times> bytes) option) io" where
  "receive_record_into E A =
     io_seq (update_conn (\<lambda>c. c\<lparr>last_discard := None\<rparr>))
     (io_bind (io_world (ev_receive E)) (\<lambda>r.
       case r of
         Inl e \<Rightarrow> if err_kind e \<in> {TimedOut, WouldBlock} then io_return None else io_fail (HostIo e)
       | Inr (d, source, ingress) \<Rightarrow>
           io_bind (io_now E) (\<lambda>arrival.
           io_bind (io_gets conn) (\<lambda>c.
             if source \<noteq> cn_peer c \<or> \<not> binding_accepts (cn_binding c) ingress then note_discard 1 arrival
             else case cached_handshake c of
               None \<Rightarrow> open_datagram A d arrival
             | Some (request, response) \<Rightarrow>
                 if d = request then io_seq (send_plain_connected_redundant E response) (io_return None)
                 else open_datagram A d arrival))))"

definition receive_record ::
  "('w, 'x) socket_env_scheme \<Rightarrow> aead \<Rightarrow> (('w, 's, 'z) session_scheme, host_error, opened_record option) io" where
  "receive_record E A =
     io_bind (receive_record_into E A) (\<lambda>r.
       case r of
         None \<Rightarrow> io_return None
       | Some (h, arrival, bs) \<Rightarrow>
           io_bind (io_lift (slice_at bs RECORD_HEADER_SIZE (unat (rh_payload_length h)))) (\<lambda>payload.
             io_return (Some \<lparr>or_header = h, or_payload = payload\<rparr>)))"

section \<open>What sending does\<close>

definition socket_runs :: "('w, 'x) socket_env_scheme \<Rightarrow> ('w \<Rightarrow> instant) \<Rightarrow> bool" where
  "socket_runs E time \<longleftrightarrow> clock_runs E time \<and> (\<forall>w.
     time w \<le> time (snd (ev_receive E w)) \<and> (\<forall>d. time w \<le> time (snd (ev_send E d w))) \<and>
     (\<forall>d. time w \<le> time (snd (ev_set_timeout E d w))) \<and> time w \<le> time (snd (ev_changed E w)) \<and>
     time w \<le> time (snd (ev_monitor E w)))"

lemma socket_runsD:
  assumes "socket_runs E time"
  shows "clock_runs E time" "time w \<le> time (snd (ev_receive E w))" "time w \<le> time (snd (ev_send E d w))"
    "time w \<le> time (snd (ev_set_timeout E t w))" "time w \<le> time (snd (ev_changed E w))"
    "time w \<le> time (snd (ev_monitor E w))" "time w \<le> time (snd (ev_now E w))"
    "time w \<le> time (snd (ev_stopping E w))"
  using assms clock_runsD [of E time] by (auto simp: socket_runs_def)

text \<open>What a connection never changes: the peer, the binding, the keys and the size of the buffer.\<close>

definition same_link :: "connection \<Rightarrow> connection \<Rightarrow> bool" where
  "same_link c c' \<longleftrightarrow> cn_peer c' = cn_peer c \<and> cn_binding c' = cn_binding c \<and>
     send_key (cn_cipher c') = send_key (cn_cipher c) \<and>
     receive_key (cn_cipher c') = receive_key (cn_cipher c) \<and>
     rc_connection_id (cn_cipher c') = rc_connection_id (cn_cipher c) \<and>
     length (send_buffer c') = length (send_buffer c)"

lemma same_link_refl [simp]: "same_link c c"
  by (simp add: same_link_def)

lemma same_link_trans: "same_link c c1 \<Longrightarrow> same_link c1 c2 \<Longrightarrow> same_link c c2"
  by (simp add: same_link_def)

lemma same_link_updates [simp]:
  "same_link c (c'\<lparr>last_discard := x\<rparr>) = same_link c c'"
  "same_link c (c'\<lparr>cached_handshake := y\<rparr>) = same_link c c'"
  "same_link c (c'\<lparr>peer_aborted := b\<rparr>) = same_link c c'"
  by (simp_all add: same_link_def)

text \<open>Only the connection, the recorder and the world move, and the trace grows by \<open>xs\<close>.\<close>

definition link_step :: "('w \<Rightarrow> instant) \<Rightarrow> ('w, 's, 'z) session_scheme \<Rightarrow> effect list \<Rightarrow>
    ('w, 's, 'z) session_scheme \<Rightarrow> bool" where
  "link_step time st xs st' \<longleftrightarrow> sink st' = sink st \<and> ordered st' = ordered st \<and> trace st' = trace st @ xs \<and>
     same_link (conn st) (conn st') \<and> time (world st) \<le> time (world st') \<and> session.more st' = session.more st"

lemma link_step_refl [simp]: "link_step time st [] st"
  by (simp add: link_step_def)

lemma link_step_trans: "link_step time st xs st1 \<Longrightarrow> link_step time st1 ys st2 \<Longrightarrow> link_step time st (xs @ ys) st2"
  by (auto simp: link_step_def intro: same_link_trans)

lemma link_step_world: "time (world st) \<le> time w \<Longrightarrow> link_step time st [] (st\<lparr>world := w\<rparr>)"
  by (simp add: link_step_def)

definition all_sent :: "u8 \<Rightarrow> u64 \<Rightarrow> u64 \<Rightarrow> effect list \<Rightarrow> bool" where
  "all_sent ty sid lid xs \<longleftrightarrow> (\<forall>x \<in> set xs. \<exists>d. x = Sent ty sid lid d)"

lemma all_sent_simps [simp]:
  "all_sent ty sid lid []" "all_sent ty sid lid (x # xs) \<longleftrightarrow> (\<exists>d. x = Sent ty sid lid d) \<and> all_sent ty sid lid xs"
  "all_sent ty sid lid (xs @ ys) \<longleftrightarrow> all_sent ty sid lid xs \<and> all_sent ty sid lid ys"
  by (auto simp: all_sent_def)

text \<open>A send of that kind of record: it does not panic, and success means that one went out.\<close>

definition sends :: "('w \<Rightarrow> instant) \<Rightarrow> u8 \<Rightarrow> u64 \<Rightarrow> u64 \<Rightarrow> ('w, 's, 'z) session_scheme \<Rightarrow>
    ('e, 'a) outcome \<Rightarrow> ('w, 's, 'z) session_scheme \<Rightarrow> bool" where
  "sends time ty sid lid st r st' \<longleftrightarrow> r \<noteq> Panic \<and>
     (\<exists>xs. all_sent ty sid lid xs \<and> link_step time st xs st' \<and> (\<forall>x. r = Done x \<longrightarrow> xs \<noteq> []))"

lemma seal_into_safe:
  assumes ok: "aead_ok A"
  shows "snd (snd (seal_into A c dir ty sid lid fl payload out)) \<noteq> Panic \<and>
    length (fst (snd (seal_into A c dir ty sid lid fl payload out))) = length out"
proof (cases "next_packet_number c = 0xffffffffffffffff \<or> 64 + length payload > 1200 \<or>
    64 + length payload > length out")
  case True
  then show ?thesis by (auto simp: seal_into_def Let_def)
next
  case False
  let ?h = "record_for c dir ty sid lid fl payload"
  have head: "write_record_header (take 48 out) ?h = Done (header_bytes ?h)"
    using False by (intro write_record_header_bytes) simp
  show ?thesis
  proof (cases "encrypt_detached A (send_key c) (noise_nonce (next_packet_number c)) (header_bytes ?h) payload")
    case None
    with False head show ?thesis by (simp add: seal_into_def Let_def record_for_def)
  next
    case (Some et)
    obtain e t where et: "et = (e, t)" by fastforce
    with aead_lengths [OF ok, of _ _ _ payload e t] Some have "length e = length payload" "length t = 16" by auto
    with False head Some et show ?thesis by (simp add: seal_into_def Let_def record_for_def)
  qed
qed

lemma sends_failed: "link_step time st [] st' \<Longrightarrow> sends time ty sid lid st (Fail e) st'"
  by (auto simp: sends_def intro: exI [of _ "[]"])

lemma io_sys_ends:
  assumes "time (world st) \<le> time (snd (f (world st)))"
  shows "io_ends (io_sys f) st (\<lambda>r st'. r \<noteq> Panic \<and> link_step time st [] st' \<and> st' = st\<lparr>world := world st'\<rparr>)"
  using assms by (auto simp: io_sys_def link_step_def split: sum.split)

lemma send_datagram_ends:
  assumes env: "socket_runs E time"
  shows "io_ends (send_datagram E d) st (\<lambda>r st'. r \<noteq> Panic \<and> link_step time st [] st' \<and> st' = st\<lparr>world := world st'\<rparr>)"
  unfolding send_datagram_def io_ends_bind
proof (rule io_ends_mono [OF io_sys_ends [of time st "ev_send E d", OF socket_runsD(3) [OF env]]], goal_cases)
  case (1 r st')
  then show ?case by (cases r) auto
qed

lemma seal_to_buffer_ends:
  assumes ok: "aead_ok A"
  shows "io_ends (seal_to_buffer A dir ty sid lid fl payload) st (\<lambda>r st'. r \<noteq> Panic \<and> link_step time st [] st')"
proof -
  obtain c out r where run: "seal_into A (cn_cipher (conn st)) dir ty sid lid fl payload (send_buffer (conn st)) = (c, out, r)"
    by (metis prod_cases3)
  with seal_into_safe [OF ok, of "cn_cipher (conn st)" dir ty sid lid fl payload "send_buffer (conn st)"]
  have "r \<noteq> Panic" "length out = length (send_buffer (conn st))" by simp_all
  moreover have "send_key c = send_key (cn_cipher (conn st))" "receive_key c = receive_key (cn_cipher (conn st))"
    "rc_connection_id c = rc_connection_id (cn_cipher (conn st))"
    using seal_into_cipher [of A "cn_cipher (conn st)" dir ty sid lid fl payload "send_buffer (conn st)"] run
    by (simp_all split: if_splits)
  ultimately show ?thesis
    by (cases r) (simp_all add: seal_to_buffer_def run link_step_def same_link_def)
qed

lemma send_record_once_ends:
  assumes ok: "aead_ok A" and env: "socket_runs E time"
  shows "io_ends (send_record_once E A dir ty sid lid fl payload) st (sends time ty sid lid st)"
  unfolding send_record_once_def io_ends_bind
proof (rule io_ends_mono [OF seal_to_buffer_ends [OF ok, of _ _ _ _ _ _ _ time]], goal_cases)
  case (1 r st1)
  show ?case
  proof (cases r)
    case (Done n)
    let ?x = "Sent ty sid lid (take n (send_buffer (conn st1)))"
    have l: "link_step time st [?x] (st1\<lparr>trace := trace st1 @ [?x]\<rparr>)"
      using 1 by (simp add: link_step_def)
    have "io_ends (send_datagram E (take n (send_buffer (conn st1)))) (st1\<lparr>trace := trace st1 @ [?x]\<rparr>)
        (sends time ty sid lid st)"
    proof (rule io_ends_mono [OF send_datagram_ends [OF env]], goal_cases)
      case (1 r2 st2)
      with link_step_trans [OF l, of "[]" st2] show ?case
        unfolding sends_def by (intro conjI exI [of _ "[?x]"]) auto
    qed
    with Done show ?thesis by (simp add: log_effect_def)
  next
    case (Fail e)
    with 1 show ?thesis by (simp add: sends_failed)
  qed (use 1 in simp)
qed

lemma send_copies_ends:
  assumes copy: "\<And>st. io_ends copy st (sends time ty sid lid st)"
  shows "all_sent ty sid lid xs \<Longrightarrow> link_step time st0 xs st \<Longrightarrow> (delivered \<longrightarrow> xs \<noteq> []) \<Longrightarrow>
    io_ends (send_copies n copy delivered e) st (sends time ty sid lid st0)"
proof (induction n arbitrary: xs st delivered e)
  case 0
  then show ?case by (auto simp: sends_def)
next
  case (Suc n)
  show ?case
    unfolding send_copies.simps io_ends_bind io_ends_attempt
  proof (rule io_ends_mono [OF copy], goal_cases)
    case (1 r st1)
    then obtain ys where ys: "r \<noteq> Panic" "all_sent ty sid lid ys" "link_step time st ys st1"
      "\<forall>x. r = Done x \<longrightarrow> ys \<noteq> []" by (auto simp: sends_def)
    have "all_sent ty sid lid (xs @ ys)" "link_step time st0 (xs @ ys) st1"
      using ys Suc.prems by (auto intro: link_step_trans)
    note IH = Suc.IH [OF this]
    show ?case using ys Suc.prems(3) by (cases r) (auto intro!: IH)
  qed
qed

lemma send_record_redundant_ends:
  assumes "aead_ok A" and "socket_runs E time"
  shows "io_ends (send_record_redundant E A dir ty sid lid fl payload) st (sends time ty sid lid st)"
  unfolding send_record_redundant_def
  by (rule send_copies_ends [where xs = "[]"]) (auto intro: send_record_once_ends assms)

lemma now_nanos_ends:
  assumes "socket_runs E time"
  shows "io_ends (now_nanos E) st (\<lambda>r st'. (\<exists>n. r = Done n) \<and> link_step time st [] st')"
  using socket_runsD(7) [OF assms] by (simp add: now_nanos_def link_step_def)

lemma send_control_ends:
  assumes ok: "aead_ok A" and env: "socket_runs E time"
  shows "io_ends (send_control E A ty sid acked window lanes) st (sends time ty sid (ack_id acked) st)"
proof (cases "control_type_ok ty")
  case True
  have "io_ends (io_bind (now_nanos E) (\<lambda>nanos. send_record_once E A HostToPhone ty sid (ack_id acked) 0
      (encode_control_payload window lanes nanos))) st (sends time ty sid (ack_id acked) st)"
    for st :: "('a, 'c, 'd) session_scheme"
    unfolding io_ends_bind
  proof (rule io_ends_mono [OF now_nanos_ends [OF env]], goal_cases)
    case (1 r st1)
    then obtain n where r: "r = Done n" and l: "link_step time st [] st1" by blast
    have "io_ends (send_record_once E A HostToPhone ty sid (ack_id acked) 0 (encode_control_payload window lanes n))
        st1 (sends time ty sid (ack_id acked) st)"
      by (rule io_ends_mono [OF send_record_once_ends [OF ok env]])
        (use link_step_trans [OF l] in \<open>fastforce simp: sends_def\<close>)
    with r show ?case by simp
  qed
  with True show ?thesis
    unfolding send_control_def by (auto intro!: send_copies_ends [where xs = "[]"])
qed (simp add: send_control_def sends_failed)

lemma send_control_once_ends:
  assumes "aead_ok A" and "socket_runs E time"
  shows "io_ends (send_control_once E A ty sid acked window lanes nanos) st (sends time ty sid (ack_id acked) st)"
  by (simp add: send_control_once_def sends_failed send_record_once_ends assms)

section \<open>What receiving lets through\<close>

text \<open>A record that the peer of this connection sealed: header and payload are authentic.\<close>

definition authentic :: "aead \<Rightarrow> connection \<Rightarrow> record_header \<Rightarrow> bytes \<Rightarrow> bool" where
  "authentic A c h p \<longleftrightarrow> (\<exists>d. sealed_as A (receive_key (cn_cipher c)) h p d) \<and>
     rh_direction h = PhoneToHost \<and> rh_connection_id h = rc_connection_id (cn_cipher c)"

lemma authentic_link: "same_link c c' \<Longrightarrow> authentic A c' h p = authentic A c h p"
  by (simp add: same_link_def authentic_def)

definition received :: "('w \<Rightarrow> instant) \<Rightarrow> aead \<Rightarrow> ('w, 's, 'z) session_scheme \<Rightarrow>
    (host_error, (record_header \<times> instant \<times> bytes) option) outcome \<Rightarrow> ('w, 's, 'z) session_scheme \<Rightarrow> bool" where
  "received time A st r st' \<longleftrightarrow> r \<noteq> Panic \<and> link_step time st [] st' \<and>
     (\<forall>h t bs. r = Done (Some (h, t, bs)) \<longrightarrow> (\<exists>p. authentic A (conn st) h p \<and>
        (slice_at bs 48 (unat (rh_payload_length h)) :: (host_error, bytes) outcome) = Done p))"

lemma received_nothing: "link_step time st [] st' \<Longrightarrow> received time A st (Done None) st'"
  by (simp add: received_def)

lemma received_error: "link_step time st [] st' \<Longrightarrow> received time A st (Fail e) st'"
  by (simp add: received_def)

lemma note_discard_ends:
  assumes "link_step time st0 [] st"
  shows "io_ends (note_discard reason t) st (received time A st0)"
  using assms by (simp add: note_discard_def update_conn_def received_def link_step_def)

lemma open_datagram_ends:
  assumes ok: "aead_ok A" and l: "link_step time st0 [] st"
  shows "io_ends (open_datagram A d t) st (received time A st0)"
proof -
  obtain c bs r where run: "open_in_place A (cn_cipher (conn st)) PhoneToHost d = (c, bs, r)"
    by (metis prod_cases3)
  have np: "r \<noteq> Panic" using open_in_place_no_panic [of A "cn_cipher (conn st)" PhoneToHost d] run by simp
  let ?st1 = "st\<lparr>conn := (conn st)\<lparr>cn_cipher := c\<rparr>\<rparr>"
  show ?thesis
  proof (cases r)
    case (Done h)
    then obtain p where p: "sealed_as A (receive_key (cn_cipher (conn st))) h p d" "rh_direction h = PhoneToHost"
      "rh_connection_id h = rc_connection_id (cn_cipher (conn st))" "bs = put_bytes 48 p d"
      "c = (cn_cipher (conn st))\<lparr>rc_replay := replay_commit (rh_packet_number h) (rc_replay (cn_cipher (conn st)))\<rparr>"
      using open_in_place_iff [OF ok] run by auto
    then have "slice_at bs 48 (unat (rh_payload_length h)) = Done p"
      by (auto simp: sealed_as_def)
    moreover have "authentic A (conn st) h p" using p by (auto simp: authentic_def)
    then have "authentic A (conn st0) h p"
      using l authentic_link [of "conn st0" "conn st"] by (simp add: link_step_def)
    ultimately show ?thesis
      using Done l p(5)
      by (auto simp: open_datagram_def run update_conn_def received_def link_step_def same_link_def)
  next
    case (Fail e)
    then have "c = cn_cipher (conn st)" using open_in_place_unchanged run by blast
    with l have l1: "link_step time st0 [] ?st1" by simp
    show ?thesis
      unfolding open_datagram_def io_ends_bind
      by (auto simp: run Fail split: option.split intro!: note_discard_ends received_error l1)
  qed (use np in simp)
qed

lemma plain_redundant_ends:
  assumes env: "socket_runs E time" and "link_step time st0 [] st"
  shows "io_ends (send_plain_connected_redundant E d) st (\<lambda>r st'. r \<noteq> Panic \<and> link_step time st0 [] st')"
  unfolding send_plain_connected_redundant_def io_seq_rules
proof (rule io_ends_mono [OF send_datagram_ends [OF env]], goal_cases)
  case (1 r st1)
  with assms(2) have l: "link_step time st0 [] st1" using link_step_trans [of time st0 "[]" st "[]" st1] by simp
  show ?case
  proof (cases r)
    case (Done u)
    have "io_ends (send_datagram E d) st1 (\<lambda>r st'. r \<noteq> Panic \<and> link_step time st0 [] st')"
      by (rule io_ends_mono [OF send_datagram_ends [OF env]])
        (use link_step_trans [OF l] in fastforce)
    with Done show ?thesis by simp
  qed (use 1 l in simp_all)
qed

lemma repeat_handshake_ends:
  assumes "socket_runs E time" and "link_step time st0 [] st"
  shows "io_ends (io_seq (send_plain_connected_redundant E d) (io_return None)) st (received time A st0)"
  unfolding io_seq_rules
proof (rule io_ends_mono [OF plain_redundant_ends [OF assms]], goal_cases)
  case (1 r st1)
  then show ?case by (cases r) (simp_all add: received_nothing received_error)
qed

text \<open>The time that the wait for a datagram took has passed.\<close>

lemma receive_record_into_ends:
  assumes ok: "aead_ok A" and env: "socket_runs E time"
  shows "io_ends (receive_record_into E A) st (received time A (st\<lparr>world := snd (ev_receive E (world st))\<rparr>))"
proof -
  let ?st0 = "st\<lparr>world := snd (ev_receive E (world st))\<rparr>"
  let ?st1 = "st\<lparr>conn := (conn st)\<lparr>last_discard := None\<rparr>, world := snd (ev_receive E (world st))\<rparr>"
  have l1: "link_step time ?st0 [] ?st1" by (simp add: link_step_def)
  then have l2: "link_step time ?st0 [] (?st1\<lparr>world := snd (ev_now E (world ?st1))\<rparr>)"
    using socket_runsD(7) [OF env, of "world ?st1"] by (auto simp: link_step_def intro: order_trans)
  show ?thesis
    unfolding receive_record_into_def io_seq_rules
    using l1 l2
    by (auto simp: update_conn_def simp del: io_seq_rules(1) split: sum.split option.split
        intro!: note_discard_ends open_datagram_ends [OF ok] received_nothing received_error
          repeat_handshake_ends [OF env])
qed

end
