(* ===== verification/Session_Safety.thy ===== *)
theory Session_Safety
  imports Gameplay_Session
begin

text \<open>
  What a gameplay session guarantees, whatever the network, the kernel and the clock do: the frames
  the sink accepts are frames the peer sealed, in the order of their sequence numbers from 0 and
  each once; an acknowledgement covers exactly the frames accepted before it; every iteration of
  the receive loop returns without a panic; and a session that ends has tried to cancel the keys
  and leaves a window that requires a fresh session.
\<close>

section \<open>The history of a session\<close>

fun accepted :: "effect list \<Rightarrow> touch_frame list" where
  "accepted [] = []"
| "accepted (Accepted f # xs) = f # accepted xs"
| "accepted (x # xs) = accepted xs"

text \<open>
  Every acknowledgement carries one less than the number of frames accepted before it (\<open>n\<close> of them
  before the list), which is \<open>NO_ACK\<close> when there is none.
\<close>

fun acks_from :: "nat \<Rightarrow> effect list \<Rightarrow> bool" where
  "acks_from n [] \<longleftrightarrow> True"
| "acks_from n (Accepted f # xs) \<longleftrightarrow> acks_from (Suc n) xs"
| "acks_from n (Released # xs) \<longleftrightarrow> acks_from n xs"
| "acks_from n (Sent ty sid lid d # xs) \<longleftrightarrow> (ty = HOST_ACK \<longrightarrow> lid = of_nat n - 1) \<and> acks_from n xs"

lemma accepted_append [simp]: "accepted (xs @ ys) = accepted xs @ accepted ys"
  by (induction xs rule: accepted.induct) auto

lemma accepted_frames [simp]: "accepted (map Accepted fs) = fs"
  by (induction fs) auto

lemma acks_from_append [simp]:
  "acks_from n (xs @ ys) \<longleftrightarrow> acks_from n xs \<and> acks_from (n + length (accepted xs)) ys"
  by (induction n xs rule: acks_from.induct) auto

lemma acks_from_frames [simp]: "acks_from n (map Accepted fs)"
  by (induction fs arbitrary: n) auto

lemma seq_from_append: "seq_from n (j + k) = seq_from n j @ seq_from (n + of_nat j) k"
  by (induction j arbitrary: n) (auto simp: algebra_simps)

lemma all_sent_history:
  assumes "all_sent ty sid lid xs"
  shows "accepted xs = []" and "(ty = HOST_ACK \<longrightarrow> lid = of_nat n - 1) \<Longrightarrow> acks_from n xs"
  using assms by (induction xs) auto

text \<open>A frame that the peer of the connection sealed.\<close>

definition peer_frame :: "aead \<Rightarrow> connection \<Rightarrow> touch_frame \<Rightarrow> bool" where
  "peer_frame A c f \<longleftrightarrow> (\<exists>h p. authentic A c h p \<and> decode_touch_payload h p = Done f)"

lemma peer_frame_link: "same_link c c' \<Longrightarrow> peer_frame A c' = peer_frame A c"
  by (intro ext) (simp add: peer_frame_def authentic_link)

lemma peer_frame_ok:
  assumes "peer_frame A c f"
  shows "distinct_pointers f" and "session_start f \<longleftrightarrow> sequence f = 0"
proof -
  obtain h p where ok: "decode_touch_payload h p = Done f" using assms by (auto simp: peer_frame_def)
  note d = decode_touch_payload_Done [OF ok]
  show "distinct_pointers f" using decode_contacts_v5_Done [OF d(11)] by (simp add: distinct_pointers_def)
  show "session_start f \<longleftrightarrow> sequence f = 0" using d(10) validate_session_start_Done by blast
qed

definition session_history :: "aead \<Rightarrow> connection \<Rightarrow> effect list \<Rightarrow> ordered_frames \<Rightarrow> bool" where
  "session_history A c new w \<longleftrightarrow>
     window_ok (peer_frame A c) w \<and> acks_from 0 new \<and> list_all (peer_frame A c) (accepted new) \<and>
     map sequence (accepted new) = seq_from 0 (length (accepted new)) \<and>
     (case of_session w of
        None \<Rightarrow> requires_session_start w \<and> accepted new = []
      | Some sid \<Rightarrow> next_sequence w = of_nat (length (accepted new)) \<and>
          list_all (\<lambda>f. session_id f = sid) (accepted new))"

lemma history_fresh: "window_ok (peer_frame A c) w \<Longrightarrow> session_history A c [] (require_fresh_session w)"
  using window_ok_fresh [of "peer_frame A c" w] by (simp add: session_history_def) (simp add: require_fresh_session_def)

lemma history_sent:
  assumes "session_history A c new w" and xs: "all_sent ty sid lid xs"
    and "ty = HOST_ACK \<longrightarrow> lid = of_nat (length (accepted new)) - 1"
  shows "session_history A c (new @ xs) w"
  using assms(1) all_sent_history(1) [OF xs] all_sent_history(2) [OF xs assms(3)]
  by (cases "of_session w") (simp_all add: session_history_def)

lemma history_push:
  assumes h: "session_history A c new w" and f: "peer_frame A c f"
    and s: "of_session w = None \<or> of_session w = Some (session_id f)"
  shows "session_history A c new (push w f)"
proof -
  have ok: "window_ok (peer_frame A c) (push w f)" and inv: "window_inv w"
    using h window_ok_push [of "peer_frame A c" w f] f by (auto simp: session_history_def) (simp add: window_ok_def)
  show ?thesis
  proof (cases "of_session w")
    case None
    with h have req: "requires_session_start w" "accepted new = []" by (simp_all add: session_history_def)
    show ?thesis
    proof (cases "session_start f")
      case True
      then have "sequence f = 0" using peer_frame_ok [OF f] by simp
      with True h ok req None show ?thesis
        by (simp add: session_history_def push_cases [OF inv]) (simp add: begin_session_def)
    next
      case False
      with h req show ?thesis by (simp add: push_cases [OF inv])
    qed
  next
    case (Some sid)
    with s h ok inv show ?thesis
      by (simp add: session_history_def push_cases [OF inv])
  qed
qed

lemma history_commit:
  assumes h: "session_history A c new w"
    and run: "window_run push next_ready window_commit (replicate (length ds) Deliver) w = (w', ds)"
    and ok: "window_ok (peer_frame A c) w'"
  shows "session_history A c (new @ map Accepted ds) w'"
proof -
  have inv: "window_inv w" using h by (simp add: session_history_def window_ok_def)
  show ?thesis
  proof (cases "of_session w")
    case None
    then have "ds = []" "w' = w" using deliver_nothing [OF no_session_not_ready [OF inv]] run by simp_all
    with h show ?thesis by simp
  next
    case (Some sid)
    have one: "ring.one_session sid (replicate (length ds) Deliver)"
      by (auto simp: ring.one_session_def arrivals_def)
    note r = ring.run_consecutive [OF inv Some one run]
    have "peer_frame A c f" if "f \<in> set ds" for f
    proof -
      have "lookup_frame w (sequence f) = Some f"
        using ring.run_origin [OF inv Some one run that] by (auto simp: arrivals_def)
      then have "Some f \<in> set (buffered w)"
        using window_inv_length [OF inv] by (auto simp: lookup_frame_def split: option.splits if_splits)
          (metis nth_mem slot_less)
      with h show ?thesis by (simp add: session_history_def window_ok_def window_frames_def)
    qed
    with r h ok Some show ?thesis
      by (auto simp: session_history_def list_all_iff seq_from_append)
  qed
qed

section \<open>Steps that keep the history\<close>

text \<open>The trace since the start of the session is a history of the connection \<open>c\<close>.\<close>

definition session_trace :: "aead \<Rightarrow> connection \<Rightarrow> effect list \<Rightarrow> ('w, 's, 'z) session_scheme \<Rightarrow> bool" where
  "session_trace A c tr st \<longleftrightarrow> same_link c (conn st) \<and>
     (\<exists>new. trace st = tr @ new \<and> session_history A c new (ordered st))"

lemma stays_conn: "stays time st st' \<Longrightarrow> conn st' = conn (st :: ('w, 's, 'z) session_scheme)"
  by (cases st; cases st') (simp add: stays_def)

lemma stays_time: "stays time st st' \<Longrightarrow> t \<le> time (world st) \<Longrightarrow> t \<le> time (world st')"
  by (auto simp: stays_def)

lemma session_trace_apart:
  assumes "session_trace A c tr st" and "apart time st st'"
  shows "session_trace A c tr st'"
  using assms stays_conn [of time st st'] by (auto simp: session_trace_def apart_def)

lemma session_trace_world [simp]: "session_trace A c tr (st\<lparr>world := w\<rparr>) = session_trace A c tr st"
  by (simp add: session_trace_def)

lemma session_trace_link:
  assumes "session_trace A c tr st" and "link_step time st [] st'"
  shows "session_trace A c tr st'"
  using assms by (auto simp: session_trace_def link_step_def intro: same_link_trans)

text \<open>The logical id of the acknowledgement of all that was accepted.\<close>

lemma session_trace_acked:
  assumes "session_trace A c tr st" and "of_session (ordered st) = Some sid"
  shows "\<exists>new. trace st = tr @ new \<and> session_history A c new (ordered st) \<and>
    ack_id (acknowledged_sequence (ordered st)) = of_nat (length (accepted new)) - 1"
  using assms by (auto simp: session_trace_def session_history_def ack_id_def acknowledged_sequence_def)

lemma session_trace_sent:
  assumes t: "session_trace A c tr st" and s: "sends time ty sid lid st r st'"
    and ack: "ty = HOST_ACK \<Longrightarrow> \<exists>k. of_session (ordered st) = Some k \<and>
      lid = ack_id (acknowledged_sequence (ordered st))"
  shows "session_trace A c tr st' \<and> sink st' = sink st \<and> ordered st' = ordered st \<and> r \<noteq> Panic"
proof -
  obtain new where new: "trace st = tr @ new" "session_history A c new (ordered st)"
    "ty = HOST_ACK \<longrightarrow> lid = of_nat (length (accepted new)) - 1"
    using t ack session_trace_acked [OF t] unfolding session_trace_def by metis
  obtain xs where xs: "all_sent ty sid lid xs" "link_step time st xs st'" "r \<noteq> Panic"
    using s by (auto simp: sends_def)
  from history_sent [OF new(2) xs(1) new(3)] new(1) xs(2,3) t show ?thesis
    by (auto simp: session_trace_def link_step_def intro: same_link_trans)
qed

context sink_contract
begin

text \<open>
  \<open>calm\<close>: between two steps of the session no frame is half submitted. \<open>quiet\<close>: so it is also
  after a failure. \<open>steady\<close>: a failure may leave a frame half submitted. The time is at least \<open>t\<close>.
\<close>

definition calm :: "aead \<Rightarrow> connection \<Rightarrow> effect list \<Rightarrow> ('w \<Rightarrow> instant) \<Rightarrow> instant \<Rightarrow>
    ('w, 's, 'z) session_scheme \<Rightarrow> bool" where
  "calm A c tr time t st \<longleftrightarrow> session_trace A c tr st \<and> idle (sink st) \<and> t \<le> time (world st)"

definition quiet :: "aead \<Rightarrow> connection \<Rightarrow> effect list \<Rightarrow> ('w \<Rightarrow> instant) \<Rightarrow> instant \<Rightarrow>
    ('e, 'a) outcome \<Rightarrow> ('w, 's, 'z) session_scheme \<Rightarrow> bool" where
  "quiet A c tr time t r st \<longleftrightarrow> r \<noteq> Panic \<and> calm A c tr time t st"

fun steady :: "aead \<Rightarrow> connection \<Rightarrow> effect list \<Rightarrow> ('w \<Rightarrow> instant) \<Rightarrow> instant \<Rightarrow>
    ('e, 'a) outcome \<Rightarrow> ('w, 's, 'z) session_scheme \<Rightarrow> bool" where
  "steady A c tr time t (Done x) st \<longleftrightarrow> calm A c tr time t st"
| "steady A c tr time t (Fail e) st \<longleftrightarrow> session_trace A c tr st \<and> held (sink st) \<and> t \<le> time (world st)"
| "steady A c tr time t Panic st \<longleftrightarrow> False"

lemma calm_held: "calm A c tr time t st \<Longrightarrow> held (sink st)"
  using idle_busy busy_held by (fastforce simp: calm_def)

lemma quiet_steady: "quiet A c tr time t r st \<Longrightarrow> steady A c tr time t r st"
  by (cases r) (auto simp: quiet_def calm_held, simp_all add: calm_def)

lemma steady_later: "steady A c tr time t r st \<Longrightarrow> t' \<le> t \<Longrightarrow> steady A c tr time t' r st"
  by (cases r) (auto simp: calm_def)

lemma calm_apart: "calm A c tr time t st \<Longrightarrow> apart time st st' \<Longrightarrow> idle (sink st') \<Longrightarrow> calm A c tr time t st'"
  by (auto simp: calm_def apart_def stays_def intro: session_trace_apart [unfolded apart_def stays_def])

lemma calm_link: "calm A c tr time t st \<Longrightarrow> link_step time st [] st' \<Longrightarrow> calm A c tr time t st'"
  using session_trace_link [of A c tr st time st'] by (simp add: calm_def link_step_def)

lemma calm_world:
  "calm A c tr time t st \<Longrightarrow> time (world st) \<le> time w \<Longrightarrow> calm A c tr time t (st\<lparr>world := w\<rparr>)"
  by (simp add: calm_def)

lemma calm_conn: "calm A c tr time t st \<Longrightarrow> same_link (conn st) k \<Longrightarrow> calm A c tr time t (st\<lparr>conn := k\<rparr>)"
  by (auto simp: calm_def session_trace_def intro: same_link_trans)

lemma steady_bind:
  assumes "io_ends m st (steady A c tr time t)" and "\<And>x st'. calm A c tr time t st' \<Longrightarrow> io_ends (f x) st' (steady A c tr time t)"
  shows "io_ends (io_bind m f) st (steady A c tr time t)"
  unfolding io_ends_bind
proof (rule io_ends_mono [OF assms(1)], goal_cases)
  case (1 r st')
  then show ?case using assms(2) by (cases r) auto
qed

lemma quiet_bind:
  assumes "io_ends m st (quiet A c tr time t)" and "\<And>x st'. calm A c tr time t st' \<Longrightarrow> io_ends (f x) st' (quiet A c tr time t)"
  shows "io_ends (io_bind m f) st (quiet A c tr time t)"
  unfolding io_ends_bind
proof (rule io_ends_mono [OF assms(1)], goal_cases)
  case (1 r st')
  then show ?case using assms(2) by (cases r) (auto simp: quiet_def)
qed

lemma quiet_attempt:
  assumes "io_ends m st (quiet A c tr time t)"
  shows "io_ends (io_attempt m) st (quiet A c tr time t)"
  unfolding io_ends_attempt
proof (rule io_ends_mono [OF assms], goal_cases)
  case (1 r st')
  then show ?case by (cases r) (auto simp: quiet_def)
qed

lemma quiet_convert:
  assumes "io_ends m st (quiet A c tr time t)"
  shows "io_ends (io_convert g m) st (quiet A c tr time t)"
  unfolding io_convert_rules
proof (rule io_ends_mono [OF assms], goal_cases)
  case (1 r st')
  then show ?case by (cases r) (auto simp: quiet_def)
qed

lemma quiet_seq:
  "io_ends m st (quiet A c tr time t) \<Longrightarrow> (\<And>st'. calm A c tr time t st' \<Longrightarrow> io_ends k st' (quiet A c tr time t)) \<Longrightarrow>
    io_ends (io_seq m k) st (quiet A c tr time t)"
  unfolding io_seq_def by (rule quiet_bind)

lemma quiet_when:
  "calm A c tr time t st \<Longrightarrow> (b \<Longrightarrow> io_ends m st (quiet A c tr time t)) \<Longrightarrow> io_ends (io_when b m) st (quiet A c tr time t)"
  by (simp add: quiet_def)

lemma quiet_basic:
  "calm A c tr time t st \<Longrightarrow> io_ends (io_return x) st (quiet A c tr time t)"
  "calm A c tr time t st \<Longrightarrow> io_ends (io_fail e) st (quiet A c tr time t)"
  "calm A c tr time t st \<Longrightarrow> io_ends (io_gets g) st (quiet A c tr time t)"
  by (simp_all add: quiet_def)

lemma quiet_world:
  assumes "\<And>w. time w \<le> time (snd (f w))" and "calm A c tr time t st"
  shows "io_ends (io_world f) st (quiet A c tr time t)"
  using calm_world [OF assms(2) assms(1)] by (simp add: quiet_def)

lemma quiet_update_conn:
  "calm A c tr time t st \<Longrightarrow> same_link (conn st) (g (conn st)) \<Longrightarrow> io_ends (update_conn g) st (quiet A c tr time t)"
  by (simp add: update_conn_def quiet_def calm_conn)

lemma quiet_sys:
  assumes "\<And>w. time w \<le> time (snd (f w))" and "calm A c tr time t st"
  shows "io_ends (io_sys f) st (quiet A c tr time t)"
  unfolding io_sys_def
  by (intro quiet_bind [OF quiet_world [OF assms]]) (auto split: sum.split intro: quiet_basic simp del: io_ends_fail io_ends_return)

lemma quiet_records:
  assumes "calm A c tr time t st" and "records time m st"
  shows "io_ends m st (quiet A c tr time t)"
proof (rule records_mono [OF assms(2)])
  fix st' assume "only_metered time st st'"
  then have "apart time st st'" "sink st' = sink st" by (auto dest: only_metered_apart)
  with assms(1) calm_apart [OF assms(1)] show "quiet A c tr time t (Done ()) st'"
    by (simp add: quiet_def) (simp add: calm_def)
qed

end

section \<open>The operations of the loop\<close>

context sink_contract
begin

lemma quiet_sent:
  assumes "calm A c tr time t st" and "io_ends m st (sends time ty sid lid st)"
    and "ty = HOST_ACK \<Longrightarrow> \<exists>k. of_session (ordered st) = Some k \<and>
      lid = ack_id (acknowledged_sequence (ordered st))"
  shows "io_ends m st (quiet A c tr time t)"
proof (rule io_ends_mono [OF assms(2)], goal_cases)
  case (1 r st')
  then have "time (world st) \<le> time (world st')" by (auto simp: sends_def link_step_def)
  with 1 session_trace_sent [of A c tr st time ty sid lid r st'] assms(1,3) show ?case
    by (simp add: quiet_def calm_def)
qed

lemma quiet_reads:
  assumes "socket_runs E time" and "calm A c tr time t st"
  shows "io_ends (io_now E) st (quiet A c tr time t)"
    and "io_ends (io_stopping E) st (quiet A c tr time t)"
    and "io_ends (io_world (ev_changed E)) st (quiet A c tr time t)"
  by (intro quiet_world assms socket_runsD [OF assms(1)])+

lemma quiet_set_timeout:
  "socket_runs E time \<Longrightarrow> calm A c tr time t st \<Longrightarrow> io_ends (set_read_timeout E d) st (quiet A c tr time t)"
  unfolding set_read_timeout_def by (intro quiet_sys socket_runsD)

lemma quiet_elapsed:
  "socket_runs E time \<Longrightarrow> calm A c tr time t st \<Longrightarrow> io_ends (io_elapsed E d) st (quiet A c tr time t)"
  unfolding io_elapsed_def by (intro quiet_bind quiet_reads quiet_basic)

lemma quiet_nanos:
  "socket_runs E time \<Longrightarrow> calm A c tr time t st \<Longrightarrow> io_ends (now_nanos E) st (quiet A c tr time t)"
  unfolding now_nanos_def by (intro quiet_bind quiet_reads quiet_basic)

lemma quiet_note:
  "socket_runs E time \<Longrightarrow> calm A c tr time t st \<Longrightarrow> io_ends (metrics_note E k s q x y) st (quiet A c tr time t)"
  by (rule quiet_records [OF _ records_note [OF socket_runsD(1)]])

lemma quiet_stall:
  "socket_runs E time \<Longrightarrow> calm A c tr time t st \<Longrightarrow> io_ends (note_stall E x y) st (quiet A c tr time t)"
  unfolding note_stall_def by (intro quiet_bind quiet_basic quiet_note)

lemma quiet_interface:
  "socket_runs E time \<Longrightarrow> calm A c tr time t st \<Longrightarrow> io_ends (check_interface E) st (quiet A c tr time t)"
  unfolding check_interface_def by (intro quiet_bind quiet_when quiet_seq quiet_basic quiet_reads quiet_stall)

lemma quiet_control:
  assumes "aead_ok A" and "socket_runs E time" and "calm A c tr time t st" and "ty \<noteq> HOST_ACK"
  shows "io_ends (send_control E A ty sid acked wnd lanes) st (quiet A c tr time t)"
    and "io_ends (send_control_once E A ty sid acked wnd lanes nanos) st (quiet A c tr time t)"
  using assms(4)
  by (auto intro!: quiet_sent [OF assms(3) send_control_ends [OF assms(1,2)]]
      quiet_sent [OF assms(3) send_control_once_ends [OF assms(1,2)]])

lemma quiet_hello:
  assumes ok: "aead_ok A" and env: "socket_runs E time" and calm: "calm A c tr time t st"
  shows "io_ends (repeat_hello E A v) st (quiet A c tr time t)"
  unfolding repeat_hello_def
  by (intro quiet_bind [OF quiet_elapsed [OF env calm]])
    (auto intro!: quiet_bind quiet_seq quiet_basic quiet_nanos [OF env] quiet_reads [OF env]
        quiet_control(2) [OF ok env]
      simp del: io_ends_bind io_seq_rules io_ends_return io_world_rules)

lemma quiet_await:
  assumes ok: "aead_ok A" and env: "socket_runs E time" and calm: "calm A c tr time t st"
  shows "io_ends (await_session E A deadline v) st (quiet A c tr time t)"
  unfolding await_session_def
  by (intro quiet_bind [OF quiet_basic(3) [OF calm]])
    (auto intro!: quiet_bind [OF quiet_reads(1) [OF env]] quiet_basic quiet_hello [OF ok env]
      simp del: io_ends_bind io_ends_return io_ends_fail io_world_rules)

lemma quiet_active:
  assumes env: "socket_runs E time" and calm: "calm A c tr time t st"
  shows "io_ends (check_active_input E S v) st (quiet A c tr time t)"
  unfolding check_active_input_def
  by (intro quiet_bind quiet_when quiet_seq quiet_basic quiet_elapsed [OF env] quiet_stall [OF env] calm)

lemma quiet_idle_peer:
  assumes env: "socket_runs E time" and calm: "calm A c tr time t st"
  shows "io_ends (check_idle_peer E S v) st (quiet A c tr time t)"
  unfolding check_idle_peer_def
  by (intro quiet_bind quiet_when quiet_seq quiet_basic quiet_elapsed [OF env] calm)

lemma quiet_service:
  assumes env: "socket_runs E time" and calm: "calm A c tr time t st"
  shows "io_ends (service_deferred E S) st (quiet A c tr time t)"
proof (rule io_ends_mono [OF service_deferred_ends [OF socket_runsD(1) [OF env]]], goal_cases)
  case (2 r st')
  with calm show ?case by (auto simp: quiet_def intro: calm_apart)
qed (use calm in \<open>simp add: calm_def\<close>)

lemma quiet_adjust:
  assumes env: "socket_runs E time" and calm: "calm A c tr time t st"
  shows "io_ends (adjust_timeout E S v) st (quiet A c tr time t)"
proof -
  have wanted: "io_ends (deferred_read_timeout E S base) st (quiet A c tr time t)" for base
  proof (rule io_ends_mono [OF deferred_read_timeout_ends [OF socket_runsD(1) [OF env]]], goal_cases)
    case (1 r st')
    with calm have "calm A c tr time t st'" by (intro calm_apart [OF calm]) (auto simp: calm_def)
    with 1 show ?case by (auto simp: quiet_def)
  qed
  show ?thesis
    unfolding adjust_timeout_def
    by (auto intro!: quiet_bind [OF wanted] quiet_seq quiet_basic quiet_set_timeout [OF env] calm
        simp del: io_ends_bind io_seq_rules io_ends_return)
qed

lemma quiet_discard:
  assumes env: "socket_runs E time" and calm: "calm A c tr time t st"
  shows "io_ends (report_discard E) st (quiet A c tr time t)"
  unfolding report_discard_def
  by (intro quiet_bind [OF quiet_basic(3) [OF calm]])
    (auto split: option.split intro!: quiet_bind quiet_seq quiet_basic quiet_update_conn
      quiet_records [OF _ records_record [OF socket_runsD(1) [OF env]]]
      simp del: io_ends_bind io_seq_rules io_ends_return io_ends_gets)

end

section \<open>A frame\<close>

lemma window_ok_deliver:
  "window_run push next_ready window_commit (replicate k Deliver) w = (w', ds) \<Longrightarrow> window_ok P w \<Longrightarrow> window_ok P w'"
proof (induction k arbitrary: w ds)
  case (Suc k)
  then show ?case
    by (auto simp: Let_def split: option.splits intro: window_ok_commit)
      (metis prod.collapse window_ok_commit)
qed simp

lemma window_ok_mono: "window_ok P w \<Longrightarrow> (\<And>f. P f \<Longrightarrow> Q f) \<Longrightarrow> window_ok Q w"
  by (auto simp: window_ok_def window_frames_def)

lemma session_trace_committed:
  assumes t: "session_trace A c tr st" and com: "committed time st ds st'"
  shows "session_trace A c tr st'"
proof -
  obtain new where new: "trace st = tr @ new" "session_history A c new (ordered st)"
    using t by (auto simp: session_trace_def)
  have run: "window_run push next_ready window_commit (replicate (length ds) Deliver) (ordered st) = (ordered st', ds)"
    and tr': "trace st' = trace st @ map Accepted ds" and "conn st' = conn st"
    using com stays_conn [of time st st'] by (auto simp: committed_def)
  moreover have "window_ok (peer_frame A c) (ordered st')"
    using window_ok_deliver [OF run] new(2) by (simp add: session_history_def)
  ultimately show ?thesis
    using history_commit [OF new(2) run] new(1) t by (auto simp: session_trace_def)
qed

lemma session_trace_push:
  assumes "session_trace A c tr st" and "peer_frame A c f"
    and "of_session (ordered st) = None \<or> of_session (ordered st) = Some (session_id f)"
    and "stays time st st'" and "trace st' = trace st" and "ordered st' = push (ordered st) f"
  shows "session_trace A c tr st'"
  using assms history_push [OF _ assms(2,3)] stays_conn [of time st st'] by (auto simp: session_trace_def)

context sink_contract
begin

lemma quiet_then_bind:
  assumes "io_ends m st (quiet A c tr time t)" and "\<And>x st'. calm A c tr time t st' \<Longrightarrow> io_ends (f x) st' Q"
    and "\<And>e st'. calm A c tr time t st' \<Longrightarrow> Q (Fail e) st'"
  shows "io_ends (io_bind m f) st Q"
  unfolding io_ends_bind
proof (rule io_ends_mono [OF assms(1)], goal_cases)
  case (1 r st')
  then show ?case using assms(2,3) by (cases r) (auto simp: quiet_def)
qed

lemma quiet_then:
  assumes "io_ends m st (quiet A c tr time t)" and "\<And>st'. calm A c tr time t st' \<Longrightarrow> io_ends k st' Q"
    and "\<And>e st'. calm A c tr time t st' \<Longrightarrow> Q (Fail e) st'"
  shows "io_ends (io_seq m k) st Q"
  unfolding io_seq_def by (rule quiet_then_bind [OF assms])

lemma quiet_receive:
  assumes ok: "aead_ok A" and env: "socket_runs E time" and calm: "calm A c tr time t st"
    and wait: "\<And>w. t \<le> time w \<Longrightarrow> t' \<le> time (snd (ev_receive E w))"
  shows "io_ends (receive_reported E A) st (\<lambda>r st'. quiet A c tr time t' r st' \<and>
    (\<forall>h x bs. r = Done (Some (h, x, bs)) \<longrightarrow> (\<exists>p. authentic A c h p \<and>
        (slice_at bs 48 (unat (rh_payload_length h)) :: (host_error, bytes) outcome) = Done p)))"
    (is "io_ends _ _ ?Q")
  unfolding receive_reported_def io_ends_bind io_ends_attempt
proof (rule io_ends_mono [OF receive_record_into_ends [OF ok env]], goal_cases)
  case (1 r st1)
  let ?st0 = "st\<lparr>world := snd (ev_receive E (world st))\<rparr>"
  have "calm A c tr time t' ?st0" using calm wait by (simp add: calm_def)
  with 1 have calm1: "calm A c tr time t' st1" and np: "r \<noteq> Panic"
    by (auto simp: received_def intro: calm_link)
  have link: "same_link c (conn st)" using calm by (simp add: calm_def session_trace_def)
  note discard = quiet_discard [OF env calm1]
  show ?case
  proof (cases r)
    case (Done x)
    with 1 link have "\<forall>h t bs. x = Some (h, t, bs) \<longrightarrow> (\<exists>p. authentic A c h p \<and>
        (slice_at bs 48 (unat (rh_payload_length h)) :: (host_error, bytes) outcome) = Done p)"
      by (auto simp: received_def authentic_link)
    with Done show ?thesis by (auto intro!: quiet_then [OF discard] simp: quiet_def simp del: io_seq_rules)
  next
    case (Fail e)
    then show ?thesis by (auto intro!: quiet_then [OF discard] simp: quiet_def simp del: io_seq_rules)
  qed (use np in auto)
qed

lemma quiet_ping:
  assumes "aead_ok A" and "socket_runs E time" and "calm A c tr time t st"
  shows "io_ends (handle_ping E A v h arrival) st (quiet A c tr time t)"
  unfolding handle_ping_def Let_def
  by (intro quiet_bind [OF quiet_basic(3) [OF assms(3)]])
    (auto intro!: quiet_seq quiet_basic quiet_control(1) [OF assms(1,2)]
      simp del: io_ends_bind io_seq_rules io_ends_return io_ends_fail)

lemma quiet_establish:
  assumes env: "socket_runs E time" and calm: "calm A c tr time t st"
  shows "io_ends (establish E v) st (quiet A c tr time t)"
  unfolding establish_def
  by (intro quiet_bind [OF quiet_basic(3) [OF calm]])
    (auto intro!: quiet_seq quiet_basic quiet_set_timeout [OF env] simp del: io_ends_bind io_seq_rules io_ends_return)

lemma quiet_acknowledge:
  assumes ok: "aead_ok A" and env: "socket_runs E time" and calm: "calm A c tr time t st"
    and sid: "of_session (ordered st) = Some sid"
  shows "io_ends (acknowledge E A ctl progressed sid (acknowledged_sequence (ordered st))) st (quiet A c tr time t)"
proof -
  let ?acked = "acknowledged_sequence (ordered st)"
  let ?now = "snd (ev_now E (world st))"
  have calm1: "calm A c tr time t (st\<lparr>world := ?now\<rparr>)"
    by (intro calm_world calm socket_runsD(7) [OF env])
  have ack: "io_ends (send_ack E A progressed sid ?acked lanes) (st\<lparr>world := ?now\<rparr>) (quiet A c tr time t)" for lanes
  proof (cases progressed)
    case True
    have "io_ends (send_control E A HOST_ACK sid ?acked RECEIVE_WINDOW lanes) (st\<lparr>world := ?now\<rparr>) (quiet A c tr time t)"
      using sid by (intro quiet_sent [OF calm1 send_control_ends [OF ok env]]) auto
    with True show ?thesis by (simp add: send_ack_def)
  next
    case False
    let ?later = "snd (ev_now E ?now)"
    have "calm A c tr time t (st\<lparr>world := ?later\<rparr>)"
      using calm_world [OF calm1, of ?later] socket_runsD(7) [OF env, of ?now] by simp
    then have "io_ends (send_control_once E A HOST_ACK sid ?acked RECEIVE_WINDOW lanes n)
        (st\<lparr>world := ?later\<rparr>) (quiet A c tr time t)" for n
      using sid by (intro quiet_sent [OF _ send_control_once_ends [OF ok env]]) auto
    with False show ?thesis by (simp add: send_ack_def now_nanos_def)
  qed
  show ?thesis
    unfolding acknowledge_def io_ends_bind io_world_rules then_ends.simps
    by (auto intro!: quiet_bind [OF quiet_attempt [OF ack]] quiet_seq quiet_basic calm1
        quiet_records [OF _ records_ack [OF socket_runsD(1) [OF env]]] split: sum.split
        simp del: io_ends_bind io_seq_rules io_ends_return io_ends_fail io_ends_attempt)
qed

lemma quiet_progress:
  "socket_runs E time \<Longrightarrow> calm A c tr time t st \<Longrightarrow> io_ends (note_progress E ctl p) st (quiet A c tr time t)"
  unfolding note_progress_def
  by (auto intro!: quiet_bind [OF quiet_reads(1)] quiet_basic simp del: io_ends_bind io_ends_return)

lemma steady_commit:
  assumes "clock_runs E time" and "calm A c tr time t st" and "\<And>f. peer_frame A c f \<Longrightarrow> frame_ok f"
  shows "io_ends (io_convert HostIo (commit_ready E S)) st (steady A c tr time t)"
  unfolding io_convert_rules
proof (rule io_ends_mono [OF commit_ready_ends [OF assms(1)]], goal_cases)
  case 1
  then show ?case
    using assms(2,3) by (auto simp: calm_def session_trace_def session_history_def intro: window_ok_mono)
next
  case (3 r st')
  moreover have "stays time st st'" using 3 by (cases r) (auto simp: commit_inv_def committed_def)
  ultimately show ?case using assms(2)
    by (cases r) (auto simp: calm_def commit_inv_def intro: session_trace_committed busy_held stays_time)
qed (use assms(2) in \<open>simp add: calm_def\<close>)

end

section \<open>An iteration\<close>

context sink_contract
begin

lemma steady_quiet: "io_ends m st (quiet A c tr time t) \<Longrightarrow> io_ends m st (steady A c tr time t)"
  by (erule io_ends_mono) (rule quiet_steady)

lemma steady_seq:
  "io_ends m st (steady A c tr time t) \<Longrightarrow> (\<And>st'. calm A c tr time t st' \<Longrightarrow> io_ends k st' (steady A c tr time t)) \<Longrightarrow>
    io_ends (io_seq m k) st (steady A c tr time t)"
  unfolding io_seq_def by (rule steady_bind)

lemma calm_push:
  assumes "clock_runs E time" and "calm A c tr time t st" and "peer_frame A c f"
    and "of_session (ordered st) = None \<or> of_session (ordered st) = Some (session_id f)"
  shows "io_ends (receive_ordered E f arrival) st (steady A c tr time t)"
proof (rule io_ends_mono [OF receive_ordered_ends [OF assms(1)]], goal_cases)
  case (1 r st')
  with session_trace_push [OF _ assms(3,4), of tr time st'] assms(2) stays_time [of time st st' t] show ?case
    by (simp add: calm_def)
qed

lemma steady_frame:
  fixes st :: "('w, 's, 'z) session_scheme"
  assumes ok: "aead_ok A" and env: "socket_runs E time" and calm: "calm A c tr time t st"
    and peer: "\<And>f. peer_frame A c f \<Longrightarrow> frame_ok f" and f: "peer_frame A c f"
  shows "io_ends (process_gameplay_frame E A S ctl f arrival) st (steady A c tr time t)"
proof -
  note clock = socket_runsD(1) [OF env]
  have last: "io_ends (io_bind (io_gets ordered) (\<lambda>w. case of_session w of
       None \<Rightarrow> io_return ctl
     | Some sid \<Rightarrow> if sid \<noteq> session_id f then io_return ctl
         else acknowledge E A ctl p sid (acknowledged_sequence w))) st' (steady A c tr time t)"
    if "calm A c tr time t st'" for st' :: "('w, 's, 'z) session_scheme" and p ctl
    using that quiet_acknowledge [OF ok env that]
    by (auto intro!: steady_quiet quiet_basic split: option.split
        simp del: io_ends_return)
  have progress: "io_ends (note_progress E ctl p) st' (steady A c tr time t)" if "calm A c tr time t st'"
    for st' :: "('w, 's, 'z) session_scheme" and p
    by (rule steady_quiet [OF quiet_progress [OF env that]])
  note rest = steady_bind [OF progress last] steady_bind [OF steady_commit [OF clock _ peer]]
    steady_seq [OF calm_push [OF clock calm f]]
  show ?thesis
    unfolding process_gameplay_frame_def io_ends_bind io_ends_gets then_ends.simps
    by (auto intro!: rest steady_quiet [OF quiet_basic(2) [OF calm]]
        simp del: io_ends_bind io_seq_rules io_ends_fail)
qed

lemma steady_touch:
  assumes ok: "aead_ok A" and env: "socket_runs E time" and calm: "calm A c tr time t st"
    and peer: "\<And>f. peer_frame A c f \<Longrightarrow> frame_ok f"
    and payload: "\<exists>p. authentic A c h p \<and>
      (slice_at bs 48 (unat (rh_payload_length h)) :: (host_error, bytes) outcome) = Done p"
  shows "io_ends (handle_touch E A S v h arrival bs) st (steady A c tr time t)"
proof -
  obtain p where p: "authentic A c h p"
    and slice: "(slice_at bs 48 (unat (rh_payload_length h)) :: (host_error, bytes) outcome) = Done p"
    using payload by blast
  show ?thesis
  proof (cases "decode_touch_payload h p")
    case (Done f)
    with p have "peer_frame A c f" by (auto simp: peer_frame_def)
    note frame = steady_frame [OF ok env calm peer this]
    have "io_ends (io_bind (process_gameplay_frame E A S (sv_control v) f arrival)
        (\<lambda>ctl. establish E (v\<lparr>sv_control := ctl\<rparr>))) st (steady A c tr time t)"
      by (intro steady_bind frame steady_quiet quiet_establish env)
    with Done slice show ?thesis by (simp add: handle_touch_def)
  next
    case (Fail e)
    with slice calm show ?thesis by (simp add: handle_touch_def calm_held) (simp add: calm_def)
  qed (use decode_touch_payload_no_panic in simp)
qed

lemma steady_record:
  assumes ok: "aead_ok A" and env: "socket_runs E time" and calm: "calm A c tr time t st"
    and peer: "\<And>f. peer_frame A c f \<Longrightarrow> frame_ok f"
    and payload: "\<exists>p. authentic A c h p \<and>
      (slice_at bs 48 (unat (rh_payload_length h)) :: (host_error, bytes) outcome) = Done p"
  shows "io_ends (handle_record E A S v h arrival bs) st (steady A c tr time t)"
proof -
  have "io_ends (io_seq (update_conn (\<lambda>c. c\<lparr>peer_aborted := True\<rparr>)) (io_fail (HostIo (io_err ConnectionAborted)) ::
      (_, _, serve_vars) io)) st (steady A c tr time t)"
    by (intro steady_quiet quiet_seq quiet_update_conn quiet_basic calm) simp
  then show ?thesis
    by (auto simp: handle_record_def simp del: io_ends_fail io_seq_rules
        intro: steady_quiet [OF quiet_ping [OF ok env calm]] steady_quiet [OF quiet_basic(2) [OF calm]]
          steady_touch [OF ok env calm peer payload])
qed

text \<open>An iteration that goes on has waited for a datagram; \<open>t'\<close> bounds the time after that wait.\<close>

lemma serve_iteration_ends:
  fixes st :: "('w, 's, 'z) session_scheme"
  assumes ok: "aead_ok A" and env: "socket_runs E time" and calm: "calm A c tr time t st"
    and peer: "\<And>f. peer_frame A c f \<Longrightarrow> frame_ok f"
    and wait: "\<And>w. t \<le> time w \<Longrightarrow> t' \<le> time (snd (ev_receive E w))" and later: "t \<le> t'"
  shows "io_ends (serve_iteration E A S deadline v) st
    (iterated (\<lambda>_. calm A c tr time t') (steady A c tr time t))" (is "io_ends _ _ ?Q")
proof -
  have failed: "?Q (Fail e) st'" if "calm A c tr time u st'" "t \<le> u" for e u and st' :: "('w, 's, 'z) session_scheme"
    using that calm_held [OF that(1)] by (simp add: calm_def)
  have receive: "io_ends (io_bind (receive_reported E A) (\<lambda>r. case r of
        None \<Rightarrow> io_return (Continue v)
      | Some (h, arrival, bs) \<Rightarrow>
          io_bind (handle_record E A S v h arrival bs) (\<lambda>v. io_return (Continue v)))) st' ?Q"
    if calm': "calm A c tr time t st'" for st' :: "('w, 's, 'z) session_scheme" and v
    unfolding io_ends_bind
  proof (rule io_ends_mono [OF quiet_receive [OF ok env calm' wait]], goal_cases)
    case (2 r st1)
    have handled: "io_ends (io_bind (handle_record E A S v h arrival bs) (\<lambda>v. io_return (Continue v))) st1 ?Q"
      if "calm A c tr time t' st1" "\<exists>p. authentic A c h p \<and>
        (slice_at bs 48 (unat (rh_payload_length h)) :: (host_error, bytes) outcome) = Done p" for h arrival bs
      unfolding io_ends_bind
    proof (rule io_ends_mono [OF steady_record [OF ok env that(1) peer that(2)]], goal_cases)
      case (2 r st2)
      then show ?case using later by (cases r) simp_all
    qed
    show ?case
    proof (cases r)
      case (Done x)
      with 2 have "calm A c tr time t' st1" by (simp add: quiet_def)
      with 2 Done show ?thesis by (auto split: option.split simp del: io_ends_bind intro!: handled)
    qed (use 2 failed later in \<open>auto simp: quiet_def\<close>)
  qed
  have now: "calm A c tr time t (st\<lparr>world := snd (ev_stopping E (world st))\<rparr>)"
    by (intro calm_world calm socket_runsD(8) [OF env])
  note seq = quiet_then [where Q = ?Q, OF _ _ failed] and bind = quiet_then_bind [where Q = ?Q, OF _ _ failed]
  note rest = bind [OF quiet_adjust [OF env] receive] seq [OF quiet_convert [OF quiet_service [OF env]]]
    seq [OF quiet_idle_peer [OF env]] seq [OF quiet_active [OF env]] bind [OF quiet_await [OF ok env]]
    seq [OF quiet_interface [OF env]]
  from now have stop: "?Q (Done (Break ())) (st\<lparr>world := snd (ev_stopping E (world st))\<rparr>)"
    by (simp add: calm_def)
  from now show ?thesis
    unfolding serve_iteration_def io_ends_bind io_world_rules then_ends.simps
    by (auto intro!: rest stop simp del: io_ends_bind io_seq_rules io_convert_rules iterated.simps)
qed

end

section \<open>A session from its start to its end\<close>

text \<open>What the trace of a session \<open>new\<close> tells of the frames and the acknowledgements.\<close>

definition session_log :: "aead \<Rightarrow> connection \<Rightarrow> effect list \<Rightarrow> bool" where
  "session_log A c new \<longleftrightarrow> list_all (peer_frame A c) (accepted new) \<and>
     map sequence (accepted new) = seq_from 0 (length (accepted new)) \<and>
     (\<exists>sid. list_all (\<lambda>f. session_id f = sid) (accepted new)) \<and> acks_from 0 new"

lemma session_history_log: "session_history A c new w \<Longrightarrow> session_log A c new"
  by (cases "of_session w") (auto simp: session_history_def session_log_def)

lemma session_trace_log:
  assumes "session_trace A c tr st"
  shows "\<exists>new. trace st = tr @ new \<and> session_log A c new"
  using assms session_history_log by (auto simp: session_trace_def)

lemma session_trace_start:
  "window_inv (ordered st) \<Longrightarrow>
    session_trace A (conn st) (trace st) (st\<lparr>ordered := require_fresh_session (ordered st)\<rparr>)"
  using fresh_window_ok [of "ordered st"]
  by (auto simp: session_trace_def session_history_def) (simp add: require_fresh_session_def)

context sink_contract
begin

lemma calm_start:
  assumes "window_inv (ordered st)" and "idle (sink st)" and "t \<le> time (world st)"
  shows "calm A (conn st) (trace st) time t (st\<lparr>ordered := require_fresh_session (ordered st)\<rparr>)"
  using session_trace_start [OF assms(1)] assms(2,3) by (simp add: calm_def)

lemma quiet_start:
  assumes ok: "aead_ok A" and env: "socket_runs E time" and calm: "calm A c tr time t st"
  shows "io_ends (serve_start E A lanes) st (quiet A c tr time t)"
  unfolding serve_start_def
  by (intro quiet_bind quiet_seq quiet_reads(1) [OF env] quiet_sys quiet_set_timeout [OF env] socket_runsD [OF env]
      quiet_control(1) [OF ok env] quiet_basic calm) simp_all

lemma iterations_calm:
  assumes ok: "aead_ok A" and env: "socket_runs E time" and calm: "calm A c tr time 0 st"
    and peer: "\<And>f. peer_frame A c f \<Longrightarrow> frame_ok f"
    and run: "io_reaches (serve_iteration E A S deadline) v st v' st'"
  shows "calm A c tr time 0 st'"
  using io_reaches_inv [where I = "\<lambda>_. calm A c tr time 0", OF run calm]
    io_ends_safe [OF serve_iteration_ends [OF ok env _ peer, where t = 0 and t' = 0]] by blast

lemma iterated_conseq:
  assumes "iterated I Q r st" and "\<And>y. I y st \<Longrightarrow> J y st" and "\<And>r. Q r st \<Longrightarrow> R r st"
  shows "iterated J R r st"
proof (cases r)
  case (Done fl)
  with assms show ?thesis by (cases fl) simp_all
qed (use assms in simp_all)

text \<open>The loop ends when the host is stopped, if waiting for a datagram takes time.\<close>

lemma serve_loop_ends:
  assumes ok: "aead_ok A" and env: "socket_runs E time" and calm: "calm A c tr time t st"
    and peer: "\<And>f. peer_frame A c f \<Longrightarrow> frame_ok f"
    and wait: "\<And>w. time w < time (snd (ev_receive E w))"
    and stop: "\<And>w. T \<le> time w \<Longrightarrow> fst (ev_stopping E w)"
  shows "io_ends (io_loop (serve_iteration E A S deadline) v) st (steady A c tr time t)"
proof (rule io_loop_ends [where I = "\<lambda>_. calm A c tr time t" and \<mu> = "\<lambda>_ st'. T - time (world st')"])
  fix v and st1 :: "('a, 's, 'c) session_scheme" assume I: "calm A c tr time t st1"
  show "io_ends (serve_iteration E A S deadline v) st1 (iterated (\<lambda>y st'. calm A c tr time t st' \<and>
      T - time (world st') < T - time (world st1)) (steady A c tr time t))"
  proof (cases "fst (ev_stopping E (world st1))")
    case True
    with I show ?thesis by (simp add: serve_iteration_def calm_world socket_runsD(8) [OF env])
  next
    case False
    then have before: "time (world st1) < T" using stop by (metis not_le)
    have later: "Suc (time (world st1)) \<le> time (snd (ev_receive E w))" if "time (world st1) \<le> time w" for w
      using wait [of w] that by simp
    have t: "t \<le> time (world st1)" using I by (simp add: calm_def)
    have "calm A c tr time (time (world st1)) st1" using I by (simp add: calm_def)
    note once = serve_iteration_ends [OF ok env this peer later le_SucI [OF order.refl]]
    show ?thesis
    proof (rule io_ends_mono [OF once], goal_cases)
      case (3 r st')
      then show ?case
        by (rule iterated_conseq) (use before t steady_later [OF _ t] in \<open>auto simp: calm_def\<close>)
    qed
  qed
qed (rule calm)

end

context sink_contract
begin

text \<open>After the loop a frame may be half submitted, but whatever is down can still be released.\<close>

definition ending :: "aead \<Rightarrow> connection \<Rightarrow> effect list \<Rightarrow> ('w \<Rightarrow> instant) \<Rightarrow> instant \<Rightarrow>
    ('w, 's, 'z) session_scheme \<Rightarrow> bool" where
  "ending A c tr time t st \<longleftrightarrow> session_trace A c tr st \<and> held (sink st) \<and> t \<le> time (world st)"

lemma steady_ending: "steady A c tr time t r st \<Longrightarrow> r \<noteq> Panic \<and> ending A c tr time t st"
  by (cases r) (auto simp: ending_def calm_held, simp_all add: calm_def)

lemma ending_world:
  "ending A c tr time t st \<Longrightarrow> time (world st) \<le> time w \<Longrightarrow> ending A c tr time t (st\<lparr>world := w\<rparr>)"
  by (simp add: ending_def)

lemma notify_ends:
  fixes st :: "('w, 's, 'z) session_scheme"
  assumes ok: "aead_ok A" and env: "socket_runs E time" and "ending A c tr time t st"
  shows "io_ends (notify_session_end E A sid) st (\<lambda>r st'. r = Done () \<and> ending A c tr time t st')"
proof -
  have send: "io_ends (send_record_redundant E A HostToPhone HOST_AUTH_ABORT k l fl p) st1
      (attempt_of (then_ends (\<lambda>_. io_return ()) (\<lambda>r st'. r = Done () \<and> ending A c tr time t st')))"
    if "ending A c tr time t st1" for st1 :: "('w, 's, 'z) session_scheme" and k l fl p
  proof (rule io_ends_mono [OF send_record_redundant_ends [OF ok env]], goal_cases)
    case (1 r st')
    then have "time (world st1) \<le> time (world st')" by (auto simp: sends_def link_step_def)
    with session_trace_sent [OF _ 1, of A c tr] that have "r \<noteq> Panic" "ending A c tr time t st'"
      by (simp_all add: ending_def)
    then show ?case by (cases r) simp_all
  qed
  show ?thesis
    using assms(3) socket_runsD(8) [OF env]
    by (simp add: notify_session_end_def send ending_world)
qed

lemma boundary_ends:
  fixes st :: "('w, 's, 'z) session_scheme"
  assumes clock: "clock_runs E time" and "ending A c tr time t st"
  shows "io_ends (note_boundary E failed) st (\<lambda>r st'. r = Done () \<and> ending A c tr time t st')"
proof -
  have noted: "io_ends (metrics_note E k s q x y) st1 (\<lambda>r st'. r = Done () \<and> ending A c tr time t st')"
    if "ending A c tr time t st1" for st1 :: "('w, 's, 'z) session_scheme" and k s q x y
  proof (rule records_mono [OF records_note [OF clock]])
    fix st' assume "only_metered time st1 st'"
    then have "apart time st1 st'" "sink st' = sink st1" by (auto dest: only_metered_apart)
    with that show "Done () = Done () \<and> ending A c tr time t st'"
      by (auto simp: ending_def apart_def intro: session_trace_apart stays_time)
  qed
  show ?thesis using assms(2) clock_runsD(3) [OF clock]
    by (auto simp: note_boundary_def intro!: noted ending_world)
qed

text \<open>The end of a session: a fresh one is required, and the keys are released unless the OS fails it.\<close>

definition session_over :: "('w, 'x) env_scheme \<Rightarrow> aead \<Rightarrow> connection \<Rightarrow> effect list \<Rightarrow> ('w \<Rightarrow> instant) \<Rightarrow> instant \<Rightarrow>
    (host_error, unit) outcome \<Rightarrow> ('w, 's, 'z) session_scheme \<Rightarrow> bool" where
  "session_over E A c tr time t r st \<longleftrightarrow> r \<noteq> Panic \<and> of_session (ordered st) = None \<and>
     requires_session_start (ordered st) \<and> window_inv (ordered st) \<and> held (sink st) \<and> t \<le> time (world st) \<and>
     (\<exists>new. session_log A c new \<and>
        (trace st = tr @ new @ [Released] \<and> \<not> is_active S (sink st) \<and> idle (sink st) \<or>
         (\<exists>e. r = Fail (HostIo e) \<and> gave_up E S e st) \<and> trace st = tr @ new \<and> is_active S (sink st)))"

lemma cancel_over:
  assumes clock: "clock_runs E time" and end': "ending A c tr time t st"
  shows "io_ends (io_seq require_fresh (io_seq (io_convert HostIo (cancel_with_deadline E S))
      (case result of Inl e \<Rightarrow> io_fail e | Inr _ \<Rightarrow> io_return ()))) st (session_over E A c tr time t)"
proof -
  let ?st1 = "st\<lparr>ordered := require_fresh_session (ordered st)\<rparr>"
  obtain new where new: "trace st = tr @ new" "session_log A c new"
    using end' session_trace_log [of A c tr st] by (auto simp: ending_def)
  have "held (sink ?st1)" and "t \<le> time (world st)" and "window_inv (require_fresh_session (ordered st))"
    using end' by (auto simp: ending_def session_trace_def session_history_def window_ok_def window_inv_fresh)
  note start = this
  have fresh: "of_session (require_fresh_session w) = None" "requires_session_start (require_fresh_session w)" for w
    by (simp_all add: require_fresh_session_def)
  from cancel_with_deadline_ends [OF clock start(1)] show ?thesis
    unfolding require_fresh_def io_seq_rules io_ends_update then_ends.simps io_convert_rules
  proof (elim io_ends_mono, elim disjE exE conjE, goal_cases)
    case (1 r st')
    with new fresh start show ?case
      by (cases result) (auto simp: session_over_def cancel_post_def stays_def)
  next
    case (2 r st' e)
    with new fresh start show ?case by (auto simp: session_over_def cancel_post_def stays_def)
  qed
qed

end

context sink_contract
begin

lemma inner_ends:
  fixes st :: "('w, 's, 'z) session_scheme"
  assumes ok: "aead_ok A" and env: "socket_runs E time" and calm: "calm A c tr time t st"
    and peer: "\<And>f. peer_frame A c f \<Longrightarrow> frame_ok f"
    and wait: "\<And>w. time w < time (snd (ev_receive E w))"
    and stop: "\<And>w. T \<le> time w \<Longrightarrow> fst (ev_stopping E w)"
  shows "io_ends (serve_gameplay_inner E A S lanes) st (\<lambda>r st'. r \<noteq> Panic \<and> ending A c tr time t st')"
proof -
  have loop: "io_ends (io_loop (serve_iteration E A S deadline) v) st' (steady A c tr time t)"
    if "calm A c tr time t st'" for deadline v and st' :: "('w, 's, 'z) session_scheme"
    by (rule serve_loop_ends [OF ok env that]) (fact peer wait stop)+
  have "io_ends (serve_gameplay_inner E A S lanes) st (steady A c tr time t)"
    unfolding serve_gameplay_inner_def
    by (rule steady_bind [OF steady_quiet [OF quiet_start [OF ok env calm]]]) (auto intro: loop)
  then show ?thesis by (rule io_ends_mono) (rule steady_ending)
qed

lemma finish_session_ends:
  assumes ok: "aead_ok A" and env: "socket_runs E time" and "ending A c tr time t st"
  shows "io_ends (finish_session E A S result) st (session_over E A c tr time t)"
proof -
  note clock = socket_runsD(1) [OF env]
  show ?thesis
    unfolding finish_session_def io_ends_bind io_ends_gets then_ends.simps
      io_seq_rules(1) [where m = "notify_session_end E A _"]
  proof (rule io_ends_mono [OF notify_ends [OF ok env assms(3)]], elim conjE, goal_cases)
    case (1 r st2)
    show ?case
      unfolding 1(1) then_ends.simps io_seq_rules(1) [where m = "note_boundary E _"]
    proof (rule io_ends_mono [OF boundary_ends [OF clock 1(2)]], elim conjE, goal_cases)
      case (1 r st3)
      then show ?case using cancel_over [OF clock 1(2)] by (simp del: io_seq_rules)
    qed
  qed
qed

lemma serve_gameplay_ends:
  fixes st :: "('w, 's, 'z) session_scheme"
  assumes ok: "aead_ok A" and env: "socket_runs E time" and "window_inv (ordered st)" and "idle (sink st)"
    and peer: "\<And>f. peer_frame A (conn st) f \<Longrightarrow> frame_ok f"
    and wait: "\<And>w. time w < time (snd (ev_receive E w))"
    and stop: "\<And>w. T \<le> time w \<Longrightarrow> fst (ev_stopping E w)"
  shows "io_ends (serve_gameplay E A S lanes) st (session_over E A (conn st) (trace st) time (time (world st)))"
proof -
  let ?st = "st\<lparr>ordered := require_fresh_session (ordered st)\<rparr>"
  have "io_ends (io_bind (io_attempt (serve_gameplay_inner E A S lanes)) (finish_session E A S)) ?st
      (session_over E A (conn st) (trace st) time (time (world st)))"
    unfolding io_ends_bind io_ends_attempt
  proof (rule io_ends_mono)
    show "io_ends (serve_gameplay_inner E A S lanes) ?st (\<lambda>r st'. r \<noteq> Panic \<and> ending A (conn st) (trace st) time (time (world st)) st')"
      by (rule inner_ends [OF ok env calm_start [OF assms(3,4) order.refl]]) (fact peer wait stop)+
  next
    fix r :: "(host_error, unit) outcome" and st1 :: "('w, 's, 'z) session_scheme"
    assume "r \<noteq> Panic \<and> ending A (conn st) (trace st) time (time (world st)) st1"
    then show "attempt_of (then_ends (finish_session E A S) (session_over E A (conn st) (trace st) time (time (world st)))) r st1"
      using finish_session_ends [OF ok env] by (cases r) simp_all
  qed
  then show ?thesis by (simp add: serve_gameplay_def require_fresh_def)
qed

end

section \<open>Sessions over the keyboard\<close>

text \<open>
  C4: a session delivers exactly what the peer typed, in order, and acknowledges no more. In every
  state that the receive loop of a gameplay session reaches, also in a run that never ends, and
  whatever arrives on the socket: the frames the keyboard accepted since the session began are
  frames that the peer sealed, of one session id, with sequence numbers 0, 1, 2, ... without a gap
  or a repetition; every acknowledgement sent covers exactly the frames accepted before it; and the
  next iteration returns without a panic.
\<close>

theorem gameplay_in_order:
  assumes "aead_ok A" and "socket_runs E time" and "window_inv (ordered st)"
    and "for_keys (linux_device.kb_idle n) (sink st)"
    and "serve_start E A lanes (st\<lparr>ordered := require_fresh_session (ordered st)\<rparr>) = Some (Done (deadline, v), st1)"
    and "io_reaches (serve_iteration E A (host_sink_ops linux_ops) deadline) v st1 v' st'"
  shows "(\<exists>new. trace st' = trace st @ new \<and>
      list_all (peer_frame A (conn st)) (accepted new) \<and>
      map sequence (accepted new) = seq_from 0 (length (accepted new)) \<and>
      (\<exists>sid. list_all (\<lambda>f. session_id f = sid) (accepted new)) \<and> acks_from 0 new) \<and>
    (\<exists>r st''. serve_iteration E A (host_sink_ops linux_ops) deadline v' st' = Some (r, st'') \<and> r \<noteq> Panic)"
proof -
  let ?c = "conn st" and ?tr = "trace st"
  note start = keys.calm_start [OF assms(3,4) le0, of A time]
  have "keys.calm n A ?c ?tr time 0 st1"
    using keys.quiet_start [OF assms(1,2) start, of lanes] assms(5) by (simp add: io_ends_def keys.quiet_def)
  moreover have peer: "distinct_pointers f" if "peer_frame A ?c f" for f
    by (rule peer_frame_ok(1) [OF that])
  ultimately have calm: "keys.calm n A ?c ?tr time 0 st'"
    by (rule keys.iterations_calm [OF assms(1,2) _ _ assms(6)])
  then have "\<exists>new. trace st' = ?tr @ new \<and> session_log A ?c new"
    by (intro session_trace_log) (simp add: keys.calm_def)
  moreover have "\<exists>r st''. serve_iteration E A (host_sink_ops linux_ops) deadline v' st' = Some (r, st'') \<and> r \<noteq> Panic"
    using keys.serve_iteration_ends [OF assms(1,2) calm peer, of 0 deadline v']
    by (fastforce simp: io_ends_def)
  ultimately show ?thesis by (auto simp: session_log_def)
qed

text \<open>
  C8: a session that is stopped returns, and leaves nothing pressed. If waiting for a datagram takes
  time and the host is told to stop at some time \<open>T\<close>, \<open>serve_gameplay\<close> returns without a panic;
  afterwards only a session-start frame can open a session, the log of the session is as in the
  property before, and the last thing done was to release every key, after which no input is
  active. The one exception is a kernel that refuses the release until the deadline: then the release was
  tried again until 8 ms had passed, and the error returned is the one with which its last attempt was refused.
\<close>

theorem serve_gameplay_returns:
  assumes "aead_ok A" and "socket_runs E time" and "window_inv (ordered st)"
    and "for_keys (linux_device.kb_idle n) (sink st)"
    and "\<And>w. time w < time (snd (ev_receive E w))" and "\<And>w. T \<le> time w \<Longrightarrow> fst (ev_stopping E w)"
  shows "\<exists>r st' new. serve_gameplay E A (host_sink_ops linux_ops) lanes st = Some (r, st') \<and> r \<noteq> Panic \<and>
    of_session (ordered st') = None \<and> requires_session_start (ordered st') \<and> session_log A (conn st) new \<and>
    (trace st' = trace st @ new @ [Released] \<and> \<not> is_active (host_sink_ops linux_ops) (sink st') \<or>
     (\<exists>e. r = Fail (HostIo e) \<and> gave_up E (host_sink_ops linux_ops) e st') \<and> trace st' = trace st @ new)"
proof -
  have peer: "distinct_pointers f" if "peer_frame A (conn st) f" for f
    by (rule peer_frame_ok(1) [OF that])
  have "io_ends (serve_gameplay E A (host_sink_ops linux_ops) lanes) st
      (keys.session_over n E A (conn st) (trace st) time (time (world st)))"
    by (rule keys.serve_gameplay_ends [OF assms(1-4)]) (fact peer assms(5,6))+
  then show ?thesis unfolding io_ends_def keys.session_over_def by blast
qed

section \<open>A sample world\<close>

text \<open>A socket that delivers the datagrams \<open>ds\<close>, one per tick, and is then silent until the stop.\<close>

definition script_env :: "bytes list \<Rightarrow> socket_addr \<Rightarrow> nat \<Rightarrow> nat socket_env" where
  "script_env ds source T =
     \<lparr>ev_now = (\<lambda>w. (w, w + 1)), ev_stopping = (\<lambda>w. (T \<le> w, w)), ev_yield = (\<lambda>w. ((), w + 1)),
      ev_publish = (\<lambda>e w. (True, w)),
      ev_receive = (\<lambda>w. (if w < length ds then Inr (ds ! w, source, None) else Inl (io_err TimedOut), w + 1)),
      ev_send = (\<lambda>d w. (Inr (length d), w)), ev_set_timeout = (\<lambda>d w. (Inr (), w)),
      ev_changed = (\<lambda>w. (False, w)), ev_monitor = (\<lambda>w. (Inr (), w))\<rparr>"

lemma script_env_runs: "socket_runs (script_env ds source T) (\<lambda>w. w)"
  by (simp add: socket_runs_def clock_runs_def script_env_def)

definition sample_peer :: socket_addr where
  "sample_peer = \<lparr>sa_ip = V4 0xC0A82A02, sa_port = 45821\<rparr>"

definition sample_session :: "(nat, (input_event list \<times> nat list) uinput_sink host_sink) session" where
  "sample_session = host.extend (sample_host [] []) \<lparr>conn =
     connection_new sample_peer (WifiBinding 0 0 0 None) (from_keys [1] [2] 7) None\<rparr>"

text \<open>In this world every record goes out.\<close>

definition sendable :: "nat \<Rightarrow> ('w, 's, 'z) session_scheme \<Rightarrow> bool" where
  "sendable k st \<longleftrightarrow> unat (next_packet_number (cn_cipher (conn st))) = k \<and> length (send_buffer (conn st)) = 1200"

lemma sample_seals:
  assumes "sendable k st" and "k < 9" and "length payload \<le> 64"
  shows "io_ends (seal_to_buffer sample_aead dir ty sid lid fl payload) st (\<lambda>r st'. r = Done (64 + length payload) \<and> sendable (Suc k) st')"
proof -
  let ?c = "cn_cipher (conn st)"
  let ?h = "record_for ?c dir ty sid lid fl payload"
  have k: "next_packet_number ?c \<noteq> 0xffffffffffffffff" "unat (next_packet_number ?c + 1) = Suc k"
    using assms(1,2) by (auto simp: sendable_def unat_word_ariths)
  have head: "write_record_header (take 48 (send_buffer (conn st))) ?h = Done (header_bytes ?h)"
    using assms(1) by (intro write_record_header_bytes) (simp add: sendable_def)
  have "length (take 16 (send_key ?c @ replicate 16 0)) = 16" by simp
  with k head assms show ?thesis
    by (simp add: seal_to_buffer_def seal_into_def Let_def record_for_def sample_aead_def sendable_def)
qed

lemma send_copies_delivered:
  assumes "\<And>st. io_ends copy st (\<lambda>r _. r \<noteq> Panic)"
  shows "io_ends (send_copies n copy True e) st (\<lambda>r _. r = Done ())"
proof (induction n arbitrary: st e)
  case (Suc n)
  show ?case
    unfolding send_copies.simps io_ends_bind io_ends_attempt
  proof (rule io_ends_mono [OF assms], goal_cases)
    case (1 r st')
    then show ?case using Suc by (cases r) simp_all
  qed
qed simp

lemma sample_copy:
  assumes "sendable 0 st"
  shows "io_ends (io_bind (now_nanos (script_env ds source T)) (\<lambda>nanos. send_record_once (script_env ds source T)
      sample_aead HostToPhone ty 0 acked 0 (encode_control_payload wnd lanes nanos))) st (\<lambda>r _. r = Done ())"
proof -
  let ?st1 = "st\<lparr>world := snd (ev_now (script_env ds source T) (world st))\<rparr>"
  have s1: "sendable 0 ?st1" using assms by (simp add: sendable_def)
  have p: "length (encode_control_payload wnd lanes nanos) = 16" for nanos
    by (simp add: encode_control_payload_def Let_def)
  show ?thesis
    unfolding send_record_once_def now_nanos_def
  proof (simp, rule io_ends_mono [OF sample_seals [OF s1]], goal_cases)
    case (3 r st')
    then show ?case
      by (simp add: p log_effect_def send_datagram_def io_sys_def script_env_def sendable_def)
  qed (simp_all add: p)
qed

lemma sample_hello:
  assumes "sendable 0 st"
  shows "io_ends (send_control (script_env ds source T) sample_aead HOST_HELLO 0 None RECEIVE_WINDOW lanes) st
    (\<lambda>r st'. r = Done ())"
proof -
  let ?E = "script_env ds source T"
  let ?copy = "io_bind (now_nanos ?E) (\<lambda>nanos. send_record_once ?E sample_aead HostToPhone HOST_HELLO 0
      (ack_id None) 0 (encode_control_payload RECEIVE_WINDOW lanes nanos))"
  have "control_type_ok HOST_HELLO" by (simp add: control_type_ok_def)
  then have eq: "send_control ?E sample_aead HOST_HELLO 0 None RECEIVE_WINDOW lanes =
      send_copies (Suc 1) ?copy False None"
    by (simp add: send_control_def numeral_2_eq_2)
  show ?thesis
    unfolding eq send_copies.simps(2) [of 1] io_ends_bind [of "io_attempt ?copy"] io_ends_attempt
  proof (rule io_ends_mono [OF sample_copy [OF assms]], goal_cases)
    case (1 r st')
    have "io_ends ?copy st (\<lambda>r _. r \<noteq> Panic)" for st :: "(nat, 'a, 'b) session_scheme"
      unfolding now_nanos_def
    proof (simp, rule io_ends_mono [OF send_record_once_ends [OF sample_aead_ok script_env_runs]])
      show "sends (\<lambda>w. w) HOST_HELLO 0 (ack_id None) st0 r st' \<Longrightarrow> r \<noteq> Panic" for st0 r st'
        by (simp add: sends_def)
    qed
    from send_copies_delivered [OF this] show ?case
      unfolding 1 attempt_of.simps then_ends.simps sum.case by blast
  qed
qed

lemma sample_session_ok:
  "window_inv (ordered sample_session)" "for_keys (linux_device.kb_idle 4) (sink sample_session)"
  using sample_host_ok(1) [of "[]" "[]"]
  by (simp_all add: sample_session_def host.defs sample_host_def window_inv_new)

lemma sample_start:
  "\<exists>deadline v st1. serve_start (script_env ds source T) sample_aead 4
     (sample_session\<lparr>ordered := require_fresh_session (ordered sample_session)\<rparr>) = Some (Done (deadline, v), st1)"
proof -
  let ?E = "script_env ds source T"
  let ?st = "sample_session\<lparr>ordered := require_fresh_session (ordered sample_session)\<rparr>"
  have "sendable 0 (?st\<lparr>world := n\<rparr>)" for n
    by (simp add: sendable_def sample_session_def connection_new_def from_keys_def host.defs)
  note hello = io_ends_mono [OF sample_hello [OF this]]
  have env: "snd (ev_now ?E w) = w + 1" "ev_monitor ?E w = (Inr (), w)" "ev_set_timeout ?E d w = (Inr (), w)" for w d
    by (simp_all add: script_env_def)
  have "io_ends (serve_start ?E sample_aead 4) ?st (\<lambda>r st'. \<exists>x. r = Done x)"
    by (simp add: serve_start_def io_sys_def set_read_timeout_def env) (rule hello, simp)
  then show ?thesis by (auto simp: io_ends_def)
qed

theorem gameplay_in_order_witness:
  "\<exists>deadline v st1 r st2. serve_start (script_env [[1, 2, 3]] sample_peer 5) sample_aead 4
       (sample_session\<lparr>ordered := require_fresh_session (ordered sample_session)\<rparr>) = Some (Done (deadline, v), st1) \<and>
     serve_iteration (script_env [[1, 2, 3]] sample_peer 5) sample_aead (host_sink_ops linux_ops) deadline v st1 =
       Some (r, st2) \<and> r \<noteq> Panic"
proof -
  let ?E = "script_env [[1, 2, 3]] sample_peer 5"
  obtain deadline v st1 where run: "serve_start ?E sample_aead 4
      (sample_session\<lparr>ordered := require_fresh_session (ordered sample_session)\<rparr>) = Some (Done (deadline, v), st1)"
    using sample_start by blast
  from gameplay_in_order [OF sample_aead_ok script_env_runs sample_session_ok run io_reaches.start] run
  show ?thesis by blast
qed

theorem serve_gameplay_returns_witness:
  "\<exists>r st'. serve_gameplay (script_env [[1, 2, 3]] sample_peer 5) sample_aead (host_sink_ops linux_ops) 4 sample_session =
     Some (r, st') \<and> r \<noteq> Panic"
proof -
  show ?thesis
    using sample_session_ok serve_gameplay_returns [OF sample_aead_ok script_env_runs, of sample_session 4 "[[1, 2, 3]]" sample_peer 5 5 4]
    by (fastforce simp: script_env_def)
qed

end
