(* ===== verification/Credentials.thy ===== *)
theory Credentials
  imports V5_Connection
begin

text \<open>
  The identity of the installation and its paired phone (\<open>native-host/src/credentials.rs\<close>). The
  protected store of the operating system, the key generator and the JSON form are parameters.
  Shown: what was saved is what is loaded, and forgetting the phone keeps the identity and unpairs.
\<close>

section \<open>Credentials\<close>

text \<open>The keys are arrays of 32 bytes; the name is a text.\<close>

record credentials =
  cr_version :: u8
  cr_private_key :: bytes
  cr_public_key :: bytes
  paired_phone_public_key :: "bytes option"
  paired_phone_name :: "unicode option"

datatype credential_error = Unavailable | Corrupt | Crypto

text \<open>
  The store takes and gives bytes; \<open>cs_encode\<close> and \<open>cs_decode\<close> are \<open>serde_json\<close> on this structure,
  which refuses unknown fields and arrays of another length.
\<close>

record 'w store_env = "'w socket_env" +
  cs_load :: "'w \<Rightarrow> (credential_error + bytes option) \<times> 'w"
  cs_save :: "bytes \<Rightarrow> 'w \<Rightarrow> (credential_error + unit) \<times> 'w"
  cs_generate :: "'w \<Rightarrow> (bytes \<times> bytes) option \<times> 'w"
  cs_encode :: "credentials \<Rightarrow> bytes option"
  cs_decode :: "bytes \<Rightarrow> credentials option"

abbreviation STORE_VERSION :: u8 where "STORE_VERSION \<equiv> 1"

definition authorize_phone :: "bytes \<Rightarrow> unicode \<Rightarrow> credentials \<Rightarrow> credentials" where
  "authorize_phone key name c = c\<lparr>paired_phone_public_key := Some key, paired_phone_name := Some name\<rparr>"

definition without_phone :: "credentials \<Rightarrow> credentials" where
  "without_phone c = c\<lparr>paired_phone_public_key := None, paired_phone_name := None\<rparr>"

definition has_phone :: "credentials \<Rightarrow> bool" where
  "has_phone c \<longleftrightarrow> paired_phone_public_key c \<noteq> None"

definition validate :: "credentials \<Rightarrow> (credential_error, unit) outcome" where
  "validate c =
    (if cr_version c \<noteq> STORE_VERSION then Fail Corrupt
     else if list_all (\<lambda>b. b = 0) (cr_private_key c) \<or> list_all (\<lambda>b. b = 0) (cr_public_key c) then Fail Corrupt
     else Done ())"

section \<open>The store\<close>

text \<open>A call of the world whose failure is a credential error.\<close>

definition store_call :: "('w \<Rightarrow> (credential_error + 'a) \<times> 'w) \<Rightarrow>
    (('w, 'z) machine_scheme, credential_error, 'a) io" where
  "store_call f = io_bind (io_world f) (\<lambda>r. case r of Inl e \<Rightarrow> io_fail e | Inr x \<Rightarrow> io_return x)"

text \<open>\<open>Credentials::generate\<close>: a failure of the key generator, or keys of another length.\<close>

definition generate :: "('w, 'x) store_env_scheme \<Rightarrow> (('w, 'z) machine_scheme, credential_error, credentials) io" where
  "generate E = io_bind (io_world (cs_generate E)) (\<lambda>pair.
     case pair of
       None \<Rightarrow> io_fail Crypto
     | Some (priv, pub) \<Rightarrow>
         if length priv \<noteq> 32 \<or> length pub \<noteq> 32 then io_fail Corrupt
         else io_return \<lparr>cr_version = STORE_VERSION, cr_private_key = priv, cr_public_key = pub,
                paired_phone_public_key = None, paired_phone_name = None\<rparr>)"

definition load :: "('w, 'x) store_env_scheme \<Rightarrow> (('w, 'z) machine_scheme, credential_error, credentials option) io" where
  "load E = io_bind (store_call (cs_load E)) (\<lambda>found.
     case found of
       None \<Rightarrow> io_return None
     | Some bs \<Rightarrow>
         (case cs_decode E bs of
            None \<Rightarrow> io_fail Corrupt
          | Some c \<Rightarrow> io_bind (io_lift (validate c)) (\<lambda>_. io_return (Some c))))"

definition save :: "('w, 'x) store_env_scheme \<Rightarrow> credentials \<Rightarrow> (('w, 'z) machine_scheme, credential_error, unit) io" where
  "save E c = io_bind (io_lift (validate c)) (\<lambda>_.
     case cs_encode E c of
       None \<Rightarrow> io_fail Corrupt
     | Some bs \<Rightarrow> store_call (cs_save E bs))"

definition load_or_create :: "('w, 'x) store_env_scheme \<Rightarrow> (('w, 'z) machine_scheme, credential_error, credentials) io" where
  "load_or_create E = io_bind (load E) (\<lambda>found.
     case found of
       Some c \<Rightarrow> io_return c
     | None \<Rightarrow> io_bind (generate E) (\<lambda>c. io_bind (save E c) (\<lambda>_. io_return c)))"

definition is_paired :: "('w, 'x) store_env_scheme \<Rightarrow> (('w, 'z) machine_scheme, credential_error, bool) io" where
  "is_paired E = io_bind (load E) (\<lambda>found. io_return (case found of None \<Rightarrow> False | Some c \<Rightarrow> has_phone c))"

definition forget_phone :: "('w, 'x) store_env_scheme \<Rightarrow> (('w, 'z) machine_scheme, credential_error, unit) io" where
  "forget_phone E = io_bind (load E) (\<lambda>found.
     case found of
       None \<Rightarrow> io_return ()
     | Some c \<Rightarrow> save E (without_phone c))"

section \<open>What is saved is loaded\<close>

text \<open>
  The documented behaviour of the store and of the JSON form: a record that was saved is the one
  found afterwards, and a structure that was written is read back.
\<close>

definition store_keeps :: "('w, 'x) store_env_scheme \<Rightarrow> bool" where
  "store_keeps E \<longleftrightarrow>
     (\<forall>bs w. fst (cs_save E bs w) = Inr () \<longrightarrow> fst (cs_load E (snd (cs_save E bs w))) = Inr (Some bs)) \<and>
     (\<forall>c bs. cs_encode E c = Some bs \<longrightarrow> cs_decode E bs = Some c)"

lemma save_ends:
  "io_ends (save E c) st (\<lambda>r st'. r = Done () \<longrightarrow> validate c = Done () \<and>
     (\<exists>bs. cs_encode E c = Some bs \<and> fst (cs_save E bs (world st)) = Inr () \<and>
        st' = st\<lparr>world := snd (cs_save E bs (world st))\<rparr>))"
  by (cases "validate c") (auto simp: save_def store_call_def split: option.split sum.split)

lemma load_after_save:
  assumes "store_keeps E" and "validate c = Done ()" and "cs_encode E c = Some bs"
    and "fst (cs_save E bs w) = Inr ()"
  shows "io_ends (load E) (st\<lparr>world := snd (cs_save E bs w)\<rparr>) (\<lambda>r _. r = Done (Some c))"
  using assms by (auto simp: load_def store_call_def store_keeps_def split: sum.split)

lemma load_keeps_store:
  "load E st = Some (Done (Some c), st') \<Longrightarrow> validate c = Done ()"
  by (auto simp: load_def store_call_def io_bind_def io_world_def io_lift_def io_return_def io_fail_def
      split: prod.splits sum.splits option.splits outcome.splits)

text \<open>
  Forgetting the phone unpairs and keeps the identity. When the store gives back what it was
  given and \<open>forget_phone\<close> succeeds on a stored record, the next load finds that record with the same
  version and the same keys and without a phone, and the installation counts as unpaired.
\<close>

lemma forget_phone_forgets:
  assumes "store_keeps E" and "load E st = Some (Done (Some c), st1)" and "forget_phone E st = Some (Done (), st2)"
  shows "\<exists>c' st3 st4. load E st2 = Some (Done (Some c'), st3) \<and> paired_phone_public_key c' = None \<and>
    paired_phone_name c' = None \<and> cr_version c' = cr_version c \<and> cr_private_key c' = cr_private_key c \<and>
    cr_public_key c' = cr_public_key c \<and> is_paired E st2 = Some (Done False, st4)"
proof -
  have "save E (without_phone c) st1 = Some (Done (), st2)"
    using assms(2,3) by (simp add: forget_phone_def io_bind_def)
  with save_ends [of E "without_phone c" st1] obtain bs where
    "validate (without_phone c) = Done ()" "cs_encode E (without_phone c) = Some bs"
    "fst (cs_save E bs (world st1)) = Inr ()" "st2 = st1\<lparr>world := snd (cs_save E bs (world st1))\<rparr>"
    by (auto simp: io_ends_def)
  from load_after_save [OF assms(1) this(1-3), of st1] this(4) obtain st3 where
    l: "load E st2 = Some (Done (Some (without_phone c)), st3)" by (auto simp: io_ends_def)
  then have "is_paired E st2 = Some (Done False, st3)"
    by (simp add: is_paired_def io_bind_def io_return_def has_phone_def without_phone_def)
  with l show ?thesis by (auto simp: without_phone_def)
qed

section \<open>A sample store\<close>

text \<open>One record in memory; the JSON form is represented by the concatenated keys.\<close>

definition sample_decode :: "bytes \<Rightarrow> credentials option" where
  "sample_decode bs =
    (if length bs \<noteq> 64 \<and> length bs \<noteq> 96 then None else
     Some \<lparr>cr_version = 1, cr_private_key = take 32 bs, cr_public_key = take 32 (drop 32 bs),
           paired_phone_public_key = (if length bs = 64 then None else Some (drop 64 bs)),
           paired_phone_name = (if length bs = 64 then None else Some [65])\<rparr>)"

definition sample_encode :: "credentials \<Rightarrow> bytes option" where
  "sample_encode c =
    (let bs = cr_private_key c @ cr_public_key c @
        (case paired_phone_public_key c of None \<Rightarrow> [] | Some k \<Rightarrow> k) in
     if sample_decode bs = Some c then Some bs else None)"

definition sample_store :: "bytes option store_env" where
  "sample_store =
     \<lparr>ev_now = (\<lambda>w. (0, w)), ev_stopping = (\<lambda>w. (False, w)), ev_yield = (\<lambda>w. ((), w)), ev_publish = (\<lambda>e w. (True, w)),
      ev_receive = (\<lambda>w. (Inl (io_err TimedOut), w)), ev_send = (\<lambda>d w. (Inr (length d), w)),
      ev_set_timeout = (\<lambda>d w. (Inr (), w)), ev_changed = (\<lambda>w. (False, w)), ev_monitor = (\<lambda>w. (Inr (), w)),
      cs_load = (\<lambda>w. (Inr w, w)), cs_save = (\<lambda>bs w. (Inr (), Some bs)), cs_generate = (\<lambda>w. (None, w)),
      cs_encode = sample_encode, cs_decode = sample_decode\<rparr>"

lemma sample_store_keeps: "store_keeps sample_store"
  by (auto simp: store_keeps_def sample_store_def sample_encode_def Let_def split: if_splits)

definition sample_stored :: "bytes option machine" where
  "sample_stored = \<lparr>world = Some (replicate 96 7)\<rparr>"

lemma forget_phone_forgets_witness:
  "\<exists>st1 st2 st4. load sample_store sample_stored = Some (Done (Some
      \<lparr>cr_version = 1, cr_private_key = replicate 32 7, cr_public_key = replicate 32 7,
       paired_phone_public_key = Some (replicate 32 7), paired_phone_name = Some [65]\<rparr>), st1) \<and>
    forget_phone sample_store sample_stored = Some (Done (), st2) \<and>
    is_paired sample_store st2 = Some (Done False, st4)"
proof -
  let ?c = "\<lparr>cr_version = 1, cr_private_key = replicate 32 7, cr_public_key = replicate 32 7,
     paired_phone_public_key = Some (replicate 32 (7::u8)), paired_phone_name = Some [65::nat]\<rparr>"
  let ?d = "without_phone ?c"
  have dec: "sample_decode (replicate 96 7) = Some ?c" "sample_decode (replicate 64 7) = Some ?d"
    by (simp_all add: sample_decode_def without_phone_def)
  have enc: "sample_encode ?d = Some (replicate 64 7)"
    using dec(2) by (simp add: sample_encode_def without_phone_def replicate_add [symmetric])
  have ok: "validate ?c = Done ()" "validate ?d = Done ()"
    by (simp_all add: validate_def without_phone_def list_all_iff)
  have l: "load sample_store sample_stored = Some (Done (Some ?c), sample_stored)"
    using dec ok by (simp add: load_def store_call_def io_bind_def io_world_def io_lift_def io_return_def
        sample_store_def sample_stored_def)
  have f: "forget_phone sample_store sample_stored = Some (Done (), \<lparr>world = Some (replicate 64 7)\<rparr>)"
  proof -
    have "cs_encode sample_store = sample_encode" "cs_save sample_store = (\<lambda>bs w. (Inr (), Some bs))"
      by (simp_all add: sample_store_def)
    then have "save sample_store ?d sample_stored = Some (Done (), \<lparr>world = Some (replicate 64 7)\<rparr>)"
      using enc ok(2) by (simp add: save_def store_call_def io_bind_def io_world_def io_lift_def io_return_def
          sample_stored_def)
    then show ?thesis using l by (simp add: forget_phone_def io_bind_def)
  qed
  from forget_phone_forgets [OF sample_store_keeps l f] l f show ?thesis by blast
qed

end
