(* ===== verification/Pairing.thy ===== *)
theory Pairing
  imports Credentials
begin

text \<open>
  Pairing a phone and accepting a remembered one (\<open>native-host/src/v5_host.rs\<close>): discovery on the
  selected interface, the Noise handshake, the commitment to the short authentication string, the
  approval by both sides, the quality probes, and the storing of the phone's key. The Noise library
  is a parameter. Shown: however the network, the user and the phone behave, a key is stored only
  after the user approved and the phone confirmed, over the connection of the handshake whose
  string was shown, and it is the key of that handshake; pairing always returns.
\<close>

section \<open>Link quality\<close>

text \<open>\<open>QualityStats\<close>; its counters never reach \<open>2 ^ 64\<close>.\<close>

record quality_stats =
  qs_sent :: "u64 set"
  qs_received :: "u64 set"
  delays_micros :: "u64 list"
  jitter_micros :: "u64 list"
  repair_completion_micros :: "u64 list"
  qs_duplicates :: nat
  invalid_timing :: nat
  qs_reordered :: nat
  highest_probe_id :: "u64 option"
  last_delay_micros :: "u64 option"
  signal_level :: "int option"
  qs_rssi :: "int option"
  qs_frequency :: "u32 option"

definition quality_new :: quality_stats where
  "quality_new = \<lparr>qs_sent = {}, qs_received = {}, delays_micros = [], jitter_micros = [],
     repair_completion_micros = [], qs_duplicates = 0, invalid_timing = 0, qs_reordered = 0,
     highest_probe_id = None, last_delay_micros = None, signal_level = None, qs_rssi = None, qs_frequency = None\<rparr>"

definition abs_diff :: "u64 \<Rightarrow> u64 \<Rightarrow> u64" where
  "abs_diff a b = (if a < b then b - a else a - b)"

definition note_order :: "u64 \<Rightarrow> quality_stats \<Rightarrow> quality_stats" where
  "note_order probe q =
    (case highest_probe_id q of
       Some newest \<Rightarrow>
         if probe < newest then q\<lparr>qs_reordered := qs_reordered q + 1\<rparr> else q\<lparr>highest_probe_id := Some probe\<rparr>
     | None \<Rightarrow> q\<lparr>highest_probe_id := Some probe\<rparr>)"

definition note_delay :: "u64 \<Rightarrow> u64 \<Rightarrow> bool \<Rightarrow> quality_stats \<Rightarrow> quality_stats" where
  "note_delay micros completion_nanos repair_only q =
    (if length (delays_micros q) < 512 then
       let jitter = (case last_delay_micros q of
               None \<Rightarrow> jitter_micros q
             | Some previous \<Rightarrow> jitter_micros q @ [abs_diff previous micros]);
           q' = q\<lparr>jitter_micros := jitter, last_delay_micros := Some micros,
                  delays_micros := delays_micros q @ [micros]\<rparr> in
       (if repair_only
        then q'\<lparr>repair_completion_micros := repair_completion_micros q' @ [completion_nanos div 1000]\<rparr> else q')
     else q)"

definition note_radio :: "quality_reply \<Rightarrow> quality_stats \<Rightarrow> quality_stats" where
  "note_radio r q =
    (let q1 = (if qr_signal_level r \<ge> 0 then q\<lparr>signal_level := Some (qr_signal_level r)\<rparr> else q);
         q2 = (if qr_rssi_dbm r \<noteq> - 32768 then q1\<lparr>qs_rssi := Some (qr_rssi_dbm r)\<rparr> else q1) in
     if qr_frequency_mhz r \<noteq> 0 then q2\<lparr>qs_frequency := Some (qr_frequency_mhz r)\<rparr> else q2)"

definition quality_observe :: "quality_reply \<Rightarrow> u64 \<Rightarrow> quality_stats \<Rightarrow> quality_stats" where
  "quality_observe r received_nanos q =
    (if qr_probe_id r \<notin> qs_sent q then q
     else if qr_probe_id r \<in> qs_received q then q\<lparr>qs_duplicates := qs_duplicates q + 1\<rparr>
     else
       let q1 = note_order (qr_probe_id r) (q\<lparr>qs_received := insert (qr_probe_id r) (qs_received q)\<rparr>) in
       if qr_phone_send_nanos r < qr_phone_receive_nanos r \<or> received_nanos < qr_host_send_nanos r
       then q1\<lparr>invalid_timing := invalid_timing q1 + 1\<rparr>
       else
         let turnaround = qr_phone_send_nanos r - qr_phone_receive_nanos r;
             completion = received_nanos - qr_host_send_nanos r in
         if completion < turnaround then q1\<lparr>invalid_timing := invalid_timing q1 + 1\<rparr>
         else note_radio r (note_delay ((completion - turnaround) div 1000) completion (qr_repair_only r) q1))"

text \<open>\<open>(values.len() * percent).div_ceil(100).max(1) - 1\<close> into the sorted values.\<close>

definition percentile :: "u64 list \<Rightarrow> nat \<Rightarrow> u64 option" where
  "percentile values percent =
    (if values = [] then None
     else Some (sort values ! (max (div_ceil (length values * percent) 100) 1 - 1)))"

text \<open>The numbers of the summary, in microseconds; the text around them is left out.\<close>

record quality_summary =
  sm_p50 :: "u64 option"
  sm_p95 :: "u64 option"
  sm_p99 :: "u64 option"
  sm_max :: "u64 option"
  sm_jitter_p95 :: "u64 option"
  sm_repair_p95 :: "u64 option"
  sm_samples :: "nat \<times> nat"
  sm_lost :: nat
  sm_reordered :: nat
  sm_duplicates :: nat
  sm_invalid :: nat
  sm_radio :: "u32 option \<times> int option \<times> int option"

definition quality_summarise :: "quality_stats \<Rightarrow> quality_summary" where
  "quality_summarise q = (let ds = sort (delays_micros q) in
     \<lparr>sm_p50 = percentile ds 50, sm_p95 = percentile ds 95,
      sm_p99 = (if length ds \<ge> 1000 then percentile ds 99 else None),
      sm_max = (if ds = [] then None else Some (last ds)),
      sm_jitter_p95 = percentile (jitter_micros q) 95,
      sm_repair_p95 = percentile (repair_completion_micros q) 95,
      sm_samples = (card (qs_received q), card (qs_sent q)),
      sm_lost = card (qs_sent q) - card (qs_received q),
      sm_reordered = qs_reordered q, sm_duplicates = qs_duplicates q, sm_invalid = invalid_timing q,
      sm_radio = (qs_frequency q, qs_rssi q, signal_level q)\<rparr>)"

definition wifi_band :: "u32 \<Rightarrow> string" where
  "wifi_band frequency =
    (if 2400 \<le> frequency \<and> frequency \<le> 2500 then ''2.4GHz''
     else if 4900 \<le> frequency \<and> frequency \<le> 5900 then ''5GHz''
     else if 5925 \<le> frequency \<and> frequency \<le> 7125 then ''6GHz''
     else ''unknown band'')"

definition duration_nanos :: "duration \<Rightarrow> u64" where
  "duration_nanos d = of_nat (min d (2 ^ 64 - 1))"

section \<open>The world of pairing\<close>

datatype pair_command = Approve | Cancel

text \<open>What \<open>commands.try_recv()\<close> gives.\<close>

datatype command_poll = Command pair_command | Disconnected | NoCommand

datatype pair_event =
    Waiting
  | Pattern "u8 list"
  | RemoteConfirmed
  | Quality quality_summary
  | Complete

text \<open>
  A ghost log of what is reported to the user, what the user and the phone consent to, and what is
  handed to the store. Nothing reads it.
\<close>

datatype pair_note =
    Reported pair_event
  | Approved
  | Confirmed record_header
  | Stored credentials

text \<open>
  \<open>snow\<close>: a handshake is built from the pattern, the role, the local private key and the
  prologue; it writes and reads messages, and knows the static key of the other side.
\<close>

record 'h noise =
  ns_build :: "string \<Rightarrow> bool \<Rightarrow> bytes \<Rightarrow> bytes \<Rightarrow> 'h option"
  ns_write :: "'h \<Rightarrow> (bytes \<times> 'h) option"
  ns_read :: "'h \<Rightarrow> bytes \<Rightarrow> 'h option"
  ns_remote :: "'h \<Rightarrow> bytes option"
  ns_view :: "'h \<Rightarrow> handshake"

text \<open>
  What the OS reports of the interfaces now, the binding of the discovery socket with its options,
  sending before the socket is connected, the commands of the user, and random bytes.
\<close>

record 'w pairing_env = "'w store_env" +
  pw_system :: "'w \<Rightarrow> lan_system \<times> 'w"
  pw_bind :: "listener_interface \<Rightarrow> u16 \<Rightarrow> 'w \<Rightarrow> (io_error + unit) \<times> 'w"
  pw_send_to :: "bytes \<Rightarrow> socket_addr \<Rightarrow> 'w \<Rightarrow> (io_error + nat) \<times> 'w"
  pw_connect :: "socket_addr \<Rightarrow> 'w \<Rightarrow> (io_error + unit) \<times> 'w"
  pw_command :: "'w \<Rightarrow> command_poll \<times> 'w"
  pw_random :: "nat \<Rightarrow> 'w \<Rightarrow> bytes option \<times> 'w"

text \<open>
  Pairing runs on the state of the process; it leaves the sink, the window and the recorder alone.
\<close>

record ('w, 's) pairing = "('w, 's) session" +
  remarks :: "pair_note list"

abbreviation HANDSHAKE_TIMEOUT :: duration where "HANDSHAKE_TIMEOUT \<equiv> millis 5000"
abbreviation PAIRING_TIMEOUT :: duration where "PAIRING_TIMEOUT \<equiv> millis 60000"
abbreviation APPLICATION_RETRY :: duration where "APPLICATION_RETRY \<equiv> millis 100"
abbreviation QUALITY_INTERVAL :: duration where "QUALITY_INTERVAL \<equiv> millis 20"
abbreviation QUALITY_DURATION :: duration where "QUALITY_DURATION \<equiv> millis 3000"
abbreviation INTERFACE_REVALIDATE :: duration where "INTERFACE_REVALIDATE \<equiv> millis 500"
abbreviation READ_TIMEOUT :: duration where "READ_TIMEOUT \<equiv> millis 4"
abbreviation XX_NAME :: string where "XX_NAME \<equiv> ''Noise_XX_25519_ChaChaPoly_BLAKE2s''"
abbreviation IK_NAME :: string where "IK_NAME \<equiv> ''Noise_IK_25519_ChaChaPoly_BLAKE2s''"

definition remark :: "pair_note \<Rightarrow> (('w, 's, 'z) pairing_scheme, 'e, unit) io" where
  "remark x = io_update (\<lambda>st. st\<lparr>remarks := remarks st @ [x]\<rparr>)"

text \<open>A value that may be missing, with the error that its absence is.\<close>

definition io_some :: "'e \<Rightarrow> 'a option \<Rightarrow> ('st, 'e, 'a) io" where
  "io_some e x = (case x of None \<Rightarrow> io_fail e | Some y \<Rightarrow> io_return y)"

text \<open>A question to the interfaces as the OS reports them at the time.\<close>

definition io_net :: "('w, 'x) pairing_env_scheme \<Rightarrow> (lan_system \<Rightarrow> (host_error, 'a) outcome) \<Rightarrow>
    (('w, 's, 'z) pairing_scheme, host_error, 'a) io" where
  "io_net E f = io_bind (io_world (pw_system E)) (\<lambda>sys. io_lift (f sys))"

section \<open>Discovery and the handshake\<close>

definition bind_socket :: "('w, 'x) pairing_env_scheme \<Rightarrow> transport_kind \<Rightarrow> u16 \<Rightarrow>
    (('w, 's, 'z) pairing_scheme, host_error, listener_interface) io" where
  "bind_socket E transport port =
     io_bind (io_net E (\<lambda>sys. select_listener_interface sys transport)) (\<lambda>listener.
     io_seq (io_sys (pw_bind E listener port)) (io_return listener))"

definition send_plain ::
  "('w, 'x) pairing_env_scheme \<Rightarrow> bytes \<Rightarrow> socket_addr \<Rightarrow> (('w, 's, 'z) pairing_scheme, host_error, unit) io" where
  "send_plain E d peer =
     io_bind (io_sys (pw_send_to E d peer)) (\<lambda>sent.
       if sent \<noteq> length d then io_fail (HostIo (io_err WriteZero)) else io_return ())"

definition send_plain_redundant ::
  "('w, 'x) pairing_env_scheme \<Rightarrow> bytes \<Rightarrow> socket_addr \<Rightarrow> (('w, 's, 'z) pairing_scheme, host_error, unit) io" where
  "send_plain_redundant E d peer = io_seq (send_plain E d peer) (send_plain E d peer)"

text \<open>\<open>receive_datagram\<close> in the discovery loops: a timeout is no datagram.\<close>

definition receive_plain :: "('w, 'x) pairing_env_scheme \<Rightarrow>
    (('w, 's, 'z) pairing_scheme, host_error, (bytes \<times> socket_addr \<times> u32 option) option) io" where
  "receive_plain E = io_bind (io_world (ev_receive E)) (\<lambda>r.
     case r of
       Inl e \<Rightarrow> if err_kind e \<in> {TimedOut, WouldBlock} then io_return None else io_fail (HostIo e)
     | Inr x \<Rightarrow> io_return (Some x))"

text \<open>A check that is repeated every 500 ms; it returns the time of the last one.\<close>

definition recheck ::
  "('w, 'x) pairing_env_scheme \<Rightarrow> (('w, 's, 'z) pairing_scheme, host_error, unit) io \<Rightarrow> instant \<Rightarrow>
   (('w, 's, 'z) pairing_scheme, host_error, instant) io" where
  "recheck E check last_check =
     io_bind (io_elapsed E last_check) (\<lambda>d.
       if INTERFACE_REVALIDATE \<le> d then io_seq check (io_now E) else io_return last_check)"

definition same_listener :: "('w, 'x) pairing_env_scheme \<Rightarrow> transport_kind \<Rightarrow> listener_interface \<Rightarrow>
    (('w, 's, 'z) pairing_scheme, host_error, unit) io" where
  "same_listener E transport listener =
     io_bind (io_net E (\<lambda>sys. select_listener_interface sys transport)) (\<lambda>l.
       if l \<noteq> listener then io_fail HostInterface else io_return ())"

definition envelope_received ::
  "('w, 'x) pairing_env_scheme \<Rightarrow> transport_kind \<Rightarrow> listener_interface \<Rightarrow> (pair_envelope \<Rightarrow> bool) \<Rightarrow>
   instant \<Rightarrow> bytes \<Rightarrow> socket_addr \<Rightarrow> u32 option \<Rightarrow>
   (('w, 's, 'z) pairing_scheme, host_error,
      (instant, bytes \<times> pair_envelope \<times> socket_addr \<times> network_binding) flow) io" where
  "envelope_received E transport listener wanted last_check d peer ingress =
    (if \<not> listener_accepts_ingress listener ingress then io_return (Continue last_check) else
     case decode_pair_envelope d of
       Panic \<Rightarrow> io_lift Panic
     | Fail _ \<Rightarrow> io_return (Continue last_check)
     | Done env \<Rightarrow>
         if pe_transport env \<noteq> transport \<or> \<not> wanted env then io_return (Continue last_check) else
         io_bind (io_attempt (io_net E (\<lambda>sys. binding_for_peer sys peer transport listener))) (\<lambda>r.
           case r of
             Inl _ \<Rightarrow> io_return (Continue last_check)
           | Inr b \<Rightarrow> io_return (Break (d, env, peer, b))))"

definition envelope_attempt ::
  "('w, 'x) pairing_env_scheme \<Rightarrow> instant \<Rightarrow> transport_kind \<Rightarrow> listener_interface \<Rightarrow> (pair_envelope \<Rightarrow> bool) \<Rightarrow>
   instant \<Rightarrow> (('w, 's, 'z) pairing_scheme, host_error,
      (instant, bytes \<times> pair_envelope \<times> socket_addr \<times> network_binding) flow) io" where
  "envelope_attempt E deadline transport listener wanted last_check =
     io_bind (io_now E) (\<lambda>t. if deadline \<le> t then io_fail HostTimedOut else
     io_bind (recheck E (same_listener E transport listener) last_check) (\<lambda>last_check.
     io_bind (receive_plain E) (\<lambda>r.
       case r of
         None \<Rightarrow> io_return (Continue last_check)
       | Some (d, peer, ingress) \<Rightarrow> envelope_received E transport listener wanted last_check d peer ingress)))"

definition wait_for_envelope_owned ::
  "('w, 'x) pairing_env_scheme \<Rightarrow> instant \<Rightarrow> transport_kind \<Rightarrow> listener_interface \<Rightarrow> (pair_envelope \<Rightarrow> bool) \<Rightarrow>
   (('w, 's, 'z) pairing_scheme, host_error, bytes \<times> pair_envelope \<times> socket_addr \<times> network_binding) io" where
  "wait_for_envelope_owned E deadline transport listener wanted =
     io_bind (io_now E) (io_loop (envelope_attempt E deadline transport listener wanted))"

record handshake_step =
  hk_deadline :: instant
  hk_transport :: transport_kind
  hk_exchange_id :: bytes
  hk_kind :: u8
  hk_number :: u32
  repeated_request :: bytes
  repeated_response :: bytes

definition revalidate_now :: "('w, 'x) pairing_env_scheme \<Rightarrow> network_binding \<Rightarrow> socket_addr \<Rightarrow>
    (('w, 's, 'z) pairing_scheme, host_error, unit) io" where
  "revalidate_now E b peer = io_net E (\<lambda>sys. revalidate sys b peer)"

definition step_received ::
  "('w, 'x) pairing_env_scheme \<Rightarrow> socket_addr \<Rightarrow> network_binding \<Rightarrow> handshake_step \<Rightarrow> instant \<Rightarrow>
   bytes \<Rightarrow> socket_addr \<Rightarrow> u32 option \<Rightarrow> (('w, 's, 'z) pairing_scheme, host_error, (instant, bytes) flow) io" where
  "step_received E peer b step last_check d source ingress =
    (if source \<noteq> peer \<or> \<not> binding_accepts b ingress then io_return (Continue last_check) else
     io_seq (revalidate_now E b source)
      (if d = repeated_request step
       then io_seq (send_plain_redundant E (repeated_response step) peer) (io_return (Continue last_check))
       else case decode_pair_envelope d of
         Panic \<Rightarrow> io_lift Panic
       | Fail _ \<Rightarrow> io_return (Continue last_check)
       | Done env \<Rightarrow>
           if pe_transport env = hk_transport step \<and> pe_exchange_id env = hk_exchange_id step \<and>
              pe_kind env = hk_kind step \<and> pe_step env = hk_number step then io_return (Break d)
           else if pe_kind env = PAIR_ABORT then io_fail HostCancelled
           else io_return (Continue last_check)))"

definition step_attempt ::
  "('w, 'x) pairing_env_scheme \<Rightarrow> socket_addr \<Rightarrow> network_binding \<Rightarrow> handshake_step \<Rightarrow> instant \<Rightarrow>
   (('w, 's, 'z) pairing_scheme, host_error, (instant, bytes) flow) io" where
  "step_attempt E peer b step last_check =
     io_bind (io_now E) (\<lambda>t. if hk_deadline step \<le> t then io_fail HostTimedOut else
     io_bind (recheck E (revalidate_now E b peer) last_check) (\<lambda>last_check.
     io_bind (receive_plain E) (\<lambda>r.
       case r of
         None \<Rightarrow> io_return (Continue last_check)
       | Some (d, source, ingress) \<Rightarrow> step_received E peer b step last_check d source ingress)))"

definition wait_for_handshake_step ::
  "('w, 'x) pairing_env_scheme \<Rightarrow> socket_addr \<Rightarrow> network_binding \<Rightarrow> handshake_step \<Rightarrow>
   (('w, 's, 'z) pairing_scheme, host_error, bytes) io" where
  "wait_for_handshake_step E peer b step = io_bind (io_now E) (io_loop (step_attempt E peer b step))"

text \<open>\<open>build_handshake\<close>; no caller passes the static key of the other side.\<close>

definition build_handshake :: "'h noise \<Rightarrow> string \<Rightarrow> bool \<Rightarrow> bytes \<Rightarrow> bytes \<Rightarrow> ('st, host_error, 'h) io" where
  "build_handshake N name initiator private prologue' = io_some HostNoise (ns_build N name initiator private prologue')"

definition static_key :: "'h noise \<Rightarrow> 'h \<Rightarrow> ('st, host_error, bytes) io" where
  "static_key N hs = io_bind (io_some HostAuthentication (ns_remote N hs)) (\<lambda>key.
     if length key \<noteq> 32 then io_fail HostAuthentication else io_return key)"

text \<open>From the end of the handshake on, the socket is connected and records are exchanged.\<close>

definition connect_socket ::
  "('w, 'x) pairing_env_scheme \<Rightarrow> socket_addr \<Rightarrow> network_binding \<Rightarrow> record_cipher \<Rightarrow> bytes \<times> bytes \<Rightarrow>
   (('w, 's, 'z) pairing_scheme, host_error, unit) io" where
  "connect_socket E peer b cipher cached =
     io_seq (io_sys (pw_connect E peer))
     (io_seq (set_read_timeout E READ_TIMEOUT)
       (io_update (\<lambda>st. st\<lparr>conn := connection_new peer b cipher (Some cached)\<rparr>)))"

text \<open>The XX handshake as its initiator; it gives the phone's static key and the handshake hash.\<close>

definition pair_handshake ::
  "('w, 'x) pairing_env_scheme \<Rightarrow> 'h noise \<Rightarrow> (bytes \<Rightarrow> bytes) \<Rightarrow> transport_kind \<Rightarrow> instant \<Rightarrow> credentials \<Rightarrow>
   bytes \<times> pair_envelope \<times> socket_addr \<times> network_binding \<Rightarrow>
   (('w, 's, 'z) pairing_scheme, host_error, bytes \<times> bytes) io" where
  "pair_handshake E N blake2s transport deadline creds = (\<lambda>(probe_bytes, probe, peer, b).
     let exchange_id = pe_exchange_id probe in
     io_bind (build_handshake N XX_NAME True (cr_private_key creds) (prologue transport exchange_id)) (\<lambda>hs0.
     io_bind (io_some HostNoise (ns_write N hs0)) (\<lambda>(message_one, hs1).
     io_bind (io_lift (from_wire (encode_pair_envelope PAIR_OFFER exchange_id 1 transport message_one))) (\<lambda>offer.
     io_seq (send_plain_redundant E offer peer)
     (io_bind (io_now E) (\<lambda>t.
     io_bind (wait_for_handshake_step E peer b
       \<lparr>hk_deadline = min deadline (t + HANDSHAKE_TIMEOUT), hk_transport = transport, hk_exchange_id = exchange_id,
        hk_kind = PAIR_CONTINUE, hk_number = 2, repeated_request = probe_bytes, repeated_response = offer\<rparr>) (\<lambda>request.
     io_bind (io_lift (from_wire (decode_pair_envelope request))) (\<lambda>message_two.
     io_bind (io_some HostNoise (ns_read N hs1 (pe_payload message_two))) (\<lambda>hs2.
     io_bind (static_key N hs2) (\<lambda>remote_static.
     io_bind (io_some HostNoise (ns_write N hs2)) (\<lambda>(message_three, hs3).
     io_bind (io_lift (from_wire (encode_pair_envelope PAIR_CONTINUE exchange_id 3 transport message_three))) (\<lambda>continuation.
     io_seq (send_plain_redundant E continuation peer)
     (let handshake_hash = hs_hash (ns_view N hs3) in
      if length handshake_hash \<noteq> 32 then io_fail HostAuthentication else
      io_bind (io_lift (from_wire (from_handshake blake2s (ns_view N hs3) True))) (\<lambda>cipher.
      io_seq (connect_socket E peer b cipher (request, continuation))
        (io_return (remote_static, handshake_hash))))))))))))))))"

section \<open>The short authentication string\<close>

definition require_pair_record :: "opened_record \<Rightarrow> nat \<Rightarrow> (host_error, unit) outcome" where
  "require_pair_record r payload_length =
    (let h = or_header r in
     if rh_session_id h \<noteq> 0 \<or> rh_flags h \<noteq> 0 \<or> rh_logical_id h \<noteq> 0 \<or> length (or_payload r) \<noteq> payload_length
     then Fail HostAuthentication else Done ())"

definition require_pair_abort :: "opened_record \<Rightarrow> (host_error, unit) outcome" where
  "require_pair_abort r =
     and_then (require_pair_record r 2) (\<lambda>_.
     and_then (from_wire (read_u16 (or_payload r) 0)) (\<lambda>reason.
       if 1 \<le> reason \<and> reason \<le> 4 then Done () else Fail HostAuthentication))"

text \<open>A failure that is announced to the phone first.\<close>

definition abort_with ::
  "('w, 'x) pairing_env_scheme \<Rightarrow> aead \<Rightarrow> u16 \<Rightarrow> host_error \<Rightarrow> (('w, 's, 'z) pairing_scheme, host_error, 'a) io" where
  "abort_with E A reason e = io_seq (send_abort E A reason) (io_fail e)"

definition revalidate_interface :: "('w, 'x) pairing_env_scheme \<Rightarrow> (('w, 's, 'z) pairing_scheme, host_error, unit) io" where
  "revalidate_interface E = io_bind (io_gets conn) (\<lambda>c. revalidate_now E (cn_binding c) (cn_peer c))"

record retry_vars =
  rv_last_send :: instant
  rv_last_check :: instant

definition resend ::
  "('w, 'x) pairing_env_scheme \<Rightarrow> aead \<Rightarrow> (u8 \<times> bytes) option \<Rightarrow> instant \<Rightarrow>
   (('w, 's, 'z) pairing_scheme, host_error, instant) io" where
  "resend E A retry last_send =
    (case retry of
       None \<Rightarrow> io_return last_send
     | Some (ty, payload) \<Rightarrow>
         io_bind (io_elapsed E last_send) (\<lambda>d.
           if APPLICATION_RETRY \<le> d
           then io_seq (send_record_redundant E A HostToPhone ty 0 0 0 payload) (io_now E)
           else io_return last_send))"

definition application_received ::
  "('w, 'x) pairing_env_scheme \<Rightarrow> aead \<Rightarrow> u8 \<Rightarrow> (u8 \<times> bytes) option \<Rightarrow> instant \<Rightarrow> instant \<Rightarrow> opened_record option \<Rightarrow>
   (('w, 's, 'z) pairing_scheme, host_error, (retry_vars, opened_record) flow) io" where
  "application_received E A ty retry last_send last_check r =
    (let other = io_bind (resend E A retry last_send) (\<lambda>last_send.
           io_return (Continue \<lparr>rv_last_send = last_send, rv_last_check = last_check\<rparr>)) in
     case r of
       None \<Rightarrow> other
     | Some x \<Rightarrow>
         let h = or_header x in
         if rh_session_id h = 0 \<and> rh_flags h = 0 \<and> rh_message_type h = ty then io_return (Break x)
         else if rh_message_type h = PHONE_AUTH_ABORT then io_fail HostCancelled
         else other)"

definition application_attempt ::
  "('w, 'x) pairing_env_scheme \<Rightarrow> aead \<Rightarrow> instant \<Rightarrow> u8 \<Rightarrow> (u8 \<times> bytes) option \<Rightarrow> retry_vars \<Rightarrow>
   (('w, 's, 'z) pairing_scheme, host_error, (retry_vars, opened_record) flow) io" where
  "application_attempt E A deadline ty retry v =
     io_bind (io_now E) (\<lambda>t. if deadline \<le> t then abort_with E A 3 HostTimedOut else
     io_bind (io_world (pw_command E)) (\<lambda>command.
     if command = Command Cancel \<or> command = Disconnected then abort_with E A 1 HostCancelled else
     io_bind (recheck E (revalidate_interface E) (rv_last_check v)) (\<lambda>last_check.
     io_bind (receive_record E A) (application_received E A ty retry (rv_last_send v) last_check))))"

definition wait_for_application ::
  "('w, 'x) pairing_env_scheme \<Rightarrow> aead \<Rightarrow> instant \<Rightarrow> u8 \<Rightarrow> (u8 \<times> bytes) option \<Rightarrow>
   (('w, 's, 'z) pairing_scheme, host_error, opened_record) io" where
  "wait_for_application E A deadline ty retry =
     io_bind (io_now E) (\<lambda>t0. io_bind (io_now E) (\<lambda>t1.
       io_loop (application_attempt E A deadline ty retry) \<lparr>rv_last_send = t0, rv_last_check = t1\<rparr>))"

text \<open>What both sides know after the exchange.\<close>

record sas_agreed =
  phone_commitment :: bytes
  phone_random :: bytes
  host_random :: bytes

definition sas_exchange ::
  "('w, 'x) pairing_env_scheme \<Rightarrow> aead \<Rightarrow> (bytes \<Rightarrow> bytes) \<Rightarrow> instant \<Rightarrow> bytes \<Rightarrow>
   (('w, 's, 'z) pairing_scheme, host_error, sas_agreed) io" where
  "sas_exchange E A blake2s deadline hash =
     io_bind (wait_for_application E A deadline PHONE_SAS_COMMITMENT None) (\<lambda>commitment.
     io_bind (io_lift (require_pair_record commitment 32)) (\<lambda>_.
     io_bind (io_world (pw_random E 32)) (\<lambda>bs.
     io_bind (io_some (HostWire RandomUnavailable) bs) (\<lambda>host_rnd.
     let host_commitment = sas_commit blake2s 2 hash host_rnd in
     io_seq (send_record_redundant E A HostToPhone HOST_SAS_COMMITMENT 0 0 0 host_commitment)
     (io_bind (wait_for_application E A deadline PHONE_SAS_REVEAL (Some (HOST_SAS_COMMITMENT, host_commitment))) (\<lambda>reveal.
     io_bind (io_lift (require_pair_record reveal 32)) (\<lambda>_.
     if or_payload commitment \<noteq> sas_commit blake2s 1 hash (or_payload reveal)
     then abort_with E A 2 HostAuthentication else
     io_seq (send_record_redundant E A HostToPhone HOST_SAS_REVEAL 0 0 0 host_rnd)
     (io_bind (\<lambda>st. map_option (\<lambda>p. (Done p, st)) (sas_pattern blake2s (sas_digest blake2s hash (or_payload reveal) host_rnd)))
       (\<lambda>pattern.
     io_seq (remark (Reported (Pattern pattern)))
       (io_return \<lparr>phone_commitment = or_payload commitment, phone_random = or_payload reveal, host_random = host_rnd\<rparr>))))))))))"

section \<open>Approval\<close>

text \<open>What the loop reads but does not change, and its variables.\<close>

record pair_context =
  pc_deadline :: instant
  pc_transport :: transport_kind
  pc_credentials :: credentials
  remote_static :: bytes
  pc_sas :: sas_agreed
  quality_started :: instant

record pair_vars =
  next_probe :: instant
  next_probe_id :: u64
  pv_quality :: quality_stats
  remote_confirmed :: bool
  local_approved :: bool
  last_reveal_send :: instant
  last_interface_check :: instant

definition poll_command ::
  "('w, 'x) pairing_env_scheme \<Rightarrow> aead \<Rightarrow> pair_vars \<Rightarrow> (('w, 's, 'z) pairing_scheme, host_error, pair_vars) io" where
  "poll_command E A v = io_bind (io_world (pw_command E)) (\<lambda>command.
     case command of
       Command Approve \<Rightarrow> io_seq (remark Approved) (io_return (v\<lparr>local_approved := True\<rparr>))
     | Command Cancel \<Rightarrow> abort_with E A 1 HostCancelled
     | Disconnected \<Rightarrow> io_fail HostCancelled
     | NoCommand \<Rightarrow> io_return v)"

definition check_binding ::
  "('w, 'x) pairing_env_scheme \<Rightarrow> instant \<Rightarrow> pair_vars \<Rightarrow> (('w, 's, 'z) pairing_scheme, host_error, pair_vars) io" where
  "check_binding E now v =
    (if INTERFACE_REVALIDATE \<le> now - last_interface_check v
     then io_seq (revalidate_interface E) (io_return (v\<lparr>last_interface_check := now\<rparr>))
     else io_return v)"

definition send_quality_probe ::
  "('w, 'x) pairing_env_scheme \<Rightarrow> aead \<Rightarrow> u64 \<Rightarrow> u32 \<Rightarrow> instant \<Rightarrow> (('w, 's, 'z) pairing_scheme, host_error, unit) io" where
  "send_quality_probe E A probe_id fl started =
     send_copies REDUNDANT_COPIES
       (io_bind (io_elapsed E started) (\<lambda>d.
          send_record_once E A HostToPhone HOST_QUALITY_PROBE 0 probe_id fl (le_u64 (duration_nanos d)))) False None"

definition quality_done :: "pair_context \<Rightarrow> instant \<Rightarrow> bool" where
  "quality_done c now \<longleftrightarrow> pc_transport c = Usb \<or> QUALITY_DURATION \<le> now - quality_started c"

definition probe_quality ::
  "('w, 'x) pairing_env_scheme \<Rightarrow> aead \<Rightarrow> pair_context \<Rightarrow> instant \<Rightarrow> pair_vars \<Rightarrow>
   (('w, 's, 'z) pairing_scheme, host_error, pair_vars) io" where
  "probe_quality E A c now v =
    (if pc_transport c = Wifi \<and> \<not> quality_done c now \<and> next_probe v \<le> now then
       let fl = (if next_probe_id v mod 10 = 9 then QUALITY_REPAIR_ONLY else 0) in
       io_seq (send_quality_probe E A (next_probe_id v) fl (quality_started c))
         (io_return (v\<lparr>pv_quality := (pv_quality v)\<lparr>qs_sent := insert (next_probe_id v) (qs_sent (pv_quality v))\<rparr>,
            next_probe_id := next_probe_id v + 1, next_probe := next_probe v + QUALITY_INTERVAL\<rparr>))
     else io_return v)"

definition confirm_remote ::
  "opened_record \<Rightarrow> pair_vars \<Rightarrow> (('w, 's, 'z) pairing_scheme, host_error, pair_vars) io" where
  "confirm_remote r v =
     io_bind (io_lift (require_pair_record r 0)) (\<lambda>_.
       if remote_confirmed v then io_return v
       else io_seq (remark (Confirmed (or_header r)))
         (io_seq (remark (Reported RemoteConfirmed)) (io_return (v\<lparr>remote_confirmed := True\<rparr>))))"

text \<open>A repetition of the phone's commitment or reveal must be the one agreed on.\<close>

definition same_payload :: "opened_record \<Rightarrow> bytes \<Rightarrow> 'v \<Rightarrow> ('st, host_error, 'v) io" where
  "same_payload r expected v =
     io_bind (io_lift (require_pair_record r 32)) (\<lambda>_.
       if or_payload r \<noteq> expected then io_fail HostAuthentication else io_return v)"

definition quality_reply_received ::
  "('w, 'x) pairing_env_scheme \<Rightarrow> pair_context \<Rightarrow> opened_record \<Rightarrow> pair_vars \<Rightarrow>
   (('w, 's, 'z) pairing_scheme, host_error, pair_vars) io" where
  "quality_reply_received E c r v =
     io_bind (io_elapsed E (quality_started c)) (\<lambda>d.
     io_bind (io_lift (from_wire (decode_quality_reply r))) (\<lambda>reply.
       io_return (v\<lparr>pv_quality := quality_observe reply (duration_nanos d) (pv_quality v)\<rparr>)))"

definition pair_record ::
  "('w, 'x) pairing_env_scheme \<Rightarrow> pair_context \<Rightarrow> opened_record \<Rightarrow> pair_vars \<Rightarrow>
   (('w, 's, 'z) pairing_scheme, host_error, pair_vars) io" where
  "pair_record E c r v =
    (let ty = rh_message_type (or_header r) in
     if ty = PHONE_PAIR_CONFIRM then confirm_remote r v
     else if ty = PHONE_QUALITY_REPLY \<and> pc_transport c = Wifi then quality_reply_received E c r v
     else if ty = PHONE_SAS_COMMITMENT then same_payload r (phone_commitment (pc_sas c)) v
     else if ty = PHONE_SAS_REVEAL then same_payload r (phone_random (pc_sas c)) v
     else if ty = PHONE_AUTH_ABORT then io_bind (io_lift (require_pair_abort r)) (\<lambda>_. io_fail HostCancelled)
     else io_fail HostAuthentication)"

definition repeat_reveal ::
  "('w, 'x) pairing_env_scheme \<Rightarrow> aead \<Rightarrow> pair_context \<Rightarrow> pair_vars \<Rightarrow>
   (('w, 's, 'z) pairing_scheme, host_error, pair_vars) io" where
  "repeat_reveal E A c v =
    (if remote_confirmed v then io_return v else
     io_bind (io_elapsed E (last_reveal_send v)) (\<lambda>d.
       if APPLICATION_RETRY \<le> d
       then io_seq (send_record_redundant E A HostToPhone HOST_SAS_REVEAL 0 0 0 (host_random (pc_sas c)))
              (io_bind (io_now E) (\<lambda>t. io_return (v\<lparr>last_reveal_send := t\<rparr>)))
       else io_return v))"

definition persist_pairing_if_authorized ::
  "bool \<Rightarrow> bool \<Rightarrow> bool \<Rightarrow> ('st, credential_error, 'a) io \<Rightarrow> ('st, host_error, 'a option) io" where
  "persist_pairing_if_authorized confirmed approved done' persist =
    (if \<not> confirmed \<or> \<not> approved \<or> \<not> done' then io_return None
     else io_bind (io_convert (\<lambda>_. HostCredentials) persist) (\<lambda>x. io_return (Some x)))"

text \<open>''Android phone''\<close>

definition store_phone ::
  "('w, 'x) pairing_env_scheme \<Rightarrow> pair_context \<Rightarrow> (('w, 's, 'z) pairing_scheme, credential_error, unit) io" where
  "store_phone E c =
    (let creds = authorize_phone (remote_static c) (unicode_of ''Android phone'') (pc_credentials c) in
     io_seq (remark (Stored creds)) (save E creds))"

definition complete_pairing ::
  "('w, 'x) pairing_env_scheme \<Rightarrow> aead \<Rightarrow> pair_context \<Rightarrow> pair_vars \<Rightarrow>
   (('w, 's, 'z) pairing_scheme, host_error, unit) io" where
  "complete_pairing E A c v =
     io_seq (io_when (pc_transport c = Wifi) (remark (Reported (Quality (quality_summarise (pv_quality v))))))
     (io_seq (send_record_redundant E A HostToPhone HOST_PAIR_COMPLETE 0 0 0 [])
     (io_seq (send_record_once E A HostToPhone HOST_PAIR_COMPLETE 0 0 0 [])
       (remark (Reported Complete))))"

text \<open>The end of an iteration; a record that does not belong to pairing skips it.\<close>

definition pair_tail ::
  "('w, 'x) pairing_env_scheme \<Rightarrow> aead \<Rightarrow> pair_context \<Rightarrow> instant \<Rightarrow> pair_vars \<Rightarrow>
   (('w, 's, 'z) pairing_scheme, host_error, (pair_vars, bool) flow) io" where
  "pair_tail E A c now v =
     io_bind (repeat_reveal E A c v) (\<lambda>v.
     io_bind (persist_pairing_if_authorized (remote_confirmed v) (local_approved v) (quality_done c now) (store_phone E c)) (\<lambda>stored.
       case stored of
         None \<Rightarrow> io_return (Continue v)
       | Some _ \<Rightarrow> io_seq (complete_pairing E A c v) (io_return (Break True))))"

definition pair_iteration ::
  "('w, 'x) pairing_env_scheme \<Rightarrow> aead \<Rightarrow> pair_context \<Rightarrow> pair_vars \<Rightarrow>
   (('w, 's, 'z) pairing_scheme, host_error, (pair_vars, bool) flow) io" where
  "pair_iteration E A c v =
     io_bind (io_now E) (\<lambda>t. if pc_deadline c \<le> t then io_return (Break False) else
     io_bind (poll_command E A v) (\<lambda>v.
     io_bind (io_now E) (\<lambda>now.
     io_bind (check_binding E now v) (\<lambda>v.
     io_bind (probe_quality E A c now v) (\<lambda>v.
     io_bind (receive_record E A) (\<lambda>r.
       case r of
         None \<Rightarrow> pair_tail E A c now v
       | Some x \<Rightarrow>
           if rh_session_id (or_header x) \<noteq> 0 \<or> rh_flags (or_header x) \<noteq> 0 then io_return (Continue v)
           else io_bind (pair_record E c x v) (pair_tail E A c now)))))))"

definition approve_pairing ::
  "('w, 'x) pairing_env_scheme \<Rightarrow> aead \<Rightarrow> instant \<Rightarrow> transport_kind \<Rightarrow> credentials \<Rightarrow> bytes \<Rightarrow> sas_agreed \<Rightarrow>
   (('w, 's, 'z) pairing_scheme, host_error, unit) io" where
  "approve_pairing E A deadline transport creds remote sas =
     io_bind (io_now E) (\<lambda>started. io_bind (io_now E) (\<lambda>t1. io_bind (io_now E) (\<lambda>t2.
     io_bind (io_loop (pair_iteration E A \<lparr>pc_deadline = deadline, pc_transport = transport, pc_credentials = creds,
           remote_static = remote, pc_sas = sas, quality_started = started\<rparr>)
         \<lparr>next_probe = started, next_probe_id = 0, pv_quality = quality_new, remote_confirmed = False,
          local_approved = False, last_reveal_send = t1, last_interface_check = t2\<rparr>) (\<lambda>completed.
       if completed then io_return () else abort_with E A 3 HostTimedOut))))"

definition is_probe :: "pair_envelope \<Rightarrow> bool" where
  "is_probe env \<longleftrightarrow> pe_kind env = PAIR_PROBE \<and> pe_step env = 0 \<and> pe_payload env = []"

definition pair ::
  "('w, 'x) pairing_env_scheme \<Rightarrow> aead \<Rightarrow> 'h noise \<Rightarrow> (bytes \<Rightarrow> bytes) \<Rightarrow> transport_kind \<Rightarrow> u16 \<Rightarrow>
   (('w, 's, 'z) pairing_scheme, host_error, unit) io" where
  "pair E A N blake2s transport port =
     io_bind (io_now E) (\<lambda>t0. let deadline = t0 + PAIRING_TIMEOUT in
     io_bind (io_convert (\<lambda>_. HostCredentials) (load_or_create E)) (\<lambda>creds.
     io_bind (bind_socket E transport port) (\<lambda>listener.
     io_seq (remark (Reported Waiting))
     (io_bind (wait_for_envelope_owned E deadline transport listener is_probe) (\<lambda>found.
     io_bind (pair_handshake E N blake2s transport deadline creds found) (\<lambda>(remote, hash).
     io_bind (sas_exchange E A blake2s deadline hash) (\<lambda>sas.
       approve_pairing E A deadline transport creds remote sas)))))))"

section \<open>A remembered phone\<close>

definition is_ik_request :: "pair_envelope \<Rightarrow> bool" where
  "is_ik_request env \<longleftrightarrow> pe_kind env = IK_MESSAGE_1 \<and> pe_step env = 1"

text \<open>The IK handshake as its responder; the connection is left in the state.\<close>

definition accept_remembered ::
  "('w, 'x) pairing_env_scheme \<Rightarrow> 'h noise \<Rightarrow> (bytes \<Rightarrow> bytes) \<Rightarrow> transport_kind \<Rightarrow> u16 \<Rightarrow> instant \<Rightarrow>
   (('w, 's, 'z) pairing_scheme, host_error, unit) io" where
  "accept_remembered E N blake2s transport port deadline =
     io_bind (io_convert (\<lambda>_. HostCredentials) (load_or_create E)) (\<lambda>creds.
     io_bind (io_some NotPaired (paired_phone_public_key creds)) (\<lambda>expected_phone.
     io_bind (bind_socket E transport port) (\<lambda>listener.
     io_bind (wait_for_envelope_owned E deadline transport listener is_ik_request) (\<lambda>(request_bytes, request, peer, b).
     let exchange_id = pe_exchange_id request in
     io_bind (build_handshake N IK_NAME False (cr_private_key creds) (prologue transport exchange_id)) (\<lambda>hs0.
     io_bind (io_some HostNoise (ns_read N hs0 (pe_payload request))) (\<lambda>hs1.
     io_bind (io_some HostAuthentication (ns_remote N hs1)) (\<lambda>actual_phone.
     if actual_phone \<noteq> expected_phone then io_fail HostAuthentication else
     io_bind (io_some HostNoise (ns_write N hs1)) (\<lambda>(message, hs2).
     io_bind (io_lift (from_wire (encode_pair_envelope IK_CONTINUE exchange_id 2 transport message))) (\<lambda>response.
     io_seq (send_plain_redundant E response peer)
     (io_bind (io_lift (from_wire (from_handshake blake2s (ns_view N hs2) False))) (\<lambda>cipher.
       connect_socket E peer b cipher (request_bytes, response))))))))))))"

end
