(* ===== verification/Pairing_Safety.thy ===== *)
theory Pairing_Safety
  imports Pairing
begin

text \<open>
  What pairing guarantees (\<open>pair\<close>, \<open>accept_remembered\<close> in \<open>native-host/src/v5_host.rs\<close>): it always
  returns, and a key is stored only with the consent of both sides and bound to the string shown.
\<close>

section \<open>A world in which time passes\<close>

definition pairing_runs :: "('w, 'x) pairing_env_scheme \<Rightarrow> ('w \<Rightarrow> instant) \<Rightarrow> bool" where
  "pairing_runs E time \<longleftrightarrow> socket_runs E time \<and> (\<forall>w.
     time w < time (snd (ev_receive E w)) \<and>
     time w \<le> time (snd (cs_load E w)) \<and> (\<forall>bs. time w \<le> time (snd (cs_save E bs w))) \<and>
     time w \<le> time (snd (cs_generate E w)) \<and> time w \<le> time (snd (pw_system E w)) \<and>
     (\<forall>l p. time w \<le> time (snd (pw_bind E l p w))) \<and> (\<forall>d p. time w \<le> time (snd (pw_send_to E d p w))) \<and>
     (\<forall>p. time w \<le> time (snd (pw_connect E p w))) \<and> time w \<le> time (snd (pw_command E w)) \<and>
     (\<forall>n. time w \<le> time (snd (pw_random E n w))))"

lemma pairing_runsD:
  assumes "pairing_runs E time"
  shows "socket_runs E time" "time w < time (snd (ev_receive E w))" "time w \<le> time (snd (cs_load E w))"
    "time w \<le> time (snd (cs_save E bs w))" "time w \<le> time (snd (cs_generate E w))"
    "time w \<le> time (snd (pw_system E w))" "time w \<le> time (snd (pw_bind E l port w))"
    "time w \<le> time (snd (pw_send_to E d p w))" "time w \<le> time (snd (pw_connect E p w))"
    "time w \<le> time (snd (pw_command E w))" "time w \<le> time (snd (pw_random E n w))"
  using assms by (auto simp: pairing_runs_def)

section \<open>Steps that leave the log alone\<close>

text \<open>A condition on the log and on what the connection never changes.\<close>

definition stable :: "('w \<Rightarrow> instant) \<Rightarrow> (('w, 's, 'z) pairing_scheme \<Rightarrow> bool) \<Rightarrow> bool" where
  "stable time J \<longleftrightarrow> (\<forall>st xs st'. J st \<longrightarrow> link_step time st xs st' \<longrightarrow> J st')"

definition holds :: "('w \<Rightarrow> instant) \<Rightarrow> (('w, 's, 'z) pairing_scheme \<Rightarrow> bool) \<Rightarrow> instant \<Rightarrow>
    ('w, 's, 'z) pairing_scheme \<Rightarrow> bool" where
  "holds time J t st \<longleftrightarrow> stable time J \<and> J st \<and> t \<le> time (world st)"

abbreviation keeps :: "('w \<Rightarrow> instant) \<Rightarrow> (('w, 's, 'z) pairing_scheme \<Rightarrow> bool) \<Rightarrow> instant \<Rightarrow>
    ('e, 'a) outcome \<Rightarrow> ('w, 's, 'z) pairing_scheme \<Rightarrow> bool" where
  "keeps time J t \<equiv> \<lambda>r. holds time J t"

lemma holds_link: "holds time J t st \<Longrightarrow> link_step time st xs st' \<Longrightarrow> holds time J t st'"
  unfolding holds_def stable_def by (metis link_step_def order_trans)

lemma holds_world: "holds time J t st \<Longrightarrow> time (world st) \<le> time w \<Longrightarrow> holds time J t (st\<lparr>world := w\<rparr>)"
  by (rule holds_link [OF _ link_step_world])

lemma holds_later: "holds time J t st \<Longrightarrow> t' \<le> t \<Longrightarrow> holds time J t' st"
  by (auto simp: holds_def)

lemma keeps_then_bind:
  assumes "io_ends m st (keeps time J t)" and "\<And>x st'. holds time J t st' \<Longrightarrow> io_ends (f x) st' Q"
    and "\<And>r st'. holds time J t st' \<Longrightarrow> (\<forall>x. r \<noteq> Done x) \<Longrightarrow> Q r st'"
  shows "io_ends (io_bind m f) st Q"
  unfolding io_ends_bind
proof (rule io_ends_mono [OF assms(1)], goal_cases)
  case (1 r st')
  then show ?case using assms(2,3) by (cases r) auto
qed

lemma keeps_bind:
  assumes "io_ends m st (keeps time J t)" and "\<And>x st'. holds time J t st' \<Longrightarrow> io_ends (f x) st' (keeps time J t)"
  shows "io_ends (io_bind m f) st (keeps time J t)"
  using assms by (rule keeps_then_bind)

lemma keeps_seq:
  assumes "io_ends m st (keeps time J t)" and "\<And>st'. holds time J t st' \<Longrightarrow> io_ends k st' (keeps time J t)"
  shows "io_ends (io_seq m k) st (keeps time J t)"
  unfolding io_seq_def using assms by (rule keeps_bind)

lemma keeps_attempt:
  assumes "io_ends m st (keeps time J t)"
  shows "io_ends (io_attempt m) st (keeps time J t)"
  unfolding io_ends_attempt
proof (rule io_ends_mono [OF assms], goal_cases)
  case (1 r st')
  then show ?case by (cases r) auto
qed

lemma keeps_convert: "io_ends m st (keeps time J t) \<Longrightarrow> io_ends (io_convert g m) st (keeps time J t)"
  by simp

lemma keeps_basic:
  "holds time J t st \<Longrightarrow> io_ends (io_return x) st (keeps time J t)"
  "holds time J t st \<Longrightarrow> io_ends (io_fail e) st (keeps time J t)"
  "holds time J t st \<Longrightarrow> io_ends (io_lift r) st (keeps time J t)"
  "holds time J t st \<Longrightarrow> io_ends (io_gets g) st (keeps time J t)"
  by simp_all

lemma keeps_some: "holds time J t st \<Longrightarrow> io_ends (io_some e x) st (keeps time J t)"
  by (simp add: io_some_def split: option.split)

lemma keeps_world:
  "(\<And>w. time w \<le> time (snd (f w))) \<Longrightarrow> holds time J t st \<Longrightarrow> io_ends (io_world f) st (keeps time J t)"
  by (simp add: holds_world)

lemma keeps_sys:
  assumes "\<And>w. time w \<le> time (snd (f w))" and "holds time J t st"
  shows "io_ends (io_sys f) st (keeps time J t)"
  using assms holds_world [of time J t st] by (simp add: io_sys_def split: sum.split)

lemma keeps_sends:
  assumes "holds time J t st" and "io_ends m st (sends time ty sid lid st)"
  shows "io_ends m st (keeps time J t)"
proof (rule io_ends_mono [OF assms(2)], goal_cases)
  case (1 r st')
  then show ?case using holds_link [OF assms(1)] by (auto simp: sends_def)
qed

section \<open>The operations\<close>

lemma keeps_reads:
  assumes "pairing_runs E time" and "holds time J t st"
  shows "io_ends (io_now E) st (keeps time J t)"
    and "io_ends (io_world (pw_command E)) st (keeps time J t)"
    and "io_ends (io_world (pw_random E n)) st (keeps time J t)"
  by (intro keeps_world assms(2) pairing_runsD(10,11) [OF assms(1)]
      socket_runsD(7) [OF pairing_runsD(1) [OF assms(1)]])+

lemma keeps_elapsed:
  "pairing_runs E time \<Longrightarrow> holds time J t st \<Longrightarrow> io_ends (io_elapsed E d) st (keeps time J t)"
  unfolding io_elapsed_def by (intro keeps_bind keeps_reads keeps_basic)

lemma keeps_net: "pairing_runs E time \<Longrightarrow> holds time J t st \<Longrightarrow> io_ends (io_net E f) st (keeps time J t)"
  unfolding io_net_def by (intro keeps_bind keeps_world pairing_runsD keeps_basic)

lemma keeps_bind_socket:
  "pairing_runs E time \<Longrightarrow> holds time J t st \<Longrightarrow> io_ends (bind_socket E transport port) st (keeps time J t)"
  unfolding bind_socket_def by (intro keeps_bind keeps_seq keeps_net keeps_sys pairing_runsD keeps_basic)

lemma keeps_plain:
  "pairing_runs E time \<Longrightarrow> holds time J t st \<Longrightarrow> io_ends (send_plain E d peer) st (keeps time J t)"
  unfolding send_plain_def by (rule keeps_bind) (auto intro!: keeps_sys pairing_runsD)

lemma keeps_plain_redundant:
  "pairing_runs E time \<Longrightarrow> holds time J t st \<Longrightarrow> io_ends (send_plain_redundant E d peer) st (keeps time J t)"
  unfolding send_plain_redundant_def by (intro keeps_seq keeps_plain)

lemma keeps_recheck:
  assumes env: "pairing_runs E time" and "holds time J t st"
    and "\<And>st. holds time J t st \<Longrightarrow> io_ends check st (keeps time J t)"
  shows "io_ends (recheck E check d) st (keeps time J t)"
  unfolding recheck_def
  by (rule keeps_bind [OF keeps_elapsed [OF assms(1,2)]])
    (auto intro!: keeps_seq keeps_reads [OF env] assms(3) simp del: io_seq_rules io_world_rules)

lemma keeps_same_listener:
  "pairing_runs E time \<Longrightarrow> holds time J t st \<Longrightarrow> io_ends (same_listener E transport l) st (keeps time J t)"
  unfolding same_listener_def by (rule keeps_bind) (auto intro!: keeps_net)

lemma keeps_revalidate:
  "pairing_runs E time \<Longrightarrow> holds time J t st \<Longrightarrow> io_ends (revalidate_now E b peer) st (keeps time J t)"
  unfolding revalidate_now_def by (rule keeps_net)

lemma keeps_revalidate_interface:
  "pairing_runs E time \<Longrightarrow> holds time J t st \<Longrightarrow> io_ends (revalidate_interface E) st (keeps time J t)"
  unfolding revalidate_interface_def by (intro keeps_bind keeps_basic keeps_revalidate)

lemma keeps_redundant:
  assumes "aead_ok A" and "pairing_runs E time" and "holds time J t st"
  shows "io_ends (send_record_redundant E A dir ty sid lid fl p) st (keeps time J t)"
  by (rule keeps_sends [OF assms(3) send_record_redundant_ends [OF assms(1) pairing_runsD(1) [OF assms(2)]]])

lemma keeps_once:
  assumes "aead_ok A" and "pairing_runs E time" and "holds time J t st"
  shows "io_ends (send_record_once E A dir ty sid lid fl p) st (keeps time J t)"
  by (rule keeps_sends [OF assms(3) send_record_once_ends [OF assms(1) pairing_runsD(1) [OF assms(2)]]])

lemma keeps_abort:
  assumes "aead_ok A" and "pairing_runs E time" and "holds time J t st"
  shows "io_ends (abort_with E A reason e) st (keeps time J t)"
  unfolding abort_with_def send_abort_def by (intro keeps_seq keeps_redundant keeps_basic assms)

lemma keeps_resend:
  assumes ok: "aead_ok A" and env: "pairing_runs E time" and "holds time J t st"
  shows "io_ends (resend E A retry d) st (keeps time J t)"
  unfolding resend_def
  by (auto split: option.split intro!: keeps_bind [OF keeps_elapsed [OF env]] keeps_seq keeps_redundant [OF ok env]
      keeps_reads [OF env] assms(3) simp del: io_ends_bind io_seq_rules io_world_rules)

text \<open>A wait for a datagram: time passes.\<close>

lemma keeps_receive_plain:
  assumes "pairing_runs E time" and "holds time J t st"
  shows "io_ends (receive_plain E) st (keeps time J (Suc t))"
proof -
  have "t < time (snd (ev_receive E (world st)))"
    using pairing_runsD(2) [OF assms(1), of "world st"] assms(2) by (simp add: holds_def)
  moreover have "holds time J t (st\<lparr>world := snd (ev_receive E (world st))\<rparr>)"
    using pairing_runsD(2) [OF assms(1), of "world st"] by (intro holds_world [OF assms(2)]) simp
  ultimately have "holds time J (Suc t) (st\<lparr>world := snd (ev_receive E (world st))\<rparr>)" by (simp add: holds_def)
  then show ?thesis by (auto simp: receive_plain_def split: sum.split)
qed

lemma receive_record_ends:
  assumes ok: "aead_ok A" and env: "pairing_runs E time" and h: "holds time J t st"
  shows "io_ends (receive_record E A) st (\<lambda>r st'. holds time J (Suc t) st' \<and> same_link (conn st) (conn st') \<and>
    (\<forall>x. r = Done (Some x) \<longrightarrow> authentic A (conn st) (or_header x) (or_payload x)))"
  unfolding receive_record_def io_ends_bind
proof (rule io_ends_mono [OF receive_record_into_ends [OF ok pairing_runsD(1) [OF env]]], goal_cases)
  case (1 r st')
  let ?st0 = "st\<lparr>world := snd (ev_receive E (world st))\<rparr>"
  have "holds time J t ?st0" "t < time (world ?st0)"
    using pairing_runsD(2) [OF env, of "world st"] h holds_world [OF h, of "world ?st0"] by (simp_all add: holds_def)
  then have "holds time J (Suc t) ?st0" by (simp add: holds_def)
  with 1 have st': "holds time J (Suc t) st'" "same_link (conn st) (conn st')"
    using holds_link [of time J "Suc t" ?st0] by (auto simp: received_def) (simp add: link_step_def)
  show ?case
  proof (cases r)
    case (Done x)
    with 1 st' show ?thesis by (auto simp: received_def split: option.split)
  qed (use 1 st' in \<open>auto simp: received_def\<close>)
qed

section \<open>The waiting loops\<close>

lemma deadline_loop:
  assumes "holds time (J x) t st"
    and body: "\<And>x st. holds time (J x) (time (world st)) st \<Longrightarrow> io_ends (body x) st (iterated (\<lambda>y st'.
      holds time (J y) (Suc (time (world st))) st' \<and> time (world st) < deadline) Q)"
  shows "io_ends (io_loop body x) st Q"
proof (rule io_loop_ends [where I = "\<lambda>x st. holds time (J x) 0 st" and \<mu> = "\<lambda>_ st. deadline - time (world st)"])
  fix x st assume "holds time (J x) 0 st"
  then have "holds time (J x) (time (world st)) st" by (simp add: holds_def)
  from body [OF this] show "io_ends (body x) st (iterated (\<lambda>y st'. holds time (J y) 0 st' \<and>
      deadline - time (world st') < deadline - time (world st)) Q)"
  proof (rule io_ends_mono)
    show "iterated (\<lambda>y st'. holds time (J y) (Suc (time (world st))) st' \<and> time (world st) < deadline) Q r st' \<Longrightarrow>
      iterated (\<lambda>y st'. holds time (J y) 0 st' \<and> deadline - time (world st') < deadline - time (world st)) Q r st'"
      for r st' by (erule iterated_mono) (auto simp: holds_def)
  qed
qed (use assms(1) in \<open>simp add: holds_def\<close>)

text \<open>The head of every loop: the deadline.\<close>

lemma until_deadline:
  assumes env: "pairing_runs E time" and h: "holds time J (time (world st)) st"
    and "\<And>st'. holds time J (time (world st)) st' \<Longrightarrow> time (world st) < deadline \<Longrightarrow> io_ends m st' Q"
    and "\<And>st'. holds time J (time (world st)) st' \<Longrightarrow> io_ends e st' Q"
  shows "io_ends (io_bind (io_now E) (\<lambda>t. if deadline \<le> t then e else m)) st Q"
proof -
  note D = clock_runsD [OF socket_runsD(1) [OF pairing_runsD(1) [OF env]], of "world st"]
  have "holds time J (time (world st)) (st\<lparr>world := snd (ev_now E (world st))\<rparr>)"
    by (rule holds_world [OF h D(2)])
  with assms(3,4) D(1) show ?thesis by auto
qed

lemma keeps_later: "io_ends m st (keeps time J t) \<Longrightarrow> t' \<le> t \<Longrightarrow> io_ends m st (keeps time J t')"
  by (erule io_ends_mono) (rule holds_later)

lemma iterated_keeps:
  assumes "io_ends m st (keeps time J (Suc t))" and "t < deadline"
  shows "io_ends m st (iterated (\<lambda>_ st'. holds time J (Suc t) st' \<and> t < deadline) (keeps time J 0))"
proof (rule io_ends_mono [OF assms(1)], goal_cases)
  case (1 r st')
  then have "holds time J 0 st'" by (rule holds_later) simp
  show ?case
  proof (cases r)
    case (Done fl)
    with 1 assms(2) \<open>holds time J 0 st'\<close> show ?thesis by (cases fl) simp_all
  qed (use \<open>holds time J 0 st'\<close> in simp_all)
qed

lemma holds_zero: "holds time J t st \<Longrightarrow> holds time J 0 st"
  by (rule holds_later) simp_all

text \<open>An iteration that only checks and receives: it keeps the condition, and time passes.\<close>

lemma attempt_keeps:
  fixes st :: "('w, 's, 'z) pairing_scheme"
  assumes env: "pairing_runs E time" and h: "holds time J (time (world st)) st"
    and check: "\<And>st. holds time J (time (world st)) st \<Longrightarrow> io_ends check st (keeps time J (time (world st)))"
    and handle: "\<And>d x t st. holds time J t st \<Longrightarrow> io_ends (handle d x) st (keeps time J t)"
  shows "io_ends (io_bind (io_now E) (\<lambda>t. if deadline \<le> t then io_fail e else
      io_bind (recheck E check last_check) (\<lambda>d. io_bind (receive_plain E) (handle d)))) st
    (iterated (\<lambda>_ st'. holds time J (Suc (time (world st))) st' \<and> time (world st) < deadline) (keeps time J 0))"
    (is "io_ends _ _ ?Q")
proof (rule until_deadline [OF env h])
  let ?t = "time (world st)"
  fix st2 :: "('w, 's, 'z) pairing_scheme" assume h2: "holds time J ?t st2" and lt: "?t < deadline"
  have failed: "?Q r st'" if "holds time J ?t st'" "\<forall>x. r \<noteq> Done x" for r st'
    using that holds_later [OF that(1), of 0] by (cases r) auto
  have rest: "io_ends (io_bind (receive_plain E) (handle d)) st3 ?Q" if "holds time J ?t st3" for d st3
    by (rule iterated_keeps [OF keeps_bind [OF keeps_receive_plain [OF env that] handle] lt])
  have "io_ends check st (keeps time J ?t)" if "holds time J ?t st" for st
  proof -
    have "holds time J (time (world st)) st" "?t \<le> time (world st)" using that by (auto simp: holds_def)
    then show ?thesis by (intro keeps_later [OF check])
  qed
  from keeps_recheck [OF env h2 this]
  show "io_ends (io_bind (recheck E check last_check) (\<lambda>d. io_bind (receive_plain E) (handle d))) st2 ?Q"
    by (rule keeps_then_bind [OF _ rest failed])
qed (simp add: holds_zero)

lemma wait_for_envelope_keeps:
  fixes st :: "('w, 's, 'z) pairing_scheme"
  assumes env: "pairing_runs E time" and h: "holds time J t st"
  shows "io_ends (wait_for_envelope_owned E deadline transport l wanted) st (keeps time J 0)"
proof -
  have received: "io_ends (case r of None \<Rightarrow> io_return (Continue d)
     | Some (bs, peer, ingress) \<Rightarrow> envelope_received E transport l wanted d bs peer ingress) st (keeps time J t)"
    if "holds time J t st" for d r t and st :: "('w, 's, 'z) pairing_scheme"
    using that by (auto simp: envelope_received_def split: option.split outcome.split sum.split
        intro!: keeps_bind [OF keeps_attempt [OF keeps_net [OF env]]] simp del: io_ends_bind io_ends_attempt)
  have "io_ends (io_loop (envelope_attempt E deadline transport l wanted) start) st (keeps time J 0)"
    if "holds time J t st" for start and st :: "('w, 's, 'z) pairing_scheme"
    by (rule deadline_loop [where deadline = deadline, OF that])
      (unfold envelope_attempt_def, intro attempt_keeps env keeps_same_listener received)
  then show ?thesis
    unfolding wait_for_envelope_owned_def
    by (rule keeps_then_bind [OF keeps_reads(1) [OF env h]]) (auto intro: holds_zero)
qed

lemma wait_for_step_keeps:
  fixes st :: "('w, 's, 'z) pairing_scheme"
  assumes env: "pairing_runs E time" and h: "holds time J t st"
  shows "io_ends (wait_for_handshake_step E peer b step) st (keeps time J 0)"
proof -
  have received: "io_ends (case r of None \<Rightarrow> io_return (Continue d)
     | Some (bs, source, ingress) \<Rightarrow> step_received E peer b step d bs source ingress) st (keeps time J t)"
    if "holds time J t st" for d r t and st :: "('w, 's, 'z) pairing_scheme"
    using that by (auto simp: step_received_def split: option.split outcome.split
        intro!: keeps_seq keeps_revalidate [OF env] keeps_plain_redundant [OF env] simp del: io_seq_rules)
  have "io_ends (io_loop (step_attempt E peer b step) start) st (keeps time J 0)"
    if "holds time J t st" for start and st :: "('w, 's, 'z) pairing_scheme"
    by (rule deadline_loop [where deadline = "hk_deadline step", OF that])
      (unfold step_attempt_def, intro attempt_keeps env keeps_revalidate received)
  then show ?thesis
    unfolding wait_for_handshake_step_def
    by (rule keeps_then_bind [OF keeps_reads(1) [OF env h]]) (auto intro: holds_zero)
qed

section \<open>Application records\<close>

text \<open>A record that the phone sealed for the connection \<open>c\<close>.\<close>

definition from_phone :: "aead \<Rightarrow> connection \<Rightarrow> opened_record \<Rightarrow> bool" where
  "from_phone A c x \<longleftrightarrow> authentic A c (or_header x) (or_payload x)"

text \<open>The condition of a phase: the log so far, and the connection.\<close>

definition logged :: "connection \<Rightarrow> pair_note list \<Rightarrow> ('w, 's, 'z) pairing_scheme \<Rightarrow> bool" where
  "logged c ls st \<longleftrightarrow> remarks st = ls \<and> same_link c (conn st)"

lemma session_more_remarks: "session.more st' = session.more st \<Longrightarrow> remarks st' = remarks (st :: ('w, 's, 'z) pairing_scheme)"
  by (cases st; cases st') simp

lemma stable_logged: "stable time (logged c ls)"
  unfolding stable_def logged_def
  by (auto simp: link_step_def intro: same_link_trans dest: session_more_remarks)

lemma holds_logged: "holds time (logged c ls) t st \<longleftrightarrow> remarks st = ls \<and> same_link c (conn st) \<and> t \<le> time (world st)"
  by (simp add: holds_def stable_logged) (simp add: logged_def)

lemma receive_from_phone:
  assumes "aead_ok A" and "pairing_runs E time" and h: "holds time (logged c ls) t st"
  shows "io_ends (receive_record E A) st (\<lambda>r st'. holds time (logged c ls) (Suc t) st' \<and>
    (\<forall>x. r = Done (Some x) \<longrightarrow> from_phone A c x))"
proof (rule io_ends_mono [OF receive_record_ends [OF assms]], goal_cases)
  case (1 r st')
  have "same_link c (conn st)" using h by (simp add: holds_logged)
  with 1 show ?case by (auto simp: from_phone_def authentic_link)
qed

lemma application_attempt_ends:
  fixes st :: "('w, 's, 'z) pairing_scheme"
  assumes ok: "aead_ok A" and env: "pairing_runs E time" and h: "holds time (logged c ls) (time (world st)) st"
  shows "io_ends (application_attempt E A deadline ty retry v) st
    (iterated (\<lambda>_ st'. holds time (logged c ls) (Suc (time (world st))) st' \<and> time (world st) < deadline)
      (\<lambda>r st'. holds time (logged c ls) 0 st' \<and> (\<forall>x. r = Done x \<longrightarrow> from_phone A c x)))" (is "io_ends _ _ ?Q")
  unfolding application_attempt_def
proof (rule until_deadline [OF env h])
  let ?J = "logged c ls" and ?t = "time (world st)"
  have failed: "?Q r st'" if "holds time ?J t st'" "\<forall>x. r \<noteq> Done x" for r t and st' :: "('w, 's, 'z) pairing_scheme"
    using that holds_zero [OF that(1)] by (cases r) auto
  have abort: "io_ends (abort_with E A reason e) st' ?Q" if "holds time ?J t st'" for reason e t
    and st' :: "('w, 's, 'z) pairing_scheme"
    unfolding abort_with_def io_seq_def send_abort_def
    by (rule keeps_then_bind [OF keeps_redundant [OF ok env that] _ failed]) (auto simp: holds_zero)
  show "io_ends (abort_with E A 3 HostTimedOut) st' ?Q" if "holds time ?J ?t st'" for st' :: "('w, 's, 'z) pairing_scheme"
    by (rule abort [OF that])
  fix st2 :: "('w, 's, 'z) pairing_scheme" assume h2: "holds time ?J ?t st2" and lt: "?t < deadline"
  have other: "io_ends (io_bind (resend E A retry d) (\<lambda>s. io_return (Continue (g s)))) st' ?Q"
    if "holds time ?J (Suc ?t) st'" for d g and st' :: "('w, 's, 'z) pairing_scheme"
    by (rule keeps_then_bind [OF keeps_resend [OF ok env that] _ failed]) (auto simp: lt)
  have received: "io_ends (application_received E A ty retry d last_check r) st' ?Q"
    if "holds time ?J (Suc ?t) st'" "\<forall>x. r = Some x \<longrightarrow> from_phone A c x" for d last_check r
      and st' :: "('w, 's, 'z) pairing_scheme"
    using that holds_zero [OF that(1)]
    by (auto simp: application_received_def Let_def split: option.split intro!: other simp del: io_ends_bind)
  have receive: "io_ends (io_bind (receive_record E A) (application_received E A ty retry d last_check)) st' ?Q"
    if "holds time ?J ?t st'" for d last_check and st' :: "('w, 's, 'z) pairing_scheme"
    unfolding io_ends_bind
  proof (rule io_ends_mono [OF receive_from_phone [OF ok env that]], goal_cases)
    case (1 r st')
    then have later: "holds time ?J (Suc ?t) st'" by simp
    with 1 show ?case using failed [OF later] received holds_zero [OF later] by (cases r) auto
  qed
  show "io_ends (io_bind (io_world (pw_command E)) (\<lambda>command.
     if command = Command Cancel \<or> command = Disconnected then abort_with E A 1 HostCancelled else
     io_bind (recheck E (revalidate_interface E) (rv_last_check v)) (\<lambda>last_check.
     io_bind (receive_record E A) (application_received E A ty retry (rv_last_send v) last_check)))) st2 ?Q"
    by (rule keeps_then_bind [OF keeps_reads(2) [OF env h2] _ failed])
      (auto intro!: abort keeps_then_bind [OF keeps_recheck [OF env _ keeps_revalidate_interface [OF env]] receive failed]
        simp del: io_ends_bind)
qed

lemma wait_for_application_ends:
  fixes st :: "('w, 's, 'z) pairing_scheme"
  assumes ok: "aead_ok A" and env: "pairing_runs E time" and h: "holds time (logged c ls) 0 st"
  shows "io_ends (wait_for_application E A deadline ty retry) st
    (\<lambda>r st'. holds time (logged c ls) 0 st' \<and> (\<forall>x. r = Done x \<longrightarrow> from_phone A c x))" (is "io_ends _ _ ?Q")
proof -
  have loop: "io_ends (io_loop (application_attempt E A deadline ty retry) v) st ?Q"
    if "holds time (logged c ls) 0 st" for v and st :: "('w, 's, 'z) pairing_scheme"
    by (rule deadline_loop [where J = "\<lambda>_. logged c ls" and deadline = deadline, OF that])
      (rule application_attempt_ends [OF ok env])
  show ?thesis
    unfolding wait_for_application_def
    by (intro keeps_then_bind [OF keeps_reads(1) [OF env h]] keeps_then_bind [OF keeps_reads(1) [OF env]] loop) auto
qed

lemma wait_for_application_keeps:
  assumes "aead_ok A" and "pairing_runs E time" and "holds time (logged c ls) 0 st"
  shows "io_ends (wait_for_application E A deadline ty retry) st (keeps time (logged c ls) 0)"
  by (rule io_ends_mono [OF wait_for_application_ends [OF assms]]) simp

text \<open>
  The exchange of the string: what was committed is what was revealed, and the string shown is
  computed from the handshake hash and from the random bytes of both sides.
\<close>

definition agreed :: "(bytes \<Rightarrow> bytes) \<Rightarrow> bytes \<Rightarrow> sas_agreed \<Rightarrow> u8 list \<Rightarrow> bool" where
  "agreed blake2s hash sas p \<longleftrightarrow> phone_commitment sas = sas_commit blake2s 1 hash (phone_random sas) \<and>
     sas_pattern blake2s (sas_digest blake2s hash (phone_random sas) (host_random sas)) = Some p"

definition exchanged :: "('w \<Rightarrow> instant) \<Rightarrow> (bytes \<Rightarrow> bytes) \<Rightarrow> bytes \<Rightarrow> connection \<Rightarrow> pair_note list \<Rightarrow>
    (host_error, sas_agreed) outcome \<Rightarrow> ('w, 's, 'z) pairing_scheme \<Rightarrow> bool" where
  "exchanged time blake2s hash c ls r st \<longleftrightarrow>
     (case r of
        Done sas \<Rightarrow> \<exists>p. agreed blake2s hash sas p \<and> holds time (logged c (ls @ [Reported (Pattern p)])) 0 st
      | _ \<Rightarrow> remarks st = ls)"

lemma sas_exchange_ends:
  fixes st :: "('w, 's, 'z) pairing_scheme"
  assumes ok: "aead_ok A" and env: "pairing_runs E time" and h: "holds time (logged c ls) 0 st"
    and pattern: "\<And>d. sas_pattern blake2s d \<noteq> None"
  shows "io_ends (sas_exchange E A blake2s deadline hash) st (exchanged time blake2s hash c ls)"
proof -
  let ?J = "logged c ls" and ?Q = "exchanged time blake2s hash c ls"
  have failed: "?Q r st'" if "holds time ?J 0 st'" "\<forall>x. r \<noteq> Done x" for r and st' :: "('w, 's, 'z) pairing_scheme"
    using that by (cases r) (auto simp: holds_logged exchanged_def)
  note bind = keeps_then_bind [where Q = ?Q, OF _ _ failed]
  have shown: "io_ends (io_bind (\<lambda>st. map_option (\<lambda>p. (Done p, st)) (sas_pattern blake2s (sas_digest blake2s hash pr rnd)))
      (\<lambda>pattern. io_bind (remark (Reported (Pattern pattern)))
        (\<lambda>_. io_return \<lparr>phone_commitment = pc, phone_random = pr, host_random = rnd\<rparr>))) st' ?Q"
    if "holds time ?J 0 st'" "pc = sas_commit blake2s 1 hash pr" for rnd pc pr and st' :: "('w, 's, 'z) pairing_scheme"
  proof -
    obtain p where p: "sas_pattern blake2s (sas_digest blake2s hash pr rnd) = Some p"
      using pattern [of "sas_digest blake2s hash pr rnd"] by auto
    have "?Q (Done \<lparr>phone_commitment = pc, phone_random = pr, host_random = rnd\<rparr>)
        (st'\<lparr>remarks := remarks st' @ [Reported (Pattern p)]\<rparr>)"
      using that p by (auto simp: exchanged_def agreed_def holds_logged intro: exI [of _ p])
    then show ?thesis using p by (simp add: io_ends_def io_bind_def remark_def io_update_def io_return_def)
  qed
  have answer: "io_ends (if or_payload cm \<noteq> sas_commit blake2s 1 hash (or_payload reveal)
     then abort_with E A 2 HostAuthentication else
     io_bind (send_record_redundant E A HostToPhone HOST_SAS_REVEAL 0 0 0 rnd) (\<lambda>_.
     io_bind (\<lambda>st. map_option (\<lambda>p. (Done p, st)) (sas_pattern blake2s (sas_digest blake2s hash (or_payload reveal) rnd)))
       (\<lambda>pattern. io_bind (remark (Reported (Pattern pattern))) (\<lambda>_. io_return
         \<lparr>phone_commitment = or_payload cm, phone_random = or_payload reveal, host_random = rnd\<rparr>)))) st' ?Q"
    if "holds time ?J 0 st'" for cm reveal :: opened_record and rnd and st' :: "('w, 's, 'z) pairing_scheme"
  proof (cases "or_payload cm = sas_commit blake2s 1 hash (or_payload reveal)")
    case True
    then show ?thesis by (simp del: io_ends_bind) (intro bind [OF keeps_redundant [OF ok env that]] shown; simp)
  next
    case False
    have "io_ends (abort_with E A 2 HostAuthentication) st' ?Q"
      unfolding abort_with_def send_abort_def io_seq_def
      by (rule bind [OF keeps_redundant [OF ok env that]]) (auto intro: failed)
    with False show ?thesis by simp
  qed
  show ?thesis
    using h unfolding sas_exchange_def io_seq_def Let_def
    by - (intro bind [OF wait_for_application_keeps [OF ok env]] bind [OF keeps_basic(3)] bind [OF keeps_some]
        bind [OF keeps_reads(3) [OF env]] bind [OF keeps_redundant [OF ok env]] answer; assumption?)
qed

section \<open>The handshake\<close>

lemma keeps_store_call:
  fixes st :: "('w, 's, 'z) pairing_scheme"
  assumes "\<And>w. time w \<le> time (snd (f w))" and "holds time J t st"
  shows "io_ends (store_call f) st (keeps time J t)"
  using assms holds_world [of time J t st] by (simp add: store_call_def split: sum.split)

lemma keeps_save:
  fixes st :: "('w, 's, 'z) pairing_scheme"
  assumes env: "pairing_runs E time" and "holds time J t st"
  shows "io_ends (save E creds) st (keeps time J t)"
  unfolding save_def using assms(2)
  by (intro keeps_bind keeps_basic; simp split: option.split)
    (auto intro!: keeps_store_call pairing_runsD(4) [OF env])

lemma keeps_load_or_create:
  fixes st :: "('w, 's, 'z) pairing_scheme"
  assumes env: "pairing_runs E time" and h: "holds time J t st"
  shows "io_ends (load_or_create E) st (keeps time J t)"
proof -
  have create: "io_ends (generate E) st (keeps time J t)" if "holds time J t st" for st :: "('w, 's, 'z) pairing_scheme"
    unfolding generate_def
    by (rule keeps_bind [OF keeps_world [OF pairing_runsD(5) [OF env] that]]) (auto split: option.split)
  have valid: "io_ends (io_bind (io_lift (validate c)) (\<lambda>_. io_return (Some c))) st (keeps time J t)"
    if "holds time J t st" for c and st :: "('w, 's, 'z) pairing_scheme"
    by (intro keeps_bind keeps_basic that)
  have "io_ends (load E) st (keeps time J t)"
    unfolding load_def
    by (rule keeps_bind [OF keeps_store_call [OF _ h]], rule pairing_runsD(3) [OF env])
      (auto split: option.split intro!: valid simp del: io_ends_bind)
  then show ?thesis
    unfolding load_or_create_def
    by (rule keeps_bind)
      (auto split: option.split intro!: keeps_bind [OF create] keeps_bind [OF keeps_save [OF env]] simp del: io_ends_bind)
qed

text \<open>
  The XX handshake over the prologue of an exchange: \<open>remote\<close> is the static key that it
  authenticated, \<open>hs\<close> its end.
\<close>

definition xx_handshake :: "'h noise \<Rightarrow> transport_kind \<Rightarrow> bytes \<Rightarrow> bytes \<Rightarrow> 'h \<Rightarrow> bool" where
  "xx_handshake N transport private remote hs \<longleftrightarrow>
     (\<exists>exchange_id hs0 m1 hs1 payload hs2 m3. ns_build N XX_NAME True private (prologue transport exchange_id) = Some hs0 \<and>
        ns_write N hs0 = Some (m1, hs1) \<and> ns_read N hs1 payload = Some hs2 \<and> ns_remote N hs2 = Some remote \<and>
        ns_write N hs2 = Some (m3, hs))"

text \<open>After the handshake: the key of the other side, the hash, and a connection with its keys.\<close>

definition shaken :: "'h noise \<Rightarrow> (bytes \<Rightarrow> bytes) \<Rightarrow> transport_kind \<Rightarrow> bytes \<Rightarrow> bytes \<Rightarrow> bytes \<Rightarrow> connection \<Rightarrow> bool" where
  "shaken N blake2s transport private remote hash c \<longleftrightarrow>
     (\<exists>hs. xx_handshake N transport private remote hs \<and> hash = hs_hash (ns_view N hs) \<and>
        from_handshake blake2s (ns_view N hs) True = Done (cn_cipher c))"

definition handshaken :: "('w \<Rightarrow> instant) \<Rightarrow> 'h noise \<Rightarrow> (bytes \<Rightarrow> bytes) \<Rightarrow> transport_kind \<Rightarrow> bytes \<Rightarrow> pair_note list \<Rightarrow>
    (host_error, bytes \<times> bytes) outcome \<Rightarrow> ('w, 's, 'z) pairing_scheme \<Rightarrow> bool" where
  "handshaken time N blake2s transport private ls r st \<longleftrightarrow>
     (case r of
        Done (remote, hash) \<Rightarrow> \<exists>c. shaken N blake2s transport private remote hash c \<and> holds time (logged c ls) 0 st
      | _ \<Rightarrow> remarks st = ls)"

lemma stable_remarks: "stable time (\<lambda>st :: ('w, 's, 'z) pairing_scheme. remarks st = ls)"
  unfolding stable_def by (auto simp: link_step_def dest: session_more_remarks)

lemma holds_remarks: "holds time (\<lambda>st. remarks st = ls) t st \<longleftrightarrow> remarks st = ls \<and> t \<le> time (world st)"
  by (simp add: holds_def stable_remarks)

lemma keeps_connect_socket:
  fixes st :: "('w, 's, 'z) pairing_scheme"
  assumes env: "pairing_runs E time" and "holds time (\<lambda>st. remarks st = ls) 0 st"
  shows "io_ends (connect_socket E peer b cipher cached) st (\<lambda>r st'. remarks st' = ls \<and>
    (\<forall>x. r = Done x \<longrightarrow> holds time (logged (connection_new peer b cipher (Some cached)) ls) 0 st'))"
proof -
  let ?J = "\<lambda>st :: ('w, 's, 'z) pairing_scheme. remarks st = ls"
  have timeout: "io_ends (io_sys (ev_set_timeout E d)) st (keeps time ?J 0)" if "holds time ?J 0 st"
    for d and st :: "('w, 's, 'z) pairing_scheme"
    by (rule keeps_sys [OF _ that], rule socket_runsD(4) [OF pairing_runsD(1) [OF env]])
  have connect: "io_ends (io_sys (pw_connect E peer)) st (keeps time ?J 0)"
    by (rule keeps_sys [OF _ assms(2)], rule pairing_runsD(9) [OF env])
  show ?thesis
    unfolding connect_socket_def io_seq_def set_read_timeout_def
    by (rule keeps_then_bind [OF connect], rule keeps_then_bind [OF timeout])
      (auto simp: holds_remarks holds_logged)
qed

lemma pair_handshake_ends:
  fixes st :: "('w, 's, 'z) pairing_scheme"
  assumes env: "pairing_runs E time" and h: "holds time (\<lambda>st. remarks st = ls) 0 st"
  shows "io_ends (pair_handshake E N blake2s transport deadline creds found) st
    (handshaken time N blake2s transport (cr_private_key creds) ls)"
proof -
  let ?J = "\<lambda>st :: ('w, 's, 'z) pairing_scheme. remarks st = ls"
  let ?Q = "handshaken time N blake2s transport (cr_private_key creds) ls"
  have failed: "?Q r st'" if "holds time ?J 0 st'" "\<forall>x. r \<noteq> Done x" for r and st' :: "('w, 's, 'z) pairing_scheme"
    using that by (cases r) (auto simp: holds_remarks handshaken_def)
  note bind = keeps_then_bind [where Q = ?Q, OF _ _ failed]
  have some: "io_ends (io_bind (io_some e x) f) st' ?Q"
    if "holds time ?J 0 st'" "\<And>y. x = Some y \<Longrightarrow> io_ends (f y) st' ?Q" for e f st' and x :: "'q option"
    using that by (cases x) (auto simp: io_some_def intro: failed)
  have built: "io_ends (io_bind (io_some e (ns_build N name i p q)) f) st' ?Q"
    if "holds time ?J 0 st'" "\<And>y. ns_build N name i p q = Some y \<Longrightarrow> io_ends (f y) st' ?Q" for e f st' name i p q
    using that by (intro some)
  have read_in: "io_ends (io_bind (io_some e (ns_read N x p)) f) st' ?Q"
    if "holds time ?J 0 st'" "\<And>y. ns_read N x p = Some y \<Longrightarrow> io_ends (f y) st' ?Q" for e f st' x p
    using that by (intro some)
  have written: "io_ends (io_bind (io_some e (ns_write N x)) (\<lambda>(m, y). f m y)) st' ?Q"
    if "holds time ?J 0 st'" "\<And>m y. ns_write N x = Some (m, y) \<Longrightarrow> io_ends (f m y) st' ?Q" for e f st' x
    using that by (intro some) auto
  have static: "io_ends (io_bind (static_key N x) f) st' ?Q"
    if "holds time ?J 0 st'" "\<And>y. ns_remote N x = Some y \<Longrightarrow> io_ends (f y) st' ?Q" for f st' x
    using that by (cases "ns_remote N x") (auto simp: static_key_def io_some_def intro: failed)
  have keyed: "io_ends (io_bind (io_lift (from_wire (from_handshake blake2s hs True))) f) st' ?Q"
    if "holds time ?J 0 st'" "\<And>y. from_handshake blake2s hs True = Done y \<Longrightarrow> io_ends (f y) st' ?Q" for f st' hs
    using that by (cases "from_handshake blake2s hs True") (auto intro: failed)
  have connected: "io_ends (io_bind (connect_socket E peer b cipher cached) (\<lambda>_. io_return (remote, hs_hash (ns_view N hs)))) st' ?Q"
    if "holds time ?J 0 st'" "xx_handshake N transport (cr_private_key creds) remote hs"
      "from_handshake blake2s (ns_view N hs) True = Done cipher" for peer b cached remote hs cipher st'
    unfolding io_ends_bind
  proof (rule io_ends_mono [OF keeps_connect_socket [OF env that(1)]], goal_cases)
    case (1 r st2)
    have "shaken N blake2s transport (cr_private_key creds) remote (hs_hash (ns_view N hs)) (connection_new peer b cipher (Some cached))"
      using that by (auto simp: shaken_def connection_new_def)
    with 1 show ?case by (cases r) (auto simp: handshaken_def)
  qed
  obtain probe_bytes probe peer b where found: "found = (probe_bytes, probe, peer, b)" by (cases found)
  have finish: "io_ends (if length (hs_hash (ns_view N hs)) \<noteq> 32 then io_fail HostAuthentication else
      io_bind (io_lift (from_wire (from_handshake blake2s (ns_view N hs) True))) (\<lambda>cipher.
      io_bind (connect_socket E peer b cipher cached) (\<lambda>_. io_return (remote, hs_hash (ns_view N hs))))) st' ?Q"
    if "holds time ?J 0 st'" "xx_handshake N transport (cr_private_key creds) remote hs" for cached remote hs st'
    using that by (auto intro!: keyed connected failed simp del: io_ends_bind)
  show ?thesis
    using h unfolding found pair_handshake_def io_seq_def Let_def build_handshake_def prod.case
    by - (intro built read_in written static
        bind [OF keeps_basic(3)] bind [OF keeps_plain_redundant [OF env]] bind [OF keeps_reads(1) [OF env]]
        bind [OF wait_for_step_keeps [OF env]] finish; (assumption | unfold xx_handshake_def, blast)?)
qed

section \<open>Consent\<close>

text \<open>A condition on what was logged since \<open>ls\<close>, over the connection \<open>c\<close>.\<close>

definition noted :: "connection \<Rightarrow> pair_note list \<Rightarrow> (pair_note list \<Rightarrow> bool) \<Rightarrow> ('w, 's, 'z) pairing_scheme \<Rightarrow> bool" where
  "noted c ls P st \<longleftrightarrow> (\<exists>new. remarks st = ls @ new \<and> P new) \<and> same_link c (conn st)"

lemma stable_noted: "stable time (noted c ls P)"
  unfolding stable_def noted_def
  by (auto simp: link_step_def intro: same_link_trans dest: session_more_remarks)

lemma holds_noted: "holds time (noted c ls P) t st \<longleftrightarrow> noted c ls P st \<and> t \<le> time (world st)"
  by (simp add: holds_def stable_noted)

lemma noted_mono: "holds time (noted c ls P) t st \<Longrightarrow> (\<And>new. P new \<Longrightarrow> P' new) \<Longrightarrow> holds time (noted c ls P') t st"
  by (auto simp: holds_noted noted_def)

lemma remark_noted:
  "holds time (noted c ls P) t st \<Longrightarrow> (\<And>new. P new \<Longrightarrow> P' (new @ [x])) \<Longrightarrow>
    io_ends (remark x) st (keeps time (noted c ls P') t)"
  by (auto simp: remark_def holds_noted noted_def)

text \<open>The phone's confirmation.\<close>

definition phone_confirms :: "aead \<Rightarrow> connection \<Rightarrow> record_header \<Rightarrow> bool" where
  "phone_confirms A c h \<longleftrightarrow> authentic A c h [] \<and> rh_message_type h = PHONE_PAIR_CONFIRM"

definition consents :: "aead \<Rightarrow> connection \<Rightarrow> pair_note list \<Rightarrow> bool" where
  "consents A c xs \<longleftrightarrow> Approved \<in> set xs \<and> (\<exists>h. Confirmed h \<in> set xs \<and> phone_confirms A c h)"

definition backed :: "aead \<Rightarrow> connection \<Rightarrow> credentials \<Rightarrow> pair_note list \<Rightarrow> bool" where
  "backed A c k new \<longleftrightarrow> (\<forall>pre creds post. new = pre @ Stored creds # post \<longrightarrow> creds = k \<and> consents A c pre)"

text \<open>The flags of the loop and the log.\<close>

definition progress :: "aead \<Rightarrow> connection \<Rightarrow> pair_vars \<Rightarrow> pair_note list \<Rightarrow> bool" where
  "progress A c v new \<longleftrightarrow> (\<forall>k. Stored k \<notin> set new) \<and> (local_approved v \<longrightarrow> Approved \<in> set new) \<and>
     (remote_confirmed v \<longrightarrow> (\<exists>h. Confirmed h \<in> set new \<and> phone_confirms A c h))"

lemma progress_backed: "progress A c v new \<Longrightarrow> backed A c k new"
  by (auto simp: progress_def backed_def)

lemma progress_remark:
  "progress A c v new \<Longrightarrow> (\<And>k. x \<noteq> Stored k) \<Longrightarrow> progress A c v (new @ [x])"
  by (auto simp: progress_def)

lemma progress_updates [simp]:
  "progress A c (v\<lparr>last_interface_check := d\<rparr>) = progress A c v"
  "progress A c (v\<lparr>last_reveal_send := d\<rparr>) = progress A c v"
  "progress A c (v\<lparr>pv_quality := q\<rparr>) = progress A c v"
  "progress A c (v\<lparr>next_probe := d, next_probe_id := i, pv_quality := q\<rparr>) = progress A c v"
  "progress A c (v\<lparr>pv_quality := q, next_probe_id := i, next_probe := d\<rparr>) = progress A c v"
  by (simp_all add: progress_def fun_eq_iff)

lemma progress_approved: "progress A c v new \<Longrightarrow> progress A c (v\<lparr>local_approved := True\<rparr>) (new @ [Approved])"
  by (auto simp: progress_def)

lemma progress_confirmed:
  "progress A c v new \<Longrightarrow> phone_confirms A c h \<Longrightarrow>
    progress A c (v\<lparr>remote_confirmed := True\<rparr>) (new @ [Confirmed h])"
  by (auto simp: progress_def)

lemma snoc_at:
  "new @ [x] = pre @ y # post \<longleftrightarrow> (\<exists>rest. post = rest @ [x] \<and> new = pre @ y # rest) \<or> (post = [] \<and> pre = new \<and> y = x)"
  by (cases post rule: rev_cases) auto

lemma progress_stored:
  assumes "progress A c v new" and "remote_confirmed v" and "local_approved v"
  shows "backed A c k (new @ [Stored k])"
proof -
  have "consents A c new" using assms by (auto simp: progress_def consents_def)
  then show ?thesis using assms(1) by (auto simp: backed_def progress_def snoc_at)
qed

lemma backed_remark: "backed A c k new \<Longrightarrow> (\<And>k. x \<noteq> Stored k) \<Longrightarrow> backed A c k (new @ [x])"
  by (auto simp: backed_def snoc_at)

section \<open>The iterations of the approval\<close>

text \<open>An operation on the variables of the loop: what it returns fits the log, and a failure stores nothing.\<close>

definition advances :: "('w \<Rightarrow> instant) \<Rightarrow> aead \<Rightarrow> connection \<Rightarrow> pair_note list \<Rightarrow> instant \<Rightarrow>
    ('e, pair_vars) outcome \<Rightarrow> ('w, 's, 'z) pairing_scheme \<Rightarrow> bool" where
  "advances time A c ls t r st \<longleftrightarrow>
     (case r of Done v \<Rightarrow> holds time (noted c ls (progress A c v)) t st
      | _ \<Rightarrow> \<exists>v. holds time (noted c ls (progress A c v)) t st)"

lemma advances_simps [simp]:
  "advances time A c ls t (Done v) st = holds time (noted c ls (progress A c v)) t st"
  "advances time A c ls t (Fail e) st = (\<exists>v. holds time (noted c ls (progress A c v)) t st)"
  "advances time A c ls t Panic st = (\<exists>v. holds time (noted c ls (progress A c v)) t st)"
  by (simp_all add: advances_def)

lemma advances_failed: "holds time (noted c ls (progress A c v)) t st \<Longrightarrow> \<forall>x. r \<noteq> Done x \<Longrightarrow> advances time A c ls t r st"
  by (cases r) auto

lemmas advances_bind = keeps_then_bind [where Q = "advances time A c ls t" for time A c ls t, OF _ _ advances_failed]

lemma poll_command_advances:
  fixes st :: "('w, 's, 'z) pairing_scheme"
  assumes ok: "aead_ok A" and env: "pairing_runs E time" and h: "holds time (noted c ls (progress A c v)) t st"
  shows "io_ends (poll_command E A v) st (advances time A c ls t)"
proof -
  let ?J = "noted c ls (progress A c v)"
  have abort: "io_ends (abort_with E A reason e) st' (advances time A c ls t)" if "holds time ?J t st'" for reason e
    and st' :: "('w, 's, 'z) pairing_scheme"
    unfolding abort_with_def send_abort_def io_seq_def
    by (rule advances_bind [OF keeps_redundant [OF ok env that]]) auto
  have approve: "io_ends (io_bind (remark Approved) (\<lambda>_. io_return (v\<lparr>local_approved := True\<rparr>))) st' (advances time A c ls t)"
    if "holds time ?J t st'" for st' :: "('w, 's, 'z) pairing_scheme"
  proof (rule keeps_then_bind)
    show "io_ends (remark Approved) st' (keeps time (noted c ls (progress A c (v\<lparr>local_approved := True\<rparr>))) t)"
      by (rule remark_noted [OF that]) (rule progress_approved)
  qed (auto intro: advances_failed)
  show ?thesis
    unfolding poll_command_def io_seq_def
    by (rule advances_bind [OF keeps_reads(2) [OF env h]])
      (auto split: command_poll.split pair_command.split intro!: abort approve simp del: io_ends_bind)
qed

lemma check_binding_advances:
  fixes st :: "('w, 's, 'z) pairing_scheme"
  assumes env: "pairing_runs E time" and h: "holds time (noted c ls (progress A c v)) t st"
  shows "io_ends (check_binding E now v) st (advances time A c ls t)"
  unfolding check_binding_def io_seq_def
  using h by (auto intro!: advances_bind [OF keeps_revalidate_interface [OF env h]] simp del: io_ends_bind)

lemma keeps_probe:
  fixes st :: "('w, 's, 'z) pairing_scheme"
  assumes ok: "aead_ok A" and env: "pairing_runs E time" and h: "holds time J t st"
  shows "io_ends (send_quality_probe E A i fl started) st (keeps time J t)"
proof -
  have copy: "io_ends (io_bind (io_elapsed E started) (\<lambda>d. send_record_once E A HostToPhone HOST_QUALITY_PROBE 0 i fl
      (le_u64 (duration_nanos d)))) st (sends time HOST_QUALITY_PROBE 0 i st)" for st :: "('w, 's, 'z) pairing_scheme"
  proof -
    let ?st = "st\<lparr>world := snd (ev_now E (world st))\<rparr>"
    have l: "link_step time st [] ?st"
      by (rule link_step_world) (rule socket_runsD(7) [OF pairing_runsD(1) [OF env]])
    have "io_ends (send_record_once E A HostToPhone HOST_QUALITY_PROBE 0 i fl p) ?st (sends time HOST_QUALITY_PROBE 0 i st)" for p
      by (rule io_ends_mono [OF send_record_once_ends [OF ok pairing_runsD(1) [OF env]]])
        (use link_step_trans [OF l] in \<open>fastforce simp: sends_def\<close>)
    then show ?thesis by (simp add: io_elapsed_def)
  qed
  show ?thesis
    unfolding send_quality_probe_def
    by (rule keeps_sends [OF h send_copies_ends [OF copy, where xs = "[]"]]) simp_all
qed

lemma probe_quality_advances:
  fixes st :: "('w, 's, 'z) pairing_scheme"
  assumes ok: "aead_ok A" and env: "pairing_runs E time" and h: "holds time (noted c ls (progress A c v)) t st"
  shows "io_ends (probe_quality E A x now v) st (advances time A c ls t)"
  unfolding probe_quality_def io_seq_def Let_def
  using h by (auto intro!: advances_bind [OF keeps_probe [OF ok env h]] simp del: io_ends_bind)

lemma repeat_reveal_advances:
  fixes st :: "('w, 's, 'z) pairing_scheme"
  assumes ok: "aead_ok A" and env: "pairing_runs E time" and h: "holds time (noted c ls (progress A c v)) t st"
  shows "io_ends (repeat_reveal E A x v) st (advances time A c ls t)"
  unfolding repeat_reveal_def io_seq_def
  using h by (auto intro!: advances_bind [OF keeps_elapsed [OF env]] advances_bind [OF keeps_redundant [OF ok env]]
      advances_bind [OF keeps_reads(1) [OF env]] simp del: io_ends_bind)

lemma pair_record_advances:
  fixes st :: "('w, 's, 'z) pairing_scheme"
  assumes env: "pairing_runs E time" and h: "holds time (noted c ls (progress A c v)) t st"
    and sealed: "from_phone A c x"
  shows "io_ends (pair_record E k x v) st (advances time A c ls t)"
proof -
  let ?J = "noted c ls (progress A c v)"
  have confirm: "io_ends (confirm_remote x v) st (advances time A c ls t)" if "rh_message_type (or_header x) = PHONE_PAIR_CONFIRM"
  proof (cases "require_pair_record x 0")
    case (Done u)
    then have "or_payload x = []" by (auto simp: require_pair_record_def Let_def split: if_splits)
    with sealed that have confirms: "phone_confirms A c (or_header x)" by (simp add: phone_confirms_def from_phone_def)
    let ?v = "v\<lparr>remote_confirmed := True\<rparr>"
    have "io_ends (io_bind (remark (Confirmed (or_header x))) (\<lambda>_. io_bind (remark (Reported RemoteConfirmed))
        (\<lambda>_. io_return ?v))) st (advances time A c ls t)"
    proof (rule keeps_then_bind)
      show "io_ends (remark (Confirmed (or_header x))) st (keeps time (noted c ls (progress A c ?v)) t)"
        by (rule remark_noted [OF h]) (rule progress_confirmed [OF _ confirms])
      show "io_ends (io_bind (remark (Reported RemoteConfirmed)) (\<lambda>_. io_return ?v)) st' (advances time A c ls t)"
        if h': "holds time (noted c ls (progress A c ?v)) t st'" for st' :: "('w, 's, 'z) pairing_scheme"
      proof (rule keeps_then_bind)
        show "io_ends (remark (Reported RemoteConfirmed)) st' (keeps time (noted c ls (progress A c ?v)) t)"
          by (rule remark_noted [OF h']) (rule progress_remark, simp_all)
      qed (auto intro: advances_failed)
    qed (auto intro: advances_failed)
    with Done h show ?thesis by (auto simp: confirm_remote_def io_seq_def simp del: io_ends_bind) (simp_all add: h)
  qed (use h in \<open>auto simp: confirm_remote_def\<close>)
  have same: "io_ends (same_payload x expected v) st (advances time A c ls t)" for expected
    unfolding same_payload_def by (rule advances_bind [OF keeps_basic(3) [OF h]]) auto
  have reply: "io_ends (quality_reply_received E k x v) st (advances time A c ls t)"
    unfolding quality_reply_received_def
    by (rule advances_bind [OF keeps_elapsed [OF env h]], rule advances_bind [OF keeps_basic(3)]) auto
  have abort: "io_ends (io_bind (io_lift (require_pair_abort x)) (\<lambda>_. io_fail HostCancelled)) st (advances time A c ls t)"
    by (rule advances_bind [OF keeps_basic(3) [OF h]]) auto
  show ?thesis
    unfolding pair_record_def Let_def using confirm same reply abort h by (auto simp del: io_ends_bind)
qed

lemma keeps_complete:
  fixes st :: "('w, 's, 'z) pairing_scheme"
  assumes ok: "aead_ok A" and env: "pairing_runs E time" and h: "holds time (noted c ls P) t st"
    and P: "\<And>new x. P new \<Longrightarrow> (\<And>k. x \<noteq> Stored k) \<Longrightarrow> P (new @ [x])"
  shows "io_ends (complete_pairing E A k v) st (keeps time (noted c ls P) t)"
proof -
  have told: "io_ends (remark (Reported e)) st (keeps time (noted c ls P) t)"
    if "holds time (noted c ls P) t st" for e and st :: "('w, 's, 'z) pairing_scheme"
    by (rule remark_noted [OF that]) (simp add: P)
  have quality: "io_ends (io_when b (remark (Reported e))) st (keeps time (noted c ls P) t)" for b e
    using told [OF h] h by (cases b) simp_all
  show ?thesis
    unfolding complete_pairing_def
    by (intro keeps_seq [OF quality] keeps_seq [OF keeps_redundant [OF ok env]] keeps_seq [OF keeps_once [OF ok env]] told)
qed

text \<open>The end of the loop: everything stored is backed, and after a completed pairing something is.\<close>

definition concluded :: "aead \<Rightarrow> connection \<Rightarrow> credentials \<Rightarrow> bool \<Rightarrow> pair_note list \<Rightarrow> bool" where
  "concluded A c k completed new \<longleftrightarrow> backed A c k new \<and> (completed \<longrightarrow> Stored k \<in> set new)"

lemma concluded_remark: "concluded A c k b new \<Longrightarrow> (\<And>k. x \<noteq> Stored k) \<Longrightarrow> concluded A c k b (new @ [x])"
  by (simp add: concluded_def backed_remark)

definition ends_loop :: "('w \<Rightarrow> instant) \<Rightarrow> aead \<Rightarrow> connection \<Rightarrow> pair_note list \<Rightarrow> credentials \<Rightarrow>
    ('e, bool) outcome \<Rightarrow> ('w, 's, 'z) pairing_scheme \<Rightarrow> bool" where
  "ends_loop time A c ls k r st \<longleftrightarrow> holds time (noted c ls (concluded A c k (r = Done True))) 0 st"

lemma advanced_ends_loop:
  assumes "holds time (noted c ls (progress A c v)) t st" and "r \<noteq> Done True"
  shows "ends_loop time A c ls k r st"
  unfolding ends_loop_def
  by (rule noted_mono [OF holds_zero [OF assms(1)]]) (simp add: concluded_def assms(2) progress_backed)

lemma advances_then_bind:
  assumes "io_ends m st (advances time A c ls t)"
    and "\<And>v st'. holds time (noted c ls (progress A c v)) t st' \<Longrightarrow> io_ends (f v) st' Q"
    and "\<And>v r st'. holds time (noted c ls (progress A c v)) t st' \<Longrightarrow> (\<forall>x. r \<noteq> Done x) \<Longrightarrow> Q r st'"
  shows "io_ends (io_bind m f) st Q"
  unfolding io_ends_bind
proof (rule io_ends_mono [OF assms(1)], goal_cases)
  case (1 r st')
  then show ?case using assms(2,3) by (cases r) auto
qed

text \<open>One iteration either goes on with the variables or ends the loop.\<close>

abbreviation iterates :: "('w \<Rightarrow> instant) \<Rightarrow> aead \<Rightarrow> connection \<Rightarrow> pair_note list \<Rightarrow> credentials \<Rightarrow> instant \<Rightarrow> instant \<Rightarrow>
    ('e, (pair_vars, bool) flow) outcome \<Rightarrow> ('w, 's, 'z) pairing_scheme \<Rightarrow> bool" where
  "iterates time A c ls k deadline t \<equiv> iterated (\<lambda>v st. holds time (noted c ls (progress A c v)) (Suc t) st \<and> t < deadline)
     (ends_loop time A c ls k)"

lemma iterates_failed:
  assumes "holds time (noted c ls (progress A c v)) t' st" and "\<forall>x. r \<noteq> Done x"
  shows "iterates time A c ls k deadline t r st"
  using assms(2) by (cases r) (auto intro: advanced_ends_loop [OF assms(1)])

lemma pair_tail_iterates:
  fixes st :: "('w, 's, 'z) pairing_scheme"
  assumes ok: "aead_ok A" and env: "pairing_runs E time" and h: "holds time (noted c ls (progress A c v)) (Suc t) st"
    and lt: "t < deadline"
    and k: "k = authorize_phone (remote_static x) (unicode_of ''Android phone'') (pc_credentials x)"
  shows "io_ends (pair_tail E A x now v) st (iterates time A c ls k deadline t)"
  unfolding pair_tail_def
proof (rule advances_then_bind [OF repeat_reveal_advances [OF ok env h] _ iterates_failed])
  fix v and st :: "('w, 's, 'z) pairing_scheme" assume h: "holds time (noted c ls (progress A c v)) (Suc t) st"
  let ?Q = "iterates time A c ls k deadline t" and ?C = "noted c ls (concluded A c k True)"
  have failed: "?Q r st'" if "holds time ?C (Suc t) st'" "\<forall>x. r \<noteq> Done x"
    for r :: "(host_error, (pair_vars, bool) flow) outcome" and st' :: "('w, 's, 'z) pairing_scheme"
    using noted_mono [OF holds_zero [OF that(1)], of "concluded A c k False"] that(2)
    by (cases r) (auto simp: ends_loop_def concluded_def)
  show "io_ends (io_bind (persist_pairing_if_authorized (remote_confirmed v) (local_approved v) (quality_done x now)
     (store_phone E x)) (\<lambda>stored. case stored of None \<Rightarrow> io_return (Continue v)
       | Some _ \<Rightarrow> io_seq (complete_pairing E A x v) (io_return (Break True)))) st ?Q"
  proof (cases "remote_confirmed v \<and> local_approved v \<and> quality_done x now")
    case True
    have "io_ends (remark (Stored k)) st (keeps time ?C (Suc t))"
      using True by (intro remark_noted [OF h]) (simp add: concluded_def progress_stored)
    then have stored: "io_ends (store_phone E x) st (keeps time ?C (Suc t))"
      unfolding store_phone_def k Let_def by (rule keeps_seq [OF _ keeps_save [OF env]])
    have finished: "io_ends (io_bind (complete_pairing E A x v) (\<lambda>_. io_return (Break True))) st' ?Q"
      if "holds time ?C (Suc t) st'" for st' :: "('w, 's, 'z) pairing_scheme"
      by (rule keeps_then_bind [OF keeps_complete [OF ok env that concluded_remark] _ failed])
        (auto simp: ends_loop_def intro: holds_zero)
    have "io_ends (io_bind (io_convert (\<lambda>_. HostCredentials) (store_phone E x)) (\<lambda>_. io_bind (complete_pairing E A x v)
        (\<lambda>_. io_return (Break True)))) st ?Q"
      by (rule keeps_then_bind [OF keeps_convert [OF stored] finished failed])
    with True show ?thesis by (simp add: persist_pairing_if_authorized_def io_bind_laws io_seq_def del: io_ends_bind)
  next
    case False
    then show ?thesis using h lt by (auto simp: persist_pairing_if_authorized_def)
  qed
qed

lemma receive_noted:
  fixes st :: "('w, 's, 'z) pairing_scheme"
  assumes ok: "aead_ok A" and env: "pairing_runs E time" and h: "holds time (noted c ls P) t st"
  shows "io_ends (receive_record E A) st (\<lambda>r st'. holds time (noted c ls P) (Suc t) st' \<and>
    (\<forall>x. r = Done (Some x) \<longrightarrow> from_phone A c x))"
proof (rule io_ends_mono [OF receive_record_ends [OF assms]], goal_cases)
  case (1 r st')
  have "same_link c (conn st)" using h by (simp add: holds_noted noted_def)
  with 1 show ?case by (auto simp: from_phone_def authentic_link)
qed

lemma pair_iteration_iterates:
  fixes st :: "('w, 's, 'z) pairing_scheme"
  assumes ok: "aead_ok A" and env: "pairing_runs E time"
    and h: "holds time (noted c ls (progress A c v)) (time (world st)) st"
    and k: "k = authorize_phone (remote_static x) (unicode_of ''Android phone'') (pc_credentials x)"
  shows "io_ends (pair_iteration E A x v) st (iterates time A c ls k (pc_deadline x) (time (world st)))"
    (is "io_ends _ _ ?Q")
  unfolding pair_iteration_def
proof (rule until_deadline [OF env h])
  let ?t = "time (world st)"
  show "io_ends (io_return (Break False)) st' ?Q" if "holds time (noted c ls (progress A c v)) ?t st'" for st'
    using advanced_ends_loop [OF that, of "Done False"] by simp
  fix st' :: "('w, 's, 'z) pairing_scheme"
  assume h': "holds time (noted c ls (progress A c v)) ?t st'" and lt: "?t < pc_deadline x"
  note bind = advances_then_bind [where Q = ?Q, OF _ _ iterates_failed]
  have handled: "io_ends (case r of None \<Rightarrow> pair_tail E A x now v
       | Some y \<Rightarrow> if rh_session_id (or_header y) \<noteq> 0 \<or> rh_flags (or_header y) \<noteq> 0 then io_return (Continue v)
           else io_bind (pair_record E x y v) (pair_tail E A x now)) st ?Q"
    if here: "holds time (noted c ls (progress A c v)) (Suc ?t) st" and sealed: "\<forall>y. r = Some y \<longrightarrow> from_phone A c y"
    for r now v and st :: "('w, 's, 'z) pairing_scheme"
  proof -
    have tail: "io_ends (pair_tail E A x now v) st ?Q" if "holds time (noted c ls (progress A c v)) (Suc ?t) st"
      for v and st :: "('w, 's, 'z) pairing_scheme"
      by (rule pair_tail_iterates [OF ok env that lt k])
    have handle: "io_ends (io_bind (pair_record E x y v) (pair_tail E A x now)) st ?Q" if "r = Some y" for y
      by (rule bind [OF pair_record_advances [OF env here] tail]) (use sealed that in simp)
    show ?thesis using here tail handle lt by (auto split: option.split simp del: io_ends_bind)
  qed
  have receive: "io_ends (io_bind (receive_record E A) (\<lambda>r. case r of None \<Rightarrow> pair_tail E A x now v
       | Some y \<Rightarrow> if rh_session_id (or_header y) \<noteq> 0 \<or> rh_flags (or_header y) \<noteq> 0 then io_return (Continue v)
           else io_bind (pair_record E x y v) (pair_tail E A x now))) st ?Q"
    if "holds time (noted c ls (progress A c v)) ?t st" for now v and st :: "('w, 's, 'z) pairing_scheme"
    unfolding io_ends_bind
  proof (rule io_ends_mono [OF receive_noted [OF ok env that]], goal_cases)
    case (1 r st')
    then have later: "holds time (noted c ls (progress A c v)) (Suc ?t) st'" by simp
    show ?case
    proof (cases r)
      case (Done y)
      with 1 have sealed: "\<forall>x. y = Some x \<longrightarrow> from_phone A c x" by simp
      show ?thesis unfolding Done then_ends.simps by (rule handled [OF later sealed])
    qed (simp_all add: advanced_ends_loop [OF later])
  qed
  show "io_ends (io_bind (poll_command E A v) (\<lambda>v. io_bind (io_now E) (\<lambda>now. io_bind (check_binding E now v) (\<lambda>v.
     io_bind (probe_quality E A x now v) (\<lambda>v. io_bind (receive_record E A) (\<lambda>r. case r of None \<Rightarrow> pair_tail E A x now v
       | Some y \<Rightarrow> if rh_session_id (or_header y) \<noteq> 0 \<or> rh_flags (or_header y) \<noteq> 0 then io_return (Continue v)
           else io_bind (pair_record E x y v) (pair_tail E A x now))))))) st' ?Q"
    by (intro bind [OF poll_command_advances [OF ok env h']] keeps_then_bind [OF keeps_reads(1) [OF env] _ iterates_failed]
        bind [OF check_binding_advances [OF env]] bind [OF probe_quality_advances [OF ok env]] receive; assumption)
qed

lemma approve_pairing_ends:
  fixes st :: "('w, 's, 'z) pairing_scheme"
  assumes ok: "aead_ok A" and env: "pairing_runs E time" and h: "holds time (logged c ls) 0 st"
    and k: "k = authorize_phone remote (unicode_of ''Android phone'') creds"
  shows "io_ends (approve_pairing E A deadline transport creds remote sas) st
    (\<lambda>r. noted c ls (concluded A c k (r = Done ())))"
proof -
  let ?J = "noted c ls (\<lambda>new. new = [])" and ?Q = "\<lambda>r. noted c ls (concluded A c k (r = Done ()))"
  have start: "holds time ?J 0 st" using h by (simp add: holds_logged holds_noted noted_def)
  have failed: "?Q r st'" if "holds time (noted c ls (concluded A c k b)) 0 st'" "r \<noteq> Done ()"
    for b and r :: "(host_error, unit) outcome"
    and st' :: "('w, 's, 'z) pairing_scheme"
    using that by (auto simp: holds_noted noted_def concluded_def)
  have empty: "?Q r st'" if "holds time ?J 0 st'" "\<forall>x. r \<noteq> Done x"
    for r :: "(host_error, unit) outcome" and st' :: "('w, 's, 'z) pairing_scheme"
    using that by (auto simp: holds_noted noted_def concluded_def backed_def)
  have abort: "io_ends (abort_with E A 3 HostTimedOut) st' ?Q" if "holds time (noted c ls (concluded A c k False)) 0 st'"
    for st' :: "('w, 's, 'z) pairing_scheme"
    unfolding abort_with_def send_abort_def io_seq_def
    by (rule keeps_then_bind [OF keeps_redundant [OF ok env that]]) (auto simp: holds_noted)
  have loop: "io_ends (io_bind (io_loop (pair_iteration E A x) v) (\<lambda>completed. if completed then io_return () else
      abort_with E A 3 HostTimedOut)) st' ?Q"
    if x: "remote_static x = remote" "pc_credentials x = creds" and v: "\<not> local_approved v" "\<not> remote_confirmed v"
      and h: "holds time ?J 0 st'" for x v and st' :: "('w, 's, 'z) pairing_scheme"
    unfolding io_ends_bind
  proof (rule io_ends_mono [OF deadline_loop [where J = "\<lambda>v. noted c ls (progress A c v)" and deadline = "pc_deadline x"]])
    show "holds time (noted c ls (progress A c v)) 0 st'" using v by (intro noted_mono [OF h]) (simp add: progress_def)
    show "io_ends (pair_iteration E A x v) st (iterates time A c ls k (pc_deadline x) (time (world st)))"
      if "holds time (noted c ls (progress A c v)) (time (world st)) st" for v and st :: "('w, 's, 'z) pairing_scheme"
      by (rule pair_iteration_iterates [OF ok env that]) (simp add: k x)
    show "then_ends (\<lambda>completed. if completed then io_return () else abort_with E A 3 HostTimedOut) ?Q r st'"
      if "ends_loop time A c ls k r st'" for r and st' :: "('w, 's, 'z) pairing_scheme"
    proof (cases r)
      case (Done completed)
      with that show ?thesis by (cases completed) (auto simp: ends_loop_def holds_noted intro: abort)
    qed (use that failed in \<open>auto simp: ends_loop_def\<close>)
  qed
  show ?thesis
    using start unfolding approve_pairing_def
    by - (intro keeps_then_bind [OF keeps_reads(1) [OF env] _ empty] loop; simp?)
qed

section \<open>Pairing\<close>

text \<open>
  What lies behind a record that is stored: the phone's key is the one that an XX handshake with the
  own key authenticated, the string of that handshake was shown, and after that the user approved
  and the phone confirmed over the connection with the keys of that handshake.
\<close>

definition consented :: "aead \<Rightarrow> 'h noise \<Rightarrow> (bytes \<Rightarrow> bytes) \<Rightarrow> transport_kind \<Rightarrow> pair_note list \<Rightarrow> credentials \<Rightarrow> bool" where
  "consented A N blake2s transport pre creds \<longleftrightarrow>
     (\<exists>own remote hash c sas p before between h.
        creds = authorize_phone remote (unicode_of ''Android phone'') own \<and>
        shaken N blake2s transport (cr_private_key own) remote hash c \<and> agreed blake2s hash sas p \<and>
        pre = before @ Reported (Pattern p) # between \<and>
        Approved \<in> set between \<and> Confirmed h \<in> set between \<and> phone_confirms A c h)"

definition justified :: "(pair_note list \<Rightarrow> credentials \<Rightarrow> bool) \<Rightarrow> pair_note list \<Rightarrow> bool" where
  "justified P new \<longleftrightarrow> (\<forall>pre creds post. new = pre @ Stored creds # post \<longrightarrow> P pre creds)"

lemma justified_nothing: "\<forall>k. Stored k \<notin> set new \<Longrightarrow> justified P new"
  by (auto simp: justified_def)

lemma concluded_justified:
  assumes "shaken N blake2s transport (cr_private_key own) remote hash c" and "agreed blake2s hash sas p"
    and "backed A c (authorize_phone remote (unicode_of ''Android phone'') own) new"
  shows "justified (consented A N blake2s transport) (Reported Waiting # Reported (Pattern p) # new)"
  unfolding justified_def
proof (intro allI impI)
  fix pre creds post assume "Reported Waiting # Reported (Pattern p) # new = pre @ Stored creds # post"
  then obtain between where pre: "pre = [Reported Waiting] @ Reported (Pattern p) # between"
    and new: "new = between @ Stored creds # post"
    by (auto simp: Cons_eq_append_conv)
  with assms(3) have "creds = authorize_phone remote (unicode_of ''Android phone'') own" "consents A c between"
    by (auto simp: backed_def)
  with assms(1,2) pre show "consented A N blake2s transport pre creds"
    unfolding consented_def consents_def by blast
qed

text \<open>The result of pairing: what was logged since \<open>ls\<close>.\<close>

definition paired :: "(pair_note list \<Rightarrow> credentials \<Rightarrow> bool) \<Rightarrow> pair_note list \<Rightarrow> ('e, unit) outcome \<Rightarrow>
    ('w, 's, 'z) pairing_scheme \<Rightarrow> bool" where
  "paired P ls r st \<longleftrightarrow> (\<exists>new. remarks st = ls @ new \<and> (r = Done () \<longrightarrow> (\<exists>k. Stored k \<in> set new)) \<and> justified P new)"

lemma paired_nothing:
  "remarks st = ls @ new \<Longrightarrow> \<forall>k. Stored k \<notin> set new \<Longrightarrow> \<forall>x. r \<noteq> Done x \<Longrightarrow> paired P ls r st"
  unfolding paired_def by (intro exI [of _ new]) (simp add: justified_nothing)

text \<open>From the announcement of the host on.\<close>

lemma shaken_paired:
  fixes st :: "('w, 's, 'z) pairing_scheme"
  assumes ok: "aead_ok A" and env: "pairing_runs E time" and pattern: "\<And>d. sas_pattern blake2s d \<noteq> None"
    and shaken: "shaken N blake2s transport (cr_private_key creds) remote hash c"
    and h: "holds time (logged c (rs @ [Reported Waiting])) 0 st"
  shows "io_ends (io_bind (sas_exchange E A blake2s deadline hash)
      (\<lambda>sas. approve_pairing E A deadline transport creds remote sas)) st (paired (consented A N blake2s transport) rs)"
    (is "io_ends _ _ ?Q")
proof -
  have approve: "io_ends (approve_pairing E A deadline transport creds remote sas) st' ?Q"
    if "agreed blake2s hash sas p" "holds time (logged c ((rs @ [Reported Waiting]) @ [Reported (Pattern p)])) 0 st'"
    for sas p and st' :: "('w, 's, 'z) pairing_scheme"
  proof (rule io_ends_mono [OF approve_pairing_ends [OF ok env that(2) refl]], goal_cases)
    case (1 r st2)
    then obtain new where new: "remarks st2 = rs @ Reported Waiting # Reported (Pattern p) # new"
      and "concluded A c (authorize_phone remote (unicode_of ''Android phone'') creds) (r = Done ()) new"
      by (auto simp: noted_def)
    with concluded_justified [OF shaken that(1)] show ?case
      unfolding paired_def by (intro exI [of _ "Reported Waiting # Reported (Pattern p) # new"]) (auto simp: concluded_def)
  qed
  show ?thesis
    unfolding io_ends_bind
  proof (rule io_ends_mono [OF sas_exchange_ends [OF ok env h pattern]], goal_cases)
    case (1 r st2)
    show ?case
    proof (cases r)
      case (Done sas)
      with 1 approve show ?thesis by (auto simp: exchanged_def)
    qed (use 1 paired_nothing [of _ rs "[Reported Waiting]"] in \<open>auto simp: exchanged_def\<close>)
  qed
qed

lemma pair_ends:
  fixes st :: "('w, 's, 'z) pairing_scheme"
  assumes ok: "aead_ok A" and env: "pairing_runs E time" and pattern: "\<And>d. sas_pattern blake2s d \<noteq> None"
  shows "io_ends (pair E A N blake2s transport port) st (paired (consented A N blake2s transport) (remarks st))"
    (is "io_ends _ _ ?Q")
proof -
  let ?J = "\<lambda>ls (st :: ('w, 's, 'z) pairing_scheme). remarks st = ls"
  let ?ls = "remarks st @ [Reported Waiting]"
  have early: "?Q r st'" if "holds time (?J (remarks st)) 0 st'" "\<forall>x. r \<noteq> Done x" for r and st' :: "('w, 's, 'z) pairing_scheme"
    by (rule paired_nothing [of _ _ "[]"]) (use that in \<open>simp_all add: holds_remarks\<close>)
  have waited: "?Q r st'" if "remarks st' = ?ls" "\<forall>x. r \<noteq> Done x" for r and st' :: "('w, 's, 'z) pairing_scheme"
    by (rule paired_nothing [OF that(1)]) (use that(2) in simp_all)
  have shake: "io_ends (io_bind (pair_handshake E N blake2s transport deadline creds found) (\<lambda>(remote, hash).
      io_bind (sas_exchange E A blake2s deadline hash) (\<lambda>sas. approve_pairing E A deadline transport creds remote sas))) st' ?Q"
    if "holds time (?J ?ls) 0 st'" for creds found deadline and st' :: "('w, 's, 'z) pairing_scheme"
    unfolding io_ends_bind
  proof (rule io_ends_mono [OF pair_handshake_ends [OF env that]], goal_cases)
    case (1 r st2)
    show ?case
    proof (cases r)
      case (Done x)
      with 1 shaken_paired [OF ok env pattern] show ?thesis by (cases x) (auto simp: handshaken_def simp del: io_ends_bind)
    qed (use 1 waited in \<open>simp_all add: handshaken_def\<close>)
  qed
  have wait: "io_ends (io_bind (remark (Reported Waiting)) (\<lambda>_. io_bind (wait_for_envelope_owned E deadline transport l is_probe)
      (\<lambda>found. io_bind (pair_handshake E N blake2s transport deadline creds found) (\<lambda>(remote, hash).
      io_bind (sas_exchange E A blake2s deadline hash) (\<lambda>sas. approve_pairing E A deadline transport creds remote sas))))) st' ?Q"
    if "holds time (?J (remarks st)) 0 st'" for l creds deadline and st' :: "('w, 's, 'z) pairing_scheme"
  proof (rule keeps_then_bind)
    show "io_ends (remark (Reported Waiting)) st' (keeps time (?J ?ls) 0)"
      using that by (simp add: remark_def holds_remarks)
    show "io_ends (io_bind (wait_for_envelope_owned E deadline transport l is_probe) (\<lambda>found.
      io_bind (pair_handshake E N blake2s transport deadline creds found) (\<lambda>(remote, hash).
      io_bind (sas_exchange E A blake2s deadline hash) (\<lambda>sas. approve_pairing E A deadline transport creds remote sas)))) st2 ?Q"
      if "holds time (?J ?ls) 0 st2" for st2 :: "('w, 's, 'z) pairing_scheme"
      by (rule keeps_then_bind [OF wait_for_envelope_keeps [OF env that] shake waited]) (simp_all add: holds_remarks)
  qed (auto simp: holds_remarks intro: waited)
  have start: "holds time (?J (remarks st)) 0 st" by (simp add: holds_remarks)
  show ?thesis
    using start unfolding pair_def io_seq_def Let_def
    by - (intro keeps_then_bind [OF keeps_reads(1) [OF env] _ early] keeps_then_bind [OF keeps_convert [OF keeps_load_or_create [OF env]] _ early]
      keeps_then_bind [OF keeps_bind_socket [OF env] _ early] wait; assumption)
qed

text \<open>
  C1: Nothing is stored without the consent of both sides. Whatever the network, the phone and the user do,
  every record that \<open>pair\<close> hands to the store is backed by what came before it: it carries the static key that
  an XX handshake with the own key authenticated, the string computed from that handshake's hash and
  from both sides' random bytes (the phone's those it committed to) was shown, and after that the user
  approved and the phone's confirmation arrived sealed with the keys of that handshake. When \<open>pair\<close> succeeds a
  record was stored.

  That \<open>pair\<close> also returns rests on a condition on the hash that BLAKE2s is not documented to meet, and which the
  third hypothesis states: \<open>sas_pattern\<close> of \<open>v5.rs\<close> hashes a digest again and again until its bytes
  give the string to show, and this search ends for every digest. Everything else that bounds the pairing
  (its window, its deadlines, its commands) is proved.
\<close>

theorem pairing_needs_consent:
  assumes "aead_ok A" and "pairing_runs E time" and "\<And>d. sas_pattern blake2s d \<noteq> None"
  shows "\<exists>r st' new. pair E A N blake2s transport port st = Some (r, st') \<and> remarks st' = remarks st @ new \<and>
    (r = Done () \<longrightarrow> (\<exists>k. Stored k \<in> set new)) \<and>
    (\<forall>pre creds post. new = pre @ Stored creds # post \<longrightarrow> consented A N blake2s transport pre creds)"
  using pair_ends [OF assms, of N transport port st] by (auto simp: io_ends_def paired_def justified_def)

text \<open>
  A phone on the Wi-Fi of the host: its probe, its part of the handshake and its records lie ready,
  each receive takes a second, and the user approves at the fourth question.
\<close>

type_synonym demo_world = "nat \<times> bytes list \<times> command_poll list"

definition demo_peer :: socket_addr where
  "demo_peer = \<lparr>sa_ip = V4 0xC0A80105, sa_port = 999\<rparr>"

definition demo_lan :: lan_system where
  "demo_lan = \<lparr>ns_route = (\<lambda>_. Done (V4 0xC0A80102)), ns_ifaddrs = Done [], ns_index = (\<lambda>_. 0),
     fs_read = (\<lambda>_. Fail (io_err TimedOut)), fs_canonical = (\<lambda>_. Fail (io_err TimedOut)),
     fs_link = (\<lambda>_. Fail (io_err TimedOut)), fs_entries = (\<lambda>_. Done []), fs_exists = (\<lambda>_. False),
     fs_meta = (\<lambda>_. Fail (io_err TimedOut)), run_ip = (\<lambda>_ _. Fail (io_err TimedOut)),
     get_if_addrs = Done [\<lparr>lan_name = unicode_of ''wl'', lan_v4 = Some (0xC0A80102, 0xFFFFFF00), lan_index = Some 3,
       lan_up = True, lan_loopback = False, lan_p2p = False\<rparr>]\<rparr>"

definition demo_env :: "demo_world pairing_env" where
  "demo_env = \<lparr>ev_now = (\<lambda>w. (fst w, w)), ev_stopping = (\<lambda>w. (False, w)),
     ev_yield = (\<lambda>w. ((), fst w + 1, snd w)), ev_publish = (\<lambda>e w. (True, w)),
     ev_receive = (\<lambda>w. (case fst (snd w) of [] \<Rightarrow> Inl (io_err TimedOut) | d # _ \<Rightarrow> Inr (d, demo_peer, Some 3),
       fst w + millis 1000, tl (fst (snd w)), snd (snd w))),
     ev_send = (\<lambda>d w. (Inr (length d), w)), ev_set_timeout = (\<lambda>d w. (Inr (), w)),
     ev_changed = (\<lambda>w. (False, w)), ev_monitor = (\<lambda>w. (Inr (), w)), cs_load = (\<lambda>w. (Inr None, w)),
     cs_save = (\<lambda>bs w. (Inr (), w)), cs_generate = (\<lambda>w. (Some (replicate 32 1, replicate 32 2), w)),
     cs_encode = (\<lambda>_. Some []), cs_decode = (\<lambda>_. None),
     pw_system = (\<lambda>w. (demo_lan, w)), pw_bind = (\<lambda>l p w. (Inr (), w)),
     pw_send_to = (\<lambda>d p w. (Inr (length d), w)), pw_connect = (\<lambda>p w. (Inr (), w)),
     pw_command = (\<lambda>w. (case snd (snd w) of [] \<Rightarrow> NoCommand | c # _ \<Rightarrow> c, fst w, fst (snd w), tl (snd (snd w)))),
     pw_random = (\<lambda>n w. (Some (replicate n 8), w))\<rparr>"

definition demo_noise :: "nat noise" where
  "demo_noise = \<lparr>ns_build = (\<lambda>_ _ _ _. Some 0), ns_write = (\<lambda>h. Some ([7], h)), ns_read = (\<lambda>h m. Some h),
     ns_remote = (\<lambda>h. Some (replicate 32 9)),
     ns_view = (\<lambda>h. \<lparr>hs_finished = True, hs_hash = replicate 32 5, hs_split = ([1], [2])\<rparr>)\<rparr>"

definition demo_hash :: "bytes \<Rightarrow> bytes" where
  "demo_hash bs = replicate 32 4"

definition demo_inbox :: "bytes list" where
  "demo_inbox =
     [x. Done x \<leftarrow> [encode_pair_envelope PAIR_PROBE (replicate 16 3) 0 Wifi [],
        encode_pair_envelope PAIR_CONTINUE (replicate 16 3) 2 Wifi [6]]] @
     seal_all sample_aead (from_keys [2] [1] 0x0404040404040404)
       (map (\<lambda>(ty, p). \<lparr>sc_direction = PhoneToHost, sc_message_type = ty, sc_session_id = 0, sc_logical_id = 0,
           sc_flags = 0, sc_payload = p\<rparr>)
         [(PHONE_SAS_COMMITMENT, replicate 32 4), (PHONE_SAS_REVEAL, replicate 32 6), (PHONE_PAIR_CONFIRM, [])])"

definition demo_start :: "(demo_world, unit) pairing" where
  "demo_start = \<lparr>world = (0, demo_inbox, [NoCommand, NoCommand, NoCommand, Command Approve]),
     metrics = metrics_new True 5 0, sink = (), ordered = ordered_new, trace = [],
     conn = connection_new demo_peer (WifiBinding 0 0 0 None) (from_keys [] [] 0) None, remarks = []\<rparr>"

lemma demo_env_runs: "pairing_runs demo_env fst"
  by (simp add: pairing_runs_def socket_runs_def clock_runs_def demo_env_def)

lemma demo_pattern: "sas_pattern demo_hash d \<noteq> None"
proof -
  have "first_sas_word (chunks4 (replicate 32 4)) \<noteq> None" by code_simp
  then have "\<exists>p. sas_pattern demo_hash d = Some p"
    by (intro sas_pattern_returns [where n = 1]) (simp add: hash_parts_def demo_hash_def)
  then show ?thesis by simp
qed

theorem pairing_needs_consent_witness:
  "\<exists>r st' new. pair demo_env sample_aead demo_noise demo_hash Wifi 4711 demo_start = Some (r, st') \<and>
     remarks st' = remarks demo_start @ new \<and> (r = Done () \<longrightarrow> (\<exists>k. Stored k \<in> set new)) \<and>
     (\<forall>pre creds post. new = pre @ Stored creds # post \<longrightarrow>
        consented sample_aead demo_noise demo_hash Wifi pre creds)"
  by (rule pairing_needs_consent [OF sample_aead_ok demo_env_runs demo_pattern])

end
