(* ===== verification/Network_Manager.thy ===== *)
theory Network_Manager
  imports Network_Binding Host_World
begin

text \<open>
  The local-only policy of a Linux tether through NetworkManager
  (\<open>tauri-launcher/src-tauri/src/linux_network_manager.rs\<close>): choosing the one active profile of an
  RNDIS device, changing its two \<open>never-default\<close> settings in the stored and in the active profile, and
  undoing the change when a step fails. NetworkManager (D-Bus and \<open>nmcli\<close>), the file system and the
  kernel are a parameter.
\<close>

section \<open>Errors\<close>

datatype unavailable_reason = NotRunning | TooOld u32 u32 u32 | NoActiveTether | SeveralTethers

text \<open>The errors of the module by their cause; the texts are left out.\<close>

datatype nm_error =
    NmMissing | NmUntrusted | NmIo io_error | NmRun | NmTooLarge | NmRefused | NmWarned | NmNotUtf8
  | NmDbus | NmBadUuid | NmBadPath | NmOtherUuid | NmConcurrent | NmNoVersion | NmNotKept
  | NmBadVersion | NmBadResponse | NmUnsafeName | NmIdentity | NmUnavailable unavailable_reason
  | NmNotVerified | NmRoutesChanged
  | NmIncomplete "nm_error list"
  | NmRestored nm_error
  | NmNotRestored nm_error nm_error

section \<open>Text\<close>

text \<open>\<open>String::from_utf8\<close>: no overlong form, no surrogate, nothing above 10FFFF.\<close>

definition continuation :: "u8 \<Rightarrow> bool" where
  "continuation b \<longleftrightarrow> b AND 0xC0 = 0x80"

fun utf8_char :: "u8 list \<Rightarrow> (nat \<times> u8 list) option" where
  "utf8_char (a # bs) =
    (if a < 0x80 then Some (unat a, bs) else
     case bs of
       [] \<Rightarrow> None
     | b # cs \<Rightarrow>
         if \<not> continuation b then None else
         if 0xC2 \<le> a \<and> a \<le> 0xDF then Some (unat (a AND 0x1F) * 64 + unat (b AND 0x3F), cs) else
         (case cs of
            [] \<Rightarrow> None
          | c # ds \<Rightarrow>
              if \<not> continuation c then None else
              let v = unat (a AND 0x0F) * 4096 + unat (b AND 0x3F) * 64 + unat (c AND 0x3F) in
              if 0xE0 \<le> a \<and> a \<le> 0xEF
              then (if v < 0x800 \<or> 0xD800 \<le> v \<and> v \<le> 0xDFFF then None else Some (v, ds)) else
              (case ds of
                 [] \<Rightarrow> None
               | d # es \<Rightarrow>
                   if \<not> continuation d then None else
                   let v = ((unat (a AND 0x07) * 64 + unat (b AND 0x3F)) * 64 + unat (c AND 0x3F)) * 64 + unat (d AND 0x3F) in
                   if 0xF0 \<le> a \<and> a \<le> 0xF4 \<and> 0x10000 \<le> v \<and> v \<le> 0x10FFFF then Some (v, es) else None)))"
| "utf8_char [] = None"

lemma utf8_char_shorter: "utf8_char bs = Some (v, rest) \<Longrightarrow> length rest < length bs"
  by (cases bs) (auto simp: Let_def split: if_splits list.splits)

function from_utf8 :: "u8 list \<Rightarrow> unicode option" where
  "from_utf8 bs =
    (if bs = [] then Some [] else
     case utf8_char bs of
       None \<Rightarrow> None
     | Some (v, rest) \<Rightarrow> map_option ((#) v) (from_utf8 rest))"
  by pat_completeness auto
termination
  by (relation "measure length") (auto dest: utf8_char_shorter)

declare from_utf8.simps [simp del]

fun split_on :: "nat \<Rightarrow> unicode \<Rightarrow> unicode list" where
  "split_on c [] = [[]]"
| "split_on c (x # xs) =
    (if x = c then [] # split_on c xs
     else case split_on c xs of [] \<Rightarrow> [[x]] | s # ss \<Rightarrow> (x # s) # ss)"

text \<open>\<open>split_whitespace().next()\<close>.\<close>

definition first_word :: "unicode \<Rightarrow> unicode option" where
  "first_word s = (let w = takeWhile (\<lambda>c. \<not> is_whitespace c) (dropWhile is_whitespace s) in if w = [] then None else Some w)"

definition trim_end :: "(nat \<Rightarrow> bool) \<Rightarrow> unicode \<Rightarrow> unicode" where
  "trim_end P s = rev (dropWhile P (rev s))"

definition normalized_lines :: "unicode \<Rightarrow> unicode list" where
  "normalized_lines output = map (trim_end (\<lambda>c. c = 13)) (split_on 10 (trim_end (\<lambda>c. c = 13 \<or> c = 10) output))"

definition is_digit :: "nat \<Rightarrow> bool" where
  "is_digit c \<longleftrightarrow> 48 \<le> c \<and> c \<le> 57"

definition is_alphanumeric :: "nat \<Rightarrow> bool" where
  "is_alphanumeric c \<longleftrightarrow> is_digit c \<or> 65 \<le> c \<and> c \<le> 90 \<or> 97 \<le> c \<and> c \<le> 122"

definition is_hexdigit :: "nat \<Rightarrow> bool" where
  "is_hexdigit c \<longleftrightarrow> is_digit c \<or> 65 \<le> c \<and> c \<le> 70 \<or> 97 \<le> c \<and> c \<le> 102"

text \<open>All of these are ASCII checks, so the length in bytes is the length of an accepted text.\<close>

definition valid_uuid :: "unicode \<Rightarrow> bool" where
  "valid_uuid v \<longleftrightarrow> length v = 36 \<and>
     list_all (\<lambda>(i, c). if i \<in> {8, 13, 18, 23} then c = 45 else is_hexdigit c) (enumerate (0::nat) v)"

definition valid_interface_name :: "unicode \<Rightarrow> bool" where
  "valid_interface_name v \<longleftrightarrow> v \<noteq> [] \<and> length v \<le> 15 \<and> is_alphanumeric (hd v) \<and>
     list_all (\<lambda>c. is_alphanumeric c \<or> c \<in> {95, 45, 46}) v"

definition digits_after :: "string \<Rightarrow> unicode \<Rightarrow> bool" where
  "digits_after prefix v \<longleftrightarrow> (let p = unicode_of prefix; suffix = drop (length p) v in
     take (length p) v = p \<and> suffix \<noteq> [] \<and> list_all is_digit suffix)"

definition valid_device_dbus_path :: "unicode \<Rightarrow> bool" where
  "valid_device_dbus_path = digits_after ''/org/freedesktop/NetworkManager/Devices/''"

definition valid_settings_connection_dbus_path :: "unicode \<Rightarrow> bool" where
  "valid_settings_connection_dbus_path = digits_after ''/org/freedesktop/NetworkManager/Settings/''"

definition numeric_prefix :: "unicode option \<Rightarrow> (nm_error, u32) outcome" where
  "numeric_prefix v =
    (case parse_u32 (takeWhile is_digit (case v of None \<Rightarrow> [] | Some s \<Rightarrow> s)) of
       None \<Rightarrow> Fail NmBadVersion
     | Some n \<Rightarrow> Done n)"

definition nth_part :: "unicode list \<Rightarrow> nat \<Rightarrow> unicode option" where
  "nth_part parts i = (if i < length parts then Some (parts ! i) else None)"

definition parse_network_manager_version :: "unicode \<Rightarrow> (nm_error, u32 \<times> u32 \<times> u32) outcome" where
  "parse_network_manager_version output =
    (case first_word (trim output) of
       None \<Rightarrow> Fail NmBadVersion
     | Some token \<Rightarrow>
         let parts = split_on 46 token in
         and_then (numeric_prefix (nth_part parts 0)) (\<lambda>major.
         and_then (numeric_prefix (nth_part parts 1)) (\<lambda>minor.
           Done (major, minor, case numeric_prefix (nth_part parts 2) of Done patch \<Rightarrow> patch | _ \<Rightarrow> 0))))"

definition older_than :: "u32 \<times> u32 \<times> u32 \<Rightarrow> u32 \<times> u32 \<times> u32 \<Rightarrow> bool" where
  "older_than = (\<lambda>(a, b, c) (x, y, z). a < x \<or> a = x \<and> (b < y \<or> b = y \<and> c < z))"

abbreviation MINIMUM_NETWORK_MANAGER_VERSION :: "u32 \<times> u32 \<times> u32" where
  "MINIMUM_NETWORK_MANAGER_VERSION \<equiv> (1, 44, 0)"

definition parse_active_device :: "unicode \<Rightarrow> (nm_error, (unicode \<times> unicode) option) outcome" where
  "parse_active_device output =
    (case normalized_lines output of
       [line, uuid, dbus] \<Rightarrow>
         if first_word line \<noteq> Some (unicode_of ''100'') then Done None
         else if \<not> valid_uuid uuid then Fail NmBadUuid
         else if \<not> valid_device_dbus_path dbus then Fail NmBadPath
         else Done (Some (uuid, dbus))
     | _ \<Rightarrow> Fail NmBadResponse)"

section \<open>NetworkManager\<close>

text \<open>The settings of a connection, by section and property.\<close>

datatype dbus_value = Text unicode | Flag bool | OtherValue nat

type_synonym connection_settings = "unicode \<Rightarrow> (unicode \<Rightarrow> dbus_value option) option"

text \<open>
  The world of the module: the interfaces as the kernel reports them, \<open>nmcli\<close>, and the D-Bus calls. A
  failing call gives no value; whatever it did to the world, it did.
\<close>

record 'w nm_system =
  sy_net :: "'w \<Rightarrow> net_system \<times> 'w"
  sy_nmcli :: "path \<Rightarrow> unicode list \<Rightarrow> 'w \<Rightarrow> command_output option \<times> 'w"
  sy_connect :: "'w \<Rightarrow> unit option \<times> 'w"
  sy_daemon_version :: "'w \<Rightarrow> unicode option \<times> 'w"
  sy_by_uuid :: "unicode \<Rightarrow> 'w \<Rightarrow> unicode option \<times> 'w"
  sy_settings :: "unicode \<Rightarrow> 'w \<Rightarrow> connection_settings option \<times> 'w"
  sy_version_id :: "unicode \<Rightarrow> 'w \<Rightarrow> u64 option \<times> 'w"
  sy_update2 :: "unicode \<Rightarrow> connection_settings \<Rightarrow> u64 \<Rightarrow> 'w \<Rightarrow> unit option \<times> 'w"
  sy_applied :: "unicode \<Rightarrow> 'w \<Rightarrow> (connection_settings \<times> u64) option \<times> 'w"
  sy_reapply :: "unicode \<Rightarrow> connection_settings \<Rightarrow> u64 \<Rightarrow> 'w \<Rightarrow> unit option \<times> 'w"

text \<open>A call, and the error when it gives nothing.\<close>

definition ask :: "('w \<Rightarrow> 'a option \<times> 'w) \<Rightarrow> nm_error \<Rightarrow> ('w, nm_error, 'a) io" where
  "ask f e = io_run (\<lambda>w. case f w of (None, w') \<Rightarrow> (Fail e, w') | (Some x, w') \<Rightarrow> (Done x, w'))"

definition io_check :: "bool \<Rightarrow> 'e \<Rightarrow> ('st, 'e, unit) io" where
  "io_check ok e = (if ok then io_return () else io_fail e)"

definition property :: "connection_settings \<Rightarrow> string \<Rightarrow> string \<Rightarrow> dbus_value option" where
  "property s sec prop = (case s (unicode_of sec) of None \<Rightarrow> None | Some values \<Rightarrow> values (unicode_of prop))"

definition applied_boolean :: "connection_settings \<Rightarrow> string \<Rightarrow> string \<Rightarrow> bool option" where
  "applied_boolean s sec prop = (case property s sec prop of Some (Flag b) \<Rightarrow> Some b | _ \<Rightarrow> None)"

definition never_default :: "connection_settings \<Rightarrow> bool \<times> bool" where
  "never_default s =
     (applied_boolean s ''ipv4'' ''never-default'' = Some True, applied_boolean s ''ipv6'' ''never-default'' = Some True)"

definition connection_state :: "connection_settings \<Rightarrow> (nm_error, unicode \<times> bool \<times> bool) outcome" where
  "connection_state s =
    (case property s ''connection'' ''uuid'' of
       Some (Text uuid) \<Rightarrow> if valid_uuid uuid then Done (uuid, never_default s) else Fail NmBadUuid
     | _ \<Rightarrow> Fail NmBadUuid)"

definition verify_applied_uuid :: "connection_settings \<Rightarrow> unicode \<Rightarrow> (nm_error, unit) outcome" where
  "verify_applied_uuid s expected =
    (if property s ''connection'' ''uuid'' = Some (Text expected) then Done () else Fail NmOtherUuid)"

definition set_connection_boolean :: "connection_settings \<Rightarrow> string \<Rightarrow> string \<Rightarrow> bool \<Rightarrow> connection_settings" where
  "set_connection_boolean s sec prop value =
     s(unicode_of sec \<mapsto> ((case s (unicode_of sec) of None \<Rightarrow> Map.empty | Some values \<Rightarrow> values)
        (unicode_of prop \<mapsto> Flag value)))"

definition with_never_default :: "bool \<times> bool \<Rightarrow> connection_settings \<Rightarrow> connection_settings" where
  "with_never_default d s =
     set_connection_boolean (set_connection_boolean s ''ipv4'' ''never-default'' (fst d)) ''ipv6'' ''never-default'' (snd d)"

section \<open>The D-Bus calls of the module\<close>

definition settings_connection_path :: "'w nm_system \<Rightarrow> unicode \<Rightarrow> ('w, nm_error, unicode) io" where
  "settings_connection_path N uuid =
    (if \<not> valid_uuid uuid then io_fail NmBadUuid else
     io_bind (ask (sy_by_uuid N uuid) NmDbus) (\<lambda>p.
       if valid_settings_connection_dbus_path p then io_return p else io_fail NmBadPath))"

definition read_persistent_connection :: "'w nm_system \<Rightarrow> unicode \<Rightarrow> ('w, nm_error, bool \<times> bool) io" where
  "read_persistent_connection N uuid =
     io_bind (ask (sy_connect N) NmDbus) (\<lambda>_.
     io_bind (settings_connection_path N uuid) (\<lambda>p.
     io_bind (ask (sy_settings N p) NmDbus) (\<lambda>s.
     io_bind (io_lift (connection_state s)) (\<lambda>(reported, flags).
       if reported \<noteq> uuid then io_fail NmOtherUuid else io_return flags))))"

definition update_persistent_connection ::
  "'w nm_system \<Rightarrow> unicode \<Rightarrow> bool \<times> bool \<Rightarrow> bool \<times> bool \<Rightarrow> ('w, nm_error, unit) io" where
  "update_persistent_connection N uuid expected desired =
     io_bind (ask (sy_connect N) NmDbus) (\<lambda>_.
     io_bind (settings_connection_path N uuid) (\<lambda>p.
     io_bind (ask (sy_version_id N p) NmDbus) (\<lambda>version_id.
     io_bind (io_check (version_id \<noteq> 0) NmNoVersion) (\<lambda>_.
     io_bind (ask (sy_settings N p) NmDbus) (\<lambda>s.
     io_bind (io_lift (connection_state s)) (\<lambda>(reported, current).
     io_bind (io_check (reported = uuid) NmOtherUuid) (\<lambda>_.
     io_bind (io_check (current = expected) NmConcurrent) (\<lambda>_.
     io_bind (ask (sy_update2 N p (with_never_default desired s) version_id) NmRefused) (\<lambda>_.
     io_bind (ask (sy_version_id N p) NmDbus) (\<lambda>verified_version.
     io_bind (io_check (verified_version \<noteq> 0 \<and> verified_version \<noteq> version_id) NmNoVersion) (\<lambda>_.
     io_bind (ask (sy_settings N p) NmDbus) (\<lambda>s'.
     io_bind (io_lift (connection_state s')) (\<lambda>(verified_uuid, verified).
       io_check (verified_uuid = uuid \<and> verified = desired) NmNotKept)))))))))))))"

definition read_active_connection :: "'w nm_system \<Rightarrow> unicode \<Rightarrow> ('w, nm_error, unicode \<times> bool \<times> bool) io" where
  "read_active_connection N device =
    (if \<not> valid_device_dbus_path device then io_fail NmBadPath else
     io_bind (ask (sy_connect N) NmDbus) (\<lambda>_.
     io_bind (ask (sy_applied N device) NmDbus) (\<lambda>(s, _).
       io_lift (connection_state s))))"

definition apply_active_connection ::
  "'w nm_system \<Rightarrow> unicode \<Rightarrow> unicode \<Rightarrow> bool \<times> bool \<Rightarrow> bool \<times> bool \<Rightarrow> ('w, nm_error, unit) io" where
  "apply_active_connection N device uuid expected desired =
    (if \<not> valid_device_dbus_path device then io_fail NmBadPath else
     io_bind (ask (sy_connect N) NmDbus) (\<lambda>_.
     io_bind (ask (sy_applied N device) NmDbus) (\<lambda>(s, version_id).
     io_bind (io_lift (verify_applied_uuid s uuid)) (\<lambda>_.
     io_bind (io_lift (connection_state s)) (\<lambda>(_, current).
     io_bind (io_check (current = expected) NmConcurrent) (\<lambda>_.
     io_bind (ask (sy_reapply N device (with_never_default desired s) version_id) NmRefused) (\<lambda>_.
     io_bind (ask (sy_applied N device) NmDbus) (\<lambda>(s', _).
     io_bind (io_lift (verify_applied_uuid s' uuid)) (\<lambda>_.
     io_bind (io_lift (connection_state s')) (\<lambda>(verified_uuid, verified).
       io_check (verified_uuid = uuid \<and> verified = desired) NmNotKept))))))))))"

section \<open>The commands\<close>

definition nmcli_candidates :: "path list" where
  "nmcli_candidates = map (map ascii)
     [[''usr'', ''bin'', ''nmcli''], [''bin'', ''nmcli''], [''usr'', ''local'', ''bin'', ''nmcli''],
      [''run'', ''current-system'', ''sw'', ''bin'', ''nmcli'']]"

fun to_nm :: "(io_error, 'a) outcome \<Rightarrow> (nm_error, 'a) outcome" where
  "to_nm (Done x) = Done x"
| "to_nm (Fail e) = Fail (NmIo e)"
| "to_nm Panic = Panic"

fun trusted_nmcli_from :: "net_system \<Rightarrow> path list \<Rightarrow> (nm_error, path option) outcome" where
  "trusted_nmcli_from sys [] = Done None"
| "trusted_nmcli_from sys (candidate # cs) =
    (if \<not> fs_exists sys candidate then trusted_nmcli_from sys cs else
     and_then (to_nm (fs_canonical sys candidate)) (\<lambda>canonical.
     and_then (to_nm (trusted_executable_and_parents sys canonical)) (\<lambda>trusted.
       if trusted then Done (Some canonical) else Fail NmUntrusted)))"

definition io_sys_net :: "'w nm_system \<Rightarrow> (net_system \<Rightarrow> (nm_error, 'a) outcome) \<Rightarrow> ('w, nm_error, 'a) io" where
  "io_sys_net N f = io_run (\<lambda>w. case sy_net N w of (sys, w') \<Rightarrow> (f sys, w'))"

definition trusted_nmcli_path :: "'w nm_system \<Rightarrow> ('w, nm_error, path option) io" where
  "trusted_nmcli_path N = io_sys_net N (\<lambda>sys. trusted_nmcli_from sys nmcli_candidates)"

definition MAX_NMCLI_OUTPUT :: nat where "MAX_NMCLI_OUTPUT = 64 * 1024"

definition run_nmcli :: "'w nm_system \<Rightarrow> path \<Rightarrow> unicode list \<Rightarrow> ('w, nm_error, unicode) io" where
  "run_nmcli N nmcli args =
     io_bind (ask (sy_nmcli N nmcli args) NmRun) (\<lambda>output.
       if length (co_stdout output) > MAX_NMCLI_OUTPUT \<or> length (co_stderr output) > MAX_NMCLI_OUTPUT then io_fail NmTooLarge
       else if \<not> co_success output then io_fail NmRefused
       else if list_ex (\<lambda>b. \<not> ascii_whitespace b) (co_stderr output) then io_fail NmWarned
       else case from_utf8 (co_stdout output) of None \<Rightarrow> io_fail NmNotUtf8 | Some text \<Rightarrow> io_return text)"

text \<open>\<open>verify_present\<close> and \<open>default_routes_present\<close> of a device.\<close>

definition verify_device :: "'w nm_system \<Rightarrow> interface_identity \<Rightarrow> ('w, nm_error, bool) io" where
  "verify_device N d = io_sys_net N (\<lambda>sys. to_nm (and_then (usb_network_identity sys (if_name d) (if_index d))
     (\<lambda>found. Done (found = Some d))))"

definition routes_present :: "'w nm_system \<Rightarrow> interface_identity \<Rightarrow> ('w, nm_error, bool \<times> bool) io" where
  "routes_present N d =
     io_bind (io_sys_net N Done) (\<lambda>first. io_sys_net N (\<lambda>after. to_nm (default_routes_for_identity first after d)))"

definition device_name :: "interface_identity \<Rightarrow> (nm_error, unicode) outcome" where
  "device_name d = (case from_utf8 (if_name d) of None \<Rightarrow> Fail NmNotUtf8 | Some name \<Rightarrow> Done name)"

section \<open>The policy of one tether\<close>

text \<open>\<open>trait Backend\<close> and \<open>SystemBackend\<close>.\<close>

record ('w, 'd) backend =
  bk_devices :: "('w, nm_error, 'd list) io"
  bk_name :: "'d \<Rightarrow> (nm_error, unicode) outcome"
  bk_verify :: "'d \<Rightarrow> ('w, nm_error, bool) io"
  bk_routes :: "'d \<Rightarrow> ('w, nm_error, bool \<times> bool) io"
  bk_version :: "('w, nm_error, unicode) io"
  bk_nmcli :: "unicode list \<Rightarrow> ('w, nm_error, unicode) io"
  bk_read_profile :: "unicode \<Rightarrow> ('w, nm_error, bool \<times> bool) io"
  bk_update_profile :: "unicode \<Rightarrow> bool \<times> bool \<Rightarrow> bool \<times> bool \<Rightarrow> ('w, nm_error, unit) io"
  bk_read_active :: "unicode \<Rightarrow> ('w, nm_error, unicode \<times> bool \<times> bool) io"
  bk_apply_active :: "unicode \<Rightarrow> unicode \<Rightarrow> bool \<times> bool \<Rightarrow> bool \<times> bool \<Rightarrow> ('w, nm_error, unit) io"

definition system_backend :: "'w nm_system \<Rightarrow> path \<Rightarrow> ('w, interface_identity) backend" where
  "system_backend N nmcli =
     \<lparr>bk_devices = io_sys_net N (\<lambda>sys. to_nm (linux_tether_devices sys)), bk_name = device_name,
      bk_verify = verify_device N, bk_routes = routes_present N,
      bk_version = io_bind (ask (sy_connect N) NmDbus) (\<lambda>_. ask (sy_daemon_version N) NmDbus),
      bk_nmcli = run_nmcli N nmcli, bk_read_profile = read_persistent_connection N,
      bk_update_profile = update_persistent_connection N, bk_read_active = read_active_connection N,
      bk_apply_active = apply_active_connection N\<rparr>"

record 'd nm_target =
  tg_device :: 'd
  tg_interface :: unicode
  tg_uuid :: unicode
  tg_path :: unicode
  tg_profile :: "bool \<times> bool"
  tg_applied :: "bool \<times> bool"
  tg_routes :: "bool \<times> bool"

datatype 'd resolution = Target "'d nm_target" | NoTarget unavailable_reason

datatype status_text = PolicyActive | OffWithRoute | OffAllowed | RouteLeft bool bool | MixedSettings | StatusUnavailable unavailable_reason | StatusMissing

record local_only_status =
  ls_available :: bool
  ls_enabled :: bool
  ls_configured :: bool
  ls_mixed :: bool
  ls_interface :: "unicode option"
  ls_text :: status_text

definition status_unavailable :: "status_text \<Rightarrow> local_only_status" where
  "status_unavailable text = \<lparr>ls_available = False, ls_enabled = False, ls_configured = False, ls_mixed = False,
     ls_interface = None, ls_text = text\<rparr>"

definition settings_all :: "'d nm_target \<Rightarrow> bool \<Rightarrow> bool" where
  "settings_all t value \<longleftrightarrow> tg_profile t = (value, value) \<and> tg_applied t = (value, value)"

definition policy_enabled :: "'d nm_target \<Rightarrow> bool" where
  "policy_enabled t \<longleftrightarrow> settings_all t True \<and> tg_routes t = (False, False)"

text \<open>\<open>unreachable!\<close> is a panic.\<close>

definition target_status :: "'d nm_target \<Rightarrow> (nm_error, local_only_status) outcome" where
  "target_status t =
    (let enabled = policy_enabled t; disabled = settings_all t False; mixed = \<not> enabled \<and> \<not> disabled;
         route = fst (tg_routes t) \<or> snd (tg_routes t);
         text = (if enabled then Done PolicyActive
           else if disabled then Done (if route then OffWithRoute else OffAllowed)
           else if route then (case tg_routes t of (False, False) \<Rightarrow> Panic | (v4, v6) \<Rightarrow> Done (RouteLeft v4 v6))
           else if mixed then Done MixedSettings else Panic) in
     and_then text (\<lambda>text. Done \<lparr>ls_available = True, ls_enabled = enabled, ls_configured = settings_all t True,
       ls_mixed = mixed, ls_interface = Some (tg_interface t), ls_text = text\<rparr>))"

definition general_args :: "unicode list" where
  "general_args = map unicode_of [''--wait'', ''15'', ''--get-values'', ''RUNNING'', ''general'']"

definition device_args :: "unicode \<Rightarrow> unicode list" where
  "device_args name = map unicode_of [''--wait'', ''15'', ''--get-values'',
     ''GENERAL.STATE,GENERAL.CON-UUID,GENERAL.DBUS-PATH'', ''device'', ''show''] @ [name]"

text \<open>The devices with an active profile.\<close>

fun active_devices :: "('w, 'd) backend \<Rightarrow> 'd list \<Rightarrow> ('w, nm_error, ('d \<times> unicode \<times> unicode \<times> unicode) list) io" where
  "active_devices B [] = io_return []"
| "active_devices B (d # ds) =
     io_bind (io_lift (bk_name B d)) (\<lambda>name.
     if \<not> valid_interface_name name then io_fail NmUnsafeName else
     io_bind (bk_nmcli B (device_args name)) (\<lambda>output.
     io_bind (io_lift (parse_active_device output)) (\<lambda>found.
       case found of
         None \<Rightarrow> active_devices B ds
       | Some (uuid, dbus) \<Rightarrow>
           io_bind (bk_verify B d) (\<lambda>present.
           if \<not> present then io_fail NmIdentity else
           io_bind (active_devices B ds) (\<lambda>rest. io_return ((d, name, uuid, dbus) # rest))))))"

definition require_device :: "('w, 'd) backend \<Rightarrow> 'd \<Rightarrow> ('w, nm_error, unit) io" where
  "require_device B d = io_bind (bk_verify B d) (\<lambda>present. io_check present NmIdentity)"

definition inspect_target :: "('w, 'd) backend \<Rightarrow> 'd \<times> unicode \<times> unicode \<times> unicode \<Rightarrow> ('w, nm_error, 'd resolution) io" where
  "inspect_target B = (\<lambda>(d, name, uuid, dbus).
     io_bind (bk_read_profile B uuid) (\<lambda>profile.
     io_bind (bk_read_active B dbus) (\<lambda>(applied_uuid, applied).
     if applied_uuid \<noteq> uuid then io_fail NmOtherUuid else
     io_bind (require_device B d) (\<lambda>_.
     io_bind (bk_routes B d) (\<lambda>routes.
     io_bind (require_device B d) (\<lambda>_.
       io_return (Target \<lparr>tg_device = d, tg_interface = name, tg_uuid = uuid, tg_path = dbus, tg_profile = profile,
         tg_applied = applied, tg_routes = routes\<rparr>)))))))"

definition resolve_target :: "('w, 'd) backend \<Rightarrow> ('w, nm_error, 'd resolution) io" where
  "resolve_target B =
     io_bind (bk_nmcli B general_args) (\<lambda>running.
     if trim running \<noteq> unicode_of ''running'' then io_return (NoTarget NotRunning) else
     io_bind (bk_version B) (\<lambda>text.
     io_bind (io_lift (parse_network_manager_version text)) (\<lambda>version.
     if older_than version MINIMUM_NETWORK_MANAGER_VERSION
     then io_return (NoTarget (case version of (a, b, c) \<Rightarrow> TooOld a b c)) else
     io_bind (bk_devices B) (\<lambda>devices.
     io_bind (active_devices B devices) (\<lambda>active.
       case active of
         [] \<Rightarrow> io_return (NoTarget NoActiveTether)
       | [x] \<Rightarrow> inspect_target B x
       | _ \<Rightarrow> io_return (NoTarget SeveralTethers))))))"

section \<open>Changing the policy\<close>

definition apply_profile_from ::
  "('w, 'd) backend \<Rightarrow> 'd nm_target \<Rightarrow> bool \<times> bool \<Rightarrow> bool \<times> bool \<Rightarrow> ('w, nm_error, unit) io" where
  "apply_profile_from B t expected desired =
     io_bind (bk_apply_active B (tg_path t) (tg_uuid t) expected desired) (\<lambda>_. require_device B (tg_device t))"

definition apply_profile :: "('w, 'd) backend \<Rightarrow> 'd nm_target \<Rightarrow> bool \<times> bool \<Rightarrow> ('w, nm_error, unit) io" where
  "apply_profile B t desired =
     io_bind (bk_read_active B (tg_path t)) (\<lambda>(uuid, current).
     if uuid \<noteq> tg_uuid t then io_fail NmOtherUuid
     else if current \<noteq> tg_applied t \<and> current \<noteq> desired then io_fail NmConcurrent
     else if current = desired then require_device B (tg_device t)
     else apply_profile_from B t current desired)"

definition rollback_persistent :: "('w, 'd) backend \<Rightarrow> 'd nm_target \<Rightarrow> bool \<times> bool \<Rightarrow> ('w, nm_error, unit) io" where
  "rollback_persistent B t owned =
     io_bind (bk_read_profile B (tg_uuid t)) (\<lambda>current.
     if current = tg_profile t then io_return ()
     else if current = owned then
       io_bind (bk_update_profile B (tg_uuid t) owned (tg_profile t)) (\<lambda>_.
       io_bind (bk_read_profile B (tg_uuid t)) (\<lambda>after. io_check (after = tg_profile t) NmConcurrent))
     else io_fail NmConcurrent)"

definition rollback_active :: "('w, 'd) backend \<Rightarrow> 'd nm_target \<Rightarrow> bool \<times> bool \<Rightarrow> ('w, nm_error, unit) io" where
  "rollback_active B t owned =
     io_bind (bk_verify B (tg_device t)) (\<lambda>present.
     if \<not> present then io_return () else
     io_bind (bk_read_active B (tg_path t)) (\<lambda>(uuid, current).
     if uuid \<noteq> tg_uuid t then io_fail NmConcurrent
     else if current = tg_applied t then io_return ()
     else if current = owned then apply_profile_from B t owned (tg_applied t)
     else io_fail NmConcurrent))"

definition verify_routes :: "('w, 'd) backend \<Rightarrow> 'd nm_target \<Rightarrow> ('w, nm_error, unit) io" where
  "verify_routes B t =
     io_bind (bk_verify B (tg_device t)) (\<lambda>present.
     if \<not> present then io_return () else
     io_bind (bk_routes B (tg_device t)) (\<lambda>current. io_check (current = tg_routes t) NmRoutesChanged))"

fun failures :: "(nm_error + unit) list \<Rightarrow> nm_error list" where
  "failures [] = []"
| "failures (Inl e # rs) = e # failures rs"
| "failures (Inr _ # rs) = failures rs"

definition rollback_profile :: "('w, 'd) backend \<Rightarrow> 'd nm_target \<Rightarrow> bool \<times> bool \<Rightarrow> ('w, nm_error, unit) io" where
  "rollback_profile B t owned =
     io_bind (io_attempt (rollback_persistent B t owned)) (\<lambda>persistent.
     io_bind (io_attempt (rollback_active B t owned)) (\<lambda>active.
     io_bind (io_attempt (verify_routes B t)) (\<lambda>routes.
       case failures [persistent, active, routes] of [] \<Rightarrow> io_return () | es \<Rightarrow> io_fail (NmIncomplete es))))"

definition same_selection :: "'d nm_target \<Rightarrow> 'd nm_target \<Rightarrow> bool" where
  "same_selection a b \<longleftrightarrow> tg_device a = tg_device b \<and> tg_uuid a = tg_uuid b \<and> tg_path a = tg_path b"

definition same_values :: "'d nm_target \<Rightarrow> 'd nm_target \<Rightarrow> bool" where
  "same_values a b \<longleftrightarrow> tg_profile a = tg_profile b \<and> tg_applied a = tg_applied b"

definition confirm_original_or_rollback ::
  "('w, 'd) backend \<Rightarrow> 'd nm_target \<Rightarrow> bool \<times> bool \<Rightarrow> ('w, nm_error, unit) io" where
  "confirm_original_or_rollback B t owned =
     io_bind (io_attempt (resolve_target B)) (\<lambda>r.
       case r of
         Inr (Target current) \<Rightarrow>
           if same_selection current t \<and> same_values current t then io_return () else rollback_profile B t owned
       | _ \<Rightarrow> rollback_profile B t owned)"

text \<open>\<open>with_rollback\<close>: the error, with what became of the rollback.\<close>

definition fail_after :: "('w, nm_error, unit) io \<Rightarrow> nm_error \<Rightarrow> ('w, nm_error, 'a) io" where
  "fail_after rollback e =
     io_bind (io_attempt rollback) (\<lambda>r. io_fail (case r of Inr _ \<Rightarrow> NmRestored e | Inl e' \<Rightarrow> NmNotRestored e e'))"

text \<open>The part after the stored profile was written: it is kept only when everything else holds.\<close>

definition keep_if_verified :: "('w, 'd) backend \<Rightarrow> bool \<Rightarrow> 'd nm_target \<Rightarrow> ('w, nm_error, local_only_status) io" where
  "keep_if_verified B enabled t =
    (let owned = (enabled, enabled); undo = fail_after (rollback_profile B t owned) in
     io_bind (io_attempt (resolve_target B)) (\<lambda>r.
       case r of
         Inl e \<Rightarrow> undo e
       | Inr (NoTarget _) \<Rightarrow> undo NmNotKept
       | Inr (Target current) \<Rightarrow>
           if same_selection current t \<and> settings_all current enabled \<and> (\<not> enabled \<or> policy_enabled current) \<or>
              enabled \<and> same_selection current t \<and> settings_all current True
           then io_lift (target_status current) else undo NmNotKept))"

definition change_policy :: "('w, 'd) backend \<Rightarrow> bool \<Rightarrow> 'd nm_target \<Rightarrow> ('w, nm_error, local_only_status) io" where
  "change_policy B enabled t =
    (let owned = (enabled, enabled); undo = fail_after (rollback_profile B t owned) in
     io_bind (io_attempt (bk_update_profile B (tg_uuid t) (tg_profile t) owned)) (\<lambda>r.
     case r of Inl e \<Rightarrow> fail_after (confirm_original_or_rollback B t owned) e | Inr _ \<Rightarrow>
     io_bind (io_attempt (bk_read_profile B (tg_uuid t))) (\<lambda>r.
     case r of Inl e \<Rightarrow> undo e | Inr current \<Rightarrow>
     if current \<noteq> owned then undo NmConcurrent else
     io_bind (bk_verify B (tg_device t)) (\<lambda>present.
     if \<not> present then undo NmIdentity else
     io_bind (io_attempt (apply_profile B t owned)) (\<lambda>r.
     case r of Inl e \<Rightarrow> undo e | Inr _ \<Rightarrow> keep_if_verified B enabled t)))))"

definition set_with_backend :: "('w, 'd) backend \<Rightarrow> bool \<Rightarrow> ('w, nm_error, local_only_status) io" where
  "set_with_backend B enabled =
     io_bind (resolve_target B) (\<lambda>resolved.
       case resolved of
         NoTarget reason \<Rightarrow> io_fail (NmUnavailable reason)
       | Target t \<Rightarrow>
           if settings_all t enabled \<and> (\<not> enabled \<or> policy_enabled t) then io_lift (target_status t) else
           io_bind (require_device B (tg_device t)) (\<lambda>_.
           io_bind (bk_read_profile B (tg_uuid t)) (\<lambda>current.
             if current \<noteq> tg_profile t then io_fail NmConcurrent else change_policy B enabled t)))"

section \<open>The commands of the launcher\<close>

definition with_system :: "'w nm_system \<Rightarrow> ('w, nm_error, 'a) io \<Rightarrow> (('w, interface_identity) backend \<Rightarrow> ('w, nm_error, 'a) io) \<Rightarrow>
    ('w, nm_error, 'a) io" where
  "with_system N missing f =
     io_bind (trusted_nmcli_path N) (\<lambda>found. case found of None \<Rightarrow> missing | Some p \<Rightarrow> f (system_backend N p))"

definition status_with_backend :: "('w, 'd) backend \<Rightarrow> ('w, nm_error, local_only_status) io" where
  "status_with_backend B =
     io_bind (resolve_target B) (\<lambda>r. case r of Target t \<Rightarrow> io_lift (target_status t)
       | NoTarget reason \<Rightarrow> io_return (status_unavailable (StatusUnavailable reason)))"

definition nm_status :: "'w nm_system \<Rightarrow> ('w, nm_error, local_only_status) io" where
  "nm_status N = with_system N (io_return (status_unavailable StatusMissing)) status_with_backend"

definition set_enabled :: "'w nm_system \<Rightarrow> bool \<Rightarrow> ('w, nm_error, local_only_status) io" where
  "set_enabled N enabled = with_system N (io_fail NmMissing) (\<lambda>B. set_with_backend B enabled)"

definition ensure_enabled :: "'w nm_system \<Rightarrow> ('w, nm_error, unit) io" where
  "ensure_enabled N = with_system N (io_fail NmMissing) (\<lambda>B.
     io_bind (resolve_target B) (\<lambda>r. case r of
       Target t \<Rightarrow> io_check (policy_enabled t) NmNotVerified
     | NoTarget reason \<Rightarrow> io_fail (NmUnavailable reason)))"

end
