(* ===== verification/Policy_Safety.thy ===== *)
theory Policy_Safety
  imports Network_Manager
begin

text \<open>
  What the launcher's changes of the local-only policy guarantee, against what NetworkManager promises
  (versions that only grow, writes refused unless their version is current). Shown: every profile
  the launcher writes differs from the one it replaces in the two \<open>never-default\<close> settings alone, and it
  replaces only values it found or wrote itself, whoever else edits the profiles meanwhile.
\<close>

section \<open>NetworkManager's side of the contract\<close>

text \<open>
  Where settings are kept, and what an observer of the daemon sees: the settings and their version,
  and the writes it accepted from this module, each with the settings it replaced.
\<close>

datatype nm_place = Profile unicode | Active unicode

record 'w nm_view =
  vw_settings :: "'w \<Rightarrow> nm_place \<Rightarrow> connection_settings"
  vw_version :: "'w \<Rightarrow> nm_place \<Rightarrow> u64"
  vw_log :: "'w \<Rightarrow> (nm_place \<times> connection_settings \<times> connection_settings) list"

text \<open>
  Time passes and others may edit: versions only grow, and settings of the same version are the same.
\<close>

definition evolves :: "'w nm_view \<Rightarrow> 'w \<Rightarrow> 'w \<Rightarrow> bool" where
  "evolves V w w' \<longleftrightarrow> (\<forall>p. vw_version V w p \<le> vw_version V w' p \<and>
     (vw_version V w' p = vw_version V w p \<longrightarrow> vw_settings V w' p = vw_settings V w p))"

definition silent :: "'w nm_view \<Rightarrow> 'w \<Rightarrow> 'w \<Rightarrow> bool" where
  "silent V w w' \<longleftrightarrow> evolves V w w' \<and> vw_log V w' = vw_log V w"

text \<open>A write with a version is refused unless the version is current; version zero is no guard.\<close>

definition writes :: "'w nm_view \<Rightarrow> nm_place \<Rightarrow> u64 \<Rightarrow> connection_settings \<Rightarrow> 'w \<Rightarrow> 'w \<Rightarrow> bool" where
  "writes V p v s w w' \<longleftrightarrow> evolves V w w' \<and>
     (\<exists>m. silent V w m \<and> (v \<noteq> 0 \<longrightarrow> vw_version V m p = v) \<and> vw_log V w' = vw_log V w @ [(p, vw_settings V m p, s)])"

text \<open>A read answers with the truth of some moment during the call.\<close>

definition sees :: "'w nm_view \<Rightarrow> ('w \<Rightarrow> 'a option \<times> 'w) \<Rightarrow> ('w \<Rightarrow> 'a \<Rightarrow> bool) \<Rightarrow> bool" where
  "sees V f P \<longleftrightarrow> (\<forall>w r w'. f w = (r, w') \<longrightarrow> silent V w w' \<and>
     (\<forall>x. r = Some x \<longrightarrow> (\<exists>m. silent V w m \<and> silent V m w' \<and> P m x)))"

definition daemon_ok :: "'w nm_view \<Rightarrow> 'w nm_system \<Rightarrow> bool" where
  "daemon_ok V N \<longleftrightarrow>
     (\<forall>w. silent V w w) \<and> (\<forall>w. silent V w (snd (sy_net N w))) \<and>
     (\<forall>p args. sees V (sy_nmcli N p args) (\<lambda>_ _. True)) \<and> sees V (sy_connect N) (\<lambda>_ _. True) \<and>
     sees V (sy_daemon_version N) (\<lambda>_ _. True) \<and> (\<forall>u. sees V (sy_by_uuid N u) (\<lambda>_ _. True)) \<and>
     (\<forall>p. sees V (sy_settings N p) (\<lambda>m s. vw_settings V m (Profile p) = s)) \<and>
     (\<forall>p. sees V (sy_version_id N p) (\<lambda>m v. vw_version V m (Profile p) = v)) \<and>
     (\<forall>d. sees V (sy_applied N d) (\<lambda>m (s, v). v \<noteq> 0 \<and> vw_settings V m (Active d) = s \<and> vw_version V m (Active d) = v)) \<and>
     (\<forall>p s v w. silent V w (snd (sy_update2 N p s v w)) \<or> writes V (Profile p) v s w (snd (sy_update2 N p s v w))) \<and>
     (\<forall>d s v w. silent V w (snd (sy_reapply N d s v w)) \<or> writes V (Active d) v s w (snd (sy_reapply N d s v w)))"

lemma daemon_okD:
  assumes "daemon_ok V N"
  shows "silent V w w" "silent V w (snd (sy_net N w))"
    "sees V (sy_nmcli N nmcli args) (\<lambda>_ _. True)" "sees V (sy_connect N) (\<lambda>_ _. True)"
    "sees V (sy_daemon_version N) (\<lambda>_ _. True)" "sees V (sy_by_uuid N u) (\<lambda>_ _. True)"
    "sees V (sy_settings N p) (\<lambda>m s. vw_settings V m (Profile p) = s)"
    "sees V (sy_version_id N p) (\<lambda>m v. vw_version V m (Profile p) = v)"
    "sees V (sy_applied N d) (\<lambda>m (s, v). v \<noteq> 0 \<and> vw_settings V m (Active d) = s \<and> vw_version V m (Active d) = v)"
    "silent V w (snd (sy_update2 N p s v w)) \<or> writes V (Profile p) v s w (snd (sy_update2 N p s v w))"
    "silent V w (snd (sy_reapply N d s v w)) \<or> writes V (Active d) v s w (snd (sy_reapply N d s v w))"
  using assms by (simp_all add: daemon_ok_def)

lemma evolves_trans:
  assumes "evolves V w w1" and "evolves V w1 w2"
  shows "evolves V w w2"
  unfolding evolves_def
proof (intro allI conjI impI)
  fix p
  have le: "vw_version V w p \<le> vw_version V w1 p" "vw_version V w1 p \<le> vw_version V w2 p"
    using assms by (simp_all add: evolves_def)
  then show "vw_version V w p \<le> vw_version V w2 p" by simp
  assume "vw_version V w2 p = vw_version V w p"
  with le have "vw_version V w1 p = vw_version V w p" "vw_version V w2 p = vw_version V w1 p" by simp_all
  with assms show "vw_settings V w2 p = vw_settings V w p" by (simp add: evolves_def)
qed

lemma silent_trans: "silent V w w1 \<Longrightarrow> silent V w1 w2 \<Longrightarrow> silent V w w2"
  by (auto simp: silent_def intro: evolves_trans)

text \<open>A version that is the same before and after was the same in between, and so were the settings.\<close>

lemma evolves_squeeze:
  assumes "evolves V w1 w2" and "evolves V w2 w3" and "vw_version V w1 p = vw_version V w3 p"
  shows "vw_settings V w2 p = vw_settings V w3 p"
proof -
  have "vw_version V w1 p \<le> vw_version V w2 p" "vw_version V w2 p \<le> vw_version V w3 p"
    using assms(1,2) by (simp_all add: evolves_def)
  with assms(3) have "vw_version V w3 p = vw_version V w2 p" by simp
  with assms(2) show ?thesis by (simp add: evolves_def)
qed

section \<open>Owned writes\<close>

text \<open>The two settings change to \<open>d\<close> and nothing else does.\<close>

definition lookup :: "connection_settings \<Rightarrow> unicode \<Rightarrow> unicode \<Rightarrow> dbus_value option" where
  "lookup s sec prop = (case s sec of None \<Rightarrow> None | Some values \<Rightarrow> values prop)"

definition only_never_default :: "bool \<times> bool \<Rightarrow> connection_settings \<Rightarrow> connection_settings \<Rightarrow> bool" where
  "only_never_default d old new \<longleftrightarrow> never_default new = d \<and>
     (\<forall>sec prop. prop \<noteq> unicode_of ''never-default'' \<or> sec \<notin> {unicode_of ''ipv4'', unicode_of ''ipv6''} \<longrightarrow>
        lookup new sec prop = lookup old sec prop)"

lemma with_never_default_only: "only_never_default d s (with_never_default d s)"
  by (cases d) (auto simp: only_never_default_def with_never_default_def set_connection_boolean_def never_default_def
      applied_boolean_def property_def lookup_def unicode_of_def split: option.split)

text \<open>
  A write of the module: it sets the wanted values over the ones it found, or puts those back over the
  wanted ones, on the connection of the target.
\<close>

definition changes :: "bool \<times> bool \<Rightarrow> bool \<times> bool \<Rightarrow> unicode \<Rightarrow> connection_settings \<Rightarrow> connection_settings \<Rightarrow> bool" where
  "changes e d uuid old new \<longleftrightarrow> never_default old = e \<and> only_never_default d old new \<and>
     property old ''connection'' ''uuid'' = Some (Text uuid)"

fun owned :: "bool \<Rightarrow> 'd nm_target \<Rightarrow> nm_place \<times> connection_settings \<times> connection_settings \<Rightarrow> bool" where
  "owned en t (Profile _, old, new) \<longleftrightarrow>
     changes (tg_profile t) (en, en) (tg_uuid t) old new \<or> changes (en, en) (tg_profile t) (tg_uuid t) old new"
| "owned en t (Active dbus, old, new) \<longleftrightarrow> dbus = tg_path t \<and>
     (changes (tg_applied t) (en, en) (tg_uuid t) old new \<or> changes (en, en) (tg_applied t) (tg_uuid t) old new)"

section \<open>Every operation writes only what it owns\<close>

lemma io_check_simps: "io_check (x = x) e = io_return ()" "io_check False e = io_fail e" "io_check True e = io_return ()"
  by (simp_all add: io_check_def)

text \<open>The log since \<open>l\<close> holds writes that satisfy \<open>P\<close>.\<close>

definition logs :: "'w nm_view \<Rightarrow> (nm_place \<times> connection_settings \<times> connection_settings) list \<Rightarrow>
    (nm_place \<times> connection_settings \<times> connection_settings \<Rightarrow> bool) \<Rightarrow> 'w \<Rightarrow> bool" where
  "logs V l P w \<longleftrightarrow> (\<exists>new. vw_log V w = l @ new \<and> list_all P new)"

abbreviation keeps_log :: "'w nm_view \<Rightarrow> (nm_place \<times> connection_settings \<times> connection_settings) list \<Rightarrow>
    (nm_place \<times> connection_settings \<times> connection_settings \<Rightarrow> bool) \<Rightarrow> ('e, 'a) outcome \<Rightarrow> 'w \<Rightarrow> bool" where
  "keeps_log V l P \<equiv> \<lambda>r. logs V l P"

lemma logs_silent: "logs V l P w \<Longrightarrow> silent V w w' \<Longrightarrow> logs V l P w'"
  by (simp add: logs_def silent_def)

lemma logs_bind:
  assumes "io_ends m w (keeps_log V l P)" and "\<And>x w'. logs V l P w' \<Longrightarrow> io_ends (f x) w' (keeps_log V l P)"
  shows "io_ends (io_bind m f) w (keeps_log V l P)"
  unfolding io_ends_bind
proof (rule io_ends_mono [OF assms(1)], goal_cases)
  case (1 r w')
  then show ?case using assms(2) by (cases r) auto
qed

lemma logs_attempt:
  assumes "io_ends m w (keeps_log V l P)"
  shows "io_ends (io_attempt m) w (keeps_log V l P)"
  unfolding io_ends_attempt
proof (rule io_ends_mono [OF assms], goal_cases)
  case (1 r w')
  then show ?case by (cases r) auto
qed

lemma logs_basic:
  "logs V l P w \<Longrightarrow> io_ends (io_return x) w (keeps_log V l P)"
  "logs V l P w \<Longrightarrow> io_ends (io_fail e) w (keeps_log V l P)"
  "logs V l P w \<Longrightarrow> io_ends (io_lift r) w (keeps_log V l P)"
  "logs V l P w \<Longrightarrow> io_ends (io_check b e) w (keeps_log V l P)"
  by (simp_all add: io_check_def)

lemma ask_sees:
  assumes "sees V f Q" and "logs V l P w"
  shows "io_ends (ask f e) w (keeps_log V l P)"
proof -
  have "silent V w (snd (f w))" using assms(1) by (cases "f w") (auto simp: sees_def)
  with logs_silent [OF assms(2)] have "logs V l P (snd (f w))" by blast
  then show ?thesis by (auto simp: ask_def split: prod.split option.split)
qed

lemma logs_net:
  assumes "daemon_ok V N" and "logs V l P w"
  shows "io_ends (io_sys_net N f) w (keeps_log V l P)"
  using logs_silent [OF assms(2) daemon_okD(2) [OF assms(1)]] by (auto simp: io_sys_net_def split: prod.split)

lemma logs_path:
  assumes "daemon_ok V N" and "logs V l P w"
  shows "io_ends (settings_connection_path N uuid) w (keeps_log V l P)"
  unfolding settings_connection_path_def
  using assms by (auto intro!: logs_bind [OF ask_sees [OF daemon_okD(6)]] simp del: io_ends_bind)

lemma logs_read_persistent:
  assumes N: "daemon_ok V N" and "logs V l P w"
  shows "io_ends (read_persistent_connection N uuid) w (keeps_log V l P)"
  unfolding read_persistent_connection_def
  by (intro logs_bind [OF ask_sees [OF daemon_okD(4) [OF N]]] logs_bind [OF logs_path [OF N]]
      logs_bind [OF ask_sees [OF daemon_okD(7) [OF N]]] logs_bind [OF logs_basic(3)] assms(2))
    (auto split: prod.split)

lemma logs_read_active:
  assumes N: "daemon_ok V N" and "logs V l P w"
  shows "io_ends (read_active_connection N d) w (keeps_log V l P)"
proof -
  have "io_ends (io_bind (ask (sy_connect N) NmDbus) (\<lambda>_. io_bind (ask (sy_applied N d) NmDbus) (\<lambda>(s, _).
      io_lift (connection_state s)))) w (keeps_log V l P)"
    by (intro logs_bind [OF ask_sees [OF daemon_okD(4) [OF N]]] logs_bind [OF ask_sees [OF daemon_okD(9) [OF N]]] assms(2))
      (auto split: prod.split)
  then show ?thesis using assms(2) by (simp add: read_active_connection_def)
qed

text \<open>A read, with the moment it answers for.\<close>

lemma ask_moment:
  assumes "sees V f Q"
  shows "io_ends (ask f e) w (\<lambda>r w'. silent V w w' \<and> (\<forall>x. r = Done x \<longrightarrow> (\<exists>m. silent V w m \<and> silent V m w' \<and> Q m x)))"
  using assms by (cases "f w"; cases "fst (f w)") (auto simp: ask_def sees_def)

lemma logs_written:
  assumes "logs V l P w" and "silent V w w' \<or> writes V p v s w w'"
    and "\<And>m. silent V w m \<Longrightarrow> (v \<noteq> 0 \<longrightarrow> vw_version V m p = v) \<Longrightarrow> P (p, vw_settings V m p, s)"
  shows "logs V l P w'"
  using assms(2)
proof
  assume "writes V p v s w w'"
  then obtain m where "silent V w m" "v \<noteq> 0 \<longrightarrow> vw_version V m p = v" and l: "vw_log V w' = vw_log V w @ [(p, vw_settings V m p, s)]"
    by (auto simp: writes_def)
  with assms(3) have "P (p, vw_settings V m p, s)" by blast
  with assms(1) l show ?thesis by (auto simp: logs_def)
qed (rule logs_silent [OF assms(1)])

lemma logs_guarded:
  assumes "logs V l P w" and "connection_state s = Done (uuid, expected) \<Longrightarrow> io_ends m w (keeps_log V l P)"
  shows "io_ends (io_bind (io_lift (connection_state s)) (\<lambda>(reported, current). io_bind (io_check (reported = uuid) e1)
    (\<lambda>_. io_bind (io_check (current = expected) e2) (\<lambda>_. m)))) w (keeps_log V l P)"
  using assms by (cases "connection_state s") (auto simp: io_check_def)

text \<open>What was read under a version is what a write with that version replaces.\<close>

lemma guarded_old:
  assumes "silent V m1 m2" and "silent V m2 m3" and "vw_version V m1 p = v" and "vw_version V m3 p = v"
  shows "vw_settings V m3 p = vw_settings V m2 p"
  using evolves_squeeze [of V m1 m2 m3 p] assms by (simp add: silent_def)

lemma logs_update_persistent:
  assumes N: "daemon_ok V N" and l: "logs V l P w"
    and own: "\<And>p s. connection_state s = Done (uuid, expected) \<Longrightarrow> P (Profile p, s, with_never_default desired s)"
  shows "io_ends (update_persistent_connection N uuid expected desired) w (keeps_log V l P)"
proof -
  have verify: "io_ends (io_bind (ask (sy_version_id N p) NmDbus) (\<lambda>verified_version.
     io_bind (io_check (verified_version \<noteq> 0 \<and> verified_version \<noteq> version_id) NmNoVersion) (\<lambda>_.
     io_bind (ask (sy_settings N p) NmDbus) (\<lambda>s'.
     io_bind (io_lift (connection_state s')) (\<lambda>(verified_uuid, verified).
       io_check (verified_uuid = uuid \<and> verified = desired) NmNotKept))))) w (keeps_log V l P)"
    if "logs V l P w" for p version_id w
    using that by (auto intro!: logs_bind [OF ask_sees [OF daemon_okD(8) [OF N]]] logs_bind [OF logs_basic(4)]
        logs_bind [OF ask_sees [OF daemon_okD(7) [OF N]]] logs_bind [OF logs_basic(3)] logs_basic(4)
        simp del: io_ends_bind split: prod.split)
  have update: "io_ends (ask (sy_update2 N p (with_never_default desired s) v) NmRefused) w (keeps_log V l P)"
    if "logs V l P w" "connection_state s = Done (uuid, expected)" "v \<noteq> 0" "silent V m1 m2" "silent V m2 w"
      "vw_version V m1 (Profile p) = v" "vw_settings V m2 (Profile p) = s" for p s v m1 m2 w
  proof -
    have "vw_settings V m (Profile p) = s" if "silent V w m" "vw_version V m (Profile p) = v" for m
      using guarded_old [OF \<open>silent V m1 m2\<close> silent_trans [OF \<open>silent V m2 w\<close> that(1)] _ that(2)]
        \<open>vw_version V m1 (Profile p) = v\<close> \<open>vw_settings V m2 (Profile p) = s\<close> by simp
    with own [OF that(2)] \<open>v \<noteq> 0\<close> have "logs V l P (snd (sy_update2 N p (with_never_default desired s) v w))"
      by (intro logs_written [OF that(1) daemon_okD(10) [OF N]]) simp
    then show ?thesis by (auto simp: ask_def split: prod.split option.split)
  qed
  have settings: "io_ends (io_bind (ask (sy_settings N p) NmDbus) (\<lambda>s.
     io_bind (io_lift (connection_state s)) (\<lambda>(reported, current).
     io_bind (io_check (reported = uuid) NmOtherUuid) (\<lambda>_.
     io_bind (io_check (current = expected) NmConcurrent) (\<lambda>_.
     io_bind (ask (sy_update2 N p (with_never_default desired s) v) NmRefused) (\<lambda>_.
     io_bind (ask (sy_version_id N p) NmDbus) (\<lambda>verified_version.
     io_bind (io_check (verified_version \<noteq> 0 \<and> verified_version \<noteq> v) NmNoVersion) (\<lambda>_.
     io_bind (ask (sy_settings N p) NmDbus) (\<lambda>s'.
     io_bind (io_lift (connection_state s')) (\<lambda>(verified_uuid, verified).
       io_check (verified_uuid = uuid \<and> verified = desired) NmNotKept)))))))))) w (keeps_log V l P)"
    if l: "logs V l P w" and v: "v \<noteq> 0" "silent V m1 w" "vw_version V m1 (Profile p) = v" for p v m1 w
  proof (subst io_ends_bind, rule io_ends_mono [OF ask_moment [OF daemon_okD(7) [OF N]]], goal_cases)
    case (1 r w')
    then have l': "logs V l P w'" using logs_silent [OF l] by simp
    show ?case
    proof (cases r)
      case (Done s)
      with 1 obtain m2 where m2: "silent V w m2" "silent V m2 w'" "vw_settings V m2 (Profile p) = s" by auto
      show ?thesis
        unfolding Done then_ends.simps
        by (rule logs_guarded [OF l'], rule logs_bind [OF update [OF l' _ v(1) silent_trans [OF v(2) m2(1)] m2(2) v(3) m2(3)]
            verify])
    qed (use l' in simp_all)
  qed
  have version: "io_ends (io_bind (ask (sy_version_id N p) NmDbus) (\<lambda>version_id.
     io_bind (io_check (version_id \<noteq> 0) NmNoVersion) (\<lambda>_. f version_id))) w (keeps_log V l P)"
    if l: "logs V l P w" and f: "\<And>v m1 w. logs V l P w \<Longrightarrow> v \<noteq> 0 \<Longrightarrow> silent V m1 w \<Longrightarrow> vw_version V m1 (Profile p) = v \<Longrightarrow>
      io_ends (f v) w (keeps_log V l P)" for p w and f :: "u64 \<Rightarrow> ('a, nm_error, unit) io"
  proof (subst io_ends_bind, rule io_ends_mono [OF ask_moment [OF daemon_okD(8) [OF N]]], goal_cases)
    case (1 r w')
    with logs_silent [OF l] f show ?case by (cases r) (auto simp: io_check_def)
  qed
  show ?thesis
    unfolding update_persistent_connection_def
    by (intro logs_bind [OF ask_sees [OF daemon_okD(4) [OF N]]] logs_bind [OF logs_path [OF N]] version settings l)
qed

lemma logs_apply_active:
  assumes N: "daemon_ok V N" and l: "logs V l P w"
    and own: "\<And>s. connection_state s = Done (uuid, expected) \<Longrightarrow> P (Active d, s, with_never_default desired s)"
  shows "io_ends (apply_active_connection N d uuid expected desired) w (keeps_log V l P)"
proof -
  have verify: "io_ends (io_bind (ask (sy_applied N d) NmDbus) (\<lambda>(s', _).
     io_bind (io_lift (verify_applied_uuid s' uuid)) (\<lambda>_.
     io_bind (io_lift (connection_state s')) (\<lambda>(verified_uuid, verified).
       io_check (verified_uuid = uuid \<and> verified = desired) NmNotKept)))) w (keeps_log V l P)"
    if "logs V l P w" for w
    using that by (auto intro!: logs_bind [OF ask_sees [OF daemon_okD(9) [OF N]]] logs_bind [OF logs_basic(3)] logs_basic(4)
        simp del: io_ends_bind split: prod.split)
  have reapply: "io_ends (ask (sy_reapply N d (with_never_default desired s) v) NmRefused) w (keeps_log V l P)"
    if "logs V l P w" "connection_state s = Done (uuid, expected)" "v \<noteq> 0" "silent V m w"
      "vw_version V m (Active d) = v" "vw_settings V m (Active d) = s" for s v m w
  proof -
    have "vw_settings V m' (Active d) = s" if "silent V w m'" "vw_version V m' (Active d) = v" for m'
      using guarded_old [OF daemon_okD(1) [OF N] silent_trans [OF \<open>silent V m w\<close> that(1)] _ that(2)]
        \<open>vw_version V m (Active d) = v\<close> \<open>vw_settings V m (Active d) = s\<close> by simp
    with own [OF that(2)] \<open>v \<noteq> 0\<close> have "logs V l P (snd (sy_reapply N d (with_never_default desired s) v w))"
      by (intro logs_written [OF that(1) daemon_okD(11) [OF N]]) simp
    then show ?thesis by (auto simp: ask_def split: prod.split option.split)
  qed
  have guarded: "io_ends (io_bind (io_lift (verify_applied_uuid s uuid)) (\<lambda>_. io_bind (io_lift (connection_state s))
      (\<lambda>(_, current). io_bind (io_check (current = expected) NmConcurrent) (\<lambda>_. k)))) w (keeps_log V l P)"
    if "logs V l P w" "connection_state s = Done (uuid, expected) \<Longrightarrow> io_ends k w (keeps_log V l P)"
    for s w and k :: "('a, nm_error, unit) io"
    using that by (cases "connection_state s")
      (auto simp: io_check_def verify_applied_uuid_def connection_state_def split: dbus_value.splits option.splits if_splits)
  have applied: "io_ends (io_bind (ask (sy_applied N d) NmDbus) (\<lambda>(s, version_id).
     io_bind (io_lift (verify_applied_uuid s uuid)) (\<lambda>_. io_bind (io_lift (connection_state s)) (\<lambda>(_, current).
     io_bind (io_check (current = expected) NmConcurrent) (\<lambda>_.
     io_bind (ask (sy_reapply N d (with_never_default desired s) version_id) NmRefused) (\<lambda>_.
     io_bind (ask (sy_applied N d) NmDbus) (\<lambda>(s', _).
     io_bind (io_lift (verify_applied_uuid s' uuid)) (\<lambda>_.
     io_bind (io_lift (connection_state s')) (\<lambda>(verified_uuid, verified).
       io_check (verified_uuid = uuid \<and> verified = desired) NmNotKept))))))))) w (keeps_log V l P)"
    if l: "logs V l P w" for w
  proof (subst io_ends_bind, rule io_ends_mono [OF ask_moment [OF daemon_okD(9) [OF N]]], goal_cases)
    case (1 r w')
    then have l': "logs V l P w'" using logs_silent [OF l] by simp
    show ?case
    proof (cases r)
      case (Done x)
      obtain s v where x: "x = (s, v)" by (cases x)
      with 1 Done obtain m where m: "silent V m w'" "v \<noteq> 0" "vw_settings V m (Active d) = s" "vw_version V m (Active d) = v"
        by auto
      show ?thesis
        unfolding Done x then_ends.simps prod.case
        by (rule guarded [OF l'], rule logs_bind [OF reapply [OF l' _ m(2,1,4,3)] verify])
    qed (use l' in simp_all)
  qed
  show ?thesis
    unfolding apply_active_connection_def
    using l by (auto intro!: logs_bind [OF ask_sees [OF daemon_okD(4) [OF N]]] applied simp del: io_ends_bind)
qed

section \<open>The policy over any disciplined backend\<close>

text \<open>What the policy relies on: reads write nothing, and a write is guarded by the values it expects.\<close>

definition disciplined :: "'w nm_view \<Rightarrow> ('w, 'd) backend \<Rightarrow> bool" where
  "disciplined V B \<longleftrightarrow> (\<forall>l P w. logs V l P w \<longrightarrow>
     io_ends (bk_devices B) w (keeps_log V l P) \<and> (\<forall>d. io_ends (bk_verify B d) w (keeps_log V l P)) \<and>
     (\<forall>d. io_ends (bk_routes B d) w (keeps_log V l P)) \<and> io_ends (bk_version B) w (keeps_log V l P) \<and>
     (\<forall>args. io_ends (bk_nmcli B args) w (keeps_log V l P)) \<and>
     (\<forall>u. io_ends (bk_read_profile B u) w (keeps_log V l P)) \<and> (\<forall>d. io_ends (bk_read_active B d) w (keeps_log V l P)) \<and>
     (\<forall>u e d. (\<forall>p s. connection_state s = Done (u, e) \<longrightarrow> P (Profile p, s, with_never_default d s)) \<longrightarrow>
        io_ends (bk_update_profile B u e d) w (keeps_log V l P)) \<and>
     (\<forall>p u e d. (\<forall>s. connection_state s = Done (u, e) \<longrightarrow> P (Active p, s, with_never_default d s)) \<longrightarrow>
        io_ends (bk_apply_active B p u e d) w (keeps_log V l P)))"

lemma system_disciplined:
  assumes N: "daemon_ok V N"
  shows "disciplined V (system_backend N nmcli)"
  unfolding disciplined_def
proof (intro allI impI conjI)
  fix l P w assume l: "logs V l P w"
  let ?B = "system_backend N nmcli"
  show "io_ends (bk_devices ?B) w (keeps_log V l P)" "io_ends (bk_verify ?B d) w (keeps_log V l P)" for d
    using logs_net [OF N l] by (simp_all add: system_backend_def verify_device_def)
  show "io_ends (bk_routes ?B d) w (keeps_log V l P)" for d
    by (simp add: system_backend_def routes_present_def del: io_ends_bind) (rule logs_bind [OF logs_net [OF N l] logs_net [OF N]])
  show "io_ends (bk_version ?B) w (keeps_log V l P)"
    by (simp add: system_backend_def del: io_ends_bind)
      (rule logs_bind [OF ask_sees [OF daemon_okD(4) [OF N] l] ask_sees [OF daemon_okD(5) [OF N]]])
  show "io_ends (bk_nmcli ?B args) w (keeps_log V l P)" for args
    by (simp add: system_backend_def run_nmcli_def del: io_ends_bind)
      (rule logs_bind [OF ask_sees [OF daemon_okD(3) [OF N] l]], auto split: option.split)
  show "io_ends (bk_read_profile ?B u) w (keeps_log V l P)" "io_ends (bk_read_active ?B u) w (keeps_log V l P)" for u
    using logs_read_persistent [OF N l] logs_read_active [OF N l] by (simp_all add: system_backend_def)
qed (simp_all add: system_backend_def logs_update_persistent [OF N] logs_apply_active [OF N])

lemma disciplinedD:
  assumes "disciplined V B" and "logs V l P w"
  shows "io_ends (bk_devices B) w (keeps_log V l P)" "io_ends (bk_verify B d) w (keeps_log V l P)"
    "io_ends (bk_routes B d) w (keeps_log V l P)" "io_ends (bk_version B) w (keeps_log V l P)"
    "io_ends (bk_nmcli B args) w (keeps_log V l P)" "io_ends (bk_read_profile B u) w (keeps_log V l P)"
    "io_ends (bk_read_active B p) w (keeps_log V l P)"
    "(\<And>q s. connection_state s = Done (u, e) \<Longrightarrow> P (Profile q, s, with_never_default f s)) \<Longrightarrow>
       io_ends (bk_update_profile B u e f) w (keeps_log V l P)"
    "(\<And>s. connection_state s = Done (u, e) \<Longrightarrow> P (Active p, s, with_never_default f s)) \<Longrightarrow>
       io_ends (bk_apply_active B p u e f) w (keeps_log V l P)"
  using assms unfolding disciplined_def by blast+

lemma connection_state_changes:
  "connection_state s = Done (uuid, e) \<Longrightarrow> changes e d uuid s (with_never_default d s)"
  using with_never_default_only [of d s]
  by (auto simp: changes_def connection_state_def split: option.splits dbus_value.splits if_splits)

lemma logs_require:
  "disciplined V B \<Longrightarrow> logs V l P w \<Longrightarrow> io_ends (require_device B d) w (keeps_log V l P)"
  unfolding require_device_def by (rule logs_bind [OF disciplinedD(2)]) (auto intro: logs_basic)

lemma logs_active_devices:
  assumes "disciplined V B" and "logs V l P w"
  shows "io_ends (active_devices B ds) w (keeps_log V l P)"
  using assms(2)
proof (induction ds arbitrary: w)
  case (Cons d ds)
  note B = disciplinedD [OF assms(1)]
  show ?case
    by (simp del: io_ends_bind, rule logs_bind [OF logs_basic(3) [OF Cons.prems]])
      (auto intro!: logs_bind [OF B(5)] logs_bind [OF logs_basic(3)] logs_bind [OF B(2)] logs_bind [OF Cons.IH] Cons.IH
        split: option.split simp del: io_ends_bind)
qed simp

lemma logs_inspect:
  assumes "disciplined V B" and "logs V l P w"
  shows "io_ends (inspect_target B x) w (keeps_log V l P)"
  unfolding inspect_target_def using assms(2)
  by (cases x) (auto intro!: logs_bind [OF disciplinedD(6) [OF assms(1)]] logs_bind [OF disciplinedD(7) [OF assms(1)]]
      logs_bind [OF logs_require [OF assms(1)]] logs_bind [OF disciplinedD(3) [OF assms(1)]] simp del: io_ends_bind)

lemma logs_resolve:
  assumes B: "disciplined V B" and "logs V l P w"
  shows "io_ends (resolve_target B) w (keeps_log V l P)"
proof -
  note D = disciplinedD [OF B]
  have active: "io_ends (case active of [] \<Rightarrow> io_return (NoTarget NoActiveTether) | [x] \<Rightarrow> inspect_target B x
      | _ \<Rightarrow> io_return (NoTarget SeveralTethers)) w (keeps_log V l P)" if "logs V l P w" for active w
    using that logs_inspect [OF B that] by (auto split: list.split)
  show ?thesis
    unfolding resolve_target_def using assms(2)
    by (auto intro!: logs_bind [OF D(5)] logs_bind [OF D(4)] logs_bind [OF logs_basic(3)] logs_bind [OF D(1)]
        logs_bind [OF logs_active_devices [OF B]] active simp del: io_ends_bind)
qed

section \<open>A change of the policy\<close>

text \<open>The writes of a change, for the target it was resolved to.\<close>

lemma logs_update_owned:
  assumes "disciplined V B" and "logs V l (owned en t) w"
  shows "io_ends (bk_update_profile B (tg_uuid t) (tg_profile t) (en, en)) w (keeps_log V l (owned en t))"
    and "io_ends (bk_update_profile B (tg_uuid t) (en, en) (tg_profile t)) w (keeps_log V l (owned en t))"
  by (rule disciplinedD(8) [OF assms]; simp add: connection_state_changes)+

lemma logs_apply_owned:
  assumes B: "disciplined V B" and "logs V l (owned en t) w"
    and "e = tg_applied t \<and> d = (en, en) \<or> e = (en, en) \<and> d = tg_applied t"
  shows "io_ends (apply_profile_from B t e d) w (keeps_log V l (owned en t))"
  unfolding apply_profile_from_def
  by (rule logs_bind [OF disciplinedD(9) [OF B assms(2)] logs_require [OF B]])
    (use assms(3) in \<open>auto simp: connection_state_changes\<close>)

lemma logs_apply_profile:
  assumes B: "disciplined V B" and l: "logs V l (owned en t) w"
  shows "io_ends (apply_profile B t (en, en)) w (keeps_log V l (owned en t))"
  unfolding apply_profile_def
  by (rule logs_bind [OF disciplinedD(7) [OF B l]]) (auto intro!: logs_basic logs_require [OF B] logs_apply_owned [OF B])

lemma logs_rollback:
  assumes B: "disciplined V B" and l: "logs V l (owned en t) w"
  shows "io_ends (rollback_profile B t (en, en)) w (keeps_log V l (owned en t))"
proof -
  note D = disciplinedD [OF B]
  have persistent: "io_ends (rollback_persistent B t (en, en)) w (keeps_log V l (owned en t))"
    if "logs V l (owned en t) w" for w
    unfolding rollback_persistent_def
    by (rule logs_bind [OF D(6) [OF that]])
      (auto intro!: logs_basic logs_bind [OF logs_update_owned(2) [OF B]] logs_bind [OF D(6)] simp del: io_ends_bind)
  have active: "io_ends (rollback_active B t (en, en)) w (keeps_log V l (owned en t))"
    if "logs V l (owned en t) w" for w
    unfolding rollback_active_def
    by (rule logs_bind [OF D(2) [OF that]])
      (auto intro!: logs_basic logs_bind [OF D(7)] logs_apply_owned [OF B] simp del: io_ends_bind)
  have routes: "io_ends (verify_routes B t) w (keeps_log V l (owned en t))" if "logs V l (owned en t) w" for w
    unfolding verify_routes_def
    by (rule logs_bind [OF D(2) [OF that]]) (auto intro!: logs_basic logs_bind [OF D(3)] simp del: io_ends_bind)
  show ?thesis
    unfolding rollback_profile_def
    by (intro logs_bind [OF logs_attempt [OF persistent]] logs_bind [OF logs_attempt [OF active]]
        logs_bind [OF logs_attempt [OF routes]] l) (auto split: list.split)
qed

lemma logs_fail_after:
  assumes "io_ends m w (keeps_log V l P)"
  shows "io_ends (fail_after m e) w (keeps_log V l P)"
  unfolding fail_after_def by (rule logs_bind [OF logs_attempt [OF assms]]) simp

lemma logs_confirm:
  assumes B: "disciplined V B" and l: "logs V l (owned en t) w"
  shows "io_ends (confirm_original_or_rollback B t (en, en)) w (keeps_log V l (owned en t))"
  unfolding confirm_original_or_rollback_def
  by (rule logs_bind [OF logs_attempt [OF logs_resolve [OF B l]]])
    (auto intro!: logs_rollback [OF B] split: sum.split resolution.split)

lemma target_status_total: "target_status t \<noteq> Panic"
  by (cases "tg_routes t") (auto simp: target_status_def Let_def and_then_Panic policy_enabled_def split: if_splits bool.splits)

lemma logs_keep:
  assumes B: "disciplined V B" and l: "logs V l (owned en t) w"
  shows "io_ends (keep_if_verified B en t) w (keeps_log V l (owned en t))"
  unfolding keep_if_verified_def Let_def
  by (rule logs_bind [OF logs_attempt [OF logs_resolve [OF B l]]])
    (auto intro!: logs_fail_after logs_rollback [OF B] logs_basic split: sum.split resolution.split)

lemma logs_change:
  assumes B: "disciplined V B" and l: "logs V l (owned en t) w"
  shows "io_ends (change_policy B en t) w (keeps_log V l (owned en t))"
proof -
  note D = disciplinedD [OF B] and undo = logs_fail_after [OF logs_rollback [OF B]]
  have applied: "io_ends (io_bind (io_attempt (apply_profile B t (en, en))) (\<lambda>r. case r of
      Inl e \<Rightarrow> fail_after (rollback_profile B t (en, en)) e | Inr _ \<Rightarrow> keep_if_verified B en t)) w (keeps_log V l (owned en t))"
    if "logs V l (owned en t) w" for w
    by (rule logs_bind [OF logs_attempt [OF logs_apply_profile [OF B that]]])
      (auto intro!: undo logs_keep [OF B] split: sum.split)
  show ?thesis
    unfolding change_policy_def Let_def
    by (rule logs_bind [OF logs_attempt [OF logs_update_owned(1) [OF B l]]])
      (auto intro!: logs_fail_after [OF logs_confirm [OF B]] logs_bind [OF logs_attempt [OF D(6)]] logs_bind [OF D(2)]
        undo applied split: sum.split simp del: io_ends_bind)
qed

lemma set_with_backend_owned:
  assumes B: "disciplined V B"
  shows "io_ends (set_with_backend B en) w (\<lambda>r w'. \<exists>new. vw_log V w' = vw_log V w @ new \<and>
    (new = [] \<or> (\<exists>t w1. resolve_target B w = Some (Done (Target t), w1) \<and> list_all (owned en t) new)))"
    (is "io_ends _ _ ?Q")
proof -
  have none: "logs V (vw_log V w) (\<lambda>_. False) w" by (simp add: logs_def)
  have silent: "?Q r w'" if none': "logs V (vw_log V w) (\<lambda>_. False) w'" for r w'
  proof -
    obtain new where "vw_log V w' = vw_log V w @ new" "list_all (\<lambda>_. False) new" using none' unfolding logs_def by blast
    then show ?thesis by (cases new) auto
  qed
  obtain r1 w1 where resolved: "resolve_target B w = Some (r1, w1)" and w1: "logs V (vw_log V w) (\<lambda>_. False) w1"
    using logs_resolve [OF B none] by (auto simp: io_ends_def)
  have change: "io_ends (io_bind (require_device B (tg_device t)) (\<lambda>_. io_bind (bk_read_profile B (tg_uuid t)) (\<lambda>current.
      if current \<noteq> tg_profile t then io_fail NmConcurrent else change_policy B en t))) w1 ?Q" if "r1 = Done (Target t)" for t
  proof (rule io_ends_mono)
    have "logs V (vw_log V w) (owned en t) w1" using w1 by (auto simp: logs_def list_all_def)
    then show "io_ends (io_bind (require_device B (tg_device t)) (\<lambda>_. io_bind (bk_read_profile B (tg_uuid t)) (\<lambda>current.
      if current \<noteq> tg_profile t then io_fail NmConcurrent else change_policy B en t))) w1 (keeps_log V (vw_log V w) (owned en t))"
      by (intro logs_bind [OF logs_require [OF B]] logs_bind [OF disciplinedD(6) [OF B]])
        (auto intro!: logs_basic logs_change [OF B])
    show "?Q r w'" if "logs V (vw_log V w) (owned en t) w'" for r w'
      using that resolved \<open>r1 = Done (Target t)\<close> by (auto simp: logs_def)
  qed
  have "io_ends (io_bind (io_lift r1) (\<lambda>resolved. case resolved of NoTarget reason \<Rightarrow> io_fail (NmUnavailable reason)
       | Target t \<Rightarrow> if settings_all t en \<and> (\<not> en \<or> policy_enabled t) then io_lift (target_status t) else
           io_bind (require_device B (tg_device t)) (\<lambda>_. io_bind (bk_read_profile B (tg_uuid t)) (\<lambda>current.
             if current \<noteq> tg_profile t then io_fail NmConcurrent else change_policy B en t)))) w1 ?Q"
  proof (cases r1)
    case (Done x)
    show ?thesis
    proof (cases x)
      case (Target t)
      then show ?thesis using Done silent [OF w1] change unfolding Done io_lift_Done io_bind_laws
        by (simp del: io_ends_bind)
    qed (use Done silent [OF w1] in simp)
  qed (use silent [OF w1] in simp_all)
  then show ?thesis
    using resolved by (simp add: set_with_backend_def io_ends_def io_bind_def io_lift_def)
qed

text \<open>
  C6: The launcher never overwrites what someone else wrote. Whatever other programs do to the
  profiles meanwhile and whichever call fails, \<open>set_enabled\<close> returns, and each write NetworkManager
  accepted from it touched the connection of the one target it had resolved, changed its two
  never-default settings and no other setting of what it replaced, and replaced either the values
  found when the target was resolved or the launcher's own.
\<close>

theorem policy_writes_owned:
  assumes "daemon_ok V N"
  shows "\<exists>r w' new. set_enabled N en w = Some (r, w') \<and> vw_log V w' = vw_log V w @ new \<and>
    (new = [] \<or> (\<exists>nmcli t w1. resolve_target (system_backend N nmcli) (snd (sy_net N w)) = Some (Done (Target t), w1) \<and>
       list_all (owned en t) new))"
proof -
  let ?r = "trusted_nmcli_from (fst (sy_net N w)) nmcli_candidates" and ?w = "snd (sy_net N w)"
  have log: "vw_log V ?w = vw_log V w" using daemon_okD(2) [OF assms, of w] by (simp add: silent_def)
  have run: "set_enabled N en w = io_bind (io_lift ?r) (\<lambda>found. case found of None \<Rightarrow> io_fail NmMissing
      | Some p \<Rightarrow> set_with_backend (system_backend N p) en) ?w"
    by (cases "sy_net N w") (simp add: set_enabled_def with_system_def trusted_nmcli_path_def io_sys_net_def
        io_bind_def io_run_def io_lift_def)
  show ?thesis
  proof (cases "\<exists>p. ?r = Done (Some p)")
    case True
    then obtain p where "?r = Done (Some p)" by blast
    with run have "set_enabled N en w = set_with_backend (system_backend N p) en ?w"
      by (simp add: io_lift_Done io_bind_laws)
    with set_with_backend_owned [OF system_disciplined [OF assms], of p en ?w] log show ?thesis
      unfolding io_ends_def by (metis (no_types, lifting))
  next
    case False
    then have "\<exists>r. set_enabled N en w = Some (r, ?w)"
      unfolding run by (cases ?r) (auto simp: io_bind_def io_lift_def io_fail_def split: option.split)
    with log show ?thesis by auto
  qed
qed

text \<open>When the identity cannot be checked after the stored profile was written, nothing is put back.\<close>

lemma verify_error_skips_rollback:
  assumes "bk_update_profile B (tg_uuid t) (tg_profile t) (en, en) w = Some (Done (), w1)"
    and "bk_read_profile B (tg_uuid t) w1 = Some (Done (en, en), w2)"
    and "bk_verify B (tg_device t) w2 = Some (Fail e, w3)"
  shows "change_policy B en t w = Some (Fail e, w3)"
  using assms by (simp add: change_policy_def Let_def io_bind_def io_attempt_def)

section \<open>A daemon that keeps the contract\<close>

text \<open>A daemon with one profile on one RNDIS device, with versions that start at 1.\<close>

record fake_daemon =
  fd_profile :: "connection_settings \<times> u64"
  fd_active :: "connection_settings \<times> u64"
  fd_log :: "(nm_place \<times> connection_settings \<times> connection_settings) list"

definition fake_uuid :: unicode where
  "fake_uuid = unicode_of ''11111111-2222-3333-4444-555555555555''"

definition fake_device :: unicode where
  "fake_device = unicode_of ''/org/freedesktop/NetworkManager/Devices/7''"

definition fake_net :: net_system where
  "fake_net = \<lparr>ns_route = (\<lambda>_. Fail (io_err NotFound)), ns_ifaddrs = Done [], ns_index = (\<lambda>_. 0),
     fs_read = (\<lambda>_. Done (unicode_of ''7'')),
     fs_canonical = (\<lambda>p. Done (if last p = ascii ''subsystem'' then [ascii ''usb''] else p)),
     fs_link = (\<lambda>_. Done [ascii ''rndis_host'']), fs_entries = (\<lambda>_. Done [Done (ascii ''usb0'')]),
     fs_exists = (\<lambda>_. True), fs_meta = (\<lambda>_. Done \<lparr>fm_is_file = True, fm_is_dir = True, fm_uid = 0, fm_mode = 493\<rparr>),
     run_ip = (\<lambda>_ _. Done \<lparr>co_success = True, co_stdout = [], co_stderr = []\<rparr>)\<rparr>"

definition fake_nmcli :: "unicode list \<Rightarrow> command_output" where
  "fake_nmcli args = \<lparr>co_success = True, co_stdout = map of_nat
     (if last args = unicode_of ''general'' then unicode_of ''running''
      else unicode_of ''100'' @ [10] @ fake_uuid @ [10] @ fake_device @ [10]), co_stderr = []\<rparr>"

text \<open>A guarded write; the last version cannot be passed.\<close>

definition fake_write :: "nm_place \<Rightarrow> connection_settings \<Rightarrow> u64 \<Rightarrow> connection_settings \<times> u64 \<Rightarrow>
    (connection_settings \<times> u64 \<Rightarrow> fake_daemon \<Rightarrow> fake_daemon) \<Rightarrow> fake_daemon \<Rightarrow> unit option \<times> fake_daemon" where
  "fake_write place s v current keep w =
    (if v = 0 \<or> v \<noteq> snd current \<or> v = - 1 then (None, w)
     else (Some (), (keep (s, v + 1) w)\<lparr>fd_log := fd_log w @ [(place, fst current, s)]\<rparr>))"

definition fake_path :: unicode where
  "fake_path = unicode_of ''/org/freedesktop/NetworkManager/Settings/9''"

definition fake_system :: "fake_daemon nm_system" where
  "fake_system = \<lparr>sy_net = (\<lambda>w. (fake_net, w)), sy_nmcli = (\<lambda>_ args w. (Some (fake_nmcli args), w)),
     sy_connect = (\<lambda>w. (Some (), w)), sy_daemon_version = (\<lambda>w. (Some (unicode_of ''1.58.0''), w)),
     sy_by_uuid = (\<lambda>u w. (if u = fake_uuid then Some fake_path else None, w)),
     sy_settings = (\<lambda>p w. (if p = fake_path then Some (fst (fd_profile w)) else None, w)),
     sy_version_id = (\<lambda>p w. (if p = fake_path then Some (snd (fd_profile w)) else None, w)),
     sy_update2 = (\<lambda>p s v w. if p = fake_path then fake_write (Profile p) s v (fd_profile w) (\<lambda>x w. w\<lparr>fd_profile := x\<rparr>) w else (None, w)),
     sy_applied = (\<lambda>d w. (if d = fake_device \<and> snd (fd_active w) \<noteq> 0 then Some (fd_active w) else None, w)),
     sy_reapply = (\<lambda>d s v w. if d = fake_device then fake_write (Active d) s v (fd_active w) (\<lambda>x w. w\<lparr>fd_active := x\<rparr>) w else (None, w))\<rparr>"

definition fake_view :: "fake_daemon nm_view" where
  "fake_view = \<lparr>vw_settings = (\<lambda>w p. case p of Profile _ \<Rightarrow> fst (fd_profile w) | Active _ \<Rightarrow> fst (fd_active w)),
     vw_version = (\<lambda>w p. case p of Profile _ \<Rightarrow> snd (fd_profile w) | Active _ \<Rightarrow> snd (fd_active w)), vw_log = fd_log\<rparr>"

definition fake_settings :: connection_settings where
  "fake_settings = [unicode_of ''connection'' \<mapsto> [unicode_of ''uuid'' \<mapsto> Text fake_uuid]]"

definition fake_start :: fake_daemon where
  "fake_start = \<lparr>fd_profile = (fake_settings, 1), fd_active = (fake_settings, 1), fd_log = []\<rparr>"

lemma fake_view_sels:
  "vw_settings fake_view w (Profile p) = fst (fd_profile w)" "vw_version fake_view w (Profile p) = snd (fd_profile w)"
  "vw_settings fake_view w (Active d) = fst (fd_active w)" "vw_version fake_view w (Active d) = snd (fd_active w)"
  "vw_log fake_view w = fd_log w"
  by (simp_all add: fake_view_def)

lemma fake_silent: "silent fake_view w w"
  by (simp add: silent_def evolves_def)

lemma word_step: "v \<noteq> - 1 \<Longrightarrow> v < v + 1" for v :: u64
  using unatSuc [of v] by (simp add: word_less_nat_alt add.commute eq_neg_iff_add_eq_0)

lemma fake_updates:
  "silent fake_view w (snd (sy_update2 fake_system p s v w)) \<or> writes fake_view (Profile p) v s w (snd (sy_update2 fake_system p s v w))"
  "silent fake_view w (snd (sy_reapply fake_system d s v w)) \<or> writes fake_view (Active d) v s w (snd (sy_reapply fake_system d s v w))"
  using word_step [of v] fake_silent [of w]
  by (auto simp: fake_system_def fake_write_def writes_def evolves_def fake_view_def split: nm_place.split
      intro!: exI [of _ w])

lemma fake_sees:
  "sees fake_view (sy_nmcli fake_system nmcli args) (\<lambda>_ _. True)"
  "sees fake_view (sy_connect fake_system) (\<lambda>_ _. True)"
  "sees fake_view (sy_daemon_version fake_system) (\<lambda>_ _. True)"
  "sees fake_view (sy_by_uuid fake_system u) (\<lambda>_ _. True)"
  "sees fake_view (sy_settings fake_system p) (\<lambda>m s. vw_settings fake_view m (Profile p) = s)"
  "sees fake_view (sy_version_id fake_system p) (\<lambda>m v. vw_version fake_view m (Profile p) = v)"
  "sees fake_view (sy_applied fake_system d)
     (\<lambda>m (s, v). v \<noteq> 0 \<and> vw_settings fake_view m (Active d) = s \<and> vw_version fake_view m (Active d) = v)"
  using fake_silent by (auto simp: fake_system_def sees_def fake_view_sels, metis fst_conv snd_conv)

lemma fake_daemon_ok: "daemon_ok fake_view fake_system"
  unfolding daemon_ok_def
  by (intro conjI allI fake_silent fake_updates fake_sees) (simp add: fake_system_def fake_silent)

theorem policy_writes_owned_witness:
  "\<exists>r w' new. set_enabled fake_system True fake_start = Some (r, w') \<and> vw_log fake_view w' = vw_log fake_view fake_start @ new \<and>
    (new = [] \<or> (\<exists>nmcli t w1. resolve_target (system_backend fake_system nmcli) (snd (sy_net fake_system fake_start)) =
       Some (Done (Target t), w1) \<and> list_all (owned True t) new))"
  by (rule policy_writes_owned [OF fake_daemon_ok])

end
