(* ===== verification/Route_Policy.thy ===== *)
theory Route_Policy
  imports Usb_Tether Protocol_V4 Host_World
begin

text \<open>
  The reversible routing policy of a Windows tether (\<open>native-host/src/tether_policy/windows.rs\<close>): the
  RNDIS adapter of the phone keeps its subnet but may not become a gateway. Each family of the adapter
  is captured in a journal in the registry, its default routes are deleted and new ones forbidden, and
  the original state is put back when the guard is dropped or, after a crash, by the next start. The
  Win32 calls are a parameter: a record of functions on an opaque state that answer with the codes of
  the API; the growing of buffers until they fit is part of a call. \<open>serde_json\<close> is a parameter too.
\<close>

section \<open>Text\<close>

text \<open>\<open>String::from_utf16_lossy\<close>.\<close>

fun from_utf16_lossy :: "u16 list \<Rightarrow> unicode" where
  "from_utf16_lossy [] = []"
| "from_utf16_lossy (u # us) =
    (if u < 0xD800 \<or> 0xDFFF < u then unat u # from_utf16_lossy us
     else if 0xDC00 \<le> u then 0xFFFD # from_utf16_lossy us
     else case us of
       v # vs \<Rightarrow> if 0xDC00 \<le> v \<and> v \<le> 0xDFFF
         then (0x10000 + unat (u AND 0x3FF) * 1024 + unat (v AND 0x3FF)) # from_utf16_lossy vs
         else 0xFFFD # from_utf16_lossy us
     | [] \<Rightarrow> [0xFFFD])"

definition chars :: "string \<Rightarrow> unicode" where
  "chars s = map of_char s"

definition to_ascii_lowercase :: "unicode \<Rightarrow> unicode" where
  "to_ascii_lowercase = map (\<lambda>c. if 65 \<le> c \<and> c \<le> 90 then c + 32 else c)"

definition contains_text :: "string \<Rightarrow> unicode \<Rightarrow> bool" where
  "contains_text p s \<longleftrightarrow> list_ex (\<lambda>i. take (length p) (drop i s) = chars p) [0..<Suc (length s)]"

definition starts_with :: "string \<Rightarrow> unicode \<Rightarrow> bool" where
  "starts_with p s \<longleftrightarrow> take (length p) s = chars p"

definition ends_with :: "string \<Rightarrow> unicode \<Rightarrow> bool" where
  "ends_with p s \<longleftrightarrow> length p \<le> length s \<and> drop (length s - length p) s = chars p"

fun decimal :: "nat \<Rightarrow> unicode" where
  "decimal n = (if n < 10 then [48 + n] else decimal (n div 10) @ [48 + n mod 10])"

declare decimal.simps [simp del]

text \<open>\<open>parse::<IpAddr>()\<close>, the parser of the standard library: a value and what is left of the text.\<close>

definition digit_value :: "nat \<Rightarrow> nat \<Rightarrow> nat option" where
  "digit_value radix c =
    (let d = (if 48 \<le> c \<and> c \<le> 57 then c - 48 else if 97 \<le> c \<and> c \<le> 122 then c - 87
              else if 65 \<le> c \<and> c \<le> 90 then c - 55 else radix) in
     if d < radix then Some d else None)"

definition read_number :: "nat \<Rightarrow> nat \<Rightarrow> nat \<Rightarrow> bool \<Rightarrow> unicode \<Rightarrow> (nat \<times> unicode) option" where
  "read_number radix max_digits limit zero_prefix s =
    (let ds = takeWhile (\<lambda>c. digit_value radix c \<noteq> None) s;
         n = foldl (\<lambda>n c. radix * n + the (digit_value radix c)) 0 ds in
     if ds = [] \<or> max_digits < length ds \<or> limit \<le> n \<or> \<not> zero_prefix \<and> hd ds = 48 \<and> 1 < length ds then None
     else Some (n, drop (length ds) s))"

definition read_char :: "nat \<Rightarrow> unicode \<Rightarrow> unicode option" where
  "read_char c s = (case s of x # xs \<Rightarrow> if x = c then Some xs else None | [] \<Rightarrow> None)"

text \<open>A separator goes before every item but the first.\<close>

definition read_separator :: "nat \<Rightarrow> nat \<Rightarrow> unicode \<Rightarrow> unicode option" where
  "read_separator c i s = (if i = 0 then Some s else read_char c s)"

fun read_octets :: "nat list \<Rightarrow> unicode \<Rightarrow> (nat list \<times> unicode) option" where
  "read_octets [] s = Some ([], s)"
| "read_octets (i # is) s =
    (case read_separator 46 i s of
       None \<Rightarrow> None
     | Some s1 \<Rightarrow>
         (case read_number 10 3 256 False s1 of
            None \<Rightarrow> None
          | Some (n, s2) \<Rightarrow> map_option (\<lambda>(ns, s3). (n # ns, s3)) (read_octets is s2)))"

definition read_ipv4 :: "unicode \<Rightarrow> (u32 \<times> unicode) option" where
  "read_ipv4 s = map_option (\<lambda>(ns, s'). (of_nat (foldl (\<lambda>a n. 256 * a + n) 0 ns), s')) (read_octets [0..<4] s)"

text \<open>Groups of an IPv6 address; an IPv4 address in dotted form may stand for the last two.\<close>

fun read_groups :: "nat \<Rightarrow> nat \<Rightarrow> unicode \<Rightarrow> nat list \<times> bool \<times> unicode" where
  "read_groups i 0 s = ([], False, s)"
| "read_groups i (Suc left) s =
    (case (if 0 < left then Option.bind (read_separator 58 i s) read_ipv4 else None) of
       Some (a, s') \<Rightarrow> ([unat (drop_bit 16 a), unat (a AND 0xFFFF)], True, s')
     | None \<Rightarrow>
         (case Option.bind (read_separator 58 i s) (read_number 16 4 65536 True) of
            Some (n, s') \<Rightarrow> (case read_groups (Suc i) left s' of (ns, v4, s'') \<Rightarrow> (n # ns, v4, s''))
          | None \<Rightarrow> ([], False, s)))"

definition ipv6_of :: "nat list \<Rightarrow> 128 word" where
  "ipv6_of ns = of_nat (foldl (\<lambda>a n. 65536 * a + n) 0 ns)"

definition read_ipv6 :: "unicode \<Rightarrow> (128 word \<times> unicode) option" where
  "read_ipv6 s =
    (case read_groups 0 8 s of (head, v4, s1) \<Rightarrow>
       if length head = 8 then Some (ipv6_of head, s1)
       else if v4 then None
       else case Option.bind (read_char 58 s1) (read_char 58) of
         None \<Rightarrow> None
       | Some s2 \<Rightarrow>
           (case read_groups 0 (8 - (length head + 1)) s2 of (tail, _, s3) \<Rightarrow>
             Some (ipv6_of (head @ replicate (8 - length head - length tail) 0 @ tail), s3)))"

definition parse_ip :: "unicode \<Rightarrow> ip_addr option" where
  "parse_ip s =
    (case read_ipv4 s of
       Some (a, rest) \<Rightarrow> if rest = [] then Some (V4 a) else None
     | None \<Rightarrow> (case read_ipv6 s of Some (a, rest) \<Rightarrow> if rest = [] then Some (V6 a) else None | None \<Rightarrow> None))"

section \<open>Windows\<close>

abbreviation IPV4 :: u16 where "IPV4 \<equiv> 2"
abbreviation IPV6 :: u16 where "IPV6 \<equiv> 23"

text \<open>
  \<open>SOCKADDR_INET\<close>, a union, as its bytes: the family, bytes 4 to 8 (the IPv4 address or the flow), bytes 8
  to 24 (the IPv6 address), bytes 24 to 28 (the scope).
\<close>

record sockaddr_inet =
  si_family :: u16
  si_word4 :: u32
  si_addr6 :: "128 word"
  si_scope :: u32

text \<open>\<open>MIB_IPFORWARD_ROW2\<close>.\<close>

record forward_row =
  fr_luid :: u64
  fr_index :: u32
  fr_prefix :: sockaddr_inet
  fr_prefix_length :: u8
  fr_next_hop :: sockaddr_inet
  fr_site_prefix :: u8
  fr_valid :: u32
  fr_preferred :: u32
  fr_metric :: u32
  fr_protocol :: u32
  fr_loopback :: bool
  fr_autoconfigure :: bool
  fr_publish :: bool
  fr_immortal :: bool
  fr_age :: u32
  fr_origin :: u32

text \<open>\<open>MIB_IPINTERFACE_ROW\<close>; the fields the program does not touch are one.\<close>

record interface_row_data =
  ir_family :: u16
  ir_luid :: u64
  ir_index :: u32
  ir_site_prefix :: u32
  ir_disable :: bool
  ir_rest :: nat

text \<open>\<open>IP_ADAPTER_ADDRESSES_LH\<close>; a null address is \<open>None\<close>.\<close>

record win_adapter =
  wa_name :: unicode
  wa_description :: "u16 list"
  wa_friendly :: "u16 list"
  wa_index :: u32
  wa_luid :: u64
  wa_guid :: "u32 \<times> u16 \<times> u16 \<times> bytes"
  wa_physical :: bytes
  wa_physical_length :: u32
  wa_up :: bool
  wa_unicast :: "(sock_address option \<times> u8) list"
  wa_gateways :: "sock_address option list"

record process_owner =
  po_pid :: u32
  po_created :: u64
  po_image :: unicode

record adapter_identity =
  ad_name :: unicode
  ad_luid :: u64
  ad_guid :: bytes
  ad_physical :: bytes
  ad_index :: u32
  ad_description :: unicode
  ad_friendly :: unicode

record persisted_route =
  pr_next_hop :: ip_addr
  pr_scope :: u32
  pr_site_prefix :: u8
  pr_valid :: u32
  pr_preferred :: u32
  pr_metric :: u32
  pr_protocol :: u32
  pr_loopback :: bool
  pr_autoconfigure :: bool
  pr_publish :: bool
  pr_immortal :: bool
  pr_origin :: u32

record persisted_policy =
  pp_owner :: process_owner
  pp_adapter :: adapter_identity
  pp_family :: u16
  pp_disable :: bool
  pp_routes :: "persisted_route list"

text \<open>
  The calls of the module; each changes the state of the world and answers with a code, or a result
  where the module reads \<open>GetLastError\<close>. Registry values are those under the key of the policy.
\<close>

record 'w win_system =
  ws_adapters :: "'w \<Rightarrow> (u32 \<times> win_adapter list) \<times> 'w"
  ws_best_interface :: "ip_addr \<Rightarrow> 'w \<Rightarrow> (u32 \<times> u32) \<times> 'w"
  ws_new_interface :: interface_row_data
  ws_get_row :: "interface_row_data \<Rightarrow> 'w \<Rightarrow> (u32 \<times> interface_row_data) \<times> 'w"
  ws_set_row :: "interface_row_data \<Rightarrow> 'w \<Rightarrow> u32 \<times> 'w"
  ws_table :: "u16 \<Rightarrow> 'w \<Rightarrow> (u32 \<times> forward_row list) \<times> 'w"
  ws_new_route :: forward_row
  ws_delete_route :: "forward_row \<Rightarrow> 'w \<Rightarrow> u32 \<times> 'w"
  ws_create_route :: "forward_row \<Rightarrow> 'w \<Rightarrow> u32 \<times> 'w"
  ws_create_key :: "'w \<Rightarrow> u32 \<times> 'w"
  ws_open_key :: "'w \<Rightarrow> u32 \<times> 'w"
  ws_value_count :: "'w \<Rightarrow> (u32 \<times> nat) \<times> 'w"
  ws_enum_value :: "nat \<Rightarrow> 'w \<Rightarrow> (u32 \<times> u16 list \<times> u32 \<times> bytes) \<times> 'w"
  ws_query :: "unicode \<Rightarrow> 'w \<Rightarrow> (u32 \<times> u32 \<times> bytes) \<times> 'w"
  ws_set_value :: "unicode \<Rightarrow> bytes \<Rightarrow> 'w \<Rightarrow> u32 \<times> 'w"
  ws_delete_value :: "unicode \<Rightarrow> 'w \<Rightarrow> u32 \<times> 'w"
  ws_flush :: "'w \<Rightarrow> u32 \<times> 'w"
  ws_open_tcpip :: "unicode \<Rightarrow> 'w \<Rightarrow> u32 \<times> 'w"
  ws_query_tcpip :: "unicode \<Rightarrow> unicode \<Rightarrow> 'w \<Rightarrow> (u32 \<times> u32 \<times> u16 list) \<times> 'w"
  ws_pid :: u32
  ws_self :: nat
  ws_image :: "'w \<Rightarrow> unicode \<times> 'w"
  ws_open_process :: "u32 \<Rightarrow> 'w \<Rightarrow> (io_error + nat) \<times> 'w"
  ws_creation :: "nat \<Rightarrow> 'w \<Rightarrow> (io_error + u64) \<times> 'w"
  ws_process_image :: "nat \<Rightarrow> 'w \<Rightarrow> (io_error + unicode) \<times> 'w"
  ws_exit_code :: "nat \<Rightarrow> 'w \<Rightarrow> (io_error + u32) \<times> 'w"
  js_encode :: "persisted_policy \<Rightarrow> bytes option"
  js_decode :: "bytes \<Rightarrow> persisted_policy option"

section \<open>Codes\<close>

abbreviation ERROR_FILE_NOT_FOUND :: u32 where "ERROR_FILE_NOT_FOUND \<equiv> 2"
abbreviation ERROR_ACCESS_DENIED :: u32 where "ERROR_ACCESS_DENIED \<equiv> 5"
abbreviation ERROR_ALREADY_EXISTS :: u32 where "ERROR_ALREADY_EXISTS \<equiv> 183"
abbreviation ERROR_NO_DATA :: u32 where "ERROR_NO_DATA \<equiv> 232"
abbreviation ERROR_NO_MORE_ITEMS :: u32 where "ERROR_NO_MORE_ITEMS \<equiv> 259"
abbreviation ERROR_NOT_FOUND :: u32 where "ERROR_NOT_FOUND \<equiv> 1168"
abbreviation ERROR_OBJECT_ALREADY_EXISTS :: u32 where "ERROR_OBJECT_ALREADY_EXISTS \<equiv> 5010"
abbreviation STILL_ACTIVE :: u32 where "STILL_ACTIVE \<equiv> 259"

definition is_missing :: "u32 \<Rightarrow> bool" where
  "is_missing result \<longleftrightarrow> result = ERROR_FILE_NOT_FOUND \<or> result = ERROR_NOT_FOUND"

definition win32_error :: "u32 \<Rightarrow> io_error" where
  "win32_error result = io_err (if result = ERROR_ACCESS_DENIED then PermissionDenied
     else if is_missing result then NotFound else OtherKind)"

definition check_win32 :: "u32 \<Rightarrow> (io_error, unit) outcome" where
  "check_win32 result = (if result = 0 then Done () else Fail (win32_error result))"

definition io_win32 :: "('w \<Rightarrow> u32 \<times> 'w) \<Rightarrow> (('w, 'z) machine_scheme, io_error, unit) io" where
  "io_win32 f = io_bind (io_world f) (\<lambda>result. io_lift (check_win32 result))"

definition io_result :: "('w \<Rightarrow> (io_error + 'a) \<times> 'w) \<Rightarrow> (('w, 'z) machine_scheme, io_error, 'a) io" where
  "io_result f = io_bind (io_world f) (\<lambda>r. case r of Inl e \<Rightarrow> io_fail e | Inr x \<Rightarrow> io_return x)"

definition require_some :: "io_kind \<Rightarrow> 'a option \<Rightarrow> ('st, io_error, 'a) io" where
  "require_some kind x = (case x of None \<Rightarrow> io_fail (io_err kind) | Some y \<Rightarrow> io_return y)"

definition require :: "io_kind \<Rightarrow> bool \<Rightarrow> ('st, io_error, unit) io" where
  "require kind b = (if b then io_return () else io_fail (io_err kind))"

section \<open>Adapters and addresses\<close>

fun same_prefix :: "ip_addr \<Rightarrow> ip_addr \<Rightarrow> u8 \<Rightarrow> bool" where
  "same_prefix (V4 candidate) (V4 local) p \<longleftrightarrow> 1 \<le> p \<and> p \<le> 32 \<and>
     (let mask = push_bit (32 - unat p) (- 1) in candidate AND mask = local AND mask)"
| "same_prefix (V6 candidate) (V6 local) p \<longleftrightarrow> 1 \<le> p \<and> p \<le> 128 \<and>
     (let mask = push_bit (128 - unat p) (- 1) in candidate AND mask = local AND mask)"
| "same_prefix _ _ _ = False"

fun valid_tether_prefix_win :: "ip_addr \<Rightarrow> u8 \<Rightarrow> bool" where
  "valid_tether_prefix_win (V4 a) p = (case local_block_v4 a of None \<Rightarrow> False | Some n \<Rightarrow> n \<le> unat p \<and> p \<le> 30)"
| "valid_tether_prefix_win (V6 a) p = (case local_block_v6 a of None \<Rightarrow> False | Some n \<Rightarrow> n \<le> unat p \<and> p \<le> 127)"

fun is_unspecified :: "ip_addr \<Rightarrow> bool" where
  "is_unspecified (V4 a) = (a = 0)"
| "is_unspecified (V6 a) = (a = 0)"

fun is_loopback :: "ip_addr \<Rightarrow> bool" where
  "is_loopback (V4 a) = (octet1 a = 127)"
| "is_loopback (V6 a) = (a = 1)"

definition is_tether_adapter :: "unicode \<Rightarrow> bool" where
  "is_tether_adapter identity =
    (let has = (\<lambda>p. contains_text p identity);
         explicit_phone_tether = has ''android'' \<or> has ''tether'' \<or> has ''internet sharing'' in
     (has ''rndis'' \<or> has ''remote ndis'') \<and> (has ''remote ndis'' \<or> explicit_phone_tether)
     \<or> has ''usb tether'' \<or> has ''usb-tether'' \<or> has ''ncm'' \<and> explicit_phone_tether)"

record tether_prefix =
  tp_index :: u32
  tp_address :: ip_addr
  tp_length :: u8

record tether_adapter =
  ta_index :: u32
  ta_prefixes :: "tether_prefix list"

definition socket_address_ip :: "sock_address option \<Rightarrow> ip_addr option" where
  "socket_address_ip a = Option.bind a sockaddr_ip"

fun adapter_prefixes :: "u32 \<Rightarrow> (sock_address option \<times> u8) list \<Rightarrow> tether_prefix list" where
  "adapter_prefixes index [] = []"
| "adapter_prefixes index ((a, p) # rest) =
    (case socket_address_ip a of
       None \<Rightarrow> []
     | Some ip \<Rightarrow> if \<not> is_unspecified ip \<and> \<not> is_loopback ip \<and> valid_tether_prefix_win ip p
         then [\<lparr>tp_index = index, tp_address = ip, tp_length = p\<rparr>] else [])
    @ adapter_prefixes index rest"

definition note_adapter :: "win_adapter \<Rightarrow> tether_adapter list \<Rightarrow> tether_adapter list" where
  "note_adapter a adapters =
    (let identity = to_ascii_lowercase (from_utf16_lossy (wa_description a) @ chars '' '' @ from_utf16_lossy (wa_friendly a)) in
     if wa_index a \<noteq> 0 \<and> is_tether_adapter identity \<and> wa_up a \<and> \<not> list_ex (\<lambda>t. ta_index t = wa_index a) adapters
     then adapters @ [\<lparr>ta_index = wa_index a, ta_prefixes = adapter_prefixes (wa_index a) (wa_unicast a)\<rparr>]
     else adapters)"

text \<open>What the enumeration of adapters answers; no data is no adapters.\<close>

definition adapter_addresses :: "'w win_system \<Rightarrow> (('w, 'z) machine_scheme, io_error, win_adapter list) io" where
  "adapter_addresses S = io_bind (io_world (ws_adapters S)) (\<lambda>(result, adapters).
     if result = ERROR_NO_DATA then io_return [] else
     io_bind (io_lift (check_win32 result)) (\<lambda>_. io_return adapters))"

definition tether_adapters :: "'w win_system \<Rightarrow> (('w, 'z) machine_scheme, io_error, tether_adapter list) io" where
  "tether_adapters S = io_bind (adapter_addresses S) (\<lambda>adapters. io_return (fold note_adapter adapters []))"

definition tether_interface_indices :: "'w win_system \<Rightarrow> (('w, 'z) machine_scheme, io_error, u32 list) io" where
  "tether_interface_indices S = io_bind (tether_adapters S) (\<lambda>adapters. io_return (map ta_index adapters))"

definition current_tether_snapshot :: "'w win_system \<Rightarrow> (('w, 'z) machine_scheme, io_error, tether_prefix list) io" where
  "current_tether_snapshot S = io_bind (tether_adapters S) (\<lambda>adapters. io_return (concat (map ta_prefixes adapters)))"

text \<open>The one interface whose prefixes hold the peer; two different ones are no answer.\<close>

fun classify_peer_from :: "u32 option \<Rightarrow> tether_prefix list \<Rightarrow> ip_addr \<Rightarrow> u32 option" where
  "classify_peer_from matched [] peer = matched"
| "classify_peer_from matched (p # ps) peer =
    (if same_prefix peer (tp_address p) (tp_length p) then
       (case matched of
          None \<Rightarrow> classify_peer_from (Some (tp_index p)) ps peer
        | Some index \<Rightarrow> if index = tp_index p then classify_peer_from matched ps peer else None)
     else classify_peer_from matched ps peer)"

definition classify_peer :: "tether_prefix list \<Rightarrow> ip_addr \<Rightarrow> u32 option" where
  "classify_peer = classify_peer_from None"

fun note_listener_win :: "u32 \<Rightarrow> tether_prefix \<Rightarrow> (u32 \<times> u32) list \<Rightarrow> (u32 \<times> u32) list" where
  "note_listener_win index p listeners =
    (case tp_address p of
       V6 _ \<Rightarrow> listeners
     | V4 a \<Rightarrow> if (a, index) \<in> set listeners then listeners else listeners @ [(a, index)])"

definition tether_ipv4_interfaces_win :: "'w win_system \<Rightarrow> (('w, 'z) machine_scheme, io_error, (u32 \<times> u32) list) io" where
  "tether_ipv4_interfaces_win S = io_bind (tether_adapters S) (\<lambda>adapters.
     io_return (fold (\<lambda>t. fold (note_listener_win (ta_index t)) (ta_prefixes t)) adapters []))"

definition guid_bytes :: "u32 \<times> u16 \<times> u16 \<times> bytes \<Rightarrow> bytes" where
  "guid_bytes = (\<lambda>(d1, d2, d3, d4). le_u32 d1 @ le_u16 d2 @ le_u16 d3 @ d4)"

definition identity_of :: "win_adapter \<Rightarrow> adapter_identity" where
  "identity_of a =
     \<lparr>ad_name = wa_name a, ad_luid = wa_luid a, ad_guid = guid_bytes (wa_guid a),
      ad_physical = take (unat (wa_physical_length a)) (wa_physical a), ad_index = wa_index a,
      ad_description = from_utf16_lossy (wa_description a), ad_friendly = from_utf16_lossy (wa_friendly a)\<rparr>"

definition all_adapter_details ::
  "'w win_system \<Rightarrow> (('w, 'z) machine_scheme, io_error, (adapter_identity \<times> ip_addr list) list) io" where
  "all_adapter_details S = io_bind (adapter_addresses S) (\<lambda>adapters.
     io_return (map (\<lambda>a. (identity_of a, List.map_filter socket_address_ip (wa_gateways a)))
       (filter (\<lambda>a. wa_index a \<noteq> 0) adapters)))"

definition adapter_details :: "'w win_system \<Rightarrow> u32 \<Rightarrow> (('w, 'z) machine_scheme, io_error, (adapter_identity \<times> ip_addr list) option) io" where
  "adapter_details S index = io_bind (all_adapter_details S) (\<lambda>details.
     io_return (find (\<lambda>(identity, _). ad_index identity = index) details))"

definition adapter_identity_at :: "'w win_system \<Rightarrow> u32 \<Rightarrow> (('w, 'z) machine_scheme, io_error, adapter_identity option) io" where
  "adapter_identity_at S index = io_bind (adapter_details S index) (\<lambda>found. io_return (map_option fst found))"

definition same_recovery_adapter :: "adapter_identity \<Rightarrow> adapter_identity \<Rightarrow> bool" where
  "same_recovery_adapter expected actual \<longleftrightarrow> ad_name expected = ad_name actual \<and> ad_luid expected = ad_luid actual \<and>
     ad_guid expected = ad_guid actual"

definition same_adapter_instance :: "adapter_identity \<Rightarrow> adapter_identity \<Rightarrow> bool" where
  "same_adapter_instance expected actual \<longleftrightarrow>
     same_recovery_adapter expected actual \<and> ad_physical expected = ad_physical actual"

text \<open>The adapter with the durable identity; two of them are refused.\<close>

fun match_details :: "adapter_identity \<Rightarrow> (adapter_identity \<times> 'a) list \<Rightarrow> (adapter_identity \<times> 'a) option \<Rightarrow>
    (io_error, (adapter_identity \<times> 'a) option) outcome" where
  "match_details expected [] matched = Done matched"
| "match_details expected (d # ds) matched =
    (if \<not> same_recovery_adapter expected (fst d) then match_details expected ds matched
     else if matched \<noteq> None then Fail (io_err InvalidData)
     else match_details expected ds (Some d))"

definition adapter_details_for_identity :: "'w win_system \<Rightarrow> adapter_identity \<Rightarrow>
    (('w, 'z) machine_scheme, io_error, (adapter_identity \<times> ip_addr list) option) io" where
  "adapter_details_for_identity S expected = io_bind (all_adapter_details S) (\<lambda>details. io_lift (match_details expected details None))"

section \<open>Bindings\<close>

record win_binding =
  wb_index :: u32
  wb_adapter :: adapter_identity
  wb_validate :: bool

definition accepts_ingress_win :: "win_binding \<Rightarrow> u32 option \<Rightarrow> bool" where
  "accepts_ingress_win b index \<longleftrightarrow> \<not> wb_validate b \<or> index = Some (wb_index b)"

definition matches_current :: "win_binding \<Rightarrow> win_binding \<Rightarrow> bool" where
  "matches_current b current \<longleftrightarrow> wb_index b = wb_index current \<and> same_adapter_instance (wb_adapter b) (wb_adapter current)"

definition interface_index_for_peer :: "'w win_system \<Rightarrow> ip_addr \<Rightarrow> (('w, 'z) machine_scheme, io_error, u32) io" where
  "interface_index_for_peer S peer = io_bind (io_world (ws_best_interface S peer)) (\<lambda>(result, index).
     io_bind (io_lift (check_win32 result)) (\<lambda>_.
       if index = 0 then io_fail (io_err NotFound) else io_return index))"

definition current_tether_binding_win ::
  "'w win_system \<Rightarrow> socket_addr \<Rightarrow> (('w, 'z) machine_scheme, io_error, win_binding option) io" where
  "current_tether_binding_win S peer =
     io_bind (current_tether_snapshot S) (\<lambda>snapshot.
     case classify_peer snapshot (sa_ip peer) of None \<Rightarrow> io_return None | Some index \<Rightarrow>
     io_bind (interface_index_for_peer S (sa_ip peer)) (\<lambda>routed.
     if routed \<noteq> index then io_return None else
     io_bind (adapter_identity_at S index) (\<lambda>adapter.
       io_return (map_option (\<lambda>a. \<lparr>wb_index = index, wb_adapter = a, wb_validate = True\<rparr>) adapter))))"

definition verify_peer_win :: "'w win_system \<Rightarrow> win_binding \<Rightarrow> socket_addr \<Rightarrow> (('w, 'z) machine_scheme, io_error, unit) io" where
  "verify_peer_win S b peer =
    (if \<not> wb_validate b then io_return () else
     io_bind (current_tether_binding_win S peer) (\<lambda>current.
       case current of
         None \<Rightarrow> io_fail (io_err ConnectionAborted)
       | Some c \<Rightarrow> require ConnectionAborted (matches_current b c)))"

section \<open>Routes\<close>

datatype route_key = RouteKey (rk_index: u32) (rk_family: u16) (rk_length: u8) (rk_prefix: "128 word") (rk_hop: "128 word")

text \<open>The 16 bytes of a key hold an IPv4 address in the first four.\<close>

definition route_key_of :: "forward_row \<Rightarrow> route_key" where
  "route_key_of r =
    (let family = si_family (fr_prefix r);
         view = (\<lambda>a. if family = IPV4 then push_bit 96 (ucast (si_word4 a)) else si_addr6 a) in
     RouteKey (fr_index r) family (fr_prefix_length r) (view (fr_prefix r)) (view (fr_next_hop r)))"

definition sockaddr_inet_ip :: "sockaddr_inet \<Rightarrow> (ip_addr \<times> u32) option" where
  "sockaddr_inet_ip a =
    (if si_family a = IPV4 then Some (V4 (si_word4 a), 0)
     else if si_family a = IPV6 then Some (V6 (si_addr6 a), si_scope a) else None)"

text \<open>An IPv4 address overwrites the first 16 bytes of the union.\<close>

fun set_sockaddr_inet :: "sockaddr_inet \<Rightarrow> ip_addr \<Rightarrow> u32 \<Rightarrow> sockaddr_inet" where
  "set_sockaddr_inet target (V4 a) scope = target\<lparr>si_family := IPV4, si_word4 := a, si_addr6 := take_bit 64 (si_addr6 target)\<rparr>"
| "set_sockaddr_inet target (V6 a) scope = \<lparr>si_family = IPV6, si_word4 = 0, si_addr6 = a, si_scope = scope\<rparr>"

definition unspecified_for_family :: "u16 \<Rightarrow> ip_addr" where
  "unspecified_for_family family = (if family = IPV4 then V4 0 else V6 0)"

definition persist_route :: "forward_row \<Rightarrow> persisted_route option" where
  "persist_route r = map_option (\<lambda>(hop, scope).
     \<lparr>pr_next_hop = hop, pr_scope = scope, pr_site_prefix = fr_site_prefix r, pr_valid = fr_valid r,
      pr_preferred = fr_preferred r, pr_metric = fr_metric r, pr_protocol = fr_protocol r, pr_loopback = fr_loopback r,
      pr_autoconfigure = fr_autoconfigure r, pr_publish = fr_publish r, pr_immortal = fr_immortal r,
      pr_origin = fr_origin r\<rparr>) (sockaddr_inet_ip (fr_next_hop r))"

fun persisted_routes :: "forward_row list \<Rightarrow> (io_error, persisted_route list) outcome" where
  "persisted_routes [] = Done []"
| "persisted_routes (r # rs) =
    (case persist_route r of
       None \<Rightarrow> Fail (io_err InvalidData)
     | Some p \<Rightarrow> and_then (persisted_routes rs) (\<lambda>ps. Done (p # ps)))"

fun hop_matches :: "u16 \<Rightarrow> ip_addr \<Rightarrow> bool" where
  "hop_matches family (V4 _) = (family = IPV4)"
| "hop_matches family (V6 _) = (family = IPV6)"

fun hop_scope :: "persisted_route \<Rightarrow> adapter_identity \<Rightarrow> u32" where
  "hop_scope p adapter =
    (case pr_next_hop p of
       V6 a \<Rightarrow> if drop_bit 112 a AND 0xffc0 = 0xfe80 then ad_index adapter else pr_scope p
     | V4 _ \<Rightarrow> pr_scope p)"

definition restore_route_row :: "'w win_system \<Rightarrow> persisted_route \<Rightarrow> adapter_identity \<Rightarrow> u16 \<Rightarrow> (io_error, forward_row) outcome" where
  "restore_route_row S p adapter family =
    (if \<not> hop_matches family (pr_next_hop p) then Fail (io_err InvalidData) else
     let row = ws_new_route S in
     Done (row\<lparr>fr_index := ad_index adapter, fr_luid := ad_luid adapter, fr_prefix_length := 0,
       fr_prefix := set_sockaddr_inet (fr_prefix row) (unspecified_for_family family) 0,
       fr_next_hop := set_sockaddr_inet (fr_next_hop row) (pr_next_hop p) (hop_scope p adapter),
       fr_site_prefix := pr_site_prefix p, fr_valid := pr_valid p, fr_preferred := pr_preferred p,
       fr_metric := pr_metric p, fr_protocol := pr_protocol p, fr_loopback := pr_loopback p,
       fr_autoconfigure := pr_autoconfigure p, fr_publish := pr_publish p, fr_immortal := pr_immortal p,
       fr_origin := pr_origin p\<rparr>))"

fun restore_rows :: "'w win_system \<Rightarrow> persisted_route list \<Rightarrow> adapter_identity \<Rightarrow> u16 \<Rightarrow> (io_error, forward_row list) outcome" where
  "restore_rows S [] adapter family = Done []"
| "restore_rows S (p # ps) adapter family =
     and_then (restore_route_row S p adapter family) (\<lambda>r.
     and_then (restore_rows S ps adapter family) (\<lambda>rs. Done (r # rs)))"

text \<open>Matching the current items with distinct captured ones, in order.\<close>

fun match_original :: "'a \<Rightarrow> bool list \<Rightarrow> 'a list \<Rightarrow> bool list option" where
  "match_original item (u # us) (c # cs) =
    (if u \<and> c = item then Some (False # us) else map_option ((#) u) (match_original item us cs))"
| "match_original item _ _ = None"

fun match_all :: "'a list \<Rightarrow> bool list \<Rightarrow> 'a list \<Rightarrow> bool list option" where
  "match_all [] unmatched original = Some unmatched"
| "match_all (x # xs) unmatched original = Option.bind (match_original x unmatched original) (\<lambda>u. match_all xs u original)"

definition missing_original_indices :: "'a list \<Rightarrow> 'a list \<Rightarrow> nat list option" where
  "missing_original_indices current original =
     map_option (\<lambda>unmatched. filter (\<lambda>i. unmatched ! i) [0..<length unmatched])
       (match_all current (replicate (length original) True) original)"

definition same_multiset :: "'a list \<Rightarrow> 'a list \<Rightarrow> bool" where
  "same_multiset left right \<longleftrightarrow> length left = length right \<and> missing_original_indices left right = Some []"

datatype captured_gateway = Available | Stale | Unconfirmed

definition classify_captured_gateway :: "ip_addr \<Rightarrow> ip_addr list \<Rightarrow> ip_addr list \<Rightarrow> captured_gateway" where
  "classify_captured_gateway hop routed configured =
    (if is_unspecified hop \<or> hop \<in> set routed \<or> hop \<in> set configured then Available
     else if configured = [] then Unconfirmed else Stale)"

text \<open>The gateways Windows configures for an IPv4 interface, from DHCP or by hand.\<close>

fun split_strings :: "u16 list \<Rightarrow> u16 list list" where
  "split_strings [] = [[]]"
| "split_strings (u # us) =
    (if u = 0 then [] # split_strings us else case split_strings us of [] \<Rightarrow> [[u]] | s # ss \<Rightarrow> (u # s) # ss)"

definition split_registry_strings :: "u16 list \<Rightarrow> unicode list" where
  "split_registry_strings buffer = map from_utf16_lossy (filter (\<lambda>s. s \<noteq> []) (split_strings buffer))"

definition read_registry_strings ::
  "'w win_system \<Rightarrow> unicode \<Rightarrow> unicode \<Rightarrow> (('w, 'z) machine_scheme, io_error, unicode list) io" where
  "read_registry_strings S key name =
    (let text = (\<lambda>t. t = 7 \<or> t = (1::u32)) in
     io_bind (io_world (ws_query_tcpip S key name)) (\<lambda>(result, value_type, _).
     if is_missing result then io_return [] else
     io_bind (io_lift (check_win32 result)) (\<lambda>_.
     if \<not> text value_type then io_return [] else
     io_bind (io_world (ws_query_tcpip S key name)) (\<lambda>(result, value_type, buffer).
     if is_missing result then io_return [] else
     io_bind (io_lift (check_win32 result)) (\<lambda>_.
     if \<not> text value_type then io_return [] else io_return (split_registry_strings buffer))))))"

fun note_gateway :: "unicode \<Rightarrow> ip_addr list \<Rightarrow> ip_addr list" where
  "note_gateway text gateways =
    (case parse_ip (trim text) of
       None \<Rightarrow> gateways
     | Some a \<Rightarrow> if \<not> is_unspecified a \<and> a \<notin> set gateways then gateways @ [a] else gateways)"

definition configured_gateways ::
  "'w win_system \<Rightarrow> adapter_identity \<Rightarrow> u16 \<Rightarrow> (('w, 'z) machine_scheme, io_error, ip_addr list) io" where
  "configured_gateways S adapter family =
    (if family \<noteq> IPV4 \<or> ad_name adapter = [] then io_return [] else
     let key = ad_name adapter in
     io_bind (io_world (ws_open_tcpip S key)) (\<lambda>result.
     if is_missing result then io_return [] else
     io_bind (io_lift (check_win32 result)) (\<lambda>_.
     io_bind (read_registry_strings S key (chars ''DhcpDefaultGateway'')) (\<lambda>dhcp.
     io_bind (read_registry_strings S key (chars ''DefaultGateway'')) (\<lambda>static.
       io_return (fold note_gateway (dhcp @ static) []))))))"

section \<open>The rows of an adapter\<close>

definition interface_identity_matches :: "u32 \<Rightarrow> u64 \<Rightarrow> adapter_identity \<Rightarrow> bool" where
  "interface_identity_matches index luid adapter \<longleftrightarrow> index = ad_index adapter \<and> luid = ad_luid adapter"

definition interface_row :: "'w win_system \<Rightarrow> u32 \<Rightarrow> u16 \<Rightarrow> (('w, 'z) machine_scheme, io_error, interface_row_data option) io" where
  "interface_row S index family =
     io_bind (io_world (ws_get_row S ((ws_new_interface S)\<lparr>ir_family := family, ir_index := index\<rparr>))) (\<lambda>(result, row).
       if is_missing result then io_return None
       else if result = 0 then io_return (Some row) else io_fail (win32_error result))"

definition interface_row_for_adapter ::
  "'w win_system \<Rightarrow> adapter_identity \<Rightarrow> u16 \<Rightarrow> (('w, 'z) machine_scheme, io_error, interface_row_data option) io" where
  "interface_row_for_adapter S adapter family =
     io_bind (interface_row S (ad_index adapter) family) (\<lambda>found. case found of None \<Rightarrow> io_return None | Some row \<Rightarrow>
       if interface_identity_matches (ir_index row) (ir_luid row) adapter then io_return (Some row)
       else io_fail (io_err NotFound))"

definition prepare_interface_row_for_set :: "bool \<Rightarrow> interface_row_data \<Rightarrow> interface_row_data" where
  "prepare_interface_row_for_set disable row =
    (let row = row\<lparr>ir_disable := disable\<rparr> in if ir_family row = IPV4 then row\<lparr>ir_site_prefix := 0\<rparr> else row)"

definition default_routes :: "'w win_system \<Rightarrow> u32 \<Rightarrow> u16 \<Rightarrow> (('w, 'z) machine_scheme, io_error, forward_row list) io" where
  "default_routes S index family = io_bind (io_world (ws_table S family)) (\<lambda>(result, rows).
     if result \<noteq> 0 then (if is_missing result then io_return [] else io_fail (win32_error result))
     else io_return (filter (\<lambda>r. fr_index r = index \<and> fr_prefix_length r = 0) rows))"

definition default_routes_for_adapter ::
  "'w win_system \<Rightarrow> adapter_identity \<Rightarrow> u16 \<Rightarrow> (('w, 'z) machine_scheme, io_error, forward_row list) io" where
  "default_routes_for_adapter S adapter family = io_bind (default_routes S (ad_index adapter) family) (\<lambda>routes.
     if list_all (\<lambda>r. interface_identity_matches (fr_index r) (fr_luid r) adapter) routes then io_return routes
     else io_fail (io_err NotFound))"

definition should_restore_owned_flag :: "bool \<Rightarrow> bool \<Rightarrow> bool" where
  "should_restore_owned_flag current original \<longleftrightarrow> current \<and> \<not> original"

definition restore_interface_flag ::
  "'w win_system \<Rightarrow> adapter_identity \<Rightarrow> u16 \<Rightarrow> bool \<Rightarrow> (('w, 'z) machine_scheme, io_error, unit) io" where
  "restore_interface_flag S adapter family disable =
     io_bind (interface_row_for_adapter S adapter family) (\<lambda>found.
     io_bind (require_some NotFound found) (\<lambda>row.
     if ir_disable row = disable then io_return () else
     io_bind (io_win32 (ws_set_row S (prepare_interface_row_for_set disable row))) (\<lambda>_.
     io_bind (interface_row_for_adapter S adapter family) (\<lambda>found.
     io_bind (require_some NotFound found) (\<lambda>verified. require OtherKind (ir_disable verified = disable))))))"

definition restore_owned_interface_flag ::
  "'w win_system \<Rightarrow> adapter_identity \<Rightarrow> u16 \<Rightarrow> bool \<Rightarrow> (('w, 'z) machine_scheme, io_error, unit) io" where
  "restore_owned_interface_flag S adapter family original =
     io_bind (interface_row_for_adapter S adapter family) (\<lambda>found.
     io_bind (require_some NotFound found) (\<lambda>row.
       if should_restore_owned_flag (ir_disable row) original then restore_interface_flag S adapter family False
       else io_return ()))"

section \<open>The journal\<close>

definition POLICY_MAGIC :: bytes where "POLICY_MAGIC = ascii ''HPTP''"
abbreviation POLICY_VERSION :: u32 where "POLICY_VERSION \<equiv> 1"
definition POLICY_VALUE_PREFIX :: string where "POLICY_VALUE_PREFIX = ''tether-route-policy-v1-''"
definition POLICY_VALUE_SUFFIX :: string where "POLICY_VALUE_SUFFIX = ''.bin''"

definition encode_policy :: "'w win_system \<Rightarrow> persisted_policy \<Rightarrow> (io_error, bytes) outcome" where
  "encode_policy S policy =
    (case js_encode S policy of
       None \<Rightarrow> Fail (io_err InvalidData)
     | Some payload \<Rightarrow>
         if 2 ^ 32 \<le> length payload then Fail (io_err InvalidData) else
         let body = POLICY_MAGIC @ le_u32 POLICY_VERSION @ le_u32 (of_nat (length payload)) @ payload in
         Done (body @ le_u32 (crc32 body)))"

definition decode_policy :: "'w win_system \<Rightarrow> bytes \<Rightarrow> (io_error, persisted_policy) outcome" where
  "decode_policy S encoded =
    (let n = length encoded in
     if n < 16 \<or> take 4 encoded \<noteq> POLICY_MAGIC then Fail (io_err InvalidData) else
     and_then (slice_at encoded 4 4) (\<lambda>version.
     if le_word version \<noteq> POLICY_VERSION then Fail (io_err InvalidData) else
     and_then (slice_at encoded 8 4) (\<lambda>size.
     let payload_length = unat (le_word size :: u32) in
     if n \<noteq> 12 + payload_length + 4 then Fail (io_err InvalidData) else
     and_then (slice_at encoded (n - 4) 4) (\<lambda>expected.
     if le_word expected \<noteq> crc32 (take (n - 4) encoded) then Fail (io_err InvalidData) else
     and_then (slice_at encoded 12 payload_length) (\<lambda>payload.
       case js_decode S payload of None \<Rightarrow> Fail (io_err InvalidData) | Some policy \<Rightarrow> Done policy)))))"

text \<open>The key of the journal; a missing one is an empty journal.\<close>

definition open_policy_key :: "'w win_system \<Rightarrow> (('w, 'z) machine_scheme, io_error, bool) io" where
  "open_policy_key S = io_bind (io_world (ws_open_key S)) (\<lambda>result.
     if is_missing result then io_return False else
     io_bind (io_lift (check_win32 result)) (\<lambda>_. io_return True))"

definition read_policy_value :: "'w win_system \<Rightarrow> unicode \<Rightarrow> (('w, 'z) machine_scheme, io_error, bytes option) io" where
  "read_policy_value S name =
    (let binary = (\<lambda>t. t = (3::u32)) in
     io_bind (io_world (ws_query S name)) (\<lambda>(result, value_type, _).
     if is_missing result then io_return None else
     io_bind (io_lift (check_win32 result)) (\<lambda>_.
     io_bind (require InvalidData (binary value_type)) (\<lambda>_.
     io_bind (io_world (ws_query S name)) (\<lambda>(result, value_type, encoded).
     io_bind (io_lift (check_win32 result)) (\<lambda>_.
     io_bind (require InvalidData (binary value_type)) (\<lambda>_. io_return (Some encoded))))))))"

fun enum_policies :: "'w win_system \<Rightarrow> nat list \<Rightarrow> (unicode \<times> persisted_policy) list \<Rightarrow>
    (('w, 'z) machine_scheme, io_error, (unicode \<times> persisted_policy) list) io" where
  "enum_policies S [] policies = io_return policies"
| "enum_policies S (i # is) policies =
     io_bind (io_world (ws_enum_value S i)) (\<lambda>(result, raw_name, value_type, encoded).
     if result = ERROR_NO_MORE_ITEMS then io_return policies else
     io_bind (io_lift (check_win32 result)) (\<lambda>_.
     let name = from_utf16_lossy raw_name in
     if \<not> starts_with POLICY_VALUE_PREFIX name \<or> \<not> ends_with POLICY_VALUE_SUFFIX name then enum_policies S is policies else
     io_bind (require InvalidData (value_type = 3)) (\<lambda>_.
     io_bind (io_lift (decode_policy S encoded)) (\<lambda>policy. enum_policies S is (policies @ [(name, policy)])))))"

definition persisted_policies ::
  "'w win_system \<Rightarrow> (('w, 'z) machine_scheme, io_error, (unicode \<times> persisted_policy) list) io" where
  "persisted_policies S =
     io_bind (open_policy_key S) (\<lambda>found.
     if \<not> found then io_return [] else
     io_bind (io_world (ws_value_count S)) (\<lambda>(result, count).
     io_bind (io_lift (check_win32 result)) (\<lambda>_. enum_policies S [0..<count] [])))"

definition remove_policy_value :: "'w win_system \<Rightarrow> unicode \<Rightarrow> (('w, 'z) machine_scheme, io_error, unit) io" where
  "remove_policy_value S name =
     io_bind (open_policy_key S) (\<lambda>found.
     if \<not> found then io_return () else
     io_bind (io_world (ws_delete_value S name)) (\<lambda>result.
     if is_missing result then io_return () else
     io_bind (io_lift (check_win32 result)) (\<lambda>_. io_win32 (ws_flush S))))"

definition policy_name :: "persisted_policy \<Rightarrow> unicode" where
  "policy_name p = chars POLICY_VALUE_PREFIX @ decimal (unat (po_pid (pp_owner p))) @ chars ''-'' @
     decimal (unat (po_created (pp_owner p))) @ chars ''-'' @ decimal (unat (ad_index (pp_adapter p))) @ chars ''-'' @
     decimal (unat (pp_family p)) @ chars POLICY_VALUE_SUFFIX"

definition persist_policy :: "'w win_system \<Rightarrow> persisted_policy \<Rightarrow> (('w, 'z) machine_scheme, io_error, unicode) io" where
  "persist_policy S policy =
    (let name = policy_name policy in
     io_bind (io_lift (encode_policy S policy)) (\<lambda>encoded.
     io_bind (io_win32 (ws_create_key S)) (\<lambda>_.
     io_bind (read_policy_value S name) (\<lambda>existing.
     case existing of
       Some old \<Rightarrow> io_bind (io_lift (decode_policy S old)) (\<lambda>existing.
         if existing = policy then io_return name else io_fail (io_err AlreadyExists))
     | None \<Rightarrow>
         if 2 ^ 32 \<le> length encoded then io_fail (io_err InvalidData) else
         io_bind (io_win32 (ws_set_value S name encoded)) (\<lambda>_.
         io_bind (io_win32 (ws_flush S)) (\<lambda>_.
         io_bind (read_policy_value S name) (\<lambda>found.
           if found \<noteq> Some encoded then io_fail (io_err OtherKind) else io_return name)))))))"

section \<open>Owners\<close>

definition current_process_owner :: "'w win_system \<Rightarrow> (('w, 'z) machine_scheme, io_error, process_owner) io" where
  "current_process_owner S =
     io_bind (io_result (ws_creation S (ws_self S))) (\<lambda>created.
     io_bind (io_world (ws_image S)) (\<lambda>image.
       io_return \<lparr>po_pid = ws_pid S, po_created = created, po_image = image\<rparr>))"

text \<open>The handle is closed once the three questions are asked.\<close>

definition process_owner_is_running :: "'w win_system \<Rightarrow> process_owner \<Rightarrow> (('w, 'z) machine_scheme, io_error, bool) io" where
  "process_owner_is_running S owner =
     io_bind (io_world (ws_open_process S (po_pid owner))) (\<lambda>opened.
     case opened of
       Inl e \<Rightarrow> if raw_os_error e \<in> {Some 87, Some 1168} then io_return False else io_fail e
     | Inr handle \<Rightarrow>
         io_bind (io_world (ws_creation S handle)) (\<lambda>creation.
         io_bind (io_world (ws_process_image S handle)) (\<lambda>image.
         io_bind (io_result (ws_exit_code S handle)) (\<lambda>exit_code.
         if exit_code \<noteq> STILL_ACTIVE then io_return False else
         case creation of
           Inl e \<Rightarrow> io_fail e
         | Inr created \<Rightarrow> io_return (created = po_created owner \<and> (po_image owner = [] \<or>
             (case image of Inl _ \<Rightarrow> True | Inr i \<Rightarrow> to_ascii_lowercase i = to_ascii_lowercase (po_image owner))))))))"

section \<open>Restoring\<close>

text \<open>
  Missing originals are created again when nothing newer is there and their gateway is still known; the
  keys of those created are collected. A restore and a recovery share these steps.
\<close>

fun create_missing :: "'w win_system \<Rightarrow> (forward_row \<times> ip_addr option) list \<Rightarrow> ip_addr list \<Rightarrow> ip_addr list \<Rightarrow> nat list \<Rightarrow>
    route_key list \<Rightarrow> (('w, 'z) machine_scheme, io_error, route_key list) io" where
  "create_missing S rows gateways configured [] keys = io_return keys"
| "create_missing S rows gateways configured (i # is) keys =
    (if length rows \<le> i then io_lift Panic else
     case rows ! i of
       (row, None) \<Rightarrow> io_fail (io_err InvalidData)
     | (row, Some hop) \<Rightarrow> (case classify_captured_gateway hop gateways configured of
       Stale \<Rightarrow> create_missing S rows gateways configured is keys
     | Unconfirmed \<Rightarrow> io_fail (io_err NotFound)
     | Available \<Rightarrow>
         io_bind (io_world (ws_create_route S row)) (\<lambda>result.
         if result \<noteq> 0 \<and> result \<noteq> ERROR_ALREADY_EXISTS \<and> result \<noteq> ERROR_OBJECT_ALREADY_EXISTS
         then io_fail (win32_error result)
         else create_missing S rows gateways configured is (keys @ [route_key_of row]))))"

definition restore_routes :: "'w win_system \<Rightarrow> adapter_identity \<Rightarrow> ip_addr list \<Rightarrow> u16 \<Rightarrow> forward_row list \<Rightarrow>
    (forward_row \<times> ip_addr option) list \<Rightarrow> (('w, 'z) machine_scheme, io_error, unit) io" where
  "restore_routes S adapter gateways family current rows =
     io_bind
      (case missing_original_indices (map route_key_of current) (map (\<lambda>(row, _). route_key_of row) rows) of
         None \<Rightarrow> io_return []
       | Some missing \<Rightarrow> io_bind (configured_gateways S adapter family) (\<lambda>configured.
           create_missing S rows gateways configured missing [])) (\<lambda>verify_keys.
     if verify_keys = [] then io_return () else
     io_bind (default_routes_for_adapter S adapter family) (\<lambda>restored.
       require OtherKind (set verify_keys \<subseteq> route_key_of ` set restored)))"

record interface_snapshot =
  is_adapter :: adapter_identity
  is_index :: u32
  is_family :: u16
  is_disable :: bool
  is_routes :: "forward_row list"
  is_name :: unicode

definition restore_snapshot :: "'w win_system \<Rightarrow> interface_snapshot \<Rightarrow> (('w, 'z) machine_scheme, io_error, unit) io" where
  "restore_snapshot S snapshot =
     io_bind (adapter_details_for_identity S (is_adapter snapshot)) (\<lambda>found.
     case found of None \<Rightarrow> io_fail (io_err NotFound) | Some (adapter, gateways) \<Rightarrow>
     io_bind (interface_row_for_adapter S adapter (is_family snapshot)) (\<lambda>row.
     if row = None then io_fail (io_err NotFound) else
     io_bind (default_routes_for_adapter S adapter (is_family snapshot)) (\<lambda>current.
     io_bind (io_lift (persisted_routes (is_routes snapshot))) (\<lambda>routes.
     io_bind (io_lift (restore_rows S routes adapter (is_family snapshot))) (\<lambda>original.
     io_bind (restore_routes S adapter gateways (is_family snapshot) current
       (map (\<lambda>row. (row, map_option fst (sockaddr_inet_ip (fr_next_hop row)))) original)) (\<lambda>_.
     io_bind (restore_owned_interface_flag S adapter (is_family snapshot) (is_disable snapshot)) (\<lambda>_.
       remove_policy_value S (is_name snapshot))))))))"

datatype policy_recovery = Recovered | Postponed | OwnerRuns

definition recover_policy :: "'w win_system \<Rightarrow> persisted_policy \<Rightarrow> (('w, 'z) machine_scheme, io_error, policy_recovery) io" where
  "recover_policy S policy =
    (let family = pp_family policy in
     io_bind (adapter_details_for_identity S (pp_adapter policy)) (\<lambda>found.
     case found of None \<Rightarrow> io_return Postponed | Some (adapter, gateways) \<Rightarrow>
     io_bind (interface_row_for_adapter S adapter family) (\<lambda>row.
     if row = None then io_return Postponed else
     io_bind (process_owner_is_running S (pp_owner policy)) (\<lambda>running.
     if running then io_return OwnerRuns else
     io_bind (default_routes_for_adapter S adapter family) (\<lambda>current.
     io_bind (io_lift (restore_rows S (pp_routes policy) adapter family)) (\<lambda>original.
     io_bind (restore_routes S adapter gateways family current
       (zip original (map (\<lambda>p. Some (pr_next_hop p)) (pp_routes policy)))) (\<lambda>_.
     io_bind (restore_owned_interface_flag S adapter family (pp_disable policy)) (\<lambda>_. io_return Recovered))))))))"

datatype recovery_outcome = NothingToDo | Restored nat | Deferred nat nat | OwnerStillRunning

text \<open>A policy whose recovery fails stops the rest; one restored loses its journal entry.\<close>

fun recover_each :: "(persisted_policy \<Rightarrow> ('st, io_error, policy_recovery) io) \<Rightarrow> (unicode \<Rightarrow> ('st, io_error, unit) io) \<Rightarrow>
    (unicode \<times> persisted_policy) list \<Rightarrow> nat \<Rightarrow> nat \<Rightarrow> bool \<Rightarrow> ('st, io_error, recovery_outcome) io" where
  "recover_each recover remove [] restored pending running =
     io_return (if running then OwnerStillRunning else if 0 < pending then Deferred restored pending
       else if 0 < restored then Restored restored else NothingToDo)"
| "recover_each recover remove ((name, policy) # rest) restored pending running =
     io_bind (recover policy) (\<lambda>r. case r of
       Postponed \<Rightarrow> recover_each recover remove rest restored (pending + 1) running
     | OwnerRuns \<Rightarrow> recover_each recover remove rest restored pending True
     | Recovered \<Rightarrow> io_bind (remove name) (\<lambda>_. recover_each recover remove rest (restored + 1) pending running))"

definition recover_policies :: "(persisted_policy \<Rightarrow> ('st, io_error, policy_recovery) io) \<Rightarrow> (unicode \<Rightarrow> ('st, io_error, unit) io) \<Rightarrow>
    (unicode \<times> persisted_policy) list \<Rightarrow> ('st, io_error, recovery_outcome) io" where
  "recover_policies recover remove policies = recover_each recover remove policies 0 0 False"

definition recover_orphaned_policy :: "'w win_system \<Rightarrow> (('w, 'z) machine_scheme, io_error, recovery_outcome) io" where
  "recover_orphaned_policy S = io_bind (persisted_policies S) (\<lambda>policies.
     recover_policies (recover_policy S) (remove_policy_value S) policies)"

section \<open>Capturing and enforcing\<close>

definition require_adapter :: "(adapter_identity \<Rightarrow> bool) \<Rightarrow> 'w win_system \<Rightarrow> u32 \<Rightarrow>
    (('w, 'z) machine_scheme, io_error, adapter_identity) io" where
  "require_adapter same S index =
     io_bind (adapter_identity_at S index) (\<lambda>found.
     io_bind (require_some NotFound found) (\<lambda>current.
       if same current then io_return current else io_fail (io_err NotFound)))"

definition require_same_adapter :: "'w win_system \<Rightarrow> interface_snapshot \<Rightarrow> (('w, 'z) machine_scheme, io_error, adapter_identity) io" where
  "require_same_adapter S snapshot = require_adapter (same_adapter_instance (is_adapter snapshot)) S (is_index snapshot)"

definition require_binding_adapter :: "'w win_system \<Rightarrow> win_binding \<Rightarrow> (('w, 'z) machine_scheme, io_error, adapter_identity) io" where
  "require_binding_adapter S b = require_adapter
     (\<lambda>current. matches_current b \<lparr>wb_index = ad_index current, wb_adapter = current, wb_validate = True\<rparr>) S (wb_index b)"

definition capture_family :: "'w win_system \<Rightarrow> win_binding \<Rightarrow> u16 \<Rightarrow>
    (('w, 'z) machine_scheme, io_error, interface_snapshot option) io" where
  "capture_family S b family =
     io_bind (require_binding_adapter S b) (\<lambda>adapter.
     io_bind (persisted_policies S) (\<lambda>policies.
     io_bind (recover_policies (recover_policy S) (remove_policy_value S)
       (filter (\<lambda>(_, p). pp_family p = family \<and> same_recovery_adapter (pp_adapter p) adapter) policies)) (\<lambda>outcome.
     io_bind (case outcome of Deferred _ _ \<Rightarrow> io_fail (io_err NotFound) | OwnerStillRunning \<Rightarrow> io_fail (io_err AlreadyExists)
       | _ \<Rightarrow> io_return ()) (\<lambda>_.
     io_bind (require_binding_adapter S b) (\<lambda>_.
     io_bind (interface_row_for_adapter S adapter family) (\<lambda>found.
     case found of None \<Rightarrow> io_return None | Some row \<Rightarrow>
     io_bind (default_routes_for_adapter S adapter family) (\<lambda>routes.
     io_bind (require_binding_adapter S b) (\<lambda>_.
     io_bind (current_process_owner S) (\<lambda>owner.
     io_bind (io_lift (persisted_routes routes)) (\<lambda>persisted.
     let policy = \<lparr>pp_owner = owner, pp_adapter = adapter, pp_family = family, pp_disable = ir_disable row,
       pp_routes = persisted\<rparr> in
     io_bind (persist_policy S policy) (\<lambda>name.
       io_return (Some \<lparr>is_adapter = adapter, is_index = wb_index b, is_family = family, is_disable = ir_disable row,
         is_routes = routes, is_name = name\<rparr>))))))))))))"

definition disable_default_routes :: "'w win_system \<Rightarrow> adapter_identity \<Rightarrow> u16 \<Rightarrow> (('w, 'z) machine_scheme, io_error, unit) io" where
  "disable_default_routes S adapter family =
     io_bind (interface_row_for_adapter S adapter family) (\<lambda>found.
     io_bind (require_some NotFound found) (\<lambda>row.
       if ir_disable row then io_return ()
       else io_win32 (ws_set_row S (prepare_interface_row_for_set True row))))"

definition verify_enforced_snapshot :: "'w win_system \<Rightarrow> interface_snapshot \<Rightarrow> (('w, 'z) machine_scheme, io_error, unit) io" where
  "verify_enforced_snapshot S snapshot =
     io_bind (require_same_adapter S snapshot) (\<lambda>adapter.
     io_bind (disable_default_routes S adapter (is_family snapshot)) (\<lambda>_.
     io_bind (interface_row_for_adapter S adapter (is_family snapshot)) (\<lambda>found.
     io_bind (require_some NotFound found) (\<lambda>verified.
     io_bind (require OtherKind (ir_disable verified)) (\<lambda>_.
     io_bind (default_routes_for_adapter S adapter (is_family snapshot)) (\<lambda>unexpected.
       require OtherKind (unexpected = [])))))))"

text \<open>A route is deleted only while the table holds exactly the captured routes that are left.\<close>

fun delete_captured :: "'w win_system \<Rightarrow> adapter_identity \<Rightarrow> u16 \<Rightarrow> forward_row list \<Rightarrow> (('w, 'z) machine_scheme, io_error, unit) io" where
  "delete_captured S adapter family [] = io_return ()"
| "delete_captured S adapter family (r # rs) =
     io_bind (io_lift (persisted_routes (r # rs))) (\<lambda>expected_remaining.
     io_bind (default_routes_for_adapter S adapter family) (\<lambda>routes.
     io_bind (io_lift (persisted_routes routes)) (\<lambda>current.
     io_bind (require OtherKind (same_multiset current expected_remaining)) (\<lambda>_.
     io_bind (io_win32 (ws_delete_route S r)) (\<lambda>_. delete_captured S adapter family rs)))))"

definition apply_snapshot :: "'w win_system \<Rightarrow> interface_snapshot \<Rightarrow> (('w, 'z) machine_scheme, io_error, unit) io" where
  "apply_snapshot S snapshot =
     io_bind (require_same_adapter S snapshot) (\<lambda>adapter.
     io_bind (io_lift (persisted_routes (is_routes snapshot))) (\<lambda>captured.
     io_bind (default_routes_for_adapter S adapter (is_family snapshot)) (\<lambda>routes.
     io_bind (io_lift (persisted_routes routes)) (\<lambda>current.
     io_bind (require OtherKind (same_multiset current captured)) (\<lambda>_.
     io_bind (disable_default_routes S adapter (is_family snapshot)) (\<lambda>_.
     io_bind (delete_captured S adapter (is_family snapshot) (is_routes snapshot)) (\<lambda>_.
       verify_enforced_snapshot S snapshot)))))))"

section \<open>The guard\<close>

record 'w route_guard = "'w machine" +
  gd_snapshots :: "interface_snapshot list"

text \<open>The items in the order they are restored; those that failed, and the errors in that order.\<close>

fun restore_all :: "('a \<Rightarrow> ('st, io_error, unit) io) \<Rightarrow> 'a list \<Rightarrow> ('st, io_error, 'a list \<times> io_error list) io" where
  "restore_all restore [] = io_return ([], [])"
| "restore_all restore (x # xs) =
     io_bind (io_attempt (restore x)) (\<lambda>r.
     io_bind (restore_all restore xs) (\<lambda>(failed, errors).
       io_return (case r of Inr _ \<Rightarrow> (failed, errors) | Inl e \<Rightarrow> (x # failed, e # errors))))"

definition rollback_suffix :: "'w win_system \<Rightarrow> nat \<Rightarrow> ('w route_guard, io_error, io_error list) io" where
  "rollback_suffix S start =
     io_bind (io_gets gd_snapshots) (\<lambda>items.
     if length items < start then io_lift Panic else
     io_bind (io_update (gd_snapshots_update (take start))) (\<lambda>_.
     io_bind (restore_all (restore_snapshot S) (rev (drop start items))) (\<lambda>(failed, errors).
     io_bind (io_update (gd_snapshots_update (\<lambda>items. items @ rev failed))) (\<lambda>_. io_return errors))))"

definition errors_to_result :: "io_error list \<Rightarrow> (io_error, unit) outcome" where
  "errors_to_result errors = (case errors of [] \<Rightarrow> Done () | e # _ \<Rightarrow> Fail (io_err (err_kind e)))"

definition guard_restore :: "'w win_system \<Rightarrow> ('w route_guard, io_error, unit) io" where
  "guard_restore S = io_bind (rollback_suffix S 0) (\<lambda>errors. io_lift (errors_to_result errors))"

text \<open>\<open>error_with_rollback\<close> keeps the kind of the first error.\<close>

definition fail_with_rollback :: "'w win_system \<Rightarrow> nat \<Rightarrow> io_error \<Rightarrow> ('w route_guard, io_error, 'a) io" where
  "fail_with_rollback S start e = io_bind (rollback_suffix S start) (\<lambda>_. io_fail (io_err (err_kind e)))"

fun protect_families :: "'w win_system \<Rightarrow> win_binding \<Rightarrow> interface_snapshot list \<Rightarrow> nat \<Rightarrow> u16 list \<Rightarrow>
    ('w route_guard, io_error, unit) io" where
  "protect_families S b already start [] = io_return ()"
| "protect_families S b already start (family # families) =
    (if list_ex (\<lambda>s. is_family s = family) already then protect_families S b already start families else
     io_bind (io_attempt (capture_family S b family)) (\<lambda>captured.
     case captured of
       Inl e \<Rightarrow> fail_with_rollback S start e
     | Inr None \<Rightarrow> protect_families S b already start families
     | Inr (Some snapshot) \<Rightarrow>
         io_bind (io_update (gd_snapshots_update (\<lambda>items. items @ [snapshot]))) (\<lambda>_.
         io_bind (io_attempt (apply_snapshot S snapshot)) (\<lambda>applied.
         case applied of
           Inl e \<Rightarrow> fail_with_rollback S start e
         | Inr _ \<Rightarrow> protect_families S b already start families))))"

fun verify_protected :: "'w win_system \<Rightarrow> win_binding \<Rightarrow> interface_snapshot list \<Rightarrow> ('w route_guard, io_error, unit) io" where
  "verify_protected S b [] = io_return ()"
| "verify_protected S b (s # ss) =
    (if is_index s \<noteq> wb_index b \<or> \<not> same_adapter_instance (is_adapter s) (wb_adapter b) then io_fail (io_err NotFound) else
     io_bind (verify_enforced_snapshot S s) (\<lambda>_. verify_protected S b ss))"

definition protect_interface_inner :: "'w win_system \<Rightarrow> win_binding \<Rightarrow> ('w route_guard, io_error, unit) io" where
  "protect_interface_inner S b =
     io_bind (io_gets gd_snapshots) (\<lambda>items.
     let already = filter (\<lambda>s. is_index s = wb_index b) items in
     io_bind (verify_protected S b already) (\<lambda>_. protect_families S b already (length items) [IPV4, IPV6]))"

definition protect_interface :: "'w win_system \<Rightarrow> win_binding \<Rightarrow> ('w route_guard, io_error, unit) io" where
  "protect_interface S b =
     io_bind (tether_interface_indices S) (\<lambda>indices.
     io_bind (require NotFound (wb_index b \<in> set indices)) (\<lambda>_.
     io_bind (require_binding_adapter S b) (\<lambda>_. protect_interface_inner S b)))"

definition protect_peer :: "'w win_system \<Rightarrow> socket_addr \<Rightarrow> win_binding \<Rightarrow> ('w route_guard, io_error, unit) io" where
  "protect_peer S peer b = io_bind (verify_peer_win S b peer) (\<lambda>_. protect_interface S b)"

fun refresh_each :: "'w win_system \<Rightarrow> interface_snapshot list \<Rightarrow> ('w route_guard, io_error, unit) io" where
  "refresh_each S [] = io_return ()"
| "refresh_each S (s # ss) = io_bind (verify_enforced_snapshot S s) (\<lambda>_. refresh_each S ss)"

definition guard_refresh :: "'w win_system \<Rightarrow> ('w route_guard, io_error, unit) io" where
  "guard_refresh S = io_bind (io_gets gd_snapshots) (refresh_each S)"

definition guard_new :: "'w win_system \<Rightarrow> ('w route_guard, io_error, unit) io" where
  "guard_new S =
     io_bind (recover_orphaned_policy S) (\<lambda>outcome.
     case outcome of
       OwnerStillRunning \<Rightarrow> io_fail (io_err AlreadyExists)
     | _ \<Rightarrow> io_update (gd_snapshots_update (\<lambda>_. [])))"

text \<open>\<open>Drop\<close>: an error is only reported.\<close>

definition guard_drop :: "'w win_system \<Rightarrow> ('w route_guard, io_error, unit) io" where
  "guard_drop S = io_bind (io_attempt (guard_restore S)) (\<lambda>_. io_return ())"

end
