(* ===== verification/World_Runs.thy ===== *)
theory World_Runs
  imports Host_World
begin

text \<open>
  Computations that change nothing but the world: how they keep a condition of it and what their
  results then satisfy. The collection \<open>keep\<close> holds the rules for the operations of a component.
\<close>

section \<open>Computations that keep a condition of the world\<close>

text \<open>How a run that keeps \<open>I\<close> ends: no panic, only the world changed, and a result satisfies \<open>Q\<close>.\<close>

definition ran :: "('w \<Rightarrow> bool) \<Rightarrow> ('a \<Rightarrow> 'w \<Rightarrow> bool) \<Rightarrow> ('w, 'z) machine_scheme \<Rightarrow> ('e, 'a) outcome \<Rightarrow>
    ('w, 'z) machine_scheme \<Rightarrow> bool" where
  "ran I Q st r st' \<longleftrightarrow> r \<noteq> Panic \<and> (\<exists>w. st' = st\<lparr>world := w\<rparr> \<and> I w \<and> (\<forall>x. r = Done x \<longrightarrow> Q x w))"

definition runs :: "('w \<Rightarrow> bool) \<Rightarrow> (('w, 'z) machine_scheme, 'e, 'a) io \<Rightarrow> ('a \<Rightarrow> 'w \<Rightarrow> bool) \<Rightarrow> bool" where
  "runs I m Q \<longleftrightarrow> (\<forall>st. I (world st) \<longrightarrow> io_ends m st (ran I Q st))"

abbreviation keeps :: "('w \<Rightarrow> bool) \<Rightarrow> (('w, 'z) machine_scheme, 'e, 'a) io \<Rightarrow> bool" where
  "keeps I m \<equiv> runs I m (\<lambda>_ _. True)"

lemma ran_same: "I (world st) \<Longrightarrow> r \<noteq> Panic \<Longrightarrow> (\<And>x. r = Done x \<Longrightarrow> Q x (world st)) \<Longrightarrow> ran I Q st r st"
  unfolding ran_def by (intro conjI exI [of _ "world st"]) simp_all

lemma runs_mono: "runs I m Q \<Longrightarrow> (\<And>x w. I w \<Longrightarrow> Q x w \<Longrightarrow> R x w) \<Longrightarrow> runs I m R"
  unfolding runs_def by (intro allI impI, rule io_ends_mono, blast) (fastforce simp: ran_def)

lemma runs_bind:
  fixes m :: "(('w, 'z) machine_scheme, 'e, 'a) io"
  assumes "runs I m Q" and "\<And>x. runs (\<lambda>w. I w \<and> Q x w) (f x) R"
  shows "runs I (io_bind m f) R"
  unfolding runs_def io_ends_bind
proof (intro allI impI)
  fix st :: "('w, 'z) machine_scheme" assume "I (world st)"
  with assms(1) have "io_ends m st (ran I Q st)" by (simp add: runs_def)
  then show "io_ends m st (then_ends f (ran I R st))"
  proof (rule io_ends_mono, goal_cases)
    case (1 r st')
    then obtain w where w: "st' = st\<lparr>world := w\<rparr>" "I w" "\<forall>x. r = Done x \<longrightarrow> Q x w" by (auto simp: ran_def)
    show ?case
    proof (cases r)
      case (Done x)
      with w assms(2) [of x] have "io_ends (f x) st' (ran (\<lambda>w. I w \<and> Q x w) R st')" by (simp add: runs_def)
      then show ?thesis unfolding Done then_ends.simps by (rule io_ends_mono) (auto simp: ran_def w(1))
    qed (use 1 w in \<open>auto simp: ran_def\<close>)
  qed
qed

lemma keep_then: "keeps I m \<Longrightarrow> (\<And>x. runs I (f x) Q) \<Longrightarrow> runs I (io_bind m f) Q"
  by (rule runs_bind [where Q = "\<lambda>_ _. True"]) simp_all

text \<open>A result that is a fact about the world goes on as an assumption.\<close>

lemma runs_then: "runs I m (\<lambda>x _. P x) \<Longrightarrow> (\<And>x. P x \<Longrightarrow> runs I (f x) Q) \<Longrightarrow> runs I (io_bind m f) Q"
  by (rule runs_bind, assumption) (auto simp: runs_def)

lemma runs_return: "(\<And>w. I w \<Longrightarrow> Q x w) \<Longrightarrow> runs I (io_return x) Q"
  by (auto simp: runs_def intro!: ran_same)

lemma runs_fail: "runs I (io_fail e) Q"
  by (auto simp: runs_def intro!: ran_same)

lemma runs_lift: "r \<noteq> Panic \<Longrightarrow> (\<And>x w. r = Done x \<Longrightarrow> I w \<Longrightarrow> Q x w) \<Longrightarrow> runs I (io_lift r) Q"
  by (auto simp: runs_def intro!: ran_same)

lemma runs_world: "(\<And>w. I w \<Longrightarrow> I (snd (f w)) \<and> Q (fst (f w)) (snd (f w))) \<Longrightarrow> runs I (io_world f) Q"
  by (auto simp: runs_def ran_def)

lemma runs_attempt:
  fixes m :: "(('w, 'z) machine_scheme, 'e, 'a) io"
  assumes "runs I m Q"
  shows "runs I (io_attempt m) (\<lambda>r w. case r of Inl _ \<Rightarrow> True | Inr x \<Rightarrow> Q x w)"
  unfolding runs_def io_ends_attempt
proof (intro allI impI)
  fix st :: "('w, 'z) machine_scheme" assume "I (world st)"
  with assms have "io_ends m st (ran I Q st)" by (simp add: runs_def)
  then show "io_ends m st (attempt_of (ran I (\<lambda>r w. case r of Inl _ \<Rightarrow> True | Inr x \<Rightarrow> Q x w) st))"
  proof (rule io_ends_mono, goal_cases)
    case (1 r st')
    then show ?case by (cases r) (auto simp: ran_def)
  qed
qed

text \<open>The rules for computations of which only the condition matters.\<close>

named_theorems keep

lemmas [keep] = runs_return runs_fail

lemma keep_lift [keep]: "r \<noteq> Panic \<Longrightarrow> keeps I (io_lift r)"
  by (rule runs_lift) simp_all

lemma keep_world [keep]: "(\<And>w. I w \<Longrightarrow> I (snd (f w))) \<Longrightarrow> keeps I (io_world f)"
  by (rule runs_world) simp

lemma keep_attempt [keep]: "keeps I m \<Longrightarrow> keeps I (io_attempt m)"
  using runs_attempt [of I m "\<lambda>_ _. True"] by (rule runs_mono) simp_all

text \<open>A loop that waits: each iteration that goes on takes time and began before the deadline.\<close>

lemma runs_loop:
  fixes body :: "'a \<Rightarrow> (('w, 'z) machine_scheme, 'e, ('a, 'b) flow) io" and time :: "'w \<Rightarrow> instant"
  assumes body: "\<And>x t. runs (\<lambda>w. I w \<and> t \<le> time w) (body x)
    (\<lambda>fl w. case fl of Continue y \<Rightarrow> t < time w \<and> t < deadline | Break z \<Rightarrow> Q z w)"
  shows "runs I (io_loop body x) Q"
  unfolding runs_def
proof (intro allI impI)
  fix st :: "('w, 'z) machine_scheme" assume "I (world st)"
  show "io_ends (io_loop body x) st (ran I Q st)"
  proof (rule io_loop_ends [where I = "\<lambda>_ st'. \<exists>w. st' = st\<lparr>world := w\<rparr> \<and> I w"
        and \<mu> = "\<lambda>_ st'. deadline - time (world st')"])
    show "\<exists>w. st = st\<lparr>world := w\<rparr> \<and> I w" using \<open>I (world st)\<close> by (intro exI [of _ "world st"]) simp
  next
    fix x and st1 :: "('w, 'z) machine_scheme" assume "\<exists>w. st1 = st\<lparr>world := w\<rparr> \<and> I w"
    then obtain w where st1: "st1 = st\<lparr>world := w\<rparr>" "I w" by blast
    have "io_ends (body x) st1 (ran (\<lambda>w'. I w' \<and> time w \<le> time w')
        (\<lambda>fl w'. case fl of Continue y \<Rightarrow> time w < time w' \<and> time w < deadline | Break z \<Rightarrow> Q z w') st1)"
      using body [of "time w" x] st1 by (simp add: runs_def)
    then show "io_ends (body x) st1 (iterated (\<lambda>y st'. (\<exists>w. st' = st\<lparr>world := w\<rparr> \<and> I w) \<and>
        deadline - time (world st') < deadline - time (world st1)) (ran I Q st))"
    proof (rule io_ends_mono, goal_cases)
      case (1 r st2)
      then obtain w' where w': "st2 = st\<lparr>world := w'\<rparr>" "I w'" and r: "r \<noteq> Panic"
        "\<forall>fl. r = Done fl \<longrightarrow> (case fl of Continue y \<Rightarrow> time w < time w' \<and> time w < deadline | Break z \<Rightarrow> Q z w')"
        by (auto simp: ran_def st1(1))
      show ?case
      proof (cases r)
        case (Done fl)
        with r w' st1 show ?thesis by (cases fl) (auto simp: ran_def)
      qed (use r w' in \<open>auto simp: ran_def\<close>)
    qed
  qed
qed

section \<open>Conditions that last\<close>

text \<open>A condition that the passing of time does not end.\<close>

definition lasting :: "('w \<Rightarrow> instant) \<Rightarrow> ('w \<Rightarrow> bool) \<Rightarrow> bool" where
  "lasting time I \<longleftrightarrow> (\<forall>w w'. I w \<longrightarrow> time w \<le> time w' \<longrightarrow> I w')"

lemma lastingD: "lasting time I \<Longrightarrow> I w \<Longrightarrow> time w \<le> time w' \<Longrightarrow> I w'"
  by (auto simp: lasting_def)

lemma ran_at: "r \<noteq> Panic \<Longrightarrow> I w \<Longrightarrow> (\<And>x. r = Done x \<Longrightarrow> Q x w) \<Longrightarrow> ran I Q st r (st\<lparr>world := w\<rparr>)"
  unfolding ran_def by (intro conjI exI [of _ w]) simp_all

named_theorems lasts

lemma lasting_during: "lasting time (\<lambda>w. \<exists>w'. t \<le> time w' \<and> time w' \<le> time w \<and> R w')"
  unfolding lasting_def by (blast intro: order_trans)

lemma lasting_basic:
  "lasting time (\<lambda>w. b)" "lasting time (\<lambda>w. t \<le> time w)" "lasting time (\<lambda>w. t < time w)"
  "lasting time I \<Longrightarrow> lasting time J \<Longrightarrow> lasting time (\<lambda>w. I w \<and> J w)"
  "(\<And>x. lasting time (P x)) \<Longrightarrow> lasting time (\<lambda>w. \<forall>x. P x w)"
  "(\<And>x. lasting time (P x)) \<Longrightarrow> lasting time (\<lambda>w. \<exists>x. P x w)"
  "lasting time J \<Longrightarrow> lasting time (\<lambda>w. b \<longrightarrow> J w)"
  "lasting time I \<Longrightarrow> lasting time J \<Longrightarrow> lasting time (\<lambda>w. I w \<or> J w)"
  unfolding lasting_def by fastforce+

lemmas [lasts] = lasting_during lasting_basic

end
