(* ===== verification/Route_Policy_Safety.thy ===== *)
theory Route_Policy_Safety
  imports Route_Policy World_Runs "HOL-Library.Multiset"
begin

text \<open>
  What the Windows routing policy guarantees, against what Windows promises (an entry of the journal is
  written when the call says so, a call has no other effect than its own): a default route is deleted
  only while the journal holds it; the journal reads back exactly what was written; the restore plan is
  exact on multisets; and the deleted IPv6 routes are not restored.
\<close>

section \<open>What the calls keep\<close>

text \<open>\<open>I\<close> is kept by every call but the deletion of a route and the changes of the journal.\<close>

definition steady :: "'w win_system \<Rightarrow> ('w \<Rightarrow> bool) \<Rightarrow> bool" where
  "steady S I \<longleftrightarrow> (\<forall>w. I w \<longrightarrow> I (snd (ws_adapters S w)) \<and> (\<forall>p. I (snd (ws_best_interface S p w))) \<and>
     (\<forall>r. I (snd (ws_get_row S r w))) \<and> (\<forall>r. I (snd (ws_set_row S r w))) \<and> (\<forall>f. I (snd (ws_table S f w))) \<and>
     (\<forall>r. I (snd (ws_create_route S r w))) \<and> I (snd (ws_create_key S w)) \<and> I (snd (ws_open_key S w)) \<and>
     I (snd (ws_value_count S w)) \<and> (\<forall>i. I (snd (ws_enum_value S i w))) \<and> (\<forall>n. I (snd (ws_query S n w))) \<and>
     I (snd (ws_flush S w)) \<and> (\<forall>k. I (snd (ws_open_tcpip S k w))) \<and> (\<forall>k n. I (snd (ws_query_tcpip S k n w))) \<and>
     I (snd (ws_image S w)) \<and> (\<forall>p. I (snd (ws_open_process S p w))) \<and> (\<forall>h. I (snd (ws_creation S h w))) \<and>
     (\<forall>h. I (snd (ws_process_image S h w))) \<and> (\<forall>h. I (snd (ws_exit_code S h w))))"

lemma steadyD:
  assumes "steady S I" and "I w"
  shows "I (snd (ws_adapters S w))" "I (snd (ws_best_interface S p w))" "I (snd (ws_get_row S r w))"
    "I (snd (ws_set_row S r w))" "I (snd (ws_table S f w))" "I (snd (ws_create_route S q w))" "I (snd (ws_create_key S w))"
    "I (snd (ws_open_key S w))" "I (snd (ws_value_count S w))" "I (snd (ws_enum_value S i w))" "I (snd (ws_query S n w))"
    "I (snd (ws_flush S w))" "I (snd (ws_open_tcpip S k w))" "I (snd (ws_query_tcpip S k m w))" "I (snd (ws_image S w))"
    "I (snd (ws_open_process S pid w))" "I (snd (ws_creation S h w))" "I (snd (ws_process_image S h w))"
    "I (snd (ws_exit_code S h w))"
  using assms by (simp_all add: steady_def)

lemma check_win32_total: "check_win32 result \<noteq> Panic"
  by (simp add: check_win32_def)

lemma persisted_routes_total: "persisted_routes rs \<noteq> Panic"
  by (induction rs) (auto split: option.split simp: and_then_Panic)

lemma restore_rows_total: "restore_rows S ps a f \<noteq> Panic"
  by (induction ps) (auto simp: and_then_Panic restore_route_row_def Let_def)

lemma match_details_total: "match_details e ds m \<noteq> Panic"
  by (induction ds arbitrary: m) auto

lemma decode_policy_total: "decode_policy S bs \<noteq> Panic"
  by (auto simp: decode_policy_def Let_def and_then_Panic split: option.split)

lemma encode_policy_total: "encode_policy S p \<noteq> Panic"
  by (auto simp: encode_policy_def Let_def split: option.split)

lemmas totals = check_win32_total persisted_routes_total restore_rows_total match_details_total decode_policy_total
  encode_policy_total

lemma routes_keep_win32 [keep]: "(\<And>w. I w \<Longrightarrow> I (snd (f w))) \<Longrightarrow> keeps I (io_win32 f)"
  unfolding io_win32_def by (auto intro!: keep_then keep totals)

lemma runs_check: "(result = 0 \<Longrightarrow> runs I m Q) \<Longrightarrow> runs I (io_bind (io_lift (check_win32 result)) (\<lambda>_. m)) Q"
  by (rule runs_then [where P = "\<lambda>_. result = 0"], rule runs_lift) (auto simp: check_win32_def split: if_splits)

lemma routes_keep_result [keep]: "(\<And>w. I w \<Longrightarrow> I (snd (f w))) \<Longrightarrow> keeps I (io_result f)"
  unfolding io_result_def by (auto intro!: keep_then keep split: sum.split)

lemma routes_keep_require [keep]: "keeps I (require k b)" "keeps I (require_some k x)"
  unfolding require_def require_some_def by (auto intro!: keep split: option.split)

text \<open>The operations that only look, and those that also set an interface row or create a route.\<close>

lemma routes_keep_adapters [keep]:
  assumes "steady S I"
  shows "keeps I (adapter_addresses S)" "keeps I (tether_adapters S)" "keeps I (tether_interface_indices S)"
    "keeps I (current_tether_snapshot S)" "keeps I (all_adapter_details S)" "keeps I (adapter_details S index)"
    "keeps I (adapter_identity_at S index)" "keeps I (adapter_details_for_identity S e)"
  unfolding tether_interface_indices_def current_tether_snapshot_def tether_adapters_def adapter_identity_at_def
    adapter_details_def adapter_details_for_identity_def all_adapter_details_def adapter_addresses_def
  by (auto intro!: keep_then keep totals steadyD [OF assms])

lemma routes_keep_binding [keep]:
  assumes "steady S I"
  shows "keeps I (interface_index_for_peer S peer)" "keeps I (current_tether_binding_win S p)" "keeps I (verify_peer_win S b p)"
proof -
  show index: "keeps I (interface_index_for_peer S peer)" for peer
    unfolding interface_index_for_peer_def by (auto intro!: keep_then keep totals steadyD [OF assms])
  show binding: "keeps I (current_tether_binding_win S p)"
    unfolding current_tether_binding_win_def by (auto intro!: keep_then keep index assms split: option.split)
  show "keeps I (verify_peer_win S b p)"
    unfolding verify_peer_win_def by (auto intro!: keep_then keep binding split: option.split)
qed

lemma routes_keep_gateways [keep]:
  assumes "steady S I"
  shows "keeps I (read_registry_strings S k n)" "keeps I (configured_gateways S a f)"
proof -
  show strings: "keeps I (read_registry_strings S k n)" for k n
    unfolding read_registry_strings_def Let_def by (auto intro!: keep_then keep totals steadyD [OF assms])
  show "keeps I (configured_gateways S a f)"
    unfolding configured_gateways_def Let_def by (auto intro!: keep_then keep totals strings steadyD [OF assms])
qed

lemma routes_keep_rows [keep]:
  assumes "steady S I"
  shows "keeps I (interface_row_for_adapter S a f)" "keeps I (default_routes_for_adapter S a f)"
  unfolding interface_row_for_adapter_def interface_row_def default_routes_for_adapter_def default_routes_def
  by (auto intro!: keep_then keep steadyD [OF assms] split: option.split)

lemma routes_keep_flags [keep]:
  assumes "steady S I"
  shows "keeps I (restore_interface_flag S a f d)" "keeps I (restore_owned_interface_flag S a f d)"
    "keeps I (disable_default_routes S a f)"
  unfolding restore_owned_interface_flag_def restore_interface_flag_def disable_default_routes_def
  by (auto intro!: keep_then keep assms steadyD [OF assms])

lemma routes_keep_journal_reads [keep]:
  assumes "steady S I"
  shows "keeps I (open_policy_key S)" "keeps I (read_policy_value S n)" "keeps I (enum_policies S is ps)"
    "keeps I (persisted_policies S)" "keeps I (current_process_owner S)" "keeps I (process_owner_is_running S owner)"
proof -
  show op: "keeps I (open_policy_key S)"
    unfolding open_policy_key_def by (auto intro!: keep_then keep totals steadyD [OF assms])
  show "keeps I (read_policy_value S n)"
    unfolding read_policy_value_def Let_def by (auto intro!: keep_then keep totals steadyD [OF assms])
  show enum: "keeps I (enum_policies S is ps)" for "is" ps
  proof (induction "is" arbitrary: ps)
    case (Cons i "is")
    then show ?case by (auto simp: Let_def intro!: keep_then keep totals steadyD [OF assms])
  qed (simp add: keep)
  show "keeps I (persisted_policies S)"
    unfolding persisted_policies_def by (auto intro!: keep_then keep totals op enum steadyD [OF assms])
  show "keeps I (current_process_owner S)" "keeps I (process_owner_is_running S owner)"
    unfolding current_process_owner_def process_owner_is_running_def
    by (auto intro!: keep_then keep steadyD [OF assms] split: sum.split)
qed

lemma routes_keep_identity [keep]:
  assumes "steady S I"
  shows "keeps I (require_same_adapter S s)" "keeps I (require_binding_adapter S b)"
  unfolding require_same_adapter_def require_binding_adapter_def require_adapter_def
  by (auto intro!: keep_then keep assms)

lemma routes_keep_verify [keep]:
  assumes "steady S I"
  shows "keeps I (verify_enforced_snapshot S s)"
  unfolding verify_enforced_snapshot_def by (auto intro!: keep_then keep assms)

text \<open>The indices a restore goes through are indices of the captured routes.\<close>

lemma match_original_length: "match_original x us cs = Some us' \<Longrightarrow> length us' = length us"
  by (induction x us cs arbitrary: us' rule: match_original.induct) (auto split: if_splits)

lemma match_all_length: "match_all xs us cs = Some us' \<Longrightarrow> length us' = length us"
  by (induction xs us cs arbitrary: us' rule: match_all.induct) (auto dest: match_original_length split: bind_splits)

lemma missing_indices_bound: "missing_original_indices xs ys = Some missing \<Longrightarrow> i \<in> set missing \<Longrightarrow> i < length ys"
  by (auto simp: missing_original_indices_def dest: match_all_length)

lemma routes_keep_create [keep]:
  assumes "steady S I" and "\<forall>i\<in>set missing. i < length rows"
  shows "keeps I (create_missing S rows gateways configured missing keys)"
  using assms(2)
proof (induction missing arbitrary: keys)
  case (Cons i "is")
  then show ?case
    by (auto intro!: keep_then keep steadyD [OF assms(1)] split: prod.split option.split captured_gateway.split)
qed (simp add: keep)

lemma routes_keep_restore_routes [keep]:
  assumes "steady S I"
  shows "keeps I (restore_routes S a g f current rows)"
  unfolding restore_routes_def
  by (auto intro!: keep_then keep assms split: option.split dest: missing_indices_bound)

lemma routes_keep_remove:
  assumes "steady S I" and "\<And>n w. I w \<Longrightarrow> I (snd (ws_delete_value S n w))"
  shows "keeps I (remove_policy_value S n)"
  unfolding remove_policy_value_def by (auto intro!: keep_then keep totals assms steadyD [OF assms(1)])

lemma routes_keep_recover_policy [keep]:
  assumes "steady S I"
  shows "keeps I (recover_policy S p)"
  unfolding recover_policy_def Let_def by (auto intro!: keep_then keep totals assms split: option.split)

lemma routes_keep_recover_each:
  assumes "\<And>p. keeps I (recover p)" and "\<And>n. keeps I (remove n)"
  shows "keeps I (recover_each recover remove ps restored pending running)"
proof (induction ps arbitrary: restored pending running)
  case (Cons x ps)
  then show ?case using assms by (cases x) (auto intro!: keep_then split: policy_recovery.split)
qed (simp add: keep)

lemma routes_keep_recover:
  assumes "steady S I" and "\<And>n w. I w \<Longrightarrow> I (snd (ws_delete_value S n w))"
  shows "keeps I (recover_policies (recover_policy S) (remove_policy_value S) ps)" "keeps I (recover_orphaned_policy S)"
  unfolding recover_orphaned_policy_def recover_policies_def
  by (auto intro!: keep_then keep routes_keep_recover_each routes_keep_remove assms)

lemma routes_keep_restore_snapshot:
  assumes "steady S I" and "\<And>n w. I w \<Longrightarrow> I (snd (ws_delete_value S n w))"
  shows "keeps I (restore_snapshot S s)"
  unfolding restore_snapshot_def
  by (auto intro!: keep_then keep totals routes_keep_remove assms split: option.split)

section \<open>The journal round trip\<close>

definition json_ok :: "'w win_system \<Rightarrow> bool" where
  "json_ok S \<longleftrightarrow> (\<forall>p bs. js_encode S p = Some bs \<longrightarrow> js_decode S bs = Some p)"

lemma policy_decodes:
  assumes "json_ok S" and "encode_policy S p = Done bs"
  shows "decode_policy S bs = Done p"
proof -
  obtain payload where payload: "js_encode S p = Some payload" "length payload < 2 ^ 32"
    and bs: "bs = (let body = POLICY_MAGIC @ le_u32 POLICY_VERSION @ le_u32 (of_nat (length payload)) @ payload in body @ le_u32 (crc32 body))"
    using assms(2) by (auto simp: encode_policy_def Let_def split: option.splits if_splits)
  let ?size = "le_u32 (of_nat (length payload))" and ?v = "le_u32 POLICY_VERSION"
  let ?body = "POLICY_MAGIC @ ?v @ ?size @ payload"
  have [simp]: "length POLICY_MAGIC = 4" "length ?v = 4" "length ?size = 4" by (simp_all add: POLICY_MAGIC_def ascii_def)
  have n: "length bs = 16 + length payload" by (simp add: bs Let_def)
  have parts: "take 4 bs = POLICY_MAGIC" "sub_bytes 4 4 bs = ?v" "sub_bytes 8 4 bs = ?size" "sub_bytes 12 (length payload) bs = payload"
    "take (12 + length payload) bs = ?body" "sub_bytes (12 + length payload) 4 bs = le_u32 (crc32 ?body)"
    by (simp_all add: bs Let_def sub_bytes_def)
  have size: "unat (of_nat (length payload) :: u32) = length payload"
    using payload(2) by (simp add: unat_of_nat take_bit_nat_eq_self)
  have "js_decode S payload = Some p" using assms(1) payload(1) by (simp add: json_ok_def)
  with n parts size show ?thesis by (simp add: decode_policy_def Let_def u32_le.dec_enc)
qed

section \<open>What Windows promises\<close>

text \<open>
  What an observer sees: the journal as it is in the registry, and for each deleted route the journal
  at that moment. Nobody else writes the entries of the journal: their names hold the process.
\<close>

record 'w win_view =
  wv_log :: "'w \<Rightarrow> (forward_row \<times> (unicode \<Rightarrow> bytes option)) list"
  wv_journal :: "'w \<Rightarrow> unicode \<Rightarrow> bytes option"

definition windows_ok :: "'w win_view \<Rightarrow> 'w win_system \<Rightarrow> bool" where
  "windows_ok V S \<longleftrightarrow>
     (\<forall>l J. steady S (\<lambda>w. wv_log V w = l \<and> wv_journal V w = J)) \<and>
     (\<forall>n w t bs w'. ws_query S n w = ((0, t, bs), w') \<longrightarrow> wv_journal V w n = Some bs) \<and>
     (\<forall>n bs w. wv_log V (snd (ws_set_value S n bs w)) = wv_log V w \<and>
        wv_journal V (snd (ws_set_value S n bs w)) \<in> {wv_journal V w, (wv_journal V w)(n \<mapsto> bs)} \<and>
        (fst (ws_set_value S n bs w) = 0 \<longrightarrow> wv_journal V (snd (ws_set_value S n bs w)) n = Some bs)) \<and>
     (\<forall>n w. wv_log V (snd (ws_delete_value S n w)) = wv_log V w) \<and>
     (\<forall>r w. wv_journal V (snd (ws_delete_route S r w)) = wv_journal V w \<and>
        wv_log V (snd (ws_delete_route S r w)) \<in> {wv_log V w, wv_log V w @ [(r, wv_journal V w)]})"

text \<open>A deleted route is in a policy that the journal holds and that a recovery can read.\<close>

definition holds_route :: "persisted_policy \<Rightarrow> forward_row \<Rightarrow> bool" where
  "holds_route p r \<longleftrightarrow> (\<exists>q \<in> set (pp_routes p). persist_route r = Some q) \<and> fr_prefix_length r = 0 \<and>
     fr_index r = ad_index (pp_adapter p) \<and> fr_luid r = ad_luid (pp_adapter p)"

definition journaled :: "'w win_system \<Rightarrow> forward_row \<times> (unicode \<Rightarrow> bytes option) \<Rightarrow> bool" where
  "journaled S = (\<lambda>(r, J). \<exists>p bs. J (policy_name p) = Some bs \<and> decode_policy S bs = Done p \<and> holds_route p r)"

definition logged :: "'w win_view \<Rightarrow> 'w win_system \<Rightarrow> (forward_row \<times> (unicode \<Rightarrow> bytes option)) list \<Rightarrow> 'w \<Rightarrow> bool" where
  "logged V S l w \<longleftrightarrow> (\<exists>new. wv_log V w = l @ new \<and> list_all (journaled S) new)"

definition entry :: "'w win_view \<Rightarrow> 'w win_system \<Rightarrow> persisted_policy \<Rightarrow> 'w \<Rightarrow> bool" where
  "entry V S p w \<longleftrightarrow> (\<exists>bs. wv_journal V w (policy_name p) = Some bs \<and> decode_policy S bs = Done p)"

lemma steady_of_view:
  assumes "windows_ok V S" and "\<And>w w'. wv_log V w' = wv_log V w \<Longrightarrow> wv_journal V w' = wv_journal V w \<Longrightarrow> I w \<Longrightarrow> I w'"
  shows "steady S I"
proof -
  have same: "steady S (\<lambda>w. wv_log V w = l \<and> wv_journal V w = J)" for l J using assms(1) by (simp add: windows_ok_def)
  show ?thesis
    unfolding steady_def by (intro allI impI conjI; rule assms(2) [rotated 2], assumption) (simp_all add: steadyD [OF same])
qed

lemma steady_logged: "windows_ok V S \<Longrightarrow> steady S (logged V S l)"
  unfolding logged_def by (erule steady_of_view) (metis (no_types))

lemma steady_entry: "windows_ok V S \<Longrightarrow> steady S (\<lambda>w. logged V S l w \<and> entry V S p w)"
  unfolding logged_def entry_def by (erule steady_of_view) (metis (no_types))

lemma logged_journal_writes:
  assumes "windows_ok V S" and "logged V S l w"
  shows "logged V S l (snd (ws_delete_value S n w))" "logged V S l (snd (ws_set_value S n bs w))"
  using assms by (simp_all add: windows_ok_def logged_def)

lemma deletion_logged:
  assumes "windows_ok V S" and "logged V S l w" and "entry V S p w" and "holds_route p r"
  shows "logged V S l (snd (ws_delete_route S r w)) \<and> entry V S p (snd (ws_delete_route S r w))"
proof -
  have "wv_journal V (snd (ws_delete_route S r w)) = wv_journal V w"
    and "wv_log V (snd (ws_delete_route S r w)) \<in> {wv_log V w, wv_log V w @ [(r, wv_journal V w)]}"
    using assms(1) by (simp_all add: windows_ok_def)
  moreover have "journaled S (r, wv_journal V w)" using assms(3,4) by (auto simp: journaled_def entry_def)
  ultimately show ?thesis using assms(2,3) by (auto simp: logged_def entry_def)
qed

section \<open>A route is deleted only while the journal holds it\<close>

lemma persisted_routes_hold:
  "persisted_routes rs = Done ps \<Longrightarrow> r \<in> set rs \<Longrightarrow> \<exists>q \<in> set ps. persist_route r = Some q"
  by (induction rs arbitrary: ps) (auto simp: and_then_Done split: option.splits)

lemma default_routes_match:
  assumes "steady S I"
  shows "runs I (default_routes_for_adapter S a f) (\<lambda>rs _. \<forall>r\<in>set rs. fr_prefix_length r = 0 \<and> fr_index r = ad_index a \<and> fr_luid r = ad_luid a)"
proof -
  have "runs I (default_routes S (ad_index a) f) (\<lambda>rs _. \<forall>r\<in>set rs. fr_prefix_length r = 0 \<and> fr_index r = ad_index a)"
    unfolding default_routes_def by (auto intro!: keep_then keep steadyD [OF assms])
  then show ?thesis
    unfolding default_routes_for_adapter_def
    by (rule runs_then) (auto intro!: keep simp: list_all_iff interface_identity_matches_def)
qed

lemma persist_policy_entry:
  assumes W: "windows_ok V S" and "json_ok S"
  shows "runs (logged V S l) (persist_policy S p) (\<lambda>n w. n = policy_name p \<and> entry V S p w)"
proof -
  let ?I = "logged V S l" and ?n = "policy_name p"
  note st = steady_logged [OF W, of l]
  have query: "runs ?I (io_world (ws_query S n)) (\<lambda>x w. fst x = 0 \<longrightarrow> wv_journal V w n = Some (snd (snd x)))" for n
  proof (rule runs_world)
    fix w assume "?I w"
    have same: "steady S (\<lambda>w'. wv_log V w' = wv_log V w \<and> wv_journal V w' = wv_journal V w)"
      using W by (simp add: windows_ok_def)
    have "wv_journal V (snd (ws_query S n w)) = wv_journal V w" using steadyD(11) [OF same] by simp
    moreover have "fst (fst (ws_query S n w)) = 0 \<longrightarrow> wv_journal V w n = Some (snd (snd (fst (ws_query S n w))))"
      using W by (cases "ws_query S n w") (auto simp: windows_ok_def)
    ultimately show "?I (snd (ws_query S n w)) \<and> (fst (fst (ws_query S n w)) = 0 \<longrightarrow>
        wv_journal V (snd (ws_query S n w)) n = Some (snd (snd (fst (ws_query S n w)))))"
      using steadyD(11) [OF st \<open>?I w\<close>] by simp
  qed
  have read: "runs ?I (read_policy_value S n) (\<lambda>found w. \<forall>bs. found = Some bs \<longrightarrow> wv_journal V w n = Some bs)" for n
  proof -
    have last: "runs ?I (io_bind (io_world (ws_query S n)) (\<lambda>(result, value_type, encoded).
        io_bind (io_lift (check_win32 result)) (\<lambda>_. io_bind (require InvalidData (value_type = 3)) (\<lambda>_. io_return (Some encoded)))))
      (\<lambda>found w. \<forall>bs. found = Some bs \<longrightarrow> wv_journal V w n = Some bs)"
      by (rule runs_bind [OF query])
        (auto intro!: runs_check keep_then [OF routes_keep_require(1)] runs_return)
    show ?thesis
      unfolding read_policy_value_def Let_def
      by (auto intro!: keep_then keep last totals steadyD [OF st])
  qed
  have store: "runs ?I (io_win32 (ws_set_value S ?n bs)) (\<lambda>_ _. True)" for bs
    using logged_journal_writes(2) [OF W] by (intro routes_keep_win32)
  show ?thesis
    unfolding persist_policy_def Let_def
  proof (rule runs_then [OF runs_lift, where P = "\<lambda>bs. encode_policy S p = Done bs"])
    fix bs assume bs: "encode_policy S p = Done bs"
    note decodes = policy_decodes [OF \<open>json_ok S\<close> bs]
    have existing: "runs (\<lambda>w. ?I w \<and> (\<forall>bs. Some old = Some bs \<longrightarrow> wv_journal V w ?n = Some bs))
        (io_bind (io_lift (decode_policy S old)) (\<lambda>e. if e = p then io_return ?n else io_fail (io_err AlreadyExists)))
        (\<lambda>n w. n = ?n \<and> entry V S p w)" for old
      by (rule runs_then [OF runs_lift, where P = "\<lambda>e. decode_policy S old = Done e"])
        (auto intro!: runs_return runs_fail totals simp: entry_def)
    have fresh: "runs ?I (io_bind (io_win32 (ws_set_value S ?n bs)) (\<lambda>_. io_bind (io_win32 (ws_flush S)) (\<lambda>_.
        io_bind (read_policy_value S ?n) (\<lambda>found. if found \<noteq> Some bs then io_fail (io_err OtherKind) else io_return ?n))))
        (\<lambda>n w. n = ?n \<and> entry V S p w)"
      by (intro keep_then [OF store] keep_then [OF routes_keep_win32] steadyD [OF st] runs_bind [OF read])
        (auto intro!: runs_return runs_fail simp: entry_def decodes)
    show "runs ?I (io_bind (io_win32 (ws_create_key S)) (\<lambda>_. io_bind (read_policy_value S ?n) (\<lambda>existing. case existing of
        Some old \<Rightarrow> io_bind (io_lift (decode_policy S old)) (\<lambda>e. if e = p then io_return ?n else io_fail (io_err AlreadyExists))
      | None \<Rightarrow> if 2 ^ 32 \<le> length bs then io_fail (io_err InvalidData) else
          io_bind (io_win32 (ws_set_value S ?n bs)) (\<lambda>_. io_bind (io_win32 (ws_flush S)) (\<lambda>_. io_bind (read_policy_value S ?n)
            (\<lambda>found. if found \<noteq> Some bs then io_fail (io_err OtherKind) else io_return ?n))))) )
        (\<lambda>n w. n = ?n \<and> entry V S p w)"
      by (intro keep_then [OF routes_keep_win32] steadyD [OF st] runs_bind [OF read])
        (auto split: option.split intro!: existing [simplified] runs_fail fresh)
  qed (simp_all add: totals)
qed

text \<open>What a captured family leaves: its routes are in an entry of the journal.\<close>

definition captured :: "'w win_view \<Rightarrow> 'w win_system \<Rightarrow> interface_snapshot \<Rightarrow> 'w \<Rightarrow> bool" where
  "captured V S s w \<longleftrightarrow> (\<exists>p. entry V S p w \<and> (\<forall>r\<in>set (is_routes s). holds_route p r))"

lemma routes_keep_capture:
  assumes W: "windows_ok V S" and J: "json_ok S"
  shows "runs (logged V S l) (capture_family S b f) (\<lambda>found w. \<forall>s. found = Some s \<longrightarrow> captured V S s w)"
proof -
  let ?I = "logged V S l"
  note st = steady_logged [OF W, of l]
  note recover = routes_keep_recover(1) [OF st logged_journal_writes(1) [OF W]]
  have persisted: "runs ?I (io_bind (persist_policy S p) (\<lambda>name. io_return (Some \<lparr>is_adapter = pp_adapter p, is_index = i,
      is_family = f, is_disable = d, is_routes = routes, is_name = name\<rparr>))) (\<lambda>found w. \<forall>s. found = Some s \<longrightarrow> captured V S s w)"
    if "\<forall>r\<in>set routes. holds_route p r" for p i d routes
    by (rule runs_bind [OF persist_policy_entry [OF W J]]) (use that in \<open>auto intro!: runs_return simp: captured_def\<close>)
  have routes: "runs ?I (io_bind (default_routes_for_adapter S a f) (\<lambda>routes.
     io_bind (require_binding_adapter S b) (\<lambda>_. io_bind (current_process_owner S) (\<lambda>owner.
     io_bind (io_lift (persisted_routes routes)) (\<lambda>persisted.
     let policy = \<lparr>pp_owner = owner, pp_adapter = a, pp_family = f, pp_disable = d, pp_routes = persisted\<rparr> in
     io_bind (persist_policy S policy) (\<lambda>name. io_return (Some \<lparr>is_adapter = a, is_index = wb_index b, is_family = f,
       is_disable = d, is_routes = routes, is_name = name\<rparr>)))))))
     (\<lambda>found w. \<forall>s. found = Some s \<longrightarrow> captured V S s w)" for a d
  proof (rule runs_then [OF default_routes_match [OF st]], rule keep_then [OF routes_keep_identity(2) [OF st]],
      rule keep_then [OF routes_keep_journal_reads(5) [OF st]])
    fix routes :: "forward_row list" and current :: adapter_identity and owner
    assume match: "\<forall>r\<in>set routes. fr_prefix_length r = 0 \<and> fr_index r = ad_index a \<and> fr_luid r = ad_luid a"
    show "runs ?I (io_bind (io_lift (persisted_routes routes)) (\<lambda>persisted.
     let policy = \<lparr>pp_owner = owner, pp_adapter = a, pp_family = f, pp_disable = d, pp_routes = persisted\<rparr> in
     io_bind (persist_policy S policy) (\<lambda>name. io_return (Some \<lparr>is_adapter = a, is_index = wb_index b, is_family = f,
       is_disable = d, is_routes = routes, is_name = name\<rparr>)))) (\<lambda>found w. \<forall>s. found = Some s \<longrightarrow> captured V S s w)"
    proof (rule runs_then [OF runs_lift, where P = "\<lambda>ps. persisted_routes routes = Done ps"])
      fix ps assume "persisted_routes routes = Done ps"
      with match show "runs ?I (let policy = \<lparr>pp_owner = owner, pp_adapter = a, pp_family = f, pp_disable = d, pp_routes = ps\<rparr> in
        io_bind (persist_policy S policy) (\<lambda>name. io_return (Some \<lparr>is_adapter = a, is_index = wb_index b, is_family = f,
          is_disable = d, is_routes = routes, is_name = name\<rparr>))) (\<lambda>found w. \<forall>s. found = Some s \<longrightarrow> captured V S s w)"
        using persisted [of routes "\<lparr>pp_owner = owner, pp_adapter = a, pp_family = f, pp_disable = d, pp_routes = ps\<rparr>" "wb_index b" d]
        by (auto simp: Let_def holds_route_def dest: persisted_routes_hold)
    qed (simp_all add: totals)
  qed
  show ?thesis
    unfolding capture_family_def
    by (intro keep_then routes_keep_identity [OF st] routes_keep_journal_reads [OF st] recover routes_keep_rows [OF st])
      (auto intro!: keep routes [unfolded Let_def] simp: Let_def split: option.split recovery_outcome.split)
qed

lemma runs_ex:
  fixes m :: "(('w, 'z) machine_scheme, 'e, 'a) io"
  assumes "\<And>x. C x \<Longrightarrow> runs (\<lambda>w. I w \<and> P x w) m Q"
  shows "runs (\<lambda>w. I w \<and> (\<exists>x. P x w \<and> C x)) m Q"
  unfolding runs_def
proof (intro allI impI)
  fix st :: "('w, 'z) machine_scheme" assume "I (world st) \<and> (\<exists>x. P x (world st) \<and> C x)"
  then obtain x where x: "I (world st)" "P x (world st)" "C x" by blast
  with assms have "io_ends m st (ran (\<lambda>w. I w \<and> P x w) Q st)" by (simp add: runs_def)
  then show "io_ends m st (ran (\<lambda>w. I w \<and> (\<exists>x. P x w \<and> C x)) Q st)"
    by (rule io_ends_mono) (use x in \<open>auto simp: ran_def\<close>)
qed

lemma routes_keep_delete:
  assumes W: "windows_ok V S" and "\<forall>r\<in>set rs. holds_route p r"
  shows "keeps (\<lambda>w. logged V S l w \<and> entry V S p w) (delete_captured S a f rs)"
  using assms(2)
proof (induction rs)
  case (Cons r rs)
  note st = steady_entry [OF W, of l p]
  have delete: "keeps (\<lambda>w. logged V S l w \<and> entry V S p w) (io_win32 (ws_delete_route S r))"
  proof (rule routes_keep_win32)
    show "logged V S l (snd (ws_delete_route S r w)) \<and> entry V S p (snd (ws_delete_route S r w))"
      if "logged V S l w \<and> entry V S p w" for w
      using deletion_logged [OF W, of l w p r] that Cons.prems by simp
  qed
  show ?case
    using Cons by (auto simp del: persisted_routes.simps intro!: keep_then keep totals delete st)
qed (simp add: keep)

lemma routes_keep_apply:
  assumes W: "windows_ok V S"
  shows "keeps (\<lambda>w. logged V S l w \<and> captured V S s w) (apply_snapshot S s)"
proof -
  have "keeps (\<lambda>w. logged V S l w \<and> entry V S p w) (apply_snapshot S s)" if "\<forall>r\<in>set (is_routes s). holds_route p r" for p
    unfolding apply_snapshot_def
    using steady_entry [OF W, of l p] by (auto intro!: keep_then keep totals routes_keep_delete [OF W] simp: that)
  then show ?thesis unfolding captured_def by (intro runs_ex)
qed

section \<open>Every use of the guard\<close>

definition guarded :: "'w win_view \<Rightarrow> 'w win_system \<Rightarrow> (forward_row \<times> (unicode \<Rightarrow> bytes option)) list \<Rightarrow> nat \<Rightarrow>
    ('e, 'a) outcome \<Rightarrow> 'w route_guard \<Rightarrow> bool" where
  "guarded V S l n r st \<longleftrightarrow> r \<noteq> Panic \<and> logged V S l (world st) \<and> n \<le> length (gd_snapshots st)"

lemma guarded_runs:
  assumes "runs (logged V S l) m Q" and "logged V S l (world st)" and "n \<le> length (gd_snapshots st)"
  shows "io_ends m st (\<lambda>r st'. guarded V S l n r st' \<and> (\<forall>x. r = Done x \<longrightarrow> Q x (world st')))"
proof -
  have "io_ends m st (ran (logged V S l) Q st)" using assms(1,2) by (simp add: runs_def)
  then show ?thesis by (rule io_ends_mono) (use assms(3) in \<open>auto simp: ran_def guarded_def\<close>)
qed

lemma guarded_bind:
  assumes "io_ends m st (\<lambda>r st'. guarded V S l n r st' \<and> (\<forall>x. r = Done x \<longrightarrow> Q x st'))"
    and "\<And>x st'. logged V S l (world st') \<Longrightarrow> n \<le> length (gd_snapshots st') \<Longrightarrow> Q x st' \<Longrightarrow> io_ends (f x) st' (guarded V S l n)"
  shows "io_ends (io_bind m f) st (guarded V S l n)"
  unfolding io_ends_bind
proof (rule io_ends_mono [OF assms(1)], goal_cases)
  case (1 r st')
  then show ?case using assms(2) by (cases r) (auto simp: guarded_def)
qed

lemma guarded_keeps:
  assumes "keeps (logged V S l) m" and "logged V S l (world st)" and "n \<le> length (gd_snapshots st)"
    and "\<And>x st'. logged V S l (world st') \<Longrightarrow> n \<le> length (gd_snapshots st') \<Longrightarrow> io_ends (f x) st' (guarded V S l n)"
  shows "io_ends (io_bind m f) st (guarded V S l n)"
  using guarded_runs [OF assms(1-3)] assms(4) by (rule guarded_bind [where Q = "\<lambda>_ _. True"]) simp_all

lemma guarded_seq:
  assumes "io_ends m st (guarded V S l n)"
    and "\<And>x st'. logged V S l (world st') \<Longrightarrow> n \<le> length (gd_snapshots st') \<Longrightarrow> io_ends (f x) st' (guarded V S l n)"
  shows "io_ends (io_bind m f) st (guarded V S l n)"
  using assms by (intro guarded_bind [where Q = "\<lambda>_ _. True"]) simp_all

lemma guarded_attempt:
  "io_ends m st (guarded V S l n) \<Longrightarrow> io_ends (io_attempt m) st (guarded V S l n)"
  unfolding io_ends_attempt
proof (erule io_ends_mono, goal_cases)
  case (1 r st')
  then show ?case by (cases r) (auto simp: guarded_def)
qed

lemma routes_keep_restore_all:
  assumes "\<And>x. keeps I (restore x)"
  shows "keeps I (restore_all restore xs)"
  by (induction xs) (auto intro!: keep_then keep assms split: sum.split)

lemma guarded_rollback:
  assumes W: "windows_ok V S" and st: "logged V S l (world st)" "n \<le> length (gd_snapshots st)" and "start \<le> n"
  shows "io_ends (rollback_suffix S start) st (guarded V S l start)"
proof -
  note all = routes_keep_restore_all [of "logged V S l" "restore_snapshot S",
      OF routes_keep_restore_snapshot [OF steady_logged [OF W] logged_journal_writes(1) [OF W]]]
  let ?st = "gd_snapshots_update (take start) st"
  have "io_ends (io_bind (restore_all (restore_snapshot S) (rev (drop start (gd_snapshots st)))) (\<lambda>(failed, errors).
     io_bind (io_update (gd_snapshots_update (\<lambda>items. items @ rev failed))) (\<lambda>_. io_return errors))) ?st (guarded V S l start)"
    by (rule guarded_keeps [OF all]) (use st assms(4) in \<open>auto simp: guarded_def\<close>)
  then show ?thesis
    using st assms(4) by (simp add: rollback_suffix_def guarded_def del: io_ends_bind) (simp add: io_bind_def io_gets_def io_update_def io_ends_def)
qed

lemma guarded_fail:
  assumes "windows_ok V S" and "logged V S l (world st)" "start \<le> length (gd_snapshots st)"
  shows "io_ends (fail_with_rollback S start e) st (guarded V S l start)"
  unfolding fail_with_rollback_def
  by (rule guarded_seq [OF guarded_rollback [OF assms order_refl]]) (simp add: guarded_def)

lemma guarded_families:
  assumes W: "windows_ok V S" and J: "json_ok S"
  shows "logged V S l (world st) \<Longrightarrow> start \<le> length (gd_snapshots st) \<Longrightarrow>
    io_ends (protect_families S b already start fs) st (guarded V S l start)"
proof (induction fs arbitrary: st)
  case (Cons f fs)
  note undo = guarded_fail [OF W]
  have applied: "io_ends (io_bind (io_update (gd_snapshots_update (\<lambda>items. items @ [s]))) (\<lambda>_.
      io_bind (io_attempt (apply_snapshot S s)) (\<lambda>applied. case applied of Inl e \<Rightarrow> fail_with_rollback S start e
      | Inr _ \<Rightarrow> protect_families S b already start fs))) st (guarded V S l start)"
    if "logged V S l (world st)" "start \<le> length (gd_snapshots st)" "captured V S s (world st)" for s st
  proof -
    let ?st = "gd_snapshots_update (\<lambda>items. items @ [s]) st"
    have "io_ends (apply_snapshot S s) ?st (ran (\<lambda>w. logged V S l w \<and> captured V S s w) (\<lambda>_ _. True) ?st)"
      by (rule routes_keep_apply [OF W, unfolded runs_def, rule_format]) (simp add: that)
    then have "io_ends (apply_snapshot S s) ?st (guarded V S l start)"
      by (rule io_ends_mono) (use that in \<open>auto simp: ran_def guarded_def\<close>)
    then have "io_ends (io_bind (io_attempt (apply_snapshot S s)) (\<lambda>applied. case applied of Inl e \<Rightarrow> fail_with_rollback S start e
        | Inr _ \<Rightarrow> protect_families S b already start fs)) ?st (guarded V S l start)"
      by (intro guarded_seq [OF guarded_attempt]) (auto intro!: undo Cons.IH split: sum.split)
    then show ?thesis by (simp only: io_ends_bind [of "io_update _"] io_ends_update then_ends.simps)
  qed
  have capture: "io_ends (io_attempt (capture_family S b f)) st (\<lambda>r st'. guarded V S l start r st' \<and>
      (\<forall>x. r = Done x \<longrightarrow> (\<forall>s. x = Inr (Some s) \<longrightarrow> captured V S s (world st'))))"
    using guarded_runs [OF runs_attempt [OF routes_keep_capture [OF W J]] Cons.prems] by (rule io_ends_mono) auto
  show ?case
    using Cons by (auto simp del: io_ends_bind intro!: guarded_bind [OF capture] undo applied split: sum.split option.split)
qed (simp add: guarded_def)

lemma guarded_inner:
  assumes W: "windows_ok V S" and J: "json_ok S" and st: "logged V S l (world st)"
  shows "io_ends (protect_interface_inner S b) st (guarded V S l 0)"
proof -
  have verify: "keeps (logged V S l) (verify_protected S b ss)" for ss
    by (induction ss) (auto intro!: keep keep_then steady_logged [OF W])
  have "io_ends (io_bind (verify_protected S b already) (\<lambda>_. protect_families S b already (length (gd_snapshots st)) [IPV4, IPV6]))
      st (guarded V S l (length (gd_snapshots st)))" for already
    by (rule guarded_keeps [OF verify st order_refl]) (rule guarded_families [OF W J])
  then have "io_ends (io_bind (verify_protected S b already) (\<lambda>_. protect_families S b already (length (gd_snapshots st)) [IPV4, IPV6]))
      st (guarded V S l 0)" for already
    by (rule io_ends_mono) (auto simp: guarded_def)
  then show ?thesis by (simp add: protect_interface_inner_def io_gets_def io_bind_def [of "io_gets _"] Let_def io_ends_def)
qed

datatype guard_call = NewGuard | ProtectPeer socket_addr win_binding | RefreshGuard | RestoreGuard

fun guard_call_of :: "'w win_system \<Rightarrow> guard_call \<Rightarrow> ('w route_guard, io_error, unit) io" where
  "guard_call_of S NewGuard = guard_new S"
| "guard_call_of S (ProtectPeer peer b) = protect_peer S peer b"
| "guard_call_of S RefreshGuard = guard_refresh S"
| "guard_call_of S RestoreGuard = guard_restore S"

text \<open>Calls one after the other, whether they succeed or not, and the end of the guard.\<close>

fun guard_life :: "'w win_system \<Rightarrow> guard_call list \<Rightarrow> ('w route_guard, io_error, unit) io" where
  "guard_life S [] = guard_drop S"
| "guard_life S (c # cs) = io_bind (io_attempt (guard_call_of S c)) (\<lambda>_. guard_life S cs)"

lemma guarded_restore:
  assumes W: "windows_ok V S" and st: "logged V S l (world st)"
  shows "io_ends (guard_restore S) st (guarded V S l 0)"
  unfolding guard_restore_def
  by (rule guarded_seq [OF guarded_rollback [OF W st order_refl]])
    (auto simp: guarded_def errors_to_result_def split: list.split)

lemma guarded_call:
  assumes W: "windows_ok V S" and J: "json_ok S" and st: "logged V S l (world st)"
  shows "io_ends (guard_call_of S c) st (guarded V S l 0)"
proof (cases c)
  case NewGuard
  have "io_ends (guard_new S) st (guarded V S l 0)"
    unfolding guard_new_def
    by (rule guarded_keeps [OF routes_keep_recover(2) [OF steady_logged [OF W] logged_journal_writes(1) [OF W]] st])
      (auto simp: guarded_def split: recovery_outcome.split)
  with NewGuard show ?thesis by simp
next
  case (ProtectPeer peer b)
  have "io_ends (protect_peer S peer b) st (guarded V S l 0)"
    unfolding protect_peer_def protect_interface_def
    by (intro guarded_keeps [OF routes_keep_binding(3) [OF steady_logged [OF W]] st]
        guarded_keeps [OF routes_keep_adapters(3) [OF steady_logged [OF W]]] guarded_keeps [OF routes_keep_require(1)]
        guarded_keeps [OF routes_keep_identity(2) [OF steady_logged [OF W]]] guarded_inner [OF W J] le0)
  with ProtectPeer show ?thesis by simp
next
  case RefreshGuard
  have "keeps (logged V S l) (refresh_each S ss)" for ss
    by (induction ss) (auto intro!: keep keep_then steady_logged [OF W])
  from guarded_runs [OF this st, of 0] RefreshGuard show ?thesis
    by (simp add: guard_refresh_def io_gets_def io_bind_def io_ends_def)
qed (use guarded_restore [OF W st] in simp)

lemma guarded_life:
  assumes W: "windows_ok V S" and J: "json_ok S"
  shows "logged V S l (world st) \<Longrightarrow> io_ends (guard_life S cs) st (guarded V S l 0)"
proof (induction cs arbitrary: st)
  case Nil
  show ?case
    unfolding guard_life.simps guard_drop_def
    by (rule guarded_seq [OF guarded_attempt [OF guarded_restore [OF W Nil.prems]]]) (simp add: guarded_def)
next
  case (Cons c cs)
  show ?case
    unfolding guard_life.simps
    by (rule guarded_seq [OF guarded_attempt [OF guarded_call [OF W J Cons.prems]]]) (rule Cons.IH)
qed

text \<open>
  C7: A default route is deleted only once the journal has it. However the guard of the local-only
  policy is used (created, told to protect phones, refreshed, restored, in any order, whatever Windows
  answers and whichever call fails), it ends without a panic, and at the moment each route was deleted
  the registry held a journal entry that decodes to a policy of the same adapter with that route in it.
\<close>

theorem deleted_routes_journaled:
  assumes "windows_ok V S" and "json_ok S"
  shows "\<exists>r st'. guard_life S calls st = Some (r, st') \<and> r \<noteq> Panic \<and>
    (\<exists>new. wv_log V (world st') = wv_log V (world st) @ new \<and>
       (\<forall>(row, journal) \<in> set new. \<exists>p bs. journal (policy_name p) = Some bs \<and> decode_policy S bs = Done p \<and> holds_route p row))"
proof -
  have "logged V S (wv_log V (world st)) (world st)" by (simp add: logged_def)
  from guarded_life [OF assms this, of calls] show ?thesis
    by (auto simp: io_ends_def guarded_def logged_def list_all_iff journaled_def)
qed

section \<open>The journal is exact\<close>

text \<open>A checksum that does not fit is an invalid journal entry, whatever else is wrong with it.\<close>

lemma decode_policy_crc:
  assumes "le_word (sub_bytes (length bs - 4) 4 bs) \<noteq> crc32 (take (length bs - 4) bs)"
  shows "decode_policy S bs = Fail (io_err InvalidData)"
  using assms by (auto simp: decode_policy_def Let_def)

lemma encoded_policy_crc:
  assumes "encode_policy S p = Done bs"
  shows "16 \<le> length bs" "le_word (sub_bytes (length bs - 4) 4 bs) = crc32 (take (length bs - 4) bs)"
proof -
  have "\<exists>body. bs = body @ le_u32 (crc32 body) \<and> 12 \<le> length body"
    using assms by (auto simp: encode_policy_def Let_def POLICY_MAGIC_def ascii_def split: option.splits if_splits
        intro!: exI [of _ "_ # _ # _ # _ # _ @ _ @ _"])
  then obtain body where "bs = body @ le_u32 (crc32 body)" "12 \<le> length body" by blast
  then show "16 \<le> length bs" "le_word (sub_bytes (length bs - 4) 4 bs) = crc32 (take (length bs - 4) bs)"
    by (simp_all add: sub_bytes_def u32_le.dec_enc)
qed

text \<open>
  C36: The journal of the local-only policy reads back what was written: an encoded policy decodes to
  itself, and after a change of any one byte it is refused as invalid.
\<close>

theorem policy_journal_exact:
  assumes "json_ok S" and "encode_policy S p = Done bs"
  shows "decode_policy S bs = Done p \<and>
    (\<forall>i b. i < length bs \<and> b \<noteq> bs ! i \<longrightarrow> decode_policy S (bs[i := b]) = Fail (io_err InvalidData))"
proof (intro conjI allI impI policy_decodes [OF assms])
  fix i b assume i: "i < length bs \<and> b \<noteq> bs ! i"
  let ?n = "length bs - 4"
  note n = encoded_policy_crc [OF assms(2)]
  show "decode_policy S (bs[i := b]) = Fail (io_err InvalidData)"
  proof (rule decode_policy_crc, simp, cases "i < ?n")
    case True
    have "crc32 ((take ?n bs)[i := b]) \<noteq> crc32 (take ?n bs)"
      using True i crc32_byte_change [of i "take ?n bs" b] by auto
    moreover have "sub_bytes ?n 4 (bs[i := b]) = sub_bytes ?n 4 bs" using True by (simp add: sub_bytes_def)
    ultimately show "le_word (sub_bytes ?n 4 (bs[i := b])) \<noteq> crc32 (take ?n (bs[i := b]))"
      using n(2) by (simp add: take_update_swap)
  next
    case False
    have "sub_bytes ?n 4 (bs[i := b]) = (sub_bytes ?n 4 bs)[i - ?n := b]"
      using False by (simp add: sub_bytes_def drop_update_swap take_update_swap)
    moreover have "i - ?n < 4" using False i n(1) by arith
    then have "sub_bytes ?n 4 bs ! (i - ?n) = bs ! i" "i - ?n < length (sub_bytes ?n 4 bs)"
      using False i n(1) by (simp_all add: sub_bytes_def)
    ultimately have "sub_bytes ?n 4 (bs[i := b]) \<noteq> sub_bytes ?n 4 bs" using i by (metis nth_list_update_eq)
    then have "le_word (sub_bytes ?n 4 (bs[i := b])) \<noteq> (le_word (sub_bytes ?n 4 bs) :: u32)"
      using u32_le.dec_inj [of "sub_bytes ?n 4 (bs[i := b])" "sub_bytes ?n 4 bs"] n(1) by (auto simp: sub_bytes_def)
    then show "le_word (sub_bytes ?n 4 (bs[i := b])) \<noteq> crc32 (take ?n (bs[i := b]))"
      using n(2) False by simp
  qed
qed

lemma missing_all: "missing_original_indices [] ys = Some [0..<length ys]"
  by (simp add: missing_original_indices_def)

lemma restore_rows_hops:
  assumes "persisted_routes rs = Done ps" and "\<forall>r\<in>set rs. si_family (fr_next_hop r) = IPV6"
  shows "\<exists>rows. restore_rows S ps a IPV6 = Done rows \<and>
    map (\<lambda>r. map_option fst (sockaddr_inet_ip (fr_next_hop r))) rows = map (\<lambda>r. Some (V6 (si_addr6 (fr_next_hop r)))) rs"
  using assms
proof (induction rs arbitrary: ps)
  case (Cons r rs)
  then obtain q qs where q: "ps = q # qs" "persist_route r = Some q" "persisted_routes rs = Done qs"
    by (auto simp: and_then_Done split: option.splits)
  with Cons obtain rows where "restore_rows S qs a IPV6 = Done rows"
      "map (\<lambda>r. map_option fst (sockaddr_inet_ip (fr_next_hop r))) rows = map (\<lambda>r. Some (V6 (si_addr6 (fr_next_hop r)))) rs"
    by auto
  moreover have "pr_next_hop q = V6 (si_addr6 (fr_next_hop r))"
    using q(2) Cons.prems(2) by (auto simp: persist_route_def sockaddr_inet_ip_def)
  ultimately show ?case using q by (simp add: restore_route_row_def Let_def sockaddr_inet_ip_def)
qed simp

text \<open>The rows created one after the other, whatever is answered.\<close>

definition create_rows :: "'w win_system \<Rightarrow> forward_row list \<Rightarrow> 'w \<Rightarrow> 'w" where
  "create_rows S rows w = fold (\<lambda>row w. snd (ws_create_route S row w)) rows w"

lemma create_missing_stops:
  assumes "i \<le> j" and "j < length rows" and "snd (rows ! j) = Some (V6 h)" and "h \<noteq> 0" and "V6 h \<notin> set gateways"
    and "\<forall>(row, hop) \<in> set rows. hop \<noteq> None"
  shows "\<exists>e k. k \<le> j - i \<and> (i = j \<longrightarrow> e = io_err NotFound) \<and> create_missing S rows gateways [] [i..<length rows] keys st =
    Some (Fail e, st\<lparr>world := create_rows S (take k (drop i (map fst rows))) (world st)\<rparr>)"
  using assms
proof (induction "j - i" arbitrary: i keys st)
  case 0
  then obtain row where "rows ! i = (row, Some (V6 h))" by (cases "rows ! j") simp
  with 0 have "create_missing S rows gateways [] [i..<length rows] keys st = Some (Fail (io_err NotFound), st)"
    by (simp add: upt_conv_Cons classify_captured_gateway_def) (simp add: io_fail_def)
  then show ?case by (intro exI [of _ "io_err NotFound"] exI [of _ 0]) (simp add: create_rows_def)
next
  case (Suc m)
  then have i: "i < j" "i < length rows" and m: "m = j - (i + 1)" "i + 1 \<le> j" by simp_all
  have "snd (rows ! i) \<noteq> None" using Suc.prems(6) i nth_mem [of i rows] by (auto simp: split_beta)
  then obtain row hop where row: "rows ! i = (row, Some hop)" by (cases "rows ! i") auto
  have upt: "[i..<length rows] = i # [i + 1..<length rows]" using i by (simp add: upt_conv_Cons)
  have rest: "drop i (map fst rows) = row # drop (i + 1) (map fst rows)"
    using i row by (metis Cons_nth_drop_Suc Suc_eq_plus1 fst_conv length_map nth_map)
  have stop: ?case if "create_missing S rows gateways [] [i..<length rows] keys st =
      Some (Fail e, st\<lparr>world := create_rows S (take k (drop i (map fst rows))) (world st)\<rparr>)" "k \<le> j - i" for e k
    using that i by blast
  show ?case
  proof (cases "classify_captured_gateway hop gateways []")
    case Available
    obtain result w where create: "ws_create_route S row (world st) = (result, w)" by fastforce
    show ?thesis
    proof (cases "result \<noteq> 0 \<and> result \<noteq> ERROR_ALREADY_EXISTS \<and> result \<noteq> ERROR_OBJECT_ALREADY_EXISTS")
      case True
      then have "create_missing S rows gateways [] [i..<length rows] keys st =
          Some (Fail (win32_error result), st\<lparr>world := create_rows S (take 1 (drop i (map fst rows))) (world st)\<rparr>)"
        using i row create Available unfolding upt rest by (simp add: create_rows_def io_bind_def io_world_def io_fail_def)
      then show ?thesis by (rule stop) (use i in simp)
    next
      case False
      from Suc.hyps(1) [OF m Suc.prems(2-6), of "keys @ [route_key_of row]" "st\<lparr>world := w\<rparr>"]
      obtain e k where k: "k \<le> j - (i + 1)" and next': "create_missing S rows gateways [] [i + 1..<length rows] (keys @ [route_key_of row]) (st\<lparr>world := w\<rparr>) =
          Some (Fail e, st\<lparr>world := create_rows S (take k (drop (i + 1) (map fst rows))) w\<rparr>)" by auto
      have "create_missing S rows gateways [] [i..<length rows] keys st =
          Some (Fail e, st\<lparr>world := create_rows S (take (Suc k) (drop i (map fst rows))) (world st)\<rparr>)"
        using i row create Available False next' unfolding upt rest by (auto simp: create_rows_def io_bind_def io_world_def)
      then show ?thesis by (rule stop) (use i k in simp)
    qed
  next
    case Unconfirmed
    then have "create_missing S rows gateways [] [i..<length rows] keys st =
        Some (Fail (io_err NotFound), st\<lparr>world := create_rows S (take 0 (drop i (map fst rows))) (world st)\<rparr>)"
      using i row unfolding upt by (simp add: create_rows_def io_fail_def)
    then show ?thesis by (rule stop) simp
  qed (simp add: classify_captured_gateway_def split: if_splits)
qed

text \<open>
  C38: A deleted IPv6 default route through a router does not come back. While no default route is there
  and Windows does not report the router as a gateway of the adapter (it derives the gateways from those routes),
  restoring a captured family of IPv6 that has such a route fails, since configured gateways are read for IPv4
  alone. At most the routes captured before that route are created, and never it; the flag is not lowered and the
  journal not removed. If the route was captured first, nothing is changed at all.
\<close>

theorem ipv6_routes_stay_deleted:
  assumes "adapter_details_for_identity S (is_adapter s) st = Some (Done (Some (adapter, gateways)), st1)"
    and "interface_row_for_adapter S adapter IPV6 st1 = Some (Done (Some row), st2)"
    and "default_routes_for_adapter S adapter IPV6 st2 = Some (Done [], st3)"
    and "is_family s = IPV6" and "is_routes s = before @ r # rs"
    and "\<forall>r\<in>set (is_routes s). si_family (fr_next_hop r) = IPV6"
    and "si_addr6 (fr_next_hop r) \<noteq> 0" and "V6 (si_addr6 (fr_next_hop r)) \<notin> set gateways"
  shows "\<exists>e k rows. k \<le> length before \<and> (before = [] \<longrightarrow> e = io_err NotFound) \<and>
    map (\<lambda>row. map_option fst (sockaddr_inet_ip (fr_next_hop row))) rows = map (\<lambda>r. Some (V6 (si_addr6 (fr_next_hop r)))) (is_routes s) \<and>
    restore_snapshot S s st = Some (Fail e, st3\<lparr>world := create_rows S (take k rows) (world st3)\<rparr>)"
proof -
  let ?hop = "\<lambda>row. map_option fst (sockaddr_inet_ip (fr_next_hop row))"
  have "\<exists>ps. persisted_routes rs = Done ps" if "\<forall>r\<in>set rs. si_family (fr_next_hop r) = IPV6" for rs
    using that by (induction rs) (auto simp: persist_route_def sockaddr_inet_ip_def)
  with assms(6) obtain ps where ps: "persisted_routes (is_routes s) = Done ps" by blast
  from restore_rows_hops [OF this assms(6)] obtain rows where rows: "restore_rows S ps adapter IPV6 = Done rows"
    and hops: "map ?hop rows = map (\<lambda>r. Some (V6 (si_addr6 (fr_next_hop r)))) (is_routes s)"
    by blast
  let ?rows = "map (\<lambda>row. (row, ?hop row)) rows"
  have len: "length rows = length (is_routes s)" using hops by (metis length_map)
  have hop: "?hop (rows ! j) = Some (V6 (si_addr6 (fr_next_hop (is_routes s ! j))))" if "j < length rows" for j
    using hops that len by (metis nth_map)
  have given: "\<forall>(row, hop) \<in> set ?rows. hop \<noteq> None" using hop by (fastforce simp: in_set_conv_nth)
  have j: "length before < length ?rows" "snd (?rows ! length before) = Some (V6 (si_addr6 (fr_next_hop r)))"
    using len hop [of "length before"] by (simp_all add: assms(5))
  have fst: "map fst ?rows = rows" by (simp add: comp_def)
  from create_missing_stops [OF le0 j assms(7,8) given, of S "[]" st3]
  obtain e k where k: "k \<le> length before" "before = [] \<longrightarrow> e = io_err NotFound"
    and stop: "create_missing S ?rows gateways [] [0..<length ?rows] [] st3 =
      Some (Fail e, st3\<lparr>world := create_rows S (take k rows) (world st3)\<rparr>)"
    unfolding fst by auto
  have "restore_routes S adapter gateways IPV6 [] ?rows st3 = Some (Fail e, st3\<lparr>world := create_rows S (take k rows) (world st3)\<rparr>)"
    using stop by (simp add: restore_routes_def missing_all configured_gateways_def io_bind_laws) (simp add: io_bind_def)
  with assms(1-4) ps rows have "restore_snapshot S s st = Some (Fail e, st3\<lparr>world := create_rows S (take k rows) (world st3)\<rparr>)"
    by (simp add: restore_snapshot_def io_bind_def io_lift_def)
  with k hops show ?thesis by blast
qed

section \<open>The restore plan\<close>

text \<open>The captured items that are still unmatched.\<close>

definition unmatched_items :: "bool list \<Rightarrow> 'a list \<Rightarrow> 'a multiset" where
  "unmatched_items us cs = mset (map snd (filter fst (zip us cs)))"

lemma match_original_spec:
  "length us = length cs \<Longrightarrow> (case match_original x us cs of
     None \<Rightarrow> x \<notin># unmatched_items us cs
   | Some us' \<Rightarrow> x \<in># unmatched_items us cs \<and> unmatched_items us' cs = unmatched_items us cs - {#x#})"
proof (induction x us cs rule: match_original.induct)
  case (1 x u us c cs)
  then show ?case
    by (cases "match_original x us cs"; cases u) (auto simp: unmatched_items_def)
qed (simp_all add: unmatched_items_def)

lemma match_all_spec:
  "length us = length cs \<Longrightarrow> (case match_all xs us cs of
     None \<Rightarrow> \<not> mset xs \<subseteq># unmatched_items us cs
   | Some us' \<Rightarrow> mset xs \<subseteq># unmatched_items us cs \<and> unmatched_items us' cs = unmatched_items us cs - mset xs)"
proof (induction xs us cs rule: match_all.induct)
  case (2 x xs us cs)
  show ?case
  proof (cases "match_original x us cs")
    case None
    then show ?thesis using match_original_spec [OF 2(2), of x] by (auto dest: mset_subset_eq_insertD)
  next
    case (Some us')
    have "length us' = length cs" using match_original_length [OF Some] 2(2) by simp
    with 2(1) [OF Some] match_original_spec [OF 2(2), of x] Some show ?thesis
      by (auto simp: insert_subset_eq_iff split: option.splits)
  qed
qed simp

lemma unmatched_indices:
  "length us = length cs \<Longrightarrow> mset (map ((!) cs) (filter ((!) us) [0..<length us])) = unmatched_items us cs"
proof (induction us cs rule: list_induct2)
  case (Cons u us c cs)
  have "filter ((!) (u # us)) [0..<length (u # us)] = (if u then [0] else []) @ map Suc (filter ((!) us) [0..<length us])"
    by (simp add: upt_rec [of 0] map_Suc_upt [symmetric] filter_map o_def del: upt_Suc)
  with Cons show ?case by (simp add: unmatched_items_def o_def)
qed (simp add: unmatched_items_def)

text \<open>
  C37: The plan for restoring routes is exact on multisets: the captured routes that are missing are
  planned, each index once, exactly when the current routes are among the captured ones, counted with
  their number of occurrences; otherwise a newer route is there and nothing is planned. The check before
  a deletion accepts exactly the tables with the same routes the same number of times.
\<close>

theorem restore_plan_exact:
  "(case missing_original_indices current original of
      None \<Rightarrow> \<not> mset current \<subseteq># mset original
    | Some missing \<Rightarrow> mset current \<subseteq># mset original \<and> distinct missing \<and>
        mset (map ((!) original) missing) = mset original - mset current) \<and>
   (same_multiset current original \<longleftrightarrow> mset current = mset original)"
proof -
  have all: "unmatched_items (replicate (length original) True) original = mset original"
    by (induction original) (simp_all add: unmatched_items_def)
  show ?thesis
  proof (cases "match_all current (replicate (length original) True) original")
    case None
    with match_all_spec [of "replicate (length original) True" original current] all show ?thesis
      by (auto simp: missing_original_indices_def same_multiset_def)
  next
    case (Some us)
    then have len: "length us = length original" using match_all_length [OF Some] by simp
    with match_all_spec [of "replicate (length original) True" original current] all Some
    have spec: "mset current \<subseteq># mset original" "unmatched_items us original = mset original - mset current" by simp_all
    have missing: "missing_original_indices current original = Some (filter ((!) us) [0..<length us])"
      using Some by (simp add: missing_original_indices_def)
    have "filter ((!) us) [0..<length us] = [] \<longleftrightarrow> mset original - mset current = {#}"
      using unmatched_indices [OF len] spec(2) by (metis list.map_disc_iff mset_zero_iff)
    moreover have "length current = length original \<and> mset original - mset current = {#} \<longleftrightarrow> mset current = mset original"
      using spec(1) by (metis diff_cancel mset_eq_length subset_mset.diff_add add.left_neutral)
    ultimately show ?thesis
      using missing spec unmatched_indices [OF len] by (auto simp: same_multiset_def)
  qed
qed

section \<open>A Windows that keeps the promises\<close>

record fake_windows =
  fw_values :: "(unicode \<times> bytes) list"
  fw_routes :: "forward_row list"
  fw_disabled :: "u16 \<Rightarrow> bool"
  fw_deleted :: "(forward_row \<times> (unicode \<Rightarrow> bytes option)) list"

definition fake_adapter :: win_adapter where
  "fake_adapter = \<lparr>wa_name = chars ''{A}'', wa_description = map of_char ''Remote NDIS Compatible Device'',
     wa_friendly = map of_char ''Ethernet 3'', wa_index = 7, wa_luid = 9, wa_guid = (1, 2, 3, replicate 8 4),
     wa_physical = [2, 0, 0, 0, 0, 1, 0, 0], wa_physical_length = 6, wa_up = True,
     wa_unicast = [(Some (Inet 0xC0A82A0A), 24)], wa_gateways = []\<rparr>"

definition fake_hop :: "ip_addr \<Rightarrow> sockaddr_inet" where
  "fake_hop a = set_sockaddr_inet \<lparr>si_family = 0, si_word4 = 0, si_addr6 = 0, si_scope = 0\<rparr> a 0"

definition fake_route :: "ip_addr \<Rightarrow> ip_addr \<Rightarrow> forward_row" where
  "fake_route prefix hop =
     \<lparr>fr_luid = 9, fr_index = 7, fr_prefix = fake_hop prefix, fr_prefix_length = 0, fr_next_hop = fake_hop hop,
      fr_site_prefix = 0, fr_valid = - 1, fr_preferred = - 1, fr_metric = 25, fr_protocol = 3, fr_loopback = False,
      fr_autoconfigure = True, fr_publish = False, fr_immortal = True, fr_age = 0, fr_origin = 0\<rparr>"

definition fake_routes :: "forward_row list" where
  "fake_routes = [fake_route (V4 0) (V4 0xC0A82A81), fake_route (V6 0) (V6 0xFE800000000000000000000000000001)]"

definition of_family :: "u16 \<Rightarrow> forward_row list \<Rightarrow> forward_row list" where
  "of_family f = filter (\<lambda>r. si_family (fr_prefix r) = f)"

definition fake_policy :: "u16 \<Rightarrow> persisted_policy" where
  "fake_policy f =
     \<lparr>pp_owner = \<lparr>po_pid = 42, po_created = 77, po_image = chars ''host.exe''\<rparr>, pp_adapter = identity_of fake_adapter,
      pp_family = f, pp_disable = False, pp_routes = List.map_filter persist_route (of_family f fake_routes)\<rparr>"

definition fake_win :: "fake_windows win_system" where
  "fake_win = \<lparr>ws_adapters = (\<lambda>w. ((0, [fake_adapter]), w)), ws_best_interface = (\<lambda>_ w. ((0, 7), w)),
     ws_new_interface = \<lparr>ir_family = 0, ir_luid = 0, ir_index = 0, ir_site_prefix = 0, ir_disable = False, ir_rest = 0\<rparr>,
     ws_get_row = (\<lambda>r w. if ir_index r = 7
       then ((0, r\<lparr>ir_luid := 9, ir_disable := fw_disabled w (ir_family r)\<rparr>), w) else ((ERROR_NOT_FOUND, r), w)),
     ws_set_row = (\<lambda>r w. (0, w\<lparr>fw_disabled := (fw_disabled w)(ir_family r := ir_disable r)\<rparr>)),
     ws_table = (\<lambda>f w. ((0, of_family f (fw_routes w)), w)), ws_new_route = fake_route (V4 0) (V4 0),
     ws_delete_route = (\<lambda>r w. if r \<in> set (fw_routes w)
       then (0, w\<lparr>fw_routes := remove1 r (fw_routes w), fw_deleted := fw_deleted w @ [(r, map_of (fw_values w))]\<rparr>)
       else (ERROR_NOT_FOUND, w)),
     ws_create_route = (\<lambda>r w. (0, w\<lparr>fw_routes := fw_routes w @ [r]\<rparr>)),
     ws_create_key = (\<lambda>w. (0, w)), ws_open_key = (\<lambda>w. (0, w)), ws_value_count = (\<lambda>w. ((0, length (fw_values w)), w)),
     ws_enum_value = (\<lambda>i w. if i < length (fw_values w)
       then ((0, map of_nat (fst (fw_values w ! i)), 3, snd (fw_values w ! i)), w) else ((ERROR_NO_MORE_ITEMS, [], 0, []), w)),
     ws_query = (\<lambda>n w. (case map_of (fw_values w) n of None \<Rightarrow> (ERROR_FILE_NOT_FOUND, 0, []) | Some bs \<Rightarrow> (0, 3, bs), w)),
     ws_set_value = (\<lambda>n bs w. (0, w\<lparr>fw_values := (n, bs) # fw_values w\<rparr>)),
     ws_delete_value = (\<lambda>n w. (0, w\<lparr>fw_values := filter (\<lambda>(m, _). m \<noteq> n) (fw_values w)\<rparr>)), ws_flush = (\<lambda>w. (0, w)),
     ws_open_tcpip = (\<lambda>_ w. (0, w)),
     ws_query_tcpip = (\<lambda>_ n w. (if n = chars ''DhcpDefaultGateway''
       then (0, 7, map of_char ''192.168.42.129'' @ [0, 0]) else (ERROR_FILE_NOT_FOUND, 0, []), w)),
     ws_pid = 42, ws_self = 0, ws_image = (\<lambda>w. (chars ''host.exe'', w)), ws_open_process = (\<lambda>_ w. (Inr 0, w)),
     ws_creation = (\<lambda>_ w. (Inr 77, w)), ws_process_image = (\<lambda>_ w. (Inr (chars ''host.exe''), w)),
     ws_exit_code = (\<lambda>_ w. (Inr STILL_ACTIVE, w)),
     js_encode = (\<lambda>p. if p = fake_policy (pp_family p) then Some (le_u16 (pp_family p)) else None),
     js_decode = (\<lambda>bs. if length bs = 2 then Some (fake_policy (le_word bs)) else None)\<rparr>"

definition fake_win_view :: "fake_windows win_view" where
  "fake_win_view = \<lparr>wv_log = fw_deleted, wv_journal = (\<lambda>w. map_of (fw_values w))\<rparr>"

definition fake_windows_start :: fake_windows where
  "fake_windows_start = \<lparr>fw_values = [], fw_routes = fake_routes, fw_disabled = (\<lambda>_. False), fw_deleted = []\<rparr>"

definition fake_win_binding :: win_binding where
  "fake_win_binding = \<lparr>wb_index = 7, wb_adapter = identity_of fake_adapter, wb_validate = True\<rparr>"

definition fake_calls :: "guard_call list" where
  "fake_calls = [NewGuard, ProtectPeer \<lparr>sa_ip = V4 0xC0A82A81, sa_port = 42826\<rparr> fake_win_binding, RefreshGuard]"

lemma fake_json_ok: "json_ok fake_win"
  by (auto simp: json_ok_def fake_win_def u16_le.dec_enc)

lemma fake_windows_ok: "windows_ok fake_win_view fake_win"
  unfolding windows_ok_def steady_def
  by (intro conjI allI impI) (auto simp: fake_win_def fake_win_view_def split: option.splits if_splits)

theorem deleted_routes_journaled_witness:
  "\<exists>r st'. guard_life fake_win fake_calls \<lparr>world = fake_windows_start, gd_snapshots = []\<rparr> = Some (r, st') \<and> r \<noteq> Panic \<and>
    (\<exists>new. wv_log fake_win_view (world st') = wv_log fake_win_view fake_windows_start @ new \<and>
       (\<forall>(row, journal) \<in> set new. \<exists>p bs. journal (policy_name p) = Some bs \<and> decode_policy fake_win bs = Done p \<and> holds_route p row))"
  using deleted_routes_journaled [OF fake_windows_ok fake_json_ok,
      of fake_calls "\<lparr>world = fake_windows_start, gd_snapshots = []\<rparr>"] by simp

theorem policy_journal_exact_witness:
  "\<exists>bs. encode_policy fake_win (fake_policy 2) = Done bs \<and> decode_policy fake_win bs = Done (fake_policy 2) \<and>
    (\<forall>i b. i < length bs \<and> b \<noteq> bs ! i \<longrightarrow> decode_policy fake_win (bs[i := b]) = Fail (io_err InvalidData))"
proof -
  have "pp_family (fake_policy 2) = 2" by (simp add: fake_policy_def)
  then obtain bs where "encode_policy fake_win (fake_policy 2) = Done bs"
    by (auto simp: encode_policy_def fake_win_def Let_def)
  with policy_journal_exact [OF fake_json_ok this] show ?thesis by blast
qed

text \<open>The family of IPv6 after the policy took effect: its route is deleted, its flag is up.\<close>

definition fake_snapshot :: interface_snapshot where
  "fake_snapshot = \<lparr>is_adapter = identity_of fake_adapter, is_index = 7, is_family = IPV6, is_disable = False,
     is_routes = of_family IPV6 fake_routes, is_name = policy_name (fake_policy IPV6)\<rparr>"

definition fake_enforced :: "fake_windows machine" where
  "fake_enforced = \<lparr>world = fake_windows_start\<lparr>fw_routes := [], fw_disabled := (\<lambda>_. True)\<rparr>\<rparr>"

theorem ipv6_routes_stay_deleted_witness:
  "restore_snapshot fake_win fake_snapshot fake_enforced = Some (Fail (io_err NotFound), fake_enforced)"
proof -
  let ?a = "identity_of fake_adapter" and ?row = "\<lparr>ir_family = 23, ir_luid = 9, ir_index = 7, ir_site_prefix = 0, ir_disable = True, ir_rest = 0\<rparr>"
  have a: "adapter_details_for_identity fake_win (is_adapter fake_snapshot) fake_enforced = Some (Done (Some (?a, [])), fake_enforced)"
    by (simp add: adapter_details_for_identity_def all_adapter_details_def adapter_addresses_def io_bind_def io_world_def
        io_lift_def io_return_def check_win32_def fake_win_def fake_snapshot_def fake_enforced_def same_recovery_adapter_def)
       (simp add: fake_adapter_def map_filter_simps)
  have b: "interface_row_for_adapter fake_win ?a IPV6 fake_enforced = Some (Done (Some ?row), fake_enforced)"
    by (simp add: interface_row_for_adapter_def interface_row_def io_bind_def io_world_def io_return_def is_missing_def
        interface_identity_matches_def fake_win_def fake_enforced_def identity_of_def fake_adapter_def)
  have c: "default_routes_for_adapter fake_win ?a IPV6 fake_enforced = Some (Done [], fake_enforced)"
    by (simp add: default_routes_for_adapter_def default_routes_def io_bind_def io_world_def io_return_def fake_win_def
        fake_enforced_def of_family_def)
  let ?r = "fake_route (V6 0) (V6 0xFE800000000000000000000000000001)"
  have routes: "is_routes fake_snapshot = [] @ ?r # []"
    by (simp add: fake_snapshot_def of_family_def fake_routes_def fake_route_def fake_hop_def)
  have "is_family fake_snapshot = IPV6" "\<forall>r\<in>set (is_routes fake_snapshot). si_family (fr_next_hop r) = IPV6"
    "si_addr6 (fr_next_hop ?r) \<noteq> 0" "V6 (si_addr6 (fr_next_hop ?r)) \<notin> set []"
    using routes by (simp_all add: fake_route_def fake_hop_def) (simp add: fake_snapshot_def)
  from ipv6_routes_stay_deleted [OF a b c this(1) routes this(2-4)] show ?thesis
    by (auto simp: create_rows_def)
qed

end
