(* ===== verification/Legacy_Link.thy ===== *)
theory Legacy_Link
  imports Usb_Tether Protocol_V4 Input_Boundary
begin

text \<open>
  The UDP link of protocol v4 (\<open>native-host/src/network.rs\<close>): the discovery of a phone on a USB
  tether, the connection that reads its frames and follows it to a new port or a new session, and
  the readers of the ancillary data that names the ingress interface.
\<close>

section \<open>State\<close>

datatype socket_option =
    WriteTimeout duration
  | ReadTimeout duration
  | ReceiveInterface
  | Broadcast

text \<open>
  The socket of the host and the interfaces as the OS reports them at the time. \<open>ue_receive\<close> is
  \<open>receive_datagram\<close>: the bytes, the source and the ingress interface.
\<close>

record 'w udp_env = "'w env" +
  ue_open :: "u16 \<Rightarrow> 'w \<Rightarrow> (io_error + unit) \<times> 'w"
  ue_option :: "socket_option \<Rightarrow> 'w \<Rightarrow> (io_error + unit) \<times> 'w"
  ue_local_port :: "'w \<Rightarrow> (io_error + u16) \<times> 'w"
  ue_receive :: "'w \<Rightarrow> (io_error + bytes \<times> socket_addr \<times> u32 option) \<times> 'w"
  ue_send_to :: "bytes \<Rightarrow> socket_addr \<Rightarrow> 'w \<Rightarrow> (io_error + nat) \<times> 'w"
  ue_system :: "'w \<Rightarrow> net_system \<times> 'w"

record udp_connection =
  uc_peer :: socket_addr
  uc_binding :: tether_binding
  discovery_nonce :: u64
  discovery_session_id :: u64
  session_changed :: bool
  last_peer_activity :: instant

record ('w, 's) linked = "('w, 's) host" +
  link :: udp_connection

abbreviation DISCOVERY_READ_TIMEOUT :: duration where "DISCOVERY_READ_TIMEOUT \<equiv> millis 250"
abbreviation FRAME_READ_TIMEOUT :: duration where "FRAME_READ_TIMEOUT \<equiv> millis 4"
abbreviation DATAGRAM_WRITE_TIMEOUT :: duration where "DATAGRAM_WRITE_TIMEOUT \<equiv> millis 2"
abbreviation REDUNDANT_SENDS :: nat where "REDUNDANT_SENDS \<equiv> 2"

definition io_os :: "('w \<Rightarrow> (io_error + 'a) \<times> 'w) \<Rightarrow> (('w, 'z) machine_scheme, io_error, 'a) io" where
  "io_os f = io_bind (io_world f) (\<lambda>r. case r of Inl e \<Rightarrow> io_fail e | Inr x \<Rightarrow> io_return x)"

definition io_tether :: "('w, 'x) udp_env_scheme \<Rightarrow> (net_system \<Rightarrow> (io_error, 'a) outcome) \<Rightarrow>
    (('w, 'z) machine_scheme, io_error, 'a) io" where
  "io_tether E f = io_bind (io_world (ue_system E)) (\<lambda>sys. io_lift (f sys))"

text \<open>A receive that timed out is no datagram.\<close>

definition receive_or_timeout :: "('w, 'x) udp_env_scheme \<Rightarrow>
    (('w, 'z) machine_scheme, io_error, (bytes \<times> socket_addr \<times> u32 option) option) io" where
  "receive_or_timeout E = io_bind (io_world (ue_receive E)) (\<lambda>r.
     case r of
       Inl e \<Rightarrow> if err_kind e \<in> {TimedOut, WouldBlock} then io_return None else io_fail e
     | Inr x \<Rightarrow> io_return (Some x))"

section \<open>The host\<close>

text \<open>\<open>UdpHost::bind\<close> returns the port; the socket is the one of the environment.\<close>

definition udp_bind :: "('w, 'x) udp_env_scheme \<Rightarrow> u16 \<Rightarrow> (('w, 'z) machine_scheme, io_error, u16) io" where
  "udp_bind E port =
     io_seq (io_os (ue_open E port))
     (io_seq (io_os (ue_option E (WriteTimeout DATAGRAM_WRITE_TIMEOUT)))
     (io_seq (io_os (ue_option E ReceiveInterface))
     (io_bind (io_os (ue_local_port E)) (\<lambda>port.
     io_seq (io_os (ue_option E Broadcast))
     (io_seq (io_os (ue_option E (ReadTimeout DISCOVERY_READ_TIMEOUT)))
       (io_return port))))))"

text \<open>The loop over the copies: one delivered copy is enough, else the first error is returned.\<close>

fun send_each ::
  "('w, 'x) udp_env_scheme \<Rightarrow> bytes \<Rightarrow> socket_addr \<Rightarrow> nat \<Rightarrow> bool \<Rightarrow> io_error option \<Rightarrow>
   (('w, 'z) machine_scheme, io_error, unit) io" where
  "send_each E d peer 0 delivered first_error =
    (if delivered then io_return ()
     else io_fail (case first_error of None \<Rightarrow> io_err OtherKind | Some e \<Rightarrow> e))"
| "send_each E d peer (Suc n) delivered first_error =
     io_bind (io_world (ue_send_to E d peer)) (\<lambda>r.
       case r of
         Inr sent \<Rightarrow>
           if sent = length d then send_each E d peer n True first_error
           else send_each E d peer n delivered
                  (case first_error of None \<Rightarrow> Some (io_err WriteZero) | Some e \<Rightarrow> Some e)
       | Inl e \<Rightarrow> send_each E d peer n delivered (case first_error of None \<Rightarrow> Some e | Some e' \<Rightarrow> Some e'))"

definition send_redundant ::
  "('w, 'x) udp_env_scheme \<Rightarrow> bytes \<Rightarrow> socket_addr \<Rightarrow> (('w, 'z) machine_scheme, io_error, unit) io" where
  "send_redundant E d peer = send_each E d peer REDUNDANT_SENDS False None"

section \<open>Discovery\<close>

text \<open>The hello of a phone that looks for a host on this port.\<close>

definition hello_of :: "bytes \<Rightarrow> u16 \<Rightarrow> (io_error, discovery_message option) outcome" where
  "hello_of d port =
    (case decode_discovery d of
       Done (Some m) \<Rightarrow>
         Done (if dm_kind m = DISCOVERY_HELLO \<and> discovery_port_acceptable (dm_port m) port then Some m else None)
     | Panic \<Rightarrow> Panic
     | _ \<Rightarrow> Done None)"

definition discovery_answer :: "discovery_message \<Rightarrow> u16 \<Rightarrow> bytes" where
  "discovery_answer m port = encode_discovery DISCOVERY_ACK (dm_nonce m) (dm_session_id m) port"

definition accept_hello ::
  "('w, 'x) udp_env_scheme \<Rightarrow> u16 \<Rightarrow> tether_binding \<Rightarrow> discovery_message \<Rightarrow> socket_addr \<Rightarrow>
   (('w, 'z) machine_scheme, io_error, udp_connection) io" where
  "accept_hello E port b m peer =
     io_seq (send_redundant E (discovery_answer m port) peer)
     (io_seq (io_os (ue_option E (ReadTimeout FRAME_READ_TIMEOUT)))
     (io_bind (io_now E) (\<lambda>t.
       io_return \<lparr>uc_peer = peer, uc_binding = b, discovery_nonce = dm_nonce m,
         discovery_session_id = dm_session_id m, session_changed = False, last_peer_activity = t\<rparr>)))"

definition discovery_received ::
  "('w, 'x) udp_env_scheme \<Rightarrow> u16 \<Rightarrow> (socket_addr \<Rightarrow> (('w, 'z) machine_scheme, io_error, tether_binding option) io) \<Rightarrow>
   bytes \<Rightarrow> socket_addr \<Rightarrow> u32 option \<Rightarrow>
   (('w, 'z) machine_scheme, io_error, (unit, udp_connection) flow) io" where
  "discovery_received E port classify d peer ingress =
     io_bind (io_lift (hello_of d port)) (\<lambda>hello.
       case hello of
         None \<Rightarrow> io_return (Continue ())
       | Some m \<Rightarrow>
           io_bind (classify peer) (\<lambda>binding.
             case binding of
               None \<Rightarrow> io_return (Continue ())
             | Some b \<Rightarrow>
                 if \<not> accepts_ingress_interface b ingress then io_return (Continue ())
                 else io_bind (accept_hello E port b m peer) (\<lambda>c. io_return (Break c))))"

definition discovery_attempt ::
  "('w, 'x) udp_env_scheme \<Rightarrow> u16 \<Rightarrow> (socket_addr \<Rightarrow> (('w, 'z) machine_scheme, io_error, tether_binding option) io) \<Rightarrow>
   instant \<Rightarrow> unit \<Rightarrow> (('w, 'z) machine_scheme, io_error, (unit, udp_connection) flow) io" where
  "discovery_attempt E port classify deadline _ =
     io_bind (io_now E) (\<lambda>t. if deadline \<le> t then io_fail (io_err TimedOut) else
     io_bind (receive_or_timeout E) (\<lambda>r.
       case r of
         None \<Rightarrow> io_bind (io_now E) (\<lambda>t.
           if deadline \<le> t then io_fail (io_err TimedOut) else io_return (Continue ()))
       | Some (d, peer, ingress) \<Rightarrow> discovery_received E port classify d peer ingress))"

definition connect_if ::
  "('w, 'x) udp_env_scheme \<Rightarrow> u16 \<Rightarrow> duration \<Rightarrow>
   (socket_addr \<Rightarrow> (('w, 'z) machine_scheme, io_error, tether_binding option) io) \<Rightarrow>
   (('w, 'z) machine_scheme, io_error, udp_connection) io" where
  "connect_if E port timeout classify =
     io_seq (io_os (ue_option E (ReadTimeout DISCOVERY_READ_TIMEOUT)))
     (io_bind (io_now E) (\<lambda>t. io_loop (discovery_attempt E port classify (t + timeout)) ()))"

text \<open>\<open>connect\<close> classifies by the route; \<open>connect_checked\<close> also asks the caller.\<close>

definition classify_route ::
  "('w, 'x) udp_env_scheme \<Rightarrow> socket_addr \<Rightarrow> (('w, 'z) machine_scheme, io_error, tether_binding option) io" where
  "classify_route E peer = io_tether E (\<lambda>sys. current_tether_binding sys peer)"

definition classify_checked ::
  "('w, 'x) udp_env_scheme \<Rightarrow> (tether_binding \<Rightarrow> (('w, 'z) machine_scheme, io_error, unit) io) \<Rightarrow> socket_addr \<Rightarrow>
   (('w, 'z) machine_scheme, io_error, tether_binding option) io" where
  "classify_checked E check_binding peer =
     io_bind (classify_route E peer) (\<lambda>binding.
       case binding of
         None \<Rightarrow> io_return None
       | Some b \<Rightarrow> io_seq (check_binding b) (io_return (Some b)))"

definition udp_connect ::
  "('w, 'x) udp_env_scheme \<Rightarrow> u16 \<Rightarrow> duration \<Rightarrow> (('w, 'z) machine_scheme, io_error, udp_connection) io" where
  "udp_connect E port timeout = connect_if E port timeout (classify_route E)"

definition udp_connect_checked ::
  "('w, 'x) udp_env_scheme \<Rightarrow> u16 \<Rightarrow> duration \<Rightarrow>
   (tether_binding \<Rightarrow> (('w, 'z) machine_scheme, io_error, unit) io) \<Rightarrow>
   (('w, 'z) machine_scheme, io_error, udp_connection) io" where
  "udp_connect_checked E port timeout check_binding = connect_if E port timeout (classify_checked E check_binding)"

text \<open>\<open>default_routes_present\<close>; the system is looked at again after the commands.\<close>

definition link_routes_present ::
  "('w, 'x) udp_env_scheme \<Rightarrow> tether_binding \<Rightarrow> (('w, 'z) machine_scheme, io_error, bool \<times> bool) io" where
  "link_routes_present E b =
     io_bind (io_world (ue_system E)) (\<lambda>sys. io_bind (io_world (ue_system E)) (\<lambda>after.
       io_lift (default_routes_for_identity sys after (tb_identity b))))"

text \<open>The check that \<open>connect_phone\<close> makes on Linux in local-only mode.\<close>

definition check_local_only ::
  "('w, 'x) udp_env_scheme \<Rightarrow> tether_binding \<Rightarrow> (('w, 'z) machine_scheme, io_error, unit) io" where
  "check_local_only E b =
     io_bind (io_attempt (link_routes_present E b)) (\<lambda>r.
       case r of
         Inl e \<Rightarrow> io_fail (io_err PermissionDenied)
       | Inr (ipv4, ipv6) \<Rightarrow> if ipv4 \<or> ipv6 then io_fail (io_err PermissionDenied) else io_return ())"

definition connect_phone ::
  "('w, 'x) udp_env_scheme \<Rightarrow> u16 \<Rightarrow> duration \<Rightarrow> bool \<Rightarrow> (('w, 'z) machine_scheme, io_error, udp_connection) io" where
  "connect_phone E port timeout local_only =
    (if \<not> local_only then udp_connect E port timeout
     else udp_connect_checked E port timeout (check_local_only E))"

section \<open>The connection\<close>

definition update_link :: "(udp_connection \<Rightarrow> udp_connection) \<Rightarrow> (('w, 's, 'z) linked_scheme, 'e, unit) io" where
  "update_link f = io_update (\<lambda>st. st\<lparr>link := f (link st)\<rparr>)"

definition revalidate_peer ::
  "('w, 'x) udp_env_scheme \<Rightarrow> udp_connection \<Rightarrow> (('w, 'z) machine_scheme, io_error, unit) io" where
  "revalidate_peer E c = io_tether E (\<lambda>sys. verify_peer sys (uc_binding c) (uc_peer c))"

definition take_session_changed :: "(('w, 's, 'z) linked_scheme, 'e, bool) io" where
  "take_session_changed =
     io_run (\<lambda>st. (Done (session_changed (link st)), st\<lparr>link := (link st)\<lparr>session_changed := False\<rparr>\<rparr>))"

definition peer_activity_elapsed ::
  "('w, 'x) udp_env_scheme \<Rightarrow> (('w, 's, 'z) linked_scheme, 'e, duration) io" where
  "peer_activity_elapsed E =
     io_bind (io_gets (\<lambda>st. last_peer_activity (link st))) (\<lambda>t. io_elapsed E t)"

definition note_valid_peer_activity ::
  "('w, 'x) udp_env_scheme \<Rightarrow> (('w, 's, 'z) linked_scheme, 'e, unit) io" where
  "note_valid_peer_activity E = io_bind (io_now E) (\<lambda>t. update_link (\<lambda>c. c\<lparr>last_peer_activity := t\<rparr>))"

definition frame_session :: "bytes \<Rightarrow> u64 option" where
  "frame_session d = (if 16 \<le> length d then Some (le_word (sub_bytes 8 8 d)) else None)"

definition adopted :: "u64 \<Rightarrow> u64 \<Rightarrow> instant \<Rightarrow> udp_connection \<Rightarrow> udp_connection" where
  "adopted nonce sid t c =
    (let c1 = (if sid \<noteq> discovery_session_id c
               then c\<lparr>discovery_session_id := sid, session_changed := True\<rparr> else c)
     in c1\<lparr>discovery_nonce := nonce, last_peer_activity := t\<rparr>)"

definition adopt_discovery ::
  "('w, 'x) udp_env_scheme \<Rightarrow> u64 \<Rightarrow> u64 \<Rightarrow> (('w, 's, 'z) linked_scheme, 'e, unit) io" where
  "adopt_discovery E nonce sid = io_bind (io_now E) (\<lambda>t. update_link (adopted nonce sid t))"

definition discovery_compatible :: "udp_connection \<Rightarrow> u64 \<Rightarrow> u64 \<Rightarrow> bool" where
  "discovery_compatible c nonce sid \<longleftrightarrow> sid \<noteq> discovery_session_id c \<or> nonce = discovery_nonce c"

section \<open>Reading\<close>

text \<open>
  A repeated or moved discovery. Both arms of the source that answer a hello: in the one for the peer
  itself the comparison of the addresses holds and the assignment of the peer changes nothing.
\<close>

definition answer_hello ::
  "('w, 'x) udp_env_scheme \<Rightarrow> discovery_message \<Rightarrow> socket_addr \<Rightarrow> (('w, 's, 'z) linked_scheme, io_error, unit) io" where
  "answer_hello E m source =
     io_bind (io_gets link) (\<lambda>c.
     io_seq (io_tether E (\<lambda>sys. verify_peer sys (uc_binding c) source))
     (io_bind (io_os (ue_local_port E)) (\<lambda>port.
     io_seq (send_redundant E (discovery_answer m port) source)
     (io_seq (update_link (\<lambda>c. c\<lparr>uc_peer := source\<rparr>))
       (adopt_discovery E (dm_nonce m) (dm_session_id m))))))"

definition consider_hello ::
  "('w, 'x) udp_env_scheme \<Rightarrow> bool \<Rightarrow> bytes \<Rightarrow> socket_addr \<Rightarrow> (('w, 's, 'z) linked_scheme, io_error, unit) io" where
  "consider_hello E allow_discovery d source =
    (if \<not> allow_discovery then io_return () else
     case decode_discovery d of
       Panic \<Rightarrow> io_lift Panic
     | Done (Some m) \<Rightarrow>
         io_bind (io_gets link) (\<lambda>c.
         if dm_kind m \<noteq> DISCOVERY_HELLO \<or> sa_ip source \<noteq> sa_ip (uc_peer c) then io_return () else
         io_bind (io_os (ue_local_port E)) (\<lambda>port.
           io_when (discovery_port_acceptable (dm_port m) port \<and>
                    discovery_compatible c (dm_nonce m) (dm_session_id m))
             (answer_hello E m source)))
     | _ \<Rightarrow> io_return ())"

definition frame_received ::
  "('w, 'x) udp_env_scheme \<Rightarrow> bool \<Rightarrow> bytes \<Rightarrow> socket_addr \<Rightarrow> u32 option \<Rightarrow>
   (('w, 's, 'z) linked_scheme, io_error, (unit, bytes) flow) io" where
  "frame_received E allow_discovery d source ingress =
     io_bind (io_gets link) (\<lambda>c.
       if \<not> accepts_ingress_interface (uc_binding c) ingress then io_return (Continue ())
       else if source = uc_peer c \<and> take 4 d = FRAME_MAGIC then
         (if frame_session d = Some (discovery_session_id c) then io_return (Break d) else io_return (Continue ()))
       else io_seq (consider_hello E allow_discovery d source) (io_return (Continue ())))"

definition read_attempt ::
  "('w, 'x) udp_env_scheme \<Rightarrow> bool \<Rightarrow> instant \<Rightarrow> unit \<Rightarrow>
   (('w, 's, 'z) linked_scheme, io_error, (unit, bytes) flow) io" where
  "read_attempt E allow_discovery deadline _ =
     io_bind (io_now E) (\<lambda>t. if deadline \<le> t then io_return (Break []) else
     io_bind (receive_or_timeout E) (\<lambda>r.
       case r of
         None \<Rightarrow> io_return (Break [])
       | Some (d, source, ingress) \<Rightarrow> frame_received E allow_discovery d source ingress))"

text \<open>\<open>read\<close>: the datagram, empty when none came.\<close>

definition link_read ::
  "('w, 'x) udp_env_scheme \<Rightarrow> nat \<Rightarrow> bool \<Rightarrow> (('w, 's, 'z) linked_scheme, io_error, bytes) io" where
  "link_read E timeout_ms allow_discovery =
     io_bind (io_now E) (\<lambda>t. io_loop (read_attempt E allow_discovery (t + millis (max timeout_ms 1))) ())"

definition link_write ::
  "('w, 'x) udp_env_scheme \<Rightarrow> bytes \<Rightarrow> (('w, 's, 'z) linked_scheme, io_error, unit) io" where
  "link_write E d = io_bind (io_gets (\<lambda>st. uc_peer (link st))) (\<lambda>peer. send_redundant E d peer)"

section \<open>The ingress interface of a datagram\<close>

text \<open>
  On Linux, \<open>recvmsg\<close> answers with the address in network order, the flags and the control messages
  that \<open>CMSG_FIRSTHDR\<close> and \<open>CMSG_NXTHDR\<close> step through. \<open>cm_index\<close> is \<open>ipi_ifindex\<close>.
\<close>

record control_message =
  cm_level :: nat
  cm_type :: nat
  cm_length :: nat
  cm_index :: int

record raw_message =
  rm_count :: nat
  rm_namelen :: nat
  rm_family :: nat
  rm_address :: bytes
  rm_port :: bytes
  rm_truncated :: bool
  rm_control :: "control_message list"

abbreviation (input) SOCKADDR_IN_SIZE :: nat where "SOCKADDR_IN_SIZE \<equiv> 16"
abbreviation (input) AF_INET :: nat where "AF_INET \<equiv> 2"
abbreviation (input) IP_PKTINFO_LINUX :: nat where "IP_PKTINFO_LINUX \<equiv> 8"
abbreviation (input) PKTINFO_CMSG_LEN :: nat where "PKTINFO_CMSG_LEN \<equiv> 28"

fun packet_info :: "control_message list \<Rightarrow> u32 option" where
  "packet_info [] = None"
| "packet_info (h # hs) =
    (if cm_level h = 0 \<and> cm_type h = IP_PKTINFO_LINUX \<and> PKTINFO_CMSG_LEN \<le> cm_length h
     then (if 0 < cm_index h \<and> cm_index h < 2 ^ 32 then Some (of_int (cm_index h)) else None)
     else packet_info hs)"

definition ingress_interface :: "raw_message \<Rightarrow> u32 option" where
  "ingress_interface m = (if rm_truncated m then None else packet_info (rm_control m))"

definition receive_datagram :: "io_error + raw_message \<Rightarrow> io_error + nat \<times> socket_addr \<times> u32 option" where
  "receive_datagram answer =
    (case answer of
       Inl e \<Rightarrow> Inl e
     | Inr m \<Rightarrow>
         if rm_namelen m < SOCKADDR_IN_SIZE \<or> rm_family m \<noteq> AF_INET then Inl (io_err InvalidData)
         else Inr (rm_count m,
                \<lparr>sa_ip = V4 (le_word (rev (rm_address m))), sa_port = le_word (rev (rm_port m))\<rparr>,
                ingress_interface m))"

text \<open>
  On Windows the control buffer is read here: 16 words of 8 bytes, in which each header gives its own
  length. The offsets stay far below the width of \<open>usize\<close> (the lengths are checked against the
  buffer before they are added), so the checked additions are additions of natural numbers.
\<close>

abbreviation (input) CMSGHDR_SIZE :: nat where "CMSGHDR_SIZE \<equiv> 16"
abbreviation (input) IN_PKTINFO_SIZE :: nat where "IN_PKTINFO_SIZE \<equiv> 8"
abbreviation (input) IP_PKTINFO_WINDOWS :: u32 where "IP_PKTINFO_WINDOWS \<equiv> 19"
abbreviation (input) CONTROL_BUFFER_SIZE :: nat where "CONTROL_BUFFER_SIZE \<equiv> 128"

definition cmsg_align :: "nat \<Rightarrow> nat" where
  "cmsg_align n = (n + 7) div 8 * 8"

definition cmsg_header :: "bytes \<Rightarrow> nat \<Rightarrow> (unit, u64 \<times> u32 \<times> u32) outcome" where
  "cmsg_header buf offset =
     and_then (read_u64 buf offset) (\<lambda>len.
     and_then (read_u32 buf (offset + 8)) (\<lambda>level.
     and_then (read_u32 buf (offset + 12)) (\<lambda>ty. Done (len, level, ty))))"

function scan_control :: "bytes \<Rightarrow> nat \<Rightarrow> nat \<Rightarrow> (unit, u32 option) outcome" where
  "scan_control buf available offset =
    (if available < offset + CMSGHDR_SIZE then Done None else
     case cmsg_header buf offset of
       Done (len, level, ty) \<Rightarrow>
         if unat len < CMSGHDR_SIZE \<or> available < offset + unat len then Done None
         else if level = 0 \<and> ty = IP_PKTINFO_WINDOWS \<and> CMSGHDR_SIZE + IN_PKTINFO_SIZE \<le> unat len then
           and_then (read_u32 buf (offset + CMSGHDR_SIZE + 4)) (\<lambda>index.
             Done (if index \<noteq> 0 then Some index else None))
         else scan_control buf available (offset + cmsg_align (unat len))
     | Fail e \<Rightarrow> Fail e
     | Panic \<Rightarrow> Panic)"
  by pat_completeness auto
termination
  by (relation "measure (\<lambda>(buf, available, offset). available - offset)") (auto simp: cmsg_align_def)

declare scan_control.simps [simp del]

definition windows_ingress_interface :: "bool \<Rightarrow> bool \<Rightarrow> u32 \<Rightarrow> bytes \<Rightarrow> (unit, u32 option) outcome" where
  "windows_ingress_interface truncated null_buffer len buf =
    (if truncated \<or> null_buffer then Done None
     else scan_control buf (min (unat len) CONTROL_BUFFER_SIZE) 0)"

end
