(* ===== verification/Legacy_Session.thy ===== *)
theory Legacy_Session
  imports Legacy_Link
begin

text \<open>
  A session of protocol v4 and the loop of the legacy host around it (\<open>serve_connection\<close>,
  \<open>process_decoded_frame\<close> and the second half of \<open>run\<close> in \<open>native-host/src/bin/host.rs\<close>, as built for
  Linux): the watchdogs, the frames of a connection and their acknowledgement, the search for a phone,
  the release of the keys when a connection fails and when the host stops.
\<close>

section \<open>State\<close>

datatype host_phase = Waiting | Connected | Recovering | Stopping | PairingPhase

text \<open>What the host calls beside the link: the flush of the console, a sleep and the report.\<close>

record 'w legacy_env = "'w udp_env" +
  le_flush :: "'w \<Rightarrow> (io_error + unit) \<times> 'w"
  le_sleep :: "duration \<Rightarrow> 'w \<Rightarrow> unit \<times> 'w"
  le_report :: "'w \<Rightarrow> (io_error + unit) \<times> 'w"

text \<open>\<open>shown\<close> is the channel of the status lines.\<close>

record ('w, 's) legacy = "('w, 's) linked" +
  parser :: frame_parser
  phase :: host_phase
  shown :: "host_phase list"

text \<open>\<open>ControlState\<close>; \<open>cs_acked\<close> is \<open>last_ack\<close>, \<open>cs_committed\<close> is \<open>last_committed_frame\<close>.\<close>

record control_state =
  hello_session :: "u64 option"
  cs_acked :: "u64 option"
  cs_lanes :: u8
  cs_committed :: instant

abbreviation (input) LEGACY_RECEIVE_WINDOW :: u32 where "LEGACY_RECEIVE_WINDOW \<equiv> 128"
abbreviation (input) LEGACY_ACTIVE_SILENCE :: duration where "LEGACY_ACTIVE_SILENCE \<equiv> millis 32"
abbreviation (input) LEGACY_IDLE_SILENCE :: duration where "LEGACY_IDLE_SILENCE \<equiv> millis 2000"

section \<open>A decoded frame\<close>

definition require_start :: "(('w, 's, 'z) host_scheme, 'e, unit) io" where
  "require_start = io_update (\<lambda>st. st\<lparr>ordered := require_fresh_session (ordered st)\<rparr>)"

text \<open>
  The type of the control record and what the state remembers of it. The inner choice of the source
  sends the type in both of its cases, since a type that is not a hello is an acknowledgement.
\<close>

definition next_control :: "control_state \<Rightarrow> u64 \<Rightarrow> u64 option \<Rightarrow> u8 \<times> u8 \<times> control_state" where
  "next_control ctl sid acknowledged =
    (let (ty, ctl1) = (if hello_session ctl \<noteq> Some sid then (CONTROL_HELLO, ctl\<lparr>hello_session := Some sid\<rparr>)
                       else (CONTROL_ACK, ctl))
     in if ty = CONTROL_HELLO \<or> acknowledged \<noteq> cs_acked ctl1 then (ty, ty, ctl1\<lparr>cs_acked := acknowledged\<rparr>)
        else (ty, CONTROL_ACK, ctl1))"

definition wire_ack :: "u64 option \<Rightarrow> u64" where
  "wire_ack acknowledged = (case acknowledged of None \<Rightarrow> - 1 | Some a \<Rightarrow> a)"

text \<open>The trace notes the record when it is handed to the socket.\<close>

definition answer_frame ::
  "('w, 'x) legacy_env_scheme \<Rightarrow> control_state \<Rightarrow> u64 \<Rightarrow> u64 option \<Rightarrow>
   (('w, 's, 'z) legacy_scheme, io_error, control_state) io" where
  "answer_frame E ctl sid acknowledged =
    (case next_control ctl sid acknowledged of
       (control_type, outgoing, ctl') \<Rightarrow>
         io_bind (io_now E) (\<lambda>now.
         io_bind (io_gets metrics) (\<lambda>m.
         let control = encode_control outgoing (cs_lanes ctl') sid acknowledged LEGACY_RECEIVE_WINDOW (clock_nanos m now) in
         io_bind (io_now E) (\<lambda>ack_started.
         io_seq (log_effect (Sent outgoing sid (wire_ack acknowledged) control))
         (io_seq (link_write E control)
         (io_bind (io_elapsed E ack_started) (\<lambda>elapsed.
         io_seq (observe_ack_write E elapsed)
         (io_seq (io_when (control_type = CONTROL_HELLO) (io_os (le_flush E)))
           (io_return ctl')))))))))"

definition note_committed ::
  "('w, 'x) env_scheme \<Rightarrow> control_state \<Rightarrow> bool \<Rightarrow> (('w, 'z) machine_scheme, 'e, control_state) io" where
  "note_committed E ctl progressed =
    (if progressed then io_bind (io_now E) (\<lambda>t. io_return (ctl\<lparr>cs_committed := t\<rparr>)) else io_return ctl)"

definition process_decoded_frame ::
  "('w, 'x) legacy_env_scheme \<Rightarrow> 's input_sink \<Rightarrow> control_state \<Rightarrow> (protocol_error, touch_frame) outcome \<Rightarrow> instant \<Rightarrow>
   (('w, 's, 'z) legacy_scheme, io_error, control_state) io" where
  "process_decoded_frame E S ctl decoded arrival =
    (case decoded of
       Panic \<Rightarrow> io_lift Panic
     | Fail e \<Rightarrow> io_seq (metrics_note E INGRESS 0 0 4 0) (io_return ctl)
     | Done f \<Rightarrow>
         io_seq (note_valid_peer_activity E)
         (io_seq (receive_ordered E f arrival)
         (io_bind (commit_ready E S) (\<lambda>progressed.
         io_bind (note_committed E ctl progressed) (\<lambda>ctl.
         io_bind (io_gets ordered) (\<lambda>w.
           case of_session w of
             None \<Rightarrow> io_return ctl
           | Some sid \<Rightarrow>
               if sid \<noteq> session_id f then io_return ctl
               else answer_frame E ctl sid (acknowledged_sequence w)))))))"

section \<open>A connection\<close>

definition idle_peer_timed_out :: "bool \<Rightarrow> duration \<Rightarrow> bool" where
  "idle_peer_timed_out active_input peer_silence \<longleftrightarrow> \<not> active_input \<and> LEGACY_IDLE_SILENCE \<le> peer_silence"

definition check_idle_link ::
  "('w, 'x) legacy_env_scheme \<Rightarrow> 's input_sink \<Rightarrow> (('w, 's, 'z) legacy_scheme, io_error, unit) io" where
  "check_idle_link E S =
     io_bind (io_gets (\<lambda>st. is_active S (sink st))) (\<lambda>active_input.
     io_bind (peer_activity_elapsed E) (\<lambda>silence.
       io_when (idle_peer_timed_out active_input silence)
         (io_seq require_start (io_fail (io_err TimedOut)))))"

definition check_progress ::
  "('w, 'x) legacy_env_scheme \<Rightarrow> 's input_sink \<Rightarrow> control_state \<Rightarrow> (('w, 's, 'z) legacy_scheme, io_error, unit) io" where
  "check_progress E S ctl =
     io_bind (io_gets (\<lambda>st. is_active S (sink st))) (\<lambda>active_input.
     io_when active_input
       (io_bind (io_elapsed E (cs_committed ctl)) (\<lambda>d.
         io_when (LEGACY_ACTIVE_SILENCE \<le> d)
           (io_seq require_start
           (io_seq (cancel_with_deadline E S)
             (io_fail (io_err TimedOut)))))))"

definition follow_session ::
  "('w, 'x) legacy_env_scheme \<Rightarrow> 's input_sink \<Rightarrow> control_state \<Rightarrow>
   (('w, 's, 'z) legacy_scheme, io_error, control_state) io" where
  "follow_session E S ctl =
     io_bind take_session_changed (\<lambda>changed.
       if changed then
         io_seq require_start
         (io_seq (cancel_with_deadline E S)
         (io_bind (io_now E) (\<lambda>t.
           io_return (ctl\<lparr>hello_session := None, cs_acked := None, cs_committed := t\<rparr>))))
       else io_return ctl)"

definition use_parser :: "(frame_parser \<Rightarrow> frame_parser \<times> 'a) \<Rightarrow> (('w, 's, 'z) legacy_scheme, 'e, 'a) io" where
  "use_parser f = io_run (\<lambda>st. case f (parser st) of (p, x) \<Rightarrow> (Done x, st\<lparr>parser := p\<rparr>))"

definition frame_arrived ::
  "('w, 'x) legacy_env_scheme \<Rightarrow> 's input_sink \<Rightarrow> control_state \<Rightarrow> bytes \<Rightarrow>
   (('w, 's, 'z) legacy_scheme, io_error, control_state) io" where
  "frame_arrived E S ctl d =
     io_bind (io_now E) (\<lambda>arrival.
     io_bind (use_parser (\<lambda>p. decode_datagram p d)) (\<lambda>decoded.
     io_bind (use_parser take_incompatible_version) (\<lambda>version.
       if version \<noteq> None then io_fail (io_err InvalidData)
       else process_decoded_frame E S ctl decoded arrival)))"

definition connection_iteration ::
  "('w, 'x) legacy_env_scheme \<Rightarrow> 's input_sink \<Rightarrow> control_state \<Rightarrow>
   (('w, 's, 'z) legacy_scheme, io_error, (control_state, unit) flow) io" where
  "connection_iteration E S ctl =
     io_bind (io_stopping E) (\<lambda>stopped.
     if stopped then io_return (Break ()) else
     io_seq (check_idle_link E S)
     (io_seq (check_progress E S ctl)
     (io_seq (service_deferred E S)
     (io_bind (io_gets (\<lambda>st. is_active S (sink st))) (\<lambda>active_input.
     io_bind (link_read E 4 (\<not> active_input)) (\<lambda>d.
     io_bind (follow_session E S ctl) (\<lambda>ctl.
       if d = [] then io_return (Continue ctl)
       else io_bind (frame_arrived E S ctl d) (\<lambda>ctl. io_return (Continue ctl)))))))))"

definition serve_connection ::
  "('w, 'x) legacy_env_scheme \<Rightarrow> 's input_sink \<Rightarrow> u8 \<Rightarrow> (('w, 's, 'z) legacy_scheme, io_error, unit) io" where
  "serve_connection E S lanes =
     io_bind (io_now E) (\<lambda>t.
       io_loop (connection_iteration E S)
         \<lparr>hello_session = None, cs_acked = None, cs_lanes = lanes, cs_committed = t\<rparr>)"

section \<open>The host\<close>

definition publish_phase :: "host_phase \<Rightarrow> (('w, 's, 'z) legacy_scheme, 'e, unit) io" where
  "publish_phase p = io_update (\<lambda>st.
     if phase st \<noteq> p then st\<lparr>phase := p, shown := shown st @ [p]\<rparr> else st)"

definition io_sleep :: "('w, 'x) legacy_env_scheme \<Rightarrow> duration \<Rightarrow> (('w, 'z) machine_scheme, 'e, unit) io" where
  "io_sleep E d = io_world (le_sleep E d)"

definition begin_link :: "('w, 'x) legacy_env_scheme \<Rightarrow> (('w, 's, 'z) legacy_scheme, io_error, unit) io" where
  "begin_link E =
     io_seq (publish_phase Connected)
     (io_seq (io_os (le_flush E))
     (io_seq (io_update (\<lambda>st. st\<lparr>parser := begin_connection (parser st)\<rparr>))
       (note_begin E)))"

text \<open>After a connection that failed; a release that fails is retried when the next search begins.\<close>

definition recover_link ::
  "('w, 'x) legacy_env_scheme \<Rightarrow> 's input_sink \<Rightarrow> (('w, 's, 'z) legacy_scheme, io_error, (unit, unit) flow) io" where
  "recover_link E S =
     io_bind (io_stopping E) (\<lambda>stopped.
     if stopped then io_return (Break ()) else
     io_seq (publish_phase Recovering)
     (io_seq require_start
     (io_bind (io_attempt (cancel_with_deadline E S)) (\<lambda>_.
     io_seq (io_sleep E (millis 100))
       (io_return (Continue ()))))))"

definition serve_link ::
  "('w, 'x) legacy_env_scheme \<Rightarrow> 's input_sink \<Rightarrow> u8 \<Rightarrow> udp_connection \<Rightarrow>
   (('w, 's, 'z) legacy_scheme, io_error, (unit, unit) flow) io" where
  "serve_link E S lanes c =
     io_bind (io_attempt (revalidate_peer E c)) (\<lambda>r.
       case r of
         Inl e \<Rightarrow> io_seq (publish_phase Recovering) (io_return (Continue ()))
       | Inr _ \<Rightarrow>
           io_seq (begin_link E)
           (io_seq (update_link (\<lambda>_. c))
           (io_bind (io_attempt (serve_connection E S lanes)) (\<lambda>r.
             case r of Inr _ \<Rightarrow> io_return (Continue ()) | Inl e \<Rightarrow> recover_link E S))))"

text \<open>A result that ends the loop with an error is \<open>Fail\<close>.\<close>

definition search_link ::
  "('w, 'x) legacy_env_scheme \<Rightarrow> 's input_sink \<Rightarrow> u8 \<Rightarrow> u16 \<Rightarrow> bool \<Rightarrow>
   (('w, 's, 'z) legacy_scheme, io_error, (unit, unit) flow) io" where
  "search_link E S lanes port local_only =
     io_bind (io_attempt (connect_phone E port (millis 1000) local_only)) (\<lambda>r.
       case r of
         Inr c \<Rightarrow> serve_link E S lanes c
       | Inl e \<Rightarrow>
           if local_only \<and> err_kind e = PermissionDenied then io_fail e
           else io_seq (io_sleep E (millis 250)) (io_return (Continue ())))"

definition legacy_iteration ::
  "('w, 'x) legacy_env_scheme \<Rightarrow> 's input_sink \<Rightarrow> u8 \<Rightarrow> u16 \<Rightarrow> bool \<Rightarrow> unit \<Rightarrow>
   (('w, 's, 'z) legacy_scheme, io_error, (unit, unit) flow) io" where
  "legacy_iteration E S lanes port local_only _ =
     io_bind (io_stopping E) (\<lambda>stopped.
     if stopped then io_return (Break ()) else
     io_bind (io_gets (\<lambda>st. is_active S (sink st))) (\<lambda>active_input.
       if active_input then
         io_bind (io_attempt (cancel_with_deadline E S)) (\<lambda>r.
           case r of
             Inl e \<Rightarrow> io_seq (io_sleep E (millis 1)) (io_return (Continue ()))
           | Inr _ \<Rightarrow> search_link E S lanes port local_only)
       else search_link E S lanes port local_only))"

definition write_metrics_report ::
  "('w, 'x) legacy_env_scheme \<Rightarrow> (('w, 'z) metered_scheme, io_error, unit) io" where
  "write_metrics_report E =
     io_bind (io_gets metrics) (\<lambda>m. if \<not> metrics_enabled m then io_return () else io_os (le_report E))"

definition stop_legacy ::
  "('w, 'x) legacy_env_scheme \<Rightarrow> 's input_sink \<Rightarrow> (('w, 's, 'z) legacy_scheme, io_error, unit) io" where
  "stop_legacy E S =
     io_seq (publish_phase Stopping)
     (io_bind (io_attempt (cancel_with_deadline E S)) (\<lambda>release_result.
     io_seq (io_update (\<lambda>st. st\<lparr>metrics := set_parser_counters (invalid_frames (parser st)) (discarded_bytes (parser st))
         (connection_discarded_bytes (parser st)) (metrics st)\<rparr>))
     (io_bind (io_attempt (write_metrics_report E)) (\<lambda>report_result.
       case (release_result, report_result) of
         (Inl e, _) \<Rightarrow> io_fail e
       | (Inr _, Inl e) \<Rightarrow> io_fail e
       | _ \<Rightarrow> io_return ()))))"

text \<open>The loop of \<open>run\<close> and what follows it, once the sink and the socket are there.\<close>

definition run_legacy ::
  "('w, 'x) legacy_env_scheme \<Rightarrow> 's input_sink \<Rightarrow> u8 \<Rightarrow> u16 \<Rightarrow> bool \<Rightarrow>
   (('w, 's, 'z) legacy_scheme, io_error, unit) io" where
  "run_legacy E S lanes port local_only =
     io_seq (io_update (\<lambda>st. st\<lparr>ordered := ordered_new,
         parser := \<lparr>discarded_bytes = 0, connection_discarded_bytes = 0, invalid_frames = 0, incompatible_version = None\<rparr>\<rparr>))
     (io_seq (io_loop (legacy_iteration E S lanes port local_only) ())
       (stop_legacy E S))"

end
