(* ===== verification/V5_Host.thy ===== *)
theory V5_Host
  imports Gameplay_Session Pairing Legacy_Session
begin

text \<open>
  The controller of protocol v5 (\<open>run_v5_controller\<close>, \<open>run_pairing_mode\<close> and \<open>verify_v5_local_only\<close> in
  \<open>native-host/src/bin/host.rs\<close>, as built for Linux): the loop that waits for the paired phone, serves its
  session, recovers, and the stop of the host.
\<close>

section \<open>State\<close>

record 'w v5_env = "'w pairing_env" +
  ve_flush :: "'w \<Rightarrow> (io_error + unit) \<times> 'w"
  ve_sleep :: "duration \<Rightarrow> 'w \<Rightarrow> unit \<times> 'w"
  ve_report :: "'w \<Rightarrow> (io_error + unit) \<times> 'w"

text \<open>\<open>v5_shown\<close> is the channel of the status lines.\<close>

record ('w, 's) v5_host = "('w, 's) pairing" +
  v5_phase :: host_phase
  v5_shown :: "host_phase list"

text \<open>The boxed errors of the controller: those of the OS and the texts it makes itself.\<close>

datatype controller_error =
    ControllerIo io_error
  | NoTransport
  | NoPairedPhone
  | NoUsbBinding
  | OwnsDefaultRoute
  | PairingFailed host_error

definition publish_v5 :: "host_phase \<Rightarrow> (('w, 's, 'z) v5_host_scheme, 'e, unit) io" where
  "publish_v5 p = io_update (\<lambda>st.
     if v5_phase st \<noteq> p then st\<lparr>v5_phase := p, v5_shown := v5_shown st @ [p]\<rparr> else st)"

definition sleep_v5 :: "('w, 'x) v5_env_scheme \<Rightarrow> duration \<Rightarrow> (('w, 'z) machine_scheme, 'e, unit) io" where
  "sleep_v5 E d = io_world (ve_sleep E d)"

section \<open>Local-only tethering\<close>

fun binding_tether :: "network_binding \<Rightarrow> tether_binding option" where
  "binding_tether (UsbBinding b l) = Some b"
| "binding_tether (WifiBinding _ _ _ _) = None"

definition v5_routes_present ::
  "('w, 'x) v5_env_scheme \<Rightarrow> tether_binding \<Rightarrow> (('w, 'z) machine_scheme, io_error, bool \<times> bool) io" where
  "v5_routes_present E b =
     io_bind (io_world (pw_system E)) (\<lambda>sys. io_bind (io_world (pw_system E)) (\<lambda>after.
       io_lift (default_routes_for_identity (net_system.truncate sys) (net_system.truncate after) (tb_identity b))))"

definition verify_v5_local_only ::
  "('w, 'x) v5_env_scheme \<Rightarrow> bool \<Rightarrow> (('w, 's, 'z) session_scheme, controller_error, unit) io" where
  "verify_v5_local_only E local_only =
    (if \<not> local_only then io_return () else
     io_bind (io_gets conn) (\<lambda>c.
       case binding_tether (cn_binding c) of
         None \<Rightarrow> io_fail NoUsbBinding
       | Some b \<Rightarrow>
           io_bind (io_convert ControllerIo (v5_routes_present E b)) (\<lambda>(ipv4, ipv6).
             if ipv4 \<or> ipv6 then io_fail OwnsDefaultRoute else io_return ())))"

section \<open>The loop\<close>

text \<open>After a session that failed; a release that fails is retried when the loop goes on.\<close>

definition recover_v5 ::
  "('w, 'x) v5_env_scheme \<Rightarrow> 's input_sink \<Rightarrow> (('w, 's, 'z) v5_host_scheme, controller_error, (unit, unit) flow) io" where
  "recover_v5 E S =
     io_bind (io_stopping E) (\<lambda>stopped.
     if stopped then io_return (Break ()) else
     io_seq (publish_v5 Recovering)
     (io_seq require_fresh
     (io_bind (io_attempt (cancel_with_deadline E S)) (\<lambda>_.
       io_return (Continue ())))))"

definition serve_v5 ::
  "('w, 'x) v5_env_scheme \<Rightarrow> aead \<Rightarrow> 's input_sink \<Rightarrow> u8 \<Rightarrow>
   (('w, 's, 'z) v5_host_scheme, controller_error, (unit, unit) flow) io" where
  "serve_v5 E A S lanes =
     io_bind (io_attempt (revalidate_interface E)) (\<lambda>r.
       case r of
         Inl e \<Rightarrow> io_seq (publish_v5 Recovering) (io_return (Continue ()))
       | Inr _ \<Rightarrow>
           io_seq (note_begin E)
           (io_seq (publish_v5 Connected)
           (io_seq (io_convert ControllerIo (io_os (ve_flush E)))
           (io_bind (io_attempt (serve_gameplay E A S lanes)) (\<lambda>r.
             case r of Inr _ \<Rightarrow> io_return (Continue ()) | Inl e \<Rightarrow> recover_v5 E S)))))"

definition search_v5 ::
  "('w, 'x) v5_env_scheme \<Rightarrow> aead \<Rightarrow> 'h noise \<Rightarrow> (bytes \<Rightarrow> bytes) \<Rightarrow> 's input_sink \<Rightarrow> u8 \<Rightarrow> transport_kind \<Rightarrow> u16 \<Rightarrow> bool \<Rightarrow>
   (('w, 's, 'z) v5_host_scheme, controller_error, (unit, unit) flow) io" where
  "search_v5 E A N blake2s S lanes transport port local_only =
     io_seq (publish_v5 Waiting)
     (io_bind (io_now E) (\<lambda>t.
     io_bind (io_attempt (accept_remembered E N blake2s transport port (t + millis 1000))) (\<lambda>r.
       case r of
         Inr _ \<Rightarrow> io_seq (verify_v5_local_only E local_only) (serve_v5 E A S lanes)
       | Inl e \<Rightarrow>
           if e = HostTimedOut then io_return (Continue ())
           else if e = NotPaired then io_fail NoPairedPhone
           else io_seq (sleep_v5 E (millis 100)) (io_return (Continue ())))))"

definition v5_iteration ::
  "('w, 'x) v5_env_scheme \<Rightarrow> aead \<Rightarrow> 'h noise \<Rightarrow> (bytes \<Rightarrow> bytes) \<Rightarrow> 's input_sink \<Rightarrow> u8 \<Rightarrow> transport_kind \<Rightarrow> u16 \<Rightarrow> bool \<Rightarrow>
   unit \<Rightarrow> (('w, 's, 'z) v5_host_scheme, controller_error, (unit, unit) flow) io" where
  "v5_iteration E A N blake2s S lanes transport port local_only _ =
     io_bind (io_stopping E) (\<lambda>stopped.
     if stopped then io_return (Break ()) else
     io_bind (io_gets (\<lambda>st. is_active S (sink st))) (\<lambda>active_input.
       if active_input then
         io_bind (io_attempt (cancel_with_deadline E S)) (\<lambda>r.
           case r of
             Inl e \<Rightarrow> io_seq (sleep_v5 E (millis 1)) (io_return (Continue ()))
           | Inr _ \<Rightarrow> search_v5 E A N blake2s S lanes transport port local_only)
       else search_v5 E A N blake2s S lanes transport port local_only))"

section \<open>The stop\<close>

definition write_v5_report ::
  "('w, 'x) v5_env_scheme \<Rightarrow> (('w, 'z) metered_scheme, io_error, unit) io" where
  "write_v5_report E =
     io_bind (io_gets metrics) (\<lambda>m. if \<not> metrics_enabled m then io_return () else io_os (ve_report E))"

definition stop_v5 ::
  "('w, 'x) v5_env_scheme \<Rightarrow> 's input_sink \<Rightarrow> (('w, 's, 'z) v5_host_scheme, controller_error, unit) io" where
  "stop_v5 E S =
     io_seq (publish_v5 Stopping)
     (io_bind (io_attempt (cancel_with_deadline E S)) (\<lambda>release_result.
     io_seq (io_update (\<lambda>st. st\<lparr>metrics := set_parser_counters 0 0 0 (metrics st)\<rparr>))
     (io_bind (io_attempt (write_v5_report E)) (\<lambda>report_result.
       case (release_result, report_result) of
         (Inl e, _) \<Rightarrow> io_fail (ControllerIo e)
       | (Inr _, Inl e) \<Rightarrow> io_fail (ControllerIo e)
       | _ \<Rightarrow> io_return ()))))"

text \<open>The sink, the recorder and the threads of the process are there when it begins.\<close>

definition run_v5_controller ::
  "('w, 'x) v5_env_scheme \<Rightarrow> aead \<Rightarrow> 'h noise \<Rightarrow> (bytes \<Rightarrow> bytes) \<Rightarrow> 's input_sink \<Rightarrow> u8 \<Rightarrow> transport_kind option \<Rightarrow>
   u16 \<Rightarrow> bool \<Rightarrow> (('w, 's, 'z) v5_host_scheme, controller_error, unit) io" where
  "run_v5_controller E A N blake2s S lanes transport port local_only =
    (case transport of
       None \<Rightarrow> io_fail NoTransport
     | Some tr \<Rightarrow>
         io_seq (io_update (\<lambda>st. st\<lparr>ordered := ordered_new\<rparr>))
         (io_seq (io_loop (v5_iteration E A N blake2s S lanes tr port local_only) ())
           (stop_v5 E S)))"

section \<open>The pairing mode\<close>

text \<open>What the pairing reports is in its remarks.\<close>

definition run_pairing_mode ::
  "('w, 'x) v5_env_scheme \<Rightarrow> aead \<Rightarrow> 'h noise \<Rightarrow> (bytes \<Rightarrow> bytes) \<Rightarrow> transport_kind option \<Rightarrow> u16 \<Rightarrow>
   (('w, 's, 'z) v5_host_scheme, controller_error, unit) io" where
  "run_pairing_mode E A N blake2s transport port =
    (case transport of
       None \<Rightarrow> io_fail NoTransport
     | Some tr \<Rightarrow>
         io_seq (publish_v5 PairingPhase)
         (io_seq (io_convert ControllerIo (io_os (ve_flush E)))
         (io_bind (io_attempt (pair E A N blake2s tr port)) (\<lambda>r.
           case r of
             Inr _ \<Rightarrow> io_return ()
           | Inl e \<Rightarrow>
               if e = HostCancelled
               then io_bind (io_stopping E) (\<lambda>stopped.
                 if stopped then io_seq (publish_v5 Stopping) (io_return ()) else io_fail (PairingFailed e))
               else io_fail (PairingFailed e)))))"

end
