(* ===== verification/Remembered_Phone.thy ===== *)
theory Remembered_Phone
  imports Pairing_Safety World_Runs
begin

text \<open>
  What the acceptance of a paired phone guarantees (\<open>accept_remembered\<close> in \<open>native-host/src/v5_host.rs\<close>):
  it returns, and the connection it opens is that of the phone whose key is in the store.
\<close>

section \<open>Questions that are answered\<close>

text \<open>Every question to the OS about its interfaces is answered, if with an error.\<close>

definition lan_answers :: "lan_system \<Rightarrow> bool" where
  "lan_answers sys \<longleftrightarrow> net_answers (net_system.truncate sys) \<and> get_if_addrs sys \<noteq> Panic"

definition discovery_runs :: "('w, 'x) pairing_env_scheme \<Rightarrow> ('w \<Rightarrow> instant) \<Rightarrow> bool" where
  "discovery_runs E time \<longleftrightarrow> pairing_runs E time \<and> (\<forall>w. lan_answers (fst (pw_system E w)))"

lemma discovery_runsD:
  assumes "discovery_runs E time"
  shows "pairing_runs E time" "socket_runs E time" "clock_runs E time" "lan_answers (fst (pw_system E w))"
  using assms pairing_runsD(1) socket_runsD(1) by (auto simp: discovery_runs_def)

lemma host_io_Panic [simp]: "host_io m = Panic \<longleftrightarrow> m = Panic"
  by (cases m) simp_all

lemma from_wire_Panic [simp]: "from_wire m = Panic \<longleftrightarrow> m = Panic"
  by (cases m) simp_all

lemma select_total: "lan_answers sys \<Longrightarrow> select_listener_interface sys transport \<noteq> Panic"
  using tether_interfaces_total [of "net_system.truncate sys"]
  by (auto simp: select_listener_interface_def lan_answers_def and_then_Panic split: list.split)

lemma wifi_total: "lan_answers sys \<Longrightarrow> wifi_binding sys peer \<noteq> Panic"
  by (auto simp: wifi_binding_def lan_answers_def net_answers_def net_system.truncate_def and_then_Panic split: ip_addr.split list.split)

lemma binding_total: "lan_answers sys \<Longrightarrow> binding_for_peer sys peer transport l \<noteq> Panic"
  using current_binding_total [of "net_system.truncate sys" peer] wifi_total [of sys peer]
  by (auto simp: binding_for_peer_def lan_answers_def and_then_Panic split: transport_kind.split option.split)

lemma revalidate_total: "lan_answers sys \<Longrightarrow> revalidate sys b peer \<noteq> Panic"
  using verify_peer_total [of "net_system.truncate sys"] tether_interfaces_total [of "net_system.truncate sys"] wifi_total [of sys peer]
  by (auto simp: revalidate_def lan_answers_def and_then_Panic split: network_binding.split)

lemma decode_envelope_total: "decode_pair_envelope d \<noteq> Panic"
  by (auto simp: decode_pair_envelope_def Let_def and_then_Panic transport_try_from_def split: if_splits)

lemma encode_envelope_total: "encode_pair_envelope k x s t p \<noteq> Panic"
  by (simp add: encode_pair_envelope_def Let_def)

lemma from_handshake_total: "\<forall>bs. length (blake2s bs) = 32 \<Longrightarrow> from_handshake blake2s hs i \<noteq> Panic"
  by (auto simp: from_handshake_def connection_id_def hash_parts_def and_then_Panic Let_def split: prod.split)

section \<open>The calls of the discovery\<close>

lemma runs_some: "runs I (io_some e x) (\<lambda>y _. x = Some y)"
  unfolding io_some_def by (auto intro!: runs_return runs_fail split: option.split)

lemma keep_sys [keep]: "(\<And>w. I w \<Longrightarrow> I (snd (f w))) \<Longrightarrow> runs I (io_sys f) (\<lambda>_ _. True)"
  unfolding io_sys_def by (auto intro!: keep_then keep split: sum.split)

lemma runs_convert:
  fixes m :: "(('w, 'z) machine_scheme, 'e, 'a) io"
  assumes "runs I m Q"
  shows "runs I (io_convert g m) Q"
  unfolding io_convert_def
  by (rule runs_bind [OF runs_attempt [OF assms]]) (auto intro!: runs_return runs_fail split: sum.split)

lemma runs_net:
  assumes "discovery_runs E time" and "lasting time I" and "\<And>sys. lan_answers sys \<Longrightarrow> f sys \<noteq> Panic"
  shows "runs (\<lambda>w. I w \<and> t \<le> time w) (io_net E f :: (('w, 's, 'z) pairing_scheme, host_error, 'a) io)
    (\<lambda>x w. \<exists>w'. t \<le> time w' \<and> time w' \<le> time w \<and> f (fst (pw_system E w')) = Done x)"
  unfolding runs_def io_net_def
proof (intro allI impI)
  fix st :: "('w, 's, 'z) pairing_scheme" assume I: "I (world st) \<and> t \<le> time (world st)"
  let ?w = "snd (pw_system E (world st))"
  note D = pairing_runsD(6) [OF discovery_runsD(1) [OF assms(1)], of "world st"]
  have "I ?w" by (rule lastingD [OF assms(2) _ D]) (use I in simp)
  with I D show "io_ends (io_bind (io_world (pw_system E)) (\<lambda>sys. io_lift (f sys))) st
     (ran (\<lambda>w. I w \<and> t \<le> time w) (\<lambda>x w. \<exists>w'. t \<le> time w' \<and> time w' \<le> time w \<and> f (fst (pw_system E w')) = Done x) st)"
    using assms(3) [OF discovery_runsD(4) [OF assms(1)]] by (auto intro!: ran_at)
qed

lemma keep_net:
  assumes "discovery_runs E time" and "lasting time I" and "\<And>sys. lan_answers sys \<Longrightarrow> f sys \<noteq> Panic"
  shows "runs I (io_net E f) (\<lambda>_ _. True)"
  using runs_net [where t = 0, OF assms] by simp (rule runs_mono, assumption, simp)

text \<open>A datagram envelope_arrived between \<open>t\<close> and now.\<close>

definition envelope_arrived :: "('w, 'x) socket_env_scheme \<Rightarrow> ('w \<Rightarrow> instant) \<Rightarrow> instant \<Rightarrow> bytes \<times> socket_addr \<times> u32 option \<Rightarrow> 'w \<Rightarrow> bool" where
  "envelope_arrived E time t x w \<longleftrightarrow> (\<exists>w'. t \<le> time w' \<and> time w' < time w \<and> fst (ev_receive E w') = Inr x)"

lemma lasting_envelope_arrived [lasts]: "lasting time (envelope_arrived E time t x)"
  unfolding lasting_def envelope_arrived_def by (blast intro: less_le_trans)

lemma runs_receive_plain:
  fixes E :: "('w, 'x) pairing_env_scheme"
  assumes "pairing_runs E time" and "lasting time I"
  shows "runs (\<lambda>w. I w \<and> t0 \<le> time w \<and> t \<le> time w)
    (receive_plain E :: (('w, 's, 'z) pairing_scheme, host_error, (bytes \<times> socket_addr \<times> u32 option) option) io) (\<lambda>r w. t < time w \<and>
    (\<forall>x. r = Some x \<longrightarrow> envelope_arrived E time t0 x w))" (is "runs ?I _ ?Q")
  unfolding runs_def receive_plain_def
proof (intro allI impI)
  fix st :: "('w, 's, 'z) pairing_scheme" assume I: "?I (world st)"
  let ?w = "snd (ev_receive E (world st))"
  note D = pairing_runsD(2) [OF assms(1), of "world st"]
  have "I ?w" by (rule lastingD [OF assms(2)]) (use I D in auto)
  moreover have "fst (ev_receive E (world st)) = Inr x \<Longrightarrow> envelope_arrived E time t0 x ?w" for x
    using I D unfolding envelope_arrived_def by (intro exI [of _ "world st"]) simp
  ultimately show "io_ends (io_bind (io_world (ev_receive E)) (\<lambda>r. case r of
       Inl e \<Rightarrow> if err_kind e \<in> {TimedOut, WouldBlock} then io_return None else io_fail (HostIo e)
     | Inr x \<Rightarrow> io_return (Some x))) st (ran ?I ?Q st)"
    using I D by (auto intro!: ran_at split: sum.split)
qed

lemma keep_clock:
  assumes "pairing_runs E time" and "lasting time I"
  shows "runs I (io_now E) (\<lambda>_ _. True)" "runs I (io_elapsed E d) (\<lambda>_ _. True)"
proof -
  show *: "runs I (io_now E) (\<lambda>_ _. True)"
    by (rule keep_world) (rule lastingD [OF assms(2) _ socket_runsD(7) [OF pairing_runsD(1) [OF assms(1)]]])
  show "runs I (io_elapsed E d) (\<lambda>_ _. True)"
    unfolding io_elapsed_def by (intro keep_then [OF keep_world] runs_return)
      (auto intro: lastingD [OF assms(2) _ socket_runsD(7) [OF pairing_runsD(1) [OF assms(1)]]])
qed

lemma runs_clock:
  assumes "pairing_runs E time" and "lasting time I"
  shows "runs (\<lambda>w. I w \<and> t \<le> time w) (io_now E) (\<lambda>x _. t \<le> x)"
proof (rule runs_world)
  fix w assume "I w \<and> t \<le> time w"
  with clock_runsD(1,2) [OF socket_runsD(1) [OF pairing_runsD(1) [OF assms(1)]], of w]
  show "(I (snd (ev_now E w)) \<and> t \<le> time (snd (ev_now E w))) \<and> t \<le> fst (ev_now E w)"
    by (auto intro: lastingD [OF assms(2)])
qed

lemma keep_recheck:
  assumes "pairing_runs E time" and "lasting time I" and "runs I check (\<lambda>_ _. True)"
  shows "runs I (recheck E check d) (\<lambda>_ _. True)"
  unfolding recheck_def io_seq_def
  by (intro keep_then [OF keep_clock(2) [OF assms(1,2)]]) (auto intro!: keep_then [OF assms(3)] keep_clock [OF assms(1,2)] runs_return)

lemma runs_if: "(b \<Longrightarrow> runs I m Q) \<Longrightarrow> (\<not> b \<Longrightarrow> runs I k Q) \<Longrightarrow> runs I (if b then m else k) Q"
  by simp

lemma keep_same_listener:
  assumes "discovery_runs E time" and "lasting time I"
  shows "runs I (same_listener E transport l) (\<lambda>_ _. True)"
  unfolding same_listener_def
  by (intro keep_then [OF keep_net [OF assms select_total]]) (auto intro: runs_return runs_fail)

lemma keep_bind_socket:
  assumes "discovery_runs E time" and "lasting time I"
  shows "runs I (bind_socket E transport port) (\<lambda>_ _. True)"
proof -
  have "runs I (io_sys (pw_bind E l port)) (\<lambda>_ _. True)" for l
    by (rule keep_sys) (rule lastingD [OF assms(2) _ pairing_runsD(7) [OF discovery_runsD(1) [OF assms(1)]]])
  then show ?thesis
    unfolding bind_socket_def io_seq_def
    by (intro keep_then [OF keep_net [OF assms select_total]] keep_then) (auto intro: runs_return)
qed

lemma keep_plain:
  assumes "pairing_runs E time" and "lasting time I"
  shows "runs I (send_plain_redundant E d peer) (\<lambda>_ _. True)"
proof -
  have "runs I (io_sys (pw_send_to E d peer)) (\<lambda>_ _. True)"
    by (rule keep_sys) (rule lastingD [OF assms(2) _ pairing_runsD(8) [OF assms(1)]])
  then have "runs I (send_plain E d peer) (\<lambda>_ _. True)"
    unfolding send_plain_def by (rule keep_then) (auto intro: runs_return runs_fail)
  then show ?thesis unfolding send_plain_redundant_def io_seq_def by (intro keep_then)
qed

section \<open>The request\<close>

type_synonym found_envelope = "bytes \<times> pair_envelope \<times> socket_addr \<times> network_binding"

text \<open>
  An envelope that was received since \<open>t\<close> through the interface of the listener, with the binding that
  its sender was found on.
\<close>

definition envelope_found ::
  "('w, 'x) pairing_env_scheme \<Rightarrow> ('w \<Rightarrow> instant) \<Rightarrow> instant \<Rightarrow> transport_kind \<Rightarrow> listener_interface \<Rightarrow> (pair_envelope \<Rightarrow> bool) \<Rightarrow>
   found_envelope \<Rightarrow> 'w \<Rightarrow> bool" where
  "envelope_found E time t transport l wanted = (\<lambda>(d, env, peer, b) w.
     (\<exists>i. envelope_arrived E time t (d, peer, i) w \<and> listener_accepts_ingress l i) \<and>
     decode_pair_envelope d = Done env \<and> pe_transport env = transport \<and> wanted env \<and>
     (\<exists>w'. t \<le> time w' \<and> time w' \<le> time w \<and> binding_for_peer (fst (pw_system E w')) peer transport l = Done b))"

lemma lasting_found [lasts]: "lasting time (envelope_found E time t transport l wanted x)"
  unfolding envelope_found_def by (cases x) (simp, intro lasts)

lemma envelope_received_runs:
  fixes E :: "('w, 'x) pairing_env_scheme"
  assumes env: "discovery_runs E time" and I: "lasting time I"
  shows "runs (\<lambda>w. I w \<and> t0 \<le> time w \<and> t < time w \<and> envelope_arrived E time t0 (d, peer, i) w)
    (envelope_received E transport l wanted checked d peer i :: (('w, 's, 'z) pairing_scheme, host_error, (instant, found_envelope) flow) io)
    (\<lambda>fl w. case fl of Continue y \<Rightarrow> t < time w | Break x \<Rightarrow> envelope_found E time t0 transport l wanted x w)"
    (is "runs ?I _ ?Q")
proof -
  have found: "runs ?I (io_bind (io_attempt (io_net E (\<lambda>sys. binding_for_peer sys peer transport l))) (\<lambda>r.
      case r of Inl _ \<Rightarrow> io_return (Continue checked) | Inr b \<Rightarrow> io_return (Break (d, env, peer, b))) :: (('w, 's, 'z) pairing_scheme, host_error, (instant, found_envelope) flow) io) ?Q"
    if "listener_accepts_ingress l i" "decode_pair_envelope d = Done env" "pe_transport env = transport" "wanted env" for env
  proof (rule runs_bind [OF runs_attempt])
    have J: "lasting time (\<lambda>w. I w \<and> t < time w \<and> envelope_arrived E time t0 (d, peer, i) w)" by (intro lasts I)
    have eq: "(\<lambda>w. (I w \<and> t < time w \<and> envelope_arrived E time t0 (d, peer, i) w) \<and> t0 \<le> time w) = ?I" by auto
    show "runs ?I (io_net E (\<lambda>sys. binding_for_peer sys peer transport l) :: (('w, 's, 'z) pairing_scheme, host_error, network_binding) io)
        (\<lambda>b w. \<exists>w'. t0 \<le> time w' \<and> time w' \<le> time w \<and> binding_for_peer (fst (pw_system E w')) peer transport l = Done b)"
      using runs_net [where f = "\<lambda>sys. binding_for_peer sys peer transport l" and t = t0, OF env J] binding_total
      unfolding eq by blast
  qed (use that in \<open>auto intro!: runs_return simp: envelope_found_def split: sum.split\<close>)
  show ?thesis
  proof (cases "decode_pair_envelope d")
    case (Done env)
    show ?thesis
      unfolding envelope_received_def Done outcome.case by (intro runs_if runs_return found Done) simp_all
  qed (use decode_envelope_total in \<open>auto simp: envelope_received_def intro!: runs_return\<close>)
qed

lemma wait_for_envelope_runs:
  fixes E :: "('w, 'x) pairing_env_scheme"
  assumes env: "discovery_runs E time" and I: "lasting time I"
  shows "runs (\<lambda>w. I w \<and> t0 \<le> time w)
    (wait_for_envelope_owned E deadline transport l wanted ::
      (('w, 's, 'z) pairing_scheme, host_error, found_envelope) io)
    (envelope_found E time t0 transport l wanted)"
proof -
  note pair = discovery_runsD(1) [OF env]
  have body: "runs (\<lambda>w. (I w \<and> t0 \<le> time w) \<and> t \<le> time w)
      (envelope_attempt E deadline transport l wanted checked ::
        (('w, 's, 'z) pairing_scheme, host_error, (instant, found_envelope) flow) io)
      (\<lambda>fl w. case fl of Continue y \<Rightarrow> t < time w \<and> t < deadline | Break x \<Rightarrow> envelope_found E time t0 transport l wanted x w)"
    (is "runs ?I _ ?Q") for t checked
  proof -
    have J: "lasting time (\<lambda>w. I w \<and> t0 \<le> time w)" "lasting time ?I" by (intro lasts I)+
    have received: "runs (\<lambda>w. ?I w \<and> t < time w \<and> (\<forall>x. r = Some x \<longrightarrow> envelope_arrived E time t0 x w))
        ((case r of None \<Rightarrow> io_return (Continue checked)
         | Some (d, peer, i) \<Rightarrow> envelope_received E transport l wanted checked d peer i) ::
          (('w, 's, 'z) pairing_scheme, host_error, (instant, found_envelope) flow) io) ?Q"
      if "t < deadline" for r checked
    proof (cases r)
      case (Some x)
      obtain d peer i where x: "x = (d, peer, i)" by (cases x)
      have "(\<lambda>w. (I w \<and> t \<le> time w) \<and> t0 \<le> time w \<and> t < time w \<and> envelope_arrived E time t0 (d, peer, i) w) =
          (\<lambda>w. ?I w \<and> t < time w \<and> (\<forall>x. r = Some x \<longrightarrow> envelope_arrived E time t0 x w))" by (auto simp: Some x)
      moreover have "lasting time (\<lambda>w. I w \<and> t \<le> time w)" by (intro lasts I)
      from envelope_received_runs [OF env this, of t0 t d peer i transport l wanted checked]
      have "runs (\<lambda>w. (I w \<and> t \<le> time w) \<and> t0 \<le> time w \<and> t < time w \<and> envelope_arrived E time t0 (d, peer, i) w)
        (envelope_received E transport l wanted checked d peer i ::
          (('w, 's, 'z) pairing_scheme, host_error, (instant, found_envelope) flow) io) ?Q"
        by (rule runs_mono) (use that in \<open>auto split: flow.splits\<close>)
      ultimately show ?thesis by (simp add: Some x)
    qed (use that in \<open>auto intro: runs_return\<close>)
    have receive: "runs ?I (io_bind (receive_plain E) (\<lambda>r. case r of None \<Rightarrow> io_return (Continue checked)
         | Some (d, peer, i) \<Rightarrow> envelope_received E transport l wanted checked d peer i) ::
          (('w, 's, 'z) pairing_scheme, host_error, (instant, found_envelope) flow) io) ?Q"
      if "t < deadline" for checked
      by (rule runs_bind [OF _ received [OF that]])
        (use runs_receive_plain [OF pair I, of t0 t] in \<open>simp add: conj_assoc\<close>)
    show ?thesis
      unfolding envelope_attempt_def
    proof (rule runs_then [OF runs_clock [OF pair J(1)]])
      fix x assume "t \<le> x"
      then show "runs ?I ((if deadline \<le> x then io_fail HostTimedOut
          else io_bind (recheck E (same_listener E transport l) checked) (\<lambda>checked. io_bind (receive_plain E) (\<lambda>r. case r of
            None \<Rightarrow> io_return (Continue checked)
          | Some (d, peer, i) \<Rightarrow> envelope_received E transport l wanted checked d peer i))) ::
          (('w, 's, 'z) pairing_scheme, host_error, (instant, found_envelope) flow) io) ?Q"
        by (intro runs_if runs_fail keep_then [OF keep_recheck [OF pair J(2) keep_same_listener [OF env J(2)]]] receive) simp
    qed
  qed
  have J: "lasting time (\<lambda>w. I w \<and> t0 \<le> time w)" by (intro lasts I)
  show ?thesis
    unfolding wait_for_envelope_owned_def
    by (intro keep_then [OF keep_clock(1) [OF pair J]] runs_loop [where time = time and deadline = deadline] body)
qed

section \<open>The credentials\<close>

text \<open>What was in the store, since \<open>t\<close>.\<close>

definition stored :: "('w, 'x) pairing_env_scheme \<Rightarrow> ('w \<Rightarrow> instant) \<Rightarrow> instant \<Rightarrow> credentials \<Rightarrow> 'w \<Rightarrow> bool" where
  "stored E time t creds w \<longleftrightarrow> (\<exists>w' bs. t \<le> time w' \<and> time w' \<le> time w \<and> fst (cs_load E w') = Inr (Some bs) \<and>
     cs_decode E bs = Some creds)"

lemma lasting_stored [lasts]: "lasting time (stored E time t creds)"
  unfolding lasting_def stored_def by (blast intro: order_trans)

lemma validate_total: "validate c \<noteq> Panic"
  by (simp add: validate_def)

lemma keep_store_call [keep]: "(\<And>w. I w \<Longrightarrow> I (snd (f w))) \<Longrightarrow> runs I (store_call f) (\<lambda>_ _. True)"
  unfolding store_call_def by (auto intro!: keep_then keep split: sum.split)

text \<open>New credentials know no phone; others come from the store.\<close>

lemma load_runs:
  fixes E :: "('w, 'x) pairing_env_scheme"
  assumes env: "pairing_runs E time"
  shows "runs (\<lambda>w. t \<le> time w) (load E :: (('w, 'z) machine_scheme, credential_error, credentials option) io)
    (\<lambda>found w. \<forall>c. found = Some c \<longrightarrow> stored E time t c w)"
proof -
  let ?Q = "\<lambda>r w. \<forall>bs c. r = Some bs \<longrightarrow> cs_decode E bs = Some c \<longrightarrow> stored E time t c w"
  have call: "runs (\<lambda>w. t \<le> time w) (store_call (cs_load E) :: (('w, 'z) machine_scheme, credential_error, bytes option) io) ?Q"
    unfolding runs_def store_call_def
  proof (intro allI impI)
    fix st :: "('w, 'z) machine_scheme" assume t: "t \<le> time (world st)"
    note D = pairing_runsD(3) [OF env, of "world st"]
    have "fst (cs_load E (world st)) = Inr (Some bs) \<Longrightarrow> cs_decode E bs = Some c \<Longrightarrow>
        stored E time t c (snd (cs_load E (world st)))" for bs c
      using t D by (auto simp: stored_def)
    with t D show "io_ends (io_bind (io_world (cs_load E)) (\<lambda>r. case r of Inl e \<Rightarrow> io_fail e | Inr x \<Rightarrow> io_return x)) st
        (ran (\<lambda>w. t \<le> time w) ?Q st)"
      by (auto intro!: ran_at split: sum.split)
  qed
  show ?thesis
    unfolding load_def
    by (rule runs_bind [OF call])
      (auto intro!: runs_return runs_fail keep_then [OF keep_lift] validate_total split: option.split)
qed

lemma load_or_create_runs:
  fixes E :: "('w, 'x) pairing_env_scheme"
  assumes env: "pairing_runs E time"
  shows "runs (\<lambda>w. t \<le> time w) (load_or_create E :: (('w, 'z) machine_scheme, credential_error, credentials) io)
    (\<lambda>c w. paired_phone_public_key c \<noteq> None \<longrightarrow> stored E time t c w)"
proof -
  let ?I = "\<lambda>w. t \<le> time w"
  have I: "lasting time ?I" by (intro lasts)
  have generate: "runs ?I (generate E :: (('w, 'z) machine_scheme, credential_error, credentials) io)
      (\<lambda>c _. paired_phone_public_key c = None)"
    unfolding generate_def
    by (rule keep_then [OF keep_world], rule lastingD [OF I _ pairing_runsD(5) [OF env]])
      (auto intro!: runs_return runs_fail split: option.split)
  have save: "runs ?I (save E c :: (('w, 'z) machine_scheme, credential_error, unit) io) (\<lambda>_ _. True)" for c
    unfolding save_def
    by (rule keep_then [OF keep_lift [OF validate_total]])
      (auto intro!: runs_fail keep_store_call lastingD [OF I _ pairing_runsD(4) [OF env]] split: option.split)
  have create: "runs ?I (io_bind (generate E) (\<lambda>c. io_bind (save E c) (\<lambda>_. io_return c)) ::
      (('w, 'z) machine_scheme, credential_error, credentials) io) (\<lambda>c w. paired_phone_public_key c \<noteq> None \<longrightarrow> stored E time t c w)"
    by (rule runs_then [OF generate]) (auto intro!: keep_then [OF save] runs_return)
  show ?thesis
    unfolding load_or_create_def
  proof (rule runs_bind [OF load_runs [OF env]], goal_cases)
    case (1 found)
    show ?case
    proof (cases found)
      case None
      then show ?thesis using create by simp
    qed (auto intro: runs_return)
  qed
qed

section \<open>The connection\<close>

text \<open>A computation that opens a connection, and changes nothing else but the world.\<close>

definition opens :: "('w \<Rightarrow> bool) \<Rightarrow> (('w, 's, 'z) session_scheme, 'e, unit) io \<Rightarrow> (connection \<Rightarrow> 'w \<Rightarrow> bool) \<Rightarrow> bool" where
  "opens I m Q \<longleftrightarrow> (\<forall>st. I (world st) \<longrightarrow> io_ends m st (\<lambda>r st'. \<exists>w. I w \<and>
     (case r of Done _ \<Rightarrow> \<exists>c. st' = st\<lparr>world := w, conn := c\<rparr> \<and> Q c w
      | Fail _ \<Rightarrow> st' = st\<lparr>world := w\<rparr> | Panic \<Rightarrow> False)))"

lemma opens_bind:
  fixes m :: "(('w, 's, 'z) session_scheme, 'e, 'a) io"
  assumes "runs I m P" and "\<And>x. opens (\<lambda>w. I w \<and> P x w) (f x) Q"
  shows "opens I (io_bind m f) Q"
  unfolding opens_def io_ends_bind
proof (intro allI impI)
  fix st :: "('w, 's, 'z) session_scheme" assume "I (world st)"
  with assms(1) have "io_ends m st (ran I P st)" by (simp add: runs_def)
  then show "io_ends m st (then_ends f (\<lambda>r st'. \<exists>w. I w \<and> (case r of Done _ \<Rightarrow> \<exists>c. st' = st\<lparr>world := w, conn := c\<rparr> \<and> Q c w
      | Fail _ \<Rightarrow> st' = st\<lparr>world := w\<rparr> | Panic \<Rightarrow> False)))"
  proof (rule io_ends_mono, goal_cases)
    case (1 r st')
    then obtain w where w: "st' = st\<lparr>world := w\<rparr>" "I w" "r \<noteq> Panic" "\<forall>x. r = Done x \<longrightarrow> P x w" by (auto simp: ran_def)
    show ?case
    proof (cases r)
      case (Done x)
      have "I (world st') \<and> P x (world st')" using w Done by simp
      with assms(2) [of x] have "io_ends (f x) st' (\<lambda>r st2. \<exists>w. (I w \<and> P x w) \<and>
          (case r of Done _ \<Rightarrow> \<exists>c. st2 = st'\<lparr>world := w, conn := c\<rparr> \<and> Q c w
           | Fail _ \<Rightarrow> st2 = st'\<lparr>world := w\<rparr> | Panic \<Rightarrow> False))" by (simp add: opens_def)
      then show ?thesis
        unfolding Done then_ends.simps
        by (rule io_ends_mono) (auto simp: w(1) split: outcome.splits)
    qed (use w in auto)
  qed
qed

lemma opens_then: "runs I m (\<lambda>x _. P x) \<Longrightarrow> (\<And>x. P x \<Longrightarrow> opens I (f x) Q) \<Longrightarrow> opens I (io_bind m f) Q"
  by (rule opens_bind, assumption) (auto simp: opens_def)

lemma opens_fail: "opens I (io_fail e) Q"
  unfolding opens_def io_ends_fail outcome.case
proof (intro allI impI)
  fix st :: "('a, 'b, 'c) session_scheme" assume "I (world st)"
  then show "\<exists>w. I w \<and> st = st\<lparr>world := w\<rparr>" by (intro exI [of _ "world st"]) simp
qed

lemma opens_socket:
  fixes E :: "('w, 'x) pairing_env_scheme"
  assumes env: "pairing_runs E time" and I: "lasting time I" and "\<And>w. I w \<Longrightarrow> Q (connection_new peer b cipher (Some cached)) w"
  shows "opens I (connect_socket E peer b cipher cached :: (('w, 's, 'z) pairing_scheme, host_error, unit) io) Q"
proof -
  have connect: "runs I (io_sys (pw_connect E peer)) (\<lambda>_ _. True)"
    by (rule keep_sys) (rule lastingD [OF I _ pairing_runsD(9) [OF env]])
  have timeout: "runs I (set_read_timeout E d) (\<lambda>_ _. True)" for d
    unfolding set_read_timeout_def by (rule keep_sys) (rule lastingD [OF I _ socket_runsD(4) [OF pairing_runsD(1) [OF env]]])
  have adopt: "opens I (io_update (\<lambda>st :: ('w, 's, 'z) pairing_scheme. st\<lparr>conn := connection_new peer b cipher (Some cached)\<rparr>)) Q"
    unfolding opens_def io_ends_update outcome.case
  proof (intro allI impI)
    fix st :: "('w, 's, 'z) pairing_scheme" assume "I (world st)"
    with assms(3) show "\<exists>w. I w \<and> (\<exists>c. st\<lparr>conn := connection_new peer b cipher (Some cached)\<rparr> = st\<lparr>world := w, conn := c\<rparr> \<and> Q c w)"
      by (intro exI [of _ "world st"] conjI exI [of _ "connection_new peer b cipher (Some cached)"]) simp_all
  qed
  show ?thesis
    unfolding connect_socket_def io_seq_def
    by (rule opens_then [OF connect]) (rule opens_then [OF timeout adopt])
qed

section \<open>The phone\<close>

text \<open>The keys of a connection come from the IK handshake, with \<open>d\<close> its request, of the paired phone.\<close>

definition ik_connection :: "'h noise \<Rightarrow> (bytes \<Rightarrow> bytes) \<Rightarrow> transport_kind \<Rightarrow> credentials \<Rightarrow> bytes \<Rightarrow> record_cipher \<Rightarrow> bool" where
  "ik_connection N blake2s transport creds d cipher \<longleftrightarrow>
     (\<exists>env hs0 hs1 phone message hs2. decode_pair_envelope d = Done env \<and> is_ik_request env \<and> pe_transport env = transport \<and>
        ns_build N IK_NAME False (cr_private_key creds) (prologue transport (pe_exchange_id env)) = Some hs0 \<and>
        ns_read N hs0 (pe_payload env) = Some hs1 \<and> ns_remote N hs1 = Some phone \<and>
        paired_phone_public_key creds = Some phone \<and> ns_write N hs1 = Some (message, hs2) \<and>
        from_handshake blake2s (ns_view N hs2) False = Done cipher)"

definition recognised ::
  "('w, 'x) pairing_env_scheme \<Rightarrow> ('w \<Rightarrow> instant) \<Rightarrow> instant \<Rightarrow> 'h noise \<Rightarrow> (bytes \<Rightarrow> bytes) \<Rightarrow> transport_kind \<Rightarrow>
   connection \<Rightarrow> 'w \<Rightarrow> bool" where
  "recognised E time t N blake2s transport c w \<longleftrightarrow> (\<exists>creds d i. stored E time t creds w \<and>
     envelope_arrived E time t (d, cn_peer c, i) w \<and> binding_accepts (cn_binding c) i \<and>
     ik_connection N blake2s transport creds d (cn_cipher c)) \<and>
     (\<exists>l w'. t \<le> time w' \<and> time w' \<le> time w \<and>
        binding_for_peer (fst (pw_system E w')) (cn_peer c) transport l = Done (cn_binding c))"

lemma lasting_recognised [lasts]: "lasting time (recognised E time t N blake2s transport c)"
  unfolding recognised_def by (intro lasts)

lemma listener_binding:
  assumes "binding_for_peer sys peer transport l = Done b" and "listener_accepts_ingress l i"
  shows "binding_accepts b i"
proof (cases transport)
  case Usb
  then obtain u where "if_index (tb_identity u) = li_index l" "b = UsbBinding u l"
    using assms(1) by (auto simp: binding_for_peer_def and_then_Done split: option.split_asm if_split_asm)
  with assms(2) show ?thesis by (simp add: listener_accepts_ingress_def accepts_ingress_interface_def)
next
  case Wifi
  with assms(1) have "matches_listener b l" and "wifi_binding sys peer = Done b"
    by (auto simp: binding_for_peer_def and_then_Done split: if_split_asm)
  then show ?thesis using assms(2)
    by (cases b) (auto simp: listener_accepts_ingress_def accepts_ingress_interface_def)
qed

lemma accept_remembered_opens:
  fixes E :: "('w, 'x) pairing_env_scheme"
  assumes env: "discovery_runs E time" and blake: "\<forall>bs. length (blake2s bs) = 32"
  shows "opens (\<lambda>w. t \<le> time w)
    (accept_remembered E N blake2s transport port deadline :: (('w, 's, 'z) pairing_scheme, host_error, unit) io)
    (recognised E time t N blake2s transport)"
proof -
  note pair = discovery_runsD(1) [OF env]
  let ?C = "\<lambda>creds w. t \<le> time w \<and> stored E time t creds w"
  have rest: "opens (\<lambda>w. ?C creds w \<and> envelope_found E time t transport l is_ik_request (d, request, peer, b) w)
    (io_bind (build_handshake N IK_NAME False (cr_private_key creds) (prologue transport (pe_exchange_id request))) (\<lambda>hs0.
     io_bind (io_some HostNoise (ns_read N hs0 (pe_payload request))) (\<lambda>hs1.
     io_bind (io_some HostAuthentication (ns_remote N hs1)) (\<lambda>actual_phone.
     if actual_phone \<noteq> phone then io_fail HostAuthentication else
     io_bind (io_some HostNoise (ns_write N hs1)) (\<lambda>(message, hs2).
     io_bind (io_lift (from_wire (encode_pair_envelope IK_CONTINUE (pe_exchange_id request) 2 transport message))) (\<lambda>response.
     io_seq (send_plain_redundant E response peer)
     (io_bind (io_lift (from_wire (from_handshake blake2s (ns_view N hs2) False))) (\<lambda>cipher.
       connect_socket E peer b cipher (d, response)))))))) :: (('w, 's, 'z) pairing_scheme, host_error, unit) io)
    (recognised E time t N blake2s transport)" (is "opens ?I _ ?Q")
    if phone: "paired_phone_public_key creds = Some phone" for creds phone l d request peer b
  proof -
    have I: "lasting time ?I" by (intro lasts)
    have sends: "runs ?I (send_plain_redundant E response peer :: (('w, 's, 'z) pairing_scheme, host_error, unit) io) (\<lambda>_ _. True)"
      for response by (rule keep_plain [OF pair I])
    have encode: "runs ?I (io_lift (from_wire (encode_pair_envelope k x s tr p)) :: (('w, 's, 'z) pairing_scheme, host_error, bytes) io)
        (\<lambda>_ _. True)" for k x s tr p
      by (rule keep_lift) (simp add: encode_envelope_total)
    have cipher: "runs ?I (io_lift (from_wire (from_handshake blake2s hs False)) :: (('w, 's, 'z) pairing_scheme, host_error, record_cipher) io)
        (\<lambda>c _. from_handshake blake2s hs False = Done c)" for hs
      using from_handshake_total [OF blake, of hs False]
      by (cases "from_handshake blake2s hs False") (auto intro!: runs_lift)
    have known: "?Q (connection_new peer b cipher (Some cached)) w"
      if "?I w" "ns_build N IK_NAME False (cr_private_key creds) (prologue transport (pe_exchange_id request)) = Some hs0"
        "ns_read N hs0 (pe_payload request) = Some hs1" "ns_remote N hs1 = Some phone" "ns_write N hs1 = Some (message, hs2)"
        "from_handshake blake2s (ns_view N hs2) False = Done cipher" for hs0 hs1 message hs2 cipher cached w
    proof -
      have "ik_connection N blake2s transport creds d cipher"
        unfolding ik_connection_def using that phone by (auto simp: envelope_found_def)
      with that(1) show ?thesis
        by (auto simp: recognised_def envelope_found_def connection_new_def dest: listener_binding)
    qed
    show ?thesis
      unfolding build_handshake_def
    proof (intro opens_then [OF runs_some], goal_cases)
      case (1 hs0 hs1 actual)
      show ?case
      proof (cases "actual = phone")
        case True
        have socket: "opens ?I (connect_socket E peer b cipher cached :: (('w, 's, 'z) pairing_scheme, host_error, unit) io) ?Q"
          if "ns_write N hs1 = Some (message, hs2)" "from_handshake blake2s (ns_view N hs2) False = Done cipher" for message hs2 cipher cached
          by (rule opens_socket [OF pair I], rule known) (use 1 True that in auto)
        have reply: "opens ?I (io_bind (io_lift (from_wire (encode_pair_envelope IK_CONTINUE (pe_exchange_id request) 2 transport message))) (\<lambda>response.
            io_seq (send_plain_redundant E response peer)
            (io_bind (io_lift (from_wire (from_handshake blake2s (ns_view N hs2) False))) (\<lambda>cipher.
              connect_socket E peer b cipher (d, response)))) :: (('w, 's, 'z) pairing_scheme, host_error, unit) io) ?Q"
          if "ns_write N hs1 = Some (message, hs2)" for message hs2
          unfolding io_seq_def
          by (intro opens_then [OF encode] opens_then [OF sends] opens_then [OF cipher] socket [OF that])
        show ?thesis
          unfolding True
          by (simp only: not_True_eq_False if_False simp_thms) (rule opens_then [OF runs_some], simp only: split_paired_all prod.case, rule reply)
      qed (simp add: opens_fail)
    qed
  qed
  have I: "lasting time (?C creds)" "lasting time (\<lambda>w. t \<le> time w)" for creds by (intro lasts)+
  have creds: "runs (\<lambda>w. t \<le> time w) (io_convert (\<lambda>_. HostCredentials) (load_or_create E) ::
      (('w, 's, 'z) pairing_scheme, host_error, credentials) io) (\<lambda>c w. paired_phone_public_key c \<noteq> None \<longrightarrow> stored E time t c w)"
    by (rule runs_convert [OF load_or_create_runs [OF pair]])
  have wait: "runs (?C creds) (wait_for_envelope_owned E deadline transport l is_ik_request ::
      (('w, 's, 'z) pairing_scheme, host_error, found_envelope) io) (envelope_found E time t transport l is_ik_request)" for creds l
  proof -
    have "lasting time (stored E time t creds)" by (intro lasts)
    from wait_for_envelope_runs [OF env this, of t] show ?thesis by (simp add: conj_commute)
  qed
  have bound: "runs (?C creds) (bind_socket E transport port :: (('w, 's, 'z) pairing_scheme, host_error, listener_interface) io) (\<lambda>_ _. True)"
    for creds by (rule keep_bind_socket [OF env I(1)])
  show ?thesis
    unfolding accept_remembered_def
  proof (rule opens_bind [OF creds], rule opens_then [OF runs_some], goal_cases)
    case (1 c phone)
    then have "(\<lambda>w. t \<le> time w \<and> (paired_phone_public_key c \<noteq> None \<longrightarrow> stored E time t c w)) = ?C c" by simp
    then show ?case
      by (simp only:) (rule opens_then [OF bound], rule opens_bind [OF wait],
        simp only: split_paired_all prod.case Let_def, rule rest [OF 1])
  qed
qed

text \<open>
  C3: only the paired phone is accepted again. Whatever the network, the store and the kernel answer, if
  time does not go back and a receive takes time, \<open>accept_remembered\<close> returns without a panic and changes
  nothing of the host but its connection. When it succeeds, the credentials that were in the store during
  the call name a phone whose static key is the one that the IK handshake authenticated; the request came
  from the peer of the connection through an interface that its binding accepts, and the peer was found on
  that binding during the call; and the keys of the connection are those of the handshake.
\<close>

theorem remembered_phone_only:
  fixes E :: "('w, 'x) pairing_env_scheme" and st :: "('w, 's, 'z) pairing_scheme"
  assumes "discovery_runs E time" and "\<forall>bs. length (blake2s bs) = 32"
  shows "\<exists>r st'. accept_remembered E N blake2s transport port deadline st = Some (r, st') \<and> r \<noteq> Panic \<and>
    st' = st\<lparr>world := world st', conn := conn st'\<rparr> \<and>
    (r = Done () \<longrightarrow> recognised E time (time (world st)) N blake2s transport (conn st') (world st'))"
proof -
  from accept_remembered_opens [OF assms, of "time (world st)" N transport port deadline]
  obtain r st' w where run: "accept_remembered E N blake2s transport port deadline st = Some (r, st')"
    and out: "case r of Done _ \<Rightarrow> \<exists>c. st' = st\<lparr>world := w, conn := c\<rparr> \<and>
        recognised E time (time (world st)) N blake2s transport c w
      | Fail _ \<Rightarrow> st' = st\<lparr>world := w\<rparr> | Panic \<Rightarrow> False"
    unfolding opens_def io_ends_def by blast
  then show ?thesis by (cases r) auto
qed

text \<open>A paired phone on the Wi-Fi of the host, whose request is there whenever the host asks.\<close>

definition phone_peer :: socket_addr where
  "phone_peer = \<lparr>sa_ip = V4 0xc0a80114, sa_port = 9\<rparr>"

definition paired_store :: credentials where
  "paired_store = \<lparr>cr_version = 1, cr_private_key = replicate 32 1, cr_public_key = replicate 32 2,
     paired_phone_public_key = Some (replicate 32 9), paired_phone_name = None\<rparr>"

definition ik_request :: bytes where
  "ik_request = envelope_bytes \<lparr>pe_kind = IK_MESSAGE_1, pe_exchange_id = replicate 16 3, pe_step = 1, pe_transport = Wifi,
     pe_payload = [6]\<rparr>"

definition remember_env :: "nat pairing_env" where
  "remember_env = \<lparr>ev_now = (\<lambda>w. (w, w)), ev_stopping = (\<lambda>w. (False, w)), ev_yield = (\<lambda>w. ((), Suc w)),
     ev_publish = (\<lambda>e w. (True, w)), ev_receive = (\<lambda>w. (Inr (ik_request, phone_peer, Some 3), Suc w)),
     ev_send = (\<lambda>d w. (Inr (length d), w)), ev_set_timeout = (\<lambda>d w. (Inr (), w)),
     ev_changed = (\<lambda>w. (False, w)), ev_monitor = (\<lambda>w. (Inr (), w)), cs_load = (\<lambda>w. (Inr (Some []), w)),
     cs_save = (\<lambda>bs w. (Inr (), w)), cs_generate = (\<lambda>w. (None, w)),
     cs_encode = (\<lambda>_. Some []), cs_decode = (\<lambda>_. Some paired_store),
     pw_system = (\<lambda>w. (sample_system, w)), pw_bind = (\<lambda>l p w. (Inr (), w)),
     pw_send_to = (\<lambda>d p w. (Inr (length d), w)), pw_connect = (\<lambda>p w. (Inr (), w)),
     pw_command = (\<lambda>w. (NoCommand, w)), pw_random = (\<lambda>n w. (None, w))\<rparr>"

definition remember_start :: "(nat, unit) pairing" where
  "remember_start = \<lparr>world = 0, metrics = metrics_new True 5 0, sink = (), ordered = ordered_new, trace = [],
     conn = connection_new phone_peer (WifiBinding 0 0 0 None) (from_keys [] [] 0) None, remarks = []\<rparr>"

lemma sample_system_answers: "lan_answers sample_system"
  by (simp add: lan_answers_def net_answers_def sample_system_def net_system.truncate_def)

lemma remember_env_runs: "discovery_runs remember_env (\<lambda>w. w)"
  using sample_system_answers
  by (simp add: discovery_runs_def pairing_runs_def socket_runs_def clock_runs_def remember_env_def)

lemma ik_request_decodes:
  obtains env where "decode_pair_envelope ik_request = Done env" "is_ik_request env" "pe_transport env = Wifi"
proof
  let ?env = "\<lparr>pe_kind = IK_MESSAGE_1, pe_exchange_id = replicate 16 3, pe_step = 1, pe_transport = Wifi, pe_payload = [6]\<rparr>"
  show "decode_pair_envelope ik_request = Done ?env" unfolding decode_envelope_iff by (simp add: ik_request_def)
qed (simp_all add: is_ik_request_def)

lemma ik_reply: "\<exists>bs. encode_pair_envelope IK_CONTINUE x 2 Wifi [7] = Done bs"
  by (simp add: encode_pair_envelope_def Let_def)

lemma paired_store_valid: "validate paired_store = Done ()"
  by code_simp

lemma remembered: "\<exists>st'. accept_remembered remember_env demo_noise demo_hash Wifi 4711 5 remember_start = Some (Done (), st')"
proof -
  obtain env where env: "decode_pair_envelope ik_request = Done env" "is_ik_request env" "pe_transport env = Wifi"
    by (rule ik_request_decodes)
  have attempt: "envelope_attempt remember_env 5 Wifi sample_listener is_ik_request 0 (st :: (nat, unit) pairing) =
      Some (Done (Break (ik_request, env, phone_peer, WifiBinding 0xc0a8010a 0xc0a80100 0xffffff00 (Some 3))), st\<lparr>world := Suc (world st)\<rparr>)"
    if "world st = 0" for st
    using sample_bound env that
    by (simp add: envelope_attempt_def recheck_def io_elapsed_def receive_plain_def envelope_received_def io_net_def
        listener_accepts_ingress_def sample_listener_def remember_env_def phone_peer_def
        io_bind_def io_world_def io_return_def io_lift_def io_attempt_def)
  have load: "load_or_create remember_env st = Some (Done paired_store, st)" for st :: "(nat, unit) pairing"
    using paired_store_valid
    by (simp add: load_or_create_def load_def store_call_def remember_env_def io_bind_def io_world_def io_return_def io_lift_def)
  have bound: "bind_socket remember_env Wifi 4711 st = Some (Done sample_listener, st)" for st :: "(nat, unit) pairing"
    using sample_selected
    by (simp add: bind_socket_def io_net_def io_sys_def remember_env_def io_bind_def io_seq_def io_world_def io_return_def io_lift_def)
  obtain reply where "encode_pair_envelope IK_CONTINUE (pe_exchange_id env) 2 Wifi [7] = Done reply" using ik_reply by blast
  moreover obtain cipher where "from_handshake demo_hash (ns_view demo_noise 0) False = Done cipher"
    using from_handshake_total [of demo_hash "ns_view demo_noise 0" False]
    by (auto simp: from_handshake_def demo_noise_def demo_hash_def connection_id_def hash_parts_def)
  moreover have "connect_socket remember_env p b c x st = Some (Done (), st\<lparr>conn := connection_new p b c (Some x)\<rparr>)"
    for p b c x and st :: "(nat, unit) pairing"
    by (simp add: connect_socket_def set_read_timeout_def io_sys_def io_seq_def io_bind_def io_world_def io_return_def
        io_update_def remember_env_def)
  moreover have "send_plain_redundant remember_env d p st = Some (Done (), st)" for d p and st :: "(nat, unit) pairing"
    by (simp add: send_plain_redundant_def send_plain_def io_sys_def io_seq_def io_bind_def io_world_def io_return_def
        remember_env_def)
  moreover have "ev_now remember_env 0 = (0, 0)" by (simp add: remember_env_def)
  moreover have "paired_phone_public_key paired_store = Some (replicate 32 9)" "ns_build demo_noise n i k p = Some 0"
    "ns_read demo_noise 0 m = Some 0" "ns_remote demo_noise 0 = Some (replicate 32 9)" "ns_write demo_noise 0 = Some ([7], 0)"
    "world remember_start = 0" for n i k p m
    by (simp_all add: paired_store_def demo_noise_def remember_start_def)
  ultimately show ?thesis
    using attempt [of "remember_start\<lparr>world := 0\<rparr>"] load bound
    by (simp add: accept_remembered_def io_convert_def wait_for_envelope_owned_def io_loop.simps build_handshake_def io_some_def
        io_bind_def io_attempt_def io_seq_def io_return_def io_lift_def io_world_def)
qed

theorem remembered_phone_only_witness:
  "\<exists>st'. accept_remembered remember_env demo_noise demo_hash Wifi 4711 5 remember_start = Some (Done (), st') \<and>
     recognised remember_env (\<lambda>w. w) 0 demo_noise demo_hash Wifi (conn st') (world st')"
proof -
  have "\<forall>bs. length (demo_hash bs) = 32" by (simp add: demo_hash_def)
  from remembered_phone_only [OF remember_env_runs this, of demo_noise Wifi 4711 5 remember_start] remembered
  show ?thesis by (auto simp: remember_start_def)
qed

end
