(* ===== verification/Legacy_Link_Safety.thy ===== *)
theory Legacy_Link_Safety
  imports Legacy_Link World_Runs
begin

text \<open>
  What the link of protocol v4 guarantees, whatever arrives: reading returns by its deadline and gives
  nothing but frames of the session from the peer through the bound interface; a discovered peer is on
  a confirmed tether; the ancillary data of a datagram is never read out of bounds.
\<close>

section \<open>A world in which waiting takes time\<close>

definition udp_runs :: "('w, 'x) udp_env_scheme \<Rightarrow> ('w \<Rightarrow> instant) \<Rightarrow> bool" where
  "udp_runs E time \<longleftrightarrow> clock_runs E time \<and> (\<forall>w.
     time w < time (snd (ue_receive E w)) \<and> time w \<le> time (snd (ue_local_port E w)) \<and>
     (\<forall>p. time w \<le> time (snd (ue_open E p w))) \<and> (\<forall>q. time w \<le> time (snd (ue_option E q w))) \<and>
     (\<forall>d p. time w \<le> time (snd (ue_send_to E d p w))) \<and> time w \<le> time (snd (ue_system E w)) \<and>
     net_answers (fst (ue_system E w)))"

lemma udp_runsD:
  assumes "udp_runs E time"
  shows "clock_runs E time" "time w < time (snd (ue_receive E w))" "time w \<le> time (snd (ue_local_port E w))"
    "time w \<le> time (snd (ue_open E p w))" "time w \<le> time (snd (ue_option E q w))"
    "time w \<le> time (snd (ue_send_to E d peer w))" "time w \<le> time (snd (ue_system E w))"
    "net_answers (fst (ue_system E w))" "time w \<le> time (snd (ev_now E w))" "time w \<le> fst (ev_now E w)"
  using assms clock_runsD [of E time] by (auto simp: udp_runs_def)

lemma keep_os [keep]: "(\<And>w. I w \<Longrightarrow> I (snd (f w))) \<Longrightarrow> keeps I (io_os f)"
  unfolding io_os_def by (auto intro!: keep_then keep split: sum.split)

lemma keep_send:
  assumes "udp_runs E time" and "lasting time I"
  shows "keeps I (send_redundant E d peer)"
proof -
  have step: "keeps I (io_world (ue_send_to E d peer))"
    by (intro keep_world) (rule lastingD [OF assms(2) _ udp_runsD(6) [OF assms(1)]])
  have "keeps I (send_each E d peer n delivered e)" for n delivered e
  proof (induction n arbitrary: delivered e)
    case (Suc n)
    show ?case
      unfolding send_each.simps by (rule keep_then [OF step]) (auto intro: Suc split: sum.split)
  qed (auto intro!: keep)
  then show ?thesis by (simp add: send_redundant_def)
qed

lemma runs_tether:
  assumes "udp_runs E time" and "lasting time I" and "\<And>sys. net_answers sys \<Longrightarrow> f sys \<noteq> Panic"
  shows "runs (\<lambda>w. I w \<and> t \<le> time w) (io_tether E f)
    (\<lambda>x w. \<exists>w'. t \<le> time w' \<and> time w' \<le> time w \<and> f (fst (ue_system E w')) = Done x)"
  unfolding runs_def io_tether_def
proof (intro allI impI)
  fix st :: "('a, 'z) machine_scheme" assume I: "I (world st) \<and> t \<le> time (world st)"
  let ?w = "snd (ue_system E (world st))"
  note D = udp_runsD(7) [OF assms(1), of "world st"]
  have "I ?w" by (rule lastingD [OF assms(2) _ D]) (use I in simp)
  with I D show "io_ends (io_bind (io_world (ue_system E)) (\<lambda>sys. io_lift (f sys))) st
     (ran (\<lambda>w. I w \<and> t \<le> time w) (\<lambda>x w. \<exists>w'. t \<le> time w' \<and> time w' \<le> time w \<and> f (fst (ue_system E w')) = Done x) st)"
    using assms(3) [OF udp_runsD(8) [OF assms(1)]] by (auto intro!: ran_at)
qed

text \<open>A datagram was received during the call.\<close>

definition arrived :: "('w, 'x) udp_env_scheme \<Rightarrow> ('w \<Rightarrow> instant) \<Rightarrow> instant \<Rightarrow> bytes \<times> socket_addr \<times> u32 option \<Rightarrow> 'w \<Rightarrow> bool" where
  "arrived E time t x w \<longleftrightarrow> (\<exists>w'. t \<le> time w' \<and> time w' < time w \<and> fst (ue_receive E w') = Inr x)"

lemma lasting_arrived [lasts]: "lasting time (arrived E time t x)"
  unfolding lasting_def arrived_def by (blast intro: less_le_trans)

lemma runs_receive:
  assumes "udp_runs E time" and "lasting time I"
  shows "runs (\<lambda>w. I w \<and> t0 \<le> time w \<and> t \<le> time w) (receive_or_timeout E) (\<lambda>r w. t < time w \<and>
    (\<forall>x. r = Some x \<longrightarrow> arrived E time t0 x w))" (is "runs ?I _ ?Q")
  unfolding runs_def receive_or_timeout_def
proof (intro allI impI)
  fix st :: "('a, 'z) machine_scheme" assume I: "?I (world st)"
  let ?w = "snd (ue_receive E (world st))"
  note D = udp_runsD(2) [OF assms(1), of "world st"]
  have "I ?w" by (rule lastingD [OF assms(2)]) (use I D in auto)
  moreover have "fst (ue_receive E (world st)) = Inr x \<Longrightarrow> arrived E time t0 x ?w" for x
    using I D unfolding arrived_def by (intro exI [of _ "world st"]) simp
  ultimately show "io_ends (io_bind (io_world (ue_receive E)) (\<lambda>r. case r of
       Inl e \<Rightarrow> if err_kind e \<in> {TimedOut, WouldBlock} then io_return None else io_fail e
     | Inr x \<Rightarrow> io_return (Some x))) st (ran ?I ?Q st)"
    using I D by (auto intro!: ran_at split: sum.split)
qed

lemma discovery_total: "decode_discovery d \<noteq> Panic"
  by (auto simp: decode_discovery_def and_then_Panic)

lemma hello_total: "hello_of d port \<noteq> Panic"
  using discovery_total [of d] by (auto simp: hello_of_def split: outcome.split option.split)

lemma runs_now:
  assumes "udp_runs E time" and "lasting time I"
  shows "runs (\<lambda>w. I w \<and> t \<le> time w) (io_now E) (\<lambda>x _. t \<le> x)"
proof (rule runs_world)
  fix w assume "I w \<and> t \<le> time w"
  with udp_runsD(9,10) [OF assms(1), of w] show "(I (snd (ev_now E w)) \<and> t \<le> time (snd (ev_now E w))) \<and> t \<le> fst (ev_now E w)"
    by (auto intro: lastingD [OF assms(2)])
qed

lemma keep_now: "udp_runs E time \<Longrightarrow> lasting time I \<Longrightarrow> keeps I (io_now E)"
  by (rule keep_world) (rule lastingD, auto simp: udp_runsD(9))

lemma keep_option: "udp_runs E time \<Longrightarrow> lasting time I \<Longrightarrow> keeps I (io_os (ue_option E q))"
  by (rule keep_os) (rule lastingD, auto simp: udp_runsD(5))

lemma keep_port: "udp_runs E time \<Longrightarrow> lasting time I \<Longrightarrow> keeps I (io_os (ue_local_port E))"
  by (rule keep_os) (rule lastingD, auto simp: udp_runsD(3))

section \<open>Discovery\<close>

text \<open>The connection that the hello of a datagram opens.\<close>

definition hello_opens :: "u16 \<Rightarrow> bytes \<Rightarrow> udp_connection \<Rightarrow> bool" where
  "hello_opens port d c \<longleftrightarrow> (\<exists>m. hello_of d port = Done (Some m) \<and> discovery_nonce c = dm_nonce m \<and>
     discovery_session_id c = dm_session_id m) \<and> \<not> session_changed c"

text \<open>The datagram was received during the call, through the interface of the connection.\<close>

definition greeted :: "('w, 'x) udp_env_scheme \<Rightarrow> ('w \<Rightarrow> instant) \<Rightarrow> instant \<Rightarrow> u16 \<Rightarrow> udp_connection \<Rightarrow> 'w \<Rightarrow> bool" where
  "greeted E time t port c w \<longleftrightarrow> (\<exists>d i. arrived E time t (d, uc_peer c, i) w \<and>
     accepts_ingress_interface (uc_binding c) i \<and> hello_opens port d c)"

lemma accept_hello_opens:
  assumes env: "udp_runs E time" and I: "lasting time I" and m: "hello_of d port = Done (Some m)"
  shows "runs I (accept_hello E port b m peer) (\<lambda>c w. uc_peer c = peer \<and> uc_binding c = b \<and> hello_opens port d c)"
  unfolding accept_hello_def io_seq_def
  by (intro keep_then [OF keep_send [OF env I]] keep_then [OF keep_option [OF env I]] keep_then [OF keep_now [OF env I]]
      runs_return) (use m in \<open>auto simp: hello_opens_def\<close>)

lemma discovery_attempt_runs:
  fixes E :: "('w, 'x) udp_env_scheme"
    and classify :: "socket_addr \<Rightarrow> (('w, 'z) machine_scheme, io_error, tether_binding option) io"
  assumes env: "udp_runs E time" and I: "lasting time I" and C: "\<And>peer b. lasting time (C peer b)"
    and classify: "\<And>peer J. lasting time J \<Longrightarrow> runs (\<lambda>w. I w \<and> t0 \<le> time w \<and> J w) (classify peer)
      (\<lambda>r w. \<forall>b. r = Some b \<longrightarrow> C peer b w)"
  shows "runs (\<lambda>w. I w \<and> t0 \<le> time w \<and> t \<le> time w) (discovery_attempt E port classify deadline u)
    (\<lambda>fl w. case fl of Continue y \<Rightarrow> t < time w \<and> t < deadline
       | Break c \<Rightarrow> C (uc_peer c) (uc_binding c) w \<and> greeted E time t0 port c w)"
proof -
  let ?I = "\<lambda>w. I w \<and> t0 \<le> time w \<and> t \<le> time w"
  let ?Q = "\<lambda>fl w. case fl of Continue y \<Rightarrow> t < time w \<and> t < deadline
       | Break c \<Rightarrow> C (uc_peer c) (uc_binding c) w \<and> greeted E time t0 port c w"
  have received: "runs (\<lambda>w. I w \<and> t0 \<le> time w \<and> t \<le> time w \<and> t < time w \<and> arrived E time t0 (d, peer, i) w)
      (discovery_received E port classify d peer i) ?Q" (is "runs ?J _ _")
    if "t < deadline" for d peer i
  proof -
    have found: "runs (\<lambda>w. I w \<and> t0 \<le> time w \<and> t \<le> time w \<and> t < time w \<and> arrived E time t0 (d, peer, i) w \<and> C peer b w)
        (io_bind (accept_hello E port b m peer) (\<lambda>c. io_return (Break c)) ::
        (('w, 'z) machine_scheme, io_error, (unit, udp_connection) flow) io) ?Q"
      if m: "hello_of d port = Done (Some m)" and b: "accepts_ingress_interface b i" for m b
    proof -
      show ?thesis
        by (rule runs_bind [OF accept_hello_opens [OF env _ m]]) (intro lasts I C, rule runs_return, use b in \<open>auto simp: greeted_def\<close>)
    qed
    show ?thesis
      unfolding discovery_received_def
    proof (rule runs_then [OF runs_lift [OF hello_total, where Q = "\<lambda>x _. hello_of d port = Done x"]], assumption)
      fix hello assume hello: "hello_of d port = Done hello"
      have "lasting time (\<lambda>w. t \<le> time w \<and> t < time w \<and> arrived E time t0 (d, peer, i) w)" by (intro lasts)
      note cl = runs_bind [OF classify [OF this]]
      show "runs ?J (case hello of None \<Rightarrow> io_return (Continue ())
       | Some m \<Rightarrow> io_bind (classify peer) (\<lambda>binding. case binding of None \<Rightarrow> io_return (Continue ())
           | Some b \<Rightarrow> if \<not> accepts_ingress_interface b i then io_return (Continue ())
                 else io_bind (accept_hello E port b m peer) (\<lambda>c. io_return (Break c)))) ?Q"
        using hello that by (auto intro!: runs_return cl found split: option.split)
    qed
  qed
  have none: "runs (\<lambda>w. I w \<and> t0 \<le> time w \<and> t \<le> time w \<and> t < time w) (io_bind (io_now E) (\<lambda>t.
      if deadline \<le> t then io_fail (io_err TimedOut) else io_return (Continue ())) ::
      (('w, 'z) machine_scheme, io_error, (unit, udp_connection) flow) io) ?Q" if "t < deadline"
    by (rule keep_then [OF keep_now [OF env]], intro lasts I) (use that in \<open>auto intro!: runs_return runs_fail\<close>)
  show ?thesis
    unfolding discovery_attempt_def
  proof (rule runs_then)
    have "lasting time (\<lambda>w. I w \<and> t0 \<le> time w)" by (intro lasts I)
    from runs_now [OF env this, of t] show "runs ?I (io_now E) (\<lambda>x _. t \<le> x)" by simp
  next
    fix x assume "t \<le> x"
    show "runs ?I (if deadline \<le> x then io_fail (io_err TimedOut)
        else io_bind (receive_or_timeout E) (\<lambda>r. case r of
            None \<Rightarrow> io_bind (io_now E) (\<lambda>t. if deadline \<le> t then io_fail (io_err TimedOut) else io_return (Continue ()))
          | Some (d, peer, ingress) \<Rightarrow> discovery_received E port classify d peer ingress)) ?Q"
      using \<open>t \<le> x\<close> none received
      by (auto intro!: runs_fail runs_bind [OF runs_receive [OF env I]] split: option.split)
  qed
qed

lemma connect_if_runs:
  fixes E :: "('w, 'x) udp_env_scheme"
    and classify :: "socket_addr \<Rightarrow> (('w, 'z) machine_scheme, io_error, tether_binding option) io"
  assumes env: "udp_runs E time" and I: "lasting time I" and C: "\<And>peer b. lasting time (C peer b)"
    and classify: "\<And>peer J. lasting time J \<Longrightarrow> runs (\<lambda>w. I w \<and> t0 \<le> time w \<and> J w) (classify peer)
      (\<lambda>r w. \<forall>b. r = Some b \<longrightarrow> C peer b w)"
  shows "runs (\<lambda>w. I w \<and> t0 \<le> time w) (connect_if E port timeout classify)
    (\<lambda>c w. C (uc_peer c) (uc_binding c) w \<and> greeted E time t0 port c w)"
proof -
  have J: "lasting time (\<lambda>w. I w \<and> t0 \<le> time w)" by (intro lasts I)
  have loop: "runs (\<lambda>w. I w \<and> t0 \<le> time w) (io_loop (discovery_attempt E port classify deadline) u)
      (\<lambda>c w. C (uc_peer c) (uc_binding c) w \<and> greeted E time t0 port c w)" for deadline u
    by (rule runs_loop [where time = time and deadline = deadline])
      (use discovery_attempt_runs [OF env I C classify] in simp)
  show ?thesis
    unfolding connect_if_def io_seq_def
    by (intro keep_then [OF keep_option [OF env J]] keep_then [OF keep_now [OF env J]] loop)
qed

section \<open>Reading\<close>

lemma if_cases: "(b \<Longrightarrow> P x) \<Longrightarrow> (\<not> b \<Longrightarrow> P y) \<Longrightarrow> P (if b then x else y)"
  by simp

text \<open>
  A computation on a linked state that changes the world and the link only: from \<open>P\<close> it ends in \<open>I\<close>,
  and its result satisfies \<open>Q\<close>.
\<close>

definition relinks :: "('w \<Rightarrow> udp_connection \<Rightarrow> bool) \<Rightarrow> ('w \<Rightarrow> udp_connection \<Rightarrow> bool) \<Rightarrow>
    (('w, 's, 'z) linked_scheme, 'e, 'a) io \<Rightarrow> ('a \<Rightarrow> 'w \<Rightarrow> udp_connection \<Rightarrow> bool) \<Rightarrow> bool" where
  "relinks P I m Q \<longleftrightarrow> (\<forall>st. P (world st) (link st) \<longrightarrow> io_ends m st (\<lambda>r st'. r \<noteq> Panic \<and>
     (\<exists>w c. st' = st\<lparr>world := w, link := c\<rparr> \<and> I w c \<and> (\<forall>x. r = Done x \<longrightarrow> Q x w c))))"

lemma relinks_bind:
  fixes m :: "(('w, 's, 'z) linked_scheme, 'e, 'a) io"
  assumes "relinks P I m Q" and "\<And>x. relinks (\<lambda>w c. I w c \<and> Q x w c) I (f x) R"
  shows "relinks P I (io_bind m f) R"
  unfolding relinks_def io_ends_bind
proof (intro allI impI)
  fix st :: "('w, 's, 'z) linked_scheme" assume "P (world st) (link st)"
  then show "io_ends m st (then_ends f (\<lambda>r st'. r \<noteq> Panic \<and>
     (\<exists>w c. st' = st\<lparr>world := w, link := c\<rparr> \<and> I w c \<and> (\<forall>x. r = Done x \<longrightarrow> R x w c))))"
  proof (rule io_ends_mono [OF assms(1) [unfolded relinks_def, rule_format]], goal_cases)
    case (1 r st')
    then obtain w c where w: "st' = st\<lparr>world := w, link := c\<rparr>" "I w c" "\<forall>x. r = Done x \<longrightarrow> Q x w c" by blast
    show ?case
    proof (cases r)
      case (Done x)
      with w have "I (world st') (link st') \<and> Q x (world st') (link st')" by simp
      from assms(2) [unfolded relinks_def, rule_format, OF this] show ?thesis
        unfolding Done then_ends.simps by (rule io_ends_mono) (auto simp: w(1))
    qed (use 1 w in auto)
  qed
qed

lemma relinks_runs:
  assumes "\<And>c. runs (\<lambda>w. I w c) m (\<lambda>x w. Q x w c)"
  shows "relinks I I (m :: (('w, 's, 'z) linked_scheme, 'e, 'a) io) Q"
  unfolding relinks_def
proof (intro allI impI)
  fix st :: "('w, 's, 'z) linked_scheme" assume "I (world st) (link st)"
  with assms [of "link st"] have "io_ends m st (ran (\<lambda>w. I w (link st)) (\<lambda>x w. Q x w (link st)) st)"
    by (simp add: runs_def)
  then show "io_ends m st (\<lambda>r st'. r \<noteq> Panic \<and>
     (\<exists>w c. st' = st\<lparr>world := w, link := c\<rparr> \<and> I w c \<and> (\<forall>x. r = Done x \<longrightarrow> Q x w c)))"
  proof (rule io_ends_mono, goal_cases)
    case (1 r st')
    then obtain w where "r \<noteq> Panic" "st' = st\<lparr>world := w\<rparr>" "I w (link st)" "\<forall>x. r = Done x \<longrightarrow> Q x w (link st)"
      by (auto simp: ran_def)
    then show ?case by (intro conjI exI [of _ w] exI [of _ "link st"]) simp_all
  qed
qed

lemma relinks_pre: "relinks P I m Q \<Longrightarrow> (\<And>w c. P' w c \<Longrightarrow> P w c) \<Longrightarrow> relinks P' I m Q"
  by (auto simp: relinks_def)

lemma relinks_post:
  assumes "relinks P J m R" and "\<And>w c. J w c \<Longrightarrow> I w c" and "\<And>x w c. J w c \<Longrightarrow> R x w c \<Longrightarrow> Q x w c"
  shows "relinks P I m Q"
  unfolding relinks_def
  by (intro allI impI, rule io_ends_mono [OF assms(1) [unfolded relinks_def, rule_format]])
    (use assms(2,3) in \<open>auto 0 3\<close>)

lemma relinks_then:
  "relinks P I m R \<Longrightarrow> (\<And>x. relinks (R x) I (f x) Q) \<Longrightarrow> relinks P I (io_bind m f) Q"
  by (rule relinks_bind, assumption) (blast intro: relinks_pre)

lemma relinks_return:
  assumes "\<And>w c. P w c \<Longrightarrow> I w c \<and> Q x w c"
  shows "relinks P I (io_return x :: (('w, 's, 'z) linked_scheme, 'e, 'a) io) Q"
  unfolding relinks_def
proof (intro allI impI)
  fix st :: "('w, 's, 'z) linked_scheme" assume "P (world st) (link st)"
  from assms [OF this] show "io_ends (io_return x :: (('w, 's, 'z) linked_scheme, 'e, 'a) io) st (\<lambda>r st'. r \<noteq> Panic \<and>
     (\<exists>w c. st' = st\<lparr>world := w, link := c\<rparr> \<and> I w c \<and> (\<forall>x. r = Done x \<longrightarrow> Q x w c)))"
    unfolding io_ends_return by (intro conjI exI [of _ "world st"] exI [of _ "link st"]) auto
qed

lemma relinks_update:
  assumes "\<And>w c. P w c \<Longrightarrow> I w (g c) \<and> Q () w (g c)"
  shows "relinks P I (update_link g :: (('w, 's, 'z) linked_scheme, 'e, unit) io) Q"
  unfolding relinks_def
proof (intro allI impI)
  fix st :: "('w, 's, 'z) linked_scheme" assume "P (world st) (link st)"
  from assms [OF this] show "io_ends (update_link g :: (('w, 's, 'z) linked_scheme, 'e, unit) io) st (\<lambda>r st'. r \<noteq> Panic \<and>
     (\<exists>w c. st' = st\<lparr>world := w, link := c\<rparr> \<and> I w c \<and> (\<forall>x. r = Done x \<longrightarrow> Q x w c)))"
    unfolding update_link_def io_ends_update
    by (intro conjI exI [of _ "world st"] exI [of _ "g (link st)"]) auto
qed

lemma relinks_link:
  assumes "\<And>w c. P w c \<Longrightarrow> I w c"
  shows "relinks P I (io_gets link :: (('w, 's, 'z) linked_scheme, 'e, udp_connection) io) (\<lambda>x w c. P w c \<and> x = c)"
  unfolding relinks_def
proof (intro allI impI)
  fix st :: "('w, 's, 'z) linked_scheme" assume P: "P (world st) (link st)"
  from assms [OF P] P show "io_ends (io_gets link :: (('w, 's, 'z) linked_scheme, 'e, udp_connection) io) st (\<lambda>r st'. r \<noteq> Panic \<and>
     (\<exists>w c. st' = st\<lparr>world := w, link := c\<rparr> \<and> I w c \<and> (\<forall>x. r = Done x \<longrightarrow> P w c \<and> x = c)))"
    unfolding io_ends_gets by (intro conjI exI [of _ "world st"] exI [of _ "link st"]) auto
qed

lemma relinks_keep:
  assumes "\<And>c. lasting time (\<lambda>w. P w c)" and "\<And>J. lasting time J \<Longrightarrow> keeps J m" and "\<And>w c. P w c \<Longrightarrow> I w c"
  shows "relinks P I m (\<lambda>_. P)"
proof -
  have "relinks P P m (\<lambda>_ _ _. True)" by (rule relinks_runs) (rule assms(2) [OF assms(1)])
  then show ?thesis by (rule relinks_post) (use assms(3) in auto)
qed

lemma relinks_loop:
  fixes body :: "'a \<Rightarrow> (('w, 's, 'z) linked_scheme, 'e, ('a, 'b) flow) io" and time :: "'w \<Rightarrow> instant"
  assumes body: "\<And>x t. relinks (\<lambda>w c. I w c \<and> t \<le> time w) I (body x)
    (\<lambda>fl w c. case fl of Continue y \<Rightarrow> t < time w \<and> t < deadline | Break z \<Rightarrow> Q z w c)"
  shows "relinks I I (io_loop body x) Q"
  unfolding relinks_def
proof (intro allI impI)
  fix st :: "('w, 's, 'z) linked_scheme" assume I: "I (world st) (link st)"
  let ?Q = "\<lambda>r st'. r \<noteq> Panic \<and> (\<exists>w c. st' = st\<lparr>world := w, link := c\<rparr> \<and> I w c \<and> (\<forall>x. r = Done x \<longrightarrow> Q x w c))"
  show "io_ends (io_loop body x) st ?Q"
  proof (rule io_loop_ends [where I = "\<lambda>_ st'. \<exists>w c. st' = st\<lparr>world := w, link := c\<rparr> \<and> I w c"
        and \<mu> = "\<lambda>_ st'. deadline - time (world st')"])
    show "\<exists>w c. st = st\<lparr>world := w, link := c\<rparr> \<and> I w c"
      using I by (intro exI [of _ "world st"] exI [of _ "link st"]) simp
  next
    fix x and st1 :: "('w, 's, 'z) linked_scheme" assume "\<exists>w c. st1 = st\<lparr>world := w, link := c\<rparr> \<and> I w c"
    then obtain w c where st1: "st1 = st\<lparr>world := w, link := c\<rparr>" "I w c" by blast
    then have "I (world st1) (link st1) \<and> time w \<le> time (world st1)" by simp
    from body [unfolded relinks_def, rule_format, OF this]
    show "io_ends (body x) st1 (iterated (\<lambda>y st'. (\<exists>w c. st' = st\<lparr>world := w, link := c\<rparr> \<and> I w c) \<and>
        deadline - time (world st') < deadline - time (world st1)) ?Q)"
    proof (rule io_ends_mono, goal_cases)
      case (1 r st2)
      then obtain w' c' where w': "st2 = st\<lparr>world := w', link := c'\<rparr>" "I w' c'" and r: "r \<noteq> Panic"
        "\<forall>fl. r = Done fl \<longrightarrow> (case fl of Continue y \<Rightarrow> time w < time w' \<and> time w < deadline | Break z \<Rightarrow> Q z w' c')"
        by (auto simp: st1(1))
      show ?case
      proof (cases r)
        case (Done fl)
        with r w' st1 show ?thesis by (cases fl) auto
      qed (use r w' in auto)
    qed
  qed
qed

text \<open>
  What a connection keeps while it is read from: the interface and the address of the peer. A new port
  is followed only to where the route was confirmed again, a new session is marked, and without
  leave to answer discovery nothing changes.
\<close>

definition follows :: "('w, 'x) udp_env_scheme \<Rightarrow> ('w \<Rightarrow> instant) \<Rightarrow> instant \<Rightarrow> bool \<Rightarrow> udp_connection \<Rightarrow> 'w \<Rightarrow>
    udp_connection \<Rightarrow> bool" where
  "follows E time t allow c0 w c \<longleftrightarrow> t \<le> time w \<and> uc_binding c = uc_binding c0 \<and> sa_ip (uc_peer c) = sa_ip (uc_peer c0) \<and>
     (session_changed c0 \<longrightarrow> session_changed c) \<and>
     (discovery_session_id c \<noteq> discovery_session_id c0 \<longrightarrow> session_changed c) \<and>
     (uc_peer c = uc_peer c0 \<or> (\<exists>w'. t \<le> time w' \<and> time w' \<le> time w \<and>
        verify_peer (fst (ue_system E w')) (uc_binding c0) (uc_peer c) = Done ())) \<and>
     (\<not> allow \<longrightarrow> c = c0)"

lemma lasting_follows [lasts]: "lasting time (\<lambda>w. follows E time t allow c0 w c)"
  unfolding follows_def by (intro lasts)

lemma follows_refl [simp]: "follows E time t allow c0 w c0 \<longleftrightarrow> t \<le> time w"
  by (simp add: follows_def)

lemma follows_adopted: "follows E time t True c0 w c \<Longrightarrow> follows E time t True c0 w (adopted nonce sid now c)"
  by (auto simp: follows_def adopted_def Let_def)

lemma follows_peer:
  assumes "follows E time t True c0 w c" and "sa_ip p = sa_ip (uc_peer c)"
    and "\<exists>w'. t \<le> time w' \<and> time w' \<le> time w \<and> verify_peer (fst (ue_system E w')) (uc_binding c) p = Done ()"
  shows "follows E time t True c0 w (c\<lparr>uc_peer := p\<rparr>)"
  using assms by (auto simp: follows_def)

lemma answer_hello_follows:
  fixes E :: "('w, 'x) udp_env_scheme"
  assumes env: "udp_runs E time" and "I = (\<lambda>w c. follows E time t True c0 w c \<and> J w)" and J: "lasting time J"
  shows "relinks (\<lambda>w c. I w c \<and> sa_ip source = sa_ip (uc_peer c)) I
    (answer_hello E m source :: (('w, 's, 'z) linked_scheme, io_error, unit) io) (\<lambda>_. I)"
proof -
  let ?P = "\<lambda>x w c. (I w c \<and> sa_ip source = sa_ip (uc_peer c)) \<and> x = c"
  let ?V = "\<lambda>w c. I w c \<and> sa_ip source = sa_ip (uc_peer c) \<and> (\<exists>w'. t \<le> time w' \<and> time w' \<le> time w \<and>
      verify_peer (fst (ue_system E w')) (uc_binding c) source = Done ())"
  have I: "lasting time (\<lambda>w. I w c)" for c unfolding assms(2) by (intro lasts J)
  have V: "lasting time (\<lambda>w. ?V w c)" for c by (intro lasts I)
  have verified: "relinks (?P x) I (io_tether E (\<lambda>sys. verify_peer sys (uc_binding x) source) ::
      (('w, 's, 'z) linked_scheme, io_error, unit) io) (\<lambda>_. ?V)" for x
  proof (rule relinks_post [OF relinks_runs])
    fix c
    have "lasting time (\<lambda>w. ?P x w c)" by (intro lasts I)
    note tether = runs_tether [OF env this verify_peer_total, where t = t]
    have "(\<lambda>w. ?P x w c \<and> t \<le> time w) = (\<lambda>w. ?P x w c)" by (auto simp: assms(2) follows_def)
    with tether show "runs (\<lambda>w. ?P x w c) (io_tether E (\<lambda>sys. verify_peer sys (uc_binding x) source) ::
        (('w, 's, 'z) linked_scheme, io_error, unit) io)
      (\<lambda>y w. \<exists>w'. t \<le> time w' \<and> time w' \<le> time w \<and> verify_peer (fst (ue_system E w')) (uc_binding x) source = Done y)"
      by simp
  qed auto
  have os: "relinks ?V I (io_os (ue_local_port E) :: (('w, 's, 'z) linked_scheme, io_error, u16) io) (\<lambda>_. ?V)"
    by (rule relinks_keep [OF V keep_port [OF env]]) auto
  have send: "relinks ?V I (send_redundant E d source :: (('w, 's, 'z) linked_scheme, io_error, unit) io) (\<lambda>_. ?V)" for d
    by (rule relinks_keep [OF V keep_send [OF env]]) auto
  have move: "relinks ?V I (update_link (\<lambda>c. c\<lparr>uc_peer := source\<rparr>) :: (('w, 's, 'z) linked_scheme, io_error, unit) io) (\<lambda>_. I)"
    by (rule relinks_update) (auto simp: assms(2) follows_peer)
  have now: "relinks I I (io_now E :: (('w, 's, 'z) linked_scheme, io_error, instant) io) (\<lambda>_. I)"
    by (rule relinks_keep [OF I keep_now [OF env]]) auto
  have adopt: "relinks I I (update_link (adopted nonce sid x) :: (('w, 's, 'z) linked_scheme, io_error, unit) io) (\<lambda>_. I)" for nonce sid x
    by (rule relinks_update) (simp add: assms(2) follows_adopted)
  show ?thesis
    unfolding answer_hello_def io_seq_def adopt_discovery_def
    by (intro relinks_then [OF relinks_link] relinks_then [OF verified] relinks_then [OF os] relinks_then [OF send]
        relinks_then [OF move] relinks_then [OF now] adopt) simp_all
qed

lemma consider_hello_follows:
  fixes E :: "('w, 'x) udp_env_scheme"
  assumes env: "udp_runs E time" and I: "I = (\<lambda>w c. follows E time t allow c0 w c \<and> J w)" and J: "lasting time J"
  shows "relinks I I (consider_hello E allow d source :: (('w, 's, 'z) linked_scheme, io_error, unit) io) (\<lambda>_. I)"
proof (cases "allow \<and> (\<exists>m. decode_discovery d = Done (Some m))")
  case False
  then show ?thesis
    using discovery_total [of d]
    by (auto simp: consider_hello_def intro!: relinks_return split: outcome.split option.split)
next
  case True
  then obtain m where m: "decode_discovery d = Done (Some m)" and I': "I = (\<lambda>w c. follows E time t True c0 w c \<and> J w)" using I by auto
  have lasts': "lasting time (\<lambda>w. I w c \<and> Q c)" for c Q unfolding I by (intro lasts J)
  have port: "relinks (\<lambda>w c. I w c \<and> sa_ip source = sa_ip (uc_peer c)) I
      (io_os (ue_local_port E) :: (('w, 's, 'z) linked_scheme, io_error, u16) io)
      (\<lambda>_ w c. I w c \<and> sa_ip source = sa_ip (uc_peer c))"
    by (rule relinks_keep [OF lasts' keep_port [OF env]]) auto
  have answer: "relinks (\<lambda>w c. I w c \<and> sa_ip source = sa_ip (uc_peer c)) I
      (io_when b (answer_hello E m source) :: (('w, 's, 'z) linked_scheme, io_error, unit) io) (\<lambda>_. I)" for b
    using answer_hello_follows [OF env I' J] by (auto simp: io_when_def intro!: relinks_return)
  have skip: "relinks (\<lambda>w c. I w c \<and> Q c) I (io_return () :: (('w, 's, 'z) linked_scheme, io_error, unit) io) (\<lambda>_. I)" for Q
    by (rule relinks_return) auto
  have "relinks (\<lambda>w c. I w c \<and> x = c) I (if dm_kind m \<noteq> DISCOVERY_HELLO \<or> sa_ip source \<noteq> sa_ip (uc_peer x)
       then io_return () else io_bind (io_os (ue_local_port E)) (\<lambda>port.
         io_when (discovery_port_acceptable (dm_port m) port \<and>
                  discovery_compatible x (dm_nonce m) (dm_session_id m)) (answer_hello E m source)) ::
       (('w, 's, 'z) linked_scheme, io_error, unit) io) (\<lambda>_. I)" for x
  proof (cases "sa_ip source = sa_ip (uc_peer x)")
    case True
    have "relinks (\<lambda>w c. I w c \<and> x = c) I (io_bind (io_os (ue_local_port E)) (\<lambda>port.
         io_when (discovery_port_acceptable (dm_port m) port \<and>
                  discovery_compatible x (dm_nonce m) (dm_session_id m)) (answer_hello E m source)) ::
       (('w, 's, 'z) linked_scheme, io_error, unit) io) (\<lambda>_. I)"
      by (rule relinks_pre [OF relinks_then [OF port answer]]) (use True in auto)
    then show ?thesis using skip by auto
  qed (use skip in auto)
  with True m show ?thesis
    unfolding consider_hello_def by (auto intro!: relinks_then [OF relinks_link])
qed

text \<open>A datagram that reading may return: a frame of the session, from the peer, through the interface.\<close>

definition frame_read :: "('w, 'x) udp_env_scheme \<Rightarrow> ('w \<Rightarrow> instant) \<Rightarrow> instant \<Rightarrow> bytes \<Rightarrow> 'w \<Rightarrow> udp_connection \<Rightarrow> bool" where
  "frame_read E time t d w c \<longleftrightarrow> take 4 d = FRAME_MAGIC \<and> frame_session d = Some (discovery_session_id c) \<and>
     (\<exists>i. arrived E time t (d, uc_peer c, i) w \<and> accepts_ingress_interface (uc_binding c) i)"

lemma frame_received_follows:
  fixes E :: "('w, 'x) udp_env_scheme"
  assumes env: "udp_runs E time" and I: "I = follows E time t0 allow c0"
  shows "relinks (\<lambda>w c. I w c \<and> t < time w \<and> arrived E time t0 (d, source, i) w) I
    (frame_received E allow d source i :: (('w, 's, 'z) linked_scheme, io_error, (unit, bytes) flow) io)
    (\<lambda>fl w c. case fl of Continue y \<Rightarrow> t < time w | Break d \<Rightarrow> frame_read E time t0 d w c)"
    (is "relinks ?P I _ ?Q")
proof -
  let ?continue = "io_return (Continue ()) :: (('w, 's, 'z) linked_scheme, io_error, (unit, bytes) flow) io"
  let ?J = "\<lambda>w c. follows E time t0 allow c0 w c \<and> t < time w"
  have "lasting time (\<lambda>w. t < time w)" by (intro lasts)
  from consider_hello_follows [OF env refl this]
  have "relinks ?J ?J (consider_hello E allow d source :: (('w, 's, 'z) linked_scheme, io_error, unit) io) (\<lambda>_. ?J)" .
  then have "relinks ?J I (consider_hello E allow d source :: (('w, 's, 'z) linked_scheme, io_error, unit) io) (\<lambda>_. ?J)"
    by (rule relinks_post) (auto simp: I)
  then have hello: "relinks ?J I (io_seq (consider_hello E allow d source) ?continue) ?Q"
    unfolding io_seq_def by (rule relinks_then) (rule relinks_return, simp add: I)
  have on: "relinks (\<lambda>w c. ?P w c \<and> x = c) I ?continue ?Q" for x
    by (rule relinks_return) simp
  have frame: "relinks (\<lambda>w c. ?P w c \<and> x = c) I (io_return (Break d) :: (('w, 's, 'z) linked_scheme, io_error, (unit, bytes) flow) io) ?Q"
    if "accepts_ingress_interface (uc_binding x) i" "source = uc_peer x" "take 4 d = FRAME_MAGIC"
      "frame_session d = Some (discovery_session_id x)" for x
    by (rule relinks_return) (use that in \<open>auto simp: frame_read_def\<close>)
  have considered: "relinks (\<lambda>w c. ?P w c \<and> x = c) I (io_seq (consider_hello E allow d source) ?continue) ?Q" for x
    by (rule relinks_pre [OF hello]) (auto simp: I)
  show ?thesis
    unfolding frame_received_def
  proof (rule relinks_then [OF relinks_link])
    fix x
    show "relinks (\<lambda>w c. ?P w c \<and> x = c) I (if \<not> accepts_ingress_interface (uc_binding x) i then ?continue
       else if source = uc_peer x \<and> take 4 d = FRAME_MAGIC then
         (if frame_session d = Some (discovery_session_id x) then io_return (Break d) else ?continue)
       else io_seq (consider_hello E allow d source) ?continue) ?Q"
      by (intro if_cases [where P = "\<lambda>m. relinks (\<lambda>w c. ?P w c \<and> x = c) I m ?Q"] on frame considered) simp_all
  qed (simp add: I)
qed

lemma read_attempt_follows:
  fixes E :: "('w, 'x) udp_env_scheme"
  assumes env: "udp_runs E time" and I: "I = follows E time t0 allow c0"
  shows "relinks (\<lambda>w c. I w c \<and> t \<le> time w) I
    (read_attempt E allow deadline u :: (('w, 's, 'z) linked_scheme, io_error, (unit, bytes) flow) io)
    (\<lambda>fl w c. case fl of Continue y \<Rightarrow> t < time w \<and> t < deadline | Break d \<Rightarrow> d \<noteq> [] \<longrightarrow> frame_read E time t0 d w c)"
    (is "relinks ?P I _ ?Q")
proof -
  have lasts': "lasting time (\<lambda>w. I w c)" for c unfolding I by (intro lasts)
  have now: "relinks ?P I (io_now E :: (('w, 's, 'z) linked_scheme, io_error, instant) io) (\<lambda>x w c. ?P w c \<and> t \<le> x)"
    by (rule relinks_post [OF relinks_runs [OF runs_now [OF env lasts']]]) auto
  have receive: "relinks ?P I (receive_or_timeout E :: (('w, 's, 'z) linked_scheme, io_error, (bytes \<times> socket_addr \<times> u32 option) option) io)
      (\<lambda>r w c. I w c \<and> t < time w \<and> (\<forall>x. r = Some x \<longrightarrow> arrived E time t0 x w))"
  proof -
    have "runs (\<lambda>w. I w c \<and> t \<le> time w) (receive_or_timeout E :: (('w, 's, 'z) linked_scheme, io_error, (bytes \<times> socket_addr \<times> u32 option) option) io)
        (\<lambda>r w. t < time w \<and> (\<forall>x. r = Some x \<longrightarrow> arrived E time t0 x w))" for c
    proof -
      have "(\<lambda>w. I w c \<and> t0 \<le> time w \<and> t \<le> time w) = (\<lambda>w. I w c \<and> t \<le> time w)" by (auto simp: I follows_def)
      with runs_receive [OF env lasts' [of c], where ?t0.0 = t0 and t = t] show ?thesis by simp
    qed
    then show ?thesis by (rule relinks_post [OF relinks_runs]) auto
  qed
  have received: "relinks (\<lambda>w c. I w c \<and> t < time w \<and> arrived E time t0 (d, source, i) w) I
      (frame_received E allow d source i :: (('w, 's, 'z) linked_scheme, io_error, (unit, bytes) flow) io) ?Q"
    if "t < deadline" for d source i
    by (rule relinks_post [OF frame_received_follows [OF env I]]) (use that in \<open>auto split: flow.splits\<close>)
  have ended: "relinks (\<lambda>w c. I w c \<and> R w c) I (io_return (Break []) :: (('w, 's, 'z) linked_scheme, io_error, (unit, bytes) flow) io) ?Q" for R
    by (rule relinks_return) simp
  have rest: "relinks (\<lambda>w c. I w c \<and> t < time w \<and> (\<forall>x. r = Some x \<longrightarrow> arrived E time t0 x w)) I
      ((case r of None \<Rightarrow> io_return (Break [])
       | Some (d, source, ingress) \<Rightarrow> frame_received E allow d source ingress) ::
       (('w, 's, 'z) linked_scheme, io_error, (unit, bytes) flow) io) ?Q" if "t < deadline" for r
    using ended received [OF that] by (cases r) auto
  show ?thesis
    unfolding read_attempt_def
  proof (rule relinks_then [OF now])
    fix x
    show "relinks (\<lambda>w c. ?P w c \<and> t \<le> x) I ((if deadline \<le> x then io_return (Break [])
        else io_bind (receive_or_timeout E) (\<lambda>r. case r of None \<Rightarrow> io_return (Break [])
          | Some (d, source, ingress) \<Rightarrow> frame_received E allow d source ingress)) ::
          (('w, 's, 'z) linked_scheme, io_error, (unit, bytes) flow) io) ?Q"
    proof (cases "t \<le> x \<and> x < deadline")
      case True
      then have "t < deadline" by simp
      from relinks_then [OF receive rest [OF this]] show ?thesis
        using True by (auto intro: relinks_pre)
    qed (auto simp: not_less intro!: relinks_return, auto simp: relinks_def)
  qed
qed

lemma link_read_follows:
  fixes E :: "('w, 'x) udp_env_scheme" and st :: "('w, 's, 'z) linked_scheme"
  assumes env: "udp_runs E time" and "t0 = time (world st)"
  shows "io_ends (link_read E timeout allow) st (\<lambda>r st'. r \<noteq> Panic \<and> (\<exists>w c. st' = st\<lparr>world := w, link := c\<rparr> \<and>
    follows E time t0 allow (link st) w c \<and> (\<forall>d. r = Done d \<longrightarrow> d \<noteq> [] \<longrightarrow> frame_read E time t0 d w c)))"
proof -
  let ?I = "follows E time t0 allow (link st)"
  have I: "lasting time (\<lambda>w. ?I w c)" for c by (intro lasts)
  have loop: "relinks ?I ?I (io_loop (read_attempt E allow deadline) u :: (('w, 's, 'z) linked_scheme, io_error, bytes) io)
      (\<lambda>d w c. d \<noteq> [] \<longrightarrow> frame_read E time t0 d w c)" for deadline u
    by (rule relinks_loop [OF read_attempt_follows [OF env refl]])
  have "relinks ?I ?I (link_read E timeout allow :: (('w, 's, 'z) linked_scheme, io_error, bytes) io)
      (\<lambda>d w c. d \<noteq> [] \<longrightarrow> frame_read E time t0 d w c)"
    unfolding link_read_def by (intro relinks_then [OF relinks_keep [OF I keep_now [OF env]]] loop)
  moreover have "?I (world st) (link st)" by (simp add: assms(2))
  ultimately show ?thesis by (simp add: relinks_def)
qed

section \<open>The ancillary data of Windows\<close>

lemma cmsg_header_in:
  "offset + 16 \<le> length buf \<Longrightarrow> cmsg_header buf offset =
     Done (le_word (sub_bytes offset 8 buf), le_word (sub_bytes (offset + 8) 4 buf), le_word (sub_bytes (offset + 12) 4 buf))"
  by (simp add: cmsg_header_def)

text \<open>The packet information that a control buffer holds at an offset.\<close>

definition packet_info_at :: "bytes \<Rightarrow> nat \<Rightarrow> u32 \<Rightarrow> bool" where
  "packet_info_at buf offset index \<longleftrightarrow> le_word (sub_bytes (offset + 8) 4 buf) = (0 :: u32) \<and>
     le_word (sub_bytes (offset + 12) 4 buf) = IP_PKTINFO_WINDOWS \<and>
     CMSGHDR_SIZE + IN_PKTINFO_SIZE \<le> unat (le_word (sub_bytes offset 8 buf) :: u64) \<and>
     index = le_word (sub_bytes (offset + 20) 4 buf)"

lemma scan_control_ok:
  assumes "available \<le> length buf"
  shows "\<exists>i. scan_control buf available offset = Done i \<and> (\<forall>index. i = Some index \<longrightarrow>
    index \<noteq> 0 \<and> (\<exists>off. off + 24 \<le> available \<and> packet_info_at buf off index))"
  using assms
proof (induction buf available offset rule: scan_control.induct)
  case (1 buf available offset)
  show ?case
  proof (cases "available < offset + 16")
    case True
    then show ?thesis by (simp add: scan_control.simps)
  next
    case False
    let ?len = "unat (le_word (sub_bytes offset 8 buf) :: u64)"
    let ?found = "le_word (sub_bytes (offset + 8) 4 buf) = (0 :: u32) \<and>
      le_word (sub_bytes (offset + 12) 4 buf) = IP_PKTINFO_WINDOWS \<and> 24 \<le> ?len"
    note step = cmsg_header_in [of offset buf] scan_control.simps [of buf available offset]
    consider "?len < 16 \<or> available < offset + ?len" | "\<not> (?len < 16 \<or> available < offset + ?len)" ?found
      | "\<not> (?len < 16 \<or> available < offset + ?len)" "\<not> ?found" by blast
    then show ?thesis
    proof cases
      case 1
      with False \<open>available \<le> length buf\<close> step show ?thesis by auto
    next
      case 2
      then have "offset + 24 \<le> available" by simp
      with 2 False \<open>available \<le> length buf\<close> step show ?thesis
        by (auto simp: packet_info_at_def add.commute intro!: exI [of _ offset])
    next
      case 3
      have "scan_control buf available offset = scan_control buf available (offset + cmsg_align ?len)"
        using 3 False \<open>available \<le> length buf\<close> step by auto
      moreover have "\<exists>i. scan_control buf available (offset + cmsg_align ?len) = Done i \<and> (\<forall>index. i = Some index \<longrightarrow>
          index \<noteq> 0 \<and> (\<exists>off. off + 24 \<le> available \<and> packet_info_at buf off index))"
        by (rule "1.IH" [OF _ _ refl refl]) (use 3 False \<open>available \<le> length buf\<close> step in auto)
      ultimately show ?thesis by simp
    qed
  qed
qed

text \<open>
  C39: the reader of the Windows ancillary data stays in its buffer. Whatever the control buffer of 128
  bytes holds and whatever length the system reports for it, the scan of its headers ends without a
  read out of bounds, and an interface index it returns is not zero and stands in a complete packet
  information record within the reported length.
\<close>

theorem windows_ingress_in_bounds:
  assumes "length buf = 128"
  shows "\<exists>i. windows_ingress_interface truncated null_buffer len buf = Done i \<and>
    (\<forall>index. i = Some index \<longrightarrow> index \<noteq> 0 \<and> \<not> truncated \<and>
       (\<exists>off. off + 24 \<le> unat len \<and> off + 24 \<le> 128 \<and> packet_info_at buf off index))"
proof (cases "truncated \<or> null_buffer")
  case False
  with assms scan_control_ok [of "min (unat len) 128" buf 0] show ?thesis
    by (auto simp: windows_ingress_interface_def)
qed (simp add: windows_ingress_interface_def)

theorem windows_ingress_in_bounds_witness:
  "windows_ingress_interface False False 64 ([24, 0, 0, 0, 0, 0, 0, 0, 0, 0, 0, 0, 19, 0, 0, 0, 192, 168, 42, 2, 7, 0, 0, 0] @
     replicate 104 0) = Done (Some 7) \<and>
   (\<exists>off. packet_info_at ([24, 0, 0, 0, 0, 0, 0, 0, 0, 0, 0, 0, 19, 0, 0, 0, 192, 168, 42, 2, 7, 0, 0, 0] @ replicate 104 0) off 7)"
proof -
  let ?buf = "[24, 0, 0, 0, 0, 0, 0, 0, 0, 0, 0, 0, 19, 0, 0, 0, 192, 168, 42, 2, 7, 0, 0, 0] @ replicate 104 0 :: bytes"
  have "windows_ingress_interface False False 64 ?buf = Done (Some 7)" by code_simp
  with windows_ingress_in_bounds [of ?buf False False 64] show ?thesis by auto
qed

section \<open>What reading guarantees\<close>

text \<open>
  C11: reading from the link of protocol v4. In a world whose clock runs, where a receive takes time and
  no call of the OS panics, \<open>read\<close> returns, without a panic. It never gives up the bound interface
  or the address of the peer; without leave to answer discovery the connection is left as it was; a
  changed session is marked; a new port of the peer was taken only after its route had been found on the
  bound tether during the call. A datagram it returns was received during the call from the peer, through
  the bound interface when the binding is to be checked, and is a frame of the session of the connection.
\<close>

theorem legacy_read_confined:
  fixes E :: "('w, 'x) udp_env_scheme" and st :: "('w, 's, 'z) linked_scheme"
  assumes "udp_runs E time"
  shows "\<exists>r st'. link_read E timeout_ms allow st = Some (r, st') \<and> r \<noteq> Panic \<and>
    st' = st\<lparr>world := world st', link := link st'\<rparr> \<and>
    uc_binding (link st') = uc_binding (link st) \<and> sa_ip (uc_peer (link st')) = sa_ip (uc_peer (link st)) \<and>
    (\<not> allow \<longrightarrow> link st' = link st) \<and>
    (session_changed (link st) \<or> discovery_session_id (link st') \<noteq> discovery_session_id (link st) \<longrightarrow>
       session_changed (link st')) \<and>
    (uc_peer (link st') \<noteq> uc_peer (link st) \<longrightarrow> (\<exists>w. time (world st) \<le> time w \<and> time w \<le> time (world st') \<and>
       verify_peer (fst (ue_system E w)) (uc_binding (link st)) (uc_peer (link st')) = Done ())) \<and>
    (\<forall>d. r = Done d \<longrightarrow> d \<noteq> [] \<longrightarrow> take 4 d = FRAME_MAGIC \<and>
       frame_session d = Some (discovery_session_id (link st')) \<and>
       (\<exists>w i. time (world st) \<le> time w \<and> time w < time (world st') \<and>
          fst (ue_receive E w) = Inr (d, uc_peer (link st'), i) \<and>
          accepts_ingress_interface (uc_binding (link st)) i))"
proof -
  obtain r w c where
    read: "link_read E timeout_ms allow st = Some (r, st\<lparr>world := w, link := c\<rparr>)" "r \<noteq> Panic"
    and follows: "follows E time (time (world st)) allow (link st) w c"
    and frame: "\<And>d. r = Done d \<Longrightarrow> d \<noteq> [] \<Longrightarrow> frame_read E time (time (world st)) d w c"
    using link_read_follows [OF assms refl, of timeout_ms allow st] by (auto simp: io_ends_def)
  note f = follows [unfolded follows_def]
  have "take 4 d = FRAME_MAGIC \<and> frame_session d = Some (discovery_session_id c) \<and>
       (\<exists>w' i. time (world st) \<le> time w' \<and> time w' < time w \<and>
          fst (ue_receive E w') = Inr (d, uc_peer c, i) \<and> accepts_ingress_interface (uc_binding (link st)) i)"
    if "r = Done d" "d \<noteq> []" for d
    using frame [OF that] f by (auto simp: frame_read_def arrived_def)
  with read f show ?thesis
    by (intro exI [of _ r] exI [of _ "st\<lparr>world := w, link := c\<rparr>"]) auto
qed

text \<open>A link on which a frame of the session comes from a stranger first and then from the peer.\<close>

definition v4_peer :: "u16 \<Rightarrow> socket_addr" where
  "v4_peer port = \<lparr>sa_ip = V4 3232246402, sa_port = port\<rparr>"

definition sample_datagram_of :: "u8 \<Rightarrow> bytes" where
  "sample_datagram_of s = FRAME_MAGIC @ [4, 1, 72, 0, s, 0, 0, 0, 0, 0, 0, 0]"

definition quiet_system :: net_system where
  "quiet_system = \<lparr>ns_route = (\<lambda>_. Fail (io_err NotFound)), ns_ifaddrs = Done [], ns_index = (\<lambda>_. 0),
     fs_read = (\<lambda>_. Fail (io_err NotFound)), fs_canonical = (\<lambda>_. Fail (io_err NotFound)),
     fs_link = (\<lambda>_. Fail (io_err NotFound)), fs_entries = (\<lambda>_. Fail (io_err NotFound)),
     fs_exists = (\<lambda>_. False), fs_meta = (\<lambda>_. Fail (io_err NotFound)), run_ip = (\<lambda>_ _. Fail (io_err NotFound))\<rparr>"

definition sample_udp :: "nat udp_env" where
  "sample_udp = env.extend tick_env (udp_env.fields (\<lambda>_ w. (Inr (), w)) (\<lambda>_ w. (Inr (), w)) (\<lambda>w. (Inr 9000, w))
     (\<lambda>w. (Inr (sample_datagram_of 7, v4_peer (if w < 3 then 1 else 5000), None), Suc w))
     (\<lambda>d _ w. (Inr (length d), w)) (\<lambda>w. (quiet_system, w)))"

definition sample_link :: "(nat, (input_event list \<times> nat list) uinput_sink host_sink) linked" where
  "sample_link = host.extend (sample_host [] []) (linked.fields
     \<lparr>uc_peer = v4_peer 5000, uc_binding = \<lparr>tb_identity = \<lparr>if_index = 3, if_name = [], device_path = [],
        driver = [], hardware_address = []\<rparr>, validate_runtime = False\<rparr>, discovery_nonce = 1,
      discovery_session_id = 7, session_changed = False, last_peer_activity = 0\<rparr>)"

lemma sample_udp_runs: "udp_runs sample_udp (\<lambda>w. w)"
proof -
  have "clock_runs sample_udp (\<lambda>w. w)"
    using tick_env_runs by (simp add: clock_runs_def sample_udp_def env.defs tick_env_def)
  moreover have "net_answers quiet_system" by (simp add: net_answers_def quiet_system_def)
  ultimately show ?thesis by (simp add: udp_runs_def sample_udp_def env.defs udp_env.defs)
qed

lemma sample_attempt:
  assumes "link st = link sample_link" and "world st < d"
  shows "read_attempt sample_udp False d () st =
    Some (Done (if world st < 2 then Continue () else Break (sample_datagram_of 7)), st\<lparr>world := Suc (Suc (world st))\<rparr>)"
proof -
  have "frame_session (sample_datagram_of 7) = Some 7" "take 4 (sample_datagram_of 7) = FRAME_MAGIC"
    by code_simp+
  with assms show ?thesis
    by (simp add: read_attempt_def frame_received_def receive_or_timeout_def consider_hello_def sample_udp_def
        sample_link_def env.defs udp_env.defs tick_env_def host.defs linked.defs v4_peer_def
        accepts_ingress_interface_def io_world_def io_bind_def io_gets_def io_return_def io_seq_def)
qed

lemma sample_read: "\<exists>st'. link_read sample_udp 4 False sample_link = Some (Done (sample_datagram_of 7), st')"
proof -
  have "world sample_link = 0" "ev_now sample_udp 0 = (0, 1)"
    by (simp_all add: sample_link_def sample_host_def host.defs sample_udp_def env.defs tick_env_def)
  then show ?thesis
    by (simp add: link_read_def io_world_def io_bind_def io_loop.simps sample_attempt)
qed

theorem legacy_read_confined_witness:
  "\<exists>st'. link_read sample_udp 4 False sample_link = Some (Done (sample_datagram_of 7), st') \<and>
     link st' = link sample_link \<and> frame_session (sample_datagram_of 7) = Some (discovery_session_id (link st'))"
proof -
  have "sample_datagram_of 7 \<noteq> []" by (simp add: sample_datagram_of_def)
  with sample_read legacy_read_confined [OF sample_udp_runs, of 4 False sample_link] show ?thesis by auto
qed

section \<open>What discovery guarantees\<close>

text \<open>A call at some time during the operation answered so.\<close>

definition during :: "('w \<Rightarrow> instant) \<Rightarrow> instant \<Rightarrow> ('w \<Rightarrow> bool) \<Rightarrow> 'w \<Rightarrow> bool" where
  "during time t R w \<longleftrightarrow> (\<exists>w'. t \<le> time w' \<and> time w' \<le> time w \<and> R w')"

lemma lasting_of_during [lasts]: "lasting time (during time t R)"
  unfolding during_def by (intro lasts)

text \<open>The peer is on the tether of the binding, and for a local-only host that has no default route.\<close>

definition routes_seen :: "('w, 'x) udp_env_scheme \<Rightarrow> ('w \<Rightarrow> instant) \<Rightarrow> instant \<Rightarrow> tether_binding \<Rightarrow> bool \<times> bool \<Rightarrow> 'w \<Rightarrow> bool" where
  "routes_seen E time t b r w \<longleftrightarrow> (\<exists>w1 w2. t \<le> time w1 \<and> time w1 \<le> time w2 \<and> time w2 \<le> time w \<and>
     default_routes_for_identity (fst (ue_system E w1)) (fst (ue_system E w2)) (tb_identity b) = Done r)"

definition peer_confirmed :: "('w, 'x) udp_env_scheme \<Rightarrow> ('w \<Rightarrow> instant) \<Rightarrow> instant \<Rightarrow> bool \<Rightarrow> socket_addr \<Rightarrow>
    tether_binding \<Rightarrow> 'w \<Rightarrow> bool" where
  "peer_confirmed E time t local_only peer b w \<longleftrightarrow>
     during time t (\<lambda>w'. current_tether_binding (fst (ue_system E w')) peer = Done (Some b)) w \<and>
     (local_only \<longrightarrow> routes_seen E time t b (False, False) w)"

lemma lasting_routes [lasts]: "lasting time (routes_seen E time t b r)"
  unfolding routes_seen_def lasting_def by (meson order_trans)

lemma lasting_confirmed [lasts]: "lasting time (peer_confirmed E time t local_only peer b)"
  unfolding peer_confirmed_def by (intro lasts)

lemma classify_route_runs:
  fixes E :: "('w, 'x) udp_env_scheme"
  assumes "udp_runs E time" and "lasting time J"
  shows "runs (\<lambda>w. J w \<and> t \<le> time w) (classify_route E peer :: (('w, 'z) machine_scheme, io_error, tether_binding option) io)
    (\<lambda>r w. \<forall>b. r = Some b \<longrightarrow> peer_confirmed E time t False peer b w)"
  unfolding classify_route_def
  by (rule runs_mono [OF runs_tether [OF assms current_binding_total]]) (auto simp: peer_confirmed_def during_def)

lemma link_routes_present_runs:
  fixes E :: "('w, 'x) udp_env_scheme"
  assumes env: "udp_runs E time" and J: "lasting time J"
  shows "runs (\<lambda>w. J w \<and> t \<le> time w) (link_routes_present E b :: (('w, 'z) machine_scheme, io_error, bool \<times> bool) io)
    (\<lambda>r. routes_seen E time t b r)"
  unfolding runs_def link_routes_present_def
proof (intro allI impI)
  fix st :: "('w, 'z) machine_scheme" assume I: "J (world st) \<and> t \<le> time (world st)"
  let ?w1 = "snd (ue_system E (world st))"
  let ?w2 = "snd (ue_system E ?w1)"
  let ?r = "default_routes_for_identity (fst (ue_system E (world st))) (fst (ue_system E ?w1)) (tb_identity b)"
  note D = udp_runsD(7) [OF env, of "world st"] udp_runsD(7) [OF env, of ?w1]
  have "J ?w1" by (rule lastingD [OF J _ D(1)]) (use I in simp)
  moreover have "J ?w2" by (rule lastingD [OF J _ D(2)]) fact
  moreover have "?r \<noteq> Panic" by (intro default_routes_total udp_runsD(8) [OF env])
  moreover have "routes_seen E time t b r ?w2" if "?r = Done r" for r
    unfolding routes_seen_def
    by (intro exI [of _ "world st"] exI [of _ ?w1]) (use I D that in auto)
  ultimately show "io_ends (io_bind (io_world (ue_system E)) (\<lambda>sys. io_bind (io_world (ue_system E)) (\<lambda>after.
       io_lift (default_routes_for_identity sys after (tb_identity b))))) st
     (ran (\<lambda>w. J w \<and> t \<le> time w) (\<lambda>r. routes_seen E time t b r) st)"
    using I D by (auto intro!: ran_at)
qed

lemma classify_phone_runs:
  fixes E :: "('w, 'x) udp_env_scheme"
  assumes env: "udp_runs E time" and J: "lasting time J"
  shows "runs (\<lambda>w. J w \<and> t \<le> time w)
    (classify_checked E (check_local_only E) peer :: (('w, 'z) machine_scheme, io_error, tether_binding option) io)
    (\<lambda>r w. \<forall>b. r = Some b \<longrightarrow> peer_confirmed E time t True peer b w)" (is "runs ?I _ ?Q")
proof -
  let ?P = "\<lambda>b w. (J w \<and> peer_confirmed E time t False peer b w) \<and> t \<le> time w"
  have P: "lasting time (\<lambda>w. J w \<and> peer_confirmed E time t False peer b w)" for b by (intro lasts J)
  have check: "runs (?P b) (check_local_only E b :: (('w, 'z) machine_scheme, io_error, unit) io)
      (\<lambda>_. routes_seen E time t b (False, False))" for b
    unfolding check_local_only_def
    by (rule runs_bind [OF runs_attempt [OF link_routes_present_runs [OF env P]]])
      (auto intro!: runs_return runs_fail split: sum.split)
  have some: "runs (?P b) (io_seq (check_local_only E b) (io_return (Some b)) ::
      (('w, 'z) machine_scheme, io_error, tether_binding option) io) ?Q" for b
    unfolding io_seq_def
    by (rule runs_bind [OF check]) (rule runs_return, simp add: peer_confirmed_def)
  show ?thesis
    unfolding classify_checked_def
  proof (rule runs_bind [OF classify_route_runs [OF env J]])
    fix x
    show "runs (\<lambda>w. ?I w \<and> (\<forall>b. x = Some b \<longrightarrow> peer_confirmed E time t False peer b w))
      ((case x of None \<Rightarrow> io_return None | Some b \<Rightarrow> io_seq (check_local_only E b) (io_return (Some b))) ::
        (('w, 'z) machine_scheme, io_error, tether_binding option) io) ?Q"
      using some by (cases x) (auto intro!: runs_return simp: conj_ac)
  qed
qed

lemma connect_phone_runs:
  fixes E :: "('w, 'x) udp_env_scheme"
  assumes env: "udp_runs E time"
  shows "runs (\<lambda>w. t \<le> time w) (connect_phone E port timeout local_only :: (('w, 'z) machine_scheme, io_error, udp_connection) io)
    (\<lambda>c w. peer_confirmed E time t local_only (uc_peer c) (uc_binding c) w \<and> greeted E time t port c w)"
proof -
  have T: "lasting time (\<lambda>w. True)" by (intro lasts)
  have conf: "lasting time (peer_confirmed E time t lo peer b)" for lo peer b by (intro lasts)
  have eq: "(\<lambda>w. True \<and> t \<le> time w \<and> J w) = (\<lambda>w. J w \<and> t \<le> time w)" for J by auto
  have route: "runs (\<lambda>w. True \<and> t \<le> time w \<and> J w) (classify_route E peer :: (('w, 'z) machine_scheme, io_error, tether_binding option) io)
      (\<lambda>r w. \<forall>b. r = Some b \<longrightarrow> peer_confirmed E time t False peer b w)" if "lasting time J" for J peer
    unfolding eq by (rule classify_route_runs [OF env that])
  have phone: "runs (\<lambda>w. True \<and> t \<le> time w \<and> J w)
      (classify_checked E (check_local_only E) peer :: (('w, 'z) machine_scheme, io_error, tether_binding option) io)
      (\<lambda>r w. \<forall>b. r = Some b \<longrightarrow> peer_confirmed E time t True peer b w)" if "lasting time J" for J peer
    unfolding eq by (rule classify_phone_runs [OF env that])
  show ?thesis
    using connect_if_runs [OF env T conf route, of port timeout] connect_if_runs [OF env T conf phone, of port timeout]
    unfolding connect_phone_def udp_connect_def udp_connect_checked_def
    by (cases local_only) simp_all
qed

text \<open>
  C12: the phone that discovery finds. In a world whose clock runs, where a receive takes time and no
  call of the OS panics, \<open>connect_phone\<close> returns without a panic and changes nothing of the host. The
  connection it returns answers a hello that was received from its peer during the call, through the
  interface of its binding; during the call that peer was found on this tether; and for a local-only host
  the commands then showed no default route of either family on it.
\<close>

theorem legacy_peer_confirmed:
  fixes E :: "('w, 'x) udp_env_scheme" and st :: "('w, 'z) machine_scheme"
  assumes "udp_runs E time"
  shows "\<exists>r st'. connect_phone E port timeout local_only st = Some (r, st') \<and> r \<noteq> Panic \<and> st' = st\<lparr>world := world st'\<rparr> \<and>
    (\<forall>c. r = Done c \<longrightarrow>
       (\<exists>w. time (world st) \<le> time w \<and> current_tether_binding (fst (ue_system E w)) (uc_peer c) = Done (Some (uc_binding c))) \<and>
       (local_only \<longrightarrow> (\<exists>w1 w2. time (world st) \<le> time w1 \<and> time w1 \<le> time w2 \<and>
          default_routes_for_identity (fst (ue_system E w1)) (fst (ue_system E w2)) (tb_identity (uc_binding c)) =
            Done (False, False))) \<and>
       (\<exists>w d i m. time (world st) \<le> time w \<and> fst (ue_receive E w) = Inr (d, uc_peer c, i) \<and>
          accepts_ingress_interface (uc_binding c) i \<and> decode_discovery d = Done (Some m) \<and> dm_kind m = DISCOVERY_HELLO \<and>
          discovery_session_id c = dm_session_id m))"
proof -
  obtain r w where run: "connect_phone E port timeout local_only st = Some (r, st\<lparr>world := w\<rparr>)" "r \<noteq> Panic"
    and post: "\<And>c. r = Done c \<Longrightarrow> peer_confirmed E time (time (world st)) local_only (uc_peer c) (uc_binding c) w \<and>
      greeted E time (time (world st)) port c w"
    using connect_phone_runs [OF assms, of "time (world st)" port timeout local_only]
    by (fastforce simp: runs_def io_ends_def ran_def)
  have hello: "\<exists>m. decode_discovery d = Done (Some m) \<and> dm_kind m = DISCOVERY_HELLO \<and> discovery_session_id c = dm_session_id m"
    if "hello_opens port d c" for c d
    using that by (auto simp: hello_opens_def hello_of_def split: outcome.splits option.splits if_splits)
  show ?thesis
  proof (intro exI [of _ r] exI [of _ "st\<lparr>world := w\<rparr>"] conjI allI impI)
    fix c assume "r = Done c"
    note p = post [OF this]
    show "\<exists>w. time (world st) \<le> time w \<and> current_tether_binding (fst (ue_system E w)) (uc_peer c) = Done (Some (uc_binding c))"
      using p by (auto simp: peer_confirmed_def during_def)
    show "\<exists>w1 w2. time (world st) \<le> time w1 \<and> time w1 \<le> time w2 \<and>
          default_routes_for_identity (fst (ue_system E w1)) (fst (ue_system E w2)) (tb_identity (uc_binding c)) =
            Done (False, False)" if local_only
      using p that by (auto simp: peer_confirmed_def routes_seen_def)
    show "\<exists>w d i m. time (world st) \<le> time w \<and> fst (ue_receive E w) = Inr (d, uc_peer c, i) \<and>
          accepts_ingress_interface (uc_binding c) i \<and> decode_discovery d = Done (Some m) \<and> dm_kind m = DISCOVERY_HELLO \<and>
          discovery_session_id c = dm_session_id m"
      using p hello by (fastforce simp: greeted_def arrived_def)
  qed (use run in simp_all)
qed

text \<open>A phone on a tether without default routes, whose hello comes first.\<close>

definition tether_system :: net_system where
  "tether_system = \<lparr>ns_route = (\<lambda>_. Done (V4 0xc0a82a01)),
     ns_ifaddrs = Done [\<lparr>ifa_name = Some (ascii ''usb0''), ifa_addr = Some (Inet 0xc0a82a01),
       ifa_netmask = Some (Inet 0xffffff00), ifa_up = True, ifa_loopback = False\<rparr>],
     ns_index = (\<lambda>_. 7), fs_read = (\<lambda>_. Done [55]),
     fs_canonical = (\<lambda>p. Done (if last p = ascii ''subsystem'' then [ascii ''usb''] else p)),
     fs_link = (\<lambda>_. Done [ascii ''rndis_host'']), fs_entries = (\<lambda>_. Done []), fs_exists = (\<lambda>_. True),
     fs_meta = (\<lambda>_. Done \<lparr>fm_is_file = True, fm_is_dir = True, fm_uid = 0, fm_mode = 493\<rparr>),
     run_ip = (\<lambda>_ _. Done \<lparr>co_success = True, co_stdout = [], co_stderr = []\<rparr>)\<rparr>"

definition tether_identity :: interface_identity where
  "tether_identity = \<lparr>if_index = 7, if_name = ascii ''usb0'', device_path = sys_net @ [ascii ''usb0'', ascii ''device''],
     driver = ascii ''rndis_host'', hardware_address = [55]\<rparr>"

abbreviation (input) tether_bound :: tether_binding where
  "tether_bound \<equiv> \<lparr>tb_identity = tether_identity, validate_runtime = True\<rparr>"

lemma tether_identified:
  "usb_network_identity tether_system (ascii ''usb0'') 7 = Done (Some tether_identity)"
proof -
  have "parse_u32 (trim [55]) = Some 7" "trim [55] = [55]"
    by (simp_all add: trim_def is_whitespace_def parse_u32_def)
  then show ?thesis
    by (simp add: usb_network_identity_def Let_def read_index_def tether_system_def sys_net_def is_tether_capable_driver_def
        tether_identity_def ascii_def)
qed

lemma tether_system_binding:
  "current_tether_binding tether_system (v4_peer 5000) = Done (Some tether_bound)"
proof -
  have "valid_tether_prefix (V4 0xc0a82a01) (V4 3232246402) (V4 0xffffff00)" by code_simp
  moreover have "ns_route tether_system p = Done (V4 0xc0a82a01)" for p by (simp add: tether_system_def)
  moreover have "ns_ifaddrs tether_system = Done [\<lparr>ifa_name = Some (ascii ''usb0''), ifa_addr = Some (Inet 0xc0a82a01),
       ifa_netmask = Some (Inet 0xffffff00), ifa_up = True, ifa_loopback = False\<rparr>]" "ns_index tether_system n = 7" for n
    by (simp_all add: tether_system_def)
  ultimately show ?thesis
    using tether_identified
    by (simp add: current_tether_binding_def interfaces_with_address_def note_interface_def carries_address_def v4_peer_def)
qed

lemma tether_system_routes: "default_routes_for_identity tether_system tether_system tether_identity = Done (False, False)"
proof -
  have meta: "fs_meta tether_system p = Done \<lparr>fm_is_file = True, fm_is_dir = True, fm_uid = 0, fm_mode = 493\<rparr>"
    "fs_exists tether_system p" for p by (simp_all add: tether_system_def)
  have "trusted_parents tether_system ps = Done True" for ps by (induction ps) (simp_all add: meta)
  moreover have "fs_canonical tether_system (hd ip_candidates) = Done (hd ip_candidates)"
    by (simp add: tether_system_def ip_candidates_def ascii_def)
  ultimately have "trusted_ip_path tether_system = Done (hd ip_candidates)"
    by (simp add: trusted_ip_path_def trusted_executable_and_parents_def meta ip_candidates_def)
  moreover have "valid_command_interface_name (ascii ''usb0'')" 
    by (simp add: valid_command_interface_name_def ascii_def ascii_alphanumeric_def)
  moreover have "default_route_present tether_system ip family (ascii ''usb0'') = Done False" for ip family
    by (simp add: default_route_present_def tether_system_def)
  ultimately show ?thesis
    using tether_identified by (simp add: default_routes_for_identity_def tether_identity_def)
qed

definition hello_udp :: "nat udp_env" where
  "hello_udp = env.extend tick_env (udp_env.fields (\<lambda>_ w. (Inr (), w)) (\<lambda>_ w. (Inr (), w)) (\<lambda>w. (Inr 9000, w))
     (\<lambda>w. (Inr (encode_discovery DISCOVERY_HELLO 9 77 0, v4_peer 5000, Some 7), Suc w))
     (\<lambda>d _ w. (Inr (length d), w)) (\<lambda>w. (tether_system, w)))"

lemma hello_udp_runs: "udp_runs hello_udp (\<lambda>w. w)"
proof -
  have "clock_runs hello_udp (\<lambda>w. w)"
    using tick_env_runs by (simp add: clock_runs_def hello_udp_def env.defs tick_env_def)
  moreover have "net_answers tether_system" by (simp add: net_answers_def tether_system_def)
  ultimately show ?thesis by (simp add: udp_runs_def hello_udp_def env.defs udp_env.defs)
qed

lemma hello_decodes:
  "hello_of (encode_discovery 1 9 77 0) 9000 = Done (Some \<lparr>dm_kind = 1, dm_nonce = 9, dm_session_id = 77, dm_port = 0\<rparr>)"
  by (simp add: hello_of_def discovery_round_trip discovery_port_acceptable_def)

lemma hello_udp_sels:
  "ev_now hello_udp w = (w, Suc w)" "ue_option hello_udp q w = (Inr (), w)"
  "ue_receive hello_udp w = (Inr (encode_discovery 1 9 77 0, v4_peer 5000, Some 7), Suc w)"
  "ue_send_to hello_udp d p w = (Inr (length d), w)" "ue_system hello_udp w = (tether_system, w)"
  by (simp_all add: hello_udp_def env.defs udp_env.defs tick_env_def)

lemma hello_classified:
  "classify_checked hello_udp (check_local_only hello_udp) (v4_peer 5000) st = Some (Done (Some tether_bound), st)"
  by (simp add: classify_checked_def classify_route_def io_tether_def check_local_only_def link_routes_present_def io_bind_def
      io_world_def io_lift_def io_attempt_def io_seq_def io_return_def hello_udp_sels tether_system_binding tether_system_routes)

lemma hello_attempt:
  assumes "world st < deadline"
  shows "\<exists>c w. discovery_attempt hello_udp 9000 (classify_checked hello_udp (check_local_only hello_udp)) deadline u st =
    Some (Done (Break c), st\<lparr>world := w\<rparr>) \<and> uc_peer c = v4_peer 5000"
    (is "\<exists>c w. ?m = _ \<and> _")
proof -
  have "accepts_ingress_interface tether_bound (Some 7)"
    by (simp add: accepts_ingress_interface_def tether_identity_def)
  with assms have "\<exists>c. ?m = Some (Done (Break c), st\<lparr>world := Suc (Suc (Suc (world st)))\<rparr>) \<and> uc_peer c = v4_peer 5000"
    by (simp add: discovery_attempt_def receive_or_timeout_def discovery_received_def accept_hello_def io_bind_def io_world_def
        io_lift_def io_os_def io_seq_def io_return_def send_redundant_def numeral_2_eq_2 hello_udp_sels hello_decodes hello_classified)
  then show ?thesis by blast
qed

theorem legacy_peer_confirmed_witness:
  "\<exists>c st'. connect_phone hello_udp 9000 1000000000 True \<lparr>world = 0\<rparr> = Some (Done c, st') \<and> uc_peer c = v4_peer 5000 \<and>
     (\<exists>w. current_tether_binding (fst (ue_system hello_udp w)) (uc_peer c) = Done (Some (uc_binding c)))"
proof -
  let ?st = "\<lparr>world = Suc 0\<rparr>"
  obtain c w where "discovery_attempt hello_udp 9000 (classify_checked hello_udp (check_local_only hello_udp)) 1000000000 () ?st =
    Some (Done (Break c), ?st\<lparr>world := w\<rparr>)" "uc_peer c = v4_peer 5000"
    using hello_attempt [of ?st 1000000000 "()"] by auto
  then have "connect_phone hello_udp 9000 1000000000 True \<lparr>world = 0\<rparr> = Some (Done c, ?st\<lparr>world := w\<rparr>)"
    by (simp add: connect_phone_def udp_connect_checked_def connect_if_def io_os_def io_bind_def io_world_def io_seq_def
        io_loop.simps io_return_def hello_udp_sels)
  with legacy_peer_confirmed [OF hello_udp_runs, of 9000 1000000000 True "\<lparr>world = 0\<rparr>"] \<open>uc_peer c = _\<close>
  show ?thesis by auto
qed

end
