(* ===== verification/Triples.thy ===== *)
theory Triples
  imports Host_World
begin

text \<open>
  Total Hoare triples of computations over the state of the process, with one condition for a result
  and one for a failure; a computation of which a triple holds returns, without a panic.
\<close>

section \<open>Triples\<close>

fun outcome_in :: "('a \<Rightarrow> 'st \<Rightarrow> bool) \<Rightarrow> ('st \<Rightarrow> bool) \<Rightarrow> ('e, 'a) outcome \<Rightarrow> 'st \<Rightarrow> bool" where
  "outcome_in Q X (Done x) st \<longleftrightarrow> Q x st"
| "outcome_in Q X (Fail e) st \<longleftrightarrow> X st"
| "outcome_in Q X Panic st \<longleftrightarrow> False"

definition triple :: "('st \<Rightarrow> bool) \<Rightarrow> ('st, 'e, 'a) io \<Rightarrow> ('a \<Rightarrow> 'st \<Rightarrow> bool) \<Rightarrow> ('st \<Rightarrow> bool) \<Rightarrow> bool" where
  "triple P m Q X \<longleftrightarrow> (\<forall>st. P st \<longrightarrow> io_ends m st (outcome_in Q X))"

lemma tripleI: "(\<And>st. P st \<Longrightarrow> io_ends m st (outcome_in Q X)) \<Longrightarrow> triple P m Q X"
  by (simp add: triple_def)

lemma tripleD: "triple P m Q X \<Longrightarrow> P st \<Longrightarrow> io_ends m st (outcome_in Q X)"
  by (simp add: triple_def)

lemma triple_run:
  assumes "triple P m Q X" and "P st"
  obtains r st' where "m st = Some (r, st')" "outcome_in Q X r st'" "r \<noteq> Panic"
  using tripleD [OF assms] that unfolding io_ends_def by (metis outcome_in.simps(3))

lemma triple_conseq:
  assumes "triple P' m Q' X'" and "\<And>st. P st \<Longrightarrow> P' st" and "\<And>x st. Q' x st \<Longrightarrow> Q x st" and "\<And>st. X' st \<Longrightarrow> X st"
  shows "triple P m Q X"
proof (rule tripleI, rule io_ends_mono [OF tripleD [OF assms(1) assms(2)]], goal_cases)
  case (2 st r st')
  then show ?case using assms(3,4) by (cases r) simp_all
qed

lemma triple_pre: "triple P' m Q X \<Longrightarrow> (\<And>st. P st \<Longrightarrow> P' st) \<Longrightarrow> triple P m Q X"
  by (rule triple_conseq)

lemma triple_post: "triple P m Q' X \<Longrightarrow> (\<And>x st. Q' x st \<Longrightarrow> Q x st) \<Longrightarrow> triple P m Q X"
  by (rule triple_conseq)

section \<open>The rules\<close>

named_theorems triples

lemma triple_bind [triples]:
  assumes "triple P m R X" and "\<And>x. triple (R x) (f x) Q X"
  shows "triple P (io_bind m f) Q X"
proof (rule tripleI)
  fix st assume "P st"
  show "io_ends (io_bind m f) st (outcome_in Q X)"
    unfolding io_ends_bind
  proof (rule io_ends_mono [OF tripleD [OF assms(1) \<open>P st\<close>]], goal_cases)
    case (1 r st')
    then show ?case using tripleD [OF assms(2)] by (cases r) simp_all
  qed
qed

lemma triple_seq [triples]: "triple P m (\<lambda>_. R) X \<Longrightarrow> triple R k Q X \<Longrightarrow> triple P (io_seq m k) Q X"
  unfolding io_seq_def by (rule triple_bind)

lemma triple_return [triples]: "(\<And>st. P st \<Longrightarrow> Q x st) \<Longrightarrow> triple P (io_return x) Q X"
  by (simp add: triple_def)

lemma triple_fail [triples]: "(\<And>st. P st \<Longrightarrow> X st) \<Longrightarrow> triple P (io_fail e) Q X"
  by (simp add: triple_def)

lemma triple_gets: "(\<And>st. P st \<Longrightarrow> Q (g st) st) \<Longrightarrow> triple P (io_gets g) Q X"
  by (simp add: triple_def)

lemma triple_update: "(\<And>st. P st \<Longrightarrow> Q () (h st)) \<Longrightarrow> triple P (io_update h) Q X"
  by (simp add: triple_def)

lemma triple_world:
  "(\<And>st. P st \<Longrightarrow> Q (fst (f (world st))) (st\<lparr>world := snd (f (world st))\<rparr>)) \<Longrightarrow> triple P (io_world f) Q X"
  by (simp add: triple_def)

lemma triple_if [triples]:
  "(b \<Longrightarrow> triple P m Q X) \<Longrightarrow> (\<not> b \<Longrightarrow> triple P k Q X) \<Longrightarrow> triple P (if b then m else k) Q X"
  by simp

lemma triple_when [triples]:
  "(b \<Longrightarrow> triple P m Q X) \<Longrightarrow> (\<And>st. \<not> b \<Longrightarrow> P st \<Longrightarrow> Q () st) \<Longrightarrow> triple P (io_when b m) Q X"
  unfolding io_when_def by (intro triple_if triple_return) simp_all

lemma triple_attempt:
  assumes "triple P m (\<lambda>x. Q (Inr x)) Y" and "\<And>e st. Y st \<Longrightarrow> Q (Inl e) st"
  shows "triple P (io_attempt m) Q X"
proof (rule tripleI)
  fix st assume "P st"
  show "io_ends (io_attempt m) st (outcome_in Q X)"
    unfolding io_ends_attempt
  proof (rule io_ends_mono [OF tripleD [OF assms(1) \<open>P st\<close>]], goal_cases)
    case (1 r st')
    then show ?case using assms(2) by (cases r) simp_all
  qed
qed

lemma triple_pure: "(\<And>st. P st \<Longrightarrow> b) \<Longrightarrow> (b \<Longrightarrow> triple P m Q X) \<Longrightarrow> triple P m Q X"
  by (auto simp: triple_def)

section \<open>Loops\<close>

text \<open>The condition of an iteration: the invariant to go on, the final condition to leave.\<close>

abbreviation (input) continues :: "('a \<Rightarrow> 'st \<Rightarrow> bool) \<Rightarrow> ('b \<Rightarrow> 'st \<Rightarrow> bool) \<Rightarrow> ('a, 'b) flow \<Rightarrow> 'st \<Rightarrow> bool" where
  "continues I Q \<equiv> \<lambda>fl st. case fl of Continue y \<Rightarrow> I y st | Break z \<Rightarrow> Q z st"

lemma outcome_in_iterated: "outcome_in (continues I Q) X r st \<Longrightarrow> iterated I (outcome_in Q X) r st"
  by (cases r) (auto split: flow.splits)

lemma triple_loop:
  fixes \<mu> :: "'st \<Rightarrow> nat"
  assumes "\<And>y k. triple (\<lambda>st. I y st \<and> \<mu> st = k) (body y) (continues (\<lambda>z st. I z st \<and> \<mu> st < k) Q) X"
  shows "triple (I x) (io_loop body x) Q X"
proof (rule tripleI)
  fix st assume "I x st"
  then show "io_ends (io_loop body x) st (outcome_in Q X)"
  proof (rule io_loop_ends [where \<mu> = "\<lambda>_. \<mu>"])
    fix y st1 assume "I y st1"
    then have "io_ends (body y) st1 (outcome_in (continues (\<lambda>z st. I z st \<and> \<mu> st < \<mu> st1) Q) X)"
      using tripleD [OF assms] by blast
    then show "io_ends (body y) st1 (iterated (\<lambda>z st. I z st \<and> \<mu> st < \<mu> st1) (outcome_in Q X))"
      by (rule io_ends_mono) (rule outcome_in_iterated)
  qed
qed

text \<open>A condition that iterations keep holds whenever an iteration begins, also if the loop never ends.\<close>

lemma triple_reaches:
  assumes "\<And>y. triple (I y) (body y) (continues I Q) X" and "I x st" and "io_reaches body x st y st'"
  shows "I y st'"
proof (rule io_reaches_inv [where I = I, OF assms(3,2)])
  fix z st1 assume "I z st1"
  then have "io_ends (body z) st1 (iterated I (outcome_in Q X))"
    by (intro io_ends_mono [OF tripleD [OF assms(1)]] outcome_in_iterated)
  then show "io_safe (body z) st1 (iterated I (outcome_in Q X))" by (rule io_ends_safe)
qed

end
