(* ===== verification/Legacy_Session_Safety.thy ===== *)
theory Legacy_Session_Safety
  imports Legacy_Session Legacy_Link_Safety Triples
begin

text \<open>
  What a connection of protocol v4 guarantees, whatever the phone, the network, the kernel and the clock
  do: its log is a run, in which the frames of a session are accepted in order, each once, and every control
  record names the last of them; the loop returns when the host is told to stop.
\<close>

section \<open>The log of a connection\<close>

text \<open>
  Where a connection stands: at the first frame the process ever takes, before the start of a session,
  or in a session at the next sequence number. \<open>follow\<close> is the step that an effect makes, if it is allowed:
  a release ends the session, a frame continues the session or starts one, and a control record names the
  session and the last frame accepted in it.
\<close>

datatype run_point = AnyStart | FreshStart | Next u64 u64

fun follow :: "run_point \<Rightarrow> effect \<Rightarrow> run_point option" where
  "follow p Released = Some FreshStart"
| "follow AnyStart (Accepted f) = Some (Next (session_id f) (sequence f + 1))"
| "follow FreshStart (Accepted f) = (if session_start f then Some (Next (session_id f) (sequence f + 1)) else None)"
| "follow (Next sid n) (Accepted f) = (if session_id f = sid \<and> sequence f = n then Some (Next sid (n + 1)) else None)"
| "follow (Next sid n) (Sent ty s acked d) = (if s = sid \<and> acked = n - 1 then Some (Next sid n) else None)"
| "follow p (Sent ty s acked d) = None"

fun run_from :: "run_point \<Rightarrow> effect list \<Rightarrow> run_point option" where
  "run_from p [] = Some p"
| "run_from p (x # xs) = (case follow p x of None \<Rightarrow> None | Some q \<Rightarrow> run_from q xs)"

lemma run_from_append:
  "run_from p (xs @ ys) = (case run_from p xs of None \<Rightarrow> None | Some q \<Rightarrow> run_from q ys)"
  by (induction xs arbitrary: p) (simp_all split: option.split)

text \<open>Where the receive window stands.\<close>

definition point_of :: "ordered_frames \<Rightarrow> run_point" where
  "point_of w = (case of_session w of Some sid \<Rightarrow> Next sid (next_sequence w)
     | None \<Rightarrow> if requires_session_start w then FreshStart else AnyStart)"

lemma point_of_fresh [simp]: "point_of (require_fresh_session w) = FreshStart"
  by (simp add: point_of_def require_fresh_session_def)

lemma run_from_frames:
  assumes "map sequence ds = seq_from n (length ds)" and "\<forall>f \<in> set ds. session_id f = sid"
  shows "run_from (Next sid n) (map Accepted ds) = Some (Next sid (n + of_nat (length ds)))"
  using assms by (induction ds arbitrary: n) (auto simp: algebra_simps)

text \<open>A frame of the session is put into the window and what is then ready is accepted.\<close>

lemma run_from_push:
  assumes inv: "window_inv w" and same: "\<forall>sid. of_session w = Some sid \<longrightarrow> session_id f = sid"
    and run: "window_run push next_ready window_commit (replicate (length ds) Deliver) (push w f) = (w', ds)"
  shows "\<exists>q. run_from (point_of w) (map Accepted ds) = Some q \<and> (next_ready w' = None \<longrightarrow> q = point_of w')"
proof -
  have ws: "window_inv (push w f)" by (rule window_inv_push [OF inv])
  have one: "ring.one_session sid (replicate (length ds) Deliver)" for sid
    by (auto simp: ring.one_session_def arrivals_def)
  have no_arrivals: "arrivals (replicate k Deliver) = {}" for k by (auto simp: arrivals_def)
  consider (refused) "of_session w = None" "requires_session_start w \<and> \<not> session_start f"
    | (begun) "of_session w = None" "\<not> (requires_session_start w \<and> \<not> session_start f)"
    | (goes_on) sid where "of_session w = Some sid" "session_id f = sid"
    using same by (cases "of_session w") blast+
  then show ?thesis
  proof cases
    case refused
    then have "push w f = w" by (simp add: push_cases [OF inv])
    moreover from this have "ds = []" "w' = w"
      using deliver_nothing [OF no_session_not_ready [OF inv refused(1)]] run by simp_all
    ultimately show ?thesis by simp
  next
    case begun
    then have eq: "push w f = buffer_frame (begin_session w f) f" 
      unfolding push_cases [OF inv, of f] by auto
    have sess: "of_session (push w f) = Some (session_id f)" "next_sequence (push w f) = sequence f"
      by (simp_all add: eq begin_session_def)
    have found: "lookup_frame (push w f) (sequence f) = Some f"
    proof -
      have "lookup_frame (begin_session w f) (sequence f) = None \<and> next_sequence (begin_session w f) = sequence f"
        using window_inv_length [OF inv] by (simp add: lookup_frame_def begin_session_def slot_less)
      then show ?thesis
        unfolding eq lookup_buffer_frame [OF window_inv_begin [OF inv]] by (simp add: in_window_def)
    qed
    note r = ring.run_consecutive [OF ws sess(1) one run]
    show ?thesis
    proof (cases ds)
      case Nil
      then have "w' = push w f" using run by simp
      with found sess lookup_next [OF ws] have "next_ready w' \<noteq> None" by simp
      with Nil show ?thesis by auto
    next
      case (Cons f0 ds')
      then have s0: "sequence f0 = sequence f" and rest: "map sequence ds' = seq_from (sequence f + 1) (length ds')"
        and ids: "session_id f0 = session_id f" "\<forall>g \<in> set ds'. session_id g = session_id f"
        using r sess by simp_all
      have "f0 \<in> set ds" unfolding Cons by simp
      then have "lookup_frame (push w f) (sequence f0) = Some f0"
        using ring.run_origin [OF ws sess(1) one run] no_arrivals by blast
      then have "f0 = f" unfolding s0 found by simp
      then have "follow (point_of w) (Accepted f0) = Some (Next (session_id f) (sequence f + 1))"
        using begun by (auto simp: point_of_def)
      moreover have "point_of w' = Next (session_id f) (sequence f + 1 + of_nat (length ds'))"
        using r sess Cons by (simp add: point_of_def algebra_simps)
      ultimately show ?thesis
        using run_from_frames [OF rest ids(2)] Cons by (simp add: algebra_simps)
    qed
  next
    case goes_on
    then have sess: "of_session (push w f) = Some sid" "next_sequence (push w f) = next_sequence w"
      using inv by (auto simp: push_cases [OF inv] window_inv_def)
    note r = ring.run_consecutive [OF ws sess(1) one run]
    have "run_from (point_of w) (map Accepted ds) = Some (Next sid (next_sequence w + of_nat (length ds)))"
      using run_from_frames [of ds "next_sequence w" sid] r sess goes_on by (simp add: point_of_def)
    with r sess show ?thesis by (simp add: point_of_def)
  qed
qed

section \<open>Steps that the world and the recorder take\<close>

text \<open>A condition that neither the passing of time nor a recorded event ends.\<close>

definition robust :: "('w \<Rightarrow> instant) \<Rightarrow> (('w, 'z) metered_scheme \<Rightarrow> bool) \<Rightarrow> bool" where
  "robust time J \<longleftrightarrow> (\<forall>st st'. J st \<longrightarrow> only_metered time st st' \<longrightarrow> J st')"

lemma robustD: "robust time J \<Longrightarrow> J st \<Longrightarrow> only_metered time st st' \<Longrightarrow> J st'"
  by (auto simp: robust_def)

lemma triple_time:
  assumes "robust time J" and "\<And>w. time w \<le> time (snd (f w))"
  shows "triple J (io_world f) (\<lambda>_. J) X"
proof (rule triple_world)
  fix st :: "('a, 'b) metered_scheme" assume "J st"
  then show "J (st\<lparr>world := snd (f (world st))\<rparr>)"
    by (rule robustD [OF assms(1)]) (intro only_metered_world assms(2))
qed

lemma triple_records:
  assumes "robust time J" and "\<And>st. records time m st"
  shows "triple J m (\<lambda>_. J) X"
  by (rule tripleI, rule records_mono [OF assms(2)]) (simp add: robustD [OF assms(1)])

lemma triple_keeps:
  assumes J: "robust time J" and m: "\<And>I. lasting time I \<Longrightarrow> keeps I m" and "\<And>st. J st \<Longrightarrow> X st"
  shows "triple J m (\<lambda>_. J) X"
proof (rule tripleI)
  fix st assume "J st"
  have "lasting time (\<lambda>w. time (world st) \<le> time w)" by (intro lasts)
  from m [OF this] have "io_ends m st (ran (\<lambda>w. time (world st) \<le> time w) (\<lambda>_ _. True) st)" by (simp add: runs_def)
  then show "io_ends m st (outcome_in (\<lambda>_. J) X)"
  proof (rule io_ends_mono, goal_cases)
    case (1 r st')
    then have "J st'" using robustD [OF J \<open>J st\<close>] by (auto simp: ran_def intro: only_metered_world)
    with 1 assms(3) show ?case by (cases r) (auto simp: ran_def)
  qed
qed

text \<open>The world of the legacy host: the calls beside the link do not turn back time, and a sleep takes some.\<close>

definition legacy_runs :: "('w, 'x) legacy_env_scheme \<Rightarrow> ('w \<Rightarrow> instant) \<Rightarrow> bool" where
  "legacy_runs E time \<longleftrightarrow> udp_runs E time \<and> (\<forall>w. time w \<le> time (snd (le_flush E w)) \<and>
     time w \<le> time (snd (le_report E w)) \<and> (\<forall>d. 0 < d \<longrightarrow> time w < time (snd (le_sleep E d w))))"

lemma legacy_runsD:
  assumes "legacy_runs E time"
  shows "udp_runs E time" "clock_runs E time" "time w \<le> time (snd (le_flush E w))"
    "time w \<le> time (snd (le_report E w))" "0 < d \<Longrightarrow> time w < time (snd (le_sleep E d w))"
  using assms udp_runsD(1) [of E time] by (auto simp: legacy_runs_def)

lemma keep_os_time: "(\<And>w. time w \<le> time (snd (f w))) \<Longrightarrow> lasting time I \<Longrightarrow> keeps I (io_os f)"
  by (rule keep_os) (rule lastingD)

section \<open>The invariant of a connection\<close>

definition link_matches :: "udp_connection \<Rightarrow> ordered_frames \<Rightarrow> bool" where
  "link_matches c w \<longleftrightarrow> \<not> session_changed c \<and> (\<forall>sid. of_session w = Some sid \<longrightarrow> sid = discovery_session_id c)"

definition logged :: "run_point \<Rightarrow> effect list \<Rightarrow> run_point \<Rightarrow> effect list \<Rightarrow> bool" where
  "logged p0 tr p tr' \<longleftrightarrow> (\<exists>new. tr' = tr @ new \<and> run_from p0 new = Some p)"

lemma logged_more: "logged p0 tr p tr' \<Longrightarrow> run_from p xs = Some q \<Longrightarrow> logged p0 tr q (tr' @ xs)"
  by (auto simp: logged_def run_from_append)

context sink_contract
begin

text \<open>
  \<open>sound\<close>: the log is as it may be and ends where the window stands, and no frame is half submitted.
  \<open>serving\<close>: also the window is in the session of the link. \<open>broken\<close>: what is left after a failure.
\<close>

definition sound :: "run_point \<Rightarrow> effect list \<Rightarrow> ('w \<Rightarrow> instant) \<Rightarrow> instant \<Rightarrow> ('w, 's, 'z) legacy_scheme \<Rightarrow> bool" where
  "sound p0 tr time t st \<longleftrightarrow> logged p0 tr (point_of (ordered st)) (trace st) \<and> window_ok frame_ok (ordered st) \<and>
     idle (sink st) \<and> t \<le> time (world st)"

definition serving :: "run_point \<Rightarrow> effect list \<Rightarrow> ('w \<Rightarrow> instant) \<Rightarrow> instant \<Rightarrow> ('w, 's, 'z) legacy_scheme \<Rightarrow> bool" where
  "serving p0 tr time t st \<longleftrightarrow> sound p0 tr time t st \<and> link_matches (link st) (ordered st)"

definition broken :: "run_point \<Rightarrow> effect list \<Rightarrow> ('w \<Rightarrow> instant) \<Rightarrow> instant \<Rightarrow> ('w, 's, 'z) legacy_scheme \<Rightarrow> bool" where
  "broken p0 tr time t st \<longleftrightarrow> (\<exists>p. logged p0 tr p (trace st)) \<and> window_inv (ordered st) \<and> held (sink st) \<and>
     t \<le> time (world st)"

lemma idle_held: "idle s \<Longrightarrow> held s"
  using idle_busy busy_held by blast

lemma sound_broken: "sound p0 tr time t st \<Longrightarrow> broken p0 tr time t st"
  by (auto simp: sound_def broken_def window_ok_def idle_held)

lemma serving_broken: "serving p0 tr time t st \<Longrightarrow> broken p0 tr time t st"
  by (simp add: serving_def sound_broken)

lemma serving_sound: "serving p0 tr time t st \<Longrightarrow> sound p0 tr time t st"
  by (simp add: serving_def)

lemma sound_same:
  assumes "sound p0 tr time t st" and "apart time st st'" and "idle (sink st')"
  shows "sound p0 tr time t st'"
  using assms by (auto simp: sound_def apart_def stays_def)

lemma apart_link: "apart time st st' \<Longrightarrow> link st' = link (st :: ('w, 's, 'z) linked_scheme)"
  by (cases st; cases st') (simp add: apart_def stays_def)

lemma robust_serving:
  fixes R :: "ordered_frames \<Rightarrow> udp_connection \<Rightarrow> bool"
  shows "robust time (\<lambda>st :: ('w, 's, 'z) legacy_scheme. serving p0 tr time t st \<and> R (ordered st) (link st))"
  unfolding robust_def
proof (intro allI impI)
  fix st st' :: "('w, 's, 'z) legacy_scheme"
  assume J: "serving p0 tr time t st \<and> R (ordered st) (link st)" and "only_metered time st st'"
  then have a: "apart time st st'" "sink st' = sink st" by (auto dest: only_metered_apart)
  moreover have "ordered st' = ordered st" using a by (simp add: apart_def)
  ultimately show "serving p0 tr time t st' \<and> R (ordered st') (link st')"
    using J sound_same [of p0 tr time t st st'] apart_link [of time st st']
    by (simp add: serving_def) (simp add: sound_def)
qed


lemma serving_fields [simp]:
  "serving p0 tr time t (st\<lparr>parser := p\<rparr>) = serving p0 tr time t st"
  "serving p0 tr time t (st\<lparr>link := c\<rparr>) \<longleftrightarrow> sound p0 tr time t st \<and> link_matches c (ordered st)"
  "sound p0 tr time t (st\<lparr>link := c\<rparr>) = sound p0 tr time t st"
  "broken p0 tr time t (st\<lparr>link := c\<rparr>) = broken p0 tr time t st"
  by (simp_all add: serving_def sound_def broken_def)

lemma robust_serving_only: "robust time (serving p0 tr time t :: ('w, 's, 'z) legacy_scheme \<Rightarrow> bool)"
  using robust_serving [of time p0 tr t "\<lambda>_ _. True"] by simp

lemma service_serves:
  fixes E :: "('w, 'x) env_scheme"
  assumes "clock_runs E time"
  shows "triple (serving p0 tr time t :: ('w, 's, 'z) legacy_scheme \<Rightarrow> bool) (service_deferred E S)
    (\<lambda>_. serving p0 tr time t) (broken p0 tr time t)"
proof (rule tripleI)
  fix st :: "('w, 's, 'z) legacy_scheme" assume st: "serving p0 tr time t st"
  then have "idle (sink st)" by (simp add: serving_def sound_def)
  from service_deferred_ends [OF assms this]
  show "io_ends (service_deferred E S) st (outcome_in (\<lambda>_. serving p0 tr time t) (broken p0 tr time t))"
  proof (rule io_ends_mono, goal_cases)
    case (1 r st')
    then have a: "apart time st st'" and "idle (sink st')" by auto
    moreover from a have "ordered st' = ordered st" by (simp add: apart_def)
    ultimately have "serving p0 tr time t st'"
      using st a sound_same [of p0 tr time t st st'] apart_link [OF a] by (simp add: serving_def)
    with 1 serving_broken show ?case by auto
  qed
qed

text \<open>The window is reset and the keys are released.\<close>

definition reset :: "run_point \<Rightarrow> effect list \<Rightarrow> ('w \<Rightarrow> instant) \<Rightarrow> instant \<Rightarrow> ('w, 's, 'z) legacy_scheme \<Rightarrow> bool" where
  "reset p0 tr time t st \<longleftrightarrow> broken p0 tr time t st \<and> (\<exists>w. window_inv w \<and> ordered st = require_fresh_session w)"

lemma reset_broken: "reset p0 tr time t st \<Longrightarrow> broken p0 tr time t st"
  by (simp add: reset_def)

lemma require_start_resets:
  fixes R :: "udp_connection \<Rightarrow> bool"
  shows "triple (\<lambda>st :: ('w, 's, 'z) legacy_scheme. broken p0 tr time t st \<and> R (link st)) require_start
    (\<lambda>_ st. reset p0 tr time t st \<and> R (link st)) X"
  unfolding require_start_def
  by (rule triple_update) (auto simp: reset_def broken_def window_inv_fresh)

lemma cancel_resets:
  fixes E :: "('w, 'x) env_scheme" and R :: "udp_connection \<Rightarrow> bool"
  assumes "clock_runs E time"
  shows "triple (\<lambda>st :: ('w, 's, 'z) legacy_scheme. reset p0 tr time t st \<and> R (link st)) (cancel_with_deadline E S)
    (\<lambda>_ st. (sound p0 tr time t st \<and> of_session (ordered st) = None \<and> \<not> is_active S (sink st)) \<and> R (link st))
    (\<lambda>st. reset p0 tr time t st \<and> is_active S (sink st) \<and> R (link st))"
proof (rule tripleI)
  fix st :: "('w, 's, 'z) legacy_scheme" assume st: "reset p0 tr time t st \<and> R (link st)"
  then obtain w p where w: "window_inv w" "ordered st = require_fresh_session w" and p: "logged p0 tr p (trace st)"
    and held: "held (sink st)" and time: "t \<le> time (world st)"
    by (auto simp: reset_def broken_def)
  from cancel_with_deadline_ends [OF assms held]
  show "io_ends (cancel_with_deadline E S) st (outcome_in
    (\<lambda>_ st. (sound p0 tr time t st \<and> of_session (ordered st) = None \<and> \<not> is_active S (sink st)) \<and> R (link st))
    (\<lambda>st. reset p0 tr time t st \<and> is_active S (sink st) \<and> R (link st)))"
  proof (rule io_ends_mono, elim disjE conjE exE, goal_cases)
    case (1 r st')
    have same: "link st' = link st"
      using 1 by (cases st; cases st') (simp add: cancel_post_def stays_def)
    have "logged p0 tr FreshStart (trace st @ [Released])" by (rule logged_more [OF p]) simp
    with 1 w time st same show ?case
      by (simp add: sound_def cancel_post_def stays_def fresh_window_ok)
        (simp add: require_fresh_session_def)
  next
    case (2 r st' e)
    have same: "link st' = link st"
      using 2 by (cases st; cases st') (simp add: cancel_post_def stays_def)
    with 2 w p time st show ?case
      by (auto simp: reset_def broken_def cancel_post_def stays_def)
  qed
qed

lemma io_elapsed_keeps:
  fixes E :: "('w, 'x) env_scheme"
  assumes "clock_runs E time" and "robust time J"
  shows "triple J (io_elapsed E d) (\<lambda>_. J) X"
  unfolding io_elapsed_def
  by (intro triple_bind [OF triple_time [OF assms(2)]] triple_return clock_runsD(2) [OF assms(1)])

lemma serving_resets:
  "triple (serving p0 tr time t :: ('w, 's, 'z) legacy_scheme \<Rightarrow> bool) require_start (\<lambda>_. reset p0 tr time t) X"
  by (rule triple_conseq [OF require_start_resets [where R = "\<lambda>_. True"]]) (auto simp: serving_broken)

lemma reset_released:
  fixes E :: "('w, 'x) env_scheme"
  assumes "clock_runs E time"
  shows "triple (reset p0 tr time t :: ('w, 's, 'z) legacy_scheme \<Rightarrow> bool) (cancel_with_deadline E S)
      (\<lambda>_. sound p0 tr time t) (broken p0 tr time t)"
  by (rule triple_conseq [OF cancel_resets [OF assms, where R = "\<lambda>_. True"]]) (auto simp: reset_broken)

lemma idle_serves:
  fixes E :: "('w, 'x) legacy_env_scheme"
  assumes "clock_runs E time"
  shows "triple (serving p0 tr time t :: ('w, 's, 'z) legacy_scheme \<Rightarrow> bool) (check_idle_link E S)
    (\<lambda>_. serving p0 tr time t) (broken p0 tr time t)"
proof -
  note elapsed = io_elapsed_keeps [OF assms robust_serving_only [of time p0 tr t]]
  have gets: "triple (serving p0 tr time t) (io_gets f) (\<lambda>_. serving p0 tr time t) (broken p0 tr time t)"
    for f :: "('w, 's, 'z) legacy_scheme \<Rightarrow> 'q" by (rule triple_gets)
  show ?thesis
    unfolding check_idle_link_def peer_activity_elapsed_def io_bind_laws
    by (intro triple_bind [OF gets] triple_bind [OF elapsed] triple_when triple_seq [OF serving_resets] triple_fail)
      (auto simp: reset_broken)
qed

lemma progress_serves:
  fixes E :: "('w, 'x) legacy_env_scheme"
  assumes "clock_runs E time"
  shows "triple (serving p0 tr time t :: ('w, 's, 'z) legacy_scheme \<Rightarrow> bool) (check_progress E S ctl)
    (\<lambda>_. serving p0 tr time t) (broken p0 tr time t)"
proof -
  note elapsed = io_elapsed_keeps [OF assms robust_serving_only [of time p0 tr t]]
  have gets: "triple (serving p0 tr time t) (io_gets f) (\<lambda>_. serving p0 tr time t) (broken p0 tr time t)"
    for f :: "('w, 's, 'z) legacy_scheme \<Rightarrow> 'q" by (rule triple_gets)
  show ?thesis
    unfolding check_progress_def
    by (intro triple_bind [OF gets] triple_when triple_bind [OF elapsed] triple_seq [OF serving_resets]
        triple_seq [OF reset_released [OF assms]] triple_fail)
      (auto simp: sound_broken)
qed


text \<open>What reading leaves: a datagram is of the session of the link, which may have changed.\<close>

definition taken_from :: "bytes \<Rightarrow> udp_connection \<Rightarrow> bool" where
  "taken_from d c \<longleftrightarrow> d = [] \<or> frame_session d = Some (discovery_session_id c)"

lemma read_serves:
  fixes E :: "('w, 'x) udp_env_scheme"
  assumes "udp_runs E time"
  shows "triple (serving p0 tr time t :: ('w, 's, 'z) legacy_scheme \<Rightarrow> bool) (link_read E n allow)
    (\<lambda>d st. sound p0 tr time t st \<and> (session_changed (link st) \<or> link_matches (link st) (ordered st)) \<and> taken_from d (link st))
    (broken p0 tr time t)"
proof (rule tripleI)
  fix st :: "('w, 's, 'z) legacy_scheme" assume st: "serving p0 tr time t st"
  show "io_ends (link_read E n allow) st (outcome_in (\<lambda>d st. sound p0 tr time t st \<and>
    (session_changed (link st) \<or> link_matches (link st) (ordered st)) \<and> taken_from d (link st)) (broken p0 tr time t))"
  proof (rule io_ends_mono [OF link_read_follows [OF assms refl]], elim conjE exE, goal_cases)
    case (1 r st' w c)
    then have "time (world st) \<le> time w" and changed: "session_changed c \<or> discovery_session_id c = discovery_session_id (link st)"
      by (auto simp: follows_def)
    then have "sound p0 tr time t st'" using st 1 by (simp add: serving_def sound_def)
    moreover have "session_changed c \<or> link_matches c (ordered st)"
      using st changed by (auto simp: serving_def link_matches_def)
    ultimately show ?case
      using 1 sound_broken by (cases r) (auto simp: frame_read_def taken_from_def)
  qed
qed

lemma follow_serves:
  fixes E :: "('w, 'x) legacy_env_scheme"
  assumes "clock_runs E time"
  shows "triple (\<lambda>st :: ('w, 's, 'z) legacy_scheme. sound p0 tr time t st \<and>
      (session_changed (link st) \<or> link_matches (link st) (ordered st)) \<and> taken_from d (link st))
    (follow_session E S ctl) (\<lambda>_ st. serving p0 tr time t st \<and> taken_from d (link st)) (broken p0 tr time t)"
proof -
  let ?R = "\<lambda>c. \<not> session_changed c \<and> taken_from d c"
  have take_it: "triple (\<lambda>st :: ('w, 's, 'z) legacy_scheme. sound p0 tr time t st \<and>
      (session_changed (link st) \<or> link_matches (link st) (ordered st)) \<and> taken_from d (link st))
    take_session_changed (\<lambda>b st. sound p0 tr time t st \<and> ?R (link st) \<and> (b \<or> link_matches (link st) (ordered st)))
      (broken p0 tr time t)"
    by (rule tripleI) (auto simp: take_session_changed_def taken_from_def link_matches_def)
  have start: "triple (\<lambda>st :: ('w, 's, 'z) legacy_scheme. sound p0 tr time t st \<and> ?R (link st) \<and> Y st) require_start
      (\<lambda>_ st. reset p0 tr time t st \<and> ?R (link st)) (broken p0 tr time t)" for Y
    by (rule triple_pre [OF require_start_resets]) (auto simp: sound_broken)
  have cancel: "triple (\<lambda>st :: ('w, 's, 'z) legacy_scheme. reset p0 tr time t st \<and> ?R (link st)) (cancel_with_deadline E S)
      (\<lambda>_ st. serving p0 tr time t st \<and> taken_from d (link st)) (broken p0 tr time t)"
    by (rule triple_conseq [OF cancel_resets [OF assms]]) (auto simp: reset_broken serving_def link_matches_def)
  have now: "triple (\<lambda>st :: ('w, 's, 'z) legacy_scheme. serving p0 tr time t st \<and> taken_from d (link st)) (io_now E)
      (\<lambda>_ st. serving p0 tr time t st \<and> taken_from d (link st)) (broken p0 tr time t)"
    by (rule triple_time [OF robust_serving [of time p0 tr t "\<lambda>_. taken_from d"]]) (rule clock_runsD(2) [OF assms])
  show ?thesis
    unfolding follow_session_def
    by (intro triple_bind [OF take_it] triple_if triple_seq [OF start] triple_seq [OF cancel] triple_bind [OF now] triple_return)
      (auto simp: serving_def)
qed

section \<open>A frame\<close>

lemma committed_session:
  assumes "window_inv w" and "committed time st ds st'" and "ordered st = w"
  shows "of_session (ordered st') = of_session w"
proof (cases "of_session w")
  case None
  with deliver_nothing [OF no_session_not_ready [OF assms(1)]] assms(2,3) show ?thesis by (simp add: committed_def)
next
  case (Some sid)
  have "ring.one_session sid (replicate (length ds) Deliver)" by (auto simp: ring.one_session_def arrivals_def)
  from ring.run_consecutive [OF assms(1) Some this] assms(2,3) Some show ?thesis by (simp add: committed_def)
qed

text \<open>After a frame of the session of the link was put into the window.\<close>

definition pushed :: "run_point \<Rightarrow> effect list \<Rightarrow> ('w \<Rightarrow> instant) \<Rightarrow> instant \<Rightarrow> touch_frame \<Rightarrow> ('w, 's, 'z) legacy_scheme \<Rightarrow> bool" where
  "pushed p0 tr time t f st \<longleftrightarrow> (\<exists>w. window_inv w \<and> (\<forall>sid. of_session w = Some sid \<longrightarrow> session_id f = sid) \<and>
     ordered st = push w f \<and> logged p0 tr (point_of w) (trace st)) \<and> window_ok frame_ok (ordered st) \<and> idle (sink st) \<and>
     t \<le> time (world st) \<and> link_matches (link st) (ordered st)"

lemma push_session:
  "window_inv w \<Longrightarrow> of_session (push w f) = of_session w \<or> of_session (push w f) = Some (session_id f)"
  by (auto simp: push_cases begin_session_def)

lemma receive_pushes:
  fixes E :: "('w, 'x) env_scheme"
  assumes "clock_runs E time" and "frame_ok f"
  shows "triple (\<lambda>st :: ('w, 's, 'z) legacy_scheme. serving p0 tr time t st \<and> discovery_session_id (link st) = session_id f)
    (receive_ordered E f arrival) (\<lambda>_. pushed p0 tr time t f) X"
proof (rule tripleI, rule io_ends_mono [OF receive_ordered_ends [OF assms(1)]], goal_cases)
  case (1 st r st')
  then have st: "serving p0 tr time t st" "discovery_session_id (link st) = session_id f"
    and st': "r = Done ()" "ordered st' = push (ordered st) f" "sink st' = sink st" "trace st' = trace st"
      "stays time st st'" by auto
  have same: "link st' = link st" using st'(5) by (cases st; cases st') (simp add: stays_def)
  have inv: "window_inv (ordered st)" using st(1) by (simp add: serving_def sound_def window_ok_def)
  have old: "\<forall>sid. of_session (ordered st) = Some sid \<longrightarrow> session_id f = sid"
    using st by (auto simp: serving_def link_matches_def)
  have new: "sid = session_id f" if sid: "of_session (push (ordered st) f) = Some sid" for sid
  proof (cases "of_session (push (ordered st) f) = of_session (ordered st)")
    case True
    with sid old show ?thesis by simp
  next
    case False
    with push_session [OF inv, of f] sid show ?thesis by simp
  qed
  then have "link_matches (link st') (ordered st')"
    using st same st'(2) unfolding serving_def link_matches_def by metis
  moreover have "t \<le> time (world st')" using st(1) st'(5) by (auto simp: serving_def sound_def stays_def)
  moreover have "window_ok frame_ok (ordered st')"
    using st(1) window_ok_push [of frame_ok "ordered st" f] assms(2) st'(2) by (simp add: serving_def sound_def)
  moreover have "logged p0 tr (point_of (ordered st)) (trace st')" "idle (sink st')"
    using st(1) st'(3,4) by (simp_all add: serving_def sound_def)
  ultimately have "pushed p0 tr time t f st'" unfolding pushed_def using inv old st'(2) by blast
  with st'(1) show ?case by simp
qed

lemma commit_serves:
  fixes E :: "('w, 'x) env_scheme"
  assumes "clock_runs E time"
  shows "triple (pushed p0 tr time t f :: ('w, 's, 'z) legacy_scheme \<Rightarrow> bool) (commit_ready E S)
    (\<lambda>_. serving p0 tr time t) (broken p0 tr time t)"
proof (rule tripleI)
  fix st :: "('w, 's, 'z) legacy_scheme" assume st: "pushed p0 tr time t f st"
  then obtain w where w: "window_inv w" "\<forall>sid. of_session w = Some sid \<longrightarrow> session_id f = sid" "ordered st = push w f"
    "logged p0 tr (point_of w) (trace st)" and ok: "window_ok frame_ok (ordered st)" and idle: "idle (sink st)"
    and time: "t \<le> time (world st)" and link: "link_matches (link st) (ordered st)"
    by (auto simp: pushed_def)
  have inv: "window_inv (ordered st)" using ok by (simp add: window_ok_def)
  have after: "\<exists>q. logged p0 tr q (trace st') \<and> (next_ready (ordered st') = None \<longrightarrow> q = point_of (ordered st')) \<and>
      t \<le> time (world st') \<and> link_matches (link st') (ordered st')"
    if c: "committed time st ds st'" for ds and st' :: "('w, 's, 'z) legacy_scheme"
  proof -
    have "link st' = link st" using c by (cases st; cases st') (simp add: committed_def stays_def)
    moreover have "window_run push next_ready window_commit (replicate (length ds) Deliver) (push w f) = (ordered st', ds)"
      using c w(3) by (simp add: committed_def)
    ultimately show ?thesis
      using run_from_push [OF w(1,2)] logged_more [OF w(4)] committed_session [OF inv c refl] c time link
      by (auto simp: committed_def stays_def link_matches_def) metis
  qed
  from commit_ready_ends [OF assms ok idle]
  show "io_ends (commit_ready E S) st (outcome_in (\<lambda>_. serving p0 tr time t) (broken p0 tr time t))"
  proof (rule io_ends_mono, goal_cases)
    case (1 r st')
    show ?case
    proof (cases r)
      case (Done b)
      with 1 after show ?thesis by (fastforce simp: commit_inv_def serving_def sound_def)
    next
      case (Fail e)
      with 1 after busy_held show ?thesis by (fastforce simp: broken_def window_ok_def)
    qed (use 1 in simp)
  qed
qed


lemma send_robust:
  fixes E :: "('w, 'x) legacy_env_scheme" and J :: "('w, 's, 'z) legacy_scheme \<Rightarrow> bool"
  assumes "udp_runs E time" and "robust time J" and "\<And>st. J st \<Longrightarrow> X st"
  shows "triple J (link_write E d) (\<lambda>_. J) X"
proof -
  have gets: "triple J (io_gets f) (\<lambda>_. J) X" for f :: "('w, 's, 'z) legacy_scheme \<Rightarrow> socket_addr" by (rule triple_gets)
  show ?thesis
    unfolding link_write_def
    by (rule triple_bind [OF gets], rule triple_keeps [OF assms(2) keep_send [OF assms(1)] assms(3)])
qed

lemma answer_serves:
  fixes E :: "('w, 'x) legacy_env_scheme"
  assumes env: "legacy_runs E time"
  shows "triple (\<lambda>st :: ('w, 's, 'z) legacy_scheme. serving p0 tr time t st \<and>
      of_session (ordered st) = Some sid \<and> acknowledged = acknowledged_sequence (ordered st))
    (answer_frame E ctl sid acknowledged) (\<lambda>_. serving p0 tr time t) (broken p0 tr time t)"
proof -
  let ?J = "\<lambda>st :: ('w, 's, 'z) legacy_scheme. serving p0 tr time t st \<and>
      (of_session (ordered st) = Some sid \<and> acknowledged = acknowledged_sequence (ordered st))"
  let ?S = "serving p0 tr time t :: ('w, 's, 'z) legacy_scheme \<Rightarrow> bool"
  note D = legacy_runsD [OF env]
  have J: "robust time ?J" by (rule robust_serving)
  note S = robust_serving_only [of time p0 tr t]
  have now: "triple ?J (io_now E) (\<lambda>_. ?J) (broken p0 tr time t)"
    by (rule triple_time [OF J]) (rule clock_runsD(2) [OF D(2)])
  have meter: "triple ?J (io_gets f) (\<lambda>_. ?J) (broken p0 tr time t)" for f :: "('w, 's, 'z) legacy_scheme \<Rightarrow> host_metrics"
    by (rule triple_gets)
  have log: "triple ?J (log_effect (Sent ty sid (wire_ack acknowledged) d)) (\<lambda>_. ?S) (broken p0 tr time t)" for ty d
    unfolding log_effect_def
  proof (rule triple_update)
    fix st :: "('w, 's, 'z) legacy_scheme" assume st: "?J st"
    then have "run_from (point_of (ordered st)) [Sent ty sid (wire_ack acknowledged) d] = Some (point_of (ordered st))"
      by (auto simp: point_of_def wire_ack_def acknowledged_sequence_def)
    with st logged_more [of p0 tr "point_of (ordered st)" "trace st"] show "?S (st\<lparr>trace := trace st @ [Sent ty sid (wire_ack acknowledged) d]\<rparr>)"
      by (simp add: serving_def sound_def)
  qed
  have send: "triple ?S (link_write E d) (\<lambda>_. ?S) (broken p0 tr time t)" for d
    by (rule send_robust [OF D(1) S]) (rule serving_broken)
  have elapsed: "triple ?S (io_elapsed E d) (\<lambda>_. ?S) (broken p0 tr time t)" for d
    by (rule io_elapsed_keeps [OF D(2) S])
  have note_ack: "triple ?S (observe_ack_write E d) (\<lambda>_. ?S) (broken p0 tr time t)" for d
    unfolding observe_ack_write_def by (rule triple_records [OF S records_note [OF D(2)]])
  have flush: "triple ?S (io_os (le_flush E)) (\<lambda>_. ?S) (broken p0 tr time t)"
    by (rule triple_keeps [OF S], rule keep_os_time [where time = time], rule D(3)) (auto simp: serving_broken)
  show ?thesis
    unfolding answer_frame_def Let_def
    by (cases "next_control ctl sid acknowledged")
      (auto intro!: triple_bind [OF now] triple_bind [OF meter] triple_seq [OF log] triple_seq [OF send]
        triple_bind [OF elapsed] triple_seq [OF note_ack] triple_seq [OF triple_when] flush triple_return)
qed

lemma process_serves:
  fixes E :: "('w, 'x) legacy_env_scheme"
  assumes env: "legacy_runs E time" and "decoded \<noteq> Panic" and ok: "\<And>f. decoded = Done f \<Longrightarrow> frame_ok f"
  shows "triple (\<lambda>st :: ('w, 's, 'z) legacy_scheme. serving p0 tr time t st \<and>
      (\<forall>f. decoded = Done f \<longrightarrow> discovery_session_id (link st) = session_id f))
    (process_decoded_frame E S ctl decoded arrival) (\<lambda>_. serving p0 tr time t) (broken p0 tr time t)"
proof (cases decoded)
  case (Fail e)
  note D = legacy_runsD [OF env]
  have note_it: "triple (serving p0 tr time t :: ('w, 's, 'z) legacy_scheme \<Rightarrow> bool) (metrics_note E INGRESS 0 0 4 0)
      (\<lambda>_. serving p0 tr time t) (broken p0 tr time t)"
    by (rule triple_records [OF robust_serving_only records_note [OF D(2)]])
  show ?thesis
    unfolding process_decoded_frame_def Fail outcome.case
    by (rule triple_pre [OF triple_seq [OF note_it triple_return]]) auto
next
  case (Done f)
  note D = legacy_runsD [OF env]
  let ?J = "\<lambda>st :: ('w, 's, 'z) legacy_scheme. serving p0 tr time t st \<and> discovery_session_id (link st) = session_id f"
  let ?S = "serving p0 tr time t :: ('w, 's, 'z) legacy_scheme \<Rightarrow> bool"
  have now: "triple ?J (io_now E) (\<lambda>_. ?J) (broken p0 tr time t)"
    by (rule triple_time [OF robust_serving [of time p0 tr t "\<lambda>_ c. discovery_session_id c = session_id f"]])
      (rule clock_runsD(2) [OF D(2)])
  have activity: "triple ?J (note_valid_peer_activity E) (\<lambda>_. ?J) (broken p0 tr time t)"
    unfolding note_valid_peer_activity_def update_link_def
    by (intro triple_bind [OF now] triple_update) (auto simp: serving_def link_matches_def)
  note push = receive_pushes [OF D(2) ok [OF Done], of p0 tr t arrival]
  note commit = commit_serves [OF D(2), of p0 tr t f]
  have committed: "triple ?S (note_committed E ctl b) (\<lambda>_. ?S) (broken p0 tr time t)" for b
    unfolding note_committed_def
    by (intro triple_if triple_bind [OF triple_time [OF robust_serving_only]] triple_return clock_runsD(2) [OF D(2)])
  have window: "triple ?S (io_gets ordered) (\<lambda>w st. ?S st \<and> w = ordered st) (broken p0 tr time t)"
    by (rule triple_gets) simp
  have answer: "triple (\<lambda>st. ?S st \<and> w = ordered st) (case of_session w of None \<Rightarrow> io_return c
       | Some sid \<Rightarrow> if sid \<noteq> session_id f then io_return c else answer_frame E c sid (acknowledged_sequence w))
      (\<lambda>_. ?S) (broken p0 tr time t)" for w c
    using answer_serves [OF env, of p0 tr t "session_id f" "acknowledged_sequence w" c]
    by (auto intro!: triple_return triple_pre [OF answer_serves [OF env]] split: option.split)
  show ?thesis
    unfolding process_decoded_frame_def Done outcome.case
    by (rule triple_pre, rule triple_seq [OF activity], rule triple_seq [OF push], rule triple_bind [OF commit],
        rule triple_bind [OF committed], rule triple_bind [OF window], rule answer) simp
qed (use assms in simp)


lemma decoded_session:
  assumes "decode_frame d = Done f" and "frame_session d = Some sid"
  shows "session_id f = sid"
  using decode_frame_Done(10) [OF assms(1)] assms(2) by (auto simp: frame_session_def split: if_splits)

lemma parser_serves:
  "triple (\<lambda>st :: ('w, 's, 'z) legacy_scheme. serving p0 tr time t st \<and> R (link st)) (use_parser f)
    (\<lambda>x st. (serving p0 tr time t st \<and> R (link st)) \<and> (\<exists>p. x = snd (f p))) X"
proof (rule tripleI)
  fix st :: "('w, 's, 'z) legacy_scheme" assume "serving p0 tr time t st \<and> R (link st)"
  then show "io_ends (use_parser f) st
      (outcome_in (\<lambda>x st. (serving p0 tr time t st \<and> R (link st)) \<and> (\<exists>p. x = snd (f p))) X)"
    by (cases "f (parser st)") (auto simp: use_parser_def intro!: exI [of _ "parser st"])
qed

lemma frame_serves:
  fixes E :: "('w, 'x) legacy_env_scheme"
  assumes env: "legacy_runs E time" and ok: "\<forall>d f. decode_frame d = Done f \<longrightarrow> frame_ok f" and "d \<noteq> []"
  shows "triple (\<lambda>st :: ('w, 's, 'z) legacy_scheme. serving p0 tr time t st \<and> taken_from d (link st))
    (frame_arrived E S ctl d) (\<lambda>_. serving p0 tr time t) (broken p0 tr time t)"
proof -
  let ?J = "\<lambda>st :: ('w, 's, 'z) legacy_scheme. serving p0 tr time t st \<and> taken_from d (link st)"
  have now: "triple ?J (io_now E) (\<lambda>_. ?J) (broken p0 tr time t)"
    by (rule triple_time [OF robust_serving [of time p0 tr t "\<lambda>_. taken_from d"]])
      (rule clock_runsD(2) [OF legacy_runsD(2) [OF env]])
  have parse: "triple ?J (use_parser (\<lambda>p. decode_datagram p d)) (\<lambda>x st. ?J st \<and> x = decode_frame d) (broken p0 tr time t)"
    by (rule triple_post [OF parser_serves]) (auto simp: decode_datagram_def Let_def)
  have version: "triple (\<lambda>st. ?J st \<and> b) (use_parser take_incompatible_version) (\<lambda>_ st. ?J st \<and> b) (broken p0 tr time t)" for b
    by (rule triple_pure [where b = b], simp, rule triple_conseq [OF parser_serves]) auto
  have process: "triple (\<lambda>st. ?J st \<and> decoded = decode_frame d) (process_decoded_frame E S ctl decoded arrival)
      (\<lambda>_. serving p0 tr time t) (broken p0 tr time t)" for decoded arrival
  proof (rule triple_pure [where b = "decoded = decode_frame d"])
    assume dec: "decoded = decode_frame d"
    show ?thesis
      unfolding dec
      by (rule triple_pre [OF process_serves [OF env decode_frame_no_panic ok [rule_format]]])
        (use \<open>d \<noteq> []\<close> in \<open>auto simp: taken_from_def dest: decoded_session\<close>)
  qed simp
  show ?thesis
    unfolding frame_arrived_def
    by (intro triple_bind [OF now] triple_bind [OF parse] triple_bind [OF version] triple_if triple_fail process)
      (simp add: serving_broken)
qed

lemma serving_later: "serving p0 tr time t st \<Longrightarrow> t' \<le> time (world st) \<Longrightarrow> serving p0 tr time t' st"
  by (simp add: serving_def sound_def)

lemma broken_earlier: "broken p0 tr time t st \<Longrightarrow> t' \<le> t \<Longrightarrow> broken p0 tr time t' st"
  by (auto simp: broken_def)

text \<open>
  An iteration takes at least \<open>k\<close>, if reading the clock does. It is left when the host was told to stop,
  and goes on only if the host was not.
\<close>

definition told :: "('w, 'x) env_scheme \<Rightarrow> ('w \<Rightarrow> instant) \<Rightarrow> 'w \<Rightarrow> bool" where
  "told E time w \<longleftrightarrow> (\<exists>w'. time w' \<le> time w \<and> fst (ev_stopping E w'))"

definition untold :: "('w, 'x) env_scheme \<Rightarrow> ('w \<Rightarrow> instant) \<Rightarrow> instant \<Rightarrow> bool" where
  "untold E time t \<longleftrightarrow> (\<exists>w. t \<le> time w \<and> \<not> fst (ev_stopping E w))"

lemma iteration_serves:
  fixes E :: "('w, 'x) legacy_env_scheme"
  assumes env: "legacy_runs E time" and ok: "\<forall>d f. decode_frame d = Done f \<longrightarrow> frame_ok f"
    and step: "\<And>w. time w + k \<le> time (snd (ev_now E w))"
  shows "triple (serving p0 tr time t :: ('w, 's, 'z) legacy_scheme \<Rightarrow> bool) (connection_iteration E S ctl)
    (continues (\<lambda>_ st. serving p0 tr time (t + k) st \<and> untold E time t) (\<lambda>_ st. serving p0 tr time t st \<and> told E time (world st)))
    (broken p0 tr time t)"
proof -
  let ?S = "\<lambda>t. serving p0 tr time t :: ('w, 's, 'z) legacy_scheme \<Rightarrow> bool"
  let ?X = "broken p0 tr time t :: ('w, 's, 'z) legacy_scheme \<Rightarrow> bool"
  note D = legacy_runsD [OF env]
  have weaken: "triple P m Q (broken p0 tr time (t + k)) \<Longrightarrow> triple P m Q ?X"
    for P and m :: "(('w, 's, 'z) legacy_scheme, 'e, 'q) io" and Q
    by (rule triple_conseq, assumption) (auto intro: broken_earlier)
  have stopping: "triple (?S t) (io_stopping E) (\<lambda>b st. ?S t st \<and> (if b then told E time (world st) else untold E time t)) ?X"
  proof (rule triple_world)
    fix st :: "('w, 's, 'z) legacy_scheme" assume st: "?S t st"
    let ?w = "snd (ev_stopping E (world st))"
    note later = clock_runsD(3) [OF D(2), of "world st"]
    have "?S t (st\<lparr>world := ?w\<rparr>)" by (rule robustD [OF robust_serving_only st]) (intro only_metered_world later)
    moreover have "t \<le> time (world st)" using st by (simp add: serving_def sound_def)
    ultimately show "?S t (st\<lparr>world := ?w\<rparr>) \<and> (if fst (ev_stopping E (world st))
        then told E time (world (st\<lparr>world := ?w\<rparr>)) else untold E time t)"
      using later by (auto simp: told_def untold_def)
  qed
  have later: "triple (?S t) (io_elapsed E d) (\<lambda>_. ?S (t + k)) ?X" for d
    unfolding io_elapsed_def
  proof (rule triple_bind [where R = "\<lambda>_. ?S (t + k)"], rule triple_world)
    fix st :: "('w, 's, 'z) legacy_scheme" assume st: "?S t st"
    have "?S t (st\<lparr>world := snd (ev_now E (world st))\<rparr>)"
      by (rule robustD [OF robust_serving_only st]) (intro only_metered_world clock_runsD(2) [OF D(2)])
    then show "?S (t + k) (st\<lparr>world := snd (ev_now E (world st))\<rparr>)"
      using st step [of "world st"] by (auto simp: serving_def sound_def)
  qed (rule triple_return)
  have gets: "triple (?S t) (io_gets f) (\<lambda>_. ?S t) ?X" for f :: "('w, 's, 'z) legacy_scheme \<Rightarrow> 'q" and t
    by (rule triple_gets)
  have idle: "triple (?S t) (check_idle_link E S) (\<lambda>_. ?S (t + k)) ?X"
    unfolding check_idle_link_def peer_activity_elapsed_def io_bind_laws
    by (intro triple_bind [OF gets] triple_bind [OF later] triple_when weaken [OF triple_seq [OF serving_resets]] triple_fail)
      (auto simp: reset_broken)
  have rest: "triple (\<lambda>st. ?S (t + k) st \<and> taken_from d (link st))
      (if d = [] then io_return (Continue c) else io_bind (frame_arrived E S c d) (\<lambda>c. io_return (Continue c)))
      (continues (\<lambda>_ st. ?S (t + k) st \<and> untold E time t) (\<lambda>_ st. ?S t st \<and> told E time (world st))) ?X"
      if "untold E time t" for d c
    using that by (intro weaken [OF triple_if] triple_return triple_bind [OF frame_serves [OF env ok]]) auto
  have go: "triple (?S t) (io_seq (check_idle_link E S) (io_seq (check_progress E S ctl) (io_seq (service_deferred E S)
     (io_bind (io_gets (\<lambda>st. is_active S (sink st))) (\<lambda>active_input.
     io_bind (link_read E 4 (\<not> active_input)) (\<lambda>d.
     io_bind (follow_session E S ctl) (\<lambda>ctl.
       if d = [] then io_return (Continue ctl)
       else io_bind (frame_arrived E S ctl d) (\<lambda>ctl. io_return (Continue ctl)))))))))
    (continues (\<lambda>_ st. ?S (t + k) st \<and> untold E time t) (\<lambda>_ st. ?S t st \<and> told E time (world st))) ?X"
    if "untold E time t"
    by (intro triple_seq [OF idle] triple_seq [OF weaken [OF progress_serves [OF D(2)]]]
        triple_seq [OF weaken [OF service_serves [OF D(2)]]] triple_bind [OF gets]
        triple_bind [OF weaken [OF read_serves [OF D(1)]]] triple_bind [OF weaken [OF follow_serves [OF D(2)]]] rest [OF that])
  show ?thesis
    unfolding connection_iteration_def
    by (intro triple_bind [OF stopping] triple_if triple_return)
      (simp, rule triple_pure [where b = "untold E time t"], simp, rule triple_pre [OF go], simp_all)
qed

lemma iterations_serve:
  fixes E :: "('w, 'x) legacy_env_scheme"
  assumes env: "legacy_runs E time" and ok: "\<forall>d f. decode_frame d = Done f \<longrightarrow> frame_ok f"
    and st: "serving p0 tr time t (st :: ('w, 's, 'z) legacy_scheme)"
    and run: "io_reaches (connection_iteration E S) ctl st ctl' st'"
  shows "serving p0 tr time t st'"
proof (rule triple_reaches [where I = "\<lambda>_. serving p0 tr time t" and Q = "\<lambda>_. serving p0 tr time t", OF _ st run])
  fix c
  have now: "time w + 0 \<le> time (snd (ev_now E w))" for w
    using clock_runsD(2) [OF legacy_runsD(2) [OF env]] by simp
  show "triple (serving p0 tr time t) (connection_iteration E S c) (continues (\<lambda>_. serving p0 tr time t) (\<lambda>_. serving p0 tr time t))
      (broken p0 tr time t)"
    by (rule triple_post [OF iteration_serves [OF env ok now]]) (auto split: flow.splits)
qed

text \<open>The connection ends when the host is told to stop, at \<open>T\<close>.\<close>

lemma serve_connection_serves:
  fixes E :: "('w, 'x) legacy_env_scheme"
  assumes env: "legacy_runs E time" and ok: "\<forall>d f. decode_frame d = Done f \<longrightarrow> frame_ok f"
    and step: "\<And>w. time w < time (snd (ev_now E w))" and stop: "\<And>w. fst (ev_stopping E w) \<longleftrightarrow> T \<le> time w"
  shows "triple (serving p0 tr time t :: ('w, 's, 'z) legacy_scheme \<Rightarrow> bool) (serve_connection E S lanes)
    (\<lambda>_ st. serving p0 tr time t st \<and> T \<le> time (world st)) (broken p0 tr time t)"
proof -
  let ?I = "\<lambda>_. serving p0 tr time t :: ('w, 's, 'z) legacy_scheme \<Rightarrow> bool"
  let ?Q = "\<lambda>_ st :: ('w, 's, 'z) legacy_scheme. serving p0 tr time t st \<and> T \<le> time (world st)"
  note D = clock_runsD [OF legacy_runsD(2) [OF env]]
  have now: "triple (?I ()) (io_now E) (\<lambda>_. ?I ()) (broken p0 tr time t)"
    by (rule triple_time [OF robust_serving_only]) (rule D(2))
  have now1: "time w + 1 \<le> time (snd (ev_now E w))" for w using step [of w] by simp
  have body: "triple (\<lambda>st. ?I y st \<and> T - time (world st) = k) (connection_iteration E S y)
      (continues (\<lambda>z st. ?I z st \<and> T - time (world st) < k) ?Q) (broken p0 tr time t)" for y k
  proof (rule tripleI)
    fix st :: "('w, 's, 'z) legacy_scheme" assume st: "?I y st \<and> T - time (world st) = k"
    then have t: "t \<le> time (world st)" by (simp add: serving_def sound_def)
    have "serving p0 tr time (time (world st)) st" using st serving_later by blast
    note iteration = tripleD [OF iteration_serves [OF env ok now1] this] 
    show "io_ends (connection_iteration E S y) st (outcome_in (continues (\<lambda>z st. ?I z st \<and> T - time (world st) < k) ?Q)
        (broken p0 tr time t))"
    proof (rule io_ends_mono [OF iteration], goal_cases)
      case (1 r st')
      show ?case
      proof (cases r)
        case (Done fl)
        show ?thesis
        proof (cases fl)
          case (Continue c)
          with 1 Done have now: "serving p0 tr time (time (world st) + 1) st'" and untold: "untold E time (time (world st))" by auto
          from untold have before: "time (world st) < T" unfolding untold_def stop not_le by (blast intro: le_less_trans)
          have later: "time (world st) < time (world st')" using now by (simp add: serving_def sound_def)
          have "serving p0 tr time t st'" by (rule serving_later [OF now]) (use t later in simp)
          moreover have "T - time (world st') < k" using diff_less_mono2 [OF later before] unfolding st [THEN conjunct2] .
          ultimately show ?thesis using Done Continue by simp
        next
          case (Break u)
          with 1 Done have now: "serving p0 tr time (time (world st)) st'" and told: "told E time (world st')" by auto
          from told have "T \<le> time (world st')" unfolding told_def stop by (blast intro: order_trans)
          moreover have "serving p0 tr time t st'"
            by (rule serving_later [OF now]) (use t now in \<open>simp add: serving_def sound_def\<close>)
          ultimately show ?thesis using Done Break by simp
        qed
      qed (use 1 broken_earlier [OF _ t] in auto)
    qed
  qed
  have loop: "triple (?I c) (io_loop (connection_iteration E S) c) ?Q (broken p0 tr time t)" for c
    using triple_loop [where I = ?I and \<mu> = "\<lambda>st. T - time (world st)", OF body] .
  show ?thesis
    unfolding serve_connection_def by (rule triple_bind [OF now loop])
qed


end

section \<open>A connection over the keyboard\<close>

lemma decoded_distinct: "\<forall>d f. decode_frame d = Done f \<longrightarrow> distinct_pointers f"
  using decode_contacts_v4_Done [OF decode_frame_Done(4)] by (fastforce simp: distinct_pointers_def)

lemma no_session_frames: "window_inv w \<Longrightarrow> of_session w = None \<Longrightarrow> window_ok P w"
  unfolding window_ok_def window_frames_def window_inv_def in_set_conv_nth by fastforce

text \<open>
  C10: a connection of protocol v4 delivers each session in order and acknowledges no more. However the
  phone, the network, the kernel and the clock behave: whenever the loop of \<open>serve_connection\<close> begins an
  iteration, what it did since the connection began is a run: the frames the keyboard accepted carry the
  session of the link and consecutive sequence numbers; a session starts with a session-start frame (the
  first frame that the process ever takes excepted); a new session begins only after every key was released;
  and every control record names the session and the last frame accepted in it. The run ends where the
  window stands, and the next iteration returns without a panic.
\<close>

theorem legacy_session_in_order:
  fixes E :: "('w, 'x) legacy_env_scheme"
    and st :: "('w, ('v \<times> 'u) uinput_sink host_sink, 'z) legacy_scheme"
  assumes "legacy_runs E time" and "window_inv (ordered st)" and "of_session (ordered st) = None"
    and "\<not> session_changed (link st)" and "for_keys (linux_device.kb_idle n) (sink st)"
    and "io_reaches (connection_iteration E (host_sink_ops linux_ops)) ctl st ctl' st'"
  shows "(\<exists>new. trace st' = trace st @ new \<and> run_from (point_of (ordered st)) new = Some (point_of (ordered st'))) \<and>
    (\<exists>r st''. connection_iteration E (host_sink_ops linux_ops) ctl' st' = Some (r, st'') \<and> r \<noteq> Panic)"
proof -
  let ?t = "time (world st)"
  have "keys.serving n (point_of (ordered st)) (trace st) time ?t st"
    using assms(2-5) no_session_frames
    by (auto simp: keys.serving_def keys.sound_def logged_def link_matches_def)
  from keys.iterations_serve [OF assms(1) decoded_distinct this assms(6)]
  have serving: "keys.serving n (point_of (ordered st)) (trace st) time ?t st'" .
  then have "\<exists>new. trace st' = trace st @ new \<and> run_from (point_of (ordered st)) new = Some (point_of (ordered st'))"
    by (simp add: keys.serving_def keys.sound_def logged_def)
  moreover have now: "time w + 0 \<le> time (snd (ev_now E w))" for w
    using clock_runsD(2) [OF legacy_runsD(2) [OF assms(1)]] by simp
  have "\<exists>r st''. connection_iteration E (host_sink_ops linux_ops) ctl' st' = Some (r, st'') \<and> r \<noteq> Panic"
    by (rule triple_run [OF keys.iteration_serves [OF assms(1) decoded_distinct now] serving]) blast
  ultimately show ?thesis by blast
qed

definition sample_legacy_env :: "nat legacy_env" where
  "sample_legacy_env = udp_env.extend hello_udp (legacy_env.fields (\<lambda>w. (Inr (), w)) (\<lambda>d w. ((), Suc w)) (\<lambda>w. (Inr (), w)))"

definition sample_legacy :: "(nat, (input_event list \<times> nat list) uinput_sink host_sink) legacy" where
  "sample_legacy = linked.extend sample_link (legacy.fields
     \<lparr>discarded_bytes = 0, connection_discarded_bytes = 0, invalid_frames = 0, incompatible_version = None\<rparr> Waiting [])"

lemma sample_legacy_env_runs: "legacy_runs sample_legacy_env (\<lambda>w. w)"
  using hello_udp_runs
  by (simp add: legacy_runs_def udp_runs_def clock_runs_def sample_legacy_env_def udp_env.defs legacy_env.defs)

lemma sample_legacy_fields:
  "ordered sample_legacy = ordered_new" "sink sample_legacy = sink (sample_host [] [])" "link sample_legacy = link sample_link"
  "\<not> session_changed (link sample_legacy)" "trace sample_legacy = []" "world sample_legacy = 0"
  by (simp_all add: sample_legacy_def sample_link_def sample_host_def host.defs linked.defs legacy.defs)

theorem legacy_session_in_order_witness:
  "run_from AnyStart (trace sample_legacy) = Some (point_of (ordered sample_legacy)) \<and>
   (\<exists>r st. connection_iteration sample_legacy_env (host_sink_ops linux_ops)
      \<lparr>hello_session = None, cs_acked = None, cs_lanes = 4, cs_committed = 0\<rparr> sample_legacy = Some (r, st) \<and> r \<noteq> Panic)"
proof -
  let ?ctl = "\<lparr>hello_session = None, cs_acked = None, cs_lanes = 4, cs_committed = 0\<rparr>"
  have "window_inv (ordered sample_legacy)" "of_session (ordered sample_legacy) = None"
    by (simp_all add: sample_legacy_fields window_inv_new) (simp add: ordered_new_def)
  from legacy_session_in_order [OF sample_legacy_env_runs this sample_legacy_fields(4) _ io_reaches.start, of 4 ?ctl]
  show ?thesis
    using sample_host_ok(1) [of "[]" "[]"] by (auto simp: sample_legacy_fields point_of_def ordered_new_def)
qed

end
