(* ===== verification/Legacy_Run_Safety.thy ===== *)
theory Legacy_Run_Safety
  imports Legacy_Session_Safety
begin

text \<open>
  What the legacy host guarantees over its whole run: the log of all its connections, the keys between
  two connections and at the end, and that it stops when it is told to.
\<close>

section \<open>The log of a process\<close>

text \<open>
  Over all connections: as \<open>follow\<close>, but a session-start frame may begin a session wherever the log stands,
  since after a connection that failed the window asks for one even where the release was retried later.
\<close>

fun follow_any :: "run_point \<Rightarrow> effect \<Rightarrow> run_point option" where
  "follow_any (Next sid n) (Accepted f) =
    (if session_id f = sid \<and> sequence f = n \<or> session_start f then Some (Next (session_id f) (sequence f + 1)) else None)"
| "follow_any p x = follow p x"

fun log_from :: "run_point \<Rightarrow> effect list \<Rightarrow> run_point option" where
  "log_from p [] = Some p"
| "log_from p (x # xs) = (case follow_any p x of None \<Rightarrow> None | Some q \<Rightarrow> log_from q xs)"

lemma log_from_append:
  "log_from p (xs @ ys) = (case log_from p xs of None \<Rightarrow> None | Some q \<Rightarrow> log_from q ys)"
  by (induction xs arbitrary: p) (simp_all split: option.split)

text \<open>A log may stand ahead of a window that waits for the start of a session.\<close>

definition ahead :: "run_point \<Rightarrow> run_point \<Rightarrow> bool" where
  "ahead p q \<longleftrightarrow> p = q \<or> q = FreshStart"

lemma follow_ahead:
  assumes "follow q x = Some q'" and "ahead p q"
  shows "\<exists>p'. follow_any p x = Some p' \<and> ahead p' q'"
  using assms by (cases "(q, x)" rule: follow.cases; cases p) (auto simp: ahead_def split: if_splits)

lemma log_ahead:
  "run_from q xs = Some q' \<Longrightarrow> ahead p q \<Longrightarrow> \<exists>p'. log_from p xs = Some p' \<and> ahead p' q'"
proof (induction xs arbitrary: p q)
  case (Cons x xs)
  then obtain q1 where q1: "follow q x = Some q1" "run_from q1 xs = Some q'" by (auto split: option.splits)
  from follow_ahead [OF q1(1) Cons.prems(2)] Cons.IH [OF q1(2)] show ?case by auto
qed auto

definition log_kept :: "effect list \<Rightarrow> run_point \<Rightarrow> effect list \<Rightarrow> bool" where
  "log_kept tr q tr' \<longleftrightarrow> (\<exists>new p. tr' = tr @ new \<and> log_from AnyStart new = Some p \<and> ahead p q)"

lemma log_kept_logged: "log_kept tr q tr1 \<Longrightarrow> logged q tr1 q' tr2 \<Longrightarrow> log_kept tr q' tr2"
  using log_ahead by (fastforce simp: log_kept_def logged_def log_from_append)

lemma log_kept_fresh: "log_kept tr q tr' \<Longrightarrow> log_kept tr FreshStart tr'"
  by (auto simp: log_kept_def ahead_def)

section \<open>Between two connections\<close>

text \<open>A world whose clock advances whenever it is read and that tells the host to stop at \<open>T\<close>.\<close>

definition stops_at :: "('w, 'x) legacy_env_scheme \<Rightarrow> ('w \<Rightarrow> instant) \<Rightarrow> instant \<Rightarrow> bool" where
  "stops_at E time T \<longleftrightarrow> legacy_runs E time \<and> (\<forall>w. time w < time (snd (ev_now E w))) \<and>
     (\<forall>w. fst (ev_stopping E w) \<longleftrightarrow> T \<le> time w)"

lemma stops_atD:
  assumes "stops_at E time T"
  shows "legacy_runs E time" "udp_runs E time" "clock_runs E time" "time w < time (snd (ev_now E w))"
    "fst (ev_stopping E w) \<longleftrightarrow> T \<le> time w"
  using assms legacy_runsD(1,2) unfolding stops_at_def by blast+

context sink_contract
begin

text \<open>
  \<open>searching\<close>: no session is open, and nothing is active unless a release failed. \<open>halted\<close>: what may be
  left when the loop is left. \<open>resting\<close>: nothing is active
  (with the window and the log where they are).
\<close>

definition searching :: "effect list \<Rightarrow> ('w \<Rightarrow> instant) \<Rightarrow> instant \<Rightarrow> ('w, 's, 'z) legacy_scheme \<Rightarrow> bool" where
  "searching tr time t st \<longleftrightarrow> log_kept tr (point_of (ordered st)) (trace st) \<and> window_inv (ordered st) \<and>
     of_session (ordered st) = None \<and> held (sink st) \<and>
     (if is_active S (sink st) then point_of (ordered st) = FreshStart else idle (sink st)) \<and> t \<le> time (world st)"

definition halted :: "effect list \<Rightarrow> ('w, 's, 'z) legacy_scheme \<Rightarrow> bool" where
  "halted tr st \<longleftrightarrow> (\<exists>q. log_kept tr q (trace st)) \<and> held (sink st)"

definition resting ::
  "ordered_frames \<Rightarrow> effect list \<Rightarrow> effect list \<Rightarrow> ('w \<Rightarrow> instant) \<Rightarrow> instant \<Rightarrow> ('w, 's, 'z) legacy_scheme \<Rightarrow> bool" where
  "resting w0 tr0 tr time t st \<longleftrightarrow> searching tr time t st \<and> \<not> is_active S (sink st) \<and> ordered st = w0 \<and> trace st = tr0"

lemma searching_halted: "searching tr time t st \<Longrightarrow> halted tr st"
  by (auto simp: searching_def halted_def)

lemma resting_searching: "resting w0 tr0 tr time t st \<Longrightarrow> searching tr time t st"
  by (simp add: resting_def)

lemma searching_later: "searching tr time t st \<Longrightarrow> t' \<le> time (world st) \<Longrightarrow> searching tr time t' st"
  by (simp add: searching_def)

lemma rested: "searching tr time t st \<Longrightarrow> \<not> is_active S (sink st) \<Longrightarrow> resting (ordered st) (trace st) tr time t st"
  by (simp add: resting_def)

lemma run_fields [simp]:
  "searching tr time t (st\<lparr>phase := p, shown := ps\<rparr>) = searching tr time t st"
  "resting w0 tr0 tr time t (st\<lparr>phase := p, shown := ps\<rparr>) = resting w0 tr0 tr time t st"
  "resting w0 tr0 tr time t (st\<lparr>parser := fp\<rparr>) = resting w0 tr0 tr time t st"
  "broken p0 tr time t (st\<lparr>phase := p, shown := ps\<rparr>) = broken p0 tr time t st"
  "halted tr (st\<lparr>phase := p, shown := ps\<rparr>) = halted tr st"
  by (simp_all add: searching_def resting_def broken_def halted_def)

lemma robust_host:
  fixes J :: "('w, 's, 'z) host_scheme \<Rightarrow> bool"
  assumes "\<And>st st'. J st \<Longrightarrow> stays time st st' \<Longrightarrow> sink st' = sink st \<Longrightarrow> ordered st' = ordered st \<Longrightarrow>
    trace st' = trace st \<Longrightarrow> J st'"
  shows "robust time J"
  unfolding robust_def using assms by (auto dest: only_metered_host)

lemma robust_run:
  "robust time (searching tr time t :: ('w, 's, 'z) legacy_scheme \<Rightarrow> bool)"
  "robust time (resting w0 tr0 tr time t :: ('w, 's, 'z) legacy_scheme \<Rightarrow> bool)"
  "robust time (broken p0 tr time t :: ('w, 's, 'z) legacy_scheme \<Rightarrow> bool)"
  by (rule robust_host, auto simp: searching_def resting_def broken_def stays_def)+

lemma resting_serves:
  assumes "resting w0 tr0 tr time t st" and "\<not> session_changed c"
  shows "serving (point_of w0) tr0 time t (st\<lparr>link := c\<rparr>)"
  using assms no_session_frames [of "ordered st"]
  by (auto simp: resting_def searching_def sound_def logged_def link_matches_def)

lemma publish_triple: "(\<And>st. P st \<Longrightarrow> Q (st\<lparr>phase := p, shown := shown st @ [p]\<rparr>)) \<Longrightarrow> (\<And>st. P st \<Longrightarrow> Q st) \<Longrightarrow>
  triple P (publish_phase p) (\<lambda>_. Q) X"
  unfolding publish_phase_def by (rule triple_update) simp

lemma sleep_triple:
  fixes E :: "('w, 'x) legacy_env_scheme"
  assumes "legacy_runs E time" and "0 < d"
  shows "triple (searching tr time t :: ('w, 's, 'z) legacy_scheme \<Rightarrow> bool) (io_sleep E d) (\<lambda>_. searching tr time (t + 1)) X"
  unfolding io_sleep_def
proof (rule triple_world)
  fix st :: "('w, 's, 'z) legacy_scheme" assume st: "searching tr time t st"
  note later = legacy_runsD(5) [OF assms, of "world st"]
  have "searching tr time t (st\<lparr>world := snd (le_sleep E d (world st))\<rparr>)"
    by (rule robustD [OF robust_run(1) st]) (intro only_metered_world less_imp_le later)
  then show "searching tr time (t + 1) (st\<lparr>world := snd (le_sleep E d (world st))\<rparr>)"
    using st later by (auto simp: searching_def)
qed

lemma release_triple:
  fixes E :: "('w, 'x) env_scheme"
  assumes "clock_runs E time"
  shows "triple (\<lambda>st :: ('w, 's, 'z) legacy_scheme. searching tr time t st \<and> is_active S (sink st)) (cancel_with_deadline E S)
    (\<lambda>_ st. searching tr time t st \<and> \<not> is_active S (sink st)) (searching tr time t)"
proof (rule tripleI)
  fix st :: "('w, 's, 'z) legacy_scheme" assume st: "searching tr time t st \<and> is_active S (sink st)"
  then have h: "log_kept tr FreshStart (trace st)" and p: "point_of (ordered st) = FreshStart" and held: "held (sink st)"
    by (auto simp: searching_def)
  have h2: "log_kept tr FreshStart (trace st @ [Released])"
    by (rule log_kept_logged [OF h]) (simp add: logged_def)
  show "io_ends (cancel_with_deadline E S) st
      (outcome_in (\<lambda>_ st. searching tr time t st \<and> \<not> is_active S (sink st)) (searching tr time t))"
  proof (rule io_ends_mono [OF cancel_with_deadline_ends [OF assms held]], elim disjE conjE exE, goal_cases)
    case (1 r st')
    then show ?case using st p h2 by (simp add: searching_def cancel_post_def stays_def)
  next
    case (2 r st' e)
    then show ?case using st p h by (simp add: searching_def cancel_post_def stays_def)
  qed
qed

section \<open>The parts of the loop\<close>

text \<open>
  \<open>between\<close> is the invariant of the loop: once the host was told to stop, at \<open>T\<close>, a session may be open.
  \<open>given_up\<close>: the host failed with nothing active.
\<close>

definition between :: "instant \<Rightarrow> effect list \<Rightarrow> ('w \<Rightarrow> instant) \<Rightarrow> instant \<Rightarrow> ('w, 's, 'z) legacy_scheme \<Rightarrow> bool" where
  "between T tr time t st \<longleftrightarrow> searching tr time t st \<or> halted tr st \<and> T \<le> time (world st) \<and> t \<le> time (world st)"

definition given_up :: "effect list \<Rightarrow> ('w, 's, 'z) legacy_scheme \<Rightarrow> bool" where
  "given_up tr st \<longleftrightarrow> halted tr st \<and> \<not> is_active S (sink st)"

lemma resting_given_up: "resting w0 tr0 tr time t st \<Longrightarrow> given_up tr st"
  by (auto simp: resting_def given_up_def searching_halted)

lemma searching_between: "searching tr time t st \<Longrightarrow> between T tr time t st"
  by (simp add: between_def)

lemma broken_halted: "broken p0 tr0 time t st \<Longrightarrow> log_kept tr p0 tr0 \<Longrightarrow> halted tr st"
  unfolding broken_def halted_def using log_kept_logged by blast

lemma recover_triple:
  fixes E :: "('w, 'x) legacy_env_scheme"
  assumes env: "legacy_runs E time" and h: "log_kept tr p0 tr0"
  shows "triple (broken p0 tr0 time t :: ('w, 's, 'z) legacy_scheme \<Rightarrow> bool) (recover_link E S)
    (continues (\<lambda>_. searching tr time t) (\<lambda>_. halted tr)) (given_up tr)"
proof -
  let ?B = "broken p0 tr0 time t :: ('w, 's, 'z) legacy_scheme \<Rightarrow> bool"
  note D = clock_runsD [OF legacy_runsD(2) [OF env]]
  have stopping: "triple ?B (io_stopping E) (\<lambda>_. ?B) (given_up tr)"
    by (rule triple_time [OF robust_run(3)]) (rule D(3))
  have publish: "triple ?B (publish_phase Recovering) (\<lambda>_. ?B) (given_up tr)"
    by (rule publish_triple) simp_all
  have start: "triple ?B require_start (\<lambda>_. reset p0 tr0 time t) (given_up tr)"
    using require_start_resets [where R = "\<lambda>_. True"] by simp
  have none: "of_session (require_fresh_session w) = None" for w by (simp add: require_fresh_session_def)
  have held_on: "searching tr time t st" if "reset p0 tr0 time t st" "is_active S (sink st)" for st :: "('w, 's, 'z) legacy_scheme"
    using that log_kept_fresh [OF log_kept_logged [OF h]]
    by (auto simp: reset_def broken_def searching_def none window_inv_fresh)
  have freed: "searching tr time t st"
    if "sound p0 tr0 time t st" "of_session (ordered st) = None" "\<not> is_active S (sink st)" for st :: "('w, 's, 'z) legacy_scheme"
    using that log_kept_logged [OF h] by (auto simp: sound_def searching_def window_ok_def idle_held)
  have cancel: "triple (reset p0 tr0 time t) (io_attempt (cancel_with_deadline E S)) (\<lambda>_. searching tr time t :: ('w, 's, 'z) legacy_scheme \<Rightarrow> bool) (given_up tr)"
    by (rule triple_attempt, rule triple_conseq [OF cancel_resets [OF legacy_runsD(2) [OF env], where R = "\<lambda>_. True"]])
      (auto intro: held_on freed)
  have sleep: "triple (searching tr time t) (io_sleep E (millis 100)) (\<lambda>_. searching tr time t :: ('w, 's, 'z) legacy_scheme \<Rightarrow> bool) (given_up tr)"
    by (rule triple_post [OF sleep_triple [OF env]]) (auto intro: searching_later simp: searching_def)
  show ?thesis
    unfolding recover_link_def
    by (intro triple_bind [OF stopping] triple_if triple_return triple_seq [OF publish] triple_seq [OF start]
        triple_bind [OF cancel] triple_seq [OF sleep]) (auto intro: broken_halted h)
qed

lemma serve_triple:
  fixes E :: "('w, 'x) legacy_env_scheme"
  assumes env: "stops_at E time T" and ok: "\<forall>d f. decode_frame d = Done f \<longrightarrow> frame_ok f" and h: "log_kept tr p0 tr0"
  shows "triple (serving p0 tr0 time t :: ('w, 's, 'z) legacy_scheme \<Rightarrow> bool)
    (io_bind (io_attempt (serve_connection E S lanes)) (\<lambda>r. case r of Inr _ \<Rightarrow> io_return (Continue ()) | Inl e \<Rightarrow> recover_link E S))
    (continues (\<lambda>_. between T tr time t) (\<lambda>_. halted tr)) (given_up tr)"
proof -
  let ?R = "\<lambda>r st :: ('w, 's, 'z) legacy_scheme. case r of Inr _ \<Rightarrow> between T tr time t st | Inl _ \<Rightarrow> broken p0 tr0 time t st"
  note D = stops_atD [OF env]
  have over: "between T tr time t st" if "serving p0 tr0 time t st" "T \<le> time (world st)" for st :: "('w, 's, 'z) legacy_scheme"
  proof -
    have "halted tr st" by (rule broken_halted [OF serving_broken [OF that(1)] h])
    with that show ?thesis by (simp add: between_def serving_def sound_def)
  qed
  have serve: "triple (serving p0 tr0 time t) (io_attempt (serve_connection E S lanes)) ?R (given_up tr)"
    by (rule triple_attempt, rule triple_post [OF serve_connection_serves [OF D(1) ok D(4,5)]]) (auto intro: over)
  have next_step: "triple (?R r) (case r of Inr _ \<Rightarrow> io_return (Continue ()) | Inl e \<Rightarrow> recover_link E S)
      (continues (\<lambda>_. between T tr time t) (\<lambda>_. halted tr)) (given_up tr)" for r :: "io_error + unit"
  proof (cases r)
    case (Inl e)
    have "triple (broken p0 tr0 time t) (recover_link E S) (continues (\<lambda>_. between T tr time t) (\<lambda>_. halted tr)) (given_up tr)"
      by (rule triple_post [OF recover_triple [OF D(1) h]]) (simp split: flow.splits add: searching_between)
    then show ?thesis unfolding Inl sum.case .
  qed (simp add: triple_return)
  show ?thesis by (rule triple_bind [OF serve next_step])
qed

lemma link_triple:
  fixes E :: "('w, 'x) legacy_env_scheme"
  assumes env: "stops_at E time T" and ok: "\<forall>d f. decode_frame d = Done f \<longrightarrow> frame_ok f" and c: "\<not> session_changed c"
  shows "triple (resting w0 tr0 tr time t :: ('w, 's, 'z) legacy_scheme \<Rightarrow> bool) (serve_link E S lanes c)
    (continues (\<lambda>_. between T tr time t) (\<lambda>_. halted tr)) (given_up tr)"
proof (rule triple_pure [where b = "log_kept tr (point_of w0) tr0"])
  assume h: "log_kept tr (point_of w0) tr0"
  let ?P = "resting w0 tr0 tr time t :: ('w, 's, 'z) legacy_scheme \<Rightarrow> bool"
  let ?Q = "continues (\<lambda>_ :: unit. between T tr time t) (\<lambda>_ :: unit. halted tr :: ('w, 's, 'z) legacy_scheme \<Rightarrow> bool)"
  note D = stops_atD [OF env]
  have keep: "keeps I (revalidate_peer E c :: (('w, 's, 'z) legacy_scheme, io_error, unit) io)" if "lasting time I" for I
    using runs_tether [OF D(2) that verify_peer_total, where t = 0]
    by (simp add: revalidate_peer_def) (rule runs_mono, assumption, simp)
  have check: "triple ?P (io_attempt (revalidate_peer E c)) (\<lambda>_. ?P) (given_up tr)"
    by (rule triple_attempt [OF triple_keeps [OF robust_run(2) keep]]) simp_all
  have publish: "triple ?P (publish_phase p) (\<lambda>_. ?P) (given_up tr)" for p
    by (rule publish_triple) simp_all
  have flush: "triple ?P (io_os (le_flush E)) (\<lambda>_. ?P) (given_up tr)"
    by (rule triple_keeps [OF robust_run(2) keep_os_time [where time = time]])
      (rule legacy_runsD(3) [OF D(1)], assumption, rule resting_given_up)
  have parse: "triple ?P (io_update (\<lambda>st. st\<lparr>parser := begin_connection (parser st)\<rparr>)) (\<lambda>_. ?P) (given_up tr)"
    by (rule triple_update) simp
  have note_it: "triple ?P (note_begin E) (\<lambda>_. ?P) (given_up tr)"
    unfolding note_begin_def by (rule triple_records [OF robust_run(2) records_note [OF D(3)]])
  have enter: "triple ?P (update_link (\<lambda>_. c)) (\<lambda>_. serving (point_of w0) tr0 time t) (given_up tr)"
    unfolding update_link_def by (rule triple_update) (rule resting_serves [OF _ c])
  have again: "triple ?P (io_return (Continue ())) ?Q (given_up tr)"
    by (rule triple_return) (auto intro: searching_between resting_searching)
  show "triple ?P (serve_link E S lanes c) ?Q (given_up tr)"
    unfolding serve_link_def begin_link_def io_bind_laws
    by (intro triple_bind [OF check] allI) (auto split: sum.split intro!: triple_seq [OF publish again] triple_seq [OF triple_seq [OF publish
        triple_seq [OF flush triple_seq [OF parse note_it]]]] triple_seq [OF enter serve_triple [OF env ok h]])
qed (auto simp: resting_def searching_def)

lemma connect_triple:
  fixes E :: "('w, 'x) legacy_env_scheme"
  assumes "udp_runs E time"
  shows "triple (resting w0 tr0 tr time t :: ('w, 's, 'z) legacy_scheme \<Rightarrow> bool) (connect_phone E port timeout local_only)
    (\<lambda>c st. resting w0 tr0 tr time (t + 1) st \<and> \<not> session_changed c) (resting w0 tr0 tr time t)"
proof (rule tripleI)
  fix st :: "('w, 's, 'z) legacy_scheme" assume st: "resting w0 tr0 tr time t st"
  let ?t = "time (world st)"
  have t: "t \<le> ?t" using st by (simp add: resting_def searching_def)
  have moved: "resting w0 tr0 tr time t' (st\<lparr>world := w\<rparr>)" if "?t \<le> time w" "t' \<le> time w" for w t'
    using that st by (auto simp: resting_def searching_def)
  have "io_ends (connect_phone E port timeout local_only) st (ran (\<lambda>w. ?t \<le> time w)
      (\<lambda>c w. peer_confirmed E time ?t local_only (uc_peer c) (uc_binding c) w \<and> greeted E time ?t port c w) st)"
    using connect_phone_runs [OF assms] unfolding runs_def by blast
  then show "io_ends (connect_phone E port timeout local_only) st (outcome_in
      (\<lambda>c st. resting w0 tr0 tr time (t + 1) st \<and> \<not> session_changed c) (resting w0 tr0 tr time t))"
  proof (rule io_ends_mono, goal_cases)
    case (1 r st')
    then obtain w where w: "st' = st\<lparr>world := w\<rparr>" "?t \<le> time w" "r \<noteq> Panic" and c: "\<forall>c. r = Done c \<longrightarrow> greeted E time ?t port c w"
      by (auto simp: ran_def)
    show ?case
    proof (cases r)
      case (Done c)
      with c have "?t < time w" "\<not> session_changed c" by (auto simp: greeted_def arrived_def hello_opens_def)
      with w t Done moved [of w "t + 1"] show ?thesis by simp
    qed (use w t moved [of w t] in auto)
  qed
qed

lemma search_triple:
  fixes E :: "('w, 'x) legacy_env_scheme"
  assumes env: "stops_at E time T" and ok: "\<forall>d f. decode_frame d = Done f \<longrightarrow> frame_ok f"
  shows "triple (\<lambda>st :: ('w, 's, 'z) legacy_scheme. searching tr time t st \<and> \<not> is_active S (sink st))
    (search_link E S lanes port local_only) (continues (\<lambda>_. between T tr time (t + 1)) (\<lambda>_. halted tr)) (given_up tr)"
proof (rule tripleI)
  fix st :: "('w, 's, 'z) legacy_scheme" assume st: "searching tr time t st \<and> \<not> is_active S (sink st)"
  let ?P = "resting (ordered st) (trace st) tr time t :: ('w, 's, 'z) legacy_scheme \<Rightarrow> bool"
  let ?Q = "continues (\<lambda>_ :: unit. between T tr time (t + 1)) (\<lambda>_ :: unit. halted tr :: ('w, 's, 'z) legacy_scheme \<Rightarrow> bool)"
  note D = stops_atD [OF env]
  have retry: "triple ?P (io_seq (io_sleep E d) (io_return (Continue ()))) ?Q (given_up tr)" if "0 < d" for d
    by (rule triple_seq [OF triple_pre [OF sleep_triple [OF D(1) that]]])
      (auto intro: resting_searching searching_between intro!: triple_return)
  have refuse: "triple ?P (io_fail e) ?Q (given_up tr)" for e
    by (rule triple_fail) (rule resting_given_up)
  have serve: "triple (\<lambda>st'. resting (ordered st) (trace st) tr time (t + 1) st' \<and> \<not> session_changed c)
      (serve_link E S lanes c) ?Q (given_up tr)" for c
    by (rule triple_pure [where b = "\<not> session_changed c"], simp)
      (rule triple_pre [where P' = "resting (ordered st) (trace st) tr time (t + 1)"], rule link_triple [OF env ok], simp_all)
  let ?R = "\<lambda>r st'. case r of Inl e \<Rightarrow> ?P st' | Inr c \<Rightarrow> resting (ordered st) (trace st) tr time (t + 1) st' \<and> \<not> session_changed c"
  have connect: "triple ?P (io_attempt (connect_phone E port (millis 1000) local_only)) ?R (given_up tr)"
    by (rule triple_attempt, rule triple_post [OF connect_triple [OF D(2)]]) simp_all
  have "triple ?P (search_link E S lanes port local_only) ?Q (given_up tr)"
    unfolding search_link_def
  proof (rule triple_bind [OF connect], goal_cases)
    case (1 r)
    show ?case
    proof (cases r)
      case (Inl e)
      show ?thesis unfolding Inl sum.case by (intro triple_if refuse retry) simp
    next
      case (Inr c)
      show ?thesis unfolding Inr sum.case by (rule serve)
    qed
  qed
  then show "io_ends (search_link E S lanes port local_only) st (outcome_in ?Q (given_up tr))"
    by (rule tripleD) (use st in \<open>simp add: rested\<close>)
qed

lemma loop_triple:
  fixes E :: "('w, 'x) legacy_env_scheme"
  assumes env: "stops_at E time T" and ok: "\<forall>d f. decode_frame d = Done f \<longrightarrow> frame_ok f"
  shows "triple (between T tr time t :: ('w, 's, 'z) legacy_scheme \<Rightarrow> bool) (legacy_iteration E S lanes port local_only u)
    (continues (\<lambda>_ st. between T tr time (t + 1) st \<and> t < T) (\<lambda>_. halted tr)) (given_up tr)"
proof -
  let ?Q = "continues (\<lambda>_ :: unit. \<lambda>st. between T tr time (t + 1) st \<and> t < T) (\<lambda>_ :: unit. halted tr :: ('w, 's, 'z) legacy_scheme \<Rightarrow> bool)"
  let ?S = "searching tr time t :: ('w, 's, 'z) legacy_scheme \<Rightarrow> bool"
  note D = stops_atD [OF env]
  have stopping: "triple (between T tr time t) (io_stopping E) (\<lambda>b st. if b then halted tr st else ?S st \<and> t < T) (given_up tr)"
  proof (rule triple_world)
    fix st :: "('w, 's, 'z) legacy_scheme" assume st: "between T tr time t st"
    let ?st = "st\<lparr>world := snd (ev_stopping E (world st))\<rparr>"
    have later: "time (world st) \<le> time (world ?st)" using clock_runsD(3) [OF D(3)] by simp
    have "halted tr ?st" using st searching_halted by (auto simp: between_def halted_def)
    moreover have "?S ?st \<and> t < T" if "\<not> T \<le> time (world st)"
      using st that later by (auto simp: between_def searching_def)
    ultimately show "if fst (ev_stopping E (world st)) then halted tr ?st else ?S ?st \<and> t < T"
      using D(5) by simp
  qed
  have search: "triple (\<lambda>st. ?S st \<and> \<not> is_active S (sink st)) (search_link E S lanes port local_only) ?Q (given_up tr)" if "t < T"
    by (rule triple_post [OF search_triple [OF env ok]]) (use that in \<open>simp split: flow.splits\<close>)
  have sleep: "triple ?S (io_seq (io_sleep E d) (io_return (Continue ()))) ?Q (given_up tr)" if "t < T" "0 < d" for d
    using that by (intro triple_seq [OF sleep_triple [OF D(1)]] triple_return) (auto intro: searching_between)
  have release: "triple (\<lambda>st. ?S st \<and> is_active S (sink st)) (io_attempt (cancel_with_deadline E S))
      (\<lambda>r st. case r of Inl e \<Rightarrow> ?S st | Inr _ \<Rightarrow> ?S st \<and> \<not> is_active S (sink st)) (given_up tr)"
    by (rule triple_attempt, rule triple_post [OF release_triple [OF D(3)]]) simp_all
  have active: "triple ?S (io_gets (\<lambda>st. is_active S (sink st))) (\<lambda>b st. ?S st \<and> (is_active S (sink st) \<longleftrightarrow> b)) (given_up tr)"
    by (rule triple_gets) simp
  show ?thesis
    unfolding legacy_iteration_def
  proof (intro triple_bind [OF stopping] triple_if triple_return, simp)
    fix stopped assume "\<not> stopped"
    show "triple (\<lambda>st. if stopped then halted tr st else ?S st \<and> t < T) (io_bind (io_gets (\<lambda>st. is_active S (sink st))) (\<lambda>active_input.
       if active_input then
         io_bind (io_attempt (cancel_with_deadline E S)) (\<lambda>r.
           case r of
             Inl e \<Rightarrow> io_seq (io_sleep E (millis 1)) (io_return (Continue ()))
           | Inr _ \<Rightarrow> search_link E S lanes port local_only)
       else search_link E S lanes port local_only)) ?Q (given_up tr)"
    proof (rule triple_pure [where b = "t < T"])
      assume t: "t < T"
      then show ?thesis
        by (intro triple_bind [OF triple_pre [OF active]] triple_if triple_bind [OF triple_pre [OF release]])
          (auto simp: \<open>\<not> stopped\<close> split: sum.split intro: sleep intro!: triple_pre [OF search])
    qed (simp add: \<open>\<not> stopped\<close>)
  qed
qed

text \<open>The report of the measurements does not touch the keys.\<close>

lemma report_keeps:
  fixes E :: "('w, 'x) legacy_env_scheme" and st :: "('w, 's, 'z) legacy_scheme"
  assumes "legacy_runs E time"
  shows "io_ends (write_metrics_report E) st (\<lambda>r st'. r \<noteq> Panic \<and> sink st' = sink st \<and> trace st' = trace st)"
proof -
  let ?J = "\<lambda>st' :: ('w, 's, 'z) legacy_scheme. sink st' = sink st \<and> trace st' = trace st"
  have J: "robust time ?J" by (rule robust_host) simp
  have "triple ?J (io_os (le_report E)) (\<lambda>_. ?J) ?J"
    by (rule triple_keeps [OF J keep_os_time [where time = time]]) (rule legacy_runsD(4) [OF assms], assumption+)
  then have "triple ?J (write_metrics_report E) (\<lambda>_. ?J) ?J"
    unfolding write_metrics_report_def by (intro triple_bind [OF triple_gets] triple_if triple_return) auto
  then have "io_ends (write_metrics_report E) st (outcome_in (\<lambda>_. ?J) ?J)" by (rule tripleD) simp
  then show ?thesis
  proof (rule io_ends_mono, goal_cases)
    case (1 r st')
    then show ?case by (cases r) simp_all
  qed
qed

text \<open>The end of a process: if something is left active, its last release was given up, and that is the error.\<close>

definition stopped_ok :: "('w, 'x) env_scheme \<Rightarrow> effect list \<Rightarrow> (io_error, unit) outcome \<Rightarrow> ('w, 's, 'z) legacy_scheme \<Rightarrow> bool" where
  "stopped_ok E tr r st \<longleftrightarrow> r \<noteq> Panic \<and> halted tr st \<and> (is_active S (sink st) \<longrightarrow> (\<exists>e. r = Fail e \<and> gave_up E S e st))"

lemma stop_ends:
  fixes E :: "('w, 'x) legacy_env_scheme" and st :: "('w, 's, 'z) legacy_scheme"
  assumes env: "legacy_runs E time" and "halted tr st"
  shows "io_ends (stop_legacy E S) st (stopped_ok E tr)"
proof -
  let ?st = "if phase st \<noteq> Stopping then st\<lparr>phase := Stopping, shown := shown st @ [Stopping]\<rparr> else st"
  have same: "sink ?st = sink st" "trace ?st = trace st" by simp_all
  obtain q where h: "log_kept tr q (trace st)" and held: "held (sink ?st)" using assms(2) by (auto simp: halted_def)
  have h2: "log_kept tr FreshStart (trace st @ [Released])"
    by (rule log_kept_logged [OF h]) (simp add: logged_def)
  have "io_ends (stop_legacy E S) st (\<lambda>r st'. r \<noteq> Panic \<and> held (sink st') \<and>
      (trace st' = trace ?st @ [Released] \<and> \<not> is_active S (sink st') \<or>
       trace st' = trace ?st \<and> (\<exists>e. r = Fail e \<and> gave_up E S e st')))"
    unfolding stop_legacy_def publish_phase_def io_seq_rules(1) [where m = "io_update _"] io_ends_update then_ends.simps
    by (rule final_release_ends [OF legacy_runsD(2) [OF env] held report_keeps [OF env]])
  then show ?thesis
    by (rule io_ends_mono) (use h h2 same in \<open>auto simp: stopped_ok_def halted_def\<close>)
qed

lemma run_ends:
  fixes E :: "('w, 'x) legacy_env_scheme" and st :: "('w, 's, 'z) legacy_scheme"
  assumes env: "stops_at E time T" and ok: "\<forall>d f. decode_frame d = Done f \<longrightarrow> frame_ok f"
    and st: "idle (sink st)" "\<not> is_active S (sink st)"
  shows "io_ends (run_legacy E S lanes port local_only) st (stopped_ok E (trace st))"
proof -
  let ?tr = "trace st"
  let ?I = "\<lambda>_ :: unit. between T ?tr time 0 :: ('w, 's, 'z) legacy_scheme \<Rightarrow> bool"
  have body: "triple (\<lambda>st. ?I u st \<and> T - time (world st) = k) (legacy_iteration E S lanes port local_only u)
      (continues (\<lambda>z st. ?I z st \<and> T - time (world st) < k) (\<lambda>_ :: unit. halted ?tr)) (given_up ?tr)" for u k
  proof (rule tripleI)
    fix st :: "('w, 's, 'z) legacy_scheme" assume st: "?I u st \<and> T - time (world st) = k"
    let ?t = "time (world st)"
    have "between T ?tr time ?t st" using st by (auto simp: between_def searching_def)
    from tripleD [OF loop_triple [OF env ok] this]
    show "io_ends (legacy_iteration E S lanes port local_only u) st
      (outcome_in (continues (\<lambda>z st. ?I z st \<and> T - time (world st) < k) (\<lambda>_ :: unit. halted ?tr)) (given_up ?tr))"
    proof (rule io_ends_mono, goal_cases)
      case (1 r st')
      show ?case
      proof (cases r)
        case (Done fl)
        with 1 st show ?thesis by (cases fl) (auto simp: between_def searching_def)
      qed (use 1 in simp_all)
    qed
  qed
  have loop: "triple (?I ()) (io_loop (legacy_iteration E S lanes port local_only) ()) (\<lambda>_. halted ?tr) (given_up ?tr)"
    using triple_loop [where I = ?I and \<mu> = "\<lambda>st. T - time (world st)", OF body] .
  have none: "of_session ordered_new = None" "\<not> requires_session_start ordered_new" by (simp_all add: ordered_new_def)
  let ?st = "st\<lparr>ordered := ordered_new,
      parser := \<lparr>discarded_bytes = 0, connection_discarded_bytes = 0, invalid_frames = 0, incompatible_version = None\<rparr>\<rparr>"
  have "searching ?tr time 0 ?st"
    using st by (simp add: searching_def window_inv_new none idle_held log_kept_def ahead_def point_of_def)
  note start = tripleD [OF loop searching_between [OF this]]
  show ?thesis
    unfolding run_legacy_def io_seq_rules(1) [where m = "io_update _"] io_ends_update then_ends.simps
      io_seq_rules(1) [where m = "io_loop _ _"]
  proof (rule io_ends_mono [OF start], goal_cases)
    case (1 r st1)
    then show ?case using stop_ends [OF stops_atD(1) [OF env]]
      by (cases r) (auto simp: stopped_ok_def given_up_def)
  qed
qed

end

section \<open>The host over the keyboard\<close>

text \<open>
  C9: the legacy host stops and lets the keys go. If reading the clock takes time and the host is told to
  stop at some time \<open>T\<close>, then \<open>run_legacy\<close> returns without a panic, whatever the phones, the network, the
  kernel and the commands do: searches, connections, watchdogs, failures and retried releases included.
  What it did is a log of sessions in order: within a connection as the property of a connection says, and
  a frame that does not continue its session starts one. If it returns normally nothing is active on the
  keyboard; if a key may still be down, the kernel refused the last release until its deadline of 8 ms, and the
  error with which it refused its last attempt is the one returned.
\<close>

theorem legacy_host_stops:
  fixes E :: "('w, 'x) legacy_env_scheme"
    and st :: "('w, ('v \<times> 'u) uinput_sink host_sink, 'z) legacy_scheme"
  assumes "stops_at E time T" and "for_keys (linux_device.kb_idle n) (sink st)"
    and "\<not> is_active (host_sink_ops linux_ops) (sink st)"
  shows "\<exists>r st' new p. run_legacy E (host_sink_ops linux_ops) lanes port local_only st = Some (r, st') \<and> r \<noteq> Panic \<and>
    trace st' = trace st @ new \<and> log_from AnyStart new = Some p \<and>
    (is_active (host_sink_ops linux_ops) (sink st') \<longrightarrow> (\<exists>e. r = Fail e \<and> gave_up E (host_sink_ops linux_ops) e st'))"
proof -
  have "io_ends (run_legacy E (host_sink_ops linux_ops) lanes port local_only) st (keys.stopped_ok n E (trace st))"
    by (rule keys.run_ends [OF assms(1) decoded_distinct assms(2,3)])
  then show ?thesis unfolding io_ends_def keys.stopped_ok_def keys.halted_def log_kept_def by blast
qed

definition sample_stopping_env :: "nat legacy_env" where
  "sample_stopping_env = sample_legacy_env\<lparr>ev_now := (\<lambda>w. (w, Suc w)), ev_stopping := (\<lambda>w. (5000 \<le> w, w))\<rparr>"

lemma sample_stops: "stops_at sample_stopping_env (\<lambda>w. w) 5000"
  using sample_legacy_env_runs
  by (simp add: stops_at_def sample_stopping_env_def legacy_runs_def udp_runs_def clock_runs_def)

lemma sample_not_active: "\<not> is_active (host_sink_ops linux_ops) (sink (sample_host fs script))"
  by (simp add: sample_host_def host_sink_ops_def has_active_input_def sample_keyboard_def sample_uinput_def linux_ops_def linux_pending_def)

theorem legacy_host_stops_witness:
  "\<exists>r st' new p. run_legacy sample_stopping_env (host_sink_ops linux_ops) 4 9000 True sample_legacy = Some (r, st') \<and>
     r \<noteq> Panic \<and> trace st' = new \<and> log_from AnyStart new = Some p"
proof -
  have "for_keys (linux_device.kb_idle 4) (sink sample_legacy)" "\<not> is_active (host_sink_ops linux_ops) (sink sample_legacy)"
    unfolding sample_legacy_fields by (rule sample_host_ok(1), rule sample_not_active)
  from legacy_host_stops [OF sample_stops this, of 4 9000 True] show ?thesis
    unfolding sample_legacy_fields by auto
qed

end
