(* ===== verification/V5_Host_Safety.thy ===== *)
theory V5_Host_Safety
  imports V5_Host Session_Safety Remembered_Phone Legacy_Run_Safety
begin

text \<open>
  What the controller of protocol v5 guarantees over its whole run: the log of its sessions, which phones
  they are with, the keys between two sessions and at the end, and that it stops when it is told to.
\<close>

section \<open>The log of the sessions\<close>

text \<open>
  A session begins only when everything before was released; the flag tells whether it is. \<open>K\<close> says which
  connections there are.
\<close>

inductive session_runs :: "(connection \<Rightarrow> bool) \<Rightarrow> aead \<Rightarrow> bool \<Rightarrow> effect list \<Rightarrow> bool" for K A where
  none: "session_runs K A True []"
| session: "session_runs K A True past \<Longrightarrow> K c \<Longrightarrow> session_log A c new \<Longrightarrow> session_runs K A False (past @ new)"
| release: "session_runs K A b past \<Longrightarrow> session_runs K A True (past @ [Released])"

text \<open>A world in which the controller runs, is told to stop at \<open>T\<close>, and whose clock advances whenever it is read.\<close>

definition v5_stops_at :: "('w, 'x) v5_env_scheme \<Rightarrow> ('w \<Rightarrow> instant) \<Rightarrow> instant \<Rightarrow> bool" where
  "v5_stops_at E time T \<longleftrightarrow> discovery_runs E time \<and> (\<forall>w. time w < time (snd (ev_now E w)) \<and>
     (fst (ev_stopping E w) \<longleftrightarrow> T \<le> time w) \<and> time w \<le> time (snd (ve_flush E w)) \<and>
     time w \<le> time (snd (ve_report E w)) \<and> (\<forall>d. 0 < d \<longrightarrow> time w < time (snd (ve_sleep E d w))))"

lemma v5_stops_atD:
  assumes "v5_stops_at E time T"
  shows "discovery_runs E time" "pairing_runs E time" "socket_runs E time" "clock_runs E time"
    "time w < time (snd (ev_now E w))" "fst (ev_stopping E w) \<longleftrightarrow> T \<le> time w" "time w \<le> time (snd (ve_flush E w))"
    "time w \<le> time (snd (ve_report E w))" "0 < d \<Longrightarrow> time w < time (snd (ve_sleep E d w))"
  using assms discovery_runsD(1-3) unfolding v5_stops_at_def by blast+

lemma recognised_earlier: "recognised E time t N blake2s transport c w \<Longrightarrow> t' \<le> t \<Longrightarrow> recognised E time t' N blake2s transport c w"
  unfolding recognised_def stored_def envelope_arrived_def by (blast intro: order_trans)

lemma keep_routes:
  assumes "discovery_runs E time" and "lasting time I"
  shows "runs I (v5_routes_present E b) (\<lambda>_ _. True)"
proof -
  have ask: "runs I (io_world (pw_system E)) (\<lambda>sys _. lan_answers sys)"
  proof (rule runs_world)
    fix w assume "I w"
    then have "I (snd (pw_system E w))"
      by (rule lastingD [OF assms(2) _ pairing_runsD(6) [OF discovery_runsD(1) [OF assms(1)]]])
    with discovery_runsD(4) [OF assms(1)] show "I (snd (pw_system E w)) \<and> lan_answers (fst (pw_system E w))" by simp
  qed
  show ?thesis
    unfolding v5_routes_present_def
    by (intro runs_then [OF ask] keep_lift default_routes_total) (simp_all add: lan_answers_def)
qed

section \<open>Between two sessions\<close>

context sink_contract
begin

definition v5_halted :: "(connection \<Rightarrow> bool) \<Rightarrow> aead \<Rightarrow> effect list \<Rightarrow> ('w, 's, 'z) v5_host_scheme \<Rightarrow> bool" where
  "v5_halted K A tr st \<longleftrightarrow> (\<exists>b past. trace st = tr @ past \<and> session_runs K A b past) \<and> held (sink st)"

definition v5_searching :: "(connection \<Rightarrow> bool) \<Rightarrow> aead \<Rightarrow> effect list \<Rightarrow> ('w \<Rightarrow> instant) \<Rightarrow> instant \<Rightarrow>
    ('w, 's, 'z) v5_host_scheme \<Rightarrow> bool" where
  "v5_searching K A tr time t st \<longleftrightarrow> v5_halted K A tr st \<and> window_inv (ordered st) \<and> t \<le> time (world st) \<and>
     (\<not> is_active S (sink st) \<longrightarrow> idle (sink st) \<and> (\<exists>past. trace st = tr @ past \<and> session_runs K A True past))"

definition v5_resting :: "(connection \<Rightarrow> bool) \<Rightarrow> aead \<Rightarrow> effect list \<Rightarrow> ('w \<Rightarrow> instant) \<Rightarrow> instant \<Rightarrow>
    ('w, 's, 'z) v5_host_scheme \<Rightarrow> bool" where
  "v5_resting K A tr time t st \<longleftrightarrow> v5_searching K A tr time t st \<and> \<not> is_active S (sink st)"

definition v5_served :: "(connection \<Rightarrow> bool) \<Rightarrow> aead \<Rightarrow> effect list \<Rightarrow> ('w \<Rightarrow> instant) \<Rightarrow> instant \<Rightarrow>
    ('w, 's, 'z) v5_host_scheme \<Rightarrow> bool" where
  "v5_served K A tr time t st \<longleftrightarrow> v5_resting K A tr time t st \<and> K (conn st)"

definition v5_given_up :: "(connection \<Rightarrow> bool) \<Rightarrow> aead \<Rightarrow> effect list \<Rightarrow> ('w, 's, 'z) v5_host_scheme \<Rightarrow> bool" where
  "v5_given_up K A tr st \<longleftrightarrow> v5_halted K A tr st \<and> \<not> is_active S (sink st)"

lemmas v5_conditions = v5_halted_def v5_searching_def v5_resting_def v5_served_def v5_given_up_def

lemma v5_robust:
  "robust time (v5_halted K A tr :: ('w, 's, 'z) v5_host_scheme \<Rightarrow> bool)"
  "robust time (v5_searching K A tr time t :: ('w, 's, 'z) v5_host_scheme \<Rightarrow> bool)"
  "robust time (v5_resting K A tr time t :: ('w, 's, 'z) v5_host_scheme \<Rightarrow> bool)"
  "robust time (v5_served K A tr time t :: ('w, 's, 'z) v5_host_scheme \<Rightarrow> bool)"
  "robust time (v5_given_up K A tr :: ('w, 's, 'z) v5_host_scheme \<Rightarrow> bool)"
proof -
  have conn: "conn st' = conn st" if "stays time st st'" for st st' :: "('w, 's, 'z) v5_host_scheme"
    by (rule stays_conn [OF that])
  show "robust time (v5_served K A tr time t :: ('w, 's, 'z) v5_host_scheme \<Rightarrow> bool)"
    by (rule robust_host) (use conn in \<open>auto simp: v5_conditions stays_def\<close>)
qed (rule robust_host, auto simp: v5_conditions stays_def)+

lemma v5_fields [simp]:
  "v5_halted K A tr (st\<lparr>v5_phase := p, v5_shown := ps\<rparr>) = v5_halted K A tr st"
  "v5_searching K A tr time t (st\<lparr>v5_phase := p, v5_shown := ps\<rparr>) = v5_searching K A tr time t st"
  "v5_resting K A tr time t (st\<lparr>v5_phase := p, v5_shown := ps\<rparr>) = v5_resting K A tr time t st"
  "v5_served K A tr time t (st\<lparr>v5_phase := p, v5_shown := ps\<rparr>) = v5_served K A tr time t st"
  "v5_halted K A tr (st\<lparr>metrics := m\<rparr>) = v5_halted K A tr st"
  "v5_given_up K A tr (st\<lparr>metrics := m\<rparr>) = v5_given_up K A tr st"
  by (simp_all add: v5_conditions)

lemma v5_weaken:
  "v5_searching K A tr time t st \<Longrightarrow> v5_halted K A tr st"
  "v5_resting K A tr time t st \<Longrightarrow> v5_searching K A tr time t st"
  "v5_resting K A tr time t st \<Longrightarrow> v5_given_up K A tr st"
  "v5_served K A tr time t st \<Longrightarrow> v5_resting K A tr time t st"
  "v5_given_up K A tr st \<Longrightarrow> v5_halted K A tr st"
  by (simp_all add: v5_conditions)

lemma publish_v5_triple: "(\<And>st. P st \<Longrightarrow> Q (st\<lparr>v5_phase := p, v5_shown := v5_shown st @ [p]\<rparr>)) \<Longrightarrow> (\<And>st. P st \<Longrightarrow> Q st) \<Longrightarrow>
  triple P (publish_v5 p) (\<lambda>_. Q) X"
  unfolding publish_v5_def by (rule triple_update) simp

text \<open>Every release leaves the keys free or active.\<close>

lemma v5_release:
  fixes E :: "('w, 'x) env_scheme"
  assumes "clock_runs E time"
  shows "triple (v5_searching K A tr time t :: ('w, 's, 'z) v5_host_scheme \<Rightarrow> bool) (cancel_with_deadline E S)
    (\<lambda>_. v5_resting K A tr time t) (v5_searching K A tr time t)"
proof -
  have cancel: "io_ends (cancel_with_deadline E S) st (outcome_in Q X)"
    if "held (sink st)" "\<And>st'. cancel_post time st (Inr ()) st' \<Longrightarrow> Q () st'" "\<And>e st'. cancel_post time st (Inl e) st' \<Longrightarrow> X st'"
    for Q X and st :: "('w, 's, 'z) v5_host_scheme"
    by (rule io_ends_mono [OF cancel_with_deadline_ends [OF assms that(1)]]) (use that(2,3) in auto)
  have more: "\<exists>new. tr @ past @ [Released] = tr @ new \<and> session_runs K A True new" if "session_runs K A b past" for b past
    using session_runs.release [OF that] by blast
  show "triple (v5_searching K A tr time t :: ('w, 's, 'z) v5_host_scheme \<Rightarrow> bool) (cancel_with_deadline E S)
    (\<lambda>_. v5_resting K A tr time t) (v5_searching K A tr time t)"
  proof (rule tripleI, rule cancel)
    fix st st' :: "('w, 's, 'z) v5_host_scheme" assume st: "v5_searching K A tr time t st"
    then obtain b past where past: "trace st = tr @ past" "session_runs K A b past" by (auto simp: v5_conditions)
    show "held (sink st)" using st by (simp add: v5_conditions)
    show "v5_resting K A tr time t st'" if "cancel_post time st (Inr ()) st'"
      using that st past session_runs.release [OF past(2)] by (auto simp: v5_conditions cancel_post_def stays_def)
    show "v5_searching K A tr time t st'" if "cancel_post time st (Inl e) st'" for e
      using that st past by (auto simp: v5_conditions cancel_post_def stays_def)
  qed
qed

abbreviation v5_continues :: "(connection \<Rightarrow> bool) \<Rightarrow> aead \<Rightarrow> effect list \<Rightarrow> ('w \<Rightarrow> instant) \<Rightarrow> instant \<Rightarrow>
    (unit, unit) flow \<Rightarrow> ('w, 's, 'z) v5_host_scheme \<Rightarrow> bool" where
  "v5_continues K A tr time t \<equiv> \<lambda>fl. case fl of Continue _ \<Rightarrow> v5_searching K A tr time t | Break _ \<Rightarrow> v5_halted K A tr"

lemma v5_stopping:
  fixes J :: "('w, 's, 'z) v5_host_scheme \<Rightarrow> bool"
  assumes "v5_stops_at E time T" and "robust time J"
  shows "triple J (io_stopping E) (\<lambda>_. J) X"
  by (rule triple_time [OF assms(2)]) (rule clock_runsD(3) [OF v5_stops_atD(4) [OF assms(1)]])

lemma recover_v5_triple:
  fixes E :: "('w, 'x) v5_env_scheme"
  assumes env: "v5_stops_at E time T"
  shows "triple (v5_searching K A tr time t :: ('w, 's, 'z) v5_host_scheme \<Rightarrow> bool) (recover_v5 E S)
    (v5_continues K A tr time t) (v5_given_up K A tr)"
proof -
  let ?J = "v5_searching K A tr time t :: ('w, 's, 'z) v5_host_scheme \<Rightarrow> bool"
  have publish: "triple ?J (publish_v5 Recovering) (\<lambda>_. ?J) (v5_given_up K A tr)"
    by (rule publish_v5_triple) simp_all
  have fresh: "triple ?J require_fresh (\<lambda>_. ?J) (v5_given_up K A tr)"
    unfolding require_fresh_def by (rule triple_update) (auto simp: v5_conditions window_inv_fresh)
  have cancel: "triple ?J (io_attempt (cancel_with_deadline E S)) (\<lambda>_. ?J) (v5_given_up K A tr)"
    by (rule triple_attempt, rule triple_post [OF v5_release [OF v5_stops_atD(4) [OF env]]]) (simp_all add: v5_weaken)
  show ?thesis
    unfolding recover_v5_def
    by (intro triple_bind [OF v5_stopping [OF env v5_robust(2)]] triple_if triple_return triple_seq [OF publish]
        triple_seq [OF fresh] triple_bind [OF cancel]) (simp_all add: v5_weaken)
qed

lemma session_triple:
  fixes E :: "('w, 'x) v5_env_scheme"
  assumes env: "v5_stops_at E time T" and ok: "aead_ok A" and peer: "\<forall>c f. peer_frame A c f \<longrightarrow> frame_ok f"
  shows "triple (v5_served K A tr time t :: ('w, 's, 'z) v5_host_scheme \<Rightarrow> bool) (io_attempt (serve_gameplay E A S lanes))
    (\<lambda>_. v5_searching K A tr time t) (v5_given_up K A tr)"
proof (rule triple_attempt [where Y = "v5_searching K A tr time t"], rule tripleI)
  fix st :: "('w, 's, 'z) v5_host_scheme" assume st: "v5_served K A tr time t st"
  then obtain past where past: "trace st = tr @ past" "session_runs K A True past" by (auto simp: v5_conditions)
  note D = v5_stops_atD [OF env]
  have "window_inv (ordered st)" "idle (sink st)" and K: "K (conn st)" and t: "t \<le> time (world st)"
    using st by (auto simp: v5_conditions)
  from serve_gameplay_ends [OF ok D(3) this(1,2)] peer D(6) pairing_runsD(2) [OF D(2)]
  have "io_ends (serve_gameplay E A S lanes) st (session_over E A (conn st) (trace st) time (time (world st)))" by blast
  then show "io_ends (serve_gameplay E A S lanes) st (outcome_in (\<lambda>_. v5_searching K A tr time t) (v5_searching K A tr time t))"
  proof (rule io_ends_mono, goal_cases)
    case (1 r st')
    then obtain new where new: "session_log A (conn st) new"
      and out: "trace st' = trace st @ new @ [Released] \<and> \<not> is_active S (sink st') \<and> idle (sink st') \<or>
        trace st' = trace st @ new \<and> is_active S (sink st')"
      and st': "r \<noteq> Panic" "window_inv (ordered st')" "held (sink st')" "time (world st) \<le> time (world st')"
      by (auto simp: session_over_def)
    have served: "session_runs K A False (past @ new)" by (rule session_runs.session [OF past(2) K new])
    have "v5_searching K A tr time t st'"
      using out
    proof (elim disjE conjE)
      assume "trace st' = trace st @ new @ [Released]" "\<not> is_active S (sink st')" "idle (sink st')"
      with st' t past session_runs.release [OF served] show ?thesis by (auto simp: v5_conditions)
    next
      assume "trace st' = trace st @ new" "is_active S (sink st')"
      with st' t past served show ?thesis by (auto simp: v5_conditions)
    qed
    with st'(1) show ?case by (cases r) simp_all
  qed
qed simp

lemma serve_v5_triple:
  fixes E :: "('w, 'x) v5_env_scheme"
  assumes env: "v5_stops_at E time T" and ok: "aead_ok A" and peer: "\<forall>c f. peer_frame A c f \<longrightarrow> frame_ok f"
  shows "triple (v5_served K A tr time t :: ('w, 's, 'z) v5_host_scheme \<Rightarrow> bool) (serve_v5 E A S lanes)
    (v5_continues K A tr time t) (v5_given_up K A tr)"
proof -
  let ?J = "v5_served K A tr time t :: ('w, 's, 'z) v5_host_scheme \<Rightarrow> bool"
  let ?Q = "v5_continues K A tr time t :: (unit, unit) flow \<Rightarrow> ('w, 's, 'z) v5_host_scheme \<Rightarrow> bool"
  note D = v5_stops_atD [OF env]
  have revalidate: "World_Runs.keeps I (revalidate_now E b p :: (('w, 's, 'z) v5_host_scheme, host_error, unit) io)"
    if "lasting time I" for I b p
    unfolding revalidate_now_def by (rule keep_net [OF D(1) that revalidate_total])
  have check: "triple ?J (io_attempt (revalidate_interface E)) (\<lambda>_. ?J) (v5_given_up K A tr)"
    unfolding revalidate_interface_def
    by (rule triple_attempt [where Y = ?J], rule triple_bind [OF triple_gets], assumption)
      (rule triple_keeps [OF v5_robust(4) revalidate], simp_all)
  have publish: "triple ?J (publish_v5 p) (\<lambda>_. ?J) (v5_given_up K A tr)" for p
    by (rule publish_v5_triple) simp_all
  have note_it: "triple ?J (note_begin E) (\<lambda>_. ?J) (v5_given_up K A tr)"
    unfolding note_begin_def by (rule triple_records [OF v5_robust(4) records_note [OF D(4)]])
  have "World_Runs.keeps I (io_convert ControllerIo (io_os (ve_flush E)) :: (('w, 's, 'z) v5_host_scheme, controller_error, unit) io)"
    if "lasting time I" for I
    by (rule runs_convert [OF keep_os_time [where time = time, OF D(7) that]])
  then have flush: "triple ?J (io_convert ControllerIo (io_os (ve_flush E))) (\<lambda>_. ?J) (v5_given_up K A tr)"
    by (rule triple_keeps [OF v5_robust(4)]) (assumption, auto simp: v5_conditions)
  have again: "triple ?J (io_return (Continue ())) ?Q (v5_given_up K A tr)"
    by (rule triple_return) (simp add: v5_weaken)
  have after: "triple (v5_searching K A tr time t :: ('w, 's, 'z) v5_host_scheme \<Rightarrow> bool)
      (case r of Inr _ \<Rightarrow> io_return (Continue ()) | Inl e \<Rightarrow> recover_v5 E S) ?Q (v5_given_up K A tr)" for r :: "host_error + unit"
    by (cases r) (simp_all add: recover_v5_triple [OF env] triple_return)
  have go: "triple ?J (io_seq (note_begin E) (io_seq (publish_v5 Connected) (io_seq (io_convert ControllerIo (io_os (ve_flush E)))
      (io_bind (io_attempt (serve_gameplay E A S lanes)) (\<lambda>r. case r of Inr _ \<Rightarrow> io_return (Continue ()) | Inl e \<Rightarrow> recover_v5 E S)))))
      ?Q (v5_given_up K A tr)"
    by (intro triple_seq [OF note_it] triple_seq [OF publish] triple_seq [OF flush] triple_bind [OF session_triple [OF env ok peer]] after)
  show ?thesis
    unfolding serve_v5_def by (rule triple_bind [OF check]) (auto split: sum.split intro: go triple_seq [OF publish again])
qed

lemma accept_triple:
  fixes E :: "('w, 'x) v5_env_scheme"
  assumes env: "v5_stops_at E time T" and blake: "\<forall>bs. length (blake2s bs) = 32"
    and K: "\<forall>c w. recognised E time t0 N blake2s transport c w \<longrightarrow> K c" and t0: "t0 \<le> t"
  shows "triple (v5_resting K A tr time t :: ('w, 's, 'z) v5_host_scheme \<Rightarrow> bool) (accept_remembered E N blake2s transport port deadline)
    (\<lambda>_. v5_served K A tr time t) (v5_resting K A tr time t)"
proof (rule tripleI)
  fix st :: "('w, 's, 'z) v5_host_scheme" assume st: "v5_resting K A tr time t st"
  then have t: "t \<le> time (world st)" by (simp add: v5_conditions)
  have known: "K c" if "recognised E time t N blake2s transport c w" for c w
    using K recognised_earlier [OF that t0] by blast
  have same: "v5_resting K A tr time t (st\<lparr>world := w\<rparr>) \<and> v5_resting K A tr time t (st\<lparr>world := w, conn := c\<rparr>)"
    if "t \<le> time w" for w c
    using st that by (auto simp: v5_conditions)
  have "io_ends (accept_remembered E N blake2s transport port deadline) st (\<lambda>r st'. \<exists>w. t \<le> time w \<and>
     (case r of Done _ \<Rightarrow> \<exists>c. st' = st\<lparr>world := w, conn := c\<rparr> \<and> recognised E time t N blake2s transport c w
      | Fail _ \<Rightarrow> st' = st\<lparr>world := w\<rparr> | Panic \<Rightarrow> False))"
    using accept_remembered_opens [OF v5_stops_atD(1) [OF env] blake] t unfolding opens_def by blast
  then show "io_ends (accept_remembered E N blake2s transport port deadline) st
      (outcome_in (\<lambda>_. v5_served K A tr time t) (v5_resting K A tr time t))"
  proof (rule io_ends_mono, goal_cases)
    case (1 r st')
    then obtain w where w: "t \<le> time w" and out: "case r of Done _ \<Rightarrow> \<exists>c. st' = st\<lparr>world := w, conn := c\<rparr> \<and>
        recognised E time t N blake2s transport c w | Fail _ \<Rightarrow> st' = st\<lparr>world := w\<rparr> | Panic \<Rightarrow> False" by blast
    from out same [OF w] known show ?case by (cases r) (auto simp: v5_served_def)
  qed
qed

lemma verify_v5_triple:
  fixes E :: "('w, 'x) v5_env_scheme"
  assumes env: "v5_stops_at E time T"
  shows "triple (v5_served K A tr time t :: ('w, 's, 'z) v5_host_scheme \<Rightarrow> bool) (verify_v5_local_only E local_only)
    (\<lambda>_. v5_served K A tr time t) (v5_given_up K A tr)"
proof -
  let ?J = "v5_served K A tr time t :: ('w, 's, 'z) v5_host_scheme \<Rightarrow> bool"
  have up: "v5_given_up K A tr st" if "?J st" for st
    using that by (simp add: v5_conditions)
  have "World_Runs.keeps I (io_convert ControllerIo (v5_routes_present E b) :: (('w, 's, 'z) v5_host_scheme, controller_error, bool \<times> bool) io)"
    if "lasting time I" for I b
    by (rule runs_convert [OF keep_routes [OF v5_stops_atD(1) [OF env] that]])
  then have routes: "triple ?J (io_convert ControllerIo (v5_routes_present E b)) (\<lambda>_. ?J) (v5_given_up K A tr)" for b
    by (rule triple_keeps [OF v5_robust(4)]) (assumption, rule up)
  have rest: "triple ?J (io_bind (io_convert ControllerIo (v5_routes_present E b)) (\<lambda>(ipv4, ipv6).
       if ipv4 \<or> ipv6 then io_fail OwnsDefaultRoute else io_return ())) (\<lambda>_. ?J) (v5_given_up K A tr)" for b
    by (rule triple_bind [OF routes]) (auto intro!: triple_return triple_fail up split: prod.split)
  show ?thesis
    unfolding verify_v5_local_only_def
    by (intro triple_if triple_return triple_bind [OF triple_gets [where Q = "\<lambda>_. ?J"]]) (auto intro!: rest triple_fail up split: option.split)
qed

lemma sleep_v5_triple:
  fixes E :: "('w, 'x) v5_env_scheme"
  assumes env: "v5_stops_at E time T" and "0 < d"
  shows "triple (v5_searching K A tr time t :: ('w, 's, 'z) v5_host_scheme \<Rightarrow> bool) (sleep_v5 E d)
    (\<lambda>_. v5_searching K A tr time (t + 1)) X"
  unfolding sleep_v5_def
proof (rule triple_world)
  fix st :: "('w, 's, 'z) v5_host_scheme" assume "v5_searching K A tr time t st"
  with v5_stops_atD(9) [OF assms, of "world st"]
  show "v5_searching K A tr time (t + 1) (st\<lparr>world := snd (ve_sleep E d (world st))\<rparr>)" by (auto simp: v5_conditions)
qed

lemma search_v5_triple:
  fixes E :: "('w, 'x) v5_env_scheme"
  assumes env: "v5_stops_at E time T" and ok: "aead_ok A" and peer: "\<forall>c f. peer_frame A c f \<longrightarrow> frame_ok f"
    and blake: "\<forall>bs. length (blake2s bs) = 32"
    and K: "\<forall>c w. recognised E time t0 N blake2s transport c w \<longrightarrow> K c" and t0: "t0 \<le> t"
  shows "triple (v5_resting K A tr time t :: ('w, 's, 'z) v5_host_scheme \<Rightarrow> bool)
    (search_v5 E A N blake2s S lanes transport port local_only) (v5_continues K A tr time (t + 1)) (v5_given_up K A tr)"
proof -
  let ?J = "v5_resting K A tr time (t + 1) :: ('w, 's, 'z) v5_host_scheme \<Rightarrow> bool"
  let ?R = "\<lambda>(r :: host_error + unit) st :: ('w, 's, 'z) v5_host_scheme.
    case r of Inl _ \<Rightarrow> ?J st | Inr _ \<Rightarrow> v5_served K A tr time (t + 1) st"
  let ?Q = "v5_continues K A tr time (t + 1) :: (unit, unit) flow \<Rightarrow> ('w, 's, 'z) v5_host_scheme \<Rightarrow> bool"
  have publish: "triple (v5_resting K A tr time t :: ('w, 's, 'z) v5_host_scheme \<Rightarrow> bool) (publish_v5 Waiting)
      (\<lambda>_. v5_resting K A tr time t) (v5_given_up K A tr)"
    by (rule publish_v5_triple) simp_all
  have now: "triple (v5_resting K A tr time t :: ('w, 's, 'z) v5_host_scheme \<Rightarrow> bool) (io_now E) (\<lambda>_. ?J) (v5_given_up K A tr)"
  proof (rule triple_world)
    fix st :: "('w, 's, 'z) v5_host_scheme" assume "v5_resting K A tr time t st"
    with v5_stops_atD(5) [OF env, of "world st"] show "?J (st\<lparr>world := snd (ev_now E (world st))\<rparr>)"
      by (auto simp: v5_conditions)
  qed
  have accept: "triple ?J (io_attempt (accept_remembered E N blake2s transport port d)) ?R (v5_given_up K A tr)" for d
    by (rule triple_attempt [where Y = ?J], rule triple_post [OF accept_triple [OF env blake K]]) (use t0 in simp_all)
  have retry: "triple ?J (io_seq (sleep_v5 E (millis 100)) (io_return (Continue ()))) ?Q (v5_given_up K A tr)"
    by (rule triple_seq [OF triple_pre [OF sleep_v5_triple [OF env]]]) (auto simp: v5_conditions intro!: triple_return)
  have serve: "triple (v5_served K A tr time (t + 1) :: ('w, 's, 'z) v5_host_scheme \<Rightarrow> bool)
      (io_seq (verify_v5_local_only E local_only) (serve_v5 E A S lanes)) ?Q (v5_given_up K A tr)"
    by (rule triple_seq [OF verify_v5_triple [OF env] serve_v5_triple [OF env ok peer]])
  have after: "triple (?R r) (case r of
         Inr _ \<Rightarrow> io_seq (verify_v5_local_only E local_only) (serve_v5 E A S lanes)
       | Inl e \<Rightarrow>
           if e = HostTimedOut then io_return (Continue ())
           else if e = NotPaired then io_fail NoPairedPhone
           else io_seq (sleep_v5 E (millis 100)) (io_return (Continue ()))) ?Q (v5_given_up K A tr)" for r
  proof (cases r)
    case (Inl e)
    show ?thesis unfolding Inl sum.case
      by (intro triple_if triple_return triple_fail retry) (simp_all add: v5_weaken)
  next
    case (Inr u)
    show ?thesis unfolding Inr sum.case by (rule serve)
  qed
  show ?thesis
    unfolding search_v5_def by (intro triple_seq [OF publish] triple_bind [OF now] triple_bind [OF accept] after)
qed

text \<open>An iteration advances the clock and either goes on before \<open>T\<close> or leaves the loop.\<close>

lemma iteration_v5_triple:
  fixes E :: "('w, 'x) v5_env_scheme"
  assumes env: "v5_stops_at E time T" and ok: "aead_ok A" and peer: "\<forall>c f. peer_frame A c f \<longrightarrow> frame_ok f"
    and blake: "\<forall>bs. length (blake2s bs) = 32"
    and K: "\<forall>c w. recognised E time t0 N blake2s transport c w \<longrightarrow> K c" and t0: "t0 \<le> t"
  shows "triple (v5_searching K A tr time t :: ('w, 's, 'z) v5_host_scheme \<Rightarrow> bool)
    (v5_iteration E A N blake2s S lanes transport port local_only u)
    (continues (\<lambda>_ st. v5_searching K A tr time (t + 1) st \<and> t < T) (\<lambda>_. v5_halted K A tr)) (v5_given_up K A tr)"
proof -
  let ?S = "v5_searching K A tr time t :: ('w, 's, 'z) v5_host_scheme \<Rightarrow> bool"
  let ?Q = "continues (\<lambda>_ :: unit. \<lambda>st. v5_searching K A tr time (t + 1) st \<and> t < T)
    (\<lambda>_ :: unit. v5_halted K A tr :: ('w, 's, 'z) v5_host_scheme \<Rightarrow> bool)"
  note D = v5_stops_atD [OF env]
  have stopping: "triple ?S (io_stopping E) (\<lambda>b st. ?S st \<and> (b \<or> t < T)) (v5_given_up K A tr)"
  proof (rule triple_world)
    fix st :: "('w, 's, 'z) v5_host_scheme" assume "?S st"
    then show "?S (st\<lparr>world := snd (ev_stopping E (world st))\<rparr>) \<and> (fst (ev_stopping E (world st)) \<or> t < T)"
      using clock_runsD(3) [OF D(4), of "world st"] D(6) [of "world st"] by (auto simp: v5_conditions)
  qed
  have search: "triple (\<lambda>st. ?S st \<and> \<not> is_active S (sink st)) (search_v5 E A N blake2s S lanes transport port local_only)
      ?Q (v5_given_up K A tr)" if "t < T"
    by (rule triple_conseq [OF search_v5_triple [OF env ok peer blake K t0]])
      (use that in \<open>auto simp: v5_resting_def split: flow.splits\<close>)
  have sleep: "triple ?S (io_seq (sleep_v5 E d) (io_return (Continue ()))) ?Q (v5_given_up K A tr)" if "t < T" "0 < d" for d
    using that by (intro triple_seq [OF sleep_v5_triple [OF env]] triple_return) simp_all
  have release: "triple (\<lambda>st. ?S st \<and> is_active S (sink st)) (io_attempt (cancel_with_deadline E S))
      (\<lambda>r st. case r of Inl e \<Rightarrow> ?S st | Inr _ \<Rightarrow> ?S st \<and> \<not> is_active S (sink st)) (v5_given_up K A tr)"
    by (rule triple_attempt, rule triple_conseq [OF v5_release [OF D(4)]]) (simp_all add: v5_resting_def)
  have active: "triple ?S (io_gets (\<lambda>st. is_active S (sink st))) (\<lambda>b st. ?S st \<and> (is_active S (sink st) \<longleftrightarrow> b)) (v5_given_up K A tr)"
    by (rule triple_gets) simp
  have go: "triple ?S (io_bind (io_gets (\<lambda>st. is_active S (sink st))) (\<lambda>active_input.
       if active_input then
         io_bind (io_attempt (cancel_with_deadline E S)) (\<lambda>r.
           case r of
             Inl e \<Rightarrow> io_seq (sleep_v5 E (millis 1)) (io_return (Continue ()))
           | Inr _ \<Rightarrow> search_v5 E A N blake2s S lanes transport port local_only)
       else search_v5 E A N blake2s S lanes transport port local_only)) ?Q (v5_given_up K A tr)" if "t < T"
    using that by (intro triple_bind [OF active] triple_if triple_bind [OF triple_pre [OF release]])
      (auto split: sum.split intro: sleep intro!: triple_pre [OF search])
  show ?thesis
    unfolding v5_iteration_def
  proof (intro triple_bind [OF stopping] triple_if triple_return, goal_cases)
    case (2 stopped)
    show ?case
    proof (rule triple_pure [where b = "t < T"])
      assume "t < T"
      then show ?case by (rule triple_pre [OF go]) simp
    qed (use 2 in simp)
  qed (auto simp: v5_weaken)
qed

text \<open>The report of the measurements does not touch the keys.\<close>

lemma v5_report_keeps:
  fixes E :: "('w, 'x) v5_env_scheme" and st :: "('w, 's, 'z) v5_host_scheme"
  assumes "v5_stops_at E time T"
  shows "io_ends (write_v5_report E) st (\<lambda>r st'. r \<noteq> Panic \<and> sink st' = sink st \<and> trace st' = trace st)"
proof -
  let ?J = "\<lambda>st' :: ('w, 's, 'z) v5_host_scheme. sink st' = sink st \<and> trace st' = trace st"
  have J: "robust time ?J" by (rule robust_host) simp
  have "triple ?J (io_os (ve_report E)) (\<lambda>_. ?J) ?J"
    by (rule triple_keeps [OF J keep_os_time [where time = time]]) (rule v5_stops_atD(8) [OF assms], assumption+)
  then have "triple ?J (write_v5_report E) (\<lambda>_. ?J) ?J"
    unfolding write_v5_report_def by (intro triple_bind [OF triple_gets] triple_if triple_return) auto
  then have "io_ends (write_v5_report E) st (outcome_in (\<lambda>_. ?J) ?J)" by (rule tripleD) simp
  then show ?thesis
  proof (rule io_ends_mono, goal_cases)
    case (1 r st')
    then show ?case by (cases r) simp_all
  qed
qed

text \<open>The end of a process: if something is left active, its last release was given up, and that is the error.\<close>

definition v5_stopped_ok :: "('w, 'x) env_scheme \<Rightarrow> (connection \<Rightarrow> bool) \<Rightarrow> aead \<Rightarrow> effect list \<Rightarrow>
    (controller_error, unit) outcome \<Rightarrow> ('w, 's, 'z) v5_host_scheme \<Rightarrow> bool" where
  "v5_stopped_ok E K A tr r st \<longleftrightarrow> r \<noteq> Panic \<and> v5_halted K A tr st \<and>
     (is_active S (sink st) \<longrightarrow> (\<exists>e. r = Fail (ControllerIo e) \<and> gave_up E S e st))"

lemma stop_v5_ends:
  fixes E :: "('w, 'x) v5_env_scheme" and st :: "('w, 's, 'z) v5_host_scheme"
  assumes env: "v5_stops_at E time T" and "v5_halted K A tr st"
  shows "io_ends (stop_v5 E S) st (v5_stopped_ok E K A tr)"
proof -
  let ?st = "if v5_phase st \<noteq> Stopping then st\<lparr>v5_phase := Stopping, v5_shown := v5_shown st @ [Stopping]\<rparr> else st"
  have same: "sink ?st = sink st" "trace ?st = trace st" by simp_all
  obtain b past where past: "trace st = tr @ past" "session_runs K A b past" and held: "held (sink ?st)"
    using assms(2) by (auto simp: v5_halted_def)
  have "io_ends (stop_v5 E S) st (\<lambda>r st'. r \<noteq> Panic \<and> held (sink st') \<and>
      (trace st' = trace ?st @ [Released] \<and> \<not> is_active S (sink st') \<or>
       trace st' = trace ?st \<and> (\<exists>e. r = Fail (ControllerIo e) \<and> gave_up E S e st')))"
    unfolding stop_v5_def publish_v5_def io_seq_rules(1) [where m = "io_update _"] io_ends_update then_ends.simps
    by (rule final_release_ends [OF v5_stops_atD(4) [OF env] held v5_report_keeps [OF env]])
  then show ?thesis
    by (rule io_ends_mono) (use past session_runs.release [OF past(2)] same in \<open>auto simp: v5_stopped_ok_def v5_halted_def\<close>)
qed

lemma run_v5_ends:
  fixes E :: "('w, 'x) v5_env_scheme" and st :: "('w, 's, 'z) v5_host_scheme"
  assumes env: "v5_stops_at E time T" and ok: "aead_ok A" and peer: "\<forall>c f. peer_frame A c f \<longrightarrow> frame_ok f"
    and blake: "\<forall>bs. length (blake2s bs) = 32"
    and K: "\<forall>c w. recognised E time t0 N blake2s transport c w \<longrightarrow> K c"
    and st: "idle (sink st)" "\<not> is_active S (sink st)" "t0 \<le> time (world st)"
  shows "io_ends (run_v5_controller E A N blake2s S lanes (Some transport) port local_only) st (v5_stopped_ok E K A (trace st))"
proof -
  let ?tr = "trace st"
  let ?I = "\<lambda>_ :: unit. v5_searching K A ?tr time t0 :: ('w, 's, 'z) v5_host_scheme \<Rightarrow> bool"
  have body: "triple (\<lambda>st. ?I u st \<and> T - time (world st) = k) (v5_iteration E A N blake2s S lanes transport port local_only u)
      (continues (\<lambda>z st. ?I z st \<and> T - time (world st) < k) (\<lambda>_ :: unit. v5_halted K A ?tr)) (v5_given_up K A ?tr)" for u k
  proof (rule tripleI)
    fix st :: "('w, 's, 'z) v5_host_scheme" assume st: "?I u st \<and> T - time (world st) = k"
    then have "v5_searching K A ?tr time (time (world st)) st" and t0: "t0 \<le> time (world st)" by (simp_all add: v5_conditions)
    from tripleD [OF iteration_v5_triple [OF env ok peer blake K t0] this(1)]
    show "io_ends (v5_iteration E A N blake2s S lanes transport port local_only u) st
      (outcome_in (continues (\<lambda>z st. ?I z st \<and> T - time (world st) < k) (\<lambda>_ :: unit. v5_halted K A ?tr)) (v5_given_up K A ?tr))"
    proof (rule io_ends_mono, goal_cases)
      case (1 r st')
      show ?case
      proof (cases r)
        case (Done fl)
        with 1 st t0 show ?thesis by (cases fl) (auto simp: v5_conditions)
      qed (use 1 in simp_all)
    qed
  qed
  have loop: "triple (?I ()) (io_loop (v5_iteration E A N blake2s S lanes transport port local_only) ()) (\<lambda>_. v5_halted K A ?tr) (v5_given_up K A ?tr)"
    using triple_loop [where I = ?I and \<mu> = "\<lambda>st. T - time (world st)", OF body] .
  let ?st = "st\<lparr>ordered := ordered_new\<rparr>"
  have "?I () ?st"
    using st session_runs.none by (auto simp: v5_conditions window_inv_new idle_held)
  note start = tripleD [OF loop this]
  show ?thesis
    unfolding run_v5_controller_def option.case io_seq_rules(1) [where m = "io_update _"] io_ends_update then_ends.simps
      io_seq_rules(1) [where m = "io_loop _ _"]
  proof (rule io_ends_mono [OF start], goal_cases)
    case (1 r st1)
    then show ?case using stop_v5_ends [OF env]
      by (cases r) (auto simp: v5_stopped_ok_def v5_given_up_def)
  qed
qed

end

section \<open>The controller over the keyboard\<close>

text \<open>
  C2: the host of protocol v5 stops, lets the keys go, and plays only what the paired phone sends. If reading
  the clock and waiting take time and the host is told to stop at some time \<open>T\<close>, then \<open>run_v5_controller\<close>
  returns without a panic, whatever the phones, the network, the store and the kernel do: searches, refused
  phones, sessions that fail, recoveries and retried releases included. What it did is a sequence of sessions,
  each over a connection whose peer proved the key that the store held for the paired phone, with the
  authenticated frames of that connection in order, and a session begins only when the release of the one
  before has succeeded. If it returns normally nothing is active on the keyboard; if a key may still be down,
  the kernel refused the last release until its deadline of 8 ms, and the error with which it refused its last
  attempt is the one returned.
\<close>

theorem v5_host_stops:
  fixes E :: "('w, 'x) v5_env_scheme"
    and st :: "('w, ('v \<times> 'u) uinput_sink host_sink, 'z) v5_host_scheme"
  assumes "v5_stops_at E time T" and "aead_ok A" and "\<forall>bs. length (blake2s bs) = 32"
    and "for_keys (linux_device.kb_idle n) (sink st)" and "\<not> is_active (host_sink_ops linux_ops) (sink st)"
  shows "\<exists>r st' new b. run_v5_controller E A N blake2s (host_sink_ops linux_ops) lanes transport port local_only st = Some (r, st') \<and>
    r \<noteq> Panic \<and> trace st' = trace st @ new \<and>
    session_runs (\<lambda>c. \<exists>kind w. transport = Some kind \<and> recognised E time (time (world st)) N blake2s kind c w) A b new \<and>
    (is_active (host_sink_ops linux_ops) (sink st') \<longrightarrow>
      (\<exists>e. r = Fail (ControllerIo e) \<and> gave_up E (host_sink_ops linux_ops) e st'))"
proof (cases transport)
  case None
  have "session_runs (\<lambda>c. \<exists>kind w. transport = Some kind \<and> recognised E time (time (world st)) N blake2s kind c w) A True []"
    by (rule session_runs.none)
  then show ?thesis using assms(5) by (auto simp: None run_v5_controller_def io_fail_def)
next
  case (Some kind)
  let ?K = "\<lambda>c. \<exists>kind w. transport = Some kind \<and> recognised E time (time (world st)) N blake2s kind c w"
  have peer: "\<forall>c f. peer_frame A c f \<longrightarrow> distinct_pointers f" using peer_frame_ok(1) by blast
  have K: "\<forall>c w. recognised E time (time (world st)) N blake2s kind c w \<longrightarrow> ?K c" using Some by blast
  have "io_ends (run_v5_controller E A N blake2s (host_sink_ops linux_ops) lanes (Some kind) port local_only) st
      (keys.v5_stopped_ok n E ?K A (trace st))"
    by (rule keys.run_v5_ends [OF assms(1,2) peer assms(3) K assms(4,5) order_refl])
  then show ?thesis unfolding Some io_ends_def keys.v5_stopped_ok_def keys.v5_halted_def by blast
qed

text \<open>The paired phone on the Wi-Fi of the host, until the stop.\<close>

definition sample_v5_env :: "nat v5_env" where
  "sample_v5_env = pairing_env.extend (remember_env\<lparr>ev_now := (\<lambda>w. (w, Suc w)), ev_stopping := (\<lambda>w. (5000 \<le> w, w))\<rparr>)
     (v5_env.fields (\<lambda>w. (Inr (), w)) (\<lambda>d w. ((), w + d)) (\<lambda>w. (Inr (), w)))"

definition sample_v5 :: "(nat, (input_event list \<times> nat list) uinput_sink host_sink) v5_host" where
  "sample_v5 = pairing.extend (session.extend sample_session (pairing.fields [])) (v5_host.fields Waiting [])"

lemma sample_v5_env_stops: "v5_stops_at sample_v5_env (\<lambda>w. w) 5000"
  using sample_system_answers
  by (simp add: v5_stops_at_def discovery_runs_def pairing_runs_def socket_runs_def clock_runs_def sample_v5_env_def
      remember_env_def pairing_env.defs v5_env.defs)

lemma sample_v5_fields: "sink sample_v5 = sink (sample_host [] [])" "trace sample_v5 = []" "world sample_v5 = 0"
  by (simp_all add: sample_v5_def sample_session_def sample_host_def host.defs session.defs pairing.defs v5_host.defs)

theorem v5_host_stops_witness:
  "\<exists>r st' new b. run_v5_controller sample_v5_env sample_aead demo_noise demo_hash (host_sink_ops linux_ops) 4 (Some Wifi) 4711 False
       sample_v5 = Some (r, st') \<and> r \<noteq> Panic \<and> trace st' = new \<and>
     session_runs (\<lambda>c. \<exists>kind w. Some Wifi = Some kind \<and> recognised sample_v5_env (\<lambda>w. w) 0 demo_noise demo_hash kind c w) sample_aead b new"
proof -
  have blake: "\<forall>bs. length (demo_hash bs) = 32" by (simp add: demo_hash_def)
  have "for_keys (linux_device.kb_idle 4) (sink sample_v5)" "\<not> is_active (host_sink_ops linux_ops) (sink sample_v5)"
    unfolding sample_v5_fields by (rule sample_host_ok(1), rule sample_not_active)
  from v5_host_stops [OF sample_v5_env_stops sample_aead_ok blake this, of demo_noise 4 "Some Wifi" 4711 False] show ?thesis
    unfolding sample_v5_fields append_Nil by blast
qed

end
