(* ===== verification/Touch_Injector.thy ===== *)
theory Touch_Injector
  imports Input_Boundary
begin

text \<open>
  The sink of the host that injects touches into a window of Windows (\<open>native-host/src/touch.rs\<close>): the contacts of
  a frame are mapped to pixels and turned into the transitions of the pointers since the frame before. The calls
  of the system are functions of its state; what is not there is the encoding of the window's title.
\<close>

section \<open>The target window\<close>

text \<open>An \<open>i32\<close> is a word read by \<open>sint\<close>; its sums wrap, as in a release build.\<close>

type_synonym i32 = "32 word"

definition round_away :: "f32 \<Rightarrow> int" where
  "round_away x = (if x < 0 then - \<lfloor>1 / 2 - x\<rfloor> else \<lfloor>x + 1 / 2\<rfloor>)"

definition f32_as_i32 :: "int \<Rightarrow> i32" where
  "f32_as_i32 n = word_of_int (max (- (2 ^ 31)) (min (2 ^ 31 - 1) n))"

definition f32_as_u32 :: "int \<Rightarrow> u32" where
  "f32_as_u32 n = word_of_int (max 0 (min (2 ^ 32 - 1) n))"

definition i32_as_f32 :: "i32 \<Rightarrow> f32" where
  "i32_as_f32 v = f32_round (of_int (sint v))"

definition i32_max :: "i32 \<Rightarrow> i32 \<Rightarrow> i32" where
  "i32_max a b = (if sint a < sint b then b else a)"

definition i32_min :: "i32 \<Rightarrow> i32 \<Rightarrow> i32" where
  "i32_min a b = (if sint b < sint a then b else a)"

record point =
  pt_x :: i32
  pt_y :: i32

record rect =
  rc_left :: i32
  rc_top :: i32
  rc_right :: i32
  rc_bottom :: i32

record touch_target =
  tt_left :: i32
  tt_top :: i32
  tt_width :: i32
  tt_height :: i32

definition touch_map :: "touch_target \<Rightarrow> contact \<Rightarrow> point" where
  "touch_map t c =
    (let x = f32_clamp (contact_x c) 0 1; y = f32_clamp (contact_y c) 0 1 in
     \<lparr>pt_x = tt_left t + f32_as_i32 (round_away (f32_mul x (i32_as_f32 (tt_width t - 1)))),
      pt_y = tt_top t + f32_as_i32 (round_away (f32_mul y (i32_as_f32 (tt_height t - 1))))\<rparr>)"

section \<open>The injected contacts\<close>

abbreviation (input) POINTER_FLAG_INRANGE :: u32 where "POINTER_FLAG_INRANGE \<equiv> 0x2"
abbreviation (input) POINTER_FLAG_INCONTACT :: u32 where "POINTER_FLAG_INCONTACT \<equiv> 0x4"
abbreviation (input) POINTER_FLAG_CANCELED :: u32 where "POINTER_FLAG_CANCELED \<equiv> 0x8000"
abbreviation (input) POINTER_FLAG_DOWN :: u32 where "POINTER_FLAG_DOWN \<equiv> 0x10000"
abbreviation (input) POINTER_FLAG_UPDATE :: u32 where "POINTER_FLAG_UPDATE \<equiv> 0x20000"
abbreviation (input) POINTER_FLAG_UP :: u32 where "POINTER_FLAG_UP \<equiv> 0x40000"
abbreviation (input) PT_TOUCH :: u32 where "PT_TOUCH \<equiv> 2"
abbreviation (input) TOUCH_MASK :: u32 where "TOUCH_MASK \<equiv> 0x7"
abbreviation (input) ERROR_NOT_READY :: int where "ERROR_NOT_READY \<equiv> 21"

record active_contact =
  ac_location :: point
  ac_pressure :: u32
  ac_radius :: i32

record touch_info =
  ti_type :: u32
  ti_id :: u32
  ti_flags :: u32
  ti_location :: point
  ti_mask :: u32
  ti_contact :: rect
  ti_orientation :: u32
  ti_pressure :: u32

definition to_touch_info :: "u8 \<Rightarrow> active_contact \<Rightarrow> u32 \<Rightarrow> touch_info" where
  "to_touch_info p s flags =
    (let l = ac_location s; r = ac_radius s in
     \<lparr>ti_type = PT_TOUCH, ti_id = ucast p, ti_flags = flags, ti_location = l, ti_mask = TOUCH_MASK,
      ti_contact = \<lparr>rc_left = pt_x l - r, rc_top = pt_y l - r, rc_right = pt_x l + r, rc_bottom = pt_y l + r\<rparr>,
      ti_orientation = 90, ti_pressure = ac_pressure s\<rparr>)"

definition contact_state :: "touch_target \<Rightarrow> contact \<Rightarrow> active_contact" where
  "contact_state t c =
     \<lparr>ac_location = touch_map t c,
      ac_pressure = f32_as_u32 (round_away (f32_mul (f32_clamp (pressure c) 0 1) 1023)) + 1,
      ac_radius = i32_min (i32_max (f32_as_i32 (round_away
        (f32_mul (f32_mul (f32_clamp (touch_major c) 0 1) (i32_as_f32 (i32_min (tt_width t) (tt_height t)))) (1 / 2)))) 2) 32\<rparr>"

definition transition_flags :: "bool \<Rightarrow> bool \<Rightarrow> u32 option" where
  "transition_flags was_active tip =
    (if \<not> was_active \<and> tip then Some (POINTER_FLAG_DOWN OR POINTER_FLAG_INRANGE OR POINTER_FLAG_INCONTACT)
     else if was_active \<and> tip then Some (POINTER_FLAG_UPDATE OR POINTER_FLAG_INRANGE OR POINTER_FLAG_INCONTACT)
     else if was_active then Some POINTER_FLAG_UP
     else None)"

text \<open>An array of 256 contacts is a function of the pointer id; it is walked in the order of the ids.\<close>

type_synonym contact_array = "u8 \<Rightarrow> active_contact option"

definition pointer_ids :: "u8 list" where
  "pointer_ids = map of_nat [0..<256]"

text \<open>One contact for each id that \<open>f\<close> picks.\<close>

definition walk :: "(u8 \<Rightarrow> (active_contact \<times> u32) option) \<Rightarrow> touch_info list" where
  "walk f = List.map_filter (\<lambda>p. map_option (\<lambda>(s, flags). to_touch_info p s flags) (f p)) pointer_ids"

definition fill_update_contacts :: "contact_array \<Rightarrow> contact_array \<Rightarrow> touch_info list" where
  "fill_update_contacts act proposed =
     walk (\<lambda>p. if act p \<noteq> None
       then map_option (\<lambda>s. (s, POINTER_FLAG_UPDATE OR POINTER_FLAG_INRANGE OR POINTER_FLAG_INCONTACT)) (proposed p)
       else None)"

definition lift_absent :: "contact_array \<Rightarrow> (u8 \<Rightarrow> bool) \<Rightarrow> touch_info list" where
  "lift_absent act present =
     walk (\<lambda>p. if present p then None else map_option (\<lambda>s. (s, POINTER_FLAG_UP)) (act p))"

definition cancel_contacts :: "contact_array \<Rightarrow> touch_info list" where
  "cancel_contacts act = walk (\<lambda>p. map_option (\<lambda>s. (s, POINTER_FLAG_UP OR POINTER_FLAG_CANCELED)) (act p))"

definition propose :: "touch_target \<Rightarrow> contact list \<Rightarrow> contact_array" where
  "propose t cs = fold (\<lambda>c a. a(pointer_id c := Some (contact_state t c))) cs (\<lambda>_. None)"

definition present_ids :: "contact list \<Rightarrow> u8 \<Rightarrow> bool" where
  "present_ids cs = fold (\<lambda>c a. a(pointer_id c := True)) cs (\<lambda>_. False)"

text \<open>\<open>proposed[..].unwrap()\<close> would panic.\<close>

fun frame_transitions :: "contact_array \<Rightarrow> contact_array \<Rightarrow> contact list \<Rightarrow> (io_error, touch_info list) outcome" where
  "frame_transitions act proposed [] = Done []"
| "frame_transitions act proposed (c # cs) =
    (case proposed (pointer_id c) of
       None \<Rightarrow> Panic
     | Some s \<Rightarrow> and_then (frame_transitions act proposed cs) (\<lambda>is.
         Done (case transition_flags (act (pointer_id c) \<noteq> None) (touching c) of
                 None \<Rightarrow> is
               | Some flags \<Rightarrow> to_touch_info (pointer_id c) s flags # is)))"

definition keep_touching :: "contact_array \<Rightarrow> contact list \<Rightarrow> contact_array" where
  "keep_touching proposed cs =
     fold (\<lambda>c a. if touching c then a(pointer_id c := proposed (pointer_id c)) else a) cs (\<lambda>_. None)"

definition count_active :: "contact_array \<Rightarrow> nat" where
  "count_active act = length (filter (\<lambda>p. act p \<noteq> None) pointer_ids)"

section \<open>The operating system\<close>

text \<open>
  The calls of Windows: finding the window, its client rectangle and origin, and \<open>InjectTouchInput\<close>, which
  takes all the contacts or none; its error is that of \<open>GetLastError\<close>. \<open>td_patience d\<close> is how often the clock is read before a deadline \<open>d\<close> ahead.
  \<open>td_log\<close> is a ghost: the contacts taken so far.
\<close>

record 'w touch_device =
  td_now :: 'w
  td_find :: "'w \<Rightarrow> bool \<times> 'w"
  td_client :: "'w \<Rightarrow> (io_error + rect) \<times> 'w"
  td_origin :: "'w \<Rightarrow> (io_error + point) \<times> 'w"
  td_init :: "'w \<Rightarrow> (io_error + unit) \<times> 'w"
  td_inject :: "touch_info list \<Rightarrow> 'w \<Rightarrow> (io_error + unit) \<times> 'w"
  td_patience :: "duration \<Rightarrow> 'w \<Rightarrow> nat"
  td_log :: "'w \<Rightarrow> touch_info list"

record 'w touch_injector =
  target :: touch_target
  active_contacts :: contact_array
  active_count :: nat
  touch_os :: "'w touch_device"

definition touch_call :: "('w touch_device \<Rightarrow> 'w \<Rightarrow> (io_error + 'a) \<times> 'w) \<Rightarrow> 'w touch_device \<Rightarrow> 'w touch_device \<times> (io_error, 'a) outcome" where
  "touch_call f dv = (case f dv (td_now dv) of (r, w) \<Rightarrow>
     (dv\<lparr>td_now := w\<rparr>, case r of Inl e \<Rightarrow> Fail e | Inr x \<Rightarrow> Done x))"

text \<open>A step of the injector after another, if that did not fail.\<close>

definition touch_then :: "'s \<times> ('e, 'a) outcome \<Rightarrow> ('a \<Rightarrow> 's \<Rightarrow> 's \<times> ('e, 'b) outcome) \<Rightarrow> 's \<times> ('e, 'b) outcome" where
  "touch_then m k = (case m of (s, Done x) \<Rightarrow> k x s | (s, Fail e) \<Rightarrow> (s, Fail e) | (s, Panic) \<Rightarrow> (s, Panic))"

definition target_refresh :: "touch_target \<Rightarrow> 'w touch_device \<Rightarrow> 'w touch_device \<times> (io_error, touch_target) outcome" where
  "target_refresh t dv =
     touch_then (touch_call (\<lambda>dv w. apfst Inr (td_find dv w)) dv) (\<lambda>found dv.
       if \<not> found then (dv, Fail (io_err NotFound)) else
       touch_then (touch_call td_client dv) (\<lambda>client dv.
       touch_then (touch_call td_origin dv) (\<lambda>origin dv.
         (dv, Done \<lparr>tt_left = pt_x origin, tt_top = pt_y origin,
            tt_width = i32_max (rc_right client - rc_left client) 1,
            tt_height = i32_max (rc_bottom client - rc_top client) 1\<rparr>))))"

definition from_window_title :: "'w touch_device \<Rightarrow> 'w touch_device \<times> (io_error, touch_target) outcome" where
  "from_window_title dv = target_refresh \<lparr>tt_left = 0, tt_top = 0, tt_width = 1, tt_height = 1\<rparr> dv"

definition injector_new :: "touch_target \<Rightarrow> 'w touch_device \<Rightarrow> 'w touch_device \<times> (io_error, 'w touch_injector) outcome" where
  "injector_new t dv =
     touch_then (touch_call td_init dv) (\<lambda>_ dv.
       (dv, Done \<lparr>target = t, active_contacts = (\<lambda>_. None), active_count = 0, touch_os = dv\<rparr>))"

definition inject_once :: "touch_info list \<Rightarrow> 'w touch_device \<Rightarrow> 'w touch_device \<times> (io_error, unit) outcome" where
  "inject_once cs dv = touch_call (\<lambda>dv. td_inject dv cs) dv"

fun inject_attempts :: "nat \<Rightarrow> touch_info list \<Rightarrow> 'w touch_device \<Rightarrow> 'w touch_device \<times> (io_error, unit) outcome" where
  "inject_attempts 0 cs dv = inject_once cs dv"
| "inject_attempts (Suc n) cs dv =
    (case inject_once cs dv of
       (dv', Fail e) \<Rightarrow>
         if raw_os_error e \<noteq> Some ERROR_NOT_READY then (dv', Fail e) else inject_attempts n cs dv'
     | result \<Rightarrow> result)"

definition inject_retry :: "touch_info list \<Rightarrow> 'w touch_device \<Rightarrow> 'w touch_device \<times> (io_error, unit) outcome" where
  "inject_retry cs dv = inject_attempts (td_patience dv (millis 3) (td_now dv)) cs dv"

definition inject :: "touch_info list \<Rightarrow> 'w touch_injector \<Rightarrow> 'w touch_injector \<times> (io_error, unit) outcome" where
  "inject cs s = (case inject_retry cs (touch_os s) of (dv, r) \<Rightarrow> (s\<lparr>touch_os := dv\<rparr>, r))"

section \<open>The sink\<close>

definition has_active_touch :: "'w touch_injector \<Rightarrow> bool" where
  "has_active_touch s \<longleftrightarrow> active_count s > 0"

definition touch_cancel :: "'w touch_injector \<Rightarrow> 'w touch_injector \<times> (io_error, unit) outcome" where
  "touch_cancel s =
    (if active_count s = 0 then (s, Done ()) else
     touch_then (inject (cancel_contacts (active_contacts s)) s) (\<lambda>_ s.
       (s\<lparr>active_contacts := (\<lambda>_. None), active_count := 0\<rparr>, Done ())))"

definition refresh_target :: "'w touch_injector \<Rightarrow> 'w touch_injector \<times> (io_error, unit) outcome" where
  "refresh_target s = (case target_refresh (target s) (touch_os s) of
     (dv, Done t) \<Rightarrow> (s\<lparr>touch_os := dv, target := t\<rparr>, Done ())
   | (dv, Fail e) \<Rightarrow> (s\<lparr>touch_os := dv\<rparr>, Fail e)
   | (dv, Panic) \<Rightarrow> (s\<lparr>touch_os := dv\<rparr>, Panic))"

text \<open>A pointer that is lifted elsewhere than it was last is moved there first.\<close>

definition lifted_elsewhere :: "touch_frame \<Rightarrow> contact_array \<Rightarrow> contact_array \<Rightarrow> bool" where
  "lifted_elsewhere f act proposed \<longleftrightarrow> action f = ACTION_UP \<and>
     (case (act (action_pointer_id f), proposed (action_pointer_id f)) of
        (Some previous, Some next) \<Rightarrow>
          pt_x (ac_location previous) \<noteq> pt_x (ac_location next) \<or> pt_y (ac_location previous) \<noteq> pt_y (ac_location next)
      | _ \<Rightarrow> False)"

definition move_first :: "touch_frame \<Rightarrow> contact_array \<Rightarrow> 'w touch_injector \<Rightarrow> 'w touch_injector \<times> (io_error, unit) outcome" where
  "move_first f proposed s =
    (if lifted_elsewhere f (active_contacts s) proposed
     then touch_then (inject (fill_update_contacts (active_contacts s) proposed) s) (\<lambda>_ s.
       (s\<lparr>active_contacts := proposed, active_count := count_active proposed\<rparr>, Done ()))
     else (s, Done ()))"

definition apply_touches :: "touch_frame \<Rightarrow> contact_array \<Rightarrow> 'w touch_injector \<Rightarrow> 'w touch_injector \<times> (io_error, unit) outcome" where
  "apply_touches f proposed s =
    (case frame_transitions (active_contacts s) proposed (contacts f) of
       Panic \<Rightarrow> (s, Panic)
     | Fail e \<Rightarrow> (s, Fail e)
     | Done ts \<Rightarrow>
         let infos = lift_absent (active_contacts s) (present_ids (contacts f)) @ ts in
         touch_then (if infos \<noteq> [] then inject infos s else (s, Done ())) (\<lambda>_ s.
           (s\<lparr>active_contacts := keep_touching proposed (contacts f), active_count := length (filter touching (contacts f))\<rparr>, Done ())))"

definition touch_accept :: "touch_frame \<Rightarrow> 'w touch_injector \<Rightarrow> 'w touch_injector \<times> (io_error, unit) outcome" where
  "touch_accept f s =
    (if session_start f \<or> action f = ACTION_CANCEL \<or> \<not> locked f then touch_cancel s
     else if action f = ACTION_HEARTBEAT \<and> contacts f = [] then
       (let infos = fill_update_contacts (active_contacts s) (active_contacts s) in
        if infos = [] then (s, Done ()) else inject infos s)
     else
       touch_then (if active_count s = 0 then refresh_target s else (s, Done ())) (\<lambda>_ s.
         let proposed = propose (target s) (contacts f) in
         touch_then (move_first f proposed s) (\<lambda>_. apply_touches f proposed)))"

text \<open>\<open>drop\<close>: the clock is read before each attempt.\<close>

fun drop_attempts :: "nat \<Rightarrow> 'w touch_injector \<Rightarrow> 'w touch_injector" where
  "drop_attempts 0 s = s"
| "drop_attempts (Suc n) s =
    (if \<not> has_active_touch s then s
     else case touch_cancel s of (s', Done _) \<Rightarrow> s' | (s', _) \<Rightarrow> drop_attempts n s')"

definition injector_drop :: "'w touch_injector \<Rightarrow> 'w touch_injector" where
  "injector_drop s = drop_attempts (td_patience (touch_os s) (millis 8) (td_now (touch_os s))) s"

definition touch_sink_ops :: "'w touch_injector input_sink" where
  "touch_sink_ops = \<lparr>is_accept = (\<lambda>now f. touch_accept f), is_active = has_active_touch, is_cancel = (\<lambda>now. touch_cancel),
     is_service = (\<lambda>now s. (s, Done ())), is_deadline = (\<lambda>now s. None)\<rparr>"

end
