(* ===== verification/Touch_Safety.thy ===== *)
theory Touch_Safety
  imports Touch_Injector Session_Safety
begin

text \<open>
  What the touch injector guarantees: the touches that are down at the system are those it has recorded, nothing
  is down after it was cancelled, and every touch lands in its window; and it is a sink of the host, so that what
  holds for a session over the keyboard holds for one over touches.
\<close>

section \<open>What is down at the system\<close>

text \<open>The touches that are down after the contacts of a list; a contact that does not fit its state is refused.\<close>

fun touches :: "u32 set \<Rightarrow> touch_info list \<Rightarrow> u32 set option" where
  "touches D [] = Some D"
| "touches D (i # is) =
    (if ti_flags i AND POINTER_FLAG_DOWN \<noteq> 0 then (if ti_id i \<in> D then None else touches (insert (ti_id i) D) is)
     else if ti_flags i AND POINTER_FLAG_UP \<noteq> 0 then (if ti_id i \<in> D then touches (D - {ti_id i}) is else None)
     else if ti_id i \<in> D then touches D is else None)"

lemma touches_append: "touches D (xs @ ys) = Option.bind (touches D xs) (\<lambda>D'. touches D' ys)"
  by (induction xs arbitrary: D) simp_all

abbreviation wide :: "u8 set \<Rightarrow> u32 set" where "wide A \<equiv> ucast ` A"

abbreviation ids_of :: "contact_array \<Rightarrow> u8 set" where "ids_of a \<equiv> {p. a p \<noteq> None}"

lemma wide_id [simp]: "(ucast (p :: u8) :: u32) = ucast q \<longleftrightarrow> p = q"
  by transfer simp

lemma wide_in [simp]: "(ucast (p :: u8) :: u32) \<in> wide A \<longleftrightarrow> p \<in> A"
  by auto

lemma wide_insert: "insert (ucast p) (wide A) = wide (insert p A)"
  by simp

lemma wide_remove: "wide A - {ucast p} = wide (A - {p})"
  by auto

lemma info_fields [simp]: "ti_id (to_touch_info p s flags) = ucast p" "ti_flags (to_touch_info p s flags) = flags"
  by (simp_all add: to_touch_info_def Let_def)

lemma pointer_ids: "set pointer_ids = UNIV" "distinct pointer_ids"
proof -
  have unat: "unat (of_nat k :: u8) = k" if "k < 256" for k
    using that by (simp add: unat_of_nat)
  have "p \<in> set pointer_ids" for p :: u8
    using unsigned_less [of p] unfolding pointer_ids_def by (auto intro!: image_eqI [of _ _ "unat p"])
  then show "set pointer_ids = UNIV" by auto
  have "inj_on (of_nat :: nat \<Rightarrow> u8) {0..<256}" by (rule inj_onI) (metis atLeastLessThan_iff unat)
  then show "distinct pointer_ids" by (simp add: pointer_ids_def distinct_map)
qed

lemma walk_keeps:
  assumes "\<And>p s flags. f p = Some (s, flags) \<Longrightarrow> p \<in> A \<and> flags AND POINTER_FLAG_DOWN = 0 \<and> flags AND POINTER_FLAG_UP = 0"
  shows "touches (wide A) (walk f) = Some (wide A)"
proof -
  have "touches (wide A) (List.map_filter (\<lambda>p. map_option (\<lambda>(s, flags). to_touch_info p s flags) (f p)) ps) = Some (wide A)" for ps
    using assms by (induction ps) (auto split: option.split)
  then show ?thesis by (simp add: walk_def)
qed

lemma walk_lifts:
  assumes "\<And>p s flags. f p = Some (s, flags) \<Longrightarrow> p \<in> A \<and> flags AND POINTER_FLAG_DOWN = 0 \<and> flags AND POINTER_FLAG_UP \<noteq> 0"
  shows "touches (wide A) (walk f) = Some (wide {p \<in> A. f p = None})"
proof -
  have "touches (wide B) (List.map_filter (\<lambda>p. map_option (\<lambda>(s, flags). to_touch_info p s flags) (f p)) ps) =
      Some (wide {p \<in> B. p \<in> set ps \<longrightarrow> f p = None})" if "distinct ps" "\<forall>p \<in> set ps. f p \<noteq> None \<longrightarrow> p \<in> B" for ps B
    using that
  proof (induction ps arbitrary: B)
    case (Cons p ps)
    show ?case
    proof (cases "f p")
      case None
      then have "{q \<in> B. q \<in> set ps \<longrightarrow> f q = None} = {q \<in> B. q \<in> set (p # ps) \<longrightarrow> f q = None}" by auto
      with Cons None show ?thesis by simp
    next
      case (Some x)
      obtain s flags where x: "x = (s, flags)" by fastforce
      have "{q \<in> B - {p}. q \<in> set ps \<longrightarrow> f q = None} = {q \<in> B. q \<in> set (p # ps) \<longrightarrow> f q = None}" using Some by auto
      moreover have "p \<in> B" using Cons.prems Some by auto
      ultimately show ?thesis
        using Cons.IH [of "B - {p}"] Cons.prems assms [of p s flags] Some x by (simp add: wide_remove) blast
    qed
  qed simp
  from this [of pointer_ids A] assms pointer_ids show ?thesis by (fastforce simp: walk_def)
qed

lemma flags_bits [simp]:
  "(POINTER_FLAG_DOWN OR POINTER_FLAG_INRANGE OR POINTER_FLAG_INCONTACT) AND POINTER_FLAG_DOWN \<noteq> (0 :: u32)"
  "(POINTER_FLAG_UPDATE OR POINTER_FLAG_INRANGE OR POINTER_FLAG_INCONTACT) AND POINTER_FLAG_DOWN = (0 :: u32)"
  "(POINTER_FLAG_UPDATE OR POINTER_FLAG_INRANGE OR POINTER_FLAG_INCONTACT) AND POINTER_FLAG_UP = (0 :: u32)"
  "(POINTER_FLAG_UP OR POINTER_FLAG_CANCELED) AND POINTER_FLAG_DOWN = (0 :: u32)"
  "(POINTER_FLAG_UP OR POINTER_FLAG_CANCELED) AND POINTER_FLAG_UP \<noteq> (0 :: u32)"
  "POINTER_FLAG_UP AND POINTER_FLAG_DOWN = (0 :: u32)"
  by simp_all

lemma frame_transitions_touch:
  assumes "distinct (map pointer_id cs)" and "\<forall>c \<in> set cs. proposed (pointer_id c) \<noteq> None"
    and "\<forall>c \<in> set cs. act (pointer_id c) \<noteq> None \<longleftrightarrow> pointer_id c \<in> A"
  shows "\<exists>ts. frame_transitions act proposed cs = Done ts \<and>
    touches (wide A) ts = Some (wide (A - pointer_id ` set cs \<union> pointer_id ` {c \<in> set cs. touching c}))"
  using assms
proof (induction cs arbitrary: A)
  case (Cons c cs)
  let ?p = "pointer_id c"
  let ?B = "if touching c then insert ?p A else A - {?p}"
  obtain s where s: "proposed ?p = Some s" using Cons.prems(2) by auto
  have new: "pointer_id d \<noteq> ?p" if "d \<in> set cs" for d using Cons.prems(1) that by (metis distinct.simps(2) image_eqI list.set_map list.simps(9))
  then have other: "\<forall>d \<in> set cs. act (pointer_id d) \<noteq> None \<longleftrightarrow> pointer_id d \<in> ?B" using Cons.prems(3) by simp
  from Cons.IH [of ?B] Cons.prems(1,2) other obtain ts where ts: "frame_transitions act proposed cs = Done ts"
    "touches (wide ?B) ts = Some (wide (?B - pointer_id ` set cs \<union> pointer_id ` {c \<in> set cs. touching c}))" by auto
  have B: "?B - pointer_id ` set cs \<union> pointer_id ` {c \<in> set cs. touching c} =
      A - pointer_id ` set (c # cs) \<union> pointer_id ` {d \<in> set (c # cs). touching d}"
    using new by auto
  have c: "act ?p \<noteq> None \<longleftrightarrow> ?p \<in> A" using Cons.prems(3) by simp
  let ?D = "A - pointer_id ` set (c # cs) \<union> pointer_id ` {d \<in> set (c # cs). touching d}"
  have D: "touches (wide ?B) ts = Some (wide ?D)" using ts(2) unfolding B .
  have eq: "frame_transitions act proposed (c # cs) = Done (case transition_flags (act ?p \<noteq> None) (touching c) of
      None \<Rightarrow> ts | Some flags \<Rightarrow> to_touch_info ?p s flags # ts)" using ts(1) s by simp
  have "touches (wide A) (case transition_flags (act ?p \<noteq> None) (touching c) of
      None \<Rightarrow> ts | Some flags \<Rightarrow> to_touch_info ?p s flags # ts) = touches (wide ?B) ts"
  proof (cases "?p \<in> A")
    case True
    then have "insert ?p A = A" by blast
    with c True show ?thesis by (cases "touching c") (simp_all add: transition_flags_def wide_remove)
  next
    case False
    then have "A - {?p} = A" by blast
    with c False show ?thesis by (cases "touching c") (simp_all add: transition_flags_def)
  qed
  with D eq show ?case by (intro exI conjI) (assumption, simp only:)
qed simp

section \<open>The contract of the system\<close>

text \<open>An injection is taken whole or not at all, and nothing else puts a touch down or up.\<close>

definition touch_obeys :: "'w touch_device \<Rightarrow> bool" where
  "touch_obeys dv \<longleftrightarrow>
     (\<forall>cs w. td_log dv (snd (td_inject dv cs w)) = td_log dv w @ (case fst (td_inject dv cs w) of Inl _ \<Rightarrow> [] | Inr _ \<Rightarrow> cs)) \<and>
     (\<forall>w. td_log dv (snd (td_find dv w)) = td_log dv w \<and> td_log dv (snd (td_client dv w)) = td_log dv w \<and>
       td_log dv (snd (td_origin dv w)) = td_log dv w \<and> td_log dv (snd (td_init dv w)) = td_log dv w)"

abbreviation injected :: "'w touch_device \<Rightarrow> touch_info list" where "injected dv \<equiv> td_log dv (td_now dv)"

lemma touch_obeys_now [simp]: "touch_obeys (dv\<lparr>td_now := w\<rparr>) = touch_obeys dv"
  by (simp add: touch_obeys_def)

lemma inject_once_result:
  assumes "inject_once cs dv = (dv', r)"
  shows "r \<noteq> Panic \<and> (touch_obeys dv \<longrightarrow> touch_obeys dv' \<and> injected dv' = injected dv @ (if r = Done () then cs else []))"
proof -
  obtain x w where x: "td_inject dv cs (td_now dv) = (x, w)" by fastforce
  have "touch_obeys dv \<Longrightarrow> td_log dv w = injected dv @ (case x of Inl _ \<Rightarrow> [] | Inr _ \<Rightarrow> cs)"
    unfolding touch_obeys_def by (metis fst_conv snd_conv x)
  with assms x show ?thesis by (auto simp: inject_once_def touch_call_def split: sum.splits)
qed

lemma inject_attempts_result:
  "inject_attempts n cs dv = (dv', r) \<Longrightarrow>
    r \<noteq> Panic \<and> (touch_obeys dv \<longrightarrow> touch_obeys dv' \<and> injected dv' = injected dv @ (if r = Done () then cs else []))"
proof (induction n arbitrary: dv)
  case 0
  then show ?case by (auto dest: inject_once_result)
next
  case (Suc n)
  obtain dv1 r1 where once: "inject_once cs dv = (dv1, r1)" by fastforce
  note one = inject_once_result [OF once]
  show ?case
  proof (cases "\<exists>e. r1 = Fail e \<and> raw_os_error e = Some ERROR_NOT_READY")
    case True
    then have "inject_attempts n cs dv1 = (dv', r)" using Suc.prems once by auto
    from Suc.IH [OF this] one True show ?thesis by auto
  next
    case False
    then have "dv' = dv1 \<and> r = r1" using Suc.prems once by (auto split: outcome.splits if_splits)
    with one show ?thesis by simp
  qed
qed

section \<open>The injector tracks the touches\<close>

text \<open>The count is that of the active contacts; with \<open>M\<close>, they are the touches that are down at the system.\<close>

definition tracks :: "bool \<Rightarrow> 'w touch_injector \<Rightarrow> bool" where
  "tracks M s \<longleftrightarrow> active_count s = card (ids_of (active_contacts s)) \<and>
     (M \<longrightarrow> touch_obeys (touch_os s) \<and> touches {} (injected (touch_os s)) = Some (wide (ids_of (active_contacts s))))"

lemma tracks_count: "tracks M s \<Longrightarrow> active_count s = 0 \<longleftrightarrow> active_contacts s = (\<lambda>_. None)"
  by (auto simp: tracks_def fun_eq_iff)

lemma inject_result:
  assumes "tracks M s" and "inject infos s = (s', r)" and "touches (wide (ids_of (active_contacts s))) infos = Some (wide B)"
  shows "r \<noteq> Panic \<and> active_contacts s' = active_contacts s \<and> active_count s' = active_count s \<and> (r \<noteq> Done () \<longrightarrow> tracks M s') \<and>
    (M \<and> r = Done () \<longrightarrow> touch_obeys (touch_os s') \<and> touches {} (injected (touch_os s')) = Some (wide B))"
proof -
  obtain dv where dv: "inject_retry infos (touch_os s) = (dv, r)" "s' = s\<lparr>touch_os := dv\<rparr>"
    using assms(2) by (auto simp: inject_def split: prod.splits)
  from inject_attempts_result [OF dv(1) [unfolded inject_retry_def]] dv(2) assms(1,3) show ?thesis
    by (auto simp: tracks_def touches_append)
qed

lemma count_active: "count_active a = card (ids_of a)"
  using distinct_card [OF distinct_filter [OF pointer_ids(2)], of "\<lambda>p. a p \<noteq> None"] pointer_ids(1)
  by (simp add: count_active_def)

lemma ids_propose: "ids_of (propose t cs) = pointer_id ` set cs"
proof -
  have "ids_of (fold (\<lambda>c a. a(pointer_id c := Some (contact_state t c))) cs a) = ids_of a \<union> pointer_id ` set cs" for a
    by (induction cs arbitrary: a) auto
  from this [of "\<lambda>_. None"] show ?thesis by (simp add: propose_def)
qed

lemma present_ids: "present_ids cs p \<longleftrightarrow> p \<in> pointer_id ` set cs"
proof -
  have "fold (\<lambda>c a. a(pointer_id c := True)) cs a p \<longleftrightarrow> a p \<or> p \<in> pointer_id ` set cs" for a
    by (induction cs arbitrary: a) auto
  from this [of "\<lambda>_. False"] show ?thesis by (simp add: present_ids_def)
qed

lemma ids_keep:
  assumes "\<forall>c \<in> set cs. proposed (pointer_id c) \<noteq> None"
  shows "ids_of (keep_touching proposed cs) = pointer_id ` {c \<in> set cs. touching c}"
proof -
  have "ids_of (fold (\<lambda>c a. if touching c then a(pointer_id c := proposed (pointer_id c)) else a) cs a) =
      ids_of a \<union> pointer_id ` {c \<in> set cs. touching c}" for a
    using assms by (induction cs arbitrary: a) auto
  from this [of "\<lambda>_. None"] show ?thesis by (simp add: keep_touching_def)
qed

lemma count_touching:
  "distinct (map pointer_id cs) \<Longrightarrow> length (filter touching cs) = card (pointer_id ` {c \<in> set cs. touching c})"
  using distinct_card [OF distinct_map_filter, of pointer_id cs touching] by simp

text \<open>Cancelling lifts every touch, or leaves everything as it is.\<close>

lemma touch_cancel_result:
  assumes t: "tracks M s" and run: "touch_cancel s = (s', r)"
  shows "r \<noteq> Panic \<and> tracks M s' \<and> (r = Done () \<longleftrightarrow> \<not> has_active_touch s')"
proof (cases "active_count s = 0")
  case True
  with run t show ?thesis by (auto simp: touch_cancel_def has_active_touch_def)
next
  case False
  let ?A = "ids_of (active_contacts s)"
  have lift: "touches (wide ?A) (cancel_contacts (active_contacts s)) = Some (wide {p \<in> ?A. map_option
      (\<lambda>s. (s, POINTER_FLAG_UP OR POINTER_FLAG_CANCELED :: u32)) (active_contacts s p) = None})"
    unfolding cancel_contacts_def by (rule walk_lifts) auto
  have "{p \<in> ?A. map_option (\<lambda>s. (s, POINTER_FLAG_UP OR POINTER_FLAG_CANCELED :: u32)) (active_contacts s p) = None} = {}"
    by auto
  with lift have lift: "touches (wide ?A) (cancel_contacts (active_contacts s)) = Some (wide {})" by (simp only:)
  obtain s1 r1 where inj: "inject (cancel_contacts (active_contacts s)) s = (s1, r1)" by fastforce
  note i = inject_result [OF t inj lift]
  show ?thesis
    using run False i inj by (cases r1) (auto simp: touch_cancel_def touch_then_def has_active_touch_def tracks_def)
qed

text \<open>A query of the system that puts no touch down or up.\<close>

definition silent :: "'w touch_device \<Rightarrow> 'w touch_device \<times> ('e, 'a) outcome \<Rightarrow> bool" where
  "silent dv m \<longleftrightarrow> snd m \<noteq> Panic \<and> (touch_obeys dv \<longrightarrow> touch_obeys (fst m) \<and> injected (fst m) = injected dv)"

lemma silent_then: "silent dv m \<Longrightarrow> (\<And>x dv'. silent dv' (k x dv')) \<Longrightarrow> silent dv (touch_then m k)"
  by (cases m; cases "snd m") (auto simp: silent_def touch_then_def)

lemma silent_call: "(touch_obeys dv \<Longrightarrow> td_log dv (snd (f dv (td_now dv))) = injected dv) \<Longrightarrow> silent dv (touch_call f dv)"
  by (auto simp: silent_def touch_call_def split: prod.splits sum.splits)

lemma target_refresh_silent: "silent dv (target_refresh t dv)"
proof -
  have queries: "touch_obeys dv \<Longrightarrow> td_log dv (snd (td_find dv w)) = td_log dv w"
    "touch_obeys dv \<Longrightarrow> td_log dv (snd (td_client dv w)) = td_log dv w"
    "touch_obeys dv \<Longrightarrow> td_log dv (snd (td_origin dv w)) = td_log dv w" for dv :: "'b touch_device" and w
    by (simp_all add: touch_obeys_def)
  show ?thesis
    unfolding target_refresh_def
    by (intro silent_then silent_call) (auto simp: queries silent_def [of _ "(_, _)"] intro!: silent_then silent_call)
qed

lemma refresh_target_result:
  assumes "tracks M s" and "refresh_target s = (s', r)"
  shows "r \<noteq> Panic \<and> tracks M s' \<and> active_contacts s' = active_contacts s"
  using assms target_refresh_silent [of "touch_os s" "target s"]
  by (auto simp: refresh_target_def tracks_def silent_def split: prod.splits outcome.splits)

text \<open>In an UP frame whose pointer was active the contacts are those that were active.\<close>

definition up_complete :: "touch_frame \<Rightarrow> contact_array \<Rightarrow> bool" where
  "up_complete f act \<longleftrightarrow> (action f = ACTION_UP \<and> act (action_pointer_id f) \<noteq> None \<longrightarrow>
     ids_of act = pointer_id ` set (contacts f))"

lemma move_first_result:
  assumes t: "tracks M s" and up: "M \<Longrightarrow> up_complete f (active_contacts s)"
    and ids: "ids_of proposed = pointer_id ` set (contacts f)" and run: "move_first f proposed s = (s', r)"
  shows "r \<noteq> Panic \<and> tracks M s'"
proof (cases "lifted_elsewhere f (active_contacts s) proposed")
  case True
  let ?A = "ids_of (active_contacts s)"
  have update: "touches (wide ?A) (fill_update_contacts (active_contacts s) proposed) = Some (wide ?A)"
    unfolding fill_update_contacts_def by (rule walk_keeps) (auto split: if_splits)
  have same: "ids_of proposed = ?A" if M
    using True up [OF that] ids by (auto simp: lifted_elsewhere_def up_complete_def split: option.splits)
  obtain s1 r1 where inj: "inject (fill_update_contacts (active_contacts s) proposed) s = (s1, r1)" by fastforce
  note i = inject_result [OF t inj update]
  show ?thesis
    using run True inj i same by (cases r1) (auto simp: move_first_def touch_then_def tracks_def count_active)
next
  case False
  with run t show ?thesis by (auto simp: move_first_def)
qed

lemma apply_touches_result:
  assumes t: "tracks M s" and d: "distinct_pointers f" and ids: "ids_of proposed = pointer_id ` set (contacts f)"
    and run: "apply_touches f proposed s = (s', r)"
  shows "r \<noteq> Panic \<and> tracks M s' \<and> (r = Done () \<longrightarrow> ids_of (active_contacts s') = pointer_id ` {c \<in> set (contacts f). touching c})"
proof -
  let ?cs = "contacts f"
  let ?A = "ids_of (active_contacts s)"
  let ?T = "pointer_id ` {c \<in> set ?cs. touching c}"
  let ?up = "lift_absent (active_contacts s) (present_ids ?cs)"
  have given: "\<forall>c \<in> set ?cs. proposed (pointer_id c) \<noteq> None" using ids by auto
  have "touches (wide ?A) ?up = Some (wide {p \<in> ?A. (if present_ids ?cs p then None
      else map_option (\<lambda>s. (s, POINTER_FLAG_UP :: u32)) (active_contacts s p)) = None})"
    unfolding lift_absent_def by (rule walk_lifts) (auto split: if_splits)
  moreover have "{p \<in> ?A. (if present_ids ?cs p then None
      else map_option (\<lambda>s. (s, POINTER_FLAG_UP :: u32)) (active_contacts s p)) = None} = ?A \<inter> pointer_id ` set ?cs"
    using present_ids [of ?cs] by auto
  ultimately have lift: "touches (wide ?A) ?up = Some (wide (?A \<inter> pointer_id ` set ?cs))" by (simp only:)
  obtain ts where ts: "frame_transitions (active_contacts s) proposed ?cs = Done ts"
    and "touches (wide (?A \<inter> pointer_id ` set ?cs)) ts =
      Some (wide (?A \<inter> pointer_id ` set ?cs - pointer_id ` set ?cs \<union> ?T))"
    using frame_transitions_touch [of ?cs proposed "active_contacts s" "?A \<inter> pointer_id ` set ?cs"] d given
    by (auto simp: distinct_pointers_def)
  moreover have "?A \<inter> pointer_id ` set ?cs - pointer_id ` set ?cs \<union> ?T = ?T" by blast
  ultimately have all: "touches (wide ?A) (?up @ ts) = Some (wide ?T)" using lift by (simp add: touches_append)
  have keep: "ids_of (keep_touching proposed ?cs) = ?T" by (rule ids_keep [OF given])
  have count: "length (filter touching ?cs) = card ?T" using d by (intro count_touching) (simp add: distinct_pointers_def)
  show ?thesis
  proof (cases "?up @ ts = []")
    case True
    then have "wide ?A = wide ?T" using all by simp
    moreover have s': "s' = s\<lparr>active_contacts := keep_touching proposed ?cs, active_count := length (filter touching ?cs)\<rparr> \<and> r = Done ()"
      using run ts True by (simp add: apply_touches_def touch_then_def)
    ultimately show ?thesis using t keep count by (simp add: tracks_def)
  next
    case False
    obtain s1 r1 where inj: "inject (?up @ ts) s = (s1, r1)" by fastforce
    note i = inject_result [OF t inj all]
    show ?thesis
      using run ts False inj i keep count
      by (cases r1) (clarsimp simp: apply_touches_def touch_then_def tracks_def)+
  qed
qed

lemma touch_accept_result:
  assumes t: "tracks M s" and d: "distinct_pointers f" and up: "M \<Longrightarrow> up_complete f (active_contacts s)"
    and run: "touch_accept f s = (s', r)"
  shows "r \<noteq> Panic \<and> tracks M s' \<and> (r = Done () \<longrightarrow> ids_of (active_contacts s') =
    (if releases f then {} else if action f = ACTION_HEARTBEAT \<and> contacts f = [] then ids_of (active_contacts s)
     else pointer_id ` {c \<in> set (contacts f). touching c}))"
proof (cases "releases f")
  case True
  then have "touch_cancel s = (s', r)" using run by (simp add: touch_accept_def releases_def)
  from touch_cancel_result [OF t this] True tracks_count [of M s'] show ?thesis by (auto simp: has_active_touch_def)
next
  case rel: False
  show ?thesis
  proof (cases "action f = ACTION_HEARTBEAT \<and> contacts f = []")
    case True
    let ?infos = "fill_update_contacts (active_contacts s) (active_contacts s)"
    have "touches (wide (ids_of (active_contacts s))) ?infos = Some (wide (ids_of (active_contacts s)))"
      unfolding fill_update_contacts_def by (rule walk_keeps) (auto split: if_splits)
    note i = inject_result [OF t _ this]
    obtain s1 r1 where inj: "inject ?infos s = (s1, r1)" by fastforce
    with run rel True t i [OF inj] inj show ?thesis
      by (auto simp: touch_accept_def releases_def tracks_def Let_def split: if_splits)
  next
    case False': False
    obtain s1 r1 where first: "(if active_count s = 0 then refresh_target s else (s, Done ())) = (s1, r1)" by fastforce
    have one: "r1 \<noteq> Panic \<and> tracks M s1 \<and> active_contacts s1 = active_contacts s"
      using first t refresh_target_result [of M s s1 r1] by (auto split: if_splits)
    let ?p = "propose (target s1) (contacts f)"
    obtain s2 r2 where move: "move_first f ?p s1 = (s2, r2)" by fastforce
    have two: "r2 \<noteq> Panic \<and> tracks M s2"
      by (rule move_first_result [OF _ _ ids_propose move]) (use one up in auto)
    have "touch_accept f s = touch_then (if active_count s = 0 then refresh_target s else (s, Done ())) (\<lambda>_ s.
        touch_then (move_first f (propose (target s) (contacts f)) s) (\<lambda>_. apply_touches f (propose (target s) (contacts f))))"
      using rel False' unfolding touch_accept_def releases_def Let_def by (simp only: if_False)
    then have rest: "(s', r) = touch_then (s1, r1) (\<lambda>_ s. touch_then (move_first f (propose (target s) (contacts f)) s)
        (\<lambda>_. apply_touches f (propose (target s) (contacts f))))"
      using run first by (simp only:)
    show ?thesis
    proof (cases "r1 = Done () \<and> r2 = Done ()")
      case True
      then have "apply_touches f ?p s2 = (s', r)" using rest move by (simp add: touch_then_def)
      from apply_touches_result [OF conjunct2 [OF two] d ids_propose this] rel False' show ?thesis by auto
    next
      case False
      with rest move one two show ?thesis by (cases r1; cases r2) (auto simp: touch_then_def)
    qed
  qed
qed

text \<open>The injector is a sink of the host.\<close>

interpretation touch: sink_contract touch_sink_ops distinct_pointers "tracks False" "\<lambda>_. tracks False" "tracks False"
proof (unfold_locales, goal_cases)
  case (3 f s t s' r)
  then have "touch_accept f s = (s', r)" by (simp add: touch_sink_ops_def)
  from touch_accept_result [OF 3(1,2) _ this] show ?case by (cases r) auto
next
  case (5 s t s' r)
  then show ?case using touch_cancel_result [of False s s' r] by (simp add: touch_sink_ops_def)
qed (auto simp: touch_sink_ops_def)

text \<open>A session over touches that is stopped returns, and leaves none unless the release failed until the deadline.\<close>

lemma touch_session_returns:
  assumes "aead_ok A" and "socket_runs E time" and "window_inv (ordered st)" and "tracks False (sink st)"
    and "\<And>w. time w < time (snd (ev_receive E w))" and "\<And>w. T \<le> time w \<Longrightarrow> fst (ev_stopping E w)"
  shows "\<exists>r st' new. serve_gameplay E A touch_sink_ops lanes st = Some (r, st') \<and> r \<noteq> Panic \<and>
    session_log A (conn st) new \<and> of_session (ordered st') = None \<and>
    (trace st' = trace st @ new @ [Released] \<and> \<not> is_active touch_sink_ops (sink st') \<or>
     (\<exists>e. r = Fail (HostIo e) \<and> gave_up E touch_sink_ops e st') \<and> trace st' = trace st @ new)"
proof -
  have peer: "distinct_pointers f" if "peer_frame A (conn st) f" for f
    by (rule peer_frame_ok(1) [OF that])
  have "io_ends (serve_gameplay E A touch_sink_ops lanes) st (touch.session_over E A (conn st) (trace st) time (time (world st)))"
    by (rule touch.serve_gameplay_ends [OF assms(1-4)]) (fact peer assms(5,6))+
  then show ?thesis unfolding io_ends_def touch.session_over_def by blast
qed

section \<open>The whole use of an injector\<close>

text \<open>Frames and cancellations in any order, each frame with distinct pointers and complete if it lifts one.\<close>

inductive touch_run :: "'w touch_injector \<Rightarrow> 'w touch_injector \<Rightarrow> bool" for s0 where
  start: "touch_run s0 s0"
| accept: "touch_run s0 s \<Longrightarrow> distinct_pointers f \<Longrightarrow> up_complete f (active_contacts s) \<Longrightarrow> touch_run s0 (fst (touch_accept f s))"
| cancel: "touch_run s0 s \<Longrightarrow> touch_run s0 (fst (touch_cancel s))"

lemma touch_run_tracks: "touch_run s0 s \<Longrightarrow> tracks M s0 \<Longrightarrow> tracks M s"
proof (induction rule: touch_run.induct)
  case (accept s f)
  from touch_accept_result [OF accept.IH [OF accept.prems] accept.hyps(2) accept.hyps(3) surjective_pairing] show ?case by simp
next
  case (cancel s)
  from touch_cancel_result [OF cancel.IH [OF cancel.prems] surjective_pairing] show ?case by simp
qed

lemma injector_new_tracks:
  assumes "touch_obeys dv" and "touches {} (injected dv) = Some {}" and "injector_new t dv = (dv', Done s0)"
  shows "tracks True s0"
proof -
  have "silent dv (touch_call td_init dv)"
    by (rule silent_call) (simp add: touch_obeys_def)
  then show ?thesis
    using assms by (auto simp: injector_new_def touch_then_def silent_def tracks_def split: prod.splits outcome.splits)
qed

text \<open>
  C16: the injector knows what is down. However it is used from its creation on - frames and cancellations in any
  order, whichever injections the system refuses - every contact it injects fits the state of its pointer at the
  system, and the touches that are down there are exactly those it has recorded as active, provided that a frame
  that lifts an active pointer lists the active pointers. It never panics; an accepted frame leaves down exactly
  the contacts that it says are touching, and a cancellation that succeeds leaves nothing down.
\<close>

theorem touches_match:
  assumes "touch_obeys dv" and "touches {} (injected dv) = Some {}" and "injector_new t dv = (dv', Done s0)"
    and "touch_run s0 s"
  shows "touches {} (injected (touch_os s)) = Some (wide (ids_of (active_contacts s))) \<and>
    (has_active_touch s \<longleftrightarrow> ids_of (active_contacts s) \<noteq> {}) \<and>
    (\<forall>f s' r. distinct_pointers f \<and> up_complete f (active_contacts s) \<and> touch_accept f s = (s', r) \<longrightarrow>
      r \<noteq> Panic \<and> (r = Done () \<and> gameplay f \<longrightarrow>
        touches {} (injected (touch_os s')) = Some (wide (pointer_id ` {c \<in> set (contacts f). touching c})))) \<and>
    (\<forall>s' r. touch_cancel s = (s', r) \<longrightarrow> r \<noteq> Panic \<and> (r = Done () \<longrightarrow> touches {} (injected (touch_os s')) = Some {}))"
proof (intro conjI allI impI)
  have t: "tracks True s" by (rule touch_run_tracks [OF assms(4) injector_new_tracks [OF assms(1-3)]])
  then show "touches {} (injected (touch_os s)) = Some (wide (ids_of (active_contacts s)))" by (simp add: tracks_def)
  show "has_active_touch s \<longleftrightarrow> ids_of (active_contacts s) \<noteq> {}"
    using tracks_count [OF t] by (auto simp: has_active_touch_def fun_eq_iff)
  fix f s' r assume run: "distinct_pointers f \<and> up_complete f (active_contacts s) \<and> touch_accept f s = (s', r)"
  note a = touch_accept_result [OF t conjunct1 [OF run] _ conjunct2 [OF conjunct2 [OF run]]]
  show "r \<noteq> Panic" using a run by simp
  assume "r = Done () \<and> gameplay f"
  then show "touches {} (injected (touch_os s')) = Some (wide (pointer_id ` {c \<in> set (contacts f). touching c}))"
    using a run by (auto simp: tracks_def gameplay_def releases_def)
next
  have t: "tracks True s" by (rule touch_run_tracks [OF assms(4) injector_new_tracks [OF assms(1-3)]])
  fix s' r assume "touch_cancel s = (s', r)"
  note c = touch_cancel_result [OF t this]
  show "r \<noteq> Panic" using c by simp
  assume "r = Done ()"
  with c tracks_count [of True s'] show "touches {} (injected (touch_os s')) = Some {}" by (auto simp: tracks_def has_active_touch_def)
qed

text \<open>A window of 1920 by 1080 pixels at the origin and a system that takes every injection.\<close>

definition sample_touch_os :: "touch_info list touch_device" where
  "sample_touch_os = \<lparr>td_now = [], td_find = (\<lambda>w. (True, w)), td_client = (\<lambda>w. (Inr \<lparr>rc_left = 0, rc_top = 0, rc_right = 1920, rc_bottom = 1080\<rparr>, w)),
     td_origin = (\<lambda>w. (Inr \<lparr>pt_x = 0, pt_y = 0\<rparr>, w)), td_init = (\<lambda>w. (Inr (), w)), td_inject = (\<lambda>cs w. (Inr (), w @ cs)),
     td_patience = (\<lambda>d w. 0), td_log = (\<lambda>w. w)\<rparr>"

definition sample_target :: touch_target where
  "sample_target = \<lparr>tt_left = 0, tt_top = 0, tt_width = 1920, tt_height = 1080\<rparr>"

definition sample_injector :: "touch_info list touch_injector" where
  "sample_injector = \<lparr>target = sample_target, active_contacts = (\<lambda>_. None), active_count = 0, touch_os = sample_touch_os\<rparr>"

definition sample_down :: touch_frame where
  "sample_down = (sample_frame 7 300 0)\<lparr>action := ACTION_DOWN, frame_flags := 1,
     contacts := [\<lparr>pointer_id = 3, contact_flags = 2, contact_x = 1 / 2, contact_y = 1 / 4, pressure = 1, touch_major = 0\<rparr>]\<rparr>"

lemma sample_touch_obeys: "touch_obeys sample_touch_os"
  by (simp add: touch_obeys_def sample_touch_os_def)

lemma sample_injector_new: "injector_new sample_target sample_touch_os = (sample_touch_os, Done sample_injector)"
  by (simp add: injector_new_def touch_call_def touch_then_def sample_touch_os_def sample_injector_def)

theorem touches_match_witness:
  "let s = fst (touch_accept sample_down sample_injector) in
     touches {} (injected (touch_os s)) = Some (wide (ids_of (active_contacts s)))"
proof -
  have "touch_run sample_injector (fst (touch_accept sample_down sample_injector))"
    by (rule touch_run.accept [OF touch_run.start]) (simp_all add: distinct_pointers_def sample_down_def up_complete_def)
  from touches_match [OF sample_touch_obeys _ sample_injector_new this] show ?thesis
    by (simp add: sample_touch_os_def Let_def)
qed

section \<open>A lifting frame that is not complete\<close>

text \<open>
  Where a frame lifts a pointer elsewhere than it was and leaves out a pointer that is down, the pointer left out
  stays down at the system but is no longer recorded, so that no later cancellation lifts it.
\<close>

lemma inject_touches:
  assumes "inject infos s = (s', Done ())" and "touch_obeys (touch_os s)" and "touches {} (injected (touch_os s)) = Some D"
    and "touches D infos = Some D'"
  shows "touch_obeys (touch_os s') \<and> touches {} (injected (touch_os s')) = Some D'"
proof -
  obtain dv where dv: "inject_retry infos (touch_os s) = (dv, Done ())" "s' = s\<lparr>touch_os := dv\<rparr>"
    using assms(1) by (auto simp: inject_def split: prod.splits)
  from inject_attempts_result [OF dv(1) [unfolded inject_retry_def]] dv(2) assms(2-4) show ?thesis
    by (auto simp: touches_append)
qed

lemma left_out_stays_down:
  assumes t: "tracks True s" and d: "distinct_pointers f" and lift: "lifted_elsewhere f (active_contacts s) proposed"
    and ids: "ids_of proposed = pointer_id ` set (contacts f)" and sub: "pointer_id ` set (contacts f) \<subseteq> ids_of (active_contacts s)"
    and move: "move_first f proposed s = (s1, Done ())" and run: "apply_touches f proposed s1 = (s', Done ())"
  shows "ids_of (active_contacts s') = pointer_id ` {c \<in> set (contacts f). touching c} \<and>
    touches {} (injected (touch_os s')) = Some (wide (ids_of (active_contacts s) - pointer_id ` set (contacts f) \<union>
      pointer_id ` {c \<in> set (contacts f). touching c}))"
proof -
  let ?A = "ids_of (active_contacts s)" and ?cs = "contacts f"
  let ?D = "?A - pointer_id ` set ?cs \<union> pointer_id ` {c \<in> set ?cs. touching c}"
  have given: "\<forall>c \<in> set ?cs. proposed (pointer_id c) \<noteq> None" using ids by auto
  obtain s0 where inj: "inject (fill_update_contacts (active_contacts s) proposed) s = (s0, Done ())"
    and s1: "s1 = s0\<lparr>active_contacts := proposed, active_count := count_active proposed\<rparr>"
    using move lift by (auto simp: move_first_def touch_then_def split: prod.splits outcome.splits)
  have "touches (wide ?A) (fill_update_contacts (active_contacts s) proposed) = Some (wide ?A)"
    unfolding fill_update_contacts_def by (rule walk_keeps) (auto split: if_splits)
  from inject_touches [OF inj _ _ this] t s1
  have down: "touch_obeys (touch_os s1)" "touches {} (injected (touch_os s1)) = Some (wide ?A)" by (simp_all add: tracks_def)
  let ?up = "lift_absent proposed (present_ids ?cs)"
  have none: "touches (wide ?A) ?up = Some (wide ?A)"
    unfolding lift_absent_def by (rule walk_keeps) (use ids present_ids [of ?cs] in \<open>auto split: if_splits\<close>)
  have fits: "\<forall>c \<in> set ?cs. proposed (pointer_id c) \<noteq> None \<longleftrightarrow> pointer_id c \<in> ?A" using given sub by blast
  obtain ts where ts: "frame_transitions proposed proposed ?cs = Done ts" "touches (wide ?A) ts = Some (wide ?D)"
    using frame_transitions_touch [OF d [unfolded distinct_pointers_def] given fits] by blast
  have all: "touches (wide ?A) (?up @ ts) = Some (wide ?D)" using none ts(2) by (simp add: touches_append)
  obtain s2 where infos: "(if ?up @ ts \<noteq> [] then inject (?up @ ts) s1 else (s1, Done ())) = (s2, Done ())"
    and s': "s' = s2\<lparr>active_contacts := keep_touching proposed ?cs, active_count := length (filter touching ?cs)\<rparr>"
    using run ts(1) s1 by (auto simp: apply_touches_def touch_then_def Let_def split: prod.splits outcome.splits)
  have "touches {} (injected (touch_os s2)) = Some (wide ?D)"
  proof (cases "?up @ ts = []")
    case True
    with infos all down(2) show ?thesis by simp
  next
    case False
    with inject_touches [OF _ down all, of s2] infos show ?thesis by simp
  qed
  with s' ids_keep [OF given] show ?thesis by simp
qed

section \<open>Where a touch is injected\<close>

lemma f32_round_near:
  assumes "0 \<le> p" and "p \<le> of_int n" and "n < 2 ^ 23"
  shows "0 \<le> f32_round p \<and> f32_round p < of_int n + 1 / 2"
proof (cases "p = 0")
  case True
  then have "(0 :: rat) < of_int n + 1 / 2" using assms(2) by linarith
  then show ?thesis using True by simp
next
  case False
  have nonneg: "0 \<le> f32_round p"
    using assms(1) False by (auto simp: f32_round_def Let_def round_half_even_def intro!: mult_nonneg_nonneg)
  have "\<bar>f32_round p - p\<bar> < 1 / 2"
  proof (cases "2 powi (- 126) \<le> \<bar>p\<bar>")
    case True
    have "p < 2 ^ 23" using assms(2,3) by (metis of_int_less_iff of_int_numeral of_int_power order_le_less_trans)
    with f32_round_error [OF True] assms(1) show ?thesis by simp
  next
    case small: False
    with f32_exponent_lower [OF False] have "(2 :: rat) powi f32_exponent p < 2 powi (- 126)" by linarith
    then have "f32_exponent p < - 126" by (metis linorder_not_less one_le_numeral power_int_increasing)
    then have "\<bar>f32_round p - p\<bar> \<le> 2 powi (- 150)" using f32_round_error_ulp [OF False] by simp
    also have "(2 :: rat) powi (- 150) < 2 powi (- 1)" by (rule power_int_strict_increasing) simp_all
    also have "(2 :: rat) powi (- 1) = 1 / 2" by (simp add: power_int_def)
    finally show ?thesis .
  qed
  with nonneg assms(2) show ?thesis by linarith
qed

lemma scaled_bounds:
  assumes "0 \<le> n" and "n < 2 ^ 23"
  shows "0 \<le> round_away (f32_mul (f32_clamp x 0 1) (of_int n)) \<and> round_away (f32_mul (f32_clamp x 0 1) (of_int n)) \<le> n"
proof -
  have x: "0 \<le> f32_clamp x 0 1" "f32_clamp x 0 1 \<le> 1" by (simp_all add: f32_clamp_def)
  have n: "(0 :: rat) \<le> of_int n" using assms(1) by simp
  from f32_round_near [OF mult_nonneg_nonneg [OF x(1) n] mult_left_le_one_le [OF n x] assms(2)]
  have "0 \<le> f32_mul (f32_clamp x 0 1) (of_int n)" "f32_mul (f32_clamp x 0 1) (of_int n) < of_int n + 1 / 2"
    by (simp_all add: f32_mul_def)
  then show ?thesis by (auto simp: round_away_def floor_le_iff le_floor_iff)
qed

lemma sint_of_int: "- (2 ^ 31) \<le> z \<Longrightarrow> z < 2 ^ 31 \<Longrightarrow> sint (word_of_int z :: i32) = z"
  by (simp add: signed_of_int signed_take_bit_int_eq_self)

lemma unat_of_int: "0 \<le> z \<Longrightarrow> z < 2 ^ 32 \<Longrightarrow> unat (word_of_int z :: u32) = nat z"
  by (simp add: unsigned_of_int take_bit_int_eq_self)

lemma sint_range: "- (2 ^ 31) \<le> sint (w :: i32)" "sint w < 2 ^ 31"
  using sint_greater_eq [of w] sint_less [of w] by simp_all

lemma sint_sum:
  assumes "- (2 ^ 31) \<le> sint (a :: i32) + k" and "sint a + k < 2 ^ 31"
  shows "sint (a + word_of_int k) = sint a + k"
proof -
  have "a + word_of_int k = word_of_int (sint a + k)" by simp
  with sint_of_int [OF assms] show ?thesis by (simp only:)
qed

lemma side_inside:
  fixes a w :: i32
  assumes w: "1 \<le> sint w" "sint w \<le> 2 ^ 23" and "sint a + sint w \<le> 2 ^ 31"
  shows "sint a \<le> sint (a + f32_as_i32 (round_away (f32_mul (f32_clamp x 0 1) (i32_as_f32 (w - 1))))) \<and>
    sint (a + f32_as_i32 (round_away (f32_mul (f32_clamp x 0 1) (i32_as_f32 (w - 1))))) < sint a + sint w"
proof -
  have n: "sint (w - 1) = sint w - 1" using sint_sum [of w "- 1"] w sint_range [of w] by simp
  have f: "i32_as_f32 (w - 1) = of_int (sint w - 1)"
    unfolding i32_as_f32_def n by (rule f32_round_int) (use w in simp)
  define k where "k = round_away (f32_mul (f32_clamp x 0 1) (of_int (sint w - 1)))"
  have k: "0 \<le> k" "k \<le> sint w - 1" using scaled_bounds [of "sint w - 1" x] w by (simp_all add: k_def)
  have "f32_as_i32 k = word_of_int k" using k w by (simp add: f32_as_i32_def)
  moreover have "sint (a + word_of_int k) = sint a + k"
    by (rule sint_sum) (use k assms sint_range [of a] in linarith)+
  ultimately show ?thesis using k unfolding f k_def [symmetric] by simp
qed

text \<open>
  C40: a touch lands in its window. For a window of at most \<open>2 ^ 23\<close> pixels on each side that lies within the
  coordinates of the screen, and whatever the coordinates, pressure and size of the contact are, the point injected
  is a pixel of the window, the pressure is between 1 and 1024, and the contact reaches between 2 and 32 pixels
  from its point: the roundings of the \<open>f32\<close> arithmetic never push it over the edge.
\<close>

theorem touch_inside_window:
  assumes "1 \<le> sint (tt_width t)" and "sint (tt_width t) \<le> 2 ^ 23" and "sint (tt_left t) + sint (tt_width t) \<le> 2 ^ 31"
    and "1 \<le> sint (tt_height t)" and "sint (tt_height t) \<le> 2 ^ 23" and "sint (tt_top t) + sint (tt_height t) \<le> 2 ^ 31"
    and "l = ac_location (contact_state t c)"
  shows "sint (tt_left t) \<le> sint (pt_x l) \<and> sint (pt_x l) < sint (tt_left t) + sint (tt_width t) \<and>
    sint (tt_top t) \<le> sint (pt_y l) \<and> sint (pt_y l) < sint (tt_top t) + sint (tt_height t) \<and>
    1 \<le> unat (ac_pressure (contact_state t c)) \<and> unat (ac_pressure (contact_state t c)) \<le> 1024 \<and>
    2 \<le> sint (ac_radius (contact_state t c)) \<and> sint (ac_radius (contact_state t c)) \<le> 32"
proof -
  define k where "k = round_away (f32_mul (f32_clamp (pressure c) 0 1) 1023)"
  have k: "0 \<le> k" "k \<le> 1023" using scaled_bounds [of 1023 "pressure c"] by (simp_all add: k_def)
  have "f32_as_u32 k + 1 = word_of_int (k + 1)" using k by (simp add: f32_as_u32_def)
  moreover have "unat (word_of_int (k + 1) :: u32) = nat (k + 1)"
    by (rule unat_of_int) (use k in simp_all)
  ultimately have p: "unat (ac_pressure (contact_state t c)) = nat (k + 1)"
    by (simp add: contact_state_def k_def)
  have l: "pt_x l = tt_left t + f32_as_i32 (round_away (f32_mul (f32_clamp (contact_x c) 0 1) (i32_as_f32 (tt_width t - 1))))"
    "pt_y l = tt_top t + f32_as_i32 (round_away (f32_mul (f32_clamp (contact_y c) 0 1) (i32_as_f32 (tt_height t - 1))))"
    by (simp_all add: assms(7) contact_state_def touch_map_def Let_def)
  have bounded: "2 \<le> sint (i32_min (i32_max v 2) 32) \<and> sint (i32_min (i32_max v 2) 32) \<le> 32" for v
    by (auto simp: i32_min_def i32_max_def)
  then have r: "2 \<le> sint (ac_radius (contact_state t c)) \<and> sint (ac_radius (contact_state t c)) \<le> 32"
    unfolding contact_state_def active_contact.select_convs .
  have "1 \<le> nat (k + 1)" "nat (k + 1) \<le> 1024" using k by simp_all
  with r show ?thesis
    using side_inside [OF assms(1-3), of "contact_x c"] side_inside [OF assms(4-6), of "contact_y c"]
    unfolding l p by blast
qed

theorem touch_inside_window_witness:
  "sint (pt_x (ac_location (contact_state sample_target (hd (contacts sample_down))))) < 1920"
  using touch_inside_window [of sample_target _ "hd (contacts sample_down)", OF _ _ _ _ _ _ refl] by (simp add: sample_target_def)

end
