(* ===== verification/Spec2Isabelle.thy ===== *)
theory Spec2Isabelle
  imports Keyboard_Sink Record_Cipher Diagnostics Session_Safety Pairing_Safety
    Policy_Safety Route_Policy_Safety V5_Host_Safety Touch_Safety
begin

text \<open>
  A verification development for Holodori phone trackpad: a phone sends its touches over UDP to a host
  program that turns them into key presses. The native host (\<open>native-host/src\<close>) is modelled from the
  wire to the key device, with the pairing, the confinement to one network interface, the routing
  policy of a Windows tether, and the diagnostics; of the launcher (\<open>tauri-launcher\<close>) the Linux
  network policy.

  \<^bold>\<open>The program.\<close> A datagram is received and opened (\<open>v5.rs\<close>, \<open>v5_host.rs\<close>), its touch frame is put in
  order by the receive window (\<open>protocol.rs\<close>), committed frame by frame through the input boundary
  (\<open>input.rs\<close>) to a sink, planned into key changes (\<open>keyboard/mod.rs\<close>) and submitted to the operating
  system (\<open>keyboard/linux.rs\<close>, \<open>keyboard/windows.rs\<close>), or injected as touches (\<open>touch.rs\<close>). Acknowledgements go back; every step leaves
  events for the diagnostics (\<open>metrics.rs\<close>, \<open>diagnostics.rs\<close>). A phone is paired once, with the consent
  of both sides, and accepted again by its stored key (\<open>credentials.rs\<close>, \<open>v5_host.rs\<close>). While a phone is
  tethered its interface may carry the local traffic only, never a default route: on Windows the host
  deletes such routes and puts them back from a journal in the registry (\<open>tether_policy/windows.rs\<close>), on
  Linux the launcher asks NetworkManager (\<open>linux_network_manager.rs\<close>).

  \<^bold>\<open>The theories\<close>, in the order of the data flow:
  \<^item> Shared: \<open>Host_Prelude\<close> (machine integers, outcomes with errors and panics, time, buffers) and
    \<open>Le_Codec\<close> (a locale of little-endian codecs with its three instances); \<open>Host_World\<close> (computations
    over the state of the process), \<open>World_Runs\<close> (those that change only the world, and what lasts while
    time passes) and \<open>Triples\<close> (total Hoare triples with a condition for failures). A loop is \<open>partial_function (option)\<close>, so \<open>None\<close> is a loop that never
    ends, and that it is not \<open>None\<close> is proved.
  \<^item> Wire formats: \<open>Wire_F32\<close> (the \<open>f32\<close> arithmetic of coordinates and lanes, equal to exact rounding),
    \<open>Protocol_V4\<close> and \<open>Protocol_V5\<close> (total parsers, round trips, checksums, the string shown in pairing).
  \<^item> Receive side: \<open>Ordered_Frames\<close> (the window of 256 slots as a refinement of a session's frames in
    order, locale \<open>reorder_window\<close>), \<open>Replay_Window\<close> (locale \<open>replay_guard\<close>: exactly the set of accepted
    sequence numbers), \<open>Record_Cipher\<close> (a nonce is used once, a record opens once).
  \<^item> Keys: \<open>Lane_Planner\<close> (\<open>plan_into\<close>), \<open>Key_Sinks\<close> (the two devices, locale \<open>key_device\<close>: each change
    submitted exactly once), \<open>Repress_Spacer\<close> (delayed presses), \<open>Keyboard_Sink\<close> (their composition),
    \<open>Input_Boundary\<close> (bounded retries, locale \<open>sink_contract\<close>).
  \<^item> Touches: \<open>Touch_Injector\<close> (\<open>touch.rs\<close>, the sink that injects touches into a window of Windows) and
    \<open>Touch_Safety\<close> (the touches that are down are those recorded, each lands in its window, and it too satisfies
    \<open>sink_contract\<close>).
  \<^item> Diagnostics: \<open>Latency_Series\<close>, \<open>Diagnostics\<close> (the analysis never panics and its tables are bounded),
    \<open>Host_Metrics\<close> (the producer of the events).
  \<^item> Network: \<open>Usb_Tether\<close> (\<open>tether.rs\<close>), \<open>Network_Binding\<close> (\<open>NetworkBinding\<close> of \<open>v5_host.rs\<close>),
    \<open>V5_Connection\<close>, \<open>Gameplay_Session\<close> (\<open>serve_gameplay\<close>), \<open>Session_Safety\<close> (what a session guarantees
    whatever the network, the kernel and the clock do).
  \<^item> Pairing: \<open>Credentials\<close>, \<open>Pairing\<close> (\<open>pair\<close>, \<open>accept_remembered\<close>), \<open>Pairing_Safety\<close> (a key is stored only
    with the consent of both sides and bound to the string shown), \<open>Remembered_Phone\<close> (only the phone whose
    key is stored is accepted again, over an interface that its binding allows).
  \<^item> The host of protocol v5: \<open>V5_Host\<close> (\<open>run_v5_controller\<close> and \<open>run_pairing_mode\<close> of \<open>bin/host.rs\<close>, as built
    for Linux) and \<open>V5_Host_Safety\<close> (its whole run is a sequence of sessions with the paired phone, separated
    by complete releases; it stops when told to and lets the keys go).
  \<^item> The legacy transport: \<open>Legacy_Link\<close> (\<open>network.rs\<close>: discovery, the connection of protocol v4 and the
    ancillary data of a datagram) and \<open>Legacy_Link_Safety\<close> (a phone is taken from a confirmed tether only,
    reading stays with its peer, interface and session, the ancillary data is read within its buffer);
    \<open>Legacy_Session\<close> (\<open>serve_connection\<close> and the loop of \<open>run\<close> in \<open>bin/host.rs\<close>, as built for Linux),
    \<open>Legacy_Session_Safety\<close> (a connection accepts and acknowledges each session in order) and
    \<open>Legacy_Run_Safety\<close> (the log of the whole run; the host stops and lets the keys go).
  \<^item> Tether policy on Windows: \<open>Route_Policy\<close> (text, tables and journal codec, \<open>protect\<close>, \<open>verify\<close>,
    \<open>restore\<close> and the recovery of \<open>tether_policy/windows.rs\<close>), \<open>Route_Policy_Safety\<close> (a route is deleted
    only once the journal has it; the journal round trip; what a restoration does to each
    interface and route, and the routes it leaves deleted).
  \<^item> Launcher: \<open>Network_Manager\<close> and \<open>Policy_Safety\<close> (\<open>linux_network_manager.rs\<close>: a profile is changed in
    two settings only, never over a concurrent edit).

  \<^bold>\<open>Conventions.\<close> Definitions carry the names of the source; a panic (index out of range, \<open>unwrap\<close>,
  overflow of a checked sum) is the outcome \<open>Panic\<close>, an error is \<open>Fail\<close> with its kind, and the texts of
  errors and of the console are left out. Machine integers are words of their width. \<open>Instant\<close> and
  \<open>Duration\<close> are natural numbers of nanoseconds.

  \<^bold>\<open>Parameters and assumptions.\<close> The AEAD, BLAKE2s and the Noise handshake, the kernel (sockets,
  interfaces, sysfs, uinput, \<open>SendInput\<close>), the Win32 calls on routes and registry (\<open>win_system\<close>, where the
  growing of a buffer until an answer fits is part of the call), \<open>serde_json\<close>, the credential store, the standard input of the pairing window,
  NetworkManager and the clock are arguments of the model, functions over an arbitrary type of states.
  What is assumed of them is named: \<open>clock_runs\<close>, \<open>socket_runs\<close>, \<open>pairing_runs\<close>, \<open>udp_runs\<close>, \<open>legacy_runs\<close> (time does
  not go back and waiting takes time), \<open>discovery_runs\<close> (also the queries about the interfaces return), \<open>stops_at\<close> and
  \<open>v5_stops_at\<close> (also reading the clock takes time and the host is told to stop at some time), \<open>touch_obeys\<close> (an injection is taken whole or not at all), the laws of an AEAD where a round trip needs them, \<open>daemon_ok\<close> (versions of a
  profile grow with every edit, a write under a stale version is refused), \<open>windows_ok\<close> (a registry
  value reads back as written, a call changes only what it is for) and \<open>json_ok\<close> (what was encoded
  decodes to itself). Each theorem with such a
  hypothesis is applied to a concrete environment in its witness. Safety theorems about sessions and
  pairing rest on ghost traces (the records sealed by the peer, the accepted frames, the remarks of the
  pairing, the log of writes and of deleted routes), which the code does not read.

  \<^bold>\<open>Loops.\<close> Every loop of the source is structural, has a measure, or is a partial function shown to
  return: commits are bounded by the stop flag and the retry deadlines, receive loops by their deadline
  under \<open>socket_runs\<close>, pairing by its window, the loops of both hosts by the time of the stop. One loop is not: the
  search of \<open>sas_pattern\<close> for the string to show rehashes a digest until its bytes qualify, which no law of the hash
  bounds. That it ends for every digest is a hypothesis of the theorem about pairing, and only of that one.

  \<^bold>\<open>Keys that stay down.\<close> A kernel may refuse to release a key. What the hosts and a session then return is the
  refusal: \<open>gave_up\<close> of \<open>Input_Boundary\<close> says that the release was tried until its deadline and that the error is
  that of its last attempt. The spacing of re-presses is a property of the runs \<open>spacer_run\<close> of \<open>Repress_Spacer\<close>,
  and \<open>Keyboard_Sink\<close> shows that the keyboard uses its spacer in such runs; that its queue drains is for a kernel
  that takes each write whole (\<open>takes_all\<close>).

  \<^bold>\<open>Not modelled.\<close> The socket options and the calls \<open>recvmsg\<close> and \<open>WSARecvMsg\<close>, the thread
  of the interface monitor (reduced to the flag it sets), the lock-free queue and worker of the metrics,
  JSON, the platform stores of the credentials, of \<open>bin/host.rs\<close> the command line,
  the threads for the standard input and the status lines and the calls of the Windows routing policy inside its
  loops, the rest of the launcher, and the Android app, which is written in Java: to the host the phone is any peer.
\<close>

end
